(* ===== verification/Prelude.thy ===== *)
theory Prelude
  imports Main "HOL-Library.Word" "HOL-Library.Multiset"
begin

text \<open>
  Shared vocabulary of the development: names for the Rust machine types, the
  fallible-result combinators that render the Rust \<open>?\<close> operator, the checked
  \<open>usize\<close> operations, a stable sort by a comparison function, and generic list lemmas.

  A Rust \<open>Result<T, E>\<close> is a value of \<open>'e + 'a\<close>: \<open>Inl\<close> is \<open>Err\<close> and \<open>Inr\<close> is \<open>Ok\<close>.
  A \<open>usize\<close> that counts or indexes objects in memory is a \<open>nat\<close>; where the source
  multiplies or adds user-controlled sizes, the 64-bit bound is written out
  with \<open>checked_add\<close>, \<open>checked_mul\<close> or \<open>wrap64\<close>.
\<close>

unbundle bit_operations_syntax

type_synonym u8 = "8 word"
type_synonym u32 = "32 word"
type_synonym u64 = "64 word"

named_theorems res_simps \<open>inversion of computations in the result type\<close>

section \<open>Fallible computations\<close>

definition rbind :: "'e + 'a \<Rightarrow> ('a \<Rightarrow> 'e + 'b) \<Rightarrow> 'e + 'b" where
  "rbind m f = (case m of Inl e \<Rightarrow> Inl e | Inr x \<Rightarrow> f x)"

definition ensure :: "bool \<Rightarrow> 'e \<Rightarrow> 'e + unit" where
  "ensure c e = (if c then Inr () else Inl e)"

definition ok_or :: "'a option \<Rightarrow> 'e \<Rightarrow> 'e + 'a" where
  "ok_or x e = (case x of None \<Rightarrow> Inl e | Some y \<Rightarrow> Inr y)"

fun map_res :: "('a \<Rightarrow> 'e + 'b) \<Rightarrow> 'a list \<Rightarrow> 'e + 'b list" where
  "map_res f [] = Inr []"
| "map_res f (x # xs) = rbind (f x) (\<lambda>y. rbind (map_res f xs) (\<lambda>ys. Inr (y # ys)))"

fun for_each_res :: "('a \<Rightarrow> 'e + unit) \<Rightarrow> 'a list \<Rightarrow> 'e + unit" where
  "for_each_res f [] = Inr ()"
| "for_each_res f (x # xs) = rbind (f x) (\<lambda>_. for_each_res f xs)"

lemma rbind_simps [simp]: "rbind (Inl e) f = Inl e" "rbind (Inr x) f = f x"
  by (simp_all add: rbind_def)

lemma rbind_Inr_conv [res_simps]: "rbind m f = Inr y \<longleftrightarrow> (\<exists>x. m = Inr x \<and> f x = Inr y)"
  by (cases m) simp_all

lemma rbind_Inl_conv [res_simps]:
  "rbind m f = Inl e \<longleftrightarrow> m = Inl e \<or> (\<exists>x. m = Inr x \<and> f x = Inl e)"
  by (cases m) simp_all

lemma ensure_Inr [res_simps, simp]: "ensure c e = Inr u \<longleftrightarrow> c"
  by (simp add: ensure_def)

lemma ensure_Inl [res_simps, simp]: "ensure c e = Inl e' \<longleftrightarrow> \<not> c \<and> e' = e"
  by (auto simp: ensure_def)

lemma ensure_True [simp]: "ensure True e = Inr ()" and ensure_False [simp]: "ensure False e = Inl e"
  by (simp_all add: ensure_def)

lemma ok_or_Inr [res_simps, simp]: "ok_or x e = Inr y \<longleftrightarrow> x = Some y"
  by (simp add: ok_or_def split: option.splits)

lemma ok_or_Inl [res_simps, simp]: "ok_or x e = Inl e' \<longleftrightarrow> x = None \<and> e' = e"
  by (auto simp: ok_or_def split: option.splits)

lemma ok_or_simps [simp]: "ok_or None e = Inl e" "ok_or (Some x) e = Inr x"
  by (simp_all add: ok_or_def)

lemma map_res_Inr_conv:
  "map_res f xs = Inr ys \<longleftrightarrow> list_all2 (\<lambda>x y. f x = Inr y) xs ys"
  by (induction xs arbitrary: ys) (auto simp: res_simps list_all2_Cons1)

lemma map_res_length: "map_res f xs = Inr ys \<Longrightarrow> length ys = length xs"
  by (simp add: map_res_Inr_conv list_all2_lengthD)

lemma map_res_all_Inr: "(\<And>x. x \<in> set xs \<Longrightarrow> f x = Inr (g x)) \<Longrightarrow> map_res f xs = Inr (map g xs)"
  by (induction xs) simp_all

lemma for_each_res_Inr_conv: "for_each_res f xs = Inr u \<longleftrightarrow> (\<forall>x \<in> set xs. f x = Inr ())"
  by (induction xs) (auto simp: res_simps)

section \<open>Sizes\<close>

text \<open>\<open>usize\<close> has 64 bits: \<open>checked_add\<close> and \<open>checked_mul\<close> are \<open>None\<close> on overflow, plain
  arithmetic in a release build wraps.\<close>

definition usize_bound :: nat where
  "usize_bound = 2 ^ 64"

definition checked_add :: "nat \<Rightarrow> nat \<Rightarrow> nat option" where
  "checked_add a b = (if a + b < usize_bound then Some (a + b) else None)"

definition checked_mul :: "nat \<Rightarrow> nat \<Rightarrow> nat option" where
  "checked_mul a b = (if a * b < usize_bound then Some (a * b) else None)"

definition wrap64 :: "nat \<Rightarrow> nat" where
  "wrap64 n = n mod usize_bound"

definition umul :: "nat \<Rightarrow> nat \<Rightarrow> nat" where
  "umul a b = wrap64 (a * b)"

definition uadd :: "nat \<Rightarrow> nat \<Rightarrow> nat" where
  "uadd a b = wrap64 (a + b)"

definition saturating_mul :: "nat \<Rightarrow> nat \<Rightarrow> nat" where
  "saturating_mul a b = min (a * b) (usize_bound - 1)"

definition div_ceil :: "nat \<Rightarrow> nat \<Rightarrow> nat" where
  "div_ceil a b = (if a mod b = 0 then a div b else a div b + 1)"

definition as_u32 :: "nat \<Rightarrow> u32" where
  "as_u32 n = word_of_nat n"

lemma checked_add_Some [simp]: "checked_add a b = Some c \<longleftrightarrow> c = a + b \<and> a + b < usize_bound"
  by (auto simp: checked_add_def)

lemma checked_mul_Some [simp]: "checked_mul a b = Some c \<longleftrightarrow> c = a * b \<and> a * b < usize_bound"
  by (auto simp: checked_mul_def)

lemma wrap64_id: "n < usize_bound \<Longrightarrow> wrap64 n = n"
  by (simp add: wrap64_def)

lemma umul_id: "a * b < usize_bound \<Longrightarrow> umul a b = a * b"
  by (simp add: umul_def wrap64_id)

lemma uadd_id: "a + b < usize_bound \<Longrightarrow> uadd a b = a + b"
  by (simp add: uadd_def wrap64_id)

lemma div_ceil_bounds: "0 < b \<Longrightarrow> a \<le> div_ceil a b * b \<and> div_ceil a b * b < a + b"
proof -
  assume b: "0 < b"
  have eq: "a = a div b * b + a mod b" by simp
  have lt: "a mod b < b" using b by simp
  show ?thesis
  proof (cases "a mod b = 0")
    case True
    then show ?thesis using eq b by (simp add: div_ceil_def)
  next
    case False
    then have "0 < a mod b" by simp
    moreover have "div_ceil a b * b = a div b * b + b" using False by (simp add: div_ceil_def)
    ultimately show ?thesis using eq lt by linarith
  qed
qed

lemma unat_as_u32: "n < 2 ^ 32 \<Longrightarrow> unat (as_u32 n) = n"
  by (simp add: as_u32_def take_bit_nat_eq_self unsigned_of_nat)

section \<open>Stable sorting by a comparison\<close>

text \<open>
  Rust's \<open>sort_by\<close> is stable. Here it is an insertion sort from the right, which puts an
  element in front of the elements it is not greater than: for a comparison that is a
  total preorder, every stable sort returns the same list. (For a comparison that is not,
  Rust leaves the order unspecified; the properties that use a sort assume a preorder.)
\<close>

fun insort_le :: "('a \<Rightarrow> 'a \<Rightarrow> bool) \<Rightarrow> 'a \<Rightarrow> 'a list \<Rightarrow> 'a list" where
  "insort_le le x [] = [x]"
| "insort_le le x (y # ys) = (if le x y then x # y # ys else y # insort_le le x ys)"

definition sort_le :: "('a \<Rightarrow> 'a \<Rightarrow> bool) \<Rightarrow> 'a list \<Rightarrow> 'a list" where
  "sort_le le xs = foldr (insort_le le) xs []"

lemma sort_le_simps [simp]:
  "sort_le le [] = []" "sort_le le (x # xs) = insort_le le x (sort_le le xs)"
  by (simp_all add: sort_le_def)

lemma mset_insort_le [simp]: "mset (insort_le le x xs) = add_mset x (mset xs)"
  by (induction xs) auto

lemma mset_sort_le [simp]: "mset (sort_le le xs) = mset xs"
  by (induction xs) auto

lemma set_sort_le [simp]: "set (sort_le le xs) = set xs"
  by (metis mset_sort_le set_mset_mset)

lemma length_sort_le [simp]: "length (sort_le le xs) = length xs"
  by (metis mset_sort_le size_mset)

lemma distinct_sort_le [simp]: "distinct (sort_le le xs) = distinct xs"
  by (metis mset_sort_le mset_eq_imp_distinct_iff)

lemma set_insort_le [simp]: "set (insort_le le x xs) = insert x (set xs)"
  by (induction xs) auto

definition preorder_on_set :: "'a set \<Rightarrow> ('a \<Rightarrow> 'a \<Rightarrow> bool) \<Rightarrow> bool" where
  "preorder_on_set A le \<longleftrightarrow>
     (\<forall>x\<in>A. \<forall>y\<in>A. le x y \<or> le y x) \<and>
     transp_on A le"

lemma preorder_on_set_total: "preorder_on_set A le \<Longrightarrow> x \<in> A \<Longrightarrow> y \<in> A \<Longrightarrow> le x y \<or> le y x"
  by (simp add: preorder_on_set_def)

lemma preorder_on_set_trans:
  "preorder_on_set A le \<Longrightarrow> x \<in> A \<Longrightarrow> y \<in> A \<Longrightarrow> z \<in> A \<Longrightarrow> le x y \<Longrightarrow> le y z \<Longrightarrow> le x z"
  by (rule transp_onD [of A le]) (simp_all add: preorder_on_set_def)

lemma preorder_on_setI:
  assumes "\<And>x y. x \<in> A \<Longrightarrow> y \<in> A \<Longrightarrow> le x y \<or> le y x"
    and "\<And>x y z. x \<in> A \<Longrightarrow> y \<in> A \<Longrightarrow> z \<in> A \<Longrightarrow> le x y \<Longrightarrow> le y z \<Longrightarrow> le x z"
  shows "preorder_on_set A le"
  unfolding preorder_on_set_def
  by (intro conjI ballI transp_onI) (erule (1) assms(1), erule (4) assms(2))

lemma preorder_on_set_subset:
  assumes "preorder_on_set A le" "B \<subseteq> A"
  shows "preorder_on_set B le"
proof (rule preorder_on_setI)
  show "le x y \<or> le y x" if "x \<in> B" "y \<in> B" for x y
    using preorder_on_set_total [OF assms(1), of x y] that assms(2) by auto
  show "le x z" if "x \<in> B" "y \<in> B" "z \<in> B" "le x y" "le y z" for x y z
    using preorder_on_set_trans [OF assms(1), of x y z] that assms(2) by auto
qed

definition total_preorder :: "('a \<Rightarrow> 'a \<Rightarrow> bool) \<Rightarrow> bool" where
  "total_preorder le \<longleftrightarrow> preorder_on_set UNIV le"

lemma total_preorder_on_set: "total_preorder le \<Longrightarrow> preorder_on_set A le"
  unfolding total_preorder_def by (erule preorder_on_set_subset) simp

lemma total_preorderI:
  assumes "\<And>x y. le x y \<or> le y x" and "\<And>x y z. le x y \<Longrightarrow> le y z \<Longrightarrow> le x z"
  shows "total_preorder le"
  unfolding total_preorder_def by (rule preorder_on_setI) (rule assms(1), erule (1) assms(2))

lemma sorted_wrt_insort_le:
  assumes "preorder_on_set A le" "x \<in> A" "set xs \<subseteq> A" "sorted_wrt le xs"
  shows "sorted_wrt le (insort_le le x xs)"
  using assms(3,4)
proof (induction xs)
  case Nil
  then show ?case by simp
next
  case (Cons y ys)
  show ?case
  proof (cases "le x y")
    case True
    have "le x z" if "z \<in> set ys" for z
      using preorder_on_set_trans [OF assms(1,2), of y z] Cons.prems that True by auto
    then show ?thesis using True Cons.prems(2) by simp
  next
    case False
    then have "le y x" using preorder_on_set_total [OF assms(1,2), of y] Cons.prems(1) by auto
    then show ?thesis using False Cons by simp
  qed
qed

lemma sorted_wrt_sort_le_on: "preorder_on_set (set xs) le \<Longrightarrow> sorted_wrt le (sort_le le xs)"
proof (induction xs)
  case Nil
  then show ?case by simp
next
  case (Cons x xs)
  have "sorted_wrt le (sort_le le xs)"
    by (rule Cons.IH [OF preorder_on_set_subset [OF Cons.prems]]) auto
  then show ?case
    using sorted_wrt_insort_le [OF Cons.prems, of x "sort_le le xs"] by auto
qed

lemma sorted_wrt_sort_le: "total_preorder le \<Longrightarrow> sorted_wrt le (sort_le le xs)"
  by (simp add: sorted_wrt_sort_le_on total_preorder_on_set)

section \<open>Lists\<close>

lemma strict_sorted_eqI:
  fixes xs ys :: "'a::linorder list"
  assumes "sorted_wrt (<) xs" "sorted_wrt (<) ys" "set xs = set ys"
  shows "xs = ys"
  using assms strict_sorted_equal by blast

lemma take_sorted_wrt_le_drop:
  "sorted_wrt P xs \<Longrightarrow> x \<in> set (take n xs) \<Longrightarrow> y \<in> set (drop n xs) \<Longrightarrow> P x y"
  by (metis append_take_drop_id sorted_wrt_append)

lemma take_drop_append: "m + n \<le> length xs \<Longrightarrow> take n (drop m (xs @ ys)) = take n (drop m xs)"
  by simp

lemma drop_append2:
  "length xs = a \<Longrightarrow> length ys = w \<Longrightarrow> a + w \<le> n \<Longrightarrow> drop n (xs @ ys @ zs) = drop (n - a - w) zs"
  by simp

text \<open>Fixed-width blocks of a list: replacing block \<open>s\<close> changes only the reads of block \<open>s\<close>.\<close>

lemma block_read_write:
  assumes "(s + 1) * w \<le> length r" "(t + 1) * w \<le> length r" "length row = w"
  shows "take w (drop (t * w) (take (s * w) r @ row @ drop ((s + 1) * w) r)) =
    (if t = s then row else take w (drop (t * w) r))"
proof -
  consider "t = s" | "t < s" | "s < t" by fastforce
  then show ?thesis
  proof cases
    case 1
    then show ?thesis using assms by (simp add: min_def)
  next
    case 2
    then have le: "(t + 1) * w \<le> s * w" by (intro mult_le_mono1) simp
    have "take w (drop (t * w) (take (s * w) r @ row @ drop ((s + 1) * w) r))
        = take w (drop (t * w) (take (s * w) r))"
      using le assms by (intro take_drop_append) simp
    also have "\<dots> = take w (drop (t * w) r)"
      using le by (simp add: drop_take min_def)
    finally show ?thesis using 2 by simp
  next
    case 3
    then have le: "(s + 1) * w \<le> t * w" by (intro mult_le_mono1) simp
    have "length (take (s * w) r) = s * w" using assms(1) by simp
    then have "drop (t * w) (take (s * w) r @ row @ drop ((s + 1) * w) r)
        = drop (t * w - s * w - w) (drop ((s + 1) * w) r)"
      using le assms(3) by (intro drop_append2) simp_all
    also have "\<dots> = drop (t * w) r" using le by (simp add: add.commute)
    finally show ?thesis using 3 by simp
  qed
qed

end
