(* ===== verification/Floats.thy ===== *)
theory Floats
  imports Prelude
begin

text \<open>
  The \<open>f32\<close> and \<open>f64\<close> of the source, as IEEE-754 binary32 and binary64 bit patterns.

  A float is its bits (\<open>to_bits\<close>), so what is stored is what is read back. Comparisons read
  the sign and the magnitude bits as an integer key, which orders non-NaN values as IEEE
  does and identifies the two zeros; \<open>total_cmp\<close> is Rust's total order on bit patterns.
  Arithmetic is exact on integers in units of the smallest subnormal, followed by one
  rounding to nearest, ties to even (\<open>round_mag\<close>), which overflows to infinity. The NaN an
  operation makes is the canonical quiet NaN (Rust leaves its payload unspecified).
\<close>

section \<open>Formats and fields\<close>

datatype 'b ieee = Ieee (to_bits: 'b)

type_synonym f32 = "32 word ieee"
type_synonym f64 = "64 word ieee"

definition frac_bits :: "nat \<Rightarrow> nat" where
  "frac_bits w = (if w = 32 then 23 else 52)"

definition sign_weight :: "nat \<Rightarrow> nat" where
  "sign_weight w = 2 ^ (w - 1)"

text \<open>The magnitude bits of infinity: all exponent bits set, no fraction bit.\<close>

definition inf_mag :: "nat \<Rightarrow> nat" where
  "inf_mag w = sign_weight w - 2 ^ frac_bits w"

text \<open>\<open>unit_exp w\<close> is the \<open>s\<close> with smallest subnormal \<open>2 ^ (- s)\<close>: 149 and 1074.\<close>

definition unit_exp :: "nat \<Rightarrow> nat" where
  "unit_exp w = (if w = 32 then 149 else 1074)"

definition mag :: "'w::len word ieee \<Rightarrow> nat" where
  "mag x = unat (to_bits x) mod sign_weight LENGTH('w)"

definition sign_neg :: "'w::len word ieee \<Rightarrow> bool" where
  "sign_neg x \<longleftrightarrow> sign_weight LENGTH('w) \<le> unat (to_bits x)"

definition mk_float :: "bool \<Rightarrow> nat \<Rightarrow> 'w::len word ieee" where
  "mk_float s m = Ieee (word_of_nat (m + (if s then sign_weight LENGTH('w) else 0)))"

definition is_nan :: "'w::len word ieee \<Rightarrow> bool" where
  "is_nan x \<longleftrightarrow> inf_mag LENGTH('w) < mag x"

definition is_inf :: "'w::len word ieee \<Rightarrow> bool" where
  "is_inf x \<longleftrightarrow> mag x = inf_mag LENGTH('w)"

definition is_finite :: "'w::len word ieee \<Rightarrow> bool" where
  "is_finite x \<longleftrightarrow> mag x < inf_mag LENGTH('w)"

definition fzero :: "'w::len word ieee" where
  "fzero = mk_float False 0"

definition infinity :: "'w::len word ieee" where
  "infinity = mk_float False (inf_mag LENGTH('w))"

definition neg_infinity :: "'w::len word ieee" where
  "neg_infinity = mk_float True (inf_mag LENGTH('w))"

definition nan :: "'w::len word ieee" where
  "nan = mk_float False (inf_mag LENGTH('w) + 2 ^ (frac_bits LENGTH('w) - 1))"

lemmas float_layout = frac_bits_def sign_weight_def inf_mag_def unit_exp_def

lemma sign_weight_pos [simp]: "0 < sign_weight w"
  by (simp add: sign_weight_def)

lemma unat_lt_twice_sign_weight: "unat (x :: 'w::len word) < 2 * sign_weight LENGTH('w)"
proof -
  have "2 * (2::nat) ^ (LENGTH('w) - 1) = 2 ^ LENGTH('w)"
    by (cases "LENGTH('w)") simp_all
  then show ?thesis
    using unsigned_less [of x, where ?'a = nat] by (simp add: sign_weight_def)
qed

lemma mag_lt [simp]: "mag (x :: 'w::len word ieee) < sign_weight LENGTH('w)"
  by (simp add: mag_def)

lemma unat_to_bits:
  "unat (to_bits (x :: 'w::len word ieee)) = mag x + (if sign_neg x then sign_weight LENGTH('w) else 0)"
proof (cases "sign_neg x")
  case True
  then have "sign_weight LENGTH('w) \<le> unat (to_bits x)" by (simp add: sign_neg_def)
  moreover have "unat (to_bits x) < 2 * sign_weight LENGTH('w)"
    by (rule unat_lt_twice_sign_weight)
  ultimately have "unat (to_bits x) mod sign_weight LENGTH('w) = unat (to_bits x) - sign_weight LENGTH('w)"
    by (simp add: le_mod_geq)
  with True \<open>sign_weight LENGTH('w) \<le> _\<close> show ?thesis by (simp add: mag_def)
next
  case False
  then show ?thesis by (simp add: sign_neg_def mag_def)
qed

lemma unat_mk_float:
  assumes "m < sign_weight LENGTH('w)"
  shows "unat (to_bits (mk_float s m :: 'w::len word ieee)) = m + (if s then sign_weight LENGTH('w) else 0)"
proof -
  have "2 * (2::nat) ^ (LENGTH('w) - 1) = 2 ^ LENGTH('w)"
    by (cases "LENGTH('w)") simp_all
  with assms have "m + (if s then sign_weight LENGTH('w) else 0) < 2 ^ LENGTH('w)"
    by (auto simp: sign_weight_def)
  then show ?thesis
    by (simp add: mk_float_def take_bit_nat_eq_self unsigned_of_nat del: of_nat_add)
qed

lemma mag_mk_float [simp]:
  "m < sign_weight LENGTH('w) \<Longrightarrow> mag (mk_float s m :: 'w::len word ieee) = m"
  by (auto simp: mag_def unat_mk_float)

lemma sign_neg_mk_float [simp]:
  "m < sign_weight LENGTH('w) \<Longrightarrow> sign_neg (mk_float s m :: 'w::len word ieee) = s"
  by (auto simp: sign_neg_def unat_mk_float)

lemma float_eqI:
  fixes x y :: "'w::len word ieee"
  assumes "mag x = mag y" "sign_neg x = sign_neg y"
  shows "x = y"
proof -
  have "unat (to_bits x) = unat (to_bits y)"
    using assms by (simp add: unat_to_bits)
  then have "to_bits x = to_bits y" by (rule word_unat_eq_iff [THEN iffD2])
  then show ?thesis by (rule ieee.expand)
qed

lemma mk_float_collapse [simp]: "mk_float (sign_neg x) (mag x) = (x :: 'w::len word ieee)"
  by (rule float_eqI) simp_all

section \<open>Comparisons\<close>

definition fkey :: "'w::len word ieee \<Rightarrow> int" where
  "fkey x = (if sign_neg x then - int (mag x) else int (mag x))"

definition flt :: "'w::len word ieee \<Rightarrow> 'w word ieee \<Rightarrow> bool" where
  "flt a b \<longleftrightarrow> \<not> is_nan a \<and> \<not> is_nan b \<and> fkey a < fkey b"

definition fle :: "'w::len word ieee \<Rightarrow> 'w word ieee \<Rightarrow> bool" where
  "fle a b \<longleftrightarrow> \<not> is_nan a \<and> \<not> is_nan b \<and> fkey a \<le> fkey b"

definition feq :: "'w::len word ieee \<Rightarrow> 'w word ieee \<Rightarrow> bool" where
  "feq a b \<longleftrightarrow> \<not> is_nan a \<and> \<not> is_nan b \<and> fkey a = fkey b"

text \<open>\<open>a.partial_cmp(b).unwrap_or(Equal) != Greater\<close>: unordered pairs compare equal.\<close>

definition partial_le :: "'w::len word ieee \<Rightarrow> 'w word ieee \<Rightarrow> bool" where
  "partial_le a b \<longleftrightarrow> \<not> flt b a"

definition partial_lt :: "'w::len word ieee \<Rightarrow> 'w word ieee \<Rightarrow> bool" where
  "partial_lt a b \<longleftrightarrow> flt a b"

definition total_key :: "'w::len word ieee \<Rightarrow> int" where
  "total_key x = (if sign_neg x then - int (mag x) - 1 else int (mag x))"

definition fmin :: "'w::len word ieee \<Rightarrow> 'w word ieee \<Rightarrow> 'w word ieee" where
  "fmin a b = (if is_nan a then b else if is_nan b then a else if flt b a then b else a)"

definition fmax :: "'w::len word ieee \<Rightarrow> 'w word ieee \<Rightarrow> 'w word ieee" where
  "fmax a b = (if is_nan a then b else if is_nan b then a else if flt a b then b else a)"

text \<open>\<open>clamp\<close> of the standard library, for bounds in order.\<close>

definition fclamp :: "'w::len word ieee \<Rightarrow> 'w word ieee \<Rightarrow> 'w word ieee \<Rightarrow> 'w word ieee" where
  "fclamp x lo hi = (if flt x lo then lo else if flt hi x then hi else x)"

lemmas fcmp_defs = flt_def fle_def feq_def partial_le_def partial_lt_def

lemma flt_irrefl [simp]: "\<not> flt x x" and flt_asym: "flt x y \<Longrightarrow> \<not> flt y x"
  by (auto simp: fcmp_defs)

lemma flt_trans: "flt x y \<Longrightarrow> flt y z \<Longrightarrow> flt x z"
  by (auto simp: fcmp_defs)

lemma partial_le_preorder: "preorder_on_set {x. \<not> is_nan x} partial_le"
  by (rule preorder_on_setI) (auto simp: fcmp_defs)

lemma total_key_inj: "total_key x = total_key y \<Longrightarrow> x = (y :: 'w::len word ieee)"
  by (rule float_eqI) (auto simp: total_key_def split: if_splits)

lemma fclamp_in_range:
  "fle lo hi \<Longrightarrow> \<not> is_nan x \<Longrightarrow> fle lo (fclamp x lo hi) \<and> fle (fclamp x lo hi) hi"
  by (auto simp: fclamp_def fcmp_defs)

lemma fclamp_nan: "is_nan x \<Longrightarrow> fclamp x lo hi = x"
  by (simp add: fclamp_def fcmp_defs)

lemma fmin_le: "\<not> is_nan b \<Longrightarrow> fle (fmin a b) b"
  by (auto simp: fmin_def fcmp_defs)

lemma fmax_ge: "\<not> is_nan b \<Longrightarrow> fle b (fmax a b)"
  by (auto simp: fmax_def fcmp_defs)

lemma fmax_ge1: "\<not> is_nan a \<Longrightarrow> fle a (fmax a b)"
  by (auto simp: fmax_def fcmp_defs)

section \<open>Values in units and rounding\<close>

text \<open>
  A finite magnitude is an integer number of units \<open>2 ^ (- unit_exp w)\<close>.
\<close>

definition units_of :: "nat \<Rightarrow> nat \<Rightarrow> nat" where
  "units_of fb m = (let e = m div 2 ^ fb; f = m mod 2 ^ fb
                    in if e = 0 then f else (2 ^ fb + f) * 2 ^ (e - 1))"

definition units :: "'w::len word ieee \<Rightarrow> nat" where
  "units x = units_of (frac_bits LENGTH('w)) (mag x)"

definition fval :: "'w::len word ieee \<Rightarrow> int" where
  "fval x = (if sign_neg x then - int (units x) else int (units x))"

fun ilog2 :: "nat \<Rightarrow> nat" where
  "ilog2 n = (if n < 2 then 0 else Suc (ilog2 (n div 2)))"

declare ilog2.simps [simp del]

definition round_half_even :: "nat \<Rightarrow> nat \<Rightarrow> nat" where
  "round_half_even p q = (let d = p div q; r = p mod q
     in if q < 2 * r \<or> (2 * r = q \<and> odd d) then d + 1 else d)"

text \<open>\<open>round_mag fb inf p q\<close>: the magnitude nearest to \<open>p / q\<close> units.\<close>

definition round_mag :: "nat \<Rightarrow> nat \<Rightarrow> nat \<Rightarrow> nat \<Rightarrow> nat" where
  "round_mag fb imag p q = (let e = ilog2 (p div q) - fb
     in min imag (e * 2 ^ fb + round_half_even p (q * 2 ^ e)))"

definition round_float :: "bool \<Rightarrow> nat \<Rightarrow> nat \<Rightarrow> 'w::len word ieee" where
  "round_float s p q = mk_float s (round_mag (frac_bits LENGTH('w)) (inf_mag LENGTH('w)) p q)"

section \<open>Arithmetic\<close>

definition fneg :: "'w::len word ieee \<Rightarrow> 'w word ieee" where
  "fneg x = mk_float (\<not> sign_neg x) (mag x)"

definition fabs :: "'w::len word ieee \<Rightarrow> 'w word ieee" where
  "fabs x = mk_float False (mag x)"

definition fadd :: "'w::len word ieee \<Rightarrow> 'w word ieee \<Rightarrow> 'w word ieee" where
  "fadd a b =
     (if is_nan a \<or> is_nan b then nan
      else if is_inf a then (if is_inf b \<and> sign_neg a \<noteq> sign_neg b then nan else a)
      else if is_inf b then b
      else let z = fval a + fval b in
        if z = 0 then mk_float (sign_neg a \<and> sign_neg b) 0
        else round_float (z < 0) (nat \<bar>z\<bar>) 1)"

definition fsub :: "'w::len word ieee \<Rightarrow> 'w word ieee \<Rightarrow> 'w word ieee" where
  "fsub a b = (if is_nan b then nan else fadd a (fneg b))"

definition fmul :: "'w::len word ieee \<Rightarrow> 'w word ieee \<Rightarrow> 'w word ieee" where
  "fmul a b =
     (let s = (sign_neg a \<noteq> sign_neg b) in
      if is_nan a \<or> is_nan b then nan
      else if is_inf a \<or> is_inf b then (if mag a = 0 \<or> mag b = 0 then nan else mk_float s (inf_mag LENGTH('w)))
      else round_float s (units a * units b) (2 ^ unit_exp LENGTH('w)))"

definition fdiv :: "'w::len word ieee \<Rightarrow> 'w word ieee \<Rightarrow> 'w word ieee" where
  "fdiv a b =
     (let s = (sign_neg a \<noteq> sign_neg b) in
      if is_nan a \<or> is_nan b then nan
      else if is_inf a then (if is_inf b then nan else mk_float s (inf_mag LENGTH('w)))
      else if is_inf b then mk_float s 0
      else if mag b = 0 then (if mag a = 0 then nan else mk_float s (inf_mag LENGTH('w)))
      else round_float s (units a * 2 ^ unit_exp LENGTH('w)) (units b))"

text \<open>\<open>a.mul_add(b, c)\<close>: one rounding.\<close>

definition ffma :: "'w::len word ieee \<Rightarrow> 'w word ieee \<Rightarrow> 'w word ieee \<Rightarrow> 'w word ieee" where
  "ffma a b c =
     (let s = (sign_neg a \<noteq> sign_neg b) in
      if is_nan a \<or> is_nan b \<or> is_nan c then nan
      else if is_inf a \<or> is_inf b then
        (if mag a = 0 \<or> mag b = 0 \<or> (is_inf c \<and> sign_neg c \<noteq> s) then nan
         else mk_float s (inf_mag LENGTH('w)))
      else if is_inf c then c
      else let z = fval a * fval b + fval c * 2 ^ unit_exp LENGTH('w) in
        if z = 0 then mk_float (s \<and> sign_neg c) 0
        else round_float (z < 0) (nat \<bar>z\<bar>) (2 ^ unit_exp LENGTH('w)))"

text \<open>The rational \<open>p / q\<close> (a literal of the source, or an integer converted by \<open>as\<close>).\<close>

definition flit :: "nat \<Rightarrow> nat \<Rightarrow> 'w::len word ieee" where
  "flit p q = round_float False (p * 2 ^ unit_exp LENGTH('w)) q"

definition f64_of_f32 :: "f32 \<Rightarrow> f64" where
  "f64_of_f32 x =
     (if is_nan x then nan
      else if is_inf x then mk_float (sign_neg x) (inf_mag 64)
      else round_float (sign_neg x) (units x * 2 ^ (1074 - 149)) 1)"

definition f32_of_f64 :: "f64 \<Rightarrow> f32" where
  "f32_of_f64 x =
     (if is_nan x then nan
      else if is_inf x then mk_float (sign_neg x) (inf_mag 32)
      else round_float (sign_neg x) (units x) (2 ^ (1074 - 149)))"

text \<open>\<open>x as u32\<close>: truncation, saturating, NaN to zero.\<close>

definition trunc_u32 :: "'w::len word ieee \<Rightarrow> u32" where
  "trunc_u32 x =
     (if is_nan x \<or> sign_neg x then 0
      else if is_inf x then - 1
      else word_of_nat (min (units x div 2 ^ unit_exp LENGTH('w)) (2 ^ 32 - 1)))"

text \<open>\<open>floor\<close> of a value that is not negative (a negative value is not floored in the source).\<close>

definition ffloor_nonneg :: "'w::len word ieee \<Rightarrow> 'w word ieee" where
  "ffloor_nonneg x =
     (if is_nan x \<or> is_inf x then x
      else round_float (sign_neg x) (units x div 2 ^ unit_exp LENGTH('w) * 2 ^ unit_exp LENGTH('w)) 1)"

text \<open>\<open>sqrt\<close>, correctly rounded: the integer root of \<open>units * 2 ^ unit_exp\<close> has more bits than a
  significand, so half a unit stands for all the bits below it.\<close>

fun isqrt :: "nat \<Rightarrow> nat" where
  "isqrt n = (if n = 0 then 0
     else let r = 2 * isqrt (n div 4) in if (r + 1) * (r + 1) \<le> n then r + 1 else r)"

declare isqrt.simps [simp del]

definition fsqrt :: "'w::len word ieee \<Rightarrow> 'w word ieee" where
  "fsqrt x =
     (if is_nan x then nan
      else if mag x = 0 then x
      else if sign_neg x then nan
      else if is_inf x then x
      else let n = units x * 2 ^ unit_exp LENGTH('w); r = isqrt n
        in round_float False (2 * r + (if r * r = n then 0 else 1)) 2)"

text \<open>\<open>2.0.powi(k)\<close>, exact for the exponents the source uses.\<close>

definition pow2f :: "int \<Rightarrow> 'w::len word ieee" where
  "pow2f k = (if 0 \<le> k then flit (2 ^ nat k) 1 else flit 1 (2 ^ nat (- k)))"

section \<open>Rounding is exact on representable values and monotone\<close>

lemma ilog2_unique:
  assumes "2 ^ k \<le> n" "n < 2 ^ Suc k"
  shows "ilog2 n = k"
  using assms
proof (induction k arbitrary: n)
  case 0
  then show ?case by (subst ilog2.simps) simp
next
  case (Suc k)
  then have "2 ^ k \<le> n div 2" "n div 2 < 2 ^ Suc k" by simp_all
  then have "ilog2 (n div 2) = k" by (rule Suc.IH)
  moreover have "1 \<le> (2::nat) ^ k" by simp
  with Suc.prems(1) have "\<not> n < 2" unfolding power_Suc by linarith
  ultimately show ?case by (subst ilog2.simps) simp
qed

lemma ilog2_bounds: "0 < n \<Longrightarrow> 2 ^ ilog2 n \<le> n \<and> n < 2 ^ Suc (ilog2 n)"
proof (induction n rule: ilog2.induct)
  case (1 n)
  show ?case
  proof (cases "n < 2")
    case True
    then have "n = 1" using "1.prems" by simp
    then show ?thesis by (simp add: ilog2.simps)
  next
    case False
    then have "2 ^ ilog2 (n div 2) \<le> n div 2 \<and> n div 2 < 2 ^ Suc (ilog2 (n div 2))"
      using "1.IH" by simp
    then show ?thesis using False by (subst (1 2) ilog2.simps) auto
  qed
qed

lemma ilog2_0 [simp]: "ilog2 0 = 0"
  by (subst ilog2.simps) simp

lemma ilog2_mono: "m \<le> n \<Longrightarrow> ilog2 m \<le> ilog2 n"
proof (rule ccontr)
  assume mn: "m \<le> n" and "\<not> ilog2 m \<le> ilog2 n"
  then have less: "Suc (ilog2 n) \<le> ilog2 m" by simp
  then have "0 < m" by (cases m) simp_all
  then have "2 ^ ilog2 m \<le> m" "n < 2 ^ Suc (ilog2 n)"
    using ilog2_bounds [of m] ilog2_bounds [of n] mn by auto
  moreover have "(2::nat) ^ Suc (ilog2 n) \<le> 2 ^ ilog2 m" using less by (rule power_increasing) simp
  ultimately show False using mn by linarith
qed

lemma round_half_even_mult [simp]: "0 < q \<Longrightarrow> round_half_even (d * q) q = d"
  by (simp add: round_half_even_def)

lemma round_half_even_one [simp]: "round_half_even p (Suc 0) = p"
  by (simp add: round_half_even_def)

lemma round_half_even_between: "p div q \<le> round_half_even p q \<and> round_half_even p q \<le> p div q + 1"
  by (simp add: round_half_even_def Let_def)

lemma round_half_even_mono:
  assumes "0 < q" "0 < q'" and le: "p * q' \<le> p' * q"
  shows "round_half_even p q \<le> round_half_even p' q'"
proof -
  define d r d' r' where defs: "d = p div q" "r = p mod q" "d' = p' div q'" "r' = p' mod q'"
  have p: "p = d * q + r" and p': "p' = d' * q' + r'" by (simp_all add: defs)
  have r: "r < q" and r': "r' < q'" using assms by (simp_all add: defs)
  have "d \<le> d'"
  proof (rule ccontr)
    assume "\<not> d \<le> d'"
    then have "Suc d' * (q * q') \<le> d * (q * q')" by (intro mult_right_mono) simp_all
    also have "\<dots> \<le> p * q'" by (simp add: p algebra_simps)
    also note le
    also have "p' * q < Suc d' * (q * q')" using r' assms(1) by (simp add: p' algebra_simps)
    finally show False by simp
  qed
  show ?thesis
  proof (cases "d = d'")
    case False
    then have "d + 1 \<le> d'" using \<open>d \<le> d'\<close> by simp
    then show ?thesis
      using round_half_even_between [of p q] round_half_even_between [of p' q'] by (simp add: defs)
  next
    case True
    have rr: "r * q' \<le> r' * q" using le by (simp add: p p' True algebra_simps)
    have up: "q' \<le> 2 * r'" if "q \<le> 2 * r"
    proof -
      have "q * q' \<le> 2 * r * q'" using that by simp
      also have "\<dots> \<le> 2 * r' * q" using rr by simp
      finally show ?thesis using assms(1) by (simp add: mult.commute)
    qed
    have strict: "q' < 2 * r'" if "q < 2 * r"
    proof -
      have "q * q' < 2 * r * q'" using that assms(2) by simp
      also have "\<dots> \<le> 2 * r' * q" using rr by simp
      finally show ?thesis using assms(1) by (simp add: mult.commute)
    qed
    show ?thesis
      using up strict True unfolding round_half_even_def Let_def defs [symmetric] by auto
  qed
qed

lemma round_mag_units_of:
  assumes "m \<le> imag"
  shows "round_mag fb imag (units_of fb m) 1 = m"
proof (cases "m div 2 ^ fb = 0")
  case True
  then have m: "m < 2 ^ fb" by (simp add: div_eq_0_iff)
  then have u: "units_of fb m = m" by (simp add: units_of_def)
  have "ilog2 m \<le> fb"
  proof (cases "m = 0")
    case False
    then have "(2::nat) ^ ilog2 m < 2 ^ fb" using ilog2_bounds [of m] m by linarith
    then show ?thesis by (simp add: power_strict_increasing_iff)
  qed simp
  then show ?thesis using assms by (simp add: round_mag_def u)
next
  case False
  define e f where "e = m div 2 ^ fb" and "f = m mod 2 ^ fb"
  have f: "f < 2 ^ fb" and e: "0 < e" and m: "m = e * 2 ^ fb + f"
    unfolding e_def f_def using False by (simp, simp, subst div_mult_mod_eq, simp)
  have u: "units_of fb m = (2 ^ fb + f) * 2 ^ (e - 1)"
    using e by (simp add: units_of_def e_def f_def Let_def)
  have "ilog2 ((2 ^ fb + f) * 2 ^ (e - 1)) = fb + (e - 1)"
  proof (rule ilog2_unique)
    show "2 ^ (fb + (e - 1)) \<le> (2 ^ fb + f) * 2 ^ (e - 1)" by (simp add: power_add)
    have "(2 ^ fb + f) * 2 ^ (e - 1) < 2 ^ Suc fb * (2::nat) ^ (e - 1)"
      using f by simp
    then show "(2 ^ fb + f) * 2 ^ (e - 1) < 2 ^ Suc (fb + (e - 1))"
      by (simp add: power_add)
  qed
  then have "round_mag fb imag (units_of fb m) 1
      = min imag ((e - 1) * 2 ^ fb + round_half_even ((2 ^ fb + f) * 2 ^ (e - 1)) (2 ^ (e - 1)))"
    unfolding round_mag_def u Let_def by simp
  also have "\<dots> = min imag ((e - 1) * 2 ^ fb + (2 ^ fb + f))"
    by simp
  also have "(e - 1) * 2 ^ fb + (2 ^ fb + f) = m"
    using e by (simp add: m algebra_simps flip: power_Suc)
  finally show ?thesis using assms by simp
qed

lemma round_mag_mono:
  assumes "0 < q" "0 < q'" and le: "p * q' \<le> p' * q"
  shows "round_mag fb imag p q \<le> round_mag fb imag p' q'"
proof -
  have d: "p div q \<le> p' div q'"
  proof -
    have "p div q * (q * q') \<le> p * q'" by simp
    also note le
    finally have "p div q * q' \<le> p'" using assms(1) by (simp add: ac_simps)
    then show ?thesis using assms(2) by (simp add: less_eq_div_iff_mult_less_eq)
  qed
  define e e' where "e = ilog2 (p div q) - fb" and "e' = ilog2 (p' div q') - fb"
  have "e \<le> e'" unfolding e_def e'_def by (intro diff_le_mono ilog2_mono d)
  have "e * 2 ^ fb + round_half_even p (q * 2 ^ e) \<le> e' * 2 ^ fb + round_half_even p' (q' * 2 ^ e')"
  proof (cases "e = e'")
    case True
    have "p * (q' * 2 ^ e) \<le> p' * (q * 2 ^ e)"
      using mult_right_mono [OF le, of "2 ^ e"] by (simp add: ac_simps)
    then show ?thesis using True assms by (auto intro!: round_half_even_mono)
  next
    case False
    then have less: "Suc e \<le> e'" using \<open>e \<le> e'\<close> by simp
    have "p div q < 2 ^ Suc (fb + e)"
    proof (cases "p div q = 0")
      case True
      then show ?thesis by simp
    next
      case False
      then have "p div q < 2 ^ Suc (ilog2 (p div q))" using ilog2_bounds [of "p div q"] by simp
      also have "(2::nat) ^ Suc (ilog2 (p div q)) \<le> 2 ^ Suc (fb + e)"
        by (rule power_increasing) (auto simp: e_def)
      finally show ?thesis .
    qed
    then have "p div (q * 2 ^ e) < 2 ^ Suc fb"
      by (simp add: div_mult2_eq less_mult_imp_div_less power_add ac_simps)
    then have lhs: "round_half_even p (q * 2 ^ e) \<le> 2 ^ Suc fb"
      using round_half_even_between [of p "q * 2 ^ e"] by linarith
    have "ilog2 (p' div q') = fb + e'" using less by (simp add: e'_def)
    then have "2 ^ (fb + e') \<le> p' div q'"
      using ilog2_bounds [of "p' div q'"] less by (cases "p' div q' = 0") auto
    then have "2 ^ fb \<le> p' div (q' * 2 ^ e')"
      by (simp add: div_mult2_eq less_eq_div_iff_mult_less_eq power_add)
    then have rhs: "2 ^ fb \<le> round_half_even p' (q' * 2 ^ e')"
      using round_half_even_between [of p' "q' * 2 ^ e'"] by linarith
    have "Suc e * 2 ^ fb \<le> e' * 2 ^ fb" using less by (intro mult_right_mono) simp_all
    then show ?thesis using lhs rhs by simp
  qed
  then show ?thesis by (simp add: round_mag_def e_def e'_def Let_def)
qed

lemma round_mag_le_inf [simp]: "round_mag fb imag p q \<le> imag"
  by (simp add: round_mag_def Let_def)

text \<open>The bound \<open>p / q \<le> m\<close> units survives rounding, on either side.\<close>

lemma round_mag_le:
  "0 < q \<Longrightarrow> m \<le> imag \<Longrightarrow> p \<le> units_of fb m * q \<Longrightarrow> round_mag fb imag p q \<le> m"
  using round_mag_mono [of q 1 p "units_of fb m" fb imag] by (simp add: round_mag_units_of [simplified])

lemma round_mag_ge:
  "0 < q \<Longrightarrow> m \<le> imag \<Longrightarrow> units_of fb m * q \<le> p \<Longrightarrow> m \<le> round_mag fb imag p q"
  using round_mag_mono [of 1 q "units_of fb m" p fb imag] by (simp add: round_mag_units_of [simplified])

section \<open>Truncation to an integer is monotone\<close>

lemma isqrt_bounds: "isqrt n * isqrt n \<le> n \<and> n < (isqrt n + 1) * (isqrt n + 1)"
proof (induction n rule: isqrt.induct)
  case (1 n)
  show ?case
  proof (cases "n = 0")
    case True
    then show ?thesis by (simp add: isqrt.simps)
  next
    case False
    define h where "h = isqrt (n div 4)"
    have ih: "h * h \<le> n div 4" "n div 4 < (h + 1) * (h + 1)" using 1 [OF False] by (simp_all add: h_def)
    have lo: "4 * (h * h) \<le> n" using ih(1) by linarith
    have hi: "n < 4 * ((h + 1) * (h + 1))" using ih(2) by linarith
    have "isqrt n = (if (2 * h + 1) * (2 * h + 1) \<le> n then 2 * h + 1 else 2 * h)"
      using False by (subst isqrt.simps) (simp add: Let_def h_def)
    then show ?thesis using lo hi by (auto simp: algebra_simps)
  qed
qed

lemma units_of_mono:
  assumes "m \<le> m'"
  shows "units_of fb m \<le> units_of fb m'"
proof (rule ccontr)
  assume "\<not> units_of fb m \<le> units_of fb m'"
  then have less: "units_of fb m' < units_of fb m" by simp
  have "round_mag fb m' (units_of fb m) 1 = m"
    if "m < m'" using that round_mag_units_of [of m m' fb] by simp
  moreover have "round_mag fb m' (units_of fb m') 1 = m'" by (rule round_mag_units_of) simp
  moreover have "round_mag fb m' (units_of fb m') 1 \<le> round_mag fb m' (units_of fb m) 1"
    using less by (intro round_mag_mono) simp_all
  ultimately show False using assms less by (cases "m = m'") auto
qed

lemma units_mono: "mag (x :: 'w::len word ieee) \<le> mag (y :: 'w word ieee) \<Longrightarrow> units x \<le> units y"
  by (simp add: units_def units_of_mono)

text \<open>Evaluation of closed float expressions by rewriting (binary32 and small exponents).\<close>

lemmas float_eval = flit_def round_float_def round_mag_def units_def units_of_def float_layout
  mk_float_def round_half_even_def mag_def sign_neg_def Let_def ilog2.simps fkey_def is_nan_def
  is_inf_def is_finite_def fzero_def infinity_def neg_infinity_def

end
