(* ===== verification/ByteCodec.thy ===== *)
theory ByteCodec
  imports Floats
begin

text \<open>
  Little-endian byte codecs as the index files use them: an encoder to bytes and a decoder
  that consumes a prefix of its input and returns the rest. The locale states what a codec
  promises; the lemmas on counted sequences are proved once inside it.
\<close>

locale byte_codec =
  fixes enc :: "'a \<Rightarrow> u8 list" and dec :: "u8 list \<Rightarrow> 'e + ('a \<times> u8 list)" and valid :: "'a \<Rightarrow> bool"
  assumes dec_enc: "valid x \<Longrightarrow> dec (enc x @ rest) = Inr (x, rest)"
begin

lemma enc_inj: "valid x \<Longrightarrow> valid y \<Longrightarrow> enc x = enc y \<Longrightarrow> x = y"
  using dec_enc [of x "[]"] dec_enc [of y "[]"] by simp

fun dec_n :: "nat \<Rightarrow> u8 list \<Rightarrow> 'e + ('a list \<times> u8 list)" where
  "dec_n 0 bs = Inr ([], bs)"
| "dec_n (Suc n) bs = rbind (dec bs) (\<lambda>(x, bs1). rbind (dec_n n bs1) (\<lambda>(xs, bs2). Inr (x # xs, bs2)))"

lemma dec_n_enc:
  "\<forall>x\<in>set xs. valid x \<Longrightarrow> dec_n (length xs) (concat (map enc xs) @ rest) = Inr (xs, rest)"
  by (induction xs) (simp_all add: dec_enc)

lemma enc_list_inj:
  assumes "\<forall>x\<in>set xs. valid x" "\<forall>y\<in>set ys. valid y" "length xs = length ys"
    and "concat (map enc xs) = concat (map enc ys)"
  shows "xs = ys"
  using dec_n_enc [OF assms(1), of "[]"] dec_n_enc [OF assms(2), of "[]"] assms(3,4) by simp

end

section \<open>32-bit words\<close>

datatype page_error =
    PageTooShort
  | BadMagic
  | UnknownKind u8
  | TruncatedU32
  | TruncatedF32
  | RangeLeafOrder u32 u32
  | UnexpectedEof

definition u32_bytes :: "u32 \<Rightarrow> u8 list" where
  "u32_bytes x = [ucast x, ucast (drop_bit 8 x), ucast (drop_bit 16 x), ucast (drop_bit 24 x)]"

definition u32_of_bytes :: "u8 list \<Rightarrow> u32" where
  "u32_of_bytes bs = ucast (bs ! 0) OR push_bit 8 (ucast (bs ! 1)) OR push_bit 16 (ucast (bs ! 2))
     OR push_bit 24 (ucast (bs ! 3))"

definition read_u32 :: "u8 list \<Rightarrow> page_error + (u32 \<times> u8 list)" where
  "read_u32 bs = (if length bs < 4 then Inl TruncatedU32 else Inr (u32_of_bytes (take 4 bs), drop 4 bs))"

definition read_f32 :: "u8 list \<Rightarrow> page_error + (f32 \<times> u8 list)" where
  "read_f32 bs = (if length bs < 4 then Inl TruncatedF32 else Inr (Ieee (u32_of_bytes (take 4 bs)), drop 4 bs))"

definition f32_bytes :: "f32 \<Rightarrow> u8 list" where
  "f32_bytes x = u32_bytes (to_bits x)"

lemma length_u32_bytes [simp]: "length (u32_bytes x) = 4"
  by (simp add: u32_bytes_def)

lemma length_f32_bytes [simp]: "length (f32_bytes x) = 4"
  by (simp add: f32_bytes_def)

lemma u32_of_bytes_bytes [simp]: "u32_of_bytes (u32_bytes x) = x"
proof (rule bit_word_eqI)
  fix n assume "n < LENGTH(32)"
  then have n: "n < 32" by simp
  consider "n < 8" | "8 \<le> n" "n < 16" | "16 \<le> n" "n < 24" | "24 \<le> n" by linarith
  then show "bit (u32_of_bytes (u32_bytes x)) n = bit x n"
    using n by cases (auto simp: u32_of_bytes_def u32_bytes_def bit_simps)
qed

interpretation w32: byte_codec u32_bytes read_u32 "\<lambda>_. True"
  by unfold_locales (simp add: read_u32_def)

interpretation c32: byte_codec f32_bytes read_f32 "\<lambda>_. True"
  by unfold_locales (simp add: read_f32_def f32_bytes_def)

end
