(* ===== verification/BpannPage.thy ===== *)
theory BpannPage
  imports ByteCodec
begin

text \<open>
  Index pages and their binary format (\<open>rust/crates/bpann/src/index/page.rs\<close>): internal pages
  with centroids and children, and leaves with explicit rows, row ids only, or a row range.
  A reader of the source advances an offset through the page; here it returns the bytes
  still to be read.
\<close>

definition PAGE_MAGIC :: u32 where
  "PAGE_MAGIC = 0x4250414E"

datatype Page =
    Internal (page_id: u32) (centroids: "f32 list list") (child_page_ids: "u32 list")
  | Leaf (page_id: u32) (row_ids: "u32 list") (row_range: "(u32 \<times> u32) option")
      (vectors: "f32 list list") (stored_centroid: "f32 list option")

definition empty_range_leaf :: "u32 \<Rightarrow> u32 \<Rightarrow> u32 \<Rightarrow> f32 list \<Rightarrow> Page" where
  "empty_range_leaf pid start stop centroid = Leaf pid [] (Some (start, stop)) [] (Some centroid)"

section \<open>Centroids\<close>

text \<open>The mean of the vectors, accumulated per coordinate of the first one. The vectors of an index all
  have its dimension; a longer one would panic in the source and lose its further coordinates here.\<close>

definition add_vector :: "f32 list \<Rightarrow> f32 list \<Rightarrow> f32 list" where
  "add_vector acc v = fold (\<lambda>(j, x) acc. acc[j := fadd (acc ! j) x]) (enumerate 0 v) acc"

definition mean_vector :: "f32 list list \<Rightarrow> f32 list" where
  "mean_vector vs =
     (if vs = [] then []
      else let acc = fold (\<lambda>v acc. add_vector acc v) vs (replicate (length (hd vs)) fzero)
        in map (\<lambda>s. fdiv s (flit (length vs) 1)) acc)"

fun page_centroid :: "Page \<Rightarrow> f32 list" where
  "page_centroid (Internal pid cs ids) = mean_vector cs"
| "page_centroid (Leaf pid ids rng vs (Some c)) = c"
| "page_centroid (Leaf pid ids rng vs None) = mean_vector vs"

section \<open>Writing\<close>

definition vec_bytes :: "nat \<Rightarrow> f32 list \<Rightarrow> u8 list" where
  "vec_bytes dim v = concat (map (\<lambda>j. f32_bytes (if j < length v then v ! j else fzero)) [0..<dim])"

definition entry_bytes :: "nat \<Rightarrow> u32 \<times> f32 list \<Rightarrow> u8 list" where
  "entry_bytes dim = (\<lambda>(i, v). u32_bytes i @ vec_bytes dim v)"

definition page_header :: "u8 \<Rightarrow> u32 \<Rightarrow> nat \<Rightarrow> u8 list" where
  "page_header kind pid dim = u32_bytes PAGE_MAGIC @ kind # u32_bytes pid @ u32_bytes (as_u32 dim)"

fun serialize :: "nat \<Rightarrow> Page \<Rightarrow> u8 list" where
  "serialize dim (Internal pid cs ids) =
     page_header 0 pid dim @ u32_bytes (as_u32 (length cs)) @ concat (map (entry_bytes dim) (zip ids cs))"
| "serialize dim (Leaf pid ids (Some (start, stop)) vs c) =
     page_header 3 pid dim @ u32_bytes start @ u32_bytes stop @
       vec_bytes dim (case c of Some v \<Rightarrow> v | None \<Rightarrow> [])"
| "serialize dim (Leaf pid ids None vs c) =
     (if vs = [] then
        page_header 2 pid dim @ u32_bytes (as_u32 (length ids)) @ concat (map u32_bytes ids) @
          vec_bytes dim (case c of Some v \<Rightarrow> v | None \<Rightarrow> [])
      else
        page_header 1 pid dim @ u32_bytes (as_u32 (length ids)) @ concat (map (entry_bytes dim) (zip ids vs)))"

definition write_pages_index :: "Page list \<Rightarrow> nat \<Rightarrow> u8 list" where
  "write_pages_index pages dim =
     u32_bytes (as_u32 (length pages)) @
     concat (map (\<lambda>p. let bytes = serialize dim p in u32_bytes (as_u32 (length bytes)) @ bytes) pages)"

section \<open>Reading\<close>

fun read_f32_vec :: "nat \<Rightarrow> u8 list \<Rightarrow> page_error + (f32 list \<times> u8 list)" where
  "read_f32_vec 0 bs = Inr ([], bs)"
| "read_f32_vec (Suc n) bs =
     rbind (read_f32 bs) (\<lambda>(x, bs1). rbind (read_f32_vec n bs1) (\<lambda>(xs, bs2). Inr (x # xs, bs2)))"

definition read_entry :: "nat \<Rightarrow> u8 list \<Rightarrow> page_error + ((u32 \<times> f32 list) \<times> u8 list)" where
  "read_entry dim bs =
     rbind (read_u32 bs) (\<lambda>(i, bs1). rbind (read_f32_vec dim bs1) (\<lambda>(v, bs2). Inr ((i, v), bs2)))"

fun read_entries :: "nat \<Rightarrow> nat \<Rightarrow> u8 list \<Rightarrow> page_error + ((u32 \<times> f32 list) list \<times> u8 list)" where
  "read_entries dim 0 bs = Inr ([], bs)"
| "read_entries dim (Suc n) bs =
     rbind (read_entry dim bs) (\<lambda>(e, bs1). rbind (read_entries dim n bs1) (\<lambda>(es, bs2). Inr (e # es, bs2)))"

fun read_u32s :: "nat \<Rightarrow> u8 list \<Rightarrow> page_error + (u32 list \<times> u8 list)" where
  "read_u32s 0 bs = Inr ([], bs)"
| "read_u32s (Suc n) bs =
     rbind (read_u32 bs) (\<lambda>(x, bs1). rbind (read_u32s n bs1) (\<lambda>(xs, bs2). Inr (x # xs, bs2)))"

definition parse_header :: "u8 list \<Rightarrow> page_error + (u8 \<times> u32 \<times> nat \<times> u8 list)" where
  "parse_header bs =
     rbind (ensure (\<not> length bs < 13) PageTooShort) (\<lambda>_.
     rbind (ensure (u32_of_bytes (take 4 bs) = PAGE_MAGIC) BadMagic) (\<lambda>_.
     Inr (bs ! 4, u32_of_bytes (take 4 (drop 5 bs)), unat (u32_of_bytes (take 4 (drop 9 bs))), drop 13 bs)))"

definition deserialize_internal :: "u8 list \<Rightarrow> u32 \<Rightarrow> nat \<Rightarrow> page_error + Page" where
  "deserialize_internal bs pid dim =
     rbind (read_u32 bs) (\<lambda>(n, bs1). rbind (read_entries dim (unat n) bs1) (\<lambda>(es, _).
     Inr (Internal pid (map snd es) (map fst es))))"

definition deserialize_leaf :: "u8 list \<Rightarrow> u32 \<Rightarrow> nat \<Rightarrow> page_error + Page" where
  "deserialize_leaf bs pid dim =
     rbind (read_u32 bs) (\<lambda>(n, bs1). rbind (read_entries dim (unat n) bs1) (\<lambda>(es, _).
     Inr (Leaf pid (map fst es) None (map snd es) None)))"

definition deserialize_row_id_leaf :: "u8 list \<Rightarrow> u32 \<Rightarrow> nat \<Rightarrow> page_error + Page" where
  "deserialize_row_id_leaf bs pid dim =
     rbind (read_u32 bs) (\<lambda>(n, bs1). rbind (read_u32s (unat n) bs1) (\<lambda>(ids, bs2).
     rbind (read_f32_vec dim bs2) (\<lambda>(c, _). Inr (Leaf pid ids None [] (Some c)))))"

definition deserialize_range_leaf :: "u8 list \<Rightarrow> u32 \<Rightarrow> nat \<Rightarrow> page_error + Page" where
  "deserialize_range_leaf bs pid dim =
     rbind (read_u32 bs) (\<lambda>(start, bs1). rbind (read_u32 bs1) (\<lambda>(stop, bs2).
     rbind (ensure (start \<le> stop) (RangeLeafOrder start stop)) (\<lambda>_.
     rbind (read_f32_vec dim bs2) (\<lambda>(c, _). Inr (empty_range_leaf pid start stop c)))))"

definition deserialize :: "u8 list \<Rightarrow> page_error + Page" where
  "deserialize bs =
     rbind (parse_header bs) (\<lambda>(kind, pid, dim, rest).
       if kind = 0 then deserialize_internal rest pid dim
       else if kind = 1 then deserialize_leaf rest pid dim
       else if kind = 2 then deserialize_row_id_leaf rest pid dim
       else if kind = 3 then deserialize_range_leaf rest pid dim
       else Inl (UnknownKind kind))"

text \<open>\<open>read_exact\<close> on the file, a byte stream.\<close>

definition read_exact :: "nat \<Rightarrow> u8 list \<Rightarrow> page_error + (u8 list \<times> u8 list)" where
  "read_exact n bs = (if length bs < n then Inl UnexpectedEof else Inr (take n bs, drop n bs))"

fun read_pages :: "nat \<Rightarrow> u8 list \<Rightarrow> page_error + (Page list \<times> u8 list)" where
  "read_pages 0 bs = Inr ([], bs)"
| "read_pages (Suc n) bs =
     rbind (read_exact 4 bs) (\<lambda>(len_buf, bs1).
     rbind (read_exact (unat (u32_of_bytes len_buf)) bs1) (\<lambda>(bytes, bs2).
     rbind (deserialize bytes) (\<lambda>p.
     rbind (read_pages n bs2) (\<lambda>(ps, bs3). Inr (p # ps, bs3)))))"

definition read_pages_index :: "u8 list \<Rightarrow> page_error + Page list" where
  "read_pages_index bs =
     rbind (read_exact 4 bs) (\<lambda>(count_buf, bs1).
     rbind (read_pages (unat (u32_of_bytes count_buf)) bs1) (\<lambda>(ps, _). Inr ps))"

section \<open>Codecs of vectors and entries\<close>

definition fit_dim :: "nat \<Rightarrow> f32 list \<Rightarrow> f32 list" where
  "fit_dim dim v = map (\<lambda>j. if j < length v then v ! j else fzero) [0..<dim]"

lemma length_fit_dim [simp]: "length (fit_dim dim v) = dim"
  by (simp add: fit_dim_def)

lemma fit_dim_id [simp]: "length v = dim \<Longrightarrow> fit_dim dim v = v"
  by (rule nth_equalityI) (simp_all add: fit_dim_def)

lemma vec_bytes_fit: "vec_bytes dim v = concat (map f32_bytes (fit_dim dim v))"
  by (simp add: vec_bytes_def fit_dim_def comp_def)

lemma length_vec_bytes [simp]: "length (vec_bytes dim v) = dim * 4"
  by (simp add: vec_bytes_def length_concat comp_def sum_list_triv)

lemma read_f32_vec_eq: "read_f32_vec n bs = c32.dec_n n bs"
  by (induction n arbitrary: bs) (simp_all add: case_prod_unfold)

lemma read_u32s_eq: "read_u32s n bs = w32.dec_n n bs"
  by (induction n arbitrary: bs) (simp_all add: case_prod_unfold)

lemma read_vec_bytes [simp]: "read_f32_vec dim (vec_bytes dim v @ rest) = Inr (fit_dim dim v, rest)"
  using c32.dec_n_enc [of "fit_dim dim v" rest] by (simp add: read_f32_vec_eq vec_bytes_fit)

interpretation en: byte_codec "entry_bytes dim" "read_entry dim" "\<lambda>(i, v). length v = dim" for dim
  by unfold_locales (auto simp: read_entry_def entry_bytes_def w32.dec_enc)

lemma read_entries_eq: "read_entries dim n bs = en.dec_n dim n bs"
  by (induction n arbitrary: bs) (simp_all add: case_prod_unfold)

section \<open>Round trips\<close>

text \<open>What a page reads back as: vectors fitted to the dimension; an empty leaf always has a
  stored centroid, a leaf with vectors never has one, a range leaf has no row list.\<close>

fun page_norm :: "nat \<Rightarrow> Page \<Rightarrow> Page" where
  "page_norm dim (Internal pid cs ids) = Internal pid (map (fit_dim dim) cs) ids"
| "page_norm dim (Leaf pid ids (Some r) vs c) =
     Leaf pid [] (Some r) [] (Some (fit_dim dim (case c of Some v \<Rightarrow> v | None \<Rightarrow> [])))"
| "page_norm dim (Leaf pid ids None vs c) =
     (if vs = [] then Leaf pid ids None [] (Some (fit_dim dim (case c of Some v \<Rightarrow> v | None \<Rightarrow> [])))
      else Leaf pid ids None (map (fit_dim dim) vs) None)"

fun page_ok :: "Page \<Rightarrow> bool" where
  "page_ok (Internal pid cs ids) \<longleftrightarrow> length cs = length ids \<and> length ids < 2 ^ 32"
| "page_ok (Leaf pid ids (Some (start, stop)) vs c) \<longleftrightarrow> start \<le> stop"
| "page_ok (Leaf pid ids None vs c) \<longleftrightarrow> length ids < 2 ^ 32 \<and> (vs = [] \<or> length vs = length ids)"

lemma fit_dim_fit [simp]: "fit_dim dim (fit_dim dim v) = fit_dim dim v"
  by (rule fit_dim_id) simp

lemma vec_bytes_fit_dim [simp]: "vec_bytes dim (fit_dim dim v) = vec_bytes dim v"
  by (simp add: vec_bytes_fit)

lemma entry_bytes_fit: "entry_bytes dim (i, fit_dim dim v) = entry_bytes dim (i, v)"
  by (simp add: entry_bytes_def)

lemma entries_bytes_fit:
  "concat (map (entry_bytes dim) (zip ids (map (fit_dim dim) vs))) = concat (map (entry_bytes dim) (zip ids vs))"
  by (induction ids vs rule: list_induct2') (simp_all add: entry_bytes_fit)

lemma read_entries_bytes:
  assumes "length vs = length ids"
  shows "read_entries dim (length ids) (concat (map (entry_bytes dim) (zip ids vs)) @ rest)
    = Inr (zip ids (map (fit_dim dim) vs), rest)"
proof -
  have "\<forall>e\<in>set (zip ids (map (fit_dim dim) vs)). (\<lambda>(i, v). length v = dim) e"
  proof
    fix e assume "e \<in> set (zip ids (map (fit_dim dim) vs))"
    moreover obtain i v where e: "e = (i, v)" by (rule prod.exhaust)
    ultimately have "v \<in> set (map (fit_dim dim) vs)" using set_zip_rightD by fast
    then show "(\<lambda>(i, v). length v = dim) e" by (auto simp: e)
  qed
  from en.dec_n_enc [OF this, of rest] assms show ?thesis
    by (simp add: read_entries_eq entries_bytes_fit)
qed

lemma parse_page_header:
  assumes "dim < 2 ^ 32"
  shows "parse_header (page_header kind pid dim @ rest) = Inr (kind, pid, dim, rest)"
proof -
  have l: "length (page_header kind pid dim) = 13" by (simp add: page_header_def)
  have "take 4 (page_header kind pid dim @ rest) = u32_bytes PAGE_MAGIC"
    "(page_header kind pid dim @ rest) ! 4 = kind"
    "take 4 (drop 5 (page_header kind pid dim @ rest)) = u32_bytes pid"
    "take 4 (drop 9 (page_header kind pid dim @ rest)) = u32_bytes (as_u32 dim)"
    "drop 13 (page_header kind pid dim @ rest) = rest"
    by (simp_all add: page_header_def nth_append u32_bytes_def)
  then show ?thesis using l assms by (simp add: parse_header_def unat_as_u32)
qed

lemma read_u32_bytes [simp]: "read_u32 (u32_bytes x @ rest) = Inr (x, rest)"
  by (rule w32.dec_enc) simp

lemma read_u32s_bytes [simp]: "read_u32s (length xs) (concat (map u32_bytes xs) @ rest) = Inr (xs, rest)"
  using w32.dec_n_enc [of xs rest] by (simp add: read_u32s_eq)

lemma deserialize_serialize:
  assumes "dim < 2 ^ 32" "page_ok p"
  shows "deserialize (serialize dim p) = Inr (page_norm dim p)"
proof -
  have e: "read_entries dim (length ids) (concat (map (entry_bytes dim) (zip ids vs))) = Inr (zip ids (map (fit_dim dim) vs), [])"
    if "length vs = length ids" for ids vs
    using read_entries_bytes [OF that, of dim "[]"] by simp
  have v: "read_f32_vec d (vec_bytes d v) = Inr (fit_dim d v, [])" for d v
    using read_vec_bytes [of d v "[]"] by simp
  show ?thesis
  proof (cases "(dim, p)" rule: serialize.cases)
    case (1 dim' pid cs ids)
    then show ?thesis
      using assms e [of cs ids]
      by (simp add: deserialize_def parse_page_header deserialize_internal_def unat_as_u32)
  next
    case (2 dim' pid ids start stop vs c)
    then show ?thesis
      using assms by (simp add: deserialize_def parse_page_header deserialize_range_leaf_def v empty_range_leaf_def)
  next
    case (3 dim' pid ids vs c)
    then show ?thesis
      using assms e [of vs ids]
      by (auto simp: deserialize_def parse_page_header deserialize_leaf_def deserialize_row_id_leaf_def unat_as_u32 v)
  qed
qed

lemma read_pages_write:
  assumes "dim < 2 ^ 32" "\<forall>p\<in>set pages. page_ok p \<and> length (serialize dim p) < 2 ^ 32"
  shows "read_pages (length pages) (concat (map (\<lambda>p. let bytes = serialize dim p in u32_bytes (as_u32 (length bytes)) @ bytes) pages) @ rest)
    = Inr (map (page_norm dim) pages, rest)"
  using assms(2)
proof (induction pages)
  case Nil
  then show ?case by simp
next
  case (Cons p pages)
  then show ?case
    using deserialize_serialize [OF assms(1), of p] by (simp add: read_exact_def unat_as_u32 Let_def)
qed

text \<open>C20: the page file round-trips. Pages whose lists have matching lengths below \<open>2 ^ 32\<close>
  and whose encodings fit a 32-bit length read back, in order, as their normal forms.\<close>

theorem pages_index_roundtrip:
  assumes "dim < 2 ^ 32" "length pages < 2 ^ 32"
    and "\<forall>p\<in>set pages. page_ok p \<and> length (serialize dim p) < 2 ^ 32"
  shows "read_pages_index (write_pages_index pages dim) = Inr (map (page_norm dim) pages)"
  using read_pages_write [OF assms(1,3), of "[]"] assms(2)
  by (simp add: read_pages_index_def write_pages_index_def read_exact_def unat_as_u32)

theorem pages_index_roundtrip_witness:
  "read_pages_index (write_pages_index
      [Internal 0 [[fzero], [infinity]] [1, 2], Leaf 1 [0, 1] None [[fzero], [fzero]] None,
       empty_range_leaf 2 100 1100 [infinity]] 1) =
    Inr [Internal 0 [[fzero], [infinity]] [1, 2], Leaf 1 [0, 1] None [[fzero], [fzero]] None,
       empty_range_leaf 2 100 1100 [infinity]]"
  by (subst pages_index_roundtrip)
    (simp_all add: page_header_def entry_bytes_def empty_range_leaf_def fit_dim_def)

text \<open>Rewriting a page that was read back changes no byte, so comparing the file with the
  pages in memory is stable after a reopen; and pages of the dimension's width that are not
  mixed are their own normal form.\<close>

theorem reopened_pages_rewrite_identically:
  assumes "dim < 2 ^ 32" "length pages < 2 ^ 32"
    and "\<forall>p\<in>set pages. page_ok p \<and> length (serialize dim p) < 2 ^ 32"
  shows "\<exists>back. read_pages_index (write_pages_index pages dim) = Inr back \<and>
    write_pages_index back dim = write_pages_index pages dim \<and>
    map page_id back = map page_id pages"
proof -
  have ser: "serialize dim (page_norm dim p) = serialize dim p" for p
    by (cases "(dim, p)" rule: serialize.cases)
      (auto simp: entries_bytes_fit split: option.splits)
  have pid: "page_id (page_norm dim p) = page_id p" for p
    by (cases "(dim, p)" rule: serialize.cases) simp_all
  have "read_pages_index (write_pages_index pages dim) = Inr (map (page_norm dim) pages)"
    using read_pages_write [OF assms(1,3), of "[]"] assms(2)
    by (simp add: read_pages_index_def write_pages_index_def read_exact_def unat_as_u32)
  then show ?thesis by (simp add: write_pages_index_def comp_def ser pid)
qed

theorem reopened_pages_rewrite_identically_witness:
  "\<exists>back. read_pages_index (write_pages_index [Leaf 7 [4] None [[fzero, infinity]] None] 1) = Inr back \<and>
    write_pages_index back 1 = write_pages_index [Leaf 7 [4] None [[fzero, infinity]] None] 1 \<and>
    map page_id back = map page_id [Leaf 7 [4] None [[fzero, infinity]] None]"
  by (rule reopened_pages_rewrite_identically) (simp_all add: page_header_def entry_bytes_def)

end
