(* ===== verification/RowStore.thy ===== *)
theory RowStore
  imports Prelude
begin

text \<open>
  The interface of a store of fixed-width rows addressed by a slot number, as the trial
  search and the mapped observation store use it: what a read returns after a write, and
  that writing keeps the store's shape. The lemmas about writing several rows are proved
  once here.
\<close>

locale row_store =
  fixes ok :: "'e \<Rightarrow> bool" and slots :: "'e \<Rightarrow> nat" and width :: "'e \<Rightarrow> nat"
    and rd :: "'e \<Rightarrow> nat \<Rightarrow> 'b list" and wr :: "'e \<Rightarrow> nat \<Rightarrow> 'b list \<Rightarrow> 'e"
  assumes wr_ok: "ok e \<Longrightarrow> s < slots e \<Longrightarrow> length row = width e \<Longrightarrow>
      ok (wr e s row) \<and> slots (wr e s row) = slots e \<and> width (wr e s row) = width e"
    and rd_wr: "ok e \<Longrightarrow> s < slots e \<Longrightarrow> length row = width e \<Longrightarrow> t < slots e \<Longrightarrow>
      rd (wr e s row) t = (if t = s then row else rd e t)"
    and rd_length: "ok e \<Longrightarrow> s < slots e \<Longrightarrow> length (rd e s) = width e"
begin

definition wr_all :: "'e \<Rightarrow> (nat \<times> 'b list) list \<Rightarrow> 'e" where
  "wr_all e ws = fold (\<lambda>(s, row) e. wr e s row) ws e"

definition fits :: "'e \<Rightarrow> (nat \<times> 'b list) list \<Rightarrow> bool" where
  "fits e ws \<longleftrightarrow> ok e \<and> (\<forall>(s, row)\<in>set ws. s < slots e \<and> length row = width e)"

lemma wr_all_simps [simp]: "wr_all e [] = e" "wr_all e ((s, row) # ws) = wr_all (wr e s row) ws"
  by (simp_all add: wr_all_def)

lemma wr_all_ok: "fits e ws \<Longrightarrow> ok (wr_all e ws) \<and> slots (wr_all e ws) = slots e \<and> width (wr_all e ws) = width e"
proof (induction ws arbitrary: e)
  case Nil
  then show ?case by (simp add: fits_def)
next
  case (Cons w ws)
  obtain s row where w: "w = (s, row)" by (cases w)
  have "ok e" "s < slots e" "length row = width e" using Cons.prems by (auto simp: fits_def w)
  note wr = wr_ok [OF this]
  then have "fits (wr e s row) ws" using Cons.prems by (auto simp: fits_def w)
  with Cons.IH wr show ?case by (simp add: w)
qed

lemma rd_wr_all_other:
  "fits e ws \<Longrightarrow> t < slots e \<Longrightarrow> t \<notin> fst ` set ws \<Longrightarrow> rd (wr_all e ws) t = rd e t"
proof (induction ws arbitrary: e)
  case Nil
  then show ?case by simp
next
  case (Cons w ws)
  obtain s row where w: "w = (s, row)" by (cases w)
  have pre: "ok e" "s < slots e" "length row = width e" using Cons.prems by (auto simp: fits_def w)
  have fits: "fits (wr e s row) ws" using Cons.prems wr_ok [OF pre] by (auto simp: fits_def w)
  have "rd (wr_all (wr e s row) ws) t = rd (wr e s row) t"
    using Cons.prems wr_ok [OF pre] by (intro Cons.IH fits) auto
  also have "\<dots> = rd e t" using rd_wr [OF pre, of t] Cons.prems by (simp add: w)
  finally show ?case by (simp add: w)
qed

lemma rd_wr_all:
  "fits e ws \<Longrightarrow> distinct (map fst ws) \<Longrightarrow> (s, row) \<in> set ws \<Longrightarrow> rd (wr_all e ws) s = row"
proof (induction ws arbitrary: e)
  case Nil
  then show ?case by simp
next
  case (Cons w ws)
  obtain s' row' where w: "w = (s', row')" by (cases w)
  have pre: "ok e" "s' < slots e" "length row' = width e" using Cons.prems by (auto simp: fits_def w)
  have fits: "fits (wr e s' row') ws" using Cons.prems wr_ok [OF pre] by (auto simp: fits_def w)
  show ?case
  proof (cases "(s, row) = (s', row')")
    case True
    have "s' \<notin> fst ` set ws" using Cons.prems(2) by (simp add: w)
    then have "rd (wr_all (wr e s' row') ws) s' = rd (wr e s' row') s'"
      using wr_ok [OF pre] pre by (intro rd_wr_all_other fits) simp_all
    then show ?thesis using True rd_wr [OF pre pre(2)] by (simp add: w)
  next
    case False
    then show ?thesis using Cons.IH [OF fits] Cons.prems by (auto simp: w)
  qed
qed

end

end
