(* ===== verification/MmapStore.thy ===== *)
theory MmapStore
  imports RowStore ByteCodec
begin

text \<open>
  The memory-mapped column store (\<open>rust/crates/bpann/src/mmap_store.rs\<close>): a file of
  row-major 64-bit floats, its growth, appends, row reads and gathers. The mapped bytes and
  the file's bytes are one list. A call of the operating system that grows or maps the file
  succeeds or fails as the argument \<open>os_ok\<close> says.
\<close>

datatype bpann_error =
    InvalidParameter
  | InvalidShape "nat \<times> nat" "nat \<times> nat"
  | RowOutOfRange nat nat
  | KnownRowsExceedFile nat nat
  | IoError
  | IndexPanic

section \<open>64-bit floats as bytes\<close>

definition u64_bytes :: "u64 \<Rightarrow> u8 list" where
  "u64_bytes x = map (\<lambda>i. ucast (drop_bit (8 * i) x)) [0..<8]"

definition u64_of_bytes :: "u8 list \<Rightarrow> u64" where
  "u64_of_bytes bs = foldr (\<lambda>b acc. ucast b OR push_bit 8 acc) bs 0"

definition f64_bytes :: "f64 \<Rightarrow> u8 list" where
  "f64_bytes x = u64_bytes (to_bits x)"

definition f64s_bytes :: "f64 list \<Rightarrow> u8 list" where
  "f64s_bytes xs = concat (map f64_bytes xs)"

definition read_f64 :: "u8 list \<Rightarrow> bpann_error + (f64 \<times> u8 list)" where
  "read_f64 bs = (if length bs < 8 then Inl IndexPanic else Inr (Ieee (u64_of_bytes (take 8 bs)), drop 8 bs))"

lemma length_u64_bytes [simp]: "length (u64_bytes x) = 8"
  by (simp add: u64_bytes_def)

lemma length_f64_bytes [simp]: "length (f64_bytes x) = 8"
  by (simp add: f64_bytes_def)

lemma length_f64s_bytes [simp]: "length (f64s_bytes xs) = length xs * 8"
  by (simp add: f64s_bytes_def length_concat comp_def sum_list_triv)

lemma bit_u64_of_bytes:
  "n < 64 \<Longrightarrow> bit (u64_of_bytes bs) n \<longleftrightarrow> n div 8 < length bs \<and> bit (bs ! (n div 8)) (n mod 8)"
proof (induction bs arbitrary: n)
  case Nil
  then show ?case by (simp add: u64_of_bytes_def)
next
  case (Cons b bs)
  have step: "u64_of_bytes (b # bs) = ucast b OR push_bit 8 (u64_of_bytes bs)"
    by (simp add: u64_of_bytes_def)
  show ?case
  proof (cases "n < 8")
    case True
    then show ?thesis using Cons.prems by (simp add: step bit_simps)
  next
    case False
    then have n: "n div 8 = Suc ((n - 8) div 8)" "(n - 8) mod 8 = n mod 8"
      by (simp_all add: le_div_geq le_mod_geq not_less)
    have "\<not> bit b n" using False using bit_imp_le_length [of b n] by auto
    then show ?thesis using False Cons.prems Cons.IH [of "n - 8"] n by (simp add: step bit_simps)
  qed
qed

lemma u64_of_bytes_bytes [simp]: "u64_of_bytes (u64_bytes x) = x"
proof (rule bit_word_eqI)
  fix n assume "n < LENGTH(64)"
  then have n: "n < 64" "n div 8 < 8" by auto
  then show "bit (u64_of_bytes (u64_bytes x)) n = bit x n"
    by (simp add: bit_u64_of_bytes) (simp add: u64_bytes_def bit_simps)
qed

interpretation c64: byte_codec f64_bytes read_f64 "\<lambda>_. True"
  by unfold_locales (simp add: read_f64_def f64_bytes_def)

section \<open>The store\<close>

definition MMAP_GROW_ROWS :: nat where
  "MMAP_GROW_ROWS = 64"

record MmapColumnStore =
  store_cols :: nat
  store_rows :: nat
  mapped :: "u8 list"

definition store_row_bytes :: "MmapColumnStore \<Rightarrow> nat" where
  "store_row_bytes st = store_cols st * 8"

definition bytes_for_rows :: "MmapColumnStore \<Rightarrow> nat \<Rightarrow> nat" where
  "bytes_for_rows st n = saturating_mul n (store_row_bytes st)"

definition set_len :: "nat \<Rightarrow> u8 list \<Rightarrow> u8 list" where
  "set_len n bs = take n bs @ replicate (n - length bs) 0"

definition ensure_capacity :: "bool \<Rightarrow> nat \<Rightarrow> MmapColumnStore \<Rightarrow> bpann_error + MmapColumnStore" where
  "ensure_capacity os_ok need st =
     (if bytes_for_rows st need \<le> length (mapped st) then Inr st
      else let grow_rows = max (need - store_rows st) MMAP_GROW_ROWS;
               new_len = bytes_for_rows st (store_rows st + grow_rows)
        in rbind (ensure os_ok IoError) (\<lambda>_. Inr (st\<lparr>mapped := set_len new_len (mapped st)\<rparr>)))"

definition mmap_open_or_create ::
    "bool \<Rightarrow> u8 list option \<Rightarrow> nat \<Rightarrow> nat option \<Rightarrow> bpann_error + MmapColumnStore" where
  "mmap_open_or_create os_ok file cols known =
     rbind (ensure os_ok IoError) (\<lambda>_.
     let bytes = (case file of None \<Rightarrow> [] | Some bs \<Rightarrow> bs);
         row_bytes = cols * 8;
         rows = (case known of Some n \<Rightarrow> n | None \<Rightarrow> if row_bytes > 0 then length bytes div row_bytes else 0)
     in rbind (ensure (\<not> (known \<noteq> None \<and> rows * row_bytes > length bytes)) (KnownRowsExceedFile rows (length bytes)))
          (\<lambda>_. Inr \<lparr>store_cols = cols, store_rows = rows, mapped = bytes\<rparr>))"

text \<open>\<open>rows\<close> is the array view: its column count and its rows. Both copy branches of the
  source store the rows one after the other.\<close>

definition mmap_append ::
    "bool \<Rightarrow> nat \<times> f64 list list \<Rightarrow> MmapColumnStore \<Rightarrow> bpann_error + MmapColumnStore" where
  "mmap_append os_ok = (\<lambda>(cols, rows) st.
     if rows = [] then Inr st
     else
     rbind (ensure (cols = store_cols st)
              (InvalidShape (store_rows st, store_cols st) (length rows, cols))) (\<lambda>_.
     let new_rows = store_rows st + length rows in
     rbind (ensure_capacity os_ok new_rows st) (\<lambda>st1.
     let offset = store_rows st1 * store_row_bytes st1;
         src = concat (map f64s_bytes rows) in
     rbind (ensure (offset + length src \<le> length (mapped st1)) IndexPanic) (\<lambda>_.
     Inr (st1\<lparr>mapped := take offset (mapped st1) @ src @ drop (offset + length src) (mapped st1),
              store_rows := new_rows\<rparr>)))))"

definition release_resident_pages :: "bool \<Rightarrow> MmapColumnStore \<Rightarrow> bpann_error + MmapColumnStore" where
  "release_resident_pages os_ok st = rbind (ensure os_ok IoError) (\<lambda>_. Inr st)"

fun read_f64s :: "nat \<Rightarrow> u8 list \<Rightarrow> bpann_error + (f64 list \<times> u8 list)" where
  "read_f64s 0 bs = Inr ([], bs)"
| "read_f64s (Suc n) bs =
     rbind (read_f64 bs) (\<lambda>(x, bs1). rbind (read_f64s n bs1) (\<lambda>(xs, bs2). Inr (x # xs, bs2)))"

definition mmap_row_slice :: "MmapColumnStore \<Rightarrow> nat \<Rightarrow> bpann_error + f64 list" where
  "mmap_row_slice st i =
     rbind (ensure (i < store_rows st) (RowOutOfRange i (store_rows st))) (\<lambda>_.
     let byte_start = i * store_row_bytes st; byte_end = byte_start + store_row_bytes st in
     rbind (ensure (byte_end \<le> length (mapped st)) IndexPanic) (\<lambda>_.
     rbind (read_f64s (store_cols st) (take (store_row_bytes st) (drop byte_start (mapped st))))
       (\<lambda>(row, _). Inr row)))"

definition mmap_gather :: "MmapColumnStore \<Rightarrow> nat list \<Rightarrow> bpann_error + f64 list list" where
  "mmap_gather st indices = map_res (mmap_row_slice st) indices"

text \<open>\<open>pretouch\<close> writes a zero to every page of the mapping.\<close>

definition pretouch :: "MmapColumnStore \<Rightarrow> MmapColumnStore" where
  "pretouch st = st\<lparr>mapped := map (\<lambda>(i, b). if i mod 4096 = 0 then 0 else b) (enumerate 0 (mapped st))\<rparr>"

section \<open>The store as a row store\<close>

definition mapped_slots :: "MmapColumnStore \<Rightarrow> nat" where
  "mapped_slots st = (if store_row_bytes st = 0 then 0 else length (mapped st) div store_row_bytes st)"

definition mapped_read :: "MmapColumnStore \<Rightarrow> nat \<Rightarrow> u8 list" where
  "mapped_read st s = take (store_row_bytes st) (drop (s * store_row_bytes st) (mapped st))"

definition mapped_write :: "MmapColumnStore \<Rightarrow> nat \<Rightarrow> u8 list \<Rightarrow> MmapColumnStore" where
  "mapped_write st s row = st\<lparr>mapped := take (s * store_row_bytes st) (mapped st) @ row
     @ drop ((s + 1) * store_row_bytes st) (mapped st)\<rparr>"

lemma mapped_slot_fits:
  assumes "s < mapped_slots st"
  shows "(s + 1) * store_row_bytes st \<le> length (mapped st)"
proof -
  from assms have "s + 1 \<le> length (mapped st) div store_row_bytes st" "0 < store_row_bytes st"
    by (auto simp: mapped_slots_def split: if_splits)
  then show ?thesis by (metis less_eq_div_iff_mult_less_eq)
qed

lemma store_row_bytes_mapped [simp]: "store_row_bytes (st\<lparr>mapped := m\<rparr>) = store_row_bytes st"
  "store_row_bytes (st\<lparr>mapped := m, store_rows := n\<rparr>) = store_row_bytes st"
  "store_row_bytes (st\<lparr>store_rows := n\<rparr>) = store_row_bytes st"
  by (simp_all add: store_row_bytes_def)

lemma length_mapped_write:
  "s < mapped_slots st \<Longrightarrow> length row = store_row_bytes st \<Longrightarrow>
    length (mapped (mapped_write st s row)) = length (mapped st)"
  using mapped_slot_fits [of s st] by (auto simp: mapped_write_def min_def)

lemma store_row_bytes_write [simp]: "store_row_bytes (mapped_write st s row) = store_row_bytes st"
  by (simp add: mapped_write_def)

interpretation ms: row_store "\<lambda>_. True" mapped_slots store_row_bytes mapped_read mapped_write
proof
  fix e s t and row :: "u8 list"
  assume ok: "s < mapped_slots e"
  show "length (mapped_read e s) = store_row_bytes e"
    using mapped_slot_fits [OF ok] by (auto simp: mapped_read_def min_def)
  assume row: "length row = store_row_bytes e"
  show "True \<and> mapped_slots (mapped_write e s row) = mapped_slots e \<and>
      store_row_bytes (mapped_write e s row) = store_row_bytes e"
    using length_mapped_write [OF ok row] by (simp add: mapped_slots_def)
  assume "t < mapped_slots e"
  from block_read_write [OF mapped_slot_fits [OF ok] mapped_slot_fits [OF this] row]
  show "mapped_read (mapped_write e s row) t = (if t = s then row else mapped_read e t)"
    by (simp add: mapped_read_def mapped_write_def)
qed

text \<open>Copying rows in one block is writing them one by one.\<close>

lemma block_copy_wr_all:
  assumes "(s + length rows) * store_row_bytes st \<le> length (mapped st)"
    and "\<forall>r\<in>set rows. length r = store_row_bytes st"
  shows "st\<lparr>mapped := take (s * store_row_bytes st) (mapped st) @ concat rows
     @ drop ((s + length rows) * store_row_bytes st) (mapped st)\<rparr> = ms.wr_all st (enumerate s rows)"
  using assms
proof (induction rows arbitrary: s st)
  case Nil
  then show ?case by simp
next
  case (Cons r rows)
  let ?w = "store_row_bytes st" and ?m = "mapped st"
  have r: "length r = ?w" using Cons.prems(2) by simp
  have fit: "(s + 1) * ?w \<le> length ?m" "(s + 1 + length rows) * ?w \<le> length ?m"
    using Cons.prems(1) by (simp_all add: algebra_simps)
  have len: "length (mapped (mapped_write st s r)) = length ?m"
    using fit(1) r by (simp add: mapped_write_def)
  have "take ((s + 1) * ?w) (mapped (mapped_write st s r)) = take (s * ?w) ?m @ r"
    using fit(1) r by (simp add: mapped_write_def)
  moreover have "drop ((s + 1 + length rows) * ?w) (mapped (mapped_write st s r))
      = drop ((s + 1 + length rows) * ?w) ?m"
    using fit r by (simp add: mapped_write_def algebra_simps)
  ultimately have "mapped_write st s r\<lparr>mapped := take ((s + 1) * ?w) (mapped (mapped_write st s r)) @ concat rows
     @ drop ((s + 1 + length rows) * ?w) (mapped (mapped_write st s r))\<rparr>
     = st\<lparr>mapped := take (s * ?w) ?m @ concat (r # rows) @ drop ((s + length (r # rows)) * ?w) ?m\<rparr>"
    by (simp add: mapped_write_def)
  moreover have "(s + 1 + length rows) * ?w \<le> length (mapped (mapped_write st s r))"
    using fit(2) len by simp
  ultimately show ?case
    using Cons.IH [of "s + 1" "mapped_write st s r"] Cons.prems(2) by simp
qed

section \<open>Appending and reading back\<close>

definition store_ok :: "MmapColumnStore \<Rightarrow> bool" where
  "store_ok st \<longleftrightarrow> store_rows st * store_row_bytes st \<le> length (mapped st)"

lemma read_f64s_eq: "read_f64s n bs = c64.dec_n n bs"
  by (induction n arbitrary: bs) (simp_all add: case_prod_unfold)

lemma row_end_fits:
  assumes "store_ok st" "i < store_rows st"
  shows "(i + 1) * store_row_bytes st \<le> length (mapped st)"
proof -
  have "(i + 1) * store_row_bytes st \<le> store_rows st * store_row_bytes st"
    using assms(2) by (intro mult_le_mono1) simp
  then show ?thesis using assms(1) by (simp add: store_ok_def)
qed

lemma mmap_row_slice_bytes:
  assumes "store_ok st" "i < store_rows st" "length row = store_cols st" "mapped_read st i = f64s_bytes row"
  shows "mmap_row_slice st i = Inr row"
proof -
  have "read_f64s (length row) (f64s_bytes row @ []) = Inr (row, [])"
    unfolding read_f64s_eq f64s_bytes_def by (rule c64.dec_n_enc) simp
  then show ?thesis
    using row_end_fits [OF assms(1,2)] assms(2-4)
    by (simp add: mmap_row_slice_def Let_def mapped_read_def add.commute)
qed

lemma mmap_row_slice_cong:
  assumes "store_ok st" "store_ok st'" "i < store_rows st" "i < store_rows st'"
    and "store_cols st' = store_cols st" "mapped_read st' i = mapped_read st i"
  shows "mmap_row_slice st' i = mmap_row_slice st i"
  using row_end_fits [OF assms(1,3)] row_end_fits [OF assms(2,4)] assms
  by (simp add: mmap_row_slice_def Let_def mapped_read_def add.commute store_row_bytes_def)

lemma saturating_mul_id: "a * b < usize_bound \<Longrightarrow> saturating_mul a b = a * b"
  by (simp add: saturating_mul_def)

lemma set_len_grow: "length bs \<le> n \<Longrightarrow> length (set_len n bs) = n \<and> take (length bs) (set_len n bs) = bs"
  by (simp add: set_len_def)

lemma ensure_capacity_grows:
  assumes "store_ok st" "store_rows st \<le> need"
    and "(store_rows st + max (need - store_rows st) MMAP_GROW_ROWS) * store_row_bytes st < usize_bound"
  shows "\<exists>m. ensure_capacity True need st = Inr (st\<lparr>mapped := m\<rparr>) \<and> need * store_row_bytes st \<le> length m
    \<and> take (length (mapped st)) m = mapped st"
proof -
  have le: "need * store_row_bytes st
      \<le> (store_rows st + max (need - store_rows st) MMAP_GROW_ROWS) * store_row_bytes st"
    using assms(2) by (intro mult_le_mono1) linarith
  have sat: "bytes_for_rows st need = need * store_row_bytes st"
    "bytes_for_rows st (store_rows st + max (need - store_rows st) MMAP_GROW_ROWS)
      = (store_rows st + max (need - store_rows st) MMAP_GROW_ROWS) * store_row_bytes st"
    unfolding bytes_for_rows_def by (rule saturating_mul_id, insert assms(3) le, linarith)+
  show ?thesis
  proof (cases "need * store_row_bytes st \<le> length (mapped st)")
    case True
    then show ?thesis using sat by (intro exI [of _ "mapped st"]) (simp add: ensure_capacity_def)
  next
    case False
    define n where "n = (store_rows st + max (need - store_rows st) MMAP_GROW_ROWS) * store_row_bytes st"
    have "length (mapped st) \<le> n" unfolding n_def using False le by linarith
    note sl = set_len_grow [OF this]
    show ?thesis
      using False le sat(1) sat(2) [folded n_def] sl unfolding n_def [symmetric]
      by (intro exI [of _ "set_len n (mapped st)"]) (simp add: ensure_capacity_def Let_def)
  qed
qed

lemma mapped_slots_ge:
  "0 < store_row_bytes st \<Longrightarrow> n \<le> mapped_slots st \<longleftrightarrow> n * store_row_bytes st \<le> length (mapped st)"
  by (simp add: mapped_slots_def less_eq_div_iff_mult_less_eq)

lemma mapped_slots_rows [simp]: "mapped_slots (st\<lparr>store_rows := n\<rparr>) = mapped_slots st"
  by (simp add: mapped_slots_def store_row_bytes_def)

lemma concat_f64s_length:
  "\<forall>r\<in>set rows. length r = c \<Longrightarrow> length (concat (map f64s_bytes rows)) = length rows * (c * 8)"
  by (induction rows) (simp_all add: algebra_simps)

lemma mmap_append_wr_all:
  assumes "store_ok st" "\<forall>r\<in>set rows. length r = store_cols st" "rows \<noteq> []"
    and "(store_rows st + max (length rows) MMAP_GROW_ROWS) * store_row_bytes st < usize_bound"
  shows "\<exists>m. mmap_append True (store_cols st, rows) st
      = Inr ((ms.wr_all (st\<lparr>mapped := m\<rparr>) (enumerate (store_rows st) (map f64s_bytes rows)))\<lparr>
          store_rows := store_rows st + length rows\<rparr>)
    \<and> (store_rows st + length rows) * store_row_bytes st \<le> length m \<and> take (length (mapped st)) m = mapped st"
proof -
  obtain m where m: "ensure_capacity True (store_rows st + length rows) st = Inr (st\<lparr>mapped := m\<rparr>)"
    "(store_rows st + length rows) * store_row_bytes st \<le> length m" "take (length (mapped st)) m = mapped st"
    using ensure_capacity_grows [OF assms(1), of "store_rows st + length rows"] assms(4) by auto
  have len: "length (concat (map f64s_bytes rows)) = length rows * store_row_bytes st"
    using concat_f64s_length [OF assms(2)] by (simp add: store_row_bytes_def)
  have "st\<lparr>mapped := take (store_rows st * store_row_bytes st) m @ concat (map f64s_bytes rows)
      @ drop ((store_rows st + length rows) * store_row_bytes st) m\<rparr>
    = ms.wr_all (st\<lparr>mapped := m\<rparr>) (enumerate (store_rows st) (map f64s_bytes rows))"
    using block_copy_wr_all [of "store_rows st" "map f64s_bytes rows" "st\<lparr>mapped := m\<rparr>"] m(2) assms(2)
    by (simp add: store_row_bytes_def)
  then show ?thesis
    using m len assms(3) by (intro exI [of _ m]) (simp add: mmap_append_def Let_def algebra_simps)
qed

lemma mapped_read_prefix:
  "(i + 1) * store_row_bytes st \<le> length (mapped st) \<Longrightarrow> take (length (mapped st)) m = mapped st
    \<Longrightarrow> mapped_read (st\<lparr>mapped := m\<rparr>) i = mapped_read st i"
  by (simp add: mapped_read_def) (metis take_drop_append append_take_drop_id add.commute)

lemma mapped_read_rows [simp]: "mapped_read (st\<lparr>store_rows := n\<rparr>) i = mapped_read st i"
  by (simp add: mapped_read_def)

lemma wr_all_shape:
  "store_cols (ms.wr_all e ws) = store_cols e \<and> store_rows (ms.wr_all e ws) = store_rows e"
  by (induction ws arbitrary: e) (auto simp: mapped_write_def)

text \<open>Appended rows are read back. Appending rows of the store's width to a store whose
  rows lie within its file (and whose grown size fits the address space) succeeds when the
  operating system does; every old row is unchanged, every appended row is read back bit for
  bit at its position, and every index past the end is refused.\<close>

theorem mmap_append_reads_back:
  assumes "store_ok st" "0 < store_cols st" "\<forall>r\<in>set rows. length r = store_cols st" "rows \<noteq> []"
    and "(store_rows st + max (length rows) MMAP_GROW_ROWS) * store_row_bytes st < usize_bound"
  shows "\<exists>st'. mmap_append True (store_cols st, rows) st = Inr st' \<and> store_ok st' \<and>
    store_rows st' = store_rows st + length rows \<and>
    (\<forall>i. mmap_row_slice st' i =
       (if i < store_rows st then mmap_row_slice st i
        else if i < store_rows st + length rows then Inr (rows ! (i - store_rows st))
        else Inl (RowOutOfRange i (store_rows st + length rows))))"
proof -
  let ?n = "store_rows st" and ?w = "store_row_bytes st"
  let ?ws = "enumerate ?n (map f64s_bytes rows)"
  obtain m where app: "mmap_append True (store_cols st, rows) st
      = Inr ((ms.wr_all (st\<lparr>mapped := m\<rparr>) ?ws)\<lparr>store_rows := ?n + length rows\<rparr>)"
    and m: "(?n + length rows) * ?w \<le> length m" "take (length (mapped st)) m = mapped st"
    using mmap_append_wr_all [OF assms(1,3,4,5)] by blast
  let ?e = "st\<lparr>mapped := m\<rparr>" let ?st = "(ms.wr_all ?e ?ws)\<lparr>store_rows := ?n + length rows\<rparr>"
  have w: "0 < ?w" using assms(2) by (simp add: store_row_bytes_def)
  have slots: "?n + length rows \<le> mapped_slots ?e" using mapped_slots_ge [of ?e] w m(1) by simp
  have fits: "ms.fits ?e ?ws"
    using slots assms(3) by (auto simp: ms.fits_def in_set_enumerate_eq store_row_bytes_def)
  note sh = ms.wr_all_ok [OF fits] wr_all_shape [of ?e ?ws]
  have w': "store_row_bytes ?st = ?w" using sh by (simp add: store_row_bytes_def)
  have ok: "store_ok ?st"
    using mapped_slots_ge [of ?st "?n + length rows"] slots sh w w' by (simp add: store_ok_def)
  have old: "mmap_row_slice ?st i = mmap_row_slice st i" if i: "i < ?n" for i
  proof (rule mmap_row_slice_cong [OF assms(1) ok i])
    have "mapped_read (ms.wr_all ?e ?ws) i = mapped_read ?e i"
      using slots i by (intro ms.rd_wr_all_other [OF fits]) (auto simp: in_set_enumerate_eq)
    then show "mapped_read ?st i = mapped_read st i"
      using mapped_read_prefix [OF row_end_fits [OF assms(1) i] m(2)] by simp
  qed (use i sh in simp_all)
  have new: "mmap_row_slice ?st i = Inr (rows ! (i - ?n))" if i: "\<not> i < ?n" "i < ?n + length rows" for i
  proof (rule mmap_row_slice_bytes [OF ok])
    have "(i, f64s_bytes (rows ! (i - ?n))) \<in> set ?ws"
      using i by (auto simp: in_set_enumerate_eq)
    then show "mapped_read ?st i = f64s_bytes (rows ! (i - ?n))"
      using ms.rd_wr_all [OF fits] by simp
  qed (use i sh assms(3) in simp_all)
  have out: "mmap_row_slice ?st i = Inl (RowOutOfRange i (?n + length rows))" if "\<not> i < ?n + length rows" for i
    using that by (simp add: mmap_row_slice_def)
  show ?thesis
    using app ok old new out by (intro exI [of _ ?st]) (simp add: sh)
qed

definition test_store :: MmapColumnStore where
  "test_store = \<lparr>store_cols = 1, store_rows = 1, mapped = f64_bytes fzero\<rparr>"

theorem mmap_append_reads_back_witness:
  "\<exists>st'. mmap_append True (1, [[infinity]]) test_store = Inr st' \<and> mmap_row_slice st' 1 = Inr [infinity]"
  using mmap_append_reads_back [of test_store "[[infinity]]"]
  by (auto simp: test_store_def store_ok_def store_row_bytes_def MMAP_GROW_ROWS_def usize_bound_def)

end
