(* ===== verification/TopK.thy ===== *)
theory TopK
  imports Floats
begin

text \<open>
  Rankings by distance, ties broken by id, and the \<open>k\<close> best entries of a list. The locale
  states what the searches need of a ranking (a linear order on the entries in play); its
  lemmas say that the \<open>k\<close> best entries do not depend on the order in which entries arrive
  and can be computed incrementally. The interpretation is the comparison that every search
  of the index passes to \<open>sort_by\<close>.
\<close>

section \<open>Insertion in sorted lists\<close>

lemma take_insort_le: "take k (insort_le le x (take k xs)) = take k (insort_le le x xs)"
proof (induction xs arbitrary: k)
  case Nil
  then show ?case by simp
next
  case (Cons y ys)
  show ?case
  proof (cases k)
    case (Suc j)
    then show ?thesis using Cons.IH [of j] by (cases j) (auto simp: take_Cons')
  qed simp
qed

lemma insort_le_last: "\<forall>y\<in>set xs. \<not> le x y \<Longrightarrow> insort_le le x xs = xs @ [x]"
  by (induction xs) auto

lemma insort_le_snoc: "le x w \<Longrightarrow> insort_le le x (us @ [w]) = insort_le le x us @ [w]"
  by (induction us) auto

lemma insort_le_map:
  "(\<And>y. y \<in> set ys \<Longrightarrow> le' (f x) (f y) = le x y) \<Longrightarrow> insort_le le' (f x) (map f ys) = map f (insort_le le x ys)"
  by (induction ys) auto

lemma sort_le_map:
  assumes "\<And>x y. x \<in> set xs \<Longrightarrow> y \<in> set xs \<Longrightarrow> le' (f x) (f y) = le x y"
  shows "sort_le le' (map f xs) = map f (sort_le le xs)"
  using assms
proof (induction xs)
  case Nil
  then show ?case by simp
next
  case (Cons x xs)
  have "insort_le le' (f x) (map f (sort_le le xs)) = map f (insort_le le x (sort_le le xs))"
    by (rule insort_le_map) (use Cons.prems in auto)
  then show ?case using Cons by simp
qed

lemma length_insort_le [simp]: "length (insort_le le x xs) = Suc (length xs)"
  by (induction xs) auto

section \<open>Linear rankings\<close>

definition topk :: "('a \<Rightarrow> 'a \<Rightarrow> bool) \<Rightarrow> nat \<Rightarrow> 'a list \<Rightarrow> 'a list" where
  "topk le k xs = take k (sort_le le xs)"

lemma set_topk: "set (topk le k xs) \<subseteq> set xs"
  by (simp add: topk_def) (metis set_sort_le set_take_subset)

lemma length_topk [simp]: "length (topk le k xs) = min k (length xs)"
  by (simp add: topk_def min.commute)

locale ranking =
  fixes le :: "'a \<Rightarrow> 'a \<Rightarrow> bool" and A :: "'a set"
  assumes preorder: "preorder_on_set A le"
    and antisym: "x \<in> A \<Longrightarrow> y \<in> A \<Longrightarrow> le x y \<Longrightarrow> le y x \<Longrightarrow> x = y"
begin

lemma sorted_unique:
  "sorted_wrt le xs \<Longrightarrow> sorted_wrt le ys \<Longrightarrow> mset xs = mset ys \<Longrightarrow> set xs \<subseteq> A \<Longrightarrow> xs = ys"
proof (induction xs arbitrary: ys)
  case Nil
  then show ?case by simp
next
  case (Cons x xs)
  from Cons.prems(3) obtain y zs where ys: "ys = y # zs"
    by (cases ys) auto
  have sets: "set (x # xs) = set (y # zs)" using Cons.prems(3) ys mset_eq_setD by metis
  then have xy: "y = x \<or> y \<in> set xs" "x = y \<or> x \<in> set zs" "x \<in> A" "y \<in> A"
    using Cons.prems(4) by auto
  have "le x y" using xy(1,3) Cons.prems(1) preorder_on_set_total [OF preorder, of x x] by auto
  moreover have "le y x" using xy(2,4) Cons.prems(2) ys preorder_on_set_total [OF preorder, of y y] by auto
  ultimately have "x = y" using xy(3,4) by (intro antisym)
  then show ?case using Cons ys by auto
qed

lemma sorted_sort: "set xs \<subseteq> A \<Longrightarrow> sorted_wrt le (sort_le le xs)"
  by (intro sorted_wrt_sort_le_on preorder_on_set_subset [OF preorder])

lemma sort_le_mset: "mset xs = mset ys \<Longrightarrow> set xs \<subseteq> A \<Longrightarrow> sort_le le xs = sort_le le ys"
  using sorted_sort [of xs] sorted_sort [of ys] mset_eq_setD [of xs ys] by (intro sorted_unique) auto

lemma topk_mset: "mset xs = mset ys \<Longrightarrow> set xs \<subseteq> A \<Longrightarrow> topk le k xs = topk le k ys"
  by (simp add: topk_def sort_le_mset)

lemma topk_snoc: "set (xs @ [x]) \<subseteq> A \<Longrightarrow> topk le k (xs @ [x]) = take k (insort_le le x (topk le k xs))"
  using topk_mset [of "xs @ [x]" "x # xs" k] by (simp add: topk_def take_insort_le)

lemma topk_step_full:
  assumes "set (xs @ [x]) \<subseteq> A" "topk le k xs = us @ [w]" "length (us @ [w]) = k"
  shows "topk le k (xs @ [x]) = (if le x w then insort_le le x us else us @ [w])"
proof (cases "le x w")
  case True
  then show ?thesis
    using topk_snoc [OF assms(1), of k] assms(2,3) by (simp add: insort_le_snoc)
next
  case False
  have sub: "set (us @ [w]) \<subseteq> set xs" using set_topk [of le k xs] assms(2) by simp
  have sorted: "sorted_wrt le (us @ [w])"
    using sorted_sort [of xs] assms(1,2) by (metis append_take_drop_id sorted_wrt_append topk_def
      le_sup_iff set_append)
  have "\<not> le x y" if "y \<in> set (us @ [w])" for y
  proof
    assume "le x y"
    moreover have "le y w"
      using that sorted sub assms(1) preorder_on_set_total [OF preorder, of w w] by (auto simp: sorted_wrt_append)
    moreover have "x \<in> A" "y \<in> A" "w \<in> A" using that sub assms(1) by auto
    ultimately show False using False preorder_on_set_trans [OF preorder, of x y w] by blast
  qed
  then have "insort_le le x (us @ [w]) = (us @ [w]) @ [x]" by (intro insort_le_last) blast
  then show ?thesis using False topk_snoc [OF assms(1), of k] assms(2) by (simp flip: assms(3))
qed

lemma topk_append:
  assumes "set (xs @ ys) \<subseteq> A"
  shows "topk le k (topk le k xs @ ys) = topk le k (xs @ ys)"
  using assms
proof (induction ys rule: rev_induct)
  case Nil
  have "set (topk le k xs) \<subseteq> A" using Nil set_topk [of le k xs] by auto
  then have "sort_le le (topk le k xs) = topk le k xs"
    using sorted_sort [of xs] Nil sorted_wrt_take [of le "sort_le le xs" k]
    by (intro sorted_unique sorted_sort) (auto simp: topk_def)
  then show ?case by (simp add: topk_def)
next
  case (snoc y ys)
  have "set (topk le k xs @ ys @ [y]) \<subseteq> A" using snoc.prems set_topk [of le k xs] by auto
  then show ?case
    using snoc topk_snoc [of "topk le k xs @ ys" y k] topk_snoc [of "xs @ ys" y k] by simp
qed

lemma topk_append_both:
  assumes "set (xs @ ys) \<subseteq> A"
  shows "topk le k (topk le k xs @ topk le k ys) = topk le k (xs @ ys)"
proof -
  have sub: "set (topk le k xs @ ys) \<subseteq> A" "set (topk le k xs @ topk le k ys) \<subseteq> A"
    using assms set_topk [of le k xs] set_topk [of le k ys] by auto
  have "topk le k (topk le k xs @ topk le k ys) = topk le k (topk le k ys @ topk le k xs)"
    using sub by (intro topk_mset) auto
  also have "\<dots> = topk le k (ys @ topk le k xs)" using sub(1) by (intro topk_append) auto
  also have "\<dots> = topk le k (topk le k xs @ ys)" using sub(1) by (intro topk_mset) auto
  also have "\<dots> = topk le k (xs @ ys)" by (rule topk_append [OF assms])
  finally show ?thesis .
qed

lemma topk_best:
  assumes "set xs \<subseteq> A" "x \<in> set (topk le k xs)" "y \<in># mset xs - mset (topk le k xs)"
  shows "le x y"
proof -
  have "mset xs - mset (topk le k xs) = mset (drop k (sort_le le xs))"
    unfolding topk_def by (metis add_diff_cancel_left' append_take_drop_id mset_append mset_sort_le)
  then have "y \<in> set (drop k (sort_le le xs))" using assms(3) by simp
  then show ?thesis
    using take_sorted_wrt_le_drop [OF sorted_sort [OF assms(1)]] assms(2) by (simp add: topk_def)
qed

end

section \<open>Distance, then id\<close>

definition rank_le :: "'i::linorder \<times> 'w::len word ieee \<Rightarrow> 'i \<times> 'w word ieee \<Rightarrow> bool" where
  "rank_le a b \<longleftrightarrow> (if flt (snd a) (snd b) then True else if flt (snd b) (snd a) then False else fst a \<le> fst b)"

lemma rank_le_preorder: "preorder_on_set {e. \<not> is_nan (snd e)} rank_le"
  by (rule preorder_on_setI) (auto simp: rank_le_def fcmp_defs split: if_splits)

text \<open>The entries in play pair an id with its distance; no distance is a NaN.\<close>

definition entries_of :: "('i \<Rightarrow> 'w::len word ieee) \<Rightarrow> ('i \<times> 'w word ieee) set" where
  "entries_of dist = {(i, dist i) | i. \<not> is_nan (dist i)}"

interpretation rk: ranking rank_le "entries_of dist" for dist
proof
  show "preorder_on_set (entries_of dist) rank_le"
    by (rule preorder_on_set_subset [OF rank_le_preorder]) (auto simp: entries_of_def)
  show "x = y" if "x \<in> entries_of dist" "y \<in> entries_of dist" "rank_le x y" "rank_le y x" for x y
    using that by (auto simp: entries_of_def rank_le_def fcmp_defs split: if_splits)
qed

definition scored :: "('i \<Rightarrow> 'w::len word ieee) \<Rightarrow> 'i list \<Rightarrow> ('i \<times> 'w word ieee) list" where
  "scored dist ids = map (\<lambda>i. (i, dist i)) ids"

lemma set_scored: "\<forall>i\<in>set ids. \<not> is_nan (dist i) \<Longrightarrow> set (scored dist ids) \<subseteq> entries_of dist"
  by (auto simp: scored_def entries_of_def)

lemma scored_append [simp]: "scored dist (xs @ ys) = scored dist xs @ scored dist ys"
  by (simp add: scored_def)

lemma length_scored [simp]: "length (scored dist xs) = length xs"
  by (simp add: scored_def)

end
