(* ===== verification/FloatWiden.thy ===== *)
theory FloatWiden
  imports Floats
begin

text \<open>
  Widening \<open>f64::from(f32)\<close> is exact on finite values, so it preserves and reflects the
  order of every pair that is not a NaN. Ranking by widened distances is ranking by the
  distances.
\<close>

lemma inf_mag_lt [simp]: "inf_mag w < sign_weight w"
  using sign_weight_pos [of w] by (simp add: inf_mag_def)

lemma mk_float_not_nan: "m \<le> inf_mag LENGTH('w) \<Longrightarrow> \<not> is_nan (mk_float s m :: 'w::len word ieee)"
  using order_le_less_trans [OF _ inf_mag_lt, of m "LENGTH('w)"] by (simp add: is_nan_def)

lemma round_float_not_nan [simp]: "\<not> is_nan (round_float s p q :: 'w::len word ieee)"
  by (simp add: round_float_def mk_float_not_nan)

lemma round_float_sign [simp]: "sign_neg (round_float s p q :: 'w::len word ieee) = s"
  using order_le_less_trans [OF round_mag_le_inf inf_mag_lt, of "frac_bits LENGTH('w)" "LENGTH('w)" p q]
  by (simp add: round_float_def)

lemma mag_round_float:
  "mag (round_float s p q :: 'w::len word ieee) = round_mag (frac_bits LENGTH('w)) (inf_mag LENGTH('w)) p q"
  using order_le_less_trans [OF round_mag_le_inf inf_mag_lt, of "frac_bits LENGTH('w)" "LENGTH('w)" p q]
  by (simp add: round_float_def)

section \<open>Representable magnitudes\<close>

lemma units_of_normal: "f < 2 ^ fb \<Longrightarrow> units_of fb (Suc k * 2 ^ fb + f) = (2 ^ fb + f) * 2 ^ k"
proof -
  assume f: "f < 2 ^ fb"
  have n: "Suc k * 2 ^ fb + f = f + Suc k * 2 ^ fb" by (rule add.commute)
  have "(f + Suc k * 2 ^ fb) div 2 ^ fb = Suc k" by (subst div_mult_self1) (simp_all add: f)
  moreover have "(f + Suc k * 2 ^ fb) mod 2 ^ fb = f" by (subst mod_mult_self1) (simp add: f)
  ultimately show ?thesis unfolding n units_of_def Let_def by (simp del: mult_Suc)
qed

lemma representable: "a < 2 ^ Suc fb \<Longrightarrow> \<exists>m. units_of fb m = a * 2 ^ k"
proof (induction k arbitrary: a)
  case 0
  show ?case
  proof (cases "a < 2 ^ fb")
    case True
    then show ?thesis by (intro exI [of _ a]) (simp add: units_of_def)
  next
    case False
    then show ?thesis using 0 units_of_normal [of "a - 2 ^ fb" fb 0] by (intro exI [of _ a]) simp
  qed
next
  case (Suc k)
  show ?case
  proof (cases "a < 2 ^ fb")
    case True
    then show ?thesis using Suc.IH [of "2 * a"] by (simp add: ac_simps)
  next
    case False
    then show ?thesis
      using Suc.prems units_of_normal [of "a - 2 ^ fb" fb "Suc k"]
      by (intro exI [of _ "Suc (Suc k) * 2 ^ fb + (a - 2 ^ fb)"]) simp
  qed
qed

lemma units_of_scaled: "\<exists>a k. a < 2 ^ Suc fb \<and> units_of fb m = a * 2 ^ k"
proof (cases "m div 2 ^ fb = 0")
  case True
  moreover have "m mod 2 ^ fb < 2 ^ Suc fb" by (rule order_less_trans [of _ "2 ^ fb"]) simp_all
  ultimately show ?thesis
    by (intro exI [of _ "m mod 2 ^ fb"] exI [of _ 0]) (simp add: units_of_def)
next
  case False
  moreover have "2 ^ fb + m mod 2 ^ fb < 2 ^ Suc fb" by simp
  ultimately show ?thesis
    by (intro exI [of _ "2 ^ fb + m mod 2 ^ fb"] exI [of _ "m div 2 ^ fb - 1"]) (simp add: units_of_def Let_def)
qed

lemma units_of_strict_mono: "m < m' \<Longrightarrow> units_of fb m < units_of fb m'"
proof -
  assume "m < m'"
  then have "units_of fb m \<le> units_of fb m'" by (simp add: units_of_mono)
  moreover have "units_of fb m \<noteq> units_of fb m'"
    using round_mag_units_of [of m m' fb] round_mag_units_of [of m' m' fb] \<open>m < m'\<close> by auto
  ultimately show ?thesis by simp
qed

lemma units_of_less_iff: "units_of fb m < units_of fb m' \<longleftrightarrow> m < m'"
  using units_of_strict_mono [of m m' fb] units_of_strict_mono [of m' m fb] by (cases m m' rule: linorder_cases) auto

section \<open>Widening\<close>

definition widen_mag :: "nat \<Rightarrow> nat" where
  "widen_mag m = (if m = inf_mag 32 then inf_mag 64 else round_mag 52 (inf_mag 64) (units_of 23 m * 2 ^ 925) 1)"

lemma units_of_inf32: "units_of 23 (inf_mag 32) = 2 ^ 277"
  by (simp add: units_of_def float_layout)

lemma units_of_inf64: "units_of 52 (inf_mag 64) = 2 ^ 2098"
proof -
  have "inf_mag 64 = Suc 2046 * 2 ^ 52 + 0" by (simp add: float_layout)
  then show ?thesis using units_of_normal [of 0 52 2046] by (simp flip: power_add)
qed

lemma widen_exact:
  assumes "m < inf_mag 32"
  shows "units_of 52 (widen_mag m) = units_of 23 m * 2 ^ 925 \<and> widen_mag m < inf_mag 64"
proof -
  obtain a k where a: "a < 2 ^ Suc 23" "units_of 23 m = a * 2 ^ k"
    using units_of_scaled [of 23 m] by blast
  have "a < 2 ^ Suc 52" using a(1) by (rule order_less_trans) (rule power_strict_increasing, simp_all)
  then obtain m' where m': "units_of 52 m' = a * 2 ^ (k + 925)"
    using representable by blast
  then have eq: "units_of 52 m' = units_of 23 m * 2 ^ 925" by (simp add: a(2) power_add)
  have "units_of 23 m < 2 ^ 277" using units_of_strict_mono [OF assms, of 23] by (simp only: units_of_inf32)
  then have "units_of 52 m' < 2 ^ 277 * 2 ^ 925" unfolding eq by (intro mult_strict_right_mono) simp_all
  also have "\<dots> < (2::nat) ^ 2098" unfolding power_add [symmetric] by (rule power_strict_increasing) simp_all
  finally have lt: "m' < inf_mag 64" using units_of_less_iff [of 52 m' "inf_mag 64"] by (simp only: units_of_inf64)
  then have "widen_mag m = m'"
    using round_mag_units_of [of m' "inf_mag 64" 52] assms by (simp add: widen_mag_def eq)
  then show ?thesis using eq lt by simp
qed

lemma widen_mag_strict_mono: "m < m' \<Longrightarrow> m' \<le> inf_mag 32 \<Longrightarrow> widen_mag m < widen_mag m'"
proof (cases "m' = inf_mag 32")
  case True
  assume "m < m'"
  then show ?thesis using widen_exact [of m] True by (simp add: widen_mag_def)
next
  case False
  assume m: "m < m'" "m' \<le> inf_mag 32"
  then have "units_of 23 m * 2 ^ 925 < units_of 23 m' * 2 ^ 925"
    by (intro mult_strict_right_mono units_of_strict_mono) simp_all
  then show ?thesis
    using m False widen_exact [of m] widen_exact [of m'] units_of_less_iff [of 52 "widen_mag m" "widen_mag m'"]
    by simp
qed

lemma widen_mag_0: "widen_mag 0 = 0"
  using widen_exact [of 0] units_of_less_iff [of 52 0 "widen_mag 0"] by (simp add: float_layout units_of_def)

lemma f64_of_f32_shape:
  assumes "\<not> is_nan x"
  shows "mag (f64_of_f32 x) = widen_mag (mag x) \<and> sign_neg (f64_of_f32 x) = sign_neg x \<and> \<not> is_nan (f64_of_f32 x)"
proof (cases "is_inf x")
  case True
  have "inf_mag 64 < sign_weight 64" by simp
  then show ?thesis using True assms by (simp add: f64_of_f32_def widen_mag_def is_inf_def mk_float_not_nan)
next
  case False
  then have "f64_of_f32 x = round_float (sign_neg x) (units x * 2 ^ 925) 1"
    using assms by (simp only: f64_of_f32_def if_False) simp
  moreover have "mag (round_float (sign_neg x) (units x * 2 ^ 925) 1 :: f64) = widen_mag (mag x)"
    using False by (simp add: mag_round_float widen_mag_def is_inf_def units_def frac_bits_def)
  ultimately show ?thesis by simp
qed

lemma fkey_widen_less:
  assumes "\<not> is_nan x" "\<not> is_nan y"
  shows "fkey (f64_of_f32 x) < fkey (f64_of_f32 y) \<longleftrightarrow> fkey x < fkey y"
proof -
  have le: "mag x \<le> inf_mag 32" "mag y \<le> inf_mag 32" using assms by (simp_all add: is_nan_def not_less)
  have iff: "widen_mag a < widen_mag b \<longleftrightarrow> a < b" if "a \<le> inf_mag 32" "b \<le> inf_mag 32" for a b
    using widen_mag_strict_mono [of a b] widen_mag_strict_mono [of b a] that by (cases a b rule: linorder_cases) auto
  have pos: "0 < widen_mag a \<longleftrightarrow> 0 < a" if "a \<le> inf_mag 32" for a
    using iff [of 0 a] that by (simp add: widen_mag_0)
  show ?thesis
    using f64_of_f32_shape [OF assms(1)] f64_of_f32_shape [OF assms(2)] iff [OF le] iff [OF le(2,1)]
      pos [OF le(1)] pos [OF le(2)]
    by (auto simp: fkey_def)
qed

lemma flt_widen: "\<not> is_nan x \<Longrightarrow> \<not> is_nan y \<Longrightarrow> flt (f64_of_f32 x) (f64_of_f32 y) \<longleftrightarrow> flt x y"
  using f64_of_f32_shape [of x] f64_of_f32_shape [of y] fkey_widen_less [of x y] by (simp add: flt_def)

end
