(* ===== verification/BpannDistance.thy ===== *)
theory BpannDistance
  imports MmapStore TopK FloatWiden
begin

text \<open>
  Distances (\<open>rust/crates/bpann/src/distance.rs\<close>) and the flat search over a resident matrix
  (\<open>small_n_search.rs\<close>), the brute-force scan of mapped rows (\<open>index/search.rs\<close>) and the merge
  of two result legs (\<open>merge.rs\<close>). A \<open>BinaryHeap\<close> of distance-id pairs is the list of its
  elements in ascending order: \<open>peek\<close> and \<open>pop\<close> act on its last element. A \<open>HashMap\<close> whose
  entries are all sorted afterwards is an association list.
\<close>

section \<open>Squared distances\<close>

definition LANES :: nat where
  "LANES = 8"

definition chunks_exact :: "nat \<Rightarrow> 'a list \<Rightarrow> 'a list list" where
  "chunks_exact n xs = map (\<lambda>i. take n (drop (n * i) xs)) [0..<length xs div n]"

definition chunks_remainder :: "nat \<Rightarrow> 'a list \<Rightarrow> 'a list" where
  "chunks_remainder n xs = drop (n * (length xs div n)) xs"

definition sq_diff :: "'w::len word ieee \<Rightarrow> 'w word ieee \<Rightarrow> 'w word ieee" where
  "sq_diff x y = (let d = fsub x y in fmul d d)"

definition lane_step :: "f32 list \<times> f32 list \<Rightarrow> f32 list \<Rightarrow> f32 list" where
  "lane_step = (\<lambda>(ca, cb) acc. map (\<lambda>((lane, x), y). fadd lane (sq_diff x y)) (zip (zip acc ca) cb))"

definition l2_sq_f32 :: "f32 list \<Rightarrow> f32 list \<Rightarrow> f32" where
  "l2_sq_f32 a b =
     (let acc = fold lane_step (zip (chunks_exact LANES a) (chunks_exact LANES b)) (replicate LANES fzero);
          s = fold (\<lambda>x s. fadd s x) acc fzero
      in fold (\<lambda>(x, y) s. fadd s (sq_diff x y)) (zip (chunks_remainder LANES a) (chunks_remainder LANES b)) s)"

definition row_sq_l2 :: "f64 list \<Rightarrow> f64 list \<Rightarrow> bool \<Rightarrow> f64 list \<Rightarrow> f64" where
  "row_sq_l2 x y scale_x x_scale =
     (let acc = (if scale_x
        then fold (\<lambda>((xi, yi), sc) acc. fadd acc (let d = fsub (fdiv xi sc) (fdiv yi sc) in fmul d d))
               (zip (zip x y) x_scale) fzero
        else fold (\<lambda>(xi, yi) acc. fadd acc (sq_diff xi yi)) (zip x y) fzero)
      in fmax acc fzero)"

definition bpann_row_to_f32 :: "f64 list \<Rightarrow> bool \<Rightarrow> f64 list \<Rightarrow> f32 list" where
  "bpann_row_to_f32 row scale_x x_scale =
     (if scale_x then map (\<lambda>(v, s). f32_of_f64 (fdiv v s)) (zip row x_scale) else map f32_of_f64 row)"

definition batched_sq_l2_f32 :: "f32 list \<Rightarrow> f32 list list \<Rightarrow> f32 list" where
  "batched_sq_l2_f32 q rows = map (l2_sq_f32 q) rows"

definition batched_sq_l2_f64_rows ::
    "f64 list \<Rightarrow> MmapColumnStore \<Rightarrow> u32 list \<Rightarrow> bool \<Rightarrow> f64 list \<Rightarrow> bpann_error + f64 list" where
  "batched_sq_l2_f64_rows q train_x ids scale_x x_scale =
     map_res (\<lambda>i. rbind (mmap_row_slice train_x (unat i)) (\<lambda>row. Inr (row_sq_l2 q row scale_x x_scale))) ids"

section \<open>Flat search\<close>

definition SMALL_N_INCORE_SEARCH_LIMIT :: nat where
  "SMALL_N_INCORE_SEARCH_LIMIT = 8192"

definition heap_step :: "nat \<Rightarrow> u32 \<times> f32 \<Rightarrow> (u32 \<times> f32) list \<Rightarrow> (u32 \<times> f32) list" where
  "heap_step k e heap =
     (if length heap < k then insort_le rank_le e heap
      else if heap \<noteq> [] \<and> flt (snd e) (snd (last heap)) then insort_le rank_le e (butlast heap)
      else heap)"

definition flat_row :: "f32 list \<Rightarrow> nat \<Rightarrow> nat \<Rightarrow> f32 list" where
  "flat_row flat d i = take d (drop (i * d) flat)"

definition topk_flat_sq_l2 :: "f32 list \<Rightarrow> f32 list \<Rightarrow> nat \<Rightarrow> nat \<Rightarrow> nat \<Rightarrow> bpann_error + (u32 \<times> f32) list" where
  "topk_flat_sq_l2 q flat n d k =
     rbind (ensure (length q = d \<and> length flat = n * d) IndexPanic) (\<lambda>_.
     if k = 0 \<or> n = 0 then Inr []
     else let k = min k n;
              heap = fold (\<lambda>i. heap_step k (as_u32 i, l2_sq_f32 q (flat_row flat d i))) [0..<n] []
       in Inr (sort_le rank_le heap))"

section \<open>Merging two legs\<close>

fun first_wins :: "(u32 \<times> 'a) list \<Rightarrow> (u32 \<times> 'b) list \<Rightarrow> ('a \<Rightarrow> 'b) \<Rightarrow> (u32 \<times> 'b) list" where
  "first_wins [] seen f = seen"
| "first_wins ((i, d) # rest) seen f =
     first_wins rest (if i \<in> fst ` set seen then seen else seen @ [(i, f d)]) f"

definition finish_ranked :: "nat \<Rightarrow> nat \<Rightarrow> bool \<Rightarrow> (u32 \<times> f64) list \<Rightarrow> (u32 \<times> f64) list" where
  "finish_ranked k_out pool_k exclude_nearest seen =
     (let ranked = sort_le rank_le seen;
          ranked = (if exclude_nearest \<and> length ranked > 1 then tl ranked else ranked)
      in take k_out (take (min pool_k (length ranked)) ranked))"

definition merge_topk_precomputed_dist ::
    "(u32 \<times> f32) list \<Rightarrow> (u32 \<times> f32) list \<Rightarrow> nat \<Rightarrow> nat \<Rightarrow> bool \<Rightarrow> (u32 \<times> f64) list" where
  "merge_topk_precomputed_dist leg_a leg_b k_out pool_k exclude_nearest =
     finish_ranked k_out pool_k exclude_nearest (first_wins (leg_a @ leg_b) [] f64_of_f32)"

fun rescore_first :: "(u32 \<Rightarrow> bpann_error + f64) \<Rightarrow> (u32 \<times> f32) list \<Rightarrow> (u32 \<times> f64) list
    \<Rightarrow> bpann_error + (u32 \<times> f64) list" where
  "rescore_first dist [] seen = Inr seen"
| "rescore_first dist ((i, _) # rest) seen =
     (if i \<in> fst ` set seen then rescore_first dist rest seen
      else rbind (dist i) (\<lambda>d. rescore_first dist rest (seen @ [(i, d)])))"

definition bpann_merge_topk_candidates ::
    "MmapColumnStore \<Rightarrow> f64 list \<Rightarrow> (u32 \<times> f32) list \<Rightarrow> (u32 \<times> f32) list \<Rightarrow> nat \<Rightarrow> nat \<Rightarrow> bool \<Rightarrow> bool
      \<Rightarrow> f64 list \<Rightarrow> bpann_error + (u32 \<times> f64) list" where
  "bpann_merge_topk_candidates train_x q leg_a leg_b k_out pool_k exclude_nearest scale_x x_scale =
     rbind (rescore_first (\<lambda>i. rbind (mmap_row_slice train_x (unat i)) (\<lambda>row.
                Inr (row_sq_l2 q row scale_x x_scale))) (leg_a @ leg_b) [])
       (\<lambda>seen. Inr (finish_ranked k_out pool_k exclude_nearest seen))"

section \<open>Brute force\<close>

definition bpann_brute_force_topk :: "f32 list list \<Rightarrow> f32 list \<Rightarrow> nat \<Rightarrow> (u32 \<times> f32) list" where
  "bpann_brute_force_topk vs q k =
     topk rank_le k (map (\<lambda>(i, v). (as_u32 i, l2_sq_f32 q v)) (enumerate 0 vs))"

definition mapped_row_distance :: "f64 list \<Rightarrow> bool \<Rightarrow> f64 list \<Rightarrow> f32 list \<Rightarrow> bpann_error + f32" where
  "mapped_row_distance q scale_x x_scale buf =
     (if scale_x then
        rbind (ensure (length q \<le> length x_scale \<and> length q \<le> length buf) IndexPanic) (\<lambda>_.
        Inr (fold (\<lambda>j acc. let sc = f32_of_f64 (x_scale ! j);
                              d = fsub (fdiv (f32_of_f64 (q ! j)) sc) (buf ! j)
               in fadd acc (fmul d d)) [0..<length q] fzero))
      else Inr (fold (\<lambda>(x, r) acc. fadd acc (sq_diff (f32_of_f64 x) r)) (zip q buf) fzero))"

definition bpann_brute_force_topk_mmap ::
    "MmapColumnStore \<Rightarrow> nat \<Rightarrow> nat \<Rightarrow> f64 list \<Rightarrow> nat \<Rightarrow> bool \<Rightarrow> f64 list \<Rightarrow> bpann_error + (u32 \<times> f32) list" where
  "bpann_brute_force_topk_mmap train_x start stop q k scale_x x_scale =
     rbind (map_res (\<lambda>i. rbind (mmap_row_slice train_x i) (\<lambda>row.
              rbind (mapped_row_distance q scale_x x_scale (bpann_row_to_f32 row scale_x x_scale)) (\<lambda>d.
              Inr (as_u32 i, d)))) [start..<stop])
       (\<lambda>scored. Inr (topk rank_le k scored))"

section \<open>Distances of finite vectors\<close>

text \<open>Overflow can make a distance infinite, but finite coordinates never give a NaN.\<close>

definition fnonneg :: "'w::len word ieee \<Rightarrow> bool" where
  "fnonneg x \<longleftrightarrow> \<not> is_nan x \<and> \<not> sign_neg x"

lemma fsub_finite_not_nan: "is_finite a \<Longrightarrow> is_finite b \<Longrightarrow> \<not> is_nan (fsub a (b :: 'w::len word ieee))"
  by (auto simp: fsub_def fadd_def Let_def is_finite_def is_inf_def fneg_def mk_float_not_nan)
    (simp_all add: is_nan_def)

lemma fmul_square_nonneg: "\<not> is_nan d \<Longrightarrow> fnonneg (fmul d (d :: f32))"
  by (auto simp: fnonneg_def fmul_def Let_def is_inf_def float_layout mk_float_not_nan)

lemma sq_diff_nonneg: "is_finite a \<Longrightarrow> is_finite b \<Longrightarrow> fnonneg (sq_diff a (b :: f32))"
  by (simp add: sq_diff_def Let_def fmul_square_nonneg fsub_finite_not_nan)

lemma fadd_nonneg: "fnonneg a \<Longrightarrow> fnonneg b \<Longrightarrow> fnonneg (fadd a (b :: 'w::len word ieee))"
  by (auto simp: fnonneg_def fadd_def Let_def fval_def mk_float_not_nan)

lemma fzero_nonneg [simp]: "fnonneg fzero"
  by (simp add: fnonneg_def fzero_def mk_float_not_nan)

lemma fold_nonneg:
  "(\<And>x s. x \<in> set xs \<Longrightarrow> P s \<Longrightarrow> P (f x s)) \<Longrightarrow> P s \<Longrightarrow> P (fold f xs s)"
  by (induction xs arbitrary: s) auto

lemma lane_step_nonneg:
  assumes "\<forall>x\<in>set acc. fnonneg x" "\<forall>x\<in>set ca. is_finite x" "\<forall>x\<in>set cb. is_finite x"
  shows "\<forall>x\<in>set (lane_step (ca, cb) acc). fnonneg x"
proof
  fix z assume "z \<in> set (lane_step (ca, cb) acc)"
  then obtain l x y where z: "((l, x), y) \<in> set (zip (zip acc ca) cb)" "z = fadd l (sq_diff x y)"
    by (auto simp: lane_step_def)
  from z(1) have "(l, x) \<in> set (zip acc ca)" "y \<in> set cb" by (rule set_zip_leftD, rule set_zip_rightD)
  moreover from this(1) have "l \<in> set acc" "x \<in> set ca" by (rule set_zip_leftD, rule set_zip_rightD)
  ultimately show "fnonneg z" using assms z(2) by (simp add: fadd_nonneg sq_diff_nonneg)
qed

lemma chunks_subset:
  "set (chunks_remainder n xs) \<subseteq> set xs" "c \<in> set (chunks_exact n xs) \<Longrightarrow> set c \<subseteq> set xs"
  by (auto simp: chunks_remainder_def chunks_exact_def dest: in_set_takeD in_set_dropD)

lemma l2_sq_f32_nonneg:
  assumes "\<forall>x\<in>set a. is_finite x" "\<forall>x\<in>set b. is_finite x"
  shows "fnonneg (l2_sq_f32 a b)"
proof -
  let ?chunks = "zip (chunks_exact LANES a) (chunks_exact LANES b)"
  let ?rest = "zip (chunks_remainder LANES a) (chunks_remainder LANES b)"
  have "\<forall>x\<in>set (lane_step cc acc). fnonneg x" if cc: "cc \<in> set ?chunks" and acc: "\<forall>x\<in>set acc. fnonneg x" for cc acc
  proof -
    obtain ca cb where c: "cc = (ca, cb)" by (cases cc)
    have "ca \<in> set (chunks_exact LANES a)" "cb \<in> set (chunks_exact LANES b)"
      using cc unfolding c by (rule set_zip_leftD, rule set_zip_rightD)
    from this [THEN chunks_subset(2)] have "set ca \<subseteq> set a" "set cb \<subseteq> set b" .
    then show ?thesis unfolding c by (intro lane_step_nonneg acc) (use assms in blast)+
  qed
  moreover have "\<forall>x\<in>set (replicate LANES (fzero :: f32)). fnonneg x" by simp
  ultimately have "\<forall>x\<in>set (fold lane_step ?chunks (replicate LANES fzero)). fnonneg x"
    by (rule fold_nonneg [where P = "\<lambda>acc. \<forall>x\<in>set acc. fnonneg x"])
  then have lanes: "fnonneg (fold (\<lambda>x s. fadd s x) (fold lane_step ?chunks (replicate LANES fzero)) fzero)"
    by (rule_tac fold_nonneg [where P = fnonneg]) (blast intro: fadd_nonneg, rule fzero_nonneg)
  have step: "fnonneg ((\<lambda>(x, y) s. fadd s (sq_diff x y)) e s)" if "e \<in> set ?rest" "fnonneg s" for e s
  proof -
    obtain x y where e: "e = (x, y)" by (cases e)
    have "x \<in> set (chunks_remainder LANES a)" "y \<in> set (chunks_remainder LANES b)"
      using that(1) unfolding e by (rule set_zip_leftD, rule set_zip_rightD)
    then have "x \<in> set a" "y \<in> set b" 
      using subsetD [OF chunks_subset(1)] by metis+
    then show ?thesis using that(2) assms by (simp add: e fadd_nonneg sq_diff_nonneg)
  qed
  show ?thesis
    unfolding l2_sq_f32_def Let_def by (rule fold_nonneg [where P = fnonneg, OF step lanes])
qed

section \<open>The flat search equals brute force\<close>

lemma inj_as_u32: "i < 2 ^ 32 \<Longrightarrow> j < 2 ^ 32 \<Longrightarrow> as_u32 i = as_u32 j \<Longrightarrow> i = j"
  using unat_as_u32 by metis

lemma as_u32_le: "i \<le> j \<Longrightarrow> j < 2 ^ 32 \<Longrightarrow> as_u32 i \<le> as_u32 j"
  by (simp add: word_le_nat_alt unat_as_u32)

definition row_entry :: "f32 list \<Rightarrow> f32 list \<Rightarrow> nat \<Rightarrow> nat \<Rightarrow> u32 \<times> f32" where
  "row_entry q flat d i = (as_u32 i, l2_sq_f32 q (flat_row flat d i))"

lemma row_entries_in:
  assumes "n \<le> 2 ^ 32" "\<forall>i<n. \<not> is_nan (l2_sq_f32 q (flat_row flat d i))"
  shows "set (map (row_entry q flat d) [0..<n]) \<subseteq> entries_of (\<lambda>u. l2_sq_f32 q (flat_row flat d (unat u)))"
proof
  fix e assume "e \<in> set (map (row_entry q flat d) [0..<n])"
  then obtain i where i: "i < n" "e = row_entry q flat d i" by auto
  then have "unat (as_u32 i) = i" using assms(1) by (intro unat_as_u32) simp
  then show "e \<in> entries_of (\<lambda>u. l2_sq_f32 q (flat_row flat d (unat u)))"
    using i assms(2) by (auto simp: entries_of_def row_entry_def)
qed

lemma heap_step_topk:
  assumes "set (xs @ [e]) \<subseteq> entries_of dist" "\<forall>x\<in>set xs. fst x \<le> fst e" "e \<notin> set xs"
  shows "heap_step k e (topk rank_le k xs) = topk rank_le k (xs @ [e])"
proof (cases "length (topk rank_le k xs) < k")
  case True
  then have "topk rank_le k (xs @ [e]) = insort_le rank_le e (topk rank_le k xs)"
    using rk.topk_snoc [OF assms(1), of k] by simp
  then show ?thesis using True by (simp add: heap_step_def min_less_iff_disj)
next
  case False
  show ?thesis
  proof (cases "topk rank_le k xs" rule: rev_cases)
    case Nil
    then have "k = 0" using False by simp
    then show ?thesis by (simp add: heap_step_def topk_def)
  next
    case (snoc us w)
    have len: "length (us @ [w]) = k" using False snoc by (metis length_topk min.cobounded1 nat_less_le)
    have w: "w \<in> set xs" using set_topk [of rank_le k xs] snoc by auto
    obtain i j where ij: "e = (i, dist i)" "w = (j, dist j)" "\<not> is_nan (dist i)" "\<not> is_nan (dist j)"
      using assms(1) w by (auto simp: entries_of_def)
    have "j \<le> i" "j \<noteq> i" using assms(2,3) w ij by auto
    then have "rank_le e w \<longleftrightarrow> flt (snd e) (snd w)"
      using ij(3,4) by (auto simp: ij(1,2) rank_le_def fcmp_defs)
    then show ?thesis
      using rk.topk_step_full [OF assms(1) snoc len] snoc len by (simp add: heap_step_def)
  qed
qed

lemma heap_fold_topk:
  assumes "n \<le> 2 ^ 32" "\<forall>i<n. \<not> is_nan (l2_sq_f32 q (flat_row flat d i))"
  shows "fold (\<lambda>i. heap_step k (row_entry q flat d i)) [0..<n] [] = topk rank_le k (map (row_entry q flat d) [0..<n])"
  using assms
proof (induction n)
  case 0
  then show ?case by (simp add: topk_def)
next
  case (Suc n)
  let ?xs = "map (row_entry q flat d) [0..<n]"
  have "set (?xs @ [row_entry q flat d n]) \<subseteq> entries_of (\<lambda>u. l2_sq_f32 q (flat_row flat d (unat u)))"
    using row_entries_in [OF Suc.prems] by simp
  moreover have "\<forall>x\<in>set ?xs. fst x \<le> fst (row_entry q flat d n)"
    using Suc.prems(1) by (auto simp: row_entry_def intro: as_u32_le)
  moreover have "row_entry q flat d n \<notin> set ?xs"
  proof
    assume "row_entry q flat d n \<in> set ?xs"
    then obtain i where "i < n" "as_u32 n = as_u32 i" by (auto simp: row_entry_def)
    then show False using inj_as_u32 [of n i] Suc.prems(1) by simp
  qed
  ultimately show ?case
    using heap_step_topk [of ?xs "row_entry q flat d n" _ k] Suc by simp
qed

lemma flat_distance_not_nan:
  assumes "\<forall>x\<in>set q. is_finite x" "\<forall>x\<in>set flat. is_finite x"
  shows "\<not> is_nan (l2_sq_f32 q (flat_row flat d i))"
proof -
  have "set (flat_row flat d i) \<subseteq> set flat"
    by (auto simp: flat_row_def dest: in_set_takeD in_set_dropD)
  then have "fnonneg (l2_sq_f32 q (flat_row flat d i))"
    using assms by (intro l2_sq_f32_nonneg) blast+
  then show ?thesis by (simp add: fnonneg_def)
qed

lemma heap_search_brute_force:
  assumes "length q = d" "length flat = n * d" "n \<le> 2 ^ 32"
    and "\<forall>x\<in>set q. is_finite x" "\<forall>x\<in>set flat. is_finite x"
  shows "topk_flat_sq_l2 q flat n d k = Inr (bpann_brute_force_topk (map (flat_row flat d) [0..<n]) q k)"
proof -
  let ?es = "map (row_entry q flat d) [0..<n]"
  have nan: "\<forall>i<n. \<not> is_nan (l2_sq_f32 q (flat_row flat d i))"
    using flat_distance_not_nan [OF assms(4,5)] by blast
  have brute: "bpann_brute_force_topk (map (flat_row flat d) [0..<n]) q j = topk rank_le j ?es" for j
    by (simp add: bpann_brute_force_topk_def enumerate_map_upt comp_def row_entry_def [abs_def])
  have sub: "set ?es \<subseteq> entries_of (\<lambda>u. l2_sq_f32 q (flat_row flat d (unat u)))"
    by (rule row_entries_in [OF assms(3) nan])
  have "sort_le rank_le (topk rank_le j ?es) = topk rank_le j ?es" for j
    using rk.topk_append [of ?es "[]" _ j] sub length_topk [of rank_le j ?es]
    by (simp add: topk_def [of rank_le j "topk rank_le j ?es"])
  moreover have "topk rank_le (min k n) ?es = topk rank_le k ?es"
    by (simp add: topk_def min_def)
  ultimately show ?thesis
    using assms(1,2) heap_fold_topk [OF assms(3) nan, of "min k n"]
    by (auto simp: topk_flat_sq_l2_def brute Let_def row_entry_def [symmetric])
      (simp_all add: topk_def)
qed

text \<open>C21: the heap search is brute force. On a finite query and a finite row-major matrix of
  matching sizes with at most \<open>2 ^ 32\<close> rows, the bounded heap keeps exactly the rows that
  sorting all distances would put first, in the same order, ties to the lower id (also when
  distances overflow to infinity).\<close>

theorem topk_flat_is_brute_force:
  assumes "length q = d" "length flat = n * d" "n \<le> 2 ^ 32"
    and "\<forall>x\<in>set q. is_finite x" "\<forall>x\<in>set flat. is_finite x"
  shows "topk_flat_sq_l2 q flat n d k = Inr (bpann_brute_force_topk (map (flat_row flat d) [0..<n]) q k)"
  using assms by (rule heap_search_brute_force)

theorem topk_flat_is_brute_force_witness:
  "topk_flat_sq_l2 [fzero] [Ieee 0x3f800000, fzero, Ieee 0x40000000] 3 1 2 =
    Inr (bpann_brute_force_topk [[Ieee 0x3f800000], [fzero], [Ieee 0x40000000]] [fzero] 2)"
proof -
  have fin: "is_finite (fzero :: f32)" "is_finite (Ieee 0x3f800000 :: f32)" "is_finite (Ieee 0x40000000 :: f32)"
    by (simp_all add: float_eval)
  have upt: "[0..<3] = [0, 1, 2::nat]" by (simp add: upt_conv_Cons)
  show ?thesis
    using topk_flat_is_brute_force [of "[fzero]" 1 "[Ieee 0x3f800000, fzero, Ieee 0x40000000]" 3 2] fin
    by (simp add: flat_row_def upt)
qed

section \<open>Merging two legs is ranking their union\<close>

definition widen_entry :: "u32 \<times> f32 \<Rightarrow> u32 \<times> f64" where
  "widen_entry = (\<lambda>(i, d). (i, f64_of_f32 d))"

lemma first_wins_distinct:
  "distinct (map fst es) \<Longrightarrow> fst ` set es \<inter> fst ` set seen = {} \<Longrightarrow>
    first_wins es seen f = seen @ map (\<lambda>(i, d). (i, f d)) es"
proof (induction es arbitrary: seen)
  case Nil
  then show ?case by simp
next
  case (Cons e es)
  obtain i d where e: "e = (i, d)" by (cases e)
  have "fst ` set es \<inter> fst ` set (seen @ [(i, f d)]) = {}" using Cons.prems by (auto simp: e)
  then show ?case using Cons by (simp add: e)
qed

lemma take_pool: "k \<le> pool \<Longrightarrow> take k (take (min pool (length xs)) xs) = take k xs"
  by (cases "pool \<le> length xs") (simp_all add: min_def)

lemma widen_entry_le:
  "\<not> is_nan (snd a) \<Longrightarrow> \<not> is_nan (snd b) \<Longrightarrow> rank_le (widen_entry a) (widen_entry b) = rank_le a b"
  by (cases a, cases b) (simp add: rank_le_def widen_entry_def flt_widen)

lemma topk_distinct_fst: "distinct ids \<Longrightarrow> distinct (map fst (topk le k (scored dist ids)))"
proof -
  assume d: "distinct ids"
  have "map fst (scored dist ids) = ids" by (simp add: scored_def comp_def)
  then have "mset (map fst (sort_le le (scored dist ids))) = mset ids" by (metis mset_map mset_sort_le)
  then have "distinct (map fst (sort_le le (scored dist ids)))" using d mset_eq_imp_distinct_iff by blast
  then show ?thesis by (simp add: topk_def take_map [symmetric])
qed

lemma topk_append_le:
  assumes "set (scored dist (xs @ ys)) \<subseteq> entries_of dist" "j \<le> ka" "j \<le> kb"
  shows "topk rank_le j (topk rank_le ka (scored dist xs) @ topk rank_le kb (scored dist ys))
    = topk rank_le j (scored dist (xs @ ys))"
proof -
  let ?A = "scored dist xs" and ?B = "scored dist ys"
  have sub: "set (?A @ ?B) \<subseteq> entries_of dist" "set (topk rank_le ka ?A @ ?B) \<subseteq> entries_of dist"
    "set (topk rank_le kb ?B @ topk rank_le ka ?A) \<subseteq> entries_of dist"
    using assms(1) set_topk [of rank_le ka ?A] set_topk [of rank_le kb ?B] by auto
  have cut: "topk rank_le j zs = take j (topk rank_le k zs)" if "j \<le> k" for k and zs :: "('a \<times> 'b word ieee) list"
    using that by (simp add: topk_def min_def)
  have "topk rank_le j (topk rank_le ka ?A @ topk rank_le kb ?B)
      = topk rank_le j (topk rank_le kb ?B @ topk rank_le ka ?A)"
    using sub(3) by (intro rk.topk_mset [of _ _ dist]) auto
  also have "\<dots> = topk rank_le j (?B @ topk rank_le ka ?A)"
    using rk.topk_append [of ?B "topk rank_le ka ?A" dist kb] sub(2) cut [OF assms(3)] by simp
  also have "\<dots> = topk rank_le j (topk rank_le ka ?A @ ?B)"
    using sub(2) by (intro rk.topk_mset [of _ _ dist]) auto
  also have "\<dots> = topk rank_le j (?A @ ?B)"
    using rk.topk_append [of ?A ?B dist ka] sub(1) cut [OF assms(2)] by simp
  finally show ?thesis by simp
qed

lemma merged_legs_rank_union:
  assumes "distinct (xs @ ys)" "\<forall>i\<in>set (xs @ ys). \<not> is_nan (dist i)"
    and "k_out + (if ex then 1 else 0) \<le> ka" "k_out + (if ex then 1 else 0) \<le> kb" "k_out \<le> pool_k"
  shows "merge_topk_precomputed_dist (topk rank_le ka (scored dist xs)) (topk rank_le kb (scored dist ys))
      k_out pool_k ex =
    map widen_entry (let ranked = sort_le rank_le (scored dist (xs @ ys))
      in take k_out (if ex \<and> 1 < length ranked then tl ranked else ranked))"
proof -
  let ?legs = "topk rank_le ka (scored dist xs) @ topk rank_le kb (scored dist ys)"
  let ?all = "scored dist (xs @ ys)"
  have in_entries: "set ?all \<subseteq> entries_of dist" using assms(2) by (intro set_scored)
  have legs_sub: "set ?legs \<subseteq> set ?all"
    using set_topk [of rank_le ka "scored dist xs"] set_topk [of rank_le kb "scored dist ys"] by auto
  have "fst ` set (topk rank_le ka (scored dist xs)) \<subseteq> set xs" "fst ` set (topk rank_le kb (scored dist ys)) \<subseteq> set ys"
    using set_topk [of rank_le ka "scored dist xs"] set_topk [of rank_le kb "scored dist ys"]
    by (auto simp: scored_def)
  then have dist_legs: "distinct (map fst ?legs)"
    using assms(1) topk_distinct_fst [of xs rank_le ka dist] topk_distinct_fst [of ys rank_le kb dist]
    by (auto simp: image_iff)
  have seen: "first_wins ?legs [] f64_of_f32 = map widen_entry ?legs"
    using first_wins_distinct [OF dist_legs, of "[]" f64_of_f32] by (simp add: widen_entry_def)
  have "\<not> is_nan (snd e)" if "e \<in> set ?legs" for e
    using subsetD [OF in_entries subsetD [OF legs_sub that]] by (auto simp: entries_of_def)
  then have sort: "sort_le rank_le (map widen_entry ?legs) = map widen_entry (sort_le rank_le ?legs)"
    by (intro sort_le_map widen_entry_le)
  have cut: "take j (sort_le rank_le ?legs) = take j (sort_le rank_le ?all)" if "j \<le> k_out + (if ex then 1 else 0)" for j
    using topk_append_le [OF in_entries, of j ka kb] that assms(3,4) by (simp add: topk_def)
  have many: "1 < length ?legs \<longleftrightarrow> 1 < length ?all" if "ex" "k_out \<noteq> 0"
    using that assms(3,4) by (auto simp: min_def)
  have fin: "finish_ranked k_out pool_k ex (map widen_entry ?legs) =
    map widen_entry (take k_out (if ex \<and> 1 < length ?legs then tl (sort_le rank_le ?legs) else sort_le rank_le ?legs))"
    unfolding finish_ranked_def sort Let_def take_pool [OF assms(5)] by (simp add: take_map map_tl [symmetric])
  have tl_cut: "take k_out (tl zs) = tl (take (Suc k_out) zs)" for zs :: "(u32 \<times> f32) list"
    by (cases zs) simp_all
  have "take k_out (if ex \<and> 1 < length ?legs then tl (sort_le rank_le ?legs) else sort_le rank_le ?legs)
      = take k_out (if ex \<and> 1 < length ?all then tl (sort_le rank_le ?all) else sort_le rank_le ?all)"
  proof (cases "k_out = 0")
    case True
    then show ?thesis by simp
  next
    case False
    then show ?thesis
      using many cut [of k_out] cut [of "Suc k_out"] by (cases ex) (simp_all only: tl_cut split: if_split, simp_all)
  qed
  then show ?thesis
    unfolding merge_topk_precomputed_dist_def seen fin Let_def by simp
qed

text \<open>Merging two search legs ranks their union. When each leg holds the best rows of its
  part, deep enough for the rows asked for (and one more when the nearest is excluded), the
  merged result is the ranking of all rows of both parts, without the nearest when that is
  excluded, cut to the rows asked for, with the distances widened exactly.\<close>

theorem merge_ranks_union:
  assumes "distinct (xs @ ys)" "\<forall>i\<in>set (xs @ ys). \<not> is_nan (dist i)"
    and "k_out + (if ex then 1 else 0) \<le> ka" "k_out + (if ex then 1 else 0) \<le> kb" "k_out \<le> pool_k"
  shows "merge_topk_precomputed_dist (topk rank_le ka (scored dist xs)) (topk rank_le kb (scored dist ys))
      k_out pool_k ex =
    map widen_entry (let ranked = sort_le rank_le (scored dist (xs @ ys))
      in take k_out (if ex \<and> 1 < length ranked then tl ranked else ranked))"
  using assms by (rule merged_legs_rank_union)

theorem merge_ranks_union_witness:
  "merge_topk_precomputed_dist (topk rank_le 2 [(0, infinity)]) (topk rank_le 2 [(1, fzero), (2, fzero)]) 1 1 True
    = [(2, f64_of_f32 fzero)]"
proof -
  let ?dist = "\<lambda>i::u32. if i = 0 then infinity else fzero :: f32"
  have nan: "\<not> is_nan (infinity :: f32)" "\<not> is_nan (fzero :: f32)" by (simp_all add: float_eval)
  have lt: "flt (fzero :: f32) infinity" by (simp add: flt_def float_eval)
  have "merge_topk_precomputed_dist (topk rank_le 2 (scored ?dist [0])) (topk rank_le 2 (scored ?dist [1, 2])) 1 1 True
    = [(2, f64_of_f32 fzero)]"
    by (subst merge_ranks_union) (auto simp: nan scored_def rank_le_def lt flt_asym widen_entry_def)
  then show ?thesis by (simp add: scored_def)
qed

section \<open>Arithmetic of the sample values\<close>

text \<open>Zero and infinity as coordinates, for the examples of the later theories.\<close>

lemma zero_arith [simp]:
  "fsub fzero fzero = (fzero :: f32)" "fmul fzero fzero = (fzero :: f32)" "fadd fzero fzero = (fzero :: f32)"
  by (simp_all add: fsub_def fadd_def fmul_def fneg_def fval_def float_eval)

lemma inf_arith:
  "fsub fzero infinity = (neg_infinity :: f32)" "fsub infinity fzero = (infinity :: f32)"
  "fsub infinity infinity = (nan :: f32)" "fmul infinity infinity = (infinity :: f32)"
  "fmul neg_infinity neg_infinity = (infinity :: f32)" "fmul nan nan = (nan :: f32)"
  "fadd fzero infinity = (infinity :: f32)" "fadd fzero nan = (nan :: f32)" "fadd infinity infinity = (infinity :: f32)"
  "fmul fzero infinity = (nan :: f32)" "fsub nan infinity = (nan :: f32)" "fadd infinity fzero = (infinity :: f32)"
  by (simp_all add: fsub_def fadd_def fmul_def fneg_def fval_def float_eval nan_def)

lemma one_arith:
  "flit (Suc 0) (Suc 0) = (Ieee 0x3f800000 :: f32)" "fdiv fzero (Ieee 0x3f800000) = (fzero :: f32)"
  "fdiv infinity (Ieee 0x3f800000) = (infinity :: f32)"
  by (simp_all add: fdiv_def float_eval)

lemma funpow_fadd_zero [simp]: "((\<lambda>s. fadd s fzero) ^^ n) fzero = (fzero :: f32)"
  by (induction n) simp_all

lemma sample_compare:
  "fle infinity (fzero :: f32) = False" "fle nan (fzero :: f32) = False" "fle fzero (fzero :: f32)"
  "flt fzero (infinity :: f32)" "flt infinity (nan :: f32) = False" "flt infinity (fzero :: f32) = False"
  "fmin infinity (fzero :: f32) = fzero" "fmin infinity (infinity :: f32) = infinity" "fmin infinity (nan :: f32) = infinity"
  by (simp_all add: fcmp_defs fmin_def float_eval nan_def)

lemma l2_samples:
  "l2_sq_f32 [fzero] [fzero] = fzero" "l2_sq_f32 [fzero] [infinity] = infinity"
  "l2_sq_f32 [infinity] [fzero] = infinity" "l2_sq_f32 [infinity] [infinity] = nan"
  by (simp_all add: l2_sq_f32_def LANES_def chunks_exact_def chunks_remainder_def sq_diff_def inf_arith)

text \<open>And the number one.\<close>

abbreviation one32 :: f32 where
  "one32 \<equiv> Ieee 0x3f800000"

lemma unit_arith:
  "fsub fzero one32 = Ieee 0xbf800000" "fsub one32 fzero = one32" "fsub one32 one32 = fzero"
  "fmul one32 one32 = one32" "fmul (Ieee 0xbf800000) (Ieee 0xbf800000) = one32" "fmul fzero one32 = fzero"
  "fadd fzero one32 = one32" "fadd one32 fzero = one32" "fdiv one32 one32 = one32"
  by (simp_all add: fsub_def fadd_def fmul_def fdiv_def fneg_def fval_def float_eval)

lemma unit_compare:
  "fle one32 fzero = False" "fle (Ieee 0xbf800000) (fzero :: f32)" "flt fzero one32" "flt one32 fzero = False"
  "fmin infinity one32 = one32" "is_finite one32" "is_finite (fzero :: f32)"
  by (simp_all add: fcmp_defs fmin_def float_eval)

lemma l2_units: "l2_sq_f32 [fzero] [one32] = one32" "l2_sq_f32 [one32] [fzero] = one32" "l2_sq_f32 [one32] [one32] = fzero"
  by (simp_all add: l2_sq_f32_def LANES_def chunks_exact_def chunks_remainder_def sq_diff_def unit_arith)

lemmas sample_eval = inf_arith one_arith sample_compare l2_samples unit_arith unit_compare l2_units

end
