(* ===== verification/BpannKmeans.thy ===== *)
theory BpannKmeans
  imports BpannPage BpannDistance "HOL-Library.Sublist"
begin

text \<open>
  k-means clustering and the partition tree (\<open>rust/crates/bpann/src/index/kmeans.rs\<close>). The
  random generator is a parameter: \<open>gen_range n r\<close> draws below \<open>n\<close>, \<open>gen_f32 r\<close> draws a float,
  each with the generator's next state. The recursion of the tree need not end, so it takes fuel.
  \<open>OutOfFuel\<close> is no result of the source: more fuel may give one, and a result never changes with more
  fuel; a tree over rows that every k-means run splits needs no more fuel than it has rows, and
  identical rows never get a tree. The vectors of one call have one width, as all callers give them
  (the source panics on wider ones).
\<close>

section \<open>Clustering\<close>

definition nearest_sq :: "f32 list list \<Rightarrow> f32 list \<Rightarrow> f32" where
  "nearest_sq cs p = fold (\<lambda>c d. fmin d (l2_sq_f32 p c)) cs infinity"

fun pick_point :: "f32 \<Rightarrow> nat \<Rightarrow> f32 list \<Rightarrow> nat" where
  "pick_point pick i [] = 0"
| "pick_point pick i (d # ds) = (let pick = fsub pick d in if fle pick fzero then i else pick_point pick (i + 1) ds)"

fun plus_plus_loop ::
    "(nat \<Rightarrow> 'r \<Rightarrow> nat \<times> 'r) \<Rightarrow> ('r \<Rightarrow> f32 \<times> 'r) \<Rightarrow> nat \<Rightarrow> f32 list list \<Rightarrow> f32 list list \<Rightarrow> 'r
      \<Rightarrow> f32 list list \<times> 'r" where
  "plus_plus_loop gen_range gen_f32 0 points cs r = (cs, r)"
| "plus_plus_loop gen_range gen_f32 (Suc n) points cs r =
     (let dists = map (nearest_sq cs) points;
          total = fold (\<lambda>x s. fadd s x) dists fzero
      in if fle total fzero then
           (case gen_range (length points) r of (i, r1) \<Rightarrow>
              plus_plus_loop gen_range gen_f32 n points (cs @ [points ! i]) r1)
         else
           (case gen_f32 r of (u, r1) \<Rightarrow>
              plus_plus_loop gen_range gen_f32 n points (cs @ [points ! pick_point (fmul u total) 0 dists]) r1))"

definition kmeans_plus_plus_init ::
    "(nat \<Rightarrow> 'r \<Rightarrow> nat \<times> 'r) \<Rightarrow> ('r \<Rightarrow> f32 \<times> 'r) \<Rightarrow> f32 list list \<Rightarrow> nat \<Rightarrow> 'r \<Rightarrow> f32 list list \<times> 'r" where
  "kmeans_plus_plus_init gen_range gen_f32 points k r =
     (if points = [] \<or> k = 0 then ([], r)
      else case gen_range (length points) r of (i, r1) \<Rightarrow>
        plus_plus_loop gen_range gen_f32 (min k (length points) - 1) points [points ! i] r1)"

text \<open>\<open>min_by\<close> keeps the first of equal minima; an unordered pair compares equal.\<close>

fun argmin_from :: "nat \<Rightarrow> nat \<times> f32 \<Rightarrow> f32 list \<Rightarrow> nat" where
  "argmin_from i best [] = fst best"
| "argmin_from i best (d # ds) = argmin_from (i + 1) (if flt d (snd best) then (i, d) else best) ds"

definition argmin_first :: "f32 list \<Rightarrow> nat" where
  "argmin_first ds = (case ds of [] \<Rightarrow> 0 | d # rest \<Rightarrow> argmin_from 1 (0, d) rest)"

definition nearest_centroid :: "f32 list list \<Rightarrow> f32 list \<Rightarrow> nat" where
  "nearest_centroid cs p = argmin_first (map (l2_sq_f32 p) cs)"

definition assign_clusters :: "f32 list list \<Rightarrow> f32 list list \<Rightarrow> nat list" where
  "assign_clusters points cs = map (nearest_centroid cs) points"

definition recompute_centroids :: "f32 list list \<Rightarrow> nat list \<Rightarrow> nat \<Rightarrow> f32 list list" where
  "recompute_centroids points assignments k =
     (let dim = (case points of [] \<Rightarrow> 0 | p # _ \<Rightarrow> length p);
          (sums, counts) = fold (\<lambda>(p, a) (sums, counts).
             if a < k then (sums[a := add_vector (sums ! a) p], counts[a := counts ! a + 1]) else (sums, counts))
             (zip points assignments) (replicate k (replicate dim fzero), replicate k (0::nat))
      in map (\<lambda>c. if counts ! c = 0 then replicate dim fzero
                  else map (\<lambda>s. fdiv s (flit (counts ! c) 1)) (sums ! c)) [0..<k])"

fun kmeans_iters :: "nat \<Rightarrow> f32 list list \<Rightarrow> nat \<Rightarrow> f32 list list \<Rightarrow> nat list \<Rightarrow> f32 list list \<times> nat list" where
  "kmeans_iters 0 points k cs assignments = (cs, assignments)"
| "kmeans_iters (Suc n) points k cs assignments =
     (let new_cs = recompute_centroids points assignments k;
          new_assignments = assign_clusters points new_cs
      in if new_assignments = assignments then (new_cs, assignments)
         else kmeans_iters n points k new_cs new_assignments)"

definition kmeans_run ::
    "(nat \<Rightarrow> 'r \<Rightarrow> nat \<times> 'r) \<Rightarrow> ('r \<Rightarrow> f32 \<times> 'r) \<Rightarrow> f32 list list \<Rightarrow> nat \<Rightarrow> nat \<Rightarrow> 'r
      \<Rightarrow> (f32 list list \<times> nat list) \<times> 'r" where
  "kmeans_run gen_range gen_f32 points k max_iters r =
     (if points = [] then (([], []), r)
      else let k = max (min k (length points)) 1
        in case kmeans_plus_plus_init gen_range gen_f32 points k r of (cs, r1) \<Rightarrow>
             (kmeans_iters max_iters points k cs (assign_clusters points cs), r1))"

section \<open>The partition tree\<close>

datatype PartitionNode =
    PartLeaf "(u32 \<times> f32 list) list" "f32 list"
  | PartInternal "f32 list" "PartitionNode list"

datatype partition_error = OutOfFuel | DivisionByZero | LengthMismatch

fun map_state_res :: "('a \<Rightarrow> 'r \<Rightarrow> 'e + ('b \<times> 'r)) \<Rightarrow> 'a list \<Rightarrow> 'r \<Rightarrow> 'e + ('b list \<times> 'r)" where
  "map_state_res f [] r = Inr ([], r)"
| "map_state_res f (x # xs) r =
     rbind (f x r) (\<lambda>(y, r1). rbind (map_state_res f xs r1) (\<lambda>(ys, r2). Inr (y # ys, r2)))"

definition cluster_count :: "nat \<Rightarrow> nat \<Rightarrow> nat" where
  "cluster_count rows leaf_capacity = min (max (div_ceil rows leaf_capacity) 2) 16"

definition clusters_of :: "nat \<Rightarrow> nat list \<Rightarrow> (u32 \<times> f32 list) list \<Rightarrow> (u32 \<times> f32 list) list list" where
  "clusters_of k assignments entries =
     map (\<lambda>c. map snd (filter (\<lambda>(a, _). a = c) (zip assignments entries))) [0..<k]"

primrec partition_recursive ::
    "nat \<Rightarrow> (nat \<Rightarrow> 'r \<Rightarrow> nat \<times> 'r) \<Rightarrow> ('r \<Rightarrow> f32 \<times> 'r) \<Rightarrow> nat \<Rightarrow> (u32 \<times> f32 list) list \<Rightarrow> 'r
      \<Rightarrow> partition_error + (PartitionNode \<times> 'r)" where
  "partition_recursive 0 gen_range gen_f32 leaf_capacity entries r = Inl OutOfFuel"
| "partition_recursive (Suc fuel) gen_range gen_f32 leaf_capacity entries r =
     (let points = map snd entries; centroid = mean_vector points in
      if length entries \<le> leaf_capacity then Inr (PartLeaf entries centroid, r)
      else rbind (ensure (leaf_capacity \<noteq> 0) DivisionByZero) (\<lambda>_.
      let k = cluster_count (length entries) leaf_capacity in
      case kmeans_run gen_range gen_f32 points k 20 r of ((_, assignments), r1) \<Rightarrow>
      rbind (map_state_res (partition_recursive fuel gen_range gen_f32 leaf_capacity)
               (filter (\<lambda>c. c \<noteq> []) (clusters_of k assignments entries)) r1) (\<lambda>(children, r2).
      Inr (PartInternal centroid children, r2))))"

definition partition_build ::
    "nat \<Rightarrow> (nat \<Rightarrow> 'r \<Rightarrow> nat \<times> 'r) \<Rightarrow> ('r \<Rightarrow> f32 \<times> 'r) \<Rightarrow> (u64 \<Rightarrow> 'r) \<Rightarrow> u32 list \<Rightarrow> f32 list list \<Rightarrow> nat
      \<Rightarrow> u64 \<Rightarrow> partition_error + PartitionNode" where
  "partition_build fuel gen_range gen_f32 seed_from rows vs leaf_capacity seed =
     rbind (ensure (length rows = length vs) LengthMismatch) (\<lambda>_.
     rbind (partition_recursive fuel gen_range gen_f32 leaf_capacity (zip rows vs) (seed_from seed)) (\<lambda>(root, _).
     Inr root))"

fun node_entries :: "PartitionNode \<Rightarrow> (u32 \<times> f32 list) list" where
  "node_entries (PartLeaf es c) = es"
| "node_entries (PartInternal c children) = concat (map node_entries children)"

fun collect_leaves :: "PartitionNode \<Rightarrow> (u32 list \<times> f32 list) list" where
  "collect_leaves (PartLeaf es c) = [(map fst es, c)]"
| "collect_leaves (PartInternal c children) = concat (map collect_leaves children)"

fun max_leaf_size :: "PartitionNode \<Rightarrow> nat" where
  "max_leaf_size (PartLeaf es c) = length es"
| "max_leaf_size (PartInternal c children) = fold max (map max_leaf_size children) 0"

fun node_ok :: "PartitionNode \<Rightarrow> bool" where
  "node_ok (PartLeaf es c) \<longleftrightarrow> True"
| "node_ok (PartInternal c children) \<longleftrightarrow> children \<noteq> [] \<and> list_all node_ok children"

section \<open>Assignments\<close>

lemma argmin_from_bound: "fst best < n \<Longrightarrow> i + length ds \<le> n \<Longrightarrow> argmin_from i best ds < n"
  by (induction i best ds rule: argmin_from.induct) auto

lemma argmin_first_bound: "ds \<noteq> [] \<Longrightarrow> argmin_first ds < length ds"
  by (cases ds) (simp_all add: argmin_first_def argmin_from_bound)

lemma assign_clusters_bound:
  "0 < k \<Longrightarrow> length cs \<le> k \<Longrightarrow> length (assign_clusters points cs) = length points \<and>
    (\<forall>a\<in>set (assign_clusters points cs). a < k)"
proof (cases "cs = []")
  case False
  assume k: "0 < k" "length cs \<le> k"
  have "nearest_centroid cs p < k" for p
    using argmin_first_bound [of "map (l2_sq_f32 p) cs"] False k by (simp add: nearest_centroid_def)
  then show ?thesis by (auto simp: assign_clusters_def)
qed (auto simp: assign_clusters_def nearest_centroid_def argmin_first_def)

lemma length_recompute [simp]: "length (recompute_centroids points assignments k) = k"
  by (simp add: recompute_centroids_def case_prod_unfold Let_def)

lemma length_plus_plus_loop: "length (fst (plus_plus_loop gr gf n points cs r)) = length cs + n"
  by (induction gr gf n points cs r rule: plus_plus_loop.induct) (auto simp: Let_def split: prod.splits)

lemma length_plus_plus_init: "length (fst (kmeans_plus_plus_init gr gf points k r)) \<le> k"
  by (auto simp: kmeans_plus_plus_init_def length_plus_plus_loop split: prod.splits)

lemma kmeans_iters_bound:
  assumes "0 < k" "length a = length points \<and> (\<forall>x\<in>set a. x < k)"
  shows "length (snd (kmeans_iters n points k cs a)) = length points \<and> (\<forall>x\<in>set (snd (kmeans_iters n points k cs a)). x < k)"
  using assms(2)
proof (induction n arbitrary: cs a)
  case 0
  then show ?case by simp
next
  case (Suc n)
  show ?case
    using Suc.IH [OF assign_clusters_bound [OF assms(1), of "recompute_centroids points a k"]] Suc.prems
    by (simp add: Let_def)
qed

lemma kmeans_run_bound:
  assumes "kmeans_run gr gf points k n r = ((cs, assignments), r')" "0 < k"
  shows "length assignments = length points \<and> (\<forall>a\<in>set assignments. a < k)"
proof (cases "points = []")
  case True
  then show ?thesis using assms by (auto simp: kmeans_run_def)
next
  case False
  let ?k = "max (min k (length points)) 1"
  obtain cs0 r1 where init: "kmeans_plus_plus_init gr gf points ?k r = (cs0, r1)" by (cases "kmeans_plus_plus_init gr gf points ?k r")
  have "length cs0 \<le> ?k" using length_plus_plus_init [of gr gf points ?k r] init by simp
  then have "length (snd (kmeans_iters n points ?k cs0 (assign_clusters points cs0))) = length points \<and>
      (\<forall>x\<in>set (snd (kmeans_iters n points ?k cs0 (assign_clusters points cs0))). x < ?k)"
    by (intro kmeans_iters_bound assign_clusters_bound) simp_all
  moreover have "?k \<le> k" using assms(2) by simp
  ultimately show ?thesis using assms(1) False init by (auto simp: kmeans_run_def)
qed

section \<open>The tree keeps the rows\<close>

lemma mset_clusters:
  "mset (concat (map (\<lambda>c. map snd (filter (\<lambda>(a, _). a = c) xs)) [0..<k])) = mset (map snd (filter (\<lambda>(a, _). a < k) xs))"
proof (induction k)
  case 0
  then show ?case by simp
next
  case (Suc k)
  have "filter_mset (\<lambda>(a, _). a < Suc k) (mset xs) = filter_mset (\<lambda>(a, _). a < k) (mset xs) + filter_mset (\<lambda>(a, _). a = k) (mset xs)"
    by (induction xs) (auto simp: less_Suc_eq)
  then show ?case using Suc by (simp add: mset_filter)
qed

lemma concat_nonempty: "concat (filter (\<lambda>c. c \<noteq> []) xss) = concat xss"
  by (induction xss) auto

lemma mset_clusters_of:
  assumes "length as = length es" "\<forall>a\<in>set as. a < k"
  shows "mset (concat (filter (\<lambda>c. c \<noteq> []) (clusters_of k as es))) = mset es"
proof -
  have "filter (\<lambda>(a, _). a < k) (zip as es) = zip as es"
    using assms(2) by (auto simp: filter_id_conv dest: set_zip_leftD)
  then have "mset (concat (clusters_of k as es)) = mset es"
    using assms(1) mset_clusters [of "zip as es" k] by (simp add: clusters_of_def)
  moreover have "concat (filter (\<lambda>c. c \<noteq> []) (clusters_of k as es)) = concat (clusters_of k as es)"
    by (rule concat_nonempty)
  ultimately show ?thesis by simp
qed

lemma map_state_res_all2:
  "map_state_res f xs r = Inr (ys, r') \<Longrightarrow> list_all2 (\<lambda>x y. \<exists>s s'. f x s = Inr (y, s')) xs ys"
  by (induction xs arbitrary: r ys) (auto simp: res_simps)

lemma fold_max_le: "fold max (xs :: nat list) a \<le> b \<longleftrightarrow> a \<le> b \<and> (\<forall>x\<in>set xs. x \<le> b)"
  by (induction xs arbitrary: a) auto

lemma partition_recursive_rows:
  "partition_recursive fuel gr gf cap es r = Inr (node, r') \<Longrightarrow>
    mset (node_entries node) = mset es \<and> max_leaf_size node \<le> cap \<and> node_ok node"
proof (induction fuel arbitrary: es r node r')
  case 0
  then show ?case by simp
next
  case (Suc fuel)
  show ?case
  proof (cases "length es \<le> cap")
    case True
    then show ?thesis using Suc.prems by (auto simp: Let_def)
  next
    case False
    let ?k = "cluster_count (length es) cap"
    obtain cs as r1 where run: "kmeans_run gr gf (map snd es) ?k 20 r = ((cs, as), r1)"
      by (metis prod.exhaust)
    let ?groups = "filter (\<lambda>c. c \<noteq> []) (clusters_of ?k as es)"
    obtain children where kids: "map_state_res (partition_recursive fuel gr gf cap) ?groups r1 = Inr (children, r')"
      and node: "node = PartInternal (mean_vector (map snd es)) children"
      using Suc.prems False run by (auto simp: Let_def res_simps)
    have "0 < ?k" by (simp add: cluster_count_def)
    then have "mset (concat ?groups) = mset es"
      using kmeans_run_bound [OF run] by (intro mset_clusters_of) simp_all
    moreover have all: "list_all2 (\<lambda>g c. mset (node_entries c) = mset g \<and> max_leaf_size c \<le> cap \<and> node_ok c) ?groups children"
      using map_state_res_all2 [OF kids] by (rule list_all2_mono) (blast dest: Suc.IH)
    then have "mset (concat (map node_entries children)) = mset (concat ?groups)"
      by (induction rule: list_all2_induct) simp_all
    moreover have "children \<noteq> []"
    proof
      assume "children = []"
      then have "?groups = []" using all by simp
      then have "mset es = {#}" using calculation(1) by simp
      then show False using False by simp
    qed
    moreover have "\<forall>c\<in>set children. max_leaf_size c \<le> cap \<and> node_ok c"
      using all by (auto simp: list_all2_conv_all_nth in_set_conv_nth)
    ultimately show ?thesis by (simp add: node fold_max_le list_all_iff)
  qed
qed

section \<open>Fuel\<close>

text \<open>More fuel never changes a result.\<close>

lemma map_state_res_more:
  assumes "map_state_res f xs r \<noteq> Inl OutOfFuel" "\<And>x r. f x r \<noteq> Inl OutOfFuel \<Longrightarrow> g x r = f x r"
  shows "map_state_res g xs r = map_state_res f xs r"
  using assms(1)
proof (induction xs arbitrary: r)
  case (Cons x xs)
  then have "f x r \<noteq> Inl OutOfFuel" by auto
  then have g: "g x r = f x r" by (rule assms(2))
  show ?case
  proof (cases "f x r")
    case (Inr p)
    obtain y r1 where p: "p = (y, r1)" by (cases p)
    then have "map_state_res f xs r1 \<noteq> Inl OutOfFuel" using Cons.prems Inr by auto
    then show ?thesis using Cons.IH [of r1] g Inr p by simp
  qed (simp add: g)
qed simp

lemma partition_recursive_Suc:
  "partition_recursive fuel gr gf cap es r \<noteq> Inl OutOfFuel \<Longrightarrow>
    partition_recursive (Suc fuel) gr gf cap es r = partition_recursive fuel gr gf cap es r"
proof (induction fuel arbitrary: es r)
  case (Suc fuel)
  let ?f = "partition_recursive fuel gr gf cap" and ?g = "partition_recursive (Suc fuel) gr gf cap"
  obtain cs as r1 where run: "kmeans_run gr gf (map snd es) (cluster_count (length es) cap) 20 r = ((cs, as), r1)"
    by (metis prod.exhaust)
  let ?groups = "filter (\<lambda>c. c \<noteq> []) (clusters_of (cluster_count (length es) cap) as es)"
  show ?case
  proof (cases "length es \<le> cap \<or> cap = 0")
    case False
    then have "map_state_res ?f ?groups r1 \<noteq> Inl OutOfFuel" using Suc.prems run by auto
    then have "map_state_res ?g ?groups r1 = map_state_res ?f ?groups r1"
      by (rule map_state_res_more) (rule Suc.IH)
    then show ?thesis
      using False run partition_recursive.simps(2) [of fuel gr gf cap es r] partition_recursive.simps(2) [of "Suc fuel" gr gf cap es r]
      by (simp del: partition_recursive.simps)
  qed (auto simp: Let_def)
qed simp

lemma partition_recursive_more:
  assumes "partition_recursive fuel gr gf cap es r = Inr x" "fuel \<le> fuel'"
  shows "partition_recursive fuel' gr gf cap es r = Inr x"
  using assms(2)
proof (induction fuel' rule: dec_induct)
  case (step n)
  then show ?case using partition_recursive_Suc [of n gr gf cap es r] by (simp only: sum.distinct simp_thms)
qed (rule assms(1))

lemma partition_build_more:
  assumes "partition_build fuel gr gf sf rows vs cap seed \<noteq> Inl OutOfFuel" "fuel \<le> fuel2"
  shows "partition_build fuel2 gr gf sf rows vs cap seed = partition_build fuel gr gf sf rows vs cap seed"
  using assms(2)
proof (induction fuel2 rule: dec_induct)
  case (step n)
  then have "length rows = length vs \<longrightarrow> partition_recursive n gr gf cap (zip rows vs) (sf seed) \<noteq> Inl OutOfFuel"
    using assms(1) by (auto simp: partition_build_def)
  then have "partition_build (Suc n) gr gf sf rows vs cap seed = partition_build n gr gf sf rows vs cap seed"
    using partition_recursive_Suc [of n gr gf cap "zip rows vs" "sf seed"]
    by (cases "length rows = length vs") (simp_all add: partition_build_def del: partition_recursive.simps)
  then show ?case using step.IH by simp
qed simp

text \<open>Every k-means run on more of the rows than fit a leaf, in their order, separates two of them.\<close>

definition always_splits ::
    "(nat \<Rightarrow> 'r \<Rightarrow> nat \<times> 'r) \<Rightarrow> ('r \<Rightarrow> f32 \<times> 'r) \<Rightarrow> nat \<Rightarrow> (u32 \<times> f32 list) list \<Rightarrow> bool" where
  "always_splits gr gf cap es \<longleftrightarrow> (\<forall>part\<in>set (subseqs es). cap < length part \<longrightarrow>
     (\<forall>r a. snd (fst (kmeans_run gr gf (map snd part) (cluster_count (length part) cap) 20 r)) \<noteq> replicate (length part) a))"

lemma map_state_res_returns:
  assumes "\<And>x r. x \<in> set xs \<Longrightarrow> \<exists>y r'. f x r = Inr (y, r')"
  shows "\<exists>ys r'. map_state_res f xs r = Inr (ys, r')"
  using assms
proof (induction xs arbitrary: r)
  case (Cons x xs)
  obtain y r1 where y: "f x r = Inr (y, r1)" using Cons.prems [of x r] by auto
  obtain ys r2 where "map_state_res f xs r1 = Inr (ys, r2)" using Cons.IH [of r1] Cons.prems by auto
  then show ?case using y by simp
qed simp

lemma cluster_subseq: "subseq (map snd (filter (\<lambda>(a, _). a = c) (zip as es))) es"
proof -
  have "subseq (map snd (zip as es)) es"
    by (simp add: map_snd_zip_take subseq_conv_nths) (metis nths_upt_eq_take)
  moreover have "subseq (map snd (filter (\<lambda>(a, _). a = c) (zip as es))) (map snd (zip as es))"
    by (intro subseq_map subseq_filter_left)
  ultimately show ?thesis by (rule subseq_order.trans [rotated])
qed

lemma cluster_shorter:
  assumes "length as = length es" "\<forall>a. as \<noteq> replicate (length es) a" "c < k"
  shows "length (map snd (filter (\<lambda>(a, _). a = c) (zip as es))) < length es"
proof -
  obtain a where a: "a \<in> set as" "a \<noteq> c" using assms(1,2) by (metis replicate_eqI)
  then obtain i where "i < length as" "as ! i = a" by (auto simp: in_set_conv_nth)
  then have "(a, es ! i) \<in> set (zip as es)" using assms(1) by (auto simp: in_set_zip)
  then have "length (filter (\<lambda>(a, _). a = c) (zip as es)) < length (zip as es)"
    using a(2) by (intro length_filter_less) auto
  then show ?thesis using assms(1) by simp
qed

lemma partition_recursive_enough:
  assumes "0 < cap"
  shows "length es < fuel \<Longrightarrow> always_splits gr gf cap es \<Longrightarrow> \<exists>node r'. partition_recursive fuel gr gf cap es r = Inr (node, r')"
proof (induction fuel arbitrary: es r)
  case (Suc fuel)
  show ?case
  proof (cases "length es \<le> cap")
    case True
    then show ?thesis by (simp add: Let_def)
  next
    case False
    let ?k = "cluster_count (length es) cap"
    obtain cs as r1 where run: "kmeans_run gr gf (map snd es) ?k 20 r = ((cs, as), r1)" by (metis prod.exhaust)
    have len: "length as = length es" using kmeans_run_bound [OF run] by (simp add: cluster_count_def)
    have all: "\<forall>a. as \<noteq> replicate (length es) a"
      using bspec [OF Suc.prems(2) [unfolded always_splits_def], of es] False run by (simp, metis fst_conv snd_conv)
    have "\<exists>node r'. partition_recursive fuel gr gf cap g r = Inr (node, r')"
      if group: "g \<in> set (filter (\<lambda>c. c \<noteq> []) (clusters_of ?k as es))" for g r
    proof -
      have "g \<in> (\<lambda>c. map snd (filter (\<lambda>(a, _). a = c) (zip as es))) ` {0..<?k}" using group by (simp add: clusters_of_def)
      then obtain c where g: "g = map snd (filter (\<lambda>(a, _). a = c) (zip as es))" "c < ?k" by (rule imageE) simp
      have "length g < fuel" using cluster_shorter [OF len all g(2)] Suc.prems(1) g(1) by simp
      moreover have "always_splits gr gf cap g"
        using Suc.prems(2) cluster_subseq [of c as es, folded g(1)]
        by (auto simp: always_splits_def intro: subseq_order.trans)
      ultimately show ?thesis by (rule Suc.IH)
    qed
    then have "\<exists>kids r2. map_state_res (partition_recursive fuel gr gf cap)
        (filter (\<lambda>c. c \<noteq> []) (clusters_of ?k as es)) r1 = Inr (kids, r2)"
      by (rule map_state_res_returns)
    then obtain kids r2 where "map_state_res (partition_recursive fuel gr gf cap)
        (filter (\<lambda>c. c \<noteq> []) (clusters_of ?k as es)) r1 = Inr (kids, r2)"
      by blast
    then show ?thesis using False run assms by (simp add: Let_def)
  qed
qed simp

lemma partition_build_enough:
  assumes "0 < cap" "length rows = length vs" "always_splits gr gf cap (zip rows vs)" "length rows < fuel"
  shows "\<exists>root. partition_build fuel gr gf sf rows vs cap seed = Inr root"
  using partition_recursive_enough [of cap "zip rows vs" fuel gr gf "sf seed"] assms by (auto simp: partition_build_def)

text \<open>C22: the partition tree keeps the rows. Whenever building the tree returns, for whatever
  draws of the generator, its leaves hold exactly the given rows with their vectors, no leaf
  exceeds the leaf capacity, no internal node is without children, and more fuel gives the same
  tree. It does return when every k-means run on more of the rows than fit a leaf separates two
  of them; one unit of fuel more than there are rows is then enough.\<close>

theorem partition_keeps_rows:
  shows "(\<forall>fuel root. partition_build fuel gen_range gen_f32 seed_from rows vs cap seed = Inr root \<longrightarrow>
      mset (node_entries root) = mset (zip rows vs) \<and> length rows = length vs \<and> max_leaf_size root \<le> cap \<and> node_ok root \<and>
      (\<forall>fuel2\<ge>fuel. partition_build fuel2 gen_range gen_f32 seed_from rows vs cap seed = Inr root)) \<and>
    (0 < cap \<and> length rows = length vs \<and> always_splits gen_range gen_f32 cap (zip rows vs) \<longrightarrow>
      (\<exists>root. partition_build (length rows + 1) gen_range gen_f32 seed_from rows vs cap seed = Inr root))"
proof (intro conjI allI impI; (elim conjE)?)
  fix fuel root assume root: "partition_build fuel gen_range gen_f32 seed_from rows vs cap seed = Inr root"
  then obtain r where rec: "partition_recursive fuel gen_range gen_f32 cap (zip rows vs) (seed_from seed) = Inr (root, r)"
    and len: "length rows = length vs" by (auto simp: partition_build_def res_simps)
  show "mset (node_entries root) = mset (zip rows vs)" "length rows = length vs" "max_leaf_size root \<le> cap" "node_ok root"
    using partition_recursive_rows [OF rec] len by simp_all
  fix fuel2 assume "fuel \<le> fuel2"
  then show "partition_build fuel2 gen_range gen_f32 seed_from rows vs cap seed = Inr root"
    using partition_recursive_more [OF rec] len by (simp add: partition_build_def)
next
  assume "0 < cap" "length rows = length vs" "always_splits gen_range gen_f32 cap (zip rows vs)"
  then show "\<exists>root. partition_build (length rows + 1) gen_range gen_f32 seed_from rows vs cap seed = Inr root"
    by (rule partition_build_enough) simp
qed

definition test_range :: "nat \<Rightarrow> unit \<Rightarrow> nat \<times> unit" where
  "test_range n r = (0, ())"

definition test_float :: "unit \<Rightarrow> f32 \<times> unit" where
  "test_float r = (fzero, ())"

text \<open>Two rows and leaves of one row: k-means separates them.\<close>

definition test_range1 :: "nat \<Rightarrow> unit \<Rightarrow> nat \<times> unit" where
  "test_range1 n r = (1, ())"

lemma test_clusters:
  "kmeans_run test_range1 test_float [[fzero], [infinity]] 2 20 () = (([[infinity], [fzero]], [1, 0]), ())"
  by (simp add: kmeans_run_def kmeans_plus_plus_init_def test_range1_def test_float_def Let_def nearest_sq_def
      sample_eval assign_clusters_def nearest_centroid_def argmin_first_def numeral_eq_Suc recompute_centroids_def
      add_vector_def)

lemma test_splits: "always_splits test_range1 test_float 1 [(7, [fzero]), (9, [infinity])]"
  by (auto simp: always_splits_def cluster_count_def div_ceil_def Let_def test_clusters [unfolded numeral_2_eq_2] numeral_2_eq_2)

theorem partition_keeps_rows_witness:
  "\<exists>root. partition_build 3 test_range1 test_float (\<lambda>_. ()) [7, 9] [[fzero], [infinity]] 1 0 = Inr root \<and>
    mset (node_entries root) = {#(7, [fzero]), (9, [infinity])#} \<and> max_leaf_size root \<le> 1 \<and>
    partition_build 1000 test_range1 test_float (\<lambda>_. ()) [7, 9] [[fzero], [infinity]] 1 0 = Inr root"
proof -
  note kept = partition_keeps_rows [of test_range1 test_float "\<lambda>_. ()" "[7, 9]" "[[fzero], [infinity]]" 1 0]
  have "always_splits test_range1 test_float 1 (zip [7, 9] [[fzero], [infinity]])" using test_splits by simp
  then obtain root where root: "partition_build (length [7, 9 :: u32] + 1) test_range1 test_float (\<lambda>_. ()) [7, 9] [[fzero], [infinity]] 1 0 = Inr root"
    using conjunct2 [OF kept] by (metis length_Cons list.size(3) zero_less_one)
  have three: "length [7, 9 :: u32] + 1 = 3" by simp
  note now = conjunct1 [OF kept, rule_format, OF root [unfolded three]]
  show ?thesis
  proof (intro exI conjI)
    show "partition_build 3 test_range1 test_float (\<lambda>_. ()) [7, 9] [[fzero], [infinity]] 1 0 = Inr root"
      by (rule root [unfolded three])
    show "mset (node_entries root) = {#(7, [fzero]), (9, [infinity])#}" "max_leaf_size root \<le> 1"
      using now by simp_all
    show "partition_build 1000 test_range1 test_float (\<lambda>_. ()) [7, 9] [[fzero], [infinity]] 1 0 = Inr root"
      by (rule mp [OF spec [OF conjunct2 [OF conjunct2 [OF conjunct2 [OF conjunct2 [OF now]]]]]]) simp
  qed
qed

section \<open>Identical rows\<close>

lemma assign_identical: "assign_clusters (replicate n p) cs = replicate n (nearest_centroid cs p)"
  by (simp add: assign_clusters_def)

lemma kmeans_iters_identical:
  "\<exists>a. snd (kmeans_iters i (replicate n p) k cs (replicate n b)) = replicate n a"
  by (induction i arbitrary: cs b) (auto simp: Let_def assign_identical)

lemma kmeans_run_identical:
  assumes "kmeans_run gr gf (replicate n p) k i r = ((cs, as), r')"
  shows "\<exists>a. as = replicate n a"
proof (cases "n = 0")
  case False
  then obtain cs0 k0 where "as = snd (kmeans_iters i (replicate n p) k0 cs0 (assign_clusters (replicate n p) cs0))"
    using assms by (auto simp: kmeans_run_def Let_def split: prod.splits) (metis snd_conv)
  then show ?thesis using kmeans_iters_identical [of i n p k0 cs0] by (simp add: assign_identical)
qed (use assms in \<open>simp add: kmeans_run_def\<close>)

lemma clusters_identical:
  assumes "es \<noteq> []" "a < k"
  shows "filter (\<lambda>c. c \<noteq> []) (clusters_of k (replicate (length es) a) es) = [es]"
proof -
  have zip: "zip (replicate (length es) a) es = map (Pair a) es"
    by (simp add: zip_replicate1)
  have "clusters_of k (replicate (length es) a) es = map (\<lambda>c. if c = a then es else []) [0..<k]"
    by (auto simp: clusters_of_def zip filter_map comp_def)
  also have "filter (\<lambda>c. c \<noteq> []) \<dots> = map (\<lambda>c. es) (filter (\<lambda>c. c = a) [0..<k])"
    using assms(1) by (simp add: filter_map comp_def cong: if_cong)
  also have "filter (\<lambda>c. c = a) [0..<k] = [a]"
    using assms(2) by (induction k) (auto simp: less_Suc_eq)
  finally show ?thesis by simp
qed

lemma partition_recursive_identical:
  assumes "map snd es = replicate (length es) p" "0 < cap" "cap < length es"
  shows "partition_recursive fuel gr gf cap es r = Inl OutOfFuel"
proof (induction fuel arbitrary: r)
  case 0
  then show ?case by simp
next
  case (Suc fuel)
  let ?k = "cluster_count (length es) cap"
  obtain cs as r1 where run: "kmeans_run gr gf (map snd es) ?k 20 r = ((cs, as), r1)"
    by (metis prod.exhaust)
  obtain a where a: "as = replicate (length es) a"
    using kmeans_run_identical [OF run [unfolded assms(1)]] by blast
  have ne: "es \<noteq> []" using assms(3) by auto
  have "0 < ?k" by (simp add: cluster_count_def)
  then have "a < ?k" using kmeans_run_bound [OF run] ne a by auto
  then have "filter (\<lambda>c. c \<noteq> []) (clusters_of ?k as es) = [es]"
    unfolding a by (rule clusters_identical [OF ne])
  then show ?case using Suc assms(2,3) run by (simp add: Let_def)
qed

lemma partition_build_identical:
  assumes "0 < cap" "cap < n" "length rows = n"
  shows "partition_build fuel gen_range gen_f32 seed_from rows (replicate n p) cap seed = Inl OutOfFuel"
proof -
  have "map snd (zip rows (replicate n p)) = replicate (length (zip rows (replicate n p))) p"
    using assms(3) by simp
  from partition_recursive_identical [OF this assms(1), of fuel gen_range gen_f32 "seed_from seed"] assms(2,3)
  show ?thesis by (simp add: partition_build_def)
qed

text \<open>C23: a defect of the partition tree. On more rows than the leaf capacity that all have
  the same vector, every k-means run puts all rows into one cluster, whatever the generator
  draws, so the recursion is called again with the same rows and never reaches a leaf: no
  amount of fuel makes it return.\<close>

theorem identical_rows_never_partition:
  assumes "0 < cap" "cap < n" "length rows = n"
  shows "\<forall>fuel. partition_build fuel gen_range gen_f32 seed_from rows (replicate n p) cap seed = Inl OutOfFuel"
  using partition_build_identical [OF assms] by blast

theorem identical_rows_never_partition_witness:
  "partition_build 1000 test_range test_float (\<lambda>_. ()) [0, 1, 2] (replicate 3 [fzero]) 2 0 = Inl OutOfFuel"
  using identical_rows_never_partition [of 2 3 "[0, 1, 2]" test_range test_float "\<lambda>_. ()" "[fzero]" 0] by simp

end
