(* ===== verification/BpannTuning.thy ===== *)
theory BpannTuning
  imports Prelude
begin

text \<open>
  Tuning of the disk index (\<open>rust/crates/bpann/src/tuning.rs\<close>): the tunable record, its
  defaults, \<open>validate\<close> with its checks in their order, the row bands that choose a search
  mode, and the current tuning. The process-wide provider is an argument: \<open>None\<close> when none
  is installed, otherwise the snapshot it returns at the call.
\<close>

definition INDEX_COMPACT_FRAGMENT_MAX_MIN :: nat where "INDEX_COMPACT_FRAGMENT_MAX_MIN = 3"
definition DEFAULT_PENDING_FLUSH_THRESHOLD :: nat where "DEFAULT_PENDING_FLUSH_THRESHOLD = 250"
definition DEFAULT_PENDING_HARD_FLUSH_THRESHOLD :: nat where "DEFAULT_PENDING_HARD_FLUSH_THRESHOLD = 3000"
definition DEFAULT_EXHAUSTIVE_SEARCH_ROW_LIMIT :: nat where "DEFAULT_EXHAUSTIVE_SEARCH_ROW_LIMIT = 2500"
definition DEFAULT_SKIP_REFINEMENT_ROW_LIMIT :: nat where "DEFAULT_SKIP_REFINEMENT_ROW_LIMIT = 150000"
definition DEFAULT_STRUCTURED_BUILD_ROW_LIMIT :: nat where "DEFAULT_STRUCTURED_BUILD_ROW_LIMIT = 1024"

lemmas tuning_constants = INDEX_COMPACT_FRAGMENT_MAX_MIN_def DEFAULT_PENDING_FLUSH_THRESHOLD_def
  DEFAULT_PENDING_HARD_FLUSH_THRESHOLD_def DEFAULT_EXHAUSTIVE_SEARCH_ROW_LIMIT_def
  DEFAULT_SKIP_REFINEMENT_ROW_LIMIT_def DEFAULT_STRUCTURED_BUILD_ROW_LIMIT_def

record BpannTuning =
  index_compact_rows_per_fragment :: nat
  index_compact_fragment_max :: nat
  search_rows_per_fragment :: nat
  small_fragment_merge_rows :: nat
  search_fragment_budget_max :: nat
  build_seed :: "u64 option"
  pending_flush_threshold :: nat
  pending_hard_flush_threshold :: nat
  structured_build_row_limit :: nat
  tuned_beam_width :: nat
  exhaustive_search_row_limit :: nat
  skip_refinement_row_limit :: nat

definition default_tuning :: BpannTuning where
  "default_tuning = \<lparr>index_compact_rows_per_fragment = 10000, index_compact_fragment_max = 32,
     search_rows_per_fragment = 80000, small_fragment_merge_rows = 15000,
     search_fragment_budget_max = 1, build_seed = None,
     pending_flush_threshold = DEFAULT_PENDING_FLUSH_THRESHOLD,
     pending_hard_flush_threshold = DEFAULT_PENDING_HARD_FLUSH_THRESHOLD,
     structured_build_row_limit = DEFAULT_STRUCTURED_BUILD_ROW_LIMIT, tuned_beam_width = 1,
     exhaustive_search_row_limit = DEFAULT_EXHAUSTIVE_SEARCH_ROW_LIMIT,
     skip_refinement_row_limit = DEFAULT_SKIP_REFINEMENT_ROW_LIMIT\<rparr>"

datatype tuning_error =
    CompactRowsZero | FragmentMaxTooSmall | SearchRowsZero | MergeRowsZero | BudgetZero
  | PendingZero | HardPendingZero | HardBelowSoft | StructuredLimitZero | BeamZero
  | ExhaustiveLimitZero | SkipBelowExhaustive

definition tuning_checks :: "BpannTuning \<Rightarrow> (bool \<times> tuning_error) list" where
  "tuning_checks t =
     [(index_compact_rows_per_fragment t = 0, CompactRowsZero),
      (index_compact_fragment_max t < INDEX_COMPACT_FRAGMENT_MAX_MIN, FragmentMaxTooSmall),
      (search_rows_per_fragment t = 0, SearchRowsZero),
      (small_fragment_merge_rows t = 0, MergeRowsZero),
      (search_fragment_budget_max t = 0, BudgetZero),
      (pending_flush_threshold t = 0, PendingZero),
      (pending_hard_flush_threshold t = 0, HardPendingZero),
      (pending_hard_flush_threshold t < pending_flush_threshold t, HardBelowSoft),
      (structured_build_row_limit t = 0, StructuredLimitZero),
      (tuned_beam_width t = 0, BeamZero),
      (exhaustive_search_row_limit t = 0, ExhaustiveLimitZero),
      (skip_refinement_row_limit t < exhaustive_search_row_limit t, SkipBelowExhaustive)]"

definition tuning_validate :: "BpannTuning \<Rightarrow> tuning_error + unit" where
  "tuning_validate t = for_each_res (\<lambda>(invalid, e). ensure (\<not> invalid) e) (tuning_checks t)"

definition rows_need_skip_edges :: "BpannTuning \<Rightarrow> nat \<Rightarrow> bool" where
  "rows_need_skip_edges t rows \<longleftrightarrow> rows > exhaustive_search_row_limit t \<and> rows \<le> skip_refinement_row_limit t"

definition use_exhaustive_search :: "BpannTuning \<Rightarrow> nat \<Rightarrow> bool" where
  "use_exhaustive_search t rows \<longleftrightarrow> rows \<le> exhaustive_search_row_limit t"

definition use_skip_refinement_search :: "BpannTuning \<Rightarrow> nat \<Rightarrow> bool" where
  "use_skip_refinement_search t rows \<longleftrightarrow> \<not> use_exhaustive_search t rows \<and> rows \<le> skip_refinement_row_limit t"

definition current_tuning :: "BpannTuning option \<Rightarrow> BpannTuning" where
  "current_tuning provider =
     (let t = (case provider of Some t \<Rightarrow> t | None \<Rightarrow> default_tuning)
      in case tuning_validate t of Inr _ \<Rightarrow> t | Inl _ \<Rightarrow> default_tuning)"

section \<open>Validity\<close>

definition tuning_ok :: "BpannTuning \<Rightarrow> bool" where
  "tuning_ok t \<longleftrightarrow>
     0 < index_compact_rows_per_fragment t \<and> 3 \<le> index_compact_fragment_max t \<and>
     0 < search_rows_per_fragment t \<and> 0 < small_fragment_merge_rows t \<and>
     0 < search_fragment_budget_max t \<and> 0 < pending_flush_threshold t \<and>
     pending_flush_threshold t \<le> pending_hard_flush_threshold t \<and>
     0 < structured_build_row_limit t \<and> 0 < tuned_beam_width t \<and>
     0 < exhaustive_search_row_limit t \<and> exhaustive_search_row_limit t \<le> skip_refinement_row_limit t"

lemma tuning_validate_Inr: "tuning_validate t = Inr u \<longleftrightarrow> tuning_ok t"
  by (auto simp: tuning_validate_def tuning_checks_def tuning_ok_def for_each_res_Inr_conv tuning_constants
      simp del: for_each_res.simps)

lemma default_tuning_ok: "tuning_ok default_tuning"
  by (simp add: tuning_ok_def default_tuning_def tuning_constants)

lemma current_tuning_ok: "tuning_ok (current_tuning provider)"
  by (auto simp: current_tuning_def Let_def default_tuning_ok split: sum.splits option.splits)
    (simp_all add: tuning_validate_Inr)

lemma current_tuning_valid: "tuning_ok t \<Longrightarrow> current_tuning (Some t) = t"
  by (simp add: current_tuning_def tuning_validate_Inr [of t "()", symmetric])

text \<open>Whatever a provider returns, the tuning in force satisfies every bound of
  \<open>validate\<close>, and it is the provider's own when that satisfies them. Under it every row count
  has exactly one search mode (exhaustive, skip refinement or greedy), and an index built now
  stores skip edges exactly for the row counts whose searches follow them now.\<close>

theorem current_tuning_selects_one_mode:
  "tuning_ok (current_tuning provider) \<and>
   current_tuning provider = (case provider of None \<Rightarrow> default_tuning
     | Some t \<Rightarrow> if tuning_ok t then t else default_tuning) \<and>
   (let t = current_tuning provider
    in length (filter id [use_exhaustive_search t rows, use_skip_refinement_search t rows,
         skip_refinement_row_limit t < rows]) = 1
       \<and> rows_need_skip_edges t rows = use_skip_refinement_search t rows)"
proof -
  have choice: "current_tuning provider = (case provider of None \<Rightarrow> default_tuning
     | Some t \<Rightarrow> if tuning_ok t then t else default_tuning)"
  proof (cases provider)
    case None
    then show ?thesis using current_tuning_valid [OF default_tuning_ok] by (simp add: current_tuning_def)
  next
    case (Some t)
    have "tuning_validate t = Inl e \<Longrightarrow> \<not> tuning_ok t" for e
      using tuning_validate_Inr [of t "()"] by auto
    moreover have "tuning_validate t = Inr u \<Longrightarrow> tuning_ok t" for u
      by (simp add: tuning_validate_Inr)
    ultimately show ?thesis
      using Some by (cases "tuning_validate t") (auto simp: current_tuning_def)
  qed
  have bands: "exhaustive_search_row_limit t \<le> skip_refinement_row_limit t" if "tuning_ok t" for t
    using that by (simp add: tuning_ok_def)
  have modes: "length (filter id [use_exhaustive_search t rows, use_skip_refinement_search t rows,
         skip_refinement_row_limit t < rows]) = 1
       \<and> rows_need_skip_edges t rows = use_skip_refinement_search t rows" if "tuning_ok t" for t
    using bands [OF that]
    by (auto simp: use_exhaustive_search_def use_skip_refinement_search_def rows_need_skip_edges_def)
  show ?thesis
    unfolding Let_def by (rule conjI [OF current_tuning_ok conjI [OF choice modes [OF current_tuning_ok]]])
qed

end
