(* ===== verification/BpannIndex.thy ===== *)
theory BpannIndex
  imports BpannKmeans BpannTuning "HOL-Library.AList"
begin

text \<open>
  The in-memory index (\<open>rust/crates/bpann/src/index/build.rs\<close>): its header, pages, skip edges
  and page map, the single-leaf builds, the pages of a partition tree, the skip edges, and the
  merge of several indices under a new root. Page ids are 32-bit and wrap. Skip edges are an
  association list with distinct keys; the iteration order of the source's \<open>HashMap\<close> is the
  order of the list. The index directory is left to the theory of persistence.
\<close>

definition DEFAULT_LEAF_CAPACITY :: nat where "DEFAULT_LEAF_CAPACITY = 32"
definition DEFAULT_SKIP_NEIGHBORS :: nat where "DEFAULT_SKIP_NEIGHBORS = 3"

record IndexHeader =
  hdr_dim :: nat
  hdr_rows :: nat
  hdr_root :: u32
  hdr_capacity :: nat
  hdr_neighbors :: nat

record BpannIndex =
  idx_header :: IndexHeader
  idx_pages :: "Page list"
  idx_edges :: "(u32 \<times> u32 list) list"
  idx_map :: "u32 \<rightharpoonup> nat"

definition needs_skip_edges :: "BpannTuning option \<Rightarrow> nat \<Rightarrow> bool" where
  "needs_skip_edges provider rows = rows_need_skip_edges (current_tuning provider) rows"

text \<open>\<open>collect\<close> into a map: the last page with an id wins.\<close>

definition build_page_map :: "Page list \<Rightarrow> u32 \<rightharpoonup> nat" where
  "build_page_map pages = map_of (rev (map (\<lambda>(i, p). (page_id p, i)) (enumerate 0 pages)))"

definition page_by_id :: "BpannIndex \<Rightarrow> u32 \<Rightarrow> Page option" where
  "page_by_id ix pid = map_option (\<lambda>i. idx_pages ix ! i) (idx_map ix pid)"

definition root_centroid :: "BpannIndex \<Rightarrow> f32 list" where
  "root_centroid ix = (case page_by_id ix (hdr_root (idx_header ix)) of None \<Rightarrow> [] | Some p \<Rightarrow> page_centroid p)"

fun page_row_ids :: "Page \<Rightarrow> u32 list" where
  "page_row_ids (Internal pid cs ids) = []"
| "page_row_ids (Leaf pid rows (Some (start, stop)) vs c) = map as_u32 [unat start..<unat stop]"
| "page_row_ids (Leaf pid rows None vs c) = rows"

definition leaf_row_ids :: "BpannIndex \<Rightarrow> u32 list" where
  "leaf_row_ids ix = remdups_adj (sort (concat (map page_row_ids (idx_pages ix))))"

fun is_leaf :: "Page \<Rightarrow> bool" where
  "is_leaf (Leaf pid rows rng vs c) = True"
| "is_leaf (Internal pid cs ids) = False"

definition leaf_page_ids :: "BpannIndex \<Rightarrow> u32 list" where
  "leaf_page_ids ix = map page_id (filter is_leaf (idx_pages ix))"

definition page_bytes :: "BpannIndex \<Rightarrow> u8 list" where
  "page_bytes ix = concat (map (serialize (hdr_dim (idx_header ix))) (idx_pages ix))"

section \<open>Single pages\<close>

definition index_of_pages :: "nat \<Rightarrow> nat \<Rightarrow> u32 \<Rightarrow> nat \<Rightarrow> Page list \<Rightarrow> (u32 \<times> u32 list) list \<Rightarrow> BpannIndex" where
  "index_of_pages dim rows root cap pages edges =
     \<lparr>idx_header = \<lparr>hdr_dim = dim, hdr_rows = rows, hdr_root = root, hdr_capacity = cap,
        hdr_neighbors = DEFAULT_SKIP_NEIGHBORS\<rparr>,
      idx_pages = pages, idx_edges = edges, idx_map = build_page_map pages\<rparr>"

definition build_single_leaf_from_rows :: "u32 list \<Rightarrow> f32 list list \<Rightarrow> nat \<Rightarrow> BpannIndex" where
  "build_single_leaf_from_rows rows vs dim =
     index_of_pages dim (length rows) 0 (max (length rows) 1) [Leaf 0 rows None vs None] []"

definition build_row_ids_leaf :: "u32 list \<Rightarrow> f32 list \<Rightarrow> nat \<Rightarrow> BpannIndex" where
  "build_row_ids_leaf rows centroid dim =
     index_of_pages dim (length rows) 0 (max (length rows) 1) [Leaf 0 rows None [] (Some centroid)] []"

definition from_pages_unpersisted :: "nat \<Rightarrow> nat \<Rightarrow> nat \<Rightarrow> Page list \<Rightarrow> bpann_error + BpannIndex" where
  "from_pages_unpersisted dim rows cap pages =
     rbind (ensure (pages \<noteq> []) InvalidParameter) (\<lambda>_.
     Inr (index_of_pages dim rows 0 (max cap 1) pages []))"

section \<open>Pages of a partition tree\<close>

fun partition_pages :: "PartitionNode \<Rightarrow> u32 \<Rightarrow> Page list \<times> u32"
and partition_children :: "PartitionNode list \<Rightarrow> u32 \<Rightarrow> u32 \<Rightarrow> (u32 list \<times> f32 list list) \<times> Page list \<times> u32" where
  "partition_pages (PartLeaf es c) next_id = ([Leaf next_id (map fst es) None (map snd es) None], next_id)"
| "partition_pages (PartInternal c children) next_id =
     (case partition_children children (next_id + 1) next_id of ((ids, cs), pages, last_id) \<Rightarrow>
        (Internal next_id cs ids # pages, max last_id next_id))"
| "partition_children [] cur last_id = (([], []), [], last_id)"
| "partition_children (child # children) cur last_id =
     (case partition_pages child cur of (pages, subtree_last) \<Rightarrow>
      case partition_children children (subtree_last + 1) (max last_id subtree_last) of ((ids, cs), rest, last') \<Rightarrow>
        (case pages of
           [] \<Rightarrow> ((ids, cs), rest, last')
         | p # _ \<Rightarrow> ((page_id p # ids, page_centroid p # cs), pages @ rest, last')))"

definition partition_to_pages :: "PartitionNode \<Rightarrow> Page list \<times> u32" where
  "partition_to_pages node = partition_pages node 0"

definition build_skip_edges :: "Page list \<Rightarrow> nat \<Rightarrow> (u32 \<times> u32 list) list" where
  "build_skip_edges pages k =
     (let ls = map (\<lambda>p. (page_id p, page_centroid p)) (filter is_leaf pages)
      in fold (\<lambda>(i, (a, ca)) edges.
           let dists = map (\<lambda>(j, (b, cb)). (b, l2_sq_f32 ca cb)) (filter (\<lambda>(j, _). j \<noteq> i) (enumerate 0 ls));
               neighbors = map fst (take k (sort_le (\<lambda>x y. partial_le (snd x) (snd y)) dists))
           in AList.update a neighbors edges) (enumerate 0 ls) [])"

datatype build_error = PartitionError partition_error | BuildError bpann_error

definition build_from_rows ::
    "nat \<Rightarrow> (nat \<Rightarrow> 'r \<Rightarrow> nat \<times> 'r) \<Rightarrow> ('r \<Rightarrow> f32 \<times> 'r) \<Rightarrow> (u64 \<Rightarrow> 'r) \<Rightarrow> BpannTuning option
      \<Rightarrow> u32 list \<Rightarrow> f32 list list \<Rightarrow> nat \<Rightarrow> nat \<Rightarrow> u64 \<Rightarrow> build_error + BpannIndex" where
  "build_from_rows fuel gen_range gen_f32 seed_from provider rows vs dim cap seed =
     (if length rows \<le> cap then Inr (build_single_leaf_from_rows rows vs dim)
      else case partition_build fuel gen_range gen_f32 seed_from rows vs cap seed of
        Inl e \<Rightarrow> Inl (PartitionError e)
      | Inr root \<Rightarrow>
          (case partition_to_pages root of (pages, root_id) \<Rightarrow>
            let edges = (if needs_skip_edges provider (length rows) then build_skip_edges pages DEFAULT_SKIP_NEIGHBORS
                         else [])
            in Inr (index_of_pages dim (length rows) root_id cap pages edges)))"

definition build_from_vectors ::
    "nat \<Rightarrow> (nat \<Rightarrow> 'r \<Rightarrow> nat \<times> 'r) \<Rightarrow> ('r \<Rightarrow> f32 \<times> 'r) \<Rightarrow> (u64 \<Rightarrow> 'r) \<Rightarrow> BpannTuning option
      \<Rightarrow> f32 list list \<Rightarrow> nat \<Rightarrow> nat \<Rightarrow> u64 \<Rightarrow> build_error + BpannIndex" where
  "build_from_vectors fuel gen_range gen_f32 seed_from provider vs dim cap seed =
     build_from_rows fuel gen_range gen_f32 seed_from provider
       (map (\<lambda>i. of_nat i) [0..<unat (as_u32 (length vs))]) vs dim cap seed"

section \<open>Merging\<close>

fun remap_page :: "(u32 \<rightharpoonup> u32) \<Rightarrow> Page \<Rightarrow> bpann_error + Page" where
  "remap_page m (Internal pid cs ids) =
     rbind (ok_or (m pid) IndexPanic) (\<lambda>pid'.
     rbind (map_res (\<lambda>i. ok_or (m i) IndexPanic) ids) (\<lambda>ids'. Inr (Internal pid' cs ids')))"
| "remap_page m (Leaf pid rows rng vs c) =
     rbind (ok_or (m pid) IndexPanic) (\<lambda>pid'. Inr (Leaf pid' rows rng vs c))"

definition part_id_map :: "BpannIndex \<Rightarrow> u32 \<Rightarrow> u32 \<rightharpoonup> u32" where
  "part_id_map part next_id =
     map_of (rev (map (\<lambda>(i, p). (page_id p, next_id + of_nat i)) (enumerate 0 (idx_pages part))))"

definition merge_edges :: "(u32 \<rightharpoonup> u32) \<Rightarrow> (u32 \<times> u32 list) list \<Rightarrow> (u32 \<times> u32 list) list \<Rightarrow> (u32 \<times> u32 list) list" where
  "merge_edges m part_edges edges = fold (\<lambda>(src, tos) edges.
     case m src of None \<Rightarrow> edges
     | Some new_src \<Rightarrow> let new_tos = List.map_filter m tos
         in if new_tos = [] then edges else AList.update new_src new_tos edges) part_edges edges"

record merge_state =
  mg_pages :: "Page list"
  mg_children :: "u32 list"
  mg_centroids :: "f32 list list"
  mg_edges :: "(u32 \<times> u32 list) list"
  mg_rows :: nat
  mg_next :: u32

definition merge_part :: "BpannIndex \<Rightarrow> merge_state \<Rightarrow> bpann_error + merge_state" where
  "merge_part part st =
     (let m = part_id_map part (mg_next st) in
      rbind (ok_or (m (hdr_root (idx_header part))) IndexPanic) (\<lambda>root.
      rbind (map_res (remap_page m) (idx_pages part)) (\<lambda>pages.
      Inr \<lparr>mg_pages = mg_pages st @ pages,
           mg_children = mg_children st @ [root],
           mg_centroids = mg_centroids st @ [root_centroid part],
           mg_edges = merge_edges m (idx_edges part) (mg_edges st),
           mg_rows = mg_rows st + hdr_rows (idx_header part),
           mg_next = mg_next st + of_nat (length (idx_pages part))\<rparr>)))"

fun merge_parts :: "BpannIndex list \<Rightarrow> merge_state \<Rightarrow> bpann_error + merge_state" where
  "merge_parts [] st = Inr st"
| "merge_parts (p # ps) st = rbind (merge_part p st) (merge_parts ps)"

definition merge_start :: merge_state where
  "merge_start = \<lparr>mg_pages = [], mg_children = [], mg_centroids = [], mg_edges = [], mg_rows = 0, mg_next = 1\<rparr>"

definition concat_merge :: "BpannIndex list \<Rightarrow> bpann_error + BpannIndex" where
  "concat_merge parts =
     (case parts of
        [] \<Rightarrow> Inl InvalidParameter
      | [single] \<Rightarrow> Inr single
      | first # _ \<Rightarrow>
          rbind (merge_parts parts merge_start) (\<lambda>st.
          let pages = mg_pages st @ [Internal 0 (mg_centroids st) (mg_children st)] in
          Inr \<lparr>idx_header = \<lparr>hdr_dim = hdr_dim (idx_header first), hdr_rows = mg_rows st, hdr_root = 0,
                 hdr_capacity = hdr_capacity (idx_header first),
                 hdr_neighbors = hdr_neighbors (idx_header first)\<rparr>,
               idx_pages = pages, idx_edges = mg_edges st, idx_map = build_page_map pages\<rparr>))"

end
