(* ===== verification/BpannMerge.thy ===== *)
theory BpannMerge
  imports BpannIndex
begin

text \<open>
  Well-formed indices, the leaves a descent can reach, and the merge of indices: it keeps the
  index well-formed, keeps every row, and keeps every leaf reachable that was. The pages of a
  partition tree are numbered in preorder, but the root id that the build stores in the header
  is the last one.
\<close>

fun page_children :: "Page \<Rightarrow> u32 list" where
  "page_children (Internal pid cs ids) = ids"
| "page_children (Leaf pid rows rng vs c) = []"

fun page_balanced :: "Page \<Rightarrow> bool" where
  "page_balanced (Internal pid cs ids) \<longleftrightarrow> length cs = length ids"
| "page_balanced (Leaf pid rows rng vs c) \<longleftrightarrow> True"

definition page_ids :: "BpannIndex \<Rightarrow> u32 list" where
  "page_ids ix = map page_id (idx_pages ix)"

definition index_ok :: "BpannIndex \<Rightarrow> bool" where
  "index_ok ix \<longleftrightarrow> distinct (page_ids ix) \<and> idx_map ix = build_page_map (idx_pages ix) \<and>
     hdr_root (idx_header ix) \<in> set (page_ids ix) \<and>
     (\<forall>p\<in>set (idx_pages ix). set (page_children p) \<subseteq> set (page_ids ix) \<and> page_balanced p)"

inductive reaches :: "BpannIndex \<Rightarrow> u32 \<Rightarrow> bool" for ix where
  root: "reaches ix (hdr_root (idx_header ix))"
| child: "reaches ix pid \<Longrightarrow> page_by_id ix pid = Some p \<Longrightarrow> c \<in> set (page_children p) \<Longrightarrow> reaches ix c"

definition all_reachable :: "BpannIndex \<Rightarrow> bool" where
  "all_reachable ix \<longleftrightarrow> (\<forall>pid\<in>set (leaf_page_ids ix). reaches ix pid)"

section \<open>Page lookup\<close>

lemma map_fst_enumerate_keys: "map fst (map (\<lambda>(i, x). (key x, g i)) (enumerate n xs)) = map key xs"
  by (induction xs arbitrary: n) simp_all

lemma set_enumerate_keys:
  "set (map (\<lambda>(i, x). (key x, g i)) (enumerate 0 xs)) = {(key (xs ! i), g i) | i. i < length xs}"
  by (auto simp: in_set_enumerate_eq image_iff)

lemma last_wins_map_iff:
  assumes "distinct (map key xs)"
  shows "map_of (rev (map (\<lambda>(i, x). (key x, g i)) (enumerate 0 xs))) k = Some v \<longleftrightarrow>
    (\<exists>i<length xs. key (xs ! i) = k \<and> v = g i)"
proof -
  let ?kv = "map (\<lambda>(i, x). (key x, g i)) (enumerate 0 xs)"
  have "distinct (map fst (rev ?kv))"
    using assms by (simp only: rev_map [symmetric] map_fst_enumerate_keys distinct_rev)
  then have "map_of (rev ?kv) k = Some v \<longleftrightarrow> (k, v) \<in> set ?kv"
    by (simp only: map_of_eq_Some_iff set_rev)
  then show ?thesis unfolding set_enumerate_keys by auto
qed

lemma build_page_map_iff:
  assumes "distinct (map page_id pages)"
  shows "build_page_map pages pid = Some i \<longleftrightarrow> i < length pages \<and> page_id (pages ! i) = pid"
  unfolding build_page_map_def last_wins_map_iff [OF assms] by auto

lemma page_by_id_distinct:
  assumes "distinct (page_ids ix)" "idx_map ix = build_page_map (idx_pages ix)"
  shows "page_by_id ix pid = Some p \<longleftrightarrow> p \<in> set (idx_pages ix) \<and> page_id p = pid"
  using assms build_page_map_iff [of "idx_pages ix" pid]
  by (auto simp: page_by_id_def page_ids_def in_set_conv_nth)

lemma page_by_id_iff:
  "index_ok ix \<Longrightarrow> page_by_id ix pid = Some p \<longleftrightarrow> p \<in> set (idx_pages ix) \<and> page_id p = pid"
  by (rule page_by_id_distinct) (simp_all add: index_ok_def)

section \<open>Renaming the pages of one part\<close>

fun rename :: "(u32 \<Rightarrow> u32) \<Rightarrow> Page \<Rightarrow> Page" where
  "rename f (Internal pid cs ids) = Internal (f pid) cs (map f ids)"
| "rename f (Leaf pid rows rng vs c) = Leaf (f pid) rows rng vs c"

lemma rename_simps [simp]:
  "page_id (rename f p) = f (page_id p)" "page_children (rename f p) = map f (page_children p)"
  "page_balanced (rename f p) = page_balanced p" "is_leaf (rename f p) = is_leaf p"
  by (cases p; simp)+

lemma page_row_ids_rename [simp]: "page_row_ids (rename f p) = page_row_ids p"
  by (cases p rule: page_row_ids.cases) simp_all

definition part_rename :: "BpannIndex \<Rightarrow> u32 \<Rightarrow> u32 \<Rightarrow> u32" where
  "part_rename part n pid = the (part_id_map part n pid)"

lemma part_id_map_nth:
  assumes "distinct (page_ids part)" "i < length (idx_pages part)"
  shows "part_id_map part n (page_id (idx_pages part ! i)) = Some (n + of_nat i)"
  using assms unfolding part_id_map_def page_ids_def by (simp only: last_wins_map_iff) blast

lemma part_id_map_Some:
  assumes "distinct (page_ids part)" "pid \<in> set (page_ids part)"
  shows "part_id_map part n pid = Some (part_rename part n pid)"
  using assms part_id_map_nth [OF assms(1)] by (auto simp: page_ids_def in_set_conv_nth part_rename_def)

lemma part_rename_nth:
  "distinct (page_ids part) \<Longrightarrow> i < length (idx_pages part) \<Longrightarrow>
    part_rename part n (page_id (idx_pages part ! i)) = n + of_nat i"
  by (simp add: part_rename_def part_id_map_nth)

lemma map_part_rename:
  "distinct (page_ids part) \<Longrightarrow> map (part_rename part n) (page_ids part) = map (\<lambda>i. n + of_nat i) [0..<length (idx_pages part)]"
  by (rule nth_equalityI) (simp_all add: page_ids_def part_rename_nth)

lemma remap_page_rename:
  assumes "index_ok part" "p \<in> set (idx_pages part)"
  shows "remap_page (part_id_map part n) p = Inr (rename (part_rename part n) p)"
proof -
  have d: "distinct (page_ids part)" and pid: "page_id p \<in> set (page_ids part)"
    and kids: "set (page_children p) \<subseteq> set (page_ids part)"
    using assms by (auto simp: index_ok_def page_ids_def)
  note look = part_id_map_Some [OF d, of _ n]
  show ?thesis
  proof (cases p)
    case (Internal i cs ids)
    have "map_res (\<lambda>i. ok_or (part_id_map part n i) IndexPanic) ids = Inr (map (part_rename part n) ids)"
      using kids look by (intro map_res_all_Inr) (auto simp: Internal)
    then show ?thesis using pid look by (simp add: Internal)
  next
    case (Leaf i rows rng vs c)
    then show ?thesis using pid look by simp
  qed
qed

text \<open>The parts of a merge, each with the id its first page gets.\<close>

fun part_offsets :: "BpannIndex list \<Rightarrow> u32 \<Rightarrow> (BpannIndex \<times> u32) list" where
  "part_offsets [] n = []"
| "part_offsets (p # ps) n = (p, n) # part_offsets ps (n + of_nat (length (idx_pages p)))"

definition merged_pages :: "BpannIndex list \<Rightarrow> u32 \<Rightarrow> Page list" where
  "merged_pages parts n = concat (map (\<lambda>(p, n). map (rename (part_rename p n)) (idx_pages p)) (part_offsets parts n))"

definition merged_roots :: "BpannIndex list \<Rightarrow> u32 \<Rightarrow> u32 list" where
  "merged_roots parts n = map (\<lambda>(p, n). part_rename p n (hdr_root (idx_header p))) (part_offsets parts n)"

lemma merged_simps [simp]:
  "merged_pages [] n = []" "merged_roots [] n = []"
  "merged_pages (p # ps) n = map (rename (part_rename p n)) (idx_pages p) @ merged_pages ps (n + of_nat (length (idx_pages p)))"
  "merged_roots (p # ps) n = part_rename p n (hdr_root (idx_header p)) # merged_roots ps (n + of_nat (length (idx_pages p)))"
  by (simp_all add: merged_pages_def merged_roots_def)

lemma map_fst_part_offsets [simp]: "map fst (part_offsets parts n) = parts"
  by (induction parts arbitrary: n) simp_all

lemma part_offsets_part: "(p, m) \<in> set (part_offsets parts n) \<Longrightarrow> p \<in> set parts"
  by (induction parts arbitrary: n) auto

definition pages_total :: "BpannIndex list \<Rightarrow> nat" where
  "pages_total parts = sum_list (map (\<lambda>p. length (idx_pages p)) parts)"

lemma merge_part_ok:
  assumes "index_ok part"
  shows "\<exists>edges. merge_part part st = Inr \<lparr>mg_pages = mg_pages st @ map (rename (part_rename part (mg_next st))) (idx_pages part),
      mg_children = mg_children st @ [part_rename part (mg_next st) (hdr_root (idx_header part))],
      mg_centroids = mg_centroids st @ [root_centroid part], mg_edges = edges,
      mg_rows = mg_rows st + hdr_rows (idx_header part),
      mg_next = mg_next st + of_nat (length (idx_pages part))\<rparr>"
proof -
  have "part_id_map part (mg_next st) (hdr_root (idx_header part))
      = Some (part_rename part (mg_next st) (hdr_root (idx_header part)))"
    using assms by (intro part_id_map_Some) (simp_all add: index_ok_def)
  moreover have "map_res (remap_page (part_id_map part (mg_next st))) (idx_pages part)
      = Inr (map (rename (part_rename part (mg_next st))) (idx_pages part))"
    using remap_page_rename [OF assms] by (intro map_res_all_Inr)
  ultimately show ?thesis by (simp add: merge_part_def Let_def)
qed

lemma merge_parts_ok:
  assumes "list_all index_ok parts"
  shows "\<exists>edges n. merge_parts parts st = Inr \<lparr>mg_pages = mg_pages st @ merged_pages parts (mg_next st),
      mg_children = mg_children st @ merged_roots parts (mg_next st),
      mg_centroids = mg_centroids st @ map root_centroid parts, mg_edges = edges,
      mg_rows = mg_rows st + sum_list (map (\<lambda>p. hdr_rows (idx_header p)) parts), mg_next = n\<rparr>"
  using assms
proof (induction parts arbitrary: st)
  case Nil
  then show ?case by (cases st) simp
next
  case (Cons p ps)
  then obtain edges where "merge_part p st = Inr \<lparr>mg_pages = mg_pages st @ map (rename (part_rename p (mg_next st))) (idx_pages p),
      mg_children = mg_children st @ [part_rename p (mg_next st) (hdr_root (idx_header p))],
      mg_centroids = mg_centroids st @ [root_centroid p], mg_edges = edges,
      mg_rows = mg_rows st + hdr_rows (idx_header p),
      mg_next = mg_next st + of_nat (length (idx_pages p))\<rparr>" (is "_ = Inr ?st")
    using merge_part_ok [of p st] by auto
  then show ?case using Cons.IH [of ?st] Cons.prems by (simp add: add.assoc)
qed

lemma merged_page_ids:
  assumes "list_all index_ok parts"
  shows "map page_id (merged_pages parts n) = map (\<lambda>i. n + of_nat i) [0..<pages_total parts]"
  using assms
proof (induction parts arbitrary: n)
  case Nil
  then show ?case by (simp add: pages_total_def)
next
  case (Cons p ps)
  let ?k = "length (idx_pages p)"
  have "map page_id (map (rename (part_rename p n)) (idx_pages p)) = map (\<lambda>i. n + of_nat i) [0..<?k]"
    using map_part_rename [of p n] Cons.prems by (simp add: index_ok_def page_ids_def comp_def)
  moreover have "map (\<lambda>i. n + of_nat i) [0..<?k + m] = map (\<lambda>i. n + of_nat i) [0..<?k]
      @ map (\<lambda>i. n + of_nat ?k + of_nat i) [0..<m]" for m
    by (rule nth_equalityI) (auto simp: nth_append)
  ultimately show ?case using Cons by (simp add: pages_total_def)
qed

section \<open>The merged index\<close>

definition merged_index :: "BpannIndex list \<Rightarrow> (u32 \<times> u32 list) list \<Rightarrow> BpannIndex" where
  "merged_index parts edges =
     (let pages = merged_pages parts 1 @ [Internal 0 (map root_centroid parts) (merged_roots parts 1)]
      in \<lparr>idx_header = \<lparr>hdr_dim = hdr_dim (idx_header (hd parts)),
            hdr_rows = sum_list (map (\<lambda>p. hdr_rows (idx_header p)) parts), hdr_root = 0,
            hdr_capacity = hdr_capacity (idx_header (hd parts)),
            hdr_neighbors = hdr_neighbors (idx_header (hd parts))\<rparr>,
          idx_pages = pages, idx_edges = edges, idx_map = build_page_map pages\<rparr>)"

lemma concat_merge_merged:
  assumes "list_all index_ok parts" "2 \<le> length parts"
  shows "\<exists>edges. concat_merge parts = Inr (merged_index parts edges)"
proof -
  obtain p q ps where parts: "parts = p # q # ps"
    using assms(2) by (metis One_nat_def Suc_1 Suc_le_length_iff)
  obtain edges n where "merge_parts parts merge_start = Inr \<lparr>mg_pages = merged_pages parts 1,
      mg_children = merged_roots parts 1, mg_centroids = map root_centroid parts, mg_edges = edges,
      mg_rows = sum_list (map (\<lambda>p. hdr_rows (idx_header p)) parts), mg_next = n\<rparr>"
    using merge_parts_ok [OF assms(1), of merge_start] by (auto simp: merge_start_def)
  then show ?thesis
    unfolding concat_merge_def merged_index_def Let_def parts by (intro exI [of _ edges]) simp
qed

lemma merged_ids:
  assumes "list_all index_ok parts" "pages_total parts < 2 ^ 32"
  shows "distinct (page_ids (merged_index parts edges))"
    "set (page_ids (merged_index parts edges)) = insert 0 (of_nat ` {1..pages_total parts})"
proof -
  have ids: "page_ids (merged_index parts edges) = map (\<lambda>i. 1 + of_nat i) [0..<pages_total parts] @ [0]"
    using merged_page_ids [OF assms(1), of 1] by (simp add: page_ids_def merged_index_def Let_def)
  have unat: "unat (1 + of_nat i :: u32) = Suc i" if "i < pages_total parts" for i
    using that assms(2) unat_as_u32 [of "Suc i"] by (simp add: as_u32_def)
  have "inj_on (\<lambda>i. 1 + of_nat i :: u32) {0..<pages_total parts}"
    by (rule inj_onI) (metis unat atLeastLessThan_iff nat.inject)
  moreover have "(0::u32) \<noteq> 1 + of_nat i" if "i < pages_total parts" for i
    using unat [OF that] by (metis nat.distinct(1) unsigned_0)
  ultimately show "distinct (page_ids (merged_index parts edges))"
    by (auto simp: ids distinct_map)
  have "(\<lambda>i. 1 + of_nat i :: u32) ` {0..<pages_total parts} = of_nat ` {1..pages_total parts}"
    by (simp add: image_Suc_atLeastLessThan [symmetric] image_image atLeastLessThanSuc_atLeastAtMost [symmetric]
      del: image_Suc_atLeastLessThan)
  then show "set (page_ids (merged_index parts edges)) = insert 0 (of_nat ` {1..pages_total parts})"
    by (simp add: ids)
qed

lemma merged_pages_iff:
  "q \<in> set (merged_pages parts n) \<longleftrightarrow>
    (\<exists>p m q0. (p, m) \<in> set (part_offsets parts n) \<and> q0 \<in> set (idx_pages p) \<and> q = rename (part_rename p m) q0)"
  by (auto simp: merged_pages_def)

lemma part_id_merged:
  assumes "(p, m) \<in> set (part_offsets parts 1)" "pid \<in> set (page_ids p)"
  shows "part_rename p m pid \<in> set (page_ids (merged_index parts edges))"
proof -
  obtain q where "q \<in> set (idx_pages p)" "page_id q = pid" using assms(2) by (auto simp: page_ids_def)
  then have "rename (part_rename p m) q \<in> set (merged_pages parts 1)" "page_id (rename (part_rename p m) q) = part_rename p m pid"
    using assms(1) by (auto simp: merged_pages_iff)
  then show ?thesis by (force simp: page_ids_def merged_index_def Let_def)
qed

lemma merged_index_ok:
  assumes "list_all index_ok parts" "pages_total parts < 2 ^ 32"
  shows "index_ok (merged_index parts edges)"
proof -
  let ?ix = "merged_index parts edges"
  have kids: "set (page_children q) \<subseteq> set (page_ids ?ix) \<and> page_balanced q" if q: "q \<in> set (merged_pages parts 1)" for q
  proof -
    obtain p m q0 where pm: "(p, m) \<in> set (part_offsets parts 1)" "q0 \<in> set (idx_pages p)" "q = rename (part_rename p m) q0"
      using q by (auto simp: merged_pages_iff)
    then have "index_ok p" using assms(1) part_offsets_part by (auto simp: list_all_iff)
    then show ?thesis using pm part_id_merged [OF pm(1)] by (auto simp: index_ok_def)
  qed
  have roots: "set (merged_roots parts 1) \<subseteq> set (page_ids ?ix)"
  proof
    fix r assume "r \<in> set (merged_roots parts 1)"
    then obtain p m where pm: "(p, m) \<in> set (part_offsets parts 1)" "r = part_rename p m (hdr_root (idx_header p))"
      by (auto simp: merged_roots_def)
    moreover have "index_ok p" using assms(1) part_offsets_part [OF pm(1)] by (auto simp: list_all_iff)
    ultimately show "r \<in> set (page_ids ?ix)" by (auto simp: index_ok_def intro: part_id_merged)
  qed
  have len: "length (merged_roots parts n) = length parts" for n
    by (induction parts arbitrary: n) simp_all
  have pages: "idx_pages ?ix = merged_pages parts 1 @ [Internal 0 (map root_centroid parts) (merged_roots parts 1)]"
    "idx_map ?ix = build_page_map (idx_pages ?ix)" "hdr_root (idx_header ?ix) = 0"
    by (simp_all add: merged_index_def Let_def)
  show ?thesis
    using merged_ids [OF assms, of edges] kids roots len by (auto simp: index_ok_def pages)
qed

lemma merged_reaches:
  assumes "list_all index_ok parts" "pages_total parts < 2 ^ 32" "(p, m) \<in> set (part_offsets parts 1)"
  shows "reaches p pid \<Longrightarrow> reaches (merged_index parts edges) (part_rename p m pid)"
proof (induction rule: reaches.induct)
  case root
  let ?ix = "merged_index parts edges"
  have "page_by_id ?ix 0 = Some (Internal 0 (map root_centroid parts) (merged_roots parts 1))"
    using page_by_id_iff [OF merged_index_ok [OF assms(1,2)]] by (simp add: merged_index_def Let_def)
  moreover have "reaches ?ix 0"
    using reaches.root [of ?ix] by (simp add: merged_index_def Let_def)
  moreover have "part_rename p m (hdr_root (idx_header p)) \<in> set (merged_roots parts 1)"
    using assms(3) by (force simp: merged_roots_def)
  ultimately show ?case by (auto intro: reaches.child)
next
  case (child pid q c)
  let ?ix = "merged_index parts edges"
  have "index_ok p" using assms(1) part_offsets_part [OF assms(3)] by (auto simp: list_all_iff)
  then have q: "q \<in> set (idx_pages p)" "page_id q = pid" using child.hyps(2) page_by_id_iff by blast+
  have "rename (part_rename p m) q \<in> set (merged_pages parts 1)"
    unfolding merged_pages_iff using assms(3) q(1) by blast
  then have "rename (part_rename p m) q \<in> set (idx_pages ?ix)"
    by (simp add: merged_index_def Let_def)
  then have "page_by_id ?ix (part_rename p m pid) = Some (rename (part_rename p m) q)"
    using q(2) page_by_id_iff [OF merged_index_ok [OF assms(1,2)]] by simp
  then show ?case using child.IH child.hyps(3) by (auto intro: reaches.child)
qed

text \<open>C24: merging keeps the index well-formed and complete. Merging two or more well-formed
  indices of fewer than \<open>2 ^ 32\<close> pages in all succeeds; the result has distinct page ids, its
  root and every child id name a page, its pages hold exactly the rows of the parts, part after part in
  the order of their pages, and it counts them. A leaf that can be reached from the root of its part is
  there as a leaf of the same rows that can be reached from the new root; so when every leaf of every
  part can be reached, every leaf of the result can.\<close>

theorem concat_merge_complete:
  assumes "list_all index_ok parts" "2 \<le> length parts" "pages_total parts < 2 ^ 32"
  shows "\<exists>ix. concat_merge parts = Inr ix \<and> index_ok ix \<and>
    concat (map page_row_ids (idx_pages ix)) = concat (map (\<lambda>p. concat (map page_row_ids (idx_pages p))) parts) \<and>
    set (leaf_row_ids ix) = (\<Union>p\<in>set parts. set (leaf_row_ids p)) \<and>
    hdr_rows (idx_header ix) = sum_list (map (\<lambda>p. hdr_rows (idx_header p)) parts) \<and>
    (\<forall>p\<in>set parts. \<forall>q\<in>set (idx_pages p). is_leaf q \<and> reaches p (page_id q) \<longrightarrow>
       (\<exists>q'\<in>set (idx_pages ix). is_leaf q' \<and> page_row_ids q' = page_row_ids q \<and> reaches ix (page_id q'))) \<and>
    (list_all all_reachable parts \<longrightarrow> all_reachable ix)"
proof -
  obtain edges where ix: "concat_merge parts = Inr (merged_index parts edges)"
    using concat_merge_merged [OF assms(1,2)] by blast
  let ?ix = "merged_index parts edges"
  have rows: "set (leaf_row_ids ?ix) = (\<Union>p\<in>set parts. set (leaf_row_ids p))"
  proof -
    have "set (concat (map page_row_ids (merged_pages parts n))) = (\<Union>p\<in>set parts. set (concat (map page_row_ids (idx_pages p))))" for n
      by (induction parts arbitrary: n) (simp_all add: comp_def)
    then show ?thesis by (simp add: leaf_row_ids_def merged_index_def Let_def)
  qed
  have "all_reachable ?ix" if all: "list_all all_reachable parts"
    unfolding all_reachable_def
  proof
    fix pid assume "pid \<in> set (leaf_page_ids ?ix)"
    then obtain q where "q \<in> set (merged_pages parts 1)" "is_leaf q" "page_id q = pid"
      by (auto simp: leaf_page_ids_def merged_index_def Let_def)
    then obtain p m q0 where pm: "(p, m) \<in> set (part_offsets parts 1)" "q0 \<in> set (idx_pages p)" "is_leaf q0"
        "pid = part_rename p m (page_id q0)"
      by (auto simp: merged_pages_iff)
    then have "reaches p (page_id q0)"
      using all part_offsets_part [OF pm(1)] by (auto simp: list_all_iff all_reachable_def leaf_page_ids_def)
    then show "reaches ?ix pid" unfolding pm(4) by (rule merged_reaches [OF assms(1,3) pm(1)])
  qed
  moreover have "\<exists>q'\<in>set (idx_pages ?ix). is_leaf q' \<and> page_row_ids q' = page_row_ids q \<and> reaches ?ix (page_id q')"
    if q: "p \<in> set parts" "q \<in> set (idx_pages p)" "is_leaf q" "reaches p (page_id q)" for p q
  proof -
    have "p \<in> fst ` set (part_offsets parts 1)" using q(1) by (simp flip: set_map)
    then obtain m where m: "(p, m) \<in> set (part_offsets parts 1)" by auto
    let ?q = "rename (part_rename p m) q"
    have "?q \<in> set (merged_pages parts 1)" using m q(2) by (auto simp: merged_pages_iff)
    then have "?q \<in> set (idx_pages ?ix)" by (simp add: merged_index_def Let_def)
    moreover have "reaches ?ix (page_id ?q)" using merged_reaches [OF assms(1,3) m q(4)] by simp
    ultimately show ?thesis using q(3) by (intro bexI [of _ ?q]) simp_all
  qed
  moreover have "concat (map page_row_ids (idx_pages ?ix)) = concat (map (\<lambda>p. concat (map page_row_ids (idx_pages p))) parts)"
  proof -
    have "concat (map page_row_ids (merged_pages parts n)) = concat (map (\<lambda>p. concat (map page_row_ids (idx_pages p))) parts)" for n
      by (induction parts arbitrary: n) (simp_all add: comp_def)
    then show ?thesis by (simp add: merged_index_def Let_def)
  qed
  moreover have "hdr_rows (idx_header ?ix) = sum_list (map (\<lambda>p. hdr_rows (idx_header p)) parts)"
    by (simp add: merged_index_def Let_def)
  ultimately show ?thesis
    using ix rows merged_index_ok [OF assms(1,3), of edges] by (intro exI [of _ ?ix]) blast
qed

definition test_part :: "u32 \<Rightarrow> BpannIndex" where
  "test_part row = build_row_ids_leaf [row] [fzero] 1"

lemma test_part_ok: "index_ok (test_part row)" "length (idx_pages (test_part row)) = 1"
  by (simp_all add: index_ok_def test_part_def build_row_ids_leaf_def index_of_pages_def page_ids_def)

theorem concat_merge_complete_witness:
  "\<exists>ix. concat_merge [test_part 4, test_part 9] = Inr ix \<and> set (leaf_row_ids ix) = {4, 9} \<and> all_reachable ix"
proof -
  have reach: "all_reachable (test_part row)" for row
    using reaches.root [of "test_part row"]
    by (simp add: all_reachable_def leaf_page_ids_def test_part_def build_row_ids_leaf_def index_of_pages_def)
  have rows: "set (leaf_row_ids (test_part row)) = {row}" for row
    by (simp add: leaf_row_ids_def test_part_def build_row_ids_leaf_def index_of_pages_def)
  from concat_merge_complete [of "[test_part 4, test_part 9]"] show ?thesis
    by (auto simp: pages_total_def test_part_ok reach rows)
qed

section \<open>The pages of a partition tree\<close>

fun node_count :: "PartitionNode \<Rightarrow> nat" where
  "node_count (PartLeaf es c) = 1"
| "node_count (PartInternal c children) = Suc (sum_list (map node_count children))"

lemma node_count_pos: "0 < node_count node"
  by (cases node) simp_all

definition id_range :: "u32 \<Rightarrow> nat \<Rightarrow> u32 list" where
  "id_range n k = map (\<lambda>i. n + of_nat i) [0..<k]"

lemma id_range_add: "id_range n (j + k) = id_range n j @ id_range (n + of_nat j) k"
  by (rule nth_equalityI) (auto simp: id_range_def nth_append)

lemma id_range_Suc: "id_range n (Suc k) = n # id_range (n + 1) k"
  using id_range_add [of n 1 k] by (simp add: id_range_def)

lemma length_id_range [simp]: "length (id_range n k) = k"
  by (simp add: id_range_def)

lemma unat_plus_of_nat: "unat (n :: u32) + k < 2 ^ 32 \<Longrightarrow> unat (n + of_nat k) = unat n + k"
  by (simp add: unat_word_ariths unsigned_of_nat take_bit_nat_eq_self)

lemma distinct_id_range: "unat n + k \<le> 2 ^ 32 \<Longrightarrow> distinct (id_range n k)"
proof -
  assume k: "unat n + k \<le> 2 ^ 32"
  have "i = j" if ij: "i < k" "j < k" "n + of_nat i = n + of_nat j" for i j
  proof -
    have "unat (n + of_nat i) = unat n + i" "unat (n + of_nat j) = unat n + j"
      using ij(1,2) k by (intro unat_plus_of_nat, linarith)+
    then have "unat n + i = unat n + j" unfolding ij(3) by (rule trans [OF sym])
    then show ?thesis by (rule add_left_imp_eq)
  qed
  then have "inj_on (\<lambda>i. n + of_nat i) {0..<k}" by (intro inj_onI) auto
  then show ?thesis by (simp add: id_range_def distinct_map)
qed

lemma partition_pages_ids:
  "unat next_id + node_count node \<le> 2 ^ 32 \<Longrightarrow>
    map page_id (fst (partition_pages node next_id)) = id_range next_id (node_count node) \<and>
    snd (partition_pages node next_id) = next_id + of_nat (node_count node - 1)"
  "cur = last_id + 1 \<Longrightarrow> unat last_id + 1 + sum_list (map node_count children) \<le> 2 ^ 32 \<Longrightarrow>
    map page_id (fst (snd (partition_children children cur last_id))) = id_range cur (sum_list (map node_count children)) \<and>
    snd (snd (partition_children children cur last_id)) = last_id + of_nat (sum_list (map node_count children))"
proof (induction node next_id and children cur last_id rule: partition_pages_partition_children.induct)
  case (1 es c next_id)
  then show ?case by (simp add: id_range_def)
next
  case (2 c children next_id)
  define t where "t = sum_list (map node_count children)"
  obtain ids cs pages last_id where part: "partition_children children (next_id + 1) next_id = ((ids, cs), pages, last_id)"
    by (metis prod.exhaust)
  have count: "node_count (PartInternal c children) = Suc t" by (simp add: t_def)
  have fit: "unat next_id + t < 2 ^ 32" using "2.prems" unfolding count by simp
  have "unat (next_id + of_nat t) = unat next_id + t" by (rule unat_plus_of_nat [OF fit])
  then have "max (next_id + of_nat t) next_id = next_id + of_nat t"
    by (simp add: max_def word_le_nat_alt)
  moreover have "map page_id pages = id_range (next_id + 1) t" "last_id = next_id + of_nat t"
    using "2.IH" fit part by (simp_all flip: t_def)
  ultimately show ?case using part unfolding count by (simp add: id_range_Suc)
next
  case (3 cur last_id)
  then show ?case by (simp add: id_range_def)
next
  case (4 child children cur last_id)
  let ?n = "node_count child" and ?t = "sum_list (map node_count children)"
  have pos: "0 < ?n" by (rule node_count_pos)
  have fit: "unat last_id + 1 + ?n + ?t \<le> 2 ^ 32" using "4.prems"(2) by simp
  have cur: "unat cur = unat last_id + 1"
    using unat_plus_of_nat [of last_id 1] fit pos "4.prems"(1) by simp
  obtain pages sub where child: "partition_pages child cur = (pages, sub)" by (cases "partition_pages child cur")
  have ids: "map page_id pages = id_range cur ?n" and sub: "sub = cur + of_nat (?n - 1)"
    using "4.IH"(1) cur fit child by simp_all
  have sub': "sub = last_id + of_nat ?n"
    using pos sub "4.prems"(1) by (cases ?n) simp_all
  have usub: "unat sub = unat last_id + ?n"
    unfolding sub' using fit by (intro unat_plus_of_nat) simp
  then have "max last_id sub = sub" by (simp add: max_def word_le_nat_alt)
  obtain ids' cs rest last' where rest: "partition_children children (sub + 1) (max last_id sub) = ((ids', cs), rest, last')"
    by (metis prod.exhaust)
  have IH: "map page_id rest = id_range (sub + 1) ?t" "last' = sub + of_nat ?t"
    using "4.IH"(2) [OF child [symmetric]] usub fit rest \<open>max last_id sub = sub\<close> by simp_all
  have nxt: "last_id + of_nat ?n + 1 = cur + of_nat ?n" using "4.prems"(1) by simp
  have all: "map page_id (pages @ rest) = id_range cur (?n + ?t)" "last' = last_id + of_nat (?n + ?t)"
    unfolding map_append ids IH(1) id_range_add IH(2) sub' nxt by simp_all
  obtain p ps where pages: "pages = p # ps"
    using ids pos by (cases pages) (auto simp: id_range_def)
  show ?case
    using all rest unfolding partition_children.simps child prod.case by (simp add: pages)
qed

lemma partition_pages_last:
  "node_ok node \<Longrightarrow> fst (partition_pages node n) \<noteq> [] \<and> is_leaf (last (fst (partition_pages node n)))"
  "list_all node_ok children \<Longrightarrow> children \<noteq> [] \<Longrightarrow>
    fst (snd (partition_children children n l)) \<noteq> [] \<and> is_leaf (last (fst (snd (partition_children children n l))))"
proof (induction node n and children n l rule: partition_pages_partition_children.induct)
  case (4 child children cur last_id)
  obtain p ps sub where "partition_pages child cur = (p # ps, sub)"
    using "4.IH"(1) "4.prems"(1) by (cases "partition_pages child cur"; cases "fst (partition_pages child cur)") auto
  moreover from this "4.IH" "4.prems" show ?case
    by (cases "children = []") (auto split: prod.splits)
qed (auto split: prod.splits)

lemma partition_pages_rows:
  "concat (map page_row_ids (fst (partition_pages node n))) = map fst (node_entries node)"
  "concat (map page_row_ids (fst (snd (partition_children children n l)))) = concat (map (\<lambda>c. map fst (node_entries c)) children)"
  by (induction node n and children n l rule: partition_pages_partition_children.induct)
    (auto split: prod.splits list.splits simp: map_concat comp_def)

lemma partition_pages_children:
  "\<forall>p\<in>set (fst (partition_pages node n)). page_balanced p \<and>
     set (page_children p) \<subseteq> page_id ` set (fst (partition_pages node n))"
  "length (fst (fst (partition_children children n l))) = length (snd (fst (partition_children children n l))) \<and>
   set (fst (fst (partition_children children n l))) \<subseteq> page_id ` set (fst (snd (partition_children children n l))) \<and>
   (\<forall>p\<in>set (fst (snd (partition_children children n l))). page_balanced p \<and>
     set (page_children p) \<subseteq> page_id ` set (fst (snd (partition_children children n l))))"
  by (induction node n and children n l rule: partition_pages_partition_children.induct)
    (auto split: prod.splits list.splits simp: subset_iff image_Un, blast)

lemma partition_pages_leaf_size:
  "max_leaf_size node \<le> b \<Longrightarrow> \<forall>p\<in>set (fst (partition_pages node n)). length (page_row_ids p) \<le> b"
  "\<forall>c\<in>set children. max_leaf_size c \<le> b \<Longrightarrow>
    \<forall>p\<in>set (fst (snd (partition_children children n l))). length (page_row_ids p) \<le> b"
  by (induction node n and children n l rule: partition_pages_partition_children.induct)
    (auto split: prod.splits list.splits simp: fold_max_le)

lemma length_partition_pages:
  "length (fst (partition_pages node n)) = node_count node"
  "length (fst (snd (partition_children children n l))) = sum_list (map node_count children)"
proof (induction node n and children n l rule: partition_pages_partition_children.induct)
  case (4 child children cur last_id)
  obtain p ps sub where "partition_pages child cur = (p # ps, sub)"
    using "4.IH"(1) node_count_pos [of child] by (cases "partition_pages child cur"; cases "fst (partition_pages child cur)") auto
  then show ?case using "4.IH" by (auto split: prod.splits)
qed (auto split: prod.splits)

definition tree_index :: "PartitionNode \<Rightarrow> BpannIndex \<Rightarrow> bool" where
  "tree_index root ix \<longleftrightarrow> idx_pages ix = fst (partition_to_pages root) \<and>
     hdr_root (idx_header ix) = snd (partition_to_pages root) \<and> idx_map ix = build_page_map (idx_pages ix)"

lemma concat_map_last: "xs \<noteq> [] \<Longrightarrow> concat (map f xs) = concat (map f (butlast xs)) @ f (last xs)"
  by (cases xs rule: rev_cases) simp_all

lemma last_not_in_butlast: "xs \<noteq> [] \<Longrightarrow> distinct xs \<Longrightarrow> last xs \<notin> set (butlast xs)"
  by (cases xs rule: rev_cases) simp_all

lemma build_from_rows_tree:
  assumes "build_from_rows fuel gen_range gen_f32 seed_from provider rows vs dim cap seed = Inr ix" "cap < length rows"
  shows "\<exists>root. partition_build fuel gen_range gen_f32 seed_from rows vs cap seed = Inr root \<and> tree_index root ix"
  using assms by (auto simp: build_from_rows_def tree_index_def index_of_pages_def Let_def
      split: sum.splits prod.splits if_splits)

lemma tree_index_ids:
  assumes "tree_index root ix" "length (idx_pages ix) \<le> 2 ^ 32"
  shows "page_ids ix = id_range 0 (length (idx_pages ix))" "distinct (page_ids ix)"
    "hdr_root (idx_header ix) = last (page_ids ix)"
proof -
  have len: "length (idx_pages ix) = node_count root"
    using assms(1) length_partition_pages(1) by (simp add: tree_index_def partition_to_pages_def)
  then have ids: "page_ids ix = id_range 0 (length (idx_pages ix))"
    and root: "hdr_root (idx_header ix) = of_nat (length (idx_pages ix) - 1)"
    using assms partition_pages_ids(1) [of 0 root] by (simp_all add: tree_index_def partition_to_pages_def page_ids_def)
  show "page_ids ix = id_range 0 (length (idx_pages ix))" by (rule ids)
  show "distinct (page_ids ix)" unfolding ids using assms(2) by (intro distinct_id_range) simp
  have "0 < length (idx_pages ix)" using node_count_pos [of root] len by simp
  then show "hdr_root (idx_header ix) = last (page_ids ix)"
    unfolding root ids by (cases "length (idx_pages ix)") (simp_all add: id_range_def)
qed

lemma tree_index_ok:
  assumes "tree_index root ix" "length (idx_pages ix) \<le> 2 ^ 32" "node_ok root"
  shows "index_ok ix"
proof -
  have "idx_pages ix \<noteq> []" using assms(1,3) partition_pages_last(1) by (simp add: tree_index_def partition_to_pages_def)
  then have "hdr_root (idx_header ix) \<in> set (page_ids ix)"
    using tree_index_ids(3) [OF assms(1,2)] by (simp add: page_ids_def last_map)
  then show ?thesis
    using tree_index_ids(2) [OF assms(1,2)] assms(1) partition_pages_children(1) [of root 0]
    by (auto simp: index_ok_def tree_index_def partition_to_pages_def page_ids_def)
qed

lemma tree_index_reaches:
  assumes "tree_index root ix" "length (idx_pages ix) \<le> 2 ^ 32" "node_ok root"
  shows "reaches ix q \<longleftrightarrow> q = hdr_root (idx_header ix)"
proof
  have ne: "idx_pages ix \<noteq> []" and leaf: "is_leaf (last (idx_pages ix))"
    using assms(1,3) partition_pages_last(1) by (simp_all add: tree_index_def partition_to_pages_def)
  have "page_by_id ix (hdr_root (idx_header ix)) = Some (last (idx_pages ix))"
    using page_by_id_iff [OF tree_index_ok [OF assms]] tree_index_ids(3) [OF assms(1,2)] ne
    by (simp add: page_ids_def last_map)
  moreover have "page_children (last (idx_pages ix)) = []" using leaf by (cases "last (idx_pages ix)") auto
  ultimately have step: "c \<notin> set (page_children p)" if "page_by_id ix (hdr_root (idx_header ix)) = Some p" for p c
    using that by simp
  assume "reaches ix q"
  then show "q = hdr_root (idx_header ix)"
    by induction (use step in auto)
qed (auto intro: reaches.root)

text \<open>A defect of the tree build. When an index is built over more rows than its leaf
  capacity, the root id stored in its header is the id of its last page, which is a leaf, while
  the page of the whole tree has id 0. A descent from the stored root reaches this leaf only,
  and other leaves exist.\<close>

theorem tree_build_reaches_one_leaf:
  assumes "build_from_rows fuel gen_range gen_f32 seed_from provider rows vs dim cap seed = Inr ix"
    and "cap < length rows" "length (idx_pages ix) \<le> 2 ^ 32"
  shows "(\<forall>q. reaches ix q = (q = hdr_root (idx_header ix))) \<and>
    hdr_root (idx_header ix) \<in> set (leaf_page_ids ix) \<and> \<not> all_reachable ix \<and>
    page_id (hd (idx_pages ix)) = 0 \<and> \<not> is_leaf (hd (idx_pages ix))"
proof -
  obtain root where build: "partition_build fuel gen_range gen_f32 seed_from rows vs cap seed = Inr root"
    and tree: "tree_index root ix"
    using build_from_rows_tree [OF assms(1,2)] by blast
  have root: "mset (node_entries root) = mset (zip rows vs)" "length rows = length vs" "max_leaf_size root \<le> cap" "node_ok root"
    using build by (auto simp: partition_build_def res_simps dest: partition_recursive_rows)
  note ok = tree_index_ok [OF tree assms(3) root(4)] and reach = tree_index_reaches [OF tree assms(3) root(4)]
  have pages: "idx_pages ix = fst (partition_pages root 0)" using tree by (simp add: tree_index_def partition_to_pages_def)
  have ne: "idx_pages ix \<noteq> []" and leaf: "is_leaf (last (idx_pages ix))"
    using partition_pages_last(1) [OF root(4)] by (simp_all add: pages)
  have last_id: "hdr_root (idx_header ix) = page_id (last (idx_pages ix))"
    using tree_index_ids(3) [OF tree assms(3)] ne by (simp add: page_ids_def last_map)
  then have in_leaves: "hdr_root (idx_header ix) \<in> set (leaf_page_ids ix)"
    using ne leaf by (auto simp: leaf_page_ids_def)
  have entries: "length (concat (map page_row_ids (idx_pages ix))) = length rows"
    using root(1,2) by (metis partition_pages_rows(1) pages length_map length_zip min.idem size_mset)
  have "\<not> all_reachable ix"
  proof
    assume all: "all_reachable ix"
    have only: "p = last (idx_pages ix)" if "p \<in> set (idx_pages ix)" "is_leaf p" for p
    proof -
      have "page_id p = page_id (last (idx_pages ix))"
        using all reach that last_id by (auto simp: all_reachable_def leaf_page_ids_def)
      then show ?thesis
        using ok that(1) ne by (auto simp: index_ok_def page_ids_def distinct_map inj_on_def)
    qed
    have "page_row_ids p = []" if "p \<in> set (butlast (idx_pages ix))" for p
    proof -
      have "p \<noteq> last (idx_pages ix)"
        using that last_not_in_butlast [OF ne] ok by (auto simp: index_ok_def page_ids_def distinct_map)
      then have "\<not> is_leaf p" using only that in_set_butlastD by fast
      then show ?thesis by (cases p) simp_all
    qed
    then have "concat (map page_row_ids (butlast (idx_pages ix))) = []" by simp
    then have "concat (map page_row_ids (idx_pages ix)) = page_row_ids (last (idx_pages ix))"
      using concat_map_last [OF ne, of page_row_ids] by simp
    moreover have "length (page_row_ids (last (idx_pages ix))) \<le> cap"
      using partition_pages_leaf_size(1) [OF root(3), of 0] ne unfolding pages by simp
    ultimately show False using entries assms(2) by simp
  qed
  moreover have "page_id (hd (idx_pages ix)) = 0"
    using tree_index_ids(1) [OF tree assms(3)] ne by (cases "idx_pages ix") (auto simp: page_ids_def id_range_Suc)
  moreover have "\<not> is_leaf (hd (idx_pages ix))"
  proof (cases root)
    case (PartLeaf es c)
    then have "length es = length rows" using root(1,2) by (metis node_entries.simps(1) length_zip min.idem size_mset)
    then show ?thesis using root(3) assms(2) PartLeaf by simp
  next
    case (PartInternal c children)
    then show ?thesis by (simp add: pages split: prod.splits)
  qed
  ultimately show ?thesis using reach in_leaves by blast
qed

lemma test_partition:
  "partition_build 2 test_range1 test_float (\<lambda>_. ()) [4, 9] [[fzero], [infinity]] 1 0 =
    Inr (PartInternal (mean_vector [[fzero], [infinity]])
      [PartLeaf [(9, [infinity])] (mean_vector [[infinity]]), PartLeaf [(4, [fzero])] (mean_vector [[fzero]])])"
  by (simp add: partition_build_def test_clusters [unfolded numeral_2_eq_2] cluster_count_def div_ceil_def Let_def
      clusters_of_def upt_conv_Cons numeral_2_eq_2)

lemma no_skip_edges: "\<not> needs_skip_edges None 2"
proof -
  have "current_tuning None = default_tuning" by (simp add: current_tuning_def Let_def split: sum.split)
  then show ?thesis
    by (simp add: needs_skip_edges_def rows_need_skip_edges_def default_tuning_def tuning_constants)
qed

lemma test_tree:
  "build_from_rows 2 test_range1 test_float (\<lambda>_. ()) None [4, 9] [[fzero], [infinity]] 1 1 0 =
    Inr (index_of_pages 1 2 2 1 [Internal 0 [[infinity], [fzero]] [1, 2], Leaf 1 [9] None [[infinity]] None,
      Leaf 2 [4] None [[fzero]] None] [])"
  by (simp add: build_from_rows_def test_partition [simplified numeral_2_eq_2 One_nat_def] partition_to_pages_def
      no_skip_edges [unfolded numeral_2_eq_2] Let_def numeral_2_eq_2 mean_vector_def add_vector_def sample_eval)

theorem tree_build_reaches_one_leaf_witness:
  "\<exists>ix. build_from_rows 2 test_range1 test_float (\<lambda>_. ()) None [4, 9] [[fzero], [infinity]] 1 1 0 = Inr ix \<and>
    (\<forall>q. reaches ix q = (q = hdr_root (idx_header ix))) \<and> \<not> all_reachable ix"
  using tree_build_reaches_one_leaf [OF test_tree] test_tree by (simp add: index_of_pages_def)

end
