(* ===== verification/BpannSearch.thy ===== *)
theory BpannSearch
  imports BpannMerge
begin

text \<open>
  Searching one index (\<open>rust/crates/bpann/src/index/search.rs\<close>): scoring a leaf from its
  vectors, its row ids or its row range, the exhaustive scan, the beam descent with its
  visited set, queue and log, the skip-edge refinement and the cut to the nearest leaves. The
  descent recurses along child ids, which need not be acyclic, so it takes fuel.
\<close>

record MmapSearchStore =
  srch_rows :: MmapColumnStore
  srch_scale :: bool
  srch_xscale :: "f64 list"

definition score_row :: "MmapSearchStore \<Rightarrow> f32 list \<Rightarrow> u32 \<Rightarrow> bpann_error + (u32 \<times> f32)" where
  "score_row st q i = rbind (mmap_row_slice (srch_rows st) (unat i)) (\<lambda>row.
     Inr (i, l2_sq_f32 q (bpann_row_to_f32 row (srch_scale st) (srch_xscale st))))"

definition score_leaf_rows ::
    "MmapSearchStore option \<Rightarrow> f32 list \<Rightarrow> u32 list \<Rightarrow> f32 list list \<Rightarrow> bpann_error + (u32 \<times> f32) list" where
  "score_leaf_rows store q rows vs =
     (if vs \<noteq> [] then Inr (zip rows (batched_sq_l2_f32 q vs))
      else case store of None \<Rightarrow> Inr [] | Some st \<Rightarrow> map_res (score_row st q) rows)"

definition score_leaf_range ::
    "MmapSearchStore option \<Rightarrow> f32 list \<Rightarrow> u32 \<Rightarrow> u32 \<Rightarrow> bpann_error + (u32 \<times> f32) list" where
  "score_leaf_range store q start stop =
     rbind (ensure (start \<le> stop) IndexPanic) (\<lambda>_.
     case store of None \<Rightarrow> Inr []
     | Some st \<Rightarrow> map_res (score_row st q) (map as_u32 [unat start..<unat stop]))"

fun score_leaf_page :: "MmapSearchStore option \<Rightarrow> f32 list \<Rightarrow> Page \<Rightarrow> bpann_error + (u32 \<times> f32) list" where
  "score_leaf_page store q (Leaf pid rows (Some (start, stop)) vs c) = score_leaf_range store q start stop"
| "score_leaf_page store q (Leaf pid rows None vs c) = score_leaf_rows store q rows vs"
| "score_leaf_page store q (Internal pid cs ids) = Inr []"

definition MAX_CANDIDATE_LEAVES :: nat where
  "MAX_CANDIDATE_LEAVES = 384"

definition search_exhaustive_leaves ::
    "BpannIndex \<Rightarrow> f32 list \<Rightarrow> nat \<Rightarrow> MmapSearchStore option \<Rightarrow> bpann_error + (u32 \<times> f32) list" where
  "search_exhaustive_leaves ix q k store =
     rbind (map_res (score_leaf_page store q) (filter is_leaf (idx_pages ix))) (\<lambda>scored.
     Inr (topk rank_le k (concat scored)))"

section \<open>Descent\<close>

record descent =
  visited :: "u32 list"
  queue :: "u32 list"
  visit_log :: "u32 list"

definition visit :: "u32 \<Rightarrow> descent \<Rightarrow> descent" where
  "visit pid s = (if pid \<in> set (visited s) then s
     else s\<lparr>visited := pid # visited s, queue := queue s @ [pid], visit_log := visit_log s @ [pid]\<rparr>)"

fun fold_res :: "('a \<Rightarrow> 's \<Rightarrow> 'e + 's) \<Rightarrow> 'a list \<Rightarrow> 's \<Rightarrow> 'e + 's" where
  "fold_res f [] s = Inr s"
| "fold_res f (x # xs) s = rbind (f x s) (fold_res f xs)"

datatype search_error = DescentFuel | SearchError bpann_error

definition ranked_children :: "f32 list \<Rightarrow> f32 list list \<Rightarrow> nat \<Rightarrow> nat list" where
  "ranked_children q cs beam =
     map fst (take (max beam 1)
       (sort_le (\<lambda>a b. partial_le (snd a) (snd b)) (map (\<lambda>(i, c). (i, l2_sq_f32 q c)) (enumerate 0 cs))))"

primrec collect_candidate_leaves ::
    "nat \<Rightarrow> BpannIndex \<Rightarrow> f32 list \<Rightarrow> nat \<Rightarrow> Page \<Rightarrow> descent \<Rightarrow> search_error + descent" where
  "collect_candidate_leaves 0 ix q beam page s = Inl DescentFuel"
| "collect_candidate_leaves (Suc fuel) ix q beam page s =
     (case page of
        Leaf pid rows rng vs c \<Rightarrow> Inr (visit pid s)
      | Internal pid cs ids \<Rightarrow>
          fold_res (\<lambda>i s.
            rbind (ensure (i < length ids) (SearchError IndexPanic)) (\<lambda>_.
            case page_by_id ix (ids ! i) of None \<Rightarrow> Inr s
            | Some child \<Rightarrow> collect_candidate_leaves fuel ix q beam child s))
            (ranked_children q cs beam) s)"

definition follow_skip_edges :: "BpannIndex \<Rightarrow> descent \<Rightarrow> descent" where
  "follow_skip_edges ix s = fold (\<lambda>leaf_id s.
     if length (queue s) \<ge> MAX_CANDIDATE_LEAVES then s
     else case map_of (idx_edges ix) leaf_id of None \<Rightarrow> s
     | Some nexts \<Rightarrow> fold (\<lambda>nxt s. if length (queue s) \<ge> MAX_CANDIDATE_LEAVES then s else visit nxt s) nexts s)
     (queue s) s"

definition truncate_candidate_leaves :: "BpannIndex \<Rightarrow> f32 list \<Rightarrow> u32 list \<Rightarrow> nat \<Rightarrow> u32 list" where
  "truncate_candidate_leaves ix q ls limit =
     (if length ls \<le> limit then ls
      else map fst (take limit (sort_le (\<lambda>a b. partial_le (snd a) (snd b))
        (List.map_filter (\<lambda>i. map_option (\<lambda>p. (i, l2_sq_f32 q (page_centroid p))) (page_by_id ix i)) ls))))"

definition lift_search :: "bpann_error + 'a \<Rightarrow> search_error + 'a" where
  "lift_search m = (case m of Inl e \<Rightarrow> Inl (SearchError e) | Inr x \<Rightarrow> Inr x)"

definition score_candidate ::
    "BpannIndex \<Rightarrow> f32 list \<Rightarrow> MmapSearchStore option \<Rightarrow> u32 \<Rightarrow> bpann_error + (u32 \<times> f32) list" where
  "score_candidate ix q store pid = (case page_by_id ix pid of None \<Rightarrow> Inr [] | Some p \<Rightarrow> score_leaf_page store q p)"

definition search_index ::
    "nat \<Rightarrow> BpannIndex \<Rightarrow> f32 list \<Rightarrow> nat \<Rightarrow> nat \<Rightarrow> bool \<Rightarrow> u32 list \<Rightarrow> MmapSearchStore option
      \<Rightarrow> search_error + ((u32 \<times> f32) list \<times> u32 list)" where
  "search_index fuel ix q k beam use_skip log store =
     (if idx_pages ix = [] \<or> k = 0 then Inr ([], log)
      else
      let start = \<lparr>visited = [], queue = [], visit_log = log\<rparr> in
      rbind (case page_by_id ix (hdr_root (idx_header ix)) of None \<Rightarrow> Inr start
             | Some root \<Rightarrow> collect_candidate_leaves fuel ix q beam root start) (\<lambda>s.
      let s = (if use_skip then follow_skip_edges ix s else s);
          candidates = truncate_candidate_leaves ix q (queue s) MAX_CANDIDATE_LEAVES in
      rbind (lift_search (map_res (score_candidate ix q store) candidates)) (\<lambda>scored.
      Inr (topk rank_le k (concat scored), visit_log s))))"

definition closest_child :: "f32 list \<Rightarrow> f32 list list \<Rightarrow> nat" where
  "closest_child q cs = argmin_first (map (l2_sq_f32 q) cs)"

section \<open>Exhaustive search of a tree is brute force\<close>

fun page_scores :: "f32 list \<Rightarrow> Page \<Rightarrow> (u32 \<times> f32) list" where
  "page_scores q (Leaf pid rows rng vs c) = zip rows (batched_sq_l2_f32 q vs)"
| "page_scores q (Internal pid cs ids) = []"

definition entry_score :: "f32 list \<Rightarrow> u32 \<times> f32 list \<Rightarrow> u32 \<times> f32" where
  "entry_score q = (\<lambda>(i, v). (i, l2_sq_f32 q v))"

lemma zip_entry_scores: "zip (map fst es) (batched_sq_l2_f32 q (map snd es)) = map (entry_score q) es"
  by (induction es) (auto simp: batched_sq_l2_f32_def entry_score_def)

lemma score_explicit_leaf:
  "length rows = length vs \<Longrightarrow> score_leaf_page store q (Leaf pid rows None vs c) = Inr (zip rows (batched_sq_l2_f32 q vs))"
  by (auto simp: score_leaf_rows_def split: option.splits)

lemma score_partition_pages:
  "\<forall>p\<in>set (fst (partition_pages node n)). is_leaf p \<longrightarrow> score_leaf_page store q p = Inr (page_scores q p)"
  "\<forall>p\<in>set (fst (snd (partition_children children n l))). is_leaf p \<longrightarrow> score_leaf_page store q p = Inr (page_scores q p)"
  by (induction node n and children n l rule: partition_pages_partition_children.induct)
    (auto split: prod.splits list.splits simp: score_explicit_leaf simp del: score_leaf_page.simps)

lemma page_scores_partition_pages:
  "concat (map (page_scores q) (fst (partition_pages node n))) = map (entry_score q) (node_entries node)"
  "concat (map (page_scores q) (fst (snd (partition_children children n l)))) = concat (map (\<lambda>c. map (entry_score q) (node_entries c)) children)"
  by (induction node n and children n l rule: partition_pages_partition_children.induct)
    (auto split: prod.splits list.splits simp: map_concat comp_def zip_entry_scores)

lemma concat_page_scores_leaves: "concat (map (page_scores q) (filter is_leaf ps)) = concat (map (page_scores q) ps)"
proof (induction ps)
  case (Cons p ps)
  then show ?case by (cases p) simp_all
qed simp

lemma search_exhaustive_scored:
  assumes "\<forall>p\<in>set (idx_pages ix). is_leaf p \<longrightarrow> score_leaf_page store q p = Inr (page_scores q p)"
  shows "search_exhaustive_leaves ix q k store = Inr (topk rank_le k (concat (map (page_scores q) (idx_pages ix))))"
proof -
  have "map_res (score_leaf_page store q) (filter is_leaf (idx_pages ix))
      = Inr (map (page_scores q) (filter is_leaf (idx_pages ix)))"
    using assms by (intro map_res_all_Inr) simp
  then show ?thesis by (simp add: search_exhaustive_leaves_def concat_page_scores_leaves)
qed

lemma build_from_rows_scores:
  assumes "build_from_rows fuel gen_range gen_f32 seed_from provider rows vs dim cap seed = Inr ix"
    and "length rows = length vs"
  shows "\<exists>scored. search_exhaustive_leaves ix q k store = Inr (topk rank_le k scored) \<and>
    mset scored = mset (map (entry_score q) (zip rows vs))"
proof (cases "length rows \<le> cap")
  case True
  then have pages: "idx_pages ix = [Leaf 0 rows None vs None]"
    using assms(1) by (auto simp: build_from_rows_def build_single_leaf_from_rows_def index_of_pages_def)
  have "zip rows (batched_sq_l2_f32 q vs) = map (entry_score q) (zip rows vs)"
    using zip_entry_scores [of "zip rows vs" q] assms(2) by simp
  then show ?thesis
    using search_exhaustive_scored [of ix store q k] assms(2)
    by (intro exI [of _ "zip rows (batched_sq_l2_f32 q vs)"]) (simp add: pages score_explicit_leaf del: score_leaf_page.simps)
next
  case False
  then obtain root where root: "partition_build fuel gen_range gen_f32 seed_from rows vs cap seed = Inr root"
    and tree: "tree_index root ix"
    using build_from_rows_tree [OF assms(1)] by auto
  have pages: "idx_pages ix = fst (partition_pages root 0)" using tree by (simp add: tree_index_def partition_to_pages_def)
  have "mset (node_entries root) = mset (zip rows vs)"
    using root by (auto simp: partition_build_def res_simps dest: partition_recursive_rows)
  then have "mset (map (entry_score q) (node_entries root)) = mset (map (entry_score q) (zip rows vs))"
    by simp
  then show ?thesis
    using search_exhaustive_scored [of ix store q k] score_partition_pages(1) [of root 0 store q]
    by (intro exI [of _ "map (entry_score q) (node_entries root)"]) (simp add: pages page_scores_partition_pages)
qed

text \<open>C27: the exhaustive search of a built index has full recall. Whenever building an index
  from finite vectors returns, for whatever draws and tuning, searching all its leaves for a
  finite query gives exactly the brute-force answer over the vectors.\<close>

theorem exhaustive_search_is_brute_force:
  assumes "build_from_vectors fuel gen_range gen_f32 seed_from provider vs dim cap seed = Inr ix"
    and "length vs < 2 ^ 32" "\<forall>x\<in>set q. is_finite x" "\<forall>v\<in>set vs. \<forall>x\<in>set v. is_finite x"
  shows "search_exhaustive_leaves ix q k store = Inr (bpann_brute_force_topk vs q k)"
proof -
  let ?rows = "map (\<lambda>i. of_nat i :: u32) [0..<unat (as_u32 (length vs))]"
  have len: "length ?rows = length vs" using assms(2) by (simp add: unat_as_u32)
  obtain scored where scored: "search_exhaustive_leaves ix q k store = Inr (topk rank_le k scored)"
    "mset scored = mset (map (entry_score q) (zip ?rows vs))"
    using build_from_rows_scores [OF assms(1) [unfolded build_from_vectors_def] len] by blast
  have zip: "map (entry_score q) (zip ?rows vs) = map (\<lambda>(i, v). (as_u32 i, l2_sq_f32 q v)) (enumerate 0 vs)" (is "_ = ?all")
    using assms(2) by (intro nth_equalityI) (simp_all add: unat_as_u32 entry_score_def nth_enumerate_eq, simp add: as_u32_def)
  have "set ?all \<subseteq> entries_of (\<lambda>u. l2_sq_f32 q (vs ! unat u))"
  proof
    fix e assume "e \<in> set ?all"
    then obtain i where i: "i < length vs" "e = (as_u32 i, l2_sq_f32 q (vs ! i))"
      by (auto simp: in_set_enumerate_eq)
    then have "unat (as_u32 i) = i" using assms(2) by (intro unat_as_u32) simp
    moreover have "fnonneg (l2_sq_f32 q (vs ! i))" using assms(3,4) i(1) by (intro l2_sq_f32_nonneg) auto
    ultimately show "e \<in> entries_of (\<lambda>u. l2_sq_f32 q (vs ! unat u))"
      using i(2) by (auto simp: entries_of_def fnonneg_def)
  qed
  then have "topk rank_le k scored = topk rank_le k ?all"
    using scored(2) zip mset_eq_setD [OF scored(2)] by (intro rk.topk_mset) simp_all
  then show ?thesis by (simp add: scored(1) bpann_brute_force_topk_def)
qed

lemma unit_assignment: "assign_clusters [[fzero], [one32]] [[one32], [fzero]] = [Suc 0, 0]"
  by (simp add: assign_clusters_def nearest_centroid_def argmin_first_def sample_eval)

lemma unit_iters:
  "kmeans_iters 20 [[fzero], [one32]] 2 [[one32], [fzero]] [Suc 0, 0] = ([[one32], [fzero]], [Suc 0, 0])"
proof -
  have "recompute_centroids [[fzero], [one32]] [Suc 0, 0] 2 = [[one32], [fzero]]"
    by (simp add: recompute_centroids_def add_vector_def sample_eval upt_conv_Cons numeral_2_eq_2 Let_def)
  then have "kmeans_iters (Suc 19) [[fzero], [one32]] 2 [[one32], [fzero]] [Suc 0, 0] = ([[one32], [fzero]], [Suc 0, 0])"
    by (simp only: kmeans_iters.simps Let_def unit_assignment simp_thms if_True)
  moreover have "(20 :: nat) = Suc 19" by simp
  ultimately show ?thesis by (simp only:)
qed

lemma unit_clusters:
  "kmeans_run test_range1 test_float [[fzero], [one32]] 2 20 () = (([[one32], [fzero]], [Suc 0, 0]), ())"
proof -
  have "kmeans_plus_plus_init test_range1 test_float [[fzero], [one32]] 2 () = ([[one32], [fzero]], ())"
    by (simp add: kmeans_plus_plus_init_def test_range1_def test_float_def Let_def nearest_sq_def sample_eval)
  then show ?thesis by (simp add: kmeans_run_def unit_assignment unit_iters [simplified numeral_2_eq_2] numeral_2_eq_2)
qed

lemma unit_partition:
  "partition_build 2 test_range1 test_float (\<lambda>_. ()) [0, 1] [[fzero], [one32]] 1 0 =
    Inr (PartInternal (mean_vector [[fzero], [one32]])
      [PartLeaf [(1, [one32])] (mean_vector [[one32]]), PartLeaf [(0, [fzero])] (mean_vector [[fzero]])])"
  by (simp add: partition_build_def unit_clusters [unfolded numeral_2_eq_2] cluster_count_def div_ceil_def Let_def
      clusters_of_def upt_conv_Cons numeral_2_eq_2)

lemma two_rows: "map (\<lambda>i. of_nat i :: u32) [0..<unat (as_u32 (length [v, w]))] = [0, 1]"
proof -
  have "unat (as_u32 (length [v, w])) = 2" by (subst unat_as_u32) simp_all
  then show ?thesis by (simp add: upt_conv_Cons numeral_2_eq_2)
qed

theorem exhaustive_search_is_brute_force_witness:
  "\<exists>ix. build_from_vectors 2 test_range1 test_float (\<lambda>_. ()) None [[fzero], [one32]] 1 1 0 = Inr ix \<and>
    search_exhaustive_leaves ix [one32] 1 None = Inr (bpann_brute_force_topk [[fzero], [one32]] [one32] 1)"
proof -
  have built: "build_from_vectors 2 test_range1 test_float (\<lambda>_. ()) None [[fzero], [one32]] 1 1 0 =
    Inr (index_of_pages 1 2 2 1 (fst (partition_to_pages (PartInternal (mean_vector [[fzero], [one32]])
      [PartLeaf [(1, [one32])] (mean_vector [[one32]]), PartLeaf [(0, [fzero])] (mean_vector [[fzero]])]))) [])"
    unfolding build_from_vectors_def two_rows
    by (simp add: build_from_rows_def unit_partition [simplified numeral_2_eq_2 One_nat_def]
        partition_to_pages_def no_skip_edges [unfolded numeral_2_eq_2] Let_def numeral_2_eq_2)
  show ?thesis
    by (intro exI conjI, rule built, rule exhaustive_search_is_brute_force [OF built]) (simp_all add: sample_eval)
qed

section \<open>A descent of a tree sees one leaf\<close>

lemma take_topk_length: "length (topk le k xs) \<le> length xs"
  by (simp add: topk_def length_sort_le)

lemma partition_pages_scores_le:
  "max_leaf_size node \<le> b \<Longrightarrow> \<forall>p\<in>set (fst (partition_pages node n)). length (page_scores q p) \<le> b"
  "\<forall>c\<in>set children. max_leaf_size c \<le> b \<Longrightarrow>
    \<forall>p\<in>set (fst (snd (partition_children children n l))). length (page_scores q p) \<le> b"
  by (induction node n and children n l rule: partition_pages_partition_children.induct)
    (auto split: prod.splits list.splits simp: fold_max_le)

lemma search_at_root_leaf:
  assumes "page_by_id ix (hdr_root (idx_header ix)) = Some (Leaf pid rows rng vs c)"
    "page_by_id ix pid = Some (Leaf pid rows rng vs c)" "idx_pages ix \<noteq> []" "0 < k"
    "score_leaf_page store q (Leaf pid rows rng vs c) = Inr scores"
  shows "search_index (Suc fuel) ix q k beam False log store = Inr (topk rank_le k scores, log @ [pid])"
  using assms
  by (simp add: search_index_def visit_def truncate_candidate_leaves_def MAX_CANDIDATE_LEAVES_def score_candidate_def
      lift_search_def Let_def)

text \<open>The answer of a greedy search on a tree. On an index built over more rows than its
  leaf capacity, a search without skip edges returns the best rows of the last leaf whatever the
  query and the beam width, so at most \<open>cap\<close> rows however many were asked for, and it logs that
  leaf.\<close>

theorem tree_search_answers_from_last_leaf:
  assumes "build_from_rows fuel gen_range gen_f32 seed_from provider rows vs dim cap seed = Inr ix"
    and "cap < length rows" "length (idx_pages ix) \<le> 2 ^ 32" "0 < k"
  shows "\<exists>answer. search_index (Suc n) ix q k beam False log store = Inr (answer, log @ [hdr_root (idx_header ix)]) \<and>
    answer = topk rank_le k (page_scores q (last (idx_pages ix))) \<and> length answer \<le> cap"
proof -
  obtain root where build: "partition_build fuel gen_range gen_f32 seed_from rows vs cap seed = Inr root"
    and tree: "tree_index root ix"
    using build_from_rows_tree [OF assms(1,2)] by blast
  have root: "max_leaf_size root \<le> cap" "node_ok root"
    using build by (auto simp: partition_build_def res_simps dest: partition_recursive_rows)
  have pages: "idx_pages ix = fst (partition_pages root 0)" using tree by (simp add: tree_index_def partition_to_pages_def)
  let ?p = "last (idx_pages ix)"
  have ne: "idx_pages ix \<noteq> []" and leaf: "is_leaf ?p" and mem: "?p \<in> set (idx_pages ix)"
    using partition_pages_last(1) [OF root(2), of 0] by (simp_all add: pages)
  have id: "hdr_root (idx_header ix) = page_id ?p"
    using tree_index_ids(3) [OF tree assms(3)] ne by (simp add: page_ids_def last_map)
  have lookup: "page_by_id ix (page_id ?p) = Some ?p"
    using page_by_id_iff [OF tree_index_ok [OF tree assms(3) root(2)]] mem by blast
  have score: "score_leaf_page store q ?p = Inr (page_scores q ?p)"
    using score_partition_pages(1) [of root 0 store q] mem leaf by (simp add: pages)
  have "length (page_scores q ?p) \<le> cap" using partition_pages_scores_le(1) [OF root(1), of 0] mem by (simp add: pages)
  then have "length (topk rank_le k (page_scores q ?p)) \<le> cap" using take_topk_length le_trans by blast
  moreover obtain pid rws rng ws c where "?p = Leaf pid rws rng ws c" using leaf by (cases ?p) simp_all
  ultimately show ?thesis
    using search_at_root_leaf [of ix pid rws rng ws c k store q "page_scores q ?p" n beam log] lookup score ne assms(4)
    by (simp add: id)
qed

theorem tree_search_answers_from_last_leaf_witness:
  "\<exists>ix answer. build_from_rows 2 test_range1 test_float (\<lambda>_. ()) None [4, 9] [[fzero], [infinity]] 1 1 0 = Inr ix \<and>
    search_index 1 ix [infinity] 2 4 False [] None = Inr (answer, [2]) \<and> length answer \<le> 1"
  using tree_search_answers_from_last_leaf [OF test_tree, of 2 0 "[infinity]" 4 "[]" None] test_tree
  by (auto simp: index_of_pages_def)

end
