(* ===== verification/BpannPersist.thy ===== *)
theory BpannPersist
  imports BpannIndex
begin

text \<open>
  Writing and opening the index directory (\<open>rust/crates/bpann/src/index/persist_atomic.rs\<close>,
  \<open>open\<close> and \<open>on_disk_index_matches\<close> of \<open>build.rs\<close>). The directory maps its five files to their
  bytes. Every call of the file system is a step that works, fails without effect, or (for a
  write) fails after replacing the file by some other bytes, as a fault plan says. The JSON of
  the header is a parameter: \<open>to_json\<close> and \<open>from_json\<close> of serde.
\<close>

datatype index_file = HeaderJson | PagesBin | PagesTmp | SkipBin | SkipTmp

type_synonym index_dir = "index_file \<rightharpoonup> u8 list"

datatype fs_step =
    CreateDir | BackupPages | BackupSkip | WritePages | WriteSkip | RenamePages | RenameSkip
  | WriteHeader | RestorePages | RestoreSkip | RemovePagesTmp | RemoveSkipTmp

datatype fault = Works | Fails | Tears "u8 list"

type_synonym fault_plan = "fs_step \<Rightarrow> fault"

definition write_file :: "fault \<Rightarrow> index_file \<Rightarrow> u8 list \<Rightarrow> index_dir \<Rightarrow> (bpann_error + unit) \<times> index_dir" where
  "write_file w f bytes dir = (case w of Works \<Rightarrow> (Inr (), dir(f \<mapsto> bytes)) | Fails \<Rightarrow> (Inl IoError, dir)
     | Tears junk \<Rightarrow> (Inl IoError, dir(f \<mapsto> junk)))"

definition rename_file :: "fault \<Rightarrow> index_file \<Rightarrow> index_file \<Rightarrow> index_dir \<Rightarrow> (bpann_error + unit) \<times> index_dir" where
  "rename_file w a b dir = (case (w, dir a) of (Works, Some bytes) \<Rightarrow> (Inr (), dir(b \<mapsto> bytes, a := None))
     | _ \<Rightarrow> (Inl IoError, dir))"

definition remove_file :: "fault \<Rightarrow> index_file \<Rightarrow> index_dir \<Rightarrow> index_dir" where
  "remove_file w f dir = (if w = Works then dir(f := None) else dir)"

definition read_backup :: "fault \<Rightarrow> index_file \<Rightarrow> index_dir \<Rightarrow> bpann_error + u8 list option" where
  "read_backup w f dir = (case dir f of None \<Rightarrow> Inr None
     | Some bytes \<Rightarrow> if w = Works then Inr (Some bytes) else Inl IoError)"

definition and_then :: "('e + unit) \<times> 's \<Rightarrow> ('s \<Rightarrow> ('e + unit) \<times> 's) \<Rightarrow> ('e + unit) \<times> 's" where
  "and_then m k = (case m of (Inl e, s) \<Rightarrow> (Inl e, s) | (Inr _, s) \<Rightarrow> k s)"

section \<open>Skip edges\<close>

definition edge_bytes :: "u32 \<times> u32 list \<Rightarrow> u8 list" where
  "edge_bytes = (\<lambda>(src, tos). u32_bytes src @ u32_bytes (as_u32 (length tos)) @ concat (map u32_bytes tos))"

definition skip_edges_bytes :: "(u32 \<times> u32 list) list \<Rightarrow> u8 list" where
  "skip_edges_bytes edges = u32_bytes (as_u32 (length edges)) @ concat (map edge_bytes edges)"

fun read_tos :: "nat \<Rightarrow> u8 list \<Rightarrow> u32 list \<times> u8 list" where
  "read_tos 0 bs = ([], bs)"
| "read_tos (Suc n) bs =
     (if length bs < 4 then ([], bs)
      else case read_tos n (drop 4 bs) of (tos, rest) \<Rightarrow> (u32_of_bytes (take 4 bs) # tos, rest))"

fun read_edges :: "nat \<Rightarrow> u8 list \<Rightarrow> (u32 \<times> u32 list) list \<Rightarrow> (u32 \<times> u32 list) list" where
  "read_edges 0 bs out = out"
| "read_edges (Suc n) bs out =
     (if length bs < 8 then out
      else let src = u32_of_bytes (take 4 bs); m = unat (u32_of_bytes (take 4 (drop 4 bs)))
        in case read_tos m (drop 8 bs) of (tos, rest) \<Rightarrow> read_edges n rest (AList.update src tos out))"

definition read_skip_edges :: "u8 list option \<Rightarrow> (u32 \<times> u32 list) list" where
  "read_skip_edges file = (case file of None \<Rightarrow> []
     | Some data \<Rightarrow> if length data < 4 then []
         else read_edges (unat (u32_of_bytes (take 4 data))) (drop 4 data) [])"

section \<open>Persisting\<close>

definition persist_body ::
    "(IndexHeader \<Rightarrow> u8 list) \<Rightarrow> fault_plan \<Rightarrow> IndexHeader \<Rightarrow> Page list \<Rightarrow> (u32 \<times> u32 list) list \<Rightarrow> index_dir
      \<Rightarrow> (bpann_error + unit) \<times> index_dir" where
  "persist_body to_json plan header pages edges dir =
     and_then (write_file (plan WritePages) PagesTmp (write_pages_index pages (hdr_dim header)) dir) (\<lambda>dir.
     and_then (write_file (plan WriteSkip) SkipTmp (skip_edges_bytes edges) dir) (\<lambda>dir.
     and_then (rename_file (plan RenamePages) PagesTmp PagesBin dir) (\<lambda>dir.
     and_then (rename_file (plan RenameSkip) SkipTmp SkipBin dir) (\<lambda>dir.
     write_file (plan WriteHeader) HeaderJson (to_json header) dir))))"

definition restore :: "fault \<Rightarrow> index_file \<Rightarrow> u8 list option \<Rightarrow> index_dir \<Rightarrow> index_dir" where
  "restore w f backup dir = (case backup of None \<Rightarrow> dir | Some bytes \<Rightarrow> snd (write_file w f bytes dir))"

definition rollback :: "fault_plan \<Rightarrow> u8 list option \<Rightarrow> u8 list option \<Rightarrow> index_dir \<Rightarrow> index_dir" where
  "rollback plan pages_backup skip_backup dir =
     remove_file (plan RemoveSkipTmp) SkipTmp
       (remove_file (plan RemovePagesTmp) PagesTmp
         (restore (plan RestoreSkip) SkipBin skip_backup
           (restore (plan RestorePages) PagesBin pages_backup dir)))"

definition persist_index_files ::
    "(IndexHeader \<Rightarrow> u8 list) \<Rightarrow> fault_plan \<Rightarrow> IndexHeader \<Rightarrow> Page list \<Rightarrow> (u32 \<times> u32 list) list \<Rightarrow> index_dir
      \<Rightarrow> (bpann_error + unit) \<times> index_dir" where
  "persist_index_files to_json plan header pages edges dir =
     (if plan CreateDir \<noteq> Works then (Inl IoError, dir)
      else case read_backup (plan BackupPages) PagesBin dir of Inl e \<Rightarrow> (Inl e, dir)
      | Inr pages_backup \<Rightarrow> (case read_backup (plan BackupSkip) SkipBin dir of Inl e \<Rightarrow> (Inl e, dir)
      | Inr skip_backup \<Rightarrow>
          (case persist_body to_json plan header pages edges dir of
             (Inr u, dir') \<Rightarrow> (Inr (), dir')
           | (Inl e, dir') \<Rightarrow> (Inl e, rollback plan pages_backup skip_backup dir'))))"

definition persist_index ::
    "(IndexHeader \<Rightarrow> u8 list) \<Rightarrow> fault_plan \<Rightarrow> BpannIndex \<Rightarrow> index_dir \<Rightarrow> (bpann_error + unit) \<times> index_dir" where
  "persist_index to_json plan ix dir =
     persist_index_files to_json plan (idx_header ix) (idx_pages ix) (idx_edges ix) dir"

section \<open>Opening\<close>

definition open_index :: "(u8 list \<Rightarrow> IndexHeader option) \<Rightarrow> index_dir \<Rightarrow> bpann_error + BpannIndex" where
  "open_index from_json dir =
     rbind (ok_or (dir HeaderJson) InvalidParameter) (\<lambda>text.
     rbind (ok_or (from_json text) InvalidParameter) (\<lambda>header.
     rbind (ok_or (dir PagesBin) InvalidParameter) (\<lambda>data.
     rbind (case read_pages_index data of Inl e \<Rightarrow> Inl InvalidParameter | Inr pages \<Rightarrow> Inr pages) (\<lambda>pages.
     Inr \<lparr>idx_header = header, idx_pages = pages, idx_edges = read_skip_edges (dir SkipBin),
          idx_map = build_page_map pages\<rparr>))))"

definition on_disk_index_matches :: "BpannIndex \<Rightarrow> index_dir \<Rightarrow> bpann_error + bool" where
  "on_disk_index_matches ix dir =
     rbind (ok_or (dir PagesBin) InvalidParameter) (\<lambda>on_disk_pages.
     if on_disk_pages \<noteq> write_pages_index (idx_pages ix) (hdr_dim (idx_header ix)) then Inr False
     else rbind (ok_or (dir SkipBin) InvalidParameter) (\<lambda>on_disk_skip.
       Inr (on_disk_skip = skip_edges_bytes (idx_edges ix))))"

definition on_disk_indexed_rows :: "(u8 list \<Rightarrow> IndexHeader option) \<Rightarrow> index_dir \<Rightarrow> bpann_error + nat" where
  "on_disk_indexed_rows from_json dir =
     (case dir HeaderJson of None \<Rightarrow> Inr 0
      | Some text \<Rightarrow> rbind (ok_or (from_json text) InvalidParameter) (\<lambda>header. Inr (hdr_rows header)))"

definition index_memory_bytes :: "index_dir \<Rightarrow> nat" where
  "index_memory_bytes dir =
     sum_list (map (\<lambda>f. case dir f of None \<Rightarrow> 0 | Some bytes \<Rightarrow> length bytes) [HeaderJson, PagesBin, SkipBin])"

section \<open>Skip edges round-trip\<close>

lemma read_tos_bytes: "read_tos (length tos) (concat (map u32_bytes tos) @ rest) = (tos, rest)"
  by (induction tos) simp_all

lemma read_edges_bytes:
  "distinct (map fst (out @ edges)) \<Longrightarrow> \<forall>(src, tos)\<in>set edges. length tos < 2 ^ 32 \<Longrightarrow>
    read_edges (length edges) (concat (map edge_bytes edges)) out = out @ edges"
proof (induction edges arbitrary: out)
  case Nil
  then show ?case by simp
next
  case (Cons e edges)
  obtain src tos where e: "e = (src, tos)" by (cases e)
  have fresh: "src \<notin> fst ` set out" using Cons.prems(1) by (auto simp: e)
  then have up: "AList.update src tos out = out @ [(src, tos)]"
    by (induction out) auto
  have bytes: "concat (map edge_bytes (e # edges)) = u32_bytes src @ u32_bytes (as_u32 (length tos))
      @ concat (map u32_bytes tos) @ concat (map edge_bytes edges)"
    by (simp add: e edge_bytes_def)
  have m: "unat (as_u32 (length tos)) = length tos" using Cons.prems(2) by (simp add: e unat_as_u32)
  show ?case
    using Cons.IH [of "out @ [(src, tos)]"] Cons.prems
    by (simp only: bytes length_Cons read_edges.simps) (simp add: m up read_tos_bytes e Let_def)
qed

lemma read_skip_edges_bytes:
  assumes "distinct (map fst edges)" "length edges < 2 ^ 32" "\<forall>(src, tos)\<in>set edges. length tos < 2 ^ 32"
  shows "read_skip_edges (Some (skip_edges_bytes edges)) = edges"
  using read_edges_bytes [of "[]" edges] assms
  by (simp add: read_skip_edges_def skip_edges_bytes_def unat_as_u32)

section \<open>A successful write is read back\<close>

definition writable :: "BpannIndex \<Rightarrow> bool" where
  "writable ix \<longleftrightarrow> hdr_dim (idx_header ix) < 2 ^ 32 \<and> length (idx_pages ix) < 2 ^ 32 \<and>
     (\<forall>p\<in>set (idx_pages ix). page_ok p \<and> length (serialize (hdr_dim (idx_header ix)) p) < 2 ^ 32) \<and>
     distinct (map fst (idx_edges ix)) \<and> length (idx_edges ix) < 2 ^ 32 \<and>
     (\<forall>(src, tos)\<in>set (idx_edges ix). length tos < 2 ^ 32)"

lemma and_then_Inr: "and_then m k = (Inr u, s) \<longleftrightarrow> (\<exists>s1. m = (Inr (), s1) \<and> k s1 = (Inr u, s))"
  by (cases m; cases "fst m") (auto simp: and_then_def)

lemma and_then_Inl: "and_then m k = (Inl e, s) \<longleftrightarrow> m = (Inl e, s) \<or> (\<exists>s1. m = (Inr (), s1) \<and> k s1 = (Inl e, s))"
  by (cases m; cases "fst m") (auto simp: and_then_def)

lemma write_file_Inr: "write_file x f bytes dir = (Inr u, dir') \<longleftrightarrow> x = Works \<and> dir' = dir(f \<mapsto> bytes)"
  by (cases x) (auto simp: write_file_def)

lemma rename_file_Inr:
  "rename_file x a b dir = (Inr u, dir') \<longleftrightarrow> x = Works \<and> (\<exists>bytes. dir a = Some bytes \<and> dir' = dir(b \<mapsto> bytes, a := None))"
  by (cases x; cases "dir a") (auto simp: rename_file_def)

lemma persist_body_Inr:
  assumes "persist_body to_json plan header pages edges dir = (Inr u, dir')"
  shows "dir' HeaderJson = Some (to_json header) \<and> dir' PagesBin = Some (write_pages_index pages (hdr_dim header)) \<and>
    dir' SkipBin = Some (skip_edges_bytes edges) \<and> dir' PagesTmp = None \<and> dir' SkipTmp = None"
  using assms by (auto simp: persist_body_def and_then_Inr write_file_Inr rename_file_Inr)

lemma persist_index_Inr:
  assumes "persist_index to_json plan ix dir = (Inr u, dir')"
  shows "\<exists>u. persist_body to_json plan (idx_header ix) (idx_pages ix) (idx_edges ix) dir = (Inr u, dir')"
  using assms by (auto simp: persist_index_def persist_index_files_def split: sum.splits prod.splits if_splits)

text \<open>C25: a persisted index is read back. When \<open>persist\<close> reports success (and the header's JSON
  reads back), the directory matches the index, and opening it gives the same header, the same
  pages up to their normal form, the same skip edges, a consistent page map, and no temporary
  file is left.\<close>

theorem persisted_index_reopens:
  assumes "persist_index to_json plan ix dir = (Inr u, dir')" "writable ix"
    and "from_json (to_json (idx_header ix)) = Some (idx_header ix)"
  shows "open_index from_json dir' = Inr \<lparr>idx_header = idx_header ix,
      idx_pages = map (page_norm (hdr_dim (idx_header ix))) (idx_pages ix), idx_edges = idx_edges ix,
      idx_map = build_page_map (map (page_norm (hdr_dim (idx_header ix))) (idx_pages ix))\<rparr> \<and>
    on_disk_index_matches ix dir' = Inr True \<and> on_disk_indexed_rows from_json dir' = Inr (hdr_rows (idx_header ix)) \<and>
    dir' PagesTmp = None \<and> dir' SkipTmp = None"
proof -
  obtain v where "persist_body to_json plan (idx_header ix) (idx_pages ix) (idx_edges ix) dir = (Inr v, dir')"
    using persist_index_Inr [OF assms(1)] by blast
  note written = persist_body_Inr [OF this]
  have "read_pages_index (write_pages_index (idx_pages ix) (hdr_dim (idx_header ix)))
      = Inr (map (page_norm (hdr_dim (idx_header ix))) (idx_pages ix))"
    using read_pages_write [of "hdr_dim (idx_header ix)" "idx_pages ix" "[]"] assms(2)
    by (simp add: writable_def read_pages_index_def write_pages_index_def read_exact_def unat_as_u32)
  moreover have "read_skip_edges (Some (skip_edges_bytes (idx_edges ix))) = idx_edges ix"
    using assms(2) by (intro read_skip_edges_bytes) (simp_all add: writable_def)
  ultimately show ?thesis
    using written assms(3) by (simp add: open_index_def on_disk_index_matches_def on_disk_indexed_rows_def)
qed

section \<open>A failed write\<close>

lemma write_file_Inl:
  "write_file x f bytes dir = (Inl e, dir') \<longleftrightarrow> e = IoError \<and> (x = Fails \<and> dir' = dir \<or> (\<exists>j. x = Tears j \<and> dir' = dir(f \<mapsto> j)))"
  by (cases x) (auto simp: write_file_def)

lemma rename_file_Inl: "rename_file x a b dir = (Inl e, dir') \<Longrightarrow> dir' = dir"
  by (cases x; cases "dir a") (auto simp: rename_file_def)

lemma persist_body_Inl:
  assumes "persist_body to_json plan header pages edges dir = (Inl e, dir')"
  shows "dir' HeaderJson = (case plan WriteHeader of Tears j \<Rightarrow>
      (if dir' HeaderJson = dir HeaderJson then dir HeaderJson else Some j) | _ \<Rightarrow> dir HeaderJson)"
  using assms
  by (auto simp: persist_body_def and_then_Inl and_then_Inr write_file_Inr write_file_Inl rename_file_Inr
      dest!: rename_file_Inl split: fault.splits)

text \<open>C26: a failed persist rolls back. When a write over an existing index fails at any step
  that leaves the header file as it was, and restoring the old files works, opening the
  directory afterwards gives exactly what it gave before.\<close>

theorem failed_persist_rolls_back:
  assumes "persist_index to_json plan ix dir = (Inl e, dir')"
    and "dir PagesBin \<noteq> None" "dir SkipBin \<noteq> None"
    and "plan RestorePages = Works" "plan RestoreSkip = Works" "plan WriteHeader \<in> {Works, Fails}"
  shows "dir' HeaderJson = dir HeaderJson \<and> dir' PagesBin = dir PagesBin \<and> dir' SkipBin = dir SkipBin \<and>
    open_index from_json dir' = open_index from_json dir"
proof -
  have "dir' HeaderJson = dir HeaderJson \<and> dir' PagesBin = dir PagesBin \<and> dir' SkipBin = dir SkipBin"
  proof (cases "dir' = dir")
    case False
    obtain pb sb where old: "dir PagesBin = Some pb" "dir SkipBin = Some sb" using assms(2,3) by auto
    obtain d where body: "persist_body to_json plan (idx_header ix) (idx_pages ix) (idx_edges ix) dir = (Inl e, d)"
      and undo: "dir' = rollback plan (Some pb) (Some sb) d"
      using assms(1) False old
      by (auto simp: persist_index_def persist_index_files_def read_backup_def split: sum.splits prod.splits if_splits)
    have "d HeaderJson = dir HeaderJson"
      using persist_body_Inl [OF body] assms(6) by (auto split: fault.splits)
    then show ?thesis
      using assms(4,5) old by (simp add: undo rollback_def restore_def write_file_def remove_file_def)
  qed simp
  then show ?thesis by (simp add: open_index_def)
qed

text \<open>A defect of \<open>persist\<close>. The header is not written through a temporary file and has no
  backup: when every step works but the last write fails half way, the old pages and skip
  edges are restored while the header keeps the torn bytes, and an index that could be opened
  before can no longer be.\<close>

theorem torn_header_loses_index:
  assumes "\<forall>s. s \<noteq> WriteHeader \<longrightarrow> plan s = Works" "plan WriteHeader = Tears junk" "from_json junk = None"
    and "dir PagesBin \<noteq> None" "dir SkipBin \<noteq> None"
  shows "\<exists>dir'. persist_index to_json plan ix dir = (Inl IoError, dir') \<and>
    dir' PagesBin = dir PagesBin \<and> dir' SkipBin = dir SkipBin \<and> dir' HeaderJson = Some junk \<and>
    open_index from_json dir' = Inl InvalidParameter"
  using assms
  by (auto simp: persist_index_def persist_index_files_def persist_body_def read_backup_def and_then_def
      write_file_def rename_file_def rollback_def restore_def remove_file_def open_index_def)

section \<open>Examples\<close>

definition sample_index :: BpannIndex where
  "sample_index = build_row_ids_leaf [4] [fzero] 1"

definition sample_to_json :: "IndexHeader \<Rightarrow> u8 list" where
  "sample_to_json h = [of_nat (hdr_rows h)]"

definition sample_from_json :: "u8 list \<Rightarrow> IndexHeader option" where
  "sample_from_json bs = (if bs = [] then None else Some (idx_header sample_index))"

definition sample_dir :: index_dir where
  "sample_dir = [HeaderJson \<mapsto> [1], PagesBin \<mapsto> write_pages_index (idx_pages sample_index) 1, SkipBin \<mapsto> skip_edges_bytes []]"

theorem persisted_index_reopens_witness:
  "\<exists>dir'. persist_index sample_to_json (\<lambda>_. Works) sample_index Map.empty = (Inr (), dir') \<and>
    open_index sample_from_json dir' = Inr sample_index"
proof -
  obtain dir' where run: "persist_index sample_to_json (\<lambda>_. Works) sample_index Map.empty = (Inr (), dir')"
    by (simp add: persist_index_def persist_index_files_def persist_body_def read_backup_def and_then_def
      write_file_def rename_file_def)
  have "writable sample_index"
    by (simp add: writable_def sample_index_def build_row_ids_leaf_def index_of_pages_def page_header_def vec_bytes_def)
  with persisted_index_reopens [OF run this, of sample_from_json] run show ?thesis
    by (simp add: sample_from_json_def sample_to_json_def)
      (simp add: sample_index_def build_row_ids_leaf_def index_of_pages_def fit_dim_def)
qed

theorem failed_persist_rolls_back_witness:
  "\<exists>dir'. persist_index sample_to_json (\<lambda>s. if s = RenameSkip then Fails else Works) sample_index sample_dir
      = (Inl IoError, dir') \<and> dir' PagesBin = sample_dir PagesBin \<and>
    open_index sample_from_json dir' = open_index sample_from_json sample_dir"
proof -
  obtain dir' where run: "persist_index sample_to_json (\<lambda>s. if s = RenameSkip then Fails else Works) sample_index sample_dir
      = (Inl IoError, dir')"
    by (simp add: persist_index_def persist_index_files_def persist_body_def read_backup_def and_then_def
      write_file_def rename_file_def sample_dir_def)
  from run failed_persist_rolls_back [OF run, of sample_from_json] show ?thesis by (simp add: sample_dir_def)
qed

theorem torn_header_loses_index_witness:
  "\<exists>dir'. persist_index sample_to_json (\<lambda>s. if s = WriteHeader then Tears [] else Works) sample_index sample_dir
      = (Inl IoError, dir') \<and> open_index sample_from_json dir' = Inl InvalidParameter"
  using torn_header_loses_index [of "\<lambda>s. if s = WriteHeader then Tears [] else Works" "[]" sample_from_json
      sample_dir sample_to_json sample_index]
  by (auto simp: sample_from_json_def sample_dir_def)

end
