(* ===== verification/BpannObservation.thy ===== *)
theory BpannObservation
  imports MmapStore
begin

text \<open>
  The observation files of a BPANN work directory (\<open>rust/crates/bpann/src/observation.rs\<close>):
  the limits on dimensions and row counts, the two eight-byte counters, the metadata line and
  its field parsers, the optional variance column and the gathered training rows. The files are
  a record of their contents; a write that the operating system may refuse takes a boolean.
\<close>

definition FORMAT_VERSION :: nat where "FORMAT_VERSION = 1"
definition MAX_NUM_DIM :: nat where "MAX_NUM_DIM = 100000"
definition MAX_RECORD_STRIDE :: nat where "MAX_RECORD_STRIDE = 8 * 1024 * 1024"
definition INDEX_BACKEND :: string where "INDEX_BACKEND = ''bpann_disk''"

record work_dir =
  num_obs_bin :: "u8 list option"
  indexed_rows_bin :: "u8 list option"
  metadata_json :: "string option"
  yvar_file :: "u8 list option"

definition bpann_validate_dim_limits :: "nat \<Rightarrow> bpann_error + unit" where
  "bpann_validate_dim_limits num_dim =
     rbind (ensure (num_dim \<le> MAX_NUM_DIM) InvalidParameter) (\<lambda>_.
     ensure (num_dim * 8 \<le> MAX_RECORD_STRIDE) InvalidParameter)"

definition bpann_check_append_row_limit :: "nat \<Rightarrow> bpann_error + unit" where
  "bpann_check_append_row_limit new_n = ensure (new_n < 2 ^ 32 - 1) InvalidParameter"

section \<open>Decimal text and the field parsers\<close>

definition digit_char :: "nat \<Rightarrow> char" where
  "digit_char d = char_of (48 + d)"

fun decimal :: "nat \<Rightarrow> string" where
  "decimal n = (if n < 10 then [digit_char n] else decimal (n div 10) @ [digit_char (n mod 10)])"

declare decimal.simps [simp del]

definition is_digit :: "char \<Rightarrow> bool" where
  "is_digit c \<longleftrightarrow> 48 \<le> (of_char c :: nat) \<and> (of_char c :: nat) \<le> 57"

definition parse_usize :: "string \<Rightarrow> nat option" where
  "parse_usize s =
     (if s = [] then None
      else let n = fold (\<lambda>c n. 10 * n + (of_char c - 48)) s 0
        in if n < 2 ^ 64 then Some n else None)"

fun split_once :: "string \<Rightarrow> string \<Rightarrow> (string \<times> string) option" where
  "split_once needle [] = (if needle = [] then Some ([], []) else None)"
| "split_once needle (c # cs) =
     (if take (length needle) (c # cs) = needle then Some ([], drop (length needle) (c # cs))
      else map_option (map_prod (Cons c) id) (split_once needle cs))"

definition is_space :: "char \<Rightarrow> bool" where
  "is_space c \<longleftrightarrow> (of_char c :: nat) \<in> {9, 10, 11, 12, 13, 32}"

definition quoted :: "string \<Rightarrow> string" where
  "quoted s = CHR 0x22 # s @ [CHR 0x22]"

definition parse_json_usize_field :: "string \<Rightarrow> string \<Rightarrow> nat option" where
  "parse_json_usize_field txt field =
     (case split_once (quoted field @ '':'') txt of None \<Rightarrow> None
      | Some (_, tail) \<Rightarrow> parse_usize (takeWhile is_digit (dropWhile is_space tail)))"

definition bpann_parse_json_string_field :: "string \<Rightarrow> string \<Rightarrow> string option" where
  "bpann_parse_json_string_field txt field =
     (case split_once (quoted field @ '':'' @ [CHR 0x22]) txt of None \<Rightarrow> None
      | Some (_, tail) \<Rightarrow> map_option fst (split_once [CHR 0x22] tail))"

definition bool_str :: "bool \<Rightarrow> string" where
  "bool_str b = (if b then ''true'' else ''false'')"

definition json_field :: "string \<Rightarrow> string \<Rightarrow> string" where
  "json_field name v = quoted name @ '':'' @ v"

definition metadata_text :: "nat \<Rightarrow> nat \<Rightarrow> nat \<Rightarrow> bool \<Rightarrow> nat \<Rightarrow> string" where
  "metadata_text num_obs num_dim num_metrics scale_x indexed_rows =
     ''{'' @ json_field ''format_version'' (decimal FORMAT_VERSION) @ '','' @
     json_field ''num_obs'' (decimal num_obs) @ '','' @
     json_field ''num_dim'' (decimal num_dim) @ '','' @
     json_field ''num_metrics'' (decimal num_metrics) @ '','' @
     json_field ''scale_x'' (bool_str scale_x) @ '','' @
     json_field ''index_backend'' (quoted INDEX_BACKEND) @ '','' @
     json_field ''indexed_rows'' (decimal indexed_rows) @ ''}''"

section \<open>The files\<close>

definition bpann_write_metadata ::
    "bool \<Rightarrow> nat \<Rightarrow> nat \<Rightarrow> nat \<Rightarrow> bool \<Rightarrow> nat \<Rightarrow> work_dir \<Rightarrow> bpann_error + work_dir" where
  "bpann_write_metadata os_ok num_obs num_dim num_metrics scale_x indexed_rows wd =
     rbind (ensure os_ok IoError) (\<lambda>_.
     Inr (wd\<lparr>metadata_json := Some (metadata_text num_obs num_dim num_metrics scale_x indexed_rows)\<rparr>))"

definition u64_file :: "nat \<Rightarrow> u8 list" where
  "u64_file n = u64_bytes (of_nat n)"

definition read_u64_file :: "u8 list option \<Rightarrow> nat option" where
  "read_u64_file file = (case file of None \<Rightarrow> None
     | Some bs \<Rightarrow> if length bs = 8 then Some (unat (u64_of_bytes bs)) else None)"

definition meta_field :: "work_dir \<Rightarrow> string \<Rightarrow> nat option" where
  "meta_field wd field = (case metadata_json wd of None \<Rightarrow> None | Some txt \<Rightarrow> parse_json_usize_field txt field)"

definition bpann_load_num_obs :: "work_dir \<Rightarrow> nat option" where
  "bpann_load_num_obs wd =
     (case (read_u64_file (num_obs_bin wd), meta_field wd ''num_obs'') of
        (Some sidecar, Some meta) \<Rightarrow> Some (max sidecar meta)
      | (Some sidecar, None) \<Rightarrow> Some sidecar
      | (None, Some meta) \<Rightarrow> Some meta
      | (None, None) \<Rightarrow> None)"

definition write_num_obs :: "bool \<Rightarrow> nat \<Rightarrow> work_dir \<Rightarrow> bpann_error + work_dir" where
  "write_num_obs os_ok n wd = rbind (ensure os_ok IoError) (\<lambda>_. Inr (wd\<lparr>num_obs_bin := Some (u64_file n)\<rparr>))"

definition counter_open :: "bool \<Rightarrow> work_dir \<Rightarrow> bpann_error + work_dir" where
  "counter_open os_ok wd =
     rbind (ensure os_ok IoError) (\<lambda>_.
     let bs = (case num_obs_bin wd of None \<Rightarrow> u64_file 0 | Some bs \<Rightarrow> bs)
     in Inr (wd\<lparr>num_obs_bin := Some (if length bs < 8 then set_len 8 bs else bs)\<rparr>))"

definition counter_set :: "nat \<Rightarrow> work_dir \<Rightarrow> work_dir" where
  "counter_set n wd = wd\<lparr>num_obs_bin := map_option (\<lambda>bs. u64_file n @ drop 8 bs) (num_obs_bin wd)\<rparr>"

definition write_indexed_rows :: "bool \<Rightarrow> nat \<Rightarrow> work_dir \<Rightarrow> bpann_error + work_dir" where
  "write_indexed_rows os_ok n wd =
     rbind (ensure os_ok IoError) (\<lambda>_. Inr (wd\<lparr>indexed_rows_bin := Some (u64_file n)\<rparr>))"

definition bpann_load_indexed_rows :: "work_dir \<Rightarrow> nat option" where
  "bpann_load_indexed_rows wd =
     (case read_u64_file (indexed_rows_bin wd) of Some n \<Rightarrow> Some n | None \<Rightarrow> meta_field wd ''indexed_rows'')"

definition bpann_load_index_backend :: "work_dir \<Rightarrow> string option" where
  "bpann_load_index_backend wd = (case metadata_json wd of None \<Rightarrow> None
     | Some txt \<Rightarrow> bpann_parse_json_string_field txt ''index_backend'')"

definition bpann_validate_index_backend :: "work_dir \<Rightarrow> string \<Rightarrow> bpann_error + unit" where
  "bpann_validate_index_backend wd expected =
     (case bpann_load_index_backend wd of None \<Rightarrow> Inr ()
      | Some b \<Rightarrow> ensure (b = expected) InvalidParameter)"

section \<open>The variance column\<close>

definition bpann_open_or_append_yvar ::
    "bool \<Rightarrow> work_dir \<Rightarrow> nat \<Rightarrow> (nat \<times> f64 list list) option \<Rightarrow> bpann_error + MmapColumnStore option" where
  "bpann_open_or_append_yvar os_ok wd num_metrics train_yvar =
     (case train_yvar of None \<Rightarrow> Inr None
      | Some yv \<Rightarrow>
          rbind (mmap_open_or_create os_ok (yvar_file wd) num_metrics (bpann_load_num_obs wd)) (\<lambda>store.
          if store_rows store = 0 then rbind (mmap_append os_ok yv store) (\<lambda>store. Inr (Some store))
          else Inr (Some store)))"

definition bpann_append_yvar_on_add ::
    "bool \<Rightarrow> work_dir \<Rightarrow> nat \<Rightarrow> MmapColumnStore option \<Rightarrow> (nat \<times> f64 list list) option
      \<Rightarrow> bpann_error + MmapColumnStore option" where
  "bpann_append_yvar_on_add os_ok wd num_metrics train_yvar yvar =
     (case (train_yvar, yvar) of
        (Some store, Some yv) \<Rightarrow> rbind (mmap_append os_ok yv store) (\<lambda>store. Inr (Some store))
      | (None, Some yv) \<Rightarrow>
          rbind (mmap_open_or_create os_ok (yvar_file wd) num_metrics (bpann_load_num_obs wd)) (\<lambda>store.
          rbind (mmap_append os_ok yv store) (\<lambda>store. Inr (Some store)))
      | _ \<Rightarrow> Inr train_yvar)"

definition bpann_train_rows_at ::
    "nat \<Rightarrow> MmapColumnStore \<Rightarrow> MmapColumnStore \<Rightarrow> MmapColumnStore option \<Rightarrow> nat list
      \<Rightarrow> bpann_error + (f64 list list \<times> f64 list list \<times> f64 list list option)" where
  "bpann_train_rows_at n train_x train_y train_yvar indices =
     rbind (ensure (\<forall>i\<in>set indices. i < n) InvalidParameter) (\<lambda>_.
     rbind (mmap_gather train_x indices) (\<lambda>x.
     rbind (mmap_gather train_y indices) (\<lambda>y.
     case train_yvar of None \<Rightarrow> Inr (x, y, None)
     | Some s \<Rightarrow> rbind (mmap_gather s indices) (\<lambda>v. Inr (x, y, Some v)))))"

section \<open>Decimal numbers read back\<close>

lemma of_char_digit [simp]: "d < 10 \<Longrightarrow> (of_char (digit_char d) :: nat) = 48 + d"
  by (simp add: digit_char_def)

lemma is_digit_digit [simp]: "d < 10 \<Longrightarrow> is_digit (digit_char d)"
  by (simp add: is_digit_def)

lemma decimal_digits: "list_all is_digit (decimal n)"
  by (induction n rule: decimal.induct) (subst decimal.simps, simp)

lemma decimal_not_Nil [simp]: "decimal n \<noteq> []"
  by (subst decimal.simps) simp

lemma decimal_value: "fold (\<lambda>c n. 10 * n + ((of_char c :: nat) - 48)) (decimal n) 0 = n"
proof (induction n rule: decimal.induct)
  case (1 n)
  then show ?case by (subst decimal.simps) simp
qed

lemma parse_decimal: "n < 2 ^ 64 \<Longrightarrow> parse_usize (decimal n) = Some n"
  by (simp add: parse_usize_def decimal_value)

lemma takeWhile_decimal: "\<not> is_digit c \<Longrightarrow> takeWhile is_digit (decimal n @ c # cs) = decimal n"
  using decimal_digits [of n] by (subst takeWhile_append2) (auto simp: list_all_iff)

lemma dropWhile_decimal: "dropWhile is_space (decimal n @ cs) = decimal n @ cs"
proof -
  have "is_digit (hd (decimal n))" using decimal_digits [of n] by (simp add: list_all_iff)
  then have "\<not> is_space (hd (decimal n))" by (auto simp: is_digit_def is_space_def)
  then show ?thesis by (cases "decimal n") simp_all
qed

text \<open>A needle that starts with a quote is not found inside digits.\<close>

lemma split_once_skip:
  assumes "\<forall>c\<in>set xs. c \<noteq> hd needle" "needle \<noteq> []"
  shows "split_once needle (xs @ ys) = map_option (map_prod ((@) xs) id) (split_once needle ys)"
  using assms
proof (induction xs)
  case (Cons x xs)
  then have "take (length needle) (x # xs @ ys) \<noteq> needle" by (cases needle) auto
  then show ?case using Cons by (simp add: option.map_comp prod.map_comp comp_def)
qed (simp add: map_prod_def id_def case_prod_beta option.map_ident)

lemma decimal_no_quote: "\<forall>c\<in>set (decimal n). c \<noteq> CHR 0x22"
  using decimal_digits [of n] by (force simp: list_all_iff is_digit_def)

lemma parse_number_field:
  assumes "\<exists>pre. split_once (quoted field @ '':'') txt = Some (pre, decimal n @ c # rest)" "\<not> is_digit c" "n < 2 ^ 64"
  shows "parse_json_usize_field txt field = Some n"
  using assms by (auto simp: parse_json_usize_field_def dropWhile_decimal takeWhile_decimal parse_decimal)

lemma split_once_decimal:
  "split_once (CHR 0x22 # needle) (decimal m @ ys) =
    map_option (map_prod ((@) (decimal m)) id) (split_once (CHR 0x22 # needle) ys)"
  using decimal_no_quote [of m] by (intro split_once_skip) auto

lemmas metadata_simps = metadata_text_def json_field_def quoted_def FORMAT_VERSION_def INDEX_BACKEND_def
  split_once_decimal decimal.simps [of 1] digit_char_def bool_str_def

text \<open>The metadata line gives back each number written into it, and the backend name.\<close>

lemma metadata_numbers:
  fixes n d k r :: nat
  assumes "n < 2 ^ 64" "d < 2 ^ 64" "k < 2 ^ 64" "r < 2 ^ 64"
  shows "parse_json_usize_field (metadata_text n d k sc r) ''num_obs'' = Some n"
    "parse_json_usize_field (metadata_text n d k sc r) ''num_dim'' = Some d"
    "parse_json_usize_field (metadata_text n d k sc r) ''num_metrics'' = Some k"
    "parse_json_usize_field (metadata_text n d k sc r) ''indexed_rows'' = Some r"
    apply (rule parse_number_field [where c = "CHR '',''"]; simp add: metadata_simps is_digit_def assms [simplified])
   apply (rule parse_number_field [where c = "CHR '',''"]; simp add: metadata_simps is_digit_def assms [simplified])
  apply (rule parse_number_field [where c = "CHR '',''"]; simp add: metadata_simps is_digit_def assms [simplified])
  by (rule parse_number_field [where c = "CHR ''}''"]; simp add: metadata_simps is_digit_def assms [simplified])

lemma metadata_backend: "bpann_parse_json_string_field (metadata_text n d k sc r) ''index_backend'' = Some INDEX_BACKEND"
  by (simp add: bpann_parse_json_string_field_def metadata_simps)

end
