(* ===== verification/BpannSync.thy ===== *)
theory BpannSync
  imports BpannSearch BpannPersist BpannObservation
begin

text \<open>
  The incremental index (\<open>rust/crates/bpann/src/index/sync.rs\<close>) and the forests it builds for
  large spans (\<open>sync_forest.rs\<close>): fragments over consecutive row spans, the running sum of
  pending rows, compaction of the smallest adjacent fragments, and the search over fragments.

  The random source, the order in which \<open>ndarray\<close> sums a column, the outcome of a file
  write and the fuel of the partition and of the descent are the fields of an environment.
  The compaction loop is a partial function: not returning is \<open>None\<close>, and so is a sync whose
  partition runs out of the fuel of the environment, however much that is.
\<close>

record 'r build_env =
  env_fuel :: nat
  env_range :: "nat \<Rightarrow> 'r \<Rightarrow> nat \<times> 'r"
  env_float :: "'r \<Rightarrow> f32 \<times> 'r"
  env_seed :: "u64 \<Rightarrow> 'r"
  env_tuning :: "BpannTuning option"
  env_col_sums :: "nat \<Rightarrow> f64 list list \<Rightarrow> f64 list"
  env_write_ok :: bool

record IndexBuildContext =
  ctx_store :: MmapColumnStore
  ctx_dim :: nat
  ctx_scale :: bool
  ctx_xscale :: "f64 list"
  ctx_metrics :: nat

definition lift_build :: "bpann_error + 'a \<Rightarrow> build_error + 'a" where
  "lift_build m = (case m of Inl e \<Rightarrow> Inl (BuildError e) | Inr x \<Rightarrow> Inr x)"

section \<open>Rows of the mapped store\<close>

definition mapped_vector :: "IndexBuildContext \<Rightarrow> nat \<Rightarrow> bpann_error + f32 list" where
  "mapped_vector ctx i = rbind (mmap_row_slice (ctx_store ctx) i) (\<lambda>raw.
     Inr (bpann_row_to_f32 raw (ctx_scale ctx) (ctx_xscale ctx)))"

definition first_row_centroid_from_mmap :: "IndexBuildContext \<Rightarrow> nat \<Rightarrow> bpann_error + f32 list" where
  "first_row_centroid_from_mmap ctx i = mapped_vector ctx i"

definition mean_centroid_f32 :: "f32 list list \<Rightarrow> f32 list" where
  "mean_centroid_f32 vs = mean_vector vs"

definition load_vectors_from_mmap :: "IndexBuildContext \<Rightarrow> nat \<Rightarrow> nat \<Rightarrow> bpann_error + f32 list list" where
  "load_vectors_from_mmap ctx start stop = map_res (mapped_vector ctx) [start..<stop]"

definition add_row_f64 :: "IndexBuildContext \<Rightarrow> f64 list \<Rightarrow> f64 list \<Rightarrow> bpann_error + f64 list" where
  "add_row_f64 ctx row acc =
     rbind (ensure (length row \<le> length acc \<and> (ctx_scale ctx \<longrightarrow> length row \<le> length (ctx_xscale ctx))) IndexPanic) (\<lambda>_.
     Inr (fold (\<lambda>(j, v) acc. acc[j := fadd (acc ! j) (if ctx_scale ctx then fdiv v (ctx_xscale ctx ! j) else v)])
            (enumerate 0 row) acc))"

definition centroid_from_mmap_rows :: "IndexBuildContext \<Rightarrow> nat \<Rightarrow> nat \<Rightarrow> bpann_error + f32 list" where
  "centroid_from_mmap_rows ctx start stop =
     (if stop - start = 0 then Inr []
      else rbind (fold_res (\<lambda>i acc. rbind (mmap_row_slice (ctx_store ctx) i) (\<lambda>row. add_row_f64 ctx row acc))
                   [start..<stop] (replicate (ctx_dim ctx) fzero)) (\<lambda>acc.
      Inr (map (\<lambda>s. f32_of_f64 (fdiv s (flit (stop - start) 1))) acc)))"

section \<open>Forests\<close>

function chunk_spans :: "nat \<Rightarrow> nat \<Rightarrow> nat \<Rightarrow> (nat \<times> nat) list" where
  "chunk_spans leaf_rows cur stop =
     (if cur < stop then
        let chunk_end = min (cur + max leaf_rows 1) stop
        in (cur, chunk_end) # chunk_spans leaf_rows chunk_end stop
      else [])"
  by pat_completeness auto
termination
  by (relation "measure (\<lambda>(_, cur, stop). stop - cur)") auto

declare chunk_spans.simps [simp del]

text \<open>Page ids count up from 1; the root is page 0, pushed last. \<open>xs\<close> is what a leaf is made
  from, one per span.\<close>

definition forest_pages ::
    "(u32 \<Rightarrow> nat \<times> nat \<Rightarrow> 'a \<Rightarrow> Page) \<Rightarrow> ('a \<Rightarrow> f32 list) \<Rightarrow> (nat \<times> nat) list \<Rightarrow> 'a list \<Rightarrow> Page list" where
  "forest_pages leaf centroid spans xs =
     (let ids = map (\<lambda>i. of_nat (Suc i)) [0..<length spans]
      in map (\<lambda>(pid, span, x). leaf pid span x) (zip ids (zip spans xs)) @ [Internal 0 (map centroid xs) ids])"

definition range_leaf :: "u32 \<Rightarrow> nat \<times> nat \<Rightarrow> f32 list \<Rightarrow> Page" where
  "range_leaf pid span c = empty_range_leaf pid (as_u32 (fst span)) (as_u32 (snd span)) c"

definition build_empty_leaf_forest_index ::
    "IndexBuildContext \<Rightarrow> nat \<Rightarrow> nat \<Rightarrow> nat \<Rightarrow> bpann_error + BpannIndex" where
  "build_empty_leaf_forest_index ctx start stop leaf_rows =
     (let spans = chunk_spans leaf_rows start stop in
      rbind (map_res (\<lambda>(cur, _). first_row_centroid_from_mmap ctx cur) spans) (\<lambda>cs.
      from_pages_unpersisted (ctx_dim ctx) (stop - start) (max leaf_rows 1) (forest_pages range_leaf id spans cs)))"

definition vector_leaf :: "u32 \<Rightarrow> nat \<times> nat \<Rightarrow> f32 list list \<Rightarrow> Page" where
  "vector_leaf pid span vs = Leaf pid (map as_u32 [fst span..<snd span]) None vs (Some (mean_centroid_f32 vs))"

definition build_vector_leaf_forest_index ::
    "IndexBuildContext \<Rightarrow> nat \<Rightarrow> nat \<Rightarrow> nat \<Rightarrow> bpann_error + BpannIndex" where
  "build_vector_leaf_forest_index ctx start stop leaf_rows =
     (let spans = chunk_spans leaf_rows start stop in
      rbind (map_res (\<lambda>(cur, chunk_end). load_vectors_from_mmap ctx cur chunk_end) spans) (\<lambda>vectors.
      from_pages_unpersisted (ctx_dim ctx) (stop - start) (max leaf_rows 1)
        (forest_pages vector_leaf mean_centroid_f32 spans vectors)))"

section \<open>The incremental index\<close>

definition INDEX_COMPACT_THRESHOLD_MIN :: nat where "INDEX_COMPACT_THRESHOLD_MIN = 3"
definition MID_BAND_SHALLOW_MAX :: nat where "MID_BAND_SHALLOW_MAX = 10000"
definition MID_BAND_LEAF_CAPACITY :: nat where "MID_BAND_LEAF_CAPACITY = 256"

definition clamp :: "nat \<Rightarrow> nat \<Rightarrow> nat \<Rightarrow> nat" where
  "clamp lo hi n = (if n < lo then lo else if n > hi then hi else n)"

definition index_compact_threshold :: "BpannTuning option \<Rightarrow> nat \<Rightarrow> nat" where
  "index_compact_threshold provider indexed_rows =
     (if indexed_rows \<le> 1000 then 1
      else let t = current_tuning provider
        in clamp INDEX_COMPACT_THRESHOLD_MIN (index_compact_fragment_max t)
             (indexed_rows div index_compact_rows_per_fragment t))"

definition search_fragment_budget :: "BpannTuning option \<Rightarrow> nat \<Rightarrow> nat \<Rightarrow> nat" where
  "search_fragment_budget provider fragment_count indexed_rows =
     (if fragment_count \<le> 2 then fragment_count
      else let t = current_tuning provider
        in min (min (max (indexed_rows div search_rows_per_fragment t) 2) fragment_count) (search_fragment_budget_max t))"

definition search_beam_width_of :: "BpannTuning option \<Rightarrow> nat \<Rightarrow> nat" where
  "search_beam_width_of provider indexed_rows = tuned_beam_width (current_tuning provider)"

record IncrementalIndex =
  inc_indices :: "BpannIndex list"
  inc_rows :: nat
  pending_centroid_sum :: "f64 list"
  pending_row_count :: nat

definition incremental_new :: IncrementalIndex where
  "incremental_new = \<lparr>inc_indices = [], inc_rows = 0, pending_centroid_sum = [], pending_row_count = 0\<rparr>"

definition note_pending_rows ::
    "'r build_env \<Rightarrow> nat \<times> f64 list list \<Rightarrow> bool \<Rightarrow> f64 list \<Rightarrow> IncrementalIndex \<Rightarrow> IncrementalIndex" where
  "note_pending_rows env = (\<lambda>(cols, rows) scale_x x_scale s.
     if rows = [] then s
     else
     let sum = (if length (pending_centroid_sum s) \<noteq> cols then replicate cols fzero else pending_centroid_sum s);
         added = fold (\<lambda>(j, c) sum. sum[j := fadd (sum ! j) (if scale_x then fdiv c (x_scale ! j) else c)])
                   (enumerate 0 (env_col_sums env cols rows)) sum
     in s\<lparr>pending_centroid_sum := added, pending_row_count := pending_row_count s + length rows\<rparr>)"

definition take_pending_centroid :: "nat \<Rightarrow> IncrementalIndex \<Rightarrow> f32 list option \<times> IncrementalIndex" where
  "take_pending_centroid num_dim s =
     (if pending_row_count s = 0 then (None, s)
      else if length (pending_centroid_sum s) \<noteq> num_dim then (None, s)
      else (Some (map (\<lambda>v. f32_of_f64 (fdiv v (flit (pending_row_count s) 1))) (pending_centroid_sum s)),
            s\<lparr>pending_centroid_sum := replicate (length (pending_centroid_sum s)) fzero, pending_row_count := 0\<rparr>))"

definition inc_reset :: "IncrementalIndex \<Rightarrow> IncrementalIndex" where
  "inc_reset s = s\<lparr>inc_indices := [], inc_rows := 0, pending_centroid_sum := [], pending_row_count := 0\<rparr>"

section \<open>Compaction\<close>

text \<open>The start of the cheapest run of \<open>merge_n\<close> adjacent fragments: runs of small fragments
  rank before the others, and the first of equal rank wins.\<close>

definition USIZE_MAX :: nat where "USIZE_MAX = 2 ^ 64 - 1"

definition fragment_rows :: "BpannIndex \<Rightarrow> nat" where
  "fragment_rows ix = hdr_rows (idx_header ix)"

definition run_rank :: "nat \<Rightarrow> BpannIndex list \<Rightarrow> nat" where
  "run_rank small_limit run =
     (let n = sum_list (map fragment_rows run);
          all_small = (\<forall>(a, b)\<in>set (zip run (tl run)). fragment_rows a \<le> small_limit \<and> fragment_rows b \<le> small_limit)
      in if all_small then n else n + USIZE_MAX div 2)"

definition best_run :: "nat \<Rightarrow> nat \<Rightarrow> BpannIndex list \<Rightarrow> nat" where
  "best_run small_limit merge_n indices =
     fst (fold (\<lambda>i (best_i, best_rows).
       let rank = run_rank small_limit (take merge_n (drop i indices))
       in if rank < best_rows then (i, rank) else (best_i, best_rows))
       [0..<Suc (length indices - merge_n)] (0, USIZE_MAX))"

definition amalgamate_smallest_run ::
    "BpannTuning option \<Rightarrow> nat \<Rightarrow> BpannIndex list \<Rightarrow> (bpann_error + unit) \<times> BpannIndex list" where
  "amalgamate_smallest_run provider merge_n indices =
     (if length indices < 2 then (Inr (), indices)
      else
      let merge_n = min merge_n (length indices);
          i = best_run (small_fragment_merge_rows (current_tuning provider)) merge_n indices;
          removed = take merge_n (drop i indices);
          left = take i indices @ drop (i + merge_n) indices
      in case concat_merge removed of
           Inl e \<Rightarrow> (Inl e, left)
         | Inr merged \<Rightarrow> (Inr (), take i indices @ merged # drop (i + merge_n) indices))"

partial_function (option) compact_loop ::
    "BpannTuning option \<Rightarrow> nat \<Rightarrow> BpannIndex list \<Rightarrow> ((bpann_error + unit) \<times> BpannIndex list) option" where
  "compact_loop provider max_fragments indices =
     (if length indices > max_fragments then
        let over = length indices - max_fragments;
            merge_n = min (clamp 2 4 over) (length indices)
        in case amalgamate_smallest_run provider merge_n indices of
             (Inl e, left) \<Rightarrow> Some (Inl e, left)
           | (Inr _, merged) \<Rightarrow> compact_loop provider max_fragments merged
      else Some (Inr (), indices))"

definition compact ::
    "BpannTuning option \<Rightarrow> IncrementalIndex \<Rightarrow> ((bpann_error + unit) \<times> IncrementalIndex) option" where
  "compact provider s =
     (if inc_rows s = 0 then Some (Inr (), s\<lparr>inc_indices := []\<rparr>)
      else map_option (\<lambda>(r, indices). (r, s\<lparr>inc_indices := indices\<rparr>))
             (compact_loop provider (index_compact_threshold provider (inc_rows s)) (inc_indices s)))"

definition maybe_compact ::
    "BpannTuning option \<Rightarrow> IncrementalIndex \<Rightarrow> ((bpann_error + unit) \<times> IncrementalIndex) option" where
  "maybe_compact provider s =
     (let max_fragments = index_compact_threshold provider (inc_rows s);
          compact_limit = max (saturating_mul max_fragments 2) (max_fragments + 1)
      in if length (inc_indices s) > compact_limit then compact provider s else Some (Inr (), s))"

section \<open>Synchronisation\<close>

definition push_fragment :: "BpannIndex \<Rightarrow> nat \<Rightarrow> IncrementalIndex \<Rightarrow> IncrementalIndex" where
  "push_fragment ix stop s = s\<lparr>inc_indices := inc_indices s @ [ix], inc_rows := stop\<rparr>"

definition pushed ::
    "build_error + BpannIndex \<Rightarrow> nat \<Rightarrow> IncrementalIndex \<Rightarrow> (build_error + unit) \<times> IncrementalIndex" where
  "pushed built stop s = (case built of Inl e \<Rightarrow> (Inl e, s) | Inr ix \<Rightarrow> (Inr (), push_fragment ix stop s))"

definition build_empty_leaf_forest ::
    "IndexBuildContext \<Rightarrow> nat \<Rightarrow> nat \<Rightarrow> nat \<Rightarrow> IncrementalIndex \<Rightarrow> (build_error + unit) \<times> IncrementalIndex" where
  "build_empty_leaf_forest ctx start stop leaf_rows s =
     (if start \<ge> stop then (Inr (), s)
      else pushed (lift_build (build_empty_leaf_forest_index ctx start stop leaf_rows)) stop s)"

definition build_vector_leaf_forest ::
    "IndexBuildContext \<Rightarrow> nat \<Rightarrow> nat \<Rightarrow> nat \<Rightarrow> IncrementalIndex \<Rightarrow> (build_error + unit) \<times> IncrementalIndex" where
  "build_vector_leaf_forest ctx start stop leaf_rows s =
     (if start \<ge> stop then (Inr (), s)
      else pushed (lift_build (build_vector_leaf_forest_index ctx start stop leaf_rows)) stop s)"

definition batch_index ::
    "'r build_env \<Rightarrow> IndexBuildContext \<Rightarrow> nat \<Rightarrow> nat \<Rightarrow> f32 list option \<Rightarrow> build_error + BpannIndex" where
  "batch_index env ctx start stop pending =
     (let tuning = current_tuning (env_tuning env);
          seed = (case build_seed tuning of Some v \<Rightarrow> v | None \<Rightarrow> of_nat start);
          row_ids = map as_u32 [start..<stop]
      in if stop - start \<le> structured_build_row_limit tuning
         then case pending of
             Some c \<Rightarrow> Inr (build_row_ids_leaf row_ids c (ctx_dim ctx))
           | None \<Rightarrow> (case centroid_from_mmap_rows ctx start stop of
               Inl e \<Rightarrow> Inl (BuildError IndexPanic)
             | Inr c \<Rightarrow> Inr (build_row_ids_leaf row_ids c (ctx_dim ctx)))
         else rbind (lift_build (load_vectors_from_mmap ctx start stop)) (\<lambda>vectors.
                build_from_rows (env_fuel env) (env_range env) (env_float env) (env_seed env) (env_tuning env)
                  row_ids vectors (ctx_dim ctx) DEFAULT_LEAF_CAPACITY seed))"

definition build_batch ::
    "'r build_env \<Rightarrow> IndexBuildContext \<Rightarrow> nat \<Rightarrow> nat \<Rightarrow> IncrementalIndex \<Rightarrow> (build_error + unit) \<times> IncrementalIndex" where
  "build_batch env ctx start stop s =
     (if start \<ge> stop then (Inr (), s)
      else case take_pending_centroid (ctx_dim ctx) s of (pending, s1) \<Rightarrow>
        pushed (batch_index env ctx start stop pending) stop s1)"

definition sync_span ::
    "'r build_env \<Rightarrow> IndexBuildContext \<Rightarrow> nat \<Rightarrow> IncrementalIndex \<Rightarrow> (build_error + unit) \<times> IncrementalIndex" where
  "sync_span env ctx stop s =
     (let limit = structured_build_row_limit (current_tuning (env_tuning env));
          pending = stop - inc_rows s;
          chunk_large_spans = pending > saturating_mul limit 2
      in if chunk_large_spans \<and> pending > MID_BAND_SHALLOW_MAX
         then build_empty_leaf_forest ctx (inc_rows s) stop limit (snd (take_pending_centroid (ctx_dim ctx) s))
         else if chunk_large_spans
         then build_vector_leaf_forest ctx (inc_rows s) stop MID_BAND_LEAF_CAPACITY (snd (take_pending_centroid (ctx_dim ctx) s))
         else build_batch env ctx (inc_rows s) stop s)"

text \<open>No result is a sync that does not return: the partition of its rows runs out of fuel.\<close>

definition ensure_sync ::
    "'r build_env \<Rightarrow> IndexBuildContext \<Rightarrow> nat \<Rightarrow> IncrementalIndex \<times> work_dir
      \<Rightarrow> ((build_error + unit) \<times> IncrementalIndex \<times> work_dir) option" where
  "ensure_sync env ctx stop = (\<lambda>(s, wd).
     if inc_rows s \<ge> stop then Some (Inr (), s, wd)
     else case sync_span env ctx stop s of
       (Inl e, s1) \<Rightarrow> if e = PartitionError OutOfFuel then None else Some (Inl e, s1, wd)
     | (Inr _, s1) \<Rightarrow>
         (case maybe_compact (env_tuning env) s1 of
            None \<Rightarrow> None
          | Some (Inl e, s2) \<Rightarrow> Some (Inl (BuildError e), s2, wd)
          | Some (Inr _, s2) \<Rightarrow>
              (case write_indexed_rows (env_write_ok env) (inc_rows s2) wd of
                 Inl e \<Rightarrow> Some (Inl (BuildError e), s2, wd)
               | Inr wd' \<Rightarrow> Some (Inr (), s2, wd'))))"

section \<open>The index on disk\<close>

definition needs_disk_rewrite ::
    "(u8 list \<Rightarrow> IndexHeader option) \<Rightarrow> index_dir \<Rightarrow> IncrementalIndex \<Rightarrow> bool \<Rightarrow> nat \<Rightarrow> bool" where
  "needs_disk_rewrite from_json dir s index_dirty nrows =
     (if length (inc_indices s) > 1 then True
      else if index_dirty then True
      else case on_disk_indexed_rows from_json dir of
        Inl _ \<Rightarrow> True
      | Inr on_disk \<Rightarrow>
          if on_disk \<noteq> nrows then True
          else case inc_indices s of
            ix # _ \<Rightarrow> (case on_disk_index_matches ix dir of Inl _ \<Rightarrow> True | Inr same \<Rightarrow> \<not> same)
          | [] \<Rightarrow> on_disk \<noteq> 0 \<or> nrows \<noteq> 0)"

definition persist_fragments ::
    "(IndexHeader \<Rightarrow> u8 list) \<Rightarrow> fault_plan \<Rightarrow> BpannIndex list \<Rightarrow> index_dir \<Rightarrow> (bpann_error + unit) \<times> index_dir" where
  "persist_fragments to_json plan indices dir =
     (if length indices > 1 then
        (case concat_merge indices of Inl e \<Rightarrow> (Inl e, dir) | Inr merged \<Rightarrow> persist_index to_json plan merged dir)
      else case indices of ix # _ \<Rightarrow> persist_index to_json plan ix dir | [] \<Rightarrow> (Inr (), dir))"

definition persist_to_disk ::
    "'r build_env \<Rightarrow> (IndexHeader \<Rightarrow> u8 list) \<Rightarrow> fault_plan \<Rightarrow> IndexBuildContext
      \<Rightarrow> IncrementalIndex \<times> work_dir \<times> index_dir
      \<Rightarrow> ((build_error + unit) \<times> IncrementalIndex \<times> work_dir \<times> index_dir) option" where
  "persist_to_disk env to_json plan ctx = (\<lambda>(s, wd, dir).
     map_option (\<lambda>(synced, s1, wd1).
       case synced of Inl e \<Rightarrow> (Inl e, s1, wd1, dir)
       | Inr _ \<Rightarrow>
           if inc_indices s1 = [] \<and> inc_rows s1 = 0 then (Inr (), s1, wd1, dir)
           else case persist_fragments to_json plan (inc_indices s1) dir of
             (Inl e, dir1) \<Rightarrow> (Inl (BuildError e), s1, wd1, dir1)
           | (Inr _, dir1) \<Rightarrow>
               (case rbind (bpann_write_metadata (env_write_ok env) (store_rows (ctx_store ctx)) (ctx_dim ctx)
                         (ctx_metrics ctx) (ctx_scale ctx) (inc_rows s1) wd1)
                       (write_indexed_rows (env_write_ok env) (inc_rows s1)) of
                  Inl e \<Rightarrow> (Inl (BuildError e), s1, wd1, dir1)
                | Inr wd2 \<Rightarrow> (Inr (), s1, wd2, dir1)))
       (ensure_sync env ctx (store_rows (ctx_store ctx)) (s, wd)))"

section \<open>Searching the fragments\<close>

definition search_index_candidates ::
    "nat \<Rightarrow> BpannTuning option \<Rightarrow> BpannIndex \<Rightarrow> f32 list \<Rightarrow> nat \<Rightarrow> MmapSearchStore option
      \<Rightarrow> search_error + (u32 \<times> f32) list" where
  "search_index_candidates fuel provider ix q k store =
     (let rows = hdr_rows (idx_header ix); t = current_tuning provider in
      if use_exhaustive_search t rows then lift_search (search_exhaustive_leaves ix q k store)
      else rbind (search_index fuel ix q k (search_beam_width_of provider rows) (use_skip_refinement_search t rows) [] store)
             (\<lambda>(found, _). Inr found))"

definition fragment_distance :: "f32 list \<Rightarrow> BpannIndex \<Rightarrow> f32" where
  "fragment_distance q ix =
     (let centroid = root_centroid ix in if centroid = [] then infinity else l2_sq_f32 q centroid)"

definition fragments_to_search :: "BpannTuning option \<Rightarrow> f32 list \<Rightarrow> IncrementalIndex \<Rightarrow> BpannIndex list" where
  "fragments_to_search provider q s =
     (let budget = search_fragment_budget provider (length (inc_indices s)) (inc_rows s)
      in if length (inc_indices s) \<le> budget then inc_indices s
         else map snd (take budget (sort_le (\<lambda>a b. partial_le (fst a) (fst b))
                (map (\<lambda>ix. (fragment_distance q ix, ix)) (inc_indices s)))))"

definition search_candidates ::
    "nat \<Rightarrow> BpannTuning option \<Rightarrow> IncrementalIndex \<Rightarrow> f32 list \<Rightarrow> nat \<Rightarrow> MmapSearchStore option
      \<Rightarrow> search_error + (u32 \<times> f32) list" where
  "search_candidates fuel provider s q k store =
     (let chosen = fragments_to_search provider q s;
          per_fragment_k = max (div_ceil (saturating_mul k (length (inc_indices s))) (max (length chosen) 1)) k
      in rbind (map_res (\<lambda>ix. search_index_candidates fuel provider ix q per_fragment_k store) chosen) (\<lambda>found.
         Inr (topk rank_le k (concat found))))"

end
