(* ===== verification/BpannCover.thy ===== *)
theory BpannCover
  imports BpannSync
begin

text \<open>
  Correctness of the incremental index of \<open>BpannSync\<close>: compaction ends and keeps the rows in
  order, every way of building a span yields a well-formed fragment over exactly that span, and
  therefore a soft sync covers every row below its end once.
\<close>

section \<open>Compaction terminates\<close>

lemma best_run_le: "best_run small_limit merge_n indices \<le> length indices - merge_n"
proof -
  have "fst (fold (\<lambda>i (best_i, best_rows).
       let rank = run_rank small_limit (take merge_n (drop i indices))
       in if rank < best_rows then (i, rank) else (best_i, best_rows)) is st) \<le> m"
    if "\<forall>i\<in>set is. i \<le> m" "fst st \<le> m" for "is" st m
    using that by (induction "is" arbitrary: st) (auto simp: Let_def split: prod.splits)
  then show ?thesis unfolding best_run_def by (metis (no_types, lifting) atLeastLessThan_iff fst_conv le_numeral_extra(3) less_Suc_eq_le set_upt zero_le)
qed

text \<open>One amalgamation merges a run of adjacent fragments in place.\<close>

lemma amalgamate_cases:
  assumes "2 \<le> merge_n" "merge_n \<le> length indices"
  obtains (merged) as run bs ix where "indices = as @ run @ bs" "length run = merge_n" "concat_merge run = Inr ix"
      "amalgamate_smallest_run provider merge_n indices = (Inr (), as @ ix # bs)"
    | (failed) e left where "amalgamate_smallest_run provider merge_n indices = (Inl e, left)"
proof -
  let ?i = "best_run (small_fragment_merge_rows (current_tuning provider)) merge_n indices"
  have i: "?i + merge_n \<le> length indices" using best_run_le [of _ merge_n indices] assms(2) by (metis add.commute le_diff_conv2)
  then have split: "indices = take ?i indices @ take merge_n (drop ?i indices) @ drop (?i + merge_n) indices"
    by (metis add.commute append_take_drop_id drop_drop)
  show thesis
  proof (cases "concat_merge (take merge_n (drop ?i indices))")
    case (Inl e)
    then show thesis using assms failed by (simp add: amalgamate_smallest_run_def Let_def)
  next
    case (Inr ix)
    moreover have "length (take merge_n (drop ?i indices)) = merge_n" using i by simp
    ultimately show thesis using assms merged [OF split, of ix] by (simp add: amalgamate_smallest_run_def Let_def)
  qed
qed

lemma compact_loop_step:
  assumes "1 \<le> max_fragments" "max_fragments < length indices"
  obtains (merged) as run bs ix where "indices = as @ run @ bs" "2 \<le> length run" "length run \<le> length indices - max_fragments + 1"
      "concat_merge run = Inr ix" "compact_loop provider max_fragments indices = compact_loop provider max_fragments (as @ ix # bs)"
    | (failed) e left where "compact_loop provider max_fragments indices = Some (Inl e, left)"
proof -
  let ?n = "min (clamp 2 4 (length indices - max_fragments)) (length indices)"
  have n: "2 \<le> ?n" "?n \<le> length indices" "?n \<le> length indices - max_fragments + 1"
    using assms by (auto simp: clamp_def)
  show thesis
  proof (rule amalgamate_cases [OF n(1,2), where provider = provider])
    fix as run bs ix
    assume "indices = as @ run @ bs" "length run = ?n" "concat_merge run = Inr ix"
      "amalgamate_smallest_run provider ?n indices = (Inr (), as @ ix # bs)"
    then show thesis using n assms(2) merged [of as run bs ix] compact_loop.simps [of provider max_fragments indices]
      by (simp add: Let_def)
  next
    fix e left
    assume "amalgamate_smallest_run provider ?n indices = (Inl e, left)"
    then show thesis using assms(2) failed compact_loop.simps [of provider max_fragments indices] by (simp add: Let_def)
  qed
qed

lemma compact_loop_returns:
  assumes "1 \<le> max_fragments"
  shows "\<exists>r left. compact_loop provider max_fragments indices = Some (r, left) \<and>
    (r = Inr () \<longrightarrow> length left \<le> max_fragments)"
proof (induction "length indices" arbitrary: indices rule: less_induct)
  case less
  show ?case
  proof (cases "max_fragments < length indices")
    case True
    show ?thesis
    proof (rule compact_loop_step [OF assms True, where provider = provider])
      fix as run bs ix
      assume "indices = as @ run @ bs" "2 \<le> length run"
        "compact_loop provider max_fragments indices = compact_loop provider max_fragments (as @ ix # bs)"
      then show ?thesis using less [of "as @ ix # bs"] by simp
    qed auto
  next
    case False
    then show ?thesis by (subst compact_loop.simps) simp
  qed
qed

lemma current_tuning_fields:
  "3 \<le> index_compact_fragment_max (current_tuning provider)"
  "0 < structured_build_row_limit (current_tuning provider)"
  using current_tuning_ok [of provider] by (simp_all add: tuning_ok_def)

lemma index_compact_threshold_pos: "1 \<le> index_compact_threshold provider n"
  using current_tuning_fields(1) [of provider]
  by (simp add: index_compact_threshold_def clamp_def INDEX_COMPACT_THRESHOLD_MIN_def Let_def)

lemma maybe_compact_returns: "\<exists>r s'. maybe_compact provider s = Some (r, s')"
  using compact_loop_returns [OF index_compact_threshold_pos [of provider "inc_rows s"], of provider "inc_indices s"]
  by (auto simp: maybe_compact_def compact_def Let_def)

lemma ensure_sync_None:
  assumes "inc_rows s < stop"
  shows "ensure_sync env ctx stop (s, wd) = None \<longleftrightarrow> fst (sync_span env ctx stop s) = Inl (PartitionError OutOfFuel)"
proof (cases "sync_span env ctx stop s")
  case (Pair r s1)
  then show ?thesis
    using assms maybe_compact_returns [of "env_tuning env" s1]
    by (cases r) (auto simp: ensure_sync_def split: sum.splits)
qed

text \<open>Only a span between one and two limits long is partitioned.\<close>

lemma sync_span_out_of_fuel:
  assumes "fst (sync_span env ctx stop s) = Inl (PartitionError OutOfFuel)"
  shows "structured_build_row_limit (current_tuning (env_tuning env)) < stop - inc_rows s \<and>
    stop - inc_rows s \<le> saturating_mul (structured_build_row_limit (current_tuning (env_tuning env))) 2"
  using assms
  by (auto simp: sync_span_def Let_def build_empty_leaf_forest_def build_vector_leaf_forest_def build_batch_def
      pushed_def batch_index_def lift_build_def case_prod_beta split: if_splits sum.splits option.splits)

text \<open>With more fuel than rows it is partitioned unless a run of k-means on some of its rows leaves them
  all in one cluster.\<close>

definition span_splits :: "'r build_env \<Rightarrow> IndexBuildContext \<Rightarrow> nat \<Rightarrow> nat \<Rightarrow> bool" where
  "span_splits env ctx start stop \<longleftrightarrow> (\<forall>vs. load_vectors_from_mmap ctx start stop = Inr vs \<longrightarrow>
     always_splits (env_range env) (env_float env) DEFAULT_LEAF_CAPACITY (zip (map as_u32 [start..<stop]) vs))"

lemma batch_index_enough:
  assumes "span_splits env ctx start stop" "stop - start < env_fuel env"
  shows "batch_index env ctx start stop pending \<noteq> Inl (PartitionError OutOfFuel)"
proof
  assume "batch_index env ctx start stop pending = Inl (PartitionError OutOfFuel)"
  then obtain vs seed where vs: "load_vectors_from_mmap ctx start stop = Inr vs"
    and none: "partition_build (env_fuel env) (env_range env) (env_float env) (env_seed env) (map as_u32 [start..<stop]) vs
      DEFAULT_LEAF_CAPACITY seed = Inl OutOfFuel"
    by (auto simp: batch_index_def Let_def lift_build_def rbind_def build_from_rows_def split: if_splits sum.splits option.splits prod.splits)
  then have "length (map as_u32 [start..<stop]) = length vs" using none by (auto simp: partition_build_def res_simps split: if_splits)
  then show False
    using partition_build_enough [of DEFAULT_LEAF_CAPACITY "map as_u32 [start..<stop]" vs "env_range env" "env_float env" "env_fuel env"
        "env_seed env" seed] assms vs none
    by (auto simp: span_splits_def DEFAULT_LEAF_CAPACITY_def)
qed

lemma sync_span_enough:
  assumes "fst (sync_span env ctx stop s) = Inl (PartitionError OutOfFuel)" "span_splits env ctx (inc_rows s) stop"
  shows "env_fuel env \<le> stop - inc_rows s"
proof (rule ccontr)
  assume "\<not> ?thesis"
  then have "batch_index env ctx (inc_rows s) stop pending \<noteq> Inl (PartitionError OutOfFuel)" for pending
    by (intro batch_index_enough assms(2)) simp
  then show False
    using assms(1)
    by (auto simp: sync_span_def Let_def build_empty_leaf_forest_def build_vector_leaf_forest_def build_batch_def
        pushed_def lift_build_def case_prod_beta split: if_splits sum.splits)
qed

text \<open>More fuel never changes a sync that returns.\<close>

lemma build_from_rows_more:
  assumes "build_from_rows fuel gr gf sf t rows vs dim cap seed \<noteq> Inl (PartitionError OutOfFuel)" "fuel \<le> fuel2"
  shows "build_from_rows fuel2 gr gf sf t rows vs dim cap seed = build_from_rows fuel gr gf sf t rows vs dim cap seed"
proof (cases "length rows \<le> cap")
  case False
  then have "partition_build fuel gr gf sf rows vs cap seed \<noteq> Inl OutOfFuel" using assms(1) by (auto simp: build_from_rows_def)
  then have "partition_build fuel2 gr gf sf rows vs cap seed = partition_build fuel gr gf sf rows vs cap seed"
    by (rule partition_build_more [OF _ assms(2)])
  then show ?thesis by (simp only: build_from_rows_def)
qed (simp add: build_from_rows_def)

lemma sync_span_more:
  assumes "fst (sync_span env ctx stop s) \<noteq> Inl (PartitionError OutOfFuel)" "env_fuel env \<le> fuel2"
  shows "sync_span (env\<lparr>env_fuel := fuel2\<rparr>) ctx stop s = sync_span env ctx stop s"
proof -
  have batch: "batch_index (env\<lparr>env_fuel := fuel2\<rparr>) ctx a b c = batch_index env ctx a b c"
    if "batch_index env ctx a b c \<noteq> Inl (PartitionError OutOfFuel)" for a b c
    using that assms(2) build_from_rows_more
    by (auto simp: batch_index_def Let_def lift_build_def split: sum.splits)
  have build: "build_batch (env\<lparr>env_fuel := fuel2\<rparr>) ctx a b s = build_batch env ctx a b s"
    if "fst (build_batch env ctx a b s) \<noteq> Inl (PartitionError OutOfFuel)" for a b
    using that batch [of a b "fst (take_pending_centroid (ctx_dim ctx) s)"]
    by (auto simp: build_batch_def pushed_def case_prod_beta split: if_splits sum.splits)
  show ?thesis using assms(1) build [of "inc_rows s" stop] by (auto simp: sync_span_def Let_def split: if_splits)
qed

lemma ensure_sync_more:
  assumes "ensure_sync env ctx stop (s, wd) \<noteq> None" "env_fuel env \<le> fuel2"
  shows "ensure_sync (env\<lparr>env_fuel := fuel2\<rparr>) ctx stop (s, wd) = ensure_sync env ctx stop (s, wd)"
proof (cases "inc_rows s < stop")
  case True
  have same: "sync_span (env\<lparr>env_fuel := fuel2\<rparr>) ctx stop s = sync_span env ctx stop s"
    using assms by (intro sync_span_more) (simp_all add: ensure_sync_None [OF True])
  obtain r s1 where "sync_span env ctx stop s = (r, s1)" by fastforce
  then show ?thesis using True same by (cases r) (simp_all add: ensure_sync_def split: option.split sum.split)
qed (simp add: ensure_sync_def)

section \<open>Merging keeps the rows of a run\<close>

definition index_rows :: "BpannIndex \<Rightarrow> u32 list" where
  "index_rows ix = concat (map page_row_ids (idx_pages ix))"

definition fragment_ok :: "BpannIndex \<Rightarrow> bool" where
  "fragment_ok ix \<longleftrightarrow> index_ok ix \<and> fragment_rows ix = length (index_rows ix)"

definition all_rows :: "BpannIndex list \<Rightarrow> u32 list" where
  "all_rows indices = concat (map index_rows indices)"

lemma pages_total_simps [simp]:
  "pages_total [] = 0" "pages_total (p # ps) = length (idx_pages p) + pages_total ps"
  "pages_total (ps @ qs) = pages_total ps + pages_total qs"
  by (simp_all add: pages_total_def)

lemma merge_parts_pages:
  "merge_parts parts st = Inr st' \<Longrightarrow> length (mg_pages st') = length (mg_pages st) + pages_total parts"
  by (induction parts arbitrary: st)
    (force simp: merge_part_def Let_def res_simps dest: map_res_length)+

lemma concat_merge_pages:
  assumes "concat_merge run = Inr ix" "2 \<le> length run"
  shows "length (idx_pages ix) = Suc (pages_total run)"
proof -
  obtain p q ps where run: "run = p # q # ps"
    using assms(2) by (metis One_nat_def Suc_1 Suc_le_length_iff)
  show ?thesis
    using assms(1) merge_parts_pages [of run merge_start] unfolding run
    by (auto simp: concat_merge_def res_simps Let_def merge_start_def simp del: merge_parts.simps)
qed

lemma merged_rows: "concat (map page_row_ids (merged_pages run n)) = all_rows run"
  by (induction run arbitrary: n) (simp_all add: all_rows_def index_rows_def comp_def)

lemma concat_merge_fragment:
  assumes "concat_merge run = Inr ix" "2 \<le> length run" "list_all fragment_ok run" "pages_total run < 2 ^ 32"
  shows "fragment_ok ix \<and> index_rows ix = all_rows run"
proof -
  have ok: "list_all index_ok run" using assms(3) by (auto simp: list_all_iff fragment_ok_def)
  obtain edges where ix: "ix = merged_index run edges"
    using concat_merge_merged [OF ok assms(2)] assms(1) by auto
  have "sum_list (map (\<lambda>p. hdr_rows (idx_header p)) run) = length (all_rows run)"
    using assms(3) by (induction run) (simp_all add: all_rows_def fragment_ok_def fragment_rows_def)
  then show ?thesis
    using merged_index_ok [OF ok assms(4), of edges] merged_rows [of run 1]
    by (simp add: ix fragment_ok_def fragment_rows_def index_rows_def merged_index_def Let_def comp_def)
qed

lemma compact_loop_keeps_rows:
  assumes "compact_loop provider max_fragments indices = Some (Inr (), left)" "1 \<le> max_fragments"
  shows "pages_total indices \<le> pages_total left \<and>
    (list_all fragment_ok indices \<and> pages_total left < 2 ^ 32 \<longrightarrow>
      list_all fragment_ok left \<and> all_rows left = all_rows indices)"
  using assms(1)
proof (induction "length indices" arbitrary: indices rule: less_induct)
  case less
  show ?case
  proof (cases "max_fragments < length indices")
    case True
    show ?thesis
    proof (rule compact_loop_step [OF assms(2) True, where provider = provider])
      fix as run bs ix
      assume s: "indices = as @ run @ bs" "2 \<le> length run" "concat_merge run = Inr ix"
        "compact_loop provider max_fragments indices = compact_loop provider max_fragments (as @ ix # bs)"
      have IH: "pages_total (as @ ix # bs) \<le> pages_total left \<and>
        (list_all fragment_ok (as @ ix # bs) \<and> pages_total left < 2 ^ 32 \<longrightarrow>
          list_all fragment_ok left \<and> all_rows left = all_rows (as @ ix # bs))"
        using s less(2) by (intro less(1)) simp_all
      note pages = concat_merge_pages [OF s(3,2)]
      then have le: "pages_total indices \<le> pages_total left" "pages_total run < pages_total left"
        using IH by (simp_all add: s(1))
      show ?thesis
      proof (intro conjI le impI)
        assume "list_all fragment_ok indices \<and> pages_total left < 2 ^ 32"
        then show "list_all fragment_ok left" "all_rows left = all_rows indices"
          using IH le(2) concat_merge_fragment [OF s(3,2)] by (auto simp: s(1) all_rows_def)
      qed
    qed (use less(2) in simp)
  next
    case False
    then show ?thesis using less(2) by (subst (asm) compact_loop.simps) simp
  qed
qed

section \<open>The fragment of a span\<close>

lemma chunk_spans_bounds: "(a, b) \<in> set (chunk_spans n cur stop) \<Longrightarrow> cur \<le> a \<and> a < b \<and> b \<le> stop"
proof (induction n cur stop rule: chunk_spans.induct)
  case (1 n cur stop)
  then show ?case by (subst (asm) chunk_spans.simps) (fastforce simp: Let_def split: if_splits)
qed

lemma chunk_spans_cover: "concat (map (\<lambda>(a, b). [a..<b]) (chunk_spans n cur stop)) = [cur..<stop]"
proof (induction n cur stop rule: chunk_spans.induct)
  case (1 n cur stop)
  show ?case
  proof (cases "cur < stop")
    case True
    let ?e = "min (cur + max n 1) stop"
    have "[cur..<?e] @ [?e..<stop] = [cur..<stop]"
      using True upt_add_eq_append [of cur ?e "stop - ?e"] by simp
    then show ?thesis using 1 True by (subst chunk_spans.simps) (simp add: Let_def)
  qed (subst chunk_spans.simps, simp)
qed

lemma chunk_spans_length: "length (chunk_spans n cur stop) \<le> stop - cur"
proof (induction n cur stop rule: chunk_spans.induct)
  case (1 n cur stop)
  then show ?case by (subst chunk_spans.simps) (force simp: Let_def)
qed

text \<open>What a forest needs of its leaves: the id it is given, no children, the rows of the span.\<close>

definition leaf_for_span :: "(u32 \<Rightarrow> nat \<times> nat \<Rightarrow> 'a \<Rightarrow> Page) \<Rightarrow> nat \<Rightarrow> bool" where
  "leaf_for_span leaf stop \<longleftrightarrow> (\<forall>pid a b x. a \<le> b \<and> b \<le> stop \<longrightarrow>
     page_id (leaf pid (a, b) x) = pid \<and> page_children (leaf pid (a, b) x) = [] \<and> page_balanced (leaf pid (a, b) x) \<and>
     is_leaf (leaf pid (a, b) x) \<and> page_row_ids (leaf pid (a, b) x) = map as_u32 [a..<b])"

lemma range_leaf_for_span: "stop < 2 ^ 32 \<Longrightarrow> leaf_for_span range_leaf stop"
  by (auto simp: leaf_for_span_def range_leaf_def empty_range_leaf_def unat_as_u32)

lemma vector_leaf_for_span: "leaf_for_span vector_leaf stop"
  by (auto simp: leaf_for_span_def vector_leaf_def)

lemma forest_leaf_rows:
  assumes "leaf_for_span leaf stop" "length xs = length spans" "length ids = length spans"
    "\<forall>(a, b)\<in>set spans. a \<le> b \<and> b \<le> stop"
  shows "concat (map page_row_ids (map (\<lambda>(pid, span, x). leaf pid span x) (zip ids (zip spans xs)))) =
      map as_u32 (concat (map (\<lambda>(a, b). [a..<b]) spans)) \<and>
    map page_id (map (\<lambda>(pid, span, x). leaf pid span x) (zip ids (zip spans xs))) = ids \<and>
    (\<forall>p\<in>set (map (\<lambda>(pid, span, x). leaf pid span x) (zip ids (zip spans xs))). page_children p = [] \<and> page_balanced p \<and> is_leaf p)"
  using assms(2-4)
proof (induction spans arbitrary: xs ids)
  case (Cons span spans)
  obtain x xs' pid ids' where xs: "xs = x # xs'" "ids = pid # ids'"
    using Cons.prems(1,2) by (cases xs; cases ids) auto
  then show ?case
    using Cons.IH [of xs' ids'] Cons.prems assms(1) by (cases span) (simp add: leaf_for_span_def)
qed simp

lemma forest_ids:
  assumes "n < 2 ^ 32"
  shows "distinct (map (\<lambda>i. of_nat (Suc i) :: u32) [0..<n])" "0 \<notin> set (map (\<lambda>i. of_nat (Suc i) :: u32) [0..<n])"
proof -
  have u: "unat (of_nat (Suc i) :: u32) = Suc i" if "i < n" for i
    using that assms unat_as_u32 [of "Suc i"] by (simp add: as_u32_def)
  show "distinct (map (\<lambda>i. of_nat (Suc i) :: u32) [0..<n])"
    unfolding distinct_map by (auto intro!: inj_onI dest: arg_cong [where f = unat] simp del: of_nat_Suc simp: u)
  show "0 \<notin> set (map (\<lambda>i. of_nat (Suc i) :: u32) [0..<n])"
    by (auto dest!: arg_cong [where f = unat] simp del: of_nat_Suc simp: u)
qed

lemma forest_fragment:
  assumes "leaf_for_span leaf stop" "length xs = length (chunk_spans n start stop)" "stop < 2 ^ 32"
    "from_pages_unpersisted dim (stop - start) cap (forest_pages leaf centroid (chunk_spans n start stop) xs) = Inr ix"
  shows "fragment_ok ix \<and> index_rows ix = map as_u32 [start..<stop]"
proof -
  let ?spans = "chunk_spans n start stop" and ?ids = "map (\<lambda>i. of_nat (Suc i) :: u32) [0..<length (chunk_spans n start stop)]"
  let ?leaves = "map (\<lambda>(pid, span, x). leaf pid span x) (zip ?ids (zip ?spans xs))"
  have leaves: "concat (map page_row_ids ?leaves) = map as_u32 [start..<stop]" "map page_id ?leaves = ?ids"
    "\<forall>p\<in>set ?leaves. page_children p = [] \<and> page_balanced p"
    using forest_leaf_rows [OF assms(1,2), of ?ids] chunk_spans_bounds chunk_spans_cover by fastforce+
  have len: "length ?spans < 2 ^ 32" using chunk_spans_length [of n start stop] assms(3) by linarith
  have ix: "ix = index_of_pages dim (stop - start) 0 (max cap 1) (?leaves @ [Internal 0 (map centroid xs) ?ids]) []"
    using assms(4) by (simp add: from_pages_unpersisted_def forest_pages_def Let_def)
  then have "index_rows ix = map as_u32 [start..<stop]"
    using leaves(1) by (simp add: index_rows_def index_of_pages_def)
  moreover have "index_ok ix"
    using forest_ids [OF len] leaves(2,3) assms(2)
    by (simp add: ix index_ok_def index_of_pages_def page_ids_def subset_insertI)
  ultimately show ?thesis by (simp add: fragment_ok_def fragment_rows_def ix index_of_pages_def)
qed

lemma from_pages_header:
  "from_pages_unpersisted dim rows cap pages = Inr ix \<Longrightarrow> ix = index_of_pages dim rows 0 (max cap 1) pages []"
  by (simp add: from_pages_unpersisted_def res_simps)

lemma row_ids_leaf_fragment:
  "fragment_ok (build_row_ids_leaf rows c dim) \<and> index_rows (build_row_ids_leaf rows c dim) = rows"
  by (simp add: fragment_ok_def fragment_rows_def index_rows_def build_row_ids_leaf_def index_of_pages_def index_ok_def page_ids_def)

lemma built_fragment:
  assumes "build_from_rows fuel gen_range gen_f32 seed_from provider rows vs dim cap seed = Inr ix"
    and "length (idx_pages ix) \<le> 2 ^ 32" "length rows = length vs"
  shows "fragment_ok ix \<and> mset (index_rows ix) = mset rows"
proof (cases "cap < length rows")
  case False
  then have "ix = build_single_leaf_from_rows rows vs dim" using assms(1) by (simp add: build_from_rows_def)
  then show ?thesis
    by (simp add: fragment_ok_def fragment_rows_def index_rows_def build_single_leaf_from_rows_def index_of_pages_def
        index_ok_def page_ids_def)
next
  case True
  obtain root where build: "partition_build fuel gen_range gen_f32 seed_from rows vs cap seed = Inr root"
    and tree: "tree_index root ix"
    using build_from_rows_tree [OF assms(1) True] by blast
  have root: "mset (node_entries root) = mset (zip rows vs)" "node_ok root"
    using build by (auto simp: partition_build_def res_simps dest: partition_recursive_rows)
  have "index_rows ix = map fst (node_entries root)"
    using tree partition_pages_rows(1) [of root 0] by (simp add: index_rows_def tree_index_def partition_to_pages_def)
  then have rows: "mset (index_rows ix) = mset rows"
    using root(1) assms(3) by (metis map_fst_zip mset_map)
  moreover have "fragment_rows ix = length rows"
    using assms(1) True by (auto simp: fragment_rows_def build_from_rows_def Let_def index_of_pages_def
        split: sum.splits prod.splits)
  ultimately show ?thesis
    using tree_index_ok [OF tree assms(2) root(2)] by (metis fragment_ok_def size_mset)
qed

definition span_built :: "BpannIndex \<Rightarrow> nat \<Rightarrow> nat \<Rightarrow> bool" where
  "span_built ix start stop \<longleftrightarrow> (length (idx_pages ix) \<le> 2 ^ 32 \<longrightarrow>
     fragment_ok ix \<and> mset (index_rows ix) = mset (map as_u32 [start..<stop]))"

lemma take_pending_indices [simp]:
  "inc_indices (snd (take_pending_centroid n s)) = inc_indices s" "inc_rows (snd (take_pending_centroid n s)) = inc_rows s"
  by (simp_all add: take_pending_centroid_def)

definition span_pushed :: "IncrementalIndex \<Rightarrow> nat \<Rightarrow> nat \<Rightarrow> IncrementalIndex \<Rightarrow> bool" where
  "span_pushed s start stop s' \<longleftrightarrow>
     (\<exists>ix. inc_indices s' = inc_indices s @ [ix] \<and> inc_rows s' = stop \<and> span_built ix start stop)"

lemma pushed_span:
  assumes "pushed built stop (snd (take_pending_centroid n s)) = (Inr (), s')" "\<And>ix. built = Inr ix \<Longrightarrow> span_built ix start stop"
  shows "span_pushed s start stop s'"
  using assms by (auto simp: pushed_def span_pushed_def push_fragment_def split: sum.splits)

lemma batch_span:
  assumes "batch_index env ctx start stop pending = Inr ix"
  shows "span_built ix start stop"
proof -
  have "length vs = length [start..<stop]" if "load_vectors_from_mmap ctx start stop = Inr vs" for vs
    using that by (auto simp: load_vectors_from_mmap_def dest: map_res_length)
  then show ?thesis
    using assms by (auto simp: batch_index_def Let_def span_built_def row_ids_leaf_fragment lift_build_def res_simps
        simp del: mset_map dest: built_fragment split: sum.splits if_splits option.splits)
qed

lemma empty_forest_span:
  assumes "build_empty_leaf_forest_index ctx start stop n = Inr ix" "stop < 2 ^ 32"
  shows "span_built ix start stop"
proof -
  obtain cs where "length cs = length (chunk_spans n start stop)" "from_pages_unpersisted (ctx_dim ctx) (stop - start)
      (max n 1) (forest_pages range_leaf id (chunk_spans n start stop) cs) = Inr ix"
    using assms(1) by (auto simp: build_empty_leaf_forest_index_def Let_def res_simps dest: map_res_length)
  then show ?thesis
    using forest_fragment [OF range_leaf_for_span [OF assms(2)] _ assms(2)] by (simp add: span_built_def)
qed

lemma vector_forest_span:
  assumes "build_vector_leaf_forest_index ctx start stop n = Inr ix" "stop < 2 ^ 32"
  shows "span_built ix start stop"
proof -
  obtain vs where "length vs = length (chunk_spans n start stop)" "from_pages_unpersisted (ctx_dim ctx) (stop - start)
      (max n 1) (forest_pages vector_leaf mean_centroid_f32 (chunk_spans n start stop) vs) = Inr ix"
    using assms(1) by (auto simp: build_vector_leaf_forest_index_def Let_def res_simps dest: map_res_length)
  then show ?thesis
    using forest_fragment [OF vector_leaf_for_span _ assms(2)] by (simp add: span_built_def)
qed

lemma lift_build_Inr: "lift_build m = Inr x \<longleftrightarrow> m = Inr x"
  by (simp add: lift_build_def split: sum.split)

lemma sync_span_built:
  assumes "sync_span env ctx stop s = (Inr (), s')" "inc_rows s < stop" "stop < 2 ^ 32"
  shows "span_pushed s (inc_rows s) stop s'"
  using assms
  by (auto simp: sync_span_def Let_def build_empty_leaf_forest_def build_vector_leaf_forest_def build_batch_def
      lift_build_Inr case_prod_beta split: if_splits
      dest: empty_forest_span [OF _ assms(3)] vector_forest_span [OF _ assms(3)] batch_span elim!: pushed_span)

section \<open>Synchronisation covers the rows\<close>

definition inc_ok :: "IncrementalIndex \<Rightarrow> bool" where
  "inc_ok s \<longleftrightarrow> list_all fragment_ok (inc_indices s) \<and>
     mset (all_rows (inc_indices s)) = mset (map as_u32 [0..<inc_rows s])"

lemma maybe_compact_keeps:
  assumes "maybe_compact provider s = Some (Inr (), s')" "inc_rows s \<noteq> 0"
  shows "pages_total (inc_indices s) \<le> pages_total (inc_indices s') \<and> inc_rows s' = inc_rows s \<and>
    length (inc_indices s') \<le> 2 * index_compact_threshold provider (inc_rows s) \<and>
    (list_all fragment_ok (inc_indices s) \<and> pages_total (inc_indices s') < 2 ^ 32 \<longrightarrow>
      list_all fragment_ok (inc_indices s') \<and> all_rows (inc_indices s') = all_rows (inc_indices s))"
proof -
  note pos = index_compact_threshold_pos [of provider "inc_rows s"]
  show ?thesis
    using assms compact_loop_keeps_rows [OF _ pos] compact_loop_returns [OF pos, of provider "inc_indices s"] pos
    by (fastforce simp: maybe_compact_def compact_def Let_def saturating_mul_def split: if_splits)
qed

lemma read_u64_file: "n < 2 ^ 64 \<Longrightarrow> read_u64_file (Some (u64_file n)) = Some n"
  by (simp add: read_u64_file_def u64_file_def unsigned_of_nat take_bit_nat_eq_self)

lemma ensure_sync_cases:
  assumes "ensure_sync env ctx stop (s, wd) = Some (Inr (), s', wd')" "inc_rows s < stop"
  obtains s1 where "sync_span env ctx stop s = (Inr (), s1)" "maybe_compact (env_tuning env) s1 = Some (Inr (), s')"
    "write_indexed_rows (env_write_ok env) (inc_rows s') wd = Inr wd'"
  using assms by (auto simp: ensure_sync_def split: prod.splits sum.splits option.splits if_splits)

text \<open>C28: a soft sync covers the rows, and only the partition can keep it from returning. Whatever
  the tuning, the pending rows and the draws, its compaction loop ends: it returns unless the partition
  of its rows runs out of fuel, which takes a span longer than the limit of structured builds and
  not longer than twice that and, with more fuel than there are rows in it, a k-means run on some of
  them that leaves them all in one cluster; and more fuel never changes what it returns. When it reports success
  from a sound index, all pages being fewer than \<open>2 ^ 32\<close>, the index is sound again: its fragments are
  well-formed, hold every row below the end exactly once and count their rows, there are at
  most twice as many fragments as the compaction threshold, and the side file tells the end.\<close>

theorem ensure_sync_covers:
  assumes "inc_ok s" "inc_rows s < stop" "stop < 2 ^ 32"
  shows "(ensure_sync env ctx stop (s, wd) = None \<longrightarrow> fst (sync_span env ctx stop s) = Inl (PartitionError OutOfFuel) \<and>
      structured_build_row_limit (current_tuning (env_tuning env)) < stop - inc_rows s \<and>
      stop - inc_rows s \<le> saturating_mul (structured_build_row_limit (current_tuning (env_tuning env))) 2 \<and>
      (span_splits env ctx (inc_rows s) stop \<longrightarrow> env_fuel env \<le> stop - inc_rows s)) \<and>
    (\<forall>r s' wd'. ensure_sync env ctx stop (s, wd) = Some (r, s', wd') \<longrightarrow>
      (\<forall>fuel2\<ge>env_fuel env. ensure_sync (env\<lparr>env_fuel := fuel2\<rparr>) ctx stop (s, wd) = Some (r, s', wd')) \<and>
      (r = Inr () \<and> pages_total (inc_indices s') < 2 ^ 32 \<longrightarrow> inc_ok s' \<and> inc_rows s' = stop \<and>
        length (inc_indices s') \<le> 2 * index_compact_threshold (env_tuning env) stop \<and>
        bpann_load_indexed_rows wd' = Some stop))"
proof -
  have "inc_ok s' \<and> inc_rows s' = stop \<and> length (inc_indices s') \<le> 2 * index_compact_threshold (env_tuning env) stop \<and>
      bpann_load_indexed_rows wd' = Some stop"
    if ret: "ensure_sync env ctx stop (s, wd) = Some (r, s', wd')" and r: "r = Inr ()" and pages: "pages_total (inc_indices s') < 2 ^ 32"
    for r s' wd'
  proof (rule ensure_sync_cases [OF ret [unfolded r] assms(2)])
    fix s1
    assume s1: "sync_span env ctx stop s = (Inr (), s1)" "maybe_compact (env_tuning env) s1 = Some (Inr (), s')"
      and wr: "write_indexed_rows (env_write_ok env) (inc_rows s') wd = Inr wd'"
    obtain ix where ix: "inc_indices s1 = inc_indices s @ [ix]" "inc_rows s1 = stop" "span_built ix (inc_rows s) stop"
      using sync_span_built [OF s1(1) assms(2,3)] by (auto simp: span_pushed_def)
    note kept = maybe_compact_keeps [OF s1(2)]
    have "stop \<noteq> 0" using assms(2) by simp
    then have le: "pages_total (inc_indices s1) \<le> pages_total (inc_indices s')" "inc_rows s' = stop" using kept ix(2) by simp_all
    then have "length (idx_pages ix) \<le> 2 ^ 32" using pages ix(1) by simp
    then have ix_ok: "fragment_ok ix" "mset (index_rows ix) = mset (map as_u32 [inc_rows s..<stop])"
      using ix(3) by (simp_all add: span_built_def)
    have "[0..<stop] = [0..<inc_rows s] @ [inc_rows s..<stop]"
      using upt_add_eq_append [of 0 "inc_rows s" "stop - inc_rows s"] assms(2) by simp
    then have rows: "mset (all_rows (inc_indices s1)) = mset (map as_u32 [0..<stop])"
      using assms(1) ix(1) ix_ok(2) by (simp only: all_rows_def inc_ok_def map_append concat_append mset_append list.map concat.simps append_Nil2)
    have "list_all fragment_ok (inc_indices s1)" using assms(1) ix(1) ix_ok(1) by (simp add: inc_ok_def)
    then have "list_all fragment_ok (inc_indices s') \<and> all_rows (inc_indices s') = all_rows (inc_indices s1)"
      using kept ix(2) \<open>stop \<noteq> 0\<close> pages by simp
    moreover have "bpann_load_indexed_rows wd' = Some stop"
      using wr assms(3) read_u64_file [of stop] le(2)
      by (auto simp: write_indexed_rows_def res_simps bpann_load_indexed_rows_def)
    ultimately show ?thesis
      using rows kept ix(2) \<open>stop \<noteq> 0\<close> le(2) by (simp add: inc_ok_def)
  qed
  moreover have "ensure_sync (env\<lparr>env_fuel := fuel2\<rparr>) ctx stop (s, wd) = Some (r, s', wd')"
    if "ensure_sync env ctx stop (s, wd) = Some (r, s', wd')" "env_fuel env \<le> fuel2" for r s' wd' fuel2
    using that ensure_sync_more [of env ctx stop s wd fuel2] by simp
  ultimately show ?thesis
    using sync_span_out_of_fuel [of env ctx stop s] sync_span_enough [of env ctx stop s] by (intro conjI allI impI) (simp_all only: ensure_sync_None [OF assms(2)])
qed

text \<open>A consequence of the partition of identical rows: a span of that length whose rows all have one
  vector is never synchronised, however much fuel there is.\<close>

lemma identical_rows_never_sync:
  assumes "load_vectors_from_mmap ctx (inc_rows s) stop = Inr (replicate (stop - inc_rows s) p)"
    and "DEFAULT_LEAF_CAPACITY < stop - inc_rows s"
    and "structured_build_row_limit (current_tuning (env_tuning env)) < stop - inc_rows s"
    and "stop - inc_rows s \<le> saturating_mul (structured_build_row_limit (current_tuning (env_tuning env))) 2"
  shows "ensure_sync env ctx stop (s, wd) = None"
proof -
  have partition: "partition_build (env_fuel env) (env_range env) (env_float env) (env_seed env) (map as_u32 [inc_rows s..<stop])
      (replicate (stop - inc_rows s) p) DEFAULT_LEAF_CAPACITY seed = Inl OutOfFuel" for seed
    by (rule partition_build_identical) (use assms(2) in \<open>simp_all add: DEFAULT_LEAF_CAPACITY_def\<close>)
  have "fst (sync_span env ctx stop s) = Inl (PartitionError OutOfFuel)"
    using assms partition
    by (simp add: sync_span_def Let_def build_batch_def batch_index_def pushed_def lift_build_def build_from_rows_def case_prod_beta
        split: option.split)
  moreover have "inc_rows s < stop" using assms(2) by simp
  ultimately show ?thesis by (simp add: ensure_sync_None)
qed

definition test_env :: "unit build_env" where
  "test_env = \<lparr>env_fuel = 2, env_range = test_range1, env_float = test_float, env_seed = (\<lambda>_. ()), env_tuning = None,
     env_col_sums = (\<lambda>n rows. replicate n fzero), env_write_ok = True\<rparr>"

definition test_ctx :: IndexBuildContext where
  "test_ctx = \<lparr>ctx_store = test_store, ctx_dim = 1, ctx_scale = False, ctx_xscale = [], ctx_metrics = 1\<rparr>"

definition test_dir :: work_dir where
  "test_dir = \<lparr>num_obs_bin = None, indexed_rows_bin = None, metadata_json = None, yvar_file = None\<rparr>"

text \<open>Three noted rows are indexed by one sync.\<close>

definition test_pending :: IncrementalIndex where
  "test_pending = note_pending_rows test_env (1, [[fzero], [fzero], [fzero]]) False [] incremental_new"

lemma default_limits:
  "structured_build_row_limit (current_tuning None) = 1024" "build_seed (current_tuning None) = None"
proof -
  have "current_tuning None = default_tuning" by (simp add: current_tuning_def Let_def split: sum.split)
  then show "structured_build_row_limit (current_tuning None) = 1024" "build_seed (current_tuning None) = None"
    by (simp_all add: default_tuning_def tuning_constants)
qed

lemma test_pending_fields:
  "inc_indices test_pending = []" "inc_rows test_pending = 0" "pending_row_count test_pending = 3"
  "length (pending_centroid_sum test_pending) = 1"
  by (simp_all add: test_pending_def note_pending_rows_def incremental_new_def test_env_def Let_def enumerate_eq_zip)

theorem ensure_sync_covers_witness:
  "\<exists>s' wd'. ensure_sync test_env test_ctx 3 (test_pending, test_dir) = Some (Inr (), s', wd') \<and>
    inc_ok s' \<and> inc_rows s' = 3 \<and> bpann_load_indexed_rows wd' = Some 3"
proof -
  have ok: "inc_ok test_pending" by (simp add: inc_ok_def test_pending_fields all_rows_def)
  obtain s1 ix where "sync_span test_env test_ctx 3 test_pending = (Inr (), s1)" "inc_rows s1 = 3"
      "inc_indices s1 = [ix]" "length (idx_pages ix) = 1"
    by (simp add: sync_span_def Let_def test_env_def test_ctx_def default_limits saturating_mul_def usize_bound_def MID_BAND_SHALLOW_MAX_def build_batch_def
        take_pending_centroid_def test_pending_fields batch_index_def pushed_def push_fragment_def
        build_row_ids_leaf_def index_of_pages_def)
  then have "ensure_sync test_env test_ctx 3 (test_pending, test_dir) =
      Some (Inr (), s1, test_dir\<lparr>indexed_rows_bin := Some (u64_file 3)\<rparr>)" "pages_total (inc_indices s1) = 1"
    by (simp_all add: ensure_sync_def test_pending_fields maybe_compact_def Let_def index_compact_threshold_def
        saturating_mul_def usize_bound_def write_indexed_rows_def test_env_def)
  then show ?thesis
    using ensure_sync_covers [OF ok, of 3 test_env test_ctx test_dir] by (simp add: test_pending_fields)
qed

end
