(* ===== verification/BpannBackend.thy ===== *)
theory BpannBackend
  imports BpannCover
begin

text \<open>
  The BPANN backend (\<open>rust/crates/bpann/src/backend.rs\<close>) with its two searches
  (\<open>small_n_search.rs\<close>, \<open>large_n_search.rs\<close>): opening a work directory, appending
  rows with the pending counters and flush thresholds, soft and hard syncs, rescaling, and the
  query that scores every row below 8192 rows and fragments plus pending rows above.

  Operations return a result and the backend they leave behind, also on errors; those that sync
  are partial because the compaction loop is. Each call into the operating system that may fail
  is a value of \<open>os_call\<close>.
\<close>

datatype os_call = OpenFiles | GrowX | GrowY | GrowYvar | ReleasePages | WriteMetadata

record BpannBackend =
  work_files :: work_dir
  train_x :: MmapColumnStore
  train_y :: MmapColumnStore
  train_yvar :: "MmapColumnStore option"
  num_dim :: nat
  num_metrics :: nat
  scaled :: bool
  x_scale :: "f64 list"
  inc_index :: IncrementalIndex
  index_files :: index_dir
  pending_flush_threshold :: nat
  pending_hard_flush_threshold :: nat
  defer_append_indexing :: bool
  pending_unindexed :: nat
  index_dirty :: bool
  small_n_x_cache :: "(nat \<times> f32 list) option"

definition backend_len :: "BpannBackend \<Rightarrow> nat" where
  "backend_len b = store_rows (train_x b)"

definition backend_ctx :: "BpannBackend \<Rightarrow> IndexBuildContext" where
  "backend_ctx b = \<lparr>ctx_store = train_x b, ctx_dim = num_dim b, ctx_scale = scaled b, ctx_xscale = x_scale b,
     ctx_metrics = num_metrics b\<rparr>"

definition open_rejects_num_dim :: "nat \<Rightarrow> bpann_error + unit" where
  "open_rejects_num_dim n = bpann_validate_dim_limits n"

definition open_rejects_record_stride :: "nat \<Rightarrow> bpann_error + unit" where
  "open_rejects_record_stride n =
     rbind (ensure (n * 8 \<le> MAX_RECORD_STRIDE) InvalidParameter) (\<lambda>_. ensure (n \<le> MAX_NUM_DIM) InvalidParameter)"

section \<open>Opening\<close>

text \<open>The observation stores of a work directory: opened at the recorded row count, filled with
  the first rows when both are given and the store is empty, grown ahead when still empty.\<close>

definition open_stores ::
    "(os_call \<Rightarrow> bool) \<Rightarrow> u8 list option \<Rightarrow> u8 list option \<Rightarrow> nat option \<Rightarrow> nat \<times> f64 list list \<Rightarrow> nat \<times> f64 list list
      \<Rightarrow> bpann_error + (MmapColumnStore \<times> MmapColumnStore)" where
  "open_stores os x_file y_file known = (\<lambda>(dim, xs) (metrics, ys).
     rbind (mmap_open_or_create (os OpenFiles) x_file dim known) (\<lambda>sx.
     rbind (mmap_open_or_create (os OpenFiles) y_file metrics known) (\<lambda>sy.
     rbind (if store_rows sx = 0 \<and> xs \<noteq> []
            then rbind (mmap_append (os GrowX) (dim, xs) sx) (\<lambda>sx.
                 rbind (mmap_append (os GrowY) (metrics, ys) sy) (\<lambda>sy. Inr (sx, sy)))
            else Inr (sx, sy)) (\<lambda>(sx, sy).
     if store_rows sx = 0
     then rbind (ensure_capacity (os GrowX) MMAP_GROW_ROWS sx) (\<lambda>sx.
          rbind (ensure_capacity (os GrowY) MMAP_GROW_ROWS sy) (\<lambda>sy. Inr (pretouch sx, pretouch sy)))
     else Inr (sx, sy)))))"

definition open_indices ::
    "(u8 list \<Rightarrow> IndexHeader option) \<Rightarrow> index_dir \<Rightarrow> nat \<Rightarrow> bpann_error + BpannIndex list" where
  "open_indices from_json dir indexed_rows =
     (if dir HeaderJson \<noteq> None \<and> indexed_rows > 0 then rbind (open_index from_json dir) (\<lambda>ix. Inr [ix]) else Inr [])"

definition opened ::
    "(os_call \<Rightarrow> bool) \<Rightarrow> (u8 list \<Rightarrow> IndexHeader option) \<Rightarrow> work_dir \<times> index_dir \<Rightarrow> u8 list option \<times> u8 list option
      \<Rightarrow> nat \<times> f64 list list \<Rightarrow> nat \<times> f64 list list \<Rightarrow> (nat \<times> f64 list list) option \<Rightarrow> bool \<Rightarrow> f64 list
      \<Rightarrow> bpann_error + (BpannBackend \<times> nat)" where
  "opened os from_json = (\<lambda>(wd, dir) (x_file, y_file) x y yvar scale_x scale.
     rbind (bpann_validate_dim_limits (fst x)) (\<lambda>_.
     rbind (ensure (os OpenFiles) IoError) (\<lambda>_.
     rbind (bpann_validate_index_backend wd INDEX_BACKEND) (\<lambda>_.
     rbind (counter_open (os OpenFiles) wd) (\<lambda>wd.
     rbind (open_stores os x_file y_file (bpann_load_num_obs wd) x y) (\<lambda>(sx, sy).
     rbind (bpann_open_or_append_yvar (os GrowYvar) wd (fst y) yvar) (\<lambda>sv.
     let n = store_rows sx;
         indexed_rows = min (case bpann_load_indexed_rows wd of Some r \<Rightarrow> r | None \<Rightarrow> 0) n in
     rbind (open_indices from_json dir indexed_rows) (\<lambda>indices.
     let persisted_rows = (case indices of [] \<Rightarrow> 0 | ix # _ \<Rightarrow> hdr_rows (idx_header ix)) in
     Inr (\<lparr>work_files = wd, train_x = sx, train_y = sy, train_yvar = sv, num_dim = fst x, num_metrics = fst y,
           scaled = scale_x, x_scale = scale,
           inc_index = incremental_new\<lparr>inc_indices := indices, inc_rows := min persisted_rows indexed_rows\<rparr>,
           index_files = dir, pending_flush_threshold = DEFAULT_PENDING_FLUSH_THRESHOLD,
           pending_hard_flush_threshold = DEFAULT_PENDING_HARD_FLUSH_THRESHOLD, defer_append_indexing = True,
           pending_unindexed = n - indexed_rows, index_dirty = (indexed_rows < n), small_n_x_cache = None\<rparr>,
          indexed_rows)))))))))"

definition finish_open :: "bool \<Rightarrow> nat \<Rightarrow> BpannBackend \<Rightarrow> bpann_error + BpannBackend" where
  "finish_open os_ok indexed_rows b =
     (let n = store_rows (train_x b);
          b = b\<lparr>pending_unindexed := n - indexed_rows, inc_index := (inc_index b)\<lparr>inc_rows := indexed_rows\<rparr>\<rparr> in
      rbind (bpann_write_metadata os_ok n (num_dim b) (num_metrics b) (scaled b) indexed_rows (work_files b)) (\<lambda>wd.
      Inr (b\<lparr>work_files := counter_set n wd\<rparr>)))"

definition backend_new ::
    "(os_call \<Rightarrow> bool) \<Rightarrow> 'r build_env \<Rightarrow> (u8 list \<Rightarrow> IndexHeader option) \<Rightarrow> work_dir \<times> index_dir
      \<Rightarrow> u8 list option \<times> u8 list option \<Rightarrow> nat \<times> f64 list list \<Rightarrow> nat \<times> f64 list list
      \<Rightarrow> (nat \<times> f64 list list) option \<Rightarrow> bool \<Rightarrow> f64 list \<Rightarrow> (build_error + BpannBackend) option" where
  "backend_new os env from_json dirs store_files x y yvar scale_x scale =
     (case opened os from_json dirs store_files x y yvar scale_x scale of
        Inl e \<Rightarrow> Some (Inl (BuildError e))
      | Inr (b, indexed_rows) \<Rightarrow>
          (let persisted_rows = (case inc_indices (inc_index b) of [] \<Rightarrow> 0 | ix # _ \<Rightarrow> hdr_rows (idx_header ix)) in
           if persisted_rows < indexed_rows
           then map_option (\<lambda>(r, s, wd). rbind r (\<lambda>_.
                  lift_build (finish_open (os WriteMetadata) indexed_rows (b\<lparr>inc_index := s, work_files := wd\<rparr>))))
                  (ensure_sync env (backend_ctx b) indexed_rows (inc_index b, work_files b))
           else Some (lift_build (finish_open (os WriteMetadata) indexed_rows b))))"

section \<open>Syncing\<close>

definition reset_index :: "BpannBackend \<Rightarrow> BpannBackend" where
  "reset_index b = b\<lparr>inc_index := inc_reset (inc_index b), pending_unindexed := backend_len b, index_dirty := True\<rparr>"

definition mark_index_stale :: "BpannBackend \<Rightarrow> BpannBackend" where
  "mark_index_stale b = reset_index b"

definition release_observation_pages :: "(os_call \<Rightarrow> bool) \<Rightarrow> BpannBackend \<Rightarrow> bpann_error + BpannBackend" where
  "release_observation_pages os b =
     rbind (release_resident_pages (os ReleasePages) (train_x b)) (\<lambda>sx.
     rbind (release_resident_pages (os ReleasePages) (train_y b)) (\<lambda>sy.
     case train_yvar b of None \<Rightarrow> Inr (b\<lparr>train_x := sx, train_y := sy\<rparr>)
     | Some v \<Rightarrow> rbind (release_resident_pages (os ReleasePages) v) (\<lambda>sv.
         Inr (b\<lparr>train_x := sx, train_y := sy, train_yvar := Some sv\<rparr>))))"

definition ensure_index_sync ::
    "(os_call \<Rightarrow> bool) \<Rightarrow> 'r build_env \<Rightarrow> BpannBackend \<Rightarrow> ((build_error + unit) \<times> BpannBackend) option" where
  "ensure_index_sync os env b =
     (let stop = backend_len b in
      if inc_rows (inc_index b) \<ge> stop then Some (Inr (), b\<lparr>pending_unindexed := 0\<rparr>)
      else map_option (\<lambda>(r, s, wd).
        let b1 = b\<lparr>inc_index := s, work_files := wd\<rparr> in
        case r of Inl e \<Rightarrow> (Inl e, b1)
        | Inr _ \<Rightarrow>
            (let b2 = b1\<lparr>pending_unindexed := 0\<rparr> in
             case release_observation_pages os b2 of Inl e \<Rightarrow> (Inl (BuildError e), b2) | Inr b3 \<Rightarrow> (Inr (), b3)))
        (ensure_sync env (backend_ctx b) stop (inc_index b, work_files b)))"

definition ensure_index_sync_with_scale ::
    "(os_call \<Rightarrow> bool) \<Rightarrow> 'r build_env \<Rightarrow> bool \<Rightarrow> f64 list \<Rightarrow> BpannBackend
      \<Rightarrow> ((build_error + unit) \<times> BpannBackend) option" where
  "ensure_index_sync_with_scale os env scale_x scale b =
     ensure_index_sync os env
       (if scaled b \<noteq> scale_x \<or> \<not> list_all2 feq (x_scale b) scale
        then reset_index (b\<lparr>scaled := scale_x, x_scale := scale\<rparr>) else b)"

definition soft_sync_build ::
    "'r build_env \<Rightarrow> BpannBackend \<Rightarrow> ((build_error + IncrementalIndex option) \<times> work_dir) option" where
  "soft_sync_build env b =
     (let stop = backend_len b in
      if inc_rows (inc_index b) \<ge> stop then Some (Inr None, work_files b)
      else map_option (\<lambda>(r, s, wd). (rbind r (\<lambda>_. Inr (Some s)), wd))
             (ensure_sync env (backend_ctx b) stop (inc_index b, work_files b)))"

definition soft_sync_publish :: "IncrementalIndex \<Rightarrow> BpannBackend \<Rightarrow> BpannBackend" where
  "soft_sync_publish built b = b\<lparr>inc_index := built, pending_unindexed := 0\<rparr>"

definition persist_index_to_disk ::
    "'r build_env \<Rightarrow> (IndexHeader \<Rightarrow> u8 list) \<Rightarrow> (u8 list \<Rightarrow> IndexHeader option) \<Rightarrow> fault_plan \<Rightarrow> BpannBackend
      \<Rightarrow> ((build_error + unit) \<times> BpannBackend) option" where
  "persist_index_to_disk env to_json from_json plan b =
     (if \<not> needs_disk_rewrite from_json (index_files b) (inc_index b) (index_dirty b) (store_rows (train_x b))
      then Some (Inr (), b\<lparr>pending_unindexed := 0, index_dirty := False\<rparr>)
      else map_option (\<lambda>(r, s, wd, dir).
        let b1 = b\<lparr>inc_index := s, work_files := wd, index_files := dir\<rparr> in
        case r of Inl e \<Rightarrow> (Inl e, b1) | Inr _ \<Rightarrow> (Inr (), b1\<lparr>pending_unindexed := 0, index_dirty := False\<rparr>))
        (persist_to_disk env to_json plan (backend_ctx b) (inc_index b, work_files b, index_files b)))"

section \<open>Appending\<close>

text \<open>The stores after an append, in the order of the calls: an error leaves the columns already
  written in place.\<close>

definition append_columns ::
    "(os_call \<Rightarrow> bool) \<Rightarrow> nat \<times> f64 list list \<Rightarrow> nat \<times> f64 list list \<Rightarrow> (nat \<times> f64 list list) option
      \<Rightarrow> BpannBackend \<Rightarrow> (bpann_error + unit) \<times> BpannBackend" where
  "append_columns os x y yvar b =
     (case mmap_append (os GrowX) x (train_x b) of Inl e \<Rightarrow> (Inl e, b)
      | Inr sx \<Rightarrow> let b1 = b\<lparr>train_x := sx\<rparr> in
     (case mmap_append (os GrowY) y (train_y b1) of Inl e \<Rightarrow> (Inl e, b1)
      | Inr sy \<Rightarrow> let b2 = b1\<lparr>train_y := sy\<rparr> in
     (case bpann_append_yvar_on_add (os GrowYvar) (work_files b2) (num_metrics b2) (train_yvar b2) yvar of
        Inl e \<Rightarrow> (Inl e, b2)
      | Inr sv \<Rightarrow> (Inr (), b2\<lparr>train_yvar := sv\<rparr>))))"

definition note_append :: "'r build_env \<Rightarrow> nat \<times> f64 list list \<Rightarrow> BpannBackend \<Rightarrow> BpannBackend" where
  "note_append env x b =
     b\<lparr>inc_index := note_pending_rows env x (scaled b) (x_scale b) (inc_index b),
       pending_unindexed := pending_unindexed b + length (snd x), index_dirty := True,
       small_n_x_cache := None, work_files := counter_set (backend_len b) (work_files b)\<rparr>"

definition must_flush :: "BpannBackend \<Rightarrow> bool" where
  "must_flush b \<longleftrightarrow> pending_unindexed b \<ge> pending_hard_flush_threshold b \<or>
     \<not> defer_append_indexing b \<and> pending_unindexed b \<ge> pending_flush_threshold b"

definition append_rows ::
    "(os_call \<Rightarrow> bool) \<Rightarrow> 'r build_env \<Rightarrow> nat \<times> f64 list list \<Rightarrow> nat \<times> f64 list list \<Rightarrow> (nat \<times> f64 list list) option
      \<Rightarrow> BpannBackend \<Rightarrow> ((build_error + unit) \<times> BpannBackend) option" where
  "append_rows os env x y yvar b =
     (if snd x = [] then Some (Inr (), b)
      else if fst x \<noteq> num_dim b \<or> fst y \<noteq> num_metrics b \<or> length (snd x) \<noteq> length (snd y)
      then Some (Inl (BuildError (InvalidShape (length (snd x), num_dim b) (length (snd x), fst x))), b)
      else case bpann_check_append_row_limit (backend_len b + length (snd x)) of
        Inl e \<Rightarrow> Some (Inl (BuildError e), b)
      | Inr _ \<Rightarrow>
          (case append_columns os x y yvar b of
             (Inl e, b1) \<Rightarrow> Some (Inl (BuildError e), b1)
           | (Inr _, b1) \<Rightarrow>
               (let b2 = note_append env x b1
                in if must_flush b2 then ensure_index_sync os env b2 else Some (Inr (), b2))))"

definition append_row ::
    "(os_call \<Rightarrow> bool) \<Rightarrow> 'r build_env \<Rightarrow> f64 list \<Rightarrow> f64 list \<Rightarrow> f64 list option \<Rightarrow> BpannBackend
      \<Rightarrow> ((build_error + unit) \<times> BpannBackend) option" where
  "append_row os env x y yvar b =
     append_rows os env (length x, [x]) (length y, [y]) (map_option (\<lambda>v. (length v, [v])) yvar) b"

definition train_rows_at ::
    "nat list \<Rightarrow> BpannBackend \<Rightarrow> bpann_error + (f64 list list \<times> f64 list list \<times> f64 list list option)" where
  "train_rows_at indices b = bpann_train_rows_at (backend_len b) (train_x b) (train_y b) (train_yvar b) indices"

definition mmap_row_y_and_yvar :: "nat \<Rightarrow> BpannBackend \<Rightarrow> bpann_error + (f64 list \<times> f64 list option)" where
  "mmap_row_y_and_yvar i b =
     rbind (mmap_row_slice (train_y b) i) (\<lambda>y.
     case train_yvar b of None \<Rightarrow> Inr (y, None) | Some s \<Rightarrow> rbind (mmap_row_slice s i) (\<lambda>v. Inr (y, Some v)))"

definition with_pending_flush_threshold :: "nat \<Rightarrow> BpannBackend \<Rightarrow> BpannBackend" where
  "with_pending_flush_threshold n b =
     b\<lparr>pending_flush_threshold := n, pending_hard_flush_threshold := max (pending_hard_flush_threshold b) n\<rparr>"

definition with_pending_hard_flush_threshold :: "nat \<Rightarrow> BpannBackend \<Rightarrow> BpannBackend" where
  "with_pending_hard_flush_threshold n b = b\<lparr>pending_hard_flush_threshold := max n (pending_flush_threshold b)\<rparr>"

definition reconfigure_flush_thresholds :: "nat \<Rightarrow> nat \<Rightarrow> BpannBackend \<Rightarrow> BpannBackend" where
  "reconfigure_flush_thresholds soft hard b =
     (let soft = max soft 1 in b\<lparr>pending_flush_threshold := soft, pending_hard_flush_threshold := max hard soft\<rparr>)"

section \<open>Searching\<close>

text \<open>The answer columns of one query: a zeroed row of \<open>k\<close> distances and one of \<open>k\<close> ids, overwritten
  from the left by the ranked rows.\<close>

definition fill_row :: "nat \<Rightarrow> (u32 \<times> f64) list \<Rightarrow> f64 list \<times> nat list" where
  "fill_row k merged =
     (map snd merged @ replicate (k - length merged) fzero, map (unat \<circ> fst) merged @ replicate (k - length merged) 0)"

definition score_query_flat ::
    "f32 list \<Rightarrow> nat \<Rightarrow> nat \<Rightarrow> bool \<Rightarrow> f64 list \<Rightarrow> nat \<Rightarrow> nat \<Rightarrow> bool \<Rightarrow> f64 list \<Rightarrow> bpann_error + (f64 list \<times> nat list)" where
  "score_query_flat flat total_rows dim scale_x scale k_eff pool_k exclude_nearest q =
     rbind (topk_flat_sq_l2 (bpann_row_to_f32 q scale_x scale) flat total_rows dim pool_k) (\<lambda>leg.
     Inr (fill_row k_eff (merge_topk_precomputed_dist leg [] k_eff pool_k exclude_nearest)))"

definition score_queries_flat ::
    "f32 list \<Rightarrow> nat \<Rightarrow> nat \<Rightarrow> bool \<Rightarrow> f64 list \<Rightarrow> nat \<Rightarrow> nat \<Rightarrow> bool \<Rightarrow> f64 list list
      \<Rightarrow> bpann_error + (f64 list \<times> nat list) list" where
  "score_queries_flat flat total_rows dim scale_x scale k_eff pool_k exclude_nearest queries =
     map_res (score_query_flat flat total_rows dim scale_x scale k_eff pool_k exclude_nearest) queries"

definition flat_rows :: "BpannBackend \<Rightarrow> nat \<Rightarrow> bpann_error + f32 list" where
  "flat_rows b n = rbind (map_res (mapped_vector (backend_ctx b)) [0..<n]) (\<lambda>rows. Inr (concat rows))"

definition load_or_build_small_n_cache :: "nat \<Rightarrow> BpannBackend \<Rightarrow> (bpann_error + f32 list) \<times> BpannBackend" where
  "load_or_build_small_n_cache n b =
     (let build = (case flat_rows b n of Inl e \<Rightarrow> (Inl e, b)
                   | Inr flat \<Rightarrow> (Inr flat, b\<lparr>small_n_x_cache := Some (n, flat)\<rparr>))
      in case small_n_x_cache b of
           Some (cached_n, flat) \<Rightarrow>
             if cached_n = n \<and> length flat = n * num_dim b then (Inr flat, b) else build
         | None \<Rightarrow> build)"

definition lift_query :: "bpann_error + 'a \<Rightarrow> search_error + 'a" where
  "lift_query m = lift_search m"

definition search_pending_query ::
    "'r build_env \<Rightarrow> BpannBackend \<Rightarrow> nat \<Rightarrow> nat \<Rightarrow> nat \<Rightarrow> bool \<Rightarrow> f64 list \<Rightarrow> search_error + (f64 list \<times> nat list)" where
  "search_pending_query env b total_rows k_eff pool_k exclude_nearest q =
     (let indexed = inc_rows (inc_index b);
          index_k = (if exclude_nearest then max pool_k (k_eff * 2) else k_eff);
          store = \<lparr>srch_rows = train_x b, srch_scale = scaled b, srch_xscale = x_scale b\<rparr> in
      rbind (if indexed > 0 \<and> inc_indices (inc_index b) \<noteq> []
             then search_candidates (env_fuel env) (env_tuning env) (inc_index b)
                    (bpann_row_to_f32 q (scaled b) (x_scale b)) (max index_k 1) (Some store)
             else Inr []) (\<lambda>leg_a.
      rbind (if indexed < total_rows
             then lift_query (bpann_brute_force_topk_mmap (train_x b) indexed total_rows q pool_k (scaled b) (x_scale b))
             else Inr []) (\<lambda>leg_b.
      rbind (if scaled b
             then lift_query (bpann_merge_topk_candidates (train_x b) q leg_a leg_b k_eff pool_k exclude_nearest
                    (scaled b) (x_scale b))
             else Inr (merge_topk_precomputed_dist leg_a leg_b k_eff pool_k exclude_nearest)) (\<lambda>merged.
      Inr (fill_row k_eff merged)))))"

definition search_indexed_and_pending ::
    "'r build_env \<Rightarrow> BpannBackend \<Rightarrow> nat \<Rightarrow> nat \<Rightarrow> nat \<Rightarrow> bool \<Rightarrow> f64 list list
      \<Rightarrow> search_error + (f64 list \<times> nat list) list" where
  "search_indexed_and_pending env b total_rows k_eff pool_k exclude_nearest queries =
     map_res (search_pending_query env b total_rows k_eff pool_k exclude_nearest) queries"

definition backend_search ::
    "'r build_env \<Rightarrow> f64 list list \<Rightarrow> nat \<Rightarrow> bool \<Rightarrow> BpannBackend
      \<Rightarrow> (search_error + (f64 list \<times> nat list) list) \<times> BpannBackend" where
  "backend_search env queries search_k exclude_nearest b =
     (let total_rows = backend_len b in
      if total_rows = 0 then (Inr (map (\<lambda>_. ([], [])) queries), b)
      else
      let k_eff = min search_k total_rows;
          pool_k = (if exclude_nearest then min (search_k + 1) total_rows else k_eff) in
      if total_rows \<le> SMALL_N_INCORE_SEARCH_LIMIT then
        (case load_or_build_small_n_cache total_rows b of
           (Inl e, b1) \<Rightarrow> (Inl (SearchError e), b1)
         | (Inr flat, b1) \<Rightarrow>
             (lift_query (score_queries_flat flat total_rows (num_dim b) (scaled b) (x_scale b) k_eff pool_k
                exclude_nearest queries), b1))
      else (search_indexed_and_pending env b total_rows k_eff pool_k exclude_nearest queries, b))"

definition reopen ::
    "(os_call \<Rightarrow> bool) \<Rightarrow> 'r build_env \<Rightarrow> (u8 list \<Rightarrow> IndexHeader option) \<Rightarrow> work_dir \<times> index_dir
      \<Rightarrow> u8 list option \<times> u8 list option \<Rightarrow> (build_error + BpannBackend) option" where
  "reopen os env from_json dirs store_files =
     (case metadata_json (fst dirs) of None \<Rightarrow> Some (Inl (BuildError InvalidParameter))
      | Some txt \<Rightarrow>
          (case (parse_json_usize_field txt ''num_dim'', parse_json_usize_field txt ''num_metrics'') of
             (Some dim, Some metrics) \<Rightarrow>
               backend_new os env from_json dirs store_files (dim, []) (metrics, []) None
                 (split_once (json_field ''scale_x'' (bool_str True)) txt \<noteq> None) (replicate dim (flit 1 1))
           | _ \<Rightarrow> Some (Inl (BuildError InvalidParameter))))"

end
