(* ===== verification/FloatExact.thy ===== *)
theory FloatExact
  imports FloatWiden
begin

text \<open>
  Operations with a representable result are exact: a quotient or a conversion whose
  mathematical value is a float is that float. This evaluates concrete 64-bit examples without
  computing with thousand-bit numerals.
\<close>

lemma round_mag_eq:
  "0 < q \<Longrightarrow> 0 < q' \<Longrightarrow> p * q' = p' * q \<Longrightarrow> round_mag fb imag p q = round_mag fb imag p' q'"
  by (intro order.antisym round_mag_mono) simp_all

lemma round_float_exact:
  assumes "is_finite z" "0 < q" "p = units z * q" "s = sign_neg z"
  shows "round_float s p q = (z :: 'w::len word ieee)"
proof -
  let ?r = "round_mag (frac_bits LENGTH('w)) (inf_mag LENGTH('w))"
  have "?r p q = ?r (units z) 1" using assms(2,3) by (intro round_mag_eq) simp_all
  also have "\<dots> = mag z" using assms(1) round_mag_units_of [of "mag z"] by (simp add: is_finite_def units_def)
  finally show ?thesis by (simp add: round_float_def assms(4))
qed

lemma finite_not_special: "is_finite x \<Longrightarrow> \<not> is_nan x \<and> \<not> is_inf x"
  by (simp add: is_finite_def is_nan_def is_inf_def)

lemma fdiv_exact:
  fixes a b z :: "'w::len word ieee"
  assumes "is_finite a" "is_finite b" "is_finite z" "mag b \<noteq> 0" "units b \<noteq> 0"
    and "units a * 2 ^ unit_exp LENGTH('w) = units z * units b" "sign_neg z = (sign_neg a \<noteq> sign_neg b)"
  shows "fdiv a b = z"
  using finite_not_special [OF assms(1)] finite_not_special [OF assms(2)] assms(3-7)
  by (simp add: fdiv_def round_float_exact)

lemma f32_of_f64_exact:
  assumes "is_finite x" "is_finite y" "units x = units y * 2 ^ 925" "sign_neg x = sign_neg y"
  shows "f32_of_f64 x = y"
proof -
  have "f32_of_f64 x = round_float (sign_neg x) (units x) (2 ^ 925)"
    using finite_not_special [OF assms(1)] by (simp only: f32_of_f64_def if_False) simp
  also have "\<dots> = y" using assms(2-4) by (intro round_float_exact) simp_all
  finally show ?thesis .
qed

lemma units_normal:
  "mag (x :: 'w::len word ieee) = Suc k * 2 ^ frac_bits LENGTH('w) \<Longrightarrow> units x = 2 ^ (frac_bits LENGTH('w) + k)"
  using units_of_normal [of 0 "frac_bits LENGTH('w)" k] by (simp add: units_def power_add)

text \<open>Widening and narrowing again gives the float back.\<close>

lemma narrow_widen:
  assumes "is_finite (v :: f32)"
  shows "f32_of_f64 (f64_of_f32 v) = v"
proof -
  have m: "mag v < inf_mag 32" using assms by (simp add: is_finite_def)
  have shape: "mag (f64_of_f32 v) = widen_mag (mag v)" "sign_neg (f64_of_f32 v) = sign_neg v"
    using f64_of_f32_shape [of v] finite_not_special [OF assms] by simp_all
  then have "units (f64_of_f32 v) = units v * 2 ^ 925"
    using widen_exact [OF m] by (simp only: units_def frac_bits_def) simp
  then show ?thesis
    using shape widen_exact [OF m] assms by (intro f32_of_f64_exact) (simp_all add: is_finite_def)
qed

section \<open>One, two and a half\<close>

abbreviation one64 :: f64 where "one64 \<equiv> Ieee 0x3ff0000000000000"
abbreviation two64 :: f64 where "two64 \<equiv> Ieee 0x4000000000000000"
abbreviation half64 :: f64 where "half64 \<equiv> Ieee 0x3fe0000000000000"

lemma sample_mags:
  "mag one64 = Suc 1022 * 2 ^ 52" "mag two64 = Suc 1023 * 2 ^ 52" "mag half64 = Suc 1021 * 2 ^ 52"
  "mag (Ieee 0x3f800000 :: f32) = Suc 126 * 2 ^ 23" "mag (Ieee 0x3f000000 :: f32) = Suc 125 * 2 ^ 23"
  by (simp_all add: mag_def float_layout)

lemma sample_units:
  "units one64 = 2 ^ 1074" "units two64 = 2 ^ 1075" "units half64 = 2 ^ 1073"
  "units (Ieee 0x3f800000 :: f32) = 2 ^ 149" "units (Ieee 0x3f000000 :: f32) = 2 ^ 148"
  using units_normal [of one64 1022] units_normal [of two64 1023] units_normal [of half64 1021]
    units_normal [of "Ieee 0x3f800000 :: f32" 126] units_normal [of "Ieee 0x3f000000 :: f32" 125]
  by (simp_all only: sample_mags frac_bits_def) simp_all

lemma sample_finite:
  "is_finite one64" "is_finite two64" "is_finite half64"
  "is_finite (Ieee 0x3f800000 :: f32)" "is_finite (Ieee 0x3f000000 :: f32)"
  by (simp_all add: is_finite_def sample_mags inf_mag_def float_layout)

lemma sample_signs:
  "\<not> sign_neg one64" "\<not> sign_neg two64" "\<not> sign_neg half64"
  "\<not> sign_neg (Ieee 0x3f800000 :: f32)" "\<not> sign_neg (Ieee 0x3f000000 :: f32)"
  by (simp_all add: sign_neg_def float_layout)

lemma sample_division: "fdiv one64 one64 = one64" "fdiv one64 two64 = half64"
proof -
  have e: "unit_exp LENGTH(64) = 1074" by (simp add: unit_exp_def)
  have "units one64 * 2 ^ unit_exp LENGTH(64) = units one64 * units one64"
    "units one64 * 2 ^ unit_exp LENGTH(64) = units half64 * units two64"
    unfolding e sample_units by (simp_all only: power_add [symmetric]) simp
  then show "fdiv one64 one64 = one64" "fdiv one64 two64 = half64"
    using sample_finite sample_signs
    by (intro fdiv_exact; simp only: sample_mags sample_units e; simp)+
qed

lemma sample_narrow: "f32_of_f64 one64 = Ieee 0x3f800000" "f32_of_f64 half64 = Ieee 0x3f000000"
proof -
  have "units one64 = units (Ieee 0x3f800000 :: f32) * 2 ^ 925" "units half64 = units (Ieee 0x3f000000 :: f32) * 2 ^ 925"
    unfolding sample_units by (simp_all only: power_add [symmetric]) simp_all
  then show "f32_of_f64 one64 = Ieee 0x3f800000" "f32_of_f64 half64 = Ieee 0x3f000000"
    using sample_finite sample_signs by (auto intro!: f32_of_f64_exact)
qed

end
