(* ===== verification/BpannBackendLaws.thy ===== *)
theory BpannBackendLaws
  imports BpannBackend FloatExact
begin

text \<open>
  Correctness of the BPANN backend's searches over few rows: the answer is the exact ranking
  while the cached matrix is up to date, and a change of scale leaves it out of date.
\<close>

section \<open>The small search\<close>

text \<open>The rows of a backend as the vectors that are scored.\<close>

definition backend_vectors :: "BpannBackend \<Rightarrow> f32 list list \<Rightarrow> bool" where
  "backend_vectors b vs \<longleftrightarrow> map_res (mapped_vector (backend_ctx b)) [0..<backend_len b] = Inr vs"

definition cache_ok :: "BpannBackend \<Rightarrow> bool" where
  "cache_ok b \<longleftrightarrow> (case small_n_x_cache b of None \<Rightarrow> True
     | Some (n, flat) \<Rightarrow> n = backend_len b \<longrightarrow> flat_rows b n = Inr flat)"

definition scaled_query :: "BpannBackend \<Rightarrow> f64 list \<Rightarrow> f32 list" where
  "scaled_query b q = bpann_row_to_f32 q (scaled b) (x_scale b)"

definition ranked_rows :: "f32 list list \<Rightarrow> f32 list \<Rightarrow> (u32 \<times> f32) list" where
  "ranked_rows vs q = bpann_brute_force_topk vs q (length vs)"

definition exact_answer :: "f32 list list \<Rightarrow> nat \<Rightarrow> bool \<Rightarrow> f32 list \<Rightarrow> (u32 \<times> f64) list" where
  "exact_answer vs k ex q = map widen_entry
     (take k (if ex \<and> 1 < length vs then tl (ranked_rows vs q) else ranked_rows vs q))"

lemma flat_row_concat:
  "\<forall>v\<in>set vs. length v = d \<Longrightarrow> i < length vs \<Longrightarrow> flat_row (concat vs) d i = vs ! i"
proof (induction vs arbitrary: i)
  case (Cons v vs)
  then show ?case by (cases i) (simp_all add: flat_row_def)
qed simp

lemma length_concat_rows: "\<forall>v\<in>set vs. length v = d \<Longrightarrow> length (concat vs) = length vs * d"
  by (induction vs) simp_all

lemma ranked_rows_scored:
  assumes "length vs \<le> 2 ^ 32"
  shows "ranked_rows vs q = sort_le rank_le (scored (\<lambda>u. l2_sq_f32 q (vs ! unat u)) (map as_u32 [0..<length vs]))"
proof -
  have "map (\<lambda>(i, v). (as_u32 i, l2_sq_f32 q v)) (enumerate 0 vs) =
      scored (\<lambda>u. l2_sq_f32 q (vs ! unat u)) (map as_u32 [0..<length vs])"
    using assms by (intro nth_equalityI) (simp_all add: scored_def nth_enumerate_eq unat_as_u32)
  then show ?thesis by (simp add: ranked_rows_def bpann_brute_force_topk_def topk_def)
qed

lemma distinct_row_ids: "n \<le> 2 ^ 32 \<Longrightarrow> distinct (map as_u32 [0..<n])"
  using inj_as_u32 by (auto simp: distinct_map intro!: inj_onI)

lemma score_query_exact:
  assumes "length vs \<le> 2 ^ 32" "\<forall>v\<in>set vs. length v = d \<and> (\<forall>x\<in>set v. is_finite x)"
    and "length (bpann_row_to_f32 q sc scale) = d" "\<forall>x\<in>set (bpann_row_to_f32 q sc scale). is_finite x"
    and "pool = (if ex then min (k + 1) (length vs) else min k (length vs))"
  shows "score_query_flat (concat vs) (length vs) d sc scale (min k (length vs)) pool ex q =
    Inr (fill_row (min k (length vs)) (exact_answer vs (min k (length vs)) ex (bpann_row_to_f32 q sc scale)))"
proof -
  let ?q = "bpann_row_to_f32 q sc scale" and ?n = "length vs"
  let ?dist = "\<lambda>u. l2_sq_f32 ?q (vs ! unat u)" and ?ids = "map as_u32 [0..<length vs]"
  let ?deep = "k + (if ex then 1 else 0)"
  have nan: "\<forall>i\<in>set (?ids @ []). \<not> is_nan (?dist i)"
  proof
    fix u assume "u \<in> set (?ids @ [])"
    then have "vs ! unat u \<in> set vs" using assms(1) by (auto simp: unat_as_u32)
    then have "fnonneg (?dist u)" using assms(2,4) by (intro l2_sq_f32_nonneg) auto
    then show "\<not> is_nan (?dist u)" by (simp add: fnonneg_def)
  qed
  have rows: "map (flat_row (concat vs) d) [0..<?n] = vs"
    using assms(2) by (intro nth_equalityI) (simp_all add: flat_row_concat)
  have len: "length (concat vs) = ?n * d" using assms(2) by (intro length_concat_rows) blast
  have fin: "\<forall>x\<in>set (concat vs). is_finite x" using assms(2) by auto
  have "topk_flat_sq_l2 ?q (concat vs) ?n d pool = Inr (bpann_brute_force_topk vs ?q pool)"
    using heap_search_brute_force [OF assms(3) len assms(1,4) fin, of pool] by (simp add: rows)
  moreover have "bpann_brute_force_topk vs ?q pool = topk rank_le ?deep (scored ?dist ?ids)"
  proof -
    have "bpann_brute_force_topk vs ?q pool = take pool (ranked_rows vs ?q)"
      by (simp add: ranked_rows_def bpann_brute_force_topk_def topk_def assms(5))
    then show ?thesis
      by (simp add: ranked_rows_scored [OF assms(1)] topk_def assms(5) scored_def length_sort_le min_def)
  qed
  moreover have "merge_topk_precomputed_dist (topk rank_le ?deep (scored ?dist ?ids)) [] (min k ?n) pool ex =
      exact_answer vs (min k ?n) ex ?q"
    using merged_legs_rank_union [of ?ids "[]" ?dist "min k ?n" ex ?deep ?deep pool] distinct_row_ids [OF assms(1)] nan
    by (auto simp: exact_answer_def ranked_rows_scored [OF assms(1)] topk_def scored_def Let_def length_sort_le assms(5))
  ultimately show ?thesis by (simp add: score_query_flat_def)
qed

lemma cached_vectors:
  assumes "cache_ok b" "backend_vectors b vs"
  shows "\<exists>b'. load_or_build_small_n_cache (backend_len b) b = (Inr (concat vs), b') \<and> cache_ok b' \<and>
    b' = b\<lparr>small_n_x_cache := small_n_x_cache b'\<rparr>"
proof -
  have flat: "flat_rows b (backend_len b) = Inr (concat vs)"
    using assms(2) by (simp add: flat_rows_def backend_vectors_def)
  have ctx: "backend_ctx (b\<lparr>small_n_x_cache := c\<rparr>) = backend_ctx b" "backend_len (b\<lparr>small_n_x_cache := c\<rparr>) = backend_len b" for c
    by (simp_all add: backend_ctx_def backend_len_def)
  have flat': "flat_rows (b\<lparr>small_n_x_cache := c\<rparr>) n = flat_rows b n" for c n
    by (simp add: flat_rows_def ctx)
  show ?thesis
  proof (cases "\<exists>flat. small_n_x_cache b = Some (backend_len b, flat) \<and> length flat = backend_len b * num_dim b")
    case True
    then obtain flat where c: "small_n_x_cache b = Some (backend_len b, flat)" "length flat = backend_len b * num_dim b"
      by blast
    then have "flat = concat vs" using assms(1) flat by (auto simp: cache_ok_def)
    moreover have "load_or_build_small_n_cache (backend_len b) b = (Inr flat, b)"
      using c by (simp add: load_or_build_small_n_cache_def)
    moreover have "b = b\<lparr>small_n_x_cache := small_n_x_cache b\<rparr>" by simp
    ultimately show ?thesis using assms(1) by blast
  next
    case False
    then have "load_or_build_small_n_cache (backend_len b) b =
        (Inr (concat vs), b\<lparr>small_n_x_cache := Some (backend_len b, concat vs)\<rparr>)"
    proof (cases "small_n_x_cache b")
      case None
      then show ?thesis using flat by (simp add: load_or_build_small_n_cache_def)
    next
      case (Some c)
      then have "\<not> (fst c = backend_len b \<and> length (snd c) = backend_len b * num_dim b)" using False by (cases c) simp
      then show ?thesis using flat Some by (simp add: load_or_build_small_n_cache_def case_prod_beta) blast
    qed
    moreover have "cache_ok (b\<lparr>small_n_x_cache := Some (backend_len b, concat vs)\<rparr>)"
      using flat flat' by (simp add: cache_ok_def)
    ultimately show ?thesis by simp
  qed
qed

lemma small_search_answer:
  assumes "0 < backend_len b" "backend_len b \<le> SMALL_N_INCORE_SEARCH_LIMIT" "cache_ok b" "backend_vectors b vs"
    and "\<forall>v\<in>set vs. length v = num_dim b \<and> (\<forall>x\<in>set v. is_finite x)"
    and "\<forall>q\<in>set queries. length (scaled_query b q) = num_dim b \<and> (\<forall>x\<in>set (scaled_query b q). is_finite x)"
  shows "\<exists>b'. backend_search env queries k ex b =
      (Inr (map (\<lambda>q. fill_row (min k (length vs)) (exact_answer vs (min k (length vs)) ex (scaled_query b q))) queries), b') \<and>
    length vs = backend_len b \<and> cache_ok b' \<and> b' = b\<lparr>small_n_x_cache := small_n_x_cache b'\<rparr>"
proof -
  let ?n = "length vs"
  have n: "?n = backend_len b" using assms(4) by (auto simp: backend_vectors_def dest: map_res_length)
  then have small: "?n \<le> 2 ^ 32" using assms(2) by (simp add: SMALL_N_INCORE_SEARCH_LIMIT_def)
  obtain b' where b': "load_or_build_small_n_cache ?n b = (Inr (concat vs), b')" "cache_ok b'"
      "b' = b\<lparr>small_n_x_cache := small_n_x_cache b'\<rparr>"
    using cached_vectors [OF assms(3,4)] unfolding n by blast
  let ?pool = "if ex then min (k + 1) ?n else min k ?n"
  have "score_queries_flat (concat vs) ?n (num_dim b) (scaled b) (x_scale b) (min k ?n) ?pool ex queries =
      Inr (map (\<lambda>q. fill_row (min k ?n) (exact_answer vs (min k ?n) ex (scaled_query b q))) queries)"
    unfolding score_queries_flat_def
    using score_query_exact [OF small assms(5), of _ "scaled b" "x_scale b" ?pool ex k] assms(6)
    by (intro map_res_all_Inr) (auto simp: scaled_query_def)
  then have "backend_search env queries k ex b =
      (Inr (map (\<lambda>q. fill_row (min k ?n) (exact_answer vs (min k ?n) ex (scaled_query b q))) queries), b')"
    using assms(1,2) b'(1) by (simp add: backend_search_def Let_def n [symmetric] lift_query_def lift_search_def)
  then show ?thesis using b'(2,3) n by blast
qed

text \<open>C29: the search of a small backend is exact. Over at most 8192 rows of finite coordinates,
  and unless the cached matrix is out of date, every finite query of the right width is answered
  by the rows that sorting all distances puts first, without the nearest when that is excluded,
  cut to the rows asked for and padded with zeros; nothing but the cache changes, and it stays up
  to date.\<close>

theorem small_search_exact:
  assumes "0 < backend_len b" "backend_len b \<le> SMALL_N_INCORE_SEARCH_LIMIT" "cache_ok b" "backend_vectors b vs"
    and "\<forall>v\<in>set vs. length v = num_dim b \<and> (\<forall>x\<in>set v. is_finite x)"
    and "\<forall>q\<in>set queries. length (scaled_query b q) = num_dim b \<and> (\<forall>x\<in>set (scaled_query b q). is_finite x)"
  shows "\<exists>b'. backend_search env queries k ex b =
      (Inr (map (\<lambda>q. fill_row (min k (length vs)) (exact_answer vs (min k (length vs)) ex (scaled_query b q))) queries), b') \<and>
    length vs = backend_len b \<and> cache_ok b' \<and> b' = b\<lparr>small_n_x_cache := small_n_x_cache b'\<rparr>"
  using assms by (rule small_search_answer)

section \<open>Rescaling and the cache\<close>

lemma release_same: "release_observation_pages os b = Inr b' \<Longrightarrow> b' = b"
  by (cases b) (auto simp: release_observation_pages_def release_resident_pages_def res_simps split: option.splits)

lemma ensure_index_sync_keeps:
  assumes "ensure_index_sync os env b = Some (Inr (), b')"
  shows "scaled b' = scaled b" "x_scale b' = x_scale b" "small_n_x_cache b' = small_n_x_cache b" "num_dim b' = num_dim b"
    "train_x b' = train_x b"
proof -
  have "\<exists>s wd. b' = b\<lparr>inc_index := s, work_files := wd, pending_unindexed := 0\<rparr>"
  proof (cases "inc_rows (inc_index b) \<ge> backend_len b")
    case True
    then show ?thesis
      using assms by (intro exI [of _ "inc_index b"] exI [of _ "work_files b"]) (simp add: ensure_index_sync_def)
  next
    case False
    obtain r s wd where sync: "ensure_sync env (backend_ctx b) (backend_len b) (inc_index b, work_files b) = Some (r, s, wd)"
      using assms False by (auto simp: ensure_index_sync_def Let_def)
    then have "(case release_observation_pages os (b\<lparr>inc_index := s, work_files := wd, pending_unindexed := 0\<rparr>) of
        Inl e \<Rightarrow> (Inl (BuildError e), b\<lparr>inc_index := s, work_files := wd, pending_unindexed := 0\<rparr>)
      | Inr b3 \<Rightarrow> (Inr (), b3)) = (Inr (), b')"
      using assms False by (simp add: ensure_index_sync_def Let_def split: sum.splits)
    then show ?thesis by (auto dest: release_same split: sum.splits)
  qed
  then show "scaled b' = scaled b" "x_scale b' = x_scale b" "small_n_x_cache b' = small_n_x_cache b" "num_dim b' = num_dim b"
    "train_x b' = train_x b"
    by auto
qed

text \<open>A defect of rescaling. The cached matrix of the small search holds rows divided by the
  scale in force when it was built, and \<open>ensure_index_sync_with_scale\<close> does not clear it. After
  a successful rescale at an unchanged row count, a search still scores the old matrix, but
  against queries divided by the new scale.\<close>

theorem rescale_searches_stale_cache:
  assumes "ensure_index_sync_with_scale os env scale_x scale b = Some (Inr (), b')"
    and "small_n_x_cache b = Some (backend_len b, flat)" "length flat = backend_len b * num_dim b"
    and "0 < backend_len b" "backend_len b \<le> SMALL_N_INCORE_SEARCH_LIMIT"
    and "scaled b \<noteq> scale_x \<or> \<not> list_all2 feq (x_scale b) scale"
  shows "scaled b' = scale_x \<and> x_scale b' = scale \<and>
    backend_search env queries k False b' =
      (lift_query (score_queries_flat flat (backend_len b) (num_dim b) scale_x scale (min k (backend_len b))
         (min k (backend_len b)) False queries), b')"
proof -
  let ?b = "reset_index (b\<lparr>scaled := scale_x, x_scale := scale\<rparr>)"
  have "ensure_index_sync os env ?b = Some (Inr (), b')"
    using assms(1,6) by (simp add: ensure_index_sync_with_scale_def)
  note kept = ensure_index_sync_keeps [OF this]
  have "load_or_build_small_n_cache (backend_len b) b' = (Inr flat, b')"
    using assms(2,3) kept(3,4) by (simp add: load_or_build_small_n_cache_def reset_index_def)
  moreover have "backend_len b' = backend_len b" using kept(5) by (simp add: backend_len_def reset_index_def)
  ultimately show ?thesis
    using kept(1,2,4) assms(4,5) by (simp add: backend_search_def Let_def reset_index_def)
qed

section \<open>A backend of one row\<close>

definition one_row :: "f64 \<Rightarrow> MmapColumnStore" where
  "one_row x = \<lparr>store_cols = 1, store_rows = 1, mapped = f64_bytes x\<rparr>"

lemma one_row_slice: "mmap_row_slice (one_row x) 0 = Inr [x]"
  by (simp add: mmap_row_slice_def one_row_def store_row_bytes_def read_f64_def f64_bytes_def)

definition one_backend :: "(nat \<times> f32 list) option \<Rightarrow> BpannBackend" where
  "one_backend c = \<lparr>work_files = test_dir, train_x = one_row one64, train_y = one_row fzero, train_yvar = None, num_dim = 1,
     num_metrics = 1, scaled = True, x_scale = [one64], inc_index = incremental_new, index_files = (\<lambda>_. None),
     pending_flush_threshold = 250, pending_hard_flush_threshold = 3000, defer_append_indexing = True,
     pending_unindexed = 1, index_dirty = True, small_n_x_cache = c\<rparr>"

lemma one_backend_fields [simp]:
  "backend_len (one_backend c) = 1" "num_dim (one_backend c) = 1" "scaled (one_backend c)"
  "x_scale (one_backend c) = [one64]" "small_n_x_cache (one_backend c) = c"
  by (simp_all add: one_backend_def backend_len_def one_row_def)

lemma one_row_vector:
  "mapped_vector (backend_ctx (one_backend c)) 0 = Inr [one32]"
  by (simp add: mapped_vector_def backend_ctx_def one_backend_def one_row_slice bpann_row_to_f32_def
      sample_division sample_narrow)

lemma one_backend_vectors: "backend_vectors (one_backend c) [[one32]]"
  by (simp add: backend_vectors_def one_row_vector)

lemma one_query: "scaled_query (one_backend c) [one64] = [one32]"
  by (simp add: scaled_query_def bpann_row_to_f32_def sample_division sample_narrow)

theorem small_search_exact_witness:
  "\<exists>b'. backend_search test_env [[one64]] 3 False (one_backend None) =
    (Inr [fill_row 1 (exact_answer [[one32]] 1 False [one32])], b') \<and> cache_ok b'"
  using small_search_exact [of "one_backend None" "[[one32]]" "[[one64]]" test_env 3 False] one_backend_vectors
    sample_finite
  by (auto simp: one_query SMALL_N_INCORE_SEARCH_LIMIT_def cache_ok_def)

text \<open>The rescaled backend: the stored row is halved, and so is a query equal to it, but the cached
  matrix holds the row unhalved.\<close>

definition rescaled :: BpannBackend where
  "rescaled = reset_index ((one_backend (Some (1, [one32])))\<lparr>scaled := True, x_scale := [two64]\<rparr>)"

lemma rescaled_sync: "\<exists>s wd. ensure_sync test_env (backend_ctx rescaled) 1 (inc_index rescaled, work_files rescaled) = Some (Inr (), s, wd)"
proof -
  have fields: "inc_index rescaled = incremental_new" "num_dim rescaled = 1" "train_x rescaled = one_row one64"
    "scaled rescaled" "x_scale rescaled = [two64]"
    by (simp_all add: rescaled_def reset_index_def one_backend_def inc_reset_def incremental_new_def)
  obtain c where "centroid_from_mmap_rows (backend_ctx rescaled) 0 1 = Inr c"
    by (auto simp: centroid_from_mmap_rows_def backend_ctx_def fields one_row_slice add_row_f64_def)
  then have "\<exists>ix. sync_span test_env (backend_ctx rescaled) 1 (inc_index rescaled) =
      (Inr (), \<lparr>inc_indices = [ix], inc_rows = 1, pending_centroid_sum = [], pending_row_count = 0\<rparr>)"
    by (simp add: fields sync_span_def Let_def test_env_def default_limits saturating_mul_def usize_bound_def
        MID_BAND_SHALLOW_MAX_def build_batch_def take_pending_centroid_def incremental_new_def batch_index_def pushed_def
        push_fragment_def)
  then show ?thesis
    by (auto simp: ensure_sync_def fields maybe_compact_def Let_def index_compact_threshold_def saturating_mul_def
        usize_bound_def write_indexed_rows_def test_env_def incremental_new_def)
qed

lemma rescaled_step:
  "\<exists>b'. ensure_index_sync_with_scale (\<lambda>_. True) test_env True [two64] (one_backend (Some (1, [one32]))) = Some (Inr (), b') \<and>
    train_x b' = one_row one64 \<and> num_dim b' = 1"
proof -
  have "\<not> feq one64 two64" by (simp add: feq_def fkey_def sample_mags sample_signs float_layout)
  then have "ensure_index_sync_with_scale (\<lambda>_. True) test_env True [two64] (one_backend (Some (1, [one32]))) =
      ensure_index_sync (\<lambda>_. True) test_env rescaled"
    by (simp add: ensure_index_sync_with_scale_def rescaled_def)
  moreover obtain b' where b': "ensure_index_sync (\<lambda>_. True) test_env rescaled = Some (Inr (), b')"
    using rescaled_sync
    by (auto simp: ensure_index_sync_def Let_def rescaled_def [unfolded one_backend_def reset_index_def] backend_len_def
        one_row_def release_observation_pages_def release_resident_pages_def inc_reset_def)
  ultimately show ?thesis
    using ensure_index_sync_keeps [OF b'] by (simp add: rescaled_def reset_index_def one_backend_def)
qed

theorem rescale_searches_stale_cache_witness:
  "\<exists>b'. ensure_index_sync_with_scale (\<lambda>_. True) test_env True [two64] (one_backend (Some (1, [one32]))) = Some (Inr (), b') \<and>
    backend_search test_env [[one64]] 1 False b' =
      (Inr [fill_row 1 (exact_answer [[one32]] 1 False [Ieee 0x3f000000])], b') \<and>
    flat_rows b' 1 = Inr [Ieee 0x3f000000]"
proof -
  obtain b' where b': "ensure_index_sync_with_scale (\<lambda>_. True) test_env True [two64] (one_backend (Some (1, [one32]))) = Some (Inr (), b')"
    "train_x b' = one_row one64" "num_dim b' = 1"
    using rescaled_step by blast
  have "\<not> list_all2 feq [one64] [two64]" by (simp add: feq_def fkey_def sample_mags sample_signs float_layout)
  note stale = rescale_searches_stale_cache [OF b'(1), where flat = "[one32]" and k = 1 and queries = "[[one64]]"]
  have "score_queries_flat [one32] 1 1 True [two64] 1 1 False [[one64]] =
      Inr [fill_row 1 (exact_answer [[one32]] 1 False [Ieee 0x3f000000])]"
    using score_query_exact [of "[[one32]]" 1 "[one64]" True "[two64]" 1 False 1] sample_finite
    by (simp add: score_queries_flat_def bpann_row_to_f32_def sample_division sample_narrow)
  then show ?thesis
    using stale b' \<open>\<not> list_all2 feq [one64] [two64]\<close>
    by (simp add: SMALL_N_INCORE_SEARCH_LIMIT_def lift_query_def lift_search_def flat_rows_def mapped_vector_def
        backend_ctx_def one_row_slice bpann_row_to_f32_def sample_division sample_narrow)
qed

end
