(* ===== verification/FlushController.thy ===== *)
theory FlushController
  imports BpannBackendLaws
begin

text \<open>
  The disk backend of the ENN model (\<open>rust/crates/ennx/src/disk_bpann/enn_backend.rs\<close>,
  \<open>backend/mod.rs\<close>) and its background flush (\<open>backend/flush_controller.rs\<close>). A handle is
  the backend behind its lock, the single job slot and the last error. The worker thread takes
  two steps, a build under the read lock and a publication under the write lock; the caller's
  operations happen between them, and waiting for an unfinished job is no result (\<open>None\<close>).
\<close>

datatype IndexDriver = Exact | Auto | Agx | USearch | BpAnnDisk | Metal | OpenCl

definition is_disk_index_driver :: "IndexDriver \<Rightarrow> bool" where
  "is_disk_index_driver driver \<longleftrightarrow> driver = BpAnnDisk"

datatype enn_error = EnnInvalidParameter | EnnInvalidShape "nat \<times> nat" "nat \<times> nat"

definition bpann_err :: "bpann_error \<Rightarrow> enn_error" where
  "bpann_err e = (case e of InvalidShape expected got \<Rightarrow> EnnInvalidShape expected got | _ \<Rightarrow> EnnInvalidParameter)"

record DiskBpannEnnBackend =
  enn_inner :: BpannBackend
  enn_driver :: IndexDriver
  enn_metrics :: nat

definition sync_err :: "build_error \<Rightarrow> enn_error" where
  "sync_err e = (case e of BuildError b \<Rightarrow> bpann_err b | PartitionError _ \<Rightarrow> EnnInvalidParameter)"

definition enn_res :: "('e \<Rightarrow> enn_error) \<Rightarrow> 'e + 'a \<Rightarrow> enn_error + 'a" where
  "enn_res f m = (case m of Inl e \<Rightarrow> Inl (f e) | Inr x \<Rightarrow> Inr x)"

definition apply_config_flush_threshold :: "BpannTuning option \<Rightarrow> BpannBackend \<Rightarrow> BpannBackend" where
  "apply_config_flush_threshold provider b =
     (let t = current_tuning provider
      in with_pending_hard_flush_threshold (BpannTuning.pending_hard_flush_threshold t)
           (with_pending_flush_threshold (BpannTuning.pending_flush_threshold t) b))"

definition disk_backend_new ::
    "(os_call \<Rightarrow> bool) \<Rightarrow> 'r build_env \<Rightarrow> (u8 list \<Rightarrow> IndexHeader option) \<Rightarrow> work_dir \<times> index_dir
      \<Rightarrow> u8 list option \<times> u8 list option \<Rightarrow> nat \<times> f64 list list \<Rightarrow> nat \<times> f64 list list
      \<Rightarrow> (nat \<times> f64 list list) option \<Rightarrow> bool \<Rightarrow> f64 list \<Rightarrow> IndexDriver \<Rightarrow> (enn_error + DiskBpannEnnBackend) option" where
  "disk_backend_new os env from_json dirs store_files x y yvar scale_x scale driver =
     (if driver \<noteq> BpAnnDisk then Some (Inl EnnInvalidParameter)
      else map_option (\<lambda>r. enn_res sync_err (rbind r (\<lambda>b.
          let inner = apply_config_flush_threshold (env_tuning env) b
          in Inr \<lparr>enn_inner = inner, enn_driver = driver, enn_metrics = num_metrics inner\<rparr>)))
        (if snd x = [] \<and> snd y = [] \<and> metadata_json (fst dirs) \<noteq> None
         then reopen os env from_json dirs store_files
         else backend_new os env from_json dirs store_files x y yvar scale_x scale))"

definition new_empty_with_flush_thresholds ::
    "(os_call \<Rightarrow> bool) \<Rightarrow> 'r build_env \<Rightarrow> (u8 list \<Rightarrow> IndexHeader option) \<Rightarrow> work_dir \<times> index_dir
      \<Rightarrow> u8 list option \<times> u8 list option \<Rightarrow> nat \<Rightarrow> nat \<Rightarrow> nat \<Rightarrow> nat \<Rightarrow> (enn_error + DiskBpannEnnBackend) option" where
  "new_empty_with_flush_thresholds os env from_json dirs store_files dim metrics soft hard =
     (if soft = 0 \<or> hard = 0 \<or> hard < soft then Some (Inl EnnInvalidParameter)
      else map_option (\<lambda>r. enn_res sync_err (rbind r (\<lambda>b.
          Inr \<lparr>enn_inner = (with_pending_hard_flush_threshold hard (with_pending_flush_threshold soft b))
                 \<lparr>defer_append_indexing := True\<rparr>, enn_driver = BpAnnDisk, enn_metrics = metrics\<rparr>)))
        (backend_new os env from_json dirs store_files (dim, []) (metrics, []) None False (replicate dim (flit 1 1))))"

section \<open>The handle\<close>

text \<open>The job slot: free, spawned, built but not published, or ended with its error. A panic of
  the worker ends it with an error too.\<close>

datatype flush_job = NoJob | Spawned | Built "IncrementalIndex option" | Ended "enn_error option"

record DiskBackendHandle =
  hd_data :: DiskBpannEnnBackend
  hd_job :: flush_job
  hd_last_error :: "enn_error option"

definition handle_new :: "DiskBpannEnnBackend \<Rightarrow> DiskBackendHandle" where
  "handle_new d = \<lparr>hd_data = d, hd_job = NoJob, hd_last_error = None\<rparr>"

definition on_inner :: "(BpannBackend \<Rightarrow> BpannBackend) \<Rightarrow> DiskBackendHandle \<Rightarrow> DiskBackendHandle" where
  "on_inner f h = h\<lparr>hd_data := (hd_data h)\<lparr>enn_inner := f (enn_inner (hd_data h))\<rparr>\<rparr>"

definition inner :: "DiskBackendHandle \<Rightarrow> BpannBackend" where
  "inner h = enn_inner (hd_data h)"

definition wait_for_flush :: "DiskBackendHandle \<Rightarrow> ((enn_error + unit) \<times> DiskBackendHandle) option" where
  "wait_for_flush h =
     (case hd_job h of
        Spawned \<Rightarrow> None
      | Built _ \<Rightarrow> None
      | Ended (Some e) \<Rightarrow> Some (Inl e, h\<lparr>hd_job := NoJob, hd_last_error := Some e\<rparr>)
      | _ \<Rightarrow> let h = h\<lparr>hd_job := NoJob\<rparr> in
          (case hd_last_error h of
             Some e \<Rightarrow> Some (Inl e, h\<lparr>hd_last_error := None\<rparr>)
           | None \<Rightarrow> Some (Inr (), h)))"

definition flush_now ::
    "'r build_env \<Rightarrow> DiskBackendHandle \<Rightarrow> ((enn_error + unit) \<times> DiskBackendHandle) option" where
  "flush_now env h =
     (let b = inner h in
      if pending_unindexed b \<ge> BpannBackend.pending_hard_flush_threshold b
      then map_option (\<lambda>(r, wd).
        let h1 = on_inner (\<lambda>b. b\<lparr>work_files := wd\<rparr>) h in
        case r of Inl e \<Rightarrow> (Inl (sync_err e), h1)
        | Inr None \<Rightarrow> (Inr (), h1)
        | Inr (Some built) \<Rightarrow> (Inr (), on_inner (soft_sync_publish built) h1)) (soft_sync_build env b)
      else Some (Inr (), h))"

definition schedule_background_flush ::
    "'r build_env \<Rightarrow> DiskBackendHandle \<Rightarrow> ((enn_error + unit) \<times> DiskBackendHandle) option" where
  "schedule_background_flush env h =
     (case hd_last_error h of Some e \<Rightarrow> Some (Inl e, h)
      | None \<Rightarrow>
          (let b = inner h in
           if defer_append_indexing b \<and> pending_unindexed b \<ge> BpannBackend.pending_hard_flush_threshold b then
             (case wait_for_flush h of
                None \<Rightarrow> None
              | Some (Inl e, h1) \<Rightarrow> Some (Inl e, h1)
              | Some (Inr _, h1) \<Rightarrow> flush_now env h1)
           else if hd_job h \<noteq> NoJob then Some (Inr (), h)
           else if \<not> (defer_append_indexing b \<and> pending_unindexed b \<ge> BpannBackend.pending_flush_threshold b)
           then Some (Inr (), h)
           else Some (Inr (), h\<lparr>hd_job := Spawned\<rparr>)))"

definition handle_persist ::
    "'r build_env \<Rightarrow> (IndexHeader \<Rightarrow> u8 list) \<Rightarrow> (u8 list \<Rightarrow> IndexHeader option) \<Rightarrow> fault_plan \<Rightarrow> DiskBackendHandle
      \<Rightarrow> ((enn_error + unit) \<times> DiskBackendHandle) option" where
  "handle_persist env to_json from_json plan h =
     (case wait_for_flush h of
        None \<Rightarrow> None
      | Some (Inl e, h1) \<Rightarrow> Some (Inl e, h1)
      | Some (Inr _, h1) \<Rightarrow>
          map_option (\<lambda>(r, b). (enn_res sync_err r, on_inner (\<lambda>_. b) h1)) (persist_index_to_disk env to_json from_json plan (inner h1)))"

definition handle_ensure_index_sync ::
    "(os_call \<Rightarrow> bool) \<Rightarrow> 'r build_env \<Rightarrow> bool \<Rightarrow> f64 list \<Rightarrow> DiskBackendHandle
      \<Rightarrow> ((enn_error + unit) \<times> DiskBackendHandle) option" where
  "handle_ensure_index_sync os env scale_x scale h =
     (case wait_for_flush h of
        None \<Rightarrow> None
      | Some (Inl e, h1) \<Rightarrow> Some (Inl e, h1)
      | Some (Inr _, h1) \<Rightarrow>
          map_option (\<lambda>(r, b). (enn_res sync_err r, on_inner (\<lambda>_. b) h1)) (ensure_index_sync_with_scale os env scale_x scale (inner h1)))"

text \<open>The model appends only after waiting.\<close>

definition add_rows ::
    "(os_call \<Rightarrow> bool) \<Rightarrow> 'r build_env \<Rightarrow> nat \<times> f64 list list \<Rightarrow> nat \<times> f64 list list \<Rightarrow> (nat \<times> f64 list list) option
      \<Rightarrow> DiskBackendHandle \<Rightarrow> ((enn_error + unit) \<times> DiskBackendHandle) option" where
  "add_rows os env x y yvar h =
     (if snd x = [] then Some (Inr (), h)
      else case wait_for_flush h of
        None \<Rightarrow> None
      | Some (Inl e, h1) \<Rightarrow> Some (Inl e, h1)
      | Some (Inr _, h1) \<Rightarrow>
          map_option (\<lambda>(r, b). (enn_res sync_err r, on_inner (\<lambda>_. b) h1)) (append_rows os env x y yvar (inner h1)))"

section \<open>The worker\<close>

inductive worker_step :: "'r build_env \<Rightarrow> DiskBackendHandle \<Rightarrow> DiskBackendHandle \<Rightarrow> bool" for env where
  build_fails: "hd_job h = Spawned \<Longrightarrow> soft_sync_build env (inner h) = Some (Inl e, wd) \<Longrightarrow>
    worker_step env h ((on_inner (\<lambda>b. b\<lparr>work_files := wd\<rparr>) h)\<lparr>hd_job := Ended (Some (sync_err e))\<rparr>)"
| builds: "hd_job h = Spawned \<Longrightarrow> soft_sync_build env (inner h) = Some (Inr built, wd) \<Longrightarrow>
    worker_step env h ((on_inner (\<lambda>b. b\<lparr>work_files := wd\<rparr>) h)\<lparr>hd_job := Built built\<rparr>)"
| publishes: "hd_job h = Built (Some s) \<Longrightarrow>
    worker_step env h ((on_inner (soft_sync_publish s) h)\<lparr>hd_job := Ended None\<rparr>)"
| nothing_to_publish: "hd_job h = Built None \<Longrightarrow> worker_step env h (h\<lparr>hd_job := Ended None\<rparr>)"

text \<open>A step of the system: the worker, or an operation of the caller that is not blocked. An
  append that fails half way leaves rows in the columns that nothing counts; the number of rows that a
  failed append stored labels its step. A build that does not return makes no step.\<close>

definition torn_rows :: "enn_error + unit \<Rightarrow> DiskBackendHandle \<Rightarrow> DiskBackendHandle \<Rightarrow> nat" where
  "torn_rows r h h' = (if r = Inr () then 0 else backend_len (inner h') - backend_len (inner h))"

inductive flush_step :: "(os_call \<Rightarrow> bool) \<Rightarrow> 'r build_env \<Rightarrow> DiskBackendHandle \<Rightarrow> nat \<Rightarrow> DiskBackendHandle \<Rightarrow> bool" for os env where
  worker: "worker_step env h h' \<Longrightarrow> flush_step os env h 0 h'"
| schedules: "schedule_background_flush env h = Some (r, h') \<Longrightarrow> flush_step os env h 0 h'"
| waits: "wait_for_flush h = Some (r, h') \<Longrightarrow> flush_step os env h 0 h'"
| adds: "add_rows os env x y yvar h = Some (r, h') \<Longrightarrow> flush_step os env h (torn_rows r h h') h'"
| syncs: "handle_ensure_index_sync os env scale_x scale h = Some (r, h') \<Longrightarrow> flush_step os env h 0 h'"
| persists: "handle_persist env to_json from_json plan h = Some (r, h') \<Longrightarrow> flush_step os env h 0 h'"
| searches: "backend_search env queries k ex (inner h) = (r, b) \<Longrightarrow> flush_step os env h 0 (on_inner (\<lambda>_. b) h)"

text \<open>A run, with the number of rows that its failed appends stored.\<close>

inductive flush_run :: "(os_call \<Rightarrow> bool) \<Rightarrow> 'r build_env \<Rightarrow> DiskBackendHandle \<Rightarrow> nat \<Rightarrow> DiskBackendHandle \<Rightarrow> bool" for os env h where
  run_start: "flush_run os env h 0 h"
| run_step: "flush_run os env h n h1 \<Longrightarrow> flush_step os env h1 k h2 \<Longrightarrow> flush_run os env h (n + k) h2"

inductive_cases worker_stepE: "worker_step env h h'"

section \<open>No row is lost between building and publishing\<close>

text \<open>\<open>n\<close> is the number of stored rows that nothing counts.\<close>

definition counts_ok :: "nat \<Rightarrow> BpannBackend \<Rightarrow> bool" where
  "counts_ok n b \<longleftrightarrow> inc_rows (inc_index b) \<le> backend_len b \<and>
     backend_len b - inc_rows (inc_index b) \<le> pending_unindexed b + n \<and>
     (\<not> index_dirty b \<longrightarrow> backend_len b - inc_rows (inc_index b) \<le> n)"

definition handle_ok :: "nat \<Rightarrow> DiskBackendHandle \<Rightarrow> bool" where
  "handle_ok n h \<longleftrightarrow> counts_ok n (inner h) \<and>
     (case hd_job h of Built (Some s) \<Rightarrow> inc_rows s = backend_len (inner h) | _ \<Rightarrow> True)"

lemma inner_simps [simp]:
  "inner (on_inner f h) = f (inner h)" "hd_job (on_inner f h) = hd_job h" "inner (h\<lparr>hd_job := j\<rparr>) = inner h"
  "inner (h\<lparr>hd_last_error := e\<rparr>) = inner h" "hd_last_error (on_inner f h) = hd_last_error h"
  by (simp_all add: inner_def on_inner_def)

lemma maybe_compact_rows:
  assumes "maybe_compact provider s = Some (r, s')"
  shows "inc_rows s' = inc_rows s"
  using assms by (auto simp: maybe_compact_def compact_def Let_def split: if_splits)

lemma sync_span_rows:
  assumes "sync_span env ctx stop s = (r, s')" "inc_rows s < stop"
  shows "inc_rows s' = (if r = Inr () then stop else inc_rows s)"
  using assms
  by (auto simp: sync_span_def Let_def build_empty_leaf_forest_def build_vector_leaf_forest_def build_batch_def
      pushed_def push_fragment_def case_prod_beta split: if_splits sum.splits)

lemma ensure_sync_rows:
  assumes "ensure_sync env ctx stop (s, wd) = Some (r, s', wd')"
  shows "inc_rows s' = inc_rows s \<or> inc_rows s' = stop" "r = Inr () \<Longrightarrow> inc_rows s' = max (inc_rows s) stop"
  using assms
  by (auto simp: ensure_sync_def split: if_splits prod.splits sum.splits option.splits
      dest!: sync_span_rows maybe_compact_rows)

lemma ensure_index_sync_counts:
  assumes "ensure_index_sync os env b = Some (r, b')" "counts_ok n b"
  shows "counts_ok n b'" "train_x b' = train_x b" "r = Inr () \<Longrightarrow> inc_rows (inc_index b') = backend_len b'"
proof -
  have "\<exists>s wd p. b' = b\<lparr>inc_index := s, work_files := wd, pending_unindexed := p\<rparr> \<and>
      (inc_rows s = inc_rows (inc_index b) \<and> p = pending_unindexed b \<and> r \<noteq> Inr () \<or>
       inc_rows s = backend_len b \<and> (p = pending_unindexed b \<and> r \<noteq> Inr () \<or> p = 0))"
  proof (cases "inc_rows (inc_index b) \<ge> backend_len b")
    case True
    then show ?thesis
      using assms by (intro exI [of _ "inc_index b"] exI [of _ "work_files b"] exI [of _ 0])
        (simp add: ensure_index_sync_def counts_ok_def)
  next
    case False
    obtain r1 s wd where sync: "ensure_sync env (backend_ctx b) (backend_len b) (inc_index b, work_files b) = Some (r1, s, wd)"
      using assms(1) False by (auto simp: ensure_index_sync_def Let_def)
    note rows = ensure_sync_rows [OF sync]
    show ?thesis
    proof (cases r1)
      case (Inl e)
      then have "b' = b\<lparr>inc_index := s, work_files := wd, pending_unindexed := pending_unindexed b\<rparr>" "r \<noteq> Inr ()"
        using assms(1) False sync by (auto simp: ensure_index_sync_def Let_def)
      then show ?thesis using rows(1) by blast
    next
      case (Inr u)
      then have "b' = b\<lparr>inc_index := s, work_files := wd, pending_unindexed := 0\<rparr>" "inc_rows s = backend_len b"
        using assms(1) False sync rows(2)
        by (auto simp: ensure_index_sync_def Let_def dest: release_same split: sum.splits)
      then show ?thesis by blast
    qed
  qed
  then show "counts_ok n b'" "train_x b' = train_x b" "r = Inr () \<Longrightarrow> inc_rows (inc_index b') = backend_len b'"
    using assms(2) by (auto simp: counts_ok_def backend_len_def)
qed

lemma rescale_counts: "counts_ok n (reset_index (b\<lparr>scaled := sx, x_scale := scale\<rparr>))"
  by (simp add: counts_ok_def reset_index_def inc_reset_def backend_len_def)

lemma scale_sync_counts:
  assumes "ensure_index_sync_with_scale os env scale_x scale b = Some (r, b')" "counts_ok n b"
  shows "counts_ok n b'"
  using assms rescale_counts
  by (auto simp: ensure_index_sync_with_scale_def intro: ensure_index_sync_counts(1) split: if_splits)

lemma persist_counts:
  assumes "persist_index_to_disk env to_json from_json plan b = Some (r, b')" "counts_ok n b"
  shows "counts_ok n b'"
proof (cases "needs_disk_rewrite from_json (index_files b) (inc_index b) (index_dirty b) (store_rows (train_x b))")
  case False
  then have "\<not> index_dirty b" by (auto simp: needs_disk_rewrite_def split: if_splits)
  then show ?thesis using assms False by (auto simp: persist_index_to_disk_def counts_ok_def backend_len_def)
next
  case True
  obtain r1 s wd where sync: "ensure_sync env (backend_ctx b) (backend_len b) (inc_index b, work_files b) = Some (r1, s, wd)"
    using assms(1) True
    by (cases "ensure_sync env (backend_ctx b) (backend_len b) (inc_index b, work_files b)")
      (auto simp: persist_index_to_disk_def persist_to_disk_def backend_ctx_def backend_len_def)
  note rows = ensure_sync_rows [OF sync]
  have store: "ctx_store (backend_ctx b) = train_x b" by (simp add: backend_ctx_def)
  have pd: "persist_to_disk env to_json plan (backend_ctx b) (inc_index b, work_files b, index_files b) =
      Some (r2, s2, wd2, dir2) \<Longrightarrow> s2 = s \<and> (r2 = Inr () \<longrightarrow> r1 = Inr ())" for r2 s2 wd2 dir2
    using sync by (auto simp: persist_to_disk_def store backend_len_def split: sum.splits if_splits prod.splits)
  obtain r2 wd2 dir2 where b': "(let b1 = b\<lparr>inc_index := s, work_files := wd2, index_files := dir2\<rparr> in
      case r2 of Inl e \<Rightarrow> (Inl e, b1) | Inr _ \<Rightarrow> (Inr (), b1\<lparr>pending_unindexed := 0, index_dirty := False\<rparr>)) = (r, b')"
    and r2: "r2 = Inr () \<longrightarrow> r1 = Inr ()"
    using assms(1) True pd by (auto simp: persist_index_to_disk_def)
  show ?thesis
  proof (cases r2)
    case (Inl e)
    then show ?thesis using b' assms(2) rows(1) by (auto simp: counts_ok_def backend_len_def)
  next
    case (Inr u)
    then show ?thesis using b' assms(2) rows(2) r2 by (auto simp: counts_ok_def backend_len_def)
  qed
qed

lemma mmap_append_rows:
  "mmap_append ok x s = Inr s' \<Longrightarrow> store_rows s' = store_rows s + length (snd x)"
  by (auto simp: mmap_append_def res_simps case_prod_beta Let_def split: if_splits)

lemma append_columns_counts:
  assumes "append_columns os x y yvar b = (Inr (), b')"
  shows "store_rows (train_x b') = store_rows (train_x b) + length (snd x)" "inc_index b' = inc_index b"
    "pending_unindexed b' = pending_unindexed b"
  using assms by (auto simp: append_columns_def Let_def dest: mmap_append_rows split: sum.splits)

lemma note_pending_rows_keeps [simp]: "inc_rows (note_pending_rows env x sx scale s) = inc_rows s"
  by (simp add: note_pending_rows_def case_prod_beta Let_def)

lemma counts_mono: "counts_ok n b \<Longrightarrow> n \<le> k \<Longrightarrow> counts_ok k b"
  by (auto simp: counts_ok_def)

lemma append_columns_failed:
  assumes "append_columns os x y yvar b = (Inl e, b')" "counts_ok n b"
  shows "counts_ok (n + (backend_len b' - backend_len b)) b'"
proof -
  have "store_rows (train_x b) \<le> store_rows (train_x b')" "inc_index b' = inc_index b"
    "pending_unindexed b' = pending_unindexed b" "index_dirty b' = index_dirty b"
    using assms(1) by (auto simp: append_columns_def Let_def dest: mmap_append_rows split: sum.splits)
  then show ?thesis using assms(2) by (auto simp: counts_ok_def backend_len_def)
qed

lemma append_rows_cases:
  assumes "append_rows os env x y yvar b = Some (r, b')"
  obtains (nothing) "b' = b"
    | (torn) e where "append_columns os x y yvar b = (Inl e, b')" "r = Inl (BuildError e)"
    | (grown) b1 where "append_columns os x y yvar b = (Inr (), b1)"
        "b' = note_append env x b1 \<or> ensure_index_sync os env (note_append env x b1) = Some (r, b')"
proof (cases "b' = b")
  case False
  obtain r1 b1 where "append_columns os x y yvar b = (r1, b1)" by fastforce
  then show thesis
    using False assms torn grown
    by (cases r1) (auto simp: append_rows_def Let_def split: if_splits sum.splits)
qed (rule nothing)

lemma append_rows_counts:
  assumes "append_rows os env x y yvar b = Some (r, b')" "counts_ok n b"
  shows "counts_ok (n + (if r = Inr () then 0 else backend_len b' - backend_len b)) b'"
  using assms(1)
proof (cases rule: append_rows_cases)
  case (grown b1)
  then have "counts_ok n (note_append env x b1)"
    using append_columns_counts [OF grown(1)] assms(2) by (auto simp: counts_ok_def note_append_def backend_len_def)
  then have "counts_ok n b'" using grown(2) ensure_index_sync_counts(1) by blast
  then show ?thesis by (rule counts_mono) simp
next
  case (torn e)
  then show ?thesis using append_columns_failed [OF torn(1) assms(2)] by simp
qed (use assms in simp)

lemma search_counts:
  assumes "backend_search env queries k ex b = (r, b')" "counts_ok n b"
  shows "counts_ok n b'" "train_x b' = train_x b"
  using assms by (auto simp: backend_search_def Let_def counts_ok_def backend_len_def load_or_build_small_n_cache_def
      split: if_splits sum.splits option.splits prod.splits)

lemma soft_build_rows:
  assumes "soft_sync_build env b = Some (r, wd)"
  shows "r = Inr (Some s) \<Longrightarrow> counts_ok n b \<Longrightarrow> inc_rows s = backend_len b" "r = Inr None \<Longrightarrow> backend_len b \<le> inc_rows (inc_index b)"
  using assms
  by (auto simp: soft_sync_build_def Let_def res_simps counts_ok_def dest: ensure_sync_rows(2) split: if_splits)

lemma publish_counts: "counts_ok n b \<Longrightarrow> inc_rows s = backend_len b \<Longrightarrow> counts_ok n (soft_sync_publish s b)"
  by (simp add: counts_ok_def soft_sync_publish_def backend_len_def)

section \<open>Every step keeps the handle sound\<close>

lemma counts_frame [simp]: "counts_ok n (b\<lparr>work_files := wd\<rparr>) = counts_ok n b" "backend_len (b\<lparr>work_files := wd\<rparr>) = backend_len b"
  by (simp_all add: counts_ok_def backend_len_def)

lemma wait_result:
  assumes "wait_for_flush h = Some (r, h')"
  shows "inner h' = inner h" "hd_job h' = NoJob"
  using assms by (auto simp: wait_for_flush_def Let_def split: flush_job.splits option.splits)

lemma idle_handle_ok: "hd_job h = NoJob \<Longrightarrow> handle_ok n h = counts_ok n (inner h)"
  by (simp add: handle_ok_def)

lemma worker_keeps:
  assumes "worker_step env h h'" "handle_ok n h"
  shows "handle_ok n h'"
  using assms(1)
proof cases
  case (builds built wd)
  then show ?thesis
    using assms(2) soft_build_rows(1) [OF builds(3)] by (auto simp: handle_ok_def split: option.splits)
next
  case (publishes s)
  then show ?thesis using assms(2) publish_counts by (auto simp: handle_ok_def)
qed (use assms(2) in \<open>auto simp: handle_ok_def\<close>)

lemma flush_now_cases:
  assumes "flush_now env h = Some (r, h')"
  obtains (idle) "h' = h"
    | (built) q wd where "soft_sync_build env (inner h) = Some (q, wd)" "\<forall>s. q \<noteq> Inr (Some s)"
        "h' = on_inner (\<lambda>b. b\<lparr>work_files := wd\<rparr>) h"
    | (published) s wd where "soft_sync_build env (inner h) = Some (Inr (Some s), wd)"
        "h' = on_inner (soft_sync_publish s) (on_inner (\<lambda>b. b\<lparr>work_files := wd\<rparr>) h)"
proof (cases "pending_unindexed (inner h) \<ge> BpannBackend.pending_hard_flush_threshold (inner h)")
  case True
  then obtain q wd where "soft_sync_build env (inner h) = Some (q, wd)"
    using assms by (auto simp: flush_now_def Let_def)
  then show thesis
    using True assms built published by (simp add: flush_now_def Let_def split: sum.splits option.splits)
next
  case False
  then have "h' = h" using assms by (simp add: flush_now_def Let_def)
  then show thesis by (rule idle)
qed

lemma flush_now_keeps:
  assumes "flush_now env h = Some (r, h')" "hd_job h = NoJob" "handle_ok n h"
  shows "handle_ok n h'"
  using assms(1)
proof (cases rule: flush_now_cases)
  case (published s wd)
  then show ?thesis
    using assms(2,3) soft_build_rows(1) [OF published(1), of s] by (simp add: idle_handle_ok publish_counts)
qed (use assms(2,3) in \<open>simp_all add: idle_handle_ok\<close>)

lemma schedule_cases:
  assumes "schedule_background_flush env h = Some (r, h')"
  obtains (same) "h' = h" | (spawned) "h' = h\<lparr>hd_job := Spawned\<rparr>" "hd_job h = NoJob"
    | (waited) r1 where "wait_for_flush h = Some (r1, h')"
    | (hard) h1 where "wait_for_flush h = Some (Inr (), h1)" "flush_now env h1 = Some (r, h')"
proof (cases "h' = h")
  case False
  then show thesis
    using assms spawned waited hard
    by (auto simp: schedule_background_flush_def Let_def split: option.splits if_splits sum.splits prod.splits)
qed (rule same)

lemma schedule_keeps:
  assumes "schedule_background_flush env h = Some (r, h')" "handle_ok n h"
  shows "handle_ok n h'"
  using assms(1)
proof (cases rule: schedule_cases)
  case (spawned)
  then show ?thesis using assms(2) by (simp add: handle_ok_def)
next
  case (waited r1)
  then show ?thesis using assms(2) wait_result [OF waited] by (simp add: handle_ok_def)
next
  case (hard h1)
  then show ?thesis
    using assms(2) wait_result [OF hard(1)] flush_now_keeps [OF hard(2), of n] by (simp add: handle_ok_def)
qed (use assms(2) in simp)

text \<open>An operation that waits and then changes the backend alone.\<close>

lemma waiting_keeps:
  assumes "(case wait_for_flush h of None \<Rightarrow> None | Some (Inl e, h1) \<Rightarrow> Some (Inl e, h1)
      | Some (Inr _, h1) \<Rightarrow> map_option (\<lambda>(r, b). (f r, on_inner (\<lambda>_. b) h1)) (op (inner h1))) = Some (r, h')"
    and "handle_ok n h" "\<And>r b. op (inner h) = Some (r, b) \<Longrightarrow> b = inner h' \<Longrightarrow> counts_ok n b"
  shows "handle_ok n h'"
proof -
  obtain w h1 where w: "wait_for_flush h = Some (w, h1)" using assms(1) by (cases "wait_for_flush h") auto
  note h1 = wait_result [OF w]
  show ?thesis
  proof (cases w)
    case (Inl e)
    then show ?thesis using assms(1,2) w h1 by (simp add: handle_ok_def)
  next
    case (Inr u)
    then obtain r1 b where op: "op (inner h) = Some (r1, b)" "h' = on_inner (\<lambda>_. b) h1"
      using assms(1) w h1 by auto
    then have "counts_ok n b" using assms(3) by simp
    then show ?thesis using op(2) h1(2) by (simp add: handle_ok_def)
  qed
qed

lemma add_keeps:
  assumes "add_rows os env x y yvar h = Some (r, h')" "handle_ok n h"
  shows "handle_ok (n + torn_rows r h h') h'"
proof (cases "snd x = []")
  case False
  obtain w h1 where w: "wait_for_flush h = Some (w, h1)"
    using assms(1) False by (cases "wait_for_flush h") (auto simp: add_rows_def)
  note h1 = wait_result [OF w]
  show ?thesis
  proof (cases w)
    case (Inl e)
    then show ?thesis using assms w h1 False by (simp add: handle_ok_def add_rows_def torn_rows_def)
  next
    case (Inr u)
    then obtain r1 b where op: "append_rows os env x y yvar (inner h) = Some (r1, b)" "h' = on_inner (\<lambda>_. b) h1"
        "r = enn_res sync_err r1"
      using assms(1) w h1 False by (auto simp: add_rows_def)
    have "r1 = Inr () \<longleftrightarrow> r = Inr ()" by (cases r1) (simp_all add: op(3) enn_res_def)
    then have "counts_ok (n + torn_rows r h h') b"
      using append_rows_counts [OF op(1), of n] assms(2) op(2)
      by (cases "r = Inr ()") (simp_all add: handle_ok_def torn_rows_def)
    then show ?thesis using op(2) h1(2) by (simp add: handle_ok_def)
  qed
qed (use assms in \<open>simp add: add_rows_def torn_rows_def\<close>)

lemma flush_step_keeps:
  assumes "flush_step os env h k h'" "handle_ok n h"
  shows "handle_ok (n + k) h'"
  using assms(1)
proof cases
  case worker
  then show ?thesis using assms(2) worker_keeps by simp
next
  case schedules
  then show ?thesis using assms(2) schedule_keeps by simp
next
  case waits
  then show ?thesis using wait_result [OF waits(2)] assms(2) by (simp add: handle_ok_def)
next
  case adds
  then show ?thesis using assms(2) add_keeps by simp
next
  case (syncs scale_x scale r)
  have "handle_ok n h'"
    by (rule waiting_keeps [OF syncs(2) [unfolded handle_ensure_index_sync_def] assms(2)])
      (use assms(2) scale_sync_counts handle_ok_def in blast)
  then show ?thesis using syncs(1) by simp
next
  case (persists to_json from_json plan r)
  have "handle_ok n h'"
    by (rule waiting_keeps [OF persists(2) [unfolded handle_persist_def] assms(2)])
      (use assms(2) persist_counts handle_ok_def in blast)
  then show ?thesis using persists(1) by simp
next
  case searches
  then show ?thesis
    using search_counts [OF searches(3)] assms(2)
    by (auto simp: handle_ok_def backend_len_def split: flush_job.split option.split)
qed

lemma flush_run_ok: "flush_run os env h n h' \<Longrightarrow> handle_ok 0 h \<Longrightarrow> handle_ok n h'"
  by (induction rule: flush_run.induct) (auto intro: flush_step_keeps)

text \<open>C30: the background flush loses no row. Take any run of schedules, waits, appends (failing ones
  included), rescaling syncs, persists, searches and worker steps, in any interleaving the locks allow,
  from a fresh handle whose counts are right, and let \<open>n\<close> be the number of rows that appends which
  failed half way have left in the columns. Then the index never claims more rows than are stored; the
  pending counter falls short of the rows the index lacks by at most \<open>n\<close>; a backend not marked dirty
  lacks at most \<open>n\<close>; and an index the worker is about to publish covers every row stored by then. While no
  append has failed half way, \<open>n\<close> is zero.\<close>

theorem flush_loses_no_row:
  assumes "counts_ok 0 (enn_inner d)" "flush_run os env (handle_new d) n h"
  shows "inc_rows (inc_index (inner h)) \<le> backend_len (inner h) \<and>
    backend_len (inner h) - inc_rows (inc_index (inner h)) \<le> pending_unindexed (inner h) + n \<and>
    (\<not> index_dirty (inner h) \<longrightarrow> backend_len (inner h) - inc_rows (inc_index (inner h)) \<le> n) \<and>
    (\<forall>s. hd_job h = Built (Some s) \<longrightarrow> inc_rows s = backend_len (inner h))"
proof -
  have "handle_ok 0 (handle_new d)" using assms(1) by (simp add: handle_ok_def handle_new_def inner_def)
  then show ?thesis using flush_run_ok [OF assms(2)] by (auto simp: handle_ok_def counts_ok_def)
qed

section \<open>The flush ends\<close>

text \<open>The steps a job still has to take.\<close>

definition job_steps :: "flush_job \<Rightarrow> nat" where
  "job_steps j = (case j of Spawned \<Rightarrow> 2 | Built _ \<Rightarrow> 1 | _ \<Rightarrow> 0)"

lemma worker_step_decreases: "worker_step env h h' \<Longrightarrow> job_steps (hd_job h') < job_steps (hd_job h)"
  by (erule worker_stepE) (auto simp: job_steps_def)

lemma worker_steps_bounded: "(worker_step env ^^ n) h h' \<Longrightarrow> n + job_steps (hd_job h') \<le> job_steps (hd_job h)"
  by (induction n arbitrary: h') (fastforce dest: worker_step_decreases)+

lemma soft_build_None:
  assumes "soft_sync_build env b = None"
  shows "structured_build_row_limit (current_tuning (env_tuning env)) < backend_len b - inc_rows (inc_index b) \<and>
    backend_len b - inc_rows (inc_index b) \<le> saturating_mul (structured_build_row_limit (current_tuning (env_tuning env))) 2 \<and>
    (span_splits env (backend_ctx b) (inc_rows (inc_index b)) (backend_len b) \<longrightarrow> env_fuel env \<le> backend_len b - inc_rows (inc_index b))"
proof -
  have "inc_rows (inc_index b) < backend_len b" "ensure_sync env (backend_ctx b) (backend_len b) (inc_index b, work_files b) = None"
    using assms by (auto simp: soft_sync_build_def Let_def split: if_splits)
  then show ?thesis using sync_span_out_of_fuel sync_span_enough ensure_sync_None by blast
qed

lemma worker_progress:
  "(\<exists>h'. worker_step env h h') \<longleftrightarrow> job_steps (hd_job h) \<noteq> 0 \<and> (hd_job h = Spawned \<longrightarrow> soft_sync_build env (inner h) \<noteq> None)"
proof (cases "hd_job h")
  case Spawned
  then have "(\<exists>h'. worker_step env h h') \<longleftrightarrow> soft_sync_build env (inner h) \<noteq> None"
    using build_fails [of h env] builds [of h env] by (auto elim!: worker_stepE) (metis obj_sumE)
  then show ?thesis using Spawned by (simp add: job_steps_def)
next
  case (Built s)
  then have "\<exists>h'. worker_step env h h'" using publishes nothing_to_publish by (cases s) blast+
  then show ?thesis using Built by (simp add: job_steps_def)
qed (auto simp: job_steps_def elim: worker_stepE)

text \<open>What the steps of a spawned job leave behind.\<close>

definition job_seen :: "DiskBackendHandle \<Rightarrow> bool" where
  "job_seen h \<longleftrightarrow> (hd_job h = Built None \<or> hd_job h = Ended None \<longrightarrow> inc_rows (inc_index (inner h)) = backend_len (inner h))"

lemma worker_step_seen:
  assumes "worker_step env h h'" "handle_ok n h" "job_seen h"
  shows "job_seen h'"
  using assms(1)
proof cases
  case (builds built wd)
  then show ?thesis
    using assms(2) soft_build_rows(2) [OF builds(3)] by (auto simp: job_seen_def handle_ok_def counts_ok_def)
next
  case (publishes s)
  then show ?thesis using assms(2) by (simp add: job_seen_def handle_ok_def soft_sync_publish_def backend_len_def)
qed (use assms(3) in \<open>simp_all add: job_seen_def\<close>)

lemma worker_steps_seen:
  "(worker_step env ^^ k) h h' \<Longrightarrow> handle_ok n h \<Longrightarrow> job_seen h \<Longrightarrow> handle_ok n h' \<and> job_seen h'"
  by (induction k arbitrary: h') (auto dest: worker_step_seen worker_keeps)

lemma wait_blocks: "wait_for_flush h = None \<longleftrightarrow> job_steps (hd_job h) \<noteq> 0"
  by (auto simp: wait_for_flush_def job_steps_def Let_def split: flush_job.split option.split)

lemma worker_leaves_spawned:
  assumes "(worker_step env ^^ n) h h'" "hd_job h = Spawned" "hd_job h' = Spawned"
  shows "h' = h"
  using worker_steps_bounded [OF assms(1)] assms by (cases n) (simp_all add: job_steps_def)

text \<open>C31: a spawned flush ends unless its build does not return. From any reachable handle with a spawned
  job, the worker takes at most two steps. As long as a waiting caller is blocked the worker can take
  another step, except before the first step when the build does not return, which takes pending rows
  that are more than the limit of structured builds and not more than twice that and, with more fuel
  than there are such rows, a k-means run that leaves the rows it splits in one cluster. When the flush ends
  without an error every stored row is indexed, and no caller is blocked once the worker has ended.\<close>

theorem background_flush_completes:
  assumes "counts_ok 0 (enn_inner d)" "flush_run os env (handle_new d) torn h" "hd_job h = Spawned"
    and "(worker_step env ^^ n) h h'"
  shows "n \<le> 2 \<and>
    (wait_for_flush h' = None \<longleftrightarrow> (\<exists>h''. worker_step env h' h'') \<or> h' = h \<and> soft_sync_build env (inner h) = None) \<and>
    (soft_sync_build env (inner h) = None \<longrightarrow>
      structured_build_row_limit (current_tuning (env_tuning env)) < backend_len (inner h) - inc_rows (inc_index (inner h)) \<and>
      backend_len (inner h) - inc_rows (inc_index (inner h))
        \<le> saturating_mul (structured_build_row_limit (current_tuning (env_tuning env))) 2 \<and>
      (span_splits env (backend_ctx (inner h)) (inc_rows (inc_index (inner h))) (backend_len (inner h)) \<longrightarrow>
        env_fuel env \<le> backend_len (inner h) - inc_rows (inc_index (inner h)))) \<and>
    (hd_job h' = Ended None \<longrightarrow> inc_rows (inc_index (inner h')) = backend_len (inner h'))"
proof -
  have "handle_ok 0 (handle_new d)" using assms(1) by (simp add: handle_ok_def handle_new_def inner_def)
  then have "handle_ok torn h" by (rule flush_run_ok [OF assms(2)])
  then have "job_seen h'" using worker_steps_seen [OF assms(4), of torn] assms(3) by (simp add: job_seen_def)
  moreover have "n \<le> 2" using worker_steps_bounded [OF assms(4)] assms(3) by (simp add: job_steps_def)
  moreover have "wait_for_flush h' = None \<longleftrightarrow> (\<exists>h''. worker_step env h' h'') \<or> h' = h \<and> soft_sync_build env (inner h) = None"
    using worker_leaves_spawned [OF assms(4,3)] assms(3) wait_blocks [of h']
    by (auto simp: worker_progress job_steps_def)
  ultimately show ?thesis using soft_build_None [of env "inner h"] by (simp add: job_seen_def)
qed

text \<open>A backend of one appended row whose soft threshold is one.\<close>

definition one_pending :: DiskBpannEnnBackend where
  "one_pending = \<lparr>enn_inner = (one_backend None)\<lparr>pending_flush_threshold := 1\<rparr>, enn_driver = BpAnnDisk, enn_metrics = 1\<rparr>"

lemma one_pending_counts: "counts_ok 0 (enn_inner one_pending)"
  by (simp add: counts_ok_def one_pending_def one_backend_def backend_len_def one_row_def incremental_new_def)

lemma one_pending_scheduled:
  "schedule_background_flush test_env (handle_new one_pending) = Some (Inr (), (handle_new one_pending)\<lparr>hd_job := Spawned\<rparr>)"
  by (simp add: schedule_background_flush_def handle_new_def inner_def one_pending_def one_backend_def)

lemma one_pending_reaches:
  "flush_run (\<lambda>_. True) test_env (handle_new one_pending) 0 ((handle_new one_pending)\<lparr>hd_job := Spawned\<rparr>)"
  using run_step [OF run_start schedules [OF one_pending_scheduled]] by simp

theorem flush_loses_no_row_witness:
  "\<exists>h. schedule_background_flush test_env (handle_new one_pending) = Some (Inr (), h) \<and> hd_job h = Spawned \<and>
    backend_len (inner h) - inc_rows (inc_index (inner h)) \<le> pending_unindexed (inner h)"
  using flush_loses_no_row [OF one_pending_counts one_pending_reaches] one_pending_scheduled by simp

theorem background_flush_completes_witness:
  "\<exists>h'. worker_step test_env ((handle_new one_pending)\<lparr>hd_job := Spawned\<rparr>) h' \<and>
    (wait_for_flush h' = None \<longleftrightarrow> (\<exists>h''. worker_step test_env h' h''))"
proof -
  let ?h = "(handle_new one_pending)\<lparr>hd_job := Spawned\<rparr>"
  have "backend_len (inner ?h) - inc_rows (inc_index (inner ?h)) = 1"
    by (simp add: one_pending_def handle_new_def inner_def one_backend_def backend_len_def one_row_def incremental_new_def)
  moreover have "structured_build_row_limit (current_tuning (env_tuning test_env)) = 1024"
    by (simp add: default_limits test_env_def)
  ultimately have returns: "soft_sync_build test_env (inner ?h) \<noteq> None"
    using soft_build_None [of test_env "inner ?h"] by force
  then obtain h' where step: "worker_step test_env ?h h'"
    using worker_progress [of test_env ?h] by (auto simp: job_steps_def)
  then have "(worker_step test_env ^^ 1) ?h h'" by (simp add: eq_OO)
  then show ?thesis
    using background_flush_completes [OF one_pending_counts one_pending_reaches, of 1 h'] step returns by auto
qed

end
