(* ===== verification/EnnIndex.thy ===== *)
theory EnnIndex
  imports FlushController
begin

text \<open>
  The in-memory index of the ENN model: \<open>rust/crates/ennx/src/index.rs\<close> over
  \<open>knn/mod.rs\<close> and \<open>knn/faiss_backend.rs\<close>, in a build without the GPU and usearch variants. The C
  functions of the faiss library are a parameter (\<open>faiss_ops\<close>) over their own state; a return code
  is true when it is zero. A matrix is its column count and its rows, a matrix of distances with
  its matrix of labels one pair of lists per query.
\<close>

type_synonym ematrix = "nat \<times> f64 list list"

type_synonym hits = "f64 list \<times> int list"

datatype IndexError = IndexShape nat nat | IndexParameter | IxPanic

record 'f faiss_ops =
  faiss_new :: "nat \<Rightarrow> 'f option"
  faiss_reset :: "'f \<Rightarrow> bool \<times> 'f"
  faiss_add :: "nat \<Rightarrow> f32 list \<Rightarrow> 'f \<Rightarrow> bool \<times> 'f"
  faiss_len :: "'f \<Rightarrow> nat"
  faiss_search :: "nat \<Rightarrow> nat \<Rightarrow> f32 list \<Rightarrow> 'f \<Rightarrow> (f32 list \<times> int list) option \<times> 'f"

record 'f FaissBackend =
  fb_handle :: 'f
  fb_dim :: nat

definition arr2_rows_to_f32 :: "f64 list list \<Rightarrow> f32 list" where
  "arr2_rows_to_f32 rows = map f32_of_f64 (concat rows)"

definition faiss_add_rows :: "'f faiss_ops \<Rightarrow> ematrix \<Rightarrow> 'f FaissBackend \<Rightarrow> (IndexError + unit) \<times> 'f FaissBackend" where
  "faiss_add_rows ops m b =
     (if fst m \<noteq> fb_dim b then (Inl (IndexShape (fb_dim b) (fst m)), b)
      else if snd m = [] then (Inr (), b)
      else let (ok, h) = faiss_add ops (length (snd m)) (arr2_rows_to_f32 (snd m)) (fb_handle b)
        in (if ok then Inr () else Inl IndexParameter, b\<lparr>fb_handle := h\<rparr>))"

text \<open>An array without elements has no rows or no columns.\<close>

definition no_elements :: "ematrix \<Rightarrow> bool" where
  "no_elements m \<longleftrightarrow> fst m = 0 \<or> snd m = []"

definition faiss_backend_new :: "'f faiss_ops \<Rightarrow> nat \<Rightarrow> ematrix \<Rightarrow> IndexError + 'f FaissBackend" where
  "faiss_backend_new ops dim m =
     (if fst m \<noteq> dim then Inl (IndexShape dim (fst m))
      else case faiss_new ops dim of
          None \<Rightarrow> Inl IndexParameter
        | Some h \<Rightarrow>
            let b = \<lparr>fb_handle = h, fb_dim = dim\<rparr> in
            if no_elements m then Inr b
            else (case faiss_add_rows ops m b of (Inl e, _) \<Rightarrow> Inl e | (Inr _, b1) \<Rightarrow> Inr b1))"

definition faiss_backend_len :: "'f faiss_ops \<Rightarrow> 'f FaissBackend \<Rightarrow> nat" where
  "faiss_backend_len ops b = faiss_len ops (fb_handle b)"

definition faiss_memory_bytes :: "'f faiss_ops \<Rightarrow> 'f FaissBackend \<Rightarrow> nat" where
  "faiss_memory_bytes ops b = min (min (faiss_backend_len ops b * fb_dim b) (2 ^ 64 - 1) * 4) (2 ^ 64 - 1)"

definition faiss_rebuild :: "'f faiss_ops \<Rightarrow> ematrix \<Rightarrow> 'f FaissBackend \<Rightarrow> (IndexError + unit) \<times> 'f FaissBackend" where
  "faiss_rebuild ops m b =
     (if fst m \<noteq> fb_dim b then (Inl (IndexShape (fb_dim b) (fst m)), b)
      else let (ok, h) = faiss_reset ops (fb_handle b); b1 = b\<lparr>fb_handle := h\<rparr> in
        if \<not> ok then (Inl IndexParameter, b1)
        else if no_elements m then (Inr (), b1) else faiss_add_rows ops m b1)"

text \<open>The flat answer of the library, cut into rows.\<close>

definition unpack_batch_search :: "nat \<Rightarrow> nat \<Rightarrow> f32 list \<Rightarrow> int list \<Rightarrow> hits list" where
  "unpack_batch_search n k ds ls =
     map (\<lambda>i. (map (\<lambda>j. f64_of_f32 (ds ! (i * k + j))) [0..<k], map (\<lambda>j. ls ! (i * k + j)) [0..<k])) [0..<n]"

text \<open>Missing columns are filled with infinite distances and the last label.\<close>

definition pad_hits :: "nat \<Rightarrow> nat \<Rightarrow> hits \<Rightarrow> hits" where
  "pad_hits k search_k = (\<lambda>(ds, ls).
     if k \<ge> search_k then (ds, ls)
     else if k = 0 then (replicate search_k infinity, replicate search_k 0)
     else (ds @ replicate (search_k - k) infinity, ls @ replicate (search_k - k) (ls ! (k - 1))))"

definition pad_neighbor_cols_to_search_k :: "nat \<Rightarrow> nat \<Rightarrow> hits list \<Rightarrow> hits list" where
  "pad_neighbor_cols_to_search_k k search_k = map (pad_hits k search_k)"

definition faiss_backend_search ::
    "'f faiss_ops \<Rightarrow> ematrix \<Rightarrow> nat \<Rightarrow> nat \<Rightarrow> 'f FaissBackend \<Rightarrow> (IndexError + hits list) \<times> 'f FaissBackend" where
  "faiss_backend_search ops q k_eff search_k b =
     (if fst q \<noteq> fb_dim b then (Inl (IndexShape (fb_dim b) (fst q)), b)
      else let n = length (snd q);
               (answer, h) = (if k_eff > 0 \<and> n > 0 then faiss_search ops n k_eff (arr2_rows_to_f32 (snd q)) (fb_handle b)
                              else (Some (replicate (n * k_eff) fzero, replicate (n * k_eff) 0), fb_handle b));
               b1 = b\<lparr>fb_handle := h\<rparr>
        in (case answer of
              None \<Rightarrow> (Inl IndexParameter, b1)
            | Some (ds, ls) \<Rightarrow> (Inr (pad_neighbor_cols_to_search_k k_eff search_k (unpack_batch_search n k_eff ds ls)), b1)))"

text \<open>The drivers that this build provides.\<close>

definition knn_backend_new :: "'f faiss_ops \<Rightarrow> nat \<Rightarrow> IndexDriver \<Rightarrow> ematrix \<Rightarrow> IndexError + 'f FaissBackend" where
  "knn_backend_new ops dim driver m =
     (if driver = Exact \<or> driver = Auto then faiss_backend_new ops dim m else Inl IndexParameter)"

section \<open>The index\<close>

record 'f ENNIndex =
  ix_inner :: "'f FaissBackend"
  ix_dim :: nat
  ix_x_scale :: "f64 list"
  ix_scale_x :: bool
  ix_driver :: IndexDriver

text \<open>A matrix divided by a row; one column or one divisor is broadcast, other widths panic.\<close>

definition divide_by :: "ematrix \<Rightarrow> f64 list \<Rightarrow> IndexError + ematrix" where
  "divide_by m scale =
     (if fst m = length scale then Inr (fst m, map (\<lambda>r. map2 fdiv r scale) (snd m))
      else if length scale = 1 then Inr (fst m, map (map (\<lambda>v. fdiv v (hd scale))) (snd m))
      else if fst m = 1 then Inr (length scale, map (\<lambda>r. map (fdiv (hd r)) scale) (snd m))
      else Inl IxPanic)"

definition scaled_by :: "bool \<Rightarrow> f64 list \<Rightarrow> ematrix \<Rightarrow> IndexError + ematrix" where
  "scaled_by scale_x scale m = (if scale_x then divide_by m scale else Inr m)"

definition index_new ::
    "'f faiss_ops \<Rightarrow> ematrix \<Rightarrow> nat \<Rightarrow> f64 list \<Rightarrow> bool \<Rightarrow> IndexDriver \<Rightarrow> IndexError + 'f ENNIndex" where
  "index_new ops m dim scale scale_x driver =
     rbind (knn_backend_new ops dim driver m) (\<lambda>b.
       Inr \<lparr>ix_inner = b, ix_dim = dim, ix_x_scale = scale, ix_scale_x = scale_x, ix_driver = driver\<rparr>)"

definition index_len :: "'f faiss_ops \<Rightarrow> 'f ENNIndex \<Rightarrow> nat" where
  "index_len ops ix = faiss_backend_len ops (ix_inner ix)"

definition rebuild_from_scaled :: "'f faiss_ops \<Rightarrow> ematrix \<Rightarrow> f64 list \<Rightarrow> 'f ENNIndex \<Rightarrow> (IndexError + unit) \<times> 'f ENNIndex" where
  "rebuild_from_scaled ops m scale ix =
     (case faiss_rebuild ops m (ix_inner ix) of
        (Inl e, b) \<Rightarrow> (Inl e, ix\<lparr>ix_inner := b\<rparr>)
      | (Inr _, b) \<Rightarrow> (Inr (), ix\<lparr>ix_inner := b, ix_x_scale := scale\<rparr>))"

definition index_add :: "'f faiss_ops \<Rightarrow> ematrix \<Rightarrow> 'f ENNIndex \<Rightarrow> (IndexError + unit) \<times> 'f ENNIndex" where
  "index_add ops m ix =
     (if fst m \<noteq> ix_dim ix then (Inl (IndexShape (ix_dim ix) (fst m)), ix)
      else case scaled_by (ix_scale_x ix) (ix_x_scale ix) m of
          Inl e \<Rightarrow> (Inl e, ix)
        | Inr m1 \<Rightarrow> (let (r, b) = faiss_add_rows ops m1 (ix_inner ix) in (r, ix\<lparr>ix_inner := b\<rparr>)))"

definition drop_nearest :: "bool \<Rightarrow> hits list \<Rightarrow> hits list" where
  "drop_nearest exclude rows = (if exclude then map (\<lambda>(ds, ls). (drop 1 ds, drop 1 ls)) rows else rows)"

definition index_search ::
    "'f faiss_ops \<Rightarrow> ematrix \<Rightarrow> int \<Rightarrow> bool \<Rightarrow> 'f ENNIndex \<Rightarrow> (IndexError + hits list) \<times> 'f ENNIndex" where
  "index_search ops q search_k exclude ix =
     (if search_k \<le> 0 then (Inl IndexParameter, ix)
      else if fst q \<noteq> ix_dim ix then (Inl (IndexShape (ix_dim ix) (fst q)), ix)
      else let n_train = index_len ops ix; k = nat search_k in
        (case scaled_by (ix_scale_x ix) (ix_x_scale ix) q of
           Inl e \<Rightarrow> (Inl e, ix)
         | Inr q1 \<Rightarrow>
             if n_train = 0
             then (Inr (drop_nearest exclude (map (\<lambda>_. (replicate k infinity, replicate k 0)) (snd q))), ix)
             else (let (r, b) = faiss_backend_search ops q1 (min k n_train) k (ix_inner ix)
                   in (rbind r (\<lambda>rows. Inr (drop_nearest exclude rows)), ix\<lparr>ix_inner := b\<rparr>))))"

definition enn_index_memory_bytes :: "'f faiss_ops \<Rightarrow> 'f ENNIndex \<Rightarrow> nat" where
  "enn_index_memory_bytes ops ix = faiss_memory_bytes ops (ix_inner ix)"

end
