(* ===== verification/EnnMemory.thy ===== *)
theory EnnMemory
  imports EnnIndex
begin

text \<open>
  The in-memory backend of the ENN model (\<open>rust/crates/ennx/src/backend/in_memory.rs\<close> over
  \<open>backend/row_storage.rs\<close>) and the choice between it and the disk backend (\<open>backend/mod.rs\<close>).

  A row store is its width and its rows; the capacity of its buffer is not modelled. Row access
  panics past the end. The outer option of an operation of either backend is a disk operation that
  waits for a flush that has not ended.
\<close>

datatype ENNError = EShape "nat list" "nat list" | EParameter | EIndex IndexError | EPanic

type_synonym train_rows = "ematrix \<times> ematrix \<times> ematrix option"

definition param_err :: "IndexError + 'a \<Rightarrow> ENNError + 'a" where
  "param_err r = (case r of Inl IxPanic \<Rightarrow> Inl EPanic | Inl _ \<Rightarrow> Inl EParameter | Inr x \<Rightarrow> Inr x)"

definition index_err :: "IndexError + 'a \<Rightarrow> ENNError + 'a" where
  "index_err r = (case r of Inl IxPanic \<Rightarrow> Inl EPanic | Inl e \<Rightarrow> Inl (EIndex e) | Inr x \<Rightarrow> Inr x)"

section \<open>Rows\<close>

record RowStorage =
  rs_cols :: nat
  rs_rows :: "f64 list list"

definition from_array2 :: "ematrix \<Rightarrow> RowStorage" where
  "from_array2 m = \<lparr>rs_cols = fst m, rs_rows = snd m\<rparr>"

definition storage_view :: "RowStorage \<Rightarrow> ematrix" where
  "storage_view s = (rs_cols s, rs_rows s)"

definition row_vec :: "nat \<Rightarrow> RowStorage \<Rightarrow> ENNError + f64 list" where
  "row_vec i s = (if i < length (rs_rows s) then Inr (rs_rows s ! i) else Inl EPanic)"

definition gather_storage :: "nat list \<Rightarrow> RowStorage \<Rightarrow> ENNError + ematrix" where
  "gather_storage is s = rbind (map_res (\<lambda>i. row_vec i s) is) (\<lambda>rows. Inr (rs_cols s, rows))"

definition push_rows :: "ematrix \<Rightarrow> RowStorage \<Rightarrow> ENNError + RowStorage" where
  "push_rows m s =
     (if fst m \<noteq> rs_cols s
      then Inl (EShape [length (rs_rows s), rs_cols s] [length (snd m), fst m])
      else Inr (s\<lparr>rs_rows := rs_rows s @ snd m\<rparr>))"

section \<open>The in-memory backend\<close>

record 'f InMemoryEnnBackend =
  im_x :: RowStorage
  im_y :: RowStorage
  im_yvar :: "RowStorage option"
  im_dim :: nat
  im_metrics :: nat
  im_index :: "'f ENNIndex"
  im_stale :: bool
  im_synced :: nat

definition in_memory_new ::
    "'f faiss_ops \<Rightarrow> ematrix \<Rightarrow> ematrix \<Rightarrow> ematrix option \<Rightarrow> bool \<Rightarrow> f64 list \<Rightarrow> IndexDriver
      \<Rightarrow> ENNError + 'f InMemoryEnnBackend" where
  "in_memory_new ops x y yvar scale_x scale driver =
     rbind (param_err (scaled_by scale_x scale x)) (\<lambda>sx.
     rbind (param_err (index_new ops sx (fst x) scale scale_x driver)) (\<lambda>ix.
     Inr \<lparr>im_x = from_array2 x, im_y = from_array2 y, im_yvar = map_option from_array2 yvar, im_dim = fst x,
       im_metrics = fst y, im_index = ix, im_stale = False, im_synced = min (index_len ops ix) (length (snd x))\<rparr>))"

definition ones :: "nat \<Rightarrow> f64 list" where
  "ones n = replicate n (flit 1 1)"

definition in_memory_new_empty :: "'f faiss_ops \<Rightarrow> nat \<Rightarrow> nat \<Rightarrow> IndexDriver \<Rightarrow> ENNError + 'f InMemoryEnnBackend" where
  "in_memory_new_empty ops dim metrics driver = in_memory_new ops (dim, []) (metrics, []) None False (ones dim) driver"

definition in_memory_len :: "'f InMemoryEnnBackend \<Rightarrow> nat" where
  "in_memory_len b = length (rs_rows (im_x b))"

text \<open>The columns are pushed one after the other: a failure leaves the ones before it longer.\<close>

definition in_memory_append ::
    "ematrix \<Rightarrow> ematrix \<Rightarrow> ematrix option \<Rightarrow> 'f InMemoryEnnBackend \<Rightarrow> (ENNError + unit) \<times> 'f InMemoryEnnBackend" where
  "in_memory_append x y yvar b =
     (if snd x = [] then (Inr (), b)
      else case push_rows x (im_x b) of
          Inl e \<Rightarrow> (Inl e, b)
        | Inr sx \<Rightarrow>
            let b1 = b\<lparr>im_x := sx\<rparr> in
            (case push_rows y (im_y b1) of
               Inl e \<Rightarrow> (Inl e, b1)
             | Inr sy \<Rightarrow>
                 let b2 = b1\<lparr>im_y := sy\<rparr> in
                 (case (im_yvar b2, yvar) of
                    (Some s, Some v) \<Rightarrow>
                      (case push_rows v s of Inl e \<Rightarrow> (Inl e, b2) | Inr sv \<Rightarrow> (Inr (), b2\<lparr>im_yvar := Some sv\<rparr>))
                  | (None, Some v) \<Rightarrow> (Inr (), b2\<lparr>im_yvar := Some (from_array2 v)\<rparr>)
                  | _ \<Rightarrow> (Inr (), b2))))"

definition in_memory_mark_stale :: "'f InMemoryEnnBackend \<Rightarrow> 'f InMemoryEnnBackend" where
  "in_memory_mark_stale b = b\<lparr>im_stale := True\<rparr>"

definition rebuilt ::
    "'f faiss_ops \<Rightarrow> ematrix \<Rightarrow> f64 list \<Rightarrow> 'f InMemoryEnnBackend \<Rightarrow> (ENNError + unit) \<times> 'f InMemoryEnnBackend" where
  "rebuilt ops m scale b =
     (let (r, ix) = rebuild_from_scaled ops m scale (im_index b) in (index_err r, b\<lparr>im_index := ix\<rparr>))"

text \<open>With scaling the index is rebuilt when it is stale. Without, it is rebuilt when its length
  is not that of the rows, and otherwise gets the rows after the last synchronised one.\<close>

definition in_memory_ensure_sync ::
    "'f faiss_ops \<Rightarrow> bool \<Rightarrow> f64 list \<Rightarrow> 'f InMemoryEnnBackend \<Rightarrow> (ENNError + unit) \<times> 'f InMemoryEnnBackend" where
  "in_memory_ensure_sync ops scale_x scale b0 =
     (let x = storage_view (im_x b0); n = in_memory_len b0 in
      if scale_x
      then (if \<not> im_stale b0 then (Inr (), b0)
            else case param_err (divide_by x scale) of
                Inl e \<Rightarrow> (Inl e, b0)
              | Inr sx \<Rightarrow>
                  (case rebuilt ops sx scale b0 of
                     (Inl e, b1) \<Rightarrow> (Inl e, b1)
                   | (Inr _, b1) \<Rightarrow> (Inr (), b1\<lparr>im_stale := False, im_synced := n\<rparr>)))
      else let len = index_len ops (im_index b0);
               b = b0\<lparr>im_synced := min (im_synced b0) len\<rparr>
        in if n > 0 \<and> (len \<noteq> n \<or> im_synced b = 0 \<and> len \<noteq> 0)
           then (case rebuilt ops x scale b of
                   (Inl e, b1) \<Rightarrow> (Inl e, b1)
                 | (Inr _, b1) \<Rightarrow> (Inr (), b1\<lparr>im_synced := n\<rparr>))
           else if im_synced b \<ge> n \<and> len \<ge> n then (Inr (), b)
           else if im_synced b > n then (Inl EPanic, b)
           else let pending = drop (im_synced b) (snd x) in
             (if pending = [] then (Inr (), b\<lparr>im_synced := n\<rparr>)
              else (let (r, ix) = index_add ops (fst x, pending) (im_index b); b1 = b\<lparr>im_index := ix\<rparr>
                    in (case param_err r of Inl e \<Rightarrow> (Inl e, b1) | Inr _ \<Rightarrow> (Inr (), b1\<lparr>im_synced := n\<rparr>)))))"

definition in_memory_train_rows_at :: "nat list \<Rightarrow> 'f InMemoryEnnBackend \<Rightarrow> ENNError + train_rows" where
  "in_memory_train_rows_at is b =
     (if \<exists>i\<in>set is. i \<ge> in_memory_len b then Inl EParameter
      else rbind (gather_storage is (im_x b)) (\<lambda>x.
           rbind (gather_storage is (im_y b)) (\<lambda>y.
           case im_yvar b of None \<Rightarrow> Inr (x, y, None)
           | Some s \<Rightarrow> rbind (gather_storage is s) (\<lambda>v. Inr (x, y, Some v)))))"

definition in_memory_row_x :: "nat \<Rightarrow> 'f InMemoryEnnBackend \<Rightarrow> ENNError + f64 list" where
  "in_memory_row_x i b = (if i \<ge> in_memory_len b then Inl EParameter else row_vec i (im_x b))"

definition in_memory_row_y :: "nat \<Rightarrow> 'f InMemoryEnnBackend \<Rightarrow> ENNError + f64 list" where
  "in_memory_row_y i b = (if i \<ge> in_memory_len b then Inl EParameter else row_vec i (im_y b))"

definition in_memory_row_yvar :: "nat \<Rightarrow> 'f InMemoryEnnBackend \<Rightarrow> ENNError + f64 list option" where
  "in_memory_row_yvar i b =
     (if i \<ge> in_memory_len b then Inl EParameter
      else case im_yvar b of None \<Rightarrow> Inr None | Some s \<Rightarrow> rbind (row_vec i s) (\<lambda>v. Inr (Some v)))"

definition in_memory_search ::
    "'f faiss_ops \<Rightarrow> ematrix \<Rightarrow> int \<Rightarrow> bool \<Rightarrow> 'f InMemoryEnnBackend \<Rightarrow> (ENNError + hits list) \<times> 'f InMemoryEnnBackend" where
  "in_memory_search ops q k exclude b =
     (let (r, ix) = index_search ops q k exclude (im_index b) in (param_err r, b\<lparr>im_index := ix\<rparr>))"

section \<open>Either backend\<close>

datatype EnnStorage = StorageInMemory | StorageDisk

datatype 'f EnnBackend = InMemory "'f InMemoryEnnBackend" | Disk DiskBackendHandle

text \<open>What the operations of a backend use of the outside: faiss, the operating system, the
  environment of builds, the JSON of a header and faults of persisting.\<close>

record ('f, 'r) backend_env =
  be_faiss :: "'f faiss_ops"
  be_os :: "os_call \<Rightarrow> bool"
  be_build :: "'r build_env"
  be_to_json :: "IndexHeader \<Rightarrow> u8 list"
  be_from_json :: "u8 list \<Rightarrow> IndexHeader option"
  be_plan :: fault_plan

definition of_enn_error :: "enn_error \<Rightarrow> ENNError" where
  "of_enn_error e = (case e of EnnInvalidParameter \<Rightarrow> EParameter
     | EnnInvalidShape p q \<Rightarrow> EShape [fst p, snd p] [fst q, snd q])"

definition disk_res :: "enn_error + 'a \<Rightarrow> ENNError + 'a" where
  "disk_res r = (case r of Inl e \<Rightarrow> Inl (of_enn_error e) | Inr x \<Rightarrow> Inr x)"

text \<open>A result of the in-memory backend, which never waits.\<close>

definition in_memory :: "'a \<times> 'f InMemoryEnnBackend \<Rightarrow> ('a \<times> 'f EnnBackend) option" where
  "in_memory = (\<lambda>(r, b). Some (r, InMemory b))"

definition on_disk :: "((enn_error + 'a) \<times> DiskBackendHandle) option \<Rightarrow> ((ENNError + 'a) \<times> 'f EnnBackend) option" where
  "on_disk = map_option (\<lambda>(r, h). (disk_res r, Disk h))"

definition eb_wait_for_flush :: "'f EnnBackend \<Rightarrow> ((ENNError + unit) \<times> 'f EnnBackend) option" where
  "eb_wait_for_flush b = (case b of InMemory m \<Rightarrow> in_memory (Inr (), m) | Disk h \<Rightarrow> on_disk (wait_for_flush h))"

definition eb_schedule_background_flush ::
    "('f, 'r) backend_env \<Rightarrow> 'f EnnBackend \<Rightarrow> ((ENNError + unit) \<times> 'f EnnBackend) option" where
  "eb_schedule_background_flush env b =
     (case b of InMemory m \<Rightarrow> in_memory (Inr (), m) | Disk h \<Rightarrow> on_disk (schedule_background_flush (be_build env) h))"

definition persist_enn_backend_index ::
    "('f, 'r) backend_env \<Rightarrow> 'f EnnBackend \<Rightarrow> ((ENNError + unit) \<times> 'f EnnBackend) option" where
  "persist_enn_backend_index env b =
     (case b of InMemory m \<Rightarrow> in_memory (Inr (), m)
      | Disk h \<Rightarrow> on_disk (handle_persist (be_build env) (be_to_json env) (be_from_json env) (be_plan env) h))"

definition eb_len :: "'f EnnBackend \<Rightarrow> nat" where
  "eb_len b = (case b of InMemory m \<Rightarrow> in_memory_len m | Disk h \<Rightarrow> backend_len (inner h))"

definition eb_num_dim :: "'f EnnBackend \<Rightarrow> nat" where
  "eb_num_dim b = (case b of InMemory m \<Rightarrow> im_dim m | Disk h \<Rightarrow> BpannBackend.num_dim (inner h))"

definition eb_num_metrics :: "'f EnnBackend \<Rightarrow> nat" where
  "eb_num_metrics b = (case b of InMemory m \<Rightarrow> im_metrics m | Disk h \<Rightarrow> enn_metrics (hd_data h))"

definition eb_driver :: "'f EnnBackend \<Rightarrow> IndexDriver" where
  "eb_driver b = (case b of InMemory m \<Rightarrow> ix_driver (im_index m) | Disk h \<Rightarrow> enn_driver (hd_data h))"

definition eb_mark_index_stale :: "'f EnnBackend \<Rightarrow> 'f EnnBackend" where
  "eb_mark_index_stale b =
     (case b of InMemory m \<Rightarrow> InMemory (in_memory_mark_stale m) | Disk h \<Rightarrow> Disk (on_inner mark_index_stale h))"

definition eb_is_index_stale :: "'f EnnBackend \<Rightarrow> bool" where
  "eb_is_index_stale b = (case b of InMemory m \<Rightarrow> im_stale m | Disk h \<Rightarrow> False)"

definition eb_append_rows ::
    "('f, 'r) backend_env \<Rightarrow> ematrix \<Rightarrow> ematrix \<Rightarrow> ematrix option \<Rightarrow> 'f EnnBackend
      \<Rightarrow> ((ENNError + unit) \<times> 'f EnnBackend) option" where
  "eb_append_rows env x y yvar b =
     (case b of
        InMemory m \<Rightarrow> in_memory (in_memory_append x y yvar m)
      | Disk h \<Rightarrow> on_disk (map_option (\<lambda>(r, d). (enn_res sync_err r, on_inner (\<lambda>_. d) h))
          (append_rows (be_os env) (be_build env) x y yvar (inner h))))"

definition eb_defer_index_sync_for_search :: "'f EnnBackend \<Rightarrow> bool" where
  "eb_defer_index_sync_for_search b = (case b of InMemory _ \<Rightarrow> False | Disk _ \<Rightarrow> True)"

definition eb_ensure_index_sync ::
    "('f, 'r) backend_env \<Rightarrow> bool \<Rightarrow> f64 list \<Rightarrow> 'f EnnBackend \<Rightarrow> ((ENNError + unit) \<times> 'f EnnBackend) option" where
  "eb_ensure_index_sync env scale_x scale b =
     (case b of
        InMemory m \<Rightarrow> in_memory (in_memory_ensure_sync (be_faiss env) scale_x scale m)
      | Disk h \<Rightarrow> on_disk (handle_ensure_index_sync (be_os env) (be_build env) scale_x scale h))"

definition disk_rows_at :: "nat list \<Rightarrow> DiskBackendHandle \<Rightarrow> ENNError + train_rows" where
  "disk_rows_at is h =
     (let b = inner h in
      disk_res (enn_res bpann_err (rbind (train_rows_at is b) (\<lambda>(x, y, v).
        Inr ((BpannBackend.num_dim b, x), (BpannBackend.num_metrics b, y),
             map_option (\<lambda>v. (BpannBackend.num_metrics b, v)) v)))))"

definition eb_train_rows_at :: "nat list \<Rightarrow> 'f EnnBackend \<Rightarrow> ENNError + train_rows" where
  "eb_train_rows_at is b = (case b of InMemory m \<Rightarrow> in_memory_train_rows_at is m | Disk h \<Rightarrow> disk_rows_at is h)"

definition eb_row_x :: "nat \<Rightarrow> 'f EnnBackend \<Rightarrow> ENNError + f64 list" where
  "eb_row_x i b =
     (case b of InMemory m \<Rightarrow> in_memory_row_x i m
      | Disk h \<Rightarrow> disk_res (enn_res bpann_err (mmap_row_slice (train_x (inner h)) i)))"

definition eb_row_y :: "nat \<Rightarrow> 'f EnnBackend \<Rightarrow> ENNError + f64 list" where
  "eb_row_y i b =
     (case b of InMemory m \<Rightarrow> in_memory_row_y i m
      | Disk h \<Rightarrow> disk_res (enn_res bpann_err (rbind (mmap_row_y_and_yvar i (inner h)) (\<lambda>(y, _). Inr y))))"

definition eb_row_yvar :: "nat \<Rightarrow> 'f EnnBackend \<Rightarrow> ENNError + f64 list option" where
  "eb_row_yvar i b =
     (case b of InMemory m \<Rightarrow> in_memory_row_yvar i m
      | Disk h \<Rightarrow> disk_res (enn_res bpann_err (rbind (mmap_row_y_and_yvar i (inner h)) (\<lambda>(_, v). Inr v))))"

text \<open>A negative count becomes huge; a search that runs out of fuel has no answer.\<close>

definition eb_search ::
    "('f, 'r) backend_env \<Rightarrow> ematrix \<Rightarrow> int \<Rightarrow> bool \<Rightarrow> 'f EnnBackend \<Rightarrow> ((ENNError + hits list) \<times> 'f EnnBackend) option" where
  "eb_search env q k exclude b =
     (case b of
        InMemory m \<Rightarrow> in_memory (in_memory_search (be_faiss env) q k exclude m)
      | Disk h \<Rightarrow>
          (let (r, d) = backend_search (be_build env) (snd q) (nat (k mod 2 ^ 64)) exclude (inner h);
               b1 = Disk (on_inner (\<lambda>_. d) h)
           in (case r of
                 Inl (SearchError e) \<Rightarrow> Some (Inl (of_enn_error (bpann_err e)), b1)
               | Inl _ \<Rightarrow> None
               | Inr rows \<Rightarrow> Some (Inr (map (\<lambda>(ds, ls). (ds, map int ls)) rows), b1))))"

definition eb_index_len :: "('f, 'r) backend_env \<Rightarrow> 'f EnnBackend \<Rightarrow> nat" where
  "eb_index_len env b =
     (case b of InMemory m \<Rightarrow> index_len (be_faiss env) (im_index m) | Disk h \<Rightarrow> backend_len (inner h))"

definition release_enn_observation_pages ::
    "('f, 'r) backend_env \<Rightarrow> 'f EnnBackend \<Rightarrow> (ENNError + unit) \<times> 'f EnnBackend" where
  "release_enn_observation_pages env b =
     (case b of InMemory m \<Rightarrow> (Inr (), b)
      | Disk h \<Rightarrow> (case release_observation_pages (be_os env) (inner h) of
            Inl e \<Rightarrow> (Inl (of_enn_error (bpann_err e)), b)
          | Inr d \<Rightarrow> (Inr (), Disk (on_inner (\<lambda>_. d) h))))"

section \<open>Making a backend\<close>

text \<open>The files of a work directory, those of its index and those of its two stores.\<close>

type_synonym place = "(work_dir \<times> index_dir) \<times> (u8 list option \<times> u8 list option)"

definition eb_new_in_memory ::
    "('f, 'r) backend_env \<Rightarrow> ematrix \<Rightarrow> ematrix \<Rightarrow> ematrix option \<Rightarrow> bool \<Rightarrow> f64 list \<Rightarrow> IndexDriver \<Rightarrow> ENNError + 'f EnnBackend" where
  "eb_new_in_memory env x y yvar scale_x scale driver =
     rbind (in_memory_new (be_faiss env) x y yvar scale_x scale driver) (\<lambda>b. Inr (InMemory b))"

definition eb_new_disk ::
    "('f, 'r) backend_env \<Rightarrow> place \<Rightarrow> ematrix \<Rightarrow> ematrix \<Rightarrow> ematrix option \<Rightarrow> bool \<Rightarrow> f64 list \<Rightarrow> IndexDriver
      \<Rightarrow> (ENNError + 'f EnnBackend) option" where
  "eb_new_disk env = (\<lambda>(dirs, store_files) x y yvar scale_x scale driver.
     if driver \<noteq> BpAnnDisk then Some (Inl EParameter)
     else map_option (\<lambda>r. rbind (disk_res r) (\<lambda>d. Inr (Disk (handle_new d))))
            (disk_backend_new (be_os env) (be_build env) (be_from_json env) dirs store_files x y yvar scale_x scale driver))"

definition disk_new_empty ::
    "('f, 'r) backend_env \<Rightarrow> place \<Rightarrow> nat \<Rightarrow> nat \<Rightarrow> (enn_error + DiskBpannEnnBackend) option" where
  "disk_new_empty env = (\<lambda>(dirs, store_files) dim metrics.
     map_option (\<lambda>r. enn_res sync_err (rbind r (\<lambda>b.
         Inr \<lparr>enn_inner = apply_config_flush_threshold (env_tuning (be_build env)) b, enn_driver = BpAnnDisk, enn_metrics = metrics\<rparr>)))
       (backend_new (be_os env) (be_build env) (be_from_json env) dirs store_files (dim, []) (metrics, []) None False (ones dim)))"

definition eb_new_empty ::
    "('f, 'r) backend_env \<Rightarrow> nat \<Rightarrow> nat \<Rightarrow> IndexDriver \<Rightarrow> EnnStorage \<Rightarrow> place option \<Rightarrow> nat option
      \<Rightarrow> (ENNError + 'f EnnBackend) option" where
  "eb_new_empty env dim metrics driver storage at threshold =
     (case storage of
        StorageInMemory \<Rightarrow> Some (rbind (in_memory_new_empty (be_faiss env) dim metrics driver) (\<lambda>b. Inr (InMemory b)))
      | StorageDisk \<Rightarrow>
          (case at of None \<Rightarrow> Some (Inl EParameter)
           | Some place \<Rightarrow>
               if driver \<noteq> BpAnnDisk then Some (Inl EParameter)
               else map_option (\<lambda>r. rbind (disk_res r) (\<lambda>d. Inr (Disk (handle_new d))))
                 (case threshold of
                    None \<Rightarrow> disk_new_empty env place dim metrics
                  | Some soft \<Rightarrow>
                      (let hard = BpannTuning.pending_hard_flush_threshold (current_tuning (env_tuning (be_build env))) in
                       new_empty_with_flush_thresholds (be_os env) (be_build env) (be_from_json env) (fst place) (snd place)
                         dim metrics soft (max hard soft)))))"

end
