(* ===== verification/YBounds.thy ===== *)
theory YBounds
  imports EnnMemory
begin

text \<open>
  Optional open bounds of the outputs of the ENN model (\<open>rust/crates/ennx/src/y_bounds.rs\<close>): the warp
  of a bounded output to the real line, its inverse, and the bounds kept as a field of the
  metadata text of a work directory. The functions of libm and the decimal text of a float are a
  parameter. A matrix is its column count and its rows; bounds have one row per metric.
\<close>

record bounds_env =
  ln_of :: "f64 \<Rightarrow> f64"
  exp_of :: "f64 \<Rightarrow> f64"
  show_f64 :: "f64 \<Rightarrow> string"
  parse_f64 :: "string \<Rightarrow> f64 option"

definition unbounded_bounds :: "nat \<Rightarrow> ematrix" where
  "unbounded_bounds metrics = (2, replicate metrics [neg_infinity, infinity])"

definition is_identity_bounds :: "ematrix \<Rightarrow> bool" where
  "is_identity_bounds bounds \<longleftrightarrow> list_all (\<lambda>r. feq (r ! 0) neg_infinity \<and> feq (r ! 1) infinity) (snd bounds)"

definition valid_pair :: "f64 \<Rightarrow> f64 \<Rightarrow> bool" where
  "valid_pair a b \<longleftrightarrow> \<not> (is_nan a \<or> is_nan b \<or> is_finite a \<and> is_finite b \<and> fle b a) \<and>
     \<not> (\<not> is_finite a \<and> \<not> feq a neg_infinity \<or> \<not> is_finite b \<and> \<not> feq b infinity)"

definition validate_bounds :: "ematrix \<Rightarrow> nat \<Rightarrow> ENNError + unit" where
  "validate_bounds bounds metrics =
     (if length (snd bounds) \<noteq> metrics \<or> fst bounds \<noteq> 2 then Inl (EShape [metrics, 2] [length (snd bounds), fst bounds])
      else ensure (list_all (\<lambda>r. valid_pair (r ! 0) (r ! 1)) (snd bounds)) EParameter)"

section \<open>Warping\<close>

definition warp_scalar :: "bounds_env \<Rightarrow> f64 \<Rightarrow> f64 \<Rightarrow> f64 \<Rightarrow> f64" where
  "warp_scalar env y a b =
     (if \<not> is_finite a \<and> \<not> is_finite b then y
      else if is_finite a \<and> \<not> is_finite b then ln_of env (fsub y a)
      else if \<not> is_finite a then fneg (ln_of env (fsub b y))
      else let u = fdiv (fsub y a) (fsub b a) in ln_of env (fdiv u (fsub (flit 1 1) u)))"

definition inv_scalar :: "bounds_env \<Rightarrow> f64 \<Rightarrow> f64 \<Rightarrow> f64 \<Rightarrow> f64" where
  "inv_scalar env z a b =
     (if \<not> is_finite a \<and> \<not> is_finite b then z
      else if is_finite a \<and> \<not> is_finite b then fadd a (exp_of env z)
      else if \<not> is_finite a then fsub b (exp_of env (fneg z))
      else let s = fdiv (flit 1 1) (fadd (flit 1 1) (exp_of env (fneg z))) in fadd a (fmul (fsub b a) s))"

text \<open>Element by element with the bounds of its column.\<close>

definition over_columns :: "(f64 \<Rightarrow> f64 \<Rightarrow> f64 \<Rightarrow> 'a) \<Rightarrow> ematrix \<Rightarrow> f64 list \<Rightarrow> 'a list" where
  "over_columns f bounds row = map2 (\<lambda>v r. f v (r ! 0) (r ! 1)) row (snd bounds)"

definition in_bounds :: "f64 \<Rightarrow> f64 \<Rightarrow> f64 \<Rightarrow> bool" where
  "in_bounds v a b \<longleftrightarrow> \<not> (\<not> is_finite v \<or> is_finite a \<and> fle v a \<or> is_finite b \<and> fle b v)"

definition warp_y :: "bounds_env \<Rightarrow> ematrix \<Rightarrow> ematrix \<Rightarrow> ENNError + ematrix" where
  "warp_y env y bounds =
     rbind (validate_bounds bounds (fst y)) (\<lambda>_.
       if list_all (\<lambda>row. list_all id (over_columns in_bounds bounds row)) (snd y)
       then Inr (fst y, map (over_columns (warp_scalar env) bounds) (snd y)) else Inl EParameter)"

definition inv_y :: "bounds_env \<Rightarrow> ematrix \<Rightarrow> ematrix \<Rightarrow> ematrix" where
  "inv_y env z bounds = (fst z, map (over_columns (inv_scalar env) bounds) (snd z))"

definition same_dim :: "ematrix \<Rightarrow> ematrix \<Rightarrow> bool" where
  "same_dim a b \<longleftrightarrow> fst a = fst b \<and> length (snd a) = length (snd b)"

definition warp_jac :: "f64 \<Rightarrow> f64 \<Rightarrow> f64 \<Rightarrow> f64" where
  "warp_jac v a b =
     (if \<not> is_finite a \<and> \<not> is_finite b then flit 1 1
      else if is_finite a \<and> \<not> is_finite b then fdiv (flit 1 1) (fsub v a)
      else if \<not> is_finite a then fdiv (flit 1 1) (fsub b v)
      else let u = fdiv (fsub v a) (fsub b a) in
        fdiv (flit 1 1) (fmul (fmul (fsub b a) u) (fsub (flit 1 1) u)))"

definition warp_yvar :: "ematrix \<Rightarrow> ematrix \<Rightarrow> ematrix \<Rightarrow> ENNError + ematrix" where
  "warp_yvar y yvar bounds =
     (if \<not> same_dim y yvar then Inl (EShape [length (snd y), fst y] [length (snd yvar), fst yvar])
      else rbind (validate_bounds bounds (fst y)) (\<lambda>_.
        let out = map2 (\<lambda>yr vr. map2 (\<lambda>j v. fmul (fmul j j) v) (over_columns warp_jac bounds yr) vr) (snd y) (snd yvar)
        in if list_all (list_all is_finite) out then Inr (fst y, out) else Inl EParameter))"

text \<open>The slope of the inverse warp.\<close>

definition inv_jac :: "bounds_env \<Rightarrow> f64 \<Rightarrow> f64 \<Rightarrow> f64 \<Rightarrow> f64" where
  "inv_jac env z a b =
     (if \<not> is_finite a \<and> \<not> is_finite b then flit 1 1
      else if is_finite a \<and> \<not> is_finite b then exp_of env z
      else if \<not> is_finite a then exp_of env (fneg z)
      else let s = fdiv (flit 1 1) (fadd (flit 1 1) (exp_of env (fneg z))) in
        fmul (fmul (fsub b a) s) (fsub (flit 1 1) s))"

definition naturalize_yvar :: "bounds_env \<Rightarrow> ematrix \<Rightarrow> ematrix \<Rightarrow> ematrix \<Rightarrow> ematrix" where
  "naturalize_yvar env z zvar bounds =
     (fst z, map2 (\<lambda>zr vr. map2 (\<lambda>j v. fmul (fmul v j) j) (over_columns (inv_jac env) bounds zr) vr) (snd z) (snd zvar))"

text \<open>Means and standard errors back to the natural scale: \<open>mu\<close>, \<open>se\<close>, \<open>se_epi\<close>, \<open>se_ale\<close>.\<close>

definition scale_by_jac :: "bounds_env \<Rightarrow> ematrix \<Rightarrow> f64 list list \<Rightarrow> ematrix \<Rightarrow> ematrix" where
  "scale_by_jac env bounds mus m =
     (fst m, map2 (\<lambda>zr sr. map2 (\<lambda>j v. fmul v (fabs j)) (over_columns (inv_jac env) bounds zr) sr) mus (snd m))"

definition naturalize ::
    "bounds_env \<Rightarrow> ematrix \<Rightarrow> ematrix \<times> ematrix \<times> ematrix \<times> ematrix \<Rightarrow> ematrix \<times> ematrix \<times> ematrix \<times> ematrix" where
  "naturalize env bounds = (\<lambda>(mu, se, epi, ale).
     if is_identity_bounds bounds then (mu, se, epi, ale)
     else (inv_y env mu bounds, scale_by_jac env bounds (snd mu) se, scale_by_jac env bounds (snd mu) epi,
           scale_by_jac env bounds (snd mu) ale))"

definition naturalize_batch ::
    "bounds_env \<Rightarrow> ematrix \<Rightarrow> (ematrix \<times> ematrix \<times> ematrix \<times> ematrix) list \<Rightarrow> (ematrix \<times> ematrix \<times> ematrix \<times> ematrix) list" where
  "naturalize_batch env bounds = map (naturalize env bounds)"

definition inverse_draws :: "bounds_env \<Rightarrow> ematrix \<Rightarrow> nat \<times> f64 list list list \<Rightarrow> ENNError + f64 list list list" where
  "inverse_draws env bounds = (\<lambda>(metrics, draws).
     if is_identity_bounds bounds then Inr draws
     else if metrics \<noteq> length (snd bounds) then Inl EPanic
     else Inr (map (map (over_columns (inv_scalar env) bounds)) draws))"

section \<open>The bounds in the metadata\<close>

definition bound_text :: "bounds_env \<Rightarrow> f64 \<Rightarrow> string" where
  "bound_text env v = (if is_finite v then show_f64 env v else ''null'')"

fun join_with :: "string \<Rightarrow> string list \<Rightarrow> string" where
  "join_with sep [] = []"
| "join_with sep [s] = s"
| "join_with sep (s # ss) = s @ sep @ join_with sep ss"

definition bounds_json :: "bounds_env \<Rightarrow> ematrix \<Rightarrow> string" where
  "bounds_json env bounds =
     ''['' @ join_with '','' (map (\<lambda>r. ''['' @ bound_text env (r ! 0) @ '','' @ bound_text env (r ! 1) @ '']'') (snd bounds)) @ '']''"

definition bounds_key :: string where
  "bounds_key = quoted ''y_bounds'' @ '':''"

text \<open>What follows the array that the text starts with.\<close>

fun after_array :: "nat \<Rightarrow> string \<Rightarrow> string option" where
  "after_array depth [] = None"
| "after_array depth (c # cs) =
     (if c = CHR ''['' then after_array (Suc depth) cs
      else if c = CHR '']'' then (if depth \<le> 1 then Some cs else after_array (depth - 1) cs)
      else after_array depth cs)"

text \<open>The text before and from the last occurrence of a character.\<close>

definition split_last :: "char \<Rightarrow> string \<Rightarrow> (string \<times> string) option" where
  "split_last c s =
     (if c \<in> set s
      then Some (rev (tl (dropWhile (\<lambda>d. d \<noteq> c) (rev s))), c # rev (takeWhile (\<lambda>d. d \<noteq> c) (rev s)))
      else None)"

definition trim_end :: "string \<Rightarrow> string" where
  "trim_end s = rev (dropWhile is_space (rev s))"

definition with_bounds_field :: "bounds_env \<Rightarrow> ematrix \<Rightarrow> string \<Rightarrow> ENNError + string" where
  "with_bounds_field env bounds txt =
     (let field = bounds_key @ bounds_json env bounds in
      case split_once bounds_key txt of
        Some (before, tail) \<Rightarrow>
          (case after_array 0 (dropWhile (\<lambda>c. c \<noteq> CHR ''['') tail) of
             None \<Rightarrow> Inl EParameter
           | Some rest \<Rightarrow> Inr (before @ field @ rest))
      | None \<Rightarrow>
          (case split_last (CHR ''}'') txt of
             None \<Rightarrow> Inl EParameter
           | Some (before, rest) \<Rightarrow>
               let t = trim_end before; comma = (if t \<noteq> [] \<and> List.last t = CHR 0x7B then [] else '','')
               in Inr (before @ comma @ field @ rest)))"

definition persist_bounds_metadata :: "bounds_env \<Rightarrow> bool \<Rightarrow> ematrix \<Rightarrow> string option \<Rightarrow> ENNError + string option" where
  "persist_bounds_metadata env os_ok bounds file =
     (case file of None \<Rightarrow> Inr None
      | Some txt \<Rightarrow> rbind (with_bounds_field env bounds txt) (\<lambda>t. rbind (ensure os_ok EParameter) (\<lambda>_. Inr (Some t))))"

definition end_token :: "string \<Rightarrow> string list \<Rightarrow> string list" where
  "end_token token tokens = (if token = [] then tokens else tokens @ [token])"

text \<open>The comma-separated tokens of nested arrays, white space skipped.\<close>

fun array_tokens :: "nat \<Rightarrow> string \<Rightarrow> string list \<Rightarrow> string \<Rightarrow> string list" where
  "array_tokens depth token tokens [] = tokens"
| "array_tokens depth token tokens (c # cs) =
     (if c = CHR ''['' then array_tokens (Suc depth) token tokens cs
      else if c = CHR '']''
      then (if depth \<le> 1 then end_token token tokens else array_tokens (depth - 1) [] (end_token token tokens) cs)
      else if c = CHR '','' then array_tokens depth [] (end_token token tokens) cs
      else array_tokens depth (if is_space c then token else token @ [c]) tokens cs)"

definition parse_bound :: "bounds_env \<Rightarrow> f64 \<Rightarrow> string \<Rightarrow> ENNError + f64" where
  "parse_bound env open_end tok = (if tok = ''null'' then Inr open_end else ok_or (parse_f64 env tok) EParameter)"

definition bounds_from_tokens :: "bounds_env \<Rightarrow> nat \<Rightarrow> string list \<Rightarrow> ENNError + ematrix" where
  "bounds_from_tokens env metrics tokens =
     (if length tokens \<noteq> metrics * 2 then Inl EParameter
      else rbind (map_res (\<lambda>i. rbind (parse_bound env neg_infinity (tokens ! (2 * i))) (\<lambda>a.
               rbind (parse_bound env infinity (tokens ! (2 * i + 1))) (\<lambda>b. Inr [a, b]))) [0..<metrics]) (\<lambda>rows.
           rbind (validate_bounds (2, rows) metrics) (\<lambda>_. Inr (2, rows))))"

definition load_bounds_metadata :: "bounds_env \<Rightarrow> nat \<Rightarrow> string option \<Rightarrow> ENNError + ematrix option" where
  "load_bounds_metadata env metrics file =
     (case file of None \<Rightarrow> Inr None
      | Some txt \<Rightarrow>
          (case split_once bounds_key txt of
             None \<Rightarrow> Inr None
           | Some (_, tail) \<Rightarrow>
               (let arr = dropWhile (\<lambda>c. c \<noteq> CHR ''['') tail in
                if arr = [] then Inl EParameter
                else rbind (bounds_from_tokens env metrics (array_tokens 0 [] [] arr)) (\<lambda>b. Inr (Some b)))))"

end
