(* ===== verification/EnnModel.thy ===== *)
theory EnnModel
  imports YBounds
begin

text \<open>
  The ENN model (\<open>rust/crates/ennx/src/model.rs\<close>, \<open>model/access.rs\<close>): rows in a backend, the running
  moments that scale them, optional bounds of the outputs and the nearest rows of a query.

  The metadata file of a disk backend is in its work directory; a model in memory that is given a
  work directory, or finds one in \<open>ENNX_WORK_DIR\<close>, writes its bounds to the metadata file there. An
  operation returns the model with its result; no result is a disk operation that waits for a
  flush that has not ended. A panic is the error \<open>EPanic\<close>.
\<close>

record ('f, 'r) model_env = "('f, 'r) backend_env" +
  me_bounds :: bounds_env
  me_env_dir :: "place option"
  me_meta_ok :: bool

record ModelOptions =
  mo_scale_x :: bool
  mo_driver :: IndexDriver
  mo_storage :: EnnStorage
  mo_work_dir :: "place option"
  mo_y_bounds :: "ematrix option"

record 'f EpistemicNearestNeighbors =
  em_backend :: "'f EnnBackend"
  em_num_obs :: nat
  em_dim :: nat
  em_metrics :: nat
  em_scale_x :: bool
  em_x_scale :: "f64 list"
  em_y_scale :: "f64 list"
  em_y_bounds :: ematrix
  em_bounded :: bool
  em_y_sum :: "f64 list"
  em_y_sumsq :: "f64 list"
  em_x_sum :: "f64 list"
  em_x_sumsq :: "f64 list"
  em_meta :: "string option option"

text \<open>A step on the model and what runs after it when it succeeds.\<close>

definition then_step ::
    "((ENNError + 'a) \<times> 'st) option \<Rightarrow> ('a \<Rightarrow> 'st \<Rightarrow> ((ENNError + 'b) \<times> 'st) option) \<Rightarrow> ((ENNError + 'b) \<times> 'st) option" where
  "then_step m f = (case m of None \<Rightarrow> None | Some (res, st) \<Rightarrow> (case res of Inl e \<Rightarrow> Some (Inl e, st) | Inr v \<Rightarrow> f v st))"

lemma then_step_simps [simp]:
  "then_step None f = None" "then_step (Some (Inl e, st)) f = Some (Inl e, st)" "then_step (Some (Inr v, st)) f = f v st"
  by (simp_all add: then_step_def)

lemma then_step_Inr_conv [res_simps]:
  "then_step m f = Some (Inr y, st') \<longleftrightarrow> (\<exists>v st. m = Some (Inr v, st) \<and> f v st = Some (Inr y, st'))"
  by (auto simp: then_step_def split: option.split sum.split)

definition with_backend ::
    "('f EnnBackend \<Rightarrow> ((ENNError + 'a) \<times> 'f EnnBackend) option) \<Rightarrow> 'f EpistemicNearestNeighbors
      \<Rightarrow> ((ENNError + 'a) \<times> 'f EpistemicNearestNeighbors) option" where
  "with_backend f m = map_option (\<lambda>(r, b). (r, m\<lparr>em_backend := b\<rparr>)) (f (em_backend m))"

section \<open>Moments\<close>

text \<open>The sum and the sum of squares of every column, row by row.\<close>

definition accumulate_columns :: "f64 list list \<Rightarrow> f64 list \<times> f64 list \<Rightarrow> f64 list \<times> f64 list" where
  "accumulate_columns rows acc =
     foldl (\<lambda>(s, q) row. (map2 fadd s row, map2 (\<lambda>a v. fadd a (fmul v v)) q row)) acc rows"

definition column_sums_and_sumsq :: "ematrix \<Rightarrow> f64 list \<times> f64 list" where
  "column_sums_and_sumsq m = accumulate_columns (snd m) (replicate (fst m) fzero, replicate (fst m) fzero)"

definition std_of :: "f64 \<Rightarrow> f64 \<Rightarrow> f64 \<Rightarrow> f64 \<Rightarrow> f64" where
  "std_of nf min_std s q =
     (let mean = fdiv s nf;
          var = fmax (fsub (fdiv q nf) (fmul mean mean)) fzero;
          std = fsqrt var
      in if is_finite std \<and> flt min_std std then std else flit 1 1)"

definition scale_from_moments :: "nat \<Rightarrow> nat \<Rightarrow> f64 list \<times> f64 list \<Rightarrow> f64 \<Rightarrow> f64 list" where
  "scale_from_moments n ncol = (\<lambda>(sum, sumsq) min_std.
     if n < 2 then ones ncol else map (\<lambda>j. std_of (flit n 1) min_std (sum ! j) (sumsq ! j)) [0..<ncol])"

definition min_x_std :: f64 where
  "min_x_std = flit 1 (10 ^ 12)"

section \<open>A new model\<close>

definition validate_shapes :: "ematrix \<Rightarrow> ematrix \<Rightarrow> ematrix option \<Rightarrow> ENNError + unit" where
  "validate_shapes x y yvar =
     (if length (snd x) \<noteq> length (snd y) then Inl (EShape [length (snd y), fst x] [length (snd x), fst x])
      else case yvar of None \<Rightarrow> Inr ()
        | Some v \<Rightarrow> ensure (same_dim v y) (EShape [length (snd y), fst y] [length (snd v), fst v]))"

definition init_x_stats :: "ematrix \<Rightarrow> bool \<Rightarrow> f64 list \<times> f64 list \<times> f64 list" where
  "init_x_stats x scale_x =
     (if scale_x then (let m = column_sums_and_sumsq x in (scale_from_moments (length (snd x)) (fst x) m min_x_std, m))
      else (ones (fst x), replicate (fst x) fzero, replicate (fst x) fzero))"

text \<open>The metadata file of the work directory; the outer option is that there is none.\<close>

definition model_meta :: "'f EpistemicNearestNeighbors \<Rightarrow> string option option" where
  "model_meta m = (case em_backend m of
      InMemory _ \<Rightarrow> em_meta m
    | Disk h \<Rightarrow> Some (metadata_json (work_files (inner h))))"

definition set_model_meta :: "string option \<Rightarrow> 'f EpistemicNearestNeighbors \<Rightarrow> 'f EpistemicNearestNeighbors" where
  "set_model_meta file m = (case em_backend m of
      InMemory _ \<Rightarrow> m\<lparr>em_meta := Some file\<rparr>
    | Disk h \<Rightarrow> m\<lparr>em_backend := Disk (on_inner (\<lambda>b. b\<lparr>work_files := (work_files b)\<lparr>metadata_json := file\<rparr>\<rparr>) h)\<rparr>)"

definition persist_y_bounds_metadata ::
    "('f, 'r) model_env \<Rightarrow> 'f EpistemicNearestNeighbors \<Rightarrow> (ENNError + unit) \<times> 'f EpistemicNearestNeighbors" where
  "persist_y_bounds_metadata env m =
     (case model_meta m of None \<Rightarrow> (Inr (), m)
      | Some file \<Rightarrow>
          (case persist_bounds_metadata (me_bounds env) (me_meta_ok env) (em_y_bounds m) file of
             Inl e \<Rightarrow> (Inl e, m)
           | Inr file1 \<Rightarrow> (Inr (), set_model_meta file1 m)))"

text \<open>After a reopen the counts and the moments are those of the rows in the backend.\<close>

definition sync_obs_stats_from_backend ::
    "('f, 'r) model_env \<Rightarrow> 'f EpistemicNearestNeighbors \<Rightarrow> ((ENNError + unit) \<times> 'f EpistemicNearestNeighbors) option" where
  "sync_obs_stats_from_backend env m0 =
     (let n = eb_len (em_backend m0);
          m = m0\<lparr>em_dim := eb_num_dim (em_backend m0), em_metrics := eb_num_metrics (em_backend m0), em_num_obs := n\<rparr>
      in if n = 0 then Some (Inr (), m)
         else case eb_train_rows_at [0..<n] (em_backend m) of
             Inl e \<Rightarrow> Some (Inl e, m)
           | Inr (x, y, _) \<Rightarrow>
               let (ys, yq) = column_sums_and_sumsq y;
                   m1 = m\<lparr>em_y_sum := ys, em_y_sumsq := yq, em_y_scale := scale_from_moments n (em_metrics m) (ys, yq) fzero\<rparr>;
                   m2 = (if em_scale_x m1
                         then (let (xs, xq) = column_sums_and_sumsq x in
                               m1\<lparr>em_x_sum := xs, em_x_sumsq := xq, em_x_scale := scale_from_moments n (em_dim m) (xs, xq) min_x_std\<rparr>)
                         else m1)
               in with_backend (eb_ensure_index_sync (backend_env.truncate env) (em_scale_x m2) (em_x_scale m2)) m2)"

definition same_matrix :: "ematrix \<Rightarrow> ematrix \<Rightarrow> bool" where
  "same_matrix a b \<longleftrightarrow> fst a = fst b \<and> list_all2 (list_all2 feq) (snd a) (snd b)"

definition choose_bounds ::
    "('f, 'r) model_env \<Rightarrow> place option \<Rightarrow> nat \<Rightarrow> ematrix option \<Rightarrow> ENNError + ematrix" where
  "choose_bounds env dir metrics requested =
     (let stored = (case dir of None \<Rightarrow> None
            | Some p \<Rightarrow> (case load_bounds_metadata (me_bounds env) metrics (metadata_json (fst (fst p))) of
                Inl _ \<Rightarrow> None | Inr b \<Rightarrow> b))
      in case (requested, stored) of
           (Some r, Some s) \<Rightarrow> if \<not> same_matrix r s then Inl EParameter else Inr r
         | (Some r, None) \<Rightarrow> Inr r
         | (None, Some s) \<Rightarrow> Inr s
         | (None, None) \<Rightarrow> Inr (unbounded_bounds metrics))"

definition warped ::
    "('f, 'r) model_env \<Rightarrow> ematrix \<Rightarrow> ematrix \<Rightarrow> ematrix option \<Rightarrow> ENNError + ematrix \<times> ematrix option" where
  "warped env bounds y yvar =
     rbind (warp_y (me_bounds env) y bounds) (\<lambda>wy.
       case yvar of None \<Rightarrow> Inr (wy, None) | Some v \<Rightarrow> rbind (warp_yvar y v bounds) (\<lambda>wv. Inr (wy, Some wv)))"

definition first_backend ::
    "('f, 'r) model_env \<Rightarrow> ModelOptions \<Rightarrow> place option \<Rightarrow> ematrix \<Rightarrow> ematrix \<Rightarrow> ematrix option \<Rightarrow> f64 list
      \<Rightarrow> (ENNError + 'f EnnBackend) option" where
  "first_backend env opts dir x y yvar xsc =
     (case mo_storage opts of
        StorageInMemory \<Rightarrow> Some (eb_new_in_memory (backend_env.truncate env) x y yvar (mo_scale_x opts) xsc (mo_driver opts))
      | StorageDisk \<Rightarrow>
          if \<not> is_disk_index_driver (mo_driver opts) then Some (Inl EParameter)
          else case dir of None \<Rightarrow> Some (Inl EParameter)
            | Some p \<Rightarrow> eb_new_disk (backend_env.truncate env) p x y yvar (mo_scale_x opts) xsc (mo_driver opts))"

definition new_with_options ::
    "('f, 'r) model_env \<Rightarrow> ematrix \<Rightarrow> ematrix \<Rightarrow> ematrix option \<Rightarrow> ModelOptions
      \<Rightarrow> (ENNError + 'f EpistemicNearestNeighbors) option" where
  "new_with_options env x y0 yvar0 opts =
     (let dir = (case mo_work_dir opts of Some p \<Rightarrow> Some p | None \<Rightarrow> me_env_dir env) in
      case rbind (validate_shapes x y0 yvar0) (\<lambda>_.
           rbind (choose_bounds env dir (fst y0) (mo_y_bounds opts)) (\<lambda>bounds.
           rbind (validate_bounds bounds (fst y0)) (\<lambda>_.
           let bounded = (\<not> is_identity_bounds bounds) in
           rbind (if bounded then warped env bounds y0 yvar0 else Inr (y0, yvar0)) (\<lambda>(y, yvar).
           rbind (ensure (\<not> (mo_scale_x opts \<and> is_disk_index_driver (mo_driver opts))) EParameter) (\<lambda>_.
           Inr (bounds, bounded, y, yvar)))))) of
        Inl e \<Rightarrow> Some (Inl e)
      | Inr (bounds, bounded, y, yvar) \<Rightarrow>
          let (ys, yq) = column_sums_and_sumsq y;
              (xsc, xs, xq) = init_x_stats x (mo_scale_x opts);
              disk_reopen = (mo_storage opts = StorageDisk \<and> snd x = [] \<and> snd y = [] \<and>
                (case dir of None \<Rightarrow> False | Some p \<Rightarrow> metadata_json (fst (fst p)) \<noteq> None))
          in (case first_backend env opts dir x y yvar xsc of
                None \<Rightarrow> None
              | Some (Inl e) \<Rightarrow> Some (Inl e)
              | Some (Inr b) \<Rightarrow>
                  let m = \<lparr>em_backend = b, em_num_obs = length (snd x), em_dim = fst x, em_metrics = fst y,
                        em_scale_x = mo_scale_x opts, em_x_scale = xsc,
                        em_y_scale = scale_from_moments (length (snd x)) (fst y) (ys, yq) fzero,
                        em_y_bounds = bounds, em_bounded = bounded, em_y_sum = ys, em_y_sumsq = yq,
                        em_x_sum = xs, em_x_sumsq = xq, em_meta = map_option (\<lambda>p. metadata_json (fst (fst p))) dir\<rparr>
                  in map_option (\<lambda>(r, m1). rbind r (\<lambda>_. Inr m1))
                       (then_step (if disk_reopen \<or> em_num_obs m \<noteq> eb_len b then sync_obs_stats_from_backend env m
                                  else Some (Inr (), m))
                         (\<lambda>_ m1. Some (persist_y_bounds_metadata env m1)))))"

definition model_new_with_storage ::
    "('f, 'r) model_env \<Rightarrow> ematrix \<Rightarrow> ematrix \<Rightarrow> ematrix option \<Rightarrow> bool \<Rightarrow> IndexDriver \<Rightarrow> EnnStorage \<Rightarrow> place option
      \<Rightarrow> (ENNError + 'f EpistemicNearestNeighbors) option" where
  "model_new_with_storage env x y yvar scale_x driver storage dir =
     new_with_options env x y yvar \<lparr>mo_scale_x = scale_x, mo_driver = driver, mo_storage = storage, mo_work_dir = dir, mo_y_bounds = None\<rparr>"

definition model_new ::
    "('f, 'r) model_env \<Rightarrow> ematrix \<Rightarrow> ematrix \<Rightarrow> ematrix option \<Rightarrow> bool \<Rightarrow> IndexDriver
      \<Rightarrow> (ENNError + 'f EpistemicNearestNeighbors) option" where
  "model_new env x y yvar scale_x driver = model_new_with_storage env x y yvar scale_x driver StorageInMemory None"

definition model_new_empty ::
    "('f, 'r) model_env \<Rightarrow> nat \<Rightarrow> nat \<Rightarrow> IndexDriver \<Rightarrow> EnnStorage \<Rightarrow> place option \<Rightarrow> nat option
      \<Rightarrow> (ENNError + 'f EpistemicNearestNeighbors) option" where
  "model_new_empty env dim metrics driver storage given threshold =
     (let dir = (case given of Some p \<Rightarrow> Some p | None \<Rightarrow> me_env_dir env) in
      map_option (\<lambda>r. rbind r (\<lambda>b. Inr
        \<lparr>em_backend = b, em_num_obs = 0, em_dim = dim, em_metrics = metrics, em_scale_x = False, em_x_scale = ones dim,
          em_y_scale = ones metrics, em_y_bounds = unbounded_bounds metrics, em_bounded = False,
          em_y_sum = replicate metrics fzero, em_y_sumsq = replicate metrics fzero,
          em_x_sum = replicate dim fzero, em_x_sumsq = replicate dim fzero,
          em_meta = map_option (\<lambda>p. metadata_json (fst (fst p))) dir\<rparr>))
        (eb_new_empty (backend_env.truncate env) dim metrics driver storage dir threshold))"

section \<open>Adding rows\<close>

text \<open>Whether the first row has a variance; an error counts as no, a panic is one.\<close>

definition yvar_present :: "'f EpistemicNearestNeighbors \<Rightarrow> ENNError + bool" where
  "yvar_present m = (case eb_row_yvar 0 (em_backend m) of
      Inl EPanic \<Rightarrow> Inl EPanic | Inl _ \<Rightarrow> Inr False | Inr v \<Rightarrow> Inr (v \<noteq> None))"

definition validate_add :: "ematrix \<Rightarrow> ematrix \<Rightarrow> ematrix option \<Rightarrow> 'f EpistemicNearestNeighbors \<Rightarrow> ENNError + unit" where
  "validate_add x y yvar m =
     (if length (snd x) \<noteq> length (snd y) \<or> fst x \<noteq> em_dim m \<or> fst y \<noteq> em_metrics m
      then Inl (EShape [length (snd y), em_metrics m] [length (snd x), fst x])
      else rbind (yvar_present m) (\<lambda>present. case yvar of
           Some v \<Rightarrow>
             if \<not> same_dim v y then Inl (EShape [length (snd y), fst y] [length (snd v), fst v])
             else ensure (present \<or> em_num_obs m = 0) EParameter
         | None \<Rightarrow> ensure (\<not> present \<or> em_num_obs m = 0) EParameter))"

definition note_rows :: "ematrix \<Rightarrow> ematrix \<Rightarrow> 'f EpistemicNearestNeighbors \<Rightarrow> 'f EpistemicNearestNeighbors" where
  "note_rows x y m0 =
     (let (ys, yq) = accumulate_columns (snd y) (em_y_sum m0, em_y_sumsq m0);
          n = eb_len (em_backend m0);
          m1 = m0\<lparr>em_y_sum := ys, em_y_sumsq := yq, em_y_scale := scale_from_moments n (em_metrics m0) (ys, yq) fzero\<rparr>;
          m2 = (if em_scale_x m1
                then (let (xs, xq) = accumulate_columns (snd x) (em_x_sum m1, em_x_sumsq m1) in
                      m1\<lparr>em_x_sum := xs, em_x_sumsq := xq, em_x_scale := scale_from_moments n (em_dim m1) (xs, xq) min_x_std,
                         em_backend := eb_mark_index_stale (em_backend m1)\<rparr>)
                else m1)
      in m2\<lparr>em_num_obs := n\<rparr>)"

definition model_add ::
    "('f, 'r) model_env \<Rightarrow> ematrix \<Rightarrow> ematrix \<Rightarrow> ematrix option \<Rightarrow> 'f EpistemicNearestNeighbors
      \<Rightarrow> ((ENNError + unit) \<times> 'f EpistemicNearestNeighbors) option" where
  "model_add env x y yvar m =
     (case validate_add x y yvar m of
        Inl e \<Rightarrow> Some (Inl e, m)
      | Inr _ \<Rightarrow>
          if snd x = [] then Some (Inr (), m)
          else then_step (with_backend eb_wait_for_flush m) (\<lambda>_ m1.
            case (if em_bounded m1 then warped env (em_y_bounds m1) y yvar else Inr (y, yvar)) of
              Inl e \<Rightarrow> Some (Inl e, m1)
            | Inr (wy, wv) \<Rightarrow>
                then_step (with_backend (eb_append_rows (backend_env.truncate env) x wy wv) m1) (\<lambda>_ m2.
                  Some (Inr (), note_rows x wy m2))))"

section \<open>Persisting and reading\<close>

definition model_schedule_background_flush ::
    "('f, 'r) model_env \<Rightarrow> 'f EpistemicNearestNeighbors \<Rightarrow> ((ENNError + unit) \<times> 'f EpistemicNearestNeighbors) option" where
  "model_schedule_background_flush env = with_backend (eb_schedule_background_flush (backend_env.truncate env))"

definition model_persist_index_to_disk ::
    "('f, 'r) model_env \<Rightarrow> 'f EpistemicNearestNeighbors \<Rightarrow> ((ENNError + unit) \<times> 'f EpistemicNearestNeighbors) option" where
  "model_persist_index_to_disk env m =
     then_step (with_backend (persist_enn_backend_index (backend_env.truncate env)) m) (\<lambda>_ m1. Some (persist_y_bounds_metadata env m1))"

text \<open>Dropping a model drops its backend, which persists its index; an error is printed.\<close>

definition drop_model :: "('f, 'r) model_env \<Rightarrow> 'f EpistemicNearestNeighbors \<Rightarrow> 'f EpistemicNearestNeighbors option" where
  "drop_model env m = map_option snd (with_backend (persist_enn_backend_index (backend_env.truncate env)) m)"

definition natural_rows ::
    "('f, 'r) model_env \<Rightarrow> nat list \<Rightarrow> 'f EpistemicNearestNeighbors \<Rightarrow> ENNError + train_rows" where
  "natural_rows env is m =
     rbind (eb_train_rows_at is (em_backend m)) (\<lambda>(x, y, yvar).
       if \<not> em_bounded m then Inr (x, y, yvar)
       else Inr (x, inv_y (me_bounds env) y (em_y_bounds m),
                 map_option (\<lambda>v. naturalize_yvar (me_bounds env) y v (em_y_bounds m)) yvar))"

definition natural_y :: "('f, 'r) model_env \<Rightarrow> nat \<Rightarrow> 'f EpistemicNearestNeighbors \<Rightarrow> ENNError + f64 list" where
  "natural_y env i m = rbind (natural_rows env [i] m) (\<lambda>(x, y, v). Inr (hd (snd y)))"

definition has_yvar :: "'f EpistemicNearestNeighbors \<Rightarrow> ENNError + bool" where
  "has_yvar m = (if em_num_obs m > 0 then yvar_present m else Inr False)"

section \<open>Searching\<close>

definition as_i32 :: "int \<Rightarrow> int" where
  "as_i32 n = (n + 2 ^ 31) mod 2 ^ 32 - 2 ^ 31"

definition as_usize :: "int \<Rightarrow> nat" where
  "as_usize n = nat (n mod 2 ^ 64)"

definition model_ensure_sync ::
    "('f, 'r) model_env \<Rightarrow> 'f EpistemicNearestNeighbors \<Rightarrow> ((ENNError + unit) \<times> 'f EpistemicNearestNeighbors) option" where
  "model_ensure_sync env m =
     with_backend (eb_ensure_index_sync (backend_env.truncate env) (em_scale_x m) (em_x_scale m)) m"

definition model_backend_search ::
    "('f, 'r) model_env \<Rightarrow> ematrix \<Rightarrow> int \<Rightarrow> bool \<Rightarrow> 'f EpistemicNearestNeighbors
      \<Rightarrow> ((ENNError + hits list) \<times> 'f EpistemicNearestNeighbors) option" where
  "model_backend_search env q k exclude m =
     then_step (if eb_defer_index_sync_for_search (em_backend m) then Some (Inr (), m) else model_ensure_sync env m)
       (\<lambda>_. with_backend (eb_search (backend_env.truncate env) q k exclude))"

definition model_neighbors ::
    "('f, 'r) model_env \<Rightarrow> ematrix \<Rightarrow> int \<Rightarrow> bool \<Rightarrow> 'f EpistemicNearestNeighbors
      \<Rightarrow> ((ENNError + nat list list) \<times> 'f EpistemicNearestNeighbors) option" where
  "model_neighbors env q k exclude m =
     (let n = em_num_obs m in
      if fst q \<noteq> em_dim m then Some (Inl (EShape [length (snd q), em_dim m] [length (snd q), fst q]), m)
      else if k < 0 then Some (Inl EParameter, m)
      else if n = 0 then Some (Inr (map (\<lambda>_. []) (snd q)), m)
      else if exclude \<and> n \<le> 1 then Some (Inl EParameter, m)
      else let search_k = min (as_usize (if exclude then as_i32 (k + 1) else k)) n in
        if search_k = 0 then Some (Inr (map (\<lambda>_. []) (snd q)), m)
        else then_step (model_backend_search env q (as_i32 (int search_k)) exclude m) (\<lambda>rows m1.
          Some (Inr (map (\<lambda>(ds, ls). map as_usize (take (nat k) ls)) rows), m1)))"

end
