(* ===== verification/EnnModelLaws.thy ===== *)
theory EnnModelLaws
  imports EnnModel
begin

text \<open>
  Laws of the ENN model in memory: the moments that scale its rows, the rows of the three stores,
  and what the index holds after a synchronisation; and what a model on disk leaves in its metadata.
\<close>

section \<open>A model in memory and its calls\<close>

definition made_in_memory ::
    "('f, 'r) model_env \<Rightarrow> ematrix \<Rightarrow> ematrix \<Rightarrow> ematrix option \<Rightarrow> ModelOptions \<Rightarrow> 'f EpistemicNearestNeighbors \<Rightarrow> bool" where
  "made_in_memory env x y yvar opts m \<longleftrightarrow>
     mo_storage opts = StorageInMemory \<and> new_with_options env x y yvar opts = Some (Inr m)"

text \<open>Every call may fail but the synchronisation of the index and what needs it.\<close>

inductive model_step ::
    "('f, 'r) model_env \<Rightarrow> 'f EpistemicNearestNeighbors \<Rightarrow> 'f EpistemicNearestNeighbors \<Rightarrow> bool" for env where
  adds: "model_add env x y yvar m = Some (r, m') \<Longrightarrow> model_step env m m'"
| syncs: "model_ensure_sync env m = Some (Inr (), m') \<Longrightarrow> model_step env m m'"
| neighbours: "model_neighbors env q k exclude m = Some (Inr rows, m') \<Longrightarrow> model_step env m m'"
| flushes: "model_schedule_background_flush env m = Some (r, m') \<Longrightarrow> model_step env m m'"
| persists: "model_persist_index_to_disk env m = Some (r, m') \<Longrightarrow> model_step env m m'"

definition model_steps ::
    "('f, 'r) model_env \<Rightarrow> 'f EpistemicNearestNeighbors \<Rightarrow> 'f EpistemicNearestNeighbors \<Rightarrow> bool" where
  "model_steps env = (model_step env)\<^sup>*\<^sup>*"

lemma model_steps_refl [simp]: "model_steps env m m"
  by (simp add: model_steps_def)

lemma model_steps_add: "model_steps env m m1 \<Longrightarrow> model_add env x y yvar m1 = Some (r, m2) \<Longrightarrow> model_steps env m m2"
  unfolding model_steps_def by (rule rtranclp.rtrancl_into_rtrancl) (auto intro: adds)

definition data_of :: "'f InMemoryEnnBackend \<Rightarrow> RowStorage \<times> RowStorage \<times> RowStorage option \<times> nat \<times> nat" where
  "data_of b = (im_x b, im_y b, im_yvar b, im_dim b, im_metrics b)"

lemma data_of_index [simp]:
  "data_of (b\<lparr>im_index := ix\<rparr>) = data_of b" "data_of (b\<lparr>im_stale := st\<rparr>) = data_of b" "data_of (b\<lparr>im_synced := n\<rparr>) = data_of b"
  by (simp_all add: data_of_def)

lemma rebuilt_data: "rebuilt ops m scale b = (r, b') \<Longrightarrow> data_of b' = data_of b"
  by (auto simp: rebuilt_def split: prod.splits)

lemma sync_data: "in_memory_ensure_sync ops scale_x scale b = (r, b') \<Longrightarrow> data_of b' = data_of b"
  by (auto simp: in_memory_ensure_sync_def Let_def split: if_splits sum.splits prod.splits dest: rebuilt_data)

lemma search_data: "in_memory_search ops q k exclude b = (r, b') \<Longrightarrow> data_of b' = data_of b"
  by (auto simp: in_memory_search_def split: prod.splits)

text \<open>A call that is not \<open>add\<close> changes the index and the metadata file at most.\<close>

definition reindexed :: "'f EpistemicNearestNeighbors \<Rightarrow> 'f EpistemicNearestNeighbors \<Rightarrow> bool" where
  "reindexed m m' \<longleftrightarrow> (\<forall>b. em_backend m = InMemory b \<longrightarrow>
     (\<exists>b' meta. data_of b' = data_of b \<and> m' = m\<lparr>em_backend := InMemory b', em_meta := meta\<rparr>))"

lemma reindexed_refl [simp]: "reindexed m m"
  by (cases m) (auto simp: reindexed_def)

lemma model_sync_in_memory:
  "em_backend m = InMemory b \<Longrightarrow> model_ensure_sync env m =
     (let (r, b') = in_memory_ensure_sync (be_faiss env) (em_scale_x m) (em_x_scale m) b in Some (r, m\<lparr>em_backend := InMemory b'\<rparr>))"
  by (simp add: model_ensure_sync_def with_backend_def eb_ensure_index_sync_def in_memory_def backend_env.defs split: prod.split)


lemma reindexed_backend:
  "em_backend m = InMemory b \<Longrightarrow> data_of b' = data_of b \<Longrightarrow> reindexed m (m\<lparr>em_backend := InMemory b'\<rparr>)"
  by (cases m) (auto simp: reindexed_def)

lemma not_in_memory_reindexed: "em_backend m = Disk h \<Longrightarrow> reindexed m m'"
  by (simp add: reindexed_def)

lemma sync_reindexes:
  assumes "model_ensure_sync env m = Some (r, m')"
  shows "reindexed m m'"
proof (cases "em_backend m")
  case (InMemory b)
  obtain r1 b1 where step: "in_memory_ensure_sync (be_faiss env) (em_scale_x m) (em_x_scale m) b = (r1, b1)" by fastforce
  with assms InMemory have "m' = m\<lparr>em_backend := InMemory b1\<rparr>" by (simp add: model_sync_in_memory)
  then show ?thesis using reindexed_backend [OF InMemory sync_data [OF step]] by simp
qed (rule not_in_memory_reindexed)

lemma search_in_memory:
  "em_backend m = InMemory b \<Longrightarrow> with_backend (eb_search (backend_env.truncate env) q k exclude) m =
     (let (r, b') = in_memory_search (be_faiss env) q k exclude b in Some (r, m\<lparr>em_backend := InMemory b'\<rparr>))"
  by (simp add: with_backend_def eb_search_def in_memory_def backend_env.defs split: prod.split)

lemma backend_search_in_memory:
  assumes "em_backend m = InMemory b" "model_backend_search env q k exclude m = Some (Inr rows, m')"
  obtains b1 b2 where "in_memory_ensure_sync (be_faiss env) (em_scale_x m) (em_x_scale m) b = (Inr (), b1)"
    "in_memory_search (be_faiss env) q k exclude b1 = (Inr rows, b2)" "m' = m\<lparr>em_backend := InMemory b2\<rparr>"
  using assms
  by (auto simp: model_backend_search_def eb_defer_index_sync_for_search_def then_step_Inr_conv model_sync_in_memory
        search_in_memory Let_def split: prod.splits)

lemma neighbours_cases:
  assumes "model_neighbors env q k exclude m = Some (Inr rows, m')"
  obtains "m' = m" | n found where "model_backend_search env q n exclude m = Some (Inr found, m')"
  using assms by (auto simp: model_neighbors_def Let_def then_step_Inr_conv split: if_splits)

lemma neighbours_reindex:
  assumes "model_neighbors env q k exclude m = Some (Inr rows, m')"
  shows "reindexed m m'"
  using assms
proof (cases rule: neighbours_cases)
  case (2 n found)
  show ?thesis
  proof (cases "em_backend m")
    case (InMemory b)
    obtain b1 b2 where "in_memory_ensure_sync (be_faiss env) (em_scale_x m) (em_x_scale m) b = (Inr (), b1)"
      "in_memory_search (be_faiss env) q n exclude b1 = (Inr found, b2)" and m': "m' = m\<lparr>em_backend := InMemory b2\<rparr>"
      using backend_search_in_memory [OF InMemory 2] .
    then have "data_of b2 = data_of b" by (metis search_data sync_data)
    then show ?thesis unfolding m' by (rule reindexed_backend [OF InMemory])
  qed (rule not_in_memory_reindexed)
qed simp

text \<open>A model in memory changes no file but the metadata.\<close>

lemma persist_bounds_in_memory:
  "em_backend m = InMemory b \<Longrightarrow> persist_y_bounds_metadata env m = (r, m') \<Longrightarrow> \<exists>meta. m' = m\<lparr>em_meta := meta\<rparr>"
  by (cases m) (auto simp: persist_y_bounds_metadata_def set_model_meta_def split: option.splits sum.splits)

lemma persist_reindexes:
  assumes "model_persist_index_to_disk env m = Some (r, m')"
  shows "reindexed m m'"
proof (cases "em_backend m")
  case (InMemory b)
  let ?m = "m\<lparr>em_backend := InMemory b\<rparr>"
  have same: "?m = m" using InMemory by (cases m) simp
  have "persist_y_bounds_metadata env m = (r, m')"
    using assms InMemory
    by (simp add: model_persist_index_to_disk_def with_backend_def persist_enn_backend_index_def in_memory_def same)
  then obtain meta where "m' = m\<lparr>em_meta := meta\<rparr>"
    using persist_bounds_in_memory [OF InMemory] by blast
  then show ?thesis by (cases m) (auto simp: reindexed_def)
qed (rule not_in_memory_reindexed)

lemma flush_reindexes: "model_schedule_background_flush env m = Some (r, m') \<Longrightarrow> reindexed m m'"
  unfolding reindexed_def
  by (cases m) (auto simp: model_schedule_background_flush_def with_backend_def eb_schedule_background_flush_def in_memory_def)

section \<open>The stores and the moments\<close>

definition data_ok :: "'f EpistemicNearestNeighbors \<Rightarrow> 'f InMemoryEnnBackend \<Rightarrow> bool" where
  "data_ok m b \<longleftrightarrow> em_num_obs m = in_memory_len b \<and> em_dim m = rs_cols (im_x b) \<and> em_metrics m = rs_cols (im_y b) \<and>
     im_dim b = em_dim m \<and> im_metrics b = em_metrics m \<and>
     length (rs_rows (im_y b)) = in_memory_len b \<and> (\<forall>s. im_yvar b = Some s \<longrightarrow> rs_cols s = em_metrics m)"

definition y_moments_ok :: "'f EpistemicNearestNeighbors \<Rightarrow> 'f InMemoryEnnBackend \<Rightarrow> bool" where
  "y_moments_ok m b \<longleftrightarrow> (em_y_sum m, em_y_sumsq m) = column_sums_and_sumsq (storage_view (im_y b)) \<and>
     em_y_scale m = scale_from_moments (in_memory_len b) (em_metrics m) (em_y_sum m, em_y_sumsq m) fzero"

definition x_moments_ok :: "'f EpistemicNearestNeighbors \<Rightarrow> 'f InMemoryEnnBackend \<Rightarrow> bool" where
  "x_moments_ok m b \<longleftrightarrow>
     (if em_scale_x m
      then (em_x_sum m, em_x_sumsq m) = column_sums_and_sumsq (storage_view (im_x b)) \<and>
        em_x_scale m = scale_from_moments (in_memory_len b) (em_dim m) (em_x_sum m, em_x_sumsq m) min_x_std
      else em_x_scale m = ones (em_dim m))"

definition model_ok :: "'f EpistemicNearestNeighbors \<Rightarrow> bool" where
  "model_ok m \<longleftrightarrow> (case em_backend m of InMemory b \<Rightarrow> data_ok m b \<and> y_moments_ok m b \<and> x_moments_ok m b | Disk h \<Rightarrow> False)"

lemmas ok_defs = data_ok_def y_moments_ok_def x_moments_ok_def

lemma model_okE:
  assumes "model_ok m"
  obtains b where "em_backend m = InMemory b" "data_ok m b" "y_moments_ok m b" "x_moments_ok m b"
  using assms by (auto simp: model_ok_def split: EnnBackend.splits)

lemma data_of_simps:
  assumes "data_of b' = data_of b"
  shows "im_x b' = im_x b" "im_y b' = im_y b" "im_yvar b' = im_yvar b" "im_dim b' = im_dim b" "im_metrics b' = im_metrics b"
    "in_memory_len b' = in_memory_len b"
  using assms by (simp_all add: data_of_def in_memory_len_def)

lemma ok_data_of:
  assumes "data_of b' = data_of b"
  shows "data_ok m b' = data_ok m b" "y_moments_ok m b' = y_moments_ok m b" "x_moments_ok m b' = x_moments_ok m b"
  by (simp_all only: ok_defs data_of_simps [OF assms])

lemma ok_of_index:
  "data_ok (m\<lparr>em_backend := e, em_meta := meta\<rparr>) b = data_ok m b"
  "y_moments_ok (m\<lparr>em_backend := e, em_meta := meta\<rparr>) b = y_moments_ok m b"
  "x_moments_ok (m\<lparr>em_backend := e, em_meta := meta\<rparr>) b = x_moments_ok m b"
  by (simp_all add: ok_defs)

lemma model_ok_reindexed:
  assumes "model_ok m" "reindexed m m'"
  shows "model_ok m'"
proof -
  obtain b where b: "em_backend m = InMemory b" "data_ok m b" "y_moments_ok m b" "x_moments_ok m b"
    using assms(1) by (rule model_okE)
  then obtain b' meta where same: "data_of b' = data_of b" and m': "m' = m\<lparr>em_backend := InMemory b', em_meta := meta\<rparr>"
    using assms(2) by (auto simp: reindexed_def)
  then have "em_backend m' = InMemory b'" by simp
  then show ?thesis using b by (simp add: model_ok_def ok_data_of [OF same] m' ok_of_index)
qed

lemma column_sums_append:
  "column_sums_and_sumsq (c, xs @ ys) = accumulate_columns ys (column_sums_and_sumsq (c, xs))"
  by (simp add: column_sums_and_sumsq_def accumulate_columns_def)

section \<open>Adding rows\<close>

definition pushed_yvar :: "ematrix option \<Rightarrow> RowStorage option \<Rightarrow> RowStorage option" where
  "pushed_yvar wv old = (case wv of None \<Rightarrow> old
     | Some v \<Rightarrow> Some (case old of None \<Rightarrow> from_array2 v | Some s \<Rightarrow> s\<lparr>rs_rows := rs_rows s @ snd v\<rparr>))"

definition with_rows :: "ematrix \<Rightarrow> ematrix \<Rightarrow> ematrix option \<Rightarrow> 'f InMemoryEnnBackend \<Rightarrow> 'f InMemoryEnnBackend" where
  "with_rows x wy wv b = b\<lparr>im_x := (im_x b)\<lparr>rs_rows := rs_rows (im_x b) @ snd x\<rparr>,
     im_y := (im_y b)\<lparr>rs_rows := rs_rows (im_y b) @ snd wy\<rparr>, im_yvar := pushed_yvar wv (im_yvar b)\<rparr>"

lemma append_pushes:
  assumes "snd x \<noteq> []" "fst x = rs_cols (im_x b)" "fst wy = rs_cols (im_y b)"
    "\<And>v s. wv = Some v \<Longrightarrow> im_yvar b = Some s \<Longrightarrow> fst v = rs_cols s"
  shows "in_memory_append x wy wv b = (Inr (), with_rows x wy wv b)"
  using assms
  by (cases wv; cases "im_yvar b") (auto simp: in_memory_append_def push_rows_def Let_def with_rows_def pushed_yvar_def)

lemma over_columns_length: "length (over_columns f bounds row) = min (length row) (length (snd bounds))"
  by (simp add: over_columns_def)

lemma warp_y_Inr: "warp_y env y bounds = Inr wy \<Longrightarrow> same_dim wy y"
  by (auto simp: warp_y_def rbind_Inr_conv same_dim_def split: if_splits)

lemma warp_yvar_Inr: "warp_yvar y v bounds = Inr wv \<Longrightarrow> same_dim v y \<and> same_dim wv y"
  by (auto simp: warp_yvar_def rbind_Inr_conv same_dim_def Let_def split: if_splits)

lemma warped_shape:
  assumes "warped env bounds y yvar = Inr (wy, wv)"
  shows "same_dim wy y" "rel_option (\<lambda>w v. same_dim w y) wv yvar"
  using assms
  by (cases yvar; auto simp: warped_def rbind_Inr_conv dest!: warp_y_Inr warp_yvar_Inr)+

lemma maybe_warped_shape:
  assumes "(if bounded then warped env bounds y yvar else Inr (y, yvar)) = Inr (wy, wv)" "\<And>v. yvar = Some v \<Longrightarrow> same_dim v y"
  shows "same_dim wy y" "rel_option (\<lambda>w v. same_dim w y) wv yvar"
proof -
  show "same_dim wy y"
    using assms warped_shape(1) by (fastforce simp: same_dim_def split: if_splits)
  show "rel_option (\<lambda>w v. same_dim w y) wv yvar"
    using assms warped_shape(2) by (cases yvar) (fastforce split: if_splits)+
qed

definition stored_rows ::
    "('f, 'r) model_env \<Rightarrow> 'f EpistemicNearestNeighbors \<Rightarrow> ematrix \<Rightarrow> ematrix option \<Rightarrow> ENNError + ematrix \<times> ematrix option" where
  "stored_rows env m y yvar = (if em_bounded m then warped env (em_y_bounds m) y yvar else Inr (y, yvar))"

lemma stored_rows_shape:
  assumes "stored_rows env m y yvar = Inr (wy, wv)" "\<And>v. yvar = Some v \<Longrightarrow> same_dim v y"
  shows "same_dim wy y" "rel_option (\<lambda>w v. same_dim w y) wv yvar"
  using maybe_warped_shape [OF assms(1) [unfolded stored_rows_def] assms(2)] by simp_all

lemma validate_add_Inr:
  assumes "validate_add x y yvar m = Inr u"
  shows "length (snd x) = length (snd y)" "fst x = em_dim m" "fst y = em_metrics m" "\<And>v. yvar = Some v \<Longrightarrow> same_dim v y"
    "\<exists>p. yvar_present m = Inr p \<and> (em_num_obs m = 0 \<or> p = (yvar \<noteq> None))"
  using assms by (auto simp: validate_add_def rbind_Inr_conv split: if_splits option.splits)

lemma model_add_in_memory:
  assumes "em_backend m = InMemory b" "data_ok m b"
  shows "model_add env x y yvar m = Some (case validate_add x y yvar m of Inl e \<Rightarrow> (Inl e, m)
    | Inr _ \<Rightarrow> if snd x = [] then (Inr (), m)
      else case stored_rows env m y yvar of Inl e \<Rightarrow> (Inl e, m)
        | Inr (wy, wv) \<Rightarrow> (Inr (), note_rows x wy (m\<lparr>em_backend := InMemory (with_rows x wy wv b)\<rparr>)))"
proof (cases "validate_add x y yvar m")
  case (Inr u)
  note shapes = validate_add_Inr [OF Inr]
  have keep: "m\<lparr>em_backend := InMemory b\<rparr> = m" using assms(1) by (cases m) simp
  have wait: "with_backend eb_wait_for_flush m = Some (Inr (), m)"
    using assms(1) keep by (simp add: with_backend_def eb_wait_for_flush_def in_memory_def)
  show ?thesis
  proof (cases "snd x = [] \<or> (\<exists>e. stored_rows env m y yvar = Inl e)")
    case True
    then show ?thesis using Inr wait by (auto simp: model_add_def stored_rows_def)
  next
    case False
    then obtain wy wv where stored: "stored_rows env m y yvar = Inr (wy, wv)" by (metis obj_sumE old.prod.exhaust)
    have "in_memory_append x wy wv b = (Inr (), with_rows x wy wv b)"
    proof (rule append_pushes)
      show "fst x = rs_cols (im_x b)" "fst wy = rs_cols (im_y b)"
        using shapes assms(2) stored_rows_shape [OF stored shapes(4)] by (simp_all add: data_ok_def same_dim_def)
      show "fst v = rs_cols s" if "wv = Some v" "im_yvar b = Some s" for v s
        using that shapes assms(2) stored_rows_shape [OF stored shapes(4)]
        by (cases yvar) (simp_all add: data_ok_def same_dim_def)
    qed (use False in blast)
    then have "with_backend (eb_append_rows (backend_env.truncate env) x wy wv) m =
      Some (Inr (), m\<lparr>em_backend := InMemory (with_rows x wy wv b)\<rparr>)"
      using assms(1) by (simp add: with_backend_def eb_append_rows_def in_memory_def)
    then show ?thesis
      using False Inr wait stored by (simp add: model_add_def stored_rows_def [symmetric])
  qed
qed (simp add: model_add_def)

lemma note_rows_in_memory:
  assumes "em_backend m = InMemory b"
  shows "\<exists>b'. em_backend (note_rows x y m) = InMemory b' \<and> b' = (if em_scale_x m then in_memory_mark_stale b else b)"
  using assms by (auto simp: note_rows_def Let_def eb_mark_index_stale_def split: prod.split)

lemma with_rows_simps [simp]:
  "im_x (with_rows x wy wv b) = (im_x b)\<lparr>rs_rows := rs_rows (im_x b) @ snd x\<rparr>"
  "im_y (with_rows x wy wv b) = (im_y b)\<lparr>rs_rows := rs_rows (im_y b) @ snd wy\<rparr>"
  "im_yvar (with_rows x wy wv b) = pushed_yvar wv (im_yvar b)" "im_dim (with_rows x wy wv b) = im_dim b"
  "im_metrics (with_rows x wy wv b) = im_metrics b" "im_index (with_rows x wy wv b) = im_index b"
  "im_synced (with_rows x wy wv b) = im_synced b" "im_stale (with_rows x wy wv b) = im_stale b"
  by (simp_all add: with_rows_def)

lemma mark_stale_data [simp]: "data_of (in_memory_mark_stale b) = data_of b"
  by (simp add: in_memory_mark_stale_def)

text \<open>The fields of a model after rows have been noted.\<close>

lemma note_rows_fields:
  assumes "em_backend m = InMemory b"
  shows "em_num_obs (note_rows x y m) = in_memory_len b" "em_dim (note_rows x y m) = em_dim m"
    "em_metrics (note_rows x y m) = em_metrics m" "em_scale_x (note_rows x y m) = em_scale_x m"
    "(em_y_sum (note_rows x y m), em_y_sumsq (note_rows x y m)) = accumulate_columns (snd y) (em_y_sum m, em_y_sumsq m)"
    "em_y_scale (note_rows x y m) = scale_from_moments (in_memory_len b) (em_metrics m)
       (em_y_sum (note_rows x y m), em_y_sumsq (note_rows x y m)) fzero"
    "em_scale_x m \<Longrightarrow> (em_x_sum (note_rows x y m), em_x_sumsq (note_rows x y m)) = accumulate_columns (snd x) (em_x_sum m, em_x_sumsq m)"
    "em_scale_x m \<Longrightarrow> em_x_scale (note_rows x y m) = scale_from_moments (in_memory_len b) (em_dim m)
       (em_x_sum (note_rows x y m), em_x_sumsq (note_rows x y m)) min_x_std"
    "\<not> em_scale_x m \<Longrightarrow> em_x_scale (note_rows x y m) = em_x_scale m"
    "em_y_bounds (note_rows x y m) = em_y_bounds m" "em_bounded (note_rows x y m) = em_bounded m"
  using assms by (simp_all add: note_rows_def Let_def eb_len_def split: prod.split)

lemma add_cases:
  assumes "em_backend m = InMemory b" "data_ok m b" "model_add env x y yvar m = Some (r, m')"
  obtains "m' = m" "r = Inr () \<longrightarrow> snd x = []"
    | wy wv where "r = Inr ()" "m' = note_rows x wy (m\<lparr>em_backend := InMemory (with_rows x wy wv b)\<rparr>)" "snd x \<noteq> []"
      "length (snd x) = length (snd y)" "fst x = em_dim m" "same_dim wy y" "rel_option (\<lambda>w v. same_dim w y) wv yvar"
      "fst y = em_metrics m" "\<exists>p. yvar_present m = Inr p \<and> (em_num_obs m = 0 \<or> p = (yvar \<noteq> None))"
proof (cases "validate_add x y yvar m")
  case (Inr u)
  note shapes = validate_add_Inr [OF Inr]
  show thesis
  proof (cases "snd x = [] \<or> (\<exists>e. stored_rows env m y yvar = Inl e)")
    case True
    then have "m' = m" "r = Inr () \<longrightarrow> snd x = []"
      using assms(3) Inr by (auto simp: model_add_in_memory [OF assms(1,2)] split: if_splits)
    then show thesis by (rule that(1))
  next
    case False
    then obtain wy wv where stored: "stored_rows env m y yvar = Inr (wy, wv)" by (metis obj_sumE old.prod.exhaust)
    have "r = Inr ()" "m' = note_rows x wy (m\<lparr>em_backend := InMemory (with_rows x wy wv b)\<rparr>)"
      using assms(3) Inr False stored by (simp_all add: model_add_in_memory [OF assms(1,2)])
    then show thesis
      using False shapes(1-3,5) stored_rows_shape [OF stored shapes(4)] by (intro that(2)) simp_all
  qed
next
  case (Inl e)
  then show thesis using assms(3) by (intro that(1)) (auto simp: model_add_in_memory [OF assms(1,2)])
qed

lemma pushed_yvar_cols:
  assumes "pushed_yvar wv old = Some s" "\<And>s. old = Some s \<Longrightarrow> rs_cols s = k" "\<And>w. wv = Some w \<Longrightarrow> fst w = k"
  shows "rs_cols s = k"
  using assms by (cases wv; cases old) (auto simp: pushed_yvar_def from_array2_def)

lemma data_okD:
  assumes "data_ok m b"
  shows "em_num_obs m = length (rs_rows (im_x b))" "rs_cols (im_x b) = em_dim m" "rs_cols (im_y b) = em_metrics m"
    "im_dim b = em_dim m" "im_metrics b = em_metrics m" "length (rs_rows (im_y b)) = length (rs_rows (im_x b))"
    "im_yvar b = Some s \<Longrightarrow> rs_cols s = em_metrics m"
  using assms by (simp_all add: data_ok_def in_memory_len_def)

lemma data_ok_with_rows:
  assumes "data_ok m b" "length (snd x) = length (snd y)" "same_dim wy y" "fst y = em_metrics m"
    "rel_option (\<lambda>w v. same_dim w y) wv yvar"
    "em_num_obs m' = in_memory_len (with_rows x wy wv b)" "em_dim m' = em_dim m" "em_metrics m' = em_metrics m"
  shows "data_ok m' (with_rows x wy wv b)"
proof -
  note old = data_okD [OF assms(1)]
  have "fst w = em_metrics m" if "wv = Some w" for w
    using assms(4,5) that by (cases yvar) (simp_all add: same_dim_def)
  then have "\<forall>s. pushed_yvar wv (im_yvar b) = Some s \<longrightarrow> rs_cols s = em_metrics m"
    using pushed_yvar_cols [of wv "im_yvar b"] old(7) by metis
  then show ?thesis
    using assms(2,3,6-8) old(1-6) by (simp add: data_ok_def in_memory_len_def same_dim_def)
qed

lemma model_ok_add:
  assumes "model_ok m" "model_add env x y yvar m = Some (r, m')"
  shows "model_ok m'"
proof -
  obtain b where b: "em_backend m = InMemory b" "data_ok m b" "y_moments_ok m b" "x_moments_ok m b"
    using assms(1) by (rule model_okE)
  show ?thesis
    using b(1,2) assms(2)
  proof (cases rule: add_cases)
    case (2 wy wv)
    let ?m = "m\<lparr>em_backend := InMemory (with_rows x wy wv b)\<rparr>"
    obtain b' where b': "em_backend m' = InMemory b'" "data_of b' = data_of (with_rows x wy wv b)"
      using note_rows_in_memory [of ?m "with_rows x wy wv b" x wy] 2(2) by fastforce
    note fields = note_rows_fields [of ?m "with_rows x wy wv b" x wy, simplified]
    have "data_ok m' (with_rows x wy wv b)"
      by (rule data_ok_with_rows [OF b(2) 2(4,6,8,7)]) (simp_all only: 2(2) fields(1-3))
    moreover have "y_moments_ok m' (with_rows x wy wv b)"
      using b(3) fields(5,6)
      by (simp add: y_moments_ok_def 2(2) fields(3) storage_view_def column_sums_append)
    moreover have "x_moments_ok m' (with_rows x wy wv b)"
    proof (cases "em_scale_x m")
      case True
      then show ?thesis
        using b(4) fields(7,8) by (simp add: x_moments_ok_def 2(2) fields(2,4) storage_view_def column_sums_append)
    next
      case False
      then show ?thesis using b(4) fields(9) by (simp add: x_moments_ok_def 2(2) fields(2,4))
    qed
    ultimately show ?thesis by (simp add: model_ok_def b'(1) ok_data_of [OF b'(2)])
  qed (use assms(1) in simp)
qed

lemma model_ok_step: "model_step env m m' \<Longrightarrow> model_ok m \<Longrightarrow> model_ok m'"
  by (induction rule: model_step.induct)
    (blast intro: model_ok_add model_ok_reindexed sync_reindexes neighbours_reindex persist_reindexes flush_reindexes)+

lemma model_ok_steps: "model_steps env m m' \<Longrightarrow> model_ok m \<Longrightarrow> model_ok m'"
  unfolding model_steps_def by (induction rule: rtranclp_induct) (blast intro: model_ok_step)+

section \<open>A new model in memory\<close>

lemma lifted_Inr [simp]: "param_err r = Inr v \<longleftrightarrow> r = Inr v" "index_err r = Inr v \<longleftrightarrow> r = Inr v"
  by (auto simp: param_err_def index_err_def split: sum.splits IndexError.splits)

lemma lifted_of_Inr [simp]: "param_err (Inr v) = Inr v" "index_err (Inr v) = Inr v"
  by (simp_all add: param_err_def index_err_def)

lemma in_memory_new_Inr:
  assumes "in_memory_new ops x y yvar scale_x scale driver = Inr b"
  obtains sx ix where "scaled_by scale_x scale x = Inr sx" "index_new ops sx (fst x) scale scale_x driver = Inr ix"
    "b = \<lparr>im_x = from_array2 x, im_y = from_array2 y, im_yvar = map_option from_array2 yvar, im_dim = fst x,
       im_metrics = fst y, im_index = ix, im_stale = False, im_synced = min (index_len ops ix) (length (snd x))\<rparr>"
  using assms that by (auto simp: in_memory_new_def rbind_Inr_conv)

lemma in_memory_new_len: "in_memory_new ops x y yvar scale_x scale driver = Inr b \<Longrightarrow> in_memory_len b = length (snd x)"
  by (erule in_memory_new_Inr) (simp add: in_memory_len_def from_array2_def)

lemma in_memory_new_yvar:
  "in_memory_new ops x y yvar scale_x scale driver = Inr b \<Longrightarrow> im_yvar b = map_option from_array2 yvar"
  by (erule in_memory_new_Inr) simp

definition first_model ::
    "ModelOptions \<Rightarrow> 'f InMemoryEnnBackend \<Rightarrow> ematrix \<Rightarrow> ematrix \<Rightarrow> ematrix \<Rightarrow> bool \<Rightarrow> string option option \<Rightarrow> 'f EpistemicNearestNeighbors" where
  "first_model opts b x y bounds bounded meta =
     (let (ys, yq) = column_sums_and_sumsq y; (xsc, xs, xq) = init_x_stats x (mo_scale_x opts)
      in \<lparr>em_backend = InMemory b, em_num_obs = length (snd x), em_dim = fst x, em_metrics = fst y,
           em_scale_x = mo_scale_x opts, em_x_scale = xsc,
           em_y_scale = scale_from_moments (length (snd x)) (fst y) (ys, yq) fzero,
           em_y_bounds = bounds, em_bounded = bounded, em_y_sum = ys, em_y_sumsq = yq,
           em_x_sum = xs, em_x_sumsq = xq, em_meta = meta\<rparr>)"

lemma made_in_memory_cases:
  assumes "made_in_memory env x y yvar opts m"
  obtains wy wv b bounds bounded meta where
    "in_memory_new (be_faiss env) x wy wv (mo_scale_x opts) (fst (init_x_stats x (mo_scale_x opts))) (mo_driver opts) = Inr b"
    "m = first_model opts b x wy bounds bounded meta" "bounded = (\<not> is_identity_bounds bounds)"
    "(if bounded then warped env bounds y yvar else Inr (y, yvar)) = Inr (wy, wv)"
    "length (snd x) = length (snd y)" "\<And>v. yvar = Some v \<Longrightarrow> same_dim v y"
    "validate_bounds bounds (fst y) = Inr ()"
proof -
  define dir where "dir = (case mo_work_dir opts of Some p \<Rightarrow> Some p | None \<Rightarrow> me_env_dir env)"
  have new: "new_with_options env x y yvar opts = Some (Inr m)" "mo_storage opts = StorageInMemory"
    using assms by (simp_all add: made_in_memory_def)
  obtain bounds wy wv where early: "validate_shapes x y yvar = Inr ()"
      "validate_bounds bounds (fst y) = Inr ()"
      "(if \<not> is_identity_bounds bounds then warped env bounds y yvar else Inr (y, yvar)) = Inr (wy, wv)"
    and new': "choose_bounds env dir (fst y) (mo_y_bounds opts) = Inr bounds"
      "ensure (\<not> (mo_scale_x opts \<and> is_disk_index_driver (mo_driver opts))) EParameter = Inr ()"
    using new(1) unfolding new_with_options_def dir_def [symmetric] Let_def
    by (auto simp: rbind_Inr_conv split: sum.splits)
  have shapes: "length (snd x) = length (snd y)" "\<And>v. yvar = Some v \<Longrightarrow> same_dim v y"
    using early(1) by (auto simp: validate_shapes_def split: if_splits option.splits)
  let ?meta = "map_option (\<lambda>p. metadata_json (fst (fst p))) dir"
  let ?scales = "init_x_stats x (mo_scale_x opts)"
  have first: "first_backend env opts dir x wy wv (fst ?scales) =
    Some (rbind (in_memory_new (be_faiss env) x wy wv (mo_scale_x opts) (fst ?scales) (mo_driver opts)) (\<lambda>b. Inr (InMemory b)))"
    by (simp add: first_backend_def new(2) eb_new_in_memory_def backend_env.defs)
  have "\<exists>b. in_memory_new (be_faiss env) x wy wv (mo_scale_x opts) (fst ?scales) (mo_driver opts) = Inr b \<and>
     persist_y_bounds_metadata env (first_model opts b x wy bounds (\<not> is_identity_bounds bounds) ?meta) = (Inr (), m)"
  proof (cases "in_memory_new (be_faiss env) x wy wv (mo_scale_x opts) (fst ?scales) (mo_driver opts)")
    case (Inl e)
    then show ?thesis
      using new early new' first
      by (simp add: new_with_options_def dir_def [symmetric] Let_def case_prod_beta)
  next
    case (Inr b)
    then show ?thesis
      using new early new' first in_memory_new_len [OF Inr]
      by (auto simp: new_with_options_def dir_def [symmetric] Let_def case_prod_beta eb_len_def first_model_def rbind_Inr_conv
            prod_eq_iff)
  qed
  then obtain b where "in_memory_new (be_faiss env) x wy wv (mo_scale_x opts) (fst ?scales) (mo_driver opts) = Inr b"
    "persist_y_bounds_metadata env (first_model opts b x wy bounds (\<not> is_identity_bounds bounds) ?meta) = (Inr (), m)" by blast
  moreover have "em_backend (first_model opts b x wy bounds bd meta) = InMemory b" for bd meta
    by (simp add: first_model_def Let_def case_prod_beta)
  ultimately obtain meta where m: "m = (first_model opts b x wy bounds (\<not> is_identity_bounds bounds) ?meta)\<lparr>em_meta := meta\<rparr>"
    and b: "in_memory_new (be_faiss env) x wy wv (mo_scale_x opts) (fst ?scales) (mo_driver opts) = Inr b"
    using persist_bounds_in_memory by metis
  show ?thesis
    by (rule that [OF b _ refl early(3) shapes early(2), of meta])
      (simp add: m first_model_def Let_def case_prod_beta)
qed

lemma model_ok_made:
  assumes "made_in_memory env x y yvar opts m"
  shows "model_ok m"
  using assms
proof (cases rule: made_in_memory_cases)
  case (1 wy wv b bounds bounded meta)
  obtain ix n where b: "b = \<lparr>im_x = from_array2 x, im_y = from_array2 wy, im_yvar = map_option from_array2 wv, im_dim = fst x,
       im_metrics = fst wy, im_index = ix, im_stale = False, im_synced = n\<rparr>"
    using 1(1) by (rule in_memory_new_Inr) blast
  have shapes: "same_dim wy y" "rel_option (\<lambda>w v. same_dim w y) wv yvar"
    using maybe_warped_shape [OF 1(4)] 1(6) by simp_all
  have yvar: "fst w = fst wy" if "wv = Some w" for w
    using shapes that by (cases yvar) (simp_all add: same_dim_def)
  have "data_ok m b"
    using 1(5) shapes(1) yvar
    by (auto simp: data_ok_def 1(2) first_model_def b from_array2_def in_memory_len_def same_dim_def Let_def case_prod_beta)
  moreover have "y_moments_ok m b" "x_moments_ok m b"
    by (simp_all add: ok_defs 1(2) first_model_def b from_array2_def in_memory_len_def storage_view_def init_x_stats_def
        Let_def case_prod_beta)
  moreover have "em_backend m = InMemory b" by (simp add: 1(2) first_model_def Let_def case_prod_beta)
  ultimately show ?thesis by (simp add: model_ok_def)
qed

section \<open>A variance for every row or for none\<close>

definition var_ok :: "'f InMemoryEnnBackend \<Rightarrow> bool" where
  "var_ok b \<longleftrightarrow> (case im_yvar b of None \<Rightarrow> True | Some s \<Rightarrow> length (rs_rows s) = in_memory_len b \<and> in_memory_len b > 0)"

definition model_var_ok :: "'f EpistemicNearestNeighbors \<Rightarrow> bool" where
  "model_var_ok m \<longleftrightarrow> (\<forall>b. em_backend m = InMemory b \<longrightarrow> var_ok b)"

lemma var_ok_data:
  assumes "data_of b' = data_of b"
  shows "var_ok b' = var_ok b"
  by (simp only: var_ok_def data_of_simps [OF assms])

lemma model_var_ok_reindexed:
  assumes "model_ok m" "model_var_ok m" "reindexed m m'"
  shows "model_var_ok m'"
proof -
  obtain b where b: "em_backend m = InMemory b" using assms(1) by (rule model_okE)
  then obtain b' meta where same: "data_of b' = data_of b" and m': "m' = m\<lparr>em_backend := InMemory b', em_meta := meta\<rparr>"
    using assms(3) by (auto simp: reindexed_def)
  then show ?thesis using assms(2) b by (simp add: model_var_ok_def var_ok_data [OF same] m')
qed

lemma yvar_present_in_memory:
  assumes "em_backend m = InMemory b" "var_ok b" "yvar_present m = Inr p"
  shows "p = (im_yvar b \<noteq> None)"
  using assms
  by (auto simp: yvar_present_def eb_row_yvar_def in_memory_row_yvar_def row_vec_def var_ok_def split: option.splits if_splits)

lemma var_ok_with_rows:
  assumes "var_ok b" "length (snd x) = length (snd y)" "snd x \<noteq> []" "rel_option (\<lambda>w v. same_dim w y) wv yvar"
    "in_memory_len b = 0 \<or> (im_yvar b \<noteq> None) = (yvar \<noteq> None)"
  shows "var_ok (with_rows x wy wv b)"
proof -
  have len: "in_memory_len (with_rows x wy wv b) = in_memory_len b + length (snd x)" for wv by (simp add: in_memory_len_def)
  show ?thesis
  proof (cases wv)
    case None
    then have "im_yvar b = None" using assms(1,4,5) by (cases "im_yvar b") (auto simp: var_ok_def)
    then show ?thesis using None by (simp add: var_ok_def pushed_yvar_def)
  next
    case (Some v)
    then have v: "length (snd v) = length (snd x)" "yvar \<noteq> None"
      using assms(2,4) by (cases yvar; simp add: same_dim_def)+
    show ?thesis
    proof (cases "im_yvar b")
      case None
      then have "in_memory_len b = 0" using assms(5) v(2) by blast
      then show ?thesis
        using assms(3) Some None v(1) by (simp add: var_ok_def pushed_yvar_def from_array2_def len)
    next
      case old: (Some s)
      then show ?thesis
        using assms(1) Some v(1) by (simp add: var_ok_def pushed_yvar_def len)
    qed
  qed
qed

lemma model_var_ok_add:
  assumes "model_ok m" "model_var_ok m" "model_add env x y yvar m = Some (r, m')"
  shows "model_var_ok m'"
proof -
  obtain b where b: "em_backend m = InMemory b" "data_ok m b"
    using assms(1) by (rule model_okE)
  have var: "var_ok b" using assms(2) b(1) by (simp add: model_var_ok_def)
  show ?thesis
    using b assms(3)
  proof (cases rule: add_cases)
    case (2 wy wv)
    obtain p where p: "yvar_present m = Inr p" "em_num_obs m = 0 \<or> p = (yvar \<noteq> None)" using 2(9) by blast
    have "in_memory_len b = 0 \<or> (im_yvar b \<noteq> None) = (yvar \<noteq> None)"
      using yvar_present_in_memory [OF b(1) var p(1)] p(2) data_okD(1) [OF b(2)] by (auto simp: in_memory_len_def)
    then have "var_ok (with_rows x wy wv b)" by (rule var_ok_with_rows [OF var 2(4,3,7)])
    moreover obtain b' where b': "em_backend m' = InMemory b'" "data_of b' = data_of (with_rows x wy wv b)"
      using note_rows_in_memory [of "m\<lparr>em_backend := InMemory (with_rows x wy wv b)\<rparr>" "with_rows x wy wv b" x wy] 2(2) by fastforce
    ultimately show ?thesis by (simp add: model_var_ok_def var_ok_data [OF b'(2)])
  qed (use assms(2) in simp)
qed

lemma model_var_ok_step: "model_step env m m' \<Longrightarrow> model_ok m \<Longrightarrow> model_var_ok m \<Longrightarrow> model_var_ok m'"
  by (induction rule: model_step.induct)
    (blast intro: model_var_ok_add model_var_ok_reindexed sync_reindexes neighbours_reindex persist_reindexes flush_reindexes)+

lemma model_var_ok_steps: "model_steps env m m' \<Longrightarrow> model_ok m \<Longrightarrow> model_var_ok m \<Longrightarrow> model_var_ok m'"
  unfolding model_steps_def
proof (induction rule: rtranclp_induct)
  case (step y z)
  then show ?case using model_ok_steps [of env m y] model_var_ok_step by (simp add: model_steps_def)
qed

lemma model_var_ok_made:
  assumes "made_in_memory env x y yvar opts m" "yvar = None \<or> snd x \<noteq> []"
  shows "model_var_ok m"
  using assms(1)
proof (cases rule: made_in_memory_cases)
  case (1 wy wv b bounds bounded meta)
  obtain ix n where b: "b = \<lparr>im_x = from_array2 x, im_y = from_array2 wy, im_yvar = map_option from_array2 wv, im_dim = fst x,
       im_metrics = fst wy, im_index = ix, im_stale = False, im_synced = n\<rparr>"
    using 1(1) by (rule in_memory_new_Inr) blast
  have "rel_option (\<lambda>w v. same_dim w y) wv yvar" using maybe_warped_shape [OF 1(4)] 1(6) by simp
  then have "var_ok b"
    using assms(2) 1(5)
    by (cases wv; cases yvar) (auto simp: b var_ok_def in_memory_len_def from_array2_def same_dim_def)
  moreover have "em_backend m = InMemory b" by (simp add: 1(2) first_model_def Let_def case_prod_beta)
  ultimately show ?thesis by (simp add: model_var_ok_def)
qed

lemma map_res_Inr_iff: "(\<And>i. i \<in> set is \<Longrightarrow> f i = Inr (g i)) \<Longrightarrow> map_res f is = Inr (map g is)"
  by (induction "is") auto

lemma gather_in_range:
  assumes "\<forall>i\<in>set is. i < length (rs_rows s)"
  shows "gather_storage is s = Inr (rs_cols s, map ((!) (rs_rows s)) is)"
  using assms by (simp add: gather_storage_def map_res_Inr_iff [where g = "(!) (rs_rows s)"] row_vec_def)

lemma rows_in_range:
  assumes "data_ok m b" "var_ok b" "\<forall>i\<in>set is. i < em_num_obs m"
  shows "in_memory_train_rows_at is b = Inr ((em_dim m, map ((!) (rs_rows (im_x b))) is),
    (em_metrics m, map ((!) (rs_rows (im_y b))) is), map_option (\<lambda>s. (rs_cols s, map ((!) (rs_rows s)) is)) (im_yvar b))"
proof -
  note data = data_okD [OF assms(1)]
  have "gather_storage is (im_x b) = Inr (em_dim m, map ((!) (rs_rows (im_x b))) is)"
    "gather_storage is (im_y b) = Inr (em_metrics m, map ((!) (rs_rows (im_y b))) is)"
    using assms(3) data gather_in_range [of "is" "im_x b"] gather_in_range [of "is" "im_y b"] by simp_all
  moreover have "gather_storage is s = Inr (rs_cols s, map ((!) (rs_rows s)) is)" if "im_yvar b = Some s" for s
    using assms(2,3) data(1) that by (intro gather_in_range) (simp add: var_ok_def in_memory_len_def)
  ultimately show ?thesis
    using assms(3) data(1) by (auto simp: in_memory_train_rows_at_def in_memory_len_def split: option.splits)
qed

section \<open>A sample model\<close>

text \<open>An index library that keeps its rows in a list, and models over it without a work directory.\<close>

definition list_faiss :: "(nat \<times> f32 list) faiss_ops" where
  "list_faiss = \<lparr>faiss_new = (\<lambda>d. Some (0, [])), faiss_reset = (\<lambda>h. (True, (0, []))),
     faiss_add = (\<lambda>n xs (k, c). (True, (k + n, c @ xs))), faiss_len = fst,
     faiss_search = (\<lambda>n k q h. (Some (replicate (n * k) fzero, replicate (n * k) 0), h))\<rparr>"

definition plain_env :: "(nat \<times> f32 list, unit) model_env" where
  "plain_env = \<lparr>be_faiss = list_faiss, be_os = (\<lambda>_. True), be_build = test_env, be_to_json = (\<lambda>_. []), be_from_json = (\<lambda>_. None),
     be_plan = (\<lambda>_. Works), me_bounds = \<lparr>ln_of = id, exp_of = id, show_f64 = (\<lambda>_. []), parse_f64 = (\<lambda>_. None)\<rparr>,
     me_env_dir = None, me_meta_ok = True\<rparr>"

definition plain_options :: ModelOptions where
  "plain_options = \<lparr>mo_scale_x = False, mo_driver = Exact, mo_storage = StorageInMemory, mo_work_dir = None, mo_y_bounds = None\<rparr>"

lemma unbounded_ok [simp]: "is_identity_bounds (unbounded_bounds k)" "validate_bounds (unbounded_bounds k) k = Inr ()"
  by (simp_all add: is_identity_bounds_def validate_bounds_def unbounded_bounds_def valid_pair_def list_all_iff
      fcmp_defs float_eval)

definition list_index :: "nat \<Rightarrow> nat \<times> f32 list \<Rightarrow> (nat \<times> f32 list) ENNIndex" where
  "list_index d h = \<lparr>ix_inner = \<lparr>fb_handle = h, fb_dim = d\<rparr>, ix_dim = d, ix_x_scale = ones d, ix_scale_x = False, ix_driver = Exact\<rparr>"

definition plain_backend :: "nat \<Rightarrow> f64 list list \<Rightarrow> nat \<Rightarrow> f64 list list \<Rightarrow> ematrix option \<Rightarrow> (nat \<times> f32 list) InMemoryEnnBackend" where
  "plain_backend d xs k ys yvar = \<lparr>im_x = \<lparr>rs_cols = d, rs_rows = xs\<rparr>, im_y = \<lparr>rs_cols = k, rs_rows = ys\<rparr>,
     im_yvar = map_option from_array2 yvar, im_dim = d, im_metrics = k,
     im_index = list_index d (length xs, arr2_rows_to_f32 xs), im_stale = False, im_synced = length xs\<rparr>"

definition plain_model :: "nat \<Rightarrow> f64 list list \<Rightarrow> nat \<Rightarrow> f64 list list \<Rightarrow> ematrix option \<Rightarrow> (nat \<times> f32 list) EpistemicNearestNeighbors" where
  "plain_model d xs k ys yvar =
     first_model plain_options (plain_backend d xs k ys yvar) (d, xs) (k, ys) (unbounded_bounds k) False None"

lemma plain_backend_new:
  assumes "0 < d"
  shows "in_memory_new list_faiss (d, xs) (k, ys) yvar False (ones d) Exact = Inr (plain_backend d xs k ys yvar)"
  using assms
  by (simp add: in_memory_new_def scaled_by_def index_new_def knn_backend_new_def faiss_backend_new_def no_elements_def
      faiss_add_rows_def list_faiss_def plain_backend_def from_array2_def list_index_def index_len_def
      faiss_backend_len_def arr2_rows_to_f32_def Let_def)

lemma plain_model_made:
  assumes "0 < d" "length xs = length ys" "\<And>v. yvar = Some v \<Longrightarrow> same_dim v (k, ys)"
  shows "made_in_memory plain_env (d, xs) (k, ys) yvar plain_options (plain_model d xs k ys yvar)"
proof -
  have shapes: "validate_shapes (d, xs) (k, ys) yvar = Inr ()"
    using assms(2,3) by (cases yvar) (simp_all add: validate_shapes_def same_dim_def)
  have "choose_bounds plain_env None k None = Inr (unbounded_bounds k)" by (simp add: choose_bounds_def)
  moreover have "em_backend (plain_model d xs k ys yvar) = InMemory (plain_backend d xs k ys yvar)"
    by (simp add: plain_model_def first_model_def Let_def case_prod_beta)
  moreover have "in_memory_len (plain_backend d xs k ys yvar) = length xs" by (simp add: plain_backend_def in_memory_len_def)
  moreover have "persist_y_bounds_metadata plain_env (plain_model d xs k ys yvar) = (Inr (), plain_model d xs k ys yvar)"
    by (simp add: persist_y_bounds_metadata_def model_meta_def plain_model_def first_model_def Let_def case_prod_beta)
  ultimately show ?thesis
    using plain_backend_new [OF assms(1), of xs k ys yvar] shapes
    by (simp add: made_in_memory_def new_with_options_def plain_options_def plain_env_def backend_env.defs eb_len_def
        first_backend_def eb_new_in_memory_def init_x_stats_def plain_model_def first_model_def Let_def case_prod_beta
        is_disk_index_driver_def)
qed

lemma plain_model_fields:
  "em_backend (plain_model d xs k ys yvar) = InMemory (plain_backend d xs k ys yvar)" "em_dim (plain_model d xs k ys yvar) = d"
  "em_metrics (plain_model d xs k ys yvar) = k" "em_num_obs (plain_model d xs k ys yvar) = length xs"
  "em_bounded (plain_model d xs k ys yvar) = False" "em_scale_x (plain_model d xs k ys yvar) = False"
  by (simp_all add: plain_model_def first_model_def plain_options_def Let_def case_prod_beta)

lemma plain_model_add:
  assumes "0 < d" "length xs = length ys" "zs \<noteq> []" "length zs = length ws"
  shows "model_add plain_env (d, zs) (k, ws) None (plain_model d xs k ys None) =
    Some (Inr (), note_rows (d, zs) (k, ws) ((plain_model d xs k ys None)
      \<lparr>em_backend := InMemory (with_rows (d, zs) (k, ws) None (plain_backend d xs k ys None))\<rparr>))"
proof -
  let ?m = "plain_model d xs k ys None"
  have "model_ok ?m" by (rule model_ok_made [OF plain_model_made]) (use assms in simp_all)
  then have "data_ok ?m (plain_backend d xs k ys None)" by (simp add: model_ok_def plain_model_fields)
  moreover have "validate_add (d, zs) (k, ws) None ?m = Inr ()"
    using assms(4) by (simp add: validate_add_def plain_model_fields yvar_present_def eb_row_yvar_def in_memory_row_yvar_def
        plain_backend_def in_memory_len_def)
  ultimately show ?thesis
    using assms(3) by (simp add: model_add_in_memory [OF plain_model_fields(1)] stored_rows_def plain_model_fields)
qed

lemma plain_model_added:
  assumes "0 < d" "length xs = length ys" "zs \<noteq> []" "length zs = length ws"
  obtains m where "model_steps plain_env (plain_model d xs k ys None) m" "em_num_obs m = length xs + length zs"
    "em_backend m = InMemory (with_rows (d, zs) (k, ws) None (plain_backend d xs k ys None))" "\<not> em_scale_x m" "em_dim m = d"
proof
  let ?b = "with_rows (d, zs) (k, ws) None (plain_backend d xs k ys None)"
  let ?m = "(plain_model d xs k ys None)\<lparr>em_backend := InMemory ?b\<rparr>"
  show "model_steps plain_env (plain_model d xs k ys None) (note_rows (d, zs) (k, ws) ?m)"
    by (rule model_steps_add [OF model_steps_refl plain_model_add [OF assms]])
  have "in_memory_len ?b = length xs + length zs" by (simp add: in_memory_len_def plain_backend_def)
  then show "em_num_obs (note_rows (d, zs) (k, ws) ?m) = length xs + length zs"
    using note_rows_fields(1) [of ?m ?b] by simp
  show "em_backend (note_rows (d, zs) (k, ws) ?m) = InMemory ?b" "\<not> em_scale_x (note_rows (d, zs) (k, ws) ?m)"
    "em_dim (note_rows (d, zs) (k, ws) ?m) = d"
    using note_rows_in_memory [of ?m ?b "(d, zs)" "(k, ws)"]
    by (simp_all add: plain_model_fields note_rows_fields [of ?m ?b])
qed

section \<open>Recomputing and failing\<close>

lemma every_row [simp]: "map ((!) xs) [0..<length xs] = xs"
  by (rule map_nth)

text \<open>The statistics read back from the rows are the ones a model in memory keeps.\<close>

lemma stats_kept:
  assumes "em_backend m = InMemory b" "data_ok m b" "y_moments_ok m b" "x_moments_ok m b" "var_ok b" "em_num_obs m \<noteq> 0"
  shows "sync_obs_stats_from_backend env m = model_ensure_sync env m"
proof -
  note data = data_okD [OF assms(2)]
  have all: "map ((!) (rs_rows (im_x b))) [0..<em_num_obs m] = rs_rows (im_x b)"
    "map ((!) (rs_rows (im_y b))) [0..<em_num_obs m] = rs_rows (im_y b)"
    unfolding data(1) by (rule every_row) (use data(6) every_row [of "rs_rows (im_y b)"] in simp)
  obtain v where rows: "in_memory_train_rows_at [0..<em_num_obs m] b = Inr (storage_view (im_x b), storage_view (im_y b), v)"
    using rows_in_range [OF assms(2,5), of "[0..<em_num_obs m]"] by (simp add: all storage_view_def data(2,3))
  have lens: "em_num_obs m = in_memory_len b" "im_dim b = em_dim m" "im_metrics b = em_metrics m"
    using data by (simp_all add: in_memory_len_def)
  have same: "m\<lparr>em_dim := em_dim m, em_metrics := em_metrics m, em_num_obs := em_num_obs m\<rparr> = m" by (cases m) simp
  obtain ys yq where y: "column_sums_and_sumsq (storage_view (im_y b)) = (ys, yq)" by fastforce
  have ym: "m\<lparr>em_y_sum := ys, em_y_sumsq := yq, em_y_scale := scale_from_moments (em_num_obs m) (em_metrics m) (ys, yq) fzero\<rparr> = m"
    using assms(3) lens(1) y by (cases m) (simp add: y_moments_ok_def)
  obtain xs xq where x: "column_sums_and_sumsq (storage_view (im_x b)) = (xs, xq)" by fastforce
  have xm: "m\<lparr>em_x_sum := xs, em_x_sumsq := xq, em_x_scale := scale_from_moments (em_num_obs m) (em_dim m) (xs, xq) min_x_std\<rparr> = m"
    if "em_scale_x m" using assms(4) lens(1) x that by (cases m) (simp add: x_moments_ok_def)
  show ?thesis
    using assms(1,6) rows
    by (simp add: sync_obs_stats_from_backend_def eb_len_def eb_num_dim_def eb_num_metrics_def eb_train_rows_at_def
        lens(1) [symmetric] lens(2,3) same Let_def y x ym xm model_ensure_sync_def)
qed

text \<open>C7: a model in memory keeps its statistics right. After any calls, the count, the sums and
  the scales of a model are those of the rows in its stores, so recomputing them from the rows, as a
  reopened model does, changes nothing before the index is synchronised.\<close>

theorem kept_statistics_are_the_recomputed_ones:
  assumes "made_in_memory env x y yvar opts m0" "yvar = None \<or> snd x \<noteq> []" "model_steps env m0 m" "em_num_obs m \<noteq> 0"
  shows "sync_obs_stats_from_backend env m = model_ensure_sync env m"
proof -
  have ok: "model_ok m" "model_var_ok m"
    using model_ok_made [OF assms(1)] model_ok_steps [OF assms(3)] model_var_ok_steps [OF assms(3)]
      model_var_ok_made [OF assms(1,2)] by blast+
  then obtain b where "em_backend m = InMemory b" "data_ok m b" "y_moments_ok m b" "x_moments_ok m b"
    by (metis model_okE)
  then show ?thesis using ok(2) assms(4) by (intro stats_kept) (simp_all add: model_var_ok_def)
qed

theorem kept_statistics_are_the_recomputed_ones_witness:
  "\<exists>m. model_steps plain_env (plain_model 1 [[fzero]] 1 [[fzero]] None) m \<and> em_num_obs m = 2 \<and>
     sync_obs_stats_from_backend plain_env m = model_ensure_sync plain_env m"
proof -
  obtain m where m: "model_steps plain_env (plain_model 1 [[fzero]] 1 [[fzero]] None) m" "em_num_obs m = 1 + 1"
    using plain_model_added [of 1 "[[fzero]]" "[[fzero]]" "[[fzero]]" "[[fzero]]" 1] by auto
  have "made_in_memory plain_env (1, [[fzero]]) (1, [[fzero]]) None plain_options (plain_model 1 [[fzero]] 1 [[fzero]] None)"
    by (rule plain_model_made) simp_all
  from kept_statistics_are_the_recomputed_ones [OF this _ m(1)] m show ?thesis by auto
qed

text \<open>C12: an add that fails changes nothing. On a model in memory reached by any calls, rows that are
  rejected (a wrong shape, a missing or unexpected variance, a value outside its bounds) leave the
  stores, the statistics and the index as they were.\<close>

theorem failed_add_changes_nothing:
  assumes "made_in_memory env x0 y0 yvar0 opts m0" "model_steps env m0 m" "model_add env x y yvar m = Some (Inl e, m')"
  shows "m' = m"
proof -
  obtain b where b: "em_backend m = InMemory b" "data_ok m b"
    using model_ok_steps [OF assms(2) model_ok_made [OF assms(1)]] by (rule model_okE)
  show ?thesis using b assms(3) by (cases rule: add_cases) simp_all
qed

theorem failed_add_changes_nothing_witness:
  "\<exists>m'. model_add plain_env (1, [[fzero]]) (2, [[fzero, fzero]]) None (plain_model 1 [[fzero]] 1 [[fzero]] None) =
       Some (Inl (EShape [1, 1] [1, 1]), m') \<and> m' = plain_model 1 [[fzero]] 1 [[fzero]] None"
proof -
  let ?m = "plain_model 1 [[fzero]] 1 [[fzero]] None"
  have made: "made_in_memory plain_env (1, [[fzero]]) (1, [[fzero]]) None plain_options ?m"
    by (rule plain_model_made) simp_all
  have add: "model_add plain_env (1, [[fzero]]) (2, [[fzero, fzero]]) None ?m = Some (Inl (EShape [1, 1] [1, 1]), ?m)"
    by (simp add: model_add_def validate_add_def plain_model_fields)
  from failed_add_changes_nothing [OF made model_steps_refl add] add show ?thesis by blast
qed

text \<open>in-range rows can always be read. In a model in memory that was made without variances or
  with at least one row, every store has a row for each observation, so gathering any indices in
  range succeeds and gives those rows.\<close>

theorem rows_in_range_can_be_read:
  assumes "made_in_memory env x0 y0 yvar0 opts m0" "yvar0 = None \<or> snd x0 \<noteq> []" "model_steps env m0 m"
    "\<forall>i\<in>set is. i < em_num_obs m"
  shows "\<exists>x y yvar. eb_train_rows_at is (em_backend m) = Inr (x, y, yvar) \<and> length (snd x) = length is \<and>
    length (snd y) = length is"
proof -
  have ok: "model_ok m" "model_var_ok m"
    using model_ok_made [OF assms(1)] model_ok_steps [OF assms(3)] model_var_ok_steps [OF assms(3)]
      model_var_ok_made [OF assms(1,2)] by blast+
  then obtain b where b: "em_backend m = InMemory b" "data_ok m b" by (metis model_okE)
  then show ?thesis
    using ok(2) rows_in_range [OF b(2) _ assms(4)] by (simp add: eb_train_rows_at_def model_var_ok_def)
qed

theorem rows_in_range_can_be_read_witness:
  "\<exists>x y yvar. eb_train_rows_at [1, 0] (em_backend (plain_model 1 [[fzero], [fzero]] 1 [[fzero], [fzero]] (Some (1, [[fzero], [fzero]])))) =
       Inr (x, y, yvar) \<and> length (snd x) = 2 \<and> length (snd y) = 2"
proof -
  let ?m = "plain_model 1 [[fzero], [fzero]] 1 [[fzero], [fzero]] (Some (1, [[fzero], [fzero]]))"
  have "made_in_memory plain_env (1, [[fzero], [fzero]]) (1, [[fzero], [fzero]]) (Some (1, [[fzero], [fzero]])) plain_options ?m"
    by (rule plain_model_made) (auto simp: same_dim_def)
  from rows_in_range_can_be_read [OF this _ model_steps_refl, of "[1, 0]"]
  show ?thesis by (simp add: plain_model_fields numeral_2_eq_2)
qed

text \<open>An empty store of variances makes the model panic. A model made with no rows but with a
  store of variances accepts its first rows without variances, and from then on every call that
  adds rows of the right shape panics, because the first row has no variance to look at.\<close>

theorem empty_variances_then_none_panics:
  assumes "made_in_memory env (d, []) (k, []) (Some (k, [])) opts m0" "model_add env x y None m0 = Some (Inr (), m)" "snd x \<noteq> []"
    "fst x' = em_dim m" "fst y' = em_metrics m" "length (snd x') = length (snd y')"
  shows "model_add env x' y' yvar m = Some (Inl EPanic, m)"
proof -
  obtain b where b: "em_backend m0 = InMemory b" "data_ok m0 b" using model_ok_made [OF assms(1)] by (rule model_okE)
  have var: "\<exists>s. im_yvar b = Some s \<and> rs_rows s = []"
    using assms(1)
  proof (cases rule: made_in_memory_cases)
    case (1 wy wv b0 bounds bounded meta)
    have "em_backend m0 = InMemory b0" by (simp add: 1(2) first_model_def Let_def case_prod_beta)
    then have "b0 = b" using b(1) by simp
    moreover have "\<exists>w. wv = Some w \<and> same_dim w (k, [])"
      using maybe_warped_shape(2) [OF 1(4)] 1(6) by (cases wv) simp_all
    moreover have "im_yvar b0 = map_option from_array2 wv" using 1(1) by (rule in_memory_new_yvar)
    ultimately show ?thesis by (auto simp: same_dim_def from_array2_def)
  qed
  show ?thesis
    using b assms(2)
  proof (cases rule: add_cases)
    case (2 wy wv)
    let ?b = "with_rows x wy wv b"
    obtain b' where b': "em_backend m = InMemory b'" "data_of b' = data_of ?b"
      using note_rows_in_memory [of "m0\<lparr>em_backend := InMemory ?b\<rparr>" ?b x wy] 2(2) by fastforce
    have "wv = None" using 2(7) by (cases wv) simp_all
    then have "\<exists>s. im_yvar b' = Some s \<and> rs_rows s = []" using var by (simp add: data_of_simps [OF b'(2)] pushed_yvar_def)
    moreover have "in_memory_len b' > 0" using assms(3) by (simp add: data_of_simps [OF b'(2)] in_memory_len_def)
    ultimately have "yvar_present m = Inl EPanic"
      by (auto simp: yvar_present_def eb_row_yvar_def b'(1) in_memory_row_yvar_def row_vec_def)
    then show ?thesis using assms(4-6) by (simp add: model_add_def validate_add_def)
  qed (use assms(3) in simp)
qed

theorem empty_variances_then_none_panics_witness:
  "\<exists>m. model_add plain_env (1, [[fzero]]) (1, [[fzero]]) None (plain_model 1 [] 1 [] (Some (1, []))) = Some (Inr (), m) \<and>
     model_add plain_env (1, [[fzero]]) (1, [[fzero]]) None m = Some (Inl EPanic, m)"
proof -
  let ?m = "plain_model 1 [] 1 [] (Some (1, []))" and ?b = "plain_backend 1 [] 1 [] (Some (1, []))"
  have made: "made_in_memory plain_env (1, []) (1, []) (Some (1, [])) plain_options ?m"
    by (rule plain_model_made) (simp_all add: same_dim_def)
  have "data_ok ?m ?b" using model_ok_made [OF made] by (simp add: model_ok_def plain_model_fields)
  moreover have "validate_add (1, [[fzero]]) (1, [[fzero]]) None ?m = Inr ()"
    by (simp add: validate_add_def plain_model_fields yvar_present_def eb_row_yvar_def in_memory_row_yvar_def
        plain_backend_def in_memory_len_def)
  ultimately have add: "model_add plain_env (1, [[fzero]]) (1, [[fzero]]) None ?m =
      Some (Inr (), note_rows (1, [[fzero]]) (1, [[fzero]]) (?m\<lparr>em_backend := InMemory (with_rows (1, [[fzero]]) (1, [[fzero]]) None ?b)\<rparr>))"
    by (simp add: model_add_in_memory [OF plain_model_fields(1)] stored_rows_def plain_model_fields)
  let ?m1 = "?m\<lparr>em_backend := InMemory (with_rows (1, [[fzero]]) (1, [[fzero]]) None ?b)\<rparr>"
  have dims: "em_dim (note_rows (1, [[fzero]]) (1, [[fzero]]) ?m1) = 1" "em_metrics (note_rows (1, [[fzero]]) (1, [[fzero]]) ?m1) = 1"
    using note_rows_fields(2,3) [of ?m1 "with_rows (1, [[fzero]]) (1, [[fzero]]) None ?b"] by (simp_all add: plain_model_fields)
  have "model_add plain_env (1, [[fzero]]) (1, [[fzero]]) None (note_rows (1, [[fzero]]) (1, [[fzero]]) ?m1) =
      Some (Inl EPanic, note_rows (1, [[fzero]]) (1, [[fzero]]) ?m1)"
    by (rule empty_variances_then_none_panics [OF made add]) (simp_all only: dims fst_conv snd_conv list.size list.simps, simp_all)
  with add show ?thesis by blast
qed

end
