(* ===== verification/BoundsLaws.thy ===== *)
theory BoundsLaws
  imports EnnModelLaws
begin

text \<open>
  Bounds of the outputs in the metadata of a work directory (\<open>rust/crates/ennx/src/y_bounds.rs\<close>,
  \<open>model.rs\<close>): what is written is read back, and what dropping a model on disk does to it.
\<close>

section \<open>Reading back\<close>

text \<open>The text of a finite bound: one token that is not \<open>null\<close> and parses to the number.\<close>

definition plain_token :: "string \<Rightarrow> bool" where
  "plain_token s \<longleftrightarrow> s \<noteq> [] \<and> list_all (\<lambda>c. c \<noteq> CHR ''['' \<and> c \<noteq> CHR '']'' \<and> c \<noteq> CHR '','' \<and> \<not> is_space c) s"

definition reads_back :: "bounds_env \<Rightarrow> f64 \<Rightarrow> bool" where
  "reads_back env v \<longleftrightarrow> plain_token (show_f64 env v) \<and> show_f64 env v \<noteq> ''null'' \<and> parse_f64 env (show_f64 env v) = Some v"

definition readable_bounds :: "bounds_env \<Rightarrow> ematrix \<Rightarrow> bool" where
  "readable_bounds env bounds \<longleftrightarrow>
     list_all (\<lambda>r. length r = 2 \<and> list_all (\<lambda>v. is_finite v \<longrightarrow> reads_back env v) r) (snd bounds)"

lemma plain_null: "plain_token ''null''"
  by (simp add: plain_token_def is_space_def)

lemma plain_bound_text: "(is_finite v \<Longrightarrow> reads_back env v) \<Longrightarrow> plain_token (bound_text env v)"
  by (auto simp: bound_text_def reads_back_def plain_null)

lemma array_tokens_plain:
  "list_all (\<lambda>c. c \<noteq> CHR ''['' \<and> c \<noteq> CHR '']'' \<and> c \<noteq> CHR '','' \<and> \<not> is_space c) s \<Longrightarrow>
    array_tokens d t ts (s @ cs) = array_tokens d (t @ s) ts cs"
  by (induction s arbitrary: t) auto

lemma after_array_plain:
  "list_all (\<lambda>c. c \<noteq> CHR ''['' \<and> c \<noteq> CHR '']'' \<and> c \<noteq> CHR '','' \<and> \<not> is_space c) s \<Longrightarrow> after_array d (s @ cs) = after_array d cs"
  by (induction s) auto

definition row_text :: "bounds_env \<Rightarrow> f64 list \<Rightarrow> string" where
  "row_text env r = ''['' @ bound_text env (r ! 0) @ '','' @ bound_text env (r ! 1) @ '']''"

definition readable_row :: "bounds_env \<Rightarrow> f64 list \<Rightarrow> bool" where
  "readable_row env r \<longleftrightarrow> plain_token (bound_text env (r ! 0)) \<and> plain_token (bound_text env (r ! 1))"

lemma row_tokens:
  assumes "readable_row env r"
  shows "array_tokens (Suc 0) [] ts (row_text env r @ cs) =
      array_tokens (Suc 0) [] (ts @ [bound_text env (r ! 0), bound_text env (r ! 1)]) cs"
    "after_array (Suc 0) (row_text env r @ cs) = after_array (Suc 0) cs"
  using assms by (simp_all add: row_text_def readable_row_def plain_token_def array_tokens_plain after_array_plain end_token_def)

lemma join_rows:
  "join_with '','' (a # map f rows) = (if rows = [] then a else a @ CHR '','' # join_with '','' (map f rows))"
  by (cases rows) simp_all

lemma rows_tokens:
  assumes "list_all (readable_row env) rows"
  shows "array_tokens (Suc 0) [] ts (join_with '','' (map (row_text env) rows) @ CHR '']'' # cs) =
    ts @ concat (map (\<lambda>r. [bound_text env (r ! 0), bound_text env (r ! 1)]) rows)"
  using assms
proof (induction rows arbitrary: ts)
  case (Cons r rows)
  then have r: "readable_row env r" and rows: "list_all (readable_row env) rows" by simp_all
  show ?case using Cons.IH [OF rows] by (simp add: join_rows row_tokens [OF r] end_token_def)
qed (simp add: end_token_def)

lemma rows_after:
  assumes "list_all (readable_row env) rows"
  shows "after_array (Suc 0) (join_with '','' (map (row_text env) rows) @ CHR '']'' # cs) = Some cs"
  using assms
proof (induction rows)
  case (Cons r rows)
  then have r: "readable_row env r" and rows: "list_all (readable_row env) rows" by simp_all
  show ?case using Cons.IH [OF rows] by (simp add: join_rows row_tokens [OF r])
qed simp

lemma bounds_json_rows: "bounds_json env bounds = CHR ''['' # join_with '','' (map (row_text env) (snd bounds)) @ '']''"
  by (simp add: bounds_json_def row_text_def [abs_def])

lemma readable_rows:
  assumes "readable_bounds env bounds"
  shows "list_all (readable_row env) (snd bounds)"
  using assms unfolding readable_bounds_def readable_row_def list_all_iff
  by (auto intro!: plain_bound_text)

lemma json_tokens:
  assumes "readable_bounds env bounds"
  shows "array_tokens 0 [] [] (bounds_json env bounds @ cs) =
      concat (map (\<lambda>r. [bound_text env (r ! 0), bound_text env (r ! 1)]) (snd bounds))"
    "after_array 0 (bounds_json env bounds @ cs) = Some cs"
  using rows_tokens [OF readable_rows [OF assms], of "[]" cs] rows_after [OF readable_rows [OF assms], of cs]
  by (simp_all add: bounds_json_rows)

lemma paired_nth:
  "i < length rows \<Longrightarrow> concat (map (\<lambda>r. [f r, g r]) rows) ! (2 * i) = f (rows ! i) \<and>
    concat (map (\<lambda>r. [f r, g r]) rows) ! Suc (2 * i) = g (rows ! i)"
proof (induction rows arbitrary: i)
  case (Cons r rows)
  then show ?case by (cases i) simp_all
qed simp

lemma paired_length: "length (concat (map (\<lambda>r. [f r, g r]) rows)) = length rows * 2"
  by (induction rows) simp_all

lemma infinite_keys: "fkey (neg_infinity :: f64) = - int (inf_mag 64)" "fkey (infinity :: f64) = int (inf_mag 64)"
    "mag (neg_infinity :: f64) = inf_mag 64" "mag (infinity :: f64) = inf_mag 64" "0 < inf_mag 64"
    "sign_neg (neg_infinity :: f64)" "\<not> sign_neg (infinity :: f64)"
  by (simp_all add: fkey_def float_eval inf_mag_def frac_bits_def)

lemma infinite_float:
  fixes v :: f64
  shows "fkey v = fkey (neg_infinity :: f64) \<Longrightarrow> v = neg_infinity" "fkey v = fkey (infinity :: f64) \<Longrightarrow> v = infinity"
  using infinite_keys by (auto intro!: float_eqI simp: fkey_def split: if_splits)

lemma open_ends:
  assumes "valid_pair a b"
  shows "is_finite a \<or> a = neg_infinity" "is_finite b \<or> b = infinity"
  using assms infinite_float(1) [of a] infinite_float(2) [of b] by (auto simp: valid_pair_def feq_def)

lemma bounds_of_tokens:
  assumes "readable_bounds env bounds" "validate_bounds bounds k = Inr ()"
  shows "bounds_from_tokens env k (concat (map (\<lambda>r. [bound_text env (r ! 0), bound_text env (r ! 1)]) (snd bounds))) = Inr bounds"
proof -
  let ?tokens = "concat (map (\<lambda>r. [bound_text env (r ! 0), bound_text env (r ! 1)]) (snd bounds))"
  have shape: "length (snd bounds) = k" "fst bounds = 2" "\<forall>r\<in>set (snd bounds). valid_pair (r ! 0) (r ! 1)"
    using assms(2) by (auto simp: validate_bounds_def list_all_iff split: if_splits)
  have parsed: "rbind (parse_bound env neg_infinity (?tokens ! (2 * i))) (\<lambda>a.
      rbind (parse_bound env infinity (?tokens ! (2 * i + 1))) (\<lambda>b. Inr [a, b])) = Inr (snd bounds ! i)" if "i \<in> set [0..<k]" for i
  proof -
    have i: "i < length (snd bounds)" using that shape(1) by simp
    then have member: "snd bounds ! i \<in> set (snd bounds)" by simp
    then obtain a b where r: "snd bounds ! i = [a, b]"
      using assms(1) by (auto simp: readable_bounds_def list_all_iff numeral_2_eq_2 length_Suc_conv)
    have reading: "is_finite a \<Longrightarrow> reads_back env a" "is_finite b \<Longrightarrow> reads_back env b"
      using assms(1) member r by (auto simp: readable_bounds_def list_all_iff)
    have pair: "valid_pair a b" using shape(3) member r by fastforce
    have "\<not> is_finite (neg_infinity :: f64)" "\<not> is_finite (infinity :: f64)" by (simp_all add: is_finite_def infinite_keys)
    then have "parse_bound env neg_infinity (bound_text env a) = Inr a" "parse_bound env infinity (bound_text env b) = Inr b"
      using open_ends [OF pair] reading by (auto simp: parse_bound_def bound_text_def reads_back_def)
    then show ?thesis
      using paired_nth [OF i, of "\<lambda>r. bound_text env (r ! 0)" "\<lambda>r. bound_text env (r ! 1)"] by (simp add: r)
  qed
  have "map_res (\<lambda>i. rbind (parse_bound env neg_infinity (?tokens ! (2 * i))) (\<lambda>a.
      rbind (parse_bound env infinity (?tokens ! (2 * i + 1))) (\<lambda>b. Inr [a, b]))) [0..<k] = Inr (snd bounds)"
    using map_res_Inr_iff [of "[0..<k]" _ "(!) (snd bounds)", OF parsed] shape(1) map_nth [of "snd bounds"] by simp
  then show ?thesis
    using assms(2) shape(1,2)
    by (cases bounds) (simp add: bounds_from_tokens_def paired_length)
qed

lemma load_written:
  assumes "split_once bounds_key txt = Some (before, bounds_json env bounds @ rest)" "readable_bounds env bounds"
    "validate_bounds bounds k = Inr ()"
  shows "load_bounds_metadata env k (Some txt) = Inr (Some bounds)"
proof -
  have "dropWhile (\<lambda>c. c \<noteq> CHR ''['') (bounds_json env bounds @ rest) = bounds_json env bounds @ rest"
    by (simp add: bounds_json_def)
  then show ?thesis
    using assms(1) bounds_of_tokens [OF assms(2,3)] json_tokens(1) [OF assms(2)]
    by (simp add: load_bounds_metadata_def Let_def bounds_json_def)
qed

section \<open>Writing\<close>

definition metadata_body :: "nat \<Rightarrow> nat \<Rightarrow> nat \<Rightarrow> bool \<Rightarrow> nat \<Rightarrow> string" where
  "metadata_body n d k sc r =
     ''{'' @ json_field ''format_version'' (decimal FORMAT_VERSION) @ '','' @
     json_field ''num_obs'' (decimal n) @ '','' @ json_field ''num_dim'' (decimal d) @ '','' @
     json_field ''num_metrics'' (decimal k) @ '','' @ json_field ''scale_x'' (bool_str sc) @ '','' @
     json_field ''index_backend'' (quoted INDEX_BACKEND) @ '','' @ json_field ''indexed_rows'' (decimal r)"

lemma metadata_text_body: "metadata_text n d k sc r = metadata_body n d k sc r @ ''}''"
  by (simp add: metadata_text_def metadata_body_def)

lemma metadata_without_bounds: "split_once bounds_key (metadata_text n d k sc r) = None"
  by (cases sc) (simp_all add: bounds_key_def metadata_simps)

lemma key_after_metadata:
  "split_once bounds_key (metadata_body n d k sc r @ CHR '','' # bounds_key @ xs) = Some (metadata_body n d k sc r @ '','', xs)"
  by (cases sc) (simp_all add: bounds_key_def metadata_simps metadata_body_def)

lemma metadata_body_ends: "metadata_body n d k sc r \<noteq> []" "is_digit (List.last (metadata_body n d k sc r))"
proof -
  have "decimal r \<noteq> []" "list_all is_digit (decimal r)" using decimal_digits [of r] decimal_not_Nil [of r] by simp_all
  then show "is_digit (List.last (metadata_body n d k sc r))"
    by (simp add: metadata_body_def json_field_def list_all_iff)
qed (simp add: metadata_body_def)

lemma written_after_metadata:
  assumes "readable_bounds env b" "validate_bounds b k' = Inr ()"
  shows "load_bounds_metadata env k' (Some (metadata_body n d k sc r @ CHR '','' # bounds_key @ bounds_json env b @ rest)) = Inr (Some b)"
  by (rule load_written [OF key_after_metadata assms])

lemma first_field:
  "with_bounds_field env b (metadata_text n d k sc r) =
    Inr (metadata_body n d k sc r @ CHR '','' # bounds_key @ bounds_json env b @ ''}'')"
proof -
  let ?body = "metadata_body n d k sc r"
  have "split_last (CHR ''}'') (?body @ ''}'') = Some (?body, ''}'')"
    by (simp add: split_last_def)
  moreover have "trim_end ?body = ?body"
    using metadata_body_ends [of n d k sc r]
    by (cases ?body rule: rev_cases) (auto simp: trim_end_def is_digit_def is_space_def)
  moreover have "List.last ?body \<noteq> CHR 0x7B" using metadata_body_ends(2) [of n d k sc r] by (auto simp: is_digit_def)
  ultimately show ?thesis
    using metadata_body_ends(1) [of n d k sc r]
    by (simp add: with_bounds_field_def metadata_without_bounds metadata_text_body Let_def metadata_without_bounds [unfolded metadata_text_body])
qed

lemma next_field:
  assumes "readable_bounds env old"
  shows "with_bounds_field env b (metadata_body n d k sc r @ CHR '','' # bounds_key @ bounds_json env old @ rest) =
    Inr (metadata_body n d k sc r @ CHR '','' # bounds_key @ bounds_json env b @ rest)"
proof -
  have "dropWhile (\<lambda>c. c \<noteq> CHR ''['') (bounds_json env old @ rest) = bounds_json env old @ rest"
    by (simp add: bounds_json_def)
  then show ?thesis
    using json_tokens(2) [OF assms, of rest] by (simp add: with_bounds_field_def Let_def key_after_metadata)
qed

text \<open>C13: bounds that are persisted are loaded. When the decimal text of each finite bound parses
  back, bounds written into the metadata of a disk index are read back exactly, infinite ends as
  infinities, and bounds written over other bounds replace them.\<close>

theorem persisted_bounds_are_loaded:
  assumes "readable_bounds env b1" "validate_bounds b1 k1 = Inr ()" "readable_bounds env b2" "validate_bounds b2 k2 = Inr ()"
  shows "\<exists>t1 t2. persist_bounds_metadata env True b1 (Some (metadata_text n d k sc r)) = Inr (Some t1) \<and>
    load_bounds_metadata env k1 (Some t1) = Inr (Some b1) \<and>
    persist_bounds_metadata env True b2 (Some t1) = Inr (Some t2) \<and> load_bounds_metadata env k2 (Some t2) = Inr (Some b2)"
  using written_after_metadata [OF assms(1,2)] written_after_metadata [OF assms(3,4)]
  by (simp add: persist_bounds_metadata_def first_field next_field [OF assms(1)])

theorem persisted_bounds_are_loaded_witness:
  "\<exists>env t1 t2. show_f64 env fzero = ''0'' \<and>
    persist_bounds_metadata env True (2, [[fzero, infinity]]) (Some (metadata_text 3 2 1 False 3)) = Inr (Some t1) \<and>
    load_bounds_metadata env 1 (Some t1) = Inr (Some (2, [[fzero, infinity]])) \<and>
    persist_bounds_metadata env True (2, [[neg_infinity, infinity]]) (Some t1) = Inr (Some t2) \<and>
    load_bounds_metadata env 1 (Some t2) = Inr (Some (2, [[neg_infinity, infinity]]))"
proof -
  define env where "env = \<lparr>ln_of = id, exp_of = id, show_f64 = (\<lambda>_. ''0''), parse_f64 = (\<lambda>_. Some fzero)\<rparr>"
  have finite: "\<not> is_finite (infinity :: f64)" "\<not> is_finite (neg_infinity :: f64)" "is_finite (fzero :: f64)"
    by (simp_all add: is_finite_def infinite_keys) (simp_all add: float_eval inf_mag_def frac_bits_def)
  have "readable_bounds env (2, [[fzero, infinity]])" "readable_bounds env (2, [[neg_infinity, infinity]])"
    by (simp_all add: readable_bounds_def finite reads_back_def plain_token_def env_def is_space_def)
  moreover have "validate_bounds (2, [[fzero, infinity]]) 1 = Inr ()" "validate_bounds (2, [[neg_infinity, infinity]]) 1 = Inr ()"
    by (simp_all add: validate_bounds_def valid_pair_def fcmp_defs float_eval)
  ultimately show ?thesis
    using persisted_bounds_are_loaded [of env "(2, [[fzero, infinity]])" 1 "(2, [[neg_infinity, infinity]])" 1 3 2 1 False 3]
    by (intro exI [of _ env]) (simp add: env_def)
qed

section \<open>Dropping a model on disk\<close>

lemma persist_metadata:
  assumes "persist_index_to_disk env to_json from_json plan b = Some (r, b')" "index_dirty b" "\<not> index_dirty b'"
    "0 < store_rows (train_x b)"
  shows "\<exists>n d k sc rr. metadata_json (work_files b') = Some (metadata_text n d k sc rr)"
proof -
  have "needs_disk_rewrite from_json (index_files b) (inc_index b) (index_dirty b) (store_rows (train_x b))"
    using assms(2) by (simp add: needs_disk_rewrite_def)
  then obtain r0 s wd dir where run0: "persist_to_disk env to_json plan (backend_ctx b) (inc_index b, work_files b, index_files b) =
      Some (r0, s, wd, dir)"
    and b': "(case r0 of Inl e \<Rightarrow> (Inl e, b\<lparr>inc_index := s, work_files := wd, index_files := dir\<rparr>)
      | Inr _ \<Rightarrow> (Inr (), b\<lparr>inc_index := s, work_files := wd, index_files := dir, pending_unindexed := 0, index_dirty := False\<rparr>)) = (r, b')"
    using assms(1) by (auto simp: persist_index_to_disk_def Let_def)
  have r0: "r0 = Inr ()"
  proof (cases r0)
    case (Inl e)
    then show ?thesis using b' assms(2,3) by auto
  qed simp
  note run = run0 [unfolded r0]
  have wd: "work_files b' = wd" using b' r0 by auto
  have ctx: "store_rows (ctx_store (backend_ctx b)) = store_rows (train_x b)" by (simp add: backend_ctx_def)
  obtain r1 s1 wd1 where sync0: "ensure_sync env (backend_ctx b) (store_rows (train_x b)) (inc_index b, work_files b) = Some (r1, s1, wd1)"
    using run by (auto simp: persist_to_disk_def ctx)
  have "r1 = Inr ()" using run sync0 by (cases r1) (auto simp: persist_to_disk_def ctx)
  note sync = sync0 [unfolded this]
  have "0 < inc_rows s1" using ensure_sync_rows(2) [OF sync] assms(4) by simp
  then have "metadata_json wd = Some (metadata_text (store_rows (train_x b)) (ctx_dim (backend_ctx b))
      (ctx_metrics (backend_ctx b)) (ctx_scale (backend_ctx b)) (inc_rows s1))"
    using run sync
    by (auto simp: persist_to_disk_def ctx bpann_write_metadata_def write_indexed_rows_def rbind_Inr_conv
        split: sum.splits prod.splits)
  then show ?thesis unfolding wd by blast
qed

text \<open>Dropping a bounded model on disk loses its bounds. A model on disk whose index is dirty,
  as it is after rows have been added, writes its index when it is dropped, and that rewrites the
  metadata without the bounds: a model opened there without bounds of its own then takes the warped
  values it finds as unbounded ones.\<close>

theorem dropping_loses_the_bounds:
  assumes "em_backend m = Disk h" "hd_job h = NoJob" "hd_last_error h = None" "index_dirty (inner h)"
    "0 < store_rows (train_x (inner h))" "drop_model env m = Some m'" "em_backend m' = Disk h'" "\<not> index_dirty (inner h')"
  shows "load_bounds_metadata (me_bounds env) k (metadata_json (work_files (inner h'))) = Inr None \<and>
    choose_bounds env (Some ((work_files (inner h'), dir), stores)) k None = Inr (unbounded_bounds k)"
proof -
  have wait: "wait_for_flush h = Some (Inr (), h\<lparr>hd_job := NoJob\<rparr>)"
    using assms(2,3) by (simp add: wait_for_flush_def Let_def)
  have inner: "inner (h\<lparr>hd_job := NoJob\<rparr>) = inner h" by (simp add: inner_def)
  obtain r b' where persist: "persist_index_to_disk (be_build env) (be_to_json env) (be_from_json env) (be_plan env) (inner h) = Some (r, b')"
    "inner h' = b'"
    using assms(1,6,7)
    by (auto simp: drop_model_def with_backend_def persist_enn_backend_index_def on_disk_def handle_persist_def wait inner
        backend_env.defs)
  have "\<exists>n d k sc rr. metadata_json (work_files (inner h')) = Some (metadata_text n d k sc rr)"
    using persist_metadata [OF persist(1) assms(4)] assms(5,8) persist(2) by simp
  then show ?thesis by (auto simp: load_bounds_metadata_def metadata_without_bounds choose_bounds_def)
qed

text \<open>A backend of one row whose index is dirty, and its persisting.\<close>

lemma one_sync:
  "\<exists>ix wd. ensure_sync test_env (backend_ctx (one_backend None)) 1 (inc_index (one_backend None), work_files (one_backend None)) =
    Some (Inr (), \<lparr>inc_indices = [ix], inc_rows = 1, pending_centroid_sum = [], pending_row_count = 0\<rparr>, wd)"
proof -
  have fields: "inc_index (one_backend None) = incremental_new" "train_x (one_backend None) = one_row one64"
    by (simp_all add: one_backend_def)
  obtain c where "centroid_from_mmap_rows (backend_ctx (one_backend None)) 0 1 = Inr c"
    by (auto simp: centroid_from_mmap_rows_def backend_ctx_def fields one_row_slice add_row_f64_def)
  then have "\<exists>ix. sync_span test_env (backend_ctx (one_backend None)) 1 (inc_index (one_backend None)) =
      (Inr (), \<lparr>inc_indices = [ix], inc_rows = 1, pending_centroid_sum = [], pending_row_count = 0\<rparr>)"
    by (simp add: fields sync_span_def Let_def test_env_def default_limits saturating_mul_def usize_bound_def
        MID_BAND_SHALLOW_MAX_def build_batch_def take_pending_centroid_def incremental_new_def batch_index_def BpannSync.pushed_def
        push_fragment_def)
  then show ?thesis
    by (auto simp: ensure_sync_def fields maybe_compact_def Let_def index_compact_threshold_def saturating_mul_def
        usize_bound_def write_indexed_rows_def test_env_def incremental_new_def)
qed

lemma one_persist:
  "\<exists>b'. persist_index_to_disk test_env sample_to_json sample_from_json (\<lambda>_. Works) (one_backend None) = Some (Inr (), b') \<and>
    \<not> index_dirty b'"
proof -
  obtain ix wd where sync: "ensure_sync test_env (backend_ctx (one_backend None)) 1 (inc_index (one_backend None), work_files (one_backend None)) =
    Some (Inr (), \<lparr>inc_indices = [ix], inc_rows = 1, pending_centroid_sum = [], pending_row_count = 0\<rparr>, wd)"
    using one_sync by blast
  obtain dir where "persist_index sample_to_json (\<lambda>_. Works) ix (\<lambda>_. None) = (Inr (), dir)"
    by (simp add: persist_index_def persist_index_files_def persist_body_def read_backup_def and_then_def
        write_file_def rename_file_def)
  then have "\<exists>s wd dir. persist_to_disk test_env sample_to_json (\<lambda>_. Works) (backend_ctx (one_backend None))
      (inc_index (one_backend None), work_files (one_backend None), index_files (one_backend None)) = Some (Inr (), s, wd, dir)"
    using sync
    by (simp add: persist_to_disk_def persist_fragments_def bpann_write_metadata_def write_indexed_rows_def test_env_def
        backend_ctx_def one_backend_def one_row_def)
  moreover have "index_dirty (one_backend None)" by (simp add: one_backend_def)
  ultimately show ?thesis by (auto simp: persist_index_to_disk_def needs_disk_rewrite_def Let_def)
qed

definition disk_env :: "(unit, unit) model_env" where
  "disk_env = \<lparr>be_faiss = \<lparr>faiss_new = (\<lambda>_. None), faiss_reset = Pair False, faiss_add = (\<lambda>_ _. Pair False), faiss_len = (\<lambda>_. 0),
     faiss_search = (\<lambda>_ _ _. Pair None)\<rparr>, be_os = (\<lambda>_. True), be_build = test_env, be_to_json = sample_to_json,
     be_from_json = sample_from_json, be_plan = (\<lambda>_. Works),
     me_bounds = \<lparr>ln_of = id, exp_of = id, show_f64 = (\<lambda>_. ''0''), parse_f64 = (\<lambda>_. Some fzero)\<rparr>, me_env_dir = None, me_meta_ok = True\<rparr>"

definition one_handle :: DiskBackendHandle where
  "one_handle = handle_new \<lparr>enn_inner = one_backend None, enn_driver = BpAnnDisk, enn_metrics = 1\<rparr>"

definition bounded_disk_model :: "unit EpistemicNearestNeighbors" where
  "bounded_disk_model = \<lparr>em_backend = Disk one_handle, em_num_obs = 1, em_dim = 1, em_metrics = 1, em_scale_x = True,
     em_x_scale = [one64], em_y_scale = [flit 1 1], em_y_bounds = (2, [[fzero, infinity]]), em_bounded = True,
     em_y_sum = [fzero], em_y_sumsq = [fzero], em_x_sum = [fzero], em_x_sumsq = [fzero], em_meta = None\<rparr>"

theorem dropping_loses_the_bounds_witness:
  "\<exists>m' h'. drop_model disk_env bounded_disk_model = Some m' \<and> em_y_bounds m' = (2, [[fzero, infinity]]) \<and> em_backend m' = Disk h' \<and>
     load_bounds_metadata (me_bounds disk_env) 1 (metadata_json (work_files (inner h'))) = Inr None \<and>
     choose_bounds disk_env (Some ((work_files (inner h'), (\<lambda>_. None)), (None, None))) 1 None = Inr (unbounded_bounds 1)"
proof -
  obtain b' where b': "persist_index_to_disk test_env sample_to_json sample_from_json (\<lambda>_. Works) (one_backend None) = Some (Inr (), b')"
    "\<not> index_dirty b'"
    using one_persist by blast
  let ?h = "on_inner (\<lambda>_. b') (one_handle\<lparr>hd_job := NoJob\<rparr>)"
  have h: "hd_job one_handle = NoJob" "hd_last_error one_handle = None" "inner one_handle = one_backend None"
    by (simp_all add: one_handle_def handle_new_def inner_def)
  have drop: "drop_model disk_env bounded_disk_model = Some (bounded_disk_model\<lparr>em_backend := Disk ?h\<rparr>)"
    using b'(1) by (simp add: drop_model_def with_backend_def bounded_disk_model_def persist_enn_backend_index_def on_disk_def
        handle_persist_def wait_for_flush_def h Let_def disk_env_def backend_env.defs)
  have "load_bounds_metadata (me_bounds disk_env) 1 (metadata_json (work_files (inner ?h))) = Inr None \<and>
     choose_bounds disk_env (Some ((work_files (inner ?h), (\<lambda>_. None)), (None, None))) 1 None = Inr (unbounded_bounds 1)"
    by (rule dropping_loses_the_bounds [OF _ h(1,2) _ _ drop])
      (simp_all add: bounded_disk_model_def h(3) one_backend_def one_row_def b'(2))
  then show ?thesis using drop by (auto simp: bounded_disk_model_def)
qed

end
