(* ===== verification/BpannHistory.thy ===== *)
theory BpannHistory
  imports BpannBackendLaws
begin

text \<open>
  The observation history over the BPANN backend (\<open>rust/crates/ennx/src/trials/bpann_history.rs\<close>):
  compact descriptors appended with their value, searched for the neighbours of candidates, and
  a deduplicated shortlist that carries each row's value.
\<close>

datatype history_error =
    InvalidDescriptor nat nat
  | HistoryValueNotFinite
  | HistoryCapacityZero
  | HistoryNoNeighbors
  | HistoryBuildError build_error
  | HistorySearchError search_error
  | HistoryRowsError bpann_error

record IndexedObservation =
  obs_id :: u64
  obs_value :: f32

record BpannHistory =
  hist_backend :: BpannBackend
  descriptor_dim :: nat

definition map_err :: "('e \<Rightarrow> 'f) \<Rightarrow> 'e + 'a \<Rightarrow> 'f + 'a" where
  "map_err f m = (case m of Inl e \<Rightarrow> Inl (f e) | Inr x \<Rightarrow> Inr x)"

definition history_new ::
    "(os_call \<Rightarrow> bool) \<Rightarrow> 'r build_env \<Rightarrow> (u8 list \<Rightarrow> IndexHeader option) \<Rightarrow> work_dir \<times> index_dir
      \<Rightarrow> u8 list option \<times> u8 list option \<Rightarrow> nat \<Rightarrow> (history_error + BpannHistory) option" where
  "history_new os env from_json dirs store_files dim =
     (if dim = 0 then Some (Inl (InvalidDescriptor 0 0))
      else map_option (\<lambda>r. map_err HistoryBuildError (rbind r (\<lambda>b. Inr \<lparr>hist_backend = b, descriptor_dim = dim\<rparr>)))
        (backend_new os env from_json dirs store_files (dim, []) (1, []) None False (replicate dim (flit 1 1))))"

definition history_len :: "BpannHistory \<Rightarrow> nat" where
  "history_len h = backend_len (hist_backend h)"

definition history_append ::
    "(os_call \<Rightarrow> bool) \<Rightarrow> 'r build_env \<Rightarrow> f64 list \<Rightarrow> f32 \<Rightarrow> BpannHistory
      \<Rightarrow> ((history_error + u64) \<times> BpannHistory) option" where
  "history_append os env descriptor v h =
     (if length descriptor \<noteq> descriptor_dim h then Some (Inl (InvalidDescriptor (length descriptor) (descriptor_dim h)), h)
      else if \<not> is_finite v then Some (Inl HistoryValueNotFinite, h)
      else map_option (\<lambda>(r, b). (map_err HistoryBuildError (rbind r (\<lambda>_. Inr (of_nat (history_len h)))), h\<lparr>hist_backend := b\<rparr>))
        (append_row os env descriptor [f64_of_f32 v] None (hist_backend h)))"

definition history_sync ::
    "(os_call \<Rightarrow> bool) \<Rightarrow> 'r build_env \<Rightarrow> BpannHistory \<Rightarrow> ((history_error + unit) \<times> BpannHistory) option" where
  "history_sync os env h =
     map_option (\<lambda>(r, b). (map_err HistoryBuildError r, h\<lparr>hist_backend := b\<rparr>)) (ensure_index_sync os env (hist_backend h))"

definition history_persist ::
    "'r build_env \<Rightarrow> (IndexHeader \<Rightarrow> u8 list) \<Rightarrow> (u8 list \<Rightarrow> IndexHeader option) \<Rightarrow> fault_plan \<Rightarrow> BpannHistory
      \<Rightarrow> ((history_error + unit) \<times> BpannHistory) option" where
  "history_persist env to_json from_json plan h =
     map_option (\<lambda>(r, b). (map_err HistoryBuildError r, h\<lparr>hist_backend := b\<rparr>))
       (persist_index_to_disk env to_json from_json plan (hist_backend h))"

text \<open>The column count of an array of queries is an argument, since it may have no rows.\<close>

definition history_search ::
    "'r build_env \<Rightarrow> nat \<times> f64 list list \<Rightarrow> nat \<Rightarrow> BpannHistory \<Rightarrow> (history_error + u64 list list) \<times> BpannHistory" where
  "history_search env = (\<lambda>(cols, queries) neighbors h.
     if cols \<noteq> descriptor_dim h then (Inl (InvalidDescriptor cols (descriptor_dim h)), h)
     else if neighbors = 0 then (Inl HistoryNoNeighbors, h)
     else if history_len h = 0 then (Inr (map (\<lambda>_. []) queries), h)
     else case backend_search env queries neighbors False (hist_backend h) of (r, b) \<Rightarrow>
       (map_err HistorySearchError (rbind r (\<lambda>found. Inr (map (\<lambda>(_, ids). map of_nat ids) found))), h\<lparr>hist_backend := b\<rparr>))"

text \<open>The ids in the order of their rank, every query's first neighbours before any second.\<close>

definition rank_order :: "'a list list \<Rightarrow> 'a list" where
  "rank_order per_query =
     concat (map (\<lambda>rank. List.map_filter (\<lambda>ids. if rank < length ids then Some (ids ! rank) else None) per_query)
       [0..<Max (insert 0 (set (map length per_query)))])"

fun collect_new :: "nat \<Rightarrow> 'a list \<Rightarrow> 'a list \<Rightarrow> 'a list" where
  "collect_new limit [] ids = ids"
| "collect_new limit (i # rest) ids =
     (if i \<in> set ids then collect_new limit rest ids
      else let ids = ids @ [i] in if length ids = limit then ids else collect_new limit rest ids)"

definition observation_of :: "u64 \<Rightarrow> f64 list \<Rightarrow> IndexedObservation" where
  "observation_of i y = \<lparr>obs_id = i, obs_value = f32_of_f64 (hd y)\<rparr>"

definition shortlist ::
    "'r build_env \<Rightarrow> nat \<times> f64 list list \<Rightarrow> nat \<Rightarrow> nat \<Rightarrow> BpannHistory
      \<Rightarrow> (history_error + IndexedObservation list) \<times> BpannHistory" where
  "shortlist env queries neighbors_per_query max_observations h =
     (if max_observations = 0 then (Inl HistoryCapacityZero, h)
      else case history_search env queries neighbors_per_query h of
        (Inl e, h1) \<Rightarrow> (Inl e, h1)
      | (Inr per_query, h1) \<Rightarrow>
          (let ids = collect_new max_observations (rank_order per_query) [] in
           if ids = [] then (Inr [], h1)
           else (map_err HistoryRowsError (rbind (train_rows_at (map unat ids) (hist_backend h1)) (\<lambda>(_, ys, _).
                  Inr (map2 observation_of ids ys))), h1)))"

section \<open>The shortlist\<close>

lemma collect_new_distinct: "distinct ids \<Longrightarrow> distinct (collect_new limit xs ids)"
  by (induction limit xs ids rule: collect_new.induct) (auto simp: Let_def)

lemma collect_new_set: "set (collect_new limit xs ids) \<subseteq> set xs \<union> set ids"
  by (induction limit xs ids rule: collect_new.induct) (auto simp: Let_def)

lemma collect_new_length: "length ids < limit \<Longrightarrow> length (collect_new limit xs ids) \<le> limit"
  by (induction limit xs ids rule: collect_new.induct) (auto simp: Let_def)

text \<open>Below the limit nothing is left out.\<close>

lemma collect_new_all: "length ids < limit \<Longrightarrow> length (collect_new limit xs ids) < limit \<Longrightarrow>
    set (collect_new limit xs ids) = set xs \<union> set ids"
  by (induction limit xs ids rule: collect_new.induct) (auto simp: Let_def split: if_splits)

lemma set_map_filter: "set (List.map_filter f xs) = {y. \<exists>x\<in>set xs. f x = Some y}"
  by (induction xs) (auto simp: List.map_filter_simps split: option.splits)

lemma set_rank_order: "set (rank_order per_query) = (\<Union>ids\<in>set per_query. set ids)"
proof -
  have "\<exists>rank<Max (insert 0 (set (map length per_query))). rank < length ids \<and> ids ! rank = x"
    if ids: "ids \<in> set per_query" and x: "x \<in> set ids" for ids x
  proof -
    obtain r where r: "r < length ids" "ids ! r = x" using x by (auto simp: in_set_conv_nth)
    have "length ids \<le> Max (insert 0 (set (map length per_query)))" using ids by (intro Max_ge) simp_all
    then show ?thesis using r order_less_le_trans by blast
  qed
  then show ?thesis
    by (fastforce simp: rank_order_def set_map_filter split: if_splits intro: nth_mem)
qed

lemma gathered_values:
  assumes "mmap_gather st ids = Inr ys" "\<forall>i\<in>set ids. mmap_row_slice st i = Inr [f64_of_f32 (vals ! i)]"
  shows "ys = map (\<lambda>i. [f64_of_f32 (vals ! i)]) ids"
proof -
  have "mmap_gather st ids = Inr (map (\<lambda>i. [f64_of_f32 (vals ! i)]) ids)"
    using assms(2) by (simp add: mmap_gather_def map_res_all_Inr)
  then show ?thesis using assms(1) by simp
qed

lemma map2_map_right: "map2 f xs (map g xs) = map (\<lambda>x. f x (g x)) xs"
  by (induction xs) simp_all

text \<open>The shortlist names rows that were found, with the values that were appended. When the
  objective column holds the appended values, a returned shortlist has no duplicates and at most
  the asked number of entries, each an id found for some query together with its 32-bit value bit
  for bit, although the column stores 64-bit floats; and when the limit is not reached every id
  that was found is in it.\<close>

theorem shortlist_resolves_neighbours:
  assumes "shortlist env queries k limit h = (Inr items, h')" "history_search env queries k h = (Inr per_query, h1)"
    and "\<forall>i<history_len h1. mmap_row_slice (train_y (hist_backend h1)) i = Inr [f64_of_f32 (vals ! i)] \<and> is_finite (vals ! i)"
  shows "distinct (map obs_id items) \<and> length items \<le> limit \<and>
    (\<forall>e\<in>set items. obs_value e = vals ! unat (obs_id e) \<and> (\<exists>ids\<in>set per_query. obs_id e \<in> set ids)) \<and>
    (length items < limit \<longrightarrow> set (map obs_id items) = (\<Union>ids\<in>set per_query. set ids))"
proof -
  let ?ids = "collect_new limit (rank_order per_query) []"
  have limit: "0 < limit" using assms(1) by (cases limit) (simp_all add: shortlist_def)
  have "items = map (\<lambda>i. \<lparr>obs_id = i, obs_value = vals ! unat i\<rparr>) ?ids"
  proof (cases "?ids = []")
    case True
    then show ?thesis using assms(1,2) limit by (simp add: shortlist_def)
  next
    case False
    then have "map_err HistoryRowsError (rbind (train_rows_at (map unat ?ids) (hist_backend h1)) (\<lambda>(_, ys, _).
        Inr (map2 observation_of ?ids ys))) = Inr items"
      using assms(1,2) limit by (auto simp: shortlist_def Let_def)
    then obtain xs ys vs where rows: "train_rows_at (map unat ?ids) (hist_backend h1) = Inr (xs, ys, vs)"
      and items: "items = map2 observation_of ?ids ys"
      by (auto simp: map_err_def rbind_Inr_conv split: sum.splits)
    have range: "\<forall>i\<in>set ?ids. unat i < history_len h1" and ys: "mmap_gather (train_y (hist_backend h1)) (map unat ?ids) = Inr ys"
      using rows by (auto simp: train_rows_at_def bpann_train_rows_at_def res_simps history_len_def split: option.splits)
    have "ys = map (\<lambda>i. [f64_of_f32 (vals ! i)]) (map unat ?ids)"
      using assms(3) range by (intro gathered_values [OF ys]) auto
    then have "items = map (\<lambda>i. observation_of i [f64_of_f32 (vals ! unat i)]) ?ids"
      using map2_map_right [of observation_of ?ids "\<lambda>i. [f64_of_f32 (vals ! unat i)]"] by (simp add: items comp_def)
    also have "\<dots> = map (\<lambda>i. \<lparr>obs_id = i, obs_value = vals ! unat i\<rparr>) ?ids"
      using range assms(3) by (auto simp: observation_of_def narrow_widen)
    finally show ?thesis .
  qed
  then show ?thesis
    using collect_new_distinct [of "[]" limit "rank_order per_query"] collect_new_length [of "[]" limit "rank_order per_query"]
      collect_new_set [of limit "rank_order per_query" "[]"] collect_new_all [of "[]" limit "rank_order per_query"] limit
    by (auto simp: comp_def set_rank_order)
qed

text \<open>One appended row, found by its own descriptor.\<close>

definition test_history :: BpannHistory where
  "test_history = \<lparr>hist_backend = (one_backend None)\<lparr>train_y := one_row (f64_of_f32 one32)\<rparr>, descriptor_dim = 1\<rparr>"

lemma test_history_search:
  "\<exists>c. history_search test_env (1, [[one64]]) 1 test_history =
    (Inr [[0]], test_history\<lparr>hist_backend := (hist_backend test_history)\<lparr>small_n_x_cache := c\<rparr>\<rparr>)"
proof -
  let ?b = "(one_backend None)\<lparr>train_y := one_row (f64_of_f32 one32)\<rparr>"
  have ctx: "backend_ctx ?b = backend_ctx (one_backend None)" "backend_len ?b = 1" "scaled_query ?b [one64] = [one32]"
    using one_query [of None] by (simp_all add: backend_ctx_def backend_len_def one_backend_def one_row_def scaled_query_def)
  then have "backend_vectors ?b [[one32]]" using one_backend_vectors [of None] by (simp add: backend_vectors_def)
  then obtain b' where b': "backend_search test_env [[one64]] 1 False ?b =
      (Inr [fill_row 1 (exact_answer [[one32]] 1 False [one32])], b')" "b' = ?b\<lparr>small_n_x_cache := small_n_x_cache b'\<rparr>"
    using small_search_answer [of ?b "[[one32]]" "[[one64]]" test_env 1 False] ctx sample_finite
    by (auto simp: SMALL_N_INCORE_SEARCH_LIMIT_def cache_ok_def)
  have "snd (fill_row 1 (exact_answer [[one32]] 1 False [one32])) = [0]"
    by (simp add: fill_row_def exact_answer_def ranked_rows_def bpann_brute_force_topk_def topk_def widen_entry_def as_u32_def)
  then have "history_search test_env (1, [[one64]]) 1 test_history = (Inr [[0]], test_history\<lparr>hist_backend := b'\<rparr>)"
    using b'(1) ctx(2) by (simp add: history_search_def test_history_def history_len_def map_err_def case_prod_beta)
  moreover have "test_history\<lparr>hist_backend := b'\<rparr> =
      test_history\<lparr>hist_backend := (hist_backend test_history)\<lparr>small_n_x_cache := small_n_x_cache b'\<rparr>\<rparr>"
    using b'(2) by (simp add: test_history_def)
  ultimately show ?thesis by metis
qed

lemma one_row_rows [simp]: "store_rows (one_row x) = 1"
  by (simp add: one_row_def)

theorem shortlist_resolves_neighbours_witness:
  "\<exists>items h'. shortlist test_env (1, [[one64]]) 1 5 test_history = (Inr items, h') \<and>
    set (map obs_id items) = {0} \<and> obs_value ` set items = {one32}"
proof -
  obtain c where c: "history_search test_env (1, [[one64]]) 1 test_history =
    (Inr [[0]], test_history\<lparr>hist_backend := (hist_backend test_history)\<lparr>small_n_x_cache := c\<rparr>\<rparr>)" (is "_ = (_, ?h)")
    using test_history_search by blast
  have ids: "collect_new 5 (rank_order [[0 :: u64]]) [] = [0]"
    by (simp add: rank_order_def List.map_filter_simps upt_conv_Cons)
  obtain items where items: "shortlist test_env (1, [[one64]]) 1 5 test_history = (Inr items, ?h)"
    using c
    by (auto simp: shortlist_def ids Let_def train_rows_at_def bpann_train_rows_at_def backend_len_def test_history_def
        one_backend_def one_row_slice mmap_gather_def map_err_def)
  have "\<forall>i<history_len ?h. mmap_row_slice (train_y (hist_backend ?h)) i = Inr [f64_of_f32 ([one32] ! i)] \<and> is_finite ([one32] ! i)"
    using sample_finite by (simp add: test_history_def history_len_def backend_len_def one_backend_def one_row_slice)
  note found = shortlist_resolves_neighbours [OF items c this]
  have ids: "set (map obs_id items) \<subseteq> {0}" using found by auto
  then have "card (set (map obs_id items)) \<le> 1" using card_mono [OF _ ids] by simp
  then have "length items < 5" using found distinct_card [of "map obs_id items"] by simp
  moreover have "(\<Union>ids\<in>set [[0 :: u64]]. set ids) = {0}" by simp
  ultimately have all: "set (map obs_id items) = {0}" using found by metis
  have "obs_value ` set items = {one32}"
  proof -
    have "obs_value e = one32" if "e \<in> set items" for e
    proof -
      have "obs_id e = 0" using all that by (metis image_eqI list.set_map singletonD)
      then show ?thesis using found that by simp
    qed
    moreover have "items \<noteq> []" using all by auto
    ultimately show ?thesis by (cases items) auto
  qed
  then show ?thesis using items all by blast
qed

end
