(* ===== verification/Candidates.thy ===== *)
theory Candidates
  imports Floats
begin

text \<open>
  Candidate points (\<open>rust/crates/ennx/src/candidates.rs\<close>) and how many of them
  (\<open>CandidateConfig::num_candidates\<close> in \<open>config.rs\<close>).

  Points are lists, a matrix is the list of its rows, bounds are pairs. The random source, the
  Sobol sequence and ndarray's summation are parameters; \<open>Uniform::new\<close> panics unless its bounds are
  in strict order and their difference is finite. A panic is the error \<open>CandPanic\<close>.
\<close>

datatype CandidateRV = Sobol | Uniform | RAASP

datatype cand_error = CandInvalid | CandPanic

record 'r cand_env =
  gen_unit :: "'r \<Rightarrow> f64 \<times> 'r"
  gen_upto :: "nat \<Rightarrow> 'r \<Rightarrow> nat \<times> 'r"
  gen_between :: "f64 \<Rightarrow> f64 \<Rightarrow> 'r \<Rightarrow> f64 \<times> 'r"
  fill_word :: "'r \<Rightarrow> u64 \<times> 'r"
  sobol_point :: "nat \<Rightarrow> nat \<Rightarrow> f64 list option"
  array_sum :: "f64 list \<Rightarrow> f64"

section \<open>How many candidates\<close>

record CandidateConfig =
  num_candidates_factor :: f64
  min_candidates :: nat
  max_candidates :: "nat option"
  num_candidates_per_arm :: "nat option"
  num_pert :: nat
  candidate_rv :: CandidateRV

text \<open>\<open>x as usize\<close>.\<close>

definition trunc_usize :: "f64 \<Rightarrow> nat" where
  "trunc_usize x =
     (if is_nan x \<or> sign_neg x then 0
      else if is_inf x then 2 ^ 64 - 1
      else min (units x div 2 ^ unit_exp 64) (2 ^ 64 - 1))"

definition num_candidates :: "CandidateConfig \<Rightarrow> nat \<Rightarrow> nat \<Rightarrow> nat" where
  "num_candidates c num_dim num_arms =
     (let base =
        (if feq (num_candidates_factor c) (flit 1 1) \<and> max_candidates c = Some (min_candidates c)
            \<and> num_candidates_per_arm c = None
         then min_candidates c
         else let raw = trunc_usize (fmul (num_candidates_factor c) (flit num_dim 1));
                  formula = (case max_candidates c of
                      Some cap \<Rightarrow>
                        if num_candidates_per_arm c \<noteq> None
                          \<or> flt (fabs (fsub (num_candidates_factor c) (flit 100 1))) (flit 1 (2 ^ 52))
                        then min raw cap else raw
                    | None \<Rightarrow> raw)
              in max formula (min_candidates c))
      in case num_candidates_per_arm c of
           Some m \<Rightarrow> max base (umul num_arms m)
         | None \<Rightarrow> base)"

section \<open>Scaling\<close>

text \<open>Bounds for fewer dimensions than the points have are a panic.\<close>

definition scale_rows :: "(f64 \<times> f64 \<Rightarrow> f64 \<Rightarrow> f64) \<Rightarrow> f64 list list \<Rightarrow> (f64 \<times> f64) list \<Rightarrow> cand_error + f64 list list" where
  "scale_rows f xs bounds =
     (if list_all (\<lambda>x. length x \<le> length bounds) xs then Inr (map (map2 f bounds) xs) else Inl CandPanic)"

definition from_unit :: "f64 list list \<Rightarrow> (f64 \<times> f64) list \<Rightarrow> cand_error + f64 list list" where
  "from_unit = scale_rows (\<lambda>(lo, hi) x. fadd lo (fmul x (fsub hi lo)))"

definition to_unit :: "f64 list list \<Rightarrow> (f64 \<times> f64) list \<Rightarrow> cand_error + f64 list list" where
  "to_unit = scale_rows (\<lambda>(lo, hi) x. let width = fsub hi lo in
     if flt fzero width then fdiv (fsub x lo) width else flit 1 2)"

section \<open>Uniform candidates\<close>

text \<open>\<open>rng.sample(Uniform::new(lo, hi))\<close>.\<close>

definition sample_between :: "'r cand_env \<Rightarrow> f64 \<Rightarrow> f64 \<Rightarrow> 'r \<Rightarrow> cand_error + f64 \<times> 'r" where
  "sample_between env lo hi rng =
     (if flt lo hi \<and> is_finite (fsub hi lo) then Inr (gen_between env lo hi rng) else Inl CandPanic)"

fun repeat_rows :: "nat \<Rightarrow> ('r \<Rightarrow> cand_error + 'a \<times> 'r) \<Rightarrow> 'r \<Rightarrow> cand_error + 'a list \<times> 'r" where
  "repeat_rows 0 f rng = Inr ([], rng)"
| "repeat_rows (Suc n) f rng =
     rbind (f rng) (\<lambda>(x, rng1). rbind (repeat_rows n f rng1) (\<lambda>(xs, rng2). Inr (x # xs, rng2)))"

fun uniform_row :: "'r cand_env \<Rightarrow> f64 list \<Rightarrow> f64 list \<Rightarrow> 'r \<Rightarrow> cand_error + f64 list \<times> 'r" where
  "uniform_row env [] us rng = Inr ([], rng)"
| "uniform_row env (l # ls) [] rng = Inl CandPanic"
| "uniform_row env (l # ls) (u # us) rng =
     rbind (sample_between env l u rng) (\<lambda>(x, rng1). rbind (uniform_row env ls us rng1) (\<lambda>(xs, rng2). Inr (x # xs, rng2)))"

definition generate_uniform :: "'r cand_env \<Rightarrow> f64 list \<Rightarrow> f64 list \<Rightarrow> nat \<Rightarrow> 'r \<Rightarrow> cand_error + f64 list list \<times> 'r" where
  "generate_uniform env lower upper n = repeat_rows n (uniform_row env lower upper)"

section \<open>Perturbing some axes of a centre\<close>

text \<open>The binary search for the first index at which the cumulated probability reaches \<open>r\<close>.\<close>

function cdf_search :: "f64 list \<Rightarrow> f64 \<Rightarrow> nat \<Rightarrow> nat \<Rightarrow> nat" where
  "cdf_search cdf r lo hi =
     (if lo < hi
      then let mid = lo + (hi - lo) div 2 in if fle r (cdf ! mid) then cdf_search cdf r lo mid else cdf_search cdf r (mid + 1) hi
      else lo)"
  by pat_completeness auto
termination by (relation "measure (\<lambda>(cdf, r, lo, hi). hi - lo)") auto

declare cdf_search.simps [simp del]

definition raasp_dim_from_cdf :: "f64 list \<Rightarrow> f64 \<Rightarrow> nat \<Rightarrow> nat" where
  "raasp_dim_from_cdf cdf r num_dim = cdf_search cdf r 0 (num_dim - 1)"

fun running_sums :: "f64 \<Rightarrow> f64 list \<Rightarrow> f64 list" where
  "running_sums c [] = []"
| "running_sums c (p # ps) = (let c1 = fadd c p in c1 # running_sums c1 ps)"

definition raasp_probs :: "'r cand_env \<Rightarrow> nat \<Rightarrow> f64 list option \<Rightarrow> f64 list" where
  "raasp_probs env num_dim lengthscales =
     (let even = replicate num_dim (fdiv (flit 1 1) (flit num_dim 1)) in
      case lengthscales of
        Some ls \<Rightarrow> let s = array_sum env ls in if flt fzero s then map (\<lambda>v. fdiv v s) ls else even
      | None \<Rightarrow> even)"

fun perturb_axes ::
    "'r cand_env \<Rightarrow> f64 list \<Rightarrow> f64 list \<Rightarrow> f64 list \<Rightarrow> nat \<Rightarrow> f64 list \<Rightarrow> 'r \<Rightarrow> cand_error + f64 list \<times> 'r" where
  "perturb_axes env cdf lower upper 0 x rng = Inr (x, rng)"
| "perturb_axes env cdf lower upper (Suc n) x rng =
     (let (r, rng1) = gen_unit env rng; d = raasp_dim_from_cdf cdf r (length x) in
      if d \<ge> length lower \<or> d \<ge> length upper then Inl CandPanic
      else rbind (sample_between env (lower ! d) (upper ! d) rng1) (\<lambda>(v, rng2).
        if d \<ge> length x then Inl CandPanic
        else perturb_axes env cdf lower upper n (x[d := v]) rng2))"

definition generate_raasp ::
    "'r cand_env \<Rightarrow> f64 list \<Rightarrow> f64 list option \<Rightarrow> f64 list \<Rightarrow> f64 list \<Rightarrow> nat \<Rightarrow> nat \<Rightarrow> 'r
      \<Rightarrow> cand_error + f64 list list \<times> 'r" where
  "generate_raasp env center lengthscales lower upper n pert rng =
     (let probs = raasp_probs env (length center) lengthscales in
      if length probs < length center then Inl CandPanic
      else let cdf = running_sums fzero (take (length center) probs)
           in repeat_rows n (perturb_axes env cdf lower upper (max pert 1) center) rng)"

section \<open>The Sobol engine\<close>

record SobolEngine =
  se_dimension :: nat
  se_next :: nat
  se_shift :: "f64 list option"

definition sobol_new :: "nat \<Rightarrow> cand_error + SobolEngine" where
  "sobol_new d = (if d = 0 \<or> d > 21201 then Inl CandInvalid else Inr \<lparr>se_dimension = d, se_next = 0, se_shift = None\<rparr>)"

text \<open>\<open>x % 1.0\<close>: the remainder has the sign of \<open>x\<close> and is exact.\<close>

definition rem_one :: "f64 \<Rightarrow> f64" where
  "rem_one x = (if is_nan x \<or> is_inf x then nan else round_float (sign_neg x) (units x mod 2 ^ unit_exp 64) 1)"

definition shift_unit :: "f64 \<Rightarrow> f64 \<Rightarrow> f64" where
  "shift_unit s sh = (let v = rem_one (fadd s sh) in if flt v fzero then fadd v (flit 1 1) else v)"

definition sobol_sample :: "'r cand_env \<Rightarrow> SobolEngine \<Rightarrow> (cand_error + f64 list) \<times> SobolEngine" where
  "sobol_sample env e =
     (let e1 = e\<lparr>se_next := se_next e + 1\<rparr> in
      case sobol_point env (se_dimension e) (se_next e) of
        None \<Rightarrow> (Inl CandInvalid, e1)
      | Some p \<Rightarrow>
          if length p \<noteq> se_dimension e then (Inl CandInvalid, e1)
          else (Inr (case se_shift e of Some sh \<Rightarrow> map2 shift_unit p sh @ drop (length sh) p | None \<Rightarrow> p), e1))"

fun draw_shift :: "'r cand_env \<Rightarrow> nat \<Rightarrow> 'r \<Rightarrow> f64 list \<times> 'r" where
  "draw_shift env 0 rng = ([], rng)"
| "draw_shift env (Suc n) rng =
     (let (u, rng1) = fill_word env rng; (us, rng2) = draw_shift env n rng1
      in (fdiv (flit (unat (drop_bit 11 u)) 1) (flit (2 ^ 53) 1) # us, rng2))"

definition sobol_scramble :: "'r cand_env \<Rightarrow> SobolEngine \<Rightarrow> 'r \<Rightarrow> SobolEngine \<times> 'r" where
  "sobol_scramble env e rng = (let (sh, rng1) = draw_shift env (se_dimension e) rng in (e\<lparr>se_shift := Some sh\<rparr>, rng1))"

text \<open>One candidate per sample, scaled into the bounds.\<close>

fun sobol_rows ::
    "'r cand_env \<Rightarrow> nat \<Rightarrow> f64 list \<Rightarrow> f64 list \<Rightarrow> nat \<Rightarrow> SobolEngine \<Rightarrow> (cand_error + f64 list list) \<times> SobolEngine" where
  "sobol_rows env num_dim lower upper 0 e = (Inr [], e)"
| "sobol_rows env num_dim lower upper (Suc n) e =
     (case sobol_sample env e of
        (Inl err, e1) \<Rightarrow> (Inl err, e1)
      | (Inr p, e1) \<Rightarrow>
          if length p < num_dim \<or> length lower < num_dim \<or> length upper < num_dim then (Inl CandPanic, e1)
          else let row = map (\<lambda>j. fadd (lower ! j) (fmul (p ! j) (fsub (upper ! j) (lower ! j)))) [0..<num_dim];
                   (res, e2) = sobol_rows env num_dim lower upper n e1
               in (rbind res (\<lambda>rows. Inr (row # rows)), e2))"

section \<open>Candidates in a region\<close>

definition generate_candidates ::
    "'r cand_env \<Rightarrow> f64 list \<times> f64 list \<Rightarrow> f64 list \<Rightarrow> f64 list option \<Rightarrow> nat \<Rightarrow> CandidateRV \<Rightarrow> SobolEngine option
      \<Rightarrow> nat \<Rightarrow> 'r \<Rightarrow> (cand_error + f64 list list \<times> 'r) \<times> SobolEngine option" where
  "generate_candidates env = (\<lambda>(lower, upper) center lengthscales n rv engine pert rng.
     (case rv of
        Sobol \<Rightarrow>
          (case engine of
             Some e \<Rightarrow> let (res, e1) = sobol_rows env (length center) lower upper n e
                        in (rbind res (\<lambda>rows. Inr (rows, rng)), Some e1)
           | None \<Rightarrow> (generate_uniform env lower upper n rng, None))
      | Uniform \<Rightarrow> (generate_uniform env lower upper n rng, engine)
      | RAASP \<Rightarrow> (generate_raasp env center lengthscales lower upper n pert rng, engine)))"

section \<open>The Latin hypercube\<close>

definition swap_at :: "nat \<Rightarrow> nat \<Rightarrow> 'a list \<Rightarrow> 'a list" where
  "swap_at i j xs = xs[i := xs ! j, j := xs ! i]"

text \<open>The indices run from the last down to 1.\<close>

fun fisher_yates :: "'r cand_env \<Rightarrow> nat list \<Rightarrow> nat list \<Rightarrow> 'r \<Rightarrow> nat list \<times> 'r" where
  "fisher_yates env [] perm rng = (perm, rng)"
| "fisher_yates env (i # is) perm rng =
     (let (j, rng1) = gen_upto env i rng in fisher_yates env is (swap_at i j perm) rng1)"

definition stratum_point :: "nat \<Rightarrow> nat \<Rightarrow> f64 \<Rightarrow> f64" where
  "stratum_point n bin offset =
     (let bin_start = fdiv (flit bin 1) (flit n 1); bin_end = fdiv (flit (bin + 1) 1) (flit n 1)
      in fadd bin_start (fmul offset (fsub bin_end bin_start)))"

fun lhd_values :: "'r cand_env \<Rightarrow> nat \<Rightarrow> f64 \<Rightarrow> f64 \<Rightarrow> nat list \<Rightarrow> 'r \<Rightarrow> f64 list \<times> 'r" where
  "lhd_values env n lower width [] rng = ([], rng)"
| "lhd_values env n lower width (bin # bins) rng =
     (let (offset, rng1) = gen_unit env rng; (vs, rng2) = lhd_values env n lower width bins rng1
      in (fadd lower (fmul (stratum_point n bin offset) width) # vs, rng2))"

definition lhd_column :: "'r cand_env \<Rightarrow> nat \<Rightarrow> f64 \<times> f64 \<Rightarrow> 'r \<Rightarrow> f64 list \<times> 'r" where
  "lhd_column env n = (\<lambda>(lower, upper) rng.
     let (perm, rng1) = fisher_yates env (rev [1..<n]) [0..<n] rng
     in lhd_values env n lower (fsub upper lower) perm rng1)"

fun lhd_columns :: "'r cand_env \<Rightarrow> nat \<Rightarrow> (f64 \<times> f64) list \<Rightarrow> 'r \<Rightarrow> f64 list list \<times> 'r" where
  "lhd_columns env n [] rng = ([], rng)"
| "lhd_columns env n (b # bs) rng =
     (let (c, rng1) = lhd_column env n b rng; (cs, rng2) = lhd_columns env n bs rng1 in (c # cs, rng2))"

text \<open>One pair of bounds per dimension; the columns are drawn one after the other.\<close>

definition generate_lhd :: "'r cand_env \<Rightarrow> nat \<Rightarrow> (f64 \<times> f64) list \<Rightarrow> 'r \<Rightarrow> f64 list list \<times> 'r" where
  "generate_lhd env n bounds rng =
     (let (cols, rng1) = lhd_columns env n bounds rng in (map (\<lambda>i. map (\<lambda>c. c ! i) cols) [0..<n], rng1))"

end
