(* ===== verification/FloatOrder.thy ===== *)
theory FloatOrder
  imports FloatExact
begin

text \<open>
  Addition, subtraction, multiplication and division are monotone, as one rounding of a monotone
  exact operation. Comparisons are read off the integer key of a float, and the key of a finite
  result is the signed rounding (\<open>srnd\<close>) of the exact integer value.
\<close>

section \<open>Signed rounding\<close>

definition srnd :: "nat \<Rightarrow> int \<Rightarrow> nat \<Rightarrow> int" where
  "srnd w z q = (if z < 0 then - int (round_mag (frac_bits w) (inf_mag w) (nat (- z)) q)
     else int (round_mag (frac_bits w) (inf_mag w) (nat z) q))"

lemma round_mag_0 [simp]: "round_mag fb im 0 q = 0"
  by (simp add: round_mag_def round_half_even_def Let_def)

lemma srnd_bounds: "- int (inf_mag w) \<le> srnd w z q" "srnd w z q \<le> int (inf_mag w)"
  by (auto simp: srnd_def intro: order_trans [of _ 0])

lemma srnd_sign: "z < 0 \<Longrightarrow> srnd w z q \<le> 0" "0 \<le> z \<Longrightarrow> 0 \<le> srnd w z q"
  by (simp_all add: srnd_def)

lemma srnd_0 [simp]: "srnd w 0 q = 0"
  by (simp add: srnd_def)

lemma srnd_neg: "srnd w (- z) q = - srnd w z q"
  by (cases "z = 0") (simp_all add: srnd_def)

lemma srnd_mono:
  assumes "0 < q" "0 < q'" "z * int q' \<le> z' * int q"
  shows "srnd w z q \<le> srnd w z' q'"
proof -
  have pos: "srnd w x a \<le> srnd w y b" if "0 \<le> x" "0 < a" "0 < b" "x * int b \<le> y * int a" for x y a b
  proof -
    have "0 \<le> y" using that by (metis mult_less_0_iff mult_nonneg_nonneg not_le of_nat_0_le_iff of_nat_0_less_iff order_less_le_trans)
    then have "nat x * b \<le> nat y * a" using that by (metis nat_int nat_mono nat_mult_distrib)
    then show ?thesis using round_mag_mono [of a b "nat x" "nat y"] that \<open>0 \<le> y\<close> by (simp add: srnd_def)
  qed
  consider "0 \<le> z" | "z < 0" "0 \<le> z'" | "z < 0" "z' < 0" by linarith
  then show ?thesis
  proof cases
    case 1
    then show ?thesis using pos assms by simp
  next
    case 2
    then show ?thesis using srnd_sign [of z w q] srnd_sign [of z' w q'] by linarith
  next
    case 3
    then show ?thesis using pos [of "- z'" q' q "- z"] assms by (simp add: srnd_neg)
  qed
qed

section \<open>Keys and values\<close>

lemma fkey_round_float:
  "fkey (round_float s p q :: 'w::len word ieee) =
    (if s then - int (round_mag (frac_bits LENGTH('w)) (inf_mag LENGTH('w)) p q)
     else int (round_mag (frac_bits LENGTH('w)) (inf_mag LENGTH('w)) p q))"
  by (simp add: fkey_def mag_round_float)

lemma fkey_mk_float: "m < sign_weight LENGTH('w) \<Longrightarrow> fkey (mk_float s m :: 'w::len word ieee) = (if s then - int m else int m)"
  by (simp add: fkey_def)

lemma fkey_bounds: "\<not> is_nan x \<Longrightarrow> \<bar>fkey x\<bar> \<le> int (inf_mag LENGTH('w))" for x :: "'w::len word ieee"
  by (simp add: fkey_def is_nan_def)

lemma units_0_iff: "units x = 0 \<longleftrightarrow> mag x = 0"
proof -
  have "units_of fb 0 = 0" for fb by (simp add: units_of_def)
  then show ?thesis using units_of_less_iff [of _ 0 "mag x"] by (metis gr0I less_numeral_extra(3) units_def)
qed

lemma fval_le_iff: "fval x \<le> fval y \<longleftrightarrow> fkey x \<le> fkey y" for x y :: "'w::len word ieee"
proof -
  have "units x < units y \<longleftrightarrow> mag x < mag y" "units y < units x \<longleftrightarrow> mag y < mag x"
    by (simp_all add: units_def units_of_less_iff)
  then show ?thesis using units_0_iff [of x] units_0_iff [of y] by (auto simp: fval_def fkey_def)
qed

lemma fval_0 [simp]: "fval fzero = 0" "fkey fzero = 0"
  by (simp_all add: fval_def fkey_def fzero_def units_def units_of_def)

lemma fval_sign_iff: "0 \<le> fval x \<longleftrightarrow> 0 \<le> fkey x" "0 < fval x \<longleftrightarrow> 0 < fkey x"
  using fval_le_iff [of fzero x] fval_le_iff [of x fzero] by (simp_all add: not_le [symmetric])

lemma finite_iff_key: "is_finite x \<longleftrightarrow> \<bar>fkey x\<bar> < int (inf_mag LENGTH('w))" for x :: "'w::len word ieee"
  by (simp add: is_finite_def fkey_def)

lemma key_inf: "is_inf x \<Longrightarrow> fkey x = (if sign_neg x then - int (inf_mag LENGTH('w)) else int (inf_mag LENGTH('w)))"
  for x :: "'w::len word ieee"
  by (simp add: is_inf_def fkey_def)

lemma not_nan_cases: "\<not> is_nan x \<longleftrightarrow> is_finite x \<or> is_inf x"
  by (auto simp: is_nan_def is_finite_def is_inf_def)

lemma inf_mag_nonneg: "0 \<le> int (inf_mag w)" by simp

lemma is_nan_nan [simp]: "is_nan (nan :: f64)"
  by (simp add: is_nan_def nan_def float_layout)

section \<open>Keys of results\<close>

lemma fadd_finite:
  fixes a b :: "'w::len word ieee"
  assumes "is_finite a" "is_finite b"
  shows "\<not> is_nan (fadd a b)" "fkey (fadd a b) = srnd LENGTH('w) (fval a + fval b) 1"
  using finite_not_special [OF assms(1)] finite_not_special [OF assms(2)]
  by (auto simp: fadd_def Let_def mk_float_not_nan fkey_mk_float fkey_round_float srnd_def)

lemma fmul_finite:
  fixes a b :: "'w::len word ieee"
  assumes "is_finite a" "is_finite b"
  shows "\<not> is_nan (fmul a b)" "fkey (fmul a b) = srnd LENGTH('w) (fval a * fval b) (2 ^ unit_exp LENGTH('w))"
proof -
  have "nat (int (units a) * int (units b)) = units a * units b" by (simp add: nat_mult_distrib)
  then show "\<not> is_nan (fmul a b)" "fkey (fmul a b) = srnd LENGTH('w) (fval a * fval b) (2 ^ unit_exp LENGTH('w))"
    using finite_not_special [OF assms(1)] finite_not_special [OF assms(2)]
    by (auto simp: fmul_def Let_def fkey_round_float srnd_def fval_def mult_less_0_iff zero_less_mult_iff split: if_splits)
qed

lemma fdiv_finite:
  fixes a b :: "'w::len word ieee"
  assumes "is_finite a" "is_finite b" "0 < fkey b"
  shows "\<not> is_nan (fdiv a b)" "fkey (fdiv a b) = srnd LENGTH('w) (fval a * 2 ^ unit_exp LENGTH('w)) (units b)"
proof -
  have b: "\<not> sign_neg b" "mag b \<noteq> 0" using assms(3) by (auto simp: fkey_def split: if_splits)
  have "nat (int (units a) * 2 ^ n) = units a * 2 ^ n" for n by (simp add: nat_mult_distrib nat_power_eq)
  then show "\<not> is_nan (fdiv a b)"
    "fkey (fdiv a b) = srnd LENGTH('w) (fval a * 2 ^ unit_exp LENGTH('w)) (units b)"
    using finite_not_special [OF assms(1)] finite_not_special [OF assms(2)] b
    by (auto simp: fdiv_def Let_def fkey_round_float srnd_def fval_def mult_less_0_iff zero_less_mult_iff split: if_splits)
qed

lemma fneg_key [simp]: "fkey (fneg x) = - fkey x" "is_nan (fneg x) = is_nan x" "is_inf (fneg x) = is_inf x"
    "is_finite (fneg x) = is_finite x" "fval (fneg x) = - fval x"
  for x :: "'w::len word ieee"
  by (simp_all add: fneg_def fkey_def is_nan_def is_inf_def is_finite_def fval_def units_def)

lemma fsub_finite:
  fixes a b :: "'w::len word ieee"
  assumes "is_finite a" "is_finite b"
  shows "\<not> is_nan (fsub a b)" "fkey (fsub a b) = srnd LENGTH('w) (fval a - fval b) 1"
  using fadd_finite [OF assms(1), of "fneg b"] assms(2) finite_not_special [OF assms(2)] by (simp_all add: fsub_def)

section \<open>Monotonicity\<close>

lemma fadd_not_nan:
  fixes a b :: f64
  assumes "\<not> is_nan (fadd a b)"
  shows "\<not> is_nan a" "\<not> is_nan b" "is_inf a \<Longrightarrow> is_inf b \<Longrightarrow> sign_neg a = sign_neg b"
  using assms by (auto simp: fadd_def split: if_splits)

lemma fadd_key:
  fixes a b :: f64
  assumes "\<not> is_nan (fadd a b)"
  shows "fkey (fadd a b) = (if is_inf a then fkey a else if is_inf b then fkey b else srnd 64 (fval a + fval b) 1)"
proof (cases "is_inf a \<or> is_inf b")
  case True
  then show ?thesis using fadd_not_nan [OF assms] by (auto simp: fadd_def)
next
  case False
  then show ?thesis using fadd_not_nan [OF assms] fadd_finite [of a b] by (simp add: not_nan_cases)
qed

lemma inf_keys:
  fixes x :: f64
  shows "fkey x = int (inf_mag 64) \<longleftrightarrow> is_inf x \<and> \<not> sign_neg x" "fkey x = - int (inf_mag 64) \<longleftrightarrow> is_inf x \<and> sign_neg x"
proof -
  have "0 < inf_mag 64" by (simp add: float_layout)
  then show "fkey x = int (inf_mag 64) \<longleftrightarrow> is_inf x \<and> \<not> sign_neg x" "fkey x = - int (inf_mag 64) \<longleftrightarrow> is_inf x \<and> sign_neg x"
    by (auto simp: fkey_def is_inf_def)
qed

lemma fadd_top:
  fixes a b :: f64
  assumes "\<not> is_nan (fadd a b)" "fkey a = int (inf_mag 64) \<or> fkey b = int (inf_mag 64)"
  shows "fkey (fadd a b) = int (inf_mag 64)"
  using fadd_key [OF assms(1)] fadd_not_nan(3) [OF assms(1)] assms(2) inf_keys(1) [of a] inf_keys(1) [of b] by auto

lemma fadd_bottom:
  fixes a b :: f64
  assumes "\<not> is_nan (fadd a b)" "fkey a = - int (inf_mag 64) \<or> fkey b = - int (inf_mag 64)"
  shows "fkey (fadd a b) = - int (inf_mag 64)"
  using fadd_key [OF assms(1)] fadd_not_nan(3) [OF assms(1)] assms(2) inf_keys(2) [of a] inf_keys(2) [of b] by auto

lemma fadd_mono:
  fixes a b :: f64
  assumes "fle a a'" "fle b b'" "\<not> is_nan (fadd a b)" "\<not> is_nan (fadd a' b')"
  shows "fle (fadd a b) (fadd a' b')"
proof -
  let ?im = "int (inf_mag 64)"
  have le: "fkey a \<le> fkey a'" "fkey b \<le> fkey b'" using assms(1,2) by (simp_all add: fle_def)
  have bd: "fkey x \<le> ?im" "- ?im \<le> fkey x" if "\<not> is_nan x" for x :: f64 using fkey_bounds [OF that] by simp_all
  note na = fadd_not_nan(1,2) [OF assms(3)] fadd_not_nan(1,2) [OF assms(4)]
  consider "fkey a' = ?im \<or> fkey b' = ?im" | "fkey a = - ?im \<or> fkey b = - ?im"
    | "\<not> is_inf a" "\<not> is_inf b" "\<not> is_inf a'" "\<not> is_inf b'"
    using inf_keys [of a] inf_keys [of b] inf_keys [of a'] inf_keys [of b'] le bd [OF na(1)] bd [OF na(2)] bd [OF na(3)] bd [OF na(4)]
    by (metis order.antisym)
  then have "fkey (fadd a b) \<le> fkey (fadd a' b')"
  proof cases
    case 1
    then show ?thesis using fadd_top [OF assms(4)] bd(1) [OF assms(3)] by simp
  next
    case 2
    then show ?thesis using fadd_bottom [OF assms(3)] bd(2) [OF assms(4)] by simp
  next
    case 3
    then show ?thesis
      using fadd_key [OF assms(3)] fadd_key [OF assms(4)] le fval_le_iff [of a a'] fval_le_iff [of b b']
      by (simp add: srnd_mono)
  qed
  then show ?thesis using assms(3,4) by (simp add: fle_def)
qed

lemma is_nan_fadd:
  "is_nan (fadd a b) \<longleftrightarrow> is_nan a \<or> is_nan b \<or> is_inf a \<and> is_inf b \<and> sign_neg a \<noteq> sign_neg b" for a b :: f64
proof (cases "is_finite a \<and> is_finite b")
  case True
  then show ?thesis using fadd_finite(1) [of a b] finite_not_special [of a] finite_not_special [of b] by auto
next
  case False
  then have "is_nan a \<or> is_nan b \<or> is_inf a \<or> is_inf b" by (auto simp: not_nan_cases [symmetric] is_finite_def is_nan_def is_inf_def)
  then show ?thesis by (cases "is_nan a"; cases "is_nan b"; cases "is_inf a"; cases "is_inf b") (simp_all add: fadd_def)
qed

lemma nonneg_inf: "fle fzero a \<Longrightarrow> is_inf a \<Longrightarrow> \<not> sign_neg a" for a :: f64
  using inf_keys [of a] by (auto simp: fle_def float_layout)

lemma fadd_nonneg_not_nan: "fle fzero a \<Longrightarrow> fle fzero b \<Longrightarrow> \<not> is_nan (fadd a b)" for a b :: f64
  using nonneg_inf [of a] nonneg_inf [of b] by (auto simp: is_nan_fadd fle_def)

lemma srnd_fval: "is_finite x \<Longrightarrow> srnd LENGTH('w) (fval x) 1 = fkey x" for x :: "'w::len word ieee"
  using round_mag_units_of [of "mag x" "inf_mag LENGTH('w)"]
  by (cases "mag x = 0") (auto simp: srnd_def fval_def fkey_def is_finite_def units_def simp flip: units_0_iff)

text \<open>Adding a value of known sign moves a float in that direction only.\<close>

lemma fadd_ge:
  fixes a b :: f64
  assumes "fle fzero b" "\<not> is_nan (fadd a b)"
  shows "fle a (fadd a b)"
proof (cases "is_inf a \<or> is_inf b")
  case True
  then have "fkey a \<le> fkey (fadd a b)"
    using fadd_key [OF assms(2)] nonneg_inf [OF assms(1)] inf_keys(1) [of b] fkey_bounds [OF fadd_not_nan(1) [OF assms(2)]]
    by (auto split: if_splits)
  then show ?thesis using assms fadd_not_nan [OF assms(2)] by (simp add: fle_def)
next
  case False
  then have fin: "is_finite a" "is_finite b" using fadd_not_nan [OF assms(2)] by (auto simp: not_nan_cases)
  have "0 \<le> fval b" using assms(1) by (simp add: fle_def fval_sign_iff)
  then have "srnd 64 (fval a) 1 \<le> srnd 64 (fval a + fval b) 1" by (intro srnd_mono) simp_all
  then show ?thesis
    using fadd_finite [OF fin] srnd_fval [OF fin(1)] assms finite_not_special [OF fin(1)] by (simp add: fle_def)
qed

lemma fsub_le:
  fixes a b :: f64
  assumes "fle fzero b" "\<not> is_nan (fsub a b)"
  shows "fle (fsub a b) a"
proof -
  have b: "\<not> is_nan b" "fsub a b = fadd a (fneg b)" "fkey (fneg b) \<le> 0" using assms(1) by (simp_all add: fle_def fsub_def)
  show ?thesis
  proof (cases "is_inf a \<or> is_inf b")
    case True
    then have "fkey (fadd a (fneg b)) \<le> fkey a"
      using fadd_key [of a "fneg b"] assms(2) b nonneg_inf [OF assms(1)] inf_keys(1) [of b]
        fkey_bounds [OF fadd_not_nan(1) [of a "fneg b"]]
      by (auto split: if_splits)
    then show ?thesis using assms b fadd_not_nan [of a "fneg b"] by (simp add: fle_def)
  next
    case False
    then have fin: "is_finite a" "is_finite b" using fadd_not_nan [of a "fneg b"] assms(2) b by (auto simp: not_nan_cases)
    have "0 \<le> fval b" using assms(1) by (simp add: fle_def fval_sign_iff)
    then have "srnd 64 (fval a - fval b) 1 \<le> srnd 64 (fval a) 1" by (intro srnd_mono) simp_all
    then show ?thesis
      using fsub_finite [OF fin] srnd_fval [OF fin(1)] assms finite_not_special [OF fin(1)] by (simp add: fle_def)
  qed
qed

text \<open>Products and quotients of finite values: the sign rule and monotonicity.\<close>

lemma fmul_nonneg:
  fixes a b :: f64
  assumes "is_finite a" "is_finite b" "fle fzero a" "fle fzero b"
  shows "fle fzero (fmul a b)"
  using fmul_finite [OF assms(1,2)] assms(3,4) srnd_sign(2) [of "fval a * fval b" 64]
  by (simp add: fle_def fval_sign_iff [symmetric])

lemma fmul_mono:
  fixes a b :: f64
  assumes "is_finite a" "is_finite a'" "is_finite b" "fle a a'" "fle fzero b"
  shows "fle (fmul a b) (fmul a' b)"
proof -
  have "fval a * fval b \<le> fval a' * fval b"
    using assms(4,5) fval_le_iff [of a a'] by (intro mult_right_mono) (simp_all add: fle_def fval_sign_iff)
  then have "srnd 64 (fval a * fval b) (2 ^ 1074) \<le> srnd 64 (fval a' * fval b) (2 ^ 1074)"
    by (intro srnd_mono mult_right_mono [where c = "int (2 ^ 1074)"]) simp_all
  then show ?thesis using fmul_finite [OF assms(1,3)] fmul_finite [OF assms(2,3)] by (simp add: fle_def unit_exp_def)
qed

lemma fdiv_mono:
  fixes a b :: f64
  assumes "is_finite a" "is_finite a'" "is_finite b" "fle a a'" "flt fzero b"
  shows "fle (fdiv a b) (fdiv a' b)"
proof -
  have b: "0 < fkey b" using assms(5) by (simp add: flt_def)
  then have "0 < fval b" "\<not> sign_neg b" by (auto simp: fval_sign_iff fkey_def split: if_splits)
  then have "0 < units b" by (simp add: fval_def)
  have "fval a \<le> fval a'" using assms(4) fval_le_iff [of a a'] by (simp add: fle_def)
  then have "srnd 64 (fval a * 2 ^ 1074) (units b) \<le> srnd 64 (fval a' * 2 ^ 1074) (units b)"
    using \<open>0 < units b\<close> by (intro srnd_mono mult_right_mono) simp_all
  then show ?thesis
    using fdiv_finite [OF assms(1,3) b] fdiv_finite [OF assms(2,3) b] by (simp add: fle_def unit_exp_def)
qed

lemma fsub_mono:
  fixes a b :: f64
  assumes "is_finite a" "is_finite a'" "is_finite b" "fle a a'"
  shows "fle (fsub a b) (fsub a' b)"
proof -
  have "fval a \<le> fval a'" using assms(4) fval_le_iff [of a a'] by (simp add: fle_def)
  then have "srnd 64 (fval a - fval b) 1 \<le> srnd 64 (fval a' - fval b) 1" by (intro srnd_mono) simp_all
  then show ?thesis using fsub_finite [OF assms(1,3)] fsub_finite [OF assms(2,3)] by (simp add: fle_def)
qed

lemma fle_trans: "fle a b \<Longrightarrow> fle b c \<Longrightarrow> fle a c" and fle_refl: "\<not> is_nan a \<Longrightarrow> fle a a"
  by (simp_all add: fle_def)

lemma fclamp_mono: "fle a b \<Longrightarrow> fle lo hi \<Longrightarrow> fle (fclamp a lo hi) (fclamp b lo hi)"
  by (auto simp: fclamp_def fcmp_defs)

lemma fmin_mono: "fle a a' \<Longrightarrow> fle b b' \<Longrightarrow> fle (fmin a b) (fmin a' b')"
  by (auto simp: fmin_def fcmp_defs)

lemma fmax_mono: "fle a a' \<Longrightarrow> fle b b' \<Longrightarrow> fle (fmax a b) (fmax a' b')"
  by (auto simp: fmax_def fcmp_defs)

end
