(* ===== verification/FloatRepr.thy ===== *)
theory FloatRepr
  imports FloatExact FloatOrder
begin

text \<open>
  Dyadic numbers are representable: an integer below \<open>2 ^ 53\<close> times a power of two in range is a
  64-bit float, and so are integers converted by \<open>as f64\<close> and their quotients by powers of two.
\<close>

lemma units_parts: "mag (x :: f64) = Suc k * 2 ^ 52 + f \<Longrightarrow> f < 2 ^ 52 \<Longrightarrow> units x = (2 ^ 52 + f) * 2 ^ k"
proof -
  assume m: "mag x = Suc k * 2 ^ 52 + f" and f: "f < 2 ^ 52"
  have "(Suc k * b + f) div b = Suc k \<and> (Suc k * b + f) mod b = f" if "f < b" for b :: nat
    using that by (cases "b = 0") (simp_all del: mult_Suc)
  from this [OF f] show "units x = (2 ^ 52 + f) * 2 ^ k"
    by (simp only: units_def units_of_def frac_bits_def m Let_def) simp
qed

text \<open>The float whose value is \<open>n * 2 ^ e\<close> units.\<close>

definition dyadic :: "nat \<Rightarrow> nat \<Rightarrow> f64" where
  "dyadic n e = (if n = 0 then fzero
     else mk_float False (Suc (e + ilog2 n - 52) * 2 ^ 52 + (n * 2 ^ (52 - ilog2 n) - 2 ^ 52)))"

lemma dyadic_normal:
  assumes "n < 2 ^ 53" "0 < n" "52 \<le> e + ilog2 n" "e \<le> 2045"
  shows "is_finite (dyadic n e) \<and> \<not> sign_neg (dyadic n e) \<and> units (dyadic n e) = n * 2 ^ e"
proof -
  let ?k = "ilog2 n"
  let ?f = "n * 2 ^ (52 - ?k) - 2 ^ 52"
  have k: "2 ^ ?k \<le> n" "n < 2 ^ Suc ?k" using ilog2_bounds [of n] assms(2) by simp_all
  then have "(2 :: nat) ^ ?k < 2 ^ 53" using assms(1) by linarith
  then have k52: "?k \<le> 52" using power_less_imp_less_exp [of "2::nat" ?k 53] by simp
  have split: "(2 :: nat) ^ 52 = 2 ^ ?k * 2 ^ (52 - ?k)" using k52 by (simp flip: power_add)
  have lo: "2 ^ 52 \<le> n * 2 ^ (52 - ?k)" unfolding split using k(1) by (rule mult_right_mono) simp
  have "n * 2 ^ (52 - ?k) < 2 ^ Suc ?k * 2 ^ (52 - ?k)" using k(2) by simp
  also have "\<dots> = 2 * 2 ^ 52" unfolding split by simp
  finally have f: "?f < 2 ^ 52" using lo by simp
  let ?m = "Suc (e + ?k - 52) * 2 ^ 52 + ?f"
  have "Suc (e + ?k - 52) \<le> 2046" using assms(4) k52 by linarith
  then have "Suc (e + ?k - 52) * 2 ^ 52 \<le> 2046 * 2 ^ 52" by (rule mult_right_mono) simp
  then have m: "?m < 2047 * 2 ^ 52" using f by linarith
  then have "?m < sign_weight 64" "?m < inf_mag 64" by (simp_all add: float_layout)
  then have d: "mag (dyadic n e) = ?m" "\<not> sign_neg (dyadic n e)" "is_finite (dyadic n e)"
    using assms(2) by (simp_all add: dyadic_def is_finite_def)
  have "units (dyadic n e) = (2 ^ 52 + ?f) * 2 ^ (e + ?k - 52)" by (rule units_parts [OF d(1) f])
  also have "\<dots> = n * (2 ^ (52 - ?k) * 2 ^ (e + ?k - 52))" using lo by simp
  also have "\<dots> = n * 2 ^ e" using k52 assms(3) by (simp flip: power_add)
  finally show ?thesis using d by simp
qed

lemma dyadic_facts:
  assumes "n < 2 ^ 53" "52 \<le> e" "e < 1990"
  shows "is_finite (dyadic n e)" "\<not> sign_neg (dyadic n e)" "units (dyadic n e) = n * 2 ^ e"
proof -
  have "is_finite (dyadic n e) \<and> \<not> sign_neg (dyadic n e) \<and> units (dyadic n e) = n * 2 ^ e"
  proof (cases "n = 0")
    case True
    then show ?thesis by (simp add: dyadic_def units_def units_of_def fzero_def is_finite_def float_layout)
  next
    case False
    then show ?thesis using assms by (intro dyadic_normal) simp_all
  qed
  then show "is_finite (dyadic n e)" "\<not> sign_neg (dyadic n e)" "units (dyadic n e) = n * 2 ^ e" by simp_all
qed

lemma fmul_exact:
  fixes a b z :: "'w::len word ieee"
  assumes "is_finite a" "is_finite b" "is_finite z"
    and "units a * units b = units z * 2 ^ unit_exp LENGTH('w)" "sign_neg z = (sign_neg a \<noteq> sign_neg b)"
  shows "fmul a b = z"
  using finite_not_special [OF assms(1)] finite_not_special [OF assms(2)] assms(3-5)
  by (simp add: fmul_def round_float_exact)

lemma flit_dyadic:
  assumes "n < 2 ^ 53" "52 \<le> e" "e < 1990" "0 < q" "2 ^ 1074 = 2 ^ e * q"
  shows "flit n q = dyadic n e"
  unfolding flit_def
proof (rule round_float_exact)
  show "n * 2 ^ unit_exp LENGTH(64) = units (dyadic n e) * q"
    unfolding dyadic_facts(3) [OF assms(1-3)] using assms(5) by (simp add: unit_exp_def)
qed (use assms dyadic_facts in simp_all)

lemma fval_dyadic: "n < 2 ^ 53 \<Longrightarrow> 52 \<le> e \<Longrightarrow> e < 1990 \<Longrightarrow> fval (dyadic n e) = int n * 2 ^ e"
  by (simp add: fval_def dyadic_facts)

text \<open>The order of two dyadics of one exponent is that of their integers.\<close>

lemma dyadic_less_iff:
  assumes "m < 2 ^ 53" "n < 2 ^ 53" "52 \<le> e" "e < 1990"
  shows "flt (dyadic m e) (dyadic n e) \<longleftrightarrow> m < n"
proof -
  have "\<not> is_nan (dyadic m e)" "\<not> is_nan (dyadic n e)" using dyadic_facts(1) assms finite_not_special by blast+
  moreover have "fkey (dyadic m e) < fkey (dyadic n e) \<longleftrightarrow> fval (dyadic m e) < fval (dyadic n e)"
    using fval_le_iff [of "dyadic n e" "dyadic m e"] by linarith
  ultimately show ?thesis using assms by (simp add: flt_def fval_dyadic)
qed

section \<open>Doubling, and differences of close values\<close>

lemma ilog2_double: "0 < a \<Longrightarrow> b div 2 = a \<Longrightarrow> ilog2 b = Suc (ilog2 a)"
  by (subst ilog2.simps) auto

lemma round_half_even_scale: "0 < c \<Longrightarrow> round_half_even (c * p) (c * q) = round_half_even p q"
  by (simp add: round_half_even_def Let_def mod_mult_mult1)

lemma round_mag_double:
  assumes "2 ^ fb \<le> p div q"
  shows "round_mag fb im (2 * p) q \<le> round_mag fb im p q + 2 ^ fb"
proof -
  have a: "0 < p div q" using assms by (cases "p div q") simp_all
  have "2 * p div q div 2 = p div q" by (simp add: div_mult2_eq [symmetric] mult.commute [of q 2] div_mult_mult1)
  then have log: "ilog2 (2 * p div q) = Suc (ilog2 (p div q))" by (rule ilog2_double [OF a])
  have "fb \<le> ilog2 (p div q)"
  proof -
    have "2 ^ fb < (2 :: nat) ^ Suc (ilog2 (p div q))" using ilog2_bounds [OF a] assms by linarith
    then have "fb < Suc (ilog2 (p div q))" by (rule power_less_imp_less_exp [rotated]) simp
    then show ?thesis by simp
  qed
  then have e: "ilog2 (2 * p div q) - fb = Suc (ilog2 (p div q) - fb)" using log by simp
  have "round_half_even (2 * p) (q * 2 ^ Suc (ilog2 (p div q) - fb)) = round_half_even p (q * 2 ^ (ilog2 (p div q) - fb))"
    using round_half_even_scale [of 2 p "q * 2 ^ (ilog2 (p div q) - fb)"] by (simp add: mult.left_commute)
  then show ?thesis unfolding round_mag_def Let_def e by simp
qed

lemma units_of_double: "2 ^ fb \<le> m \<Longrightarrow> units_of fb (m + 2 ^ fb) = 2 * units_of fb m"
proof -
  assume "2 ^ fb \<le> m"
  then have "0 < m div 2 ^ fb" by (simp add: div_greater_zero_iff)
  then obtain E where E: "m div 2 ^ fb = Suc E" by (cases "m div 2 ^ fb") simp_all
  have "(m + 2 ^ fb) div 2 ^ fb = Suc (Suc E)" "(m + 2 ^ fb) mod 2 ^ fb = m mod 2 ^ fb"
    using E div_add_self2 [of "2 ^ fb" m] by simp_all
  then show ?thesis unfolding units_of_def Let_def E by simp
qed

lemma dyadic_representable:
  assumes "n < 2 ^ 53" "k \<le> 2045"
  shows "\<exists>z :: f64. is_finite z \<and> \<not> sign_neg z \<and> units z = n * 2 ^ k"
proof (cases "n * 2 ^ k < 2 ^ 53")
  case True
  let ?z = "mk_float False (n * 2 ^ k) :: f64"
  have m: "n * 2 ^ k < sign_weight 64" "n * 2 ^ k < inf_mag 64" using True by (simp_all add: float_layout)
  have "units_of 52 N = N" if "N < 2 ^ 53" for N
  proof (cases "N < 2 ^ 52")
    case False
    then have "N div 2 ^ 52 = 1" using that by (intro div_nat_eqI) simp_all
    moreover from this have "N mod 2 ^ 52 = N - 2 ^ 52" by (simp add: modulo_nat_def)
    ultimately show ?thesis using False by (simp add: units_of_def Let_def)
  qed (simp add: units_of_def Let_def)
  then show ?thesis using True m by (intro exI [of _ ?z]) (simp add: is_finite_def units_def frac_bits_def)
next
  case False
  then have n: "0 < n" by (cases n) simp_all
  have "2 ^ 53 \<le> n * 2 ^ k" using False by simp
  also have "\<dots> < 2 ^ Suc (ilog2 n) * 2 ^ k" using ilog2_bounds [OF n] by (intro mult_strict_right_mono) simp_all
  finally have "(2 :: nat) ^ 53 < 2 ^ (Suc (ilog2 n) + k)" by (simp only: power_add)
  then have "53 < Suc (ilog2 n) + k" by (rule power_less_imp_less_exp [rotated]) simp
  then show ?thesis using dyadic_normal [OF assms(1) n] assms(2) by (intro exI [of _ "dyadic n k"]) simp
qed

text \<open>The difference of two values within a factor of two is exact.\<close>

lemma units_shape: "\<exists>m k. units (x :: f64) = m * 2 ^ k \<and> m < 2 ^ 53 \<and> k = mag x div 2 ^ 52 - 1"
proof (cases "mag x div 2 ^ 52 = 0")
  case True
  then have "mag x < 2 ^ 52" by (simp add: div_eq_0_iff)
  then show ?thesis using True by (intro exI [of _ "mag x"] exI [of _ 0]) (simp add: units_def units_of_def frac_bits_def)
next
  case False
  have "mag x mod 2 ^ 52 < 2 ^ 52" by simp
  then show ?thesis using False
    by (intro exI [of _ "2 ^ 52 + mag x mod 2 ^ 52"] exI [of _ "mag x div 2 ^ 52 - 1"])
      (simp add: units_def units_of_def frac_bits_def)
qed

lemma close_difference:
  fixes x y :: f64
  assumes "is_finite x" "is_finite y" "mag y \<le> mag x" "units x \<le> 2 * units y"
  shows "\<exists>z :: f64. is_finite z \<and> \<not> sign_neg z \<and> units z = units x - units y"
proof -
  obtain m k where y: "units y = m * 2 ^ k" "m < 2 ^ 53" "k = mag y div 2 ^ 52 - 1" using units_shape by blast
  obtain m' k' where x: "units x = m' * 2 ^ k'" "k' = mag x div 2 ^ 52 - 1" using units_shape by blast
  have "k \<le> k'" unfolding y(3) x(2) using assms(3) by (intro diff_le_mono div_le_mono)
  then have x': "units x = m' * 2 ^ (k' - k) * 2 ^ k" unfolding x(1) by (simp flip: power_add)
  then have d: "units x - units y = (m' * 2 ^ (k' - k) - m) * 2 ^ k" unfolding y(1) by (simp add: diff_mult_distrib)
  have "units x - units y \<le> units y" using assms(4) by simp
  then have "m' * 2 ^ (k' - k) - m \<le> m" unfolding d unfolding y(1) by simp
  moreover have "k \<le> 2045"
  proof -
    have "mag y < 2047 * 2 ^ 52" using assms(2) by (simp add: is_finite_def float_layout)
    then have "mag y div 2 ^ 52 < 2047" by (rule less_mult_imp_div_less)
    then show ?thesis unfolding y(3) by simp
  qed
  ultimately show ?thesis using dyadic_representable [of "m' * 2 ^ (k' - k) - m" k] y(2) unfolding d by simp
qed

lemma fsub_close:
  fixes x y :: f64
  assumes "is_finite x" "is_finite y" "\<not> sign_neg x" "\<not> sign_neg y" "mag y \<le> mag x" "units x \<le> 2 * units y"
  shows "fval (fsub x y) = fval x - fval y" "is_finite (fsub x y)"
proof -
  obtain z :: f64 where z: "is_finite z" "\<not> sign_neg z" "units z = units x - units y"
    using close_difference [OF assms(1,2,5,6)] by blast
  have "units y \<le> units x" by (rule units_mono [OF assms(5)])
  then have v: "fval z = fval x - fval y" using z assms(3,4) by (simp add: fval_def)
  have key: "fkey (fsub x y) = fkey z" using fsub_finite(2) [OF assms(1,2)] srnd_fval [OF z(1)] v by simp
  then show "is_finite (fsub x y)" using z(1) by (simp add: finite_iff_key)
  show "fval (fsub x y) = fval x - fval y" using key v fval_le_iff [of z "fsub x y"] fval_le_iff [of "fsub x y" z] by simp
qed

end
