(* ===== verification/CandidatesLaws.thy ===== *)
theory CandidatesLaws
  imports Candidates FloatRepr
begin

text \<open>
  Properties of the candidate generators: the Latin hypercube is one in rounded arithmetic, and the
  perturbed candidates differ from their centre in few coordinates, inside the bounds.

  What the random source promises is a hypothesis: a unit value lies in the half-open unit interval,
  an index does not exceed its bound, a value between two bounds does not leave them.
\<close>

definition fair_source :: "'r cand_env \<Rightarrow> bool" where
  "fair_source env \<longleftrightarrow>
     (\<forall>r. is_finite (fst (gen_unit env r)) \<and> fle fzero (fst (gen_unit env r)) \<and> flt (fst (gen_unit env r)) one64) \<and>
     (\<forall>i r. fst (gen_upto env i r) \<le> i) \<and>
     (\<forall>lo hi r. flt lo hi \<longrightarrow> fle lo (fst (gen_between env lo hi r)) \<and> fle (fst (gen_between env lo hi r)) hi)"

section \<open>The strata\<close>

definition unit_one :: nat where
  "unit_one = 2 ^ 1074"

lemma unit_one_facts:
  "0 < unit_one" "2 ^ unit_exp LENGTH(64) = unit_one" "units one64 = unit_one" "2 ^ 52 * 2 ^ 53 \<le> unit_one"
proof -
  show "2 ^ 52 * 2 ^ 53 \<le> unit_one" unfolding unit_one_def power_add [symmetric] by (rule power_increasing) simp_all
  show "0 < unit_one" unfolding unit_one_def by (rule zero_less_power) simp
qed (simp_all add: unit_one_def unit_exp_def sample_units)

definition edge :: "nat \<Rightarrow> nat \<Rightarrow> f64" where
  "edge n k = fdiv (flit k 1) (flit n 1)"

lemma flit_nat:
  assumes "k < 2 ^ 53"
  shows "is_finite (flit k 1 :: f64)" "\<not> sign_neg (flit k 1 :: f64)" "units (flit k 1 :: f64) = k * unit_one"
proof -
  have "flit k 1 = dyadic k 1074" by (rule flit_dyadic [OF assms]) simp_all
  then show "is_finite (flit k 1 :: f64)" "\<not> sign_neg (flit k 1 :: f64)" "units (flit k 1 :: f64) = k * unit_one"
    using dyadic_facts [OF assms, of 1074] by (simp_all add: unit_one_def)
qed

lemma edge_mag:
  assumes "0 < n" "n < 2 ^ 53" "k \<le> n"
  shows "mag (edge n k) = round_mag 52 (inf_mag 64) (k * unit_one) n" "\<not> sign_neg (edge n k)" "is_finite (edge n k)"
proof -
  have k: "k < 2 ^ 53" using assms(2,3) by linarith
  note a = flit_nat [OF k] and b = flit_nat [OF assms(2)]
  have "units (flit n 1 :: f64) \<noteq> 0" using assms(1) unit_one_facts(1) b(3) by simp
  then have "mag (flit n 1 :: f64) \<noteq> 0" by (simp add: units_0_iff)
  then have e: "edge n k = round_float False (k * unit_one * unit_one) (n * unit_one)"
    using finite_not_special [OF a(1)] finite_not_special [OF b(1)] a(2,3) b(2,3)
    by (simp only: edge_def fdiv_def unit_one_facts if_False simp_thms Let_def)
  have "round_mag 52 (inf_mag 64) (k * unit_one * unit_one) (n * unit_one) = round_mag 52 (inf_mag 64) (k * unit_one) n"
    using assms(1) unit_one_facts(1) by (intro round_mag_eq) simp_all
  moreover have fit: "round_mag (frac_bits 64) (inf_mag 64) p q < sign_weight 64" for p q
    by (rule le_less_trans [OF round_mag_le_inf]) (simp add: float_layout)
  ultimately show m: "mag (edge n k) = round_mag 52 (inf_mag 64) (k * unit_one) n"
    by (simp add: e round_float_def) (simp add: frac_bits_def)
  show "\<not> sign_neg (edge n k)" by (simp add: e round_float_def fit)
  have "k * unit_one \<le> units_of 52 (mag one64) * n"
    using assms(3) unit_one_facts(3) by (simp add: units_def frac_bits_def)
  then have "mag (edge n k) \<le> mag one64"
    unfolding m using assms(1) by (intro round_mag_le) (simp_all add: sample_mags float_layout)
  then show "is_finite (edge n k)" using sample_finite(1) by (simp add: is_finite_def)
qed

lemma edge_values:
  assumes "0 < n" "n < 2 ^ 53" "k < n"
  shows "fval (fsub (edge n (k + 1)) (edge n k)) = fval (edge n (k + 1)) - fval (edge n k)"
    "is_finite (fsub (edge n (k + 1)) (edge n k))" "fval (edge n k) \<le> fval (edge n (k + 1))"
proof -
  let ?RM = "round_mag 52 (inf_mag 64)"
  have le: "k \<le> n" "k + 1 \<le> n" using assms(3) by simp_all
  note s = edge_mag [OF assms(1,2) le(1)] and e = edge_mag [OF assms(1,2) le(2)]
  have up: "mag (edge n k) \<le> mag (edge n (k + 1))"
    unfolding s(1) e(1) using assms(1) by (intro round_mag_mono) simp_all
  then show "fval (edge n k) \<le> fval (edge n (k + 1))"
    using s(2) e(2) units_mono by (simp add: fval_def)
  show "fval (fsub (edge n (k + 1)) (edge n k)) = fval (edge n (k + 1)) - fval (edge n k)"
    "is_finite (fsub (edge n (k + 1)) (edge n k))"
  proof (atomize (full), cases "k = 0")
    case True
    then have "mag (edge n k) = 0" using s(1) by simp
    then have z: "fval (edge n k) = 0" by (simp add: fval_def units_0_iff)
    then have "fkey (fsub (edge n (k + 1)) (edge n k)) = fkey (edge n (k + 1))"
      using fsub_finite(2) [OF e(3) s(3)] srnd_fval [OF e(3)] by simp
    then show "fval (fsub (edge n (k + 1)) (edge n k)) = fval (edge n (k + 1)) - fval (edge n k) \<and>
        is_finite (fsub (edge n (k + 1)) (edge n k))"
      using z e(3) fval_le_iff [of "edge n (k + 1)" "fsub (edge n (k + 1)) (edge n k)"]
        fval_le_iff [of "fsub (edge n (k + 1)) (edge n k)" "edge n (k + 1)"] by (simp add: finite_iff_key)
  next
    case False
    have "2 ^ 52 * n \<le> unit_one" using unit_one_facts(4) assms(2) by (meson le_trans less_imp_le mult_le_mono2)
    also have "\<dots> \<le> k * unit_one" using False by simp
    finally have big: "2 ^ 52 * n \<le> k * unit_one" .
    have "?RM ((k + 1) * unit_one) n \<le> ?RM (2 * (k * unit_one)) n"
      using assms(1) False by (intro round_mag_mono) (simp_all add: algebra_simps)
    also have "\<dots> \<le> ?RM (k * unit_one) n + 2 ^ 52"
      using big assms(1) by (intro round_mag_double) (simp add: less_eq_div_iff_mult_less_eq)
    finally have m: "mag (edge n (k + 1)) \<le> mag (edge n k) + 2 ^ 52" unfolding s(1) e(1) .
    have "units_of 52 (2 ^ 52) * n \<le> k * unit_one" using big by (simp add: units_of_def)
    then have n52: "2 ^ 52 \<le> mag (edge n k)"
      unfolding s(1) using assms(1) by (intro round_mag_ge) (simp_all add: float_layout)
    have "units (edge n (k + 1)) \<le> units_of 52 (mag (edge n k) + 2 ^ 52)"
      using units_of_mono [OF m, of 52] by (simp add: units_def frac_bits_def)
    also have "\<dots> = 2 * units (edge n k)" using units_of_double [OF n52] by (simp add: units_def frac_bits_def)
    finally show "fval (fsub (edge n (k + 1)) (edge n k)) = fval (edge n (k + 1)) - fval (edge n k) \<and>
        is_finite (fsub (edge n (k + 1)) (edge n k))"
      using fsub_close [OF e(3) s(3) e(2) s(2) up] by blast
  qed
qed

lemma stratum_point_between:
  assumes "0 < n" "n < 2 ^ 53" "k < n" "is_finite u" "fle fzero u" "flt u one64"
  shows "fle (edge n k) (stratum_point n k u)" "fle (stratum_point n k u) (edge n (k + 1))"
    "is_finite (stratum_point n k u)"
proof -
  let ?s = "edge n k" and ?e = "edge n (k + 1)" and ?d = "fsub (edge n (k + 1)) (edge n k)"
  let ?t = "fadd ?s (fmul u ?d)"
  note v = edge_values [OF assms(1-3)]
  have le: "k \<le> n" "k + 1 \<le> n" using assms(3) by simp_all
  note s = edge_mag(3) [OF assms(1,2) le(1)] and e = edge_mag(3) [OF assms(1,2) le(2)]
  have d: "0 \<le> fval ?d" using v by simp
  have "fval one64 = int unit_one" using unit_one_facts(3) sample_signs(1) by (simp add: fval_def)
  moreover have "fval u < fval one64" using assms(6) fval_le_iff [of one64 u] by (auto simp: flt_def)
  moreover have u0: "0 \<le> fval u" using assms(5) by (simp add: fle_def fval_sign_iff)
  ultimately have u1: "fval u * fval ?d \<le> fval ?d * int unit_one" using d by (simp add: mult.commute mult_right_mono)
  note p = fmul_finite [OF assms(4) v(2), unfolded unit_one_facts]
  have "srnd 64 (fval u * fval ?d) unit_one \<le> srnd 64 (fval ?d) 1"
    using u1 unit_one_facts(1) by (intro srnd_mono) simp_all
  then have hi: "fkey (fmul u ?d) \<le> fkey ?d" using p(2) srnd_fval [OF v(2)] by simp
  moreover have lo: "0 \<le> fkey (fmul u ?d)" using p(2) srnd_sign(2) [of "fval u * fval ?d"] u0 d by simp
  ultimately have pf: "is_finite (fmul u ?d)" using v(2) by (simp add: finite_iff_key)
  have pv: "0 \<le> fval (fmul u ?d)" "fval (fmul u ?d) \<le> fval ?d" using hi lo by (simp_all add: fval_le_iff fval_sign_iff)
  note t = fadd_finite [OF s pf]
  have "srnd 64 (fval ?s) 1 \<le> srnd 64 (fval ?s + fval (fmul u ?d)) 1"
    "srnd 64 (fval ?s + fval (fmul u ?d)) 1 \<le> srnd 64 (fval ?e) 1"
    using pv v(1) by (intro srnd_mono; simp)+
  then have keys: "fkey ?s \<le> fkey ?t" "fkey ?t \<le> fkey ?e" using t(2) srnd_fval [OF s] srnd_fval [OF e] by simp_all
  have sp: "stratum_point n k u = ?t" by (simp add: stratum_point_def edge_def Let_def)
  show "fle ?s (stratum_point n k u)" "fle (stratum_point n k u) ?e"
    using keys t(1) finite_not_special [OF s] finite_not_special [OF e] by (simp_all add: fle_def sp)
  show "is_finite (stratum_point n k u)" using keys s e by (simp add: sp finite_iff_key)
qed

section \<open>The shuffle and the columns\<close>

lemma fisher_yates_mset:
  assumes "fair_source env" "\<forall>i\<in>set is. i < length perm"
  shows "mset (fst (fisher_yates env is perm rng)) = mset perm"
  using assms(2)
proof (induction "is" arbitrary: perm rng)
  case (Cons i "is")
  let ?j = "fst (gen_upto env i rng)"
  have "?j \<le> i" using assms(1) by (simp add: fair_source_def)
  then have j: "?j < length perm" "i < length perm" using Cons.prems by auto
  have "mset (swap_at i ?j perm) = mset perm" unfolding swap_at_def by (rule mset_swap [OF j])
  moreover have "\<forall>k\<in>set is. k < length (swap_at i ?j perm)" using Cons.prems by (simp add: swap_at_def)
  ultimately show ?case using Cons.IH by (simp add: split_def Let_def)
qed simp

definition drawn_in :: "nat \<Rightarrow> f64 \<Rightarrow> f64 \<Rightarrow> nat \<Rightarrow> f64 \<Rightarrow> bool" where
  "drawn_in n lower width k v \<longleftrightarrow>
     (\<exists>u. is_finite u \<and> fle fzero u \<and> flt u one64 \<and> v = fadd lower (fmul (stratum_point n k u) width))"

lemma lhd_values_drawn:
  assumes "fair_source env"
  shows "list_all2 (drawn_in n lower width) bins (fst (lhd_values env n lower width bins rng))"
proof (induction bins arbitrary: rng)
  case (Cons k bins)
  then show ?case using assms by (auto simp: split_def Let_def drawn_in_def fair_source_def)
qed simp

definition stratified :: "nat \<Rightarrow> f64 list \<Rightarrow> bool" where
  "stratified n col \<longleftrightarrow>
     (\<exists>perm. mset perm = mset [0..<n] \<and> list_all2 (\<lambda>k v. fle (edge n k) v \<and> fle v (edge n (k + 1))) perm col)"

lemma unit_key: "is_finite t \<Longrightarrow> fkey (fadd fzero (fmul t (fsub (flit 1 1) fzero))) = fkey t
    \<and> \<not> is_nan (fadd fzero (fmul t (fsub (flit 1 1) fzero)))" for t :: f64
proof -
  assume t: "is_finite t"
  have one: "flit 1 1 = one64"
    unfolding flit_def by (rule round_float_exact) (simp_all only: sample_finite sample_signs sample_units unit_exp_def, simp_all)
  have z: "is_finite (fzero :: f64)" by (simp add: is_finite_def fzero_def float_layout)
  let ?w = "fsub one64 fzero"
  note w = fsub_finite [OF sample_finite(1) z]
  have wk: "fkey ?w = fkey one64" using w(2) srnd_fval [OF sample_finite(1)] by simp
  then have wf: "is_finite ?w" using sample_finite(1) by (simp only: finite_iff_key)
  have wv: "fval ?w = int unit_one"
    using wk fval_le_iff [of ?w one64] fval_le_iff [of one64 ?w] unit_one_facts(3) sample_signs(1) by (simp add: fval_def)
  note p = fmul_finite [OF t wf, unfolded unit_one_facts wv]
  have "srnd 64 (fval t * int unit_one) unit_one = srnd 64 (fval t) 1"
    using unit_one_facts(1) by (intro order.antisym srnd_mono) simp_all
  then have pk: "fkey (fmul t ?w) = fkey t" using p(2) srnd_fval [OF t] by simp
  then have pf: "is_finite (fmul t ?w)" using t by (simp only: finite_iff_key)
  show ?thesis unfolding one using fadd_finite [OF z pf] srnd_fval [OF pf] pk by simp
qed

lemma lhd_column_stratified:
  assumes "fair_source env" "n < 2 ^ 53"
  shows "stratified n (fst (lhd_column env n (fzero, flit 1 1) rng))"
proof -
  let ?f = "fisher_yates env (rev [1..<n]) [0..<n] rng"
  let ?v = "fst (lhd_values env n fzero (fsub (flit 1 1) fzero) (fst ?f) (snd ?f))"
  have perm: "mset (fst ?f) = mset [0..<n]" by (rule fisher_yates_mset [OF assms(1)]) auto
  have "list_all2 (\<lambda>k v. fle (edge n k) v \<and> fle v (edge n (k + 1))) (fst ?f) ?v"
  proof (rule list.rel_mono_strong [OF lhd_values_drawn [OF assms(1)]])
    fix k v assume k: "k \<in> set (fst ?f)" and "drawn_in n fzero (fsub (flit 1 1) fzero) k v"
    then obtain u where u: "is_finite u" "fle fzero u" "flt u one64"
      and v: "v = fadd fzero (fmul (stratum_point n k u) (fsub (flit 1 1) fzero))" by (auto simp: drawn_in_def)
    have "k \<in> set [0..<n]" using k mset_eq_setD [OF perm] by blast
    then have n: "0 < n" "k < n" by auto
    note t = stratum_point_between [OF n(1) assms(2) n(2) u]
    show "fle (edge n k) v \<and> fle v (edge n (k + 1))"
      using t(1,2) unit_key [OF t(3)] unfolding v by (simp add: fle_def)
  qed
  then show ?thesis using perm by (auto simp: stratified_def lhd_column_def split_def Let_def)
qed

lemma lhd_columns_spec:
  assumes "fair_source env" "n < 2 ^ 53"
  shows "length (fst (lhd_columns env n (replicate d (fzero, flit 1 1)) rng)) = d \<and>
    list_all (stratified n) (fst (lhd_columns env n (replicate d (fzero, flit 1 1)) rng))"
  by (induction d arbitrary: rng) (simp_all add: split_def Let_def lhd_column_stratified [OF assms] del: One_nat_def)

text \<open>C39: The Latin hypercube is one, in rounded arithmetic. For fewer than \<open>2 ^ 53\<close> samples of the unit cube
  every dimension is divided into as many strata as there are samples, and the samples can be
  numbered so that each stratum has exactly one of them, on or between its rounded edges.\<close>

theorem lhd_one_sample_per_stratum:
  assumes "fair_source env" "n < 2 ^ 53"
  shows "\<exists>rows rng'. generate_lhd env n (replicate d (fzero, flit 1 1)) rng = (rows, rng') \<and> length rows = n \<and>
    list_all (\<lambda>r. length r = d) rows \<and> (\<forall>j<d. stratified n (map (\<lambda>r. r ! j) rows))"
proof -
  obtain cols rng' where cols: "lhd_columns env n (replicate d (fzero, flit 1 1)) rng = (cols, rng')" by fastforce
  then have c: "length cols = d" "list_all (stratified n) cols" using lhd_columns_spec [OF assms, of d rng] by simp_all
  let ?rows = "map (\<lambda>i. map (\<lambda>c. c ! i) cols) [0..<n]"
  have "stratified n (map (\<lambda>r. r ! j) ?rows)" if j: "j < d" for j
  proof -
    have s: "stratified n (cols ! j)" using c j by (simp add: list_all_length)
    then obtain perm where "mset perm = mset [0..<n]"
      "list_all2 (\<lambda>k v. fle (edge n k) v \<and> fle v (edge n (k + 1))) perm (cols ! j)" by (auto simp: stratified_def)
    then have "length (cols ! j) = n"
      using list_all2_lengthD [of _ perm "cols ! j"] mset_eq_length [of perm "[0..<n]"] by (simp del: mset_upt)
    then have "map (\<lambda>r. r ! j) ?rows = cols ! j" using c(1) j by (intro nth_equalityI) simp_all
    then show ?thesis using s by simp
  qed
  then show ?thesis using cols c(1) by (simp add: generate_lhd_def list_all_iff)
qed

section \<open>Perturbed candidates\<close>

lemma cdf_search_range: "lo \<le> hi \<Longrightarrow> lo \<le> cdf_search cdf r lo hi \<and> cdf_search cdf r lo hi \<le> hi"
proof (induction cdf r lo hi rule: cdf_search.induct)
  case (1 cdf r lo hi)
  show ?case
  proof (cases "lo < hi")
    case False
    then show ?thesis using "1.prems" by (subst (1 2) cdf_search.simps) simp
  next
    case True
    let ?mid = "lo + (hi - lo) div 2"
    have mid: "?mid < hi" "lo \<le> ?mid" using True by linarith+
    show ?thesis
    proof (cases "fle r (cdf ! ?mid)")
      case t: True
      then show ?thesis using "1.IH"(1) [OF True refl] mid True by (subst (1 2) cdf_search.simps) simp
    next
      case f: False
      then show ?thesis using "1.IH"(2) [OF True refl] mid True by (subst (1 2) cdf_search.simps) simp
    qed
  qed
qed

text \<open>Over a cumulated distribution that does not decrease the search finds the first index that reaches
  the value, or the last index.\<close>

lemma cdf_search_first:
  assumes "\<forall>i j. i \<le> j \<and> j < length cdf \<longrightarrow> fle (cdf ! i) (cdf ! j)" "\<not> is_nan r"
    and "lo \<le> hi" "hi < length cdf" "\<forall>i<lo. \<not> fle r (cdf ! i)"
  shows "(\<forall>i<cdf_search cdf r lo hi. \<not> fle r (cdf ! i)) \<and>
    (cdf_search cdf r lo hi = hi \<or> fle r (cdf ! cdf_search cdf r lo hi))"
  using assms(3-)
proof (induction "hi - lo" arbitrary: lo hi rule: less_induct)
  case less
  let ?mid = "lo + (hi - lo) div 2"
  show ?case
  proof (cases "lo < hi")
    case False
    then show ?thesis using less.prems by (subst (1 2 3) cdf_search.simps) simp
  next
    case True
    have mid: "?mid < hi" "lo \<le> ?mid" using True by linarith+
    show ?thesis
    proof (cases "fle r (cdf ! ?mid)")
      case t: True
      have "cdf_search cdf r lo hi = cdf_search cdf r lo ?mid" using t True by (subst cdf_search.simps) simp
      then show ?thesis using less.hyps [of ?mid lo] mid less.prems t by auto
    next
      case f: False
      have step: "cdf_search cdf r lo hi = cdf_search cdf r (?mid + 1) hi" using f True by (subst cdf_search.simps) simp
      have "\<not> fle r (cdf ! i)" if "i < ?mid + 1" for i
      proof
        assume "fle r (cdf ! i)"
        moreover have "fle (cdf ! i) (cdf ! ?mid)" using assms(1) that mid less.prems(2) by simp
        ultimately show False using f fle_trans by blast
      qed
      then show ?thesis unfolding step using less.hyps [of hi "?mid + 1"] mid less.prems(1,2) by auto
    qed
  qed
qed

definition near_centre :: "nat \<Rightarrow> f64 list \<Rightarrow> f64 list \<Rightarrow> f64 list \<Rightarrow> f64 list \<Rightarrow> bool" where
  "near_centre k center lower upper x \<longleftrightarrow> length x = length center \<and>
     card {j. j < length center \<and> x ! j \<noteq> center ! j} \<le> k \<and>
     (\<forall>j<length center. x ! j = center ! j \<or> fle (lower ! j) (x ! j) \<and> fle (x ! j) (upper ! j))"

definition open_box :: "f64 list \<Rightarrow> f64 list \<Rightarrow> bool" where
  "open_box lower upper \<longleftrightarrow> list_all2 (\<lambda>lo hi. flt lo hi \<and> is_finite (fsub hi lo)) lower upper"

lemma near_centre_step:
  assumes "near_centre k center lower upper x" "d < length center" "fle (lower ! d) v" "fle v (upper ! d)"
  shows "near_centre (Suc k) center lower upper (x[d := v])"
proof -
  let ?S = "{j. j < length center \<and> x ! j \<noteq> center ! j}"
  have "{j. j < length center \<and> x[d := v] ! j \<noteq> center ! j} \<subseteq> insert d ?S"
    by (auto simp: nth_list_update split: if_splits)
  then have "card {j. j < length center \<and> x[d := v] ! j \<noteq> center ! j} \<le> card (insert d ?S)" by (rule card_mono [rotated]) simp
  also have "\<dots> \<le> Suc (card ?S)" by (simp add: card_insert_if)
  also have "\<dots> \<le> Suc k" using assms(1) by (simp add: near_centre_def)
  finally have "card {j. j < length center \<and> x[d := v] ! j \<noteq> center ! j} \<le> Suc k" .
  then show ?thesis using assms by (auto simp: near_centre_def nth_list_update)
qed

lemma perturb_axes_spec:
  assumes "fair_source env" "open_box lower upper" "length lower = length center" "center \<noteq> []"
    and "near_centre k center lower upper x"
  shows "\<exists>y rng'. perturb_axes env cdf lower upper n x rng = Inr (y, rng') \<and> near_centre (k + n) center lower upper y"
  using assms(5)
proof (induction n arbitrary: x k rng)
  case (Suc n)
  have "length lower = length upper" using assms(2) unfolding open_box_def by (rule list_all2_lengthD)
  moreover have "0 < length center" using assms(4) by blast
  ultimately have len: "length x = length center" "length upper = length center" "0 < length center"
    using Suc.prems assms(3) by (simp_all add: near_centre_def)
  let ?d = "raasp_dim_from_cdf cdf (fst (gen_unit env rng)) (length x)"
  have d: "?d < length center" using cdf_search_range [of 0 "length center - 1"] len unfolding raasp_dim_from_cdf_def len(1)
    by (metis One_nat_def Suc_pred le_imp_less_Suc zero_le)
  then have box: "flt (lower ! ?d) (upper ! ?d)" "is_finite (fsub (upper ! ?d) (lower ! ?d))"
    using assms(2,3) by (auto simp: open_box_def list_all2_conv_all_nth)
  obtain v rng2 where v: "gen_between env (lower ! ?d) (upper ! ?d) (snd (gen_unit env rng)) = (v, rng2)" by fastforce
  have "fle (lower ! ?d) v" "fle v (upper ! ?d)" using assms(1) box(1) v unfolding fair_source_def by (metis fst_conv)+
  then have "near_centre (Suc k) center lower upper (x[?d := v])" by (rule near_centre_step [OF Suc.prems d])
  from Suc.IH [OF this, of rng2] show ?case using d len assms(3) box v by (simp add: split_def Let_def sample_between_def)
qed simp

lemma repeat_rows_spec:
  assumes "\<And>r. \<exists>x r'. f r = Inr (x, r') \<and> P x"
  shows "\<exists>xs r'. repeat_rows n f r = Inr (xs, r') \<and> length xs = n \<and> list_all P xs"
proof (induction n arbitrary: r)
  case (Suc n)
  obtain x r1 where x: "f r = Inr (x, r1)" "P x" using assms by blast
  obtain xs r2 where "repeat_rows n f r1 = Inr (xs, r2)" "length xs = n" "list_all P xs" using Suc.IH by blast
  then show ?case using x by simp
qed simp

text \<open>Perturbed candidates stay near their centre. In a box with an interior every candidate equals the
  centre except in at most as many coordinates as are perturbed (at least one), and those lie
  between the bounds; the call does not fail.\<close>

theorem raasp_perturbs_few_axes:
  assumes "fair_source env" "open_box lower upper" "length lower = length center" "center \<noteq> []"
    and "\<forall>ls. lengthscales = Some ls \<longrightarrow> length ls = length center"
  shows "\<exists>rows rng'. generate_raasp env center lengthscales lower upper n pert rng = Inr (rows, rng') \<and>
    length rows = n \<and> list_all (near_centre (max pert 1) center lower upper) rows"
proof -
  have probs: "\<not> length (raasp_probs env (length center) lengthscales) < length center"
    using assms(5) by (auto simp: raasp_probs_def Let_def split: option.splits)
  have "near_centre 0 center lower upper center" by (simp add: near_centre_def)
  note one = perturb_axes_spec [OF assms(1-4) this, simplified]
  show ?thesis
    using repeat_rows_spec [where P = "near_centre (max pert 1) center lower upper" and f =
      "perturb_axes env (running_sums fzero (take (length center) (raasp_probs env (length center) lengthscales))) lower upper (max pert 1) center"]
      one probs by (simp add: generate_raasp_def Let_def)
qed

section \<open>Instances\<close>

definition plain_source :: "unit cand_env" where
  "plain_source = \<lparr>gen_unit = \<lambda>u. (fzero, u), gen_upto = \<lambda>i u. (0, u), gen_between = \<lambda>lo hi u. (lo, u),
     fill_word = \<lambda>u. (0, u), sobol_point = \<lambda>_ _. None, array_sum = foldl fadd fzero\<rparr>"

lemma plain_zero_one: "is_finite (fzero :: f64)" "\<not> is_nan (fzero :: f64)" "flt fzero one64" "is_finite (fsub one64 fzero)"
proof -
  show z: "is_finite (fzero :: f64)" by (simp add: is_finite_def fzero_def float_layout)
  then show "\<not> is_nan (fzero :: f64)" using finite_not_special by blast
  then show "flt fzero one64"
    using finite_not_special [OF sample_finite(1)] by (simp add: flt_def fkey_def [of one64] sample_mags sample_signs)
  have "fkey (fsub one64 fzero) = fkey one64"
    using fsub_finite(2) [OF sample_finite(1) z] srnd_fval [OF sample_finite(1)] by simp
  then show "is_finite (fsub one64 fzero)" using sample_finite(1) by (simp only: finite_iff_key)
qed

lemma plain_source_fair: "fair_source plain_source"
  using plain_zero_one by (auto simp: fair_source_def plain_source_def fle_def flt_def)

theorem lhd_one_sample_per_stratum_witness:
  "\<exists>rows rng'. generate_lhd plain_source 3 (replicate 2 (fzero, flit 1 1)) () = (rows, rng') \<and> length rows = 3 \<and>
    stratified 3 (map (\<lambda>r. r ! 1) rows)"
  using lhd_one_sample_per_stratum [OF plain_source_fair, of 3 2 "()"] by fastforce

theorem raasp_perturbs_few_axes_witness:
  "\<exists>rows rng'. generate_raasp plain_source [half64, half64] None [fzero, fzero] [one64, one64] 4 1 () = Inr (rows, rng') \<and>
    length rows = 4 \<and> list_all (near_centre 1 [half64, half64] [fzero, fzero] [one64, one64]) rows"
  using raasp_perturbs_few_axes [OF plain_source_fair, of "[fzero, fzero]" "[one64, one64]" "[half64, half64]" None 4 1 "()"]
    plain_zero_one by (simp add: open_box_def)

end
