(* ===== verification/Neighbors.thy ===== *)
theory Neighbors
  imports EnnModel
begin

text \<open>
  Finding the neighbours of a query for the posterior of the ENN model:
  \<open>rust/crates/ennx/src/posterior/neighbor_dist.rs\<close>, \<open>posterior/tie_break.rs\<close>, the searches of
  \<open>posterior/neighbor.rs\<close> and \<open>index_search\<close> of \<open>posterior.rs\<close>, in a build without the GPU features.

  A panic is the error \<open>EPanic\<close>. The branches that the code never takes (the distance matrix for
  all rows, the selection without tie break) are left out. \<open>partition_point\<close> is used on distances in
  order, where it counts the leading ones below the cut.
\<close>

definition expected :: "ENNError + 'a \<Rightarrow> ENNError + 'a" where
  "expected r = (case r of Inl e \<Rightarrow> Inl EPanic | Inr v \<Rightarrow> Inr v)"

section \<open>Distances\<close>

definition posterior_row_sq_l2 :: "f64 list \<Rightarrow> f64 list \<Rightarrow> bool \<Rightarrow> f64 list \<Rightarrow> f64" where
  "posterior_row_sq_l2 x y scale_x scale =
     fmax (foldl (\<lambda>acc d. fadd acc (fmul d d)) fzero
       (if scale_x then map2 (\<lambda>(a, s) b. fsub (fdiv a s) (fdiv b s)) (zip x scale) y else map2 fsub x y)) fzero"

definition row_dist2s_for_query :: "'f EpistemicNearestNeighbors \<Rightarrow> f64 list \<Rightarrow> ENNError + f64 list" where
  "row_dist2s_for_query m q =
     map_res (\<lambda>j. rbind (expected (eb_row_x j (em_backend m))) (\<lambda>t. Inr (posterior_row_sq_l2 q t (em_scale_x m) (em_x_scale m))))
       [0..<em_num_obs m]"

text \<open>The rows that a matrix of labels names; those of a disk backend are gathered once.\<close>

definition neighbor_rows :: "'f EpistemicNearestNeighbors \<Rightarrow> int list list \<Rightarrow> ENNError + (nat \<Rightarrow> ENNError + f64 list)" where
  "neighbor_rows m idx = (case em_backend m of
      InMemory b \<Rightarrow> Inr (\<lambda>i. row_vec i (im_x b))
    | Disk h \<Rightarrow>
        let unique = sort (remdups (map nat (filter (\<lambda>i. i \<ge> 0) (concat idx)))) in
        if unique = [] then Inr (\<lambda>i. Inl EPanic)
        else rbind (expected (disk_rows_at unique h)) (\<lambda>(x, y, v). Inr (\<lambda>i. ok_or (map_of (zip unique (snd x)) i) EPanic)))"

definition dist2s_for_neighbor_indices ::
    "'f EpistemicNearestNeighbors \<Rightarrow> ematrix \<Rightarrow> int list list \<Rightarrow> ENNError + f64 list list" where
  "dist2s_for_neighbor_indices m x idx =
     rbind (neighbor_rows m idx) (\<lambda>row_of.
       map_res (\<lambda>(q, ls). map_res (\<lambda>i. if i < 0 then Inr infinity
           else rbind (row_of (nat i)) (\<lambda>t. Inr (posterior_row_sq_l2 q t (em_scale_x m) (em_x_scale m)))) ls)
         (zip (snd x) idx))"

section \<open>Ties\<close>

definition pair_le :: "f64 \<times> int \<Rightarrow> f64 \<times> int \<Rightarrow> bool" where
  "pair_le a b \<longleftrightarrow> total_key (fst a) < total_key (fst b) \<or> total_key (fst a) = total_key (fst b) \<and> snd a \<le> snd b"

definition faiss_pairs_from_row :: "f64 list \<Rightarrow> int list \<Rightarrow> (f64 \<times> int) list" where
  "faiss_pairs_from_row ds ls = sort_le pair_le (filter (\<lambda>(d, t). t \<ge> 0) (zip ds ls))"

definition cut_point :: "f64 \<Rightarrow> (f64 \<times> int) list \<Rightarrow> nat" where
  "cut_point d_cut pairs = length (takeWhile (\<lambda>p. flt (fst p) d_cut) pairs)"

definition faiss_pool_needs_tie_resolution :: "(f64 \<times> int) list \<Rightarrow> nat \<Rightarrow> bool" where
  "faiss_pool_needs_tie_resolution pairs k \<longleftrightarrow>
     \<not> (k < 2 \<or> length pairs < k) \<and> cut_point (fst (pairs ! (k - 1))) (take k pairs) < k - 1"

definition kth_smallest :: "f64 list \<Rightarrow> nat \<Rightarrow> f64" where
  "kth_smallest ds k = sort_le (\<lambda>a b. total_key a \<le> total_key b) ds ! (k - 1)"

definition faiss_pool_needs_full_row_scan_from_row :: "f64 list \<Rightarrow> nat \<Rightarrow> bool" where
  "faiss_pool_needs_full_row_scan_from_row ds k \<longleftrightarrow> \<not> (k = 0 \<or> length ds \<le> k) \<and>
     length (filter (\<lambda>d. total_key d \<le> total_key (kth_smallest ds k)) ds) > k"

definition index_le :: "f64 list \<Rightarrow> nat \<Rightarrow> nat \<Rightarrow> bool" where
  "index_le ds a b \<longleftrightarrow> total_key (ds ! a) < total_key (ds ! b) \<or> total_key (ds ! a) = total_key (ds ! b) \<and> a \<le> b"

definition topk_indices_from_row_dists :: "f64 list \<Rightarrow> nat \<Rightarrow> ENNError + nat list" where
  "topk_indices_from_row_dists ds k =
     (if k = 0 then Inr []
      else if length ds < k then Inl EPanic
      else let near = filter (\<lambda>i. total_key (ds ! i) \<le> total_key (kth_smallest ds k)) [0..<length ds] in
        Inr (if length near \<le> k then sort_le (index_le ds) near else take k (sort_le (index_le ds) near)))"

definition apply_index_tie_break_at_cutoff :: "(f64 \<times> int) list \<Rightarrow> nat \<Rightarrow> (f64 \<times> int) list" where
  "apply_index_tie_break_at_cutoff pairs k =
     (if k = 0 then pairs
      else let start = cut_point (fst (pairs ! (k - 1))) (take k pairs)
        in take start pairs @ sort_le (\<lambda>a b. snd a \<le> snd b) (drop start (take k pairs)) @ drop k pairs)"

definition resolve_pool_tie_break_at_cutoff :: "(f64 \<times> int) list \<Rightarrow> nat \<Rightarrow> (f64 \<times> int) list" where
  "resolve_pool_tie_break_at_cutoff pairs k =
     (if faiss_pool_needs_tie_resolution pairs k then sort_le pair_le (apply_index_tie_break_at_cutoff pairs k) else pairs)"

definition boundary_tie :: "(f64 \<times> int) list \<Rightarrow> nat \<Rightarrow> bool" where
  "boundary_tie pairs k \<longleftrightarrow> length pairs > k \<and> total_key (fst (pairs ! (k - 1))) = total_key (fst (pairs ! k))"

text \<open>The chosen pairs, if the tie is resolved in the pool.\<close>

definition try_resolve_boundary_tie_in_pool :: "(f64 \<times> int) list \<Rightarrow> nat \<Rightarrow> (f64 \<times> int) list option" where
  "try_resolve_boundary_tie_in_pool pairs k =
     (if k = 0 \<or> \<not> boundary_tie pairs k then None
      else let cut = total_key (fst (pairs ! (k - 1)));
               below = filter (\<lambda>p. total_key (fst p) < cut) pairs;
               at_cut = filter (\<lambda>p. total_key (fst p) = cut) pairs
        in if length below + length at_cut \<le> k then None
           else Some (sort_le pair_le (below @ take (k - length below) (sort_le (\<lambda>a b. snd a \<le> snd b) at_cut))))"

text \<open>The pairs of a query and whether all its rows have to be scanned instead.\<close>

definition finalize_faiss_pool_topk ::
    "'f EpistemicNearestNeighbors \<Rightarrow> f64 list \<Rightarrow> (f64 \<times> int) list \<Rightarrow> nat \<Rightarrow> bool \<Rightarrow> ENNError + bool \<times> (f64 \<times> int) list" where
  "finalize_faiss_pool_topk m q pairs k tie_break =
     (let scan = (\<lambda>ps. rbind (row_dist2s_for_query m q) (\<lambda>ds.
            if faiss_pool_needs_full_row_scan_from_row ds k then Inr (True, pairs)
            else Inr (False, resolve_pool_tie_break_at_cutoff ps k)))
      in if \<not> tie_break then Inr (False, take k pairs)
         else if boundary_tie pairs k
         then (case try_resolve_boundary_tie_in_pool pairs k of
                 Some ps \<Rightarrow> Inr (False, ps)
               | None \<Rightarrow> scan (take k pairs))
         else if faiss_pool_needs_tie_resolution (take k pairs) k then scan (take k pairs)
         else Inr (False, take k pairs))"

section \<open>Searching\<close>

definition padded :: "nat \<Rightarrow> (f64 \<times> int) list \<Rightarrow> hits" where
  "padded n pairs = (map fst pairs @ replicate (n - length pairs) infinity, map snd pairs @ replicate (n - length pairs) (- 1))"

definition query_topk ::
    "'f EpistemicNearestNeighbors \<Rightarrow> nat \<Rightarrow> nat \<Rightarrow> bool \<Rightarrow> f64 list \<times> f64 list \<times> int list \<Rightarrow> ENNError + hits" where
  "query_topk m search_k k tie_break = (\<lambda>(q, ds, ls).
     rbind (finalize_faiss_pool_topk m q (faiss_pairs_from_row ds ls) k tie_break) (\<lambda>(scan, pairs).
       if \<not> scan then Inr (padded search_k pairs)
       else rbind (row_dist2s_for_query m q) (\<lambda>all.
            rbind (topk_indices_from_row_dists all k) (\<lambda>best. Inr (padded search_k (map (\<lambda>t. (all ! t, int t)) best))))))"

definition exact_f64_batch_topk ::
    "('f, 'r) model_env \<Rightarrow> 'f EpistemicNearestNeighbors \<Rightarrow> ematrix \<Rightarrow> int \<Rightarrow> bool \<Rightarrow> bool
      \<Rightarrow> ((ENNError + hits list) \<times> 'f EpistemicNearestNeighbors) option" where
  "exact_f64_batch_topk env m x k0 exclude tie_break =
     (let n_train = em_num_obs m; search_k = as_usize k0; k = min search_k n_train in
      if k = 0
      then Some (Inr (drop_nearest exclude (map (\<lambda>_. (replicate search_k infinity, replicate search_k (- 1))) (snd x))), m)
      else let pool = (if tie_break \<and> k < n_train then min (max search_k (k + 1)) n_train else search_k) in
        then_step (model_backend_search env x (as_i32 (int pool)) False m) (\<lambda>found m1.
          Some (rbind (if tie_break then dist2s_for_neighbor_indices m1 x (map snd found) else Inr (map fst found)) (\<lambda>dists.
            rbind (map_res (query_topk m1 search_k k tie_break) (zip (snd x) (zip dists (map snd found)))) (\<lambda>rows.
              Inr (drop_nearest exclude rows))), m1)))"

definition posterior_index_search ::
    "('f, 'r) model_env \<Rightarrow> 'f EpistemicNearestNeighbors \<Rightarrow> ematrix \<Rightarrow> int \<Rightarrow> bool \<Rightarrow> bool
      \<Rightarrow> ((ENNError + hits list) \<times> 'f EpistemicNearestNeighbors) option" where
  "posterior_index_search env m x k exclude tie_break =
     then_step (if eb_defer_index_sync_for_search (em_backend m) then Some (Inr (), m) else model_ensure_sync env m) (\<lambda>_ m1.
       if eb_driver (em_backend m1) = Exact then exact_f64_batch_topk env m1 x k exclude tie_break
       else then_step (model_backend_search env x k exclude m1) (\<lambda>found m2.
         Some (rbind (dist2s_for_neighbor_indices m2 x (map snd found)) (\<lambda>dists. Inr (zip dists (map snd found))), m2)))"

section \<open>The data of the neighbours\<close>

record ENNParams =
  k_num_neighbors :: int
  epistemic_variance_scale :: f64
  aleatoric_variance_scale :: f64

record PosteriorFlags =
  pf_exclude_nearest :: bool
  pf_observation_noise :: bool
  pf_tie_break_neighbors :: bool

text \<open>Distances, labels and outputs of the neighbours, a list for each query.\<close>

record NeighborData =
  nd_dist2s :: "f64 list list"
  nd_idx :: "nat list list"
  nd_y :: "f64 list list list"
  nd_k :: nat

definition neighbor_search_k :: "'f EpistemicNearestNeighbors \<Rightarrow> ENNParams \<Rightarrow> bool \<Rightarrow> ENNError + nat" where
  "neighbor_search_k m params exclude =
     (if exclude \<and> em_num_obs m \<le> 1 then Inl EParameter
      else Inr (min (as_usize (k_num_neighbors params) + (if exclude then 1 else 0)) (em_num_obs m)))"

definition neighbor_k :: "ENNParams \<Rightarrow> bool \<Rightarrow> nat \<Rightarrow> nat" where
  "neighbor_k params exclude search_k = min (as_usize (k_num_neighbors params)) (if exclude then search_k - 1 else search_k)"

definition neighbor_outputs :: "'f EpistemicNearestNeighbors \<Rightarrow> nat list list \<Rightarrow> ENNError + f64 list list list" where
  "neighbor_outputs m = map_res (map_res (\<lambda>i. expected (eb_row_y i (em_backend m))))"

definition get_neighbor_data ::
    "('f, 'r) model_env \<Rightarrow> 'f EpistemicNearestNeighbors \<Rightarrow> ematrix \<Rightarrow> ENNParams \<Rightarrow> bool \<Rightarrow> bool
      \<Rightarrow> ((ENNError + NeighborData option) \<times> 'f EpistemicNearestNeighbors) option" where
  "get_neighbor_data env m x params exclude tie_break =
     (case neighbor_search_k m params exclude of
        Inl e \<Rightarrow> Some (Inl e, m)
      | Inr search_k \<Rightarrow>
          if search_k = 0 then Some (Inr None, m)
          else then_step (posterior_index_search env m x (as_i32 (int search_k)) exclude tie_break) (\<lambda>found m1.
            let k = neighbor_k params exclude search_k in
            if k = 0 then Some (Inr None, m1)
            else let idx = map (\<lambda>(ds, ls). map as_usize (take k ls)) found in
              Some (rbind (neighbor_outputs m1 idx) (\<lambda>ys.
                Inr (Some \<lparr>nd_dist2s = map (\<lambda>(ds, ls). take k ds) found, nd_idx = idx, nd_y = ys, nd_k = k\<rparr>)), m1)))"

end
