(* ===== verification/SplitHash.thy ===== *)
theory SplitHash
  imports FloatRepr
begin

text \<open>
  Hash-based random numbers (\<open>rust/crates/ennx/src/hash.rs\<close>): the SplitMix64 mixer, uniform values
  from the high bits, and the batch of normal values that computes each distinct index once.

  An \<open>i64\<close> is a 64-bit word, read with \<open>sint\<close> where it is compared. The logarithm and the cosine of
  libm are parameters. The parallel loop over the seeds writes disjoint chunks; a chunk size of zero is
  a panic.
\<close>

section \<open>The mixer\<close>

definition splitmix64 :: "u64 \<Rightarrow> u64" where
  "splitmix64 x0 =
     (let x = x0 + 0x9E3779B97F4A7C15;
          z = (x XOR drop_bit 30 x) * 0xBF58476D1CE4E5B9;
          z = (z XOR drop_bit 27 z) * 0x94D049BB133111EB
      in z XOR drop_bit 31 z)"

text \<open>\<open>(x >> 11) as f64 * (1.0 / 2^53)\<close>.\<close>

definition u64_to_f53 :: "u64 \<Rightarrow> f64" where
  "u64_to_f53 x = fmul (flit (unat (drop_bit 11 x)) 1) (fdiv (flit 1 1) (flit (2 ^ 53) 1))"

record hash_env =
  hash_ln :: "f64 \<Rightarrow> f64"
  hash_cos :: "f64 \<Rightarrow> f64"

definition box_muller :: "hash_env \<Rightarrow> f64 \<Rightarrow> f64 \<Rightarrow> f64" where
  "box_muller env u1 u2 =
     fmul (fsqrt (fmul (fneg (flit 2 1)) (hash_ln env u1)))
       (hash_cos env (fmul (fmul (flit 2 1) (Ieee 0x400921FB54442D18)) u2))"

definition SEED_PRIME :: u64 where
  "SEED_PRIME = 1000003"

definition combined_word :: "u64 \<Rightarrow> u64 \<Rightarrow> nat \<Rightarrow> u64" where
  "combined_word seed idx metric = (seed * SEED_PRIME + idx) * SEED_PRIME + word_of_nat metric"

definition normal_for_seed_index_metric :: "hash_env \<Rightarrow> u64 \<Rightarrow> u64 \<Rightarrow> nat \<Rightarrow> f64" where
  "normal_for_seed_index_metric env seed idx metric =
     (let combined1 = combined_word seed idx metric;
          r1 = splitmix64 combined1;
          r2 = splitmix64 (combined1 XOR 0xD2B74407B1CE6E93);
          u1 = fclamp (u64_to_f53 r1) (flit 1 (10 ^ 12)) (fsub (flit 1 1) (flit 1 (10 ^ 12)));
          u2 = u64_to_f53 r2
      in box_muller env u1 u2)"

section \<open>The batch\<close>

datatype HashError = InvalidNumMetrics int | DimensionMismatch string | HashPanic

definition unique_index_inverse :: "u64 list \<Rightarrow> HashError + u64 list \<times> nat list" where
  "unique_index_inverse data =
     (let unique = remdups_adj (sort_key sint data);
          unique_pos = map_of (zip unique [0..<length unique])
      in rbind (map_res (\<lambda>i. ok_or (unique_pos i) HashPanic) data) (\<lambda>inv_pos. Inr (unique, inv_pos)))"

definition unique_cache :: "hash_env \<Rightarrow> u64 \<Rightarrow> u64 list \<Rightarrow> nat \<Rightarrow> f64 list" where
  "unique_cache env seed unique k = concat (map (\<lambda>u. map (normal_for_seed_index_metric env seed u) [0..<k]) unique)"

definition seed_out :: "f64 list \<Rightarrow> nat list \<Rightarrow> nat \<Rightarrow> f64 list" where
  "seed_out cache inv_pos k = concat (map (\<lambda>i. take k (drop (i * k) cache)) inv_pos)"

text \<open>The shape and the values in row-major order.\<close>

definition normal_hash_batch_multi_seed_fast ::
    "hash_env \<Rightarrow> u64 list \<Rightarrow> u64 list \<Rightarrow> int \<Rightarrow> HashError + (nat \<times> nat \<times> nat) \<times> f64 list" where
  "normal_hash_batch_multi_seed_fast env seeds data num_metrics =
     (if num_metrics \<le> 0 then Inl (InvalidNumMetrics num_metrics)
      else let k = nat num_metrics in
        rbind (unique_index_inverse data) (\<lambda>(unique, inv_pos).
          if length data * k = 0 then Inl HashPanic
          else Inr ((length seeds, length data, k),
                 concat (map (\<lambda>seed. seed_out (unique_cache env seed unique k) inv_pos k) seeds))))"

definition normal_hash_batch_multi_seed ::
    "hash_env \<Rightarrow> u64 list \<Rightarrow> u64 list \<Rightarrow> int \<Rightarrow> HashError + (nat \<times> nat \<times> nat) \<times> f64 list" where
  "normal_hash_batch_multi_seed = normal_hash_batch_multi_seed_fast"

section \<open>The mixer is a bijection\<close>

lemma unat_shift: "unat (drop_bit k x) = unat x div 2 ^ k" for x :: u64
  by (rule trans [OF unat_drop_bit_eq drop_bit_eq_div])

lemma shifted_self:
  fixes d :: u64
  assumes "drop_bit k d = d" "0 < k"
  shows "d = 0"
proof -
  have "unat d div 2 ^ k = unat d" using unat_shift [of k d] assms(1) by simp
  moreover have "unat d div 2 ^ k < unat d" if "0 < unat d"
    using that assms(2) one_less_power [of "2 :: nat" k] by (intro div_less_dividend) simp_all
  ultimately have "unat d = unat (0 :: u64)" by fastforce
  then show ?thesis by (rule unsigned_word_eqI)
qed

lemma xor_cancel: "(z XOR w) XOR w = z" for z w :: u64
  by (simp add: xor.assoc)

lemma inj_xorshift:
  assumes "0 < k"
  shows "inj (\<lambda>z :: u64. z XOR drop_bit k z)"
proof (rule injI)
  fix z w :: u64
  assume eq: "z XOR drop_bit k z = w XOR drop_bit k w"
  have "drop_bit k (z XOR w) = z XOR w"
  proof -
    have "drop_bit k (z XOR w) = drop_bit k z XOR drop_bit k w" by (simp add: drop_bit_xor)
    also have "\<dots> = (z XOR (z XOR drop_bit k z)) XOR drop_bit k w" by (simp flip: xor.assoc)
    also have "\<dots> = (z XOR (w XOR drop_bit k w)) XOR drop_bit k w" by (simp only: eq)
    also have "\<dots> = z XOR w" by (simp add: xor.assoc)
    finally show ?thesis .
  qed
  then have "z XOR w = 0" using shifted_self assms by blast
  then have "z XOR (z XOR w) = z" by simp
  then show "z = w" by (simp flip: xor.assoc)
qed

lemma inj_xor: "inj (\<lambda>w :: u64. w XOR c)"
  by (rule injI) (metis xor_cancel)

lemma inj_times:
  assumes "c * d = (1 :: u64)"
  shows "inj (\<lambda>z. z * c)"
proof (rule injI)
  fix z w assume "z * c = w * c"
  then have "z * c * d = w * c * d" by simp
  then show "z = w" by (simp add: mult.assoc assms)
qed

lemma bij_splitmix64: "bij splitmix64"
proof -
  have add: "inj (\<lambda>x :: u64. x + 0x9E3779B97F4A7C15)" by (rule injI) simp
  have mul: "inj (\<lambda>z :: u64. z * 0xBF58476D1CE4E5B9)" "inj (\<lambda>z :: u64. z * 0x94D049BB133111EB)"
    by (rule inj_times [where d = "0x96de1b173f119089"], simp) (rule inj_times [where d = "0x319642b2d24d8ec3"], simp)
  have steps: "splitmix64 = (\<lambda>z. z XOR drop_bit 31 z) \<circ> (\<lambda>z. z * 0x94D049BB133111EB) \<circ> (\<lambda>z. z XOR drop_bit 27 z) \<circ>
      (\<lambda>z. z * 0xBF58476D1CE4E5B9) \<circ> (\<lambda>z. z XOR drop_bit 30 z) \<circ> (\<lambda>x. x + 0x9E3779B97F4A7C15)"
    by (simp only: fun_eq_iff splitmix64_def Let_def comp_def simp_thms)
  have "inj splitmix64" unfolding steps by (intro inj_compose inj_xorshift add mul) simp_all
  then show ?thesis by (simp add: bij_betw_def finite_UNIV_inj_surj)
qed

lemma combined_word_eq:
  "combined_word seed i m = combined_word seed i' m' \<longleftrightarrow>
   i * SEED_PRIME + word_of_nat m = i' * SEED_PRIME + (word_of_nat m' :: u64)"
  by (simp add: combined_word_def distrib_right)

lemma entry_word:
  assumes "unat i < 2 ^ 44" "m < 1000003"
  shows "unat (i * SEED_PRIME + word_of_nat m :: u64) = unat i * 1000003 + m"
proof -
  have bound: "unat i * 1000003 + m < 2 ^ 64" using assms by simp
  have "i * SEED_PRIME + word_of_nat m = (word_of_nat (unat i * 1000003 + m) :: u64)"
    by (simp add: SEED_PRIME_def)
  also have "unat \<dots> = unat i * 1000003 + m" using bound by (simp only: unsigned_of_nat) (simp add: take_bit_nat_eq_self)
  finally show ?thesis .
qed

text \<open>The mixer loses nothing, and no two entries of one seed are mixed from the same word. The mixer
  is a bijection of the 64-bit words; for one seed, rows below \<open>2 ^ 44\<close> and fewer than a million
  metrics, different (row, metric) pairs give different words, before and after mixing, for both
  uniform values that an entry is made of.\<close>

theorem entries_never_share_words:
  "bij splitmix64 \<and>
   inj_on (\<lambda>(i, m). splitmix64 (combined_word seed i m)) ({i. unat i < 2 ^ 44} \<times> {..<1000003}) \<and>
   inj_on (\<lambda>(i, m). splitmix64 (combined_word seed i m XOR 0xD2B74407B1CE6E93)) ({i. unat i < 2 ^ 44} \<times> {..<1000003})"
proof -
  let ?D = "{i. unat i < 2 ^ 44} \<times> {..<1000003}"
  have words: "inj_on (\<lambda>p. combined_word seed (fst p) (snd p)) ?D"
  proof (rule inj_onI)
    fix p q
    assume pq: "p \<in> ?D" "q \<in> ?D" "combined_word seed (fst p) (snd p) = combined_word seed (fst q) (snd q)"
    obtain i m i' m' where p: "p = (i, m)" and q: "q = (i', m')" by (cases p, cases q) blast
    have ok: "unat i < 2 ^ 44" "unat i' < 2 ^ 44" "m < 1000003" "m' < 1000003"
      and eq: "combined_word seed i m = combined_word seed i' m'"
      using pq unfolding p q by (simp_all only: mem_Times_iff fst_conv snd_conv mem_Collect_eq lessThan_iff)
    have sums: "unat i * 1000003 + m = unat i' * 1000003 + m'"
      using entry_word [OF ok(1,3)] entry_word [OF ok(2,4)] eq unfolding combined_word_eq by simp
    then have "(unat i * 1000003 + m) div 1000003 = (unat i' * 1000003 + m') div 1000003" by simp
    then have rows: "unat i = unat i'" using ok(3,4) by simp
    then have "m = m'" using sums by simp
    then show "p = q" unfolding p q using unsigned_word_eqI [OF rows] by blast
  qed
  have mix: "inj splitmix64" "inj (\<lambda>w :: u64. splitmix64 (w XOR 0xD2B74407B1CE6E93))"
    using inj_compose [OF bij_is_inj [OF bij_splitmix64] inj_xor] bij_is_inj [OF bij_splitmix64]
    by (simp_all only: comp_def)
  have "inj_on (\<lambda>p. g (combined_word seed (fst p) (snd p))) ?D" if "inj g" for g :: "u64 \<Rightarrow> u64"
    using comp_inj_on [OF words inj_on_subset [OF that subset_UNIV]] by (simp only: comp_def)
  from this [OF mix(1)] this [OF mix(2)] show ?thesis using bij_splitmix64 by (simp only: split_def simp_thms)
qed

text \<open>Neighbouring seeds are not independent: a row of one seed is a row, \<open>SEED_PRIME\<close> further back, of
  the next seed, in every metric.\<close>

theorem next_seed_repeats_rows:
  "normal_for_seed_index_metric env seed (idx + SEED_PRIME) metric = normal_for_seed_index_metric env (seed + 1) idx metric"
  by (simp add: normal_for_seed_index_metric_def combined_word_def distrib_right Let_def add.commute add.left_commute)

section \<open>Uniform values\<close>

lemma dyadic_power:
  assumes "52 \<le> e" "e < 1990"
  shows "is_finite (dyadic 1 e)" "\<not> sign_neg (dyadic 1 e)" "units (dyadic 1 e) = 2 ^ e"
  using dyadic_facts [of 1 e] assms by simp_all

lemma dyadic_units:
  "units (dyadic 1 1074) = 2 ^ 1074" "units (dyadic 1 1127) = 2 ^ 1127" "units (dyadic 1 1021) = 2 ^ 1021"
  by (rule dyadic_power; simp)+

lemma one_dyadic: "one64 = dyadic 1 1074"
proof -
  have "ilog2 1 = 0" by (simp add: ilog2.simps)
  then have "dyadic 1 1074 = mk_float False (mag one64)" by (simp add: dyadic_def sample_mags)
  also have "\<dots> = one64" using sample_signs(1) mk_float_collapse [of one64] by simp
  finally show ?thesis by simp
qed

lemma inv_2p53: "fdiv (flit 1 1) (flit (2 ^ 53) 1) = dyadic 1 1021"
proof -
  let ?one = "dyadic 1 1074" and ?big = "dyadic 1 1127" and ?inv = "dyadic 1 1021"
  have e: "unit_exp LENGTH(64) = 1074" by (simp add: unit_exp_def)
  have fin: "is_finite ?one" "is_finite ?big" "is_finite ?inv" "\<not> sign_neg ?one" "\<not> sign_neg ?big" "\<not> sign_neg ?inv"
    by (rule dyadic_power; simp)+
  have one: "flit 1 1 = ?one" unfolding flit_def
    by (rule round_float_exact) (use fin in \<open>simp_all only: dyadic_units e mult_1 mult_1_right zero_less_one\<close>)
  have "(2 :: nat) ^ 53 * 2 ^ 1074 = 2 ^ 1127" by (simp flip: power_add)
  then have big: "flit (2 ^ 53) 1 = ?big" unfolding flit_def
    by (intro round_float_exact) (use fin in \<open>simp_all only: dyadic_units e mult_1_right zero_less_one\<close>)
  have p: "(2 :: nat) ^ 1074 * 2 ^ 1074 = 2 ^ 1021 * 2 ^ 1127" by (simp flip: power_add)
  have "units ?big \<noteq> 0" unfolding dyadic_units by (rule power_not_zero) simp
  moreover from this have "mag ?big \<noteq> 0" by (simp add: units_0_iff)
  ultimately show ?thesis unfolding one big
    by (intro fdiv_exact) (use fin p in \<open>simp_all only: dyadic_units e simp_thms\<close>)
qed

lemma high_bits_less: "unat (drop_bit 11 x) < 2 ^ 53" for x :: u64
proof -
  have "unat x < 2 ^ 53 * 2 ^ 11" using unsigned_less [of x] by simp
  then show ?thesis unfolding unat_shift by (rule less_mult_imp_div_less)
qed

lemma u64_to_f53_dyadic: "u64_to_f53 x = dyadic (unat (drop_bit 11 x)) 1021"
proof -
  define n where "n = unat (drop_bit 11 x)"
  have n: "n < 2 ^ 53" unfolding n_def by (rule high_bits_less)
  have e: "unit_exp LENGTH(64) = 1074" by (simp add: unit_exp_def)
  have facts: "is_finite (dyadic n 1074)" "\<not> sign_neg (dyadic n 1074)" "units (dyadic n 1074) = n * 2 ^ 1074"
    "is_finite (dyadic n 1021)" "\<not> sign_neg (dyadic n 1021)" "units (dyadic n 1021) = n * 2 ^ 1021"
    "is_finite (dyadic 1 1021)" "\<not> sign_neg (dyadic 1 1021)"
    by (rule dyadic_facts [OF n] dyadic_power; simp)+
  have "flit n 1 = dyadic n 1074" unfolding flit_def
    by (rule round_float_exact) (use facts in \<open>simp_all only: e mult_1_right zero_less_one\<close>)
  moreover have "units (dyadic n 1074) * units (dyadic 1 1021) = units (dyadic n 1021) * 2 ^ unit_exp LENGTH(64)"
    unfolding facts dyadic_units e by (simp only: ac_simps)
  ultimately show ?thesis unfolding u64_to_f53_def inv_2p53 n_def [symmetric]
    using facts by (simp only:) (rule fmul_exact; simp only:; simp)
qed

text \<open>The uniform value of a word is exactly its high 53 bits over \<open>2 ^ 53\<close>: no rounding takes place, the
  value lies in the half-open unit interval, and the order of the high bits is the order of the values.\<close>

theorem uniform_values_exact:
  "u64_to_f53 x = dyadic (unat (drop_bit 11 x)) 1021 \<and>
   fval (u64_to_f53 x) = int (unat (drop_bit 11 x)) * 2 ^ 1021 \<and>
   fle fzero (u64_to_f53 x) \<and> flt (u64_to_f53 x) (Ieee 0x3ff0000000000000) \<and>
   (flt (u64_to_f53 x) (u64_to_f53 y) \<longleftrightarrow> drop_bit 11 x < drop_bit 11 y)"
proof -
  obtain n where n: "unat (drop_bit 11 x) = n" "n < 2 ^ 53" using high_bits_less by blast
  have val: "fval (dyadic n 1021) = int n * 2 ^ 1021" by (rule fval_dyadic [OF n(2)]) simp_all
  have "fval one64 = 2 ^ 53 * 2 ^ 1021" using sample_units(1) sample_signs(1) by (simp add: fval_def flip: power_add)
  moreover have "int n < 2 ^ 53" using n(2) by simp
  ultimately have less: "fval (dyadic n 1021) < fval one64" "0 \<le> fval (dyadic n 1021)" unfolding val by simp_all
  have "is_finite (dyadic n 1021)" by (rule dyadic_facts(1) [OF n(2)]) simp_all
  then have "\<not> is_nan (dyadic n 1021)" "\<not> is_nan one64" using finite_not_special sample_finite(1) by blast+
  moreover have zero_nan: "\<not> is_nan (fzero :: f64)" by (simp add: is_nan_def fzero_def float_layout)
  ultimately have "flt (dyadic n 1021) one64" "fle fzero (dyadic n 1021)"
    using less fval_le_iff [of one64 "dyadic n 1021"] zero_nan by (auto simp: flt_def fle_def fval_sign_iff)
  moreover have "flt (dyadic n 1021) (dyadic (unat (drop_bit 11 y)) 1021) \<longleftrightarrow> n < unat (drop_bit 11 y)"
    by (rule dyadic_less_iff [OF n(2) high_bits_less]) simp_all
  ultimately show ?thesis using val by (simp only: u64_to_f53_dyadic word_less_nat_alt n(1))
qed

section \<open>The batch computes every entry\<close>

lemma distinct_remdups_adj_sorted: "sorted xs \<Longrightarrow> distinct (remdups_adj xs)"
proof (induction xs rule: remdups_adj.induct)
  case (3 x y xs)
  have "x \<notin> set (remdups_adj (y # xs))" if "x \<noteq> y" using that 3(3) by auto
  then show ?case using 3 by auto
qed simp_all

lemma unique_indices:
  "set (remdups_adj (sort_key sint data)) = set data" "distinct (remdups_adj (sort_key sint data))"
  "sorted (map sint (remdups_adj (sort_key sint data)))" for data :: "u64 list"
proof -
  let ?s = "sort_key sint data"
  have inj: "inj (sint :: u64 \<Rightarrow> int)" by (rule injI) (rule signed_word_eqI)
  have "map sint (remdups_adj ?s) = remdups_adj (map sint ?s)" by (rule remdups_adj_map_injective [OF inj, symmetric])
  moreover have "sorted (map sint ?s)" by simp
  ultimately have "sorted (map sint (remdups_adj ?s)) \<and> distinct (map sint (remdups_adj ?s))"
    by (metis distinct_remdups_adj_sorted sorted_remdups_adj)
  then show "distinct (remdups_adj ?s)" "sorted (map sint (remdups_adj ?s))" by (auto simp: distinct_map)
qed simp

lemma unique_index_inverse_spec:
  "\<exists>pos. unique_index_inverse data = Inr (remdups_adj (sort_key sint data), map pos data) \<and>
     (\<forall>i\<in>set data. pos i < length (remdups_adj (sort_key sint data)) \<and> remdups_adj (sort_key sint data) ! pos i = i)"
proof -
  let ?u = "remdups_adj (sort_key sint data)"
  let ?pos = "\<lambda>i. the (map_of (zip ?u [0..<length ?u]) i)"
  have found: "map_of (zip ?u [0..<length ?u]) i = Some (?pos i) \<and> ?pos i < length ?u \<and> ?u ! ?pos i = i"
    if "i \<in> set data" for i
  proof -
    have "i \<in> set ?u" using that unique_indices(1) by blast
    then obtain p where p: "map_of (zip ?u [0..<length ?u]) i = Some p"
      by (metis length_upt diff_zero map_of_zip_is_Some)
    then have "(i, p) \<in> set (zip ?u [0..<length ?u])" by (rule map_of_SomeD)
    then show ?thesis using p by (auto simp: in_set_zip)
  qed
  then have "map_res (\<lambda>i. ok_or (map_of (zip ?u [0..<length ?u]) i) HashPanic) data = Inr (map ?pos data)"
    by (intro map_res_all_Inr) simp
  then show ?thesis using found by (intro exI [of _ ?pos]) (simp add: unique_index_inverse_def Let_def)
qed

lemma block_of_concat:
  assumes "p < length us" "\<And>u. u \<in> set us \<Longrightarrow> length (f u) = k"
  shows "take k (drop (p * k) (concat (map f us))) = f (us ! p)"
  using assms
proof (induction us arbitrary: p)
  case (Cons u us)
  show ?case
  proof (cases p)
    case 0
    then show ?thesis using Cons.prems(2) [of u] by simp
  next
    case (Suc q)
    have "drop (p * k) (concat (map f (u # us))) = drop (q * k) (concat (map f us))"
      using Cons.prems(2) [of u] Suc by simp
    then show ?thesis using Cons.IH [of q] Cons.prems Suc by simp
  qed
qed simp

text \<open>Computing each distinct index once changes nothing. For any seeds, any row indices in any order
  with repetitions, and a positive number of metrics, the batch has the shape (seeds, rows, metrics)
  and every entry is the normal value of its own seed, index and metric.\<close>

theorem batch_is_entrywise:
  assumes "0 < num_metrics" "data \<noteq> []"
  shows "normal_hash_batch_multi_seed_fast env seeds data num_metrics =
    Inr ((length seeds, length data, nat num_metrics),
      concat (map (\<lambda>s. concat (map (\<lambda>i. map (normal_for_seed_index_metric env s i) [0..<nat num_metrics]) data)) seeds))"
proof -
  let ?k = "nat num_metrics" and ?u = "remdups_adj (sort_key sint data)"
  obtain pos where pos: "unique_index_inverse data = Inr (?u, map pos data)"
    "\<forall>i\<in>set data. pos i < length ?u \<and> ?u ! pos i = i"
    using unique_index_inverse_spec by blast
  have "seed_out (unique_cache env s ?u ?k) (map pos data) ?k =
      concat (map (\<lambda>i. map (normal_for_seed_index_metric env s i) [0..<?k]) data)" for s
  proof -
    have "take ?k (drop (pos i * ?k) (unique_cache env s ?u ?k)) = map (normal_for_seed_index_metric env s i) [0..<?k]"
      if "i \<in> set data" for i
      using pos(2) that block_of_concat [of "pos i" ?u "\<lambda>u. map (normal_for_seed_index_metric env s u) [0..<?k]" ?k]
      by (simp add: unique_cache_def)
    then show ?thesis by (simp add: seed_out_def comp_def cong: map_cong)
  qed
  then show ?thesis using assms pos(1) by (simp add: normal_hash_batch_multi_seed_fast_def Let_def)
qed

text \<open>With seeds but no row to draw for the call panics instead of returning an empty batch.\<close>

lemma empty_batch_panics:
  "0 < num_metrics \<Longrightarrow> normal_hash_batch_multi_seed_fast env seeds [] num_metrics = Inl HashPanic"
  by (simp add: normal_hash_batch_multi_seed_fast_def unique_index_inverse_def)

definition flat_libm :: hash_env where
  "flat_libm = \<lparr>hash_ln = \<lambda>_. fzero, hash_cos = \<lambda>_. one64\<rparr>"

theorem batch_is_entrywise_witness:
  "normal_hash_batch_multi_seed_fast flat_libm [7, 8] [3, 3, 1] 2 =
    Inr ((2, 3, 2),
      concat (map (\<lambda>s. concat (map (\<lambda>i. map (normal_for_seed_index_metric flat_libm s i) [0..<2]) [3, 3, 1])) [7, 8]))"
  using batch_is_entrywise [of 2 "[3, 3, 1]" flat_libm "[7, 8]"] by simp

end
