(* ===== verification/Posterior.thy ===== *)
theory Posterior
  imports Neighbors SplitHash
begin

text \<open>
  The posterior of the ENN model: \<open>rust/crates/ennx/src/posterior.rs\<close>, its fused path
  \<open>posterior/light.rs\<close>, the function draws of \<open>posterior/draw_compute.rs\<close>, and the conditional posterior
  with \<open>get_conditional_neighbor_data\<close> of \<open>posterior/neighbor.rs\<close>, in a build without the GPU features.

  The arrays over queries, neighbours and metrics are lists of lists; the statistics of one query and
  one metric are one record (\<open>WeightedStats\<close> and \<open>DrawInternals\<close> hold them as one array each), with the
  weights of the neighbours as its list. The dot product and the matrix product of \<open>ndarray\<close>, its
  column variance and the selection of the nearest pairs of \<open>core\<close> are parameters.
\<close>

record ('f, 'r) posterior_env = "('f, 'r) model_env" +
  pe_hash :: hash_env
  pe_dot :: "f64 list \<Rightarrow> f64 list \<Rightarrow> f64"
  pe_mat_mul_t :: "f64 list list \<Rightarrow> f64 list list \<Rightarrow> f64 list list"
  pe_variance :: "f64 list \<Rightarrow> f64"
  pe_select :: "nat \<Rightarrow> (f64 \<times> nat) list \<Rightarrow> (f64 \<times> nat) list"

definition eps_var :: f64 where
  "eps_var = flit 1 (10 ^ 9)"

section \<open>Parameters\<close>

definition enn_params_new :: "int \<Rightarrow> f64 \<Rightarrow> f64 \<Rightarrow> ENNParams option" where
  "enn_params_new k epi ale =
     (if k \<le> 0 then None
      else if \<not> is_finite epi \<or> flt epi fzero then None
      else if \<not> is_finite ale \<or> flt ale fzero then None
      else Some \<lparr>k_num_neighbors = k, epistemic_variance_scale = epi, aleatoric_variance_scale = ale\<rparr>)"

definition default_flags :: PosteriorFlags where
  "default_flags = \<lparr>pf_exclude_nearest = False, pf_observation_noise = False, pf_tie_break_neighbors = False\<rparr>"

definition posterior_flags_new :: PosteriorFlags where
  "posterior_flags_new = default_flags\<lparr>pf_tie_break_neighbors := True\<rparr>"

section \<open>Weighted statistics\<close>

record MetricStats =
  ms_w :: "f64 list"
  ms_l2 :: f64
  ms_mu :: f64
  ms_se :: f64
  ms_se_epi :: f64
  ms_se_ale :: f64

definition se_from_variance_components :: "f64 \<Rightarrow> f64 \<Rightarrow> f64 \<Rightarrow> f64 \<times> f64 \<times> f64" where
  "se_from_variance_components epi ale ys =
     (let sum = fadd epi ale in
      if flt sum eps_var then (let se = fmul (fsqrt eps_var) ys in (se, se, fzero))
      else (fmul (fsqrt sum) ys, fmul (fsqrt epi) ys, fmul (fsqrt ale) ys))"

text \<open>The share of a neighbour's own variance, zero without variances.\<close>

definition var_share :: "f64 list list option \<Rightarrow> nat \<Rightarrow> f64 \<Rightarrow> nat \<Rightarrow> f64" where
  "var_share yv m ys j = (case yv of None \<Rightarrow> fzero | Some v \<Rightarrow> fdiv (v ! j ! m) (fmul ys ys))"

definition neighbor_weight :: "ENNParams \<Rightarrow> f64 \<Rightarrow> f64 \<Rightarrow> f64" where
  "neighbor_weight params d var_y =
     fdiv (flit 1 1) (fadd (fadd (fadd eps_var (fmul (epistemic_variance_scale params) d)) (aleatoric_variance_scale params)) var_y)"

text \<open>The statistics of one query and one metric, from the weights of its neighbours. The sum of an
  iterator of floats starts at the negative zero.\<close>

definition stats_from_neighbor_weights ::
    "f64 list \<Rightarrow> f64 list \<Rightarrow> f64 list \<Rightarrow> bool \<Rightarrow> f64 \<Rightarrow> f64 \<Rightarrow> MetricStats" where
  "stats_from_neighbor_weights w y var_y noise ale ys =
     (let norm = foldl fadd (fneg fzero) w;
          inv_norm = fdiv (flit 1 1) norm;
          wn = map (\<lambda>v. fmul v inv_norm) w;
          ale_var = (if noise then foldl (\<lambda>a (u, v). fadd a (fmul u (fadd ale v))) fzero (zip wn var_y) else fzero);
          (se, epi, al) = se_from_variance_components inv_norm ale_var ys
      in \<lparr>ms_w = wn, ms_l2 = fsqrt (foldl (\<lambda>a u. fadd a (fmul u u)) fzero wn),
          ms_mu = foldl (\<lambda>a (u, v). fadd a (fmul u v)) fzero (zip wn y),
          ms_se = se, ms_se_epi = epi, ms_se_ale = al\<rparr>)"

text \<open>One query: its distances, the outputs of its neighbours and their variances.\<close>

definition query_stats ::
    "ENNParams \<Rightarrow> bool \<Rightarrow> f64 list \<Rightarrow> f64 list \<Rightarrow> f64 list list \<Rightarrow> f64 list list option \<Rightarrow> MetricStats list" where
  "query_stats params noise y_scale ds ys yv =
     map (\<lambda>m. let var_y = map (var_share yv m (y_scale ! m)) [0..<length ds] in
        stats_from_neighbor_weights (map2 (neighbor_weight params) ds var_y) (map (\<lambda>r. r ! m) ys) var_y noise
          (aleatoric_variance_scale params) (y_scale ! m))
       [0..<length y_scale]"

definition compute_weighted_stats_impl ::
    "f64 list list \<Rightarrow> f64 list list list \<Rightarrow> f64 list list list option \<Rightarrow> ENNParams \<Rightarrow> bool \<Rightarrow> f64 list \<Rightarrow> MetricStats list list" where
  "compute_weighted_stats_impl dists ys yvs params noise y_scale =
     map (\<lambda>i. query_stats params noise y_scale (dists ! i) (ys ! i) (map_option (\<lambda>v. v ! i) yvs)) [0..<length dists]"

text \<open>\<open>di_k\<close> is the extent of the weights over the neighbours.\<close>

record DrawInternals =
  di_idx :: "nat list list"
  di_k :: nat
  di_stats :: "MetricStats list list"

definition stats_matrix :: "(MetricStats \<Rightarrow> f64) \<Rightarrow> nat \<Rightarrow> DrawInternals \<Rightarrow> ematrix" where
  "stats_matrix f metrics internals = (metrics, map (map f) (di_stats internals))"

section \<open>The posterior of a model\<close>

text \<open>The variances of the neighbours; a label past the rows is a what-if point without variance.\<close>

definition neighbor_variance :: "'f EpistemicNearestNeighbors \<Rightarrow> nat \<Rightarrow> ENNError + f64 list" where
  "neighbor_variance m i =
     (if i < em_num_obs m then rbind (expected (eb_row_yvar i (em_backend m))) (\<lambda>v. ok_or v EPanic)
      else Inr (replicate (em_metrics m) fzero))"

definition compute_weighted_posterior ::
    "'f EpistemicNearestNeighbors \<Rightarrow> NeighborData \<Rightarrow> ENNParams \<Rightarrow> bool \<Rightarrow> f64 list option \<Rightarrow> ENNError + DrawInternals" where
  "compute_weighted_posterior m nd params noise y_scale_override =
     (let y_scale = (case y_scale_override of Some s \<Rightarrow> s | None \<Rightarrow> em_y_scale m) in
      rbind (has_yvar m) (\<lambda>present.
      rbind (if present then rbind (map_res (map_res (neighbor_variance m)) (nd_idx nd)) (\<lambda>v. Inr (Some v)) else Inr None) (\<lambda>yvs.
        Inr \<lparr>di_idx = nd_idx nd, di_k = nd_k nd,
             di_stats = compute_weighted_stats_impl (nd_dist2s nd) (nd_y nd) yvs params noise y_scale\<rparr>)))"

definition empty_posterior_internals :: "'f EpistemicNearestNeighbors \<Rightarrow> nat \<Rightarrow> DrawInternals" where
  "empty_posterior_internals m n =
     \<lparr>di_idx = replicate n [], di_k = 0,
      di_stats = replicate n (replicate (em_metrics m)
        \<lparr>ms_w = [], ms_l2 = flit 1 1, ms_mu = fzero, ms_se = flit 1 1, ms_se_epi = flit 1 1, ms_se_ale = fzero\<rparr>)\<rparr>"

definition wrong_width :: "'f EpistemicNearestNeighbors \<Rightarrow> ematrix \<Rightarrow> ENNError" where
  "wrong_width m x = EShape [length (snd x), em_dim m] [length (snd x), fst x]"

definition compute_posterior_internals ::
    "('f, 'r) posterior_env \<Rightarrow> 'f EpistemicNearestNeighbors \<Rightarrow> ematrix \<Rightarrow> ENNParams \<Rightarrow> PosteriorFlags
      \<Rightarrow> ((ENNError + DrawInternals) \<times> 'f EpistemicNearestNeighbors) option" where
  "compute_posterior_internals env m x params flags =
     (if fst x \<noteq> em_dim m then Some (Inl (wrong_width m x), m)
      else if em_num_obs m = 0 then Some (Inr (empty_posterior_internals m (length (snd x))), m)
      else then_step (get_neighbor_data (model_env.truncate env) m x params (pf_exclude_nearest flags) (pf_tie_break_neighbors flags)) (\<lambda>found m1.
        case found of
          Some nd \<Rightarrow> Some (compute_weighted_posterior m1 nd params (pf_observation_noise flags) None, m1)
        | None \<Rightarrow> Some (Inr (empty_posterior_internals m1 (length (snd x))), m1)))"

section \<open>The fused path\<close>

definition idx_nested_to_array2 :: "nat list list \<Rightarrow> int list list" where
  "idx_nested_to_array2 = map (map int)"

text \<open>Mean, the three standard errors and the labels.\<close>

type_synonym light_out = "(ematrix \<times> ematrix \<times> ematrix \<times> ematrix) \<times> int list list"

definition light_of_internals :: "nat \<Rightarrow> DrawInternals \<Rightarrow> light_out" where
  "light_of_internals metrics d =
     ((stats_matrix ms_mu metrics d, stats_matrix ms_se metrics d, stats_matrix ms_se_epi metrics d, stats_matrix ms_se_ale metrics d),
      idx_nested_to_array2 (di_idx d))"

text \<open>The row of outputs of a label: a view of the matrix in memory, a read row on disk.\<close>

definition light_row_y :: "'f EpistemicNearestNeighbors \<Rightarrow> int \<Rightarrow> ENNError + f64 list" where
  "light_row_y m i = (case em_backend m of
      InMemory b \<Rightarrow> row_vec (as_usize i) (im_y b)
    | Disk h \<Rightarrow> expected (eb_row_y (as_usize i) (em_backend m)))"

definition fuse_query ::
    "'f EpistemicNearestNeighbors \<Rightarrow> ENNParams \<Rightarrow> f64 list \<times> int list \<Rightarrow> ENNError + (f64 list \<times> f64 list)" where
  "fuse_query m params = (\<lambda>(ds, ls).
     (let w = map (\<lambda>d. fdiv (flit 1 1) (fadd (fadd eps_var (fmul (epistemic_variance_scale params) d)) (aleatoric_variance_scale params))) ds;
          norm = foldl fadd fzero w;
          inv_norm = fdiv (flit 1 1) norm;
          se_base = fsqrt (fmax inv_norm eps_var)
      in if em_metrics m = 0 then Inr ([], [])
         else rbind (map_res (light_row_y m) ls) (\<lambda>ys.
           Inr (map (\<lambda>k. foldl (\<lambda>a (u, r). fadd a (fmul (fmul u inv_norm) (r ! k))) fzero (zip w ys)) [0..<em_metrics m],
                map (\<lambda>k. fmul se_base (em_y_scale m ! k)) [0..<em_metrics m]))))"

definition fuse_neighbors_to_mu_se ::
    "'f EpistemicNearestNeighbors \<Rightarrow> hits list \<Rightarrow> ENNParams \<Rightarrow> ENNError + light_out" where
  "fuse_neighbors_to_mu_se m found params =
     (let metrics = em_metrics m in
      rbind (map_res (fuse_query m params) found) (\<lambda>rows.
        Inr (((metrics, map fst rows), (metrics, map snd rows), (metrics, map snd rows),
              (metrics, replicate (length found) (replicate metrics fzero))), map snd found)))"

definition compute_posterior_light ::
    "('f, 'r) posterior_env \<Rightarrow> 'f EpistemicNearestNeighbors \<Rightarrow> ematrix \<Rightarrow> ENNParams \<Rightarrow> PosteriorFlags
      \<Rightarrow> ((ENNError + light_out) \<times> 'f EpistemicNearestNeighbors) option" where
  "compute_posterior_light env m x params flags =
     (let empty = (\<lambda>m. light_of_internals (em_metrics m) (empty_posterior_internals m (length (snd x))));
          exclude = pf_exclude_nearest flags
      in if fst x \<noteq> em_dim m then Some (Inl (wrong_width m x), m)
         else if em_num_obs m = 0 then Some (Inr (empty m), m)
         else case neighbor_search_k m params exclude of
             Inl e \<Rightarrow> Some (Inl e, m)
           | Inr search_k \<Rightarrow>
               if search_k = 0 then Some (Inr (empty m), m)
               else then_step (posterior_index_search (model_env.truncate env) m x (as_i32 (int search_k)) exclude (pf_tie_break_neighbors flags)) (\<lambda>found m1.
                 let k = neighbor_k params exclude search_k in
                 if k = 0 then Some (Inr (empty m1), m1)
                 else Some (fuse_neighbors_to_mu_se m1 (map (\<lambda>(ds, ls). (take k ds, take k ls)) found) params, m1)))"

section \<open>The operations\<close>

record ENNNormal =
  nm_mu :: ematrix
  nm_se :: ematrix
  nm_se_epi :: ematrix
  nm_se_ale :: ematrix
  nm_idx :: "int list list option"

definition natural_normal ::
    "('f, 'r) posterior_env \<Rightarrow> 'f EpistemicNearestNeighbors \<Rightarrow> light_out \<Rightarrow> ENNNormal" where
  "natural_normal env m = (\<lambda>(stats, idx).
     (let (mu, se, epi, ale) = (if em_bounded m then naturalize (me_bounds env) (em_y_bounds m) stats else stats)
      in \<lparr>nm_mu = mu, nm_se = se, nm_se_epi = epi, nm_se_ale = ale, nm_idx = Some idx\<rparr>))"

definition enn_posterior ::
    "('f, 'r) posterior_env \<Rightarrow> 'f EpistemicNearestNeighbors \<Rightarrow> ematrix \<Rightarrow> ENNParams \<Rightarrow> PosteriorFlags
      \<Rightarrow> ((ENNError + ENNNormal) \<times> 'f EpistemicNearestNeighbors) option" where
  "enn_posterior env m x params flags =
     then_step (if pf_observation_noise flags then Some (Inr True, m) else Some (has_yvar m, m)) (\<lambda>full _.
       then_step (if \<not> full then compute_posterior_light env m x params flags
                  else then_step (compute_posterior_internals env m x params flags)
                         (\<lambda>d m1. Some (Inr (light_of_internals (em_metrics m1) d), m1)))
         (\<lambda>out m1. Some (Inr (natural_normal env m1 out), m1)))"

text \<open>One result per parameter set, each as mean and three standard errors.\<close>

definition batch_results :: "nat \<Rightarrow> DrawInternals list \<Rightarrow> (ematrix \<times> ematrix \<times> ematrix \<times> ematrix) list" where
  "batch_results metrics ds = map (\<lambda>d. fst (light_of_internals metrics d)) ds"

definition compute_batch_with_shared_neighbors ::
    "('f, 'r) posterior_env \<Rightarrow> 'f EpistemicNearestNeighbors \<Rightarrow> ematrix \<Rightarrow> ENNParams list \<Rightarrow> PosteriorFlags
      \<Rightarrow> ((ENNError + DrawInternals list) \<times> 'f EpistemicNearestNeighbors) option" where
  "compute_batch_with_shared_neighbors env m x paramss flags =
     then_step (get_neighbor_data (model_env.truncate env) m x (hd paramss) (pf_exclude_nearest flags) (pf_tie_break_neighbors flags)) (\<lambda>found m1.
       case found of
         Some nd \<Rightarrow> Some (map_res (\<lambda>p. compute_weighted_posterior m1 nd p (pf_observation_noise flags) None) paramss, m1)
       | None \<Rightarrow> Some (Inr (map (\<lambda>_. empty_posterior_internals m1 (length (snd x))) paramss), m1))"

fun compute_batch_separate_neighbors ::
    "('f, 'r) posterior_env \<Rightarrow> 'f EpistemicNearestNeighbors \<Rightarrow> ematrix \<Rightarrow> ENNParams list \<Rightarrow> PosteriorFlags
      \<Rightarrow> ((ENNError + DrawInternals list) \<times> 'f EpistemicNearestNeighbors) option" where
  "compute_batch_separate_neighbors env m x [] flags = Some (Inr [], m)"
| "compute_batch_separate_neighbors env m x (p # ps) flags =
     then_step (compute_posterior_internals env m x p flags) (\<lambda>d m1.
       then_step (compute_batch_separate_neighbors env m1 x ps flags) (\<lambda>ds m2. Some (Inr (d # ds), m2)))"

definition batch_posterior ::
    "('f, 'r) posterior_env \<Rightarrow> 'f EpistemicNearestNeighbors \<Rightarrow> ematrix \<Rightarrow> ENNParams list \<Rightarrow> PosteriorFlags
      \<Rightarrow> ((ENNError + (ematrix \<times> ematrix \<times> ematrix \<times> ematrix) list) \<times> 'f EpistemicNearestNeighbors) option" where
  "batch_posterior env m x paramss flags =
     (if paramss = [] then Some (Inl EParameter, m)
      else then_step (if length (remdups (map k_num_neighbors paramss)) = 1 \<and> em_num_obs m > 0
                      then compute_batch_with_shared_neighbors env m x paramss flags
                      else compute_batch_separate_neighbors env m x paramss flags) (\<lambda>ds m1.
        let out = batch_results (em_metrics m1) ds in
        Some (Inr (if em_bounded m1 then naturalize_batch (me_bounds env) (em_y_bounds m1) out else out), m1)))"

end
