(* ===== verification/PosteriorDraw.thy ===== *)
theory PosteriorDraw
  imports Posterior
begin

text \<open>
  Function draws (\<open>rust/crates/ennx/src/posterior/draw_compute.rs\<close>) and the posterior that is
  conditioned on what-if rows (\<open>posterior.rs\<close> and \<open>get_conditional_neighbor_data\<close> of
  \<open>posterior/neighbor.rs\<close>). A seed or a label as \<open>i64\<close> is a 64-bit word; the parallel loop over the
  seeds writes disjoint chunks, and a chunk size of zero is a panic.
\<close>

section \<open>Draws\<close>

definition draw_scale :: "MetricStats \<Rightarrow> f64" where
  "draw_scale s = fdiv (ms_se s) (fmax (ms_l2 s) (flit 1 (10 ^ 12)))"

text \<open>One value: the weights and, per neighbour, the place of its normal value in the cache.\<close>

definition draw_value :: "MetricStats \<Rightarrow> nat \<Rightarrow> (nat \<Rightarrow> f64) \<Rightarrow> f64" where
  "draw_value s k u =
     fadd (ms_mu s) (fmul (draw_scale s) (foldl (\<lambda>a ki. fadd a (fmul (ms_w s ! ki) (u ki))) fzero [0..<k]))"

definition draw_from_internals_m1 ::
    "hash_env \<Rightarrow> DrawInternals \<Rightarrow> u64 list \<Rightarrow> u64 list \<Rightarrow> nat list \<Rightarrow> ENNError + f64 list list list" where
  "draw_from_internals_m1 env d seeds unique inv_pos =
     (let n = length (di_stats d); k = di_k d in
      if n = 0 then Inl EPanic
      else Inr (map (\<lambda>seed. let cache = map (\<lambda>u. normal_for_seed_index_metric env seed u 0) unique in
             map (\<lambda>i. [draw_value (di_stats d ! i ! 0) k (\<lambda>ki. cache ! (inv_pos ! (i * k + ki)))]) [0..<n]) seeds))"

definition draw_from_internals_any ::
    "hash_env \<Rightarrow> nat \<Rightarrow> DrawInternals \<Rightarrow> u64 list \<Rightarrow> u64 list \<Rightarrow> nat list \<Rightarrow> ENNError + f64 list list list" where
  "draw_from_internals_any env m d seeds unique inv_pos =
     (let n = length (di_stats d); k = di_k d in
      if n * m = 0 then Inl EPanic
      else Inr (map (\<lambda>seed. let cache = unique_cache env seed unique m in
             map (\<lambda>i. map (\<lambda>j. draw_value (di_stats d ! i ! j) k (\<lambda>ki. cache ! ((inv_pos ! (i * k + ki)) * m + j))) [0..<m])
               [0..<n]) seeds))"

definition draw_from_internals ::
    "hash_env \<Rightarrow> nat \<Rightarrow> DrawInternals \<Rightarrow> u64 list \<Rightarrow> ENNError + f64 list list list" where
  "draw_from_internals env m d seeds =
     (if di_k d = 0 then Inr (map (\<lambda>_. map (map ms_mu) (di_stats d)) seeds)
      else case unique_index_inverse (map word_of_nat (concat (di_idx d))) of
          Inl _ \<Rightarrow> Inl EPanic
        | Inr (unique, inv_pos) \<Rightarrow>
            if m = 1 then draw_from_internals_m1 env d seeds unique inv_pos
            else draw_from_internals_any env m d seeds unique inv_pos)"

text \<open>The draws of the internals, on the natural scale, with the labels.\<close>

definition natural_draws ::
    "('f, 'r) posterior_env \<Rightarrow> u64 list \<Rightarrow> DrawInternals \<Rightarrow> 'f EpistemicNearestNeighbors
      \<Rightarrow> ((ENNError + f64 list list list \<times> nat list list) \<times> 'f EpistemicNearestNeighbors) option" where
  "natural_draws env seeds d m =
     Some (rbind (draw_from_internals (pe_hash env) (em_metrics m) d seeds) (\<lambda>draws.
       rbind (if em_bounded m then inverse_draws (me_bounds env) (em_y_bounds m) (em_metrics m, draws) else Inr draws)
         (\<lambda>out. Inr (out, di_idx d))), m)"

definition posterior_function_draw ::
    "('f, 'r) posterior_env \<Rightarrow> 'f EpistemicNearestNeighbors \<Rightarrow> ematrix \<Rightarrow> ENNParams \<Rightarrow> u64 list \<Rightarrow> PosteriorFlags
      \<Rightarrow> ((ENNError + f64 list list list \<times> nat list list) \<times> 'f EpistemicNearestNeighbors) option" where
  "posterior_function_draw env m x params seeds flags =
     then_step (compute_posterior_internals env m x params flags) (natural_draws env seeds)"

section \<open>What-if rows\<close>

definition scaled_or_same :: "bool \<Rightarrow> f64 list \<Rightarrow> ematrix \<Rightarrow> ENNError + ematrix" where
  "scaled_or_same scale s x = param_err (scaled_by scale s x)"

definition pairwise_sq_l2 ::
    "('f, 'r) posterior_env \<Rightarrow> ematrix \<Rightarrow> ematrix \<Rightarrow> bool \<Rightarrow> f64 list \<Rightarrow> ENNError + f64 list list" where
  "pairwise_sq_l2 env x y scale s =
     rbind (scaled_or_same scale s x) (\<lambda>xs. rbind (scaled_or_same scale s y) (\<lambda>ys.
       let xx = map (\<lambda>r. pe_dot env r r) (snd xs); yy = map (\<lambda>r. pe_dot env r r) (snd ys);
           xy = pe_mat_mul_t env (snd xs) (snd ys)
       in Inr (map (\<lambda>i. map (\<lambda>j. fmax (fsub (fadd (xx ! i) (yy ! j)) (fmul (flit 2 1) (xy ! i ! j))) fzero)
            [0..<length yy]) [0..<length xx])))"

definition conditional_neighbor_batch_ready :: "f64 list list \<Rightarrow> f64 list list \<Rightarrow> nat \<Rightarrow> nat \<Rightarrow> ENNError + bool" where
  "conditional_neighbor_batch_ready dt dw batch candidates =
     (if candidates = 0 \<or> batch = 0 then Inr False
      else if \<not> list_all (list_all is_finite) dt \<or> \<not> list_all (list_all is_finite) dw then Inl EParameter
      else Inr True)"

text \<open>The nearest of the candidates of one query, without the first when the nearest is excluded.\<close>

definition conditional_selection ::
    "('f, 'r) posterior_env \<Rightarrow> nat \<Rightarrow> nat \<Rightarrow> bool \<Rightarrow> (f64 \<times> nat) list \<Rightarrow> (f64 \<times> nat) list" where
  "conditional_selection env search_k k exclude combined =
     (let le = (\<lambda>a b. total_key (fst a) \<le> total_key (fst b));
          sel_end = min search_k (length combined);
          order = (if sel_end > 0 \<and> sel_end < length combined
            then (let c = pe_select env (sel_end - 1) combined in sort_le le (take sel_end c) @ drop sel_end c)
            else sort_le le combined);
          sel = (if exclude \<and> sel_end > 0 then drop 1 (take sel_end order) else take sel_end order)
      in take k sel)"

definition conditional_row_y :: "'f EpistemicNearestNeighbors \<Rightarrow> ematrix \<Rightarrow> nat \<Rightarrow> ENNError + f64 list" where
  "conditional_row_y m yw i =
     (let j = i - em_num_obs m in
      if i < em_num_obs m then expected (eb_row_y i (em_backend m))
      else if j < length (snd yw) then Inr (snd yw ! j) else Inl EPanic)"

definition get_conditional_neighbor_data ::
    "('f, 'r) posterior_env \<Rightarrow> 'f EpistemicNearestNeighbors \<Rightarrow> ematrix \<Rightarrow> ematrix \<Rightarrow> ematrix \<Rightarrow> ENNParams \<Rightarrow> PosteriorFlags
      \<Rightarrow> ((ENNError + NeighborData option) \<times> 'f EpistemicNearestNeighbors) option" where
  "get_conditional_neighbor_data env m x xw yw params flags =
     (let n_train = em_num_obs m; n_all = n_train + length (snd xw); exclude = pf_exclude_nearest flags;
          k = as_usize (k_num_neighbors params); search_k = min (k + (if exclude then 1 else 0)) n_all;
          train_k = min search_k n_train; batch = length (snd x)
      in if exclude \<and> n_all \<le> 1 then Some (Inl EParameter, m)
         else if search_k = 0 then Some (Inr None, m)
         else then_step (if train_k > 0 then posterior_index_search (model_env.truncate env) m x (as_i32 (int train_k)) False (pf_tie_break_neighbors flags)
                         else Some (Inr (replicate batch ([], [])), m)) (\<lambda>found m1.
           Some (rbind (if snd xw = [] then Inr (replicate batch []) else pairwise_sq_l2 env x xw (em_scale_x m1) (em_x_scale m1)) (\<lambda>dw.
             rbind (conditional_neighbor_batch_ready (map fst found) dw batch
                      (if train_k > 0 then length (snd xw) + train_k else length (snd xw))) (\<lambda>ready.
               if \<not> ready then Inr None
               else let rows = map (\<lambda>((ds, ls), w). conditional_selection env search_k k exclude
                          (zip ds (map as_usize ls) @ zip w [n_train..<n_train + length w])) (zip found dw);
                        k_out = length (hd rows)
                 in if k_out = 0 then Inr None
                    else rbind (map_res (map_res (\<lambda>p. conditional_row_y m1 yw (snd p))) rows) (\<lambda>ys.
                      Inr (Some \<lparr>nd_dist2s = map (map fst) rows, nd_idx = map (map snd) rows, nd_y = ys, nd_k = k_out\<rparr>)))), m1)))"

definition compute_scale_for_conditional :: "('f, 'r) posterior_env \<Rightarrow> ematrix \<Rightarrow> ematrix \<Rightarrow> f64 list" where
  "compute_scale_for_conditional env ty yw =
     (let rows = snd ty @ snd yw in
      if length rows < 2 then ones (fst ty)
      else map (\<lambda>j. let std = fsqrt (pe_variance env (map (\<lambda>r. r ! j) rows)) in
             if is_finite std \<and> flt fzero std then std else flit 1 1) [0..<fst ty])"

definition conditional_invalid :: "'f EpistemicNearestNeighbors \<Rightarrow> ematrix \<Rightarrow> ematrix \<Rightarrow> ematrix \<Rightarrow> ENNError option" where
  "conditional_invalid m x xw yw =
     (if \<not> list_all (list_all is_finite) (snd x) \<or> \<not> list_all (list_all is_finite) (snd xw) \<or> \<not> list_all (list_all is_finite) (snd yw)
      then Some EParameter
      else if fst x \<noteq> em_dim m then Some (wrong_width m x)
      else if fst xw \<noteq> em_dim m then Some (wrong_width m xw)
      else if fst yw \<noteq> em_metrics m then Some (EShape [length (snd yw), em_metrics m] [length (snd yw), fst yw])
      else if length (snd xw) \<noteq> length (snd yw) then Some EParameter
      else None)"

definition compute_conditional_posterior_internals ::
    "('f, 'r) posterior_env \<Rightarrow> 'f EpistemicNearestNeighbors \<Rightarrow> ematrix \<Rightarrow> ematrix \<Rightarrow> ematrix \<Rightarrow> ENNParams \<Rightarrow> PosteriorFlags
      \<Rightarrow> ((ENNError + DrawInternals) \<times> 'f EpistemicNearestNeighbors) option" where
  "compute_conditional_posterior_internals env m x xw yw params flags =
     (if snd xw = [] then compute_posterior_internals env m x params flags
      else case conditional_invalid m x xw yw of
          Some e \<Rightarrow> Some (Inl e, m)
        | None \<Rightarrow>
            then_step (get_conditional_neighbor_data env m x xw yw params flags) (\<lambda>found m1.
              case found of
                None \<Rightarrow> Some (Inr (empty_posterior_internals m1 (length (snd x))), m1)
              | Some nd \<Rightarrow>
                  Some (rbind (eb_train_rows_at [0..<em_num_obs m1] (em_backend m1)) (\<lambda>(tx, ty, tv).
                    compute_weighted_posterior m1 nd params (pf_observation_noise flags)
                      (Some (compute_scale_for_conditional env ty yw))), m1)))"

definition warped_whatif :: "('f, 'r) posterior_env \<Rightarrow> 'f EpistemicNearestNeighbors \<Rightarrow> ematrix \<Rightarrow> ENNError + ematrix" where
  "warped_whatif env m yw = (if em_bounded m then warp_y (me_bounds env) yw (em_y_bounds m) else Inr yw)"

definition conditional_posterior ::
    "('f, 'r) posterior_env \<Rightarrow> 'f EpistemicNearestNeighbors \<Rightarrow> ematrix \<Rightarrow> ematrix \<Rightarrow> ematrix \<Rightarrow> ENNParams \<Rightarrow> PosteriorFlags
      \<Rightarrow> ((ENNError + ENNNormal) \<times> 'f EpistemicNearestNeighbors) option" where
  "conditional_posterior env m xw yw x params flags =
     (case warped_whatif env m yw of
        Inl e \<Rightarrow> Some (Inl e, m)
      | Inr wy \<Rightarrow>
          then_step (compute_conditional_posterior_internals env m x xw wy params flags) (\<lambda>d m1.
            Some (Inr (natural_normal env m1 (light_of_internals (em_metrics m1) d)), m1)))"

definition conditional_posterior_function_draw ::
    "('f, 'r) posterior_env \<Rightarrow> 'f EpistemicNearestNeighbors \<Rightarrow> ematrix \<Rightarrow> ematrix \<Rightarrow> ematrix \<Rightarrow> ENNParams \<Rightarrow> u64 list \<Rightarrow> PosteriorFlags
      \<Rightarrow> ((ENNError + f64 list list list \<times> nat list list) \<times> 'f EpistemicNearestNeighbors) option" where
  "conditional_posterior_function_draw env m xw yw x params seeds flags =
     (case warped_whatif env m yw of
        Inl e \<Rightarrow> Some (Inl e, m)
      | Inr wy \<Rightarrow>
          then_step (compute_conditional_posterior_internals env m x xw wy params flags) (natural_draws env seeds))"

end
