(* ===== verification/DrawLaws.thy ===== *)
theory DrawLaws
  imports PosteriorDraw
begin

text \<open>
  The function draws of the posterior (\<open>rust/crates/ennx/src/posterior/draw_compute.rs\<close>): a draw depends
  on a query, its neighbours and the seed only.
\<close>

section \<open>Draws\<close>

lemma nth_of_concat_blocks:
  assumes "i < length xss" "\<And>xs. xs \<in> set xss \<Longrightarrow> length xs = k" "j < k"
  shows "concat xss ! (i * k + j) = xss ! i ! j"
  using assms
proof (induction xss arbitrary: i)
  case (Cons xs xss)
  show ?case
  proof (cases i)
    case 0
    then show ?thesis using Cons.prems by (simp add: nth_append)
  next
    case (Suc l)
    have len: "length xs = k" using Cons.prems(2) by simp
    have "concat (xs # xss) ! (i * k + j) = concat xss ! (l * k + j)" using len Suc by (simp add: nth_append)
    then show ?thesis using Cons.IH [of l] Cons.prems Suc by simp
  qed
qed simp

lemma unique_cache_nth:
  assumes "p < length us" "j < m"
  shows "unique_cache env seed us m ! (p * m + j) = normal_for_seed_index_metric env seed (us ! p) j"
  unfolding unique_cache_def by (subst nth_of_concat_blocks [where k = m]) (use assms in auto)

lemma draw_value_cong:
  "(\<And>ki. ki < k \<Longrightarrow> u ki = v ki) \<Longrightarrow> draw_value s k u = draw_value s k v"
  unfolding draw_value_def by (rule arg_cong [where f = "\<lambda>x. fadd (ms_mu s) (fmul (draw_scale s) x)"], rule foldl_cong) simp_all

text \<open>Where the normal value of a neighbour is in the cache of the distinct rows.\<close>

lemma unique_rows:
  assumes "length idx = n" "\<forall>r\<in>set idx. length r = k"
  obtains unique inv_pos where "unique_index_inverse (map word_of_nat (concat idx)) = Inr (unique, inv_pos)"
    "\<And>i ki. i < n \<Longrightarrow> ki < k \<Longrightarrow> inv_pos ! (i * k + ki) < length unique \<and>
      unique ! (inv_pos ! (i * k + ki)) = word_of_nat (idx ! i ! ki)"
proof -
  let ?data = "map word_of_nat (concat idx) :: u64 list"
  obtain unique pos where run: "unique_index_inverse ?data = Inr (unique, map pos ?data)"
    and pos: "\<forall>w\<in>set ?data. pos w < length unique \<and> unique ! pos w = w"
    using unique_index_inverse_spec [of ?data] by blast
  have len: "length (concat idx) = n * k"
  proof -
    have "map length idx = replicate n k" using assms by (intro replicate_eqI [symmetric, THEN sym]) auto
    then show ?thesis by (simp add: length_concat sum_list_replicate)
  qed
  have place: "i * k + ki < n * k" if "i < n" "ki < k" for i ki
  proof -
    have "i * k + ki < Suc i * k" using that(2) by simp
    also have "\<dots> \<le> n * k" using that(1) by (intro mult_le_mono1) simp
    finally show ?thesis .
  qed
  have "map pos ?data ! (i * k + ki) < length unique \<and> unique ! (map pos ?data ! (i * k + ki)) = word_of_nat (idx ! i ! ki)"
    if "i < n" "ki < k" for i ki
  proof -
    have at: "concat idx ! (i * k + ki) = idx ! i ! ki" using that assms by (intro nth_of_concat_blocks) auto
    have bound: "i * k + ki < length ?data" using place [OF that] len by simp
    then have "?data ! (i * k + ki) \<in> set ?data" by (rule nth_mem)
    moreover have "?data ! (i * k + ki) = word_of_nat (idx ! i ! ki)" using bound at by simp
    ultimately show ?thesis using pos bound by (metis nth_map)
  qed
  then show ?thesis using run that by blast
qed

text \<open>C6: A draw is the mean of its query plus the scaled sum of one normal value per neighbour, and that
  value is a function of the seed, the row of the neighbour and the metric alone: neither the other
  queries of the call nor the cache of distinct rows matter, and the separate path for a single metric
  gives what the path for any number of metrics gives. For a call with queries and neighbours.\<close>

theorem draws_use_one_normal_per_row:
  assumes "0 < di_k d" "length (di_idx d) = length (di_stats d)" "\<forall>r\<in>set (di_idx d). length r = di_k d"
    and "di_stats d \<noteq> []" "0 < m"
  shows "draw_from_internals env m d seeds = Inr (map (\<lambda>seed. map (\<lambda>i. map (\<lambda>j.
      draw_value (di_stats d ! i ! j) (di_k d) (\<lambda>ki. normal_for_seed_index_metric env seed (word_of_nat (di_idx d ! i ! ki)) j))
      [0..<m]) [0..<length (di_stats d)]) seeds)"
proof -
  let ?n = "length (di_stats d)" and ?k = "di_k d"
  let ?direct = "\<lambda>seed i j. draw_value (di_stats d ! i ! j) ?k
    (\<lambda>ki. normal_for_seed_index_metric env seed (word_of_nat (di_idx d ! i ! ki)) j)"
  obtain unique inv_pos where run: "unique_index_inverse (map word_of_nat (concat (di_idx d))) = Inr (unique, inv_pos)"
    and at: "\<And>i ki. i < ?n \<Longrightarrow> ki < ?k \<Longrightarrow> inv_pos ! (i * ?k + ki) < length unique \<and>
      unique ! (inv_pos ! (i * ?k + ki)) = word_of_nat (di_idx d ! i ! ki)"
    using unique_rows [OF assms(2,3)] by blast
  have any: "draw_value (di_stats d ! i ! j) ?k (\<lambda>ki. unique_cache env seed unique m ! (inv_pos ! (i * ?k + ki) * m + j)) = ?direct seed i j"
    if "i < ?n" "j < m" for seed i j
    using at [OF that(1)] that(2) by (intro draw_value_cong) (simp add: unique_cache_nth)
  have one: "draw_value (di_stats d ! i ! 0) ?k (\<lambda>ki. map (\<lambda>u. normal_for_seed_index_metric env seed u 0) unique ! (inv_pos ! (i * ?k + ki))) = ?direct seed i 0"
    if "i < ?n" for seed i
    using at [OF that] by (intro draw_value_cong) simp
  show ?thesis
  proof (cases "m = 1")
    case True
    then show ?thesis using assms(1,4) run one by (simp add: draw_from_internals_def draw_from_internals_m1_def Let_def)
  next
    case False
    then show ?thesis using assms(1,4,5) run any by (simp add: draw_from_internals_def draw_from_internals_any_def Let_def)
  qed
qed

text \<open>Two queries with one common neighbour, and one metric.\<close>

theorem draws_use_one_normal_per_row_witness:
  "draw_from_internals flat_libm 1 \<lparr>di_idx = [[3], [3]], di_k = 1,
      di_stats = [[\<lparr>ms_w = [infinity], ms_l2 = infinity, ms_mu = fzero, ms_se = fzero, ms_se_epi = fzero, ms_se_ale = fzero\<rparr>],
        [\<lparr>ms_w = [fzero], ms_l2 = fzero, ms_mu = infinity, ms_se = fzero, ms_se_epi = fzero, ms_se_ale = fzero\<rparr>]]\<rparr> [7]
   = Inr [[[draw_value \<lparr>ms_w = [infinity], ms_l2 = infinity, ms_mu = fzero, ms_se = fzero, ms_se_epi = fzero, ms_se_ale = fzero\<rparr> 1
              (\<lambda>ki. normal_for_seed_index_metric flat_libm 7 (word_of_nat ([3] ! ki)) 0)],
           [draw_value \<lparr>ms_w = [fzero], ms_l2 = fzero, ms_mu = infinity, ms_se = fzero, ms_se_epi = fzero, ms_se_ale = fzero\<rparr> 1
              (\<lambda>ki. normal_for_seed_index_metric flat_libm 7 (word_of_nat ([3] ! ki)) 0)]]]"
  by (subst draws_use_one_normal_per_row) (simp_all add: upt_conv_Cons)

end
