(* ===== verification/EnnSyncLaws.thy ===== *)
theory EnnSyncLaws
  imports EnnModelLaws
begin

text \<open>
  What the index of a model in memory holds (\<open>rust/crates/ennx/src/index.rs\<close>,
  \<open>backend/in_memory.rs\<close>): after a synchronisation the rows of the model, scaled if the model
  scales, and in a model that does not scale never by way of the incremental branch.
\<close>

text \<open>The documented behaviour of the library: a new and a reset index are empty, an addition
  appends its vectors, a search changes nothing. \<open>contents\<close> are the vectors stored, one after the other.\<close>

definition faiss_contract :: "'f faiss_ops \<Rightarrow> ('f \<Rightarrow> f32 list) \<Rightarrow> bool" where
  "faiss_contract ops contents \<longleftrightarrow>
     (\<forall>d h. faiss_new ops d = Some h \<longrightarrow> faiss_len ops h = 0 \<and> contents h = []) \<and>
     (\<forall>h h'. faiss_reset ops h = (True, h') \<longrightarrow> faiss_len ops h' = 0 \<and> contents h' = []) \<and>
     (\<forall>n xs h h'. faiss_add ops n xs h = (True, h') \<longrightarrow> faiss_len ops h' = faiss_len ops h + n \<and> contents h' = contents h @ xs) \<and>
     (\<forall>n k q h r h'. faiss_search ops n k q h = (r, h') \<longrightarrow> faiss_len ops h' = faiss_len ops h \<and> contents h' = contents h)"

lemma faiss_contractD:
  assumes "faiss_contract ops contents"
  shows "faiss_new ops d = Some h \<Longrightarrow> faiss_len ops h = 0 \<and> contents h = []"
    "faiss_reset ops h = (True, h') \<Longrightarrow> faiss_len ops h' = 0 \<and> contents h' = []"
    "faiss_add ops n xs h = (True, h') \<Longrightarrow> faiss_len ops h' = faiss_len ops h + n \<and> contents h' = contents h @ xs"
    "faiss_search ops n k q h = (r, h') \<Longrightarrow> faiss_len ops h' = faiss_len ops h \<and> contents h' = contents h"
  using assms by (simp_all add: faiss_contract_def)

lemma list_faiss_contract: "faiss_contract list_faiss snd"
  by (auto simp: faiss_contract_def list_faiss_def)

definition stored_vectors :: "('f \<Rightarrow> f32 list) \<Rightarrow> 'f ENNIndex \<Rightarrow> f32 list" where
  "stored_vectors contents ix = contents (fb_handle (ix_inner ix))"

definition index_shape :: "'f ENNIndex \<Rightarrow> nat \<times> nat \<times> bool" where
  "index_shape ix = (fb_dim (ix_inner ix), ix_dim ix, ix_scale_x ix)"

section \<open>Operations of the index\<close>

lemma faiss_add_rows_holds:
  assumes "faiss_contract ops contents" "faiss_add_rows ops (d, rows) b = (Inr u, b')"
  shows "fb_dim b' = fb_dim b" "contents (fb_handle b') = contents (fb_handle b) @ arr2_rows_to_f32 rows"
    "faiss_backend_len ops b' = faiss_backend_len ops b + length rows"
  using assms faiss_contractD(3) [OF assms(1)]
  by (auto simp: faiss_add_rows_def faiss_backend_len_def arr2_rows_to_f32_def Let_def split: if_splits prod.splits)

lemma no_vectors: "no_elements (d, rows) \<Longrightarrow> 0 < d \<Longrightarrow> rows = []"
  by (simp add: no_elements_def)

lemma faiss_rebuild_holds:
  assumes "faiss_contract ops contents" "faiss_rebuild ops (d, rows) b = (Inr u, b')"
  shows "fb_dim b' = fb_dim b"
    "contents (fb_handle b') = (if no_elements (d, rows) then [] else arr2_rows_to_f32 rows)"
    "faiss_backend_len ops b' = (if no_elements (d, rows) then 0 else length rows)"
proof -
  obtain ok h where reset: "faiss_reset ops (fb_handle b) = (ok, h)" by fastforce
  let ?b = "b\<lparr>fb_handle := h\<rparr>"
  have ok: "ok" and steps: "if no_elements (d, rows) then b' = ?b else faiss_add_rows ops (d, rows) ?b = (Inr (), b')"
    using assms(2) reset by (auto simp: faiss_rebuild_def Let_def split: if_splits)
  have empty: "faiss_len ops h = 0" "contents h = []" using faiss_contractD(2) [OF assms(1)] reset ok by simp_all
  show "fb_dim b' = fb_dim b" "contents (fb_handle b') = (if no_elements (d, rows) then [] else arr2_rows_to_f32 rows)"
    "faiss_backend_len ops b' = (if no_elements (d, rows) then 0 else length rows)"
    using steps empty faiss_add_rows_holds [OF assms(1), of d rows ?b "()" b']
    by (auto simp: faiss_backend_len_def split: if_splits)
qed

lemma rebuild_holds:
  assumes "faiss_contract ops contents" "rebuild_from_scaled ops (d, rows) scale ix = (Inr u, ix')"
  shows "index_shape ix' = index_shape ix" "ix_x_scale ix' = scale"
    "stored_vectors contents ix' = (if no_elements (d, rows) then [] else arr2_rows_to_f32 rows)"
    "index_len ops ix' = (if no_elements (d, rows) then 0 else length rows)"
proof -
  obtain v b where b: "faiss_rebuild ops (d, rows) (ix_inner ix) = (Inr v, b)" "ix' = ix\<lparr>ix_inner := b, ix_x_scale := scale\<rparr>"
    using assms(2) by (auto simp: rebuild_from_scaled_def split: prod.splits sum.splits)
  show "index_shape ix' = index_shape ix" "ix_x_scale ix' = scale"
    "stored_vectors contents ix' = (if no_elements (d, rows) then [] else arr2_rows_to_f32 rows)"
    "index_len ops ix' = (if no_elements (d, rows) then 0 else length rows)"
    using faiss_rebuild_holds [OF assms(1) b(1)] by (simp_all add: b(2) index_shape_def stored_vectors_def index_len_def)
qed

lemma index_new_holds:
  assumes "faiss_contract ops contents" "index_new ops (d, rows) d scale scale_x driver = Inr ix"
  shows "index_shape ix = (d, d, scale_x)" "ix_x_scale ix = scale"
    "stored_vectors contents ix = (if no_elements (d, rows) then [] else arr2_rows_to_f32 rows)"
    "index_len ops ix = (if no_elements (d, rows) then 0 else length rows)"
proof -
  obtain b where b: "faiss_backend_new ops d (d, rows) = Inr b" "index_shape ix = (fb_dim b, d, scale_x)"
    "ix_x_scale ix = scale" "ix_inner ix = b"
    using assms(2) by (auto simp: index_new_def rbind_Inr_conv knn_backend_new_def index_shape_def split: if_splits)
  obtain h where h: "faiss_new ops d = Some h"
    using b(1) by (auto simp: faiss_backend_new_def split: option.splits)
  let ?b = "\<lparr>fb_handle = h, fb_dim = d\<rparr>"
  have steps: "if no_elements (d, rows) then b = ?b else faiss_add_rows ops (d, rows) ?b = (Inr (), b)"
    using b(1) h by (auto simp: faiss_backend_new_def Let_def split: if_splits prod.splits sum.splits)
  have empty: "faiss_len ops h = 0" "contents h = []" using faiss_contractD(1) [OF assms(1) h] by simp_all
  show "index_shape ix = (d, d, scale_x)" "ix_x_scale ix = scale"
    "stored_vectors contents ix = (if no_elements (d, rows) then [] else arr2_rows_to_f32 rows)"
    "index_len ops ix = (if no_elements (d, rows) then 0 else length rows)"
    using steps empty b(2-4) faiss_add_rows_holds [OF assms(1), of d rows ?b "()" b]
    by (auto simp: stored_vectors_def index_len_def faiss_backend_len_def split: if_splits)
qed

lemma search_holds:
  assumes "faiss_contract ops contents" "index_search ops q k exclude ix = (r, ix')"
  shows "index_shape ix' = index_shape ix" "ix_x_scale ix' = ix_x_scale ix" "stored_vectors contents ix' = stored_vectors contents ix"
    "index_len ops ix' = index_len ops ix"
proof -
  have backend: "fb_dim b' = fb_dim b \<and> contents (fb_handle b') = contents (fb_handle b) \<and> faiss_backend_len ops b' = faiss_backend_len ops b"
    if "faiss_backend_search ops q1 k1 k2 b = (r1, b')" for q1 k1 k2 b r1 b'
    using that faiss_contractD(4) [OF assms(1)]
    by (auto simp: faiss_backend_search_def faiss_backend_len_def Let_def split: if_splits prod.splits option.splits)
  have "ix' = ix \<or> (\<exists>q1 k1 k2 r1 b'. faiss_backend_search ops q1 k1 k2 (ix_inner ix) = (r1, b') \<and> ix' = ix\<lparr>ix_inner := b'\<rparr>)"
    using assms(2) by (simp add: index_search_def Let_def split: if_splits sum.splits prod.splits) (metis surj_pair)+
  then show "index_shape ix' = index_shape ix" "ix_x_scale ix' = ix_x_scale ix" "stored_vectors contents ix' = stored_vectors contents ix"
    "index_len ops ix' = index_len ops ix"
    using backend by (auto simp: index_shape_def stored_vectors_def index_len_def)
qed

section \<open>The index follows the rows\<close>

text \<open>A model that scales marks its index stale when its rows change; one that does not scale has
  an index that holds the rows up to some point.\<close>

definition scaled_rows :: "'f EpistemicNearestNeighbors \<Rightarrow> 'f InMemoryEnnBackend \<Rightarrow> f64 list list" where
  "scaled_rows m b = (if em_scale_x m then map (\<lambda>r. map2 fdiv r (em_x_scale m)) (rs_rows (im_x b)) else rs_rows (im_x b))"

definition index_holds :: "'f faiss_ops \<Rightarrow> ('f \<Rightarrow> f32 list) \<Rightarrow> 'f EpistemicNearestNeighbors \<Rightarrow> 'f InMemoryEnnBackend \<Rightarrow> bool" where
  "index_holds ops contents m b \<longleftrightarrow>
     index_len ops (im_index b) = in_memory_len b \<and> stored_vectors contents (im_index b) = arr2_rows_to_f32 (scaled_rows m b) \<and>
     (em_scale_x m \<longrightarrow> ix_x_scale (im_index b) = em_x_scale m)"

definition index_follows :: "'f faiss_ops \<Rightarrow> ('f \<Rightarrow> f32 list) \<Rightarrow> 'f EpistemicNearestNeighbors \<Rightarrow> 'f InMemoryEnnBackend \<Rightarrow> bool" where
  "index_follows ops contents m b \<longleftrightarrow> index_shape (im_index b) = (em_dim m, em_dim m, em_scale_x m) \<and>
     (if em_scale_x m then im_stale b \<or> em_dim m = 0 \<or> index_holds ops contents m b
      else index_len ops (im_index b) \<le> in_memory_len b \<and> index_len ops (im_index b) \<le> im_synced b \<and>
        stored_vectors contents (im_index b) = arr2_rows_to_f32 (take (index_len ops (im_index b)) (rs_rows (im_x b))))"

definition model_index_ok :: "'f faiss_ops \<Rightarrow> ('f \<Rightarrow> f32 list) \<Rightarrow> 'f EpistemicNearestNeighbors \<Rightarrow> bool" where
  "model_index_ok ops contents m \<longleftrightarrow> (\<forall>b. em_backend m = InMemory b \<longrightarrow> index_follows ops contents m b)"

text \<open>The synchronisation of a model that does not scale, without its incremental branch.\<close>

definition rebuild_only :: "'f faiss_ops \<Rightarrow> f64 list \<Rightarrow> 'f InMemoryEnnBackend \<Rightarrow> (ENNError + unit) \<times> 'f InMemoryEnnBackend" where
  "rebuild_only ops scale b =
     (let b1 = b\<lparr>im_synced := index_len ops (im_index b)\<rparr> in
      if index_len ops (im_index b) = in_memory_len b then (Inr (), b1)
      else case rebuilt ops (storage_view (im_x b)) scale b1 of
          (Inl e, b2) \<Rightarrow> (Inl e, b2)
        | (Inr _, b2) \<Rightarrow> (Inr (), b2\<lparr>im_synced := in_memory_len b\<rparr>))"

lemma sync_rebuilds:
  assumes "index_len ops (im_index b) \<le> in_memory_len b" "index_len ops (im_index b) \<le> im_synced b"
  shows "in_memory_ensure_sync ops False scale b = rebuild_only ops scale b"
proof (cases "index_len ops (im_index b) = in_memory_len b")
  case True
  then show ?thesis using assms(2) by (auto simp: in_memory_ensure_sync_def rebuild_only_def Let_def min_absorb2)
next
  case False
  then show ?thesis using assms by (auto simp: in_memory_ensure_sync_def rebuild_only_def Let_def min_absorb2)
qed

lemma rebuilt_Inr:
  assumes "faiss_contract ops contents" "rebuilt ops (d, rows) scale b = (Inr u, b')"
  shows "data_of b' = data_of b" "im_stale b' = im_stale b" "im_synced b' = im_synced b"
    "index_shape (im_index b') = index_shape (im_index b)" "ix_x_scale (im_index b') = scale"
    "stored_vectors contents (im_index b') = (if no_elements (d, rows) then [] else arr2_rows_to_f32 rows)"
    "index_len ops (im_index b') = (if no_elements (d, rows) then 0 else length rows)"
proof -
  obtain ix where ix: "rebuild_from_scaled ops (d, rows) scale (im_index b) = (Inr (), ix)" "b' = b\<lparr>im_index := ix\<rparr>"
    using assms(2) by (auto simp: rebuilt_def Let_def split: prod.splits)
  show "data_of b' = data_of b" "im_stale b' = im_stale b" "im_synced b' = im_synced b"
    "index_shape (im_index b') = index_shape (im_index b)" "ix_x_scale (im_index b') = scale"
    "stored_vectors contents (im_index b') = (if no_elements (d, rows) then [] else arr2_rows_to_f32 rows)"
    "index_len ops (im_index b') = (if no_elements (d, rows) then 0 else length rows)"
    using rebuild_holds [OF assms(1) ix(1)] by (simp_all add: ix(2))
qed

lemma scale_length: "length (scale_from_moments n k s c) = k"
  by (cases s) (simp add: scale_from_moments_def ones_def)

lemma x_scale_length: "x_moments_ok m b \<Longrightarrow> length (em_x_scale m) = em_dim m"
  by (auto simp: x_moments_ok_def scale_length ones_def split: if_splits)

text \<open>A successful synchronisation leaves the rows in the index.\<close>

lemma sync_scaled:
  assumes "faiss_contract ops contents" "data_ok m b" "x_moments_ok m b" "index_follows ops contents m b" "em_scale_x m"
    "in_memory_ensure_sync ops True (em_x_scale m) b = (Inr (), b')"
  shows "index_follows ops contents m b' \<and> (0 < em_dim m \<longrightarrow> index_holds ops contents m b')"
proof (cases "im_stale b")
  case False
  then show ?thesis using assms(4-6) by (auto simp: in_memory_ensure_sync_def Let_def index_follows_def)
next
  case True
  let ?rows = "map (\<lambda>r. map2 fdiv r (em_x_scale m)) (rs_rows (im_x b))"
  have "divide_by (storage_view (im_x b)) (em_x_scale m) = Inr (em_dim m, ?rows)"
    using data_okD(2) [OF assms(2)] x_scale_length [OF assms(3)] by (simp add: divide_by_def storage_view_def)
  then obtain b1 where b1: "rebuilt ops (em_dim m, ?rows) (em_x_scale m) b = (Inr (), b1)"
    "b' = b1\<lparr>im_stale := False, im_synced := in_memory_len b\<rparr>"
    using assms(6) True by (auto simp: in_memory_ensure_sync_def Let_def split: prod.splits sum.splits)
  note built = rebuilt_Inr [OF assms(1) b1(1)]
  have "index_holds ops contents m b'" if "0 < em_dim m"
    using that built(5-7) no_vectors [of "em_dim m" ?rows] assms(5)
    by (auto simp: index_holds_def b1(2) in_memory_len_def scaled_rows_def data_of_simps [OF built(1)] arr2_rows_to_f32_def)
  moreover have "index_shape (im_index b') = (em_dim m, em_dim m, em_scale_x m)"
    using built(4) assms(4) by (simp add: b1(2) index_follows_def)
  ultimately show ?thesis using assms(5) by (auto simp: index_follows_def)
qed

lemma sync_unscaled:
  assumes "faiss_contract ops contents" "data_ok m b" "index_follows ops contents m b" "\<not> em_scale_x m"
    "in_memory_ensure_sync ops False (em_x_scale m) b = (Inr (), b')"
  shows "index_follows ops contents m b' \<and> (0 < em_dim m \<longrightarrow> index_holds ops contents m b')"
proof -
  have old: "index_len ops (im_index b) \<le> in_memory_len b" "index_len ops (im_index b) \<le> im_synced b"
    "stored_vectors contents (im_index b) = arr2_rows_to_f32 (take (index_len ops (im_index b)) (rs_rows (im_x b)))"
    using assms(3,4) by (simp_all add: index_follows_def)
  have step: "rebuild_only ops (em_x_scale m) b = (Inr (), b')"
    using assms(5) by (simp add: sync_rebuilds [OF old(1,2)])
  show ?thesis
  proof (cases "index_len ops (im_index b) = in_memory_len b")
    case True
    then have "b' = b\<lparr>im_synced := index_len ops (im_index b)\<rparr>" using step by (simp add: rebuild_only_def Let_def)
    then show ?thesis
      using True assms(3,4) old(3) by (simp add: index_follows_def index_holds_def in_memory_len_def scaled_rows_def)
  next
    case False
    obtain b1 where b1: "rebuilt ops (em_dim m, rs_rows (im_x b)) (em_x_scale m) (b\<lparr>im_synced := index_len ops (im_index b)\<rparr>) = (Inr (), b1)"
      "b' = b1\<lparr>im_synced := in_memory_len b\<rparr>"
      using step False data_okD(2) [OF assms(2)]
      by (auto simp: rebuild_only_def Let_def storage_view_def split: prod.splits sum.splits)
    note built = rebuilt_Inr [OF assms(1) b1(1)]
    have data: "data_of b1 = data_of b" using built(1) by simp
    have shape: "index_shape (im_index b') = (em_dim m, em_dim m, em_scale_x m)"
      using built(4) assms(3) by (simp add: b1(2) index_follows_def)
    have "index_holds ops contents m b'" if "0 < em_dim m"
      using that built(6,7) no_vectors [of "em_dim m" "rs_rows (im_x b)"] assms(4)
      by (auto simp: index_holds_def b1(2) in_memory_len_def scaled_rows_def data_of_simps [OF data] arr2_rows_to_f32_def)
    moreover have "index_follows ops contents m b'"
      using shape assms(4) built(6,7)
      by (auto simp: index_follows_def b1(2) in_memory_len_def data_of_simps [OF data] arr2_rows_to_f32_def)
    ultimately show ?thesis by blast
  qed
qed

section \<open>Through the calls\<close>

lemma index_follows_backend:
  assumes "index_follows ops contents m b"
  shows "index_follows ops contents (m\<lparr>em_backend := e, em_meta := meta\<rparr>) b"
  using assms by (cases "em_scale_x m") (auto simp: index_follows_def index_holds_def scaled_rows_def)

lemma sync_follows:
  assumes "faiss_contract ops contents" "data_ok m b" "x_moments_ok m b" "index_follows ops contents m b"
    "in_memory_ensure_sync ops (em_scale_x m) (em_x_scale m) b = (Inr (), b')"
  shows "index_follows ops contents m b'" "0 < em_dim m \<Longrightarrow> index_holds ops contents m b'"
  using sync_scaled [OF assms(1-4), of b'] sync_unscaled [OF assms(1,2,4), of b'] assms(5) by (cases "em_scale_x m"; simp)+

lemma search_follows:
  assumes "faiss_contract ops contents" "in_memory_search ops q k exclude b = (r, b')" "index_follows ops contents m b"
  shows "index_follows ops contents m b'"
proof -
  obtain r1 ix where ix: "index_search ops q k exclude (im_index b) = (r1, ix)" "b' = b\<lparr>im_index := ix\<rparr>"
    using assms(2) by (auto simp: in_memory_search_def split: prod.splits)
  show ?thesis
    using assms(3) search_holds [OF assms(1) ix(1)]
    by (cases "em_scale_x m") (auto simp: index_follows_def index_holds_def scaled_rows_def in_memory_len_def ix(2))
qed

lemma add_follows:
  assumes "index_follows ops contents m b" "em_backend m' = InMemory b'" "b' = (if em_scale_x m then in_memory_mark_stale (with_rows x wy wv b) else with_rows x wy wv b)"
    "em_dim m' = em_dim m" "em_scale_x m' = em_scale_x m"
  shows "index_follows ops contents m' b'"
  using assms by (cases "em_scale_x m") (auto simp: index_follows_def in_memory_mark_stale_def in_memory_len_def)

lemma model_index_ok_step:
  assumes "model_step env m m'" "faiss_contract (be_faiss env) contents" "model_ok m" "model_index_ok (be_faiss env) contents m"
  shows "model_index_ok (be_faiss env) contents m'"
proof -
  obtain b where b: "em_backend m = InMemory b" "data_ok m b" "y_moments_ok m b" "x_moments_ok m b"
    using assms(3) by (rule model_okE)
  have follows: "index_follows (be_faiss env) contents m b" using assms(4) b(1) by (simp add: model_index_ok_def)
  have kept: "model_index_ok (be_faiss env) contents (m\<lparr>em_backend := InMemory b1, em_meta := meta\<rparr>)"
    if "index_follows (be_faiss env) contents m b1" for b1 meta
    using index_follows_backend [OF that] by (simp add: model_index_ok_def)
  have kept1: "model_index_ok (be_faiss env) contents (m\<lparr>em_backend := InMemory b1\<rparr>)"
    if "index_follows (be_faiss env) contents m b1" for b1
    using kept [OF that, of "em_meta m"] by simp
  show ?thesis
    using assms(1)
  proof cases
    case (adds x y yvar r)
    show ?thesis
      using b(1,2) adds
    proof (cases rule: add_cases)
      case (2 wy wv)
      let ?m = "m\<lparr>em_backend := InMemory (with_rows x wy wv b)\<rparr>"
      obtain b' where b': "em_backend m' = InMemory b'"
        "b' = (if em_scale_x m then in_memory_mark_stale (with_rows x wy wv b) else with_rows x wy wv b)"
        using note_rows_in_memory [of ?m "with_rows x wy wv b" x wy] 2(2) by auto
      have "em_dim m' = em_dim m" "em_scale_x m' = em_scale_x m"
        using note_rows_fields(2,4) [of ?m "with_rows x wy wv b" x wy] 2(2) by simp_all
      from add_follows [OF follows b' this] show ?thesis by (simp add: model_index_ok_def b'(1))
    qed (use assms(4) in simp)
  next
    case syncs
    obtain b1 where "in_memory_ensure_sync (be_faiss env) (em_scale_x m) (em_x_scale m) b = (Inr (), b1)" "m' = m\<lparr>em_backend := InMemory b1\<rparr>"
      using syncs b(1) by (auto simp: model_sync_in_memory Let_def split: prod.splits)
    then show ?thesis using sync_follows(1) [OF assms(2) b(2,4) follows] kept1 by simp
  next
    case (neighbours q k exclude rows)
    then show ?thesis
    proof (cases rule: neighbours_cases)
      case (2 n found)
      obtain b1 b2 where steps: "in_memory_ensure_sync (be_faiss env) (em_scale_x m) (em_x_scale m) b = (Inr (), b1)"
        "in_memory_search (be_faiss env) q n exclude b1 = (Inr found, b2)" "m' = m\<lparr>em_backend := InMemory b2\<rparr>"
        using backend_search_in_memory [OF b(1) 2] .
      show ?thesis
        unfolding steps(3)
        by (rule kept1 [OF search_follows [OF assms(2) steps(2) sync_follows(1) [OF assms(2) b(2,4) follows steps(1)]]])
    qed (use assms(4) in simp)
  next
    case (flushes r)
    then have "m' = m\<lparr>em_backend := InMemory b\<rparr>"
      using b(1) by (simp add: model_schedule_background_flush_def with_backend_def eb_schedule_background_flush_def in_memory_def)
    then show ?thesis using kept1 [OF follows] by simp
  next
    case (persists r)
    then have "persist_y_bounds_metadata env (m\<lparr>em_backend := InMemory b\<rparr>) = (r, m')"
      using b(1) by (simp add: model_persist_index_to_disk_def with_backend_def persist_enn_backend_index_def in_memory_def)
    then obtain meta where "m' = m\<lparr>em_backend := InMemory b, em_meta := meta\<rparr>"
      using persist_bounds_in_memory [of "m\<lparr>em_backend := InMemory b\<rparr>" b] by fastforce
    then show ?thesis using kept [OF follows] by simp
  qed
qed

lemma model_index_ok_steps:
  assumes "model_steps env m m'" "faiss_contract (be_faiss env) contents" "model_ok m" "model_index_ok (be_faiss env) contents m"
  shows "model_index_ok (be_faiss env) contents m'"
  using assms(1) unfolding model_steps_def
proof (induction rule: rtranclp_induct)
  case (step y z)
  then have "model_ok y" using model_ok_steps [of env m y] assms(3) by (simp add: model_steps_def)
  then show ?case using step model_index_ok_step assms(2) by blast
qed (rule assms(4))

lemma model_index_ok_made:
  assumes "made_in_memory env x y yvar opts m" "faiss_contract (be_faiss env) contents"
  shows "model_index_ok (be_faiss env) contents m"
proof -
  have ok: "model_ok m" by (rule model_ok_made [OF assms(1)])
  show ?thesis
    using assms(1)
  proof (cases rule: made_in_memory_cases)
    case (1 wy wv b bounds bounded meta)
    have fields: "em_backend m = InMemory b" "em_dim m = fst x" "em_scale_x m = mo_scale_x opts"
      "em_x_scale m = fst (init_x_stats x (mo_scale_x opts))"
      by (simp_all add: 1(2) first_model_def Let_def case_prod_beta)
    have moments: "x_moments_ok m b" using ok fields(1) by (simp add: model_ok_def)
    obtain sx ix where ix: "scaled_by (mo_scale_x opts) (em_x_scale m) x = Inr sx"
      "index_new (be_faiss env) sx (fst x) (em_x_scale m) (mo_scale_x opts) (mo_driver opts) = Inr ix"
      "im_index b = ix" "rs_rows (im_x b) = snd x" "im_synced b = min (index_len (be_faiss env) ix) (length (snd x))" "im_stale b = False"
      using 1(1) unfolding fields(4) [symmetric] by (rule in_memory_new_Inr) (auto simp: from_array2_def)
    have sx: "sx = (fst x, scaled_rows m b)"
      using ix(1,4) x_scale_length [OF moments] fields(2,3)
      by (cases x) (auto simp: scaled_by_def divide_by_def scaled_rows_def split: if_splits)
    note new = index_new_holds [OF assms(2) ix(2) [unfolded sx]]
    have len: "length (scaled_rows m b) = in_memory_len b" by (simp add: scaled_rows_def in_memory_len_def)
    have "index_follows (be_faiss env) contents m b"
      using new ix(3-6) fields(2,3) len no_vectors [of "fst x" "scaled_rows m b"]
      by (auto simp: index_follows_def index_holds_def scaled_rows_def in_memory_len_def arr2_rows_to_f32_def)
    then show ?thesis by (simp add: model_index_ok_def fields(1))
  qed
qed

section \<open>What the index holds\<close>

lemma plain_index_len: "index_len list_faiss (list_index d h) = fst h"
  by (simp add: index_len_def faiss_backend_len_def list_index_def list_faiss_def)

lemma plain_model_sync:
  assumes "0 < d" "length xs = length ys" "zs \<noteq> []" "length zs = length ws" "em_dim m = d" "\<not> em_scale_x m"
    "em_backend m = InMemory (with_rows (d, zs) (k, ws) None (plain_backend d xs k ys None))"
  shows "\<exists>m'. model_ensure_sync plain_env m = Some (Inr (), m')"
proof -
  let ?b = "with_rows (d, zs) (k, ws) None (plain_backend d xs k ys None)"
  have ix: "im_index ?b = list_index d (length xs, arr2_rows_to_f32 xs)" "in_memory_len ?b = length xs + length zs"
    "im_synced ?b = length xs" "im_x ?b = \<lparr>rs_cols = d, rs_rows = xs @ zs\<rparr>"
    by (simp_all add: plain_backend_def in_memory_len_def)
  have pb: "im_index (plain_backend d xs k ys None) = list_index d (length xs, arr2_rows_to_f32 xs)"
    "im_x (plain_backend d xs k ys None) = \<lparr>rs_cols = d, rs_rows = xs\<rparr>"
    by (simp_all add: plain_backend_def)
  have "\<exists>ix'. rebuild_from_scaled list_faiss (d, xs @ zs) (em_x_scale m) (list_index d (length xs, arr2_rows_to_f32 xs)) = (Inr (), ix')"
    using assms(1,3) by (simp add: rebuild_from_scaled_def faiss_rebuild_def list_index_def list_faiss_def no_elements_def faiss_add_rows_def Let_def)
  then have "\<exists>b'. rebuild_only list_faiss (em_x_scale m) ?b = (Inr (), b')"
    using assms(3) by (auto simp: rebuild_only_def pb ix(2) plain_index_len rebuilt_def storage_view_def Let_def)
  moreover have "in_memory_ensure_sync list_faiss False (em_x_scale m) ?b = rebuild_only list_faiss (em_x_scale m) ?b"
    by (rule sync_rebuilds) (simp_all only: ix plain_index_len fst_conv order_refl le_add1)
  ultimately show ?thesis
    using assms(6) by (auto simp: model_sync_in_memory [OF assms(7)] plain_env_def)
qed

text \<open>C3: a synchronised index holds the rows of the model. After any calls on a model in memory, a
  synchronisation that succeeds leaves in the index one vector per observation, namely its row
  divided by the current scale when the model scales, in the order of the rows, and the queries are
  divided by that same scale.\<close>

theorem synchronised_index_holds_the_rows:
  assumes "made_in_memory env x y yvar opts m0" "model_steps env m0 m" "faiss_contract (be_faiss env) contents"
    "0 < em_dim m" "model_ensure_sync env m = Some (Inr (), m')"
  shows "\<exists>b. em_backend m' = InMemory b \<and> em_num_obs m' = in_memory_len b \<and> index_holds (be_faiss env) contents m' b"
proof -
  have ok: "model_ok m" "model_ok m'"
    using model_ok_steps [OF assms(2) model_ok_made [OF assms(1)]] sync_reindexes [OF assms(5)] model_ok_reindexed by blast+
  obtain b where b: "em_backend m = InMemory b" "data_ok m b" "x_moments_ok m b" using ok(1) by (rule model_okE)
  have "index_follows (be_faiss env) contents m b"
    using model_index_ok_steps [OF assms(2,3) model_ok_made [OF assms(1)] model_index_ok_made [OF assms(1,3)]] b(1)
    by (simp add: model_index_ok_def)
  moreover obtain b1 where b1: "in_memory_ensure_sync (be_faiss env) (em_scale_x m) (em_x_scale m) b = (Inr (), b1)"
    "m' = m\<lparr>em_backend := InMemory b1\<rparr>"
    using assms(5) b(1) by (auto simp: model_sync_in_memory Let_def split: prod.splits)
  ultimately have "index_holds (be_faiss env) contents m b1" using sync_follows(2) [OF assms(3) b(2,3)] assms(4) by blast
  moreover have "em_num_obs m' = in_memory_len b1"
    using ok(2) b1(2) by (simp add: model_ok_def data_ok_def)
  ultimately show ?thesis by (simp add: b1(2) index_holds_def scaled_rows_def)
qed

theorem synchronised_index_holds_the_rows_witness:
  "\<exists>m m' b. model_steps plain_env (plain_model 1 [[fzero]] 1 [[fzero]] None) m \<and> em_num_obs m = 2 \<and>
     model_ensure_sync plain_env m = Some (Inr (), m') \<and> em_backend m' = InMemory b \<and> em_num_obs m' = in_memory_len b \<and>
     index_holds list_faiss snd m' b"
proof -
  obtain m where m: "model_steps plain_env (plain_model 1 [[fzero]] 1 [[fzero]] None) m" "em_num_obs m = 1 + 1"
    "em_backend m = InMemory (with_rows (1, [[fzero]]) (1, [[fzero]]) None (plain_backend 1 [[fzero]] 1 [[fzero]] None))"
    "\<not> em_scale_x m" "em_dim m = 1"
    using plain_model_added [of 1 "[[fzero]]" "[[fzero]]" "[[fzero]]" "[[fzero]]" 1] by auto
  have made: "made_in_memory plain_env (1, [[fzero]]) (1, [[fzero]]) None plain_options (plain_model 1 [[fzero]] 1 [[fzero]] None)"
    by (rule plain_model_made) simp_all
  obtain m' where sync: "model_ensure_sync plain_env m = Some (Inr (), m')"
    using plain_model_sync [of 1 "[[fzero]]" "[[fzero]]" "[[fzero]]" "[[fzero]]" m 1] m(3-5) by auto
  have ops: "be_faiss plain_env = list_faiss" by (simp add: plain_env_def)
  have "\<exists>b. em_backend m' = InMemory b \<and> em_num_obs m' = in_memory_len b \<and> index_holds (be_faiss plain_env) snd m' b"
    by (rule synchronised_index_holds_the_rows [OF made m(1) _ _ sync]) (simp_all add: ops list_faiss_contract m(5))
  then show ?thesis using m(1,2) sync ops by auto
qed

text \<open>The incremental branch of the synchronisation is never taken. In a model in memory that does
  not scale its inputs, whatever calls came before, the synchronisation either finds an index of the
  right length or rebuilds it from all the rows; it never adds only the rows that are missing.\<close>

theorem synchronisation_always_rebuilds:
  assumes "made_in_memory env x y yvar opts m0" "model_steps env m0 m" "faiss_contract (be_faiss env) contents"
    "\<not> em_scale_x m" "em_backend m = InMemory b"
  shows "in_memory_ensure_sync (be_faiss env) (em_scale_x m) (em_x_scale m) b = rebuild_only (be_faiss env) (em_x_scale m) b"
proof -
  have "index_follows (be_faiss env) contents m b"
    using model_index_ok_steps [OF assms(2,3) model_ok_made [OF assms(1)] model_index_ok_made [OF assms(1,3)]] assms(5)
    by (simp add: model_index_ok_def)
  then show ?thesis using assms(4) sync_rebuilds [of "be_faiss env" b] by (simp add: index_follows_def)
qed

theorem synchronisation_always_rebuilds_witness:
  "\<exists>m b. model_steps plain_env (plain_model 1 [[fzero]] 1 [[fzero]] None) m \<and> em_backend m = InMemory b \<and>
     in_memory_len b = 2 \<and> index_len list_faiss (im_index b) = 1 \<and>
     in_memory_ensure_sync list_faiss False (em_x_scale m) b = rebuild_only list_faiss (em_x_scale m) b"
proof -
  let ?b = "with_rows (1, [[fzero]]) (1, [[fzero]]) None (plain_backend 1 [[fzero]] 1 [[fzero]] None)"
  obtain m where m: "model_steps plain_env (plain_model 1 [[fzero]] 1 [[fzero]] None) m" "em_backend m = InMemory ?b" "\<not> em_scale_x m"
    using plain_model_added [of 1 "[[fzero]]" "[[fzero]]" "[[fzero]]" "[[fzero]]" 1] by auto
  have made: "made_in_memory plain_env (1, [[fzero]]) (1, [[fzero]]) None plain_options (plain_model 1 [[fzero]] 1 [[fzero]] None)"
    by (rule plain_model_made) simp_all
  have ops: "be_faiss plain_env = list_faiss" by (simp add: plain_env_def)
  have "in_memory_len ?b = 2" "index_len list_faiss (im_index ?b) = 1"
    by (simp_all add: plain_backend_def in_memory_len_def plain_index_len)
  moreover have "in_memory_ensure_sync list_faiss False (em_x_scale m) ?b = rebuild_only list_faiss (em_x_scale m) ?b"
    using synchronisation_always_rebuilds [OF made m(1) _ m(3,2), of snd] m(3) by (simp add: ops list_faiss_contract)
  ultimately show ?thesis using m(1,2) by blast
qed

end
