(* ===== verification/Fitter.thy ===== *)
theory Fitter
  imports Posterior
begin

text \<open>
  Fitting the parameters of the ENN model: the log-likelihood of a subsample
  (\<open>rust/crates/ennx/src/fit.rs\<close>) and the fitter that searches random parameters with it
  (\<open>fitter.rs\<close>).

  The random generator of the \<open>rand\<close> crate is a parameter over its own state: a value of a closed
  range and a sample of indices. So are \<open>powf\<close>, the sum of a column and its standard deviation as
  \<open>ndarray\<close> computes them. A panic is the error \<open>EPanic\<close>.
\<close>

record ('f, 'r, 'g) fit_env = "('f, 'r) posterior_env" +
  fe_range :: "f64 \<Rightarrow> f64 \<Rightarrow> 'g \<Rightarrow> f64 \<times> 'g"
  fe_sample :: "nat \<Rightarrow> nat \<Rightarrow> 'g \<Rightarrow> nat list \<times> 'g"
  fe_powf :: "f64 \<Rightarrow> f64 \<Rightarrow> f64"
  fe_sum :: "f64 list \<Rightarrow> f64"
  fe_std :: "f64 list \<Rightarrow> f64"

definition column_of :: "nat \<Rightarrow> ematrix \<Rightarrow> f64 list" where
  "column_of j x = map (\<lambda>r. r ! j) (snd x)"

definition finite_matrix :: "ematrix \<Rightarrow> bool" where
  "finite_matrix x \<longleftrightarrow> list_all (list_all is_finite) (snd x)"

text \<open>A step on the model and the generator that leaves one of them alone.\<close>

definition on_model ::
    "('m \<Rightarrow> ((ENNError + 'a) \<times> 'm) option) \<Rightarrow> 'm \<times> 'g \<Rightarrow> ((ENNError + 'a) \<times> 'm \<times> 'g) option" where
  "on_model f = (\<lambda>(m, g). map_option (\<lambda>(r, m1). (r, m1, g)) (f m))"

section \<open>The likelihood\<close>

definition validate_subsample_inputs :: "ematrix \<Rightarrow> ematrix \<Rightarrow> nat \<Rightarrow> nat \<Rightarrow> ENNError + unit" where
  "validate_subsample_inputs x y p num_params =
     (if length (snd x) \<noteq> length (snd y) then Inl EParameter
      else if p = 0 then Inl EParameter
      else if num_params = 0 then Inl EParameter
      else Inr ())"

definition f64_pi :: f64 where
  "f64_pi = Ieee 0x400921FB54442D18"

definition loglik_term :: "bounds_env \<Rightarrow> f64 \<Rightarrow> f64 \<Rightarrow> f64 \<Rightarrow> f64" where
  "loglik_term env y mu se =
     (let var = fmul se se; d = fsub y mu in
      fsub (fmul (fneg (flit 1 2)) (ln_of env (fmul (fmul (flit 2 1) f64_pi) var)))
        (fdiv (fmul (flit 1 2) (fmul d d)) var))"

text \<open>The three matrices row by row.\<close>

definition compute_single_loglik :: "bounds_env \<Rightarrow> f64 list list \<Rightarrow> f64 list list \<Rightarrow> f64 list list \<Rightarrow> f64" where
  "compute_single_loglik env y mu se =
     (if \<not> list_all (list_all is_finite) mu \<or> \<not> list_all (list_all is_finite) se then fzero
      else if list_ex (list_ex (\<lambda>v. fle v fzero)) se then fzero
      else let loglik = foldl (\<lambda>acc (yr, mr, sr). foldl (\<lambda>a (v, u, s). fadd a (loglik_term env v u s)) acc (zip yr (zip mr sr)))
             fzero (zip y (zip mu se))
        in if is_finite loglik then loglik else fzero)"

definition sample_rows :: "('f, 'r, 'g) fit_env \<Rightarrow> nat \<Rightarrow> nat \<Rightarrow> 'g \<Rightarrow> nat list \<times> 'g" where
  "sample_rows env n p g = (let k = min p n in if k = n then ([0..<n], g) else fe_sample env n k g)"

text \<open>Rows by index; an index out of range panics.\<close>

definition pick_rows :: "nat list \<Rightarrow> ematrix \<Rightarrow> ENNError + ematrix" where
  "pick_rows is x = rbind (map_res (\<lambda>i. if i < length (snd x) then Inr (snd x ! i) else Inl EPanic) is) (\<lambda>rows. Inr (fst x, rows))"

definition safe_std :: "f64 \<Rightarrow> f64" where
  "safe_std v = (if is_finite v \<and> flt fzero v then v else flit 1 1)"

definition divide_columns :: "f64 list \<Rightarrow> f64 list list \<Rightarrow> f64 list list" where
  "divide_columns s = map (\<lambda>r. map2 fdiv r s)"

definition fit_flags :: PosteriorFlags where
  "fit_flags = posterior_flags_new\<lparr>pf_exclude_nearest := True, pf_observation_noise := True, pf_tie_break_neighbors := False\<rparr>"

definition subsample_loglik ::
    "('f, 'r, 'g) fit_env \<Rightarrow> ematrix \<Rightarrow> ematrix \<Rightarrow> ENNParams list \<Rightarrow> nat \<Rightarrow> f64 list option
      \<Rightarrow> 'f EpistemicNearestNeighbors \<times> 'g \<Rightarrow> ((ENNError + f64 list) \<times> 'f EpistemicNearestNeighbors \<times> 'g) option" where
  "subsample_loglik env x y paramss p y_std = (\<lambda>(m, g).
     (case validate_subsample_inputs x y p (length paramss) of
        Inl e \<Rightarrow> Some (Inl e, m, g)
      | Inr _ \<Rightarrow>
          let n = length (snd x) in
          if n = 0 \<or> em_num_obs m \<le> 1 \<or> \<not> finite_matrix y then Some (Inr (replicate (length paramss) fzero), m, g)
          else let (is, g1) = sample_rows env n p g in
            case rbind (pick_rows is x) (\<lambda>xs. rbind (pick_rows is y) (\<lambda>ys. Inr (xs, ys))) of
              Inl e \<Rightarrow> Some (Inl e, m, g1)
            | Inr (xs, ys) \<Rightarrow>
                then_step (on_model (\<lambda>m. batch_posterior (posterior_env.truncate env) m xs paramss fit_flags) (m, g1)) (\<lambda>post st.
                  Some (if em_metrics (fst st) \<noteq> fst y
                        then Inl (EShape [length paramss, length is, fst y] [length paramss, length is, em_metrics (fst st)])
                        else let std = map safe_std (case y_std of Some s \<Rightarrow> s | None \<Rightarrow> map (\<lambda>j. fe_std env (column_of j y)) [0..<fst y]) in
                          if length std < fst y then Inl EPanic
                          else Inr (map (\<lambda>(mu, se, _).
                            compute_single_loglik (me_bounds env) (divide_columns std (snd ys)) (divide_columns std (snd mu)) (divide_columns std (snd se))) post), st))))"

definition subsample_loglik_model ::
    "('f, 'r, 'g) fit_env \<Rightarrow> ENNParams list \<Rightarrow> nat \<Rightarrow> f64 list option
      \<Rightarrow> 'f EpistemicNearestNeighbors \<times> 'g \<Rightarrow> ((ENNError + f64 list) \<times> 'f EpistemicNearestNeighbors \<times> 'g) option" where
  "subsample_loglik_model env paramss p y_std = (\<lambda>(m, g).
     (let n = em_num_obs m in
      if n = 0 \<or> paramss = [] then Some (Inr (replicate (max (length paramss) 1) fzero), m, g)
      else let (is, g1) = sample_rows env n p g in
        case eb_train_rows_at is (em_backend m) of
          Inl e \<Rightarrow> Some (Inl e, m, g1)
        | Inr (x, y, _) \<Rightarrow> subsample_loglik env x y paramss p y_std (m, g1)))"

section \<open>The fitter\<close>

record ENNFitter =
  ft_k :: int
  ft_infer :: bool
  ft_params :: "ENNParams option"
  ft_y_sum :: "f64 list"
  ft_y_sumsq :: "f64 list"
  ft_y_count :: nat
  ft_metrics :: nat

definition fitter_new :: "int \<Rightarrow> bool \<Rightarrow> ENNFitter" where
  "fitter_new k infer = \<lparr>ft_k = k, ft_infer = infer, ft_params = None, ft_y_sum = [], ft_y_sumsq = [], ft_y_count = 0, ft_metrics = 0\<rparr>"

definition set_params :: "ENNParams \<Rightarrow> ENNFitter \<Rightarrow> ENNFitter" where
  "set_params p ft = ft\<lparr>ft_params := Some p\<rparr>"

definition reset_y_stats :: "('f, 'r, 'g) fit_env \<Rightarrow> ematrix \<Rightarrow> ENNFitter \<Rightarrow> ENNFitter" where
  "reset_y_stats env y ft =
     ft\<lparr>ft_y_count := length (snd y), ft_metrics := fst y,
        ft_y_sum := map (\<lambda>j. fe_sum env (column_of j y)) [0..<fst y],
        ft_y_sumsq := map (\<lambda>j. fe_sum env (map (\<lambda>v. fmul v v) (column_of j y))) [0..<fst y]\<rparr>"

text \<open>New rows are added value by value; more columns than sums panic, fewer leave the last sums.\<close>

definition add_prefix :: "(f64 \<Rightarrow> f64) \<Rightarrow> f64 list \<Rightarrow> f64 list \<Rightarrow> f64 list" where
  "add_prefix h sums row = map2 (\<lambda>s v. fadd s (h v)) sums row @ drop (length row) sums"

definition update_y :: "('f, 'r, 'g) fit_env \<Rightarrow> ematrix \<Rightarrow> ENNFitter \<Rightarrow> ENNError + ENNFitter" where
  "update_y env y ft =
     (if snd y = [] then Inr ft
      else let ft1 = ft\<lparr>ft_metrics := fst y\<rparr> in
        if ft_y_count ft1 = 0 then Inr (reset_y_stats env y ft1)
        else if length (ft_y_sum ft1) < fst y then Inl EPanic
        else Inr (ft1\<lparr>ft_y_sum := foldl (add_prefix id) (ft_y_sum ft1) (snd y),
                    ft_y_sumsq := foldl (add_prefix (\<lambda>v. fmul v v)) (ft_y_sumsq ft1) (snd y),
                    ft_y_count := ft_y_count ft1 + length (snd y)\<rparr>))"

definition told_rows_ok :: "ematrix \<Rightarrow> ematrix \<Rightarrow> ematrix option \<Rightarrow> bool" where
  "told_rows_ok x y yvar \<longleftrightarrow> finite_matrix x \<and> finite_matrix y \<and> length (snd x) = length (snd y) \<and>
     (case yvar of None \<Rightarrow> True | Some v \<Rightarrow> finite_matrix v \<and> same_dim v y)"

definition fitter_tell :: "('f, 'r, 'g) fit_env \<Rightarrow> ematrix \<Rightarrow> ematrix \<Rightarrow> ematrix option \<Rightarrow> ENNFitter \<Rightarrow> ENNError + ENNFitter" where
  "fitter_tell env x y yvar ft = (if \<not> told_rows_ok x y yvar then Inl EParameter else update_y env y ft)"

definition fitter_y_std :: "ENNFitter \<Rightarrow> f64 list" where
  "fitter_y_std ft =
     (if ft_y_count ft = 0 then ones (max (ft_metrics ft) 1)
      else map (\<lambda>j. std_of (flit (ft_y_count ft) 1) fzero (ft_y_sum ft ! j) (ft_y_sumsq ft ! j)) [0..<ft_metrics ft])"

text \<open>Powers of ten with an exponent between minus three and three.\<close>

fun random_scales :: "('f, 'r, 'g) fit_env \<Rightarrow> nat \<Rightarrow> 'g \<Rightarrow> f64 list \<times> 'g" where
  "random_scales env 0 g = ([], g)"
| "random_scales env (Suc n) g =
     (let (u, g1) = fe_range env (fneg (flit 3 1)) (flit 3 1) g; (us, g2) = random_scales env n g1
      in (fe_powf env (flit 10 1) u # us, g2))"

definition build_random_param_candidates ::
    "('f, 'r, 'g) fit_env \<Rightarrow> nat \<Rightarrow> ENNFitter \<Rightarrow> 'g \<Rightarrow> (ENNError + ENNParams list) \<times> 'g" where
  "build_random_param_candidates env num_random ft g =
     (if num_random = 0 then (Inr [], g)
      else let (epi, g1) = random_scales env num_random g;
               (ale, g2) = (if ft_infer ft then random_scales env num_random g1 else (replicate num_random fzero, g1));
               paramss = List.map_filter (\<lambda>(e, a). enn_params_new (ft_k ft) e a) (zip epi ale)
        in if paramss = [] then (case enn_params_new (ft_k ft) (flit 1 1) fzero of
               Some p \<Rightarrow> (Inr [p], g2) | None \<Rightarrow> (Inl EParameter, g2))
           else (Inr paramss, g2))"

text \<open>\<open>max_by\<close> keeps the last of the greatest.\<close>

definition last_max :: "f64 list \<Rightarrow> nat" where
  "last_max ls = foldl (\<lambda>best i. if total_key (ls ! best) \<le> total_key (ls ! i) then i else best) 0 [0..<length ls]"

definition warm_start :: "ENNFitter \<Rightarrow> ENNParams option \<Rightarrow> ENNParams list \<Rightarrow> ENNError + ENNParams list" where
  "warm_start ft given paramss =
     (case (case given of Some w \<Rightarrow> Some w | None \<Rightarrow> ft_params ft) of
        None \<Rightarrow> Inr paramss
      | Some w \<Rightarrow>
          (case enn_params_new (ft_k ft) (epistemic_variance_scale w) (if ft_infer ft then aleatoric_variance_scale w else fzero) of
             None \<Rightarrow> Inl EParameter
           | Some p \<Rightarrow> Inr (paramss @ [p])))"

text \<open>The parameters found, with the fitter that keeps them.\<close>

definition fitter_ask ::
    "('f, 'r, 'g) fit_env \<Rightarrow> nat \<Rightarrow> nat \<Rightarrow> ENNParams option \<Rightarrow> ENNFitter \<Rightarrow> 'f EpistemicNearestNeighbors \<times> 'g
      \<Rightarrow> ((ENNError + ENNParams \<times> ENNFitter) \<times> 'f EpistemicNearestNeighbors \<times> 'g) option" where
  "fitter_ask env num_candidates num_samples given ft = (\<lambda>(m, g).
     (if em_num_obs m < 2
      then Some (case enn_params_new (ft_k ft) (flit 1 1) fzero of
          None \<Rightarrow> Inl EParameter | Some p \<Rightarrow> Inr (p, set_params p ft), m, g)
      else if ft_y_count ft = 0 then Some (Inl EParameter, m, g)
      else let (cands, g1) = build_random_param_candidates env num_candidates ft g in
        case rbind cands (warm_start ft given) of
          Inl e \<Rightarrow> Some (Inl e, m, g1)
        | Inr paramss \<Rightarrow>
            let (is, g2) = sample_rows env (em_num_obs m) num_samples g1 in
            (case eb_train_rows_at is (em_backend m) of
               Inl e \<Rightarrow> Some (Inl e, m, g2)
             | Inr (x, y, _) \<Rightarrow>
                 then_step (subsample_loglik env x y paramss num_samples (Some (fitter_y_std ft)) (m, g2)) (\<lambda>logliks st.
                   Some (let best = last_max logliks in
                     if best < length paramss then Inr (paramss ! best, set_params (paramss ! best) ft) else Inl EPanic, st)))))"

end
