(* ===== verification/NeighborLaws.thy ===== *)
theory NeighborLaws
  imports Neighbors EnnSyncLaws
begin

text \<open>
  The neighbours that the posterior takes: a tie at the last place is settled inside the pool of
  the index, and a pool that misses no row as near as its last place gives the nearest rows, the
  lower row first among equal distances.
\<close>

section \<open>Pairs in order\<close>

interpretation pr: ranking pair_le UNIV
proof
  show "preorder_on_set UNIV pair_le"
    by (rule preorder_on_setI) (auto simp: pair_le_def)
  show "x = y" if "pair_le x y" "pair_le y x" for x y :: "f64 \<times> int"
  proof -
    have "total_key (fst x) = total_key (fst y)" "snd x = snd y" using that by (auto simp: pair_le_def)
    then show "x = y" using total_key_inj by (intro prod_eqI) blast+
  qed
qed

lemma sort_pairs_sorted: "sorted_wrt pair_le ps \<Longrightarrow> sort_le pair_le ps = ps"
  by (rule pr.sorted_unique) (auto intro: pr.sorted_sort)

lemma sort_pairs_mset: "mset ps = mset qs \<Longrightarrow> sorted_wrt pair_le qs \<Longrightarrow> sort_le pair_le ps = qs"
  using pr.sort_le_mset [of ps qs] by (simp add: sort_pairs_sorted)

lemma sort_by_label_sorted:
  assumes "sorted_wrt (\<lambda>a b. snd a \<le> snd b) (ps :: ('a \<times> int) list)"
  shows "sort_le (\<lambda>a b. snd a \<le> snd b) ps = ps"
  using assms
proof (induction ps)
  case (Cons p ps)
  then show ?case by (cases ps) auto
qed simp

lemma pairs_sorted: "sorted_wrt pair_le (faiss_pairs_from_row ds ls)"
  unfolding faiss_pairs_from_row_def by (rule pr.sorted_sort) simp

text \<open>The pairs below a key, at it and above it stand in this order.\<close>

lemma sorted_split:
  assumes "sorted_wrt pair_le ps"
  shows "ps = filter (\<lambda>p. total_key (fst p) < c) ps @ filter (\<lambda>p. total_key (fst p) = c) ps
    @ filter (\<lambda>p. total_key (fst p) > c) ps"
  using assms
proof (induction ps)
  case (Cons p ps)
  have le: "pair_le p x" if "x \<in> set ps" for x using Cons.prems that by simp
  then have keys: "total_key (fst p) \<le> total_key (fst x)" if "x \<in> set ps" for x
    using that by (fastforce simp: pair_le_def)
  consider "total_key (fst p) < c" | "total_key (fst p) = c" | "total_key (fst p) > c" by linarith
  then show ?case
  proof cases
    case 1
    then show ?thesis using Cons by auto
  next
    case 2
    then have "filter (\<lambda>p. total_key (fst p) < c) ps = []" using keys by (force simp: filter_empty_conv not_less)
    then show ?thesis using 2 Cons by auto
  next
    case 3
    then have "filter (\<lambda>p. total_key (fst p) < c) ps = []" "filter (\<lambda>p. total_key (fst p) = c) ps = []"
      using keys by (fastforce simp: filter_empty_conv)+
    then show ?thesis using 3 Cons by auto
  qed
qed simp

lemma at_cut_sorted_by_label:
  assumes "sorted_wrt pair_le ps"
  shows "sorted_wrt (\<lambda>a b. snd a \<le> snd b) (filter (\<lambda>p. total_key (fst p) = c) ps)"
  using assms by (induction ps) (auto simp: pair_le_def)

section \<open>Ties\<close>

lemma boundary_tie_resolved:
  assumes "sorted_wrt pair_le ps" "0 < k" "boundary_tie ps k"
  shows "try_resolve_boundary_tie_in_pool ps k = Some (take k ps)"
proof -
  let ?c = "total_key (fst (ps ! (k - 1)))"
  let ?b = "filter (\<lambda>p. total_key (fst p) < ?c) ps" and ?a = "filter (\<lambda>p. total_key (fst p) = ?c) ps"
    and ?r = "filter (\<lambda>p. total_key (fst p) > ?c) ps"
  have split: "ps = ?b @ ?a @ ?r" by (rule sorted_split [OF assms(1)])
  have len: "k < length ps" and key: "total_key (fst (ps ! k)) = ?c" using assms(3) by (auto simp: boundary_tie_def)
  have more: "k < length ?b + length ?a"
  proof (rule ccontr)
    assume far: "\<not> ?thesis"
    have "(?b @ ?a @ ?r) ! k = ?r ! (k - length ?b - length ?a)" using far by (simp add: nth_append)
    moreover have "k - length ?b - length ?a < length ?r"
      using far len arg_cong [OF split, of length] unfolding length_append by linarith
    ultimately have "ps ! k \<in> set ?r" using split nth_mem by metis
    then show False using key by simp
  qed
  have fewer: "length ?b \<le> k"
  proof (rule ccontr)
    assume far: "\<not> ?thesis"
    then have "k - 1 < length ?b" by linarith
    then have "(?b @ ?a @ ?r) ! (k - 1) \<in> set ?b" unfolding nth_append by (metis nth_mem)
    then have "ps ! (k - 1) \<in> set ?b" using split by metis
    then show False by simp
  qed
  have "?b @ take (k - length ?b) ?a = take k (?b @ ?a @ ?r)" using more fewer by simp
  then have cut: "?b @ take (k - length ?b) ?a = take k ps" by (metis split)
  have "sort_le pair_le (take k ps) = take k ps" by (intro sort_pairs_sorted sorted_wrt_take assms(1))
  then show ?thesis
    using assms(2,3) more cut sort_by_label_sorted [OF at_cut_sorted_by_label [OF assms(1)]]
    by (simp add: try_resolve_boundary_tie_in_pool_def Let_def)
qed

lemma resolve_keeps_sorted:
  assumes "sorted_wrt pair_le ps" "length ps \<le> k"
  shows "resolve_pool_tie_break_at_cutoff ps k = ps"
proof -
  have "mset (apply_index_tie_break_at_cutoff ps k) = mset ps"
    using assms(2) by (simp add: apply_index_tie_break_at_cutoff_def Let_def) (simp flip: mset_append)
  then show ?thesis using sort_pairs_mset [OF _ assms(1)] by (auto simp: resolve_pool_tie_break_at_cutoff_def)
qed

lemma finalize_without_scan:
  assumes "sorted_wrt pair_le ps" "finalize_faiss_pool_topk m q ps k tie_break = Inr (False, qs)" "0 < k"
  shows "qs = take k ps"
proof -
  have "sorted_wrt pair_le (take k ps)" using assms(1) by (rule sorted_wrt_take)
  then show ?thesis
    using assms boundary_tie_resolved [OF assms(1,3)] resolve_keeps_sorted [of "take k ps" k]
    by (auto simp: finalize_faiss_pool_topk_def Let_def res_simps split: if_splits)
qed

section \<open>All rows\<close>

definition row_pairs :: "f64 list \<Rightarrow> (f64 \<times> int) list" where
  "row_pairs all = map (\<lambda>j. (all ! j, int j)) [0..<length all]"

lemma filter_topk:
  assumes "k \<le> length (filter (\<lambda>p. total_key (fst p) \<le> c) ps)"
  shows "topk pair_le k (filter (\<lambda>p. total_key (fst p) \<le> c) ps) = topk pair_le k ps"
proof -
  let ?P = "\<lambda>p :: f64 \<times> int. total_key (fst p) \<le> c" and ?s = "sort_le pair_le ps"
  have sorted: "sorted_wrt pair_le ?s" by (rule pr.sorted_sort) simp
  have near: "sort_le pair_le (filter ?P ps) = filter ?P ?s"
    by (intro sort_pairs_mset sorted_wrt_filter sorted) (simp add: mset_filter)
  have part: "filter ?P xs @ filter (\<lambda>p. \<not> ?P p) xs = xs" if "sorted_wrt pair_le xs" for xs
    using that
  proof (induction xs)
    case (Cons x xs)
    show ?case
    proof (cases "?P x")
      case True
      then show ?thesis using Cons by simp
    next
      case False
      then have "\<not> ?P y" if "y \<in> set xs" for y using that Cons.prems by (auto simp: pair_le_def)
      then have "filter ?P xs = []" "filter (\<lambda>p. \<not> ?P p) xs = xs" by (simp_all add: filter_empty_conv filter_id_conv)
      then show ?thesis using False by simp
    qed
  qed simp
  have "length (filter ?P ?s) = length (filter ?P ps)" by (metis mset_filter mset_sort_le size_mset)
  then have "take k (filter ?P ?s @ filter (\<lambda>p. \<not> ?P p) ?s) = take k (filter ?P ?s)" using assms by simp
  then show ?thesis by (simp only: topk_def near part [OF sorted])
qed

lemma kth_smallest_reaches:
  assumes "0 < k" "k \<le> length ds"
  shows "k \<le> length (filter (\<lambda>d. total_key d \<le> total_key (kth_smallest ds k)) ds)"
proof -
  let ?le = "\<lambda>a b :: f64. total_key a \<le> total_key b" and ?Q = "\<lambda>d. total_key d \<le> total_key (kth_smallest ds k)"
  let ?t = "sort_le ?le ds"
  have sorted: "sorted_wrt ?le ?t"
    by (rule sorted_wrt_sort_le) (simp add: total_preorder_def preorder_on_set_def total_on_def transp_on_def linear)
  have "?Q d" if d: "d \<in> set (take k ?t)" for d
  proof -
    obtain i where "i < length (take k ?t)" "take k ?t ! i = d" using d by (metis in_set_conv_nth)
    then have i: "i < k" "d = ?t ! i" by simp_all
    show ?thesis
    proof (cases "i = k - 1")
      case True
      then show ?thesis using i(2) by (simp add: kth_smallest_def)
    next
      case False
      then show ?thesis
        using i sorted_wrt_nth_less [OF sorted, of i "k - 1"] assms by (simp add: kth_smallest_def)
    qed
  qed
  then have "filter ?Q (take k ?t) = take k ?t" by (simp add: filter_id_conv)
  then have "filter ?Q (take k ?t @ drop k ?t) = take k ?t @ filter ?Q (drop k ?t)" by (simp only: filter_append)
  then have "k \<le> length (filter ?Q ?t)" using assms by simp
  moreover have "mset (filter ?Q ?t) = mset (filter ?Q ds)" by (simp add: mset_filter)
  then have "length (filter ?Q ?t) = length (filter ?Q ds)" by (rule mset_eq_length)
  ultimately show ?thesis by simp
qed

lemma scan_takes_nearest:
  assumes "0 < k" "k \<le> length all"
  obtains best where "topk_indices_from_row_dists all k = Inr best"
    "map (\<lambda>t. (all ! t, int t)) best = topk pair_le k (row_pairs all)"
proof -
  let ?c = "total_key (kth_smallest all k)" and ?g = "\<lambda>t. (all ! t, int t)"
  let ?near = "filter (\<lambda>i. total_key (all ! i) \<le> ?c) [0..<length all]"
  define best where "best = take k (sort_le (index_le all) ?near)"
  have run: "topk_indices_from_row_dists all k = Inr best"
    using assms by (simp add: topk_indices_from_row_dists_def Let_def best_def)
  have sorted: "sort_le pair_le (map ?g ?near) = map ?g (sort_le (index_le all) ?near)"
    by (rule sort_le_map) (simp add: pair_le_def index_le_def)
  have near: "map ?g ?near = filter (\<lambda>p. total_key (fst p) \<le> ?c) (row_pairs all)"
    by (simp add: row_pairs_def filter_map comp_def)
  have "length (filter (\<lambda>p. total_key (fst p) \<le> ?c) (row_pairs all)) = length (filter (\<lambda>d. total_key d \<le> ?c) (map fst (row_pairs all)))"
    by (simp add: filter_map comp_def)
  also have "map fst (row_pairs all) = all" by (simp add: row_pairs_def comp_def map_nth)
  finally have "k \<le> length (filter (\<lambda>p. total_key (fst p) \<le> ?c) (row_pairs all))"
    using kth_smallest_reaches [OF assms] by simp
  then have "map ?g best = topk pair_le k (row_pairs all)"
    using filter_topk [of k ?c "row_pairs all"] unfolding best_def topk_def take_map [symmetric] sorted [symmetric] near by simp
  then show ?thesis using run that by blast
qed

text \<open>A pool that every other entry is farther than.\<close>

lemma pool_is_enough:
  assumes "mset ps = mset pool + mset rest" "0 < k" "k \<le> length pool"
    and far: "\<And>p. p \<in> set rest \<Longrightarrow> total_key (fst (topk pair_le k pool ! (k - 1))) < total_key (fst p)"
  shows "topk pair_le k pool = topk pair_le k ps"
proof -
  let ?t = "topk pair_le k pool"
  have sorted: "sorted_wrt pair_le ?t" unfolding topk_def by (intro sorted_wrt_take pr.sorted_sort) simp
  have len: "length ?t = k" using assms(3) by simp
  have below: "pair_le x p" if "x \<in> set ?t" "p \<in> set rest" for x p
  proof -
    obtain i where i: "i < k" "x = ?t ! i" using \<open>x \<in> set ?t\<close> len by (metis in_set_conv_nth)
    have "total_key (fst x) \<le> total_key (fst (?t ! (k - 1)))"
    proof (cases "i = k - 1")
      case False
      then have "pair_le (?t ! i) (?t ! (k - 1))" using i(1) len sorted_wrt_nth_less [OF sorted, of i "k - 1"] by simp
      then show ?thesis using i(2) by (auto simp: pair_le_def)
    qed (simp add: i)
    then show ?thesis using far [OF \<open>p \<in> set rest\<close>] by (simp add: pair_le_def)
  qed
  have rest: "sorted_wrt pair_le (sort_le pair_le rest)" by (rule pr.sorted_sort) simp
  have "sort_le pair_le (?t @ rest) = ?t @ sort_le pair_le rest"
    using sorted rest below by (intro sort_pairs_mset) (auto simp: sorted_wrt_append)
  then have t: "topk pair_le k (?t @ rest) = ?t" using len by (simp add: topk_def)
  have "topk pair_le k ps = topk pair_le k (pool @ rest)" using assms(1) by (intro pr.topk_mset) simp_all
  also have "\<dots> = topk pair_le k (?t @ rest)" by (rule pr.topk_append [symmetric]) simp
  finally show ?thesis by (simp only: t)
qed

section \<open>The neighbours of a query\<close>

lemma finalize_shape:
  assumes "row_dist2s_for_query m q = Inr all" "sorted_wrt pair_le ps" "0 < k" "finalize_faiss_pool_topk m q ps k True = r"
  shows "r = Inr (False, take k ps) \<or> (\<exists>qs. r = Inr (True, qs)) \<and> k < length all"
proof -
  have same: "resolve_pool_tie_break_at_cutoff (take k ps) k = take k ps"
    by (intro resolve_keeps_sorted sorted_wrt_take assms(2)) simp
  show ?thesis
  proof (cases "boundary_tie ps k")
    case True
    then show ?thesis
      using boundary_tie_resolved [OF assms(2,3) True] assms(4) by (simp add: finalize_faiss_pool_topk_def Let_def)
  next
    case False
    then show ?thesis
      using assms(1,4) by (auto simp: finalize_faiss_pool_topk_def Let_def same faiss_pool_needs_full_row_scan_from_row_def split: if_splits)
  qed
qed

text \<open>C4: With tie breaking a query gets the nearest rows of the model, the lower row first among equal
  distances, whenever the pool that the index returned holds every row that is as near as the last of
  the rows that it gets. The pool lists different rows with their distances as the model computes
  them, in any order; infinite places and label \<open>- 1\<close> fill the answer.\<close>

theorem query_gets_the_nearest_rows:
  assumes "row_dist2s_for_query m q = Inr all" "distinct ls" "set ls \<subseteq> int ` {..<length all}" "0 < k" "k \<le> length ls"
    and "\<forall>j<length all. int j \<notin> set ls \<longrightarrow>
      total_key (fst (topk pair_le k (map (\<lambda>t. (all ! nat t, t)) ls) ! (k - 1))) < total_key (all ! j)"
  shows "query_topk m search_k k True (q, map (\<lambda>t. all ! nat t) ls, ls) = Inr (padded search_k (topk pair_le k (row_pairs all)))"
proof -
  let ?pool = "map (\<lambda>t. (all ! nat t, t)) ls" and ?ds = "map (\<lambda>t. all ! nat t) ls"
  have "zip ?ds ls = ?pool" by (induction ls) auto
  moreover have "filter (\<lambda>(d, t). t \<ge> 0) ?pool = ?pool" using assms(3) by (auto simp: filter_id_conv)
  ultimately have pairs: "faiss_pairs_from_row ?ds ls = sort_le pair_le ?pool" by (simp add: faiss_pairs_from_row_def)
  define rest where "rest = filter (\<lambda>p. snd p \<notin> set ls) (row_pairs all)"
  have dist: "distinct ?pool" "distinct rest" "distinct (row_pairs all)"
    using assms(2) by (auto simp: rest_def row_pairs_def distinct_map inj_on_def)
  have "set (row_pairs all) = set ?pool \<union> set rest" "set ?pool \<inter> set rest = {}"
    using assms(3) by (auto simp: rest_def row_pairs_def image_iff)
  then have mset: "mset (row_pairs all) = mset ?pool + mset rest"
    using dist set_eq_iff_mset_eq_distinct [of "row_pairs all" "?pool @ rest"] by simp
  have far: "total_key (fst (topk pair_le k ?pool ! (k - 1))) < total_key (fst p)" if "p \<in> set rest" for p
    using that assms(6) by (auto simp: rest_def row_pairs_def)
  have pool: "topk pair_le k ?pool = topk pair_le k (row_pairs all)"
    using pool_is_enough [OF mset assms(4) _ far] assms(5) by simp
  have take: "take k (faiss_pairs_from_row ?ds ls) = topk pair_le k (row_pairs all)" using pool by (simp add: pairs topk_def)
  obtain r where r: "finalize_faiss_pool_topk m q (faiss_pairs_from_row ?ds ls) k True = r" by simp
  consider "r = Inr (False, take k (faiss_pairs_from_row ?ds ls))" | qs where "r = Inr (True, qs)" "k < length all"
    using finalize_shape [OF assms(1) pairs_sorted assms(4) r] by blast
  then show ?thesis
  proof cases
    case 1
    then show ?thesis using r take by (simp add: query_topk_def)
  next
    case 2
    obtain best where "topk_indices_from_row_dists all k = Inr best"
      "map (\<lambda>t. (all ! t, int t)) best = topk pair_le k (row_pairs all)"
      using scan_takes_nearest [of k all] assms(4) 2(2) by auto
    then show ?thesis using 2(1) r assms(1) by (simp add: query_topk_def)
  qed
qed

lemma plain_row_dists:
  "row_dist2s_for_query (plain_model 1 xs 1 ys None) q = Inr (map (\<lambda>r. posterior_row_sq_l2 q r False (ones 1)) xs)"
proof -
  let ?m = "plain_model 1 xs 1 ys None"
  have x_scale: "em_x_scale ?m = ones 1"
    by (simp add: plain_model_def first_model_def plain_options_def init_x_stats_def Let_def case_prod_beta del: One_nat_def)
  have "row_dist2s_for_query ?m q = Inr (map (\<lambda>j. posterior_row_sq_l2 q (xs ! j) False (ones 1)) [0..<length xs])"
    unfolding row_dist2s_for_query_def plain_model_fields
    by (rule map_res_all_Inr) (simp add: plain_model_fields eb_row_x_def in_memory_row_x_def in_memory_len_def plain_backend_def
      row_vec_def expected_def x_scale [unfolded One_nat_def])
  also have "map (\<lambda>j. posterior_row_sq_l2 q (xs ! j) False (ones 1)) [0..<length xs] = map (\<lambda>r. posterior_row_sq_l2 q r False (ones 1)) xs"
    by (rule nth_equalityI) simp_all
  finally show ?thesis .
qed

lemma sample_arith:
  "fsub fzero fzero = (fzero :: f64)" "fmul fzero fzero = (fzero :: f64)" "fadd fzero fzero = (fzero :: f64)"
  "fsub fzero infinity = (neg_infinity :: f64)" "fmul neg_infinity neg_infinity = (infinity :: f64)"
  "fadd fzero infinity = (infinity :: f64)" "fmax fzero fzero = (fzero :: f64)" "fmax infinity fzero = (infinity :: f64)"
  by (simp_all add: fsub_def fadd_def fmul_def fneg_def fval_def fmax_def flt_def float_eval)

lemma same_place: "posterior_row_sq_l2 [fzero] [fzero] False s = fzero"
  and far_away: "posterior_row_sq_l2 [fzero] [infinity] False s = infinity"
  by (simp_all add: posterior_row_sq_l2_def sample_arith)

lemma zero_before_infinity: "total_key (fzero :: f64) < total_key (infinity :: f64)"
  by (simp add: total_key_def float_eval)

theorem query_gets_the_nearest_rows_witness:
  "query_topk (plain_model 1 [[fzero], [fzero], [infinity]] 1 [[fzero], [fzero], [fzero]] None) 2 1 True ([fzero], [fzero, fzero], [1, 0])
    = Inr ([fzero, infinity], [0, - 1])"
proof -
  let ?m = "plain_model 1 [[fzero], [fzero], [infinity]] 1 [[fzero], [fzero], [fzero]] None"
  let ?all = "[fzero, fzero, infinity] :: f64 list"
  have rows: "row_dist2s_for_query ?m [fzero] = Inr ?all"
    unfolding plain_row_dists list.map same_place far_away ..
  have outside: "\<forall>j<length ?all. int j \<notin> set [1, 0] \<longrightarrow>
      total_key (fst (topk pair_le 1 (map (\<lambda>t. (?all ! nat t, t)) [1, 0]) ! (1 - 1))) < total_key (?all ! j)"
    using zero_before_infinity by (auto simp: less_Suc_eq topk_def pair_le_def numeral_3_eq_3)
  have "topk pair_le 1 (row_pairs ?all) = [(fzero, 0)]"
    using zero_before_infinity by (simp add: row_pairs_def topk_def pair_le_def)
  then show ?thesis
    using query_gets_the_nearest_rows [OF rows _ _ _ _ outside, of 2] by (simp add: padded_def lessThan_Suc numeral_3_eq_3)
qed

text \<open>C40: A tie between the last place and the next entry of the pool is always settled inside the pool:
  the rows of the model are not looked at, so a lower row at the same distance that the pool misses is
  not found, although the pool holds one entry more than asked only to notice such ties.\<close>

theorem tie_never_leaves_the_pool:
  assumes "0 < k" "boundary_tie (faiss_pairs_from_row ds ls) k"
  shows "query_topk m search_k k True (q, ds, ls) = Inr (padded search_k (take k (faiss_pairs_from_row ds ls)))"
  using assms boundary_tie_resolved [OF pairs_sorted assms]
  by (simp add: query_topk_def finalize_faiss_pool_topk_def Let_def)

theorem tie_never_leaves_the_pool_witness:
  "row_dist2s_for_query (plain_model 1 [[fzero], [fzero], [fzero]] 1 [[fzero], [fzero], [fzero]] None) [fzero] = Inr [fzero, fzero, fzero] \<and>
   query_topk (plain_model 1 [[fzero], [fzero], [fzero]] 1 [[fzero], [fzero], [fzero]] None) 1 1 True ([fzero], [fzero, fzero], [2, 1])
     = Inr ([fzero], [1])"
proof -
  let ?m = "plain_model 1 [[fzero], [fzero], [fzero]] 1 [[fzero], [fzero], [fzero]] None"
  have pairs: "faiss_pairs_from_row [fzero, fzero] [2, 1] = [(fzero, 1), (fzero, 2)]" by (simp add: faiss_pairs_from_row_def pair_le_def)
  then have "boundary_tie (faiss_pairs_from_row [fzero, fzero] [2, 1]) 1" by (simp add: boundary_tie_def)
  then show ?thesis
    using tie_never_leaves_the_pool [of 1 "[fzero, fzero]" "[2, 1]" ?m 1 "[fzero]"] pairs
    unfolding plain_row_dists list.map same_place by (simp add: padded_def)
qed

end
