(* ===== verification/PosteriorSearch.thy ===== *)
theory PosteriorSearch
  imports Posterior NeighborLaws FloatOrder FloatWiden
begin

text \<open>
  What a search for the posterior answers in a model in memory (\<open>rust/crates/ennx/src/posterior/\<close>): as
  many distances and labels as asked, no distance a NaN or negative, and only the index has moved.
\<close>

section \<open>Values that are not negative\<close>

text \<open>No NaN and no sign: the distances and everything the weights are made of.\<close>

definition unsigned_float :: "f64 \<Rightarrow> bool" where
  "unsigned_float x \<longleftrightarrow> \<not> is_nan x \<and> \<not> sign_neg x"

lemma unsigned_samples [simp]: "unsigned_float fzero" "unsigned_float infinity" "unsigned_float (flit p q)"
  by (simp_all add: unsigned_float_def flit_def) (simp_all add: float_eval)

lemma unsigned_keys: "unsigned_float x \<Longrightarrow> fle fzero x"
  by (simp add: unsigned_float_def fle_def fkey_def) (simp add: float_eval)

lemma fadd_unsigned:
  assumes "unsigned_float a" "fle fzero b"
  shows "unsigned_float (fadd a b)"
proof -
  have b: "\<not> is_nan b" "0 \<le> fval b" "is_inf b \<Longrightarrow> \<not> sign_neg b"
    using assms(2) nonneg_inf [of b] by (simp_all add: fle_def fval_sign_iff)
  have a: "\<not> is_nan a" "\<not> sign_neg a" "0 \<le> fval a" using assms(1) by (simp_all add: unsigned_float_def fval_def)
  have "\<not> is_nan (mk_float False 0 :: f64)" by (rule mk_float_not_nan) simp
  then show ?thesis using a b by (auto simp: fadd_def Let_def unsigned_float_def)
qed

lemma fadd_zeros:
  assumes "unsigned_float x"
  shows "fadd fzero x = x" "fadd (fneg fzero) x = x" "fadd x fzero = x"
proof -
  have zero: "\<not> is_nan (fzero :: f64)" "\<not> is_inf (fzero :: f64)" "fval (fzero :: f64) = 0" by (simp_all add: float_eval fval_def)
  have x: "\<not> is_nan x" "\<not> sign_neg x" using assms by (simp_all add: unsigned_float_def)
  have "fadd fzero x = x \<and> fadd (fneg fzero) x = x \<and> fadd x fzero = x"
  proof (cases "is_inf x")
    case True
    then show ?thesis using x zero by (simp add: fadd_def)
  next
    case False
    then have fin: "is_finite x" using x not_nan_cases [of x] by blast
    have exact: "round_float False (units x) 1 = x" using x(2) fin by (intro round_float_exact) simp_all
    have none: "mk_float False 0 = x" if "units x = 0"
      using that x(2) mk_float_collapse [of x] by (simp add: units_0_iff)
    have z: "fval x = int (units x)" using x by (simp add: fval_def)
    show ?thesis using False x zero exact none by (simp add: fadd_def Let_def z)
  qed
  then show "fadd fzero x = x" "fadd (fneg fzero) x = x" "fadd x fzero = x" by blast+
qed

lemma one_value: "flit 1 1 = one64"
  unfolding flit_def
  by (rule round_float_exact) (use sample_finite(1) sample_signs(1) in \<open>simp_all add: sample_units unit_exp_def\<close>)

lemma fdiv_one_unsigned: "unsigned_float x \<Longrightarrow> unsigned_float (fdiv (flit 1 1) x)"
proof -
  assume "unsigned_float x"
  then have x: "\<not> is_nan x" "\<not> sign_neg x" by (simp_all add: unsigned_float_def)
  have one: "\<not> is_nan (flit 1 1 :: f64)" "\<not> is_inf (flit 1 1 :: f64)" "\<not> sign_neg (flit 1 1 :: f64)" "mag (flit 1 1 :: f64) \<noteq> 0"
    using sample_finite(1) sample_signs(1) sample_mags(1) finite_not_special [of one64] by (simp_all only: one_value) simp_all
  have "\<not> is_nan (mk_float False 0 :: f64)" "\<not> is_nan (mk_float False (inf_mag 64) :: f64)" by (rule mk_float_not_nan; simp)+
  then show ?thesis using x one by (auto simp: fdiv_def Let_def unsigned_float_def)
qed

lemma zero_layout: "\<not> sign_neg (fzero :: f64)" "mag (fzero :: f64) = 0"
  by (simp_all add: float_eval)

lemma fmul_unsigned:
  assumes "is_finite a" "flt fzero a" "unsigned_float b"
  shows "unsigned_float (fmul a b)"
proof -
  have a: "\<not> is_nan a" "\<not> is_inf a" "\<not> sign_neg a" "mag a \<noteq> 0"
    using assms(1,2) finite_not_special [OF assms(1)] zero_layout by (auto simp: flt_def fkey_def split: if_splits)
  have "\<not> is_nan (mk_float False (inf_mag 64) :: f64)" by (rule mk_float_not_nan) simp
  moreover have "mag b \<noteq> 0" if "is_inf b" using that by (simp add: is_inf_def float_layout)
  ultimately show ?thesis using a assms(3) by (auto simp: fmul_def Let_def unsigned_float_def)
qed

lemma sum_unsigned: "unsigned_float a \<Longrightarrow> \<forall>w\<in>set ws. unsigned_float w \<Longrightarrow> unsigned_float (foldl fadd a ws)"
  by (induction ws arbitrary: a) (simp_all add: fadd_unsigned unsigned_keys)

lemma sum_from_either_zero:
  assumes "ws \<noteq> []" "\<forall>w\<in>set ws. unsigned_float w"
  shows "foldl fadd (fneg fzero) ws = foldl fadd fzero ws" "unsigned_float (foldl fadd fzero ws)"
  using assms sum_unsigned [of fzero ws] by (cases ws; simp add: fadd_zeros)+

text \<open>The squared distance of two rows.\<close>

lemma square_sum_unsigned:
  "is_nan a \<or> unsigned_float a \<Longrightarrow> is_nan (foldl (\<lambda>acc d. fadd acc (fmul d d)) a ds) \<or> unsigned_float (foldl (\<lambda>acc d. fadd acc (fmul d d)) a ds)"
proof (induction ds arbitrary: a)
  case (Cons d ds)
  have "is_nan (fmul d d) \<or> unsigned_float (fmul d d)" by (auto simp: fmul_def Let_def unsigned_float_def)
  then have "is_nan (fadd a (fmul d d)) \<or> unsigned_float (fadd a (fmul d d))"
    using Cons.prems fadd_unsigned [OF _ unsigned_keys] by (auto simp: is_nan_fadd)
  then show ?case using Cons.IH by simp
qed simp

lemma distance_unsigned: "unsigned_float (posterior_row_sq_l2 x y scale_x s)"
proof -
  let ?s = "foldl (\<lambda>acc d. fadd acc (fmul d d)) fzero
    (if scale_x then map2 (\<lambda>(a, t) b. fsub (fdiv a t) (fdiv b t)) (zip x s) y else map2 fsub x y)"
  have "is_nan ?s \<or> unsigned_float ?s" by (rule square_sum_unsigned) simp
  moreover have "\<not> is_nan (fzero :: f64)" by (simp add: float_eval)
  ultimately show ?thesis by (auto simp: posterior_row_sq_l2_def fmax_def)
qed

section \<open>The distances of a search\<close>

definition good_hit :: "nat \<Rightarrow> hits \<Rightarrow> bool" where
  "good_hit n h \<longleftrightarrow> length (fst h) = n \<and> length (snd h) = n \<and> (\<forall>d\<in>set (fst h). unsigned_float d)"

lemma dist2s_unsigned:
  assumes "dist2s_for_neighbor_indices m x idx = Inr ds"
  shows "length ds = min (length (snd x)) (length idx)" "i < length ds \<Longrightarrow> length (ds ! i) = length (idx ! i)"
    "i < length ds \<Longrightarrow> d \<in> set (ds ! i) \<Longrightarrow> unsigned_float d"
proof -
  obtain row_of :: "nat \<Rightarrow> ENNError + f64 list" where row_of: "map_res (\<lambda>(q, ls). map_res (\<lambda>l. if l < 0 then Inr infinity
      else rbind (row_of (nat l)) (\<lambda>t. Inr (posterior_row_sq_l2 q t (em_scale_x m) (em_x_scale m)))) ls) (zip (snd x) idx) = Inr ds"
    using assms unfolding dist2s_for_neighbor_indices_def rbind_Inr_conv by (elim exE conjE) (rule that)
  have rows: "list_all2 (\<lambda>p r. list_all2 (\<lambda>l d. (if l < 0 then Inr infinity
      else rbind (row_of (nat l)) (\<lambda>t. Inr (posterior_row_sq_l2 (fst p) t (em_scale_x m) (em_x_scale m)))) = Inr d) (snd p) r) (zip (snd x) idx) ds"
    using row_of by (simp only: map_res_Inr_conv case_prod_beta)
  show len: "length ds = min (length (snd x)) (length idx)" using rows by (auto dest: list_all2_lengthD)
  have row: "list_all2 (\<lambda>l d. (if l < 0 then Inr infinity
      else rbind (row_of (nat l)) (\<lambda>t. Inr (posterior_row_sq_l2 (snd x ! i) t (em_scale_x m) (em_x_scale m)))) = Inr d) (idx ! i) (ds ! i)"
    if "i < length ds" for i
  proof -
    have "zip (snd x) idx ! i = (snd x ! i, idx ! i)" using that len by (intro nth_zip) simp_all
    then show ?thesis using list_all2_nthD2 [OF rows that] by (simp only: fst_conv snd_conv)
  qed
  show "length (ds ! i) = length (idx ! i)" if "i < length ds" using list_all2_lengthD [OF row [OF that]] by simp
  show "unsigned_float d" if i: "i < length ds" and d: "d \<in> set (ds ! i)"
  proof -
    obtain j where j: "j < length (ds ! i)" "d = ds ! i ! j" using d by (metis in_set_conv_nth)
    have "(if idx ! i ! j < 0 then Inr infinity
      else rbind (row_of (nat (idx ! i ! j))) (\<lambda>t. Inr (posterior_row_sq_l2 (snd x ! i) t (em_scale_x m) (em_x_scale m)))) = Inr d"
      using list_all2_nthD2 [OF row [OF i] j(1)] j(2) by simp
    then show ?thesis by (auto simp: rbind_Inr_conv distance_unsigned split: if_splits)
  qed
qed

lemma row_dist2s_unsigned:
  assumes "row_dist2s_for_query m q = Inr all" "d \<in> set all"
  shows "unsigned_float d"
proof -
  have rows: "list_all2 (\<lambda>j d. rbind (expected (eb_row_x j (em_backend m))) (\<lambda>t. Inr (posterior_row_sq_l2 q t (em_scale_x m) (em_x_scale m))) = Inr d)
      [0..<em_num_obs m] all"
    using assms(1) by (simp add: row_dist2s_for_query_def map_res_Inr_conv)
  obtain j where "j < length all" "d = all ! j" using assms(2) by (metis in_set_conv_nth)
  then show ?thesis using list_all2_nthD2 [OF rows, of j] distance_unsigned by (auto simp: rbind_Inr_conv) metis
qed

lemma finalize_scan:
  assumes "finalize_faiss_pool_topk m q ps k True = Inr (True, qs)"
  obtains all where "row_dist2s_for_query m q = Inr all" "k < length all"
  using assms
  by (auto simp: finalize_faiss_pool_topk_def Let_def rbind_Inr_conv faiss_pool_needs_full_row_scan_from_row_def
    split: if_splits option.splits)

lemma query_topk_good:
  assumes "query_topk m n k tie (q, ds, ls) = Inr h" "0 < k" "k \<le> n" "\<forall>d\<in>set ds. unsigned_float d"
  shows "good_hit n h"
proof -
  obtain scan ps where fin: "finalize_faiss_pool_topk m q (faiss_pairs_from_row ds ls) k tie = Inr (scan, ps)"
    using assms(1) by (auto simp: query_topk_def rbind_Inr_conv split: prod.splits)
  have padded: "good_hit n (padded n qs)" if "length qs \<le> n" "\<forall>p\<in>set qs. unsigned_float (fst p)" for qs
    using that by (auto simp: good_hit_def padded_def)
  show ?thesis
  proof (cases scan)
    case False
    then have ps: "ps = take k (faiss_pairs_from_row ds ls)"
      using fin by (intro finalize_without_scan [OF pairs_sorted _ assms(2), of m q ds ls tie]) simp
    have "unsigned_float (fst p)" if "p \<in> set ps" for p
    proof -
      have "p \<in> set (faiss_pairs_from_row ds ls)" using that unfolding ps by (rule in_set_takeD)
      then have "fst p \<in> set ds" by (auto simp: faiss_pairs_from_row_def dest: set_zip_leftD)
      then show ?thesis using assms(4) by blast
    qed
    then show ?thesis using padded [of ps] assms(1,3) fin False by (simp add: query_topk_def ps)
  next
    case True
    have "tie" using fin True by (cases tie) (simp_all add: finalize_faiss_pool_topk_def)
    then obtain all where all: "row_dist2s_for_query m q = Inr all" "k < length all"
      using finalize_scan [of m q "faiss_pairs_from_row ds ls" k ps] fin True by auto
    obtain best where best: "topk_indices_from_row_dists all k = Inr best"
      "map (\<lambda>t. (all ! t, int t)) best = topk pair_le k (row_pairs all)"
      using scan_takes_nearest [OF assms(2), of all] all(2) by auto
    have h: "h = padded n (topk pair_le k (row_pairs all))"
      using assms(1) fin True all(1) best by (simp add: query_topk_def)
    have "unsigned_float (fst p)" if "p \<in> set (topk pair_le k (row_pairs all))" for p
    proof -
      have "p \<in> set (row_pairs all)" using that set_topk [of pair_le k "row_pairs all"] by blast
      then have "fst p \<in> set all" by (auto simp: row_pairs_def)
      then show ?thesis using row_dist2s_unsigned [OF all(1)] by blast
    qed
    then show ?thesis unfolding h by (intro padded) (use assms(3) in auto)
  qed
qed

text \<open>The index in memory answers with as many labels as asked, without the first if that is excluded.\<close>

lemma drop_nearest_cases:
  "h \<in> set (drop_nearest exclude rows) \<Longrightarrow> \<exists>g\<in>set rows. h = (if exclude then (drop 1 (fst g), drop 1 (snd g)) else g)"
  by (cases exclude) (force simp: drop_nearest_def)+

lemma drop_nearest_good:
  assumes "\<forall>g\<in>set rows. good_hit n g" "h \<in> set (drop_nearest exclude rows)"
  shows "good_hit (if exclude then n - 1 else n) h"
proof -
  obtain g where "good_hit n g" "h = (if exclude then (drop 1 (fst g), drop 1 (snd g)) else g)"
    using drop_nearest_cases [OF assms(2)] assms(1) by blast
  then show ?thesis by (cases exclude) (auto simp: good_hit_def dest!: in_set_dropD)
qed

lemma padded_labels:
  assumes "g \<in> set (pad_neighbor_cols_to_search_k (min k n) k (unpack_batch_search q (min k n) ds ls))"
  shows "length (snd g) = k"
  using assms
  by (cases "k \<le> n") (auto simp: pad_neighbor_cols_to_search_k_def unpack_batch_search_def pad_hits_def min_absorb1 min_absorb2)

lemma faiss_search_labels:
  assumes "faiss_backend_search ops q (min k n) k b = (Inr rows, b')" "g \<in> set rows"
  shows "length (snd g) = k"
proof -
  obtain ds ls where "rows = pad_neighbor_cols_to_search_k (min k n) k (unpack_batch_search (length (snd q)) (min k n) ds ls)"
    using assms(1) by (auto simp: faiss_backend_search_def Let_def split: if_splits prod.splits option.splits)
  then show ?thesis using padded_labels assms(2) by blast
qed

lemma in_memory_labels:
  assumes "in_memory_search ops q k exclude b = (Inr rows, b')" "h \<in> set rows"
  shows "length (snd h) = (if exclude then nat k - 1 else nat k)"
proof -
  obtain ix where step: "index_search ops q k exclude (im_index b) = (Inr rows, ix)"
    using assms(1) by (auto simp: in_memory_search_def param_err_def split: prod.splits sum.splits IndexError.splits)
  obtain rows0 where rows0: "rows = drop_nearest exclude rows0" "\<forall>g\<in>set rows0. length (snd g) = nat k"
  proof -
    consider "rows = drop_nearest exclude (map (\<lambda>_. (replicate (nat k) infinity, replicate (nat k) 0)) (snd q))"
      | q1 n rows0 fb where "faiss_backend_search ops q1 (min (nat k) n) (nat k) (ix_inner (im_index b)) = (Inr rows0, fb)"
          "rows = drop_nearest exclude rows0"
      using step by (auto simp: index_search_def Let_def rbind_Inr_conv split: if_splits sum.splits prod.splits)
    then show ?thesis
    proof cases
      case 1
      then show ?thesis by (rule that) auto
    next
      case 2
      then show ?thesis using faiss_search_labels that by blast
    qed
  qed
  obtain g where "g \<in> set rows0" "h = (if exclude then (drop 1 (fst g), drop 1 (snd g)) else g)"
    using drop_nearest_cases [of h exclude rows0] assms(2) rows0(1) by blast
  then show ?thesis using rows0(2) by (cases exclude) simp_all
qed

text \<open>What the index of FAISS answers are squared distances: none is a NaN or negative.\<close>

definition faiss_distances_ok :: "'f faiss_ops \<Rightarrow> bool" where
  "faiss_distances_ok ops \<longleftrightarrow> (\<forall>n k q h ds ls h'. faiss_search ops n k q h = (Some (ds, ls), h') \<longrightarrow>
     length ds = n * k \<and> (\<forall>d\<in>set ds. \<not> is_nan d \<and> \<not> sign_neg d))"

lemma faiss_distances_okD:
  assumes "faiss_distances_ok ops" "faiss_search ops n k q h = (Some (ds, ls), h')"
  shows "length ds = n * k" "d \<in> set ds \<Longrightarrow> \<not> is_nan d \<and> \<not> sign_neg d"
  using assms unfolding faiss_distances_ok_def by blast+

lemma unpacked_unsigned:
  assumes "length ds = n * k" "\<forall>d\<in>set ds. \<not> is_nan d \<and> \<not> sign_neg d" "g \<in> set (unpack_batch_search n k ds ls)" "d \<in> set (fst g)"
  shows "unsigned_float d"
proof -
  obtain i j where at: "i < n" "j < k" "d = f64_of_f32 (ds ! (i * k + j))"
    using assms(3,4) by (auto simp: unpack_batch_search_def)
  have "i * k + j < i * k + k" using at(2) by simp
  also have "\<dots> \<le> n * k" using at(1) mult_le_mono1 [of "Suc i" n k] by (simp add: algebra_simps)
  finally have "ds ! (i * k + j) \<in> set ds" using assms(1) by simp
  then show ?thesis using assms(2) f64_of_f32_shape [of "ds ! (i * k + j)"] at(3) by (simp add: unsigned_float_def)
qed

lemma padded_unsigned:
  assumes "\<forall>g\<in>set rows. \<forall>d\<in>set (fst g). unsigned_float d" "h \<in> set (pad_neighbor_cols_to_search_k k n rows)" "d \<in> set (fst h)"
  shows "unsigned_float d"
proof -
  obtain g where g: "g \<in> set rows" "h = pad_hits k n g" using assms(2) by (auto simp: pad_neighbor_cols_to_search_k_def)
  obtain ds ls where pair: "g = (ds, ls)" by (cases g)
  have "d \<in> set ds \<or> d = infinity"
    using assms(3) by (simp add: g(2) pair pad_hits_def split: if_split_asm) auto
  then show ?thesis using assms(1) g(1) pair by force
qed

lemma faiss_search_unsigned:
  assumes "faiss_distances_ok ops" "faiss_backend_search ops q k n b = (Inr rows, b')" "h \<in> set rows" "d \<in> set (fst h)"
  shows "unsigned_float d"
proof -
  let ?n = "length (snd q)"
  obtain ds ls where rows: "rows = pad_neighbor_cols_to_search_k k n (unpack_batch_search ?n k ds ls)"
    and ds: "length ds = ?n * k" "\<forall>d\<in>set ds. \<not> is_nan d \<and> \<not> sign_neg d"
  proof -
    have zero: "\<not> is_nan (fzero :: f32)" "\<not> sign_neg (fzero :: f32)" by (simp_all add: float_eval)
    obtain ds ls h' where "(if k > 0 \<and> ?n > 0 then faiss_search ops ?n k (arr2_rows_to_f32 (snd q)) (fb_handle b)
        else (Some (replicate (?n * k) fzero, replicate (?n * k) 0), fb_handle b)) = (Some (ds, ls), h')"
      "rows = pad_neighbor_cols_to_search_k k n (unpack_batch_search ?n k ds ls)"
      using assms(2) unfolding faiss_backend_search_def Let_def by (auto split: if_split_asm prod.splits option.splits)
    then have "length ds = ?n * k \<and> (\<forall>d\<in>set ds. \<not> is_nan d \<and> \<not> sign_neg d)"
      "rows = pad_neighbor_cols_to_search_k k n (unpack_batch_search ?n k ds ls)"
      using faiss_distances_okD [OF assms(1)] zero by (auto split: if_split_asm)
    then show ?thesis using that by blast
  qed
  have "\<forall>g\<in>set (unpack_batch_search ?n k ds ls). \<forall>d\<in>set (fst g). unsigned_float d"
    using unpacked_unsigned [OF ds] by blast
  then show ?thesis using padded_unsigned assms(3,4) unfolding rows by blast
qed

lemma drop_nearest_unsigned:
  assumes "\<forall>g\<in>set rows. \<forall>d\<in>set (fst g). unsigned_float d" "h \<in> set (drop_nearest exclude rows)" "d \<in> set (fst h)"
  shows "unsigned_float d"
proof -
  obtain g where "g \<in> set rows" "h = (if exclude then (drop 1 (fst g), drop 1 (snd g)) else g)"
    using drop_nearest_cases [OF assms(2)] by blast
  then show ?thesis using assms(1,3) by (cases exclude) (auto dest!: in_set_dropD)
qed

lemma in_memory_unsigned:
  assumes "faiss_distances_ok ops" "in_memory_search ops q k exclude b = (Inr rows, b')" "h \<in> set rows" "d \<in> set (fst h)"
  shows "unsigned_float d"
proof -
  obtain ix where step: "index_search ops q k exclude (im_index b) = (Inr rows, ix)"
    using assms(2) by (auto simp: in_memory_search_def param_err_def split: prod.splits sum.splits IndexError.splits)
  consider "rows = drop_nearest exclude (map (\<lambda>_. (replicate (nat k) infinity, replicate (nat k) 0)) (snd q))"
    | q1 n rows0 fb where "faiss_backend_search ops q1 (min (nat k) n) (nat k) (ix_inner (im_index b)) = (Inr rows0, fb)"
        "rows = drop_nearest exclude rows0"
    using step by (auto simp: index_search_def Let_def rbind_Inr_conv split: if_splits sum.splits prod.splits)
  then show ?thesis
  proof cases
    case 1
    then show ?thesis using assms(3,4) by (intro drop_nearest_unsigned [of _ h exclude d]) auto
  next
    case 2
    then show ?thesis using drop_nearest_unsigned faiss_search_unsigned [OF assms(1) 2(1)] assms(3,4) by metis
  qed
qed

lemma mem_backend_search:
  assumes "em_backend m = InMemory b" "model_backend_search env q k exclude m = Some (Inr rows, m')"
  shows "\<exists>b'. m' = m\<lparr>em_backend := InMemory b'\<rparr> \<and> data_of b' = data_of b"
    "h \<in> set rows \<Longrightarrow> length (snd h) = (if exclude then nat k - 1 else nat k)"
    "faiss_distances_ok (be_faiss env) \<Longrightarrow> h \<in> set rows \<Longrightarrow> d \<in> set (fst h) \<Longrightarrow> unsigned_float d"
proof -
  obtain b1 b2 where steps: "in_memory_ensure_sync (be_faiss env) (em_scale_x m) (em_x_scale m) b = (Inr (), b1)"
    "in_memory_search (be_faiss env) q k exclude b1 = (Inr rows, b2)" "m' = m\<lparr>em_backend := InMemory b2\<rparr>"
    using assms by (rule backend_search_in_memory)
  then show "\<exists>b'. m' = m\<lparr>em_backend := InMemory b'\<rparr> \<and> data_of b' = data_of b"
    using sync_data [OF steps(1)] search_data [OF steps(2)] by auto
  show "length (snd h) = (if exclude then nat k - 1 else nat k)" if "h \<in> set rows"
    using in_memory_labels [OF steps(2) that] .
  show "unsigned_float d" if "faiss_distances_ok (be_faiss env)" "h \<in> set rows" "d \<in> set (fst h)"
    using in_memory_unsigned [OF that(1) steps(2) that(2,3)] .
qed

lemma zip_good:
  assumes "dist2s_for_neighbor_indices m x (map snd found) = Inr ds" "\<forall>h\<in>set found. length (snd h) = n" "g \<in> set (zip ds (map snd found))"
  shows "good_hit n g"
proof -
  obtain i where i: "i < length ds" "i < length found" "g = (ds ! i, snd (found ! i))"
    using assms(3) by (auto simp: in_set_zip)
  then show ?thesis using dist2s_unsigned(2,3) [OF assms(1) i(1)] assms(2) by (auto simp: good_hit_def)
qed

text \<open>Synchronising and searching leave everything but the index as it was.\<close>

definition index_moved :: "'f EpistemicNearestNeighbors \<Rightarrow> 'f EpistemicNearestNeighbors \<Rightarrow> bool" where
  "index_moved m m' \<longleftrightarrow> (\<forall>b. em_backend m = InMemory b \<longrightarrow> (\<exists>b'. m' = m\<lparr>em_backend := InMemory b'\<rparr> \<and> data_of b' = data_of b))"

lemma index_movedE:
  assumes "index_moved m m'" "em_backend m = InMemory b"
  obtains b' where "m' = m\<lparr>em_backend := InMemory b'\<rparr>" "data_of b' = data_of b"
  using assms by (auto simp: index_moved_def)

lemma then_step_pure:
  assumes "then_step s (\<lambda>f st. Some (g f st, st)) = Some (Inr r, st')"
  obtains f where "s = Some (Inr f, st')" "g f st' = Inr r"
  using assms by (auto simp: then_step_Inr_conv)

text \<open>The distances that the exact search ranks: recomputed when ties are broken, those of the index otherwise.\<close>

lemma exact_topk_good:
  assumes "em_backend m = InMemory b" "exact_f64_batch_topk env m x k0 exclude tie = Some (Inr rows, m')"
    "0 < as_usize k0" "as_usize k0 \<le> em_num_obs m" "tie \<or> faiss_distances_ok (be_faiss env)"
  shows "index_moved m m'" "h \<in> set rows \<Longrightarrow> good_hit (if exclude then as_usize k0 - 1 else as_usize k0) h"
proof -
  let ?k = "as_usize k0"
  let ?dists = "\<lambda>m1 found. if tie then dist2s_for_neighbor_indices m1 x (map snd found) else Inr (map fst found)"
  have k: "min ?k (em_num_obs m) = ?k" using assms(4) by simp
  obtain pool where "then_step (model_backend_search env x pool False m) (\<lambda>found m1. Some (rbind (?dists m1 found) (\<lambda>dists.
      rbind (map_res (query_topk m1 ?k ?k tie) (zip (snd x) (zip dists (map snd found)))) (\<lambda>rows. Inr (drop_nearest exclude rows))), m1))
    = Some (Inr rows, m')"
    using assms(2,3) unfolding exact_f64_batch_topk_def Let_def k by (simp split: if_splits)
  then obtain found where step: "model_backend_search env x pool False m = Some (Inr found, m')"
    and rest: "rbind (?dists m' found) (\<lambda>dists.
      rbind (map_res (query_topk m' ?k ?k tie) (zip (snd x) (zip dists (map snd found)))) (\<lambda>rows. Inr (drop_nearest exclude rows))) = Inr rows"
    by (rule then_step_pure)
  show "index_moved m m'" using mem_backend_search(1) [OF assms(1) step] assms(1) by (auto simp: index_moved_def)
  obtain ds rows0 where ds: "?dists m' found = Inr ds"
    and rows0: "list_all2 (\<lambda>a r. query_topk m' ?k ?k tie a = Inr r) (zip (snd x) (zip ds (map snd found))) rows0"
    and rows: "rows = drop_nearest exclude rows0"
    using rest by (auto simp: rbind_Inr_conv map_res_Inr_conv)
  have dist: "unsigned_float d" if "i < length ds" "i < length found" "d \<in> set (ds ! i)" for i d
  proof (cases tie)
    case True
    then show ?thesis using ds dist2s_unsigned(3) [of m' x "map snd found" ds i d] that by simp
  next
    case False
    then show ?thesis using ds that assms(5) mem_backend_search(3) [OF assms(1) step, of "found ! i" d] by auto
  qed
  have "good_hit ?k g" if g: "g \<in> set rows0" for g
  proof -
    obtain i where i: "i < length rows0" "g = rows0 ! i" using g by (metis in_set_conv_nth)
    have len: "i < length (snd x)" "i < length ds" "i < length found" using list_all2_lengthD [OF rows0] i(1) by simp_all
    have "query_topk m' ?k ?k tie (snd x ! i, ds ! i, snd (found ! i)) = Inr g"
      using list_all2_nthD2 [OF rows0 i(1)] len i(2) by simp
    moreover have "\<forall>d\<in>set (ds ! i). unsigned_float d" using dist [OF len(2,3)] by blast
    ultimately show ?thesis by (rule query_topk_good [OF _ assms(3) order.refl])
  qed
  then show "good_hit (if exclude then ?k - 1 else ?k) h" if "h \<in> set rows"
    using drop_nearest_good [of rows0 ?k h exclude] that rows by blast
qed

text \<open>Synchronising keeps the driver.\<close>

lemma rebuilt_driver: "rebuilt ops x scale b = (r, b') \<Longrightarrow> ix_driver (im_index b') = ix_driver (im_index b)"
  by (auto simp: rebuilt_def rebuild_from_scaled_def split: prod.splits sum.splits)

lemma add_driver: "index_add ops x ix = (r, ix') \<Longrightarrow> ix_driver ix' = ix_driver ix"
  by (auto simp: index_add_def split: if_splits prod.splits sum.splits)

lemma sync_driver:
  "in_memory_ensure_sync ops scale_x scale b = (r, b') \<Longrightarrow> ix_driver (im_index b') = ix_driver (im_index b)"
  by (auto simp: in_memory_ensure_sync_def Let_def split: if_splits sum.splits prod.splits dest!: rebuilt_driver add_driver)

lemma posterior_search_good:
  assumes "em_backend m = InMemory b" "posterior_index_search env m x k0 exclude tie = Some (Inr rows, m')"
    "0 < as_usize k0" "as_usize k0 \<le> em_num_obs m" "nat k0 = as_usize k0"
    and "tie \<or> eb_driver (em_backend m) \<noteq> Exact \<or> faiss_distances_ok (be_faiss env)"
  shows "index_moved m m'" "h \<in> set rows \<Longrightarrow> good_hit (if exclude then as_usize k0 - 1 else as_usize k0) h"
proof -
  obtain m1 where sync: "model_ensure_sync env m = Some (Inr (), m1)"
    and rest: "(if eb_driver (em_backend m1) = Exact then exact_f64_batch_topk env m1 x k0 exclude tie
       else then_step (model_backend_search env x k0 exclude m1) (\<lambda>found m2.
         Some (rbind (dist2s_for_neighbor_indices m2 x (map snd found)) (\<lambda>dists. Inr (zip dists (map snd found))), m2)))
      = Some (Inr rows, m')"
    using assms(1,2) by (auto simp: posterior_index_search_def eb_defer_index_sync_for_search_def then_step_Inr_conv)
  obtain b1 where b1: "m1 = m\<lparr>em_backend := InMemory b1\<rparr>" "data_of b1 = data_of b"
    and driver: "ix_driver (im_index b1) = ix_driver (im_index b)"
    using sync assms(1) by (auto simp: model_sync_in_memory dest: sync_data sync_driver split: prod.splits)
  have mem: "em_backend m1 = InMemory b1" "em_num_obs m1 = em_num_obs m" by (simp_all add: b1(1))
  have moved: "index_moved m m2" if "index_moved m1 m2" for m2
    using index_movedE [OF that mem(1)] b1 assms(1) unfolding index_moved_def by (metis EnnBackend.inject(1) EpistemicNearestNeighbors.update_convs(1) EpistemicNearestNeighbors.surjective)
  have "index_moved m1 m' \<and> (h \<in> set rows \<longrightarrow> good_hit (if exclude then as_usize k0 - 1 else as_usize k0) h)"
  proof (cases "eb_driver (em_backend m1) = Exact")
    case True
    then have "exact_f64_batch_topk env m1 x k0 exclude tie = Some (Inr rows, m')" using rest by simp
    note good = exact_topk_good [OF mem(1) this assms(3)]
    have "tie \<or> faiss_distances_ok (be_faiss env)" using assms(1,6) True driver by (simp add: mem(1) eb_driver_def)
    then show ?thesis using good assms(4) mem(2) by simp
  next
    case False
    then obtain found ds where found: "model_backend_search env x k0 exclude m1 = Some (Inr found, m')"
      and ds: "dist2s_for_neighbor_indices m' x (map snd found) = Inr ds" "rows = zip ds (map snd found)"
      using rest by (auto simp: then_step_Inr_conv rbind_Inr_conv)
    have "\<forall>g\<in>set found. length (snd g) = (if exclude then as_usize k0 - 1 else as_usize k0)"
      using mem_backend_search(2) [OF mem(1) found] assms(5) by simp
    then show ?thesis
      using mem_backend_search(1) [OF mem(1) found] mem(1) zip_good [OF ds(1)] ds(2) by (auto simp: index_moved_def)
  qed
  then show "index_moved m m'" "h \<in> set rows \<Longrightarrow> good_hit (if exclude then as_usize k0 - 1 else as_usize k0) h"
    using moved by blast+
qed

end
