(* ===== verification/PosteriorLaws.thy ===== *)
theory PosteriorLaws
  imports PosteriorSearch
begin

text \<open>
  The two paths of the posterior (\<open>rust/crates/ennx/src/posterior.rs\<close>, \<open>posterior/light.rs\<close>): without
  variances and without observation noise the fused path gives what the full path gives.
\<close>

section \<open>One query on both paths\<close>

definition usable_params :: "ENNParams \<Rightarrow> bool" where
  "usable_params params \<longleftrightarrow> is_finite (epistemic_variance_scale params) \<and> flt fzero (epistemic_variance_scale params) \<and>
     fle fzero (aleatoric_variance_scale params)"

lemma usable_new:
  assumes "enn_params_new k epi ale = Some params" "flt fzero epi"
  shows "usable_params params"
proof -
  have "fle fzero ale" if "is_finite ale" "\<not> flt ale fzero"
    using that finite_not_special [of ale] by (auto simp: fle_def flt_def) (simp_all add: float_eval)
  then show ?thesis using assms by (auto simp: enn_params_new_def usable_params_def split: if_splits)
qed

definition light_weight :: "ENNParams \<Rightarrow> f64 \<Rightarrow> f64" where
  "light_weight params d =
     fdiv (flit 1 1) (fadd (fadd eps_var (fmul (epistemic_variance_scale params) d)) (aleatoric_variance_scale params))"

lemma weights_agree:
  assumes "usable_params params" "unsigned_float d"
  shows "neighbor_weight params d fzero = light_weight params d" "unsigned_float (light_weight params d)"
proof -
  let ?t = "fadd (fadd eps_var (fmul (epistemic_variance_scale params) d)) (aleatoric_variance_scale params)"
  have "unsigned_float (fmul (epistemic_variance_scale params) d)"
    using assms by (intro fmul_unsigned) (simp_all add: usable_params_def)
  then have t: "unsigned_float ?t"
    using assms(1) fadd_unsigned [OF fadd_unsigned [OF _ unsigned_keys]] by (simp add: eps_var_def usable_params_def)
  show "neighbor_weight params d fzero = light_weight params d"
    by (simp only: neighbor_weight_def light_weight_def fadd_zeros(3) [OF t])
  show "unsigned_float (light_weight params d)" unfolding light_weight_def by (rule fdiv_one_unsigned [OF t])
qed

lemma fold_zip_map:
  "foldl (\<lambda>a (u, v). F a u v) a (zip (map f us) (map g vs)) = foldl (\<lambda>a (u, v). F a (f u) (g v)) a (zip us vs)"
proof (induction us arbitrary: a vs)
  case (Cons u us)
  then show ?case by (cases vs) simp_all
qed simp

definition usable_scale :: "f64 \<Rightarrow> bool" where
  "usable_scale ys \<longleftrightarrow> is_finite ys \<and> \<not> sign_neg ys"

lemma zero_root: "usable_scale ys \<Longrightarrow> fmul (fsqrt fzero) ys = (fzero :: f64)"
proof -
  assume ys: "usable_scale ys"
  have zero: "is_finite (fzero :: f64)" "\<not> sign_neg (fzero :: f64)" "units (fzero :: f64) = 0" "fsqrt fzero = (fzero :: f64)"
    using zero_layout units_0_iff [of "fzero :: f64"] by (simp_all add: fsqrt_def) (simp_all add: float_eval)
  show ?thesis unfolding zero(4) by (rule fmul_exact) (use ys zero(1-3) in \<open>simp_all add: usable_scale_def\<close>)
qed

text \<open>The statistics without observation noise.\<close>

lemma quiet_stats:
  assumes "usable_scale ys" "w \<noteq> []" "\<forall>u\<in>set w. unsigned_float u"
    "iv = fdiv (flit 1 1) (foldl fadd fzero w)"
  shows "ms_mu (stats_from_neighbor_weights w y v False ale ys) = foldl (\<lambda>a (u, v). fadd a (fmul (fmul u iv) v)) fzero (zip w y)"
    "ms_se (stats_from_neighbor_weights w y v False ale ys) = fmul (fsqrt (fmax iv eps_var)) ys"
    "ms_se_epi (stats_from_neighbor_weights w y v False ale ys) = fmul (fsqrt (fmax iv eps_var)) ys"
    "ms_se_ale (stats_from_neighbor_weights w y v False ale ys) = fzero"
proof -
  have iv: "fdiv (flit 1 1) (foldl fadd (fneg fzero) w) = iv" by (simp only: sum_from_either_zero(1) [OF assms(2,3)] assms(4))
  have unsigned: "unsigned_float iv" unfolding assms(4) by (intro fdiv_one_unsigned sum_from_either_zero assms(2,3))
  have eps: "\<not> is_nan eps_var" using unsigned_samples(3) [of 1 "10 ^ 9"] by (simp add: unsigned_float_def eps_var_def)
  have max: "fmax iv eps_var = (if flt iv eps_var then eps_var else iv)" using eps unsigned by (simp add: fmax_def unsigned_float_def)
  show "ms_se (stats_from_neighbor_weights w y v False ale ys) = fmul (fsqrt (fmax iv eps_var)) ys"
    "ms_se_epi (stats_from_neighbor_weights w y v False ale ys) = fmul (fsqrt (fmax iv eps_var)) ys"
    "ms_se_ale (stats_from_neighbor_weights w y v False ale ys) = fzero"
    by (simp_all add: stats_from_neighbor_weights_def Let_def iv [unfolded One_nat_def] se_from_variance_components_def fadd_zeros(3) [OF unsigned] max
      zero_root [OF assms(1)] split: prod.split)
  show "ms_mu (stats_from_neighbor_weights w y v False ale ys) = foldl (\<lambda>a (u, v). fadd a (fmul (fmul u iv) v)) fzero (zip w y)"
    using fold_zip_map [of "\<lambda>a u v. fadd a (fmul u v)" fzero "\<lambda>u. fmul u iv" w id y]
    by (simp add: stats_from_neighbor_weights_def Let_def iv [unfolded One_nat_def] se_from_variance_components_def split: prod.split)
qed

lemma same_weights:
  assumes "usable_params params" "\<forall>d\<in>set ds. unsigned_float d"
  shows "map2 (neighbor_weight params) ds (map (var_share None k ys) [0..<length ds]) = map (light_weight params) ds"
proof (rule nth_equalityI)
  fix i assume "i < length (map2 (neighbor_weight params) ds (map (var_share None k ys) [0..<length ds]))"
  then have "i < length ds" by simp
  then show "map2 (neighbor_weight params) ds (map (var_share None k ys) [0..<length ds]) ! i = map (light_weight params) ds ! i"
    using assms weights_agree(1) by (simp add: var_share_def)
qed simp

lemma query_stats_quiet:
  fixes ys :: "f64 list list"
  assumes "usable_params params" "\<forall>d\<in>set ds. unsigned_float d" "ds \<noteq> []" "\<forall>t\<in>set y_scale. usable_scale t"
    and w_def: "w = map (light_weight params) ds" and iv_def: "iv = fdiv (flit 1 1) (foldl fadd fzero w)"
    and stats_def: "stats = query_stats params False y_scale ds ys None"
  shows "map ms_mu stats = map (\<lambda>k. foldl (\<lambda>a (u, r). fadd a (fmul (fmul u iv) (r ! k))) fzero (zip w ys)) [0..<length y_scale]"
    "map ms_se stats = map (\<lambda>k. fmul (fsqrt (fmax iv eps_var)) (y_scale ! k)) [0..<length y_scale]"
    "map ms_se_epi stats = map ms_se stats" "map ms_se_ale stats = replicate (length y_scale) fzero"
proof -
  have w: "w \<noteq> []" "\<forall>u\<in>set w. unsigned_float u" using assms(1-3) weights_agree(2) by (auto simp: w_def)
  have eq: "stats = map (\<lambda>k. stats_from_neighbor_weights w (map (\<lambda>r. r ! k) ys) (map (var_share None k (y_scale ! k)) [0..<length ds])
      False (aleatoric_variance_scale params) (y_scale ! k)) [0..<length y_scale]"
    unfolding stats_def query_stats_def Let_def w_def same_weights [OF assms(1,2)] ..
  have fold: "foldl (\<lambda>a (u, v). fadd a (fmul (fmul u iv) v)) fzero (zip w (map (\<lambda>r. r ! k) ys)) =
      foldl (\<lambda>a (u, r). fadd a (fmul (fmul u iv) (r ! k))) fzero (zip w ys)" for k
    using fold_zip_map [of "\<lambda>a u v. fadd a (fmul (fmul u iv) v)" fzero id w "\<lambda>r. r ! k" ys] by simp
  have sc: "usable_scale (y_scale ! k)" if "k \<in> set [0..<length y_scale]" for k using that assms(4) by simp
  note quiet = quiet_stats [OF sc w iv_def]
  show "map ms_mu stats = map (\<lambda>k. foldl (\<lambda>a (u, r). fadd a (fmul (fmul u iv) (r ! k))) fzero (zip w ys)) [0..<length y_scale]"
    "map ms_se stats = map (\<lambda>k. fmul (fsqrt (fmax iv eps_var)) (y_scale ! k)) [0..<length y_scale]"
    "map ms_se_epi stats = map ms_se stats"
    unfolding eq map_map comp_def by (simp_all only: quiet fold cong: map_cong)
  show "map ms_se_ale stats = replicate (length y_scale) fzero"
    unfolding eq map_map comp_def by (simp only: quiet cong: map_cong) (simp add: map_replicate_const)
qed

section \<open>Both paths\<close>

lemma map_res_map: "map_res f (map h xs) = map_res (\<lambda>x. f (h x)) xs"
  by (induction xs) simp_all

lemma map_res_rbind:
  "map_res (\<lambda>p. rbind (G p) (\<lambda>y. Inr (h p y))) xs = rbind (map_res G xs) (\<lambda>ys. Inr (map2 h xs ys))"
  by (induction xs) (auto simp: rbind_def split: sum.splits)

text \<open>A model in memory whose outputs are there and whose scale can be used, without variances.\<close>

definition quiet_model :: "'f EpistemicNearestNeighbors \<Rightarrow> bool" where
  "quiet_model m \<longleftrightarrow> has_yvar m = Inr False \<and> length (em_y_scale m) = em_metrics m \<and> 0 < em_metrics m \<and>
     (\<forall>ys\<in>set (em_y_scale m). usable_scale ys) \<and>
     (\<exists>b. em_backend m = InMemory b \<and> length (rs_rows (im_y b)) = in_memory_len b)"

lemma light_row: "quiet_model m \<Longrightarrow> light_row_y m l = expected (eb_row_y (as_usize l) (em_backend m))"
  by (auto simp: quiet_model_def light_row_y_def eb_row_y_def in_memory_row_y_def row_vec_def expected_def)

lemma fuse_agrees:
  assumes "quiet_model m" "usable_params params" "0 < k" "\<forall>h\<in>set found. good_hit k h"
  shows "rbind (fuse_neighbors_to_mu_se m found params) (\<lambda>out. Inr (fst out)) =
    rbind (neighbor_outputs m (map (\<lambda>h. map as_usize (snd h)) found)) (\<lambda>ys.
      rbind (compute_weighted_posterior m \<lparr>nd_dist2s = map fst found, nd_idx = map (\<lambda>h. map as_usize (snd h)) found, nd_y = ys, nd_k = k\<rparr>
        params False None) (\<lambda>d. Inr (fst (light_of_internals (em_metrics m) d))))"
proof -
  let ?w = "\<lambda>h. map (light_weight params) (fst h)"
  let ?iv = "\<lambda>h. fdiv (flit 1 1) (foldl fadd fzero (?w h))"
  let ?mu = "\<lambda>h ys. map (\<lambda>k. foldl (\<lambda>a (u, r). fadd a (fmul (fmul u (?iv h)) (r ! k))) fzero (zip (?w h) ys)) [0..<em_metrics m]"
  let ?se = "\<lambda>h. map (\<lambda>k. fmul (fsqrt (fmax (?iv h) eps_var)) (em_y_scale m ! k)) [0..<em_metrics m]"
  let ?g = "\<lambda>l. expected (eb_row_y (as_usize l) (em_backend m))"
  have quiet: "has_yvar m = Inr False" "length (em_y_scale m) = em_metrics m" "em_metrics m \<noteq> 0" "\<forall>ys\<in>set (em_y_scale m). usable_scale ys"
    using assms(1) by (auto simp: quiet_model_def)
  have query: "fuse_query m params h = rbind (map_res ?g (snd h)) (\<lambda>ys. Inr (?mu h ys, ?se h))" for h
  proof -
    have rows: "light_row_y m = ?g" by (rule ext) (rule light_row [OF assms(1)])
    have weights: "(\<lambda>d. fdiv (flit 1 1) (fadd (fadd eps_var (fmul (epistemic_variance_scale params) d)) (aleatoric_variance_scale params)))
      = light_weight params" by (rule ext) (simp only: light_weight_def)
    show ?thesis by (simp only: fuse_query_def split_beta Let_def quiet(3) if_False rows weights)
  qed
  have all: "map_res (fuse_query m params) found = rbind (map_res (\<lambda>h. map_res ?g (snd h)) found)
      (\<lambda>yss. Inr (map2 (\<lambda>h ys. (?mu h ys, ?se h)) found yss))"
    using map_res_rbind [of "\<lambda>h. map_res ?g (snd h)" "\<lambda>h ys. (?mu h ys, ?se h)" found]
    unfolding query [symmetric] .
  have outs: "neighbor_outputs m (map (\<lambda>h. map as_usize (snd h)) found) = map_res (\<lambda>h. map_res ?g (snd h)) found"
    by (simp add: neighbor_outputs_def map_res_map)
  show ?thesis
  proof (cases "map_res (\<lambda>h. map_res ?g (snd h)) found")
    case (Inl e)
    then show ?thesis by (simp add: outs fuse_neighbors_to_mu_se_def all Let_def)
  next
    case (Inr yss)
    have len: "length yss = length found" using map_res_length [OF Inr] .
    let ?rows = "map2 (\<lambda>h ys. (?mu h ys, ?se h)) found yss"
    have light: "rbind (fuse_neighbors_to_mu_se m found params) (\<lambda>out. Inr (fst out)) =
      Inr ((em_metrics m, map fst ?rows), (em_metrics m, map snd ?rows), (em_metrics m, map snd ?rows),
        (em_metrics m, replicate (length found) (replicate (em_metrics m) fzero)))"
      by (simp add: fuse_neighbors_to_mu_se_def all Inr Let_def)
    let ?stats = "compute_weighted_stats_impl (map fst found) yss None params False (em_y_scale m)"
    have row: "map ms_mu (?stats ! i) = ?mu (found ! i) (yss ! i)" "map ms_se (?stats ! i) = ?se (found ! i)"
      "map ms_se_epi (?stats ! i) = ?se (found ! i)" "map ms_se_ale (?stats ! i) = replicate (em_metrics m) fzero"
      if i: "i < length found" for i
    proof -
      have hit: "good_hit k (found ! i)" using assms(4) i by simp
      then have ds: "\<forall>d\<in>set (fst (found ! i)). unsigned_float d" "fst (found ! i) \<noteq> []" using assms(3) by (auto simp: good_hit_def)
      have at: "?stats ! i = query_stats params False (em_y_scale m) (fst (found ! i)) (yss ! i) None"
        using i by (simp add: compute_weighted_stats_impl_def)
      note stats = query_stats_quiet [OF assms(2) ds quiet(4) refl refl refl, of "yss ! i", folded at, unfolded quiet(2)]
      show "map ms_mu (?stats ! i) = ?mu (found ! i) (yss ! i)" "map ms_se (?stats ! i) = ?se (found ! i)"
        "map ms_se_epi (?stats ! i) = ?se (found ! i)" "map ms_se_ale (?stats ! i) = replicate (em_metrics m) fzero"
        by (simp_all only: stats)
    qed
    have n: "length ?stats = length found" by (simp add: compute_weighted_stats_impl_def)
    have "map (map ms_mu) ?stats = map fst ?rows" "map (map ms_se) ?stats = map snd ?rows" "map (map ms_se_epi) ?stats = map snd ?rows"
      "map (map ms_se_ale) ?stats = replicate (length found) (replicate (em_metrics m) fzero)"
      by (rule nth_equalityI; simp add: n len row)+
    then show ?thesis
      unfolding light outs Inr
      by (simp add: compute_weighted_posterior_def quiet(1) light_of_internals_def stats_matrix_def)
  qed
qed

lemma usable_scales:
  assumes "model_ok (m :: 'f EpistemicNearestNeighbors)"
  shows "length (em_y_scale m) = em_metrics m" "\<forall>ys\<in>set (em_y_scale m). usable_scale ys"
proof -
  obtain b :: "'f InMemoryEnnBackend" where b: "em_y_scale m = scale_from_moments (in_memory_len b) (em_metrics m) (em_y_sum m, em_y_sumsq m) fzero"
  proof (rule model_okE [OF assms])
    fix b assume "y_moments_ok m b"
    then show thesis by (intro that [of b]) (simp only: y_moments_ok_def)
  qed
  show "length (em_y_scale m) = em_metrics m" unfolding b by (rule scale_length)
  have one: "usable_scale (flit 1 1)" using sample_finite(1) sample_signs(1) by (simp only: usable_scale_def one_value simp_thms)
  have "\<not> sign_neg v" if "flt fzero v" for v :: f64 using that by (auto simp: flt_def fkey_def zero_layout split: if_splits)
  then have std: "usable_scale (std_of nf fzero su sq)" for nf su sq
    using one by (simp only: std_of_def Let_def usable_scale_def split: if_split) blast
  show "\<forall>ys\<in>set (em_y_scale m). usable_scale ys" using one std by (auto simp: b scale_from_moments_def ones_def)
qed

lemma moved_quiet:
  assumes "quiet_model m" "index_moved m m1"
  shows "quiet_model m1"
proof -
  obtain b where b: "em_backend m = InMemory b" "length (rs_rows (im_y b)) = in_memory_len b" using assms(1) by (auto simp: quiet_model_def)
  obtain b1 where b1: "m1 = m\<lparr>em_backend := InMemory b1\<rparr>" "data_of b1 = data_of b" using assms(2) b(1) by (rule index_movedE)
  note same = data_of_simps [OF b1(2)]
  have "has_yvar m1 = has_yvar m"
    by (simp add: b1(1) b(1) has_yvar_def yvar_present_def eb_row_yvar_def in_memory_row_yvar_def same)
  then show ?thesis using assms(1) b by (simp add: quiet_model_def b1(1) same)
qed

lemma small_counts: "n < 2 ^ 31 \<Longrightarrow> as_i32 (int n) = int n" "n < 2 ^ 31 \<Longrightarrow> as_usize (int n) = n"
  by (simp_all add: as_i32_def as_usize_def)

lemma cut_good: "good_hit n h \<Longrightarrow> k \<le> n \<Longrightarrow> good_hit k (take k (fst h), take k (snd h))"
  by (auto simp: good_hit_def dest: in_set_takeD)

text \<open>C5: The fused path of the posterior, which a model without variances takes when no observation noise
  is asked for, gives the means and the standard errors of the full path, the same errors and the same
  model, bit for bit. For a model in memory after any calls, at least one metric, less than \<open>2 ^ 31\<close> rows,
  and parameters that the constructor accepts with an epistemic scale above zero; a query may hold any
  values. Ties may be broken or, as the surrogate does, not: the exact driver then passes on the
  distances of its index, which have to be neither NaN nor negative.\<close>

theorem light_path_is_the_full_path:
  assumes "made_in_memory (model_env.truncate env) x0 y0 yvar0 opts m0" "model_steps (model_env.truncate env) m0 m"
    "has_yvar m = Inr False" "0 < em_metrics m" "em_num_obs m < 2 ^ 31"
    "enn_params_new k epi ale = Some params" "flt fzero epi" "\<not> pf_observation_noise flags"
    and "pf_tie_break_neighbors flags \<or> eb_driver (em_backend m) \<noteq> Exact \<or> faiss_distances_ok (be_faiss env)"
  shows "map_option (\<lambda>(r, m1). (rbind r (\<lambda>out. Inr (fst out)), m1)) (compute_posterior_light env m x params flags) =
    map_option (\<lambda>(r, m1). (rbind r (\<lambda>d. Inr (fst (light_of_internals (em_metrics m1) d))), m1))
      (compute_posterior_internals env m x params flags)"
proof -
  let ?ex = "pf_exclude_nearest flags"
  have ok: "model_ok m" using model_ok_steps [OF assms(2) model_ok_made [OF assms(1)]] .
  obtain b where b: "em_backend m = InMemory b" "data_ok m b" using ok by (rule model_okE)
  have quiet: "quiet_model m"
    using usable_scales [OF ok] assms(3,4) b data_okD(6) [OF b(2)] by (auto simp: quiet_model_def in_memory_len_def)
  have params: "usable_params params" using assms(6,7) by (rule usable_new)
  show ?thesis
  proof (cases "fst x = em_dim m \<and> em_num_obs m \<noteq> 0")
    case False
    then show ?thesis by (auto simp: compute_posterior_light_def compute_posterior_internals_def)
  next
    case True
    show ?thesis
    proof (cases "neighbor_search_k m params ?ex")
      case (Inl e)
      then show ?thesis using True by (simp add: compute_posterior_light_def compute_posterior_internals_def get_neighbor_data_def)
    next
      case (Inr n)
      let ?k = "neighbor_k params ?ex n"
      let ?search = "posterior_index_search (model_env.truncate env) m x (as_i32 (int n)) ?ex (pf_tie_break_neighbors flags)"
      have n: "n \<le> em_num_obs m" using Inr by (auto simp: neighbor_search_k_def split: if_splits)
      then have small: "n < 2 ^ 31" using assms(5) by linarith
      have le: "?k \<le> (if ?ex then n - 1 else n)" by (simp add: neighbor_k_def)
      show ?thesis
      proof (cases "n = 0 \<or> ?k = 0 \<or> (\<nexists>found m1. ?search = Some (Inr found, m1))")
        case True
        then show ?thesis
          using Inr \<open>fst x = em_dim m \<and> em_num_obs m \<noteq> 0\<close>
          by (auto simp: compute_posterior_light_def compute_posterior_internals_def get_neighbor_data_def then_step_def Let_def
            split: option.split sum.split)
      next
        case False
        then obtain found m1 where pos: "0 < n" "0 < ?k" and search: "?search = Some (Inr found, m1)" by auto
        have good: "index_moved m m1" "\<And>h. h \<in> set found \<Longrightarrow> good_hit (if ?ex then n - 1 else n) h"
          using posterior_search_good [OF b(1) search, unfolded small_counts [OF small]] pos(1) n assms(9) by (simp_all add: model_env.defs)
        let ?cut = "map (\<lambda>h. (take ?k (fst h), take ?k (snd h))) found"
        have cut: "\<forall>h\<in>set ?cut. good_hit ?k h" using cut_good [OF good(2) le] by auto
        have light: "compute_posterior_light env m x params flags = Some (fuse_neighbors_to_mu_se m1 ?cut params, m1)"
          using True Inr pos search by (simp add: compute_posterior_light_def Let_def case_prod_unfold)
        have full: "compute_posterior_internals env m x params flags =
          Some (rbind (neighbor_outputs m1 (map (\<lambda>h. map as_usize (snd h)) ?cut)) (\<lambda>ys.
            compute_weighted_posterior m1 \<lparr>nd_dist2s = map fst ?cut, nd_idx = map (\<lambda>h. map as_usize (snd h)) ?cut, nd_y = ys, nd_k = ?k\<rparr>
              params False None), m1)"
          using True Inr pos search assms(8)
          by (simp add: compute_posterior_internals_def get_neighbor_data_def Let_def case_prod_unfold comp_def rbind_def then_step_def
            split: sum.split)
        show ?thesis
          using fuse_agrees [OF moved_quiet [OF quiet good(1)] params pos(2) cut]
          by (simp add: light full rbind_def split: sum.splits)
      qed
    qed
  qed
qed

definition plain_posterior_env :: "(nat \<times> f32 list, unit) posterior_env" where
  "plain_posterior_env = model_env.extend plain_env (posterior_env.fields flat_libm
     (\<lambda>x y. foldl fadd fzero (map2 fmul x y)) (\<lambda>xs ys. map (\<lambda>x. map (\<lambda>y. foldl fadd fzero (map2 fmul x y)) ys) xs)
     (\<lambda>v. fzero) (\<lambda>n ps. ps))"

lemma plain_posterior_truncate: "model_env.truncate plain_posterior_env = plain_env"
  by (simp add: plain_posterior_env_def plain_env_def model_env.defs)

text \<open>One stored row and two queries, in the flags of the surrogate, which does not break ties, over an index that answers zeros.\<close>

theorem light_path_is_the_full_path_witness:
  "map_option (\<lambda>(r, m1). (rbind r (\<lambda>out. Inr (fst out)), m1))
     (compute_posterior_light plain_posterior_env (plain_model 1 [[fzero]] 1 [[fzero]] None) (1, [[fzero], [infinity]])
       \<lparr>k_num_neighbors = 1, epistemic_variance_scale = one64, aleatoric_variance_scale = fzero\<rparr> default_flags) =
   map_option (\<lambda>(r, m1). (rbind r (\<lambda>d. Inr (fst (light_of_internals (em_metrics m1) d))), m1))
     (compute_posterior_internals plain_posterior_env (plain_model 1 [[fzero]] 1 [[fzero]] None) (1, [[fzero], [infinity]])
       \<lparr>k_num_neighbors = 1, epistemic_variance_scale = one64, aleatoric_variance_scale = fzero\<rparr> default_flags)"
proof -
  let ?m = "plain_model 1 [[fzero]] 1 [[fzero]] None"
  have made: "made_in_memory (model_env.truncate plain_posterior_env) (1, [[fzero]]) (1, [[fzero]]) None plain_options ?m"
    unfolding plain_posterior_truncate by (rule plain_model_made) simp_all
  have quiet: "has_yvar ?m = Inr False"
    by (simp add: has_yvar_def plain_model_fields yvar_present_def eb_row_yvar_def in_memory_row_yvar_def plain_backend_def in_memory_len_def)
  have epi: "is_finite one64" "flt fzero one64" "\<not> flt one64 fzero" "is_finite (fzero :: f64)" "\<not> flt fzero (fzero :: f64)"
    by (simp_all add: flt_def float_eval)
  then have params: "enn_params_new 1 one64 fzero = Some \<lparr>k_num_neighbors = 1, epistemic_variance_scale = one64, aleatoric_variance_scale = fzero\<rparr>"
    by (simp add: enn_params_new_def)
  have faiss: "faiss_distances_ok (be_faiss plain_posterior_env)"
    using epi(4) by (auto simp: faiss_distances_ok_def plain_posterior_env_def plain_env_def model_env.defs list_faiss_def float_eval)
  show ?thesis
    by (rule light_path_is_the_full_path [OF made model_steps_refl quiet _ _ params epi(2)])
      (simp_all add: plain_model_fields default_flags_def faiss)
qed

end
