(* ===== verification/FitterLaws.thy ===== *)
theory FitterLaws
  imports Fitter PosteriorLaws "HOL-Library.Sublist"
begin

text \<open>
  The fitter: every candidate has valid parameters, every candidate is scored, the parameters kept
  are those of the last of the best scores, and a candidate without usable predictions scores zero,
  which wins over every candidate of a negative likelihood.
\<close>

section \<open>The last of the greatest\<close>

definition best_up_to :: "f64 list \<Rightarrow> nat \<Rightarrow> nat \<Rightarrow> bool" where
  "best_up_to ls n i \<longleftrightarrow> (\<forall>j<n. total_key (ls ! j) \<le> total_key (ls ! i) \<and> (i < j \<longrightarrow> total_key (ls ! j) < total_key (ls ! i)))"

lemma last_max_fold:
  assumes "0 < n"
  shows "foldl (\<lambda>best i. if total_key (ls ! best) \<le> total_key (ls ! i) then i else best) 0 [0..<n] < n \<and>
    best_up_to ls n (foldl (\<lambda>best i. if total_key (ls ! best) \<le> total_key (ls ! i) then i else best) 0 [0..<n])"
  using assms
proof (induction n)
  case (Suc n)
  then show ?case by (cases "n = 0") (fastforce simp: best_up_to_def less_Suc_eq)+
qed simp

lemma last_max_best:
  assumes "ls \<noteq> []"
  shows "last_max ls < length ls" "best_up_to ls (length ls) (last_max ls)"
  using last_max_fold [of "length ls" ls] assms by (simp_all add: last_max_def)

section \<open>Every candidate is scored\<close>

lemma compute_batch_separate_length:
  assumes "compute_batch_separate_neighbors env m x ps flags = Some (Inr ds, m')"
  shows "length ds = length ps"
  using assms by (induction ps arbitrary: m ds m') (auto simp: then_step_Inr_conv)

lemma compute_batch_shared_length:
  assumes "compute_batch_with_shared_neighbors env m x ps flags = Some (Inr ds, m')"
  shows "length ds = length ps"
  using assms by (auto simp: compute_batch_with_shared_neighbors_def then_step_Inr_conv dest: map_res_length split: option.splits)

lemma batch_posterior_length:
  assumes "batch_posterior env m x ps flags = Some (Inr post, m')"
  shows "length post = length ps"
proof -
  obtain ds m1 where ds: "(if length (remdups (map k_num_neighbors ps)) = 1 \<and> em_num_obs m > 0
      then compute_batch_with_shared_neighbors env m x ps flags
      else compute_batch_separate_neighbors env m x ps flags) = Some (Inr ds, m1)"
    "length post = length (batch_results (em_metrics m1) ds)"
    using assms by (auto simp: batch_posterior_def then_step_Inr_conv Let_def naturalize_batch_def split: if_splits)
  then show ?thesis
    using compute_batch_shared_length [of env m x ps flags ds m1] compute_batch_separate_length [of env m x ps flags ds m1]
    by (auto simp: batch_results_def split: if_splits)
qed

lemma subsample_loglik_length:
  assumes "subsample_loglik env x y ps p y_std (m, g) = Some (Inr ls, st)"
  shows "ps \<noteq> []" "length ls = length ps"
  using assms
  by (auto simp: subsample_loglik_def validate_subsample_inputs_def Let_def then_step_Inr_conv on_model_def
    dest: batch_posterior_length split: if_splits sum.splits prod.splits)

section \<open>Every candidate is valid\<close>

definition fit_valid :: "ENNFitter \<Rightarrow> ENNParams \<Rightarrow> bool" where
  "fit_valid ft p \<longleftrightarrow> k_num_neighbors p = ft_k ft \<and> 0 < ft_k ft \<and>
     is_finite (epistemic_variance_scale p) \<and> \<not> flt (epistemic_variance_scale p) fzero \<and>
     is_finite (aleatoric_variance_scale p) \<and> \<not> flt (aleatoric_variance_scale p) fzero \<and>
     (\<not> ft_infer ft \<longrightarrow> aleatoric_variance_scale p = fzero)"

lemma new_params_valid:
  assumes "enn_params_new (ft_k ft) e a = Some p" "\<not> ft_infer ft \<Longrightarrow> a = fzero"
  shows "fit_valid ft p"
  using assms by (auto simp: enn_params_new_def fit_valid_def split: if_splits)

lemma random_candidates_valid:
  assumes "build_random_param_candidates env n ft g = (Inr ps, g')"
  shows "list_all (fit_valid ft) ps"
proof (cases "n = 0")
  case True
  then show ?thesis using assms by (simp add: build_random_param_candidates_def)
next
  case False
  obtain epi g1 where epi: "random_scales env n g = (epi, g1)" by fastforce
  obtain ale g2 where ale: "(if ft_infer ft then random_scales env n g1 else (replicate n fzero, g1)) = (ale, g2)" by fastforce
  let ?ps = "List.map_filter (\<lambda>(e, a). enn_params_new (ft_k ft) e a) (zip epi ale)"
  have "a = fzero" if "(e, a) \<in> set (zip epi ale)" "\<not> ft_infer ft" for e a
    using that ale by (auto dest!: set_zip_rightD)
  then have "fit_valid ft p" if "p \<in> set ?ps" for p
    using that by (auto simp: map_filter_def intro: new_params_valid)
  then show ?thesis
    using assms False epi ale
    by (auto simp: build_random_param_candidates_def Let_def list_all_iff intro: new_params_valid split: if_splits option.splits)
qed

lemma warm_start_valid:
  assumes "warm_start ft given ps = Inr qs" "list_all (fit_valid ft) ps"
  shows "list_all (fit_valid ft) qs" "prefix ps qs"
  using assms by (auto simp: warm_start_def elim!: new_params_valid split: option.splits)

section \<open>What the fitter keeps\<close>

text \<open>C8: Asked about a model of at least two rows, the fitter returns and keeps one of its candidates
  (the random ones and then the warm start), all of which have valid parameters with the fitter's
  number of neighbours and, unless it infers one, no aleatoric variance; every candidate is scored
  on the model's own rows, and the one kept has the best score, the last one of several.\<close>

theorem ask_keeps_a_best_candidate:
  assumes "fitter_ask env nc ns given ft (m, g) = Some (Inr (p, ft'), m', g')" "2 \<le> em_num_obs m"
  shows "ft' = ft\<lparr>ft_params := Some p\<rparr> \<and>
    (\<exists>ps picked x y yvar g1 ls i.
       rbind (fst (build_random_param_candidates env nc ft g)) (warm_start ft given) = Inr ps \<and> list_all (fit_valid ft) ps \<and>
       eb_train_rows_at picked (em_backend m) = Inr (x, y, yvar) \<and>
       subsample_loglik env x y ps ns (Some (fitter_y_std ft)) (m, g1) = Some (Inr ls, m', g') \<and>
       length ls = length ps \<and> i < length ps \<and> p = ps ! i \<and>
       (\<forall>j<length ls. total_key (ls ! j) \<le> total_key (ls ! i) \<and> (i < j \<longrightarrow> total_key (ls ! j) < total_key (ls ! i))))"
proof -
  obtain cands g1 where cands: "build_random_param_candidates env nc ft g = (cands, g1)" by fastforce
  obtain picked g2 where rows: "sample_rows env (em_num_obs m) ns g1 = (picked, g2)" by fastforce
  obtain ps where ps: "rbind cands (warm_start ft given) = Inr ps"
    using assms cands rows by (cases "rbind cands (warm_start ft given)") (auto simp: fitter_ask_def Let_def split: if_splits)
  obtain x y yvar where xy: "eb_train_rows_at picked (em_backend m) = Inr (x, y, yvar)"
    using assms cands rows ps by (cases "eb_train_rows_at picked (em_backend m)") (auto simp: fitter_ask_def Let_def split: if_splits)
  obtain ls where ls: "subsample_loglik env x y ps ns (Some (fitter_y_std ft)) (m, g2) = Some (Inr ls, m', g')"
    and p: "last_max ls < length ps" "p = ps ! last_max ls" "ft' = set_params p ft"
    using assms cands rows ps xy by (auto simp: fitter_ask_def Let_def then_step_Inr_conv split: if_splits)
  have len: "length ls = length ps" "ls \<noteq> []" using subsample_loglik_length [OF ls] by auto
  obtain cs where cs: "cands = Inr cs" "warm_start ft given cs = Inr ps" using ps by (cases cands) simp_all
  have valid: "list_all (fit_valid ft) ps"
    by (rule warm_start_valid(1) [OF cs(2) random_candidates_valid [OF cands [unfolded cs(1)]]])
  have best: "best_up_to ls (length ls) (last_max ls)" by (rule last_max_best(2) [OF len(2)])
  show ?thesis
    using p xy ls len(1) valid ps cands best
    by (intro conjI exI [of _ ps] exI [of _ picked] exI [of _ x] exI [of _ y] exI [of _ yvar] exI [of _ g2] exI [of _ ls] exI [of _ "last_max ls"])
      (simp_all add: set_params_def best_up_to_def)
qed

section \<open>Unusable predictions\<close>

text \<open>Predictions that the likelihood refuses: a value that is not finite, or no positive error.\<close>

definition unusable :: "f64 list list \<Rightarrow> f64 list list \<Rightarrow> bool" where
  "unusable mu se \<longleftrightarrow> \<not> list_all (list_all is_finite) mu \<or> \<not> list_all (list_all is_finite) se \<or> list_ex (list_ex (\<lambda>v. fle v fzero)) se"

lemma unusable_scores_zero: "unusable mu se \<Longrightarrow> compute_single_loglik env y mu se = fzero"
  by (auto simp: unusable_def compute_single_loglik_def)

lemma negative_below_zero: "flt v fzero \<Longrightarrow> total_key v < total_key (fzero :: f64)"
  by (auto simp: flt_def fkey_def total_key_def zero_layout zero_layout [unfolded fzero_def] fzero_def split: if_splits)

text \<open>C9: When every candidate with usable predictions has a negative likelihood and some candidate's
  predictions are unusable (not finite, or with an error that is not positive), the candidate that
  the fitter picks has unusable predictions.\<close>

theorem unusable_candidate_wins:
  assumes "\<exists>(mu, se)\<in>set cands. unusable mu se"
    and "\<forall>(mu, se)\<in>set cands. \<not> unusable mu se \<longrightarrow> flt (compute_single_loglik env y mu se) fzero"
  shows "case cands ! last_max (map (\<lambda>(mu, se). compute_single_loglik env y mu se) cands) of (mu, se) \<Rightarrow> unusable mu se"
proof -
  let ?ls = "map (\<lambda>(mu, se). compute_single_loglik env y mu se) cands" and ?score = "\<lambda>(mu, se). compute_single_loglik env y mu se"
  obtain mu se where u: "(mu, se) \<in> set cands" "unusable mu se" using assms(1) by blast
  then obtain j where j: "j < length cands" "cands ! j = (mu, se)" by (auto simp: in_set_conv_nth)
  have best: "last_max ?ls < length cands" "best_up_to ?ls (length cands) (last_max ?ls)"
    using last_max_best [of ?ls] j(1) by (metis length_map list.size(3) not_less_zero)+
  obtain mu' se' where b: "cands ! last_max ?ls = (mu', se')" by fastforce
  have "total_key (fzero :: f64) \<le> total_key (compute_single_loglik env y mu' se')"
    using best j u(2) b by (auto simp: best_up_to_def unusable_scores_zero)
  moreover have "(mu', se') \<in> set cands" using b best(1) nth_mem by metis
  ultimately have "unusable mu' se'" using assms(2) negative_below_zero by fastforce
  then show ?thesis by (simp only: b prod.case)
qed

section \<open>Two candidates\<close>

definition plain_fit_env :: "(nat \<times> f32 list, unit, unit) fit_env" where
  "plain_fit_env = posterior_env.extend plain_posterior_env (fit_env.fields (\<lambda>lo hi g. (lo, g)) (\<lambda>n k g. ([0..<k], g))
     (\<lambda>x e. one64) (foldl fadd fzero) (\<lambda>v. one64))"

lemma sample_params:
  "is_finite one64" "\<not> flt one64 fzero" "is_finite two64" "\<not> flt two64 fzero" "is_finite (fzero :: f64)" "\<not> flt fzero (fzero :: f64)"
  using sample_finite by (simp_all add: flt_def float_eval)

definition fitted_model :: "(nat \<times> f32 list) EpistemicNearestNeighbors" where
  "fitted_model = plain_model 1 [[fzero], [infinity]] 1 [[fzero], [infinity]] None"

definition told_fitter :: ENNFitter where
  "told_fitter = \<lparr>ft_k = 1, ft_infer = True, ft_params = None, ft_y_sum = [fzero], ft_y_sumsq = [fzero], ft_y_count = 2, ft_metrics = 1\<rparr>"

definition warm_params :: ENNParams where
  "warm_params = \<lparr>k_num_neighbors = 1, epistemic_variance_scale = two64, aleatoric_variance_scale = fzero\<rparr>"

lemma fitted_ask:
  "fitter_ask plain_fit_env 1 2 (Some warm_params) told_fitter (fitted_model, ()) =
     Some (Inr (warm_params, told_fitter\<lparr>ft_params := Some warm_params\<rparr>), fitted_model, ())"
proof -
  have fields: "fe_range plain_fit_env = (\<lambda>lo hi g. (lo, g))" "fe_powf plain_fit_env = (\<lambda>x e. one64)"
    by (simp_all add: plain_fit_env_def posterior_env.defs fit_env.defs plain_posterior_env_def model_env.defs plain_env_def)
  have new: "enn_params_new 1 one64 one64 = Some \<lparr>k_num_neighbors = 1, epistemic_variance_scale = one64, aleatoric_variance_scale = one64\<rparr>"
    "enn_params_new 1 two64 fzero = Some warm_params"
    using sample_params by (simp_all add: enn_params_new_def warm_params_def)
  let ?p = "\<lparr>k_num_neighbors = 1, epistemic_variance_scale = one64, aleatoric_variance_scale = one64\<rparr>"
  have cands: "build_random_param_candidates plain_fit_env 1 told_fitter () = (Inr [?p], ())"
    using new by (simp add: build_random_param_candidates_def fields told_fitter_def map_filter_def)
  have warm: "warm_start told_fitter (Some warm_params) [?p] = Inr [?p, warm_params]"
    using new(2) by (simp add: warm_start_def told_fitter_def) (simp add: warm_params_def)
  have len: "em_num_obs fitted_model = 2" by (simp add: fitted_model_def plain_model_fields)
  have rows: "eb_train_rows_at [0, 1] (em_backend fitted_model) = Inr ((1, [[fzero], [infinity]]), (1, [[fzero], [infinity]]), None)"
    by (simp add: fitted_model_def plain_model_fields eb_train_rows_at_def in_memory_train_rows_at_def plain_backend_def
      in_memory_len_def gather_storage_def row_vec_def)
  have "\<not> finite_matrix (1, [[fzero], [infinity]])" by (simp add: finite_matrix_def) (simp add: float_eval)
  then have ls: "subsample_loglik plain_fit_env (1, [[fzero], [infinity]]) (1, [[fzero], [infinity]]) [?p, warm_params] 2 s (fitted_model, ())
      = Some (Inr [fzero, fzero], fitted_model, ())" for s
    by (simp add: subsample_loglik_def validate_subsample_inputs_def len numeral_2_eq_2)
  have picked: "sample_rows plain_fit_env 2 2 () = ([0, 1], ())" by (simp add: sample_rows_def numeral_2_eq_2)
  have "last_max [fzero, fzero :: f64] = 1" by (simp add: last_max_def)
  then show ?thesis
    using len cands warm rows ls picked by (simp add: fitter_ask_def set_params_def) (simp add: told_fitter_def)
qed

theorem ask_keeps_a_best_candidate_witness:
  "\<exists>ps ls i. rbind (fst (build_random_param_candidates plain_fit_env 1 told_fitter ())) (warm_start told_fitter (Some warm_params)) = Inr ps \<and>
     list_all (fit_valid told_fitter) ps \<and> length ls = length ps \<and> i < length ps \<and> warm_params = ps ! i \<and>
     list_all (\<lambda>l :: f64. total_key l \<le> total_key (ls ! i)) ls"
proof -
  have "2 \<le> em_num_obs fitted_model" by (simp add: fitted_model_def plain_model_fields)
  from ask_keeps_a_best_candidate [OF fitted_ask this] show ?thesis
    by (elim conjE exE) (intro exI conjI, assumption+, simp add: list_all_length)
qed

text \<open>A likelihood of minus one half, with a logarithm of one.\<close>

definition plain_log :: bounds_env where
  "plain_log = \<lparr>ln_of = \<lambda>_. one64, exp_of = id, show_f64 = \<lambda>_. [], parse_f64 = \<lambda>_. None\<rparr>"

lemma half_value: "flit 1 2 = half64"
  unfolding flit_def
  by (rule round_float_exact) (use sample_finite(3) sample_signs(3) in \<open>simp_all add: sample_units unit_exp_def\<close>)

lemma fneg_fields: "mag (fneg x) = mag x" "sign_neg (fneg x) \<longleftrightarrow> \<not> sign_neg x" for x :: "'w::len word ieee"
  by (simp_all add: fneg_def)

lemma negative_likelihood: "flt (compute_single_loglik plain_log [[fzero]] [[fzero]] [[one64]]) fzero"
proof -
  have neg: "units (fneg half64) = 2 ^ 1073" "sign_neg (fneg half64)" "is_finite (fneg half64)"
    using sample_units(3) sample_signs(3) sample_finite(3) by (simp_all add: fneg_fields units_def)
  have zero: "is_finite (fzero :: f64)" "units (fzero :: f64) = 0" "\<not> sign_neg (fzero :: f64)"
    by (simp_all add: zero_layout units_0_iff sample_params)
  have "fmul (fneg half64) one64 = fneg half64"
    by (rule fmul_exact) (use neg sample_finite sample_signs sample_units in \<open>simp_all add: unit_exp_def\<close>)
  moreover have "fmul one64 one64 = one64"
    by (rule fmul_exact) (use sample_finite sample_signs sample_units in \<open>simp_all add: unit_exp_def\<close>)
  moreover have "fmul half64 fzero = (fzero :: f64)"
    by (rule fmul_exact) (use sample_finite sample_signs sample_units zero in \<open>simp_all add: unit_exp_def\<close>)
  moreover have "fdiv fzero one64 = (fzero :: f64)"
    by (rule fdiv_exact) (use sample_finite sample_signs sample_units sample_mags zero in \<open>simp_all add: unit_exp_def\<close>)
  ultimately have one: "loglik_term plain_log fzero fzero one64 = fsub (fneg half64) fzero"
    by (simp add: loglik_term_def plain_log_def half_value [unfolded One_nat_def] sample_arith Let_def)
  have key: "fkey (fneg half64) < 0" using sample_mags(3) sample_signs(3) by (simp add: fkey_def fneg_fields)
  have sub: "is_nan (fsub (fneg half64) fzero) = False" "fkey (fsub (fneg half64) fzero) = fkey (fneg half64)"
    using fsub_finite [OF neg(3) zero(1)] srnd_fval [OF neg(3)] by simp_all
  then have fin: "is_finite (fsub (fneg half64) fzero)" using neg(3) by (simp only: finite_iff_key)
  let ?v = "fadd fzero (fsub (fneg half64) fzero)"
  have "fval (fsub (fneg half64) fzero) = fval (fneg half64)"
    using sub(2) fval_le_iff [of "fsub (fneg half64) fzero" "fneg half64"] fval_le_iff [of "fneg half64" "fsub (fneg half64) fzero"] by simp
  then have "fkey ?v = fkey (fneg half64)" "\<not> is_nan ?v"
    using fadd_finite [OF zero(1) fin] srnd_fval [OF neg(3)] by simp_all
  moreover from this have "is_finite ?v" using neg(3) by (simp only: finite_iff_key)
  moreover have "\<not> fle one64 fzero" using sample_mags(1) sample_signs(1) by (simp add: fle_def fkey_def zero_layout)
  ultimately show ?thesis
    using one key sample_params(1) zero(1) finite_not_special [OF zero(1)] by (simp add: compute_single_loglik_def flt_def)
qed

theorem unusable_candidate_wins_witness:
  "flt (compute_single_loglik plain_log [[fzero]] [[fzero]] [[one64]]) fzero \<and>
   (case [([[fzero]], [[one64]]), ([[infinity]], [[one64]])] !
      last_max (map (\<lambda>(mu, se). compute_single_loglik plain_log [[fzero]] mu se) [([[fzero]], [[one64]]), ([[infinity]], [[one64]])]) of
      (mu, se) \<Rightarrow> unusable mu se)"
proof -
  have "unusable [[infinity]] [[one64]]" by (simp add: unusable_def) (simp add: float_eval)
  then show ?thesis
    using unusable_candidate_wins [of "[([[fzero]], [[one64]]), ([[infinity]], [[one64]])]" plain_log "[[fzero]]"] negative_likelihood
    by (simp del: list.map)
qed

end
