(* ===== verification/ForwardProgram.thy ===== *)
theory ForwardProgram
  imports Floats
begin

text \<open>
  The contract of resident, fused model evaluation (\<open>rust/crates/ennx/src/forward_program.rs\<close>):
  programs of forward operations, kernel plans, the packed descriptors of a KDA-MoE decoder
  layer with their validation, and the dispatch list a validated layer is encoded to.

  Sizes are \<open>usize\<close>; the products the source computes without a check wrap (\<open>umul\<close>).
\<close>

datatype forward_error =
    NoPerturbation
  | NoMatmul
  | NoObjective
  | ZeroTile
  | ZeroGrid
  | ZeroSchedule
  | InputTileMismatch
  | DispatchOverflow
  | LinearDimensions
  | LinearBits u8
  | QkvConvolution
  | ControlShape
  | ForgetShape
  | OutputGateShape
  | OutputShape
  | RecurrentShape
  | ProjectionWidths
  | QkvOutputWidth nat nat
  | TensorDimensions
  | AttentionNormShape
  | MoeNormShape
  | ExpertLists
  | TopK
  | NotFiniteParameter
  | EpsilonNotPositive
  | RouterShape
  | ExpertGateUpShape
  | ExpertDownShape

section \<open>Programs\<close>

datatype ForwardOp =
    EmbeddingLookup | PerturbPackedWeights | Dequantize | Matmul | KdaStateUpdate
  | RouteExperts | Activation | Normalize | Residual | ReduceObjective

record ForwardProgram =
  prog_ops :: "ForwardOp list"
  prog_version :: u32

definition PROGRAM_VERSION :: u32 where
  "PROGRAM_VERSION = 1"

definition program_new :: "ForwardOp list \<Rightarrow> forward_error + ForwardProgram" where
  "program_new ops =
     rbind (ensure (PerturbPackedWeights \<in> set ops) NoPerturbation) (\<lambda>_.
     rbind (ensure (Matmul \<in> set ops) NoMatmul) (\<lambda>_.
     rbind (ensure (ReduceObjective \<in> set ops) NoObjective) (\<lambda>_.
     Inr \<lparr>prog_ops = ops, prog_version = PROGRAM_VERSION\<rparr>)))"

definition program_kda :: "forward_error + ForwardProgram" where
  "program_kda = program_new
     [EmbeddingLookup, PerturbPackedWeights, Dequantize, Matmul, KdaStateUpdate, Activation,
      Residual, ReduceObjective]"

section \<open>Kernel plans\<close>

datatype WorkAxis = TokenAxis | OutputAxis | InputAxis | HeadAxis | ExpertAxis | StateAxis

record WorkTile =
  tile_axis :: WorkAxis
  tile_items :: nat

definition work_tile_new :: "WorkAxis \<Rightarrow> nat \<Rightarrow> forward_error + WorkTile" where
  "work_tile_new axis items =
     rbind (ensure (items \<noteq> 0) ZeroTile) (\<lambda>_. Inr \<lparr>tile_axis = axis, tile_items = items\<rparr>)"

record WorkGrid =
  grid_items :: nat
  grid_threads :: nat

definition work_grid_new :: "nat \<Rightarrow> nat \<Rightarrow> forward_error + WorkGrid" where
  "work_grid_new items threads =
     rbind (ensure (items \<noteq> 0 \<and> threads \<noteq> 0) ZeroGrid) (\<lambda>_.
     Inr \<lparr>grid_items = items, grid_threads = threads\<rparr>)"

definition grid_groups :: "WorkGrid \<Rightarrow> nat" where
  "grid_groups g = div_ceil (grid_items g) (grid_threads g)"

record KernelPlan =
  plan_kernel :: string
  plan_grid :: WorkGrid
  plan_tiles :: "WorkTile list"
  plan_scratch_bytes :: nat

definition kernel_plan_new :: "string \<Rightarrow> nat \<Rightarrow> nat \<Rightarrow> forward_error + KernelPlan" where
  "kernel_plan_new kname items threads =
     rbind (work_grid_new items threads) (\<lambda>g.
     Inr \<lparr>plan_kernel = kname, plan_grid = g, plan_tiles = [], plan_scratch_bytes = 0\<rparr>)"

definition with_tile :: "WorkAxis \<Rightarrow> nat \<Rightarrow> KernelPlan \<Rightarrow> forward_error + KernelPlan" where
  "with_tile axis items plan =
     rbind (work_tile_new axis items) (\<lambda>t. Inr (plan\<lparr>plan_tiles := plan_tiles plan @ [t]\<rparr>))"

definition with_scratch_bytes :: "nat \<Rightarrow> KernelPlan \<Rightarrow> KernelPlan" where
  "with_scratch_bytes bytes plan = plan\<lparr>plan_scratch_bytes := bytes\<rparr>"

text \<open>A plan with its tiles added in turn, as every kernel's method chain builds it.\<close>

fun with_tiles :: "(WorkAxis \<times> nat) list \<Rightarrow> KernelPlan \<Rightarrow> forward_error + KernelPlan" where
  "with_tiles [] plan = Inr plan"
| "with_tiles ((axis, items) # rest) plan = rbind (with_tile axis items plan) (with_tiles rest)"

definition tiled_plan :: "string \<Rightarrow> nat \<Rightarrow> nat \<Rightarrow> (WorkAxis \<times> nat) list \<Rightarrow> forward_error + KernelPlan" where
  "tiled_plan kname items threads tiles = rbind (kernel_plan_new kname items threads) (with_tiles tiles)"

section \<open>Packed linear descriptors\<close>

record KdaTensorLayout =
  batch :: nat
  sequence_length :: nat
  heads :: nat
  key_width :: nat
  value_width :: nat

record KdaPackedLinear =
  byte_offset :: nat
  scale_offset :: nat
  bias_offset :: nat
  input_width :: nat
  output_width :: nat
  bits :: u8
  group_size :: nat
  element_offset :: nat
  perturb_whole :: u32
  perturb_threshold :: u32

definition linear_validate :: "KdaPackedLinear \<Rightarrow> forward_error + unit" where
  "linear_validate l =
     rbind (ensure (input_width l \<noteq> 0 \<and> output_width l \<noteq> 0 \<and> group_size l \<noteq> 0) LinearDimensions) (\<lambda>_.
     ensure (bits l = 4 \<or> bits l = 8) (LinearBits (bits l)))"

definition packed_bytes :: "KdaPackedLinear \<Rightarrow> nat" where
  "packed_bytes l = umul (div_ceil (umul (input_width l) (unat (bits l))) 8) (output_width l)"

definition groups_per_row :: "KdaPackedLinear \<Rightarrow> nat" where
  "groups_per_row l = div_ceil (input_width l) (group_size l)"

record PackedAffinePlan =
  token_tile :: nat
  output_tile :: nat
  input_tile :: nat
  affine_threads :: nat

definition apple_simd :: PackedAffinePlan where
  "apple_simd = \<lparr>token_tile = 1, output_tile = 16, input_tile = 64, affine_threads = 256\<rparr>"

definition affine_validate :: "PackedAffinePlan \<Rightarrow> KdaPackedLinear \<Rightarrow> forward_error + unit" where
  "affine_validate a l =
     rbind (linear_validate l) (\<lambda>_.
     rbind (ensure (token_tile a \<noteq> 0 \<and> output_tile a \<noteq> 0 \<and> input_tile a \<noteq> 0 \<and> affine_threads a \<noteq> 0)
              ZeroSchedule) (\<lambda>_.
     ensure (input_tile a dvd input_width l) InputTileMismatch))"

definition affine_kernel_plan :: "PackedAffinePlan \<Rightarrow> string \<Rightarrow> nat \<Rightarrow> KdaPackedLinear \<Rightarrow> forward_error + KernelPlan" where
  "affine_kernel_plan a kname tokens l =
     rbind (affine_validate a l) (\<lambda>_.
     rbind (ok_or (checked_mul tokens (output_width l)) DispatchOverflow) (\<lambda>items.
     tiled_plan kname items (affine_threads a)
       [(TokenAxis, token_tile a), (OutputAxis, output_tile a), (InputAxis, input_tile a)]))"

section \<open>Tensors, requests and dispatches\<close>

definition tensor_new :: "nat \<Rightarrow> nat \<Rightarrow> nat \<Rightarrow> nat \<Rightarrow> nat \<Rightarrow> forward_error + KdaTensorLayout" where
  "tensor_new b n h k v =
     rbind (ensure (b \<noteq> 0 \<and> n \<noteq> 0 \<and> h \<noteq> 0 \<and> k \<noteq> 0 \<and> v \<noteq> 0) TensorDimensions) (\<lambda>_.
     Inr \<lparr>batch = b, sequence_length = n, heads = h, key_width = k, value_width = v\<rparr>)"

definition qkv_elements :: "KdaTensorLayout \<Rightarrow> nat" where
  "qkv_elements t = umul (umul (umul (batch t) (sequence_length t)) (heads t)) (key_width t)"

definition value_elements :: "KdaTensorLayout \<Rightarrow> nat" where
  "value_elements t = umul (umul (umul (batch t) (sequence_length t)) (heads t)) (value_width t)"

definition state_elements :: "KdaTensorLayout \<Rightarrow> nat" where
  "state_elements t = umul (umul (umul (batch t) (heads t)) (key_width t)) (value_width t)"

record KdaForwardRequest =
  req_tensor :: KdaTensorLayout
  req_qkv :: KdaPackedLinear
  req_control :: KdaPackedLinear
  req_output :: KdaPackedLinear
  req_seed :: u64

definition qkv_output_width :: "KdaForwardRequest \<Rightarrow> nat" where
  "qkv_output_width r = umul (umul 3 (heads (req_tensor r))) (key_width (req_tensor r))"

definition projection_dispatch_threads :: "KdaForwardRequest \<Rightarrow> nat" where
  "projection_dispatch_threads r =
     umul (umul (batch (req_tensor r)) (sequence_length (req_tensor r))) (qkv_output_width r)"

definition recurrence_dispatch_threads :: "KdaForwardRequest \<Rightarrow> nat" where
  "recurrence_dispatch_threads r =
     umul (umul (batch (req_tensor r)) (heads (req_tensor r))) (value_width (req_tensor r))"

definition request_validate :: "KdaForwardRequest \<Rightarrow> forward_error + unit" where
  "request_validate r =
     rbind (for_each_res linear_validate [req_qkv r, req_control r, req_output r]) (\<lambda>_.
     rbind (ensure (input_width (req_qkv r) = input_width (req_output r)) ProjectionWidths) (\<lambda>_.
     ensure (output_width (req_qkv r) = qkv_output_width r)
       (QkvOutputWidth (qkv_output_width r) (output_width (req_qkv r)))))"

record KdaControlRequest =
  ctl_qkv_conv :: KdaPackedLinear
  ctl_control :: KdaPackedLinear
  ctl_forget :: KdaPackedLinear
  ctl_output_gate :: KdaPackedLinear
  ctl_decay :: KdaPackedLinear
  ctl_time_bias :: KdaPackedLinear
  ctl_output_norm :: KdaPackedLinear
  ctl_output :: KdaPackedLinear
  ctl_gate_rank :: nat

definition control_validate :: "KdaControlRequest \<Rightarrow> KdaTensorLayout \<Rightarrow> nat \<Rightarrow> forward_error + unit" where
  "control_validate c t hidden_width =
     rbind (for_each_res linear_validate
              [ctl_qkv_conv c, ctl_control c, ctl_forget c, ctl_output_gate c, ctl_decay c,
               ctl_time_bias c, ctl_output_norm c, ctl_output c]) (\<lambda>_.
     let width = umul (heads t) (value_width t) in
     rbind (ensure (input_width (ctl_qkv_conv c) = 4 \<and> output_width (ctl_qkv_conv c) = umul 3 width
              \<and> bits (ctl_qkv_conv c) = 8 \<and> group_size (ctl_qkv_conv c) = 4) QkvConvolution) (\<lambda>_.
     rbind (ensure (input_width (ctl_control c) = hidden_width
              \<and> output_width (ctl_control c) = uadd (umul 2 (ctl_gate_rank c)) (heads t)) ControlShape) (\<lambda>_.
     rbind (ensure (input_width (ctl_forget c) = ctl_gate_rank c \<and> output_width (ctl_forget c) = width)
              ForgetShape) (\<lambda>_.
     rbind (ensure (input_width (ctl_output_gate c) = ctl_gate_rank c \<and> output_width (ctl_output_gate c) = width)
              OutputGateShape) (\<lambda>_.
     rbind (ensure (input_width (ctl_output c) = width \<and> output_width (ctl_output c) = hidden_width)
              OutputShape) (\<lambda>_.
     ensure (input_width (ctl_decay c) = heads t \<and> output_width (ctl_decay c) = 1
        \<and> input_width (ctl_time_bias c) = width \<and> output_width (ctl_time_bias c) = 1
        \<and> input_width (ctl_output_norm c) = value_width t \<and> output_width (ctl_output_norm c) = 1)
       RecurrentShape))))))"

datatype KdaDispatch = ProjectQkv nat | SplitQkv nat | Recur nat

definition kda_encode :: "KdaForwardRequest \<Rightarrow> KdaDispatch list" where
  "kda_encode r =
     [ProjectQkv (projection_dispatch_threads r), SplitQkv (qkv_elements (req_tensor r)),
      Recur (recurrence_dispatch_threads r)]"

definition encoder_new :: "KdaForwardRequest \<Rightarrow> forward_error + KdaForwardRequest" where
  "encoder_new r = rbind (request_validate r) (\<lambda>_. Inr r)"

fun kda_kernel_plan :: "PackedAffinePlan \<Rightarrow> KdaDispatch \<Rightarrow> forward_error + KernelPlan" where
  "kda_kernel_plan a (ProjectQkv threads) =
     tiled_plan ''kda_project_packed_16k'' threads (affine_threads a)
       [(TokenAxis, token_tile a), (OutputAxis, output_tile a), (InputAxis, input_tile a)]"
| "kda_kernel_plan a (SplitQkv threads) =
     tiled_plan ''kda_split_qkv_16k'' threads 256 [(HeadAxis, 1), (InputAxis, 256)]"
| "kda_kernel_plan a (Recur threads) =
     rbind (tiled_plan ''kda_recurrence_16k'' threads 256 [(StateAxis, 1), (TokenAxis, 16384)])
       (\<lambda>plan. Inr (with_scratch_bytes 0 plan))"

section \<open>The KDA-MoE layer\<close>

record KdaMoeLayerRequest =
  moe_kda :: KdaForwardRequest
  attention_norm :: KdaPackedLinear
  moe_norm :: KdaPackedLinear
  router :: KdaPackedLinear
  expert_gate :: "KdaPackedLinear list"
  expert_up :: "KdaPackedLinear list"
  expert_down :: "KdaPackedLinear list"
  top_k :: nat
  residual_scale :: f32
  rms_epsilon :: f32

datatype KdaMoeDispatch =
    AttentionNorm nat | Kda KdaDispatch | AttentionResidual nat | MoeNorm nat
  | RouteExpertsDispatch nat | ExpertGateUp nat | ExpertDown nat | MoeResidual nat

fun moe_kernel_plan :: "PackedAffinePlan \<Rightarrow> KdaMoeDispatch \<Rightarrow> forward_error + KernelPlan" where
  "moe_kernel_plan a (AttentionNorm threads) =
     tiled_plan ''decoder_rms_norm'' threads 256 [(TokenAxis, 1), (InputAxis, 256)]"
| "moe_kernel_plan a (Kda dispatch) = kda_kernel_plan a dispatch"
| "moe_kernel_plan a (AttentionResidual threads) =
     tiled_plan ''decoder_residual'' threads 256 [(InputAxis, 256)]"
| "moe_kernel_plan a (MoeResidual threads) =
     tiled_plan ''decoder_residual'' threads 256 [(InputAxis, 256)]"
| "moe_kernel_plan a (MoeNorm threads) =
     tiled_plan ''decoder_rms_norm'' threads 256 [(TokenAxis, 1), (InputAxis, 256)]"
| "moe_kernel_plan a (RouteExpertsDispatch threads) =
     tiled_plan ''moe_router_topk'' threads 1 [(TokenAxis, 1)]"
| "moe_kernel_plan a (ExpertGateUp threads) =
     tiled_plan ''moe_gate_up'' threads (affine_threads a)
       [(TokenAxis, token_tile a), (ExpertAxis, 1), (InputAxis, input_tile a)]"
| "moe_kernel_plan a (ExpertDown threads) =
     tiled_plan ''moe_down'' threads (affine_threads a)
       [(TokenAxis, token_tile a), (OutputAxis, output_tile a), (InputAxis, input_tile a)]"

definition expert_validate ::
    "nat \<Rightarrow> (KdaPackedLinear \<times> KdaPackedLinear) \<times> KdaPackedLinear \<Rightarrow> forward_error + unit" where
  "expert_validate hidden = (\<lambda>((gate, up), down).
     rbind (linear_validate gate) (\<lambda>_.
     rbind (linear_validate up) (\<lambda>_.
     rbind (linear_validate down) (\<lambda>_.
     rbind (ensure (input_width gate = hidden \<and> input_width up = hidden
              \<and> output_width gate = output_width up) ExpertGateUpShape) (\<lambda>_.
     ensure (input_width down = output_width gate \<and> output_width down = hidden) ExpertDownShape)))))"

definition layer_validate :: "KdaMoeLayerRequest \<Rightarrow> forward_error + unit" where
  "layer_validate q =
     rbind (request_validate (moe_kda q)) (\<lambda>_.
     rbind (for_each_res linear_validate [attention_norm q, moe_norm q, router q]) (\<lambda>_.
     let hidden = input_width (req_qkv (moe_kda q)); experts = length (expert_gate q) in
     rbind (ensure (input_width (attention_norm q) = hidden \<and> output_width (attention_norm q) = 1)
              AttentionNormShape) (\<lambda>_.
     rbind (ensure (input_width (moe_norm q) = hidden \<and> output_width (moe_norm q) = 1) MoeNormShape) (\<lambda>_.
     rbind (ensure (experts \<noteq> 0 \<and> length (expert_up q) = experts \<and> length (expert_down q) = experts)
              ExpertLists) (\<lambda>_.
     rbind (ensure (top_k q \<noteq> 0 \<and> top_k q \<le> experts \<and> top_k q \<le> 8) TopK) (\<lambda>_.
     rbind (ensure (is_finite (residual_scale q) \<and> is_finite (rms_epsilon q)) NotFiniteParameter) (\<lambda>_.
     rbind (ensure (\<not> fle (rms_epsilon q) fzero) EpsilonNotPositive) (\<lambda>_.
     rbind (ensure (input_width (router q) = hidden \<and> output_width (router q) = experts) RouterShape) (\<lambda>_.
     for_each_res (expert_validate hidden)
       (zip (zip (expert_gate q) (expert_up q)) (expert_down q)))))))))))"

definition hidden_elements :: "KdaMoeLayerRequest \<Rightarrow> nat" where
  "hidden_elements q = (let t = req_tensor (moe_kda q) in
     umul (umul (batch t) (sequence_length t)) (input_width (req_qkv (moe_kda q))))"

definition expert_activation_elements :: "KdaMoeLayerRequest \<Rightarrow> nat" where
  "expert_activation_elements q = (let t = req_tensor (moe_kda q) in
     umul (umul (umul (batch t) (sequence_length t)) (top_k q)) (output_width (expert_gate q ! 0)))"

definition layer_encode :: "KdaMoeLayerRequest \<Rightarrow> forward_error + KdaMoeDispatch list" where
  "layer_encode q =
     rbind (layer_validate q) (\<lambda>_.
     rbind (encoder_new (moe_kda q)) (\<lambda>kda.
     let t = req_tensor (moe_kda q); tokens = umul (batch t) (sequence_length t); hidden = hidden_elements q in
     Inr [AttentionNorm tokens, Kda (kda_encode kda ! 0), Kda (kda_encode kda ! 1), Kda (kda_encode kda ! 2),
          AttentionResidual hidden, MoeNorm tokens, RouteExpertsDispatch tokens,
          ExpertGateUp (expert_activation_elements q), ExpertDown hidden, MoeResidual hidden]))"

definition layer_kernel_plans :: "KdaMoeLayerRequest \<Rightarrow> PackedAffinePlan \<Rightarrow> forward_error + KernelPlan list" where
  "layer_kernel_plans q a =
     rbind (layer_validate q) (\<lambda>_.
     rbind (affine_validate a (req_qkv (moe_kda q))) (\<lambda>_.
     rbind (affine_validate a (router q)) (\<lambda>_.
     rbind (for_each_res (affine_validate a) (expert_gate q @ expert_up q @ expert_down q)) (\<lambda>_.
     rbind (layer_encode q) (\<lambda>dispatches.
     map_res (moe_kernel_plan a) dispatches)))))"

end
