(* ===== verification/ForwardPlans.thy ===== *)
theory ForwardPlans
  imports ForwardProgram
begin

text \<open>
  What a validated KDA-MoE layer is dispatched to: ten kernels whose grids have exactly the
  items of the layer's tensors and are covered by whole thread groups.
\<close>

lemma tiled_plan_Inr:
  assumes "items \<noteq> 0" "threads \<noteq> 0" "\<forall>(axis, n)\<in>set tiles. n \<noteq> 0"
  shows "tiled_plan kname items threads tiles =
    Inr \<lparr>plan_kernel = kname, plan_grid = \<lparr>grid_items = items, grid_threads = threads\<rparr>,
         plan_tiles = map (\<lambda>(axis, n). \<lparr>tile_axis = axis, tile_items = n\<rparr>) tiles, plan_scratch_bytes = 0\<rparr>"
proof -
  have "with_tiles tiles plan = Inr (plan\<lparr>plan_tiles := plan_tiles plan @ map (\<lambda>(axis, n). \<lparr>tile_axis = axis, tile_items = n\<rparr>) tiles\<rparr>)"
    for plan
    using assms(3) by (induction tiles arbitrary: plan) (auto simp: with_tile_def work_tile_new_def)
  then show ?thesis
    using assms(1,2) by (simp add: tiled_plan_def kernel_plan_new_def work_grid_new_def)
qed

definition tensor_ok :: "KdaTensorLayout \<Rightarrow> bool" where
  "tensor_ok t \<longleftrightarrow> 0 < batch t \<and> 0 < sequence_length t \<and> 0 < heads t \<and> 0 < key_width t \<and> 0 < value_width t"

text \<open>The sizes whose products the source forms, all below \<open>2 ^ 64\<close>.\<close>

definition layer_sizes_fit :: "KdaMoeLayerRequest \<Rightarrow> bool" where
  "layer_sizes_fit q \<longleftrightarrow> (let t = req_tensor (moe_kda q); tokens = batch t * sequence_length t in
     tokens * (3 * heads t * key_width t) < usize_bound \<and>
     batch t * heads t * value_width t < usize_bound \<and>
     tokens * input_width (req_qkv (moe_kda q)) < usize_bound \<and>
     tokens * top_k q * output_width (expert_gate q ! 0) < usize_bound)"

lemma factor_fits: "a * b < usize_bound \<Longrightarrow> 0 < b \<Longrightarrow> a < usize_bound"
proof -
  assume ab: "a * b < usize_bound" and "0 < b"
  then have "a \<le> a * b" by simp
  then show "a < usize_bound" using ab by (rule le_less_trans)
qed

lemma layer_elements:
  assumes "tensor_ok (req_tensor (moe_kda q))" "layer_sizes_fit q" "0 < input_width (req_qkv (moe_kda q))"
    and "0 < top_k q" "0 < output_width (expert_gate q ! 0)"
  defines "t \<equiv> req_tensor (moe_kda q)"
  shows "umul (batch t) (sequence_length t) = batch t * sequence_length t"
    "projection_dispatch_threads (moe_kda q) = batch t * sequence_length t * (3 * heads t * key_width t)"
    "qkv_elements t = batch t * sequence_length t * heads t * key_width t"
    "recurrence_dispatch_threads (moe_kda q) = batch t * heads t * value_width t"
    "hidden_elements q = batch t * sequence_length t * input_width (req_qkv (moe_kda q))"
    "expert_activation_elements q = batch t * sequence_length t * top_k q * output_width (expert_gate q ! 0)"
proof -
  have pos: "0 < batch t" "0 < sequence_length t" "0 < heads t" "0 < key_width t" "0 < value_width t"
    using assms(1) by (simp_all add: tensor_ok_def t_def)
  have fit: "batch t * sequence_length t * (3 * heads t * key_width t) < usize_bound"
    "batch t * heads t * value_width t < usize_bound"
    "batch t * sequence_length t * input_width (req_qkv (moe_kda q)) < usize_bound"
    "batch t * sequence_length t * top_k q * output_width (expert_gate q ! 0) < usize_bound"
    using assms(2) by (simp_all add: layer_sizes_fit_def Let_def t_def)
  have tokens: "batch t * sequence_length t < usize_bound"
    using factor_fits [OF fit(3)] assms(3) by simp
  then show u: "umul (batch t) (sequence_length t) = batch t * sequence_length t" by (rule umul_id)
  have w: "3 * heads t * key_width t < usize_bound"
    using factor_fits [of "3 * heads t * key_width t" "batch t * sequence_length t"] fit(1) pos by (simp add: ac_simps)
  have h: "3 * heads t < usize_bound" using factor_fits [OF w] pos by simp
  have qw: "qkv_output_width (moe_kda q) = 3 * heads t * key_width t"
    using w h by (simp add: qkv_output_width_def umul_id flip: t_def)
  show "projection_dispatch_threads (moe_kda q) = batch t * sequence_length t * (3 * heads t * key_width t)"
    using fit(1) u qw by (simp add: projection_dispatch_threads_def umul_id flip: t_def)
  have e: "batch t * sequence_length t * heads t * key_width t < usize_bound"
    using fit(1) by (simp add: ac_simps)
  have "batch t * sequence_length t * heads t < usize_bound" using factor_fits [OF e] pos by simp
  with e u show "qkv_elements t = batch t * sequence_length t * heads t * key_width t"
    by (simp add: qkv_elements_def umul_id)
  have "batch t * heads t < usize_bound" using factor_fits [OF fit(2)] pos by simp
  with fit(2) show "recurrence_dispatch_threads (moe_kda q) = batch t * heads t * value_width t"
    by (simp add: recurrence_dispatch_threads_def umul_id flip: t_def)
  show "hidden_elements q = batch t * sequence_length t * input_width (req_qkv (moe_kda q))"
    using fit(3) u by (simp add: hidden_elements_def umul_id flip: t_def)
  have "batch t * sequence_length t * top_k q < usize_bound" using factor_fits [OF fit(4)] assms(5) by simp
  with fit(4) u show "expert_activation_elements q = batch t * sequence_length t * top_k q * output_width (expert_gate q ! 0)"
    by (simp add: expert_activation_elements_def umul_id flip: t_def)
qed

lemma layer_validate_Inr:
  assumes "layer_validate q = Inr ()"
  shows "request_validate (moe_kda q) = Inr ()" "0 < input_width (req_qkv (moe_kda q))"
    "0 < top_k q" "top_k q \<le> 8" "expert_gate q \<noteq> []" "0 < output_width (expert_gate q ! 0)"
proof -
  show r: "request_validate (moe_kda q) = Inr ()" "0 < top_k q" "top_k q \<le> 8" "expert_gate q \<noteq> []"
    using assms by (auto simp: layer_validate_def res_simps Let_def)
  show "0 < input_width (req_qkv (moe_kda q))"
    using r(1) by (auto simp: request_validate_def res_simps linear_validate_def)
  have lens: "length (expert_up q) = length (expert_gate q)" "length (expert_down q) = length (expert_gate q)"
    and all: "\<forall>e\<in>set (zip (zip (expert_gate q) (expert_up q)) (expert_down q)).
       expert_validate (input_width (req_qkv (moe_kda q))) e = Inr ()"
    using assms by (auto simp: layer_validate_def res_simps Let_def for_each_res_Inr_conv)
  have "((expert_gate q ! 0, expert_up q ! 0), expert_down q ! 0) \<in> set (zip (zip (expert_gate q) (expert_up q)) (expert_down q))"
    using lens r(4) by (force simp: in_set_zip)
  with all show "0 < output_width (expert_gate q ! 0)"
    by (fastforce simp: expert_validate_def res_simps linear_validate_def)
qed

lemma affine_validate_Inr:
  "affine_validate a l = Inr () \<Longrightarrow> token_tile a \<noteq> 0 \<and> output_tile a \<noteq> 0 \<and> input_tile a \<noteq> 0 \<and> affine_threads a \<noteq> 0"
  by (auto simp: affine_validate_def res_simps)

lemma grid_cover:
  "0 < threads \<Longrightarrow> let g = \<lparr>grid_items = items, grid_threads = threads\<rparr> in
     items \<le> grid_groups g * threads \<and> grid_groups g * threads < items + threads"
  using div_ceil_bounds [of threads items] by (simp add: grid_groups_def)

text \<open>A layer that passes \<open>validate\<close>, with a schedule that fits its projections and sizes
  that do not overflow, always gets its kernel plans: ten kernels in the fixed order, with
  exactly the items of the tensors they process, each covered by whole thread groups with
  less than one group to spare.\<close>

theorem layer_kernel_plans_cover:
  assumes "layer_validate q = Inr ()" "tensor_ok (req_tensor (moe_kda q))" "layer_sizes_fit q"
    and "\<forall>l\<in>{req_qkv (moe_kda q), router q} \<union> set (expert_gate q @ expert_up q @ expert_down q). affine_validate a l = Inr ()"
  shows "\<exists>plans. layer_kernel_plans q a = Inr plans \<and>
    map plan_kernel plans = [''decoder_rms_norm'', ''kda_project_packed_16k'', ''kda_split_qkv_16k'',
      ''kda_recurrence_16k'', ''decoder_residual'', ''decoder_rms_norm'', ''moe_router_topk'', ''moe_gate_up'',
      ''moe_down'', ''decoder_residual''] \<and>
    (let t = req_tensor (moe_kda q); tokens = batch t * sequence_length t;
         hidden = tokens * input_width (req_qkv (moe_kda q)) in
     map (\<lambda>p. grid_items (plan_grid p)) plans = [tokens, tokens * (3 * heads t * key_width t),
       tokens * heads t * key_width t, batch t * heads t * value_width t, hidden, tokens, tokens,
       tokens * top_k q * output_width (expert_gate q ! 0), hidden, hidden]) \<and>
    (\<forall>p\<in>set plans. let g = plan_grid p in
       grid_items g \<le> grid_groups g * grid_threads g \<and> grid_groups g * grid_threads g < grid_items g + grid_threads g)"
proof -
  note v = layer_validate_Inr [OF assms(1)]
  note el = layer_elements [OF assms(2,3) v(2,3,6)]
  have pos: "0 < batch (req_tensor (moe_kda q))" "0 < sequence_length (req_tensor (moe_kda q))"
    "0 < heads (req_tensor (moe_kda q))" "0 < key_width (req_tensor (moe_kda q))" "0 < value_width (req_tensor (moe_kda q))"
    using assms(2) by (simp_all add: tensor_ok_def)
  have a: "affine_validate a (req_qkv (moe_kda q)) = Inr ()" "affine_validate a (router q) = Inr ()"
    "for_each_res (affine_validate a) (expert_gate q @ expert_up q @ expert_down q) = Inr ()"
    using assms(4) by (simp_all add: for_each_res_Inr_conv)
  note tiles = affine_validate_Inr [OF a(1)]
  define g where "g n k = \<lparr>grid_items = n, grid_threads = k\<rparr>" for n k
  have gi: "grid_items (g n k) = n" "grid_threads (g n k) = k" for n k by (simp_all add: g_def)
  have cover: "n \<le> grid_groups (g n k) * k \<and> grid_groups (g n k) * k < n + k" if "k \<noteq> 0" for n k
    using grid_cover [of k n] that by (simp add: g_def Let_def)
  have one: "n \<le> grid_groups (g n (Suc 0)) \<and> grid_groups (g n (Suc 0)) < Suc n" for n
    using cover [of "Suc 0" n] by simp
  show ?thesis
    using tiles pos v
    by (simp add: layer_kernel_plans_def layer_encode_def encoder_new_def assms(1) v(1) a el kda_encode_def
        tiled_plan_Inr with_scratch_bytes_def Let_def gi cover one flip: g_def del: for_each_res.simps)
qed

definition test_linear :: "nat \<Rightarrow> nat \<Rightarrow> KdaPackedLinear" where
  "test_linear inputs outputs = \<lparr>byte_offset = 0, scale_offset = 0, bias_offset = 0, input_width = inputs,
     output_width = outputs, bits = 4, group_size = 2, element_offset = 0, perturb_whole = 0, perturb_threshold = 0\<rparr>"

definition test_layer :: KdaMoeLayerRequest where
  "test_layer = \<lparr>moe_kda = \<lparr>req_tensor = \<lparr>batch = 1, sequence_length = 2, heads = 1, key_width = 2, value_width = 2\<rparr>,
       req_qkv = test_linear 4 6, req_control = test_linear 4 2, req_output = test_linear 4 4, req_seed = 7\<rparr>,
     attention_norm = test_linear 4 1, moe_norm = test_linear 4 1, router = test_linear 4 2,
     expert_gate = [test_linear 4 2, test_linear 4 2], expert_up = [test_linear 4 2, test_linear 4 2],
     expert_down = [test_linear 2 4, test_linear 2 4], top_k = 1,
     residual_scale = Ieee 0x3f800000, rms_epsilon = Ieee 0x3f800000\<rparr>"

definition test_affine :: PackedAffinePlan where
  "test_affine = \<lparr>token_tile = 1, output_tile = 1, input_tile = 2, affine_threads = 4\<rparr>"

theorem layer_kernel_plans_cover_witness:
  "\<exists>plans. layer_kernel_plans test_layer test_affine = Inr plans \<and>
     map (\<lambda>p. grid_items (plan_grid p)) plans = [2, 12, 4, 2, 8, 2, 2, 4, 8, 8]"
proof -
  have valid: "layer_validate test_layer = Inr ()"
    by (simp add: layer_validate_def test_layer_def test_linear_def request_validate_def linear_validate_def
        qkv_output_width_def umul_def wrap64_def usize_bound_def expert_validate_def Let_def float_eval fle_def)
  have tensor: "tensor_ok (req_tensor (moe_kda test_layer))" by (simp add: tensor_ok_def test_layer_def)
  have fit: "layer_sizes_fit test_layer"
    by (simp add: layer_sizes_fit_def test_layer_def test_linear_def usize_bound_def Let_def)
  have affine: "\<forall>l\<in>{req_qkv (moe_kda test_layer), router test_layer} \<union>
      set (expert_gate test_layer @ expert_up test_layer @ expert_down test_layer). affine_validate test_affine l = Inr ()"
    by (simp add: affine_validate_def test_affine_def test_layer_def test_linear_def linear_validate_def)
  from layer_kernel_plans_cover [OF valid tensor fit affine] show ?thesis
    by (auto simp: test_layer_def test_linear_def Let_def)
qed

end
