(* ===== verification/IncumbentTracker.thy ===== *)
theory IncumbentTracker
  imports TopK
begin

text \<open>
  The incremental tracker of incumbent candidates
  (\<open>rust/crates/ennx/src/incumbent_tracker.rs\<close>): observations are told one by one, and it keeps
  only what the next question needs. The reference selects from all observations at once.

  A panic (an assertion of \<open>new\<close>, an index out of range in \<open>tell\<close>) is \<open>None\<close>.
\<close>

definition ALL_CANDIDATES_M_THRESHOLD :: nat where
  "ALL_CANDIDATES_M_THRESHOLD = 1000000000"

record IncrementalIncumbentTracker =
  tk_m :: nat
  tk_count :: nat
  tk_all :: "nat list"
  tk_max :: f64
  tk_max_indices :: "nat list"
  tk_initialized :: bool
  tk_top :: "(nat \<times> f64) list"
  tk_metrics :: "(nat \<times> f64) list list"
  tk_use_all :: bool
  tk_use_max :: bool
  tk_use_top :: bool

definition tracker_new :: "nat \<Rightarrow> bool \<Rightarrow> nat \<Rightarrow> IncrementalIncumbentTracker option" where
  "tracker_new m noise_aware num_metrics =
     (if m < 1 \<or> num_metrics < 1 then None
      else let all = (m \<ge> ALL_CANDIDATES_M_THRESHOLD) in
        Some \<lparr>tk_m = m, tk_count = 0, tk_all = [], tk_max = neg_infinity, tk_max_indices = [],
          tk_initialized = False, tk_top = [],
          tk_metrics = (if \<not> all \<and> num_metrics > 1 then replicate num_metrics [] else []),
          tk_use_all = all, tk_use_max = (\<not> all \<and> num_metrics = 1 \<and> \<not> noise_aware),
          tk_use_top = (\<not> all \<and> num_metrics = 1 \<and> noise_aware)\<rparr>)"

text \<open>Larger values first in \<open>total_cmp\<close>'s order, ties by index.\<close>

definition entry_le :: "nat \<times> f64 \<Rightarrow> nat \<times> f64 \<Rightarrow> bool" where
  "entry_le a b \<longleftrightarrow> total_key (snd b) < total_key (snd a) \<or> total_key (snd a) = total_key (snd b) \<and> fst a \<le> fst b"

definition push_top_m :: "(nat \<times> f64) list \<Rightarrow> nat \<Rightarrow> f64 \<Rightarrow> nat \<Rightarrow> (nat \<times> f64) list" where
  "push_top_m entries i v m = take m (sort_le entry_le (entries @ [(i, v)]))"

definition sorted_indices :: "(nat \<times> f64) list \<Rightarrow> nat list" where
  "sorted_indices entries = sort (map fst entries)"

definition tell_max :: "nat \<Rightarrow> f64 \<Rightarrow> IncrementalIncumbentTracker \<Rightarrow> IncrementalIncumbentTracker" where
  "tell_max i v t =
     (if \<not> tk_initialized t \<or> flt (tk_max t) v
      then t\<lparr>tk_max := v, tk_max_indices := [i], tk_initialized := True\<rparr>
      else if feq v (tk_max t) then t\<lparr>tk_max_indices := tk_max_indices t @ [i]\<rparr>
      else t)"

definition tracker_tell :: "nat \<times> f64 list \<Rightarrow> IncrementalIncumbentTracker \<Rightarrow> IncrementalIncumbentTracker option" where
  "tracker_tell = (\<lambda>(i, y) t0. let t = t0\<lparr>tk_count := tk_count t0 + 1\<rparr> in
     if tk_use_all t then Some (t\<lparr>tk_all := tk_all t @ [i]\<rparr>)
     else if tk_use_max t then if y = [] then None else Some (tell_max i (y ! 0) t)
     else if tk_use_top t then if y = [] then None else Some (t\<lparr>tk_top := push_top_m (tk_top t) i (y ! 0) (tk_m t)\<rparr>)
     else if length y < length (tk_metrics t) then None
     else Some (t\<lparr>tk_metrics := map2 (\<lambda>col es. push_top_m es i (y ! col) (tk_m t)) [0..<length (tk_metrics t)] (tk_metrics t)\<rparr>))"

definition tracker_ask :: "IncrementalIncumbentTracker \<Rightarrow> nat list" where
  "tracker_ask t =
     (if tk_count t = 0 then []
      else if tk_use_all t then sort (tk_all t)
      else if tk_use_max t then sort (tk_max_indices t)
      else if tk_use_top t then sorted_indices (tk_top t)
      else sorted_list_of_set (\<Union>es\<in>set (tk_metrics t). set (sorted_indices es)))"

definition tracker_reset :: "IncrementalIncumbentTracker \<Rightarrow> IncrementalIncumbentTracker" where
  "tracker_reset t = t\<lparr>tk_count := 0, tk_all := [], tk_max_indices := [], tk_max := neg_infinity,
     tk_initialized := False, tk_top := [], tk_metrics := map (\<lambda>_. []) (tk_metrics t)\<rparr>"

fun tell_all :: "(nat \<times> f64 list) list \<Rightarrow> IncrementalIncumbentTracker \<Rightarrow> IncrementalIncumbentTracker option" where
  "tell_all [] t = Some t"
| "tell_all (o1 # os) t = (case tracker_tell o1 t of None \<Rightarrow> None | Some t1 \<Rightarrow> tell_all os t1)"

definition tracker_rebuild :: "f64 list list \<Rightarrow> IncrementalIncumbentTracker \<Rightarrow> IncrementalIncumbentTracker option" where
  "tracker_rebuild rows t = tell_all (enumerate 0 rows) (tracker_reset t)"

definition tracker_m_from_enn_k :: "int \<Rightarrow> nat" where
  "tracker_m_from_enn_k k = nat (max k 1)"

definition tracker_m_no_surrogate :: nat where
  "tracker_m_no_surrogate = ALL_CANDIDATES_M_THRESHOLD + 1"

section \<open>The reference\<close>

definition column_of :: "nat \<Rightarrow> (nat \<times> f64 list) list \<Rightarrow> (nat \<times> f64) list" where
  "column_of c obs = map (\<lambda>(i, y). (i, y ! c)) obs"

text \<open>What is selected from all observations: every one, the maximal ones, the best \<open>m\<close>, or the
  best \<open>m\<close> of each metric.\<close>

definition candidates_of :: "nat \<Rightarrow> bool \<Rightarrow> nat \<Rightarrow> (nat \<times> f64 list) list \<Rightarrow> nat list" where
  "candidates_of m noise_aware k obs =
     (if m \<ge> ALL_CANDIDATES_M_THRESHOLD then sort (map fst obs)
      else if k = 1 \<and> \<not> noise_aware
      then sort (map fst (filter (\<lambda>e. \<forall>e'\<in>set (column_of 0 obs). \<not> flt (snd e) (snd e')) (column_of 0 obs)))
      else if k = 1 then sort (map fst (topk entry_le m (column_of 0 obs)))
      else sorted_list_of_set (\<Union>c<k. fst ` set (topk entry_le m (column_of c obs))))"

interpretation tk: ranking entry_le UNIV
proof
  show "preorder_on_set UNIV entry_le" by (rule preorder_on_setI) (auto simp: entry_le_def)
  show "x = y" if "entry_le x y" "entry_le y x" for x y
    using that by (auto simp: entry_le_def intro: prod_eqI total_key_inj)
qed

lemma column_of_simps [simp]:
  "column_of c [] = []" "column_of c (obs @ [(i, y)]) = column_of c obs @ [(i, y ! c)]"
  "map fst (column_of c obs) = map fst obs"
  by (auto simp: column_of_def)

lemma push_topk: "push_top_m (topk entry_le m xs) i v m = topk entry_le m (xs @ [(i, v)])"
  using tk.topk_append [of xs "[(i, v)]" m] by (simp add: push_top_m_def topk_def)

lemma tell_all_snoc: "tell_all (os @ [o1]) t = (case tell_all os t of None \<Rightarrow> None | Some t1 \<Rightarrow> tracker_tell o1 t1)"
  by (induction os arbitrary: t) (auto split: option.splits)

section \<open>The state after any observations\<close>

definition maximal_entries :: "(nat \<times> f64) list \<Rightarrow> (nat \<times> f64) list" where
  "maximal_entries es = filter (\<lambda>e. \<forall>e'\<in>set es. \<not> flt (snd e) (snd e')) es"

lemma maximal_entries_max:
  assumes "\<forall>e\<in>set es. \<not> is_nan (snd e)" "b \<in> set es" "\<forall>e\<in>set es. fle (snd e) (snd b)"
  shows "maximal_entries es = filter (\<lambda>e. feq (snd e) (snd b)) es"
  unfolding maximal_entries_def using assms by (intro filter_cong refl) (fastforce simp: fcmp_defs)

text \<open>Telling a maximum keeps the best value so far and exactly its indices.\<close>

definition max_ok :: "(nat \<times> f64) list \<Rightarrow> IncrementalIncumbentTracker \<Rightarrow> bool" where
  "max_ok es t \<longleftrightarrow> tk_initialized t = (es \<noteq> []) \<and> tk_max_indices t = map fst (maximal_entries es) \<and>
     (es \<noteq> [] \<longrightarrow> (\<exists>i. (i, tk_max t) \<in> set es) \<and> (\<forall>e\<in>set es. fle (snd e) (tk_max t)))"

lemma tell_max_ok:
  assumes "max_ok es t" "\<forall>e\<in>set (es @ [(i, v)]). \<not> is_nan (snd e)"
  shows "max_ok (es @ [(i, v)]) (tell_max i v t)"
proof (cases "es = []")
  case True
  then show ?thesis
    using assms by (auto simp: max_ok_def tell_max_def maximal_entries_def fcmp_defs)
next
  case False
  then obtain j where j: "(j, tk_max t) \<in> set es" and le: "\<forall>e\<in>set es. fle (snd e) (tk_max t)"
      and idx: "tk_max_indices t = map fst (maximal_entries es)" and ini: "tk_initialized t"
    using assms(1) by (auto simp: max_ok_def)
  have old: "maximal_entries es = filter (\<lambda>e. feq (snd e) (tk_max t)) es"
    using maximal_entries_max [of es "(j, tk_max t)"] assms(2) j le by simp
  have nn: "\<not> is_nan v" "\<not> is_nan (tk_max t)" using assms(2) j by force+
  consider "flt (tk_max t) v" | "feq v (tk_max t)" | "flt v (tk_max t)"
    using nn by (fastforce simp: fcmp_defs)
  then show ?thesis
  proof cases
    case 1
    have le': "\<forall>e\<in>set (es @ [(i, v)]). fle (snd e) v" using le 1 by (fastforce simp: fcmp_defs)
    have "filter (\<lambda>e. feq (snd e) v) es = []"
      using le 1 by (fastforce simp: filter_empty_conv fcmp_defs)
    then have "maximal_entries (es @ [(i, v)]) = [(i, v)]"
      using maximal_entries_max [OF assms(2), of "(i, v)"] le' nn by (simp add: fcmp_defs)
    then show ?thesis using 1 le' by (auto simp: max_ok_def tell_max_def)
  next
    case 2
    have "\<forall>e\<in>set (es @ [(i, v)]). fle (snd e) (tk_max t)" using le 2 by (fastforce simp: fcmp_defs)
    moreover from this have "maximal_entries (es @ [(i, v)]) = maximal_entries es @ [(i, v)]"
      using maximal_entries_max [OF assms(2), of "(j, tk_max t)"] j 2 old by simp
    moreover have "\<not> flt (tk_max t) v" using 2 by (auto simp: fcmp_defs)
    ultimately show ?thesis using 2 j ini idx by (auto simp: max_ok_def tell_max_def)
  next
    case 3
    have "\<forall>e\<in>set (es @ [(i, v)]). fle (snd e) (tk_max t)" using le 3 by (fastforce simp: fcmp_defs)
    moreover from this have "maximal_entries (es @ [(i, v)]) = maximal_entries es"
      using maximal_entries_max [OF assms(2), of "(j, tk_max t)"] j 3 old by (auto simp: fcmp_defs)
    moreover have "\<not> flt (tk_max t) v" "\<not> feq v (tk_max t)" using 3 by (auto simp: fcmp_defs)
    ultimately show ?thesis using j ini idx by (auto simp: max_ok_def tell_max_def)
  qed
qed

lemma tell_max_frame [simp]:
  "tk_m (tell_max i v t) = tk_m t" "tk_count (tell_max i v t) = tk_count t" "tk_use_all (tell_max i v t) = tk_use_all t"
  "tk_use_max (tell_max i v t) = tk_use_max t" "tk_use_top (tell_max i v t) = tk_use_top t"
  by (simp_all add: tell_max_def)

definition tracks :: "nat \<Rightarrow> bool \<Rightarrow> nat \<Rightarrow> (nat \<times> f64 list) list \<Rightarrow> IncrementalIncumbentTracker \<Rightarrow> bool" where
  "tracks m na k obs t \<longleftrightarrow>
     tk_m t = m \<and> tk_count t = length obs \<and> tk_use_all t = (m \<ge> ALL_CANDIDATES_M_THRESHOLD) \<and>
     tk_use_max t = (\<not> m \<ge> ALL_CANDIDATES_M_THRESHOLD \<and> k = 1 \<and> \<not> na) \<and>
     tk_use_top t = (\<not> m \<ge> ALL_CANDIDATES_M_THRESHOLD \<and> k = 1 \<and> na) \<and>
     (tk_use_all t \<longrightarrow> tk_all t = map fst obs) \<and>
     (tk_use_max t \<longrightarrow> max_ok (column_of 0 obs) t) \<and>
     (tk_use_top t \<longrightarrow> tk_top t = topk entry_le m (column_of 0 obs)) \<and>
     (\<not> tk_use_all t \<and> k > 1 \<longrightarrow> tk_metrics t = map (\<lambda>c. topk entry_le m (column_of c obs)) [0..<k])"

lemma tracks_new:
  assumes "tracker_new m na k = Some t"
  shows "tracks m na k [] t" "1 \<le> m" "1 \<le> k"
  using assms
  by (auto simp: tracker_new_def tracks_def Let_def max_ok_def maximal_entries_def topk_def split: if_splits
      intro!: nth_equalityI)

lemma tracks_tell:
  assumes "tracks m na k obs t" "1 \<le> k" "length y = k"
    and "\<not> m \<ge> ALL_CANDIDATES_M_THRESHOLD \<and> k = 1 \<and> \<not> na \<Longrightarrow> \<forall>o1\<in>set (obs @ [(i, y)]). \<not> is_nan (snd o1 ! 0)"
  shows "\<exists>t1. tracker_tell (i, y) t = Some t1 \<and> tracks m na k (obs @ [(i, y)]) t1"
proof -
  have y: "y \<noteq> []" using assms(2,3) by auto
  consider "tk_use_all t" | "\<not> tk_use_all t" "tk_use_max t" | "\<not> tk_use_all t" "\<not> tk_use_max t" "tk_use_top t"
    | "\<not> tk_use_all t" "\<not> tk_use_max t" "\<not> tk_use_top t" by blast
  then show ?thesis
  proof cases
    case 1
    then show ?thesis using assms(1) by (auto simp: tracker_tell_def tracks_def)
  next
    case 2
    have mode: "\<not> m \<ge> ALL_CANDIDATES_M_THRESHOLD \<and> k = 1 \<and> \<not> na" using 2 assms(1) by (simp add: tracks_def)
    let ?t = "t\<lparr>tk_count := tk_count t + 1\<rparr>"
    have "max_ok (column_of 0 obs) ?t" using 2 assms(1) by (simp add: tracks_def max_ok_def)
    then have "max_ok (column_of 0 obs @ [(i, y ! 0)]) (tell_max i (y ! 0) ?t)"
      using assms(4) [OF mode] by (intro tell_max_ok) (auto simp: column_of_def)
    then show ?thesis using 2 y mode assms(1) by (simp add: tracker_tell_def tracks_def Let_def)
  next
    case 3
    then show ?thesis using assms(1) y by (simp add: tracker_tell_def tracks_def Let_def push_topk)
  next
    case 4
    have k: "k > 1" using 4 assms(1,2) by (auto simp: tracks_def)
    then have "tk_metrics t = map (\<lambda>c. topk entry_le m (column_of c obs)) [0..<k]" "tk_m t = m"
      using 4 assms(1) by (simp_all add: tracks_def)
    moreover have "map2 (\<lambda>c es. push_top_m es i (y ! c) m) [0..<k] (map (\<lambda>c. topk entry_le m (column_of c obs)) [0..<k]) =
        map (\<lambda>c. topk entry_le m (column_of c (obs @ [(i, y)]))) [0..<k]"
      by (rule nth_equalityI) (simp_all add: push_topk)
    ultimately show ?thesis
      using 4 assms(1,3) k by (simp add: tracker_tell_def tracks_def Let_def)
  qed
qed

lemma tracks_tell_all:
  assumes "tracks m na k [] t" "1 \<le> k" "\<forall>o1\<in>set obs. length (snd o1) = k"
    and "\<not> m \<ge> ALL_CANDIDATES_M_THRESHOLD \<and> k = 1 \<and> \<not> na \<Longrightarrow> \<forall>o1\<in>set obs. \<not> is_nan (snd o1 ! 0)"
  shows "\<exists>t1. tell_all obs t = Some t1 \<and> tracks m na k obs t1"
  using assms(3,4)
proof (induction obs rule: rev_induct)
  case Nil
  then show ?case using assms(1) by simp
next
  case (snoc o1 obs)
  then obtain t1 where t1: "tell_all obs t = Some t1" "tracks m na k obs t1" by auto
  obtain i y where o1: "o1 = (i, y)" by fastforce
  show ?case
    using tracks_tell [OF t1(2) assms(2), of y i] snoc.prems t1(1) unfolding o1 by (simp add: tell_all_snoc)
qed

lemma tracks_ask:
  assumes "tracks m na k obs t" "1 \<le> k"
  shows "tracker_ask t = candidates_of m na k obs"
proof (cases "obs = []")
  case True
  then show ?thesis using assms by (simp add: tracks_def tracker_ask_def candidates_of_def topk_def)
next
  case False
  then have told: "tk_count t \<noteq> 0" using assms(1) by (simp add: tracks_def)
  consider "tk_use_all t" | "\<not> tk_use_all t" "tk_use_max t" | "\<not> tk_use_all t" "\<not> tk_use_max t" "tk_use_top t"
    | "\<not> tk_use_all t" "\<not> tk_use_max t" "\<not> tk_use_top t" by blast
  then show ?thesis
  proof cases
    case 4
    then have k: "1 < k" "\<not> ALL_CANDIDATES_M_THRESHOLD \<le> m" "tk_metrics t = map (\<lambda>c. topk entry_le m (column_of c obs)) [0..<k]"
      using assms by (auto simp: tracks_def)
    have "(\<Union>es\<in>set (tk_metrics t). set (sorted_indices es)) = (\<Union>c<k. fst ` set (topk entry_le m (column_of c obs)))"
      by (simp add: k(3) sorted_indices_def atLeast0LessThan)
    then show ?thesis using 4 k(1,2) told by (simp add: tracker_ask_def candidates_of_def)
  qed (use assms(1) told in \<open>simp_all add: tracks_def tracker_ask_def candidates_of_def sorted_indices_def max_ok_def
      maximal_entries_def\<close>)
qed

text \<open>C34: The tracker equals the selection from all observations. Told any sequence of rows of the
  right length, in any order of indices, it never panics and asking it returns what the reference
  picks from all of them: every index, the indices of the maximal values, or the best \<open>m\<close> of each
  metric with ties to the lower index. There is at least one metric and the limit is at least one; only
  the search for the maximum, of one metric without noise, needs values that are no NaN.\<close>

theorem tracker_selects_as_reference:
  assumes "1 \<le> m" "1 \<le> k" "\<forall>o1\<in>set obs. length (snd o1) = k"
    and "noise_aware \<or> 1 < k \<or> (\<forall>o1\<in>set obs. \<not> is_nan (snd o1 ! 0))"
  shows "\<exists>t0 t. tracker_new m noise_aware k = Some t0 \<and> tell_all obs t0 = Some t \<and>
    tracker_ask t = candidates_of m noise_aware k obs"
proof -
  obtain t0 where t0: "tracker_new m noise_aware k = Some t0"
    using assms(1,2) by (simp add: tracker_new_def Let_def)
  obtain t where "tell_all obs t0 = Some t" "tracks m noise_aware k obs t"
    using tracks_tell_all [OF tracks_new(1) [OF t0] assms(2,3)] assms(4) by auto
  then show ?thesis using t0 tracks_ask assms(2) by blast
qed

lemma nan_maximum_stays:
  assumes "tk_use_max t" "\<not> tk_use_all t" "tk_initialized t" "is_nan (tk_max t)" "tk_max_indices t = [i]" "tk_count t \<noteq> 0"
    and "\<forall>o1\<in>set obs. snd o1 \<noteq> []"
  shows "\<exists>t1. tell_all obs t = Some t1 \<and> tracker_ask t1 = [i]"
  using assms
proof (induction obs arbitrary: t)
  case Nil
  then show ?case by (simp add: tracker_ask_def)
next
  case (Cons o1 obs)
  obtain j y where o1: "o1 = (j, y)" by fastforce
  let ?t = "t\<lparr>tk_count := tk_count t + 1\<rparr>"
  have "tracker_tell o1 t = Some ?t"
    using Cons.prems by (simp add: o1 tracker_tell_def Let_def tell_max_def fcmp_defs)
  then show ?case using Cons.IH [of ?t] Cons.prems by simp
qed

text \<open>A defect of the search for the maximum. Once a NaN is told first, no later value is larger
  than it or equal to it, so the candidate stays the first index whatever is told.\<close>

theorem first_nan_blocks_tracker:
  assumes "1 \<le> m" "m < ALL_CANDIDATES_M_THRESHOLD" "is_nan v" "\<forall>o1\<in>set obs. snd o1 \<noteq> []"
  shows "\<exists>t0 t. tracker_new m False 1 = Some t0 \<and> tell_all ((i, [v]) # obs) t0 = Some t \<and> tracker_ask t = [i]"
proof -
  obtain t0 where t0: "tracker_new m False 1 = Some t0"
    using assms(1) by (simp add: tracker_new_def Let_def)
  then have mode: "tk_use_max t0" "\<not> tk_use_all t0" "\<not> tk_initialized t0"
    using assms(1,2) by (auto simp: tracker_new_def Let_def)
  let ?t = "tell_max i v (t0\<lparr>tk_count := tk_count t0 + 1\<rparr>)"
  have "tracker_tell (i, [v]) t0 = Some ?t" using mode by (simp add: tracker_tell_def Let_def)
  then show ?thesis
    using nan_maximum_stays [of ?t i obs] mode assms(3,4) t0 by (simp add: tell_max_def)
qed

section \<open>Evaluated instances\<close>

definition told_rows :: "(nat \<times> f64 list) list" where
  "told_rows = [(4, [fzero]), (2, [infinity]), (7, [neg_infinity]), (1, [infinity])]"

lemma told_rows_ok: "\<forall>o1\<in>set told_rows. length (snd o1) = 1" "\<forall>o1\<in>set told_rows. \<not> is_nan (snd o1 ! 0)"
  by (simp_all add: told_rows_def is_nan_def fzero_def infinity_def neg_infinity_def float_layout)

theorem tracker_selects_as_reference_witness:
  "\<exists>t0 t. tracker_new 2 False 1 = Some t0 \<and> tell_all told_rows t0 = Some t \<and>
    tracker_ask t = candidates_of 2 False 1 told_rows"
  by (rule tracker_selects_as_reference) (simp_all add: told_rows_ok)

theorem first_nan_blocks_tracker_witness:
  "\<exists>t0 t. tracker_new 3 False 1 = Some t0 \<and> tell_all ((0, [nan]) # told_rows) t0 = Some t \<and> tracker_ask t = [0]"
  by (rule first_nan_blocks_tracker) (simp_all add: ALL_CANDIDATES_M_THRESHOLD_def told_rows_def is_nan_def nan_def float_layout)

end
