(* ===== verification/TrustRegion.thy ===== *)
theory TrustRegion
  imports FloatOrder
begin

text \<open>
  The trust region of the single-objective optimiser (\<open>rust/crates/ennx/src/trust_region.rs\<close>):
  success and failure counters that double and halve its length, the running extremes of the
  observed values, the bounds around a centre. An array is a list; the \<open>i32\<close> counters are
  integers, which \<open>region_ok\<close> keeps below \<open>i32::MAX\<close>. The messages of an error are dropped.
\<close>

datatype TrustRegionError = TRInvalidParameter | TRInvalidState | TRPanic

record TRLengthConfig =
  length_init :: f64
  length_min :: f64
  length_max :: f64

definition default_lengths :: TRLengthConfig where
  "default_lengths = \<lparr>length_init = flit 8 10, length_min = pow2f (- 7), length_max = flit 16 10\<rparr>"

record TurboTrustRegion =
  tr_length :: f64
  failure_counter :: int
  success_counter :: int
  best_value :: f64
  prev_num_obs :: nat
  success_tolerance :: int
  failure_tolerance :: "int option"
  tr_num_dim :: nat
  tr_num_arms :: "nat option"
  tr_config :: TRLengthConfig
  hist_ymin :: f64
  hist_ymax :: f64
  failure_tolerance_dim :: "f64 option"

definition turbo_new :: "nat \<Rightarrow> TRLengthConfig \<Rightarrow> TurboTrustRegion" where
  "turbo_new dim config = \<lparr>tr_length = length_init config, failure_counter = 0, success_counter = 0,
     best_value = neg_infinity, prev_num_obs = 0, success_tolerance = 3, failure_tolerance = None, tr_num_dim = dim,
     tr_num_arms = None, tr_config = config, hist_ymin = infinity, hist_ymax = neg_infinity,
     failure_tolerance_dim = None\<rparr>"

definition incorporate_hist :: "f64 list \<Rightarrow> TurboTrustRegion \<Rightarrow> TurboTrustRegion" where
  "incorporate_hist ys t = t\<lparr>hist_ymin := foldl fmin (hist_ymin t) ys, hist_ymax := foldl fmax (hist_ymax t) ys\<rparr>"

definition scale_from_hist :: "TurboTrustRegion \<Rightarrow> f64" where
  "scale_from_hist t =
     (if prev_num_obs t \<ge> 2 then fmax (fsub (hist_ymax t) (hist_ymin t)) (flit 1 1000000) else fzero)"

text \<open>\<open>x.ceil() as i32\<close>: NaN to zero, saturating.\<close>

definition ceil_i32 :: "f64 \<Rightarrow> int" where
  "ceil_i32 x =
     (if is_nan x then 0
      else let u = 2 ^ 1074;
               n = (if sign_neg x then - int (units x div u) else int ((units x + u - 1) div u))
           in max (- (2 ^ 31)) (min (2 ^ 31 - 1) n))"

definition compute_failure_tolerance :: "TurboTrustRegion \<Rightarrow> TurboTrustRegion" where
  "compute_failure_tolerance t =
     (case tr_num_arms t of None \<Rightarrow> t
      | Some arms \<Rightarrow>
          (let eff_dim = (case failure_tolerance_dim t of Some d \<Rightarrow> d | None \<Rightarrow> flit (tr_num_dim t) 1);
               tolerance = ceil_i32 (fmax (fdiv (flit 4 1) (flit arms 1)) (fdiv eff_dim (flit arms 1)))
           in t\<lparr>failure_tolerance := Some (max tolerance 1)\<rparr>))"

definition set_failure_tolerance_dim :: "f64 \<Rightarrow> TurboTrustRegion \<Rightarrow> TurboTrustRegion" where
  "set_failure_tolerance_dim d t = compute_failure_tolerance (t\<lparr>failure_tolerance_dim := Some d\<rparr>)"

definition set_num_arms :: "nat \<Rightarrow> TurboTrustRegion \<Rightarrow> TurboTrustRegion" where
  "set_num_arms n t = compute_failure_tolerance (t\<lparr>tr_num_arms := Some n\<rparr>)"

definition set_best_value :: "f64 \<Rightarrow> TurboTrustRegion \<Rightarrow> TurboTrustRegion" where
  "set_best_value v t = t\<lparr>best_value := v\<rparr>"

definition set_prev_num_obs :: "nat \<Rightarrow> TurboTrustRegion \<Rightarrow> TurboTrustRegion" where
  "set_prev_num_obs n t = t\<lparr>prev_num_obs := n\<rparr>"

definition turbo_needs_restart :: "TurboTrustRegion \<Rightarrow> bool" where
  "turbo_needs_restart t \<longleftrightarrow> flt (tr_length t) (length_min (tr_config t))"

section \<open>Updating\<close>

definition count_outcome :: "bool \<Rightarrow> TurboTrustRegion \<Rightarrow> TurboTrustRegion" where
  "count_outcome improved t =
     (if improved then t\<lparr>success_counter := success_counter t + 1, failure_counter := 0\<rparr>
      else t\<lparr>failure_counter := failure_counter t + 1, success_counter := 0\<rparr>)"

definition failure_tol :: "TurboTrustRegion \<Rightarrow> int" where
  "failure_tol t = (case failure_tolerance t of Some k \<Rightarrow> k | None \<Rightarrow> 4)"

definition adapt_length :: "TurboTrustRegion \<Rightarrow> TurboTrustRegion" where
  "adapt_length t =
     (if success_counter t \<ge> success_tolerance t
      then t\<lparr>tr_length := fmin (fmul (tr_length t) (flit 2 1)) (length_max (tr_config t)), success_counter := 0\<rparr>
      else if failure_counter t \<ge> failure_tol t
      then t\<lparr>tr_length := fmul (tr_length t) (flit 1 2), failure_counter := 0\<rparr>
      else t)"

definition improves :: "TurboTrustRegion \<Rightarrow> f64 \<Rightarrow> f64 \<Rightarrow> bool" where
  "improves t scale v \<longleftrightarrow> flt (fadd (best_value t) (fmul (flit 1 1000) scale)) v"

text \<open>The spread of the values before the batch, by a scan of all of them.\<close>

definition scan_scale :: "f64 list \<Rightarrow> f64" where
  "scan_scale prev =
     (if length prev \<ge> 2
      then fmax (fsub (foldl fmax neg_infinity prev) (foldl fmin infinity prev)) (flit 1 1000000) else fzero)"

definition update_scalar_incumbent :: "nat \<Rightarrow> f64 \<Rightarrow> TurboTrustRegion \<Rightarrow> TrustRegionError + TurboTrustRegion" where
  "update_scalar_incumbent num_obs v t =
     (if num_obs = 0 \<or> num_obs = prev_num_obs t then Inr t
      else if num_obs < prev_num_obs t then Inl TRInvalidState
      else if \<not> is_finite (best_value t) then Inr (t\<lparr>best_value := v, prev_num_obs := num_obs\<rparr>)
      else let scale = scan_scale (replicate (prev_num_obs t) fzero);
               t1 = adapt_length (count_outcome (improves t scale v) t)
           in Inr (t1\<lparr>best_value := fmax (best_value t1) v, prev_num_obs := num_obs\<rparr>))"

definition turbo_update :: "f64 list \<Rightarrow> nat \<Rightarrow> TurboTrustRegion \<Rightarrow> TrustRegionError + TurboTrustRegion" where
  "turbo_update y_all num_obs t =
     (let n = length y_all; prev = prev_num_obs t in
      if n = 0 \<or> n = prev then Inr t
      else if n < prev then Inl TRInvalidState
      else if num_obs \<noteq> n then Inl TRInvalidParameter
      else if \<not> is_finite (best_value t)
      then Inr (t\<lparr>best_value := foldl fmax neg_infinity y_all, prev_num_obs := n\<rparr>)
      else let new_best = foldl fmax neg_infinity (drop prev y_all);
               improved = improves t (scan_scale (take prev y_all)) new_best;
               t1 = count_outcome improved t;
               t2 = (if improved then t1\<lparr>best_value := fmax (best_value t1) new_best\<rparr> else t1)
           in Inr ((adapt_length t2)\<lparr>prev_num_obs := n\<rparr>))"

definition update_with_incumbent_new_batch ::
    "f64 list \<Rightarrow> nat \<Rightarrow> f64 \<Rightarrow> TurboTrustRegion \<Rightarrow> TrustRegionError + TurboTrustRegion" where
  "update_with_incumbent_new_batch y_new num_obs v t =
     (if y_new = [] then Inr t
      else let n = prev_num_obs t + length y_new in
        if num_obs \<noteq> n then Inl TRInvalidParameter
        else if \<not> is_finite (best_value t)
        then Inr ((incorporate_hist y_new (t\<lparr>best_value := v\<rparr>))\<lparr>prev_num_obs := n\<rparr>)
        else let t1 = adapt_length (count_outcome (improves t (scale_from_hist t) v) t)
             in Inr ((incorporate_hist y_new (t1\<lparr>best_value := fmax (best_value t1) v\<rparr>))\<lparr>prev_num_obs := n\<rparr>))"

definition update_with_incumbent ::
    "f64 list \<Rightarrow> nat \<Rightarrow> f64 \<Rightarrow> TurboTrustRegion \<Rightarrow> TrustRegionError + TurboTrustRegion" where
  "update_with_incumbent y_all num_obs v t =
     (let n = length y_all in
      if n = 0 \<or> n = prev_num_obs t then Inr t
      else if n < prev_num_obs t then Inl TRInvalidState
      else if num_obs \<noteq> n then Inl TRInvalidParameter
      else update_with_incumbent_new_batch (drop (prev_num_obs t) y_all) num_obs v t)"

definition turbo_restart :: "TurboTrustRegion \<Rightarrow> TurboTrustRegion" where
  "turbo_restart t = t\<lparr>tr_length := length_init (tr_config t), failure_counter := 0, success_counter := 0,
     best_value := neg_infinity, hist_ymin := infinity, hist_ymax := neg_infinity\<rparr>"

section \<open>Bounds\<close>

text \<open>An element-wise operation of two arrays; an array of one element is broadcast, other
  unequal lengths panic.\<close>

definition broadcast2 :: "('a \<Rightarrow> 'a \<Rightarrow> 'a) \<Rightarrow> 'a list \<Rightarrow> 'a list \<Rightarrow> TrustRegionError + 'a list" where
  "broadcast2 f xs ys =
     (if length xs = length ys then Inr (map2 f xs ys)
      else if length ys = 1 then Inr (map (\<lambda>x. f x (hd ys)) xs)
      else if length xs = 1 then Inr (map (f (hd xs)) ys)
      else Inl TRPanic)"

definition clip_unit :: "f64 \<Rightarrow> f64" where
  "clip_unit v = fclamp v fzero (flit 1 1)"

definition turbo_bounds_1d ::
    "f64 list \<Rightarrow> f64 list option \<Rightarrow> TurboTrustRegion \<Rightarrow> TrustRegionError + (f64 list \<times> f64 list)" where
  "turbo_bounds_1d center lengthscales t =
     (let half = (case lengthscales of
            Some ls \<Rightarrow> map (\<lambda>l. fdiv (fmul l (tr_length t)) (flit 2 1)) ls
          | None \<Rightarrow> replicate (length center) (fdiv (tr_length t) (flit 2 1)))
      in rbind (broadcast2 fsub center half) (\<lambda>lb.
         rbind (broadcast2 fadd center half) (\<lambda>ub.
         Inr (map clip_unit lb, map clip_unit ub))))"

section \<open>The region that does nothing\<close>

record NoTrustRegion =
  no_num_dim :: nat

definition no_length :: "NoTrustRegion \<Rightarrow> f64" where
  "no_length t = flit 1 1"

definition no_needs_restart :: "NoTrustRegion \<Rightarrow> bool" where
  "no_needs_restart t = False"

definition no_bounds_1d :: "NoTrustRegion \<Rightarrow> f64 list \<times> f64 list" where
  "no_bounds_1d t = (replicate (no_num_dim t) fzero, replicate (no_num_dim t) (flit 1 1))"

end
