(* ===== verification/TrustRegionLaws.thy ===== *)
theory TrustRegionLaws
  imports TrustRegion
begin

text \<open>
  Laws of the trust region: halving and doubling, the range of the length and of the counters in
  every reachable region, the bounds around a centre, the running spread, and the restart that a
  run of failures forces.
\<close>

section \<open>Literals, halving and doubling\<close>

lemma flit_exact:
  assumes "is_finite (z :: f64)" "\<not> sign_neg z" "0 < q" "p * 2 ^ 1074 = units z * q"
  shows "flit p q = z"
  using assms unfolding flit_def unit_exp_def by (simp add: round_float_exact)

lemma literal_values:
  "(flit 1 1 :: f64) = one64" "(flit 2 1 :: f64) = two64" "(flit 1 2 :: f64) = half64"
  using sample_finite sample_signs
  by (intro flit_exact; simp only: sample_units; simp only: power_Suc [symmetric] mult_1 mult_1_right mult.commute [of 2]
      power_Suc2 [symmetric] Suc_numeral semiring_norm; simp)+

lemmas literal_simps [simp] = literal_values literal_values [simplified]

lemma zero_not_nan [simp]: "\<not> is_nan (fzero :: f64)" "is_finite (fzero :: f64)"
  by (simp_all add: is_nan_def is_finite_def fzero_def float_layout)

lemma flit_nonneg: "fle fzero (flit p q :: f64)"
  by (simp add: fle_def flit_def fkey_round_float)

lemma fval_half: "fval half64 = 2 ^ 1073" "fval two64 = 2 ^ 1075"
  using sample_units sample_signs by (simp_all add: fval_def)

lemma half_key: "is_finite x \<Longrightarrow> fkey (fmul x half64) = srnd 64 (fval x) 2"
proof -
  assume x: "is_finite x"
  have "fkey (fmul x half64) = srnd 64 (fval x * 2 ^ 1073) (2 ^ 1074)"
    using fmul_finite(2) [OF x sample_finite(3)] by (simp only: fval_half unit_exp_def) simp
  also have "\<dots> = srnd 64 (fval x) 2"
  proof -
    have "int (2 ^ 1074) = 2 ^ 1073 * int 2" by simp
    then have "fval x * 2 ^ 1073 * int 2 = fval x * int (2 ^ 1074)" by (simp only: mult.assoc)
    then show ?thesis by (intro order.antisym srnd_mono) (simp_all only: order.refl zero_less_power zero_less_numeral)
  qed
  finally show ?thesis .
qed

lemma half_sign:
  assumes "is_finite x" "fle fzero x"
  shows "fle fzero (fmul x half64)" "fle (fmul x half64) x" "is_finite (fmul x half64)"
proof -
  have "0 \<le> fval x" using assms(2) by (simp add: fle_def fval_sign_iff)
  then have "0 \<le> srnd 64 (fval x) 2" "srnd 64 (fval x) 2 \<le> srnd 64 (fval x) 1"
    by (simp_all add: srnd_sign srnd_mono)
  then have key: "0 \<le> fkey (fmul x half64)" "fkey (fmul x half64) \<le> fkey x"
    using half_key [OF assms(1)] srnd_fval [OF assms(1)] by simp_all
  then show "fle fzero (fmul x half64)" "fle (fmul x half64) x"
    using assms fmul_finite(1) [OF assms(1) sample_finite(3)] by (simp_all add: fle_def)
  show "is_finite (fmul x half64)" using key assms(1) by (simp add: finite_iff_key)
qed

text \<open>Halving a normal number above the smallest binade lowers its exponent by one.\<close>

lemma half_normal:
  assumes "is_finite x" "fle fzero x" "2 * 2 ^ 52 \<le> mag x"
  shows "mag (fmul x half64) = mag x - 2 ^ 52"
proof -
  define k f where "k = mag x div 2 ^ 52 - 2" and "f = mag x mod 2 ^ 52"
  have "2 \<le> mag x div 2 ^ 52" using assms(3) by (simp add: less_eq_div_iff_mult_less_eq)
  then have "Suc (Suc k) = mag x div 2 ^ 52" by (simp add: k_def)
  then have m: "mag x = Suc (Suc k) * 2 ^ 52 + f" by (simp only: f_def div_mult_mod_eq)
  have f: "f < 2 ^ 52" by (simp add: f_def)
  have ux: "units x = (2 ^ 52 + f) * 2 ^ Suc k"
    using units_of_normal [OF f, of "Suc k"] by (simp only: units_def m frac_bits_def) simp
  have uh: "units_of 52 (Suc k * 2 ^ 52 + f) = (2 ^ 52 + f) * 2 ^ k" by (rule units_of_normal [OF f])
  have "0 \<le> fkey x" using assms(2) by (simp add: fle_def)
  then have pos: "\<not> sign_neg x" using assms(3) by (auto simp: fkey_def split: if_splits)
  have "nat (fval x) = units_of 52 (Suc k * 2 ^ 52 + f) * 2" "0 \<le> fval x"
    using pos by (simp_all only: fval_def if_False nat_int ux uh) (simp_all add: ac_simps)
  moreover have "Suc k * 2 ^ 52 + f \<le> inf_mag 64" using assms(1) m by (simp add: is_finite_def)
  ultimately have "srnd 64 (fval x) 2 = int (Suc k * 2 ^ 52 + f)"
    using round_mag_eq [of 2 1 "units_of 52 (Suc k * 2 ^ 52 + f) * 2" "units_of 52 (Suc k * 2 ^ 52 + f)" 52 "inf_mag 64"]
      round_mag_units_of [of "Suc k * 2 ^ 52 + f" "inf_mag 64" 52]
    by (simp add: srnd_def frac_bits_def)
  then have "fkey (fmul x half64) = int (mag x - 2 ^ 52)" using half_key [OF assms(1)] m by simp
  then show ?thesis by (auto simp: fkey_def split: if_splits)
qed

section \<open>Lengths and counters stay in range\<close>

definition lengths_ok :: "TRLengthConfig \<Rightarrow> bool" where
  "lengths_ok c \<longleftrightarrow> is_finite (length_max c) \<and> flt fzero (length_min c) \<and> fle (length_min c) (length_init c) \<and>
     fle (length_init c) (length_max c)"

definition region_ok :: "TurboTrustRegion \<Rightarrow> bool" where
  "region_ok t \<longleftrightarrow> lengths_ok (tr_config t) \<and> fle fzero (tr_length t) \<and> fle (tr_length t) (length_max (tr_config t)) \<and>
     success_tolerance t = 3 \<and> 0 \<le> success_counter t \<and> success_counter t < 3 \<and>
     0 \<le> failure_counter t \<and> failure_counter t < 2 ^ 31 - 1 \<and> 1 \<le> failure_tol t \<and> failure_tol t \<le> 2 ^ 31 - 1"

lemma region_new: "lengths_ok c \<Longrightarrow> region_ok (turbo_new d c)"
  by (auto simp: region_ok_def lengths_ok_def turbo_new_def failure_tol_def fcmp_defs)

lemma ceil_i32_le: "ceil_i32 x \<le> 2 ^ 31 - 1"
proof (cases "is_nan x")
  case False
  have "max (- (2 ^ 31)) (min (2 ^ 31 - 1) n) \<le> 2 ^ 31 - 1" for n :: int
    by (rule max.boundedI [OF _ min.cobounded1]) simp
  then show ?thesis using False by (simp only: ceil_i32_def Let_def if_False)
qed (simp add: ceil_i32_def)

lemma tolerance_cases:
  obtains "compute_failure_tolerance t = t"
    | k where "compute_failure_tolerance t = t\<lparr>failure_tolerance := Some k\<rparr>" "1 \<le> k" "k \<le> 2 ^ 31 - 1"
proof (cases "tr_num_arms t")
  case (Some n)
  let ?k = "max (ceil_i32 (fmax (fdiv (flit 4 1) (flit n 1))
      (fdiv (case failure_tolerance_dim t of Some d \<Rightarrow> d | None \<Rightarrow> flit (tr_num_dim t) 1) (flit n 1)))) 1"
  have "?k \<le> 2 ^ 31 - 1" using ceil_i32_le by simp
  then show ?thesis using Some that(2) [of ?k] by (simp add: compute_failure_tolerance_def Let_def)
qed (simp add: that(1) compute_failure_tolerance_def)

lemma region_arms: "region_ok t \<Longrightarrow> region_ok (compute_failure_tolerance t)"
  by (rule tolerance_cases [of t]) (simp_all add: region_ok_def failure_tol_def)

lemma region_frame [simp]:
  "region_ok (t\<lparr>tr_num_arms := n\<rparr>) = region_ok t" "region_ok (t\<lparr>failure_tolerance_dim := d\<rparr>) = region_ok t"
  "region_ok (t\<lparr>best_value := v\<rparr>) = region_ok t" "region_ok (t\<lparr>prev_num_obs := k\<rparr>) = region_ok t"
  "region_ok (incorporate_hist ys t) = region_ok t"
  by (simp_all add: region_ok_def failure_tol_def incorporate_hist_def)

lemma region_set_arms: "region_ok t \<Longrightarrow> region_ok (set_num_arms n t)" "region_ok t \<Longrightarrow> region_ok (set_failure_tolerance_dim d t)"
  by (simp_all add: set_num_arms_def set_failure_tolerance_dim_def region_arms)

lemma region_restart: "region_ok t \<Longrightarrow> region_ok (turbo_restart t)"
  by (auto simp: region_ok_def lengths_ok_def turbo_restart_def failure_tol_def fcmp_defs)

lemma region_length_finite:
  assumes "region_ok t"
  shows "is_finite (tr_length t)"
  using assms fval_sign_iff by (auto simp: region_ok_def lengths_ok_def fle_def finite_iff_key)

lemma region_adapt:
  assumes "region_ok t"
  shows "region_ok (adapt_length (count_outcome improved t))"
proof -
  note fin = region_length_finite [OF assms]
  have le: "fle fzero (tr_length t)" "fle (tr_length t) (length_max (tr_config t))" using assms by (simp_all add: region_ok_def)
  have "fle fzero (fmul (tr_length t) two64)"
    using fmul_nonneg [OF fin sample_finite(2) le(1)] flit_nonneg [of 2 1] literal_values(2) by simp
  then have "fle fzero (fmin (fmul (tr_length t) two64) (length_max (tr_config t)))"
    "fle (fmin (fmul (tr_length t) two64) (length_max (tr_config t))) (length_max (tr_config t))"
    using le by (auto simp: fmin_def fcmp_defs)
  moreover note half_sign [OF fin le(1)] fle_trans [OF half_sign(2) [OF fin le(1)] le(2)]
  ultimately show ?thesis
    using assms by (simp add: region_ok_def adapt_length_def count_outcome_def failure_tol_def)
qed

lemma adapt_best [simp]: "adapt_length (t\<lparr>best_value := v\<rparr>) = (adapt_length t)\<lparr>best_value := v\<rparr>"
  by (simp add: adapt_length_def failure_tol_def)

lemma region_update:
  assumes "region_ok t"
  shows "update_scalar_incumbent n v t = Inr t' \<Longrightarrow> region_ok t'"
    "turbo_update ys n t = Inr t' \<Longrightarrow> region_ok t'"
    "update_with_incumbent_new_batch ys n v t = Inr t' \<Longrightarrow> region_ok t'"
    "update_with_incumbent ys n v t = Inr t' \<Longrightarrow> region_ok t'"
  using assms region_adapt [OF assms]
  by (auto simp: update_scalar_incumbent_def turbo_update_def update_with_incumbent_new_batch_def
      update_with_incumbent_def Let_def split: if_splits)

section \<open>Every reachable region\<close>

inductive region_step :: "TurboTrustRegion \<Rightarrow> TurboTrustRegion \<Rightarrow> bool" where
  "region_step t (set_num_arms n t)"
| "region_step t (set_failure_tolerance_dim d t)"
| "region_step t (set_best_value v t)"
| "region_step t (set_prev_num_obs n t)"
| "region_step t (turbo_restart t)"
| "update_scalar_incumbent n v t = Inr t' \<Longrightarrow> region_step t t'"
| "turbo_update ys n t = Inr t' \<Longrightarrow> region_step t t'"
| "update_with_incumbent_new_batch ys n v t = Inr t' \<Longrightarrow> region_step t t'"
| "update_with_incumbent ys n v t = Inr t' \<Longrightarrow> region_step t t'"

definition region_reachable :: "TurboTrustRegion \<Rightarrow> TurboTrustRegion \<Rightarrow> bool" where
  "region_reachable = region_step\<^sup>*\<^sup>*"

lemma region_step_ok: "region_step t t' \<Longrightarrow> region_ok t \<Longrightarrow> region_ok t'"
  by (erule region_step.cases)
    (simp_all add: region_set_arms region_restart set_best_value_def set_prev_num_obs_def, (erule (1) region_update)+)

lemma region_reachable_ok: "region_reachable t t' \<Longrightarrow> region_ok t \<Longrightarrow> region_ok t'"
  unfolding region_reachable_def by (induction rule: rtranclp_induct) (auto intro: region_step_ok)

lemma region_ok_length:
  "region_ok t \<Longrightarrow> is_finite (tr_length t) \<and> fle fzero (tr_length t) \<and> fle (tr_length t) (length_max (tr_config t))"
  using region_length_finite [of t] by (simp add: region_ok_def)


section \<open>Bounds around a centre\<close>

definition in_unit :: "f64 \<Rightarrow> bool" where
  "in_unit x \<longleftrightarrow> fle fzero x \<and> fle x one64"

lemma in_unit_finite: "in_unit x \<Longrightarrow> is_finite x"
  using sample_finite(1) fval_sign_iff by (auto simp: in_unit_def fle_def finite_iff_key)

lemma clip_unit_range: "\<not> is_nan v \<Longrightarrow> in_unit (clip_unit v)"
proof -
  assume "\<not> is_nan v"
  moreover have "fle fzero one64" using flit_nonneg [of 1 1] by simp
  ultimately show ?thesis using fclamp_in_range [of fzero one64 v] by (simp add: in_unit_def clip_unit_def)
qed

lemma clip_unit_mono: "fle v w \<Longrightarrow> fle (clip_unit v) (clip_unit w)"
  using flit_nonneg [of 1 1] by (simp add: clip_unit_def fclamp_mono)

lemma clip_unit_id: "in_unit x \<Longrightarrow> clip_unit x = x"
  by (auto simp: clip_unit_def fclamp_def in_unit_def fcmp_defs)

lemma half_width_nonneg:
  assumes "fle fzero w"
  shows "fle fzero (fdiv w two64)"
proof (cases "is_inf w")
  case True
  then have "fdiv w two64 = mk_float False (inf_mag 64)"
    using nonneg_inf [OF assms True] sample_signs(2) finite_not_special [OF sample_finite(2)]
    by (simp add: fdiv_def is_nan_def is_inf_def)
  then show ?thesis by (simp add: fle_def fkey_mk_float mk_float_not_nan)
next
  case False
  then have w: "is_finite w" using assms by (auto simp: fle_def not_nan_cases)
  have "0 < fkey two64" "units two64 \<noteq> 0" by (simp_all add: fkey_def sample_mags sample_signs sample_units)
  then show ?thesis
    using fdiv_finite [OF w sample_finite(2)] assms srnd_sign(2) [of "fval w * 2 ^ 1074" 64 "units two64"]
    by (simp add: fle_def fval_sign_iff unit_exp_def)
qed

lemma interval_contains:
  assumes "in_unit x" "fle fzero h"
  shows "in_unit (clip_unit (fsub x h)) \<and> fle (clip_unit (fsub x h)) x \<and>
    fle x (clip_unit (fadd x h)) \<and> in_unit (clip_unit (fadd x h))"
proof -
  have "\<not> is_nan h" using assms(2) by (simp add: fle_def)
  then have nan: "\<not> is_nan (fsub x h)" "\<not> is_nan (fadd x h)"
    using finite_not_special [OF in_unit_finite [OF assms(1)]] by (auto simp: fsub_def is_nan_fadd)
  then show ?thesis
    using clip_unit_range clip_unit_mono [OF fsub_le [OF assms(2) nan(1)]] clip_unit_mono [OF fadd_ge [OF assms(2) nan(2)]]
      clip_unit_id [OF assms(1)] by simp
qed

definition brackets :: "f64 list \<Rightarrow> f64 list \<Rightarrow> f64 list \<Rightarrow> bool" where
  "brackets lb xs ub \<longleftrightarrow> length lb = length xs \<and> length ub = length xs \<and>
     (\<forall>i<length xs. in_unit (lb ! i) \<and> fle (lb ! i) (xs ! i) \<and> fle (xs ! i) (ub ! i) \<and> in_unit (ub ! i))"

lemma brackets_map:
  assumes "list_all in_unit center" "list_all (fle fzero) half" "length half = length center"
  shows "brackets (map clip_unit (map2 fsub center half)) center (map clip_unit (map2 fadd center half))"
  using assms interval_contains by (simp add: brackets_def list_all_length)

lemma widths_nonneg:
  assumes "is_finite len" "fle fzero len" "list_all (\<lambda>l. is_finite l \<and> fle fzero l) ls"
  shows "list_all (fle fzero) (map (\<lambda>l. fdiv (fmul l len) two64) ls)"
  using assms by (auto simp: list_all_iff intro!: half_width_nonneg fmul_nonneg)

text \<open>The bounds of a region bracket its centre inside the unit cube: for a centre in the unit
  cube and finite length scales that are not negative, one per dimension or none given, the call
  does not panic, every lower bound is at least zero and at most the centre, every upper bound
  at least the centre and at most one.\<close>

theorem bounds_bracket_centre:
  assumes "lengths_ok c" "region_reachable (turbo_new d c) t" "list_all in_unit center"
    and "\<forall>ls. lengthscales = Some ls \<longrightarrow> length ls = length center \<and> list_all (\<lambda>l. is_finite l \<and> fle fzero l) ls"
  shows "\<exists>lb ub. turbo_bounds_1d center lengthscales t = Inr (lb, ub) \<and> brackets lb center ub"
proof -
  have len: "is_finite (tr_length t)" "fle fzero (tr_length t)"
    using region_ok_length [OF region_reachable_ok [OF assms(2) region_new [OF assms(1)]]] by simp_all
  define half where "half = (case lengthscales of Some ls \<Rightarrow> map (\<lambda>l. fdiv (fmul l (tr_length t)) two64) ls
      | None \<Rightarrow> replicate (length center) (fdiv (tr_length t) two64))"
  have "length half = length center" "list_all (fle fzero) half"
    using assms(4) widths_nonneg [OF len] half_width_nonneg [OF len(2)]
    by (auto simp: half_def list_all_iff split: option.splits)
  then show ?thesis
    using brackets_map [OF assms(3), of half]
    unfolding turbo_bounds_1d_def literal_values half_def [symmetric] by (simp add: broadcast2_def)
qed

section \<open>The running spread\<close>

text \<open>Tells in order: each batch with the incumbent after it, the observation count advancing by
  the batch. From one tell to the next the call cannot fail.\<close>

fun tell_batches :: "(f64 list \<times> f64) list \<Rightarrow> TurboTrustRegion \<Rightarrow> TrustRegionError + TurboTrustRegion" where
  "tell_batches [] t = Inr t"
| "tell_batches ((ys, v) # bs) t =
     rbind (update_with_incumbent_new_batch ys (prev_num_obs t + length ys) v t) (tell_batches bs)"

lemma batch_step:
  assumes "ys \<noteq> []"
  shows "\<exists>t'. update_with_incumbent_new_batch ys (prev_num_obs t + length ys) v t = Inr t' \<and>
    prev_num_obs t' = prev_num_obs t + length ys \<and> hist_ymin t' = foldl fmin (hist_ymin t) ys \<and>
    hist_ymax t' = foldl fmax (hist_ymax t) ys"
  using assms
  by (simp add: update_with_incumbent_new_batch_def Let_def incorporate_hist_def adapt_length_def count_outcome_def)

lemma tell_batches_hist:
  assumes "\<forall>b\<in>set bs. fst b \<noteq> []"
  shows "\<exists>t'. tell_batches bs t = Inr t' \<and>
    prev_num_obs t' = prev_num_obs t + length (concat (map fst bs)) \<and>
    hist_ymin t' = foldl fmin (hist_ymin t) (concat (map fst bs)) \<and>
    hist_ymax t' = foldl fmax (hist_ymax t) (concat (map fst bs))"
  using assms
proof (induction bs arbitrary: t)
  case (Cons b bs)
  obtain ys v where b: "b = (ys, v)" by fastforce
  obtain t1 where t1: "update_with_incumbent_new_batch ys (prev_num_obs t + length ys) v t = Inr t1"
      "prev_num_obs t1 = prev_num_obs t + length ys" "hist_ymin t1 = foldl fmin (hist_ymin t) ys"
      "hist_ymax t1 = foldl fmax (hist_ymax t) ys"
    using batch_step [of ys t v] Cons.prems b by auto
  then show ?case using Cons.IH [of t1] Cons.prems b by auto
qed simp

text \<open>C33: The running spread equals the rescan: told batch by batch from a new region, the scale kept
  in the two running extremes is exactly the scale \<open>update\<close> finds by scanning every value told,
  NaNs and infinities included, so the constant-time path decides improvement as a full scan
  would.\<close>

theorem running_spread_is_full_scan:
  assumes "\<forall>b\<in>set bs. fst b \<noteq> []"
  shows "\<exists>t. tell_batches bs (turbo_new d c) = Inr t \<and>
    prev_num_obs t = length (concat (map fst bs)) \<and> scale_from_hist t = scan_scale (concat (map fst bs)) \<and>
    (\<forall>v. improves t (scale_from_hist t) v = improves t (scan_scale (take (prev_num_obs t) (concat (map fst bs)))) v)"
proof -
  obtain t where "tell_batches bs (turbo_new d c) = Inr t"
      "prev_num_obs t = length (concat (map fst bs))"
      "hist_ymin t = foldl fmin infinity (concat (map fst bs))"
      "hist_ymax t = foldl fmax neg_infinity (concat (map fst bs))"
    using tell_batches_hist [OF assms, of "turbo_new d c"] by (auto simp: turbo_new_def)
  then show ?thesis by (simp add: scale_from_hist_def scan_scale_def)
qed

section \<open>A run of failures forces a restart\<close>

lemma spread_nonneg: "fle fzero (scale_from_hist t)"
  using flit_nonneg [of 1 1000000] by (auto simp: scale_from_hist_def fmax_def fcmp_defs)

lemma nonneg_mag: "fle fzero x \<Longrightarrow> int (mag x) = fkey x" for x :: f64
proof -
  assume "fle fzero x"
  then have "0 \<le> fkey x" by (simp add: fle_def)
  then show ?thesis by (auto simp: fkey_def split: if_splits)
qed

lemma fmul_nonneg_or_nan:
  fixes a b :: f64
  assumes "fle fzero a" "fle fzero b"
  shows "is_nan (fmul a b) \<or> fle fzero (fmul a b)"
proof (cases "is_inf a \<or> is_inf b")
  case True
  have "mag x = 0 \<or> \<not> sign_neg x" if "fle fzero x" for x :: f64
    using nonneg_mag [OF that] by (auto simp: fkey_def)
  then have sign: "mag a = 0 \<or> mag b = 0 \<or> \<not> sign_neg a \<and> \<not> sign_neg b" using assms by blast
  have "\<not> is_nan a" "\<not> is_nan b" using assms by (simp_all add: fle_def)
  then have "fmul a b = (if mag a = 0 \<or> mag b = 0 then nan else mk_float (sign_neg a \<noteq> sign_neg b) (inf_mag 64))"
    using True by (simp add: fmul_def)
  then have "fmul a b = nan \<or> fmul a b = mk_float False (inf_mag 64)" using sign by auto
  then show ?thesis by (auto simp: fle_def fkey_mk_float mk_float_not_nan)
next
  case False
  then have "is_finite a" "is_finite b" using assms by (auto simp: fle_def not_nan_cases)
  then show ?thesis using fmul_nonneg assms by blast
qed

lemma no_improvement: "\<not> flt (best_value t) v \<Longrightarrow> \<not> improves t (scale_from_hist t) v"
proof -
  assume v: "\<not> flt (best_value t) v"
  let ?x = "fmul (flit 1 1000) (scale_from_hist t)"
  show ?thesis
  proof (cases "is_nan (fadd (best_value t) ?x)")
    case True
    then show ?thesis by (simp add: improves_def flt_def)
  next
    case False
    then have "fle fzero ?x" using fmul_nonneg_or_nan [OF flit_nonneg spread_nonneg] fadd_not_nan(2) by blast
    then have "fle (best_value t) (fadd (best_value t) ?x)" using fadd_ge False by blast
    then show ?thesis using v by (auto simp: improves_def fcmp_defs)
  qed
qed

lemma failed_batch:
  assumes "is_finite (best_value t)" "ys \<noteq> []" "\<not> flt (best_value t) v" "success_tolerance t = 3"
  shows "\<exists>t'. update_with_incumbent_new_batch ys (prev_num_obs t + length ys) v t = Inr t' \<and>
    best_value t' = best_value t \<and> tr_config t' = tr_config t \<and> failure_tol t' = failure_tol t \<and>
    (if failure_counter t + 1 \<ge> failure_tol t then tr_length t' = fmul (tr_length t) half64 \<and> failure_counter t' = 0
     else tr_length t' = tr_length t \<and> failure_counter t' = failure_counter t + 1)"
proof -
  have "fmax (best_value t) v = best_value t"
    using assms(3) finite_not_special [OF assms(1)] by (simp add: fmax_def)
  then show ?thesis
    using assms no_improvement [OF assms(3)]
    by (simp add: update_with_incumbent_new_batch_def Let_def incorporate_hist_def adapt_length_def count_outcome_def
        failure_tol_def)
qed

text \<open>The failures still needed before the length is below the smallest one.\<close>

definition failures_left :: "TurboTrustRegion \<Rightarrow> int" where
  "failures_left t =
     (if turbo_needs_restart t then 0
      else failure_tol t * int ((mag (tr_length t) - mag (length_min (tr_config t))) div 2 ^ 52 + 1)
        - min (failure_counter t) (failure_tol t - 1))"

definition normal_min :: "TRLengthConfig \<Rightarrow> bool" where
  "normal_min c \<longleftrightarrow> 2 * 2 ^ 52 \<le> mag (length_min c)"

lemma restart_iff:
  assumes "region_ok t"
  shows "turbo_needs_restart t \<longleftrightarrow> mag (tr_length t) < mag (length_min (tr_config t))"
proof -
  have "0 \<le> fkey (tr_length t)" "0 < fkey (length_min (tr_config t))" "\<not> is_nan (tr_length t)" "\<not> is_nan (length_min (tr_config t))"
    using assms by (auto simp: region_ok_def lengths_ok_def fcmp_defs)
  then show ?thesis by (auto simp: turbo_needs_restart_def flt_def fkey_def split: if_splits)
qed

lemma failed_batch_progress:
  assumes "region_ok t" "normal_min (tr_config t)" "is_finite (best_value t)" "ys \<noteq> []" "\<not> flt (best_value t) v"
  shows "\<exists>t'. update_with_incumbent_new_batch ys (prev_num_obs t + length ys) v t = Inr t' \<and> region_ok t' \<and>
    best_value t' = best_value t \<and> tr_config t' = tr_config t \<and> failures_left t' \<le> max 0 (failures_left t - 1)"
proof -
  let ?lo = "mag (length_min (tr_config t))" and ?m = "mag (tr_length t)"
  have tol: "success_tolerance t = 3" "1 \<le> failure_tol t" "0 \<le> failure_counter t"
    and len: "is_finite (tr_length t)" "fle fzero (tr_length t)"
    using assms(1) region_ok_length [OF assms(1)] by (simp_all add: region_ok_def)
  obtain t' where t': "update_with_incumbent_new_batch ys (prev_num_obs t + length ys) v t = Inr t'"
    "best_value t' = best_value t" "tr_config t' = tr_config t" "failure_tol t' = failure_tol t"
    "if failure_counter t + 1 \<ge> failure_tol t then tr_length t' = fmul (tr_length t) half64 \<and> failure_counter t' = 0
     else tr_length t' = tr_length t \<and> failure_counter t' = failure_counter t + 1"
    using failed_batch [OF assms(3,4,5) tol(1)] by blast
  have ok: "region_ok t'" using region_update(3) [OF assms(1) t'(1)] .
  have le: "mag (fmul (tr_length t) half64) \<le> ?m"
    using half_sign [OF len] nonneg_mag [OF len(2)] nonneg_mag [OF half_sign(1) [OF len]] by (simp add: fle_def)
  have "failures_left t' \<le> max 0 (failures_left t - 1)"
  proof (cases "turbo_needs_restart t")
    case True
    then have "turbo_needs_restart t'"
      using t'(3,5) le restart_iff [OF assms(1)] restart_iff [OF ok] by (auto split: if_splits)
    then show ?thesis by (simp add: failures_left_def)
  next
    case False
    then have ge: "?lo \<le> ?m" using restart_iff [OF assms(1)] by simp
    show ?thesis
    proof (cases "turbo_needs_restart t'")
      case True
      then show ?thesis by (simp add: failures_left_def)
    next
      case still: False
      show ?thesis
      proof (cases "failure_counter t + 1 \<ge> failure_tol t")
        case True
        have "2 * 2 ^ 52 \<le> ?m" using assms(2) ge by (simp only: normal_min_def)
        then have m': "mag (tr_length t') = ?m - 2 ^ 52" using half_normal [OF len] t'(5) True by simp
        moreover have "?lo \<le> mag (tr_length t')" using still restart_iff [OF ok] t'(3) by simp
        ultimately have "?m - ?lo = 2 ^ 52 + (mag (tr_length t') - ?lo)" using \<open>2 * 2 ^ 52 \<le> ?m\<close> by simp
        then have "(mag (tr_length t') - ?lo) div 2 ^ 52 + 1 = (?m - ?lo) div 2 ^ 52"
          using div_add_self1 [of "2 ^ 52 :: nat" "mag (tr_length t') - ?lo"] by (simp only: power_not_zero) simp
        then have "failures_left t' = failure_tol t * int ((?m - ?lo) div 2 ^ 52)"
          using still t'(3,4,5) True tol(2) by (simp add: failures_left_def)
        moreover have "failures_left t = failure_tol t * int ((?m - ?lo) div 2 ^ 52) + 1"
          using False True by (simp add: failures_left_def algebra_simps)
        ultimately show ?thesis by simp
      next
        case False
        then show ?thesis using still \<open>\<not> turbo_needs_restart t\<close> t'(3,4,5) by (simp add: failures_left_def)
      qed
    qed
  qed
  then show ?thesis using t' ok by blast
qed

lemma failed_batches:
  assumes "region_ok t" "normal_min (tr_config t)" "is_finite (best_value t)"
    and "\<forall>b\<in>set bs. fst b \<noteq> [] \<and> \<not> flt (best_value t) (snd b)"
  shows "\<exists>t'. tell_batches bs t = Inr t' \<and> region_ok t' \<and> failures_left t' \<le> max 0 (failures_left t - int (length bs))"
  using assms
proof (induction bs arbitrary: t)
  case (Cons b bs)
  obtain ys v where b: "b = (ys, v)" by fastforce
  obtain t1 where t1: "update_with_incumbent_new_batch ys (prev_num_obs t + length ys) v t = Inr t1" "region_ok t1"
      "best_value t1 = best_value t" "tr_config t1 = tr_config t" "failures_left t1 \<le> max 0 (failures_left t - 1)"
    using failed_batch_progress [OF Cons.prems(1-3), of ys v] Cons.prems(4) b by auto
  then obtain t' where "tell_batches bs t1 = Inr t'" "region_ok t'"
      "failures_left t' \<le> max 0 (failures_left t1 - int (length bs))"
    using Cons.IH [of t1] Cons.prems by auto
  then show ?case using t1 b by (auto simp: max_def split: if_splits)
qed simp

lemma failures_left_pos: "region_ok t \<Longrightarrow> \<not> turbo_needs_restart t \<Longrightarrow> 0 < failures_left t"
proof -
  assume ok: "region_ok t" and run: "\<not> turbo_needs_restart t"
  have tol: "1 \<le> failure_tol t" using ok by (simp add: region_ok_def)
  let ?k = "int ((mag (tr_length t) - mag (length_min (tr_config t))) div 2 ^ 52)"
  have "0 \<le> failure_tol t * ?k" using tol by simp
  then have "0 < failure_tol t * (?k + 1) - min (failure_counter t) (failure_tol t - 1)"
    by (simp add: algebra_simps min_def)
  then show ?thesis using run by (simp add: failures_left_def add.commute)
qed

text \<open>Failures force a restart. From any reachable region with a finite best value and a normal
  smallest length, telling batch after batch without improving on the best value never fails, and
  after at most the failure tolerance times one more than the number of binades between the
  length and the smallest length, the region asks for a restart.\<close>

theorem failures_force_restart:
  assumes "lengths_ok c" "region_reachable (turbo_new d c) t" "is_finite (best_value t)" "normal_min (tr_config t)"
    and "\<forall>b\<in>set bs. fst b \<noteq> [] \<and> \<not> flt (best_value t) (snd b)"
    and "failure_tol t * int ((mag (tr_length t) - mag (length_min (tr_config t))) div 2 ^ 52 + 1) \<le> int (length bs)"
  shows "\<exists>t'. tell_batches bs t = Inr t' \<and> turbo_needs_restart t'"
proof -
  have ok: "region_ok t" using region_reachable_ok [OF assms(2) region_new [OF assms(1)]] .
  obtain t' where t': "tell_batches bs t = Inr t'" "region_ok t'"
      "failures_left t' \<le> max 0 (failures_left t - int (length bs))"
    using failed_batches [OF ok assms(4,3,5)] by blast
  have "failures_left t \<le> int (length bs)"
    using assms(6) ok by (auto simp: failures_left_def region_ok_def min_def)
  then have "turbo_needs_restart t'" using t'(2,3) failures_left_pos [of t'] by auto
  then show ?thesis using t'(1) by blast
qed

section \<open>A region of length one\<close>

definition unit_lengths :: TRLengthConfig where
  "unit_lengths = \<lparr>length_init = one64, length_min = half64, length_max = two64\<rparr>"

lemma sample_keys:
  "fkey one64 = 1023 * 2 ^ 52" "fkey two64 = 1024 * 2 ^ 52" "fkey half64 = 1022 * 2 ^ 52"
  "\<not> is_nan one64" "\<not> is_nan two64" "\<not> is_nan half64"
  using sample_finite by (simp_all add: fkey_def sample_mags sample_signs finite_not_special)

lemma unit_lengths_ok: "lengths_ok unit_lengths" "normal_min unit_lengths"
  using sample_finite by (simp_all add: lengths_ok_def unit_lengths_def fcmp_defs sample_keys normal_min_def sample_mags)

definition told_once :: TurboTrustRegion where
  "told_once = (turbo_new 1 unit_lengths)\<lparr>best_value := fzero, prev_num_obs := 1, hist_ymin := fzero, hist_ymax := fzero\<rparr>"

lemma told_once_reached: "region_reachable (turbo_new 1 unit_lengths) told_once"
proof -
  have "fmin infinity fzero = (fzero :: f64)" "fmax neg_infinity fzero = (fzero :: f64)"
    by (simp_all add: fmin_def fmax_def fcmp_defs infinity_def neg_infinity_def fkey_mk_float mk_float_not_nan float_layout)
  moreover have "\<not> is_finite (neg_infinity :: f64)" by (simp add: neg_infinity_def is_finite_def)
  ultimately have "update_with_incumbent_new_batch [fzero] 1 fzero (turbo_new 1 unit_lengths) = Inr told_once"
    by (simp add: update_with_incumbent_new_batch_def turbo_new_def told_once_def incorporate_hist_def)
  then show ?thesis unfolding region_reachable_def by (blast intro: region_step.intros)
qed


theorem bounds_bracket_centre_witness:
  "\<exists>lb ub. turbo_bounds_1d [half64] (Some [one64]) told_once = Inr (lb, ub) \<and> brackets lb [half64] ub"
  using bounds_bracket_centre [OF unit_lengths_ok(1) told_once_reached, of "[half64]" "Some [one64]"] sample_finite
  by (simp add: in_unit_def fcmp_defs sample_keys)

theorem running_spread_is_full_scan_witness:
  "\<exists>t. tell_batches [([one64], one64), ([half64, two64], two64)] (turbo_new 1 unit_lengths) = Inr t \<and>
    prev_num_obs t = 3 \<and> scale_from_hist t = scan_scale [one64, half64, two64]"
  using running_spread_is_full_scan [of "[([one64], one64), ([half64, two64], two64)]" 1 unit_lengths] by auto

theorem failures_force_restart_witness:
  "\<exists>t'. tell_batches (replicate 8 ([fzero], fzero)) told_once = Inr t' \<and> turbo_needs_restart t'"
  using failures_force_restart [OF unit_lengths_ok(1) told_once_reached, of "replicate 8 ([fzero], fzero)"] unit_lengths_ok(2)
  by (simp add: told_once_def turbo_new_def unit_lengths_def failure_tol_def sample_mags)

end
