(* ===== verification/MorboRegion.thy ===== *)
theory MorboRegion
  imports TrustRegionLaws
begin

text \<open>
  The multi-objective trust region (\<open>rust/crates/ennx/src/morbo_trust_region.rs\<close>): a Chebyshev
  scalarisation under random weights over an inner trust region, the running range of every
  metric, and the choice between the two kinds of region (\<open>optimizer/tr_state.rs\<close>).

  An operation that changes the region before it fails returns the region with the error. The
  logarithm and the random source are parameters. An index out of range is the error \<open>TRPanic\<close>.
\<close>

datatype Rescalarize = OnRestart | OnPropose

definition rescalarize_from_str :: "string \<Rightarrow> Rescalarize option" where
  "rescalarize_from_str s = (if s = ''on_restart'' then Some OnRestart else if s = ''on_propose'' then Some OnPropose else None)"

record MorboTRSettings =
  set_num_metrics :: nat
  set_alpha :: f64
  set_length :: TRLengthConfig
  set_rescalarize :: Rescalarize
  set_noise_aware :: bool

record MorboTrustRegion =
  mb_inner :: TurboTrustRegion
  mb_num_metrics :: nat
  mb_alpha :: f64
  mb_rescalarize :: Rescalarize
  mb_noise_aware :: bool
  mb_weights :: "f64 list"
  mb_y_min :: "f64 list option"
  mb_y_max :: "f64 list option"
  incumbent_y_raw :: "f64 list option"

section \<open>Weights\<close>

record 'r rng_env =
  rng_gen :: "'r \<Rightarrow> f64 \<times> 'r"
  libm_ln :: "f64 \<Rightarrow> f64"

fun dirichlet_samples :: "'r rng_env \<Rightarrow> nat \<Rightarrow> 'r \<Rightarrow> f64 list \<times> 'r" where
  "dirichlet_samples env 0 rng = ([], rng)"
| "dirichlet_samples env (Suc n) rng =
     (let (u, rng1) = rng_gen env rng;
          g = fmax (fneg (libm_ln env u)) (flit 1 (10 ^ 300));
          (gs, rng2) = dirichlet_samples env n rng1
      in (g # gs, rng2))"

definition sample_dirichlet_weights :: "'r rng_env \<Rightarrow> nat \<Rightarrow> 'r \<Rightarrow> f64 list \<times> 'r" where
  "sample_dirichlet_weights env n rng =
     (let (gs, rng1) = dirichlet_samples env n rng; sum = foldl fadd fzero gs
      in (map (\<lambda>v. fdiv v sum) gs, rng1))"

definition resample_weights :: "'r rng_env \<Rightarrow> MorboTrustRegion \<times> 'r \<Rightarrow> MorboTrustRegion \<times> 'r" where
  "resample_weights env = (\<lambda>(m, rng).
     let (w, rng1) = sample_dirichlet_weights env (mb_num_metrics m) rng in (m\<lparr>mb_weights := w\<rparr>, rng1))"

definition morbo_new ::
    "'r rng_env \<Rightarrow> nat \<Rightarrow> MorboTRSettings \<Rightarrow> 'r \<Rightarrow> TrustRegionError + (MorboTrustRegion \<times> 'r)" where
  "morbo_new env num_dim settings rng =
     (if set_num_metrics settings < 2 then Inl TRInvalidParameter
      else Inr (resample_weights env
        (\<lparr>mb_inner = turbo_new num_dim (set_length settings), mb_num_metrics = set_num_metrics settings,
          mb_alpha = set_alpha settings, mb_rescalarize = set_rescalarize settings,
          mb_noise_aware = set_noise_aware settings, mb_weights = replicate (set_num_metrics settings) fzero,
          mb_y_min = None, mb_y_max = None, incumbent_y_raw = None\<rparr>, rng)))"

definition morbo_clear :: "MorboTrustRegion \<Rightarrow> MorboTrustRegion" where
  "morbo_clear m = m\<lparr>mb_y_min := None, mb_y_max := None, incumbent_y_raw := None, mb_inner := turbo_restart (mb_inner m)\<rparr>"

definition morbo_restart :: "'r rng_env \<Rightarrow> 'r option \<Rightarrow> MorboTrustRegion \<Rightarrow> MorboTrustRegion \<times> 'r option" where
  "morbo_restart env rng m =
     (case rng of
        Some g \<Rightarrow> if mb_rescalarize m = OnRestart
                  then (let (m1, g1) = resample_weights env (morbo_clear m, g) in (m1, Some g1))
                  else (morbo_clear m, Some g)
      | None \<Rightarrow> (morbo_clear m, None))"

section \<open>Scalarisation\<close>

definition unit_score :: "bool \<Rightarrow> f64 \<Rightarrow> f64 \<Rightarrow> f64 \<Rightarrow> f64" where
  "unit_score clip lo hi v =
     (let denom = fsub hi lo in
      if fle denom fzero then flit 1 2
      else let z = fdiv (fsub v lo) denom in if clip then fclamp z fzero (flit 1 1) else z)"

definition row_score :: "bool \<Rightarrow> f64 list \<Rightarrow> f64 list \<Rightarrow> f64 list \<Rightarrow> f64 \<Rightarrow> f64 list \<Rightarrow> f64" where
  "row_score clip y_min y_max weights alpha row =
     (let ts = map2 fmul (map2 (\<lambda>(lo, hi) v. unit_score clip lo hi v) (zip y_min y_max) row) weights
      in fadd (foldl fmin infinity ts) (fmul alpha (foldl fadd fzero ts)))"

definition scalarize_with_ranges ::
    "nat \<times> f64 list list \<Rightarrow> f64 list \<Rightarrow> f64 list \<Rightarrow> f64 list \<Rightarrow> f64 \<Rightarrow> nat \<Rightarrow> bool \<Rightarrow> TrustRegionError + f64 list" where
  "scalarize_with_ranges = (\<lambda>(cols, rows) y_min y_max weights alpha num_metrics clip.
     if cols \<noteq> num_metrics \<or> length y_min \<noteq> num_metrics \<or> length y_max \<noteq> num_metrics then Inl TRInvalidParameter
     else if rows \<noteq> [] \<and> length weights < num_metrics then Inl TRPanic
     else Inr (map (row_score clip y_min y_max weights alpha) rows))"

definition scores_in :: "MorboTrustRegion \<Rightarrow> f64 list \<Rightarrow> f64 list \<Rightarrow> f64 list list \<Rightarrow> TrustRegionError + f64 list" where
  "scores_in m y_min y_max rows =
     scalarize_with_ranges (length (hd rows), rows) y_min y_max (mb_weights m) (mb_alpha m) (mb_num_metrics m) True"

definition morbo_scalarize :: "nat \<times> f64 list list \<Rightarrow> bool \<Rightarrow> MorboTrustRegion \<Rightarrow> TrustRegionError + f64 list" where
  "morbo_scalarize y clip m =
     (case (mb_y_min m, mb_y_max m) of
        (Some lo, Some hi) \<Rightarrow> scalarize_with_ranges y lo hi (mb_weights m) (mb_alpha m) (mb_num_metrics m) clip
      | _ \<Rightarrow> Inl TRInvalidState)"

section \<open>Ranges\<close>

definition lower :: "f64 \<Rightarrow> f64 \<Rightarrow> f64" where
  "lower acc v = (if flt v acc then v else acc)"

definition raise_to :: "f64 \<Rightarrow> f64 \<Rightarrow> f64" where
  "raise_to acc v = (if flt acc v then v else acc)"

text \<open>Row by row over the running extremes, as the incremental update does.\<close>

definition extend_ranges :: "nat \<Rightarrow> f64 list list \<Rightarrow> f64 list \<times> f64 list \<Rightarrow> f64 list \<times> f64 list" where
  "extend_ranges n rows = (\<lambda>(lo, hi). foldl (\<lambda>(lo, hi) row. (map2 lower lo (take n row), map2 raise_to hi (take n row))) (lo, hi) rows)"

definition fresh_ranges :: "nat \<Rightarrow> f64 list \<times> f64 list" where
  "fresh_ranges n = (replicate n infinity, replicate n neg_infinity)"

definition update_ranges_incremental ::
    "nat \<times> f64 list list \<Rightarrow> MorboTrustRegion \<Rightarrow> (TrustRegionError + unit) \<times> MorboTrustRegion" where
  "update_ranges_incremental = (\<lambda>(cols, rows) m.
     if rows = [] then (Inr (), m)
     else if cols < mb_num_metrics m then (Inl TRPanic, m)
     else let old = (case (mb_y_min m, mb_y_max m) of (Some lo, Some hi) \<Rightarrow> (lo, hi) | _ \<Rightarrow> fresh_ranges (mb_num_metrics m));
              (lo, hi) = extend_ranges (mb_num_metrics m) rows old
          in (Inr (), m\<lparr>mb_y_min := Some lo, mb_y_max := Some hi\<rparr>))"

text \<open>Metric by metric over all rows, as the full update does.\<close>

definition column_ranges :: "nat \<Rightarrow> f64 list list \<Rightarrow> f64 list \<times> f64 list" where
  "column_ranges n rows =
     (map (\<lambda>m. foldl (\<lambda>acc row. lower acc (row ! m)) infinity rows) [0..<n],
      map (\<lambda>m. foldl (\<lambda>acc row. raise_to acc (row ! m)) neg_infinity rows) [0..<n])"

section \<open>The incumbent\<close>

definition inner_update :: "nat \<Rightarrow> f64 \<Rightarrow> MorboTrustRegion \<Rightarrow> (TrustRegionError + unit) \<times> MorboTrustRegion" where
  "inner_update num_obs score m =
     (case update_scalar_incumbent num_obs score (mb_inner m) of
        Inl e \<Rightarrow> (Inl TRInvalidState, m)
      | Inr t \<Rightarrow> (Inr (), m\<lparr>mb_inner := t\<rparr>))"

text \<open>The part that both ways of telling an incumbent share.\<close>

definition tell_incumbent ::
    "f64 list \<Rightarrow> f64 list \<Rightarrow> f64 list \<Rightarrow> nat \<Rightarrow> bool \<Rightarrow> MorboTrustRegion \<Rightarrow> (TrustRegionError + unit) \<times> MorboTrustRegion" where
  "tell_incumbent lo hi y num_obs first m =
     (if first \<or> incumbent_y_raw m = None
      then let m1 = m\<lparr>incumbent_y_raw := Some y\<rparr> in
        (case scores_in m1 lo hi [y] of
           Inl e \<Rightarrow> (Inl e, m1)
         | Inr scores \<Rightarrow> inner_update num_obs (scores ! 0) m1)
      else if length (the (incumbent_y_raw m)) \<noteq> length y then (Inl TRInvalidState, m)
      else (case scores_in m lo hi [the (incumbent_y_raw m), y] of
          Inl e \<Rightarrow> (Inl e, m)
        | Inr scores \<Rightarrow>
            (case inner_update num_obs (scores ! 1) (m\<lparr>mb_inner := set_best_value (scores ! 0) (mb_inner m)\<rparr>) of
               (Inl e, m1) \<Rightarrow> (Inl e, m1)
             | (Inr _, m1) \<Rightarrow>
                 (Inr (), if flt (scores ! 0) (scores ! 1) then m1\<lparr>incumbent_y_raw := Some y\<rparr> else m1))))"

definition update_incumbent_only ::
    "f64 list \<Rightarrow> nat \<Rightarrow> MorboTrustRegion \<Rightarrow> (TrustRegionError + unit) \<times> MorboTrustRegion" where
  "update_incumbent_only y num_obs m =
     (if length y \<noteq> mb_num_metrics m then (Inl TRInvalidParameter, m)
      else if num_obs = 0 then (Inr (), morbo_clear m)
      else case (mb_y_min m, mb_y_max m) of
          (Some lo, Some hi) \<Rightarrow> tell_incumbent lo hi y num_obs False m
        | _ \<Rightarrow> (Inl TRInvalidState, m))"

definition rescalarize_incumbent_under_weights ::
    "nat \<Rightarrow> MorboTrustRegion \<Rightarrow> (TrustRegionError + unit) \<times> MorboTrustRegion" where
  "rescalarize_incumbent_under_weights num_obs m =
     (case (incumbent_y_raw m, mb_y_min m, mb_y_max m) of
        (Some y, Some lo, Some hi) \<Rightarrow>
          (case scores_in m lo hi [y] of
             Inl e \<Rightarrow> (Inl e, m)
           | Inr scores \<Rightarrow>
               inner_update num_obs (scores ! 0) (m\<lparr>mb_inner := set_best_value (scores ! 0) (mb_inner m)\<rparr>))
      | _ \<Rightarrow> (Inr (), m))"

definition morbo_update ::
    "nat \<times> f64 list list \<Rightarrow> f64 list \<Rightarrow> MorboTrustRegion \<Rightarrow> (TrustRegionError + unit) \<times> MorboTrustRegion" where
  "morbo_update = (\<lambda>(cols, rows) y m.
     let n = length rows; prev_n = prev_num_obs (mb_inner m) in
     if cols \<noteq> mb_num_metrics m \<or> length y \<noteq> mb_num_metrics m then (Inl TRInvalidParameter, m)
     else if n = 0 then (Inr (), morbo_clear m)
     else if n < prev_n then (Inl TRInvalidState, m)
     else let (lo, hi) = column_ranges (mb_num_metrics m) rows
          in tell_incumbent lo hi y n (prev_n = 0) (m\<lparr>mb_y_min := Some lo, mb_y_max := Some hi\<rparr>))"

section \<open>Either kind of region\<close>

datatype TrustRegionConfig = TurboConfig TRLengthConfig | MorboConfig MorboTRSettings

datatype TrustRegionState = Turbo TurboTrustRegion | Morbo MorboTrustRegion

definition from_config ::
    "'r rng_env \<Rightarrow> nat \<Rightarrow> TrustRegionConfig \<Rightarrow> 'r \<Rightarrow> TrustRegionError + (TrustRegionState \<times> 'r)" where
  "from_config env num_dim config rng =
     (case config of
        TurboConfig c \<Rightarrow> Inr (Turbo (turbo_new num_dim c), rng)
      | MorboConfig s \<Rightarrow> rbind (morbo_new env num_dim s rng) (\<lambda>(m, rng1). Inr (Morbo m, rng1)))"

fun is_morbo :: "TrustRegionState \<Rightarrow> bool" where
  "is_morbo (Turbo _) = False"
| "is_morbo (Morbo _) = True"

fun inner_region :: "TrustRegionState \<Rightarrow> TurboTrustRegion" where
  "inner_region (Turbo t) = t"
| "inner_region (Morbo m) = mb_inner m"

definition st_length :: "TrustRegionState \<Rightarrow> f64" where
  "st_length s = tr_length (inner_region s)"

fun turbo_prev_num_obs :: "TrustRegionState \<Rightarrow> nat" where
  "turbo_prev_num_obs (Turbo t) = prev_num_obs t"
| "turbo_prev_num_obs (Morbo _) = 0"

fun set_turbo_prev_num_obs :: "nat \<Rightarrow> TrustRegionState \<Rightarrow> TrustRegionState" where
  "set_turbo_prev_num_obs n (Turbo t) = Turbo (set_prev_num_obs n t)"
| "set_turbo_prev_num_obs n (Morbo m) = Morbo m"

fun st_set_num_arms :: "nat \<Rightarrow> TrustRegionState \<Rightarrow> TrustRegionState" where
  "st_set_num_arms n (Turbo t) = Turbo (set_num_arms n t)"
| "st_set_num_arms n (Morbo m) = Morbo (m\<lparr>mb_inner := set_num_arms n (mb_inner m)\<rparr>)"

definition st_bounds_1d ::
    "f64 list \<Rightarrow> f64 list option \<Rightarrow> TrustRegionState \<Rightarrow> TrustRegionError + (f64 list \<times> f64 list)" where
  "st_bounds_1d center ls s = turbo_bounds_1d center ls (inner_region s)"

definition st_needs_restart :: "TrustRegionState \<Rightarrow> bool" where
  "st_needs_restart s = turbo_needs_restart (inner_region s)"

fun st_restart :: "'r rng_env \<Rightarrow> TrustRegionState \<times> 'r \<Rightarrow> TrustRegionState \<times> 'r" where
  "st_restart env (Turbo t, rng) = (Turbo (turbo_restart t), rng)"
| "st_restart env (Morbo m, rng) = (let (m1, g) = morbo_restart env (Some rng) m in (Morbo m1, the g))"

fun resample_on_propose :: "'r rng_env \<Rightarrow> TrustRegionState \<times> 'r \<Rightarrow> TrustRegionState \<times> 'r" where
  "resample_on_propose env (Turbo t, rng) = (Turbo t, rng)"
| "resample_on_propose env (Morbo m, rng) =
     (if mb_rescalarize m = OnPropose then (let (m1, g) = resample_weights env (m, rng) in (Morbo m1, g)) else (Morbo m, rng))"

fun st_num_metrics :: "TrustRegionState \<Rightarrow> nat" where
  "st_num_metrics (Turbo _) = 1"
| "st_num_metrics (Morbo m) = mb_num_metrics m"

fun st_scalarize :: "nat \<times> f64 list list \<Rightarrow> bool \<Rightarrow> TrustRegionState \<Rightarrow> TrustRegionError + f64 list" where
  "st_scalarize y clip (Morbo m) = morbo_scalarize y clip m"
| "st_scalarize y clip (Turbo _) = Inl TRInvalidState"

text \<open>The \<open>ENNError\<close> an error becomes: a panic stays one, the others are \<open>InvalidParameter\<close>.\<close>

definition morbo_only ::
    "(MorboTrustRegion \<Rightarrow> (TrustRegionError + unit) \<times> MorboTrustRegion) \<Rightarrow> TrustRegionError + unit
      \<Rightarrow> TrustRegionState \<Rightarrow> (TrustRegionError + unit) \<times> TrustRegionState" where
  "morbo_only f other s =
     (case s of Morbo m \<Rightarrow> (let (r, m1) = f m in (case r of Inl TRPanic \<Rightarrow> Inl TRPanic | Inl _ \<Rightarrow> Inl TRInvalidParameter | Inr u \<Rightarrow> Inr u, Morbo m1))
      | Turbo _ \<Rightarrow> (other, s))"

definition morbo_update_ranges_only ::
    "nat \<times> f64 list list \<Rightarrow> TrustRegionState \<Rightarrow> (TrustRegionError + unit) \<times> TrustRegionState" where
  "morbo_update_ranges_only y = morbo_only (update_ranges_incremental y) (Inl TRInvalidParameter)"

definition morbo_update_incumbent_only ::
    "f64 list \<Rightarrow> nat \<Rightarrow> TrustRegionState \<Rightarrow> (TrustRegionError + unit) \<times> TrustRegionState" where
  "morbo_update_incumbent_only y n = morbo_only (update_incumbent_only y n) (Inl TRInvalidParameter)"

definition morbo_rescalarize_incumbent :: "nat \<Rightarrow> TrustRegionState \<Rightarrow> (TrustRegionError + unit) \<times> TrustRegionState" where
  "morbo_rescalarize_incumbent n = morbo_only (rescalarize_incumbent_under_weights n) (Inr ())"

definition turbo_tell ::
    "(f64 list \<Rightarrow> TurboTrustRegion \<Rightarrow> TrustRegionError + TurboTrustRegion) \<Rightarrow> nat \<times> f64 list list \<Rightarrow> f64 list
      \<Rightarrow> TurboTrustRegion \<Rightarrow> (TrustRegionError + unit) \<times> TrustRegionState" where
  "turbo_tell f y v t =
     (if fst y \<noteq> 1 \<or> length v \<noteq> 1 then (Inl TRInvalidParameter, Turbo t)
      else case f (map hd (snd y)) t of Inl e \<Rightarrow> (Inl TRInvalidParameter, Turbo t) | Inr t1 \<Rightarrow> (Inr (), Turbo t1))"

definition st_tell_update ::
    "nat \<times> f64 list list \<Rightarrow> f64 list \<Rightarrow> nat \<Rightarrow> TrustRegionState \<Rightarrow> (TrustRegionError + unit) \<times> TrustRegionState" where
  "st_tell_update y v num_obs s =
     (case s of Turbo t \<Rightarrow> turbo_tell (\<lambda>ys. update_with_incumbent ys num_obs (hd v)) y v t
      | Morbo m \<Rightarrow> morbo_only (morbo_update y v) (Inr ()) s)"

definition st_tell_update_new_batch ::
    "nat \<times> f64 list list \<Rightarrow> f64 list \<Rightarrow> nat \<Rightarrow> TrustRegionState \<Rightarrow> (TrustRegionError + unit) \<times> TrustRegionState" where
  "st_tell_update_new_batch y v num_obs s =
     (case s of Turbo t \<Rightarrow> turbo_tell (\<lambda>ys. update_with_incumbent_new_batch ys num_obs (hd v)) y v t
      | Morbo m \<Rightarrow> morbo_only (morbo_update y v) (Inr ()) s)"

end
