(* ===== verification/MorboLaws.thy ===== *)
theory MorboLaws
  imports MorboRegion
begin

text \<open>
  Properties of the multi-objective trust region: the ranges kept batch by batch are the ranges of
  all rows told, and the scalarisation respects dominance.
\<close>

section \<open>Ranges told in batches\<close>

lemma length_extend_ranges:
  "length lo = n \<Longrightarrow> length hi = n \<Longrightarrow> \<forall>r\<in>set rows. n \<le> length r \<Longrightarrow>
   length (fst (extend_ranges n rows (lo, hi))) = n \<and> length (snd (extend_ranges n rows (lo, hi))) = n"
  by (induction rows arbitrary: lo hi) (simp_all add: extend_ranges_def)

lemma extend_ranges_columns:
  "length lo = n \<Longrightarrow> length hi = n \<Longrightarrow> \<forall>r\<in>set rows. n \<le> length r \<Longrightarrow>
   extend_ranges n rows (lo, hi) =
     (map (\<lambda>m. foldl (\<lambda>acc row. lower acc (row ! m)) (lo ! m) rows) [0..<n],
      map (\<lambda>m. foldl (\<lambda>acc row. raise_to acc (row ! m)) (hi ! m) rows) [0..<n])"
proof (induction rows arbitrary: lo hi)
  case Nil
  then show ?case using map_nth [of lo] map_nth [of hi] by (simp add: extend_ranges_def)
next
  case (Cons r rows)
  let ?lo = "map2 lower lo (take n r)" and ?hi = "map2 raise_to hi (take n r)"
  have "extend_ranges n (r # rows) (lo, hi) = extend_ranges n rows (?lo, ?hi)" by (simp add: extend_ranges_def)
  also have "\<dots> = (map (\<lambda>m. foldl (\<lambda>acc row. lower acc (row ! m)) (?lo ! m) rows) [0..<n],
      map (\<lambda>m. foldl (\<lambda>acc row. raise_to acc (row ! m)) (?hi ! m) rows) [0..<n])"
    using Cons.prems by (intro Cons.IH) simp_all
  finally show ?case using Cons.prems by simp
qed

lemma extend_ranges_append: "extend_ranges n (xs @ ys) p = extend_ranges n ys (extend_ranges n xs p)"
  by (cases p) (simp add: extend_ranges_def split_def)

text \<open>The extremes an operation starts from, as the incremental update reads them.\<close>

definition known_ranges :: "MorboTrustRegion \<Rightarrow> f64 list \<times> f64 list" where
  "known_ranges m = (case (mb_y_min m, mb_y_max m) of (Some lo, Some hi) \<Rightarrow> (lo, hi) | _ \<Rightarrow> fresh_ranges (mb_num_metrics m))"

definition tell_ranges :: "nat \<Rightarrow> f64 list list list \<Rightarrow> MorboTrustRegion \<Rightarrow> MorboTrustRegion" where
  "tell_ranges cols batches m = foldl (\<lambda>m b. snd (update_ranges_incremental (cols, b) m)) m batches"

lemma tell_ranges_step:
  assumes "mb_num_metrics m \<le> cols"
  shows "update_ranges_incremental (cols, b) m =
    (Inr (), if b = [] then m
             else m\<lparr>mb_y_min := Some (fst (extend_ranges (mb_num_metrics m) b (known_ranges m))),
                    mb_y_max := Some (snd (extend_ranges (mb_num_metrics m) b (known_ranges m)))\<rparr>)"
  using assms by (simp add: update_ranges_incremental_def known_ranges_def split_def Let_def)

lemma tell_ranges_known:
  assumes "mb_num_metrics m \<le> cols"
  shows "mb_num_metrics (tell_ranges cols batches m) = mb_num_metrics m"
    "known_ranges (tell_ranges cols batches m) = extend_ranges (mb_num_metrics m) (concat batches) (known_ranges m)"
    "concat batches = [] \<Longrightarrow> tell_ranges cols batches m = m"
    "concat batches \<noteq> [] \<Longrightarrow> mb_y_min (tell_ranges cols batches m) \<noteq> None \<and> mb_y_max (tell_ranges cols batches m) \<noteq> None"
proof (induction batches rule: rev_induct)
  case Nil
  { case 1 then show ?case by (simp add: tell_ranges_def) }
  { case 2 then show ?case by (simp add: tell_ranges_def extend_ranges_def split_def) }
  { case 3 then show ?case by (simp add: tell_ranges_def) }
  { case 4 then show ?case by simp }
next
  case (snoc b batches)
  have step: "tell_ranges cols (batches @ [b]) m = snd (update_ranges_incremental (cols, b) (tell_ranges cols batches m))"
    by (simp add: tell_ranges_def)
  have "mb_num_metrics (tell_ranges cols batches m) \<le> cols" using snoc.IH(1) assms by simp
  note step = step [unfolded tell_ranges_step [OF this] snd_conv]
  { case 1 then show ?case using snoc.IH(1) by (simp add: step) }
  { case 2 show ?case using snoc.IH(1,2) unfolding step
      by (cases b) (simp_all add: extend_ranges_append known_ranges_def) }
  { case 3 then show ?case using snoc.IH(3) unfolding step by simp }
  { case 4 then show ?case using snoc.IH(4) unfolding step by (cases b) simp_all }
qed

text \<open>
  Telling the rows batch by batch never fails, and after at least one row the ranges kept are those
  that scanning every row told, metric by metric, gives: the same values that the full update
  computes. NaN measurements are skipped by both.
\<close>

theorem ranges_in_batches_are_full_scan:
  assumes "mb_y_min m = None" "mb_num_metrics m \<le> cols" "\<forall>r\<in>set (concat batches). length r = cols" "concat batches \<noteq> []"
  shows "fst (update_ranges_incremental (cols, b) (tell_ranges cols batches m)) = Inr ()
    \<and> mb_y_min (tell_ranges cols batches m) = Some (fst (column_ranges (mb_num_metrics m) (concat batches)))
    \<and> mb_y_max (tell_ranges cols batches m) = Some (snd (column_ranges (mb_num_metrics m) (concat batches)))"
proof -
  note told = tell_ranges_known [OF assms(2), of batches]
  obtain lo hi where known: "mb_y_min (tell_ranges cols batches m) = Some lo" "mb_y_max (tell_ranges cols batches m) = Some hi"
    using told(4) assms(4) by blast
  have "(lo, hi) = extend_ranges (mb_num_metrics m) (concat batches) (fresh_ranges (mb_num_metrics m))"
    using told(2) assms(1) known by (simp add: known_ranges_def)
  also have "\<dots> = column_ranges (mb_num_metrics m) (concat batches)"
    unfolding fresh_ranges_def column_ranges_def using assms(2,3) by (subst extend_ranges_columns) auto
  finally show ?thesis
    using tell_ranges_step [of "tell_ranges cols batches m" cols b] told(1) known assms(2) by (metis fst_conv snd_conv)
qed

section \<open>The scalarisation respects dominance\<close>

lemma fdiv_key:
  fixes a b :: f64
  assumes "\<not> is_nan a" "is_finite b" "flt fzero b"
  shows "\<not> is_nan (fdiv a b)" "is_inf a \<Longrightarrow> fkey (fdiv a b) = fkey a"
proof -
  have "0 < fkey b" using assms(3) by (simp add: flt_def)
  then have b: "\<not> is_nan b" "\<not> is_inf b" "\<not> sign_neg b" "mag b \<noteq> 0"
    using finite_not_special [OF assms(2)] by (auto simp: fkey_def split: if_splits)
  show "is_inf a \<Longrightarrow> fkey (fdiv a b) = fkey a"
    using assms(1) b by (simp add: fdiv_def fkey_mk_float) (simp add: fkey_def is_inf_def)
  show "\<not> is_nan (fdiv a b)"
  proof (cases "is_inf a")
    case True
    then show ?thesis using assms(1) b by (simp add: fdiv_def mk_float_not_nan Let_def)
  next
    case False
    then show ?thesis using assms(1,2) fdiv_finite(1) \<open>0 < fkey b\<close> not_nan_cases by blast
  qed
qed

lemma fdiv_mono_top:
  fixes a b d :: f64
  assumes "fle a b" "is_finite d" "flt fzero d"
  shows "fle (fdiv a d) (fdiv b d)"
proof -
  have nn: "\<not> is_nan a" "\<not> is_nan b" "fkey a \<le> fkey b" using assms(1) by (simp_all add: fle_def)
  note da = fdiv_key [OF nn(1) assms(2,3)] and db = fdiv_key [OF nn(2) assms(2,3)]
  consider "is_finite a" "is_finite b" | "fkey a = - int (inf_mag 64)" | "fkey b = int (inf_mag 64)"
    using nn inf_keys [of a] inf_keys [of b] fkey_bounds [OF nn(1)] fkey_bounds [OF nn(2)] by (fastforce simp: not_nan_cases)
  then show ?thesis
  proof cases
    case 1
    then show ?thesis using fdiv_mono [OF _ _ assms(2,1,3)] by blast
  next
    case 2
    then have "fkey (fdiv a d) = - int (inf_mag 64)" using da(2) inf_keys(2) [of a] by simp
    then show ?thesis using da(1) db(1) fkey_bounds [OF db(1)] by (simp add: fle_def)
  next
    case 3
    then have "fkey (fdiv b d) = int (inf_mag 64)" using db(2) inf_keys(1) [of b] by simp
    then show ?thesis using da(1) db(1) fkey_bounds [OF da(1)] by (simp add: fle_def)
  qed
qed

lemma fmul_pos_mono:
  fixes a b c :: f64
  assumes "is_finite c" "flt fzero c" "fle fzero a" "fle a b"
  shows "fle (fmul c a) (fmul c b)" "fle fzero (fmul c a)"
proof -
  have "0 < fkey c" "fle fzero c" using assms(2) by (simp_all add: fcmp_defs)
  then have c: "\<not> is_nan c" "\<not> is_inf c" "\<not> sign_neg c" "mag c \<noteq> 0" "fle fzero c"
    using finite_not_special [OF assms(1)] by (auto simp: fkey_def split: if_splits)
  have nonneg: "\<not> is_nan x" "0 \<le> fkey x" "is_inf x \<longleftrightarrow> \<not> is_finite x" if "fle fzero x" for x :: f64
    using that finite_not_special [of x] by (auto simp: fle_def not_nan_cases)
  have top: "fkey (fmul c x) = int (inf_mag 64) \<and> \<not> is_nan (fmul c x)" if "fle fzero x" "is_inf x" for x
    using nonneg [OF that(1)] nonneg_inf [OF that] that(2) c
    by (simp add: fmul_def mk_float_not_nan fkey_mk_float) (simp add: is_inf_def float_layout)
  have b: "fle fzero b" using fle_trans assms(3,4) by blast
  have pos: "fle fzero (fmul c x)" if "fle fzero x" for x
    using fmul_nonneg [OF assms(1) _ c(5) that] top [OF that] nonneg [OF that] by (cases "is_finite x") (auto simp: fle_def)
  show "fle fzero (fmul c a)" by (rule pos [OF assms(3)])
  show "fle (fmul c a) (fmul c b)"
  proof (cases "is_finite b")
    case False
    then have "fkey (fmul c b) = int (inf_mag 64)" using top b nonneg(3) [OF b] by blast
    then show ?thesis using pos [OF assms(3)] pos [OF b] fkey_bounds [of "fmul c a"] by (simp add: fle_def)
  next
    case True
    have "fkey a \<le> fkey b" "0 \<le> fkey a" using assms(4) nonneg(2) [OF assms(3)] by (simp_all add: fle_def)
    then have a: "is_finite a" using True by (simp add: finite_iff_key)
    have "fval c * fval a \<le> fval c * fval b"
      using c(5) \<open>fkey a \<le> fkey b\<close> fval_le_iff [of a b] by (intro mult_left_mono) (simp_all add: fle_def fval_sign_iff)
    then have "srnd 64 (fval c * fval a) (2 ^ 1074) \<le> srnd 64 (fval c * fval b) (2 ^ 1074)"
      by (intro srnd_mono mult_right_mono [where c = "int (2 ^ 1074)"]) simp_all
    then show ?thesis using fmul_finite [OF assms(1) a] fmul_finite [OF assms(1) True] by (simp add: fle_def unit_exp_def)
  qed
qed

text \<open>One metric: its unit score lies in the unit interval and grows with the measurement.\<close>

lemma unit_score_range:
  assumes "is_finite v" "is_finite lo" "is_finite (fsub hi lo)"
  shows "fle fzero (unit_score True lo hi v)" "is_finite (unit_score True lo hi v)"
proof -
  let ?d = "fsub hi lo"
  have "in_unit (unit_score True lo hi v)"
  proof (cases "fle ?d fzero")
    case True
    then show ?thesis by (simp add: unit_score_def in_unit_def fle_def sample_keys)
  next
    case False
    then have "flt fzero ?d" using finite_not_special [OF assms(3)] by (auto simp: fcmp_defs)
    then have "\<not> is_nan (fdiv (fsub v lo) ?d)"
      using fdiv_key(1) fsub_finite(1) assms by blast
    from clip_unit_range [OF this] show ?thesis using False by (simp add: unit_score_def clip_unit_def)
  qed
  then show "fle fzero (unit_score True lo hi v)" "is_finite (unit_score True lo hi v)"
    using in_unit_finite by (auto simp: in_unit_def)
qed

lemma unit_score_mono:
  assumes "fle v w" "is_finite v" "is_finite w" "is_finite lo" "is_finite (fsub hi lo)"
  shows "fle (unit_score True lo hi v) (unit_score True lo hi w)"
proof (cases "fle (fsub hi lo) fzero")
  case True
  then show ?thesis using unit_score_range(1) [OF assms(2,4,5)] by (simp add: unit_score_def fle_def)
next
  case False
  then have "flt fzero (fsub hi lo)" using finite_not_special [OF assms(5)] by (auto simp: fcmp_defs)
  then have "fle (fdiv (fsub v lo) (fsub hi lo)) (fdiv (fsub w lo) (fsub hi lo))"
    using fdiv_mono_top [OF fsub_mono [OF assms(2-4,1)] assms(5)] by blast
  moreover have "fle (fzero :: f64) (flit 1 1)" by (rule flit_nonneg)
  ultimately show ?thesis using False by (simp add: unit_score_def fclamp_mono)
qed

lemma terms_mono:
  fixes us vs ws :: "f64 list"
  assumes "list_all2 fle us vs" "list_all (\<lambda>x. is_finite x \<and> fle fzero x) us" "list_all is_finite vs"
    "list_all (\<lambda>w. is_finite w \<and> fle fzero w) ws" "length ws = length us"
  shows "list_all2 fle (map2 fmul us ws) (map2 fmul vs ws) \<and> list_all (fle fzero) (map2 fmul us ws)"
  using assms(5,1-4)
proof (induction ws us arbitrary: vs rule: list_induct2)
  case (Cons w ws u us)
  then obtain v vs' where vs: "vs = v # vs'" "fle u v" "list_all2 fle us vs'" by (auto simp: list_all2_Cons1)
  then have "fle (fmul u w) (fmul v w)" "fle fzero (fmul u w)"
    using Cons.prems by (simp_all add: fmul_mono fmul_nonneg)
  then show ?case using Cons.IH [OF vs(3)] Cons.prems vs by simp
qed simp

lemma folds_mono:
  fixes us vs :: "f64 list"
  assumes "list_all2 fle us vs" "fle acc acc'"
  shows "fle (foldl fmin acc us) (foldl fmin acc' vs)"
    and "list_all (fle fzero) us \<Longrightarrow> fle fzero acc \<Longrightarrow>
      fle (foldl fadd acc us) (foldl fadd acc' vs) \<and> fle fzero (foldl fadd acc us)"
  using assms
proof (induction us vs arbitrary: acc acc' rule: list_all2_induct)
  case (Cons u us v vs)
  { case 1 show ?case using Cons.IH(1) [OF fmin_mono [OF 1(1) Cons.hyps(1)]] by simp }
  { case 2
    have nn: "fle fzero acc'" "fle fzero v" using 2 Cons.hyps(1) fle_trans by auto
    then have sums: "\<not> is_nan (fadd acc u)" "\<not> is_nan (fadd acc' v)" using 2(1,2) by (simp_all add: fadd_nonneg_not_nan)
    have "fle fzero (fadd acc u)" using fadd_ge [OF _ sums(1)] 2(1,2) fle_trans by auto
    then show ?case using Cons.IH(2) [OF _ _ fadd_mono [OF 2(3) Cons.hyps(1) sums]] 2(1) \<open>fle fzero (fadd acc u)\<close> by simp }
qed simp_all

lemma fmin_nonneg: "fle fzero acc \<Longrightarrow> list_all (fle fzero) us \<Longrightarrow> fle fzero (foldl fmin acc us)"
  by (induction us arbitrary: acc) (auto simp: fmin_def fcmp_defs)

lemma row_score_mono:
  fixes us vs ws :: "f64 list"
  assumes "list_all2 fle us vs" "list_all (\<lambda>x. is_finite x \<and> fle fzero x) us" "list_all is_finite vs"
    "list_all (\<lambda>w. is_finite w \<and> fle fzero w) ws" "length ws = length us" "is_finite alpha" "flt fzero alpha"
  shows "fle (fadd (foldl fmin infinity (map2 fmul us ws)) (fmul alpha (foldl fadd fzero (map2 fmul us ws))))
     (fadd (foldl fmin infinity (map2 fmul vs ws)) (fmul alpha (foldl fadd fzero (map2 fmul vs ws))))"
proof -
  let ?ts = "map2 fmul us ws" and ?us = "map2 fmul vs ws"
  have top: "fle (infinity :: f64) infinity" "fle fzero (infinity :: f64)" "fle (fzero :: f64) fzero" by (simp_all add: fle_def infinity_def fkey_mk_float mk_float_not_nan float_layout)
  have terms: "list_all2 fle ?ts ?us" "list_all (fle fzero) ?ts" using terms_mono [OF assms(1-5)] by simp_all
  then have mins: "fle (foldl fmin infinity ?ts) (foldl fmin infinity ?us)" "fle fzero (foldl fmin infinity ?ts)"
    using folds_mono(1) [OF _ top(1)] fmin_nonneg [OF top(2)] by blast+
  have sums: "fle (foldl fadd fzero ?ts) (foldl fadd fzero ?us)" "fle fzero (foldl fadd fzero ?ts)"
    using folds_mono(2) [OF terms(1) top(3) terms(2) top(3)] by blast+
  note scaled = fmul_pos_mono [OF assms(6,7) sums(2,1)]
  note fadd_nonneg_not_nan [OF mins(2) scaled(2)]
    and fadd_nonneg_not_nan [OF fle_trans [OF mins(2,1)] fle_trans [OF scaled(2,1)]]
  then show ?thesis by (rule fadd_mono [OF mins(1) scaled(1)])
qed

definition unit_scores :: "f64 list \<Rightarrow> f64 list \<Rightarrow> f64 list \<Rightarrow> f64 list" where
  "unit_scores lo hi row = map2 (\<lambda>(lo, hi) v. unit_score True lo hi v) (zip lo hi) row"

text \<open>
  The scalarisation respects dominance: with finite ranges of representable width, finite weights
  that are not negative and a positive finite alpha, a row that is at least as good as another in
  every metric is scored at least as high, rounding and clipping included, and neither score is NaN.
\<close>

theorem dominance_never_lowers_score:
  assumes "length a = n" "length lo = n" "length hi = n" "length weights = n" "list_all2 fle a b"
    and "list_all is_finite a" "list_all is_finite b" "list_all is_finite lo" "list_all is_finite (map2 fsub hi lo)"
    and "list_all (\<lambda>w. is_finite w \<and> fle fzero w) weights" "is_finite alpha" "flt fzero alpha"
  shows "\<exists>sa sb. scalarize_with_ranges (n, [a, b]) lo hi weights alpha n True = Inr [sa, sb] \<and> fle sa sb"
proof -
  have len: "length b = n" using assms(1,5) list_all2_lengthD by fastforce
  have fin: "is_finite (a ! i)" "is_finite (b ! i)" "is_finite (lo ! i)" "is_finite (fsub (hi ! i) (lo ! i))" "fle (a ! i) (b ! i)"
    if "i < n" for i using that assms(1-9) len by (auto simp: list_all_length list_all2_conv_all_nth)
  have "list_all2 fle (unit_scores lo hi a) (unit_scores lo hi b)"
    using assms(1-3) len fin by (auto simp: unit_scores_def list_all2_conv_all_nth intro!: unit_score_mono)
  moreover have "list_all (\<lambda>x. is_finite x \<and> fle fzero x) (unit_scores lo hi a)" "list_all is_finite (unit_scores lo hi b)"
    using assms(1-3) len fin unit_score_range by (auto simp: unit_scores_def list_all_length)
  moreover have "length weights = length (unit_scores lo hi a)" using assms(1-4) by (simp add: unit_scores_def)
  ultimately have "fle (row_score True lo hi weights alpha a) (row_score True lo hi weights alpha b)"
    using row_score_mono [OF _ _ _ assms(10) _ assms(11,12)] by (simp add: row_score_def unit_scores_def Let_def)
  then show ?thesis using assms(2-4) by (simp add: scalarize_with_ranges_def)
qed

section \<open>Instances\<close>

definition sample_morbo :: MorboTrustRegion where
  "sample_morbo = \<lparr>mb_inner = turbo_new 1 unit_lengths, mb_num_metrics = 2, mb_alpha = half64, mb_rescalarize = OnRestart,
     mb_noise_aware = False, mb_weights = [one64, one64], mb_y_min = None, mb_y_max = None, incumbent_y_raw = None\<rparr>"

theorem ranges_in_batches_are_full_scan_witness:
  "fst (update_ranges_incremental (2, []) (tell_ranges 2 [[[one64, two64]], [[two64, one64], [one64, one64]]] sample_morbo)) = Inr ()"
  using ranges_in_batches_are_full_scan [of sample_morbo 2 "[[[one64, two64]], [[two64, one64], [one64, one64]]]" "[]"]
  by (simp add: sample_morbo_def)

lemma sample_order: "fle one64 two64" "fle one64 one64" "flt fzero one64" "fle fzero one64"
  by (simp_all add: fcmp_defs sample_keys)

lemma unit_width: "is_finite (fsub two64 one64)"
proof -
  have "fval one64 = 2 ^ 1074" using sample_units sample_signs by (simp add: fval_def)
  moreover have "(2 :: int) ^ 1075 = 2 * 2 ^ 1074" by (rule power_Suc [of 2 1074, simplified add_Suc_right, simplified])
  ultimately have "fval two64 - fval one64 = fval one64" by (simp only: fval_half)
  then have "fkey (fsub two64 one64) = fkey one64"
    using fsub_finite(2) [OF sample_finite(2,1)] srnd_fval [OF sample_finite(1)] by simp
  then show ?thesis using sample_finite(1) by (simp only: finite_iff_key)
qed

theorem dominance_never_lowers_score_witness:
  "\<exists>sa sb. scalarize_with_ranges (2, [[one64, one64], [one64, two64]]) [one64, one64] [two64, two64] [one64, one64] one64 2 True
     = Inr [sa, sb] \<and> fle sa sb"
  using dominance_never_lowers_score [of "[one64, one64]" 2 "[one64, one64]" "[two64, two64]" "[one64, one64]" "[one64, two64]" one64]
  by (simp add: sample_order sample_finite unit_width)

end
