(* ===== verification/MultiRegion.thy ===== *)
theory MultiRegion
  imports TrustRegion
begin

text \<open>
  Several trust regions side by side (\<open>rust/crates/ennx/src/optimizer/multi_tr.rs\<close>): their
  centres, lengths, incumbents and counters in parallel arrays, the division of a candidate budget
  among the active regions, the choice of arms among scored candidates, and the update after a
  batch of observations.

  The logarithm, the random source and the mean of an array are parameters. Trial counters are
  natural numbers (a \<open>u64\<close> in the source), success and failure counters integers (\<open>i32\<close>).
\<close>

datatype SharingPolicy = Shared | NearestCenter | Independent

record MultiTrustRegionConfig =
  mc_num_regions :: nat
  mc_length :: TRLengthConfig
  mc_succ_tolerance :: int
  mc_fail_tolerance :: int
  mc_policy :: SharingPolicy
  mc_exploration :: f64
  mc_min_seed_distance :: f64

definition multi_config :: "nat \<Rightarrow> TRLengthConfig \<Rightarrow> MultiTrustRegionConfig" where
  "multi_config n len = \<lparr>mc_num_regions = n, mc_length = len, mc_succ_tolerance = 3, mc_fail_tolerance = 5,
     mc_policy = Shared, mc_exploration = flit 1 1, mc_min_seed_distance = fzero\<rparr>"

record RegionBatch =
  rb_region :: nat
  rb_start :: nat
  rb_len :: nat

record RegionCandidate =
  rc_index :: nat
  rc_region :: nat
  rc_seed :: u64
  rc_score :: f64

record MultiTrustRegionState =
  ms_num_regions :: nat
  ms_num_dim :: nat
  ms_centers :: "f64 list list"
  ms_lengths :: "f64 list"
  ms_incumbents :: "f64 list"
  ms_succ :: "int list"
  ms_fail :: "int list"
  ms_active :: "bool list"
  ms_trials :: "nat list"
  ms_mean :: "f64 list"
  ms_m2 :: "f64 list"
  ms_config :: MultiTrustRegionConfig

section \<open>A new state\<close>

fun draw_units :: "('r \<Rightarrow> f64 \<times> 'r) \<Rightarrow> nat \<Rightarrow> 'r \<Rightarrow> f64 list \<times> 'r" where
  "draw_units gen 0 rng = ([], rng)"
| "draw_units gen (Suc n) rng =
     (let (x, rng1) = gen rng; (xs, rng2) = draw_units gen n rng1 in (x # xs, rng2))"

fun draw_centers :: "('r \<Rightarrow> f64 \<times> 'r) \<Rightarrow> nat \<Rightarrow> nat \<Rightarrow> 'r \<Rightarrow> f64 list list \<times> 'r" where
  "draw_centers gen 0 dim rng = ([], rng)"
| "draw_centers gen (Suc n) dim rng =
     (let (c, rng1) = draw_units gen dim rng; (cs, rng2) = draw_centers gen n dim rng1 in (c # cs, rng2))"

definition fresh_state :: "nat \<Rightarrow> MultiTrustRegionConfig \<Rightarrow> f64 list list \<Rightarrow> MultiTrustRegionState" where
  "fresh_state num_dim config centers =
     (let n = mc_num_regions config in
      \<lparr>ms_num_regions = n, ms_num_dim = num_dim, ms_centers = centers,
       ms_lengths = replicate n (length_init (mc_length config)), ms_incumbents = replicate n neg_infinity,
       ms_succ = replicate n 0, ms_fail = replicate n 0, ms_active = replicate n True, ms_trials = replicate n 0,
       ms_mean = replicate n fzero, ms_m2 = replicate n fzero, ms_config = config\<rparr>)"

text \<open>Given centres are an array: its column count and its rows.\<close>

definition multi_new ::
    "('r \<Rightarrow> f64 \<times> 'r) \<Rightarrow> nat \<Rightarrow> MultiTrustRegionConfig \<Rightarrow> (nat \<times> f64 list list) option \<Rightarrow> 'r
      \<Rightarrow> TrustRegionError + (MultiTrustRegionState \<times> 'r)" where
  "multi_new gen num_dim config init rng =
     (if mc_num_regions config = 0 then Inl TRInvalidParameter
      else if \<not> is_finite (mc_exploration config) \<or> flt (mc_exploration config) fzero then Inl TRInvalidParameter
      else if \<not> is_finite (mc_min_seed_distance config) \<or>
          \<not> (fle fzero (mc_min_seed_distance config) \<and> fle (mc_min_seed_distance config) (flit 1 1))
      then Inl TRInvalidParameter
      else case init of
          Some (cols, rows) \<Rightarrow>
            if length rows \<noteq> mc_num_regions config \<or> cols \<noteq> num_dim then Inl TRInvalidParameter
            else Inr (fresh_state num_dim config rows, rng)
        | None \<Rightarrow>
            (let (centers, rng1) = draw_centers gen (mc_num_regions config) num_dim rng
             in Inr (fresh_state num_dim config centers, rng1)))"

definition active_count :: "MultiTrustRegionState \<Rightarrow> nat" where
  "active_count s = length (filter id (ms_active s))"

section \<open>Dividing a budget\<close>

definition active_regions :: "MultiTrustRegionState \<Rightarrow> nat list" where
  "active_regions s = filter ((!) (ms_active s)) [0..<length (ms_active s)]"

definition priority :: "(f64 \<Rightarrow> f64) \<Rightarrow> MultiTrustRegionState \<Rightarrow> nat \<Rightarrow> nat \<Rightarrow> f64 \<Rightarrow> f64 \<Rightarrow> f64" where
  "priority ln s region queued trials_total utility =
     (let effective = fadd (flit (ms_trials s ! region) 1) (flit queued 1);
          uncertainty = fsqrt (fdiv (ln (fadd (fadd trials_total (flit (ms_num_regions s) 1)) (flit 1 1))) effective)
      in fadd utility (fmul (mc_exploration (ms_config s)) uncertainty))"

text \<open>The order of \<open>sort_by\<close>: larger priorities first, ties by region; and of \<open>max_by\<close>, whose
  maximum is the first in that order.\<close>

definition preferred :: "(nat \<Rightarrow> f64) \<Rightarrow> nat \<Rightarrow> nat \<Rightarrow> bool" where
  "preferred p a b \<longleftrightarrow> total_key (p b) < total_key (p a) \<or> total_key (p a) = total_key (p b) \<and> a \<le> b"

definition most_preferred :: "(nat \<Rightarrow> f64) \<Rightarrow> nat list \<Rightarrow> nat" where
  "most_preferred p rs = foldl (\<lambda>acc r. if preferred p acc r then acc else r) (hd rs) (tl rs)"

fun grow_counts ::
    "(f64 \<Rightarrow> f64) \<Rightarrow> MultiTrustRegionState \<Rightarrow> nat list \<Rightarrow> f64 \<Rightarrow> f64 list \<Rightarrow> nat \<Rightarrow> nat list \<Rightarrow> nat list" where
  "grow_counts ln s active trials utility 0 counts = counts"
| "grow_counts ln s active trials utility (Suc k) counts =
     (let r = most_preferred (\<lambda>a. priority ln s a (counts ! a) trials (utility ! a)) active
      in grow_counts ln s active trials utility k (counts[r := counts ! r + 1]))"

fun batches_from :: "nat \<Rightarrow> (nat \<times> nat) list \<Rightarrow> RegionBatch list" where
  "batches_from start [] = []"
| "batches_from start ((r, len) # rest) = \<lparr>rb_region = r, rb_start = start, rb_len = len\<rparr> # batches_from (start + len) rest"

definition allocate_with ::
    "(f64 \<Rightarrow> f64) \<Rightarrow> nat \<Rightarrow> f64 list \<Rightarrow> MultiTrustRegionState \<Rightarrow> TrustRegionError + RegionBatch list" where
  "allocate_with ln budget utility s =
     (if length utility \<noteq> ms_num_regions s \<or> (\<exists>v\<in>set utility. \<not> is_finite v) then Inl TRInvalidParameter
      else let active = active_regions s in
        if active = [] then Inl TRInvalidState
        else if budget = 0 then Inl TRInvalidParameter
        else let trials = flit (max (sum_list (ms_trials s)) 1) 1 in
          if budget < length active
          then Inr (batches_from 0 (map (\<lambda>r. (r, 1))
                 (take budget (sort_le (preferred (\<lambda>a. priority ln s a 0 trials (utility ! a))) active))))
          else let counts = grow_counts ln s active trials utility (budget - length active) (replicate (ms_num_regions s) 1)
            in Inr (batches_from 0 (map (\<lambda>r. (r, counts ! r)) active)))"

definition allocate :: "(f64 \<Rightarrow> f64) \<Rightarrow> nat \<Rightarrow> MultiTrustRegionState \<Rightarrow> TrustRegionError + RegionBatch list" where
  "allocate ln budget s = allocate_with ln budget (ms_mean s) s"

definition region_variance :: "nat \<Rightarrow> MultiTrustRegionState \<Rightarrow> f64 option" where
  "region_variance r s =
     (if r < length (ms_trials s) \<and> 1 < ms_trials s ! r
      then Some (fdiv (ms_m2 s ! r) (flit (ms_trials s ! r - 1) 1)) else None)"

section \<open>Choosing arms\<close>

definition bit_count64 :: "u64 \<Rightarrow> nat" where
  "bit_count64 w = length (filter (bit w) [0..<64])"

text \<open>Whether two seeds are far enough apart.\<close>

definition seed_distance :: "MultiTrustRegionState \<Rightarrow> u64 \<Rightarrow> u64 \<Rightarrow> bool" where
  "seed_distance s a b \<longleftrightarrow> fle (mc_min_seed_distance (ms_config s)) (fdiv (flit (bit_count64 (a XOR b)) 1) (flit 64 1))"

definition score_order :: "RegionCandidate \<Rightarrow> RegionCandidate \<Rightarrow> bool" where
  "score_order a b \<longleftrightarrow> total_key (rc_score b) < total_key (rc_score a) \<or>
     total_key (rc_score a) = total_key (rc_score b) \<and> rc_index a \<le> rc_index b"

fun take_diverse :: "MultiTrustRegionState \<Rightarrow> nat \<Rightarrow> RegionCandidate list \<Rightarrow> RegionCandidate list \<Rightarrow> RegionCandidate list" where
  "take_diverse s arms selected [] = selected"
| "take_diverse s arms selected (c # cs) =
     (if list_all (\<lambda>d. seed_distance s (rc_seed c) (rc_seed d)) selected
      then (let selected' = selected @ [c] in
        if length selected' = arms then selected' else take_diverse s arms selected' cs)
      else take_diverse s arms selected cs)"

fun fill_up :: "nat \<Rightarrow> RegionCandidate list \<Rightarrow> RegionCandidate list \<Rightarrow> RegionCandidate list" where
  "fill_up arms selected [] = selected"
| "fill_up arms selected (c # cs) =
     (if \<not> list_ex (\<lambda>d. rc_index d = rc_index c) selected
      then (let selected' = selected @ [c] in
        if length selected' = arms then selected' else fill_up arms selected' cs)
      else fill_up arms selected cs)"

definition select_arms ::
    "RegionCandidate list \<Rightarrow> nat \<Rightarrow> MultiTrustRegionState \<Rightarrow> TrustRegionError + RegionCandidate list" where
  "select_arms candidates arms s =
     (if arms = 0 \<or> arms > length candidates then Inl TRInvalidParameter
      else if \<exists>c\<in>set candidates. rc_region c \<ge> ms_num_regions s \<or> \<not> is_finite (rc_score c) then Inl TRInvalidParameter
      else let ranked = sort_le score_order candidates; selected = take_diverse s arms [] ranked
        in Inr (if length selected = arms then selected else fill_up arms selected ranked))"

section \<open>Bounds and acceptance\<close>

definition bound_pair :: "f64 \<Rightarrow> f64 \<Rightarrow> f64 \<times> f64" where
  "bound_pair c half = (clip_unit (fsub c half), clip_unit (fadd c half))"

text \<open>\<open>mean\<close> is the mean of an array, \<open>None\<close> for an empty one. Length scales shorter than the
  dimension panic.\<close>

definition multi_bounds_1d ::
    "(f64 list \<Rightarrow> f64 option) \<Rightarrow> nat \<Rightarrow> f64 list option \<Rightarrow> MultiTrustRegionState \<Rightarrow> TrustRegionError + (f64 list \<times> f64 list)" where
  "multi_bounds_1d mean r lengthscales s =
     (let center = ms_centers s ! r; len = ms_lengths s ! r in
      case lengthscales of
        Some ls \<Rightarrow>
          if length ls < ms_num_dim s then Inl TRPanic
          else let m = (case mean ls of Some v \<Rightarrow> v | None \<Rightarrow> flit 1 1);
                   ps = map (\<lambda>d. bound_pair (center ! d) (fmul (fmul (flit 1 2) len) (fdiv (ls ! d) m))) [0..<ms_num_dim s]
               in Inr (map fst ps, map snd ps)
      | None \<Rightarrow>
          (let ps = map (\<lambda>d. bound_pair (center ! d) (fmul (flit 1 2) len)) [0..<ms_num_dim s]
           in Inr (map fst ps, map snd ps)))"

definition region_box :: "MultiTrustRegionState \<Rightarrow> nat \<Rightarrow> (f64 \<times> f64) list" where
  "region_box s r = map (\<lambda>d. bound_pair (ms_centers s ! r ! d) (fmul (flit 1 2) (ms_lengths s ! r))) [0..<ms_num_dim s]"

definition in_box :: "f64 list \<Rightarrow> (f64 \<times> f64) list \<Rightarrow> bool" where
  "in_box x box = list_all2 (\<lambda>v (lo, hi). fle lo v \<and> fle v hi) x box"

definition distance_to :: "MultiTrustRegionState \<Rightarrow> nat \<Rightarrow> f64 list \<Rightarrow> f64" where
  "distance_to s r x = foldl fadd fzero (map2 (\<lambda>v c. let e = fsub v c in fmul e e) x (ms_centers s ! r))"

definition accepts ::
    "MultiTrustRegionState \<Rightarrow> nat \<Rightarrow> nat \<Rightarrow> f64 list \<Rightarrow> (f64 \<times> f64) list \<Rightarrow> nat list option \<Rightarrow> bool" where
  "accepts s r i x box regions =
     (case mc_policy (ms_config s) of
        Shared \<Rightarrow> in_box x box
      | Independent \<Rightarrow> (case regions of Some ids \<Rightarrow> ids ! i = r | None \<Rightarrow> False)
      | NearestCenter \<Rightarrow>
          list_all (\<lambda>q. fle (distance_to s r x) (distance_to s q x))
            (filter (\<lambda>q. q \<noteq> r \<and> ms_active s ! q) [0..<ms_num_regions s]))"

section \<open>Telling observations\<close>

definition record_trial :: "nat \<Rightarrow> f64 \<Rightarrow> MultiTrustRegionState \<Rightarrow> MultiTrustRegionState" where
  "record_trial r y s =
     (let k = ms_trials s ! r + 1; delta = fsub y (ms_mean s ! r);
          mean = fadd (ms_mean s ! r) (fdiv delta (flit k 1))
      in s\<lparr>ms_trials := (ms_trials s)[r := k], ms_mean := (ms_mean s)[r := mean],
           ms_m2 := (ms_m2 s)[r := fadd (ms_m2 s ! r) (fmul delta (fsub y mean))]\<rparr>)"

text \<open>The scan of a batch for one region: the statistics of the trials it generated, and the best
  observation it accepts above its incumbent.\<close>

fun scan_batch ::
    "nat \<Rightarrow> f64 \<Rightarrow> (f64 \<times> f64) list \<Rightarrow> nat list option \<Rightarrow> (nat \<times> f64 list \<times> f64) list \<Rightarrow> f64 \<times> nat option
      \<Rightarrow> MultiTrustRegionState \<Rightarrow> (f64 \<times> nat option) \<times> MultiTrustRegionState" where
  "scan_batch r current box regions [] best s = (best, s)"
| "scan_batch r current box regions ((i, x, y) # rest) best s =
     (let inside = accepts s r i x box regions;
          s1 = (case regions of Some ids \<Rightarrow> if ids ! i = r then record_trial r y s else s | None \<Rightarrow> s);
          best1 = (if inside \<and> flt current y \<and> flt (fst best) y then (y, Some i) else best)
      in scan_batch r current box regions rest best1 s1)"

definition region_success :: "nat \<Rightarrow> f64 list \<Rightarrow> f64 \<Rightarrow> MultiTrustRegionState \<Rightarrow> MultiTrustRegionState" where
  "region_success r x y s =
     (let s1 = s\<lparr>ms_incumbents := (ms_incumbents s)[r := y], ms_centers := (ms_centers s)[r := x],
                 ms_succ := (ms_succ s)[r := ms_succ s ! r + 1], ms_fail := (ms_fail s)[r := 0]\<rparr>
      in if ms_succ s1 ! r \<ge> mc_succ_tolerance (ms_config s)
         then s1\<lparr>ms_lengths := (ms_lengths s1)[r := fmin (fmul (flit 2 1) (ms_lengths s1 ! r)) (length_max (mc_length (ms_config s)))],
                 ms_succ := (ms_succ s1)[r := 0]\<rparr>
         else s1)"

definition region_failure :: "nat \<Rightarrow> MultiTrustRegionState \<Rightarrow> MultiTrustRegionState" where
  "region_failure r s =
     (let s1 = s\<lparr>ms_succ := (ms_succ s)[r := 0], ms_fail := (ms_fail s)[r := ms_fail s ! r + 1]\<rparr>
      in if ms_fail s1 ! r \<ge> mc_fail_tolerance (ms_config s)
         then (let len = fmul (ms_lengths s1 ! r) (flit 1 2);
                   s2 = s1\<lparr>ms_lengths := (ms_lengths s1)[r := len], ms_fail := (ms_fail s1)[r := 0]\<rparr>
               in if flt len (length_min (mc_length (ms_config s))) then s2\<lparr>ms_active := (ms_active s2)[r := False]\<rparr> else s2)
         else s1)"

definition tell_region ::
    "(f64 list \<times> f64) list \<Rightarrow> nat list option \<Rightarrow> nat \<Rightarrow> MultiTrustRegionState \<Rightarrow> MultiTrustRegionState" where
  "tell_region batch regions r s =
     (if \<not> ms_active s ! r then s
      else let ((y, idx), s1) = scan_batch r (ms_incumbents s ! r) (region_box s r) regions
                 (enumerate 0 batch) (neg_infinity, None) s
        in case idx of Some i \<Rightarrow> region_success r (fst (batch ! i)) (snd (batch ! i)) s1 | None \<Rightarrow> region_failure r s1)"

definition multi_tell ::
    "nat \<times> f64 list list \<Rightarrow> f64 list \<Rightarrow> nat list option \<Rightarrow> MultiTrustRegionState \<Rightarrow> (TrustRegionError + unit) \<times> MultiTrustRegionState" where
  "multi_tell = (\<lambda>(cols, xs) ys regions s.
     if xs = [] then (Inr (), s)
     else if cols \<noteq> ms_num_dim s \<or> length ys \<noteq> length xs then (Inl TRInvalidParameter, s)
     else if (case regions of Some ids \<Rightarrow> length ids \<noteq> length xs \<or> (\<exists>r\<in>set ids. r \<ge> ms_num_regions s)
              | None \<Rightarrow> mc_policy (ms_config s) = Independent) then (Inl TRInvalidParameter, s)
     else (Inr (), fold (tell_region (zip xs ys) regions) [0..<ms_num_regions s] s))"

definition multi_tell_update ::
    "nat \<times> f64 list list \<Rightarrow> f64 list \<Rightarrow> MultiTrustRegionState \<Rightarrow> (TrustRegionError + unit) \<times> MultiTrustRegionState" where
  "multi_tell_update xs ys = multi_tell xs ys None"

definition restart_region ::
    "nat \<Rightarrow> f64 list \<Rightarrow> MultiTrustRegionState \<Rightarrow> TrustRegionError + MultiTrustRegionState" where
  "restart_region r c s =
     (if r \<ge> ms_num_regions s then Inl TRInvalidParameter
      else if length c \<noteq> ms_num_dim s then Inl TRInvalidParameter
      else Inr (s\<lparr>ms_centers := (ms_centers s)[r := map clip_unit c],
           ms_lengths := (ms_lengths s)[r := length_init (mc_length (ms_config s))], ms_succ := (ms_succ s)[r := 0],
           ms_fail := (ms_fail s)[r := 0], ms_incumbents := (ms_incumbents s)[r := neg_infinity],
           ms_active := (ms_active s)[r := True], ms_trials := (ms_trials s)[r := 0],
           ms_mean := (ms_mean s)[r := fzero], ms_m2 := (ms_m2 s)[r := fzero]\<rparr>))"

end
