(* ===== verification/MultiRegionLaws.thy ===== *)
theory MultiRegionLaws
  imports MultiRegion FloatRepr "HOL-Library.Sublist"
begin

text \<open>
  Laws of the parallel trust regions: a budget is divided completely, the arms chosen are the best
  that differ enough, an update moves each region to the best observation it accepts, and an
  observation can fall between two centres.
\<close>

section \<open>Shape\<close>

definition shaped :: "MultiTrustRegionState \<Rightarrow> bool" where
  "shaped s \<longleftrightarrow> (let n = ms_num_regions s in
     length (ms_centers s) = n \<and> length (ms_lengths s) = n \<and> length (ms_incumbents s) = n \<and> length (ms_succ s) = n \<and>
     length (ms_fail s) = n \<and> length (ms_active s) = n \<and> length (ms_trials s) = n \<and> length (ms_mean s) = n \<and>
     length (ms_m2 s) = n)"

lemma shaped_fresh: "length centers = mc_num_regions config \<Longrightarrow> shaped (fresh_state d config centers)"
  by (simp add: shaped_def fresh_state_def Let_def)

section \<open>Dividing a budget\<close>

lemma most_preferred_in: "rs \<noteq> [] \<Longrightarrow> most_preferred p rs \<in> set rs"
proof -
  have "foldl (\<lambda>acc r. if preferred p acc r then acc else r) a xs \<in> insert a (set xs)" for a xs
    by (induction xs arbitrary: a) auto
  then show "rs \<noteq> [] \<Longrightarrow> most_preferred p rs \<in> set rs" by (cases rs) (auto simp: most_preferred_def)
qed

lemma sum_list_bump:
  assumes "distinct rs" "r \<in> set rs" "r < length counts"
  shows "sum_list (map ((!) (counts[r := counts ! r + 1])) rs) = Suc (sum_list (map ((!) counts) rs))"
proof -
  have "sum_list (map ((!) (counts[r := counts ! r + 1])) xs) = sum_list (map ((!) counts) xs)" if "r \<notin> set xs" for xs
    using that by (induction xs) auto
  then show ?thesis
    using assms
  proof (induction rs)
    case (Cons a rs)
    then show ?case by (cases "a = r") auto
  qed simp
qed

lemma grow_counts_spec:
  assumes "active \<noteq> []" "distinct active" "\<forall>r\<in>set active. r < length counts \<and> 1 \<le> counts ! r"
  shows "sum_list (map ((!) (grow_counts ln s active trials u k counts)) active) = sum_list (map ((!) counts) active) + k \<and>
    (\<forall>r\<in>set active. 1 \<le> grow_counts ln s active trials u k counts ! r)"
  using assms(3)
proof (induction k arbitrary: counts)
  case 0
  then show ?case by simp
next
  case (Suc k)
  define r where "r = most_preferred (\<lambda>a. priority ln s a (counts ! a) trials (u ! a)) active"
  have r: "r \<in> set active" "r < length counts"
    using most_preferred_in [OF assms(1)] Suc.prems by (auto simp: r_def)
  have "\<forall>q\<in>set active. q < length (counts[r := counts ! r + 1]) \<and> 1 \<le> counts[r := counts ! r + 1] ! q"
    using Suc.prems r(2) by (simp add: nth_list_update)
  from Suc.IH [OF this] show ?case
    using sum_list_bump [OF assms(2) r] by (simp add: r_def [symmetric] Let_def)
qed

text \<open>Batches that start where the one before ends.\<close>

fun contiguous :: "nat \<Rightarrow> RegionBatch list \<Rightarrow> bool" where
  "contiguous start [] \<longleftrightarrow> True"
| "contiguous start (b # bs) \<longleftrightarrow> rb_start b = start \<and> contiguous (start + rb_len b) bs"

lemma batches_from_spec:
  "contiguous start (batches_from start ps) \<and> map rb_region (batches_from start ps) = map fst ps \<and>
    map rb_len (batches_from start ps) = map snd ps"
  by (induction start ps rule: batches_from.induct) auto

lemma distinct_active [simp]: "distinct (active_regions s)"
  by (simp add: active_regions_def)

text \<open>A budget is divided completely. With an active region, a positive budget and one finite
  utility per region, whatever the logarithm returns, the batches are contiguous from the first
  candidate, not empty, add up to the budget, and belong to different active regions; a budget
  that suffices gives every active region a batch.\<close>

theorem budget_is_divided:
  assumes "shaped s" "length utility = ms_num_regions s" "\<forall>v\<in>set utility. is_finite v" "active_regions s \<noteq> []" "0 < budget"
  shows "\<exists>bs. allocate_with ln budget utility s = Inr bs \<and> contiguous 0 bs \<and> sum_list (map rb_len bs) = budget \<and>
    list_all (\<lambda>b. 1 \<le> rb_len b) bs \<and> distinct (map rb_region bs) \<and> set (map rb_region bs) \<subseteq> set (active_regions s) \<and>
    (if length (active_regions s) \<le> budget then map rb_region bs = active_regions s else length bs = budget)"
proof -
  let ?active = "active_regions s"
  define trials :: f64 where "trials = flit (max (sum_list (ms_trials s)) 1) 1"
  have ok: "\<not> (length utility \<noteq> ms_num_regions s \<or> (\<exists>v\<in>set utility. \<not> is_finite v))" using assms(2,3) by blast
  show ?thesis
  proof (cases "budget < length ?active")
    case True
    define rs where "rs = take budget (sort_le (preferred (\<lambda>a. priority ln s a 0 trials (utility ! a))) ?active)"
    define bs where "bs = batches_from 0 (map (\<lambda>r. (r, 1)) rs)"
    have rs: "distinct rs" "length rs = budget" "set rs \<subseteq> set ?active"
      using True by (auto simp: rs_def dest: in_set_takeD)
    have "allocate_with ln budget utility s = Inr bs"
      using ok True assms(4,5) by (simp add: allocate_with_def Let_def bs_def rs_def trials_def)
    moreover have "contiguous 0 bs" "map rb_region bs = rs" "map rb_len bs = replicate budget 1"
      using batches_from_spec [of 0 "map (\<lambda>r. (r, 1)) rs"] rs(2) by (auto simp: bs_def comp_def map_replicate_const)
    moreover have "length bs = budget" using length_map [of rb_region bs] calculation(3) rs(2) by simp
    moreover have "list_all (\<lambda>b. 1 \<le> rb_len b) bs"
    proof -
      have "rb_len ` set bs \<subseteq> {1}" using calculation(4) by (metis set_map set_replicate_conv_if empty_subsetI order_refl)
      then show ?thesis by (auto simp: list_all_iff)
    qed
    ultimately show ?thesis using True rs by (auto simp: sum_list_replicate)
  next
    case False
    define counts where "counts = grow_counts ln s ?active trials utility (budget - length ?active) (replicate (ms_num_regions s) 1)"
    define bs where "bs = batches_from 0 (map (\<lambda>r. (r, counts ! r)) ?active)"
    have "\<forall>r\<in>set ?active. r < ms_num_regions s" using assms(1) by (auto simp: shaped_def active_regions_def Let_def)
    then have start: "\<forall>r\<in>set ?active. r < length (replicate (ms_num_regions s) (1::nat)) \<and> 1 \<le> replicate (ms_num_regions s) (1::nat) ! r"
        "sum_list (map ((!) (replicate (ms_num_regions s) (1::nat))) ?active) = length ?active"
      by (simp_all add: map_replicate_const sum_list_replicate cong: map_cong)
    then have counts: "sum_list (map ((!) counts) ?active) = budget" "\<forall>r\<in>set ?active. 1 \<le> counts ! r"
      using grow_counts_spec [OF assms(4) distinct_active start(1), of ln s trials utility "budget - length ?active"] False
      by (simp_all add: counts_def)
    have "allocate_with ln budget utility s = Inr bs"
      using ok False assms(4,5) by (simp add: allocate_with_def Let_def bs_def counts_def trials_def)
    moreover have bs: "contiguous 0 bs" "map rb_region bs = ?active" "map rb_len bs = map ((!) counts) ?active"
      using batches_from_spec [of 0 "map (\<lambda>r. (r, counts ! r)) ?active"] by (simp_all add: bs_def comp_def)
    moreover have "list_all (\<lambda>b. 1 \<le> rb_len b) bs"
    proof -
      have "rb_len b \<in> (!) counts ` set ?active" if "b \<in> set bs" for b
        using that arg_cong [OF bs(3), of set] by auto
      then show ?thesis using counts(2) by (fastforce simp: list_all_iff)
    qed
    ultimately show ?thesis using False counts(1) by (intro exI [of _ bs]) (simp del: set_map)
  qed
qed

section \<open>Choosing arms\<close>

lemma subseq_facts:
  assumes "subseq xs ys"
  shows "set xs \<subseteq> set ys" "sorted_wrt P ys \<Longrightarrow> sorted_wrt P xs" "distinct (map f ys) \<Longrightarrow> distinct (map f xs)"
proof -
  show sub: "set xs \<subseteq> set ys" using assms by (induction rule: list_emb.induct) auto
  have sets: "subseq as bs \<Longrightarrow> set as \<subseteq> set bs" for as bs :: "'a list"
    by (induction rule: list_emb.induct) auto
  show "sorted_wrt P ys \<Longrightarrow> sorted_wrt P xs" "distinct (map f ys) \<Longrightarrow> distinct (map f xs)"
    using assms by (induction rule: list_emb.induct) (use sets in \<open>auto simp: subset_iff\<close>)
qed

lemma score_order_preorder: "preorder_on_set A score_order"
  by (rule preorder_on_setI) (auto simp: score_order_def)

definition far_apart :: "MultiTrustRegionState \<Rightarrow> RegionCandidate list \<Rightarrow> bool" where
  "far_apart s cs \<longleftrightarrow> sorted_wrt (\<lambda>c d. seed_distance s (rc_seed d) (rc_seed c)) cs"

text \<open>The first pass: kept candidates are far apart, and a candidate that is left out, when fewer than
  the arms were kept, is too close to a kept one.\<close>

lemma take_diverse_spec:
  assumes "far_apart s sel" "length sel < arms" "sorted_wrt score_order (sel @ cs)"
  shows "\<exists>new. take_diverse s arms sel cs = sel @ new \<and> far_apart s (sel @ new) \<and> length (sel @ new) \<le> arms \<and> subseq new cs \<and>
    (\<forall>c\<in>set cs. c \<in> set new \<or> (\<exists>d\<in>set (sel @ new). \<not> seed_distance s (rc_seed c) (rc_seed d) \<and> score_order d c) \<or>
      length (sel @ new) = arms \<and> (\<forall>d\<in>set (sel @ new). score_order d c))"
  using assms
proof (induction cs arbitrary: sel)
  case Nil
  then show ?case by simp
next
  case (Cons c cs)
  show ?case
  proof (cases "list_all (\<lambda>d. seed_distance s (rc_seed c) (rc_seed d)) sel")
    case True
    have far: "far_apart s (sel @ [c])" using Cons.prems(1) True by (simp add: far_apart_def sorted_wrt_append list_all_iff)
    show ?thesis
    proof (cases "length (sel @ [c]) = arms")
      case full: True
      then have "take_diverse s arms sel (c # cs) = sel @ [c]" using True by (simp add: Let_def)
      moreover have "\<forall>d\<in>set (sel @ [c]). score_order d e" if "e \<in> set cs" for e
        using Cons.prems(3) that by (auto simp: sorted_wrt_append)
      ultimately show ?thesis using far full by (intro exI [of _ "[c]"]) auto
    next
      case False
      then have "length (sel @ [c]) < arms" "sorted_wrt score_order ((sel @ [c]) @ cs)" using Cons.prems(2,3) by simp_all
      from Cons.IH [OF far this] obtain new where new: "take_diverse s arms (sel @ [c]) cs = (sel @ [c]) @ new"
        "far_apart s ((sel @ [c]) @ new)" "length ((sel @ [c]) @ new) \<le> arms" "subseq new cs"
        "\<forall>e\<in>set cs. e \<in> set new \<or> (\<exists>d\<in>set ((sel @ [c]) @ new). \<not> seed_distance s (rc_seed e) (rc_seed d) \<and> score_order d e) \<or>
          length ((sel @ [c]) @ new) = arms \<and> (\<forall>d\<in>set ((sel @ [c]) @ new). score_order d e)" by blast
      have "take_diverse s arms sel (c # cs) = sel @ c # new" using True False new(1) by (simp add: Let_def)
      then show ?thesis using new(2-5) by (intro exI [of _ "c # new"]) auto
    qed
  next
    case False
    then obtain d where d: "d \<in> set sel" "\<not> seed_distance s (rc_seed c) (rc_seed d)" by (auto simp: list_all_iff)
    then have "score_order d c" using Cons.prems(3) by (auto simp: sorted_wrt_append)
    moreover have "sorted_wrt score_order (sel @ cs)" using Cons.prems(3) by (simp add: sorted_wrt_append)
    from Cons.IH [OF Cons.prems(1,2) this] obtain new where "take_diverse s arms sel cs = sel @ new" "far_apart s (sel @ new)"
      "length (sel @ new) \<le> arms" "subseq new cs"
      "\<forall>e\<in>set cs. e \<in> set new \<or> (\<exists>d\<in>set (sel @ new). \<not> seed_distance s (rc_seed e) (rc_seed d) \<and> score_order d e) \<or>
        length (sel @ new) = arms \<and> (\<forall>d\<in>set (sel @ new). score_order d e)" by blast
    ultimately show ?thesis using False d by (intro exI [of _ new]) auto
  qed
qed

text \<open>The second pass fills up with the best candidates left.\<close>

lemma fill_up_spec:
  assumes "length sel < arms" "distinct (map rc_index (sel @ filter (\<lambda>c. \<not> list_ex (\<lambda>d. rc_index d = rc_index c) sel) cs))"
    and "arms \<le> length sel + length (filter (\<lambda>c. \<not> list_ex (\<lambda>d. rc_index d = rc_index c) sel) cs)"
  shows "fill_up arms sel cs = sel @ take (arms - length sel) (filter (\<lambda>c. \<not> list_ex (\<lambda>d. rc_index d = rc_index c) sel) cs)"
  using assms
proof (induction cs arbitrary: sel)
  case Nil
  then show ?case by simp
next
  case (Cons c cs)
  show ?case
  proof (cases "list_ex (\<lambda>d. rc_index d = rc_index c) sel")
    case True
    then show ?thesis using Cons by simp
  next
    case False
    let ?new = "\<lambda>sel. filter (\<lambda>c. \<not> list_ex (\<lambda>d. rc_index d = rc_index c) sel) cs"
    have same: "?new (sel @ [c]) = ?new sel"
      using Cons.prems(2) False by (intro filter_cong refl) (auto simp: list_ex_iff)
    show ?thesis
    proof (cases "length (sel @ [c]) = arms")
      case True
      then have "arms - length sel = 1" by simp
      then show ?thesis using True False by simp
    next
      case more: False
      then have "fill_up arms (sel @ [c]) cs = (sel @ [c]) @ take (arms - length (sel @ [c])) (?new sel)"
        using Cons.IH [of "sel @ [c]"] Cons.prems False unfolding same by simp
      moreover have "arms - length sel = Suc (arms - length (sel @ [c]))" using more Cons.prems(1) by simp
      ultimately show ?thesis using False more by simp
    qed
  qed
qed

text \<open>C38: The arms are the best candidates that differ enough. For distinct candidates of existing
  regions with finite scores, as many arms as asked for are chosen, all different. First come
  candidates in the order of their scores, pairwise at least the least distance apart, and a
  candidate is passed over only for a better one that is too close; the rest, needed when too few
  differ enough, are the best of those passed over.\<close>

theorem arms_are_best_and_diverse:
  assumes "0 < arms" "arms \<le> length cands" "distinct (map rc_index cands)"
    and "\<forall>c\<in>set cands. rc_region c < ms_num_regions s \<and> is_finite (rc_score c)"
  shows "\<exists>D F. select_arms cands arms s = Inr (D @ F) \<and> length (D @ F) = arms \<and> distinct (map rc_index (D @ F)) \<and>
    set (D @ F) \<subseteq> set cands \<and> far_apart s D \<and> sorted_wrt score_order D \<and> sorted_wrt score_order F \<and>
    (\<forall>c\<in>set cands. c \<in> set D \<or> (\<exists>d\<in>set D. \<not> seed_distance s (rc_seed c) (rc_seed d) \<and> score_order d c) \<or>
      F = [] \<and> (\<forall>d\<in>set D. score_order d c)) \<and>
    (\<forall>c\<in>set cands - set (D @ F). \<forall>d\<in>set F. score_order d c)"
proof -
  let ?r = "sort_le score_order cands"
  have sorted: "sorted_wrt score_order ?r" by (rule sorted_wrt_sort_le_on [OF score_order_preorder])
  have dist: "distinct (map rc_index ?r)"
    using assms(3) mset_sort_le [of score_order cands] by (metis mset_map mset_eq_imp_distinct_iff)
  obtain D where D: "take_diverse s arms [] ?r = D" "far_apart s D" "length D \<le> arms" "subseq D ?r"
      "\<forall>c\<in>set ?r. c \<in> set D \<or> (\<exists>d\<in>set D. \<not> seed_distance s (rc_seed c) (rc_seed d) \<and> score_order d c) \<or>
        length D = arms \<and> (\<forall>d\<in>set D. score_order d c)"
    using take_diverse_spec [of s "[]" arms ?r] assms(1) sorted by (auto simp: far_apart_def)
  have sub: "set D \<subseteq> set cands" using subseq_facts(1) [OF D(4)] by simp
  have dD: "distinct (map rc_index D)" by (rule subseq_facts(3) [OF D(4) dist])
  have sD: "sorted_wrt score_order D" by (rule subseq_facts(2) [OF D(4) sorted])
  define rest where "rest = filter (\<lambda>c. \<not> list_ex (\<lambda>d. rc_index d = rc_index c) D) ?r"
  define F where "F = (if length D = arms then [] else take (arms - length D) rest)"
  have rest: "set rest = set cands - set D"
  proof -
    have "(\<exists>d\<in>set D. rc_index d = rc_index c) \<longleftrightarrow> c \<in> set D" if "c \<in> set cands" for c
      using inj_onD [OF distinct_map [THEN iffD1, THEN conjunct2, OF assms(3)]] that sub by blast
    then show ?thesis by (auto simp: rest_def list_ex_iff)
  qed
  have drest: "distinct (map rc_index rest)" unfolding rest_def using dist by (rule distinct_map_filter)
  have disj: "rc_index ` set D \<inter> rc_index ` set rest = {}" by (auto simp: rest_def list_ex_iff)
  have "length D + length rest = length cands"
  proof -
    have "length D = card (set D)" "length rest = card (set rest)" "length cands = card (set cands)"
      using dD drest assms(3) distinct_map distinct_card by metis+
    then show ?thesis using rest sub card_mono [OF _ sub] by (simp add: card_Diff_subset)
  qed
  then have fill: "fill_up arms D ?r = D @ take (arms - length D) rest" if "length D < arms"
    using fill_up_spec [of D arms ?r] that dD drest disj assms(2) by (simp add: rest_def [symmetric])
  have F: "set F \<subseteq> set rest" "length (D @ F) = arms" "distinct (map rc_index F)" "sorted_wrt score_order F"
    using \<open>length D + length rest = length cands\<close> assms(2) D(3) drest sorted
    by (auto simp: F_def rest_def take_map [symmetric] sorted_wrt_filter sorted_wrt_take dest: in_set_takeD)
  have "select_arms cands arms s = Inr (D @ F)"
    using assms(1,2,4) D(1,3) fill by (auto simp: select_arms_def Let_def F_def not_le)
  moreover have "distinct (map rc_index (D @ F))" using dD F(1,3) disj by auto
  moreover have "set (D @ F) \<subseteq> set cands" using sub F(1) rest by auto
  moreover have "F = []" if "length D = arms" using that by (simp add: F_def)
  moreover have "score_order d c" if "c \<in> set cands - set (D @ F)" "d \<in> set F" for c d
  proof -
    have "length D \<noteq> arms" using that(2) by (auto simp: F_def)
    then have eq: "F = take (arms - length D) rest" by (simp add: F_def)
    have "c \<in> set rest" "c \<notin> set (take (arms - length D) rest)" using that rest eq by auto
    then have "c \<in> set (drop (arms - length D) rest)" by (metis Un_iff append_take_drop_id set_append)
    moreover have "sorted_wrt score_order rest" using sorted by (simp add: rest_def sorted_wrt_filter)
    ultimately show ?thesis using take_sorted_wrt_le_drop [of score_order rest d] that(2) eq by blast
  qed
  ultimately show ?thesis using F(2,4) D(2,5) sD by (intro exI [of _ D] exI [of _ F]) auto
qed

section \<open>Telling a batch\<close>

text \<open>What a region owns.\<close>

definition region_view ::
    "MultiTrustRegionState \<Rightarrow> nat \<Rightarrow> (f64 list \<times> f64 \<times> f64) \<times> (int \<times> int \<times> bool) \<times> (nat \<times> f64 \<times> f64)" where
  "region_view s r = ((ms_centers s ! r, ms_lengths s ! r, ms_incumbents s ! r), (ms_succ s ! r, ms_fail s ! r, ms_active s ! r),
     (ms_trials s ! r, ms_mean s ! r, ms_m2 s ! r))"

definition frame_of :: "MultiTrustRegionState \<Rightarrow> nat \<times> nat \<times> MultiTrustRegionConfig" where
  "frame_of s = (ms_num_regions s, ms_num_dim s, ms_config s)"

lemma record_trial_fields [simp]:
  "ms_centers (record_trial r y s) = ms_centers s" "ms_lengths (record_trial r y s) = ms_lengths s"
  "ms_incumbents (record_trial r y s) = ms_incumbents s" "ms_succ (record_trial r y s) = ms_succ s"
  "ms_fail (record_trial r y s) = ms_fail s" "ms_active (record_trial r y s) = ms_active s"
  "ms_config (record_trial r y s) = ms_config s" "ms_num_regions (record_trial r y s) = ms_num_regions s"
  "ms_num_dim (record_trial r y s) = ms_num_dim s" "shaped (record_trial r y s) = shaped s"
  "q \<noteq> r \<Longrightarrow> region_view (record_trial r y s) q = region_view s q"
  by (simp_all add: record_trial_def Let_def shaped_def region_view_def)

text \<open>A scan changes only the statistics, which no acceptance reads.\<close>

definition geometry :: "MultiTrustRegionState \<Rightarrow> MultiTrustRegionState \<Rightarrow> bool" where
  "geometry s t \<longleftrightarrow> ms_centers t = ms_centers s \<and> ms_lengths t = ms_lengths s \<and> ms_incumbents t = ms_incumbents s \<and>
     ms_succ t = ms_succ s \<and> ms_fail t = ms_fail s \<and> ms_active t = ms_active s \<and> frame_of t = frame_of s \<and> shaped t = shaped s"

lemma accepts_geometry: "geometry s t \<Longrightarrow> accepts t = accepts s"
  by (intro ext) (simp add: geometry_def accepts_def distance_to_def frame_of_def split: SharingPolicy.split)

definition best_step ::
    "MultiTrustRegionState \<Rightarrow> nat \<Rightarrow> f64 \<Rightarrow> (f64 \<times> f64) list \<Rightarrow> nat list option \<Rightarrow> f64 \<times> nat option \<Rightarrow> nat \<times> f64 list \<times> f64 \<Rightarrow> f64 \<times> nat option" where
  "best_step s r current box regions best = (\<lambda>(i, x, y).
     if accepts s r i x box regions \<and> flt current y \<and> flt (fst best) y then (y, Some i) else best)"

lemma best_step_simp [simp]: "best_step s r current box regions best (i, x, y) =
    (if accepts s r i x box regions \<and> flt current y \<and> flt (fst best) y then (y, Some i) else best)"
  by (simp add: best_step_def)

lemma scan_batch_fold:
  assumes "geometry s t"
  shows "\<exists>t'. scan_batch r current box regions obs best t = (foldl (best_step s r current box regions) best obs, t') \<and>
    geometry s t' \<and> (\<forall>q. q \<noteq> r \<longrightarrow> region_view t' q = region_view t q)"
  using assms
proof (induction obs arbitrary: best t)
  case Nil
  then show ?case by simp
next
  case (Cons o1 obs)
  obtain i x y where o1: "o1 = (i, x, y)" by (cases o1) auto
  define t1 where "t1 = (case regions of Some ids \<Rightarrow> if ids ! i = r then record_trial r y t else t | None \<Rightarrow> t)"
  have t1: "geometry s t1" "\<forall>q. q \<noteq> r \<longrightarrow> region_view t1 q = region_view t q"
    using Cons.prems by (auto simp: t1_def geometry_def frame_of_def split: option.split)
  from Cons.IH [OF t1(1), of "best_step s r current box regions best o1"] obtain t' where
    "scan_batch r current box regions obs (best_step s r current box regions best o1) t1 =
      (foldl (best_step s r current box regions) (best_step s r current box regions best o1) obs, t')"
    "geometry s t'" "\<forall>q. q \<noteq> r \<longrightarrow> region_view t' q = region_view t1 q" by blast
  then show ?case
    using t1(2) accepts_geometry [OF Cons.prems] by (simp add: o1 Let_def t1_def [symmetric])
qed

definition accepted_above ::
    "MultiTrustRegionState \<Rightarrow> nat \<Rightarrow> f64 \<Rightarrow> (f64 \<times> f64) list \<Rightarrow> nat list option \<Rightarrow> (nat \<times> f64 list \<times> f64) list \<Rightarrow> (nat \<times> f64 list \<times> f64) list" where
  "accepted_above s r current box regions obs = filter (\<lambda>(i, x, y). accepts s r i x box regions \<and> flt current y) obs"

lemma accepted_above_snoc: "accepted_above s r current box regions (obs @ [(i, x, y)]) =
    accepted_above s r current box regions obs @ (if accepts s r i x box regions \<and> flt current y then [(i, x, y)] else [])"
  by (simp add: accepted_above_def)

text \<open>The best of the observations in play: the first of those with the largest value.\<close>

definition first_best :: "(nat \<times> f64 list \<times> f64) list \<Rightarrow> nat \<times> f64 list \<times> f64 \<Rightarrow> bool" where
  "first_best acc o1 \<longleftrightarrow> o1 \<in> set acc \<and>
     (\<forall>p\<in>set acc. fle (snd (snd p)) (snd (snd o1)) \<and> (feq (snd (snd p)) (snd (snd o1)) \<longrightarrow> fst o1 \<le> fst p))"

lemma above_neg_infinity: "flt current y \<Longrightarrow> flt (neg_infinity :: f64) y"
proof -
  assume "flt current y"
  then have "fkey current < fkey y" "\<not> is_nan current" "\<not> is_nan y" by (auto simp: fcmp_defs)
  moreover have "mag current \<le> inf_mag 64" using \<open>\<not> is_nan current\<close> by (simp add: is_nan_def)
  then have "- int (inf_mag 64) \<le> fkey current" by (auto simp: fkey_def)
  moreover have "fkey (neg_infinity :: f64) = - int (inf_mag 64)" "\<not> is_nan (neg_infinity :: f64)"
    by (simp_all add: neg_infinity_def fkey_def is_nan_def float_layout)
  ultimately show ?thesis by (simp add: flt_def)
qed

lemma best_step_first_best:
  assumes "sorted_wrt (<) (map fst obs)" and acc: "acc = accepted_above s r current box regions obs"
  shows "if acc = [] then foldl (best_step s r current box regions) (neg_infinity, None) obs = (neg_infinity, None)
    else \<exists>o1. first_best acc o1 \<and> foldl (best_step s r current box regions) (neg_infinity, None) obs = (snd (snd o1), Some (fst o1))"
  using assms(1) unfolding acc
proof (induction obs rule: rev_induct)
  case Nil
  then show ?case by (simp add: accepted_above_def)
next
  case (snoc o2 obs)
  obtain i x y where o2: "o2 = (i, x, y)" by (cases o2) auto
  let ?acc = "accepted_above s r current box regions obs"
  let ?best = "foldl (best_step s r current box regions) (neg_infinity, None) obs"
  have lt: "fst p < i" if "p \<in> set ?acc" for p
    using snoc.prems that by (auto simp: accepted_above_def o2 sorted_wrt_append)
  have ok: "\<not> is_nan (snd (snd p))" if "p \<in> set ?acc" for p
    using that by (auto simp: accepted_above_def fcmp_defs)
  have IH: "if ?acc = [] then ?best = (neg_infinity, None)
      else \<exists>o1. first_best ?acc o1 \<and> ?best = (snd (snd o1), Some (fst o1))"
    using snoc by (simp add: sorted_wrt_append)
  show ?case
  proof (cases "accepts s r i x box regions \<and> flt current y")
    case False
    then show ?thesis using IH by (auto simp: accepted_above_snoc o2)
  next
    case True
    then have acc: "accepted_above s r current box regions (obs @ [o2]) = ?acc @ [o2]"
      by (simp add: accepted_above_snoc o2)
    have y: "\<not> is_nan y" using True by (auto simp: fcmp_defs)
    show ?thesis
    proof (cases "?acc = []")
      case empty: True
      then have "first_best (?acc @ [o2]) o2" using y by (simp add: first_best_def o2 fcmp_defs)
      then have "\<exists>o1. first_best (?acc @ [o2]) o1 \<and> foldl (best_step s r current box regions) (neg_infinity, None) (obs @ [o2]) =
            (snd (snd o1), Some (fst o1))"
          using IH empty True above_neg_infinity [of current y] by (intro exI [of _ o2]) (simp add: o2)
        then show ?thesis unfolding acc by (subst if_not_P) simp_all
    next
      case False
      then obtain o1 where o1: "first_best ?acc o1" "?best = (snd (snd o1), Some (fst o1))" using IH by auto
      have mem: "o1 \<in> set ?acc" using o1(1) by (simp add: first_best_def)
      show ?thesis
      proof (cases "flt (snd (snd o1)) y")
        case better: True
        then have "first_best (?acc @ [o2]) o2"
          using o1(1) y by (fastforce simp: first_best_def o2 fcmp_defs)
        then have "\<exists>o1. first_best (?acc @ [o2]) o1 \<and> foldl (best_step s r current box regions) (neg_infinity, None) (obs @ [o2]) =
            (snd (snd o1), Some (fst o1))"
          using o1(2) True better by (intro exI [of _ o2]) (simp add: o2)
        then show ?thesis unfolding acc by (subst if_not_P) simp_all
      next
        case worse: False
        then have "first_best (?acc @ [o2]) o1"
          using o1(1) y ok [OF mem] lt [OF mem] by (auto simp: first_best_def o2 fcmp_defs)
        then have "\<exists>o1. first_best (?acc @ [o2]) o1 \<and> foldl (best_step s r current box regions) (neg_infinity, None) (obs @ [o2]) =
            (snd (snd o1), Some (fst o1))"
          using o1(2) worse by (intro exI [of _ o1]) (simp add: o2)
        then show ?thesis unfolding acc by (subst if_not_P) simp_all
      qed
    qed
  qed
qed

lemma region_success_spec:
  assumes "shaped s" "r < ms_num_regions s" and t: "t = region_success r x y s"
  shows "ms_centers t ! r = x" "ms_incumbents t ! r = y" "ms_fail t ! r = 0" "ms_active t ! r = ms_active s ! r"
    and "shaped t" "frame_of t = frame_of s" "q \<noteq> r \<Longrightarrow> region_view t q = region_view s q"
  using assms(1,2) by (simp_all add: t region_success_def Let_def shaped_def frame_of_def region_view_def)

lemma region_failure_spec:
  assumes "shaped s" "r < ms_num_regions s" and t: "t = region_failure r s"
  shows "ms_centers t ! r = ms_centers s ! r" "ms_incumbents t ! r = ms_incumbents s ! r" "ms_succ t ! r = 0"
    and "ms_lengths t ! r = ms_lengths s ! r \<and> ms_fail t ! r = ms_fail s ! r + 1 \<or>
      ms_lengths t ! r = fmul (ms_lengths s ! r) (flit 1 2) \<and> ms_fail t ! r = 0"
    and "shaped t" "frame_of t = frame_of s" "q \<noteq> r \<Longrightarrow> region_view t q = region_view s q"
  using assms(1,2) by (simp_all add: t region_failure_def Let_def shaped_def frame_of_def region_view_def)

text \<open>The outcome of a batch for one region.\<close>

definition moved_to_best ::
    "nat \<Rightarrow> (nat \<times> f64 list \<times> f64) list \<Rightarrow> MultiTrustRegionState \<Rightarrow> MultiTrustRegionState \<Rightarrow> bool" where
  "moved_to_best r acc s t \<longleftrightarrow>
     (if \<not> ms_active s ! r then region_view t r = region_view s r
      else if acc = [] then ms_centers t ! r = ms_centers s ! r \<and> ms_incumbents t ! r = ms_incumbents s ! r \<and> ms_succ t ! r = 0 \<and>
        (ms_lengths t ! r = ms_lengths s ! r \<and> ms_fail t ! r = ms_fail s ! r + 1 \<or>
         ms_lengths t ! r = fmul (ms_lengths s ! r) (flit 1 2) \<and> ms_fail t ! r = 0)
      else (\<exists>o1. first_best acc o1 \<and> ms_centers t ! r = fst (snd o1) \<and> ms_incumbents t ! r = snd (snd o1) \<and>
        ms_fail t ! r = 0 \<and> ms_active t ! r))"

lemma moved_to_bestI:
  "ms_active s ! r \<Longrightarrow> acc \<noteq> [] \<Longrightarrow> first_best acc o1 \<Longrightarrow> ms_centers t ! r = fst (snd o1) \<Longrightarrow> ms_incumbents t ! r = snd (snd o1) \<Longrightarrow>
    ms_fail t ! r = 0 \<Longrightarrow> ms_active t ! r \<Longrightarrow> moved_to_best r acc s t"
  unfolding moved_to_best_def by (subst if_not_P, blast, subst if_not_P, blast) blast

lemma moved_to_best_view:
  assumes "region_view s1 r = region_view s r" "region_view t r = region_view t1 r" "moved_to_best r acc s1 t1"
  shows "moved_to_best r acc s t"
proof -
  have "ms_centers s1 ! r = ms_centers s ! r" "ms_incumbents s1 ! r = ms_incumbents s ! r" "ms_active s1 ! r = ms_active s ! r"
    "ms_lengths s1 ! r = ms_lengths s ! r" "ms_fail s1 ! r = ms_fail s ! r"
    "ms_centers t ! r = ms_centers t1 ! r" "ms_incumbents t ! r = ms_incumbents t1 ! r" "ms_active t ! r = ms_active t1 ! r"
    "ms_lengths t ! r = ms_lengths t1 ! r" "ms_fail t ! r = ms_fail t1 ! r" "ms_succ t ! r = ms_succ t1 ! r"
    using assms(1,2) by (simp_all add: region_view_def)
  then have "moved_to_best r acc s t = moved_to_best r acc s1 t1"
    unfolding moved_to_best_def by (simp only: assms(1,2))
  then show ?thesis using assms(3) by simp
qed

definition told_candidates ::
    "(f64 list \<times> f64) list \<Rightarrow> nat list option \<Rightarrow> nat \<Rightarrow> MultiTrustRegionState \<Rightarrow> (nat \<times> f64 list \<times> f64) list" where
  "told_candidates batch regions r s =
     accepted_above s r (ms_incumbents s ! r) (region_box s r) regions (enumerate 0 batch)"

lemma tell_region_spec:
  assumes "shaped s" "r < ms_num_regions s"
  shows "moved_to_best r (told_candidates batch regions r s) s (tell_region batch regions r s) \<and>
    shaped (tell_region batch regions r s) \<and> frame_of (tell_region batch regions r s) = frame_of s \<and>
    (\<forall>q. q \<noteq> r \<longrightarrow> region_view (tell_region batch regions r s) q = region_view s q)"
proof (cases "ms_active s ! r")
  case False
  then show ?thesis using assms(1) by (simp add: tell_region_def moved_to_best_def)
next
  case True
  let ?obs = "enumerate 0 batch" and ?acc = "told_candidates batch regions r s"
  let ?fold = "foldl (best_step s r (ms_incumbents s ! r) (region_box s r) regions) (neg_infinity, None) ?obs"
  have "geometry s s" by (simp add: geometry_def)
  from scan_batch_fold [OF this, of r "ms_incumbents s ! r" "region_box s r" regions ?obs "(neg_infinity, None)"]
  obtain s1 where s1: "scan_batch r (ms_incumbents s ! r) (region_box s r) regions ?obs (neg_infinity, None) s = (?fold, s1)"
      "geometry s s1" "\<forall>q. q \<noteq> r \<longrightarrow> region_view s1 q = region_view s q" by blast
  have sh: "shaped s1" "r < ms_num_regions s1" "ms_active s1 ! r" "frame_of s1 = frame_of s"
    using s1(2) assms True by (simp_all add: geometry_def frame_of_def)
  have sorted: "sorted_wrt (<) (map fst ?obs)" by simp
  note best = best_step_first_best [OF sorted, of ?acc s r "ms_incumbents s ! r" "region_box s r" regions,
    folded told_candidates_def, OF refl]
  show ?thesis
  proof (cases "?acc = []")
    case empty: True
    then have "tell_region batch regions r s = region_failure r s1"
      using best s1(1) True by (simp add: tell_region_def)
    then show ?thesis
      using region_failure_spec [OF sh(1,2) refl] s1(2,3) sh(4) empty True by (simp add: moved_to_best_def geometry_def)
  next
    case False
    then obtain o1 where o1: "first_best ?acc o1" "?fold = (snd (snd o1), Some (fst o1))" using best by auto
    then have "o1 \<in> set ?obs" by (auto simp: first_best_def told_candidates_def accepted_above_def)
    then have "batch ! fst o1 = snd o1" by (auto simp: in_set_enumerate_eq)
    then have "tell_region batch regions r s = region_success r (fst (snd o1)) (snd (snd o1)) s1"
      using o1(2) s1(1) True by (simp add: tell_region_def)
    then show ?thesis
      using region_success_spec [OF sh(1,2) refl, where x = "fst (snd o1)" and y = "snd (snd o1)"] s1(3) sh(3,4)
        moved_to_bestI [OF True False o1(1), of "region_success r (fst (snd o1)) (snd (snd o1)) s1"] by simp
  qed
qed

lemma tell_others:
  assumes "shaped s" "set rs \<subseteq> {..<ms_num_regions s}"
  shows "shaped (fold (tell_region batch regions) rs s) \<and> frame_of (fold (tell_region batch regions) rs s) = frame_of s \<and>
    (\<forall>q. q \<notin> set rs \<longrightarrow> region_view (fold (tell_region batch regions) rs s) q = region_view s q)"
  using assms
proof (induction rs arbitrary: s)
  case Nil
  then show ?case by simp
next
  case (Cons r rs)
  have "r < ms_num_regions s" using Cons.prems(2) by simp
  note one = tell_region_spec [OF Cons.prems(1) this, of batch regions]
  then have "set rs \<subseteq> {..<ms_num_regions (tell_region batch regions r s)}" using Cons.prems(2) by (simp add: frame_of_def)
  from Cons.IH [OF _ this] one show ?case by auto
qed

lemma told_candidates_view:
  assumes "region_view s1 r = region_view s r" "frame_of s1 = frame_of s" "mc_policy (ms_config s) \<noteq> NearestCenter"
  shows "told_candidates batch regions r s1 = told_candidates batch regions r s"
proof -
  have "accepts s1 r i x box regions = accepts s r i x box regions" for i x box
    using assms(2,3) by (simp add: accepts_def frame_of_def split: SharingPolicy.split)
  moreover have "region_box s1 r = region_box s r" "ms_incumbents s1 ! r = ms_incumbents s ! r"
    using assms(1,2) by (simp_all add: region_box_def region_view_def frame_of_def)
  ultimately show ?thesis by (simp add: told_candidates_def accepted_above_def)
qed

text \<open>An update moves every region to the best observation it accepts. When regions do not compete
  for the nearest centre, a valid batch is told without error, and each active region takes the
  first of the largest accepted values above its incumbent, with its point as the new centre, or
  counts a failure and keeps both; a region that waits for a restart is left alone. What the other
  regions are does not matter.\<close>

theorem regions_move_to_best_accepted:
  assumes "shaped s" "mc_policy (ms_config s) \<noteq> NearestCenter" "xs \<noteq> []" "length ys = length xs" "r < ms_num_regions s"
    and "case regions of Some ids \<Rightarrow> length ids = length xs \<and> list_all (\<lambda>q. q < ms_num_regions s) ids
      | None \<Rightarrow> mc_policy (ms_config s) = Shared"
  shows "\<exists>t. multi_tell (ms_num_dim s, xs) ys regions s = (Inr (), t) \<and> shaped t \<and>
    moved_to_best r (told_candidates (zip xs ys) regions r s) s t"
proof -
  let ?tell = "tell_region (zip xs ys) regions"
  define s1 where "s1 = fold ?tell [0..<r] s"
  define s2 where "s2 = ?tell r s1"
  define t where "t = fold ?tell [Suc r..<ms_num_regions s] s2"
  have "[0..<ms_num_regions s] = [0..<r] @ r # [Suc r..<ms_num_regions s]"
    using assms(5) by (metis le_add1 less_imp_le upt_conv_Cons upt_add_eq_append add_0 le_add_diff_inverse)
  then have t: "fold ?tell [0..<ms_num_regions s] s = t" by (simp add: t_def s2_def s1_def)
  have "set [0..<r] \<subseteq> {..<ms_num_regions s}" using assms(5) by auto
  from tell_others [OF assms(1) this, of "zip xs ys" regions]
  have s1: "shaped s1" "frame_of s1 = frame_of s" "region_view s1 r = region_view s r" by (simp_all add: s1_def)
  then have "r < ms_num_regions s1" using assms(5) by (simp add: frame_of_def)
  note s2 = tell_region_spec [OF s1(1) this, of "zip xs ys" regions, folded s2_def]
  have n2: "ms_num_regions s2 = ms_num_regions s" using s2 s1(2) by (simp add: frame_of_def)
  have "set [Suc r..<ms_num_regions s] \<subseteq> {..<ms_num_regions s2}" unfolding n2 by auto
  from tell_others [OF _ this, of "zip xs ys" regions] s2
  have t2: "shaped t" "region_view t r = region_view s2 r" by (auto simp: t_def)
  have "moved_to_best r (told_candidates (zip xs ys) regions r s) s t"
    using moved_to_best_view [OF s1(3) t2(2)] s2 told_candidates_view [OF s1(3,2) assms(2)] by simp
  moreover have "multi_tell (ms_num_dim s, xs) ys regions s = (Inr (), t)"
    using assms(2,3,4,6) t by (auto simp: multi_tell_def list_all_iff not_le split: option.splits)
  ultimately show ?thesis using t2(1) by blast
qed

section \<open>Between two centres\<close>

definition point_distance :: "f64 list \<Rightarrow> f64 list \<Rightarrow> f64" where
  "point_distance x c = foldl fadd fzero (map2 (\<lambda>v c. let e = fsub v c in fmul e e) x c)"

lemma distance_to_point: "distance_to s r x = point_distance x (ms_centers s ! r)"
  by (simp add: distance_to_def point_distance_def)

lemma accepts_two:
  assumes "mc_policy (ms_config s) = NearestCenter" "ms_num_regions s = 2" "ms_active s ! 0" "ms_active s ! 1"
  shows "accepts s 0 i x box regions \<longleftrightarrow> fle (distance_to s 0 x) (distance_to s 1 x)"
    and "accepts s 1 i x box regions \<longleftrightarrow> fle (distance_to s 1 x) (distance_to s 0 x)"
  using assms by (simp_all add: accepts_def numeral_2_eq_2)

text \<open>A defect of the policy that gives each observation to its nearest centre. The regions are
  updated one after the other against the centres as they are by then. An observation nearest to
  the second centre is not offered to the first region, and when the first region has just moved
  closer to it than the second centre is, not to the second one either: it is told without error
  and lost.\<close>

theorem nearest_centre_drops_observation:
  assumes "shaped s" "mc_policy (ms_config s) = NearestCenter" "ms_num_regions s = 2" "ms_active s ! 0" "ms_active s ! 1"
    and "flt (ms_incumbents s ! 0) y" "fle (distance_to s 0 x) (distance_to s 1 x)"
    and "flt (distance_to s 1 x') (distance_to s 0 x')"
    and "flt (point_distance x x) (distance_to s 1 x)" "flt (point_distance x' x) (distance_to s 1 x')"
  shows "\<exists>t. multi_tell (ms_num_dim s, [x, x']) [y, y'] None s = (Inr (), t) \<and>
    ms_incumbents t ! 0 = y \<and> ms_incumbents t ! 1 = ms_incumbents s ! 1 \<and> ms_centers t ! 1 = ms_centers s ! 1"
proof -
  let ?batch = "[(x, y), (x', y')]"
  define s1 where "s1 = tell_region ?batch None 0 s"
  define t where "t = tell_region ?batch None 1 s1"
  have c0: "told_candidates ?batch None 0 s = [(0, x, y)]"
    using assms(6-8) accepts_two(1) [OF assms(2-5)]
    by (auto simp: told_candidates_def accepted_above_def fcmp_defs)
  have "0 < ms_num_regions s" using assms(3) by simp
  note one = tell_region_spec [OF assms(1) this, of ?batch None, folded s1_def]
  have s1: "shaped s1" "frame_of s1 = frame_of s" "region_view s1 1 = region_view s 1" using one by auto
  have m: "ms_centers s1 ! 0 = x" "ms_incumbents s1 ! 0 = y" "ms_active s1 ! 0"
    using one assms(4) unfolding moved_to_best_def c0 by (auto simp: first_best_def)
  have v: "ms_centers s1 ! 1 = ms_centers s ! 1" "ms_active s1 ! 1" "ms_incumbents s1 ! 1 = ms_incumbents s ! 1"
    using s1(3) assms(5) by (simp_all add: region_view_def)
  have f: "mc_policy (ms_config s1) = NearestCenter" "ms_num_regions s1 = 2" using s1(2) assms(2,3) by (simp_all add: frame_of_def)
  have "\<not> fle (distance_to s1 1 x) (distance_to s1 0 x)" "\<not> fle (distance_to s1 1 x') (distance_to s1 0 x')"
    using assms(9,10) m(1) v(1) unfolding distance_to_point by (auto simp: fcmp_defs)
  then have c1: "told_candidates ?batch None 1 s1 = []"
    using accepts_two(2) [OF f m(3) v(2)] by (simp add: told_candidates_def accepted_above_def)
  have "1 < ms_num_regions s1" using f(2) by simp
  note two = tell_region_spec [OF s1(1) this, of ?batch None, folded t_def]
  have "ms_centers t ! 1 = ms_centers s1 ! 1" "ms_incumbents t ! 1 = ms_incumbents s1 ! 1"
    using two v(2) unfolding moved_to_best_def c1 by simp_all
  moreover have "region_view t 0 = region_view s1 0" using two by simp
  then have "ms_incumbents t ! 0 = y" using m(2) by (simp add: region_view_def)
  moreover have "multi_tell (ms_num_dim s, [x, x']) [y, y'] None s = (Inr (), t)"
    using assms(2,3) by (simp add: multi_tell_def t_def s1_def numeral_2_eq_2)
  ultimately show ?thesis using v by auto
qed

section \<open>Evaluated instances\<close>

text \<open>Multiples of a quarter, exactly.\<close>

definition quarters :: "nat \<Rightarrow> f64" where
  "quarters k = [fzero, Ieee 0x3fd0000000000000, half64, Ieee 0x3fe8000000000000, one64, Ieee 0x3ff4000000000000,
     Ieee 0x3ff8000000000000] ! k"

definition qunit :: nat where
  "qunit = 2 ^ 1072"

lemma qunit_pos: "0 < qunit"
  unfolding qunit_def by (rule zero_less_power) simp

lemma fval_fneg: "fval (fneg x) = - fval x" for x :: "'w::len word ieee"
  by (simp add: fval_def fneg_def units_def)

lemma quarters_facts:
  assumes "k < 7"
  shows "is_finite (quarters k)" "\<not> sign_neg (quarters k)" "units (quarters k) = k * qunit"
proof -
  have k: "k = 0 \<or> k = 1 \<or> k = 2 \<or> k = 3 \<or> k = 4 \<or> k = 5 \<or> k = 6" using assms by auto
  have mags: "mag (quarters 1) = Suc 1020 * 2 ^ 52 + 0" "mag (quarters 2) = Suc 1021 * 2 ^ 52 + 0"
    "mag (quarters 3) = Suc 1021 * 2 ^ 52 + 2 ^ 51" "mag (quarters 4) = Suc 1022 * 2 ^ 52 + 0"
    "mag (quarters 5) = Suc 1022 * 2 ^ 52 + 2 ^ 50" "mag (quarters 6) = Suc 1022 * 2 ^ 52 + 2 ^ 51"
    by (simp_all add: quarters_def mag_def float_layout)
  show "is_finite (quarters k)" "\<not> sign_neg (quarters k)"
    using k by (auto simp: is_finite_def mags [simplified] sign_neg_def quarters_def fzero_def mk_float_def mag_def float_layout)
  define u :: nat where "u = 2 ^ 1020"
  have p: "(2::nat) ^ 1021 = 2 ^ 1 * u" "(2::nat) ^ 1022 = 2 ^ 2 * u" "qunit = 2 ^ 52 * u"
    unfolding u_def qunit_def by (simp_all only: power_add [symmetric]) simp_all
  have z: "units (quarters 0) = 0" by (simp add: quarters_def units_def units_of_def fzero_def)
  show "units (quarters k) = k * qunit"
    using k z units_parts [OF mags(1)] units_parts [OF mags(2)] units_parts [OF mags(3)] units_parts [OF mags(4)]
      units_parts [OF mags(5)] units_parts [OF mags(6)] unfolding p u_def [symmetric] by auto
qed

lemma quarters_not_special: "k < 7 \<Longrightarrow> \<not> is_nan (quarters k) \<and> \<not> is_inf (quarters k)"
  by (rule finite_not_special [OF quarters_facts(1)])

lemma quarters_val: "k < 7 \<Longrightarrow> fval (quarters k) = int k * int qunit"
  using quarters_facts [of k] by (simp add: fval_def)

lemma fadd_quarters:
  assumes "j < 7" "k < 7" "j + k < 7"
  shows "fadd (quarters j) (quarters k) = quarters (j + k)"
proof (cases "j + k = 0")
  case True
  then show ?thesis using quarters_not_special [of 0] quarters_val [of 0] quarters_facts(2) [of 0]
    by (simp add: fadd_def) (simp add: quarters_def fzero_def)
next
  case False
  have v: "fval (quarters j) + fval (quarters k) = int ((j + k) * qunit)"
    using quarters_val assms(1,2) by (simp add: distrib_right)
  have "int ((j + k) * qunit) \<noteq> 0" "\<not> int ((j + k) * qunit) < 0" "nat \<bar>int ((j + k) * qunit)\<bar> = (j + k) * qunit"
    using False qunit_pos by (simp_all del: of_nat_mult of_nat_add)
  then show ?thesis
    using quarters_not_special assms round_float_exact [OF quarters_facts(1) [OF assms(3)], of 1 "(j + k) * qunit" False]
      quarters_facts(2,3) [OF assms(3)]
    unfolding fadd_def v by (simp only: if_False Let_def) simp
qed

lemma fsub_quarters:
  assumes "j < 7" "k < 7"
  defines "d \<equiv> nat \<bar>int j - int k\<bar>"
  shows "is_finite (fsub (quarters j) (quarters k))" "units (fsub (quarters j) (quarters k)) = d * qunit"
proof -
  have d: "d < 7" using assms by (simp add: d_def)
  let ?z = "(int j - int k) * int qunit"
  have v: "fval (quarters j) + fval (fneg (quarters k)) = ?z"
    using quarters_val [OF assms(1)] quarters_val [OF assms(2)] by (simp add: fval_fneg left_diff_distrib)
  have p: "nat \<bar>?z\<bar> = d * qunit" by (simp only: abs_mult nat_mult_distrib abs_ge_zero d_def) simp
  have sp: "fsub (quarters j) (quarters k) = (if ?z = 0 then mk_float (sign_neg (quarters j) \<and> sign_neg (fneg (quarters k))) 0
      else round_float (?z < 0) (d * qunit) 1)"
    using quarters_not_special [OF assms(1)] quarters_not_special [OF assms(2)]
    unfolding fsub_def fadd_def v p [symmetric] by (simp only: fneg_key if_False Let_def) simp
  show "is_finite (fsub (quarters j) (quarters k))" "units (fsub (quarters j) (quarters k)) = d * qunit"
  proof -
    let ?t = "mk_float (?z < 0) (mag (quarters d)) :: f64"
    have t: "is_finite ?t" "units ?t = d * qunit" "sign_neg ?t = (?z < 0)"
      using quarters_facts [OF d] mag_lt [of "quarters d"] by (simp_all add: is_finite_def units_def)
    have "round_float (?z < 0) (d * qunit) 1 = ?t"
      by (rule round_float_exact [OF t(1)]) (simp_all only: t(2,3) mult_1_right zero_less_one)
    moreover have "d = 0" if "?z = 0" using that qunit_pos by (simp add: d_def)
    moreover have "is_finite (mk_float b 0 :: f64)" "units (mk_float b 0 :: f64) = 0" for b
      by (simp_all add: is_finite_def units_def units_of_def inf_mag_def sign_weight_def frac_bits_def)
    ultimately show "is_finite (fsub (quarters j) (quarters k))" "units (fsub (quarters j) (quarters k)) = d * qunit"
      using t(1,2) unfolding sp by (cases "?z = 0", simp, simp only: if_False)+
  qed
qed

lemma square_quarters:
  assumes "j < 7" "k < 7" "nat \<bar>int j - int k\<bar> = 2 * m" "m \<le> 2"
  shows "(let e = fsub (quarters j) (quarters k) in fmul e e) = quarters (m * m)"
proof -
  let ?e = "fsub (quarters j) (quarters k)"
  have e: "is_finite ?e" "units ?e = 2 * m * qunit" using fsub_quarters [OF assms(1,2)] assms(3) by simp_all
  have m: "m * m < 7" using assms(4) by (cases m rule: nat.exhaust) (auto simp: le_Suc_eq numeral_2_eq_2)
  have "(2::nat) ^ 1074 = 2 ^ 2 * qunit" unfolding qunit_def by (simp only: power_add [symmetric]) simp
  then have "units ?e * units ?e = units (quarters (m * m)) * 2 ^ 1074"
    unfolding e(2) quarters_facts(3) [OF m] by (simp only:) (simp only: mult_ac power2_eq_square)
  then have "round_float False (units ?e * units ?e) (2 ^ unit_exp LENGTH(64)) = quarters (m * m)"
    using quarters_facts(1,2) [OF m] by (intro round_float_exact) (simp_all add: unit_exp_def)
  then show ?thesis using finite_not_special [OF e(1)] by (simp add: fmul_def Let_def)
qed

text \<open>Centres at the two ends of the cube; the first observation is half way, the second nearer to
  the far end.\<close>

definition two_centres :: MultiTrustRegionState where
  "two_centres = fresh_state 3 ((multi_config 2 default_lengths)\<lparr>mc_policy := NearestCenter\<rparr>)
     [map quarters [0, 0, 0], map quarters [4, 4, 4]]"

lemma two_centres_facts:
  "shaped two_centres" "mc_policy (ms_config two_centres) = NearestCenter" "ms_num_regions two_centres = 2"
  "ms_num_dim two_centres = 3" "ms_active two_centres ! 0" "ms_active two_centres ! 1"
  "ms_incumbents two_centres ! 0 = neg_infinity" "ms_incumbents two_centres ! 1 = neg_infinity"
  "ms_centers two_centres ! 0 = map quarters [0, 0, 0]" "ms_centers two_centres ! 1 = map quarters [4, 4, 4]"
  by (simp_all add: two_centres_def shaped_fresh multi_config_def) (simp_all add: fresh_state_def multi_config_def numeral_2_eq_2)

lemma quarters_distance:
  assumes "\<forall>(v, c)\<in>set (zip [v1, v2, v3] [c1, c2, c3]). v < 7 \<and> c < 7"
    and "nat \<bar>int v1 - int c1\<bar> = 2 * m1" "nat \<bar>int v2 - int c2\<bar> = 2 * m2" "nat \<bar>int v3 - int c3\<bar> = 2 * m3"
    and "m1 \<le> 2" "m2 \<le> 2" "m3 \<le> 2" "m1 * m1 + m2 * m2 + m3 * m3 = n" "n < 7"
  shows "point_distance (map quarters [v1, v2, v3]) (map quarters [c1, c2, c3]) = quarters n"
proof -
  have z: "fzero = quarters 0" by (simp add: quarters_def)
  have "fadd (fadd (fadd fzero (quarters (m1 * m1))) (quarters (m2 * m2))) (quarters (m3 * m3)) =
      quarters n"
    using assms(8,9) unfolding z by (simp add: fadd_quarters)
  then show ?thesis
    using assms square_quarters [of v1 c1 m1] square_quarters [of v2 c2 m2] square_quarters [of v3 c3 m3]
    by (simp add: point_distance_def)
qed

lemma quarters_less: "j < 7 \<Longrightarrow> k < 7 \<Longrightarrow> flt (quarters j) (quarters k) \<longleftrightarrow> j < k"
proof -
  assume a: "j < 7" "k < 7"
  have "fkey (quarters j) < fkey (quarters k) \<longleftrightarrow> fval (quarters j) < fval (quarters k)"
    using fval_le_iff [of "quarters k" "quarters j"] by linarith
  then show ?thesis
    using quarters_not_special [OF a(1)] quarters_not_special [OF a(2)] quarters_val [OF a(1)] quarters_val [OF a(2)] qunit_pos
    by (simp add: flt_def)
qed

theorem nearest_centre_drops_observation_witness:
  "\<exists>t. multi_tell (3, [map quarters [2, 2, 2], map quarters [4, 2, 2]]) [quarters 1, quarters 6] None two_centres = (Inr (), t) \<and>
    ms_incumbents t ! 0 = quarters 1 \<and> ms_incumbents t ! 1 = neg_infinity"
proof -
  have d1: "point_distance (map quarters [2, 2, 2]) (map quarters [0, 0, 0]) = quarters 3"
    by (rule quarters_distance [of 2 2 2 0 0 0 1 1 1 3]; simp)
  have d2: "point_distance (map quarters [2, 2, 2]) (map quarters [4, 4, 4]) = quarters 3"
    by (rule quarters_distance [of 2 2 2 4 4 4 1 1 1 3]; simp)
  have d3: "point_distance (map quarters [4, 2, 2]) (map quarters [0, 0, 0]) = quarters 6"
    by (rule quarters_distance [of 4 2 2 0 0 0 2 1 1 6]; simp)
  have d4: "point_distance (map quarters [4, 2, 2]) (map quarters [4, 4, 4]) = quarters 2"
    by (rule quarters_distance [of 4 2 2 4 4 4 0 1 1 2]; simp)
  have d5: "point_distance (map quarters [2, 2, 2]) (map quarters [2, 2, 2]) = quarters 0"
    by (rule quarters_distance [of 2 2 2 2 2 2 0 0 0 0]; simp)
  have d6: "point_distance (map quarters [4, 2, 2]) (map quarters [2, 2, 2]) = quarters 1"
    by (rule quarters_distance [of 4 2 2 2 2 2 1 0 0 1]; simp)
  note f = two_centres_facts
  have above: "flt neg_infinity (quarters 1)" using above_neg_infinity [of "quarters 0" "quarters 1"] quarters_less [of 0 1] by simp
  have same: "fle (quarters 3) (quarters 3)" using quarters_not_special [of 3] by (simp add: fle_def)
  show ?thesis
    using nearest_centre_drops_observation [OF f(1-3,5,6), of "quarters 1" "map quarters [2, 2, 2]" "map quarters [4, 2, 2]" "quarters 6",
        unfolded distance_to_point f(4) f(7-10) d1 d2 d3 d4 d5 d6] above same quarters_less [of 2 6] quarters_less [of 0 3] quarters_less [of 1 2] by auto
qed

definition four_candidates :: "RegionCandidate list" where
  "four_candidates = map (\<lambda>(i, sd, k). \<lparr>rc_index = i, rc_region = 0, rc_seed = sd, rc_score = quarters k\<rparr>)
     [(0, 0, 6), (1, 1, 5), (2, - 1, 4), (3, 3, 2)]"

theorem arms_are_best_and_diverse_witness:
  "\<exists>D F. select_arms four_candidates 3 two_centres = Inr (D @ F) \<and> length (D @ F) = 3 \<and> set (D @ F) \<subseteq> set four_candidates"
proof -
  have p: "distinct (map rc_index four_candidates)" "length four_candidates = 4"
    "\<forall>c\<in>set four_candidates. rc_region c < ms_num_regions two_centres \<and> is_finite (rc_score c)"
    using quarters_facts(1) two_centres_facts(3) by (simp_all add: four_candidates_def)
  have "(0::nat) < 3" "3 \<le> length four_candidates" using p(2) by simp_all
  then obtain D F where "select_arms four_candidates 3 two_centres = Inr (D @ F)" "length (D @ F) = 3" "set (D @ F) \<subseteq> set four_candidates"
    using arms_are_best_and_diverse [of 3 four_candidates two_centres, OF _ _ p(1,3)] by metis
  then show ?thesis by blast
qed

theorem budget_is_divided_witness:
  "\<exists>bs. allocate_with (\<lambda>x. x) 8 [quarters 1, quarters 2] two_centres = Inr bs \<and> contiguous 0 bs \<and> sum_list (map rb_len bs) = 8 \<and>
    map rb_region bs = [0, 1]"
proof -
  have "active_regions two_centres = [0, 1]"
    by (simp add: active_regions_def two_centres_def fresh_state_def multi_config_def numeral_2_eq_2)
  then show ?thesis
    using budget_is_divided [of two_centres "[quarters 1, quarters 2]" 8 "\<lambda>x. x"] quarters_facts(1) two_centres_facts(1,3) by auto
qed

theorem regions_move_to_best_accepted_witness:
  "\<exists>t. multi_tell (3, [map quarters [2, 2, 2]]) [quarters 1] (Some [1]) (two_centres\<lparr>ms_config := (ms_config two_centres)\<lparr>mc_policy := Independent\<rparr>\<rparr>) = (Inr (), t) \<and>
    shaped t"
  using regions_move_to_best_accepted [of "two_centres\<lparr>ms_config := (ms_config two_centres)\<lparr>mc_policy := Independent\<rparr>\<rparr>"
      "[map quarters [2, 2, 2]]" "[quarters 1]" 1 "Some [1]"] two_centres_facts
  by (auto simp: shaped_def)

end
