(* ===== verification/Pareto.thy ===== *)
theory Pareto
  imports Floats
begin

text \<open>
  Acquisition rules (\<open>rust/crates/ennx/src/acquisition.rs\<close>) and the Pareto fronts of two
  objectives (\<open>rust/crates/ennx/src/util.rs\<close>).

  A matrix of objectives is a list of its rows. The random source is a parameter, with its
  shuffle, its uniform sample and its next word; so are the logarithm and the cosine. A loop that
  need not end is a partial function: not returning is \<open>None\<close>.
\<close>

section \<open>Ranking by a value\<close>

text \<open>\<open>sort_by(|a, b| v[b].total_cmp(&v[a]))\<close>.\<close>

definition desc_by :: "(nat \<Rightarrow> f64) \<Rightarrow> nat \<Rightarrow> nat \<Rightarrow> bool" where
  "desc_by v i j \<longleftrightarrow> total_key (v j) \<le> total_key (v i)"

definition sort_desc :: "(nat \<Rightarrow> f64) \<Rightarrow> nat list \<Rightarrow> nat list" where
  "sort_desc v = sort_le (desc_by v)"

text \<open>The same with a second value for ties.\<close>

definition desc_by2 :: "(nat \<Rightarrow> f64) \<Rightarrow> (nat \<Rightarrow> f64) \<Rightarrow> nat \<Rightarrow> nat \<Rightarrow> bool" where
  "desc_by2 a b i j \<longleftrightarrow> total_key (a j) < total_key (a i) \<or>
     total_key (a i) = total_key (a j) \<and> total_key (b j) \<le> total_key (b i)"

section \<open>The front of two objectives\<close>

text \<open>The sweep over the indices in descending order: the best second value so far and the pair
  pushed last (\<open>None\<close> for the two NaNs it starts with).\<close>

fun sweep :: "(nat \<Rightarrow> f64) \<Rightarrow> (nat \<Rightarrow> f64) \<Rightarrow> f64 \<Rightarrow> f64 \<times> f64 \<Rightarrow> nat list \<Rightarrow> nat list" where
  "sweep a b best prev [] = []"
| "sweep a b best prev (i # is) =
     (if flt best (b i) then i # sweep a b (b i) (a i, b i) is
      else if feq (b i) best \<and> feq (a i) (fst prev) \<and> feq (b i) (snd prev) then i # sweep a b best prev is
      else sweep a b best prev is)"

definition front_2d :: "(nat \<Rightarrow> f64) \<Rightarrow> (nat \<Rightarrow> f64) \<Rightarrow> nat list \<Rightarrow> nat list" where
  "front_2d a b is = sweep a b neg_infinity (nan, nan) (sort_le (desc_by2 a b) is)"

datatype util_error = UtilInvalid | UtilPanic

fun check_finite :: "f64 list \<Rightarrow> f64 list \<Rightarrow> nat list \<Rightarrow> util_error + unit" where
  "check_finite a b [] = Inr ()"
| "check_finite a b (i # is) =
     (if i \<ge> length a then Inl UtilPanic
      else if \<not> is_finite (a ! i) \<or> \<not> is_finite (b ! i) then Inl UtilInvalid
      else check_finite a b is)"

definition pareto_front_2d_maximize :: "f64 list \<Rightarrow> f64 list \<Rightarrow> nat list option \<Rightarrow> util_error + nat list" where
  "pareto_front_2d_maximize a b idx =
     (if length a \<noteq> length b then Inl UtilPanic
      else if a = [] then Inr []
      else let indices = (case idx of Some is \<Rightarrow> is | None \<Rightarrow> [0..<length a])
           in rbind (check_finite a b indices) (\<lambda>_. Inr (front_2d ((!) a) ((!) b) indices)))"

section \<open>Arms from the fronts\<close>

definition lcg_step :: "u64 \<Rightarrow> u64" where
  "lcg_step s = s * 6364136223846793005 + 1442695040888963407"

fun draw_from_pool :: "nat \<Rightarrow> u64 \<Rightarrow> nat list \<Rightarrow> nat list" where
  "draw_from_pool 0 s pool = []"
| "draw_from_pool (Suc k) s pool =
     (let s' = lcg_step s; p = unat s' mod length pool
      in pool ! p # draw_from_pool k s' (take p pool @ drop (Suc p) pool))"

definition deterministic_choice :: "nat list \<Rightarrow> nat \<Rightarrow> u64 \<Rightarrow> nat list" where
  "deterministic_choice indices k seed = (if k \<ge> length indices then indices else draw_from_pool k seed indices)"

lemma set_sweep: "set (sweep a b best prev is) \<subseteq> set is"
  by (induction "is" arbitrary: best prev) (auto split: if_splits)

lemma set_front_2d: "set (front_2d a b is) \<subseteq> set is"
  unfolding front_2d_def using set_sweep [of a b] by (metis set_sort_le)

text \<open>The loop ends: a front is not empty and leaves the remaining indices.\<close>

lemma front_shrinks:
  assumes "front_2d a b is \<noteq> []"
  shows "length (filter (\<lambda>i. i \<notin> set (front_2d a b is)) is) < length is"
proof -
  obtain j where "j \<in> set (front_2d a b is)" "j \<in> set is" using assms set_front_2d [of a b "is"] by (cases "front_2d a b is") auto
  then show ?thesis by (intro length_filter_less) auto
qed

lemma pareto_front_cases:
  "pareto_front_2d_maximize a b (Some is) = Inr f \<Longrightarrow> f = [] \<or> f = front_2d ((!) a) ((!) b) is"
  by (auto simp: pareto_front_2d_maximize_def res_simps split: if_splits)

function take_fronts :: "f64 list \<Rightarrow> f64 list \<Rightarrow> nat \<Rightarrow> u64 \<Rightarrow> nat list \<Rightarrow> nat list \<Rightarrow> nat list option" where
  "take_fronts mu se arms seed keep remaining =
     (if remaining = [] \<or> arms \<le> length keep then Some keep
      else case pareto_front_2d_maximize mu se (Some remaining) of
          Inl _ \<Rightarrow> None
        | Inr front \<Rightarrow>
            if front = [] then Some keep
            else let front_sorted = sort_desc ((!) mu) front in
              if length keep + length front_sorted \<le> arms
              then take_fronts mu se arms seed (keep @ front_sorted) (filter (\<lambda>i. i \<notin> set front_sorted) remaining)
              else Some (keep @ deterministic_choice front_sorted (arms - length keep) seed))"
  by pat_completeness auto
termination
proof (relation "measure (\<lambda>(mu, se, arms, seed, keep, remaining). length remaining)", simp, clarsimp)
  fix mu se remaining x
  assume "pareto_front_2d_maximize mu se (Some remaining) = Inr x" "x \<noteq> []"
  then show "length (filter (\<lambda>i. i \<notin> set (sort_desc ((!) mu) x)) remaining) < length remaining"
    using pareto_front_cases [of mu se remaining x] front_shrinks [of "(!) mu" "(!) se" remaining]
    by (auto simp: sort_desc_def)
qed

text \<open>\<open>None\<close> is the panic of \<open>expect\<close>.\<close>

definition arms_from_pareto_fronts :: "f64 list \<Rightarrow> f64 list \<Rightarrow> nat \<Rightarrow> u64 \<Rightarrow> nat list option" where
  "arms_from_pareto_fronts mu se arms seed =
     (if mu = [] \<or> arms = 0 then Some []
      else map_option (sort_desc ((!) mu)) (take_fronts mu se arms seed [] [0..<length mu]))"

declare take_fronts.simps [simp del]

section \<open>Non-dominated sorting\<close>

text \<open>One pass over two rows: whether every value of the first is at least the other's, and whether
  one was greater before the pass stopped.\<close>

fun dom_scan :: "f64 list \<Rightarrow> f64 list \<Rightarrow> bool \<Rightarrow> bool \<times> bool" where
  "dom_scan (x # xs) (y # ys) gt = (if flt x y then (False, gt) else dom_scan xs ys (gt \<or> flt y x))"
| "dom_scan _ _ gt = (True, gt)"

definition dominates :: "f64 list \<Rightarrow> f64 list \<Rightarrow> bool" where
  "dominates x y \<longleftrightarrow> dom_scan x y False = (True, True)"

definition dominated_lists :: "f64 list list \<Rightarrow> nat list list" where
  "dominated_lists objs = map (\<lambda>i. filter (\<lambda>j. i \<noteq> j \<and> dominates (objs ! i) (objs ! j)) [0..<length objs]) [0..<length objs]"

definition domination_counts :: "f64 list list \<Rightarrow> nat list" where
  "domination_counts objs = map (\<lambda>i. length (filter (\<lambda>j. i \<noteq> j \<and>
     \<not> fst (dom_scan (objs ! i) (objs ! j) False) \<and> dominates (objs ! j) (objs ! i)) [0..<length objs])) [0..<length objs]"

fun release :: "nat list \<Rightarrow> nat list \<times> nat list \<Rightarrow> nat list \<times> nat list" where
  "release [] st = st"
| "release (j # js) (counts, next_front) =
     (let c = counts ! j - 1 in release js (counts[j := c], if c = 0 then next_front @ [j] else next_front))"

partial_function (option) peel_fronts :: "nat list list \<Rightarrow> nat list \<Rightarrow> nat list \<Rightarrow> nat list list option" where
  "peel_fronts dominated counts current =
     (if current = [] then Some []
      else let (counts', next_front) = foldl (\<lambda>st i. release (dominated ! i) st) (counts, []) current
           in Option.bind (peel_fronts dominated counts' next_front) (\<lambda>fs. Some (current # fs)))"

partial_function (option) peel_2d :: "(nat \<Rightarrow> f64) \<Rightarrow> (nat \<Rightarrow> f64) \<Rightarrow> nat list \<Rightarrow> nat list list option" where
  "peel_2d a b remaining =
     (if remaining = [] then Some []
      else let sorted = sort_le (desc_by2 a b) remaining;
               front = sweep a b neg_infinity (nan, nan) sorted
           in Option.bind (peel_2d a b (filter (\<lambda>i. i \<notin> set front) sorted)) (\<lambda>fs. Some (front # fs)))"

definition non_domin_sort_2d :: "f64 list list \<Rightarrow> nat list list option" where
  "non_domin_sort_2d objs = peel_2d (\<lambda>i. objs ! i ! 0) (\<lambda>i. objs ! i ! 1) [0..<length objs]"

definition non_domin_sort_any :: "f64 list list \<Rightarrow> nat list list option" where
  "non_domin_sort_any objs = peel_fronts (dominated_lists objs) (domination_counts objs)
     (filter (\<lambda>i. domination_counts objs ! i = 0) [0..<length objs])"

text \<open>\<open>objectives.ncols() == 2\<close> chooses the sweep.\<close>

definition non_domin_sort :: "nat \<Rightarrow> f64 list list \<Rightarrow> nat list list option" where
  "non_domin_sort cols objs = (if cols = 2 then non_domin_sort_2d objs else non_domin_sort_any objs)"

section \<open>The acquisition rules\<close>

datatype AcquisitionError = AcqInvalidParameter | NoCandidates | AcqPanic

record 'r acq_env =
  shuffle :: "nat list \<Rightarrow> 'r \<Rightarrow> nat list \<times> 'r"
  sample_unit :: "'r \<Rightarrow> f64 \<times> 'r"
  next_u64 :: "'r \<Rightarrow> u64 \<times> 'r"
  ln_f64 :: "f64 \<Rightarrow> f64"
  cos_f64 :: "f64 \<Rightarrow> f64"

text \<open>\<open>mu + &(sigma * beta)\<close>: an array of one element is broadcast, other unequal lengths panic.\<close>

definition ucb_scores :: "f64 \<Rightarrow> f64 list \<Rightarrow> f64 list \<Rightarrow> AcquisitionError + f64 list" where
  "ucb_scores beta mu sigma =
     (let s = map (\<lambda>x. fmul x beta) sigma in
      if length mu = length s then Inr (map2 fadd mu s)
      else if length s = 1 then Inr (map (\<lambda>x. fadd x (hd s)) mu)
      else if length mu = 1 then Inr (map (fadd (hd mu)) s)
      else Inl AcqPanic)"

definition best_arms :: "'r acq_env \<Rightarrow> f64 list \<Rightarrow> nat \<Rightarrow> 'r \<Rightarrow> nat list \<times> 'r" where
  "best_arms env scores arms rng =
     (let (is, rng1) = shuffle env [0..<length scores] rng in (take arms (sort_desc ((!) scores) is), rng1))"

definition ucb_select ::
    "'r acq_env \<Rightarrow> f64 \<Rightarrow> f64 list \<Rightarrow> f64 list \<Rightarrow> nat \<Rightarrow> 'r \<Rightarrow> AcquisitionError + nat list \<times> 'r" where
  "ucb_select env beta mu sigma arms rng =
     (if mu = [] then Inl NoCandidates
      else if arms = 0 then Inr ([], rng)
      else rbind (ucb_scores beta mu sigma) (\<lambda>scores. Inr (best_arms env scores arms rng)))"

definition box_muller_sample :: "'r acq_env \<Rightarrow> f64 \<Rightarrow> f64 \<Rightarrow> 'r \<Rightarrow> f64 \<times> 'r" where
  "box_muller_sample env mean std rng =
     (let (u, rng1) = sample_unit env rng;
          u1 = fclamp u (flit 1 (10 ^ 12)) (fsub (flit 1 1) (flit 1 (10 ^ 12)));
          (u2, rng2) = sample_unit env rng1;
          z = fmul (fsqrt (fmul (fneg (flit 2 1)) (ln_f64 env u1)))
                (cos_f64 env (fmul (fmul (flit 2 1) (Ieee 0x400921FB54442D18)) u2))
      in (fadd mean (fmul std z), rng2))"

fun thompson_samples :: "'r acq_env \<Rightarrow> f64 list \<Rightarrow> f64 list \<Rightarrow> 'r \<Rightarrow> AcquisitionError + f64 list \<times> 'r" where
  "thompson_samples env [] sigma rng = Inr ([], rng)"
| "thompson_samples env (m # mu) [] rng = Inl AcqPanic"
| "thompson_samples env (m # mu) (s # sigma) rng =
     (let (x, rng1) = box_muller_sample env m s rng
      in rbind (thompson_samples env mu sigma rng1) (\<lambda>(xs, rng2). Inr (x # xs, rng2)))"

definition thompson_select ::
    "'r acq_env \<Rightarrow> f64 list \<Rightarrow> f64 list \<Rightarrow> nat \<Rightarrow> 'r \<Rightarrow> AcquisitionError + nat list \<times> 'r" where
  "thompson_select env mu sigma arms rng =
     (if mu = [] then Inl NoCandidates
      else if arms = 0 then Inr ([], rng)
      else rbind (thompson_samples env mu sigma rng) (\<lambda>(scores, rng1). Inr (best_arms env scores arms rng1)))"

definition random_select :: "'r acq_env \<Rightarrow> nat \<Rightarrow> nat \<Rightarrow> 'r \<Rightarrow> AcquisitionError + nat list \<times> 'r" where
  "random_select env n arms rng =
     (if n = 0 then Inl NoCandidates
      else let (is, rng1) = shuffle env [0..<n] rng in Inr (take arms is, rng1))"

fun select_from_fronts :: "'r acq_env \<Rightarrow> nat \<Rightarrow> nat list \<Rightarrow> nat list list \<Rightarrow> 'r \<Rightarrow> nat list \<times> 'r" where
  "select_from_fronts env arms selected [] rng = (selected, rng)"
| "select_from_fronts env arms selected (front # fronts) rng =
     (if length selected \<ge> arms then (selected, rng)
      else let remaining = arms - length selected in
        if length front \<le> remaining then select_from_fronts env arms (selected @ front) fronts rng
        else let (f, rng1) = shuffle env front rng
             in select_from_fronts env arms (selected @ take remaining f) fronts rng1)"

text \<open>\<open>mu\<close> and \<open>se\<close> are arrays: their column count and their rows. The outer \<open>None\<close> is a call that
  does not return.\<close>

definition pareto_select ::
    "'r acq_env \<Rightarrow> nat \<times> f64 list list \<Rightarrow> nat \<times> f64 list list \<Rightarrow> nat \<Rightarrow> 'r \<Rightarrow> (AcquisitionError + nat list \<times> 'r) option" where
  "pareto_select env = (\<lambda>(mu_cols, mu) (se_cols, se) arms rng.
     if mu = [] then Some (Inl NoCandidates)
     else if arms = 0 then Some (Inr ([], rng))
     else if length mu \<noteq> length se \<or> mu_cols \<noteq> se_cols then Some (Inl AcqInvalidParameter)
     else if mu_cols = 1
     then (let (seed, rng1) = next_u64 env rng
           in case arms_from_pareto_fronts (map hd mu) (map hd se) (min arms (length mu)) seed of
                None \<Rightarrow> Some (Inl AcqPanic)
              | Some sel \<Rightarrow> Some (Inr (sel, rng1)))
     else Option.bind (non_domin_sort mu_cols mu) (\<lambda>fronts. Some (Inr (select_from_fronts env arms [] fronts rng))))"

end
