(* ===== verification/Optimizer.thy ===== *)
theory Optimizer
  imports MorboRegion MultiRegion IncumbentTracker Pareto Candidates
begin

text \<open>
  The optimiser's state, its stored observations and its incumbent (\<open>rust/crates/ennx/src/optimizer/mod.rs\<close>,
  \<open>incumbent.rs\<close>, \<open>obs_access.rs\<close>, \<open>observation_delta.rs\<close>), with the configuration and strategy data
  it holds (\<open>config.rs\<close>, \<open>strategy/mod.rs\<close>).

  The surrogate is a trait object that a caller can supply: its methods are a parameter
  (\<open>surrogate_ops\<close>) over its own state. So are the random source and libm. A matrix is its column
  count and its rows. Clock readings of the telemetry are left out. A panic is the error \<open>OptPanic\<close>;
  the state returned with it has no meaning.
\<close>

type_synonym matrix = "nat \<times> f64 list list"

datatype OptError = InvalidShape "nat list" "nat list" | InvalidParameter | SurrogateError | OptPanic

record ('s, 'r) surrogate_ops =
  sg_fit_append :: "matrix \<Rightarrow> matrix \<Rightarrow> matrix option \<Rightarrow> 's \<times> 'r \<Rightarrow> (OptError + unit) \<times> 's \<times> 'r"
  sg_predict :: "matrix \<Rightarrow> 's \<Rightarrow> OptError + matrix \<times> matrix"
  sg_sample :: "matrix \<Rightarrow> nat \<Rightarrow> 's \<Rightarrow> 'r \<Rightarrow> OptError + (nat \<times> f64 list list list) \<times> 'r"
  sg_lengthscales :: "'s \<Rightarrow> f64 list option"
  sg_num_metrics :: "'s \<Rightarrow> nat option"
  sg_count :: "'s \<Rightarrow> nat option"
  sg_row_x :: "nat \<Rightarrow> 's \<Rightarrow> OptError + f64 list"
  sg_row_y :: "nat \<Rightarrow> 's \<Rightarrow> OptError + f64 list"
  sg_obs_x :: "'s \<Rightarrow> OptError + matrix option"
  sg_obs_y :: "'s \<Rightarrow> OptError + matrix option"
  sg_schedule :: "'s \<Rightarrow> (OptError + unit) \<times> 's"
  sg_wait :: "'s \<Rightarrow> (OptError + unit) \<times> 's"
  sg_release :: "'s \<Rightarrow> (OptError + unit) \<times> 's"

record ('s, 'r) opt_env =
  oe_surrogate :: "('s, 'r) surrogate_ops"
  oe_new_surrogate :: 's
  oe_cand :: "'r cand_env"
  oe_acq :: "'r acq_env"
  oe_rng :: "'r rng_env"
  oe_below :: "nat \<Rightarrow> 'r \<Rightarrow> nat \<times> 'r"
  oe_mean :: "f64 list \<Rightarrow> f64 option"

section \<open>Configuration and strategy data\<close>

datatype SurrogateConfig = ENN int | NoSurrogate

datatype AcquisitionConfig = AcqThompson | AcqUCB f64 | AcqPareto | AcqRandom

record OptimizerConfig =
  oc_surrogate :: SurrogateConfig
  oc_trust_region :: TrustRegionConfig
  oc_candidates :: CandidateConfig
  oc_acquisition :: AcquisitionConfig
  oc_noise_aware :: bool
  oc_failure_tolerance_dim :: "f64 option"

datatype InitStrategy = LHD | Random

record InitStrategyState =
  strategy_type :: InitStrategy
  num_init :: nat
  completed :: nat

record ExperimentalStrategyState =
  ex_init :: InitStrategyState
  ex_multi_tr :: MultiTrustRegionState
  ex_in_init :: bool
  ex_pending :: "nat list option"

datatype Strategy =
    StInit InitStrategyState
  | StTurbo
  | StHybrid InitStrategyState bool
  | StExperimental ExperimentalStrategyState

section \<open>The state\<close>

record 's Optimizer =
  op_bounds :: "f64 list list"
  op_num_dim :: nat
  op_config :: OptimizerConfig
  op_tr :: TrustRegionState
  op_surrogate :: "'s option"
  op_strategy :: Strategy
  fallback_x :: "f64 list list"
  fallback_y :: "f64 list list"
  incumbent_idx :: "nat option"
  incumbent_x_unit :: "f64 list option"
  incumbent_y_scalar :: "f64 list option"
  restart_generation :: nat
  op_sobol :: "SobolEngine option"
  sobol_seed_base :: nat
  op_candidates :: nat
  op_tracker :: IncrementalIncumbentTracker

fun of_region_error :: "TrustRegionError \<Rightarrow> OptError" where
  "of_region_error TRPanic = OptPanic"
| "of_region_error _ = InvalidParameter"

fun of_cand_error :: "cand_error \<Rightarrow> OptError" where
  "of_cand_error CandPanic = OptPanic"
| "of_cand_error CandInvalid = InvalidParameter"

fun of_acq_error :: "AcquisitionError \<Rightarrow> OptError" where
  "of_acq_error AcqPanic = OptPanic"
| "of_acq_error _ = InvalidParameter"

definition map_err :: "('e \<Rightarrow> 'f) \<Rightarrow> 'e + 'a \<Rightarrow> 'f + 'a" where
  "map_err f r = (case r of Inl e \<Rightarrow> Inl (f e) | Inr x \<Rightarrow> Inr x)"

lemma map_err_simps [simp]: "map_err f (Inl e) = Inl (f e)" "map_err f (Inr x) = Inr x"
  by (simp_all add: map_err_def)

lemma map_err_Inr_conv [res_simps]: "map_err f r = Inr x \<longleftrightarrow> r = Inr x"
  by (cases r) simp_all

text \<open>A call that returns a result with the state, and what runs after it when it succeeds.\<close>

definition then_do :: "('e + 'a) \<times> 'st \<Rightarrow> ('a \<Rightarrow> 'st \<Rightarrow> ('e + 'b) \<times> 'st) \<Rightarrow> ('e + 'b) \<times> 'st" where
  "then_do = (\<lambda>(res, st) f. case res of Inl e \<Rightarrow> (Inl e, st) | Inr x \<Rightarrow> f x st)"

lemma then_do_simps [simp]: "then_do (Inl e, st) f = (Inl e, st)" "then_do (Inr x, st) f = f x st"
  by (simp_all add: then_do_def)

lemma then_do_Inr_conv [res_simps]:
  "then_do p f = (Inr y, st') \<longleftrightarrow> (\<exists>x st. p = (Inr x, st) \<and> f x st = (Inr y, st'))"
  by (cases p; cases "fst p") (auto simp: then_do_def)

section \<open>A new optimiser\<close>

definition opt_new_inner ::
    "('s, 'r) opt_env \<Rightarrow> matrix \<Rightarrow> OptimizerConfig \<Rightarrow> Strategy \<Rightarrow> 's option \<Rightarrow> 'r \<Rightarrow> OptError + 's Optimizer \<times> 'r" where
  "opt_new_inner env = (\<lambda>(cols, bounds) config strategy provided rng.
     let d = length bounds in
     if cols \<noteq> 2 then Inl (InvalidShape [d, 2] [d, cols])
     else rbind (map_err of_region_error (from_config (oe_rng env) d (oc_trust_region config) rng)) (\<lambda>(tr0, rng1).
       let tr = (case (oc_failure_tolerance_dim config, tr0) of
                   (Some fd, Turbo t) \<Rightarrow> Turbo (set_failure_tolerance_dim fd t) | _ \<Rightarrow> tr0);
           surrogate = (case provided of Some g \<Rightarrow> Some g
             | None \<Rightarrow> (case oc_surrogate config of ENN k \<Rightarrow> Some (oe_new_surrogate env) | NoSurrogate \<Rightarrow> None))
       in rbind (if candidate_rv (oc_candidates config) = Sobol
                 then rbind (map_err of_cand_error (sobol_new d)) (\<lambda>e.
                   let (e1, rng2) = sobol_scramble (oe_cand env) e rng1 in Inr (Some e1, rng2))
                 else Inr (None, rng1)) (\<lambda>(engine, rng2).
       let (seed, rng3) = fill_word (oe_cand env) rng2;
           tracker_m = (case oc_surrogate config of ENN k \<Rightarrow> tracker_m_from_enn_k k | NoSurrogate \<Rightarrow> tracker_m_no_surrogate);
           noise_aware = (oc_noise_aware config \<or> (case tr of Morbo m \<Rightarrow> mb_noise_aware m | Turbo _ \<Rightarrow> False))
       in case tracker_new tracker_m noise_aware (st_num_metrics tr) of
            None \<Rightarrow> Inl OptPanic
          | Some tracker \<Rightarrow>
              Inr (\<lparr>op_bounds = bounds, op_num_dim = d, op_config = config, op_tr = tr, op_surrogate = surrogate,
                op_strategy = strategy, fallback_x = [], fallback_y = [], incumbent_idx = None,
                incumbent_x_unit = None, incumbent_y_scalar = None, restart_generation = 0, op_sobol = engine,
                sobol_seed_base = unat seed mod 2 ^ 31, op_candidates = 0, op_tracker = tracker\<rparr>, rng3))))"

definition opt_new_with_strategy ::
    "('s, 'r) opt_env \<Rightarrow> matrix \<Rightarrow> OptimizerConfig \<Rightarrow> Strategy \<Rightarrow> 'r \<Rightarrow> OptError + 's Optimizer \<times> 'r" where
  "opt_new_with_strategy env bounds config strategy = opt_new_inner env bounds config strategy None"

definition opt_new_with_surrogate ::
    "('s, 'r) opt_env \<Rightarrow> matrix \<Rightarrow> OptimizerConfig \<Rightarrow> Strategy \<Rightarrow> 's \<Rightarrow> 'r \<Rightarrow> OptError + 's Optimizer \<times> 'r" where
  "opt_new_with_surrogate env bounds config strategy g = opt_new_inner env bounds config strategy (Some g)"

definition opt_new ::
    "('s, 'r) opt_env \<Rightarrow> matrix \<Rightarrow> OptimizerConfig \<Rightarrow> 'r \<Rightarrow> OptError + 's Optimizer \<times> 'r" where
  "opt_new env bounds config = opt_new_with_strategy env bounds config
     (StHybrid \<lparr>strategy_type = LHD, num_init = 10, completed = 0\<rparr> True)"

section \<open>Stored observations\<close>

definition obs_count :: "('s, 'r) opt_env \<Rightarrow> 's Optimizer \<Rightarrow> nat" where
  "obs_count env s = (case op_surrogate s of
      Some g \<Rightarrow> (case sg_count (oe_surrogate env) g of Some n \<Rightarrow> n | None \<Rightarrow> 0)
    | None \<Rightarrow> length (fallback_x s))"

definition observations_empty :: "('s, 'r) opt_env \<Rightarrow> 's Optimizer \<Rightarrow> bool" where
  "observations_empty env s \<longleftrightarrow> obs_count env s = 0"

definition obs_row_x :: "('s, 'r) opt_env \<Rightarrow> 's Optimizer \<Rightarrow> nat \<Rightarrow> OptError + f64 list" where
  "obs_row_x env s i = (case op_surrogate s of
      Some g \<Rightarrow> sg_row_x (oe_surrogate env) i g
    | None \<Rightarrow> if i < length (fallback_x s) then Inr (fallback_x s ! i) else Inl InvalidParameter)"

definition obs_row_y :: "('s, 'r) opt_env \<Rightarrow> 's Optimizer \<Rightarrow> nat \<Rightarrow> OptError + f64 list" where
  "obs_row_y env s i = (case op_surrogate s of
      Some g \<Rightarrow> sg_row_y (oe_surrogate env) i g
    | None \<Rightarrow> if i < length (fallback_y s) then Inr (fallback_y s ! i) else Inl InvalidParameter)"

text \<open>The width is that of the first row; a shorter row panics.\<close>

definition build_obs_array2 :: "f64 list list \<Rightarrow> OptError + matrix" where
  "build_obs_array2 rows =
     (case rows of [] \<Rightarrow> Inl OptPanic
      | r # rs \<Rightarrow> if list_all (\<lambda>v. length r \<le> length v) rows then Inr (length r, map (take (length r)) rows) else Inl OptPanic)"

definition stored_array ::
    "('s, 'r) opt_env \<Rightarrow> ('s \<Rightarrow> OptError + matrix option) \<Rightarrow> f64 list list \<Rightarrow> 's Optimizer \<Rightarrow> OptError + matrix option" where
  "stored_array env method rows s = (case op_surrogate s of
      Some g \<Rightarrow> Inr (case method g of Inr m \<Rightarrow> m | Inl _ \<Rightarrow> None)
    | None \<Rightarrow> if rows = [] then Inr None else rbind (build_obs_array2 rows) (\<lambda>m. Inr (Some m)))"

definition x_obs :: "('s, 'r) opt_env \<Rightarrow> 's Optimizer \<Rightarrow> OptError + matrix option" where
  "x_obs env s = stored_array env (sg_obs_x (oe_surrogate env)) (fallback_x s) s"

definition y_obs :: "('s, 'r) opt_env \<Rightarrow> 's Optimizer \<Rightarrow> OptError + matrix option" where
  "y_obs env s = stored_array env (sg_obs_y (oe_surrogate env)) (fallback_y s) s"

record ObservationDelta =
  od_old_n :: nat
  od_new_n :: nat
  od_x :: matrix
  od_y :: matrix

definition observation_delta_from_batch :: "nat \<Rightarrow> matrix \<Rightarrow> matrix \<Rightarrow> OptError + ObservationDelta" where
  "observation_delta_from_batch old_n x y =
     (let new_n = min (old_n + length (snd x)) (2 ^ 64 - 1) in
      if new_n \<le> old_n then Inl InvalidParameter
      else Inr \<lparr>od_old_n = old_n, od_new_n = new_n, od_x = x, od_y = y\<rparr>)"

definition prepare_observations :: "('s, 'r) opt_env \<Rightarrow> matrix \<Rightarrow> matrix \<Rightarrow> 's Optimizer \<Rightarrow> OptError + ObservationDelta" where
  "prepare_observations env x y s =
     (if length (snd x) \<noteq> length (snd y)
      then Inl (InvalidShape [length (snd x), fst y] [length (snd y), fst y])
      else observation_delta_from_batch (obs_count env s) x y)"

fun commit_rows :: "nat \<Rightarrow> f64 list list \<Rightarrow> f64 list list \<Rightarrow> 's Optimizer \<Rightarrow> (OptError + unit) \<times> 's Optimizer" where
  "commit_rows i [] ys s = (Inr (), s)"
| "commit_rows i (x # xs) [] s = (Inl OptPanic, s)"
| "commit_rows i (x # xs) (y # ys) s =
     (case tracker_tell (i, y) (op_tracker s) of
        None \<Rightarrow> (Inl OptPanic, s)
      | Some t \<Rightarrow>
          let s1 = s\<lparr>op_tracker := t\<rparr>;
              s2 = (if op_surrogate s1 = None
                    then s1\<lparr>fallback_x := fallback_x s1 @ [x], fallback_y := fallback_y s1 @ [y]\<rparr> else s1)
          in commit_rows (i + 1) xs ys s2)"

definition commit_observations :: "ObservationDelta \<Rightarrow> 's Optimizer \<Rightarrow> (OptError + unit) \<times> 's Optimizer" where
  "commit_observations d = commit_rows (od_old_n d) (snd (od_x d)) (snd (od_y d))"

definition add_observations ::
    "('s, 'r) opt_env \<Rightarrow> matrix \<Rightarrow> matrix \<Rightarrow> 's Optimizer \<Rightarrow> (OptError + ObservationDelta) \<times> 's Optimizer" where
  "add_observations env x y s =
     then_do (prepare_observations env x y s, s) (\<lambda>d s1. then_do (commit_observations d s1) (\<lambda>_ s2. (Inr d, s2)))"

section \<open>The incumbent\<close>

text \<open>\<open>util.rs\<close>: the position of a largest value, drawn among ties.\<close>

definition argmax_random_tie :: "('s, 'r) opt_env \<Rightarrow> f64 list \<Rightarrow> 'r \<Rightarrow> nat \<times> 'r" where
  "argmax_random_tie env values rng =
     (if values = [] then (0, rng)
      else let max_val = foldl fmax neg_infinity values;
               ties = filter (\<lambda>i. fle max_val (values ! i)) [0..<length values]
        in if ties = [] then oe_below env (length values) rng
           else if length ties = 1 then (ties ! 0, rng)
           else (let (k, rng1) = oe_below env (length ties) rng in (ties ! k, rng1)))"

definition clear_incumbent :: "'s Optimizer \<Rightarrow> 's Optimizer" where
  "clear_incumbent s = s\<lparr>incumbent_idx := None, incumbent_x_unit := None, incumbent_y_scalar := None\<rparr>"

definition reset_incumbent_tracker :: "'s Optimizer \<Rightarrow> 's Optimizer" where
  "reset_incumbent_tracker s = s\<lparr>op_tracker := tracker_reset (op_tracker s)\<rparr>"

definition increment_restart_generation :: "'s Optimizer \<Rightarrow> 's Optimizer" where
  "increment_restart_generation s = s\<lparr>restart_generation := restart_generation s + 1\<rparr>"

text \<open>Rows copied into a matrix of a given width; a shorter row panics.\<close>

definition gather_rows :: "(nat \<Rightarrow> OptError + f64 list) \<Rightarrow> nat \<Rightarrow> nat list \<Rightarrow> OptError + f64 list list" where
  "gather_rows row width = map_res (\<lambda>i. rbind (row i) (\<lambda>r. if length r < width then Inl OptPanic else Inr (take width r)))"

definition first_column :: "nat \<Rightarrow> matrix \<Rightarrow> OptError + f64 list" where
  "first_column n m = (if fst m = 0 \<or> length (snd m) < n then Inl OptPanic else Inr (map hd (take n (snd m))))"

text \<open>The index is stored before the rows are read.\<close>

definition store_incumbent ::
    "('s, 'r) opt_env \<Rightarrow> nat \<Rightarrow> ('s Optimizer \<Rightarrow> OptError + f64 list) \<Rightarrow> 's Optimizer \<Rightarrow> (OptError + unit) \<times> 's Optimizer" where
  "store_incumbent env i y s =
     (let s1 = s\<lparr>incumbent_idx := Some i\<rparr> in
      case obs_row_x env s1 i of
        Inl e \<Rightarrow> (Inl e, s1)
      | Inr x \<Rightarrow>
          let s2 = s1\<lparr>incumbent_x_unit := Some x\<rparr> in
          (case y s2 of Inl e \<Rightarrow> (Inl e, s2) | Inr v \<Rightarrow> (Inr (), s2\<lparr>incumbent_y_scalar := Some v\<rparr>)))"

definition pick_noise_aware_incumbent ::
    "('s, 'r) opt_env \<Rightarrow> 's \<Rightarrow> nat list \<Rightarrow> 's Optimizer \<Rightarrow> (OptError + unit) \<times> 's Optimizer" where
  "pick_noise_aware_incumbent env g cand s =
     (case rbind (gather_rows (obs_row_x env s) (op_num_dim s) cand) (\<lambda>xs.
           rbind (sg_predict (oe_surrogate env) (op_num_dim s, xs) g) (\<lambda>(mu, se). first_column (length cand) mu)) of
        Inl e \<Rightarrow> (Inl e, s)
      | Inr mus \<Rightarrow>
          let (best, best_mu) = foldl (\<lambda>(b, bm) (i, m). if flt bm m then (i, m) else (b, bm)) (cand ! 0, mus ! 0) (tl (zip cand mus))
          in store_incumbent env best (\<lambda>_. Inr [best_mu]) s)"

definition pick_scalarized_incumbent ::
    "('s, 'r) opt_env \<Rightarrow> nat list \<Rightarrow> 's Optimizer \<times> 'r \<Rightarrow> (OptError + unit) \<times> 's Optimizer \<times> 'r" where
  "pick_scalarized_incumbent env cand = (\<lambda>(s, rng).
     let nm = st_num_metrics (op_tr s);
         noisy = (case op_tr s of Morbo m \<Rightarrow> mb_noise_aware m | Turbo _ \<Rightarrow> False)
     in case rbind (gather_rows (obs_row_y env s) nm cand) (\<lambda>ys.
           case (noisy, op_surrogate s) of
             (True, Some g) \<Rightarrow> rbind (gather_rows (obs_row_x env s) (op_num_dim s) cand) (\<lambda>xs.
                rbind (sg_predict (oe_surrogate env) (op_num_dim s, xs) g) (\<lambda>(mu, se). Inr mu))
           | _ \<Rightarrow> Inr (nm, ys)) of
          Inl e \<Rightarrow> (Inl e, s, rng)
        | Inr rows \<Rightarrow>
            (case map_err of_region_error (st_scalarize rows True (op_tr s)) of
               Inl e \<Rightarrow> (Inl e, s, rng)
             | Inr scores \<Rightarrow>
                 let (pos, rng1) = argmax_random_tie env scores rng in
                 if pos \<ge> length cand then (Inl OptPanic, s, rng1)
                 else let (res, s1) = store_incumbent env (cand ! pos) (\<lambda>_. Inr (snd rows ! pos)) s in (res, s1, rng1)))"

text \<open>\<open>max_by\<close> keeps the later of two equal elements; a row that cannot be read compares equal.\<close>

definition first_greater :: "('s, 'r) opt_env \<Rightarrow> 's Optimizer \<Rightarrow> nat \<Rightarrow> nat \<Rightarrow> OptError + bool" where
  "first_greater env s a b =
     (case obs_row_y env s a of
        Inl _ \<Rightarrow> Inr False
      | Inr ya \<Rightarrow> (case obs_row_y env s b of
          Inl _ \<Rightarrow> Inr False
        | Inr yb \<Rightarrow> if ya = [] \<or> yb = [] then Inl OptPanic else Inr (total_key (yb ! 0) < total_key (ya ! 0))))"

fun max_by_value :: "('s, 'r) opt_env \<Rightarrow> 's Optimizer \<Rightarrow> nat \<Rightarrow> nat list \<Rightarrow> OptError + nat" where
  "max_by_value env s best [] = Inr best"
| "max_by_value env s best (i # is) =
     rbind (first_greater env s best i) (\<lambda>g. max_by_value env s (if g then best else i) is)"

definition pick_best_incumbent ::
    "('s, 'r) opt_env \<Rightarrow> nat list \<Rightarrow> 's Optimizer \<Rightarrow> (OptError + unit) \<times> 's Optimizer" where
  "pick_best_incumbent env cand s =
     (case max_by_value env s (hd cand) (tl cand) of
        Inl e \<Rightarrow> (Inl e, s)
      | Inr best \<Rightarrow> store_incumbent env best (\<lambda>s2. obs_row_y env s2 best) s)"

text \<open>The tracker is rebuilt when it does not know all observations.\<close>

definition sync_tracker :: "('s, 'r) opt_env \<Rightarrow> 's Optimizer \<Rightarrow> (OptError + unit) \<times> 's Optimizer" where
  "sync_tracker env s =
     (if tk_count (op_tracker s) = obs_count env s then (Inr (), s)
      else case y_obs env s of
          Inl e \<Rightarrow> (Inl e, s)
        | Inr None \<Rightarrow> (Inr (), s)
        | Inr (Some m) \<Rightarrow> (case tracker_rebuild (snd m) (op_tracker s) of
              None \<Rightarrow> (Inl OptPanic, s)
            | Some t \<Rightarrow> (Inr (), s\<lparr>op_tracker := t\<rparr>)))"

definition update_incumbent ::
    "('s, 'r) opt_env \<Rightarrow> 's Optimizer \<times> 'r \<Rightarrow> (OptError + unit) \<times> 's Optimizer \<times> 'r" where
  "update_incumbent env = (\<lambda>(s0, rng).
     if observations_empty env s0 then (Inr (), clear_incumbent s0, rng)
     else case sync_tracker env s0 of
         (Inl e, s) \<Rightarrow> (Inl e, s, rng)
       | (Inr _, s) \<Rightarrow>
           let cand = tracker_ask (op_tracker s) in
           if cand = [] then (Inr (), clear_incumbent s, rng)
           else if is_morbo (op_tr s) then pick_scalarized_incumbent env cand (s, rng)
           else (case (oc_noise_aware (op_config s), op_surrogate s) of
               (True, Some g) \<Rightarrow> (let (res, s1) = pick_noise_aware_incumbent env g cand s in (res, s1, rng))
             | _ \<Rightarrow> (let (res, s1) = pick_best_incumbent env cand s in (res, s1, rng))))"

definition init_progress :: "'s Optimizer \<Rightarrow> (nat \<times> nat) option" where
  "init_progress s = (case op_strategy s of
      StInit st \<Rightarrow> Some (completed st, num_init st)
    | StHybrid st True \<Rightarrow> Some (completed st, num_init st)
    | StExperimental ex \<Rightarrow> if ex_in_init ex then Some (completed (ex_init ex), num_init (ex_init ex)) else None
    | _ \<Rightarrow> None)"

end
