(* ===== verification/Strategy.thy ===== *)
theory Strategy
  imports Optimizer
begin

text \<open>
  The strategies and the two calls of the optimiser, \<open>ask\<close> and \<open>tell\<close>
  (\<open>rust/crates/ennx/src/strategy/mod.rs\<close>, \<open>optimizer/mod.rs\<close>).

  A strategy is taken out of the optimiser while it runs and put back afterwards. The outer option of
  \<open>ask\<close> is a call that does not return (the non-dominated sort may not). An \<open>InvalidParameter\<close> carries
  no text.
\<close>

section \<open>Strategies\<close>

definition init_state :: "InitStrategy \<Rightarrow> nat \<Rightarrow> InitStrategyState" where
  "init_state ty n = \<lparr>strategy_type = ty, num_init = n, completed = 0\<rparr>"

definition experimental_new ::
    "('s, 'r) opt_env \<Rightarrow> nat \<Rightarrow> nat \<Rightarrow> nat \<Rightarrow> 'r \<Rightarrow> OptError + ExperimentalStrategyState \<times> 'r" where
  "experimental_new env num_dim num_regions n rng =
     rbind (map_err of_region_error
         (multi_new (gen_unit (oe_cand env)) num_dim (multi_config num_regions default_lengths) None rng)) (\<lambda>(m, rng1).
       Inr (\<lparr>ex_init = init_state LHD n, ex_multi_tr = m, ex_in_init = 0 < n, ex_pending = None\<rparr>, rng1))"

definition strategy_init :: "InitStrategy \<Rightarrow> nat \<Rightarrow> Strategy" where
  "strategy_init ty n = StInit (init_state ty n)"

definition strategy_turbo :: Strategy where
  "strategy_turbo = StTurbo"

definition strategy_hybrid :: "InitStrategy \<Rightarrow> nat \<Rightarrow> Strategy" where
  "strategy_hybrid ty n = StHybrid (init_state ty n) True"

definition strategy_experimental ::
    "('s, 'r) opt_env \<Rightarrow> nat \<Rightarrow> nat \<Rightarrow> nat \<Rightarrow> 'r \<Rightarrow> OptError + Strategy \<times> 'r" where
  "strategy_experimental env d k n rng = rbind (experimental_new env d k n rng) (\<lambda>(ex, rng1). Inr (StExperimental ex, rng1))"

section \<open>Selecting arms\<close>

text \<open>\<open>ndarray::stack\<close> of no rows is an error, which the code expects away.\<close>

definition select_by_indices :: "f64 list list \<Rightarrow> nat list \<Rightarrow> OptError + f64 list list" where
  "select_by_indices rows is =
     (if is = [] \<or> (\<exists>i\<in>set is. i \<ge> length rows) then Inl OptPanic else Inr (map ((!) rows) is))"

definition acq_result :: "AcquisitionError + nat list \<times> 'r \<Rightarrow> OptError + nat list \<times> 'r" where
  "acq_result = map_err of_acq_error"

definition rows_result :: "f64 list list \<Rightarrow> OptError + nat list \<times> 'r \<Rightarrow> OptError + f64 list list \<times> 'r" where
  "rows_result rows res = rbind res (\<lambda>(is, rng). rbind (select_by_indices rows is) (\<lambda>sel. Inr (sel, rng)))"

text \<open>Samples by arm and candidate, checked against the indices the code reads.\<close>

definition sampled ::
    "('s, 'r) opt_env \<Rightarrow> 's \<Rightarrow> matrix \<Rightarrow> nat \<Rightarrow> 'r \<Rightarrow> OptError + (nat \<times> f64 list list list) \<times> 'r" where
  "sampled env g x arms rng =
     rbind (sg_sample (oe_surrogate env) x arms g rng) (\<lambda>((metrics, samples), rng1).
       if length samples < arms \<or> (\<exists>s\<in>set (take arms samples). length s < length (snd x) \<or> (\<exists>v\<in>set s. length v < metrics))
       then Inl OptPanic
       else Inr ((metrics, map (take (length (snd x))) (take arms samples)), rng1))"

text \<open>One arm after the other, each from its own row of scores, with the positions chosen before
  excluded.\<close>

fun pick_each :: "('s, 'r) opt_env \<Rightarrow> f64 list list \<Rightarrow> nat list \<Rightarrow> 'r \<Rightarrow> OptError + nat list \<times> 'r" where
  "pick_each env [] chosen rng = Inr (chosen, rng)"
| "pick_each env (scores # rest) chosen rng =
     (if \<exists>p\<in>set chosen. p \<ge> length scores then Inl OptPanic
      else let values = foldl (\<lambda>v p. v[p := neg_infinity]) scores chosen;
               (k, rng1) = argmax_random_tie env values rng
        in pick_each env rest (chosen @ [k]) rng1)"

text \<open>\<open>xs\<close> cut into rows of width \<open>n\<close>.\<close>

definition reshape_rows :: "nat \<Rightarrow> nat \<Rightarrow> 'a list \<Rightarrow> 'a list list" where
  "reshape_rows k n xs = map (\<lambda>i. take n (drop (i * n) xs)) [0..<k]"

definition sort_partial_desc :: "(nat \<Rightarrow> f64) \<Rightarrow> nat list \<Rightarrow> nat list" where
  "sort_partial_desc v = sort_le (\<lambda>i j. \<not> flt (v i) (v j))"

definition select_with_thompson ::
    "('s, 'r) opt_env \<Rightarrow> TrustRegionState \<Rightarrow> 's \<Rightarrow> matrix \<Rightarrow> nat \<Rightarrow> 'r \<Rightarrow> OptError + nat list \<times> 'r" where
  "select_with_thompson env tr g x arms rng =
     (let n = length (snd x) in
      rbind (sampled env g x arms rng) (\<lambda>((metrics, samples), rng1).
        if is_morbo tr
        then rbind (map_err of_region_error (st_scalarize (metrics, concat samples) False tr)) (\<lambda>scores.
               pick_each env (reshape_rows arms n scores) [] rng1)
        else if 0 < n \<and> (arms = 0 \<or> metrics = 0) then Inl OptPanic
        else Inr (take arms (sort_partial_desc (\<lambda>i. samples ! 0 ! i ! 0) [0..<n]), rng1)))"

text \<open>\<open>&mu + &(se * beta)\<close> for two arrays of one shape.\<close>

definition ucb_matrix :: "f64 \<Rightarrow> matrix \<Rightarrow> matrix \<Rightarrow> OptError + matrix" where
  "ucb_matrix beta mu se =
     (if fst mu \<noteq> fst se \<or> length (snd mu) \<noteq> length (snd se) then Inl OptPanic
      else Inr (fst mu, map2 (map2 (\<lambda>m s. fadd m (fmul s beta))) (snd mu) (snd se)))"

definition column0 :: "matrix \<Rightarrow> OptError + f64 list" where
  "column0 m = first_column (length (snd m)) m"

definition select_with_ucb ::
    "('s, 'r) opt_env \<Rightarrow> TrustRegionState \<Rightarrow> 's \<Rightarrow> matrix \<Rightarrow> nat \<Rightarrow> f64 \<Rightarrow> 'r \<Rightarrow> OptError + nat list \<times> 'r" where
  "select_with_ucb env tr g x arms beta rng =
     rbind (sg_predict (oe_surrogate env) x g) (\<lambda>(mu, se).
       if is_morbo tr
       then rbind (ucb_matrix beta mu se) (\<lambda>vals.
            rbind (map_err of_region_error (st_scalarize vals False tr)) (\<lambda>scores.
            Inr (best_arms (oe_acq env) scores arms rng)))
       else rbind (column0 mu) (\<lambda>m. rbind (column0 se) (\<lambda>s.
            acq_result (ucb_select (oe_acq env) beta m s arms rng))))"

definition select_with_pareto ::
    "('s, 'r) opt_env \<Rightarrow> 's \<Rightarrow> matrix \<Rightarrow> nat \<Rightarrow> 'r \<Rightarrow> (OptError + nat list \<times> 'r) option" where
  "select_with_pareto env g x arms rng =
     (case sg_predict (oe_surrogate env) x g of
        Inl e \<Rightarrow> Some (Inl e)
      | Inr (mu, se) \<Rightarrow> map_option acq_result (pareto_select (oe_acq env) mu se arms rng))"

definition select_arms_from ::
    "('s, 'r) opt_env \<Rightarrow> 's Optimizer \<Rightarrow> matrix \<Rightarrow> nat \<Rightarrow> 'r \<Rightarrow> (OptError + f64 list list \<times> 'r) option" where
  "select_arms_from env s x arms rng =
     map_option (rows_result (snd x))
       (case (oc_acquisition (op_config s), op_surrogate s) of
          (AcqThompson, Some g) \<Rightarrow> Some (select_with_thompson env (op_tr s) g x arms rng)
        | (AcqUCB beta, Some g) \<Rightarrow> Some (select_with_ucb env (op_tr s) g x arms beta rng)
        | (AcqPareto, Some g) \<Rightarrow> select_with_pareto env g x arms rng
        | _ \<Rightarrow> Some (acq_result (random_select (oe_acq env) (length (snd x)) arms rng)))"

section \<open>Selecting arms in segments\<close>

record CandidateSegment =
  cs_start :: nat
  cs_end :: nat
  cs_arms :: nat
  cs_region :: nat

text \<open>Every segment contributes its own selection; the first failure ends the call.\<close>

fun over_segments ::
    "(CandidateSegment \<Rightarrow> 'r \<Rightarrow> (OptError + nat list \<times> 'r) option) \<Rightarrow> CandidateSegment list \<Rightarrow> 'r
      \<Rightarrow> (OptError + nat list \<times> 'r) option" where
  "over_segments f [] rng = Some (Inr ([], rng))"
| "over_segments f (seg # segs) rng =
     (case f seg rng of
        None \<Rightarrow> None
      | Some (Inl e) \<Rightarrow> Some (Inl e)
      | Some (Inr (local, rng1)) \<Rightarrow>
          (case over_segments f segs rng1 of
             Some (Inr (rest, rng2)) \<Rightarrow> Some (Inr (local @ rest, rng2))
           | other \<Rightarrow> other))"

text \<open>Positions within a segment, as rows of all candidates.\<close>

definition at_offset :: "CandidateSegment \<Rightarrow> OptError + nat list \<times> 'r \<Rightarrow> OptError + nat list \<times> 'r" where
  "at_offset seg res = rbind res (\<lambda>(local, rng). Inr (map (\<lambda>i. cs_start seg + i) local, rng))"

definition segment_rows :: "CandidateSegment \<Rightarrow> 'a list \<Rightarrow> 'a list" where
  "segment_rows seg xs = take (cs_end seg - cs_start seg) (drop (cs_start seg) xs)"

definition select_segmented_random ::
    "('s, 'r) opt_env \<Rightarrow> CandidateSegment list \<Rightarrow> 'r \<Rightarrow> (OptError + nat list \<times> 'r) option" where
  "select_segmented_random env = over_segments (\<lambda>seg rng.
     Some (at_offset seg (acq_result (random_select (oe_acq env) (cs_end seg - cs_start seg) (cs_arms seg) rng))))"

definition select_segmented_thompson ::
    "('s, 'r) opt_env \<Rightarrow> TrustRegionState \<Rightarrow> 's \<Rightarrow> matrix \<Rightarrow> CandidateSegment list \<Rightarrow> 'r \<Rightarrow> (OptError + nat list \<times> 'r) option" where
  "select_segmented_thompson env tr g x segs rng =
     (let max_arms = (if segs = [] then 1 else Max (set (map cs_arms segs))); n = length (snd x) in
      case rbind (sampled env g x max_arms rng) (\<lambda>((metrics, samples), rng1).
          if is_morbo tr
          then rbind (map_err of_region_error (st_scalarize (metrics, concat samples) False tr)) (\<lambda>scores.
                 Inr (reshape_rows max_arms n scores, rng1))
          else if max_arms = 0 \<or> (0 < n \<and> metrics = 0) then Inl OptPanic
          else Inr (replicate max_arms (map hd (samples ! 0)), rng1)) of
        Inl e \<Rightarrow> Some (Inl e)
      | Inr (scores, rng1) \<Rightarrow>
          over_segments (\<lambda>seg rng.
            Some (at_offset seg (pick_each env (map (segment_rows seg) (take (cs_arms seg) scores)) [] rng))) segs rng1)"

definition select_segmented_ucb ::
    "('s, 'r) opt_env \<Rightarrow> TrustRegionState \<Rightarrow> 's \<Rightarrow> matrix \<Rightarrow> CandidateSegment list \<Rightarrow> f64 \<Rightarrow> 'r \<Rightarrow> (OptError + nat list \<times> 'r) option" where
  "select_segmented_ucb env tr g x segs beta rng =
     (case rbind (sg_predict (oe_surrogate env) x g) (\<lambda>(mu, se).
          if is_morbo tr
          then rbind (ucb_matrix beta mu se) (\<lambda>vals. map_err of_region_error (st_scalarize vals False tr))
          else rbind (column0 mu) (\<lambda>m. rbind (column0 se) (\<lambda>s.
               map_err of_acq_error (ucb_scores beta m s)))) of
        Inl e \<Rightarrow> Some (Inl e)
      | Inr scores \<Rightarrow>
          over_segments (\<lambda>seg rng. if length scores < cs_end seg then Some (Inl OptPanic)
              else let (is, rng1) = shuffle (oe_acq env) [cs_start seg..<cs_end seg] rng
                   in Some (Inr (take (cs_arms seg) (sort_desc ((!) scores) is), rng1))) segs rng)"

definition select_segmented_pareto ::
    "('s, 'r) opt_env \<Rightarrow> 's \<Rightarrow> matrix \<Rightarrow> CandidateSegment list \<Rightarrow> 'r \<Rightarrow> (OptError + nat list \<times> 'r) option" where
  "select_segmented_pareto env g x segs rng =
     (case sg_predict (oe_surrogate env) x g of
        Inl e \<Rightarrow> Some (Inl e)
      | Inr (mu, se) \<Rightarrow>
          over_segments (\<lambda>seg rng. if length (snd mu) < cs_end seg \<or> length (snd se) < cs_end seg then Some (Inl OptPanic)
              else map_option (at_offset seg \<circ> acq_result) (pareto_select (oe_acq env) (fst mu, segment_rows seg (snd mu))
                (fst se, segment_rows seg (snd se)) (cs_arms seg) rng)) segs rng)"

definition select_segmented_arms ::
    "('s, 'r) opt_env \<Rightarrow> 's Optimizer \<Rightarrow> matrix \<Rightarrow> CandidateSegment list \<Rightarrow> 'r \<Rightarrow> (OptError + nat list \<times> 'r) option" where
  "select_segmented_arms env s x segs rng =
     (case (oc_acquisition (op_config s), op_surrogate s) of
        (AcqThompson, Some g) \<Rightarrow> select_segmented_thompson env (op_tr s) g x segs rng
      | (AcqUCB beta, Some g) \<Rightarrow> select_segmented_ucb env (op_tr s) g x segs beta rng
      | (AcqPareto, Some g) \<Rightarrow> select_segmented_pareto env g x segs rng
      | _ \<Rightarrow> select_segmented_random env segs rng)"

section \<open>Asking\<close>

text \<open>The unit bounds are zeros and ones.\<close>

definition ask_init ::
    "('s, 'r) opt_env \<Rightarrow> InitStrategyState \<Rightarrow> 's Optimizer \<Rightarrow> nat \<Rightarrow> 'r \<Rightarrow> OptError + f64 list list \<times> 'r" where
  "ask_init env st s arms rng =
     (let d = op_num_dim s in
      case strategy_type st of
        LHD \<Rightarrow> Inr (generate_lhd (oe_cand env) arms (replicate d (fzero, flit 1 1)) rng)
      | Random \<Rightarrow> map_err of_cand_error (generate_uniform (oe_cand env) (replicate d fzero) (replicate d (flit 1 1)) arms rng))"

definition surrogate_lengthscales :: "('s, 'r) opt_env \<Rightarrow> 's Optimizer \<Rightarrow> f64 list option" where
  "surrogate_lengthscales env s = Option.bind (op_surrogate s) (sg_lengthscales (oe_surrogate env))"

definition center_or_middle :: "'s Optimizer \<Rightarrow> f64 list" where
  "center_or_middle s = (case incumbent_x_unit s of Some x \<Rightarrow> x | None \<Rightarrow> replicate (op_num_dim s) (flit 1 2))"

definition ask_turbo ::
    "('s, 'r) opt_env \<Rightarrow> nat \<Rightarrow> 's Optimizer \<times> 'r \<Rightarrow> ((OptError + f64 list list) \<times> 's Optimizer \<times> 'r) option" where
  "ask_turbo env arms = (\<lambda>(s0, rng0).
     let (tr1, rng1) = resample_on_propose (oe_rng env) (op_tr s0, rng0);
         tr2 = st_set_num_arms arms tr1;
         (res, tr3) = (if is_morbo tr2 \<and> obs_count env s0 > 0
                       then morbo_rescalarize_incumbent (obs_count env s0) tr2 else (Inr (), tr2));
         s = s0\<lparr>op_tr := tr3\<rparr>
     in case map_err of_region_error res of
          Inl e \<Rightarrow> Some (Inl e, s, rng1)
        | Inr _ \<Rightarrow>
            let center = center_or_middle s; ls = surrogate_lengthscales env s; cfg = oc_candidates (op_config s) in
            (case map_err of_region_error (st_bounds_1d center ls (op_tr s)) of
               Inl e \<Rightarrow> Some (Inl e, s, rng1)
             | Inr bounds \<Rightarrow>
                 let n = num_candidates cfg (op_num_dim s) arms;
                     (cands, engine) = generate_candidates (oe_cand env) bounds center ls n (candidate_rv cfg) (op_sobol s)
                        (num_pert cfg) rng1;
                     s1 = s\<lparr>op_candidates := n, op_sobol := engine\<rparr>
                 in (case map_err of_cand_error cands of
                       Inl e \<Rightarrow> Some (Inl e, s1, rng1)
                     | Inr (rows, rng2) \<Rightarrow>
                         (case select_arms_from env s1 (length center, rows) arms rng2 of
                            None \<Rightarrow> None
                          | Some (Inl e) \<Rightarrow> Some (Inl e, s1, rng2)
                          | Some (Inr (sel, rng3)) \<Rightarrow> Some (Inr sel, s1, rng3)))))"

fun restart_regions :: "f64 list \<Rightarrow> nat list \<Rightarrow> MultiTrustRegionState \<Rightarrow> (OptError + unit) \<times> MultiTrustRegionState" where
  "restart_regions c [] m = (Inr (), m)"
| "restart_regions c (r # rs) m =
     (case restart_region r c m of
        Inl e \<Rightarrow> (Inl (of_region_error e), m)
      | Inr m1 \<Rightarrow> restart_regions c rs m1)"

definition experimental_restart_all_regions ::
    "'s Optimizer \<Rightarrow> ExperimentalStrategyState \<Rightarrow> (OptError + unit) \<times> ExperimentalStrategyState" where
  "experimental_restart_all_regions s ex =
     (if active_count (ex_multi_tr ex) > 0 then (Inr (), ex)
      else let (res, m) = restart_regions (center_or_middle s) [0..<ms_num_regions (ex_multi_tr ex)] (ex_multi_tr ex)
        in (res, ex\<lparr>ex_multi_tr := m\<rparr>))"

text \<open>One block of candidates per batch of the budget.\<close>

fun candidate_blocks ::
    "('s, 'r) opt_env \<Rightarrow> MultiTrustRegionState \<Rightarrow> f64 list option \<Rightarrow> RegionBatch list \<Rightarrow> nat \<Rightarrow> 's Optimizer \<times> 'r
      \<Rightarrow> (OptError + (f64 list list \<times> CandidateSegment) list) \<times> 's Optimizer \<times> 'r" where
  "candidate_blocks env m ls [] offset (s, rng) = (Inr [], s, rng)"
| "candidate_blocks env m ls (b # bs) offset (s, rng) =
     (let center = ms_centers m ! rb_region b; cfg = oc_candidates (op_config s) in
      case map_err of_region_error (multi_bounds_1d (oe_mean env) (rb_region b) ls m) of
        Inl e \<Rightarrow> (Inl e, s, rng)
      | Inr bounds \<Rightarrow>
          let n = num_candidates cfg (op_num_dim s) (rb_len b);
              (cands, engine) = generate_candidates (oe_cand env) bounds center ls n (candidate_rv cfg) (op_sobol s) (num_pert cfg) rng;
              s1 = s\<lparr>op_candidates := op_candidates s + n, op_sobol := engine\<rparr>
          in (case map_err of_cand_error cands of
                Inl e \<Rightarrow> (Inl e, s1, rng)
              | Inr (rows, rng1) \<Rightarrow>
                  let seg = \<lparr>cs_start = offset, cs_end = offset + length rows, cs_arms = rb_len b, cs_region = rb_region b\<rparr>;
                      (rest, st) = candidate_blocks env m ls bs (offset + length rows) (s1, rng1)
                  in (rbind rest (\<lambda>blocks. Inr ((rows, seg) # blocks)), st)))"

definition ask_experimental ::
    "('s, 'r) opt_env \<Rightarrow> nat \<Rightarrow> ExperimentalStrategyState \<Rightarrow> 's Optimizer \<times> 'r
      \<Rightarrow> ((OptError + f64 list list) \<times> ExperimentalStrategyState \<times> 's Optimizer \<times> 'r) option" where
  "ask_experimental env arms ex = (\<lambda>(s, rng).
     if ex_in_init ex
     then (let ex1 = ex\<lparr>ex_pending := None\<rparr> in
           case ask_init env (ex_init ex1) s arms rng of
             Inl e \<Rightarrow> Some (Inl e, ex1, s, rng)
           | Inr (rows, rng1) \<Rightarrow> Some (Inr rows, ex1, s, rng1))
     else case experimental_restart_all_regions s ex of
         (Inl e, ex1) \<Rightarrow> Some (Inl e, ex1, s, rng)
       | (Inr _, ex1) \<Rightarrow>
           (case map_err of_region_error (allocate (ln_f64 (oe_acq env)) arms (ex_multi_tr ex1)) of
              Inl e \<Rightarrow> Some (Inl e, ex1, s, rng)
            | Inr batches \<Rightarrow>
                (case candidate_blocks env (ex_multi_tr ex1) (surrogate_lengthscales env s) batches 0 (s, rng) of
                   (Inl e, s1, rng1) \<Rightarrow> Some (Inl e, ex1, s1, rng1)
                 | (Inr blocks, s1, rng1) \<Rightarrow>
                     if blocks = [] then Some (Inl InvalidParameter, ex1, s1, rng1)
                     else let rows = concat (map fst blocks); segs = map snd blocks in
                       (case select_segmented_arms env s1 (ms_num_dim (ex_multi_tr ex1), rows) segs rng1 of
                          None \<Rightarrow> None
                        | Some (Inl e) \<Rightarrow> Some (Inl e, ex1, s1, rng1)
                        | Some (Inr (is, rng2)) \<Rightarrow>
                            let ex2 = ex1\<lparr>ex_pending := Some (concat (map (\<lambda>seg. replicate (cs_arms seg) (cs_region seg)) segs))\<rparr>
                            in Some (select_by_indices rows is, ex2, s1, rng2)))))"

definition strategy_ask ::
    "('s, 'r) opt_env \<Rightarrow> nat \<Rightarrow> Strategy \<Rightarrow> 's Optimizer \<times> 'r
      \<Rightarrow> ((OptError + f64 list list) \<times> Strategy \<times> 's Optimizer \<times> 'r) option" where
  "strategy_ask env arms st = (\<lambda>(s, rng).
     let by_init = (\<lambda>ini. case ask_init env ini s arms rng of
            Inl e \<Rightarrow> Some (Inl e, st, s, rng) | Inr (rows, rng1) \<Rightarrow> Some (Inr rows, st, s, rng1));
         by_turbo = map_option (\<lambda>(res, s1, rng1). (res, st, s1, rng1)) (ask_turbo env arms (s, rng))
     in case st of
          StInit ini \<Rightarrow> by_init ini
        | StTurbo \<Rightarrow> by_turbo
        | StHybrid ini in_init \<Rightarrow> if in_init then by_init ini else by_turbo
        | StExperimental ex \<Rightarrow>
            map_option (\<lambda>(res, ex1, s1, rng1). (res, StExperimental ex1, s1, rng1)) (ask_experimental env arms ex (s, rng)))"

text \<open>A method of the surrogate, when there is one.\<close>

definition on_surrogate ::
    "('s \<Rightarrow> (OptError + unit) \<times> 's) \<Rightarrow> 's Optimizer \<Rightarrow> (OptError + unit) \<times> 's Optimizer" where
  "on_surrogate f s = (case op_surrogate s of
      None \<Rightarrow> (Inr (), s)
    | Some g \<Rightarrow> (let (res, g1) = f g in (res, s\<lparr>op_surrogate := Some g1\<rparr>)))"

definition opt_ask ::
    "('s, 'r) opt_env \<Rightarrow> nat \<Rightarrow> 's Optimizer \<times> 'r \<Rightarrow> ((OptError + f64 list list) \<times> 's Optimizer \<times> 'r) option" where
  "opt_ask env arms = (\<lambda>(s, rng).
     case strategy_ask env arms (op_strategy s) (s\<lparr>op_strategy := StTurbo\<rparr>, rng) of
       None \<Rightarrow> None
     | Some (res, st, s1, rng1) \<Rightarrow>
         let s2 = s1\<lparr>op_strategy := st\<rparr> in
         (case res of
            Inl e \<Rightarrow> Some (Inl e, s2, rng1)
          | Inr rows \<Rightarrow> (let (fl, s3) = on_surrogate (sg_schedule (oe_surrogate env)) s2 in Some (rbind fl (\<lambda>_. Inr rows), s3, rng1))))"

section \<open>Telling\<close>

definition morbo_sync_ranges_from_obs :: "('s, 'r) opt_env \<Rightarrow> 's Optimizer \<Rightarrow> (OptError + unit) \<times> 's Optimizer" where
  "morbo_sync_ranges_from_obs env s =
     (if \<not> is_morbo (op_tr s) then (Inr (), s)
      else case y_obs env s of
          Inl e \<Rightarrow> (Inl e, s)
        | Inr None \<Rightarrow> (Inr (), s)
        | Inr (Some m) \<Rightarrow>
            if snd m = [] then (Inr (), s)
            else let (res, tr) = morbo_update_ranges_only m (op_tr s) in (map_err of_region_error res, s\<lparr>op_tr := tr\<rparr>))"

definition fit_surrogate ::
    "('s, 'r) opt_env \<Rightarrow> ObservationDelta \<Rightarrow> matrix option \<Rightarrow> 's Optimizer \<times> 'r \<Rightarrow> (OptError + unit) \<times> 's Optimizer \<times> 'r" where
  "fit_surrogate env d yvar = (\<lambda>(s, rng).
     case op_surrogate s of
       None \<Rightarrow> (Inr (), s, rng)
     | Some g \<Rightarrow>
         (let (res, g1, rng1) = sg_fit_append (oe_surrogate env) (od_x d) (od_y d) yvar (g, rng)
          in (res, s\<lparr>op_surrogate := Some g1\<rparr>, rng1)))"

text \<open>A step on the region of the optimiser, when the region is multi-objective.\<close>

definition on_morbo ::
    "(TrustRegionState \<Rightarrow> (TrustRegionError + unit) \<times> TrustRegionState) \<Rightarrow> 's Optimizer \<Rightarrow> (OptError + unit) \<times> 's Optimizer" where
  "on_morbo f s =
     (if is_morbo (op_tr s) then (let (res, tr) = f (op_tr s) in (map_err of_region_error res, s\<lparr>op_tr := tr\<rparr>))
      else (Inr (), s))"

definition with_rng :: "('s Optimizer \<Rightarrow> (OptError + 'a) \<times> 's Optimizer) \<Rightarrow> 's Optimizer \<times> 'r \<Rightarrow> (OptError + 'a) \<times> 's Optimizer \<times> 'r" where
  "with_rng f = (\<lambda>(s, rng). let (res, s1) = f s in (res, s1, rng))"

definition need_incumbent :: "'s Optimizer \<Rightarrow> OptError + f64 list" where
  "need_incumbent s = ok_or (incumbent_y_scalar s) InvalidParameter"

definition tell_common ::
    "('s, 'r) opt_env \<Rightarrow> matrix \<Rightarrow> matrix \<Rightarrow> matrix option \<Rightarrow> 's Optimizer \<times> 'r \<Rightarrow> (OptError + unit) \<times> 's Optimizer \<times> 'r" where
  "tell_common env x y yvar st0 =
     (let s0 = fst st0 in
      if (case op_surrogate s0 of
            Some g \<Rightarrow> (case sg_num_metrics (oe_surrogate env) g of Some nm \<Rightarrow> nm \<noteq> fst y | None \<Rightarrow> False)
          | None \<Rightarrow> False)
      then (Inl InvalidParameter, st0)
      else then_do (prepare_observations env x y s0, st0) (\<lambda>d st1.
           then_do (fit_surrogate env d yvar st1) (\<lambda>_ st2.
           then_do (with_rng (commit_observations d) st2) (\<lambda>_ st3.
           then_do (with_rng (if od_new_n d > od_old_n d then on_morbo (morbo_update_ranges_only (od_y d)) else (\<lambda>s. (Inr (), s))) st3) (\<lambda>_ st4.
           then_do (update_incumbent env st4) (\<lambda>_ st5.
           then_do (if is_morbo (op_tr (fst st5)) \<and> od_new_n d > 0
                    then then_do (need_incumbent (fst st5), st5) (\<lambda>inc.
                      with_rng (on_morbo (morbo_update_incumbent_only inc (od_new_n d))))
                    else (Inr (), st5)) (\<lambda>_ st6.
           if length (snd x) \<ge> 64 then with_rng (on_surrogate (sg_release (oe_surrogate env))) st6 else (Inr (), st6))))))))"

definition tell_init ::
    "('s, 'r) opt_env \<Rightarrow> InitStrategyState \<Rightarrow> matrix \<Rightarrow> matrix \<Rightarrow> matrix option \<Rightarrow> 's Optimizer \<times> 'r
      \<Rightarrow> (OptError + unit) \<times> InitStrategyState \<times> 's Optimizer \<times> 'r" where
  "tell_init env ini x y yvar st =
     (case tell_common env x y yvar st of
        (Inl e, st1) \<Rightarrow> (Inl e, ini, st1)
      | (Inr _, st1) \<Rightarrow> (Inr (), ini\<lparr>completed := completed ini + length (snd x)\<rparr>, st1))"

text \<open>The watermark of a single-objective region that has seen no batch is advanced first.\<close>

definition advance_turbo :: "nat \<Rightarrow> matrix \<Rightarrow> f64 list \<Rightarrow> TrustRegionState \<Rightarrow> (TrustRegionError + unit) \<times> TrustRegionState" where
  "advance_turbo num_obs y inc tr =
     (let tr1 = (if turbo_prev_num_obs tr = 0 then set_turbo_prev_num_obs (num_obs - length (snd y)) tr else tr)
      in st_tell_update_new_batch y inc num_obs tr1)"

definition restart_if_needed :: "('s, 'r) opt_env \<Rightarrow> 's Optimizer \<times> 'r \<Rightarrow> (OptError + unit) \<times> 's Optimizer \<times> 'r" where
  "restart_if_needed env = (\<lambda>(s, rng).
     if st_needs_restart (op_tr s)
     then (let (tr, rng1) = st_restart (oe_rng env) (op_tr s, rng)
           in with_rng (morbo_sync_ranges_from_obs env)
                (s\<lparr>op_tr := tr, restart_generation := restart_generation s + 1\<rparr>, rng1))
     else (Inr (), s, rng))"

definition tell_turbo ::
    "('s, 'r) opt_env \<Rightarrow> matrix \<Rightarrow> matrix \<Rightarrow> matrix option \<Rightarrow> 's Optimizer \<times> 'r \<Rightarrow> (OptError + unit) \<times> 's Optimizer \<times> 'r" where
  "tell_turbo env x y yvar st =
     then_do (tell_common env x y yvar st) (\<lambda>_ (s, rng).
       let num_obs = obs_count env s in
       then_do (need_incumbent s, s, rng) (\<lambda>inc (s, rng).
         let s1 = s\<lparr>op_tr := st_set_num_arms (length (snd x)) (op_tr s)\<rparr> in
         then_do (if is_morbo (op_tr s1) then (Inr (), s1, rng)
                  else (let (res, tr) = advance_turbo num_obs y inc (op_tr s1)
                        in (map_err of_region_error res, s1\<lparr>op_tr := tr\<rparr>, rng)))
           (\<lambda>_. restart_if_needed env)))"

definition restart_inactive ::
    "'s Optimizer \<Rightarrow> ExperimentalStrategyState \<Rightarrow> (OptError + unit) \<times> ExperimentalStrategyState" where
  "restart_inactive s ex =
     (if active_count (ex_multi_tr ex) = 0 then experimental_restart_all_regions s ex
      else let m = ex_multi_tr ex;
               (res, m1) = restart_regions (center_or_middle s) (filter (\<lambda>r. \<not> ms_active m ! r) [0..<ms_num_regions m]) m
        in (res, ex\<lparr>ex_multi_tr := m1\<rparr>))"

definition tell_experimental ::
    "('s, 'r) opt_env \<Rightarrow> ExperimentalStrategyState \<Rightarrow> matrix \<Rightarrow> matrix \<Rightarrow> matrix option \<Rightarrow> 's Optimizer \<times> 'r
      \<Rightarrow> (OptError + unit) \<times> ExperimentalStrategyState \<times> 's Optimizer \<times> 'r" where
  "tell_experimental env ex x y yvar st =
     (if fst y \<noteq> 1 then (Inl InvalidParameter, ex, st)
      else case tell_common env x y yvar st of
          (Inl e, st1) \<Rightarrow> (Inl e, ex, st1)
        | (Inr _, st1) \<Rightarrow>
            let done = completed (ex_init ex) + length (snd x);
                ex1 = ex\<lparr>ex_init := (ex_init ex)\<lparr>completed := done\<rparr>,
                         ex_in_init := ex_in_init ex \<and> done < num_init (ex_init ex), ex_pending := None\<rparr>;
                (res, m) = multi_tell x (map hd (snd y)) (ex_pending ex) (ex_multi_tr ex);
                ex2 = ex1\<lparr>ex_multi_tr := m\<rparr>
            in (case res of
                  Inl e \<Rightarrow> (Inl (of_region_error e), ex2, st1)
                | Inr _ \<Rightarrow> (let (res2, ex3) = restart_inactive (fst st1) ex2 in (res2, ex3, st1))))"

definition strategy_tell ::
    "('s, 'r) opt_env \<Rightarrow> Strategy \<Rightarrow> matrix \<Rightarrow> matrix \<Rightarrow> matrix option \<Rightarrow> 's Optimizer \<times> 'r
      \<Rightarrow> (OptError + unit) \<times> Strategy \<times> 's Optimizer \<times> 'r" where
  "strategy_tell env strat x y yvar st =
     (case strat of
        StInit ini \<Rightarrow> (let (res, ini1, st1) = tell_init env ini x y yvar st in (res, StInit ini1, st1))
      | StTurbo \<Rightarrow> (let (res, st1) = tell_turbo env x y yvar st in (res, StTurbo, st1))
      | StHybrid ini in_init \<Rightarrow>
          if in_init
          then (case tell_init env ini x y yvar st of
                  (Inl e, ini1, st1) \<Rightarrow> (Inl e, StHybrid ini1 True, st1)
                | (Inr _, ini1, st1) \<Rightarrow> (Inr (), StHybrid ini1 (completed ini1 < num_init ini1), st1))
          else (let (res, st1) = tell_turbo env x y yvar st in (res, StHybrid ini False, st1))
      | StExperimental ex \<Rightarrow> (let (res, ex1, st1) = tell_experimental env ex x y yvar st in (res, StExperimental ex1, st1)))"

definition tell_with_yvar ::
    "('s, 'r) opt_env \<Rightarrow> matrix \<Rightarrow> matrix \<Rightarrow> matrix option \<Rightarrow> 's Optimizer \<times> 'r \<Rightarrow> (OptError + unit) \<times> 's Optimizer \<times> 'r" where
  "tell_with_yvar env x y yvar st0 =
     then_do (with_rng (on_surrogate (sg_wait (oe_surrogate env))) st0) (\<lambda>_ (s, rng).
       let (res, strat, s1, rng1) = strategy_tell env (op_strategy s) x y yvar (s\<lparr>op_strategy := StTurbo\<rparr>, rng);
           s2 = s1\<lparr>op_strategy := strat\<rparr>
       in then_do (res, s2, rng1) (\<lambda>_ st.
            if length (snd x) < 64 then with_rng (on_surrogate (sg_schedule (oe_surrogate env))) st else (Inr (), st)))"

definition opt_tell ::
    "('s, 'r) opt_env \<Rightarrow> matrix \<Rightarrow> matrix \<Rightarrow> 's Optimizer \<times> 'r \<Rightarrow> (OptError + unit) \<times> 's Optimizer \<times> 'r" where
  "opt_tell env x y = tell_with_yvar env x y None"

end
