(* ===== verification/OptimizerLaws.thy ===== *)
theory OptimizerLaws
  imports Strategy
begin

text \<open>
  Laws of the optimiser that keeps its own observations (no surrogate): what an ask leaves as it is,
  and what every tell leaves, whichever strategy runs. \<open>OptimizerReach\<close> draws the properties of
  reachable states from them.
\<close>

section \<open>Regions keep their kind\<close>

text \<open>What of a region the stored observations depend on.\<close>

definition kind :: "TrustRegionState \<Rightarrow> bool \<times> nat \<times> nat" where
  "kind tr = (is_morbo tr, st_num_metrics tr, turbo_prev_num_obs tr)"

lemma turbo_frames [simp]:
  "prev_num_obs (set_num_arms n t) = prev_num_obs t" "prev_num_obs (turbo_restart t) = prev_num_obs t"
  by (simp_all add: set_num_arms_def compute_failure_tolerance_def turbo_restart_def Let_def split: option.split)

lemma metrics_frames [simp]:
  "mb_num_metrics (fst (resample_weights re (m, g))) = mb_num_metrics m"
  "mb_num_metrics (morbo_clear m) = mb_num_metrics m"
  "mb_num_metrics (snd (inner_update n v m)) = mb_num_metrics m"
  by (auto simp: resample_weights_def morbo_clear_def inner_update_def split_def Let_def split: sum.split)

lemma tell_incumbent_metrics [simp]: "mb_num_metrics (snd (tell_incumbent lo hi y n f m)) = mb_num_metrics m"
proof -
  have "mb_num_metrics m1 = mb_num_metrics m0" if "inner_update n v m0 = (r, m1)" for n v m0 r m1
    using metrics_frames(3) [of n v m0] that by simp
  then show ?thesis by (auto simp: tell_incumbent_def Let_def split: sum.split prod.split)
qed

lemma morbo_metrics [simp]:
  "mb_num_metrics (snd (update_ranges_incremental y m)) = mb_num_metrics m"
  "mb_num_metrics (snd (update_incumbent_only v n m)) = mb_num_metrics m"
  "mb_num_metrics (snd (rescalarize_incumbent_under_weights n m)) = mb_num_metrics m"
  by (cases y, auto simp: update_ranges_incremental_def Let_def split_def)
    (auto simp: update_incumbent_only_def rescalarize_incumbent_under_weights_def split: option.split sum.split)

lemma kind_morbo_only:
  assumes "\<And>m. mb_num_metrics (snd (f m)) = mb_num_metrics m"
  shows "kind (snd (morbo_only f other tr)) = kind tr"
  using assms by (cases tr) (auto simp: morbo_only_def kind_def split_def Let_def)

lemma kind_frames [simp]:
  "kind (snd (morbo_update_ranges_only y tr)) = kind tr"
  "kind (snd (morbo_update_incumbent_only v n tr)) = kind tr"
  "kind (snd (morbo_rescalarize_incumbent n tr)) = kind tr"
  by (simp_all add: morbo_update_ranges_only_def morbo_update_incumbent_only_def morbo_rescalarize_incumbent_def kind_morbo_only)

lemma kind_steps [simp]:
  "kind (st_set_num_arms n tr) = kind tr"
  "kind (fst (resample_on_propose re (tr, g))) = kind tr"
  "kind (fst (st_restart re (tr, g))) = kind tr"
proof -
  show "kind (st_set_num_arms n tr) = kind tr" by (cases tr) (simp_all add: kind_def)
  show "kind (fst (resample_on_propose re (tr, g))) = kind tr"
    using metrics_frames(1) by (cases tr) (auto simp: kind_def split_def Let_def)
  show "kind (fst (st_restart re (tr, g))) = kind tr"
    by (cases tr) (auto simp: kind_def split_def Let_def morbo_restart_def)
qed

lemma kind_is_morbo: "kind tr = kind tr' \<Longrightarrow> is_morbo tr = is_morbo tr'" and
  kind_metrics: "kind tr = kind tr' \<Longrightarrow> st_num_metrics tr = st_num_metrics tr'" and
  kind_prev: "kind tr = kind tr' \<Longrightarrow> turbo_prev_num_obs tr = turbo_prev_num_obs tr'"
  by (simp_all add: kind_def)

section \<open>The stored observations\<close>

definition obs_value :: "'s Optimizer \<Rightarrow> nat \<Rightarrow> f64 list" where
  "obs_value s i = (if is_morbo (op_tr s) then take (st_num_metrics (op_tr s)) (fallback_y s ! i) else fallback_y s ! i)"

text \<open>The tracker knows every stored row, the region's watermark is not ahead of them, and the incumbent
  is one of them.\<close>

definition bare_ok :: "'s Optimizer \<Rightarrow> bool" where
  "bare_ok s \<longleftrightarrow> op_surrogate s = None \<and> length (fallback_y s) = length (fallback_x s) \<and>
     tk_use_all (op_tracker s) \<and> tk_count (op_tracker s) = length (fallback_x s) \<and>
     tk_all (op_tracker s) = [0..<length (fallback_x s)] \<and>
     turbo_prev_num_obs (op_tr s) \<le> length (fallback_x s) \<and>
     (case incumbent_idx s of
        None \<Rightarrow> incumbent_x_unit s = None \<and> incumbent_y_scalar s = None
      | Some i \<Rightarrow> i < length (fallback_x s) \<and> incumbent_x_unit s = Some (fallback_x s ! i) \<and>
          incumbent_y_scalar s = Some (obs_value s i))"

definition stored :: "f64 list list \<Rightarrow> f64 list list \<Rightarrow> bool \<times> nat \<times> nat \<Rightarrow> 's Optimizer \<Rightarrow> bool" where
  "stored X Y K s \<longleftrightarrow> bare_ok s \<and> fallback_x s = X \<and> fallback_y s = Y \<and> kind (op_tr s) = K"

lemma stored_bare: "stored X Y K s \<Longrightarrow> bare_ok s"
  by (simp add: stored_def)

lemma bare_count: "bare_ok s \<Longrightarrow> obs_count env s = length (fallback_x s)"
  by (simp add: bare_ok_def obs_count_def)

lemma stored_region: "stored X Y K s \<Longrightarrow> kind tr = kind (op_tr s) \<Longrightarrow> stored X Y K (s\<lparr>op_tr := tr\<rparr>)"
  by (auto simp: stored_def bare_ok_def obs_value_def kind_def split: option.splits)

lemma stored_on_morbo: "stored X Y K s \<Longrightarrow> (\<And>tr. kind (snd (f tr)) = kind tr) \<Longrightarrow> stored X Y K (snd (on_morbo f s))"
  using stored_region [of X Y K s "snd (f (op_tr s))"] by (simp add: on_morbo_def split_def Let_def)

lemma stored_on_surrogate: "stored X Y K s \<Longrightarrow> on_surrogate f s = (Inr (), s)"
  by (simp add: stored_def bare_ok_def on_surrogate_def)

lemma stored_fields:
  "stored X Y K (s\<lparr>op_strategy := st\<rparr>) = stored X Y K s"
  "stored X Y K (s\<lparr>restart_generation := n\<rparr>) = stored X Y K s"
  "stored X Y K (s\<lparr>op_sobol := e\<rparr>) = stored X Y K s"
  "stored X Y K (s\<lparr>op_candidates := n\<rparr>) = stored X Y K s"
  "stored X Y K (s\<lparr>op_candidates := n, op_sobol := e\<rparr>) = stored X Y K s"
  by (simp_all add: stored_def bare_ok_def obs_value_def cong: option.case_cong)

lemma then_do_keeps:
  "P (snd p) \<Longrightarrow> (\<And>x st. p = (Inr x, st) \<Longrightarrow> P st \<Longrightarrow> P (snd (f x st))) \<Longrightarrow> P (snd (then_do p f))"
  by (cases p; cases "fst p") auto

section \<open>Committing\<close>

lemma commit_rows_bare:
  assumes "op_surrogate s = None" "tk_use_all (op_tracker s)" "length xs = length ys"
  shows "commit_rows i xs ys s = (Inr (), s\<lparr>op_tracker := (op_tracker s)\<lparr>tk_count := tk_count (op_tracker s) + length xs,
        tk_all := tk_all (op_tracker s) @ [i..<i + length xs]\<rparr>,
      fallback_x := fallback_x s @ xs, fallback_y := fallback_y s @ ys\<rparr>)"
  using assms(3,1,2)
proof (induction xs ys arbitrary: i s rule: list_induct2)
  case (Cons x xs y ys)
  let ?t = "(op_tracker s)\<lparr>tk_count := tk_count (op_tracker s) + 1, tk_all := tk_all (op_tracker s) @ [i]\<rparr>"
  let ?s = "s\<lparr>op_tracker := ?t, fallback_x := fallback_x s @ [x], fallback_y := fallback_y s @ [y]\<rparr>"
  have "tracker_tell (i, y) (op_tracker s) = Some ?t" using Cons.prems by (simp add: tracker_tell_def Let_def)
  then have "commit_rows i (x # xs) (y # ys) s = commit_rows (i + 1) xs ys ?s" using Cons.prems by (simp add: Let_def)
  moreover have "commit_rows (i + 1) xs ys ?s = (Inr (), ?s\<lparr>op_tracker := (op_tracker ?s)\<lparr>tk_count := tk_count (op_tracker ?s) + length xs,
        tk_all := tk_all (op_tracker ?s) @ [i + 1..<i + 1 + length xs]\<rparr>,
      fallback_x := fallback_x ?s @ xs, fallback_y := fallback_y ?s @ ys\<rparr>)"
    by (rule Cons.IH) (use Cons.prems in simp_all)
  moreover have "[i..<i + length (x # xs)] = i # [i + 1..<i + 1 + length xs]"
    using upt_conv_Cons [of i "i + length (x # xs)"] by simp
  ultimately show ?case by simp
qed simp

lemma commit_stored:
  assumes "stored X Y K s" "length xs = length ys" "snd (od_x d) = xs" "snd (od_y d) = ys" "od_old_n d = length X"
  shows "\<exists>s'. commit_observations d s = (Inr (), s') \<and> stored (X @ xs) (Y @ ys) K s'"
proof -
  have ok: "bare_ok s" "fallback_x s = X" "fallback_y s = Y" "kind (op_tr s) = K" using assms(1) by (simp_all add: stored_def)
  then have XY: "length Y = length X" by (auto simp: bare_ok_def)
  have upto: "[0..<length X + length ys] = [0..<length X] @ [length X..<length X + length ys]"
    by (rule upt_add_eq_append) simp
  have none: "op_surrogate s = None" "tk_use_all (op_tracker s)" using ok(1) by (simp_all add: bare_ok_def)
  let ?s = "s\<lparr>op_tracker := (op_tracker s)\<lparr>tk_count := tk_count (op_tracker s) + length xs,
        tk_all := tk_all (op_tracker s) @ [length X..<length X + length xs]\<rparr>,
      fallback_x := fallback_x s @ xs, fallback_y := fallback_y s @ ys\<rparr>"
  have "commit_observations d s = (Inr (), ?s)"
    unfolding commit_observations_def assms(3-5) by (rule commit_rows_bare [OF none assms(2)])
  moreover have "stored (X @ xs) (Y @ ys) K ?s"
  proof (cases "incumbent_idx s")
    case None
    then show ?thesis using ok XY assms(2) by (simp add: stored_def bare_ok_def upto)
  next
    case (Some i)
    then have i: "i < length X" using ok(1,2) by (simp add: bare_ok_def)
    then have "obs_value ?s i = obs_value s i" using ok(3) XY by (simp add: obs_value_def nth_append)
    then show ?thesis using ok XY assms(2) Some i by (simp add: stored_def bare_ok_def upto nth_append)
  qed
  ultimately show ?thesis by blast
qed

section \<open>The incumbent\<close>

lemma store_incumbent_stored:
  assumes "stored X Y K s" "i < length X" "\<And>s2. y s2 = Inr v" "v = obs_value s i"
  shows "fst (store_incumbent env i y s) = Inr ()" "stored X Y K (snd (store_incumbent env i y s))"
    "incumbent_idx (snd (store_incumbent env i y s)) = Some i"
  using assms by (auto simp: store_incumbent_def obs_row_x_def stored_def bare_ok_def obs_value_def Let_def)

lemma first_greater_bare:
  assumes "stored X Y K s" "a < length X" "b < length X"
  shows "first_greater env s a b =
    (if Y ! a = [] \<or> Y ! b = [] then Inl OptPanic else Inr (total_key (Y ! b ! 0) < total_key (Y ! a ! 0)))"
  using assms by (auto simp: first_greater_def obs_row_y_def stored_def bare_ok_def)

text \<open>The largest first value, the last one among equals.\<close>

definition last_largest :: "f64 list list \<Rightarrow> nat \<Rightarrow> nat \<Rightarrow> bool" where
  "last_largest Y n i \<longleftrightarrow> i < n \<and> (\<forall>j<n. total_key (Y ! j ! 0) \<le> total_key (Y ! i ! 0)
     \<and> (i < j \<longrightarrow> total_key (Y ! j ! 0) < total_key (Y ! i ! 0)))"

lemma max_by_value_bare:
  assumes "stored X Y K s" "last_largest Y k best" "k \<le> length X"
  shows "case max_by_value env s best [k..<length X] of Inl e \<Rightarrow> e = OptPanic | Inr i \<Rightarrow> last_largest Y (length X) i"
  using assms(2,3)
proof (induction "length X - k" arbitrary: k best)
  case 0
  then show ?case by simp
next
  case (Suc m)
  then have k: "k < length X" "[k..<length X] = k # [Suc k..<length X]" "best < length X"
    by (auto simp: upt_conv_Cons last_largest_def)
  have first: "first_greater env s best k =
      (if Y ! best = [] \<or> Y ! k = [] then Inl OptPanic else Inr (total_key (Y ! k ! 0) < total_key (Y ! best ! 0)))"
    by (rule first_greater_bare [OF assms(1) k(3,1)])
  show ?case
  proof (cases "Y ! best = [] \<or> Y ! k = []")
    case True
    then show ?thesis unfolding k(2) by (simp add: first del: upt_Suc)
  next
    case False
    let ?b = "if total_key (Y ! k ! 0) < total_key (Y ! best ! 0) then best else k"
    have "last_largest Y (Suc k) ?b"
      using Suc.prems(1) by (fastforce simp: last_largest_def less_Suc_eq)
    then have "case max_by_value env s ?b [Suc k..<length X] of Inl e \<Rightarrow> e = OptPanic | Inr i \<Rightarrow> last_largest Y (length X) i"
      using Suc.hyps k(1) by simp
    moreover have "max_by_value env s best [k..<length X] = max_by_value env s ?b [Suc k..<length X]"
      unfolding k(2) using False by (simp add: first del: upt_Suc)
    ultimately show ?thesis by (simp only:)
  qed
qed

lemma pick_best_stored:
  assumes "stored X Y K s" "X \<noteq> []" "\<not> is_morbo (op_tr s)"
  shows "stored X Y K (snd (pick_best_incumbent env [0..<length X] s))"
    "fst (pick_best_incumbent env [0..<length X] s) = Inr () \<Longrightarrow>
      \<exists>i. incumbent_idx (snd (pick_best_incumbent env [0..<length X] s)) = Some i \<and> last_largest Y (length X) i"
proof -
  have n: "0 < length X" using assms(2) by simp
  then have cand: "hd [0..<length X] = 0" "tl [0..<length X] = [1..<length X]" by (simp_all add: upt_rec)
  have "last_largest Y 1 0" by (simp add: last_largest_def)
  note max = max_by_value_bare [OF assms(1) this]
  have "stored X Y K (snd (pick_best_incumbent env [0..<length X] s)) \<and>
    (fst (pick_best_incumbent env [0..<length X] s) = Inr () \<longrightarrow>
      (\<exists>i. incumbent_idx (snd (pick_best_incumbent env [0..<length X] s)) = Some i \<and> last_largest Y (length X) i))"
  proof (cases "max_by_value env s 0 [1..<length X]")
    case (Inl e)
    then show ?thesis using assms(1) by (simp add: pick_best_incumbent_def cand)
  next
    case (Inr i)
    then have i: "last_largest Y (length X) i" using max [of env] n by simp
    then have "i < length X" by (simp add: last_largest_def)
    note i = i this
    have Y: "length Y = length X" using assms(1) by (auto simp: stored_def bare_ok_def)
    have v: "Y ! i = obs_value s i" using assms(1,3) by (simp add: obs_value_def stored_def)
    have "store_incumbent env i (\<lambda>s2. obs_row_y env s2 i) s = store_incumbent env i (\<lambda>_. Inr (Y ! i)) s"
      using assms(1) i(2) Y by (simp add: store_incumbent_def Let_def obs_row_x_def obs_row_y_def stored_def bare_ok_def)
    moreover note st = store_incumbent_stored [OF assms(1) i(2), of "\<lambda>_. Inr (Y ! i)" _ env, OF refl v]
    moreover have "pick_best_incumbent env [0..<length X] s = store_incumbent env i (\<lambda>s2. obs_row_y env s2 i) s"
      using Inr by (simp add: pick_best_incumbent_def cand)
    ultimately show ?thesis using i(1) by auto
  qed
  then show "stored X Y K (snd (pick_best_incumbent env [0..<length X] s))"
    "fst (pick_best_incumbent env [0..<length X] s) = Inr () \<Longrightarrow>
      \<exists>i. incumbent_idx (snd (pick_best_incumbent env [0..<length X] s)) = Some i \<and> last_largest Y (length X) i"
    by blast+
qed
lemma gather_rows_nth:
  assumes "gather_rows row n cand = Inr rows" "p < length cand"
  shows "length rows = length cand \<and> (\<exists>r. row (cand ! p) = Inr r \<and> rows ! p = take n r)"
  using assms by (auto simp: gather_rows_def map_res_Inr_conv list_all2_conv_all_nth res_simps split: if_splits)

lemma pick_scalarized_bare:
  assumes "op_surrogate s = None"
  shows "pick_scalarized_incumbent env cand (s, rng) =
    (case gather_rows (obs_row_y env s) (st_num_metrics (op_tr s)) cand of
       Inl e \<Rightarrow> (Inl e, s, rng)
     | Inr ys \<Rightarrow>
         (case map_err of_region_error (st_scalarize (st_num_metrics (op_tr s), ys) True (op_tr s)) of
            Inl e \<Rightarrow> (Inl e, s, rng)
          | Inr scores \<Rightarrow>
              let (pos, rng1) = argmax_random_tie env scores rng in
              if pos \<ge> length cand then (Inl OptPanic, s, rng1)
              else let (res, s1) = store_incumbent env (cand ! pos) (\<lambda>_. Inr (ys ! pos)) s in (res, s1, rng1)))"
  using assms by (cases "gather_rows (obs_row_y env s) (st_num_metrics (op_tr s)) cand")
    (auto simp: pick_scalarized_incumbent_def Let_def cong: sum.case_cong prod.case_cong if_cong split: bool.split)

lemma pick_scalarized_stored:
  assumes "stored X Y K s" "set cand \<subseteq> {..<length X}" "is_morbo (op_tr s)"
  shows "stored X Y K (fst (snd (pick_scalarized_incumbent env cand (s, rng))))"
proof -
  let ?nm = "st_num_metrics (op_tr s)"
  have bare: "op_surrogate s = None" "length Y = length X" "fallback_y s = Y"
    using assms(1) by (auto simp: stored_def bare_ok_def)
  show ?thesis
  proof (cases "gather_rows (obs_row_y env s) ?nm cand")
    case (Inl e)
    then show ?thesis using assms(1) by (simp add: pick_scalarized_bare [OF bare(1)])
  next
    case rows: (Inr ys)
    show ?thesis
    proof (cases "st_scalarize (?nm, ys) True (op_tr s)")
      case (Inl e)
      then show ?thesis using assms(1) rows by (simp add: pick_scalarized_bare [OF bare(1)])
    next
      case (Inr scores)
      obtain p g where pick: "argmax_random_tie env scores rng = (p, g)" by fastforce
      show ?thesis
      proof (cases "p < length cand")
        case False
        then show ?thesis using assms(1) rows Inr pick by (simp add: pick_scalarized_bare [OF bare(1)])
      next
        case p: True
        have i: "cand ! p < length X" using assms(2) p nth_mem by fastforce
        have "ys ! p = obs_value s (cand ! p)"
          using gather_rows_nth [OF rows p] bare i assms(3) by (auto simp: obs_row_y_def obs_value_def)
        then have "stored X Y K (snd (store_incumbent env (cand ! p) (\<lambda>_. Inr (ys ! p)) s))"
          by (intro store_incumbent_stored(2) [OF assms(1) i refl])
        then show ?thesis using p rows Inr pick
          by (simp add: pick_scalarized_bare [OF bare(1)] split_def Let_def)
      qed
    qed
  qed
qed

text \<open>Clearing keeps the stored rows.\<close>

lemma clear_stored: "stored X Y K s \<Longrightarrow> stored X Y K (clear_incumbent s)"
  by (auto simp: stored_def bare_ok_def clear_incumbent_def)

lemma update_incumbent_cases:
  assumes "stored X Y K s"
  shows "update_incumbent env (s, rng) =
    (if X = [] then (Inr (), clear_incumbent s, rng)
     else if is_morbo (op_tr s) then pick_scalarized_incumbent env [0..<length X] (s, rng)
     else (let (res, s1) = pick_best_incumbent env [0..<length X] s in (res, s1, rng)))"
proof -
  have ok: "op_surrogate s = None" "tk_use_all (op_tracker s)" "tk_count (op_tracker s) = length X"
    "tk_all (op_tracker s) = [0..<length X]" "fallback_x s = X"
    using assms by (auto simp: stored_def bare_ok_def)
  then have count: "obs_count env s = length X" by (simp add: obs_count_def)
  have "sync_tracker env s = (Inr (), s)" using ok count by (simp add: sync_tracker_def)
  moreover have "tracker_ask (op_tracker s) = [0..<length X]" using ok by (simp add: tracker_ask_def)
  ultimately show ?thesis
    using ok count by (auto simp: update_incumbent_def observations_empty_def Let_def split: bool.split)
qed

lemma update_incumbent_stored:
  assumes "stored X Y K s"
  shows "stored X Y K (fst (snd (update_incumbent env (s, rng))))"
    "fst (update_incumbent env (s, rng)) = Inr () \<Longrightarrow> X \<noteq> [] \<Longrightarrow> \<not> is_morbo (op_tr s) \<Longrightarrow>
      \<exists>i. incumbent_idx (fst (snd (update_incumbent env (s, rng)))) = Some i \<and> last_largest Y (length X) i"
  using clear_stored [OF assms] pick_scalarized_stored [OF assms, of "[0..<length X]" env rng, simplified lessThan_atLeast0 set_upt, OF order.refl]
    pick_best_stored [OF assms, of env]
  unfolding update_incumbent_cases [OF assms] by (auto simp: Let_def split_def)

section \<open>Asking\<close>

text \<open>What an ask leaves as it is: the stored rows, the region's kind and the incumbent's index.\<close>

definition held :: "f64 list list \<Rightarrow> f64 list list \<Rightarrow> bool \<times> nat \<times> nat \<Rightarrow> nat option \<Rightarrow> 's Optimizer \<Rightarrow> bool" where
  "held X Y K I s \<longleftrightarrow> stored X Y K s \<and> incumbent_idx s = I"

lemma held_fields [simp]:
  "held X Y K I (s\<lparr>op_strategy := st\<rparr>) = held X Y K I s"
  "held X Y K I (s\<lparr>restart_generation := n\<rparr>) = held X Y K I s"
  "held X Y K I (s\<lparr>op_candidates := n, op_sobol := e\<rparr>) = held X Y K I s"
  by (simp_all add: held_def stored_fields)

lemma held_region: "held X Y K I s \<Longrightarrow> kind tr = kind (op_tr s) \<Longrightarrow> held X Y K I (s\<lparr>op_tr := tr\<rparr>)"
  using stored_region [of X Y K s tr] by (simp add: held_def)

lemma held_bare: "held X Y K I s \<Longrightarrow> op_surrogate s = None"
  by (simp add: held_def stored_def bare_ok_def)

lemma rescalarize_kind: "morbo_rescalarize_incumbent n tr = (res, tr') \<Longrightarrow> kind tr' = kind tr"
  by (metis kind_frames(3) snd_conv)

lemma ask_turbo_held:
  assumes "ask_turbo env arms (s, g) = Some (r, s', g')" "held X Y K I s"
  shows "held X Y K I s'"
proof -
  obtain tr1 g1 where tr1: "resample_on_propose (oe_rng env) (op_tr s, g) = (tr1, g1)" by fastforce
  define tr2 where "tr2 = st_set_num_arms arms tr1"
  obtain res tr3 where tr3: "(if is_morbo tr2 \<and> obs_count env s > 0
      then morbo_rescalarize_incumbent (obs_count env s) tr2 else (Inr (), tr2)) = (res, tr3)" by fastforce
  have "kind tr3 = kind tr2" using tr3 by (auto split: if_splits dest: rescalarize_kind)
  moreover have "kind tr2 = kind (op_tr s)" using tr1 kind_steps(2) [of "oe_rng env" "op_tr s" g] by (simp add: tr2_def)
  ultimately have h: "held X Y K I (s\<lparr>op_tr := tr3\<rparr>)" by (intro held_region assms(2)) simp
  have tr3': "(if is_morbo (st_set_num_arms arms tr1) \<and> obs_count env s > 0
      then morbo_rescalarize_incumbent (obs_count env s) (st_set_num_arms arms tr1)
      else (Inr (), st_set_num_arms arms tr1)) = (res, tr3)" using tr3 by (simp only: tr2_def)
  show ?thesis
    using assms(1) h unfolding ask_turbo_def Let_def split_conv tr1 tr3'
    by (auto split: sum.splits prod.splits option.splits)
qed

lemma candidate_blocks_held:
  "held X Y K I s \<Longrightarrow> held X Y K I (fst (snd (candidate_blocks env m ls bs off (s, g))))"
proof (induction bs arbitrary: off s g)
  case (Cons b bs)
  show ?case
  proof (cases "map_err of_region_error (multi_bounds_1d (oe_mean env) (rb_region b) ls m)")
    case (Inl e)
    then show ?thesis using Cons.prems by simp
  next
    case (Inr bounds)
    obtain cands engine where c: "generate_candidates (oe_cand env) bounds (ms_centers m ! rb_region b) ls
        (num_candidates (oc_candidates (op_config s)) (op_num_dim s) (rb_len b))
        (candidate_rv (oc_candidates (op_config s))) (op_sobol s) (num_pert (oc_candidates (op_config s))) g = (cands, engine)"
      by fastforce
    let ?s = "s\<lparr>op_candidates := op_candidates s + num_candidates (oc_candidates (op_config s)) (op_num_dim s) (rb_len b),
        op_sobol := engine\<rparr>"
    have h: "held X Y K I ?s" using Cons.prems by simp
    show ?thesis
    proof (cases "map_err of_cand_error cands")
      case (Inl e)
      then show ?thesis using h Inr c by (simp add: Let_def)
    next
      case rows: (Inr p)
      obtain rows g2 where "p = (rows, g2)" by fastforce
      then show ?thesis using Cons.IH [OF h, of "off + length rows" g2] Inr c rows by (simp add: Let_def split_def)
    qed
  qed
qed simp

lemma ask_experimental_held:
  assumes "ask_experimental env arms ex (s, g) = Some (r, ex', s', g')" "held X Y K I s"
  shows "held X Y K I s'"
proof -
  have blocks: "held X Y K I s1" if "candidate_blocks env m ls bs 0 (s, g) = (res, s1, g1)" for m ls bs res s1 g1
    using candidate_blocks_held [OF assms(2), of env m ls bs 0 g] that by simp
  show ?thesis
    using assms by (auto simp: ask_experimental_def Let_def blocks split: if_splits sum.splits prod.splits option.splits)
qed

lemma opt_ask_held:
  assumes "opt_ask env arms (s, g) = Some (r, s', g')" "held X Y K I s"
  shows "held X Y K I s' \<and> (\<forall>ex. op_strategy s \<noteq> StExperimental ex) \<longrightarrow> held X Y K I s' \<and> op_strategy s' = op_strategy s"
    "held X Y K I s'"
proof -
  let ?s = "s\<lparr>op_strategy := StTurbo\<rparr>"
  have h: "held X Y K I ?s" using assms(2) by simp
  obtain res st s1 g1 where a: "strategy_ask env arms (op_strategy s) (?s, g) = Some (res, st, s1, g1)"
    using assms(1) by (auto simp: opt_ask_def split: option.splits)
  have st: "held X Y K I s1 \<and> ((\<forall>ex. op_strategy s \<noteq> StExperimental ex) \<longrightarrow> st = op_strategy s)"
    using a h by (cases "op_strategy s") (auto simp: strategy_ask_def Let_def held_fields(1) split: if_splits sum.splits
      dest!: ask_turbo_held [of env arms _ g _ _ _ X Y K I] ask_experimental_held [of env arms _ _ g _ _ _ _ X Y K I])
  then have s2: "held X Y K I (s1\<lparr>op_strategy := st\<rparr>)" by simp
  have "s' = s1\<lparr>op_strategy := st\<rparr>"
    using assms(1) a held_bare [OF s2] by (auto simp: opt_ask_def on_surrogate_def Let_def split: sum.splits)
  then show "held X Y K I s'" "held X Y K I s' \<and> (\<forall>ex. op_strategy s \<noteq> StExperimental ex) \<longrightarrow>
      held X Y K I s' \<and> op_strategy s' = op_strategy s"
    using st s2 by auto
qed

section \<open>Telling\<close>

lemma prepare_bare:
  assumes "stored X Y K s" "prepare_observations env x y s = Inr d"
  shows "od_old_n d = length X" "od_x d = x" "od_y d = y" "length (snd x) = length (snd y)" "snd x \<noteq> []"
    "length X < od_new_n d"
  using assms bare_count [of s env]
  by (auto simp: prepare_observations_def observation_delta_from_batch_def Let_def stored_def split: if_splits)

lemma with_rng_simp: "f s = (res, s') \<Longrightarrow> with_rng f (s, g) = (res, s', g)"
  by (simp add: with_rng_def)

lemma held_on_morbo: "held X Y K I s \<Longrightarrow> (\<And>tr. kind (snd (f tr)) = kind tr) \<Longrightarrow> held X Y K I (snd (on_morbo f s))"
  using held_region [of X Y K I s "snd (f (op_tr s))"] by (simp add: on_morbo_def split_def Let_def)

text \<open>What is left of a tell once the rows are stored and the incumbent is known.\<close>

lemma tell_common_bare:
  assumes "stored X Y K s" "tell_common env x y yvar (s, g) = (r, s', g')"
  shows "(\<forall>d. prepare_observations env x y s \<noteq> Inr d) \<and> r \<noteq> Inr () \<and> s' = s \<or>
    (\<exists>d I. prepare_observations env x y s = Inr d \<and> held (X @ snd x) (Y @ snd y) K I s' \<and>
       (r = Inr () \<longrightarrow> \<not> fst K \<longrightarrow> (\<exists>i. I = Some i \<and> last_largest (Y @ snd y) (length (X @ snd x)) i)))"
proof (cases "prepare_observations env x y s")
  case (Inl e)
  then show ?thesis using assms by (auto simp: tell_common_def stored_def bare_ok_def)
next
  case (Inr d)
  note d = prepare_bare [OF assms(1) Inr]
  let ?X = "X @ snd x" and ?Y = "Y @ snd y"
  have none: "op_surrogate s = None" using assms(1) by (simp add: stored_def bare_ok_def)
  obtain s3 where s3: "commit_observations d s = (Inr (), s3)" "stored ?X ?Y K s3"
    using commit_stored [OF assms(1) d(4), of d] d(1-3) by auto
  obtain r4 s4 where r4: "on_morbo (morbo_update_ranges_only (od_y d)) s3 = (r4, s4)" by fastforce
  have s4: "stored ?X ?Y K s4" using stored_on_morbo [OF s3(2), of "morbo_update_ranges_only (od_y d)"] r4 by simp
  obtain r5 s5 g5 where r5: "update_incumbent env (s4, g) = (r5, s5, g5)" by (metis prod_cases3)
  have s5: "stored ?X ?Y K s5" using update_incumbent_stored(1) [OF s4, of env g] r5 by simp
  have mb: "is_morbo (op_tr s4) = fst K" "is_morbo (op_tr s5) = fst K" using s4 s5 by (auto simp: stored_def kind_def)
  have inc: "\<exists>i. incumbent_idx s5 = Some i \<and> last_largest ?Y (length ?X) i" if "r5 = Inr ()" "\<not> fst K"
    using update_incumbent_stored(2) [OF s4, of env g] r5 that mb d(5) by simp
  define tail where "tail = (if is_morbo (op_tr s5) \<and> od_new_n d > 0
      then then_do (need_incumbent s5, s5, g5) (\<lambda>inc. with_rng (on_morbo (morbo_update_incumbent_only inc (od_new_n d))))
      else (Inr (), s5, g5))"
  have tail: "held ?X ?Y K (incumbent_idx s5) (fst (snd tail))"
    using s5 held_on_morbo [of ?X ?Y K "incumbent_idx s5" s5]
    by (cases "need_incumbent s5") (auto simp: tail_def held_def with_rng_def Let_def split_def)
  have rest: "tell_common env x y yvar (s, g) = then_do (r4, s4, g) (\<lambda>_ st4. then_do (update_incumbent env st4) (\<lambda>_ st5.
      then_do (if is_morbo (op_tr (fst st5)) \<and> od_new_n d > 0
               then then_do (need_incumbent (fst st5), st5) (\<lambda>inc. with_rng (on_morbo (morbo_update_incumbent_only inc (od_new_n d))))
               else (Inr (), st5)) (\<lambda>_ st6.
      if length (snd x) \<ge> 64 then with_rng (on_surrogate (sg_release (oe_surrogate env))) st6 else (Inr (), st6))))"
    using Inr none d(1,6) s3(1) r4 by (simp add: tell_common_def fit_surrogate_def with_rng_simp)
  have "held ?X ?Y K (incumbent_idx s') s' \<and> (r = Inr () \<longrightarrow> r5 = Inr () \<and> incumbent_idx s' = incumbent_idx s5)"
  proof (cases r4)
    case (Inl e)
    then show ?thesis using rest assms(2) s4 by (auto simp: held_def)
  next
    case r4': (Inr u)
    show ?thesis
    proof (cases r5)
      case (Inl e)
      then show ?thesis using rest assms(2) s5 r4' r5 by (auto simp: held_def)
    next
      case r5': (Inr u)
      obtain r6 s6 g6 where r6: "tail = (r6, s6, g6)" by (metis prod_cases3)
      have e: "(r, s', g') = then_do (r6, s6, g6) (\<lambda>_ st6. if length (snd x) \<ge> 64
          then with_rng (on_surrogate (sg_release (oe_surrogate env))) st6 else (Inr (), st6))"
        unfolding r6 [symmetric] tail_def
        using assms(2) rest unfolding r4' r5' then_do_simps r5 fst_conv by (simp only:)
      have "on_surrogate (sg_release (oe_surrogate env)) s6 = (Inr (), s6)"
        using tail r6 by (intro stored_on_surrogate [of ?X ?Y K]) (simp add: held_def)
      then have "s' = s6" using e by (cases r6) (auto simp: with_rng_def split: if_splits)
      then show ?thesis using tail r6 r5' by (auto simp: held_def)
    qed
  qed
  then show ?thesis using Inr inc by auto
qed

text \<open>The watermark of a single-objective region after a batch: taken back first when it is zero.\<close>

lemma advance_turbo_bare:
  assumes "advance_turbo n y inc (Turbo t) = (r, tr)" "snd y \<noteq> []"
  shows "\<exists>t'. tr = Turbo t' \<and>
    (let p = (if prev_num_obs t = 0 then n - length (snd y) else prev_num_obs t) in
     if r = Inr () then n = p + length (snd y) \<and> prev_num_obs t' = n else prev_num_obs t' = p)"
proof -
  define p where "p = (if prev_num_obs t = 0 then n - length (snd y) else prev_num_obs t)"
  define t1 where "t1 = (if prev_num_obs t = 0 then set_prev_num_obs (n - length (snd y)) t else t)"
  have p: "prev_num_obs t1 = p" by (simp add: t1_def p_def set_prev_num_obs_def)
  have tell: "turbo_tell (\<lambda>ys. update_with_incumbent_new_batch ys n (hd inc)) y inc t1 = (r, tr)"
    using assms(1) by (auto simp: advance_turbo_def st_tell_update_new_batch_def t1_def Let_def)
  show ?thesis
  proof (cases "fst y \<noteq> 1 \<or> length inc \<noteq> 1")
    case True
    then show ?thesis using tell p by (auto simp: turbo_tell_def p_def)
  next
    case False
    show ?thesis
    proof (cases "update_with_incumbent_new_batch (map hd (snd y)) n (hd inc) t1")
      case (Inl e)
      then show ?thesis using tell False p by (auto simp: turbo_tell_def p_def)
    next
      case (Inr t2)
      then have "n = p + length (snd y)"
        using assms(2) p by (auto simp: update_with_incumbent_new_batch_def Let_def split: if_splits)
      then show ?thesis using tell False p Inr assms(2)
        by (auto simp: turbo_tell_def p_def update_with_incumbent_new_batch_def incorporate_hist_def Let_def split: if_splits)
    qed
  qed
qed

lemma stored_watermark:
  assumes "stored X Y (b, m, p) s" "is_morbo tr = b" "st_num_metrics tr = m" "turbo_prev_num_obs tr = q" "q \<le> length X"
  shows "stored X Y (b, m, q) (s\<lparr>op_tr := tr\<rparr>)"
  using assms by (auto simp: stored_def bare_ok_def obs_value_def kind_def split: option.splits)

lemma sync_ranges_held:
  assumes "held X Y K I s"
  shows "held X Y K I (snd (morbo_sync_ranges_from_obs env s))"
proof -
  consider "\<not> is_morbo (op_tr s)" | e where "y_obs env s = Inl e" | "y_obs env s = Inr None"
    | m where "is_morbo (op_tr s)" "y_obs env s = Inr (Some m)" by (metis sum.exhaust option.exhaust)
  then show ?thesis
  proof cases
    case (4 m)
    have "held X Y K I (s\<lparr>op_tr := snd (morbo_update_ranges_only m (op_tr s))\<rparr>)"
      by (rule held_region [OF assms]) simp
    then show ?thesis using 4 assms by (simp add: morbo_sync_ranges_from_obs_def Let_def split_def)
  qed (use assms in \<open>simp_all add: morbo_sync_ranges_from_obs_def\<close>)
qed

lemma restart_held:
  assumes "restart_if_needed env (s, g) = (r, s', g')" "held X Y K I s"
  shows "held X Y K I s'" "\<not> is_morbo (op_tr s) \<Longrightarrow> r = Inr ()"
proof -
  obtain tr g1 where tr: "st_restart (oe_rng env) (op_tr s, g) = (tr, g1)" by fastforce
  have kind: "kind tr = kind (op_tr s)" using tr kind_steps(3) [of "oe_rng env" "op_tr s" g] by simp
  have h: "held X Y K I (s\<lparr>op_tr := tr, restart_generation := restart_generation s + 1\<rparr>)"
    "is_morbo tr = is_morbo (op_tr s)"
    using held_region [OF assms(2) kind] kind_is_morbo [OF kind] by simp_all
  obtain res s2 where s2: "morbo_sync_ranges_from_obs env (s\<lparr>op_tr := tr, restart_generation := restart_generation s + 1\<rparr>)
      = (res, s2)" by fastforce
  have s2': "held X Y K I s2" using sync_ranges_held [OF h(1), of env] s2 by simp
  have e: "restart_if_needed env (s, g) = (if st_needs_restart (op_tr s) then (res, s2, g1) else (Inr (), s, g))"
    using tr s2 by (simp add: restart_if_needed_def with_rng_def)
  show "held X Y K I s'" using e s2' assms by (simp split: if_splits)
  have "res = Inr ()" if "\<not> is_morbo (op_tr s)" using that h(2) s2 by (simp add: morbo_sync_ranges_from_obs_def)
  then show "\<not> is_morbo (op_tr s) \<Longrightarrow> r = Inr ()" using e assms(1) by (simp split: if_splits)
qed

text \<open>What every tell leaves: nothing stored, or the whole batch; and of which kind the region is.\<close>

definition told :: "('s, 'r) opt_env \<Rightarrow> matrix \<Rightarrow> matrix \<Rightarrow> 's Optimizer \<Rightarrow> OptError + unit \<Rightarrow> 's Optimizer \<Rightarrow> bool" where
  "told env x y s r s' \<longleftrightarrow> is_morbo (op_tr s') = is_morbo (op_tr s) \<and> bare_ok s' \<and>
     ((\<forall>d. prepare_observations env x y s \<noteq> Inr d) \<and> r \<noteq> Inr () \<and> fallback_x s' = fallback_x s \<and>
        fallback_y s' = fallback_y s \<and> turbo_prev_num_obs (op_tr s') = turbo_prev_num_obs (op_tr s) \<or>
      (\<exists>d. prepare_observations env x y s = Inr d) \<and> fallback_x s' = fallback_x s @ snd x \<and>
        fallback_y s' = fallback_y s @ snd y \<and>
        (r = Inr () \<longrightarrow> \<not> is_morbo (op_tr s) \<longrightarrow> (\<exists>i. incumbent_idx s' = Some i \<and> last_largest (fallback_y s') (length (fallback_x s')) i)))"

lemma held_told:
  assumes "stored X Y K s" "prepare_observations env x y s = Inr d" "held (X @ snd x) (Y @ snd y) (fst K, q) I s'"
    "r = Inr () \<Longrightarrow> \<not> fst K \<Longrightarrow> \<exists>i. I = Some i \<and> last_largest (Y @ snd y) (length (X @ snd x)) i"
  shows "told env x y s r s'"
  using assms by (auto simp: told_def held_def stored_def kind_def)

lemma tell_common_told:
  assumes "bare_ok s" "tell_common env x y yvar (s, g) = (r, s', g')"
  shows "told env x y s r s'"
proof -
  define K where "K = kind (op_tr s)"
  have st: "stored (fallback_x s) (fallback_y s) K s" using assms(1) by (simp add: stored_def K_def)
  show ?thesis
  proof (cases "prepare_observations env x y s")
    case (Inl e)
    then show ?thesis using tell_common_bare [OF st assms(2)] assms(1) by (auto simp: told_def)
  next
    case (Inr d)
    then obtain I where h: "held (fallback_x s @ snd x) (fallback_y s @ snd y) K I s'"
      "r = Inr () \<longrightarrow> \<not> fst K \<longrightarrow> (\<exists>i. I = Some i \<and> last_largest (fallback_y s @ snd y) (length (fallback_x s @ snd x)) i)"
      using tell_common_bare [OF st assms(2)] by auto
    show ?thesis by (rule held_told [OF st Inr, of "snd K" I]) (use h in auto)
  qed
qed

text \<open>In the region's own phase. The watermark must be zero or be the number of rows stored before.\<close>

lemma stored_turbo:
  "stored X Y (b, m, p) s \<Longrightarrow> op_tr s = Turbo t \<Longrightarrow> \<not> b \<and> m = 1 \<and> prev_num_obs t = p \<and> p \<le> length X"
  by (auto simp: stored_def bare_ok_def kind_def)

lemma tell_turbo_bare:
  assumes "stored X Y (b, m, p) s" "prepare_observations env x y s = Inr d"
    "tell_turbo env x y yvar (s, g) = (r, s', g')"
  shows "\<exists>q I. held (X @ snd x) (Y @ snd y) (b, m, q) I s' \<and> (r \<noteq> Inr () \<longrightarrow> p \<noteq> 0 \<longrightarrow> q = p) \<and>
    (r = Inr () \<longrightarrow> \<not> b \<longrightarrow> (p = 0 \<or> p = length X) \<and> q = length (X @ snd x) \<and> fst y = 1 \<and>
       (\<exists>i. I = Some i \<and> last_largest (Y @ snd y) (length (X @ snd x)) i))"
proof -
  let ?X = "X @ snd x" and ?Y = "Y @ snd y"
  obtain r1 s1 g1 where c: "tell_common env x y yvar (s, g) = (r1, s1, g1)" by (metis prod_cases3)
  obtain I where s1: "held ?X ?Y (b, m, p) I s1" and
    inc: "r1 = Inr () \<longrightarrow> \<not> b \<longrightarrow> (\<exists>i. I = Some i \<and> last_largest ?Y (length ?X) i)"
    using tell_common_bare [OF assms(1) c] assms(2) by auto
  have n: "obs_count env s1 = length ?X" using s1 bare_count [of s1 env] by (simp add: held_def stored_def)
  have rows: "length (snd x) = length (snd y)" "snd y \<noteq> []" using prepare_bare [OF assms(1,2)] by auto
  define s2 where "s2 = s1\<lparr>op_tr := st_set_num_arms (length (snd x)) (op_tr s1)\<rparr>"
  have s: "held ?X ?Y (b, m, p) I s2" unfolding s2_def by (rule held_region [OF s1]) simp
  show ?thesis
  proof (cases r1)
    case (Inl e)
    then show ?thesis using c s1 assms(3) by (auto simp: tell_turbo_def)
  next
    case r1: (Inr u)
    show ?thesis
    proof (cases "need_incumbent s1")
      case (Inl e)
      then show ?thesis using c r1 s1 assms(3) by (auto simp: tell_turbo_def Let_def)
    next
      case (Inr v)
      have e: "tell_turbo env x y yvar (s, g) =
          then_do (if is_morbo (op_tr s2) then (Inr (), s2, g1)
                   else (let (res, tr) = advance_turbo (length ?X) y v (op_tr s2)
                         in (map_err of_region_error res, s2\<lparr>op_tr := tr\<rparr>, g1))) (\<lambda>_. restart_if_needed env)"
        using c r1 Inr n by (simp add: tell_turbo_def Let_def s2_def)
      have mb: "is_morbo (op_tr s2) = b" using s by (simp add: held_def stored_def kind_def)
      show ?thesis
      proof (cases b)
        case True
        then have "restart_if_needed env (s2, g1) = (r, s', g')" using e assms(3) mb by simp
        note restart_held(1) [OF this s]
        then show ?thesis using True by (intro exI [of _ p] exI [of _ I]) simp
      next
        case False
        then obtain t where t: "op_tr s2 = Turbo t" using mb by (cases "op_tr s2") auto
        have p: "m = 1" "prev_num_obs t = p" "p \<le> length ?X"
          using stored_turbo [OF _ t, of ?X ?Y b m p] s by (simp_all add: held_def)
        obtain r3 tr where a: "advance_turbo (length ?X) y v (Turbo t) = (r3, tr)" by fastforce
        obtain t' where t': "tr = Turbo t'" "if r3 = Inr () then length ?X = (if p = 0 then length ?X - length (snd y) else p) + length (snd y)
            \<and> prev_num_obs t' = length ?X else prev_num_obs t' = (if p = 0 then length ?X - length (snd y) else p)"
          using advance_turbo_bare [OF a rows(2)] p(2) by (auto simp: Let_def)
        define s3 where "s3 = s2\<lparr>op_tr := tr\<rparr>"
        have h3: "held ?X ?Y (b, m, prev_num_obs t') I s3"
        proof -
          have "prev_num_obs t' \<le> length ?X" using t'(2) p(3) by (simp split: if_splits)
          then have "stored ?X ?Y (b, m, prev_num_obs t') s3"
            unfolding s3_def using s t'(1) p(1) False by (intro stored_watermark [of _ _ b m p]) (simp_all add: held_def)
          then show ?thesis using s by (simp add: held_def s3_def)
        qed
        have e3: "(r, s', g') = then_do (map_err of_region_error r3, s3, g1) (\<lambda>_. restart_if_needed env)"
          using e assms(3) mb False t a by (simp add: s3_def)
        have width: "fst y = 1" if "r3 = Inr ()" using a that
          by (auto simp: advance_turbo_def st_tell_update_new_batch_def turbo_tell_def Let_def split: if_splits)
        show ?thesis
        proof (cases r3)
          case (Inl e)
          then have "s' = s3" "r \<noteq> Inr ()" using e3 by simp_all
          moreover have "p \<noteq> 0 \<longrightarrow> prev_num_obs t' = p" using t'(2) Inl by simp
          ultimately show ?thesis using h3 by (intro exI [of _ "prev_num_obs t'"] exI [of _ I]) simp
        next
          case (Inr w)
          then have re: "restart_if_needed env (s3, g1) = (r, s', g')" using e3 by simp
          have "length ?X = (if p = 0 then length ?X - length (snd y) else p) + length (snd y)"
            using t'(2) Inr by simp
          then have "p = 0 \<or> p = length X" using rows(1) by (cases "p = 0") simp_all
          moreover have "r = Inr ()" by (rule restart_held(2) [OF re h3]) (simp add: s3_def t'(1))
          moreover have "prev_num_obs t' = length ?X" using t'(2) Inr by simp
          ultimately show ?thesis using restart_held(1) [OF re h3] inc r1 width Inr
            by (intro exI [of _ "prev_num_obs t'"] exI [of _ I]) simp
        qed
      qed
    qed
  qed
qed

lemma tell_turbo_told:
  assumes "bare_ok s" "tell_turbo env x y yvar (s, g) = (r, s', g')"
  shows "told env x y s r s'"
proof -
  have st: "stored (fallback_x s) (fallback_y s) (kind (op_tr s)) s" using assms(1) by (simp add: stored_def)
  obtain b m p where K: "kind (op_tr s) = (b, m, p)" by (metis prod_cases3)
  show ?thesis
  proof (cases "prepare_observations env x y s")
    case (Inl e)
    obtain r1 s1 g1 where c: "tell_common env x y yvar (s, g) = (r1, s1, g1)" by (metis prod_cases3)
    then have "s1 = s" "r1 \<noteq> Inr ()" using tell_common_bare [OF st c] Inl by auto
    then show ?thesis using c assms Inl by (cases r1) (auto simp: tell_turbo_def told_def)
  next
    case (Inr d)
    then obtain q I where "held (fallback_x s @ snd x) (fallback_y s @ snd y) (b, m, q) I s'"
      "r = Inr () \<longrightarrow> \<not> b \<longrightarrow> (\<exists>i. I = Some i \<and> last_largest (fallback_y s @ snd y) (length (fallback_x s @ snd x)) i)"
      using tell_turbo_bare [OF st [unfolded K] _ assms(2)] by blast
    then show ?thesis using K Inr by (intro held_told [OF st Inr, of "(m, q)" I]) auto
  qed
qed

lemma told_fields [simp]:
  "told env x y s r (s'\<lparr>op_strategy := st\<rparr>) = told env x y s r s'"
  "told env x y (s\<lparr>op_strategy := st\<rparr>) r s' = told env x y s r s'"
  by (simp_all add: told_def bare_ok_def obs_value_def prepare_observations_def obs_count_def cong: option.case_cong)

lemma bare_field [simp]: "bare_ok (s\<lparr>op_strategy := st\<rparr>) = bare_ok s"
  by (simp add: bare_ok_def obs_value_def cong: option.case_cong)

lemma tell_init_told:
  assumes "bare_ok s" "tell_init env ini x y yvar (s, g) = (r, ini', s', g')"
  shows "told env x y s r s'"
proof -
  obtain r1 s1 g1 where c: "tell_common env x y yvar (s, g) = (r1, s1, g1)" by (metis prod_cases3)
  show ?thesis using tell_common_told [OF assms(1) c] c assms(2) by (cases r1) (auto simp: tell_init_def)
qed

text \<open>The regions are told after the rows are stored: a failure there leaves the rows stored.\<close>

lemma told_failed: "told env x y s (Inr ()) s' \<Longrightarrow> told env x y s (Inl e) s'"
  by (auto simp: told_def)

lemma tell_experimental_told:
  assumes "bare_ok s" "tell_experimental env ex x y yvar (s, g) = (r, ex', s', g')" "fst y = 1"
  shows "told env x y s r s'"
proof -
  obtain r1 s1 g1 where c: "tell_common env x y yvar (s, g) = (r1, s1, g1)" by (metis prod_cases3)
  note t = tell_common_told [OF assms(1) c]
  show ?thesis
  proof (cases r1)
    case (Inl e)
    then show ?thesis using t c assms(2,3) by (simp add: tell_experimental_def)
  next
    case (Inr u)
    have "s' = s1" using c assms(2,3) Inr
      by (simp add: tell_experimental_def Let_def split_def split: sum.splits)
    then show ?thesis using t Inr told_failed [of env x y s s1] by (cases r) simp_all
  qed
qed

text \<open>A tell that stops before anything is read.\<close>

definition refused :: "('s, 'r) opt_env \<Rightarrow> matrix \<Rightarrow> 's Optimizer \<Rightarrow> bool" where
  "refused env y s \<longleftrightarrow> (\<exists>ex. op_strategy s = StExperimental ex) \<and> fst y \<noteq> 1"

lemma strategy_tell_told:
  assumes "bare_ok s" "strategy_tell env strat x y yvar (s, g) = (r, strat', s', g')"
    "\<not> ((\<exists>ex. strat = StExperimental ex) \<and> fst y \<noteq> 1)"
  shows "told env x y s r s'"
proof (cases strat)
  case (StInit ini)
  then show ?thesis using assms(2) tell_init_told [OF assms(1), of env _ x y yvar] by (auto simp: strategy_tell_def split: prod.splits)
next
  case StTurbo
  then show ?thesis using assms(2) tell_turbo_told [OF assms(1), of env x y yvar] by (auto simp: strategy_tell_def split: prod.splits)
next
  case (StHybrid ini b)
  then show ?thesis using assms(2) tell_init_told [OF assms(1), of env _ x y yvar] tell_turbo_told [OF assms(1), of env x y yvar]
    by (cases b) (auto simp: strategy_tell_def split: prod.splits sum.splits)
next
  case (StExperimental ex)
  then show ?thesis using assms(2,3) tell_experimental_told [OF assms(1), of env _ x y yvar] by (auto simp: strategy_tell_def split: prod.splits)
qed

lemma tell_told:
  assumes "bare_ok s" "tell_with_yvar env x y yvar (s, g) = (r, s', g')"
  shows "if refused env y s then r = Inl InvalidParameter \<and> s' = s else told env x y s r s'"
proof -
  have none: "op_surrogate s = None" using assms(1) by (simp add: bare_ok_def)
  obtain res strat s1 g1 where st: "strategy_tell env (op_strategy s) x y yvar (s\<lparr>op_strategy := StTurbo\<rparr>, g) = (res, strat, s1, g1)"
    by (metis prod_cases4)
  have e: "(r, s', g') = then_do (res, s1\<lparr>op_strategy := strat\<rparr>, g1) (\<lambda>_ st.
      if length (snd x) < 64 then with_rng (on_surrogate (sg_schedule (oe_surrogate env))) st else (Inr (), st))"
    using assms(2) none st by (simp add: tell_with_yvar_def with_rng_def on_surrogate_def)
  show ?thesis
  proof (cases "refused env y s")
    case True
    then obtain ex where ex: "op_strategy s = StExperimental ex" "fst y \<noteq> 1" by (auto simp: refused_def)
    then have "res = Inl InvalidParameter" "strat = op_strategy s" "s1 = s\<lparr>op_strategy := StTurbo\<rparr>"
      using st by (simp_all add: strategy_tell_def tell_experimental_def)
    then show ?thesis using e True by simp
  next
    case False
    then have "told env x y s res s1"
      using strategy_tell_told [OF _ st] assms(1) by (simp add: refused_def)
    then have t: "told env x y s res (s1\<lparr>op_strategy := strat\<rparr>)" by simp
    then have "on_surrogate f (s1\<lparr>op_strategy := strat\<rparr>) = (Inr (), s1\<lparr>op_strategy := strat\<rparr>)" for f
      by (simp add: on_surrogate_def told_def bare_ok_def)
    then have "r = res \<and> s' = s1\<lparr>op_strategy := strat\<rparr>"
      using e by (cases res) (auto simp: with_rng_def split: if_splits)
    then show ?thesis using t False by simp
  qed
qed

end
