(* ===== verification/OptimizerReach.thy ===== *)
theory OptimizerReach
  imports OptimizerLaws CandidatesLaws
begin

text \<open>
  The optimiser without a surrogate under any sequence of asks and tells: what every reachable state
  satisfies, the batches it accepts for ever, and a batch after which it accepts none.
\<close>

section \<open>Reachable optimisers\<close>

text \<open>The calls of a client. A call that panics ends the run.\<close>

inductive opt_call :: "('s, 'r) opt_env \<Rightarrow> 's Optimizer \<times> 'r \<Rightarrow> 's Optimizer \<times> 'r \<Rightarrow> bool" for env where
  asks: "opt_ask env n st = Some (r, st') \<Longrightarrow> r \<noteq> Inl OptPanic \<Longrightarrow> opt_call env st st'"
| tells: "tell_with_yvar env x y yvar st = (r, st') \<Longrightarrow> r \<noteq> Inl OptPanic \<Longrightarrow> opt_call env st st'"

inductive opt_reach :: "('s, 'r) opt_env \<Rightarrow> 's Optimizer \<times> 'r \<Rightarrow> bool" for env where
  created: "opt_new_inner env bounds config strat None g = Inr st \<Longrightarrow> oc_surrogate config = NoSurrogate \<Longrightarrow> opt_reach env st"
| called: "opt_reach env st \<Longrightarrow> opt_call env st st' \<Longrightarrow> opt_reach env st'"

inductive_cases opt_callE: "opt_call env (s, g) (s', g')"

lemma from_config_prev: "from_config re d c g = Inr (tr, g') \<Longrightarrow> turbo_prev_num_obs tr = 0"
  by (auto simp: from_config_def turbo_new_def res_simps split: TrustRegionConfig.splits)

lemma set_failure_tolerance_prev [simp]: "prev_num_obs (set_failure_tolerance_dim fd t) = prev_num_obs t"
  by (simp add: set_failure_tolerance_dim_def compute_failure_tolerance_def Let_def split: option.split)

lemma tracker_new_all: "tracker_new tracker_m_no_surrogate na k = Some t \<Longrightarrow> tk_use_all t \<and> tk_count t = 0 \<and> tk_all t = []"
  by (auto simp: tracker_new_def tracker_m_no_surrogate_def ALL_CANDIDATES_M_THRESHOLD_def Let_def split: if_splits)

lemma new_bare:
  assumes "opt_new_inner env bounds config strat None g = Inr (s, g')" "oc_surrogate config = NoSurrogate"
  shows "bare_ok s"
  using assms by (auto simp: opt_new_inner_def Let_def split_def res_simps bare_ok_def
    dest!: tracker_new_all from_config_prev split: if_splits option.splits TrustRegionState.splits)

lemma ask_bare: "opt_ask env n (s, g) = Some (r, s', g') \<Longrightarrow> bare_ok s \<Longrightarrow> bare_ok s'"
  using opt_ask_held(2) [of env n s g r s' g' "fallback_x s" "fallback_y s" "kind (op_tr s)" "incumbent_idx s"]
  by (simp add: held_def stored_def)

lemma tell_bare: "tell_with_yvar env x y yvar (s, g) = (r, s', g') \<Longrightarrow> bare_ok s \<Longrightarrow> bare_ok s'"
  using tell_told [of s env x y yvar g r s' g'] by (auto simp: told_def split: if_splits)

lemma reach_bare: "opt_reach env st \<Longrightarrow> bare_ok (fst st)"
proof (induction rule: opt_reach.induct)
  case (created bounds config strat g st)
  then show ?case using new_bare [of env bounds config strat g "fst st" "snd st"] by simp
next
  case (called st st')
  obtain s g s' g' where st: "st = (s, g)" "st' = (s', g')" by fastforce
  show ?case using called.hyps(2) called.IH unfolding st by (auto elim: opt_callE dest: ask_bare tell_bare)
qed

section \<open>A region that lost count\<close>

definition turbo_phase :: "'s Optimizer \<Rightarrow> bool" where
  "turbo_phase s \<longleftrightarrow> (case op_strategy s of StTurbo \<Rightarrow> True | StHybrid ini b \<Rightarrow> \<not> b | _ \<Rightarrow> False)"

definition behind :: "'s Optimizer \<Rightarrow> bool" where
  "behind s \<longleftrightarrow> bare_ok s \<and> turbo_phase s \<and> \<not> is_morbo (op_tr s) \<and> turbo_prev_num_obs (op_tr s) \<noteq> 0 \<and>
     turbo_prev_num_obs (op_tr s) < length (fallback_x s)"

lemma turbo_phase_tell:
  assumes "turbo_phase s" "bare_ok s" "tell_with_yvar env x y yvar (s, g) = (r, s', g')"
  obtains s1 where "tell_turbo env x y yvar (s\<lparr>op_strategy := StTurbo\<rparr>, g) = (r, s1, g')" "s' = s1\<lparr>op_strategy := op_strategy s\<rparr>"
proof -
  obtain res s1 g1 where tt: "tell_turbo env x y yvar (s\<lparr>op_strategy := StTurbo\<rparr>, g) = (res, s1, g1)" by (metis prod_cases3)
  have none: "op_surrogate s = None" using assms(2) by (simp add: bare_ok_def)
  have "strategy_tell env (op_strategy s) x y yvar (s\<lparr>op_strategy := StTurbo\<rparr>, g) = (res, op_strategy s, s1, g1)"
    using assms(1) tt by (cases "op_strategy s") (auto simp: turbo_phase_def strategy_tell_def)
  then have e: "(r, s', g') = then_do (res, s1\<lparr>op_strategy := op_strategy s\<rparr>, g1) (\<lambda>_ st.
      if length (snd x) < 64 then with_rng (on_surrogate (sg_schedule (oe_surrogate env))) st else (Inr (), st))"
    using assms(3) none by (simp add: tell_with_yvar_def with_rng_def on_surrogate_def)
  have "bare_ok s1" using tell_turbo_told [OF _ tt] assms(2) by (simp add: told_def)
  then have "on_surrogate f (s1\<lparr>op_strategy := op_strategy s\<rparr>) = (Inr (), s1\<lparr>op_strategy := op_strategy s\<rparr>)" for f
    by (simp add: on_surrogate_def bare_ok_def)
  then have "r = res \<and> s' = s1\<lparr>op_strategy := op_strategy s\<rparr> \<and> g' = g1"
    using e by (cases res) (auto simp: with_rng_def split: if_splits)
  then show ?thesis using that tt by simp
qed

lemma prepare_field: "prepare_observations env x y (s\<lparr>op_strategy := st\<rparr>) = prepare_observations env x y s"
  by (simp add: prepare_observations_def obs_count_def cong: option.case_cong)

lemma prepare_ok:
  assumes "bare_ok s" "snd x \<noteq> []" "length (snd x) = length (snd y)" "length (fallback_x s) + length (snd x) < 2 ^ 64"
  shows "\<exists>d. prepare_observations env x y s = Inr d"
  using assms(2-4) bare_count [OF assms(1), of env]
  by (cases "snd y") (simp_all add: prepare_observations_def observation_delta_from_batch_def Let_def min_def)

text \<open>A batch told in the region's phase: its failure leaves the watermark, and a success needs it to be
  up to date.\<close>

lemma turbo_phase_batch:
  assumes "turbo_phase s" "bare_ok s" "\<not> is_morbo (op_tr s)" "tell_with_yvar env x y yvar (s, g) = (r, s', g')"
    "turbo_prev_num_obs (op_tr s) \<noteq> 0" "prepare_observations env x y s = Inr d"
  shows "fallback_x s' = fallback_x s @ snd x \<and> bare_ok s' \<and> turbo_phase s' \<and> \<not> is_morbo (op_tr s') \<and>
    (r \<noteq> Inr () \<longrightarrow> turbo_prev_num_obs (op_tr s') = turbo_prev_num_obs (op_tr s)) \<and>
    (r = Inr () \<longrightarrow> turbo_prev_num_obs (op_tr s) = length (fallback_x s) \<and> fst y = 1)"
proof -
  obtain s1 where s1: "tell_turbo env x y yvar (s\<lparr>op_strategy := StTurbo\<rparr>, g) = (r, s1, g')"
    "s' = s1\<lparr>op_strategy := op_strategy s\<rparr>" by (rule turbo_phase_tell [OF assms(1,2,4)])
  define p where "p = turbo_prev_num_obs (op_tr s)"
  have K: "stored (fallback_x s) (fallback_y s) (False, st_num_metrics (op_tr s), p) (s\<lparr>op_strategy := StTurbo\<rparr>)"
    using assms(2,3) by (simp add: stored_def kind_def p_def)
  have "prepare_observations env x y (s\<lparr>op_strategy := StTurbo\<rparr>) = Inr d"
    using assms(6) by (simp add: prepare_field)
  from tell_turbo_bare [OF K this s1(1)] obtain q I where
    "held (fallback_x s @ snd x) (fallback_y s @ snd y) (False, st_num_metrics (op_tr s), q) I s1"
    "r \<noteq> Inr () \<longrightarrow> p \<noteq> 0 \<longrightarrow> q = p" "r = Inr () \<longrightarrow> (p = 0 \<or> p = length (fallback_x s)) \<and> fst y = 1" by blast
  then show ?thesis using assms(1,5) by (simp add: s1(2) held_def stored_def kind_def p_def turbo_phase_def)
qed

lemma behind_tell:
  assumes "behind s" "tell_with_yvar env x y yvar (s, g) = (r, s', g')"
  shows "r \<noteq> Inr () \<and> behind s'"
proof (cases "prepare_observations env x y s")
  case (Inl e)
  have b: "bare_ok s" "turbo_phase s" using assms(1) by (simp_all add: behind_def)
  have "\<not> refused env y s" using b(2) by (auto simp: refused_def turbo_phase_def)
  then have "told env x y s r s'" using tell_told [OF b(1) assms(2)] by simp
  moreover have "turbo_phase s'" by (rule turbo_phase_tell [OF b(2,1) assms(2)]) (use b(2) in \<open>simp add: turbo_phase_def\<close>)
  ultimately show ?thesis using assms(1) Inl by (auto simp: told_def behind_def)
next
  case (Inr d)
  then show ?thesis using turbo_phase_batch [OF _ _ _ assms(2) _ Inr] assms(1) by (auto simp: behind_def)
qed

lemma behind_ask:
  assumes "behind s" "opt_ask env n (s, g) = Some (r, s', g')"
  shows "behind s'"
proof -
  have "held (fallback_x s) (fallback_y s) (kind (op_tr s)) (incumbent_idx s) s" 
    using assms(1) by (simp add: held_def stored_def behind_def)
  from opt_ask_held [OF assms(2) this] show ?thesis using assms(1)
    by (auto simp: held_def stored_def behind_def kind_def turbo_phase_def)
qed

lemma behind_stays: "(opt_call env)\<^sup>*\<^sup>* (s, g) (s', g') \<Longrightarrow> behind s \<Longrightarrow> behind s'"
proof (induction "(s', g')" arbitrary: s' g' rule: rtranclp_induct)
  case (step st)
  obtain s1 g1 where st: "st = (s1, g1)" by fastforce
  then have "behind s1" using step.hyps(3) step.prems by simp
  then show ?case using step.hyps(2) unfolding st by (auto elim!: opt_callE dest: behind_ask behind_tell)
qed simp

section \<open>A region that keeps count\<close>

lemma max_by_value_ok:
  assumes "stored X Y K s" "[] \<notin> set Y" "best < length X" "set is \<subseteq> {..<length X}"
  shows "\<exists>i<length X. max_by_value env s best is = Inr i"
  using assms(3,4)
proof (induction "is" arbitrary: best)
  case (Cons k "is")
  have Y: "length Y = length X" using assms(1) by (auto simp: stored_def bare_ok_def)
  have "Y ! best \<in> set Y" "Y ! k \<in> set Y" using Cons.prems Y by simp_all
  then have "Y ! best \<noteq> []" "Y ! k \<noteq> []" using assms(2) by auto
  then have "first_greater env s best k = Inr (total_key (Y ! k ! 0) < total_key (Y ! best ! 0))"
    using first_greater_bare [OF assms(1), of best k env] Cons.prems by simp
  then show ?case using Cons.IH [of "if total_key (Y ! k ! 0) < total_key (Y ! best ! 0) then best else k"] Cons.prems by simp
qed simp

lemma update_incumbent_ok:
  assumes "stored X Y K s" "X \<noteq> []" "[] \<notin> set Y" "\<not> is_morbo (op_tr s)"
  shows "fst (update_incumbent env (s, g)) = Inr ()"
proof -
  have X: "hd [0..<length X] = 0" "tl [0..<length X] = [1..<length X]" "0 < length X" using assms(2) by (simp_all add: upt_rec)
  obtain i where i: "i < length X" "max_by_value env s 0 [1..<length X] = Inr i"
    using max_by_value_ok [OF assms(1,3) X(3), of "[1..<length X]" env] by (auto simp: subset_iff)
  have Y: "length Y = length X" using assms(1) by (auto simp: stored_def bare_ok_def)
  have "fst (pick_best_incumbent env [0..<length X] s) = Inr ()"
    unfolding pick_best_incumbent_def X i(2) using assms(1) i(1) Y
    by (simp add: store_incumbent_def Let_def obs_row_x_def obs_row_y_def stored_def bare_ok_def)
  then show ?thesis using assms(2,4) unfolding update_incumbent_cases [OF assms(1)] by (simp add: Let_def split_def)
qed

lemma tell_common_ok:
  assumes "stored X Y (False, m, p) s" "prepare_observations env x y s = Inr d" "[] \<notin> set (Y @ snd y)"
  shows "fst (tell_common env x y yvar (s, g)) = Inr ()"
proof -
  note d = prepare_bare [OF assms(1,2)]
  let ?X = "X @ snd x" and ?Y = "Y @ snd y"
  have none: "op_surrogate s = None" using assms(1) by (simp add: stored_def bare_ok_def)
  obtain s3 where s3: "commit_observations d s = (Inr (), s3)" "stored ?X ?Y (False, m, p) s3"
    using commit_stored [OF assms(1) d(4), of d] d(1-3) by auto
  have turbo: "\<not> is_morbo (op_tr s')" if "stored ?X ?Y (False, m, p) s'" for s'
    using that by (simp add: stored_def kind_def)
  obtain r5 s5 g5 where u: "update_incumbent env (s3, g) = (r5, s5, g5)" by (metis prod_cases3)
  have r5: "r5 = Inr ()" using update_incumbent_ok [OF s3(2) _ assms(3) turbo [OF s3(2)], of env g] d(5) u by simp
  have s5: "stored ?X ?Y (False, m, p) s5" using update_incumbent_stored(1) [OF s3(2), of env g] u by simp
  show ?thesis
    using assms(2) none d(1,6) s3(1) u r5 turbo [OF s3(2)] turbo [OF s5] stored_on_surrogate [OF s5, of "sg_release (oe_surrogate env)"]
    by (simp add: tell_common_def fit_surrogate_def with_rng_simp on_morbo_def)
qed

text \<open>All values are single, and the watermark of the region is zero or the number of rows.\<close>

definition in_step :: "'s Optimizer \<Rightarrow> bool" where
  "in_step s \<longleftrightarrow> bare_ok s \<and> turbo_phase s \<and> \<not> is_morbo (op_tr s) \<and> list_all (\<lambda>v. length v = 1) (fallback_y s) \<and>
     (turbo_prev_num_obs (op_tr s) = 0 \<or> turbo_prev_num_obs (op_tr s) = length (fallback_x s))"

lemma advance_turbo_ok:
  assumes "fst y = 1" "length inc = 1" "prev_num_obs t = 0 \<or> n = prev_num_obs t + length (snd y)" "length (snd y) \<le> n"
  shows "fst (advance_turbo n y inc (Turbo t)) = Inr ()"
  using assms by (auto simp: advance_turbo_def st_tell_update_new_batch_def turbo_tell_def set_prev_num_obs_def
    update_with_incumbent_new_batch_def Let_def)

text \<open>What the region makes of the batch is what the tell returns.\<close>

lemma tell_turbo_result:
  assumes "stored X Y (False, m, p) s" "prepare_observations env x y s = Inr d" "[] \<notin> set (Y @ snd y)"
  shows "\<exists>t i. prev_num_obs t = p \<and> i < length (Y @ snd y) \<and> fst (tell_turbo env x y yvar (s, g)) =
    map_err of_region_error (fst (advance_turbo (length (X @ snd x)) y ((Y @ snd y) ! i) (Turbo t)))"
proof -
  let ?X = "X @ snd x" and ?Y = "Y @ snd y"
  note d = prepare_bare [OF assms(1,2)]
  obtain r1 s1 g1 where c: "tell_common env x y yvar (s, g) = (r1, s1, g1)" by (metis prod_cases3)
  have r1: "r1 = Inr ()" using tell_common_ok [OF assms, of yvar g] c by simp
  then obtain i where s1: "held ?X ?Y (False, m, p) (Some i) s1" and "last_largest ?Y (length ?X) i"
    using tell_common_bare [OF assms(1) c] assms(2) by auto
  then have i: "i < length ?X" by (simp add: last_largest_def)
  have inc: "need_incumbent s1 = Inr (?Y ! i)"
    using s1 by (auto simp: need_incumbent_def held_def stored_def bare_ok_def obs_value_def kind_def ok_or_def)
  have Y: "length ?Y = length ?X" using s1 by (auto simp: held_def stored_def bare_ok_def)
  have n: "obs_count env s1 = length ?X" using s1 bare_count [of s1 env] by (simp add: held_def stored_def)
  define s2 where "s2 = s1\<lparr>op_tr := st_set_num_arms (length (snd x)) (op_tr s1)\<rparr>"
  have s2: "held ?X ?Y (False, m, p) (Some i) s2" unfolding s2_def by (rule held_region [OF s1]) simp
  then have mb: "\<not> is_morbo (op_tr s2)" by (simp add: held_def stored_def kind_def)
  then obtain t where t: "op_tr s2 = Turbo t" by (cases "op_tr s2") auto
  have p: "prev_num_obs t = p" using stored_turbo [OF _ t, of ?X ?Y False m p] s2 by (simp add: held_def)
  obtain r3 tr where a: "advance_turbo (length ?X) y (?Y ! i) (Turbo t) = (r3, tr)" by fastforce
  have tr: "\<not> is_morbo tr" using advance_turbo_bare [OF a] d(4,5) by (cases "snd y") auto
  obtain r4 s4 g4 where re: "restart_if_needed env (s2\<lparr>op_tr := tr\<rparr>, g1) = (r4, s4, g4)" by (metis prod_cases3)
  obtain tr' g5 where st: "st_restart (oe_rng env) (tr, g1) = (tr', g5)" by fastforce
  then have "\<not> is_morbo tr'" using kind_is_morbo [OF kind_steps(3), of "oe_rng env" tr g1] tr by simp
  then have r4: "r4 = Inr ()" using re st
    by (auto simp: restart_if_needed_def with_rng_def morbo_sync_ranges_from_obs_def split: if_splits)
  have "tell_turbo env x y yvar (s, g) =
      then_do (map_err of_region_error r3, s2\<lparr>op_tr := tr\<rparr>, g1) (\<lambda>_. restart_if_needed env)"
    using c r1 inc n mb t a by (simp add: tell_turbo_def Let_def s2_def)
  then have "fst (tell_turbo env x y yvar (s, g)) = map_err of_region_error r3" using re r4 by (cases r3) simp_all
  then show ?thesis using p i Y a by (intro exI [of _ t] exI [of _ i]) simp
qed

lemma tell_turbo_ok:
  assumes "stored X Y (False, m, p) s" "prepare_observations env x y s = Inr d" "fst y = 1"
    "list_all (\<lambda>v. length v = 1) (Y @ snd y)" "p = 0 \<or> p = length X"
  shows "fst (tell_turbo env x y yvar (s, g)) = Inr ()"
proof -
  note d = prepare_bare [OF assms(1,2)]
  have "[] \<notin> set (Y @ snd y)"
  proof
    assume "[] \<in> set (Y @ snd y)"
    then have "length ([] :: f64 list) = 1" using assms(4) unfolding list_all_iff by blast
    then show False by simp
  qed
  then obtain t i where t: "prev_num_obs t = p" "i < length (Y @ snd y)" "fst (tell_turbo env x y yvar (s, g)) =
      map_err of_region_error (fst (advance_turbo (length (X @ snd x)) y ((Y @ snd y) ! i) (Turbo t)))"
    using tell_turbo_result [OF assms(1,2), of yvar g] by blast
  have "length ((Y @ snd y) ! i) = 1" using assms(4) nth_mem [OF t(2)] unfolding list_all_iff by blast
  then have "fst (advance_turbo (length (X @ snd x)) y ((Y @ snd y) ! i) (Turbo t)) = Inr ()"
    by (rule advance_turbo_ok [OF assms(3)]) (use assms(5) t(1) d(4) in auto)
  then show ?thesis using t(3) by simp
qed

lemma tell_turbo_wide:
  assumes "stored X Y (False, m, p) s" "prepare_observations env x y s = Inr d" "[] \<notin> set (Y @ snd y)" "fst y \<noteq> 1"
  shows "fst (tell_turbo env x y yvar (s, g)) = Inl InvalidParameter"
  using tell_turbo_result [OF assms(1-3), of yvar g] assms(4)
  by (auto simp: advance_turbo_def st_tell_update_new_batch_def turbo_tell_def Let_def)

lemma in_step_tell:
  assumes "in_step s" "snd x \<noteq> []" "length (snd x) = length (snd y)" "length (fallback_x s) + length (snd x) < 2 ^ 64"
    "fst y = 1" "list_all (\<lambda>v. length v = 1) (snd y)" "tell_with_yvar env x y yvar (s, g) = (r, s', g')"
  shows "r = Inr () \<and> in_step s' \<and> turbo_prev_num_obs (op_tr s') = length (fallback_x s')"
proof -
  have ok: "bare_ok s" "turbo_phase s" "\<not> is_morbo (op_tr s)" using assms(1) by (simp_all add: in_step_def)
  obtain d where d: "prepare_observations env x y (s\<lparr>op_strategy := StTurbo\<rparr>) = Inr d"
    using prepare_ok [OF ok(1) assms(2-4)] by (auto simp: prepare_field)
  define p where "p = turbo_prev_num_obs (op_tr s)"
  have K: "stored (fallback_x s) (fallback_y s) (False, st_num_metrics (op_tr s), p) (s\<lparr>op_strategy := StTurbo\<rparr>)"
    using ok by (simp add: stored_def kind_def p_def)
  obtain s1 where s1: "tell_turbo env x y yvar (s\<lparr>op_strategy := StTurbo\<rparr>, g) = (r, s1, g')"
    "s' = s1\<lparr>op_strategy := op_strategy s\<rparr>" by (rule turbo_phase_tell [OF ok(2,1) assms(7)])
  have "fst (tell_turbo env x y yvar (s\<lparr>op_strategy := StTurbo\<rparr>, g)) = Inr ()"
    by (rule tell_turbo_ok [OF K d assms(5)]) (use assms(1,6) in \<open>simp_all add: in_step_def p_def\<close>)
  then have r: "r = Inr ()" using s1(1) by simp
  from tell_turbo_bare [OF K d s1(1)] r obtain q I where
    "held (fallback_x s @ snd x) (fallback_y s @ snd y) (False, st_num_metrics (op_tr s), q) I s1"
    "q = length (fallback_x s @ snd x)" by blast
  then show ?thesis using assms(1,6) r
    by (simp add: s1(2) in_step_def held_def stored_def kind_def turbo_phase_def)
qed

section \<open>The properties\<close>

text \<open>C2: 
  In every state that asks and tells can reach, the optimiser without a surrogate keeps as many
  value rows as position rows, its tracker knows exactly the stored rows, the region's watermark
  does not exceed them, and the incumbent, when there is one, is a stored row with its own
  position and value.
\<close>

lemma reachable_incumbent_is_stored:
  assumes "opt_reach env (s, g)"
  shows "length (fallback_y s) = length (fallback_x s) \<and> tracker_ask (op_tracker s) = [0..<length (fallback_x s)] \<and>
    turbo_prev_num_obs (op_tr s) \<le> length (fallback_x s) \<and>
    (case incumbent_idx s of
       None \<Rightarrow> incumbent_x_unit s = None \<and> incumbent_y_scalar s = None
     | Some i \<Rightarrow> i < length (fallback_x s) \<and> incumbent_x_unit s = Some (fallback_x s ! i) \<and>
         incumbent_y_scalar s = Some (obs_value s i))"
  using reach_bare [OF assms] by (simp add: bare_ok_def tracker_ask_def)


text \<open>C11: 
  For an optimiser without a surrogate, in the phase of a single-objective region that has seen a batch
  (its watermark is not zero): a batch of some rows whose values have another width than one is
  rejected and stored all the same, and from then on no tell succeeds: the region's watermark
  stays behind the stored rows whatever is asked or told next. Inputs and outputs are equally many,
  fewer than \<open>2 ^ 64\<close> with those stored, and no row of values is empty.
\<close>

lemma rejected_batch_blocks_all_later_tells:
  assumes "opt_reach env (s, g)" "turbo_phase s" "\<not> is_morbo (op_tr s)" "turbo_prev_num_obs (op_tr s) \<noteq> 0"
    "snd x \<noteq> []" "length (snd x) = length (snd y)" "length (fallback_x s) + length (snd x) < 2 ^ 64" "fst y \<noteq> 1"
    "[] \<notin> set (fallback_y s @ snd y)" "tell_with_yvar env x y yvar (s, g) = (r, s1, g1)"
    "(opt_call env)\<^sup>*\<^sup>* (s1, g1) (s2, g2)"
  shows "r = Inl InvalidParameter \<and> fallback_x s1 = fallback_x s @ snd x \<and>
    fst (tell_with_yvar env x' y' yvar' (s2, g2)) \<noteq> Inr ()"
proof -
  have ok: "bare_ok s" using reach_bare [OF assms(1)] by simp
  obtain d where d: "prepare_observations env x y s = Inr d" using prepare_ok [OF ok assms(5-7)] by blast
  note batch = turbo_phase_batch [OF assms(2) ok assms(3,10,4) d]
  obtain s3 where s3: "tell_turbo env x y yvar (s\<lparr>op_strategy := StTurbo\<rparr>, g) = (r, s3, g1)"
    by (rule turbo_phase_tell [OF assms(2) ok assms(10)])
  have "fst (tell_turbo env x y yvar (s\<lparr>op_strategy := StTurbo\<rparr>, g)) = Inl InvalidParameter"
    by (rule tell_turbo_wide [of "fallback_x s" "fallback_y s" "st_num_metrics (op_tr s)" "turbo_prev_num_obs (op_tr s)"])
      (use ok assms(3,8,9) d in \<open>simp_all add: stored_def kind_def prepare_field\<close>)
  then have "r = Inl InvalidParameter" using s3 by simp
  moreover have "turbo_prev_num_obs (op_tr s) < length (fallback_x s @ snd x)"
    using assms(5) ok by (cases "snd x") (simp_all add: bare_ok_def)
  then have "behind s1" using batch calculation assms(4) by (simp add: behind_def)
  then have "behind s2" by (rule behind_stays [OF assms(11)])
  then have "fst (tell_with_yvar env x' y' yvar' (s2, g2)) \<noteq> Inr ()"
    using behind_tell by (metis prod_cases3 fst_conv)
  ultimately show ?thesis using batch by simp
qed

text \<open>
  As long as every batch holds one value per row, no tell of the region's phase fails: an optimiser
  whose stored rows are single values and whose watermark is zero or up to date accepts the
  batch, and is again such an optimiser, with its watermark at the number of rows.
\<close>

lemma single_valued_batches_are_accepted:
  assumes "opt_reach env (s, g)" "turbo_phase s" "\<not> is_morbo (op_tr s)" "list_all (\<lambda>v. length v = 1) (fallback_y s @ snd y)"
    "turbo_prev_num_obs (op_tr s) = 0 \<or> turbo_prev_num_obs (op_tr s) = length (fallback_x s)"
    "snd x \<noteq> []" "length (snd x) = length (snd y)" "length (fallback_x s) + length (snd x) < 2 ^ 64" "fst y = 1"
  shows "\<exists>s' g'. tell_with_yvar env x y yvar (s, g) = (Inr (), s', g') \<and> turbo_phase s' \<and> \<not> is_morbo (op_tr s') \<and>
    list_all (\<lambda>v. length v = 1) (fallback_y s') \<and> turbo_prev_num_obs (op_tr s') = length (fallback_x s')"
proof -
  obtain r s' g' where t: "tell_with_yvar env x y yvar (s, g) = (r, s', g')" by (metis prod_cases3)
  have "in_step s" using reach_bare [OF assms(1)] assms(2-5) by (simp add: in_step_def)
  then show ?thesis using in_step_tell [OF _ assms(6-9) _ t] assms(4) t by (auto simp: in_step_def)
qed

section \<open>An optimiser of one dimension\<close>

definition no_surrogate_ops :: "(unit, unit) surrogate_ops" where
  "no_surrogate_ops = \<lparr>sg_fit_append = \<lambda>x y v st. (Inr (), st), sg_predict = \<lambda>x g. Inr (x, x),
     sg_sample = \<lambda>x n g u. Inr ((1, []), u), sg_lengthscales = \<lambda>g. None, sg_num_metrics = \<lambda>g. None,
     sg_count = \<lambda>g. None, sg_row_x = \<lambda>i g. Inr [], sg_row_y = \<lambda>i g. Inr [], sg_obs_x = \<lambda>g. Inr None,
     sg_obs_y = \<lambda>g. Inr None, sg_schedule = \<lambda>g. (Inr (), g), sg_wait = \<lambda>g. (Inr (), g), sg_release = \<lambda>g. (Inr (), g)\<rparr>"

definition sample_env :: "(unit, unit) opt_env" where
  "sample_env = \<lparr>oe_surrogate = no_surrogate_ops, oe_new_surrogate = (), oe_cand = plain_source,
     oe_acq = \<lparr>shuffle = \<lambda>xs u. (xs, u), sample_unit = \<lambda>u. (fzero, u), next_u64 = \<lambda>u. (0, u), ln_f64 = id, cos_f64 = id\<rparr>,
     oe_rng = \<lparr>rng_gen = \<lambda>u. (fzero, u), libm_ln = id\<rparr>, oe_below = \<lambda>n u. (0, u), oe_mean = \<lambda>xs. None\<rparr>"

definition sample_config :: OptimizerConfig where
  "sample_config = \<lparr>oc_surrogate = NoSurrogate, oc_trust_region = TurboConfig unit_lengths,
     oc_candidates = \<lparr>num_candidates_factor = one64, min_candidates = 1, max_candidates = None,
       num_candidates_per_arm = None, num_pert = 1, candidate_rv = Uniform\<rparr>,
     oc_acquisition = AcqRandom, oc_noise_aware = False, oc_failure_tolerance_dim = None\<rparr>"

definition fresh_opt :: "unit Optimizer" where
  "fresh_opt = \<lparr>op_bounds = [[fzero, one64]], op_num_dim = 1, op_config = sample_config,
     op_tr = Turbo (turbo_new 1 unit_lengths), op_surrogate = None, op_strategy = StTurbo, fallback_x = [],
     fallback_y = [], incumbent_idx = None, incumbent_x_unit = None, incumbent_y_scalar = None,
     restart_generation = 0, op_sobol = None, sobol_seed_base = 0, op_candidates = 0,
     op_tracker = \<lparr>tk_m = 1000000001, tk_count = 0, tk_all = [], tk_max = neg_infinity, tk_max_indices = [],
       tk_initialized = False, tk_top = [], tk_metrics = [], tk_use_all = True, tk_use_max = False, tk_use_top = False\<rparr>\<rparr>"

lemma fresh_reached: "opt_reach sample_env (fresh_opt, ())"
proof (rule opt_reach.created)
  show "opt_new_inner sample_env (2, [[fzero, one64]]) sample_config StTurbo None () = Inr (fresh_opt, ())"
    by (simp add: opt_new_inner_def sample_env_def sample_config_def fresh_opt_def from_config_def plain_source_def
      tracker_new_def tracker_m_no_surrogate_def ALL_CANDIDATES_M_THRESHOLD_def)
  show "oc_surrogate sample_config = NoSurrogate" by (simp add: sample_config_def)
qed

lemma fresh_told:
  obtains s1 where "tell_with_yvar sample_env (1, [[half64]]) (1, [[fzero]]) None (fresh_opt, ()) = (Inr (), s1, ())"
    "in_step s1" "turbo_prev_num_obs (op_tr s1) = 1" "length (fallback_x s1) = 1"
proof -
  obtain r s1 g1 where t: "tell_with_yvar sample_env (1, [[half64]]) (1, [[fzero]]) None (fresh_opt, ()) = (r, s1, g1)"
    by (metis prod_cases3)
  have "bare_ok fresh_opt" using reach_bare [OF fresh_reached] by simp
  then have "in_step fresh_opt" by (simp add: in_step_def turbo_phase_def fresh_opt_def turbo_new_def)
  then have ok: "r = Inr () \<and> in_step s1 \<and> turbo_prev_num_obs (op_tr s1) = length (fallback_x s1)"
    by (rule in_step_tell [OF _ _ _ _ _ _ t]) (simp_all add: fresh_opt_def)
  have "told sample_env (1, [[half64]]) (1, [[fzero]]) fresh_opt r s1"
    using tell_told [OF \<open>bare_ok fresh_opt\<close> t] by (simp add: refused_def fresh_opt_def)
  then have "length (fallback_x s1) = 1" using ok by (auto simp: told_def fresh_opt_def)
  then show ?thesis using that t ok by simp
qed

lemma sample_call: "tell_with_yvar sample_env x y None (s, ()) = (Inr (), s1, ()) \<Longrightarrow> opt_reach sample_env (s, ()) \<Longrightarrow>
    opt_reach sample_env (s1, ())"
  by (blast intro: opt_reach.called opt_call.tells)

theorem reachable_incumbent_is_stored_witness:
  "\<exists>s. tell_with_yvar sample_env (1, [[half64]]) (1, [[fzero]]) None (fresh_opt, ()) = (Inr (), s, ()) \<and>
    length (fallback_x s) = 1 \<and> length (fallback_y s) = 1 \<and> tracker_ask (op_tracker s) = [0] \<and>
    (case incumbent_idx s of None \<Rightarrow> incumbent_x_unit s = None | Some i \<Rightarrow> i < 1 \<and> incumbent_x_unit s = Some (fallback_x s ! i))"
proof -
  obtain s where s: "tell_with_yvar sample_env (1, [[half64]]) (1, [[fzero]]) None (fresh_opt, ()) = (Inr (), s, ())"
    "length (fallback_x s) = 1" using fresh_told by blast
  have reach: "opt_reach sample_env (s, ())" by (rule sample_call [OF s(1) fresh_reached])
  from reachable_incumbent_is_stored [OF reach] s show ?thesis
    by (intro exI [of _ s]) (auto split: option.splits)
qed


theorem single_valued_batches_are_accepted_witness:
  "\<exists>s' g'. tell_with_yvar sample_env (1, [[half64]]) (1, [[fzero]]) None (fresh_opt, ()) = (Inr (), s', g')"
  using single_valued_batches_are_accepted [OF fresh_reached, of "(1, [[fzero]])" "(1, [[half64]])" None]
  by (auto simp: turbo_phase_def fresh_opt_def turbo_new_def)

theorem rejected_batch_blocks_all_later_tells_witness:
  "\<exists>s g r s1 g1. opt_reach sample_env (s, g) \<and>
    tell_with_yvar sample_env (1, [[half64]]) (2, [[one64, one64]]) None (s, g) = (r, s1, g1) \<and> r \<noteq> Inr () \<and>
    fst (tell_with_yvar sample_env (1, [[half64]]) (1, [[one64]]) None (s1, g1)) \<noteq> Inr ()"
proof -
  obtain s where s: "tell_with_yvar sample_env (1, [[half64]]) (1, [[fzero]]) None (fresh_opt, ()) = (Inr (), s, ())"
    "in_step s" "turbo_prev_num_obs (op_tr s) = 1" "length (fallback_x s) = 1" using fresh_told by blast
  have reach: "opt_reach sample_env (s, ())" by (rule sample_call [OF s(1) fresh_reached])
  obtain r s1 g1 where t: "tell_with_yvar sample_env (1, [[half64]]) (2, [[one64, one64]]) None (s, ()) = (r, s1, g1)"
    by (metis prod_cases3)
  have told: "told sample_env (1, [[half64]]) (1, [[fzero]]) fresh_opt (Inr ()) s"
    using tell_told [OF _ s(1)] reach_bare [OF fresh_reached] by (simp add: refused_def fresh_opt_def)
  then have "fallback_y s = [[fzero]]" by (auto simp: told_def fresh_opt_def)
  then have "[] \<notin> set (fallback_y s @ snd (2 :: nat, [[one64, one64]]))" by simp
  from rejected_batch_blocks_all_later_tells [OF reach _ _ _ _ _ _ _ this t rtranclp.rtrancl_refl, of "(1, [[half64]])" "(1, [[one64]])" None]
  have "r = Inl InvalidParameter \<and> fst (tell_with_yvar sample_env (1, [[half64]]) (1, [[one64]]) None (s1, g1)) \<noteq> Inr ()"
    using s(2-4) by (simp add: in_step_def)
  then show ?thesis using reach t by (intro exI conjI) auto
qed

end
