(* ===== verification/ParetoLaws.thy ===== *)
theory ParetoLaws
  imports Pareto
begin

text \<open>
  The layers of non-dominated sorting. A layering peels the undominated elements of a set until
  nothing is left; both algorithms of \<open>Pareto\<close> compute it, the general one for any number of
  objectives without NaNs, the sweep for two objectives that are finite and no negative zero.
\<close>

section \<open>Layers of a dominance relation\<close>

definition undominated :: "(nat \<Rightarrow> nat \<Rightarrow> bool) \<Rightarrow> nat set \<Rightarrow> nat set" where
  "undominated D R = {i \<in> R. \<forall>j\<in>R. \<not> D j i}"

fun is_layering :: "(nat \<Rightarrow> nat \<Rightarrow> bool) \<Rightarrow> nat set \<Rightarrow> nat set list \<Rightarrow> bool" where
  "is_layering D R [] \<longleftrightarrow> R = {}"
| "is_layering D R (F # Fs) \<longleftrightarrow> R \<noteq> {} \<and> F = undominated D R \<and> is_layering D (R - F) Fs"

lemma layering_unique: "is_layering D R Fs \<Longrightarrow> is_layering D R Gs \<Longrightarrow> Fs = Gs"
proof (induction Fs arbitrary: R Gs)
  case Nil
  then show ?case by (cases Gs) auto
next
  case (Cons F Fs)
  then show ?case by (cases Gs) auto
qed

lemma layering_cong:
  "(\<And>i j. i \<in> R \<Longrightarrow> j \<in> R \<Longrightarrow> D i j = D' i j) \<Longrightarrow> is_layering D R Fs = is_layering D' R Fs"
proof (induction Fs arbitrary: R)
  case Nil
  then show ?case by simp
next
  case (Cons F Fs)
  have "undominated D R = undominated D' R" using Cons.prems by (auto simp: undominated_def)
  then show ?case using Cons.IH [of "R - F"] Cons.prems by auto
qed

text \<open>A relation that lowers a score leaves some element of every finite set undominated.\<close>

lemma undominated_nonempty:
  fixes score :: "nat \<Rightarrow> int"
  assumes "finite R" "R \<noteq> {}" "\<And>i j. i \<in> R \<Longrightarrow> j \<in> R \<Longrightarrow> D i j \<Longrightarrow> score j < score i"
  shows "undominated D R \<noteq> {}"
proof -
  have "Max (score ` R) \<in> score ` R" using assms(1,2) by simp
  then obtain i where i: "i \<in> R" "score i = Max (score ` R)" by auto
  have "\<not> D j i" if "j \<in> R" for j
    using assms(3) [OF that i(1)] i(2) Max_ge [of "score ` R" "score j"] assms(1) that by (metis finite_imageI imageI not_le)
  then show ?thesis using i(1) by (auto simp: undominated_def)
qed

text \<open>A selection that takes whole layers, then part of the next one, is closed upwards.\<close>

definition closed_up :: "(nat \<Rightarrow> nat \<Rightarrow> bool) \<Rightarrow> nat set \<Rightarrow> nat set \<Rightarrow> bool" where
  "closed_up D R S \<longleftrightarrow> (\<forall>i\<in>S. \<forall>j\<in>R. D j i \<longrightarrow> j \<in> S)"

lemma closed_up_empty [simp]: "closed_up D R {}"
  by (simp add: closed_up_def)

lemma closed_up_layer: "S \<subseteq> undominated D R \<Longrightarrow> closed_up D R S"
  by (auto simp: closed_up_def undominated_def)

lemma closed_up_step:
  assumes "closed_up D (R - undominated D R) S"
  shows "closed_up D R (undominated D R \<union> S)"
  using assms by (auto simp: closed_up_def undominated_def)

section \<open>Dominance of rows\<close>

definition no_nan :: "f64 list \<Rightarrow> bool" where
  "no_nan xs \<longleftrightarrow> (\<forall>x\<in>set xs. \<not> is_nan x)"

lemma dom_scan_iff:
  assumes "length xs = length ys" "no_nan xs" "no_nan ys"
  shows "fst (dom_scan xs ys g) \<longleftrightarrow> list_all2 (\<lambda>x y. fkey y \<le> fkey x) xs ys"
    and "dom_scan xs ys g = (True, True) \<longleftrightarrow>
      list_all2 (\<lambda>x y. fkey y \<le> fkey x) xs ys \<and> (g \<or> (\<exists>(x, y)\<in>set (zip xs ys). fkey y < fkey x))"
  using assms by (induction xs ys arbitrary: g rule: list_induct2) (auto simp: no_nan_def fcmp_defs)

lemma dominates_iff:
  assumes "length xs = length ys" "no_nan xs" "no_nan ys"
  shows "dominates xs ys \<longleftrightarrow>
    list_all2 (\<lambda>x y. fkey y \<le> fkey x) xs ys \<and> (\<exists>(x, y)\<in>set (zip xs ys). fkey y < fkey x)"
  using dom_scan_iff(2) [OF assms, of False] by (simp add: dominates_def)

definition row_key :: "f64 list \<Rightarrow> int" where
  "row_key xs = sum_list (map fkey xs)"

lemma list_all2_row_key: "list_all2 (\<lambda>x y. fkey y \<le> fkey x) xs ys \<Longrightarrow> row_key ys \<le> row_key xs"
  by (induction rule: list_all2_induct) (auto simp: row_key_def)

lemma strict_row_key:
  "list_all2 (\<lambda>x y. fkey y \<le> fkey x) xs ys \<Longrightarrow> \<exists>(x, y)\<in>set (zip xs ys). fkey y < fkey x \<Longrightarrow> row_key ys < row_key xs"
proof (induction rule: list_all2_induct)
  case Nil
  then show ?case by simp
next
  case (Cons x xs y ys)
  then show ?case using list_all2_row_key [OF Cons(2)] by (cases "fkey y < fkey x") (auto simp: row_key_def)
qed

lemma dominates_row_key:
  "length xs = length ys \<Longrightarrow> no_nan xs \<Longrightarrow> no_nan ys \<Longrightarrow> dominates xs ys \<Longrightarrow> row_key ys < row_key xs"
  by (simp add: dominates_iff strict_row_key)

text \<open>The rows of a matrix without NaNs, and who dominates whom.\<close>

definition matrix_ok :: "nat \<Rightarrow> f64 list list \<Rightarrow> bool" where
  "matrix_ok m objs \<longleftrightarrow> (\<forall>row\<in>set objs. length row = m \<and> no_nan row)"

definition row_dom :: "f64 list list \<Rightarrow> nat \<Rightarrow> nat \<Rightarrow> bool" where
  "row_dom objs i j \<longleftrightarrow> dominates (objs ! i) (objs ! j)"

lemma matrix_rows:
  "matrix_ok m objs \<Longrightarrow> i < length objs \<Longrightarrow> length (objs ! i) = m \<and> no_nan (objs ! i)"
  by (simp add: matrix_ok_def)

lemma row_dom_key:
  "matrix_ok m objs \<Longrightarrow> i < length objs \<Longrightarrow> j < length objs \<Longrightarrow> row_dom objs i j \<Longrightarrow> row_key (objs ! j) < row_key (objs ! i)"
  unfolding row_dom_def by (rule dominates_row_key) (simp_all add: matrix_rows)

lemma row_dom_undominated:
  assumes "matrix_ok m objs" "R \<subseteq> {..<length objs}" "R \<noteq> {}"
  shows "undominated (row_dom objs) R \<noteq> {}"
  by (rule undominated_nonempty [where score = "\<lambda>i. row_key (objs ! i)"])
    (use assms row_dom_key [OF assms(1)] finite_subset [OF assms(2)] in \<open>auto simp: subset_iff\<close>)

lemma dominated_lists_nth:
  assumes "matrix_ok m objs" "i < length objs"
  shows "dominated_lists objs ! i = filter (row_dom objs i) [0..<length objs]"
proof -
  have "\<not> row_dom objs i i" using row_dom_key [OF assms(1,2,2)] by blast
  then show ?thesis using assms(2) by (auto simp: dominated_lists_def row_dom_def intro!: filter_cong)
qed

lemma domination_counts_nth:
  assumes "matrix_ok m objs" "i < length objs"
  shows "domination_counts objs ! i = card {j \<in> {..<length objs}. row_dom objs j i}"
proof -
  have eq: "(i \<noteq> j \<and> \<not> fst (dom_scan (objs ! i) (objs ! j) False) \<and> dominates (objs ! j) (objs ! i)) = row_dom objs j i"
    if "j < length objs" for j
  proof -
    have ij: "length (objs ! i) = length (objs ! j)" "no_nan (objs ! i)" "no_nan (objs ! j)"
      using matrix_rows [OF assms(1)] assms(2) that by auto
    have "row_key (objs ! j) \<le> row_key (objs ! i)" if "fst (dom_scan (objs ! i) (objs ! j) False)"
      using that list_all2_row_key unfolding dom_scan_iff(1) [OF ij] by blast
    then show ?thesis using row_dom_key [OF assms(1) \<open>j < length objs\<close> assms(2)] by (auto simp: row_dom_def)
  qed
  have "domination_counts objs ! i = length (filter (\<lambda>j. row_dom objs j i) [0..<length objs])"
    using assms(2) eq unfolding domination_counts_def
    by (simp del: upt_Suc add: nth_map) (intro arg_cong [of _ _ length] filter_cong refl, simp)
  also have "\<dots> = card {j \<in> {..<length objs}. row_dom objs j i}"
    by (subst distinct_card [symmetric]) (auto intro!: arg_cong [of _ _ card])
  finally show ?thesis .
qed

section \<open>The general algorithm peels layers\<close>

lemma release_append: "release (xs @ ys) st = release ys (release xs st)"
  by (induction xs arbitrary: st) (auto simp: Let_def)

lemma foldl_release: "foldl (\<lambda>st i. release (f i) st) st is = release (concat (map f is)) st"
  by (induction "is" arbitrary: st) (simp_all add: release_append)

text \<open>Releasing a list of indices lowers each count by its occurrences; what reaches zero is pushed
  once.\<close>

lemma release_spec:
  assumes "\<forall>j\<in>set js. j < length counts" "\<forall>j < length counts. count_list js j \<le> counts ! j"
  shows "\<exists>counts' nz. release js (counts, nxt) = (counts', nxt @ nz) \<and> length counts' = length counts \<and>
    (\<forall>j < length counts. counts' ! j = counts ! j - count_list js j) \<and> distinct nz \<and>
    set nz = {j \<in> set js. counts ! j = count_list js j}"
  using assms
proof (induction js arbitrary: counts nxt)
  case Nil
  then show ?case by simp
next
  case (Cons j js)
  let ?c = "counts ! j - 1"
  let ?counts = "counts[j := ?c]"
  have j: "j < length counts" "count_list js j + 1 \<le> counts ! j" using Cons.prems by auto
  have "count_list js i \<le> ?counts ! i" if "i < length counts" for i
    using Cons.prems(2) that j by (cases "i = j") auto
  then have le: "\<forall>i < length ?counts. count_list js i \<le> ?counts ! i" by simp
  have "\<forall>i\<in>set js. i < length ?counts" using Cons.prems(1) by simp
  from Cons.IH [OF this le, of "if ?c = 0 then nxt @ [j] else nxt", unfolded length_list_update] obtain counts' nz where IH: "release js (?counts, if ?c = 0 then nxt @ [j] else nxt) =
        (counts', (if ?c = 0 then nxt @ [j] else nxt) @ nz)" "length counts' = length counts"
      "\<forall>i < length counts. counts' ! i = ?counts ! i - count_list js i" "distinct nz"
      "set nz = {i \<in> set js. ?counts ! i = count_list js i}"
    by blast
  have "counts' ! i = counts ! i - count_list (j # js) i" if "i < length counts" for i
    using IH(3) that by (cases "i = j") simp_all
  then have cnt: "\<forall>i < length counts. counts' ! i = counts ! i - count_list (j # js) i" by blast
  show ?case
  proof (cases "?c = 0")
    case True
    then have none: "j \<notin> set js" "counts ! j = 1" using j count_notin count_list_0_iff [of js j] by auto
    have "i \<in> set (j # nz) \<longleftrightarrow> i \<in> {i \<in> set (j # js). counts ! i = count_list (j # js) i}" for i
      using IH(5) none by (cases "i = j") simp_all
    then have "set (j # nz) = {i \<in> set (j # js). counts ! i = count_list (j # js) i}" by blast
    moreover have "release (j # js) (counts, nxt) = (counts', nxt @ j # nz)" using True IH(1) by (simp add: Let_def)
    moreover have "distinct (j # nz)" using IH(4,5) none(1) by simp
    ultimately show ?thesis using IH(2) cnt by blast
  next
    case False
    have "j \<in> set js" if "counts ! j = Suc (count_list js j)"
      using that False count_notin [of j js] by (cases "j \<in> set js") auto
    then have "i \<in> set nz \<longleftrightarrow> i \<in> {i \<in> set (j # js). counts ! i = count_list (j # js) i}" for i
      using IH(5) j by (cases "i = j") auto
    then have "set nz = {i \<in> set (j # js). counts ! i = count_list (j # js) i}" by blast
    moreover have "release (j # js) (counts, nxt) = (counts', nxt @ nz)" using False IH(1) by (simp add: Let_def)
    ultimately show ?thesis using IH(2,4) cnt by blast
  qed
qed

lemma count_list_distinct: "distinct xs \<Longrightarrow> count_list xs x = (if x \<in> set xs then 1 else 0)"
  by (induction xs) auto

lemma count_concat_filter:
  assumes "distinct is" "\<forall>i\<in>set is. f i = filter (D i) [0..<n]" "j < n"
  shows "count_list (concat (map f is)) j = card {i \<in> set is. D i j}"
  using assms(1,2)
proof (induction "is")
  case Nil
  then show ?case by simp
next
  case (Cons i "is")
  have "count_list (filter (D i) [0..<n]) j = (if D i j then 1 else 0)"
    using assms(3) by (simp add: count_list_distinct)
  moreover have "{k \<in> set (i # is). D k j} = (if D i j then insert i {k \<in> set is. D k j} else {k \<in> set is. D k j})"
    by auto
  ultimately show ?case using Cons by (auto simp: card_insert_if)
qed

text \<open>Each round's front is the undominated part of what remains.\<close>

lemma peel_fronts_layers:
  assumes D: "D = row_dom objs" "n = length objs" "matrix_ok m objs"
    and "R \<subseteq> {..<n}" "distinct current" "set current = undominated D R" "length counts = n"
    and "\<forall>j<n. counts ! j = card {i \<in> R. D i j}" "\<forall>j<n. j \<notin> R \<longrightarrow> (\<forall>i\<in>R. \<not> D i j)"
  shows "\<exists>fs. peel_fronts (dominated_lists objs) counts current = Some fs \<and> is_layering D R (map set fs) \<and>
    (\<forall>f\<in>set fs. distinct f)"
  using assms(4-)
proof (induction "card R" arbitrary: R current counts rule: less_induct)
  case less
  have fin: "finite R" using finite_subset [OF less.prems(1)] by simp
  have sub: "undominated D R \<subseteq> R" by (auto simp: undominated_def)
  show ?case
  proof (cases "current = []")
    case True
    then have "R = {}" using row_dom_undominated [OF D(3), of R] less.prems(1,3) D(1,2) by auto
    then show ?thesis using True by (simp add: peel_fronts.simps)
  next
    case False
    let ?js = "concat (map ((!) (dominated_lists objs)) current)"
    let ?R = "R - undominated D R"
    have ne: "undominated D R \<noteq> {}" using False less.prems(3) by (metis set_empty)
    have cur: "set current \<subseteq> {..<n}" using less.prems(1,3) sub by auto
    have cnt: "count_list ?js j = card {i \<in> undominated D R. D i j}" if "j < n" for j
      using count_concat_filter [OF less.prems(2), of "(!) (dominated_lists objs)" D n j] that cur
        dominated_lists_nth [OF D(3)] less.prems(3) unfolding D(1,2) by auto
    have le: "\<forall>j < length counts. count_list ?js j \<le> counts ! j"
      using cnt less.prems(4,5) fin sub by (auto intro!: card_mono)
    have "\<forall>j\<in>set ?js. j < length counts"
      using cur less.prems(4) dominated_lists_nth [OF D(3)] unfolding D(2) by auto
    from release_spec [OF this le, of "[]"] obtain counts' nz where
      r: "release ?js (counts, []) = (counts', nz)" "length counts' = n" "distinct nz"
        "\<forall>j<n. counts' ! j = counts ! j - count_list ?js j" "set nz = {j \<in> set ?js. counts ! j = count_list ?js j}"
      using less.prems(4) by auto
    have split: "card {i \<in> R. D i j} = card {i \<in> undominated D R. D i j} + card {i \<in> ?R. D i j}" for j
    proof -
      have "{i \<in> R. D i j} = {i \<in> undominated D R. D i j} \<union> {i \<in> ?R. D i j}" using sub by auto
      then show ?thesis using fin sub finite_subset [OF sub fin] by (simp add: card_Un_disjoint disjoint_iff)
    qed
    have counts': "\<forall>j<n. counts' ! j = card {i \<in> ?R. D i j}"
      using r(4) less.prems(5) cnt split by simp
    have closed: "\<forall>j<n. j \<notin> ?R \<longrightarrow> (\<forall>i\<in>?R. \<not> D i j)"
      using less.prems(6) by (auto simp: undominated_def)
    have each: "set (dominated_lists objs ! i) = {j. j < n \<and> D i j}" if "i \<in> undominated D R" for i
      using cur less.prems(3) that dominated_lists_nth [OF D(3), of i] unfolding D(1,2) by auto
    have "j \<in> set nz \<longleftrightarrow> j \<in> undominated D ?R" for j
    proof -
      have js: "j \<in> set ?js \<longleftrightarrow> j < n \<and> (\<exists>i\<in>undominated D R. D i j)"
        using each less.prems(3) by auto
      have zero: "counts ! j = count_list ?js j \<longleftrightarrow> (\<forall>i\<in>?R. \<not> D i j)" if "j < n"
        using cnt [OF that] less.prems(5) that split [of j] fin by (auto simp: card_eq_0_iff)
      have "(\<exists>i\<in>undominated D R. D i j) \<and> (\<forall>i\<in>?R. \<not> D i j) \<longleftrightarrow> j \<in> ?R \<and> (\<forall>i\<in>?R. \<not> D i j)" if "j < n"
        using that less.prems(6) sub by (auto simp: undominated_def)
      then show ?thesis using js zero r(5) less.prems(1) by (auto simp: undominated_def)
    qed
    then have nz: "set nz = undominated D ?R" by blast
    have "card ?R < card R" using ne sub fin by (auto intro!: psubset_card_mono)
    then obtain fs where fs: "peel_fronts (dominated_lists objs) counts' nz = Some fs" "is_layering D ?R (map set fs)"
        "\<forall>f\<in>set fs. distinct f"
      using less.hyps [OF _ _ r(3) nz r(2) counts' closed] less.prems(1) by blast
    have "peel_fronts (dominated_lists objs) counts current = Some (current # fs)"
      using False fs(1) r(1) by (subst peel_fronts.simps) (simp add: foldl_release)
    then show ?thesis using fs(2,3) ne sub less.prems(2,3) by auto
  qed
qed

lemma general_sort_layers:
  assumes "matrix_ok m objs"
  shows "\<exists>fs. non_domin_sort_any objs = Some fs \<and> is_layering (row_dom objs) {..<length objs} (map set fs) \<and>
    (\<forall>f\<in>set fs. distinct f)"
  unfolding non_domin_sort_any_def
proof (rule peel_fronts_layers [OF refl refl assms])
  show "set (filter (\<lambda>i. domination_counts objs ! i = 0) [0..<length objs]) = undominated (row_dom objs) {..<length objs}"
    using domination_counts_nth [OF assms] by (auto simp: undominated_def card_eq_0_iff)
  show "\<forall>j<length objs. domination_counts objs ! j = card {i \<in> {..<length objs}. row_dom objs i j}"
    using domination_counts_nth [OF assms] by simp
qed (auto simp: domination_counts_def)

section \<open>The sweep finds the undominated pairs\<close>

text \<open>Finite and no negative zero: the total order of the bits is the order of the values.\<close>

definition plain :: "f64 \<Rightarrow> bool" where
  "plain x \<longleftrightarrow> is_finite x \<and> (mag x = 0 \<longrightarrow> \<not> sign_neg x)"

lemma plain_keys:
  "plain x \<Longrightarrow> \<not> is_nan x"
  "plain x \<Longrightarrow> plain y \<Longrightarrow> total_key x \<le> total_key y \<longleftrightarrow> fkey x \<le> fkey y"
  "plain x \<Longrightarrow> plain y \<Longrightarrow> total_key x < total_key y \<longleftrightarrow> fkey x < fkey y"
  "plain x \<Longrightarrow> plain y \<Longrightarrow> total_key x = total_key y \<longleftrightarrow> fkey x = fkey y"
  by (auto simp: plain_def is_finite_def is_nan_def total_key_def fkey_def)

definition dom2 :: "(nat \<Rightarrow> f64) \<Rightarrow> (nat \<Rightarrow> f64) \<Rightarrow> nat \<Rightarrow> nat \<Rightarrow> bool" where
  "dom2 a b i j \<longleftrightarrow> fkey (a j) \<le> fkey (a i) \<and> fkey (b j) \<le> fkey (b i) \<and>
     (fkey (a j) < fkey (a i) \<or> fkey (b j) < fkey (b i))"

definition plain_at :: "(nat \<Rightarrow> f64) \<Rightarrow> (nat \<Rightarrow> f64) \<Rightarrow> nat \<Rightarrow> bool" where
  "plain_at a b i \<longleftrightarrow> plain (a i) \<and> plain (b i)"

lemma desc_by2_key:
  "plain_at a b i \<Longrightarrow> plain_at a b j \<Longrightarrow> desc_by2 a b i j \<longleftrightarrow>
    fkey (a j) < fkey (a i) \<or> fkey (a i) = fkey (a j) \<and> fkey (b j) \<le> fkey (b i)"
  by (simp add: plain_at_def desc_by2_def plain_keys)

lemma desc_by2_preorder: "preorder_on_set A (desc_by2 a b)"
  by (rule preorder_on_setI) (auto simp: desc_by2_def)

lemma desc_by_preorder: "preorder_on_set A (desc_by v)"
  by (rule preorder_on_setI) (auto simp: desc_by_def)

text \<open>What the sweep knows of the indices it has passed: the last pair it pushed has the best second
  value, and the best first value among those.\<close>

definition swept :: "(nat \<Rightarrow> f64) \<Rightarrow> (nat \<Rightarrow> f64) \<Rightarrow> nat list \<Rightarrow> f64 \<Rightarrow> f64 \<times> f64 \<Rightarrow> bool" where
  "swept a b P best prev \<longleftrightarrow>
     (P = [] \<and> best = neg_infinity \<and> prev = (nan, nan)) \<or>
     (\<exists>l\<in>set P. best = b l \<and> prev = (a l, b l) \<and>
        (\<forall>p\<in>set P. fkey (b p) < fkey (b l) \<or> fkey (b p) = fkey (b l) \<and> fkey (a p) \<le> fkey (a l)))"

lemma neg_infinity_lt_plain: "plain x \<Longrightarrow> flt neg_infinity x"
  by (auto simp: plain_def fcmp_defs is_finite_def is_nan_def fkey_def neg_infinity_def float_layout)

lemma nan_nan: "is_nan (nan :: f64)"
  by (simp add: is_nan_def nan_def float_layout)

text \<open>An index after \<open>P\<close> is kept exactly when nothing in \<open>P\<close> dominates it.\<close>

lemma swept_step:
  assumes "swept a b P best prev" "\<forall>p\<in>set P. plain_at a b p \<and> desc_by2 a b p x" "plain_at a b x"
  defines "new \<equiv> flt best (b x)"
  defines "tie \<equiv> feq (b x) best \<and> feq (a x) (fst prev) \<and> feq (b x) (snd prev)"
  shows "(new \<or> tie) \<longleftrightarrow> (\<forall>p\<in>set P. \<not> dom2 a b p x)"
    and "swept a b (P @ [x]) (if new then b x else best) (if new then (a x, b x) else prev)"
proof -
  have x: "\<not> is_nan (a x)" "\<not> is_nan (b x)" "plain (b x)" using assms(3) by (auto simp: plain_at_def plain_keys)
  have "((new \<or> tie) \<longleftrightarrow> (\<forall>p\<in>set P. \<not> dom2 a b p x)) \<and>
      swept a b (P @ [x]) (if new then b x else best) (if new then (a x, b x) else prev)"
  proof (cases "P = []")
    case True
    then show ?thesis using assms(1) neg_infinity_lt_plain [OF x(3)] by (auto simp: swept_def new_def)
  next
    case False
    then obtain l where l: "l \<in> set P" "best = b l" "prev = (a l, b l)"
        "\<forall>p\<in>set P. fkey (b p) < fkey (b l) \<or> fkey (b p) = fkey (b l) \<and> fkey (a p) \<le> fkey (a l)"
      using assms(1) by (auto simp: swept_def)
    have key: "fkey (a x) < fkey (a p) \<or> fkey (a p) = fkey (a x) \<and> fkey (b x) \<le> fkey (b p)" if "p \<in> set P" for p
      using assms(2,3) that desc_by2_key by blast
    have nl: "\<not> is_nan (a l)" "\<not> is_nan (b l)" using assms(2) l(1) by (auto simp: plain_at_def plain_keys)
    have new: "new \<longleftrightarrow> fkey (b l) < fkey (b x)" using x nl by (simp add: new_def l(2) fcmp_defs)
    have tie: "tie \<longleftrightarrow> fkey (b x) = fkey (b l) \<and> fkey (a x) = fkey (a l)"
      using x nl by (auto simp: tie_def l(2,3) fcmp_defs)
    have "(new \<or> tie) \<longleftrightarrow> (\<forall>p\<in>set P. \<not> dom2 a b p x)"
    proof
      assume "new \<or> tie"
      then show "\<forall>p\<in>set P. \<not> dom2 a b p x" using l(4) unfolding new tie dom2_def by fastforce
    next
      assume "\<forall>p\<in>set P. \<not> dom2 a b p x"
      then have "\<not> dom2 a b l x" using l(1) by blast
      then show "new \<or> tie" using key [OF l(1)] unfolding new tie dom2_def by linarith
    qed
    moreover have "swept a b (P @ [x]) (if new then b x else best) (if new then (a x, b x) else prev)"
    proof (cases new)
      case True
      then have "\<forall>p\<in>set (P @ [x]). fkey (b p) < fkey (b x) \<or> fkey (b p) = fkey (b x) \<and> fkey (a p) \<le> fkey (a x)"
        using l(4) unfolding new by fastforce
      then show ?thesis using True by (auto simp: swept_def)
    next
      case False
      then have "fkey (b x) < fkey (b l) \<or> fkey (b x) = fkey (b l) \<and> fkey (a x) \<le> fkey (a l)"
        using key [OF l(1)] unfolding new by linarith
      then show ?thesis using False l by (auto simp: swept_def)
    qed
    ultimately show ?thesis by blast
  qed
  then show "(new \<or> tie) \<longleftrightarrow> (\<forall>p\<in>set P. \<not> dom2 a b p x)"
    "swept a b (P @ [x]) (if new then b x else best) (if new then (a x, b x) else prev)" by blast+
qed

lemma sweep_undominated:
  assumes "swept a b P best prev" "\<forall>i\<in>set (P @ is). plain_at a b i" "sorted_wrt (desc_by2 a b) (P @ is)"
  shows "set (sweep a b best prev is) = {i \<in> set is. \<forall>j\<in>set (P @ is). \<not> dom2 a b j i}"
  using assms
proof (induction "is" arbitrary: P best prev)
  case Nil
  then show ?case by simp
next
  case (Cons x xs)
  let ?new = "flt best (b x)"
  let ?tie = "feq (b x) best \<and> feq (a x) (fst prev) \<and> feq (b x) (snd prev)"
  have P: "\<forall>p\<in>set P. plain_at a b p \<and> desc_by2 a b p x" "plain_at a b x"
    using Cons.prems(2,3) by (auto simp: sorted_wrt_append)
  have IH: "set (sweep a b (if ?new then b x else best) (if ?new then (a x, b x) else prev) xs) =
      {i \<in> set xs. \<forall>j\<in>set (P @ x # xs). \<not> dom2 a b j i}"
    using Cons.IH [OF swept_step(2) [OF Cons.prems(1) P]] Cons.prems(2,3) by simp
  have "\<not> dom2 a b j x" if "j \<in> set (x # xs)" for j
    using that Cons.prems(2,3) desc_by2_key [of a b x j] by (auto simp: sorted_wrt_append dom2_def)
  then have keep: "?new \<or> ?tie \<longleftrightarrow> (\<forall>j\<in>set (P @ x # xs). \<not> dom2 a b j x)"
    using swept_step(1) [OF Cons.prems(1) P] by auto
  consider "?new" | "\<not> ?new" "?tie" | "\<not> ?new" "\<not> ?tie" by blast
  then show ?case
  proof cases
    case 1
    then have "set (sweep a b best prev (x # xs)) = insert x {i \<in> set xs. \<forall>j\<in>set (P @ x # xs). \<not> dom2 a b j i}"
      using IH by simp
    then show ?thesis using keep 1 by auto
  next
    case 2
    then have "set (sweep a b best prev (x # xs)) = insert x {i \<in> set xs. \<forall>j\<in>set (P @ x # xs). \<not> dom2 a b j i}"
      using IH by simp
    then show ?thesis using keep 2 by auto
  next
    case 3
    then have "set (sweep a b best prev (x # xs)) = {i \<in> set xs. \<forall>j\<in>set (P @ x # xs). \<not> dom2 a b j i}"
      using IH by auto
    then show ?thesis using keep 3 by auto
  qed
qed

lemma front_2d_undominated:
  assumes "\<forall>i\<in>set is. plain_at a b i"
  shows "set (front_2d a b is) = undominated (dom2 a b) (set is)"
  using sweep_undominated [of a b "[]" neg_infinity "(nan, nan)" "sort_le (desc_by2 a b) is"] assms
    sorted_wrt_sort_le_on [OF desc_by2_preorder]
  by (simp add: front_2d_def swept_def undominated_def)

lemma distinct_sweep: "distinct is \<Longrightarrow> distinct (sweep a b best prev is)"
  by (induction "is" arbitrary: best prev) (auto dest: set_sweep [THEN subsetD])

lemma distinct_front_2d: "distinct is \<Longrightarrow> distinct (front_2d a b is)"
  by (simp add: front_2d_def distinct_sweep)

lemma dom2_undominated:
  assumes "finite R" "R \<noteq> {}"
  shows "undominated (dom2 a b) R \<noteq> {}"
  by (rule undominated_nonempty [OF assms, where score = "\<lambda>i. fkey (a i) + fkey (b i)"]) (auto simp: dom2_def)

lemma peel_2d_layers:
  assumes "\<forall>i\<in>set is. plain_at a b i" "distinct is"
  shows "\<exists>fs. peel_2d a b is = Some fs \<and> is_layering (dom2 a b) (set is) (map set fs) \<and> (\<forall>f\<in>set fs. distinct f)"
  using assms
proof (induction "length is" arbitrary: "is" rule: less_induct)
  case less
  show ?case
  proof (cases "is = []")
    case True
    then show ?thesis by (simp add: peel_2d.simps)
  next
    case False
    let ?s = "sort_le (desc_by2 a b) is" and ?f = "front_2d a b is"
    let ?rest = "filter (\<lambda>i. i \<notin> set ?f) ?s"
    have front: "set ?f = undominated (dom2 a b) (set is)" by (rule front_2d_undominated [OF less.prems(1)])
    have "?f \<noteq> []" using front dom2_undominated [of "set is" a b] False by auto
    then obtain j where "j \<in> set ?f" "j \<in> set ?s" using set_front_2d [of a b "is"] by (cases ?f) auto
    then have "length ?rest < length ?s" by (intro length_filter_less) auto
    then obtain fs where fs: "peel_2d a b ?rest = Some fs" "is_layering (dom2 a b) (set ?rest) (map set fs)"
        "\<forall>f\<in>set fs. distinct f"
      using less.hyps [of ?rest] less.prems by auto
    have "peel_2d a b is = Some (?f # fs)"
      using False fs(1) by (subst peel_2d.simps) (simp add: front_2d_def)
    moreover have "set ?rest = set is - undominated (dom2 a b) (set is)" using front by auto
    ultimately show ?thesis using fs(2,3) front False distinct_front_2d [OF less.prems(2)] by simp
  qed
qed

section \<open>Two objectives\<close>

definition plain_matrix :: "nat \<Rightarrow> f64 list list \<Rightarrow> bool" where
  "plain_matrix m objs \<longleftrightarrow> (\<forall>row\<in>set objs. length row = m \<and> (\<forall>x\<in>set row. plain x))"

lemma plain_matrix_ok: "plain_matrix m objs \<Longrightarrow> matrix_ok m objs"
  by (auto simp: plain_matrix_def matrix_ok_def no_nan_def plain_keys)

lemma plain_matrix_at:
  "plain_matrix 2 objs \<Longrightarrow> i < length objs \<Longrightarrow> plain_at (\<lambda>i. objs ! i ! 0) (\<lambda>i. objs ! i ! 1) i"
proof -
  assume "plain_matrix 2 objs" "i < length objs"
  moreover from this have "objs ! i \<in> set objs" by simp
  ultimately have "length (objs ! i) = 2" "\<forall>x\<in>set (objs ! i). plain x" unfolding plain_matrix_def by blast+
  then show "plain_at (\<lambda>i. objs ! i ! 0) (\<lambda>i. objs ! i ! 1) i" by (simp add: plain_at_def)
qed

lemma dominates_two:
  assumes "length x = 2" "length y = 2" "no_nan x" "no_nan y"
  shows "dominates x y \<longleftrightarrow> fkey (y ! 0) \<le> fkey (x ! 0) \<and> fkey (y ! 1) \<le> fkey (x ! 1) \<and>
    (fkey (y ! 0) < fkey (x ! 0) \<or> fkey (y ! 1) < fkey (x ! 1))"
proof -
  obtain x0 x1 y0 y1 where "x = [x0, x1]" "y = [y0, y1]"
    using assms(1,2) by (auto simp: numeral_2_eq_2 length_Suc_conv)
  then show ?thesis using dominates_iff [of x y] assms by auto
qed

lemma row_dom_two:
  assumes "plain_matrix 2 objs" "i < length objs" "j < length objs"
  shows "row_dom objs i j = dom2 (\<lambda>i. objs ! i ! 0) (\<lambda>i. objs ! i ! 1) i j"
  using dominates_two [of "objs ! i" "objs ! j"] matrix_rows [OF plain_matrix_ok [OF assms(1)]] assms(2,3)
  by (auto simp: row_dom_def dom2_def)

lemma sort_2d_layers:
  assumes "plain_matrix 2 objs"
  shows "\<exists>fs. non_domin_sort_2d objs = Some fs \<and> is_layering (row_dom objs) {..<length objs} (map set fs) \<and>
    (\<forall>f\<in>set fs. distinct f)"
proof -
  let ?D = "dom2 (\<lambda>i. objs ! i ! 0) (\<lambda>i. objs ! i ! 1)"
  obtain fs where "non_domin_sort_2d objs = Some fs" "is_layering ?D {..<length objs} (map set fs)" "\<forall>f\<in>set fs. distinct f"
    using peel_2d_layers [of "[0..<length objs]" "\<lambda>i. objs ! i ! 0" "\<lambda>i. objs ! i ! 1"] plain_matrix_at [OF assms]
    by (auto simp: non_domin_sort_2d_def atLeast0LessThan)
  moreover have "is_layering ?D {..<length objs} (map set fs) = is_layering (row_dom objs) {..<length objs} (map set fs)"
    by (rule layering_cong) (simp add: row_dom_two [OF assms])
  ultimately show ?thesis by blast
qed

text \<open>C35: The sweep for two objectives equals the general algorithm. On finite objectives without a
  negative zero both return, and their fronts are the same sets in the same order: the layers of
  the dominance relation.\<close>

theorem two_objective_fronts_agree:
  assumes "plain_matrix 2 objs"
  shows "\<exists>fs gs. non_domin_sort_2d objs = Some fs \<and> non_domin_sort_any objs = Some gs \<and>
    map set fs = map set gs \<and> is_layering (row_dom objs) {..<length objs} (map set fs)"
  using sort_2d_layers [OF assms] general_sort_layers [OF plain_matrix_ok [OF assms]] layering_unique by blast

section \<open>Selections from the layers\<close>

lemma select_full: "arms \<le> length sel \<Longrightarrow> select_from_fronts env arms sel fs rng = (sel, rng)"
  by (cases fs) simp_all

lemma select_from_fronts_spec:
  assumes shuf: "\<And>xs r. mset (fst (shuffle env xs r)) = mset xs"
    and "is_layering D R (map set fs)" "\<forall>f\<in>set fs. distinct f" "finite R" "distinct sel" "set sel \<inter> R = {}" "length sel \<le> arms"
  shows "\<exists>new rng'. select_from_fronts env arms sel fs rng = (sel @ new, rng') \<and> distinct (sel @ new) \<and> set new \<subseteq> R \<and>
    length (sel @ new) = min arms (length sel + card R) \<and> closed_up D R (set new)"
  using assms(2-)
proof (induction fs arbitrary: R sel rng)
  case Nil
  then show ?case by (simp add: closed_up_def)
next
  case (Cons f fs)
  have f: "set f = undominated D R" "is_layering D (R - set f) (map set fs)" "distinct f" using Cons.prems by auto
  have sub: "set f \<subseteq> R" unfolding f(1) by (auto simp: undominated_def)
  have card: "card R = length f + card (R - set f)"
    using card_mono [OF Cons.prems(3) sub] distinct_card [OF f(3)] sub by (simp add: card_Diff_subset)
  consider "arms \<le> length sel" | "length sel < arms" "length f \<le> arms - length sel" | "length sel < arms" "arms - length sel < length f"
    by linarith
  then show ?case
  proof cases
    case 1
    then show ?thesis using Cons.prems by (simp add: closed_up_def)
  next
    case 2
    have "distinct (sel @ f)" "set (sel @ f) \<inter> (R - set f) = {}" "length (sel @ f) \<le> arms"
      using Cons.prems(4,5) f(3) sub 2 by auto
    moreover have "\<forall>f\<in>set fs. distinct f" "finite (R - set f)" using Cons.prems(2,3) by auto
    ultimately obtain new rng' where new: "select_from_fronts env arms (sel @ f) fs rng = ((sel @ f) @ new, rng')"
        "distinct ((sel @ f) @ new)" "set new \<subseteq> R - set f" "length ((sel @ f) @ new) = min arms (length (sel @ f) + card (R - set f))"
        "closed_up D (R - set f) (set new)"
      using Cons.IH [OF f(2)] by blast
    have "closed_up D R (set (f @ new))" using closed_up_step [of D R "set new"] new(5) unfolding f(1) [symmetric] by simp
    moreover have "select_from_fronts env arms sel (f # fs) rng = (sel @ (f @ new), rng')" using 2 new(1) by simp
    moreover have "distinct (sel @ (f @ new))" "set (f @ new) \<subseteq> R" using new(2,3) sub by auto
    moreover have "length (sel @ (f @ new)) = min arms (length sel + card R)" using new(4) card by simp
    ultimately show ?thesis by blast
  next
    case 3
    obtain g rng1 where g: "shuffle env f rng = (g, rng1)" by fastforce
    have gs: "mset g = mset f" using shuf [of f rng] g by simp
    let ?new = "take (arms - length sel) g"
    have lg: "length g = length f" "set g = set f" "distinct g"
      using gs f(3) by (metis size_mset, metis set_mset_mset, metis mset_eq_imp_distinct_iff)
    have sub': "set ?new \<subseteq> set f" using set_take_subset [of _ g] lg(2) by blast
    have "select_from_fronts env arms sel (f # fs) rng = (sel @ ?new, rng1)"
      using 3 g lg(1) by (simp add: select_full)
    moreover have "distinct (sel @ ?new)" using Cons.prems(4,5) sub' sub lg(3) by (auto simp: distinct_take)
    moreover have "length (sel @ ?new) = min arms (length sel + card R)" using 3 lg(1) card by simp
    moreover have "closed_up D R (set ?new)" by (rule closed_up_layer) (use sub' f(1) in simp)
    ultimately show ?thesis using sub sub' by blast
  qed
qed

lemma draw_from_pool_spec:
  assumes "k \<le> length pool" "distinct pool"
  shows "distinct (draw_from_pool k s pool) \<and> length (draw_from_pool k s pool) = k \<and> set (draw_from_pool k s pool) \<subseteq> set pool"
  using assms
proof (induction k arbitrary: s pool)
  case 0
  then show ?case by simp
next
  case (Suc k)
  define p where "p = unat (lcg_step s) mod length pool"
  let ?rest = "take p pool @ drop (Suc p) pool"
  have "0 < length pool" using Suc.prems(1) by linarith
  then have p: "p < length pool" by (simp add: p_def)
  have pool: "pool = take p pool @ pool ! p # drop (Suc p) pool" using p by (rule id_take_nth_drop)
  have "distinct (take p pool @ pool ! p # drop (Suc p) pool)" using Suc.prems(2) pool by argo
  then have d: "distinct ?rest" "pool ! p \<notin> set ?rest" by auto
  have sub: "set ?rest \<subseteq> set pool" by (auto dest: in_set_takeD in_set_dropD)
  have "distinct (draw_from_pool k (lcg_step s) ?rest) \<and> length (draw_from_pool k (lcg_step s) ?rest) = k \<and>
      set (draw_from_pool k (lcg_step s) ?rest) \<subseteq> set ?rest"
    using Suc.IH [of ?rest] d(1) Suc.prems(1) p by simp
  then show ?case using d(2) sub p by (auto simp: Let_def p_def [symmetric])
qed

lemma deterministic_choice_spec:
  "k \<le> length is \<Longrightarrow> distinct is \<Longrightarrow>
    distinct (deterministic_choice is k s) \<and> length (deterministic_choice is k s) = k \<and> set (deterministic_choice is k s) \<subseteq> set is"
  using draw_from_pool_spec [of k "is" s] by (auto simp: deterministic_choice_def)

lemma check_finite_ok:
  "\<forall>i\<in>set is. i < length a \<and> is_finite (a ! i) \<and> is_finite (b ! i) \<Longrightarrow> check_finite a b is = Inr ()"
  by (induction "is") auto

lemma plain_finite: "plain_at a b i \<Longrightarrow> is_finite (a i) \<and> is_finite (b i)"
  by (simp add: plain_at_def plain_def)

lemma sort_desc_frame [simp]:
  "set (sort_desc v is) = set is" "length (sort_desc v is) = length is" "distinct (sort_desc v is) = distinct is"
  by (simp_all add: sort_desc_def)

lemma take_fronts_spec:
  assumes "length mu = length se" "\<forall>i < length mu. plain_at ((!) mu) ((!) se) i"
    and "set remaining \<subseteq> {..<length mu}" "distinct remaining" "distinct keep" "set keep \<inter> set remaining = {}" "length keep \<le> arms"
  shows "\<exists>new. take_fronts mu se arms seed keep remaining = Some (keep @ new) \<and> distinct (keep @ new) \<and>
    set new \<subseteq> set remaining \<and> length (keep @ new) = min arms (length keep + length remaining) \<and>
    closed_up (dom2 ((!) mu) ((!) se)) (set remaining) (set new)"
  using assms(3-)
proof (induction "length remaining" arbitrary: remaining keep rule: less_induct)
  case less
  let ?D = "dom2 ((!) mu) ((!) se)" and ?f = "front_2d ((!) mu) ((!) se) remaining"
  let ?F = "sort_desc ((!) mu) ?f"
  show ?case
  proof (cases "remaining = [] \<or> arms \<le> length keep")
    case True
    then show ?thesis using less.prems by (auto simp: take_fronts.simps [of mu] closed_up_def)
  next
    case False
    have mu: "mu \<noteq> []" using False less.prems(1) by (cases remaining) auto
    have plain: "\<forall>i\<in>set remaining. plain_at ((!) mu) ((!) se) i" using assms(2) less.prems(1) by auto
    then have "check_finite mu se remaining = Inr ()"
      using less.prems(1) plain_finite by (intro check_finite_ok) blast
    then have pf: "pareto_front_2d_maximize mu se (Some remaining) = Inr ?f"
      using assms(1) mu by (simp add: pareto_front_2d_maximize_def)
    have F: "set ?f = undominated ?D (set remaining)" by (rule front_2d_undominated [OF plain])
    have fne: "?f \<noteq> []" using F dom2_undominated [of "set remaining" "(!) mu" "(!) se"] False by auto
    have fd: "distinct ?f" by (rule distinct_front_2d [OF less.prems(2)])
    have sub: "set ?f \<subseteq> set remaining" by (rule set_front_2d)
    let ?rest = "filter (\<lambda>i. i \<notin> set ?F) remaining"
    show ?thesis
    proof (cases "length keep + length ?F \<le> arms")
      case True
      have "distinct (keep @ ?F)" "set (keep @ ?F) \<inter> set ?rest = {}" "length (keep @ ?F) \<le> arms"
        using less.prems(3,4) fd sub True by auto
      moreover have "length ?rest < length remaining" using front_shrinks [OF fne] by simp
      ultimately obtain new where new: "take_fronts mu se arms seed (keep @ ?F) ?rest = Some ((keep @ ?F) @ new)"
          "distinct ((keep @ ?F) @ new)" "set new \<subseteq> set ?rest" "length ((keep @ ?F) @ new) = min arms (length (keep @ ?F) + length ?rest)"
          "closed_up ?D (set ?rest) (set new)"
        using less.hyps [of ?rest "keep @ ?F"] less.prems(1,2) by auto
      have rest: "set ?rest = set remaining - undominated ?D (set remaining)" using F by auto
      have "length remaining = length ?F + length ?rest"
      proof -
        have "length ?F = card (set ?f)" using fd by (simp add: distinct_card)
        moreover have "length ?rest = card (set remaining - set ?f)"
          using less.prems(2) by (subst distinct_card [symmetric]) (auto intro: arg_cong [of _ _ card])
        moreover have "length remaining = card (set remaining)" using less.prems(2) by (simp add: distinct_card)
        ultimately show ?thesis using sub card_mono [OF _ sub] by (simp add: card_Diff_subset)
      qed
      moreover have "closed_up ?D (set remaining) (set (?F @ new))"
        using closed_up_step [of ?D "set remaining" "set new"] new(5) F unfolding rest by simp
      moreover have "take_fronts mu se arms seed keep remaining = Some (keep @ ?F @ new)"
        using False True pf fne new(1) by (subst take_fronts.simps) (simp add: Let_def)
      ultimately show ?thesis using new sub by (intro exI [of _ "?F @ new"]) auto
    next
      case over: False
      let ?c = "deterministic_choice ?F (arms - length keep) seed"
      have c: "distinct ?c" "length ?c = arms - length keep" "set ?c \<subseteq> set ?f"
        using deterministic_choice_spec [of "arms - length keep" ?F seed] over fd by auto
      have "length ?f \<le> length remaining"
        using card_mono [OF _ sub] fd less.prems(2) by (simp add: distinct_card)
      moreover have "take_fronts mu se arms seed keep remaining = Some (keep @ ?c)"
        using False over pf fne by (subst take_fronts.simps) (simp add: Let_def)
      moreover have "closed_up ?D (set remaining) (set ?c)" by (rule closed_up_layer) (use c(3) F in simp)
      moreover have "distinct (keep @ ?c)" using c(1,3) sub less.prems(3,4) by auto
      ultimately show ?thesis using c(2,3) sub over False by (intro exI [of _ ?c]) auto
    qed
  qed
qed

section \<open>The arms that are selected\<close>

text \<open>Who dominates whom, and when the predictions compare as numbers: one objective is ranked with
  its standard error, several by their means.\<close>

definition dominance :: "nat \<Rightarrow> f64 list list \<Rightarrow> f64 list list \<Rightarrow> nat \<Rightarrow> nat \<Rightarrow> bool" where
  "dominance cols mu se = (if cols = 1 then dom2 ((!) (map hd mu)) ((!) (map hd se)) else row_dom mu)"

definition predictions_ok :: "nat \<Rightarrow> f64 list list \<Rightarrow> f64 list list \<Rightarrow> bool" where
  "predictions_ok cols mu se \<longleftrightarrow> length mu = length se \<and>
     (if cols \<le> 2 then plain_matrix cols mu else matrix_ok cols mu) \<and> (if cols = 1 then plain_matrix 1 se else True)"

text \<open>C36: The arms are the best layers. For predictions that compare as numbers (in one or two metrics
  finite and without a negative zero, the errors of a single metric as well; in more metrics no NaN), at
  least one candidate and a shuffle that permutes, the selection returns as many different candidates as there are arms (all of them when
  there are fewer), and never a candidate without everything that dominates it.\<close>

theorem selection_closed_under_dominance:
  assumes "\<forall>xs r. mset (fst (shuffle env xs r)) = mset xs" "predictions_ok cols mu se" "mu \<noteq> []"
  shows "\<exists>sel rng'. pareto_select env (cols, mu) (cols, se) arms rng = Some (Inr (sel, rng')) \<and> distinct sel \<and>
    set sel \<subseteq> {..<length mu} \<and> length sel = min arms (length mu) \<and> closed_up (dominance cols mu se) {..<length mu} (set sel)"
proof -
  have len: "length mu = length se" using assms(2) by (simp add: predictions_ok_def)
  consider "arms = 0" | "0 < arms" "cols = 1" | "0 < arms" "cols \<noteq> 1" by linarith
  then show ?thesis
  proof cases
    case 1
    then show ?thesis using assms(3) by (simp add: pareto_select_def closed_up_def)
  next
    case 2
    have "plain_matrix 1 mu" "plain_matrix 1 se" using assms(2) 2 by (auto simp: predictions_ok_def)
    then have "\<forall>row\<in>set mu \<union> set se. plain (hd row)"
      by (auto simp: plain_matrix_def length_Suc_conv)
    then have plain: "\<forall>i<length (map hd mu). plain_at ((!) (map hd mu)) ((!) (map hd se)) i"
      using len by (simp add: plain_at_def)
    obtain seed rng1 where rng1: "next_u64 env rng = (seed, rng1)" by fastforce
    obtain new where new: "take_fronts (map hd mu) (map hd se) (min arms (length mu)) seed [] [0..<length mu] = Some new"
        "distinct new" "set new \<subseteq> {..<length mu}" "length new = min arms (length mu)"
        "closed_up (dominance cols mu se) {..<length mu} (set new)"
      using take_fronts_spec [of "map hd mu" "map hd se" "[0..<length mu]" "[]" "min arms (length mu)" seed] plain len 2
      by (auto simp: dominance_def atLeast0LessThan)
    moreover have "min arms (length mu) \<noteq> 0" using 2 assms(3) by simp
    ultimately show ?thesis
      using 2 assms(3) len rng1 by (simp add: pareto_select_def arms_from_pareto_fronts_def)
  next
    case 3
    have "\<exists>fs. non_domin_sort cols mu = Some fs \<and> is_layering (row_dom mu) {..<length mu} (map set fs) \<and> (\<forall>f\<in>set fs. distinct f)"
      using assms(2) sort_2d_layers [of mu] general_sort_layers [of cols mu] plain_matrix_ok [of cols mu]
      by (auto simp: predictions_ok_def non_domin_sort_def split: if_splits)
    then obtain fs where fs: "non_domin_sort cols mu = Some fs" "is_layering (row_dom mu) {..<length mu} (map set fs)"
        "\<forall>f\<in>set fs. distinct f" by blast
    obtain new rng' where "select_from_fronts env arms [] fs rng = ([] @ new, rng')" "distinct ([] @ new)" "set new \<subseteq> {..<length mu}"
        "length ([] @ new) = min arms (length [] + card {..<length mu})" "closed_up (row_dom mu) {..<length mu} (set new)"
      using select_from_fronts_spec [OF _ fs(2,3), of env "[]" arms rng] assms(1) by auto
    then show ?thesis using 3 assms(3) len fs(1) by (simp add: pareto_select_def dominance_def)
  qed
qed

section \<open>A search that does not return\<close>

definition never_swept :: "f64 \<Rightarrow> bool" where
  "never_swept x \<longleftrightarrow> is_nan x \<or> x = neg_infinity"

lemma never_swept_key: "\<not> is_nan x \<Longrightarrow> fkey (neg_infinity :: f64) \<le> fkey (x :: f64) \<and> (fkey x = fkey (neg_infinity :: f64) \<longrightarrow> x = neg_infinity)"
proof -
  assume "\<not> is_nan x"
  then have "mag x \<le> inf_mag 64" by (simp add: is_nan_def)
  moreover have "mag (neg_infinity :: f64) = inf_mag 64" "sign_neg (neg_infinity :: f64)" "0 < inf_mag 64"
    by (simp_all add: neg_infinity_def float_layout)
  ultimately show ?thesis
    by (auto simp: fkey_def intro!: float_eqI [of x neg_infinity])
qed

lemma sweep_skips:
  assumes "\<not> is_nan best" "is_nan (fst prev) \<or> \<not> never_swept best" "never_swept (b i)"
  shows "i \<notin> set (sweep a b best prev is)"
  using assms(1,2)
proof (induction "is" arbitrary: best prev)
  case Nil
  then show ?case by simp
next
  case (Cons k ks)
  have low: "fkey (neg_infinity :: f64) \<le> fkey best" using never_swept_key [OF Cons.prems(1)] by blast
  have i: "\<not> flt best (b i)" using assms(3) low by (auto simp: never_swept_def fcmp_defs)
  have "\<not> (feq (b i) best \<and> feq (a i) (fst prev))"
    using Cons.prems assms(3) never_swept_key [OF Cons.prems(1)] by (auto simp: never_swept_def fcmp_defs)
  moreover have "\<not> never_swept (b k) \<and> \<not> is_nan (b k)" if "flt best (b k)"
    using that low by (auto simp: never_swept_def fcmp_defs)
  ultimately show ?case using Cons i by auto
qed

lemma neg_inf_not_nan: "\<not> is_nan (neg_infinity :: f64)"
  by (simp add: is_nan_def neg_infinity_def float_layout)

lemma peel_2d_returns:
  assumes "peel_2d a b is = Some fs" "i \<in> set is"
  shows "\<not> never_swept (b i)"
proof -
  have "\<forall>i\<in>set is. \<not> never_swept (b i)"
  proof (rule peel_2d.raw_induct [where P = "\<lambda>a b is fs. \<forall>i\<in>set is. \<not> never_swept (b i)", OF _ assms(1)])
    fix peel a b "is" fs
    assume IH: "\<And>a b is fs. peel a b is = Some fs \<Longrightarrow> \<forall>i\<in>set is. \<not> never_swept (b i)"
      and run: "(if is = [] then Some []
        else let sorted = sort_le (desc_by2 a b) is; front = sweep a b neg_infinity (nan, nan) sorted
          in Option.bind (peel a b (filter (\<lambda>i. i \<notin> set front) sorted)) (\<lambda>fs. Some (front # fs))) = Some fs"
    let ?s = "sort_le (desc_by2 a b) is" and ?f = "sweep a b neg_infinity (nan, nan) (sort_le (desc_by2 a b) is)"
    show "\<forall>i\<in>set is. \<not> never_swept (b i)"
    proof (cases "is = []")
      case False
      then obtain fs' where "peel a b (filter (\<lambda>i. i \<notin> set ?f) ?s) = Some fs'"
        using run by (auto simp: Let_def bind_eq_Some_conv)
      from IH [OF this] have "\<not> never_swept (b i)" if "i \<in> set is" "i \<notin> set ?f" for i
        using that by simp
      then show ?thesis
        using sweep_skips [of neg_infinity "(nan, nan)" b _ a ?s] nan_nan neg_inf_not_nan by auto
    qed simp
  qed
  then show ?thesis using assms(2) by blast
qed

text \<open>C37: A defect of the sweep. It never pushes a candidate whose second objective is NaN or negative
  infinity, and it repeats until every candidate was pushed: one such prediction and the selection
  does not return.\<close>

theorem nan_objective_never_returns:
  assumes "i < length mu" "is_nan (mu ! i ! 1) \<or> mu ! i ! 1 = neg_infinity" "length se = length mu" "0 < arms"
  shows "pareto_select env (2, mu) (2, se) arms rng = None"
proof -
  have "non_domin_sort_2d mu = None"
    using peel_2d_returns [of "\<lambda>i. mu ! i ! 0" "\<lambda>i. mu ! i ! 1" "[0..<length mu]" _ i] assms(1,2)
    by (cases "non_domin_sort_2d mu") (auto simp: non_domin_sort_2d_def never_swept_def)
  then show ?thesis using assms by (auto simp: pareto_select_def non_domin_sort_def)
qed

section \<open>Evaluated instances\<close>

definition half_turn :: "nat list acq_env" where
  "half_turn = \<lparr>shuffle = (\<lambda>xs r. (rev xs, r)), sample_unit = (\<lambda>r. (fzero, r)), next_u64 = (\<lambda>r. (7, r)),
     ln_f64 = (\<lambda>x. x), cos_f64 = (\<lambda>x. x)\<rparr>"

text \<open>The rows \<open>(3, 1)\<close>, \<open>(2, 2)\<close>, \<open>(1, 3)\<close> and \<open>(1, 1)\<close>.\<close>

definition sample_rows :: "f64 list list" where
  "sample_rows = [[Ieee 0x4008000000000000, Ieee 0x3FF0000000000000], [Ieee 0x4000000000000000, Ieee 0x4000000000000000],
     [Ieee 0x3FF0000000000000, Ieee 0x4008000000000000], [Ieee 0x3FF0000000000000, Ieee 0x3FF0000000000000]]"

lemma sample_rows_plain: "plain_matrix 2 sample_rows"
  by (simp add: plain_matrix_def sample_rows_def plain_def is_finite_def mag_def float_layout)

theorem two_objective_fronts_agree_witness:
  "\<exists>fs gs. non_domin_sort_2d sample_rows = Some fs \<and> non_domin_sort_any sample_rows = Some gs \<and>
    map set fs = map set gs \<and> is_layering (row_dom sample_rows) {..<length sample_rows} (map set fs)"
  by (rule two_objective_fronts_agree [OF sample_rows_plain])

theorem selection_closed_under_dominance_witness:
  "\<exists>sel rng'. pareto_select half_turn (2, sample_rows) (2, sample_rows) 2 [] = Some (Inr (sel, rng')) \<and> distinct sel \<and>
    set sel \<subseteq> {..<length sample_rows} \<and> length sel = min 2 (length sample_rows) \<and>
    closed_up (dominance 2 sample_rows sample_rows) {..<length sample_rows} (set sel)"
  by (rule selection_closed_under_dominance)
    (simp_all add: half_turn_def predictions_ok_def sample_rows_plain, simp add: sample_rows_def)

theorem nan_objective_never_returns_witness:
  "pareto_select half_turn (2, [[fzero, fzero], [fzero, nan]]) (2, [[fzero, fzero], [fzero, fzero]]) 1 [] = None"
  by (rule nan_objective_never_returns [of 1]) (simp_all add: nan_nan)

end
