(* ===== verification/TrialCodes.thy ===== *)
theory TrialCodes
  imports Floats
begin

text \<open>
  Quantized weight codes of \<open>rust/crates/ennx/src/trials.rs\<close> and \<open>trials/layout.rs\<close>: encodings
  and their decoders, the leaf layout of a packed row, per-leaf perturbation steps, the
  seeded perturbation of a code, and the materialization of a perturbed row.

  A row is a list of bytes. \<open>code_at\<close> reads the code of an element out of a row (a nibble of
  a 4-bit leaf or a byte of an 8-bit one); the main result is that \<open>materialize\<close> is
  \<open>perturb\<close> on every code.
\<close>

datatype trial_error =
    UnsupportedEncoding u8
  | LeafEmpty
  | LeafBits u8
  | NotPositive string
  | NoLeaves
  | LeafOffset nat nat
  | ParameterOverflow
  | RowOverflow
  | LayoutTooLarge
  | RegionCenters
  | CenterParent nat
  | CenterDepth
  | RegionCenterBounds
  | BaseNotFinite
  | CapacityRange
  | BaseLength nat nat
  | BackendUnavailable
  | PendingTrial
  | NoSeeds
  | NeighborRange nat
  | NotNonnegative string
  | NoFreeSlot
  | ZeroRegions
  | CandidateOverflow
  | SeedCount nat nat
  | NotMaterialized
  | TrialMismatch
  | NoPendingTrial
  | ValueNotFinite
  | EmptyHistory
  | HistoryTooLong nat
  | HistoryBytes nat nat
  | ResolveFailed string
  | ResolvedLength u64 nat

section \<open>Encodings\<close>

datatype EncodingType = Int4 | Int8 | Fp4E2M1 | Fp8E4M3 | Fp8E5M2

fun encoding_code :: "EncodingType \<Rightarrow> u32" where
  "encoding_code Int4 = 0"
| "encoding_code Int8 = 1"
| "encoding_code Fp4E2M1 = 2"
| "encoding_code Fp8E4M3 = 3"
| "encoding_code Fp8E5M2 = 4"

text \<open>\<open>trim\<close> and \<open>to_ascii_lowercase\<close> on ASCII text.\<close>

definition ascii_space :: "char \<Rightarrow> bool" where
  "ascii_space c \<longleftrightarrow> of_char c \<in> {9, 10, 11, 12, 13, 32 :: nat}"

definition trim :: "string \<Rightarrow> string" where
  "trim s = rev (dropWhile ascii_space (rev (dropWhile ascii_space s)))"

definition to_lower_char :: "char \<Rightarrow> char" where
  "to_lower_char c = (if 65 \<le> (of_char c :: nat) \<and> of_char c \<le> (90 :: nat)
     then char_of (of_char c + 32 :: nat) else c)"

definition to_lower :: "string \<Rightarrow> string" where
  "to_lower s = map to_lower_char s"

definition parse_encoding :: "u8 \<Rightarrow> string option \<Rightarrow> trial_error + EncodingType" where
  "parse_encoding bits mode =
     (let m = map_option (\<lambda>s. to_lower (trim s)) mode in
      if bits = 4 \<and> m \<in> {None, Some ''int'', Some ''int4''} then Inr Int4
      else if bits = 8 \<and> m \<in> {None, Some ''int'', Some ''int8''} then Inr Int8
      else if bits = 4 \<and> m \<in> {Some ''fp4'', Some ''fp4_e2m1'', Some ''e2m1''} then Inr Fp4E2M1
      else if bits = 8 \<and> m \<in> {Some ''fp8'', Some ''fp8_e4m3'', Some ''e4m3''} then Inr Fp8E4M3
      else if bits = 8 \<and> m \<in> {Some ''fp8_e5m2'', Some ''e5m2''} then Inr Fp8E5M2
      else Inl (UnsupportedEncoding bits))"

definition FP4_E2M1_LUT :: "f32 list" where
  "FP4_E2M1_LUT =
     [flit 0 1, flit 1 2, flit 1 1, flit 3 2, flit 2 1, flit 3 1, flit 4 1, flit 6 1,
      fneg (flit 0 1), fneg (flit 1 2), fneg (flit 1 1), fneg (flit 3 2), fneg (flit 2 1),
      fneg (flit 3 1), fneg (flit 4 1), fneg (flit 6 1)]"

definition decode_fp8_e4m3 :: "u8 \<Rightarrow> f32" where
  "decode_fp8_e4m3 byte =
     (let sign = (if byte AND 0x80 \<noteq> 0 then fneg (flit 1 1) else flit 1 1);
          exp = unat (drop_bit 3 byte AND 0x0f);
          mant = unat (byte AND 0x07) in
      if exp = 0 then fmul (fmul sign (fdiv (flit mant 1) (flit 8 1))) (pow2f (- 6))
      else if exp = 15 \<and> mant = 7 then nan
      else fmul (fmul sign (fadd (flit 1 1) (fdiv (flit mant 1) (flit 8 1)))) (pow2f (int exp - 7)))"

definition decode_fp8_e5m2 :: "u8 \<Rightarrow> f32" where
  "decode_fp8_e5m2 byte =
     (let sign = (if byte AND 0x80 \<noteq> 0 then fneg (flit 1 1) else flit 1 1);
          exp = unat (drop_bit 2 byte AND 0x1f);
          mant = unat (byte AND 0x03) in
      if exp = 0 then fmul (fmul sign (fdiv (flit mant 1) (flit 4 1))) (pow2f (- 14))
      else if exp = 31 then (if mant = 0 then fmul sign infinity else nan)
      else fmul (fmul sign (fadd (flit 1 1) (fdiv (flit mant 1) (flit 4 1)))) (pow2f (int exp - 15)))"

fun decode_code :: "u32 \<Rightarrow> EncodingType \<Rightarrow> f32 \<Rightarrow> f32" where
  "decode_code code Int4 scl = fmul (flit (unat code) 1) scl"
| "decode_code code Int8 scl = fmul (flit (unat code) 1) scl"
| "decode_code code Fp4E2M1 scl = fmul (FP4_E2M1_LUT ! unat (code AND 0x0f)) scl"
| "decode_code code Fp8E4M3 scl = fmul (decode_fp8_e4m3 (ucast code)) scl"
| "decode_code code Fp8E5M2 scl = fmul (decode_fp8_e5m2 (ucast code)) scl"

section \<open>Leaves and the packed layout\<close>

record leaf =
  leaf_offset :: nat
  leaf_length :: nat
  leaf_bits :: u8
  leaf_encoding :: EncodingType
  leaf_scale :: f32
  leaf_weight :: f32
  leaf_radius :: f32

definition positive_finite :: "f32 \<Rightarrow> bool" where
  "positive_finite x \<longleftrightarrow> is_finite x \<and> \<not> fle x fzero"

definition leaf_new_with_encoding ::
    "nat \<Rightarrow> nat \<Rightarrow> u8 \<Rightarrow> EncodingType \<Rightarrow> f32 \<Rightarrow> f32 \<Rightarrow> f32 \<Rightarrow> trial_error + leaf" where
  "leaf_new_with_encoding off len bits enc scl wt rad =
     rbind (ensure (len \<noteq> 0) LeafEmpty) (\<lambda>_.
     rbind (ensure (bits = 4 \<or> bits = 8) (LeafBits bits)) (\<lambda>_.
     rbind (for_each_res (\<lambda>(name, value). ensure (positive_finite value) (NotPositive name))
              [(''scale'', scl), (''weight'', wt), (''radius'', rad)]) (\<lambda>_.
     Inr \<lparr>leaf_offset = off, leaf_length = len, leaf_bits = bits, leaf_encoding = enc,
          leaf_scale = scl, leaf_weight = wt, leaf_radius = rad\<rparr>)))"

definition leaf_new :: "nat \<Rightarrow> nat \<Rightarrow> u8 \<Rightarrow> f32 \<Rightarrow> f32 \<Rightarrow> f32 \<Rightarrow> trial_error + leaf" where
  "leaf_new off len bits scl wt rad =
     rbind (parse_encoding bits None) (\<lambda>enc. leaf_new_with_encoding off len bits enc scl wt rad)"

definition leaf_bytes :: "leaf \<Rightarrow> nat" where
  "leaf_bytes lf = (if leaf_bits lf = 4 then div_ceil (leaf_length lf) 2 else leaf_length lf)"

definition leaf_ok :: "leaf \<Rightarrow> bool" where
  "leaf_ok lf \<longleftrightarrow> 0 < leaf_length lf \<and> (leaf_bits lf = 4 \<or> leaf_bits lf = 8) \<and>
     positive_finite (leaf_scale lf) \<and> positive_finite (leaf_weight lf) \<and> positive_finite (leaf_radius lf)"

fun check_layout_loop :: "nat \<Rightarrow> nat \<Rightarrow> leaf list \<Rightarrow> trial_error + (nat \<times> nat)" where
  "check_layout_loop off row_bytes [] = Inr (off, row_bytes)"
| "check_layout_loop off row_bytes (lf # rest) =
     rbind (ensure (leaf_offset lf = off) (LeafOffset (leaf_offset lf) off)) (\<lambda>_.
     rbind (ok_or (checked_add off (leaf_length lf)) ParameterOverflow) (\<lambda>off'.
     rbind (ok_or (checked_add row_bytes (leaf_bytes lf)) RowOverflow) (\<lambda>row_bytes'.
     check_layout_loop off' row_bytes' rest)))"

definition check_layout :: "leaf list \<Rightarrow> trial_error + nat" where
  "check_layout leaves =
     rbind (ensure (leaves \<noteq> []) NoLeaves) (\<lambda>_.
     rbind (check_layout_loop 0 0 leaves) (\<lambda>(off, row_bytes).
     rbind (ensure (off < 2 ^ 32 \<and> row_bytes < 2 ^ 32) LayoutTooLarge) (\<lambda>_.
     Inr row_bytes)))"

section \<open>Perturbation steps\<close>

record Step =
  step_byte_offset :: u32
  step_element_offset :: u32
  step_length :: u32
  step_bits :: u32
  step_encoding :: u32
  step_scale :: f32
  step_weight :: f32
  step_whole :: u32
  step_threshold :: u32

definition max_code_of :: "u32 \<Rightarrow> u32" where
  "max_code_of bits = push_bit (unat bits) 1 - 1"

definition make_step :: "f32 \<Rightarrow> nat \<Rightarrow> leaf \<Rightarrow> Step" where
  "make_step len byte_off lf =
     (let max_code = max_code_of (ucast (leaf_bits lf));
          amplitude = fclamp (fdiv (fmul len (leaf_radius lf)) (leaf_scale lf)) fzero (flit (unat max_code) 1);
          whole = trunc_u32 (ffloor_nonneg amplitude);
          threshold = (if whole = max_code then 0
            else trunc_u32 (fmul (fsub amplitude (flit (unat whole) 1)) (flit (2 ^ 32 - 1) 1)))
      in \<lparr>step_byte_offset = as_u32 byte_off, step_element_offset = as_u32 (leaf_offset lf),
          step_length = as_u32 (leaf_length lf), step_bits = ucast (leaf_bits lf),
          step_encoding = encoding_code (leaf_encoding lf), step_scale = leaf_scale lf,
          step_weight = leaf_weight lf, step_whole = whole, step_threshold = threshold\<rparr>)"

fun make_steps_from :: "f32 \<Rightarrow> nat \<Rightarrow> leaf list \<Rightarrow> Step list" where
  "make_steps_from len byte_off [] = []"
| "make_steps_from len byte_off (lf # rest) =
     make_step len byte_off lf # make_steps_from len (byte_off + leaf_bytes lf) rest"

definition make_steps :: "leaf list \<Rightarrow> f32 \<Rightarrow> Step list" where
  "make_steps leaves len = make_steps_from len 0 leaves"

section \<open>Tiles\<close>

record Tile =
  tile_leaf :: u32
  tile_start :: u32
  tile_length :: u32
  tile_pad :: u32

definition TILE_ELEMENTS :: nat where
  "TILE_ELEMENTS = 65536"

function leaf_tiles :: "nat \<Rightarrow> nat \<Rightarrow> nat \<Rightarrow> Tile list" where
  "leaf_tiles leaf_index start len =
     (if start < len then
        let n = min (len - start) TILE_ELEMENTS in
        \<lparr>tile_leaf = as_u32 leaf_index, tile_start = as_u32 start, tile_length = as_u32 n, tile_pad = 0\<rparr>
          # leaf_tiles leaf_index (start + n) len
      else [])"
  by pat_completeness auto
termination
  by (relation "measure (\<lambda>(_, start, len). len - start)") (auto simp: TILE_ELEMENTS_def)

declare leaf_tiles.simps [simp del]

definition make_tiles :: "leaf list \<Rightarrow> Tile list" where
  "make_tiles leaves = concat (map (\<lambda>(i, lf). leaf_tiles i 0 (leaf_length lf)) (enumerate 0 leaves))"

section \<open>Seeded perturbation of a code\<close>

definition hash :: "u64 \<Rightarrow> u32 \<Rightarrow> u32" where
  "hash seed element =
     (let v0 = ucast seed XOR (element * 0x9e3779b9);
          v1 = v0 XOR drop_bit 16 v0;
          v2 = v1 * 0x7feb352d;
          v3 = v2 XOR ucast (drop_bit 32 seed);
          v4 = v3 * 0x846ca68b
      in v4 XOR drop_bit 15 v4)"

definition perturb_amount :: "u32 \<Rightarrow> Step \<Rightarrow> u32" where
  "perturb_amount random step =
     step_whole step + (if drop_bit 1 random < drop_bit 1 (step_threshold step) then 1 else 0)"

definition perturb :: "u32 \<Rightarrow> u64 \<Rightarrow> u32 \<Rightarrow> Step \<Rightarrow> u32" where
  "perturb code seed element step =
     (let random = hash seed element;
          sign = random AND 1;
          amount = perturb_amount random step;
          max_code = max_code_of (step_bits step)
      in if amount = 0 then code
         else if sign = 0 then
           (if amount \<le> code then code - amount else min (code + amount) max_code)
         else if code + amount \<le> max_code then code + amount
         else if amount \<le> code then code - amount else 0)"

section \<open>Materialization\<close>

definition code_at :: "leaf \<Rightarrow> Step \<Rightarrow> u8 list \<Rightarrow> nat \<Rightarrow> u32" where
  "code_at lf step row element =
     (if leaf_bits lf = 4
      then ucast (drop_bit (element mod 2 * 4) (row ! (unat (step_byte_offset step) + element div 2)) AND 0x0f)
      else ucast (row ! (unat (step_byte_offset step) + element)))"

definition put_code :: "leaf \<Rightarrow> Step \<Rightarrow> nat \<Rightarrow> u32 \<Rightarrow> u8 list \<Rightarrow> u8 list" where
  "put_code lf step element value row =
     (if leaf_bits lf = 4 then
        let byte = unat (step_byte_offset step) + element div 2
        in row[byte := (row ! byte) OR push_bit (element mod 2 * 4) (ucast value)]
      else row[unat (step_byte_offset step) + element := ucast value])"

definition trial_code :: "u8 list \<Rightarrow> u64 \<Rightarrow> leaf \<Rightarrow> Step \<Rightarrow> nat \<Rightarrow> u32" where
  "trial_code base seed lf step element =
     perturb (code_at lf step base element) seed (as_u32 (leaf_offset lf) + as_u32 element) step"

definition materialize_leaf :: "u8 list \<Rightarrow> u64 \<Rightarrow> leaf \<times> Step \<Rightarrow> u8 list \<Rightarrow> u8 list" where
  "materialize_leaf base seed = (\<lambda>(lf, step) row.
     fold (\<lambda>element. put_code lf step element (trial_code base seed lf step element))
       [0..<leaf_length lf] row)"

definition materialize :: "u8 list \<Rightarrow> leaf list \<Rightarrow> Step list \<Rightarrow> u64 \<Rightarrow> u8 list" where
  "materialize base leaves steps seed =
     fold (materialize_leaf base seed) (zip leaves steps) (replicate (length base) 0)"

definition leaf_distance :: "u8 list \<Rightarrow> u8 list \<Rightarrow> u64 \<Rightarrow> leaf \<times> Step \<Rightarrow> f32 \<Rightarrow> f32" where
  "leaf_distance base observation seed = (\<lambda>(lf, step) distance.
     fold (\<lambda>element dist.
         let candidate_val = decode_code (trial_code base seed lf step element) (leaf_encoding lf) (leaf_scale lf);
             observed_val = decode_code (code_at lf step observation element) (leaf_encoding lf) (leaf_scale lf);
             delta = fsub candidate_val observed_val
         in ffma delta (fmul delta (leaf_weight lf)) dist)
       [0..<leaf_length lf] distance)"

definition trial_distance :: "u8 list \<Rightarrow> u8 list \<Rightarrow> leaf list \<Rightarrow> Step list \<Rightarrow> u64 \<Rightarrow> f32" where
  "trial_distance base observation leaves steps seed =
     fold (leaf_distance base observation seed) (zip leaves steps) fzero"

end
