(* ===== verification/TrialLaws.thy ===== *)
theory TrialLaws
  imports TrialCodes
begin

text \<open>
  Properties of the quantized rows of \<open>TrialCodes\<close>: what the layout check guarantees, that a
  perturbed code stays in its range, that \<open>materialize\<close> perturbs every code and nothing
  else, and that the tiles of the GPU kernels cover every element once.
\<close>

section \<open>Steps\<close>

lemma max_code_of_values [simp]: "max_code_of 4 = 15" "max_code_of 8 = 255"
  by (simp_all add: max_code_of_def push_bit_of_1)

definition code_bound :: "leaf \<Rightarrow> nat" where
  "code_bound lf = (if leaf_bits lf = 4 then 15 else 255)"

lemma max_code_bound: "leaf_ok lf \<Longrightarrow> unat (max_code_of (ucast (leaf_bits lf))) = code_bound lf"
  by (auto simp: leaf_ok_def code_bound_def)

lemma units_flit_values: "units (flit 15 1 :: f32) = 15 * 2 ^ 149" "units (flit 255 1 :: f32) = 255 * 2 ^ 149"
  by (simp_all add: float_eval)

lemma flit_values: "\<not> sign_neg (flit 15 1 :: f32)" "\<not> sign_neg (flit 255 1 :: f32)"
    "mag (flit 15 1 :: f32) < inf_mag 32" "mag (flit 255 1 :: f32) < inf_mag 32"
  by (simp_all add: float_eval)

lemma round_float_fields:
  "mag (round_float s p q :: 'w::len word ieee) = round_mag (frac_bits LENGTH('w)) (inf_mag LENGTH('w)) p q"
  "sign_neg (round_float s p q :: 'w::len word ieee) = s"
proof -
  have "inf_mag LENGTH('w) < sign_weight LENGTH('w)" by (simp add: inf_mag_def)
  then have "round_mag (frac_bits LENGTH('w)) (inf_mag LENGTH('w)) p q < sign_weight LENGTH('w)"
    by (rule le_less_trans [OF round_mag_le_inf])
  then show "mag (round_float s p q :: 'w::len word ieee) = round_mag (frac_bits LENGTH('w)) (inf_mag LENGTH('w)) p q"
    "sign_neg (round_float s p q :: 'w::len word ieee) = s"
    by (simp_all add: round_float_def)
qed

lemma trunc_floor_le:
  fixes a hi :: f32
  assumes "is_nan a \<or> fle a hi" "\<not> sign_neg hi" "mag hi < inf_mag 32" "units hi = M * 2 ^ 149" "M < 2 ^ 32"
  shows "unat (trunc_u32 (ffloor_nonneg a)) \<le> M"
proof (cases "is_nan a")
  case True
  then show ?thesis by (simp add: trunc_u32_def ffloor_nonneg_def)
next
  case False
  with assms have key: "fkey a \<le> fkey hi" by (simp add: fle_def)
  show ?thesis
  proof (cases "sign_neg a")
    case True
    then have "sign_neg (ffloor_nonneg a)" by (simp add: ffloor_nonneg_def round_float_fields)
    then show ?thesis by (simp add: trunc_u32_def)
  next
    case pos: False
    then have le: "mag a \<le> mag hi" using key assms(2) by (simp add: fkey_def)
    then have fin: "\<not> is_inf a" using assms(3) by (simp add: is_inf_def)
    let ?p = "units a div 2 ^ 149 * 2 ^ 149"
    have fl: "ffloor_nonneg a = round_float False ?p 1"
      using False fin pos by (simp add: ffloor_nonneg_def unit_exp_def)
    have "mag (ffloor_nonneg a) \<le> mag a"
      unfolding fl round_float_fields
      using le assms(3) by (intro round_mag_le) (auto simp: units_def)
    then have "mag (ffloor_nonneg a) \<le> mag hi" using le by simp
    then have u: "units (ffloor_nonneg a) \<le> M * 2 ^ 149"
      using units_mono [of "ffloor_nonneg a" hi] assms(4) by simp
    then have "units (ffloor_nonneg a) div 2 ^ 149 \<le> M" by (metis div_le_mono nonzero_mult_div_cancel_right power_not_zero zero_neq_numeral)
    moreover have "mag (ffloor_nonneg a) < inf_mag 32" using \<open>mag (ffloor_nonneg a) \<le> mag hi\<close> assms(3) by simp
    ultimately show ?thesis
      using assms(5) by (simp add: trunc_u32_def is_inf_def is_nan_def unit_exp_def min_def
          unsigned_of_nat take_bit_nat_eq_self)
  qed
qed

lemma step_whole_le: "leaf_ok lf \<Longrightarrow> unat (step_whole (make_step len bo lf)) \<le> code_bound lf"
proof -
  assume ok: "leaf_ok lf"
  let ?x = "fdiv (fmul len (leaf_radius lf)) (leaf_scale lf)"
  have z: "fle fzero (flit 15 1 :: f32)" "fle fzero (flit 255 1 :: f32)"
    by (simp_all add: float_eval fle_def)
  have clamp: "is_nan (fclamp ?x fzero hi) \<or> fle (fclamp ?x fzero hi) hi" if "fle fzero hi" for hi
    using fclamp_in_range [OF that] fclamp_nan by metis
  show ?thesis
    using ok trunc_floor_le [OF clamp [OF z(1)] flit_values(1,3) units_flit_values(1)]
      trunc_floor_le [OF clamp [OF z(2)] flit_values(2,4) units_flit_values(2)]
    by (auto simp: leaf_ok_def make_step_def Let_def code_bound_def)
qed

lemma perturb_amount_le:
  assumes "leaf_ok lf"
  shows "unat (perturb_amount random (make_step len bo lf)) \<le> code_bound lf"
proof (cases "step_whole (make_step len bo lf) = max_code_of (ucast (leaf_bits lf))")
  case True
  then have "step_threshold (make_step len bo lf) = 0" by (simp add: make_step_def Let_def)
  then show ?thesis
    using step_whole_le [OF assms] by (simp add: perturb_amount_def)
next
  case False
  let ?w = "step_whole (make_step len bo lf)"
  have "unat ?w \<noteq> code_bound lf"
    using False max_code_bound [OF assms] by (metis word_unat_eq_iff)
  then have less: "unat ?w < code_bound lf" using step_whole_le [OF assms, of len bo] by simp
  moreover have "code_bound lf \<le> 255" by (simp add: code_bound_def)
  ultimately have "unat (?w + 1) = unat ?w + 1" by (simp add: unat_word_ariths)
  then show ?thesis using less by (simp add: perturb_amount_def)
qed

lemma perturb_range:
  assumes "unat code \<le> b" "unat (perturb_amount (hash seed element) step) \<le> b"
    and "unat (max_code_of (step_bits step)) = b" "b \<le> 255"
  shows "unat (perturb code seed element step) \<le> b \<and>
    unat (perturb code seed element step) \<le> unat code + unat (perturb_amount (hash seed element) step) \<and>
    unat code \<le> unat (perturb code seed element step) + unat (perturb_amount (hash seed element) step)"
proof -
  define a m where "a = perturb_amount (hash seed element) step" and "m = max_code_of (step_bits step)"
  have plus: "unat (code + a) = unat code + unat a" using assms by (simp add: unat_word_ariths a_def)
  have sub: "unat (code - a) = unat code - unat a" if "a \<le> code"
    using that by (simp add: unat_sub word_le_nat_alt)
  have le: "a \<le> code \<longleftrightarrow> unat a \<le> unat code" "code + a \<le> m \<longleftrightarrow> unat code + unat a \<le> b"
    using assms(3) by (simp_all add: word_le_nat_alt plus m_def)
  have mn: "unat (min (code + a) m) = min (unat code + unat a) b"
    using le(2) plus assms(3) by (simp add: min_def m_def)
  show ?thesis
    unfolding perturb_def Let_def a_def [symmetric] m_def [symmetric]
    using assms(1,2) by (auto simp: le plus sub mn a_def [symmetric])
qed

section \<open>Reading back materialized codes\<close>

lemma nibble_mask: "(x :: u8) AND 15 = take_bit 4 x"
  by (simp add: take_bit_eq_mask mask_eq_exp_minus_1)

lemma nibble_or:
  fixes x v :: u8
  assumes "v AND 15 = v"
  shows "(x OR v) AND 15 = (x AND 15) OR v"
    "(drop_bit 4 (x OR push_bit 4 v)) AND 15 = (drop_bit 4 x AND 15) OR v"
    "(drop_bit 4 (x OR v)) AND 15 = drop_bit 4 x AND 15"
    "(x OR push_bit 4 v) AND 15 = x AND 15"
proof -
  have v: "bit v n \<Longrightarrow> n < 4" for n
    using assms by (metis bit_take_bit_iff nibble_mask)
  show "(x OR v) AND 15 = (x AND 15) OR v"
    "(drop_bit 4 (x OR push_bit 4 v)) AND 15 = (drop_bit 4 x AND 15) OR v"
    "(drop_bit 4 (x OR v)) AND 15 = drop_bit 4 x AND 15"
    "(x OR push_bit 4 v) AND 15 = x AND 15"
    by (rule bit_word_eqI, auto simp: nibble_mask bit_simps dest: v)+
qed

lemma unat_ucast_8_32: "unat (ucast (x :: u8) :: u32) = unat x"
proof -
  have "unat x < 2 ^ 8" using unsigned_less [of x, where ?'a = nat] by simp
  then show ?thesis by (simp add: unsigned_ucast_eq take_bit_nat_eq_self)
qed

lemma code_at_le: "leaf_bits lf = 4 \<or> leaf_bits lf = 8 \<Longrightarrow> unat (code_at lf st row e) \<le> code_bound lf"
proof -
  have "unat (ucast ((x::u8) AND 15) :: u32) \<le> 15" for x
  proof -
    have "unat (x AND 15) = unat x mod 16"
      by (simp add: nibble_mask unsigned_take_bit_eq take_bit_nat_def)
    then show ?thesis unfolding unat_ucast_8_32 by simp
  qed
  moreover have "unat (ucast (x::u8) :: u32) \<le> 255" for x
    using unsigned_less [of x, where ?'a = nat] by (simp add: unat_ucast_8_32)
  ultimately show "leaf_bits lf = 4 \<or> leaf_bits lf = 8 \<Longrightarrow> ?thesis"
    by (auto simp: code_at_def code_bound_def)
qed

lemma small_nibble: "unat (v :: u32) \<le> 15 \<Longrightarrow> (ucast v AND 15 :: u8) = ucast v"
proof -
  assume v: "unat v \<le> 15"
  then have "unat (ucast v :: u8) < 2 ^ 4" by (simp add: unsigned_ucast_eq take_bit_nat_eq_self)
  then have "take_bit 4 (unat (ucast v :: u8)) = unat (ucast v :: u8)" by (rule take_bit_nat_eq_self)
  then show ?thesis
    by (metis nibble_mask unsigned_take_bit_eq word_unat_eq_iff)
qed

lemma ucast_ucast_small: "unat (v :: u32) \<le> 255 \<Longrightarrow> ucast (ucast v :: u8) = v"
  by (simp add: word_unat_eq_iff unsigned_ucast_eq unsigned_take_bit_eq take_bit_nat_eq_self)

definition elem_byte :: "leaf \<Rightarrow> nat \<Rightarrow> nat" where
  "elem_byte lf e = (if leaf_bits lf = 4 then e div 2 else e)"

lemma length_put_code [simp]: "length (put_code lf st e v row) = length row"
  by (simp add: put_code_def Let_def)

lemma put_code_other_byte:
  "b \<noteq> unat (step_byte_offset st) + elem_byte lf e \<Longrightarrow> put_code lf st e v row ! b = row ! b"
  by (simp add: put_code_def Let_def elem_byte_def split: if_splits)

lemma code_at_cong:
  "row ! (unat (step_byte_offset st) + elem_byte lf e) = row' ! (unat (step_byte_offset st) + elem_byte lf e)
   \<Longrightarrow> code_at lf st row e = code_at lf st row' e"
  by (simp add: code_at_def elem_byte_def split: if_splits)

lemma code_at_put_same:
  assumes "leaf_bits lf = 4 \<or> leaf_bits lf = 8" "unat v \<le> code_bound lf"
    and "unat (step_byte_offset st) + elem_byte lf e < length row" "code_at lf st row e = 0"
  shows "code_at lf st (put_code lf st e v row) e = v"
proof (cases "leaf_bits lf = 4")
  case True
  then have v: "unat v \<le> 15" using assms(2) by (simp add: code_bound_def)
  let ?x = "row ! (unat (step_byte_offset st) + e div 2)"
  have zero: "drop_bit (e mod 2 * 4) ?x AND 15 = 0"
    using assms(4) True unat_ucast_8_32 [of "drop_bit (e mod 2 * 4) ?x AND 15"]
    by (simp add: code_at_def word_unat_eq_iff)
  show ?thesis
    using True assms(3) zero nibble_or(1,2) [OF small_nibble [OF v], of ?x] ucast_ucast_small [of v] v
    by (cases "e mod 2 = 0") (auto simp: code_at_def put_code_def elem_byte_def Let_def)
next
  case False
  then show ?thesis
    using assms ucast_ucast_small [of v]
    by (simp add: code_at_def put_code_def elem_byte_def code_bound_def)
qed

lemma code_at_put_other:
  assumes "e \<noteq> e'" "unat v \<le> code_bound lf" "unat (step_byte_offset st) + elem_byte lf e < length row"
  shows "code_at lf st (put_code lf st e v row) e' = code_at lf st row e'"
proof (cases "elem_byte lf e = elem_byte lf e'")
  case False
  then show ?thesis by (intro code_at_cong put_code_other_byte) simp
next
  case True
  then have four: "leaf_bits lf = 4" and same: "e div 2 = e' div 2"
    using assms(1) by (auto simp: elem_byte_def split: if_splits)
  have v: "unat v \<le> 15" using assms(2) four by (simp add: code_bound_def)
  have "e mod 2 \<noteq> e' mod 2" using assms(1) same by (metis div_mult_mod_eq)
  then consider "e mod 2 = 0" "e' mod 2 = 1" | "e mod 2 = 1" "e' mod 2 = 0" by fastforce
  then show ?thesis
    using four same assms(3) nibble_or(3,4) [OF small_nibble [OF v], of "row ! (unat (step_byte_offset st) + e' div 2)"]
    by cases (simp_all add: code_at_def put_code_def elem_byte_def Let_def)
qed

lemma fold_put_codes:
  assumes bits: "leaf_bits lf = 4 \<or> leaf_bits lf = 8"
    and small: "\<forall>e<n. unat (value e) \<le> code_bound lf"
    and fits: "\<forall>e<n. unat (step_byte_offset st) + elem_byte lf e < length row"
    and zero: "\<forall>e<n. code_at lf st row e = 0"
  shows "length (fold (\<lambda>e. put_code lf st e (value e)) [0..<n] row) = length row \<and>
    (\<forall>e<n. code_at lf st (fold (\<lambda>e. put_code lf st e (value e)) [0..<n] row) e = value e) \<and>
    (\<forall>b. (\<forall>e<n. b \<noteq> unat (step_byte_offset st) + elem_byte lf e) \<longrightarrow>
       fold (\<lambda>e. put_code lf st e (value e)) [0..<n] row ! b = row ! b)"
  using small fits zero
proof (induction n)
  case 0
  then show ?case by simp
next
  case (Suc n)
  let ?f = "\<lambda>n. fold (\<lambda>e. put_code lf st e (value e)) [0..<n] row"
  have keep: "k \<le> n \<Longrightarrow> code_at lf st (?f k) n = 0" for k
  proof (induction k)
    case 0
    then show ?case using Suc.prems(3) by simp
  next
    case (Suc k)
    have len: "length (?f k) = length row" by (induction k) simp_all
    show ?case
      using Suc code_at_put_other [of k n "value k" lf st "?f k"] Suc.prems Suc.IH
        \<open>\<forall>e<Suc n. unat (value e) \<le> code_bound lf\<close>
        \<open>\<forall>e<Suc n. unat (step_byte_offset st) + elem_byte lf e < length row\<close>
      by (simp add: len)
  qed
  have ih: "length (?f n) = length row" "\<forall>e<n. code_at lf st (?f n) e = value e"
    "\<forall>b. (\<forall>e<n. b \<noteq> unat (step_byte_offset st) + elem_byte lf e) \<longrightarrow> ?f n ! b = row ! b"
    using Suc by simp_all
  have v: "unat (value n) \<le> code_bound lf" and b: "unat (step_byte_offset st) + elem_byte lf n < length (?f n)"
    using Suc.prems ih(1) by simp_all
  have step: "?f (Suc n) = put_code lf st n (value n) (?f n)" by simp
  have "code_at lf st (?f (Suc n)) e = value e" if "e < Suc n" for e
  proof (cases "e = n")
    case True
    then show ?thesis
      unfolding step using code_at_put_same [OF bits v b keep [OF order.refl]] by simp
  next
    case False
    then show ?thesis
      unfolding step using code_at_put_other [OF _ v b, of e] ih(2) that by simp
  qed
  moreover have "?f (Suc n) ! c = row ! c"
    if "\<forall>e<Suc n. c \<noteq> unat (step_byte_offset st) + elem_byte lf e" for c
    unfolding step using that ih(3) by (simp add: put_code_other_byte)
  ultimately show ?case using ih(1) by (simp add: step)
qed

lemma elem_byte_less: "leaf_ok lf \<Longrightarrow> e < leaf_length lf \<Longrightarrow> elem_byte lf e < leaf_bytes lf"
proof -
  assume "leaf_ok lf" "e < leaf_length lf"
  moreover have "leaf_length lf \<le> div_ceil (leaf_length lf) 2 * 2" using div_ceil_bounds by simp
  ultimately show ?thesis by (auto simp: elem_byte_def leaf_bytes_def)
qed

lemma make_step_byte_offset: "bo < 2 ^ 32 \<Longrightarrow> unat (step_byte_offset (make_step len bo lf)) = bo"
  by (simp add: make_step_def Let_def unat_as_u32)

lemma make_step_bits: "step_bits (make_step len bo lf) = ucast (leaf_bits lf)"
  by (simp add: make_step_def Let_def)

lemma trial_code_le:
  assumes "leaf_ok lf"
  shows "unat (trial_code base seed lf (make_step len bo lf) e) \<le> code_bound lf"
proof -
  have "unat (code_at lf (make_step len bo lf) base e) \<le> code_bound lf"
    using assms by (intro code_at_le) (simp add: leaf_ok_def)
  then show ?thesis
    unfolding trial_code_def
    using perturb_range [OF _ perturb_amount_le [OF assms]] max_code_bound [OF assms]
    by (simp add: make_step_bits code_bound_def)
qed

definition total_bytes :: "leaf list \<Rightarrow> nat" where
  "total_bytes leaves = sum_list (map leaf_bytes leaves)"

lemma total_bytes_simps [simp]:
  "total_bytes [] = 0" "total_bytes (lf # rest) = leaf_bytes lf + total_bytes rest"
  by (simp_all add: total_bytes_def)

lemma length_make_steps_from [simp]: "length (make_steps_from len bo leaves) = length leaves"
  by (induction leaves arbitrary: bo) simp_all

lemma materialize_leaf_eq:
  "materialize_leaf base seed (lf, st) row =
   fold (\<lambda>e. put_code lf st e (trial_code base seed lf st e)) [0..<leaf_length lf] row"
  by (simp add: materialize_leaf_def)

lemma code_at_zero:
  "row ! (unat (step_byte_offset st) + elem_byte lf e) = 0 \<Longrightarrow> code_at lf st row e = 0"
  by (simp add: code_at_def elem_byte_def split: if_splits)

lemma materialize_from:
  assumes "\<forall>lf\<in>set leaves. leaf_ok lf" "bo + total_bytes leaves \<le> length row" "length row < 2 ^ 32"
    and "\<forall>b. bo \<le> b \<longrightarrow> b < length row \<longrightarrow> row ! b = 0"
  shows "length (fold (materialize_leaf base seed) (zip leaves (make_steps_from len bo leaves)) row) = length row \<and>
    (\<forall>b<bo. fold (materialize_leaf base seed) (zip leaves (make_steps_from len bo leaves)) row ! b = row ! b) \<and>
    (\<forall>j<length leaves. \<forall>e<leaf_length (leaves ! j).
       code_at (leaves ! j) (make_steps_from len bo leaves ! j)
         (fold (materialize_leaf base seed) (zip leaves (make_steps_from len bo leaves)) row) e =
       trial_code base seed (leaves ! j) (make_steps_from len bo leaves ! j) e)"
  using assms
proof (induction leaves arbitrary: bo row)
  case Nil
  then show ?case by simp
next
  case (Cons lf rest)
  have ok: "leaf_ok lf" and bits: "leaf_bits lf = 4 \<or> leaf_bits lf = 8"
    using Cons.prems(1) by (simp_all add: leaf_ok_def)
  have pos: "0 < leaf_bytes lf" using ok elem_byte_less [OF ok, of 0] by (simp add: leaf_ok_def)
  have bo: "bo < 2 ^ 32" using Cons.prems(2,3) pos by simp
  let ?st = "make_step len bo lf" and ?bo = "bo + leaf_bytes lf"
  let ?row = "materialize_leaf base seed (lf, ?st) row"
  let ?steps = "make_steps_from len ?bo rest"
  let ?out = "fold (materialize_leaf base seed) (zip rest ?steps) ?row"
  have off: "unat (step_byte_offset ?st) = bo" using bo by (rule make_step_byte_offset)
  have fits: "\<forall>e<leaf_length lf. unat (step_byte_offset ?st) + elem_byte lf e < length row"
    using elem_byte_less [OF ok] Cons.prems(2) by (fastforce simp: off)
  have "\<forall>e<leaf_length lf. code_at lf ?st row e = 0"
    using fits Cons.prems(4) by (intro allI impI code_at_zero) (simp add: off)
  from fold_put_codes [OF bits _ fits this, of "trial_code base seed lf ?st"] trial_code_le [OF ok]
  have put: "length ?row = length row"
    "\<forall>e<leaf_length lf. code_at lf ?st ?row e = trial_code base seed lf ?st e"
    "\<forall>b. (\<forall>e<leaf_length lf. b \<noteq> bo + elem_byte lf e) \<longrightarrow> ?row ! b = row ! b"
    unfolding materialize_leaf_eq off by simp_all
  have outside: "?row ! b = row ! b" if "b < bo \<or> ?bo \<le> b" for b
  proof -
    have "b \<noteq> bo + elem_byte lf e" if "e < leaf_length lf" for e
      using elem_byte_less [OF ok that] \<open>b < bo \<or> ?bo \<le> b\<close> by auto
    then show ?thesis using put(3) by simp
  qed
  have ih: "length ?out = length ?row" "\<forall>b<?bo. ?out ! b = ?row ! b"
    "\<forall>j<length rest. \<forall>e<leaf_length (rest ! j).
       code_at (rest ! j) (?steps ! j) ?out e = trial_code base seed (rest ! j) (?steps ! j) e"
    using Cons.IH [of ?bo ?row] Cons.prems put(1) outside by (simp_all add: add.assoc)
  have "code_at lf ?st ?out e = trial_code base seed lf ?st e" if "e < leaf_length lf" for e
  proof -
    have "code_at lf ?st ?out e = code_at lf ?st ?row e"
      using ih(2) elem_byte_less [OF ok that] by (intro code_at_cong) (simp add: off)
    then show ?thesis using put(2) that by simp
  qed
  then show ?case using ih put(1) outside by (auto simp: nth_Cons' less_Suc_eq_0_disj)
qed

section \<open>What the layout check guarantees\<close>

lemma check_layout_loop_Inr:
  "check_layout_loop off rb leaves = Inr (off', rb') \<Longrightarrow>
   off' = off + sum_list (map leaf_length leaves) \<and> rb' = rb + total_bytes leaves \<and>
   (\<forall>j<length leaves. leaf_offset (leaves ! j) = off + sum_list (map leaf_length (take j leaves)))"
proof (induction leaves arbitrary: off rb)
  case Nil
  then show ?case by simp
next
  case (Cons lf rest)
  then have "leaf_offset lf = off" and "check_layout_loop (off + leaf_length lf) (rb + leaf_bytes lf) rest = Inr (off', rb')"
    by (auto simp: res_simps)
  with Cons.IH [of "off + leaf_length lf" "rb + leaf_bytes lf"] show ?case
    by (auto simp: less_Suc_eq_0_disj)
qed

lemma check_layout_Inr:
  assumes "check_layout leaves = Inr rb"
  shows "leaves \<noteq> []" "rb = total_bytes leaves" "rb < 2 ^ 32" "sum_list (map leaf_length leaves) < 2 ^ 32"
    "\<forall>j<length leaves. leaf_offset (leaves ! j) = sum_list (map leaf_length (take j leaves))"
  using assms check_layout_loop_Inr [of 0 0 leaves] by (auto simp: check_layout_def res_simps)

lemma make_steps_from_nth:
  "j < length leaves \<Longrightarrow>
   make_steps_from len bo leaves ! j = make_step len (bo + total_bytes (take j leaves)) (leaves ! j)"
proof (induction leaves arbitrary: bo j)
  case (Cons lf rest)
  then show ?case by (cases j) (simp_all add: add.assoc)
qed simp

lemma total_bytes_take_le: "total_bytes (take j leaves) \<le> total_bytes leaves"
  by (metis append_take_drop_id le_add1 map_append sum_list_append total_bytes_def)

section \<open>Tiles\<close>

definition tile_elements :: "Tile \<Rightarrow> (u32 \<times> nat) list" where
  "tile_elements t = map (\<lambda>e. (tile_leaf t, e)) [unat (tile_start t)..<unat (tile_start t) + unat (tile_length t)]"

lemma leaf_tiles_cover:
  "start \<le> len \<Longrightarrow> len < 2 ^ 32 \<Longrightarrow>
   concat (map tile_elements (leaf_tiles i start len)) = map (Pair (as_u32 i)) [start..<len] \<and>
   (\<forall>t\<in>set (leaf_tiles i start len). 0 < unat (tile_length t) \<and> unat (tile_length t) \<le> TILE_ELEMENTS)"
proof (induction i start len rule: leaf_tiles.induct)
  case (1 i start len)
  show ?case
  proof (cases "start < len")
    case True
    let ?n = "min (len - start) TILE_ELEMENTS"
    have n: "0 < ?n" "?n \<le> TILE_ELEMENTS" "start + ?n \<le> len" using True by (auto simp: TILE_ELEMENTS_def)
    have u: "unat (as_u32 start) = start" "unat (as_u32 ?n) = ?n"
      using "1.prems" n True by (simp_all add: unat_as_u32)
    have "[start..<len] = [start..<start + ?n] @ [start + ?n..<len]"
      using n by (metis le_add1 le_add_diff_inverse upt_add_eq_append)
    moreover have "tile_elements \<lparr>tile_leaf = as_u32 i, tile_start = as_u32 start, tile_length = as_u32 ?n, tile_pad = 0\<rparr>
        = map (Pair (as_u32 i)) [start..<start + ?n]"
      by (simp add: tile_elements_def u)
    ultimately show ?thesis
      using "1.IH" [OF True refl n(3) "1.prems"(2)] n True u
      by (subst (1 2) leaf_tiles.simps) (simp add: Let_def)
  next
    case False
    then show ?thesis using "1.prems" by (simp add: leaf_tiles.simps)
  qed
qed

section \<open>Properties\<close>

text \<open>\<open>materialize\<close> perturbs every code of the row and nothing else. For checked leaves
  and a base row of the checked length, the materialized row has the same length, and
  reading the code of any element of any leaf gives \<open>perturb\<close> of the base code at the
  element's global index, a value in the code range of the leaf.\<close>

theorem materialize_reads_perturbed:
  assumes "check_layout leaves = Inr (length base)" "\<forall>lf\<in>set leaves. leaf_ok lf"
    and "j < length leaves" "e < leaf_length (leaves ! j)"
  shows "length (materialize base leaves (make_steps leaves len) seed) = length base \<and>
    (let lf = leaves ! j; st = make_steps leaves len ! j in
     code_at lf st (materialize base leaves (make_steps leaves len) seed) e
       = perturb (code_at lf st base e) seed (as_u32 (leaf_offset lf) + as_u32 e) st \<and>
     unat (code_at lf st (materialize base leaves (make_steps leaves len) seed) e) \<le> code_bound lf)"
proof -
  have lay: "length base = total_bytes leaves" "length base < 2 ^ 32"
    using check_layout_Inr [OF assms(1)] by simp_all
  then have "length (materialize base leaves (make_steps leaves len) seed) = length base"
    and c: "code_at (leaves ! j) (make_steps leaves len ! j) (materialize base leaves (make_steps leaves len) seed) e
       = trial_code base seed (leaves ! j) (make_steps leaves len ! j) e"
    using materialize_from [OF assms(2), of 0 "replicate (length base) 0" base seed len] assms(3,4)
    by (simp_all add: materialize_def make_steps_def)
  moreover have "leaf_ok (leaves ! j)" using assms(2,3) by simp
  then have "unat (trial_code base seed (leaves ! j) (make_steps leaves len ! j) e) \<le> code_bound (leaves ! j)"
    unfolding make_steps_def make_steps_from_nth [OF assms(3)] by (rule trial_code_le)
  ultimately show ?thesis by (simp add: Let_def trial_code_def)
qed

text \<open>The layout of the unit tests: five 4-bit codes followed by four 8-bit codes.\<close>

definition test_leaves :: "leaf list" where
  "test_leaves =
     [\<lparr>leaf_offset = 0, leaf_length = 5, leaf_bits = 4, leaf_encoding = Int4,
       leaf_scale = Ieee 0x3e800000, leaf_weight = Ieee 0x3f800000, leaf_radius = Ieee 0x3f400000\<rparr>,
      \<lparr>leaf_offset = 5, leaf_length = 4, leaf_bits = 8, leaf_encoding = Int8,
       leaf_scale = Ieee 0x3f000000, leaf_weight = Ieee 0x3f000000, leaf_radius = Ieee 0x3f800000\<rparr>]"

definition test_base :: "u8 list" where
  "test_base = [0x76, 0x98, 0x0a, 100, 120, 140, 160]"

lemma test_layout: "check_layout test_leaves = Inr (length test_base)"
  by (simp add: test_leaves_def test_base_def check_layout_def checked_add_def usize_bound_def
      leaf_bytes_def div_ceil_def)

lemma test_leaves_ok: "\<forall>lf\<in>set test_leaves. leaf_ok lf"
  by (simp add: test_leaves_def leaf_ok_def positive_finite_def float_eval fle_def)

theorem materialize_reads_perturbed_witness:
  "length (materialize test_base test_leaves (make_steps test_leaves (Ieee 0x3f800000)) 7) = length test_base \<and>
    (let lf = test_leaves ! 0; st = make_steps test_leaves (Ieee 0x3f800000) ! 0 in
     code_at lf st (materialize test_base test_leaves (make_steps test_leaves (Ieee 0x3f800000)) 7) 3
       = perturb (code_at lf st test_base 3) 7 (as_u32 (leaf_offset lf) + as_u32 3) st \<and>
     unat (code_at lf st (materialize test_base test_leaves (make_steps test_leaves (Ieee 0x3f800000)) 7) 3)
       \<le> code_bound lf)"
  by (rule materialize_reads_perturbed [OF test_layout test_leaves_ok]) (simp_all add: test_leaves_def)

text \<open>A perturbed code stays in the range of its leaf and within the drawn amount of the
  old code, whatever the seed: stepping over either end bounces or saturates, and no 32-bit
  addition wraps.\<close>

theorem perturb_in_range:
  assumes "leaf_ok lf" "unat code \<le> code_bound lf"
  shows "let st = make_step len bo lf; amount = perturb_amount (hash seed element) st;
             new = perturb code seed element st
         in unat amount \<le> code_bound lf \<and> unat new \<le> code_bound lf \<and>
            unat new \<le> unat code + unat amount \<and> unat code \<le> unat new + unat amount"
  using perturb_range [OF assms(2) perturb_amount_le [OF assms(1), where len = len and bo = bo],
      of seed element]
    perturb_amount_le [OF assms(1), of "hash seed element" len bo] max_code_bound [OF assms(1)]
  by (simp add: Let_def make_step_bits code_bound_def)

theorem perturb_in_range_witness:
  "let st = make_step (Ieee 0x3f800000) 0 (test_leaves ! 0);
       amount = perturb_amount (hash 7 2) st; new = perturb 9 7 2 st
   in unat amount \<le> 15 \<and> unat new \<le> 15 \<and> unat new \<le> 9 + unat amount \<and> 9 \<le> unat new + unat amount"
proof -
  have "leaf_ok (test_leaves ! 0)" using test_leaves_ok by (simp add: test_leaves_def)
  moreover have "code_bound (test_leaves ! 0) = 15" by (simp add: test_leaves_def code_bound_def)
  ultimately show ?thesis using perturb_in_range [of "test_leaves ! 0" 9] by simp
qed

text \<open>The tiles of a layout enumerate every element of every leaf exactly once, in order,
  in pieces of at most \<open>TILE_ELEMENTS\<close> elements.\<close>

theorem make_tiles_cover:
  assumes "\<forall>lf\<in>set leaves. leaf_length lf < 2 ^ 32"
  shows "concat (map tile_elements (make_tiles leaves)) =
      concat (map (\<lambda>(i, lf). map (Pair (as_u32 i)) [0..<leaf_length lf]) (enumerate 0 leaves)) \<and>
    (\<forall>t\<in>set (make_tiles leaves). 0 < unat (tile_length t) \<and> unat (tile_length t) \<le> TILE_ELEMENTS)"
proof -
  have leaf: "leaf_length lf < 2 ^ 32" if "(i, lf) \<in> set (enumerate 0 leaves)" for i lf
    using that assms by (auto simp: in_set_enumerate_eq)
  have "concat (map tile_elements (concat (map (\<lambda>(i, lf). leaf_tiles i 0 (leaf_length lf)) xs))) =
      concat (map (\<lambda>(i, lf). map (Pair (as_u32 i)) [0..<leaf_length lf]) xs)"
    if "\<forall>(i, lf)\<in>set xs. leaf_length lf < 2 ^ 32" for xs
    using that by (induction xs) (auto simp: leaf_tiles_cover)
  from this [of "enumerate 0 leaves"] leaf
  have "concat (map tile_elements (make_tiles leaves)) =
      concat (map (\<lambda>(i, lf). map (Pair (as_u32 i)) [0..<leaf_length lf]) (enumerate 0 leaves))"
    unfolding make_tiles_def by blast
  moreover have "\<forall>t\<in>set (make_tiles leaves). 0 < unat (tile_length t) \<and> unat (tile_length t) \<le> TILE_ELEMENTS"
    using leaf leaf_tiles_cover by (fastforce simp: make_tiles_def)
  ultimately show ?thesis by blast
qed

theorem make_tiles_cover_witness:
  "concat (map tile_elements (make_tiles test_leaves)) =
      concat (map (\<lambda>(i, lf). map (Pair (as_u32 i)) [0..<leaf_length lf]) (enumerate 0 test_leaves)) \<and>
    list_all (\<lambda>t. 0 < unat (tile_length t) \<and> unat (tile_length t) \<le> TILE_ELEMENTS) (make_tiles test_leaves)"
  unfolding list_all_iff by (rule make_tiles_cover) (simp add: test_leaves_def)

end
