(* ===== verification/TrialEngine.thy ===== *)
theory TrialEngine
  imports TrialLaws RowStore
begin

text \<open>
  The CPU engine of the trial search (\<open>Cpu\<close>, \<open>check_ask\<close>, \<open>score\<close> of
  \<open>rust/crates/ennx/src/trials.rs\<close>, \<open>trials/tree.rs\<close>, \<open>insert_neighbor\<close> of \<open>util.rs\<close>): a flat
  store of packed rows, the exact nearest-neighbour scorer, and the perturbation trees.

  The standard normal draws of \<open>thompson_draws\<close> come from \<open>rand::StdRng\<close> and the platform's
  \<open>ln\<close> and \<open>cos\<close>: they are the parameter \<open>draws\<close>, a function of the count and the seed.
\<close>

datatype AcquisitionKind = Ucb | Thompson | Pareto

record Ask =
  ask_length :: f32
  ask_neighbors :: nat
  ask_epistemic_scale :: f32
  ask_aleatoric_scale :: f32
  ask_y_scale :: f32
  ask_beta :: f32
  ask_acquisition :: AcquisitionKind
  ask_seed :: u64

definition nonneg_finite :: "f32 \<Rightarrow> bool" where
  "nonneg_finite x \<longleftrightarrow> is_finite x \<and> \<not> flt x fzero"

definition check_ask :: "u64 list \<Rightarrow> nat \<Rightarrow> Ask \<Rightarrow> trial_error + unit" where
  "check_ask seeds observations config =
     rbind (ensure (seeds \<noteq> []) NoSeeds) (\<lambda>_.
     rbind (ensure (ask_neighbors config \<noteq> 0 \<and> ask_neighbors config \<le> observations)
              (NeighborRange observations)) (\<lambda>_.
     for_each_res (\<lambda>(name, value). ensure (nonneg_finite value) (NotNonnegative name))
       [(''length'', ask_length config), (''epistemic_scale'', ask_epistemic_scale config),
        (''aleatoric_scale'', ask_aleatoric_scale config), (''y_scale'', ask_y_scale config),
        (''beta'', ask_beta config)]))"

section \<open>Scoring a candidate\<close>

type_synonym neighbor = "f32 \<times> nat"

definition closer :: "f32 \<Rightarrow> nat \<Rightarrow> neighbor \<Rightarrow> bool" where
  "closer distance index other \<longleftrightarrow>
     flt distance (fst other) \<or> (feq distance (fst other) \<and> index < snd other)"

text \<open>The tail from the found position moves one place to the right and its last entry drops
  out.\<close>

fun insert_neighbor :: "neighbor list \<Rightarrow> f32 \<Rightarrow> nat \<Rightarrow> neighbor list" where
  "insert_neighbor [] distance index = []"
| "insert_neighbor (x # xs) distance index =
     (if closer distance index x then (distance, index) # butlast (x # xs)
      else x # insert_neighbor xs distance index)"

definition score_weights :: "neighbor list \<Rightarrow> (nat \<times> f32) list \<Rightarrow> Ask \<Rightarrow> f32 \<times> f32" where
  "score_weights nearest history config =
     fold (\<lambda>(distance, index) (weight_sum, weighted_value).
         let variance = fadd (fadd (flit 1 (10 ^ 9)) (fmul (ask_epistemic_scale config) distance))
               (ask_aleatoric_scale config);
             weight = fdiv (flit 1 1) (fmax variance (flit 1 (10 ^ 12)))
         in (fadd weight_sum weight, fadd weighted_value (fmul weight (snd (history ! index)))))
       nearest (fzero, fzero)"

definition score :: "neighbor list \<Rightarrow> (nat \<times> f32) list \<Rightarrow> f32 \<Rightarrow> Ask \<Rightarrow> f32" where
  "score nearest history draw config =
     (let (weight_sum, weighted_value) = score_weights nearest history config;
          mean = fdiv weighted_value (fmax weight_sum (flit 1 (10 ^ 12)));
          se = fmul (fsqrt (fdiv (flit 1 1) (fmax weight_sum (flit 1 (10 ^ 12))))) (ask_y_scale config)
      in case ask_acquisition config of
           Ucb \<Rightarrow> fadd mean (fmul (ask_beta config) se)
         | Thompson \<Rightarrow> fadd mean (fmul se draw)
         | Pareto \<Rightarrow> fadd mean se)"

section \<open>The row store\<close>

record Cpu =
  cpu_rows :: "u8 list"
  cpu_row_bytes :: nat

definition cpu_new :: "u8 list \<Rightarrow> nat \<Rightarrow> Cpu" where
  "cpu_new base slots =
     (let rows = replicate (slots * length base) 0
      in \<lparr>cpu_rows = base @ drop (length base) rows, cpu_row_bytes = length base\<rparr>)"

definition cpu_read :: "Cpu \<Rightarrow> nat \<Rightarrow> u8 list" where
  "cpu_read e slot = take (cpu_row_bytes e) (drop (slot * cpu_row_bytes e) (cpu_rows e))"

text \<open>\<open>read_mut(slot).copy_from_slice(row)\<close>.\<close>

definition cpu_write :: "Cpu \<Rightarrow> nat \<Rightarrow> u8 list \<Rightarrow> Cpu" where
  "cpu_write e slot row = e\<lparr>cpu_rows :=
     take (slot * cpu_row_bytes e) (cpu_rows e) @ row @ drop ((slot + 1) * cpu_row_bytes e) (cpu_rows e)\<rparr>"

definition cpu_materialize :: "Cpu \<Rightarrow> nat \<Rightarrow> nat \<Rightarrow> u64 \<Rightarrow> leaf list \<Rightarrow> f32 \<Rightarrow> Cpu" where
  "cpu_materialize e base_slot trial_slot seed leaves len =
     cpu_write e trial_slot (materialize (cpu_read e base_slot) leaves (make_steps leaves len) seed)"

section \<open>Asking\<close>

definition nearest_rows ::
    "(nat \<Rightarrow> u8 list) \<Rightarrow> (nat \<times> f32) list \<Rightarrow> u8 list \<Rightarrow> leaf list \<Rightarrow> Step list \<Rightarrow> nat \<Rightarrow> u64 \<Rightarrow> neighbor list" where
  "nearest_rows row_of history base leaves steps k seed =
     fold (\<lambda>(i, (slot, _)) nearest.
         insert_neighbor nearest (trial_distance base (row_of slot) leaves steps seed) i)
       (enumerate 0 history) (replicate k (infinity, 0))"

definition candidate_score ::
    "(nat \<Rightarrow> u8 list) \<Rightarrow> (nat \<times> f32) list \<Rightarrow> u8 list \<Rightarrow> leaf list \<Rightarrow> Step list \<Rightarrow> Ask \<Rightarrow> u64 \<Rightarrow> f32 \<Rightarrow> f32" where
  "candidate_score row_of history base leaves steps config seed draw =
     score (nearest_rows row_of history base leaves steps (ask_neighbors config) seed) history draw config"

definition better :: "nat \<Rightarrow> f32 \<Rightarrow> nat \<times> f32 \<Rightarrow> nat \<times> f32" where
  "better index s best =
     (if flt (snd best) s \<or> (feq s (snd best) \<and> index < fst best) then (index, s) else best)"

definition best_candidate :: "(nat \<Rightarrow> f32) \<Rightarrow> nat \<Rightarrow> nat \<times> f32" where
  "best_candidate sc n = fold (\<lambda>index. better index (sc index)) [0..<n] (0, neg_infinity)"

definition cpu_ask ::
    "(nat \<Rightarrow> u64 \<Rightarrow> f32 list) \<Rightarrow> Cpu \<Rightarrow> nat \<Rightarrow> (nat \<times> f32) list \<Rightarrow> nat \<Rightarrow> u64 list \<Rightarrow> leaf list \<Rightarrow> Ask \<Rightarrow> bool
     \<Rightarrow> (nat \<times> f32) \<times> Cpu" where
  "cpu_ask draws e base_slot history trial_slot seeds leaves config materialize_row =
     (let steps = make_steps leaves (ask_length config);
          base = cpu_read e base_slot;
          ds = draws (length seeds) (ask_seed config);
          best = best_candidate (\<lambda>i. candidate_score (cpu_read e) history base leaves steps config (seeds ! i) (ds ! i))
                   (length seeds)
      in (best, if materialize_row
                then cpu_write e trial_slot (materialize base leaves steps (seeds ! fst best)) else e))"

section \<open>Perturbation trees\<close>

record Center =
  center_parent :: "nat option"
  center_seed :: u64

definition MAX_DEPTH :: nat where
  "MAX_DEPTH = 8"

text \<open>The \<open>while let\<close> over the ancestors; \<open>left\<close> is how often the depth may still grow.\<close>

fun chain_fits :: "Center list \<Rightarrow> nat \<Rightarrow> nat option \<Rightarrow> bool" where
  "chain_fits centers left None = True"
| "chain_fits centers 0 (Some i) = False"
| "chain_fits centers (Suc left) (Some i) = chain_fits centers left (center_parent (centers ! i))"

definition check_center :: "Center list \<Rightarrow> nat \<times> Center \<Rightarrow> trial_error + unit" where
  "check_center centers = (\<lambda>(index, c).
     rbind (ensure (case center_parent c of None \<Rightarrow> True | Some parent \<Rightarrow> parent < index) (CenterParent index)) (\<lambda>_.
     ensure (chain_fits centers (MAX_DEPTH - 1) (center_parent c)) CenterDepth))"

definition check_tree :: "Center list \<Rightarrow> nat list \<Rightarrow> nat \<Rightarrow> trial_error + unit" where
  "check_tree centers region_centers num_regions =
     rbind (ensure (num_regions \<noteq> 0 \<and> length region_centers = num_regions) RegionCenters) (\<lambda>_.
     rbind (for_each_res (check_center centers) (enumerate 0 centers)) (\<lambda>_.
     ensure (\<forall>c\<in>set region_centers. c < length centers) RegionCenterBounds))"

definition grow_center :: "u8 list \<Rightarrow> leaf list \<Rightarrow> Step list \<Rightarrow> Center \<Rightarrow> u8 list list \<Rightarrow> u8 list list" where
  "grow_center root leaves steps c rows =
     rows @ [materialize (case center_parent c of None \<Rightarrow> root | Some p \<Rightarrow> rows ! p) leaves steps (center_seed c)]"

definition center_rows :: "u8 list \<Rightarrow> leaf list \<Rightarrow> Step list \<Rightarrow> Center list \<Rightarrow> u8 list list" where
  "center_rows root leaves steps centers = fold (grow_center root leaves steps) centers []"

definition region_best :: "(nat \<Rightarrow> f32) \<Rightarrow> nat \<Rightarrow> nat \<Rightarrow> nat \<times> f32" where
  "region_best sc start stop =
     fold (\<lambda>index best. if flt (snd best) (sc index) then (index, sc index) else best)
       [start..<stop] (start, neg_infinity)"

definition cpu_ask_tree ::
    "(nat \<Rightarrow> u64 \<Rightarrow> f32 list) \<Rightarrow> Cpu \<Rightarrow> nat \<Rightarrow> (nat \<times> f32) list \<Rightarrow> nat \<Rightarrow> Center list \<Rightarrow> nat list \<Rightarrow> u64 list
     \<Rightarrow> leaf list \<Rightarrow> Ask \<Rightarrow> (nat \<times> f32) list" where
  "cpu_ask_tree draws e base_slot history seeds_per_region centers region_centers seeds leaves config =
     (let steps = make_steps leaves (ask_length config);
          rows = center_rows (cpu_read e base_slot) leaves steps centers;
          ds = draws (length seeds) (ask_seed config)
      in map (\<lambda>(region, c). region_best
             (\<lambda>i. candidate_score (cpu_read e) history (rows ! c) leaves steps config (seeds ! i) (ds ! i))
             (region * seeds_per_region) (region * seeds_per_region + seeds_per_region))
           (enumerate 0 region_centers))"

section \<open>The CPU store is a row store\<close>

definition cpu_ok :: "Cpu \<Rightarrow> bool" where
  "cpu_ok e \<longleftrightarrow> 0 < cpu_row_bytes e \<and> cpu_row_bytes e dvd length (cpu_rows e)"

definition cpu_slots :: "Cpu \<Rightarrow> nat" where
  "cpu_slots e = length (cpu_rows e) div cpu_row_bytes e"

lemma slot_bytes_fit:
  assumes "cpu_ok e" "s < cpu_slots e"
  shows "(s + 1) * cpu_row_bytes e \<le> length (cpu_rows e)"
proof -
  have "(s + 1) * cpu_row_bytes e \<le> cpu_slots e * cpu_row_bytes e" using assms(2) by (intro mult_right_mono) auto
  also have "\<dots> = length (cpu_rows e)" using assms(1) by (simp add: cpu_ok_def cpu_slots_def)
  finally show ?thesis .
qed

lemma length_cpu_write:
  assumes "cpu_ok e" "s < cpu_slots e" "length row = cpu_row_bytes e"
  shows "length (cpu_rows (cpu_write e s row)) = length (cpu_rows e)"
  using slot_bytes_fit [OF assms(1,2)] assms(3) by (auto simp: cpu_write_def min_def)

lemma cpu_row_bytes_write [simp]: "cpu_row_bytes (cpu_write e s row) = cpu_row_bytes e"
  by (simp add: cpu_write_def)

lemma cpu_read_write:
  assumes "cpu_ok e" "s < cpu_slots e" "length row = cpu_row_bytes e" "t < cpu_slots e"
  shows "cpu_read (cpu_write e s row) t = (if t = s then row else cpu_read e t)"
proof -
  have "(s + 1) * cpu_row_bytes e \<le> length (cpu_rows e)" "(t + 1) * cpu_row_bytes e \<le> length (cpu_rows e)"
    using slot_bytes_fit [OF assms(1)] assms(2,4) by blast+
  from block_read_write [OF this assms(3)] show ?thesis by (simp add: cpu_read_def cpu_write_def)
qed

interpretation cs: row_store cpu_ok cpu_slots cpu_row_bytes cpu_read cpu_write
proof
  fix e s t and row :: "u8 list"
  assume ok: "cpu_ok e" "s < cpu_slots e"
  show "length (cpu_read e s) = cpu_row_bytes e"
    using slot_bytes_fit [OF ok] by (auto simp: cpu_read_def min_def)
  assume row: "length row = cpu_row_bytes e"
  show "cpu_ok (cpu_write e s row) \<and> cpu_slots (cpu_write e s row) = cpu_slots e \<and>
      cpu_row_bytes (cpu_write e s row) = cpu_row_bytes e"
    using ok length_cpu_write [OF ok row] by (simp add: cpu_ok_def cpu_slots_def)
  assume "t < cpu_slots e"
  then show "cpu_read (cpu_write e s row) t = (if t = s then row else cpu_read e t)"
    using ok row by (rule cpu_read_write [rotated 3])
qed

lemma cpu_new_ok:
  assumes "base \<noteq> []" "0 < slots"
  shows "cpu_ok (cpu_new base slots)" "cpu_slots (cpu_new base slots) = slots"
    "cpu_row_bytes (cpu_new base slots) = length base" "cpu_read (cpu_new base slots) 0 = base"
proof -
  have "length base \<le> slots * length base" using assms(2) by (cases slots) auto
  then have len: "length (cpu_rows (cpu_new base slots)) = slots * length base"
    by (simp add: cpu_new_def Let_def)
  then show "cpu_ok (cpu_new base slots)" "cpu_slots (cpu_new base slots) = slots"
    using assms by (simp_all add: cpu_ok_def cpu_slots_def cpu_new_def Let_def)
  show "cpu_row_bytes (cpu_new base slots) = length base" "cpu_read (cpu_new base slots) 0 = base"
    by (simp_all add: cpu_new_def cpu_read_def Let_def)
qed

end
