(* ===== verification/TrialRank.thy ===== *)
theory TrialRank
  imports TrialEngine
begin

text \<open>
  Properties of the trial scorer: the neighbour buffer holds the nearest observations, the
  chosen candidate has the best score with ties to the lowest index, and a checked
  perturbation tree regenerates each centre from its chain of seeds.
\<close>

section \<open>The neighbour buffer\<close>

definition near_le :: "neighbor \<Rightarrow> neighbor \<Rightarrow> bool" where
  "near_le x y \<longleftrightarrow> fkey (fst x) < fkey (fst y) \<or> (fkey (fst x) = fkey (fst y) \<and> snd x \<le> snd y)"

lemma near_le_preorder: "near_le x y \<or> near_le y x" "near_le x y \<Longrightarrow> near_le y z \<Longrightarrow> near_le x z"
  by (auto simp: near_le_def)

lemma closer_near_le: "\<not> is_nan d \<Longrightarrow> \<not> is_nan (fst x) \<Longrightarrow> closer d i x \<longleftrightarrow> \<not> near_le x (d, i)"
  by (auto simp: closer_def near_le_def fcmp_defs)

lemma sorted_butlast_last:
  "sorted_wrt P (x # xs) \<Longrightarrow> \<forall>y\<in>set (butlast (x # xs)). P y (last (x # xs))"
proof -
  assume "sorted_wrt P (x # xs)"
  moreover have "x # xs = butlast (x # xs) @ [last (x # xs)]" by (rule append_butlast_last_id [symmetric]) simp
  ultimately have "sorted_wrt P (butlast (x # xs) @ [last (x # xs)])" by metis
  then show ?thesis by (simp only: sorted_wrt_append) simp
qed

lemma insert_neighbor_step:
  assumes "sorted_wrt near_le xs" "\<forall>x\<in>set xs. \<not> is_nan (fst x)" "\<not> is_nan d"
  shows "\<exists>z. add_mset z (mset (insert_neighbor xs d i)) = add_mset (d, i) (mset xs) \<and>
     sorted_wrt near_le (insert_neighbor xs d i) \<and> (\<forall>y\<in>set (insert_neighbor xs d i). near_le y z)"
  using assms
proof (induction xs)
  case Nil
  then show ?case by simp
next
  case (Cons x xs)
  have x: "\<forall>y\<in>set xs. near_le x y" "sorted_wrt near_le xs" "\<not> is_nan (fst x)"
    using Cons.prems by simp_all
  show ?case
  proof (cases "closer d i x")
    case True
    then have dx: "near_le (d, i) x"
      using closer_near_le [OF Cons.prems(3) x(3)] near_le_preorder(1) by blast
    have below: "near_le (d, i) y" if "y \<in> set (x # xs)" for y
    proof (cases "y = x")
      case False
      then have "near_le x y" using that x(1) by simp
      then show ?thesis by (rule near_le_preorder(2) [OF dx])
    qed (simp add: dx)
    have sorted: "sorted_wrt near_le (butlast (x # xs))"
      using Cons.prems(1) by (simp only: butlast_conv_take sorted_wrt_take)
    have "mset (butlast (x # xs)) + {#last (x # xs)#} = mset (x # xs)"
      by (metis append_butlast_last_id list.distinct(1) mset.simps(1) mset.simps(2) mset_append)
    then have "add_mset (last (x # xs)) (mset (insert_neighbor (x # xs) d i)) = add_mset (d, i) (mset (x # xs))"
      using True by (simp add: add_mset_commute)
    moreover have "sorted_wrt near_le (insert_neighbor (x # xs) d i)"
      using True sorted below in_set_butlastD [of _ "x # xs"] by (simp del: butlast.simps)
    moreover have "\<forall>y\<in>set (insert_neighbor (x # xs) d i). near_le y (last (x # xs))"
      using True sorted_butlast_last [OF Cons.prems(1)] below [OF last_in_set] by (simp del: butlast.simps last.simps)
    ultimately show ?thesis by blast
  next
    case False
    then have xd: "near_le x (d, i)"
      using closer_near_le [OF Cons.prems(3) x(3)] by simp
    obtain z where z: "add_mset z (mset (insert_neighbor xs d i)) = add_mset (d, i) (mset xs)"
      "sorted_wrt near_le (insert_neighbor xs d i)" "\<forall>y\<in>set (insert_neighbor xs d i). near_le y z"
      using Cons.IH x(2) Cons.prems(2,3) by auto
    have members: "insert z (set (insert_neighbor xs d i)) = insert (d, i) (set xs)"
      using arg_cong [OF z(1), of set_mset] by simp
    have low: "near_le x y" if "y \<in> insert z (set (insert_neighbor xs d i))" for y
      using that x(1) xd unfolding members by auto
    have "add_mset z (mset (insert_neighbor (x # xs) d i)) = add_mset (d, i) (mset (x # xs))"
      using False z(1) by (simp add: add_mset_commute)
    then show ?thesis using False z(2,3) low by (intro exI [of _ z]) simp
  qed
qed

definition keeps_nearest :: "neighbor list \<Rightarrow> neighbor multiset \<Rightarrow> bool" where
  "keeps_nearest nearest pool \<longleftrightarrow> sorted_wrt near_le nearest \<and>
     (\<exists>rest. mset nearest + rest = pool \<and> (\<forall>x\<in>set nearest. \<forall>y\<in>#rest. near_le x y))"

lemma keeps_nearest_insert:
  assumes "keeps_nearest xs pool" "\<forall>x\<in>#pool. \<not> is_nan (fst x)" "\<not> is_nan d"
  shows "keeps_nearest (insert_neighbor xs d i) (add_mset (d, i) pool)"
proof -
  obtain rest where rest: "sorted_wrt near_le xs" "mset xs + rest = pool"
    "\<forall>x\<in>set xs. \<forall>y\<in>#rest. near_le x y"
    using assms(1) by (auto simp: keeps_nearest_def)
  have "\<forall>x\<in>set xs. \<not> is_nan (fst x)" using assms(2) rest(2) by auto
  from insert_neighbor_step [OF rest(1) this assms(3), of i]
  obtain z where z: "add_mset z (mset (insert_neighbor xs d i)) = add_mset (d, i) (mset xs)"
    "sorted_wrt near_le (insert_neighbor xs d i)" "\<forall>y\<in>set (insert_neighbor xs d i). near_le y z"
    by auto
  have members: "insert z (set (insert_neighbor xs d i)) = insert (d, i) (set xs)"
    using arg_cong [OF z(1), of set_mset] by simp
  have "near_le x y" if x: "x \<in> set (insert_neighbor xs d i)" and y: "y \<in># rest" for x y
  proof (cases "x \<in> set xs")
    case True
    then show ?thesis using rest(3) y by simp
  next
    case False
    then have "x = (d, i)" using x members by auto
    have "z \<in> set xs \<or> z = (d, i)" using members by auto
    moreover have "z \<noteq> (d, i) \<or> (d, i) \<in> set xs"
    proof (rule ccontr)
      assume "\<not> (z \<noteq> (d, i) \<or> (d, i) \<in> set xs)"
      then have "mset (insert_neighbor xs d i) = mset xs" "(d, i) \<notin> set xs" using z(1) by auto
      then show False using x \<open>x = (d, i)\<close> by (metis set_mset_mset)
    qed
    ultimately have "z \<in> set xs" by auto
    then have "near_le z y" using rest(3) y by simp
    then show ?thesis using z(3) x near_le_preorder(2) by blast
  qed
  moreover have "mset (insert_neighbor xs d i) + add_mset z rest = add_mset (d, i) pool"
    using z(1) rest(2) by (simp flip: union_mset_add_mset_left)
  ultimately show ?thesis
    using z(2,3) unfolding keeps_nearest_def by (intro conjI exI [of _ "add_mset z rest"]) auto
qed

lemma keeps_nearest_fold:
  "keeps_nearest xs pool \<Longrightarrow> \<forall>x\<in>#pool. \<not> is_nan (fst x) \<Longrightarrow> \<forall>(d, i)\<in>set ds. \<not> is_nan d \<Longrightarrow>
   keeps_nearest (fold (\<lambda>(d, i) nearest. insert_neighbor nearest d i) ds xs) (pool + mset ds)"
proof (induction ds arbitrary: xs pool)
  case Nil
  then show ?case by simp
next
  case (Cons e ds)
  obtain d i where e: "e = (d, i)" by (cases e)
  have "keeps_nearest (insert_neighbor xs d i) (add_mset (d, i) pool)"
    using Cons.prems by (intro keeps_nearest_insert) (auto simp: e)
  from Cons.IH [OF this] Cons.prems show ?case by (simp add: e)
qed

lemma length_insert_neighbor [simp]: "length (insert_neighbor xs d i) = length xs"
  by (induction xs) simp_all

lemma length_fold_insert:
  "length (fold (\<lambda>(d, i) nearest. insert_neighbor nearest d i) ds xs) = length xs"
  by (induction ds arbitrary: xs) auto

text \<open>C15: the scorer uses the \<open>k\<close> nearest observations. When no distance is NaN, the buffer
  built for a candidate is sorted by distance, then observation index, and splits the
  multiset of all observations and \<open>k\<close> infinite placeholders into the kept entries and
  others none of which is nearer than a kept one.\<close>

theorem nearest_rows_are_nearest:
  assumes "\<forall>(slot, value)\<in>set history. \<not> is_nan (trial_distance base (row_of slot) leaves steps seed)"
  shows "keeps_nearest (nearest_rows row_of history base leaves steps k seed)
     (replicate_mset k (infinity, 0) +
      mset (map (\<lambda>(i, (slot, _)). (trial_distance base (row_of slot) leaves steps seed, i)) (enumerate 0 history)))
   \<and> length (nearest_rows row_of history base leaves steps k seed) = k"
proof
  let ?ds = "map (\<lambda>(i, (slot, _)). (trial_distance base (row_of slot) leaves steps seed, i)) (enumerate 0 history)"
  have eq: "nearest_rows row_of history base leaves steps k seed
      = fold (\<lambda>(d, i) nearest. insert_neighbor nearest d i) ?ds (replicate k (infinity, 0))"
    by (simp add: nearest_rows_def fold_map comp_def case_prod_unfold)
  have inf: "\<not> is_nan (infinity :: f32)" by (simp add: float_eval)
  have pad: "keeps_nearest (replicate k (infinity, 0)) (replicate_mset k (infinity, 0))"
    by (simp add: keeps_nearest_def near_le_def sorted_wrt_iff_nth_less)
  show "keeps_nearest (nearest_rows row_of history base leaves steps k seed) (replicate_mset k (infinity, 0) + mset ?ds)"
  proof -
    have "\<not> is_nan d" if "(d, i) \<in> set ?ds" for d i
    proof -
      from that obtain slot v where h: "i < length history" "history ! i = (slot, v)"
        "d = trial_distance base (row_of slot) leaves steps seed"
        by (auto simp: in_set_enumerate_eq)
      then have "(slot, v) \<in> set history" by (metis nth_mem)
      with assms h(3) show ?thesis by auto
    qed
    then have "\<forall>(d, i)\<in>set ?ds. \<not> is_nan d" by blast
    from keeps_nearest_fold [OF pad _ this] show ?thesis unfolding eq by (simp add: inf)
  qed
  show "length (nearest_rows row_of history base leaves steps k seed) = k"
    unfolding eq length_fold_insert by simp
qed

theorem nearest_rows_are_nearest_witness:
  "keeps_nearest (nearest_rows (\<lambda>_. test_base) [(0, fzero), (1, fzero)] test_base [] [] 1 7)
     (replicate_mset 1 (infinity, 0) +
      mset (map (\<lambda>(i, (slot, _ :: f32)). (trial_distance test_base test_base [] [] 7, i)) (enumerate 0 [(0 :: nat, fzero), (1, fzero)])))
   \<and> length (nearest_rows (\<lambda>_. test_base) [(0, fzero), (1, fzero)] test_base [] [] 1 7) = 1"
  by (rule nearest_rows_are_nearest) (simp add: trial_distance_def float_eval)

section \<open>The best candidate\<close>

lemma fst_better: "fst (better index s best) = index \<or> fst (better index s best) = fst best"
  by (simp add: better_def)

lemma best_candidate_index:
  assumes "0 < n"
  shows "fst (best_candidate sc n) < n"
proof -
  define F where "F m = fold (\<lambda>index. better index (sc index)) [0..<m] (0, neg_infinity)" for m
  have "fst (F m) < m \<or> fst (F m) = 0" for m
  proof (induction m)
    case 0
    then show ?case by (simp add: F_def)
  next
    case (Suc m)
    have "F (Suc m) = better m (sc m) (F m)" by (simp add: F_def)
    then show ?case using Suc fst_better [of m "sc m" "F m"] by auto
  qed
  from this [of n] show ?thesis using assms by (auto simp: best_candidate_def F_def)
qed

lemma best_candidate_not_nan: "\<not> is_nan (snd (best_candidate sc n))"
proof -
  have "\<not> is_nan (snd (fold (\<lambda>index. better index (sc index)) xs best))" if "\<not> is_nan (snd best)" for xs best
    using that
  proof (induction xs arbitrary: best)
    case Nil
    then show ?case by simp
  next
    case (Cons x xs)
    have "\<not> is_nan (snd (better x (sc x) best))"
      using Cons.prems by (auto simp: better_def fcmp_defs)
    then show ?case using Cons.IH [of "better x (sc x) best"] by simp
  qed
  from this [of "(0, neg_infinity)"] show ?thesis
    unfolding best_candidate_def by (simp add: float_eval)
qed

text \<open>The candidate scan returns the best score. The chosen index is in range; its score
  is at least every score that is not NaN, no earlier candidate ties with it, and it is the
  initial \<open>(0, -inf)\<close> only when no score exceeds negative infinity.\<close>

theorem best_candidate_is_best:
  assumes "0 < n"
  shows "let (i, s) = best_candidate sc n in i < n \<and> (s = sc i \<or> (i = 0 \<and> s = neg_infinity)) \<and>
     (\<forall>j<n. \<not> is_nan (sc j) \<longrightarrow> fle (sc j) s \<and> (feq (sc j) s \<longrightarrow> i \<le> j))"
proof -
  have low: "\<not> is_nan (neg_infinity :: f32)" "fkey (neg_infinity :: f32) = - int (inf_mag 32)"
    by (simp_all add: float_eval)
  have bound: "- int (inf_mag 32) \<le> fkey (x :: f32)" if "\<not> is_nan x" for x
    using that by (auto simp: is_nan_def fkey_def)
  define F where "F m = fold (\<lambda>index. better index (sc index)) [0..<m] (0, neg_infinity)" for m
  have F: "F 0 = (0, neg_infinity)" "\<And>m. F (Suc m) = better m (sc m) (F m)"
    by (simp_all add: F_def)
  have "\<exists>i s. F m = (i, s) \<and> \<not> is_nan s \<and>
     (i < m \<or> i = 0) \<and> (s = sc i \<or> (i = 0 \<and> s = neg_infinity)) \<and>
     (\<forall>j<m. \<not> is_nan (sc j) \<longrightarrow> fkey (sc j) \<le> fkey s \<and> (fkey (sc j) = fkey s \<longrightarrow> i \<le> j))" for m
  proof (induction m)
    case 0
    then show ?case using low by (simp add: F)
  next
    case (Suc m)
    then obtain i s where f: "F m = (i, s)"
      "\<not> is_nan s" "i < m \<or> i = 0" "s = sc i \<or> (i = 0 \<and> s = neg_infinity)"
      "\<forall>j<m. \<not> is_nan (sc j) \<longrightarrow> fkey (sc j) \<le> fkey s \<and> (fkey (sc j) = fkey s \<longrightarrow> i \<le> j)"
      by blast
    have step: "F (Suc m) = better m (sc m) (i, s)" using f(1) by (simp add: F)
    show ?case
    proof (cases "flt s (sc m)")
      case True
      then have "\<forall>j<m. \<not> is_nan (sc j) \<longrightarrow> fkey (sc j) < fkey (sc m)"
        using f(5) by (auto simp: flt_def)
      with True show ?thesis
        by (intro exI [of _ m] exI [of _ "sc m"]) (auto simp: step better_def flt_def less_Suc_eq)
    next
      case False
      have "\<not> (feq (sc m) s \<and> m < i)" using f(3) by auto
      with False f show ?thesis
        by (intro exI [of _ i] exI [of _ s]) (auto simp: step better_def flt_def less_Suc_eq not_less)
    qed
  qed
  from this [of n] show ?thesis
    using assms by (auto simp: best_candidate_def fle_def feq_def simp flip: F_def)
qed

theorem best_candidate_is_best_witness:
  "let (i, s) = best_candidate (\<lambda>i. if i = 1 then infinity else fzero) 3 in
     i < 3 \<and> (s = (if i = 1 then infinity else fzero) \<or> (i = 0 \<and> s = neg_infinity)) \<and>
     (\<forall>j<3. \<not> is_nan (if j = 1 then infinity else fzero :: f32) \<longrightarrow>
        fle (if j = 1 then infinity else fzero) s \<and> (feq (if j = 1 then infinity else fzero) s \<longrightarrow> i \<le> j))"
  using best_candidate_is_best [of 3 "\<lambda>i. if i = 1 then infinity else fzero"] by simp

section \<open>Perturbation trees\<close>

text \<open>The seeds from the root to a centre, following parents at most \<open>fuel\<close> times.\<close>

fun chain_seeds :: "Center list \<Rightarrow> nat \<Rightarrow> nat option \<Rightarrow> u64 list" where
  "chain_seeds centers fuel None = []"
| "chain_seeds centers 0 (Some i) = []"
| "chain_seeds centers (Suc fuel) (Some i) =
     chain_seeds centers fuel (center_parent (centers ! i)) @ [center_seed (centers ! i)]"

lemma length_chain_seeds: "length (chain_seeds centers fuel p) \<le> fuel"
  by (induction centers fuel p rule: chain_seeds.induct) auto

lemma length_fold_grow [simp]: "length (fold (grow_center root leaves steps) cs rows) = length rows + length cs"
  by (induction cs arbitrary: rows) (simp_all add: grow_center_def)

lemma fold_grow_old: "i < length rows \<Longrightarrow> fold (grow_center root leaves steps) cs rows ! i = rows ! i"
  by (induction cs arbitrary: rows) (simp_all add: grow_center_def nth_append)

lemma center_rows_nth:
  assumes "i < length centers" "\<And>p. center_parent (centers ! i) = Some p \<Longrightarrow> p < i"
  shows "center_rows root leaves steps centers ! i =
     materialize (case center_parent (centers ! i) of None \<Rightarrow> root
                  | Some p \<Rightarrow> center_rows root leaves steps centers ! p) leaves steps (center_seed (centers ! i))"
proof -
  let ?rows = "fold (grow_center root leaves steps) (take i centers) []"
  have split: "centers = take i centers @ centers ! i # drop (Suc i) centers"
    using assms(1) by (rule id_take_nth_drop)
  have all: "center_rows root leaves steps centers
      = fold (grow_center root leaves steps) (drop (Suc i) centers) (grow_center root leaves steps (centers ! i) ?rows)"
    unfolding center_rows_def by (subst (1) split) simp
  have len: "length ?rows = i" using assms(1) by simp
  have old: "center_rows root leaves steps centers ! p = ?rows ! p" if "p < i" for p
    unfolding all using that len by (simp add: fold_grow_old grow_center_def nth_append)
  have "center_rows root leaves steps centers ! i = grow_center root leaves steps (centers ! i) ?rows ! i"
    unfolding all using len by (simp add: fold_grow_old grow_center_def)
  then show ?thesis
    using len old assms(2) by (auto simp: grow_center_def nth_append split: option.splits)
qed

lemma chain_rows:
  assumes par: "\<And>i p. i < length centers \<Longrightarrow> center_parent (centers ! i) = Some p \<Longrightarrow> p < i"
    and "chain_fits centers fuel p" "\<forall>i. p = Some i \<longrightarrow> i < length centers"
  shows "(case p of None \<Rightarrow> root | Some i \<Rightarrow> center_rows root leaves steps centers ! i) =
     fold (\<lambda>seed row. materialize row leaves steps seed) (chain_seeds centers fuel p) root"
  using assms(2,3)
proof (induction fuel arbitrary: p)
  case 0
  then show ?case by (cases p) simp_all
next
  case (Suc fuel)
  show ?case
  proof (cases p)
    case (Some i)
    have i: "i < length centers" using Suc.prems(2) Some by simp
    have up: "(case center_parent (centers ! i) of None \<Rightarrow> root | Some i \<Rightarrow> center_rows root leaves steps centers ! i) =
        fold (\<lambda>seed row. materialize row leaves steps seed) (chain_seeds centers fuel (center_parent (centers ! i))) root"
      using Suc.prems(1) Some par [OF i] i by (intro Suc.IH) (auto intro: less_trans)
    show ?thesis
      using center_rows_nth [OF i par [OF i]] up by (simp add: Some)
  qed simp
qed

lemma check_tree_Inr:
  assumes "check_tree centers region_centers num_regions = Inr ()"
  shows "length region_centers = num_regions" "\<And>c. c \<in> set region_centers \<Longrightarrow> c < length centers"
    "\<And>i p. i < length centers \<Longrightarrow> center_parent (centers ! i) = Some p \<Longrightarrow> p < i"
    "\<And>i. i < length centers \<Longrightarrow> chain_fits centers 7 (center_parent (centers ! i))"
proof -
  have all: "check_center centers (i, centers ! i) = Inr ()" if "i < length centers" for i
    using assms that by (auto simp: check_tree_def res_simps for_each_res_Inr_conv in_set_enumerate_eq)
  show "length region_centers = num_regions" "\<And>c. c \<in> set region_centers \<Longrightarrow> c < length centers"
    using assms by (auto simp: check_tree_def res_simps)
  show "p < i" if "i < length centers" "center_parent (centers ! i) = Some p" for i p
    using all [OF that(1)] that(2) by (simp add: check_center_def res_simps)
  show "chain_fits centers 7 (center_parent (centers ! i))" if "i < length centers" for i
    using all [OF that] by (simp add: check_center_def res_simps MAX_DEPTH_def)
qed

text \<open>A checked perturbation tree is regenerated faithfully: the row of every centre is
  the root row perturbed by the seeds of the centre's chain in order, and the chain has at
  most \<open>MAX_DEPTH\<close> seeds.\<close>

theorem tree_rows_follow_chains:
  assumes "check_tree centers region_centers num_regions = Inr ()" "c \<in> set region_centers"
  shows "center_rows root leaves steps centers ! c =
      fold (\<lambda>seed row. materialize row leaves steps seed) (chain_seeds centers MAX_DEPTH (Some c)) root \<and>
    length (chain_seeds centers MAX_DEPTH (Some c)) \<le> MAX_DEPTH"
proof -
  note ok = check_tree_Inr [OF assms(1)]
  have c: "c < length centers" using ok(2) assms(2) by simp
  have "chain_fits centers (Suc 7) (Some c)" using ok(4) [OF c] by (simp only: chain_fits.simps)
  moreover have "MAX_DEPTH = Suc 7" by (simp add: MAX_DEPTH_def)
  ultimately show ?thesis
    using chain_rows [OF ok(3), where fuel = "Suc 7" and p = "Some c"] c length_chain_seeds [of centers MAX_DEPTH "Some c"]
    by (simp del: chain_seeds.simps)
qed

theorem tree_rows_follow_chains_witness:
  "center_rows test_base test_leaves [] [\<lparr>center_parent = None, center_seed = 1\<rparr>,
       \<lparr>center_parent = Some 0, center_seed = 2\<rparr>] ! 1 =
      fold (\<lambda>seed row. materialize row test_leaves [] seed)
        (chain_seeds [\<lparr>center_parent = None, center_seed = 1\<rparr>, \<lparr>center_parent = Some 0, center_seed = 2\<rparr>]
           MAX_DEPTH (Some 1)) test_base \<and>
    length (chain_seeds [\<lparr>center_parent = None, center_seed = 1\<rparr>, \<lparr>center_parent = Some 0, center_seed = 2\<rparr>]
       MAX_DEPTH (Some 1)) \<le> MAX_DEPTH"
proof (rule tree_rows_follow_chains)
  show "check_tree [\<lparr>center_parent = None, center_seed = 1\<rparr>, \<lparr>center_parent = Some 0, center_seed = 2\<rparr>] [1] 1 = Inr ()"
    by (simp add: check_tree_def check_center_def MAX_DEPTH_def eval_nat_numeral)
qed simp

end
