(* ===== verification/TrialSearch.thy ===== *)
theory TrialSearch
  imports TrialRank
begin

text \<open>
  The trial search (\<open>Search\<close> of \<open>rust/crates/ennx/src/trials.rs\<close>) on the CPU engine: a
  resident history of evaluated rows in numbered slots, a base row, and at most one pending
  trial. Every \<open>&mut self\<close> method is a function from the search to the pair of its result
  and the new search, so that what an early return leaves behind is visible.

  Engines that drive a GPU (\<open>trials/metal.rs\<close>, \<open>trials/opencl.rs\<close>) call foreign drivers and are
  not modelled: \<open>engine_new\<close> is the constructor of a build without them.
\<close>

section \<open>State\<close>

record Trial =
  trial_id :: u64
  trial_index :: nat
  trial_seed :: u64
  trial_score :: f32

record Record =
  rec_slot :: nat
  rec_value :: f32

record Pending =
  pend_id :: u64
  pend_slot :: nat
  pend_seed :: u64
  pend_length :: f32
  pend_materialized :: bool

record Search =
  leaves :: "leaf list"
  row_bytes :: nat
  capacity :: nat
  slots :: nat
  base :: nat
  history :: "Record list"
  pending :: "Pending option"
  next_id :: u64
  engine :: Cpu

datatype ComputeBackend = Auto | CpuBackend | Metal | Agx | OpenCl

definition MAX_HISTORY :: nat where
  "MAX_HISTORY = 128"

fun engine_new :: "u8 list \<Rightarrow> nat \<Rightarrow> ComputeBackend \<Rightarrow> trial_error + Cpu" where
  "engine_new row n CpuBackend = Inr (cpu_new row n)"
| "engine_new row n Auto = Inr (cpu_new row n)"
| "engine_new row n Metal = Inl BackendUnavailable"
| "engine_new row n Agx = Inl BackendUnavailable"
| "engine_new row n OpenCl = Inl BackendUnavailable"

definition search_new ::
    "u8 list \<Rightarrow> f32 \<Rightarrow> leaf list \<Rightarrow> nat \<Rightarrow> ComputeBackend \<Rightarrow> trial_error + Search" where
  "search_new row value lvs cap backend =
     rbind (ensure (is_finite value) BaseNotFinite) (\<lambda>_.
     rbind (ensure (cap \<noteq> 0 \<and> cap \<le> MAX_HISTORY) CapacityRange) (\<lambda>_.
     rbind (check_layout lvs) (\<lambda>bytes.
     rbind (ensure (length row = bytes) (BaseLength (length row) bytes)) (\<lambda>_.
     rbind (engine_new row (cap + 2) backend) (\<lambda>eng.
     Inr \<lparr>leaves = lvs, row_bytes = bytes, capacity = cap, slots = cap + 2, base = 0,
          history = [\<lparr>rec_slot = 0, rec_value = value\<rparr>], pending = None, next_id = 0,
          engine = eng\<rparr>)))))"

section \<open>Operations\<close>

definition free_slot :: "Search \<Rightarrow> nat option" where
  "free_slot s = find (\<lambda>slot. slot \<noteq> base s \<and> (\<forall>r\<in>set (history s). rec_slot r \<noteq> slot) \<and>
       map_option pend_slot (pending s) \<noteq> Some slot) [0..<slots s]"

definition history_pairs :: "Search \<Rightarrow> (nat \<times> f32) list" where
  "history_pairs s = map (\<lambda>r. (rec_slot r, rec_value r)) (history s)"

definition ask_with_materialization ::
    "(nat \<Rightarrow> u64 \<Rightarrow> f32 list) \<Rightarrow> Search \<Rightarrow> u64 list \<Rightarrow> Ask \<Rightarrow> bool \<Rightarrow> (trial_error + Trial) \<times> Search" where
  "ask_with_materialization draws s seeds config mat =
     (case rbind (ensure (pending s = None) PendingTrial) (\<lambda>_.
           rbind (check_ask seeds (length (history s)) config) (\<lambda>_.
           ok_or (free_slot s) NoFreeSlot)) of
        Inl e \<Rightarrow> (Inl e, s)
      | Inr slot \<Rightarrow>
          let ((index, score), eng) =
                cpu_ask draws (engine s) (base s) (history_pairs s) slot seeds (leaves s) config mat
          in (Inr \<lparr>trial_id = next_id s, trial_index = index, trial_seed = seeds ! index, trial_score = score\<rparr>,
              s\<lparr>engine := eng, next_id := next_id s + 1,
                pending := Some \<lparr>pend_id = next_id s, pend_slot = slot, pend_seed = seeds ! index,
                  pend_length = ask_length config, pend_materialized = mat\<rparr>\<rparr>))"

definition ask :: "(nat \<Rightarrow> u64 \<Rightarrow> f32 list) \<Rightarrow> Search \<Rightarrow> u64 list \<Rightarrow> Ask \<Rightarrow> (trial_error + Trial) \<times> Search" where
  "ask draws s seeds config = ask_with_materialization draws s seeds config True"

definition ask_lazy :: "(nat \<Rightarrow> u64 \<Rightarrow> f32 list) \<Rightarrow> Search \<Rightarrow> u64 list \<Rightarrow> Ask \<Rightarrow> (trial_error + Trial) \<times> Search" where
  "ask_lazy draws s seeds config = ask_with_materialization draws s seeds config False"

fun ask_regions ::
    "(nat \<Rightarrow> u64 \<Rightarrow> f32 list) \<Rightarrow> Search \<Rightarrow> nat list \<Rightarrow> nat \<Rightarrow> u64 list \<Rightarrow> Ask \<Rightarrow> (nat \<times> f32) list \<times> Search" where
  "ask_regions draws s [] per seeds config = ([], s)"
| "ask_regions draws s (r # rs) per seeds config =
     (let ((index, score), eng) = cpu_ask draws (engine s) (base s) (history_pairs s) 0
            (take per (drop (r * per) seeds)) (leaves s) config True;
          (results, s') = ask_regions draws (s\<lparr>engine := eng\<rparr>) rs per seeds config
      in ((r * per + index, score) # results, s'))"

definition ask_multi_tr ::
    "(nat \<Rightarrow> u64 \<Rightarrow> f32 list) \<Rightarrow> Search \<Rightarrow> nat \<Rightarrow> nat \<Rightarrow> u64 list \<Rightarrow> Ask
     \<Rightarrow> (trial_error + (nat \<times> f32) list) \<times> Search" where
  "ask_multi_tr draws s num_regions per seeds config =
     (case rbind (ensure (pending s = None) PendingTrial) (\<lambda>_.
           rbind (ensure (num_regions \<noteq> 0 \<and> per \<noteq> 0) ZeroRegions) (\<lambda>_.
           rbind (ok_or (checked_mul num_regions per) CandidateOverflow) (\<lambda>expected.
           rbind (ensure (length seeds = expected) (SeedCount expected (length seeds))) (\<lambda>_.
           check_ask seeds (length (history s)) config)))) of
        Inl e \<Rightarrow> (Inl e, s)
      | Inr _ \<Rightarrow>
          let (results, s') = ask_regions draws s [0..<num_regions] per seeds config
          in (Inr results, s'))"

definition ask_multi_tr_tree ::
    "(nat \<Rightarrow> u64 \<Rightarrow> f32 list) \<Rightarrow> Search \<Rightarrow> nat \<Rightarrow> nat \<Rightarrow> Center list \<Rightarrow> nat list \<Rightarrow> u64 list \<Rightarrow> Ask
     \<Rightarrow> trial_error + (nat \<times> f32) list" where
  "ask_multi_tr_tree draws s num_regions per centers region_centers seeds config =
     rbind (check_tree centers region_centers num_regions) (\<lambda>_.
     rbind (ensure (pending s = None) PendingTrial) (\<lambda>_.
     rbind (ok_or (checked_mul num_regions per) CandidateOverflow) (\<lambda>expected.
     rbind (ensure (per \<noteq> 0 \<and> length seeds = expected) (SeedCount expected (length seeds))) (\<lambda>_.
     rbind (check_ask seeds (length (history s)) config) (\<lambda>_.
     Inr (cpu_ask_tree draws (engine s) (base s) (history_pairs s) per centers region_centers seeds
            (leaves s) config))))))"

definition pending_for :: "Search \<Rightarrow> Trial \<Rightarrow> trial_error + Pending" where
  "pending_for s trial =
     (case pending s of
        Some p \<Rightarrow> if pend_id p = trial_id trial then Inr p else Inl TrialMismatch
      | None \<Rightarrow> Inl NoPendingTrial)"

definition search_row :: "Search \<Rightarrow> Trial \<Rightarrow> trial_error + u8 list" where
  "search_row s trial =
     rbind (pending_for s trial) (\<lambda>p.
     rbind (ensure (pend_materialized p) NotMaterialized) (\<lambda>_.
     Inr (cpu_read (engine s) (pend_slot p))))"

definition materialize_pending :: "Search \<Rightarrow> Trial \<Rightarrow> (trial_error + unit) \<times> Search" where
  "materialize_pending s trial =
     (case pending_for s trial of
        Inl e \<Rightarrow> (Inl e, s)
      | Inr p \<Rightarrow>
          if pend_materialized p then (Inr (), s)
          else (Inr (), s\<lparr>engine := cpu_materialize (engine s) (base s) (pend_slot p) (pend_seed p)
                              (leaves s) (pend_length p),
                         pending := Some (p\<lparr>pend_materialized := True\<rparr>)\<rparr>))"

definition push_history :: "nat \<Rightarrow> Record list \<Rightarrow> Record \<Rightarrow> Record list" where
  "push_history cap hist r = (if length hist = cap then drop 1 hist else hist) @ [r]"

definition tell :: "Search \<Rightarrow> Trial \<Rightarrow> f32 \<Rightarrow> bool \<Rightarrow> (trial_error + unit) \<times> Search" where
  "tell s trial value accept =
     (if \<not> is_finite value then (Inl ValueNotFinite, s)
      else case materialize_pending s trial of
        (Inl e, s') \<Rightarrow> (Inl e, s')
      | (Inr _, s') \<Rightarrow>
          (case pending_for s' trial of
             Inl e \<Rightarrow> (Inl e, s')
           | Inr p \<Rightarrow>
               (Inr (), s'\<lparr>history := push_history (capacity s') (history s')
                             \<lparr>rec_slot = pend_slot p, rec_value = value\<rparr>,
                           base := (if accept then pend_slot p else base s'),
                           pending := None\<rparr>)))"

definition replacement_slots :: "Search \<Rightarrow> nat \<Rightarrow> nat list" where
  "replacement_slots s n = take n (filter (\<lambda>slot. slot \<noteq> base s) [0..<slots s])"

fun write_rows :: "Cpu \<Rightarrow> nat \<Rightarrow> u8 list \<Rightarrow> (nat \<times> nat) list \<Rightarrow> Cpu" where
  "write_rows e bytes rows [] = e"
| "write_rows e bytes rows ((row_index, slot) # rest) =
     write_rows (cpu_write e slot (take bytes (drop (row_index * bytes) rows))) bytes rows rest"

definition replace_history :: "Search \<Rightarrow> u8 list \<Rightarrow> f32 list \<Rightarrow> (trial_error + unit) \<times> Search" where
  "replace_history s rows values =
     (case rbind (ensure (pending s = None) PendingTrial) (\<lambda>_.
           rbind (ensure (values \<noteq> []) EmptyHistory) (\<lambda>_.
           rbind (ensure (length values \<le> capacity s) (HistoryTooLong (length values))) (\<lambda>_.
           rbind (ok_or (checked_mul (length values) (row_bytes s)) CandidateOverflow) (\<lambda>expected.
           rbind (ensure (length rows = expected) (HistoryBytes (length rows) expected)) (\<lambda>_.
           rbind (ensure (length (replacement_slots s (length values)) = length values) NoFreeSlot) (\<lambda>_.
           Inr (replacement_slots s (length values)))))))) of
        Inl e \<Rightarrow> (Inl e, s)
      | Inr ss \<Rightarrow>
          (Inr (), s\<lparr>engine := write_rows (engine s) (row_bytes s) rows (enumerate 0 ss),
                    history := map (\<lambda>(slot, value). \<lparr>rec_slot = slot, rec_value = value\<rparr>) (zip ss values)\<rparr>))"

text \<open>An indexed observation is its id and value; \<open>resolve\<close> is the caller's closure, with its
  captured state threaded through.\<close>

type_synonym IndexedObservation = "u64 \<times> f32"
type_synonym 'r resolver = "u64 \<Rightarrow> 'r \<Rightarrow> (string + u8 list) \<times> 'r"

fun load_observations ::
    "'r resolver \<Rightarrow> 'r \<Rightarrow> Search \<Rightarrow> (nat \<times> IndexedObservation) list \<Rightarrow> (trial_error + unit) \<times> Search" where
  "load_observations resolve r s [] = (Inr (), s)"
| "load_observations resolve r s ((slot, (oid, value)) # rest) =
     (case resolve oid r of
        (Inl msg, r') \<Rightarrow> (Inl (ResolveFailed msg), s)
      | (Inr bytes, r') \<Rightarrow>
          if length bytes \<noteq> row_bytes s then (Inl (ResolvedLength oid (length bytes)), s)
          else load_observations resolve r'
                 (s\<lparr>engine := cpu_write (engine s) slot bytes,
                    history := history s @ [\<lparr>rec_slot = slot, rec_value = value\<rparr>]\<rparr>) rest)"

definition replace_indexed_history ::
    "'r resolver \<Rightarrow> 'r \<Rightarrow> Search \<Rightarrow> IndexedObservation list \<Rightarrow> (trial_error + unit) \<times> Search" where
  "replace_indexed_history resolve r s observations =
     (case rbind (ensure (pending s = None) PendingTrial) (\<lambda>_.
           rbind (ensure (observations \<noteq> []) EmptyHistory) (\<lambda>_.
           rbind (ensure (length observations \<le> capacity s) (HistoryTooLong (length observations))) (\<lambda>_.
           rbind (ensure (length (replacement_slots s (length observations)) = length observations) NoFreeSlot) (\<lambda>_.
           Inr (replacement_slots s (length observations)))))) of
        Inl e \<Rightarrow> (Inl e, s)
      | Inr ss \<Rightarrow> load_observations resolve r (s\<lparr>history := []\<rparr>) (zip ss observations))"

end
