(* ===== verification/TrialReach.thy ===== *)
theory TrialReach
  imports TrialSearch
begin

text \<open>
  The states a trial search can reach: the step relation of its public methods, the
  invariant they keep (slot numbers, history window, row store shape), and the properties
  that rest on it.
\<close>

definition search_inv :: "Search \<Rightarrow> bool" where
  "search_inv s \<longleftrightarrow>
     check_layout (leaves s) = Inr (row_bytes s) \<and> (\<forall>lf\<in>set (leaves s). leaf_ok lf) \<and>
     0 < capacity s \<and> capacity s \<le> MAX_HISTORY \<and> slots s = capacity s + 2 \<and> base s < slots s \<and>
     length (history s) \<le> capacity s \<and> distinct (map rec_slot (history s)) \<and>
     (\<forall>r\<in>set (history s). rec_slot r < slots s) \<and>
     cpu_ok (engine s) \<and> cpu_slots (engine s) = slots s \<and> cpu_row_bytes (engine s) = row_bytes s \<and>
     (\<forall>p. pending s = Some p \<longrightarrow> pend_slot p < slots s \<and> pend_slot p \<noteq> base s \<and>
        pend_slot p \<notin> rec_slot ` set (history s))"

inductive search_step :: "(nat \<Rightarrow> u64 \<Rightarrow> f32 list) \<Rightarrow> Search \<Rightarrow> Search \<Rightarrow> bool" for draws where
  step_ask: "ask_with_materialization draws s seeds config mat = (res, s') \<Longrightarrow> search_step draws s s'"
| step_multi: "ask_multi_tr draws s n per seeds config = (res, s') \<Longrightarrow> search_step draws s s'"
| step_materialize: "materialize_pending s trial = (res, s') \<Longrightarrow> search_step draws s s'"
| step_tell: "tell s trial value accept = (res, s') \<Longrightarrow> search_step draws s s'"
| step_replace: "replace_history s rows values = (res, s') \<Longrightarrow> search_step draws s s'"
| step_replace_indexed: "replace_indexed_history resolve (r :: nat) s obs = (res, s') \<Longrightarrow> search_step draws s s'"

inductive search_reachable :: "(nat \<Rightarrow> u64 \<Rightarrow> f32 list) \<Rightarrow> Search \<Rightarrow> bool" for draws where
  reach_new: "search_new row value lvs cap backend = Inr s \<Longrightarrow> \<forall>lf\<in>set lvs. leaf_ok lf \<Longrightarrow> search_reachable draws s"
| reach_step: "search_reachable draws s \<Longrightarrow> search_step draws s s' \<Longrightarrow> search_reachable draws s'"

section \<open>Shape of the engine\<close>

definition engine_fits :: "Search \<Rightarrow> Cpu \<Rightarrow> bool" where
  "engine_fits s e \<longleftrightarrow> cpu_ok e \<and> cpu_slots e = slots s \<and> cpu_row_bytes e = row_bytes s"

lemma engine_fits_write:
  "engine_fits s e \<Longrightarrow> slot < slots s \<Longrightarrow> length bytes = row_bytes s \<Longrightarrow> engine_fits s (cpu_write e slot bytes)"
  using cs.wr_ok [of e slot bytes] by (simp add: engine_fits_def)

lemma length_materialize:
  assumes "check_layout lvs = Inr (length row)" "\<forall>lf\<in>set lvs. leaf_ok lf"
  shows "length (materialize row lvs (make_steps lvs len) seed) = length row"
  using materialize_from [OF assms(2), of 0 "replicate (length row) 0" row seed len] check_layout_Inr [OF assms(1)]
  by (simp add: materialize_def make_steps_def)

lemma inv_engine: "search_inv s \<Longrightarrow> engine_fits s (engine s)"
  by (simp add: search_inv_def engine_fits_def)

lemma inv_set_engine: "search_inv s \<Longrightarrow> engine_fits s e \<Longrightarrow> search_inv (s\<lparr>engine := e\<rparr>)"
  by (auto simp: search_inv_def engine_fits_def)

lemma length_read: "engine_fits s e \<Longrightarrow> slot < slots s \<Longrightarrow> length (cpu_read e slot) = row_bytes s"
  using cs.rd_length [of e slot] by (simp add: engine_fits_def)

lemma length_materialize_read:
  assumes "search_inv s" "engine_fits s e" "slot < slots s"
  shows "length (materialize (cpu_read e slot) (leaves s) (make_steps (leaves s) len) seed) = row_bytes s"
  using assms length_materialize [of "leaves s" "cpu_read e slot" len seed] length_read [OF assms(2,3)]
  by (simp add: search_inv_def)

lemma inv_base: "search_inv s \<Longrightarrow> base s < slots s"
  by (simp add: search_inv_def)

lemma read_materialize:
  assumes "search_inv s" "slot < slots s" "k < slots s"
  shows "cpu_read (cpu_materialize (engine s) (base s) slot seed (leaves s) len) k =
    (if k = slot then materialize (cpu_read (engine s) (base s)) (leaves s) (make_steps (leaves s) len) seed
     else cpu_read (engine s) k)"
  unfolding cpu_materialize_def
  using assms(2,3) inv_engine [OF assms(1)] length_materialize_read [OF assms(1) inv_engine [OF assms(1)] inv_base [OF assms(1)]]
  by (intro cs.rd_wr) (simp_all add: engine_fits_def)

lemma cpu_ask_fits:
  assumes "search_inv s" "engine_fits s e" "slot < slots s"
  shows "engine_fits s (snd (cpu_ask draws e (base s) hist slot seeds (leaves s) config mat))"
proof -
  have "base s < slots s" using assms(1) by (simp add: search_inv_def)
  then show ?thesis
    using assms length_materialize_read [OF assms(1,2)]
    by (auto simp: cpu_ask_def Let_def intro!: engine_fits_write)
qed

section \<open>A free slot always exists\<close>

lemma free_slot_Some:
  "free_slot s = Some slot \<Longrightarrow> slot < slots s \<and> slot \<noteq> base s \<and> slot \<notin> rec_slot ` set (history s) \<and>
     (\<forall>p. pending s = Some p \<longrightarrow> pend_slot p \<noteq> slot)"
  by (auto simp: free_slot_def find_Some_iff)

lemma free_slot_exists:
  assumes "search_inv s" "pending s = None"
  shows "free_slot s \<noteq> None"
proof
  assume "free_slot s = None"
  then have "{..<slots s} \<subseteq> insert (base s) (rec_slot ` set (history s))"
    using assms(2) by (auto simp: free_slot_def find_None_iff)
  then have "slots s \<le> card (insert (base s) (rec_slot ` set (history s)))"
    using card_mono [of "insert (base s) (rec_slot ` set (history s))" "{..<slots s}"] by simp
  also have "\<dots> \<le> Suc (card (rec_slot ` set (history s)))" by (rule card_insert_le_m1) simp_all
  also have "\<dots> \<le> Suc (length (history s))"
    using card_length [of "map rec_slot (history s)"] by simp
  finally show False using assms(1) by (simp add: search_inv_def)
qed

section \<open>Every method keeps the invariant\<close>

lemma search_new_inv:
  assumes "search_new row value lvs cap backend = Inr s" "\<forall>lf\<in>set lvs. leaf_ok lf"
  shows "search_inv s"
proof -
  obtain bytes eng where new: "check_layout lvs = Inr bytes" "length row = bytes" "0 < cap" "cap \<le> MAX_HISTORY"
    "engine_new row (cap + 2) backend = Inr eng"
    and s: "s = \<lparr>leaves = lvs, row_bytes = bytes, capacity = cap, slots = cap + 2, base = 0,
          history = [\<lparr>rec_slot = 0, rec_value = value\<rparr>], pending = None, next_id = 0, engine = eng\<rparr>"
    using assms(1) by (auto simp: search_new_def res_simps)
  have "eng = cpu_new row (cap + 2)" using new(5) by (cases backend) simp_all
  moreover have "row \<noteq> []"
  proof -
    obtain lf rest where "lvs = lf # rest" using check_layout_Inr(1) [OF new(1)] by (cases lvs) auto
    then have "0 < total_bytes lvs" using assms(2) elem_byte_less [of lf 0] by (auto simp: leaf_ok_def)
    then show ?thesis using check_layout_Inr(2) [OF new(1)] new(2) by auto
  qed
  ultimately show ?thesis
    using new assms(2) cpu_new_ok [of row "cap + 2"] by (simp add: s search_inv_def)
qed

lemma ask_inv:
  assumes "search_inv s"
  shows "search_inv (snd (ask_with_materialization draws s seeds config mat))"
proof (cases "rbind (ensure (pending s = None) PendingTrial) (\<lambda>_.
           rbind (check_ask seeds (length (history s)) config) (\<lambda>_. ok_or (free_slot s) NoFreeSlot))")
  case (Inl e)
  then show ?thesis using assms by (simp add: ask_with_materialization_def)
next
  case (Inr slot)
  then have "free_slot s = Some slot" by (auto simp: res_simps)
  note free = free_slot_Some [OF this]
  have "engine_fits s (snd (cpu_ask draws (engine s) (base s) (history_pairs s) slot seeds (leaves s) config mat))"
    using free by (intro cpu_ask_fits assms inv_engine) simp
  then show ?thesis
    using assms Inr free
    by (auto simp: ask_with_materialization_def search_inv_def engine_fits_def split: prod.splits)
qed

lemma ask_regions_inv:
  assumes "search_inv s" "search_inv s'" "\<exists>e. s' = s\<lparr>engine := e\<rparr>"
  shows "search_inv (snd (ask_regions draws s' rs per seeds config)) \<and>
    (\<exists>e. snd (ask_regions draws s' rs per seeds config) = s\<lparr>engine := e\<rparr>)"
  using assms(2,3)
proof (induction rs arbitrary: s')
  case Nil
  then show ?case by simp
next
  case (Cons r rs)
  obtain i sc eng where a: "cpu_ask draws (engine s') (base s') (history_pairs s') 0
      (take per (drop (r * per) seeds)) (leaves s') config True = ((i, sc), eng)"
    by (metis prod.exhaust)
  have "0 < slots s'" using Cons.prems(1) by (simp add: search_inv_def)
  from cpu_ask_fits [OF Cons.prems(1) inv_engine [OF Cons.prems(1)] this, of draws "history_pairs s'"
      "take per (drop (r * per) seeds)" config True]
  have "search_inv (s'\<lparr>engine := eng\<rparr>)"
    using Cons.prems(1) by (intro inv_set_engine) (simp_all add: a)
  moreover have "\<exists>e. s'\<lparr>engine := eng\<rparr> = s\<lparr>engine := e\<rparr>" using Cons.prems(2) by auto
  ultimately show ?case using Cons.IH [of "s'\<lparr>engine := eng\<rparr>"] by (auto simp: a split: prod.splits)
qed

lemma ask_multi_inv: "search_inv s \<Longrightarrow> search_inv (snd (ask_multi_tr draws s n per seeds config))"
proof -
  assume inv: "search_inv s"
  have "\<exists>e. s = s\<lparr>engine := e\<rparr>" by (rule exI [of _ "engine s"]) simp
  then show ?thesis
    using inv ask_regions_inv [OF inv inv, of draws "[0..<n]" per seeds config]
    by (auto simp: ask_multi_tr_def split: sum.splits prod.splits)
qed

lemma materialize_pending_inv:
  assumes "search_inv s"
  shows "search_inv (snd (materialize_pending s trial))"
proof (cases "pending_for s trial")
  case (Inr p)
  then have p: "pending s = Some p" by (auto simp: pending_for_def split: option.splits if_splits)
  have "engine_fits s (cpu_materialize (engine s) (base s) (pend_slot p) (pend_seed p) (leaves s) (pend_length p))"
    using assms p unfolding cpu_materialize_def
    by (intro engine_fits_write length_materialize_read inv_engine) (auto simp: search_inv_def)
  then show ?thesis using assms p Inr by (auto simp: materialize_pending_def search_inv_def engine_fits_def)
qed (simp add: materialize_pending_def assms)

lemma materialize_pending_pending:
  "materialize_pending s trial = (Inr u, s') \<Longrightarrow>
   \<exists>p. pending s = Some p \<and> pend_id p = trial_id trial \<and> pending s' = Some (p\<lparr>pend_materialized := True\<rparr>) \<and>
     history s' = history s \<and> base s' = base s \<and> capacity s' = capacity s"
  by (auto simp: materialize_pending_def pending_for_def split: option.splits if_splits sum.splits)

lemma push_history_props:
  assumes "length hist \<le> cap" "0 < cap"
  shows "length (push_history cap hist r) \<le> cap" "set (push_history cap hist r) \<subseteq> insert r (set hist)"
    "last (push_history cap hist r) = r"
  using assms by (auto simp: push_history_def dest: in_set_dropD)

lemma distinct_push_history:
  "distinct (map rec_slot hist) \<Longrightarrow> rec_slot r \<notin> rec_slot ` set hist \<Longrightarrow>
   distinct (map rec_slot (push_history cap hist r))"
  by (auto simp: push_history_def drop_map [symmetric] distinct_drop dest: in_set_dropD)

lemma tell_inv:
  assumes "search_inv s"
  shows "search_inv (snd (tell s trial value accept))"
proof (cases "is_finite value")
  case True
  obtain res s' where m: "materialize_pending s trial = (res, s')" by fastforce
  have inv: "search_inv s'" using materialize_pending_inv [OF assms, of trial] by (simp add: m)
  show ?thesis
  proof (cases res)
    case (Inr u)
    then obtain p where p: "pending s' = Some p" "pending_for s' trial = Inr p"
      using materialize_pending_pending [of s trial u s'] m by (auto simp: pending_for_def)
    let ?r = "\<lparr>rec_slot = pend_slot p, rec_value = value\<rparr>"
    have c: "length (history s') \<le> capacity s'" "0 < capacity s'" using inv by (simp_all add: search_inv_def)
    show ?thesis
      using True m Inr p inv push_history_props [OF c, of ?r] distinct_push_history [of "history s'" ?r "capacity s'"]
      by (auto simp: tell_def search_inv_def)
  qed (simp add: tell_def True m inv)
qed (simp add: tell_def assms)

section \<open>Replacing the history\<close>

definition slot_pairs :: "nat \<Rightarrow> u8 list \<Rightarrow> (nat \<times> nat) list \<Rightarrow> (nat \<times> u8 list) list" where
  "slot_pairs bytes rows xs = map (\<lambda>(i, slot). (slot, take bytes (drop (i * bytes) rows))) xs"

lemma write_rows_eq: "write_rows e bytes rows xs = cs.wr_all e (slot_pairs bytes rows xs)"
  by (induction xs arbitrary: e) (auto simp: slot_pairs_def)

lemma replacement_slots_ok:
  "distinct (replacement_slots s n)" "\<forall>slot\<in>set (replacement_slots s n). slot < slots s \<and> slot \<noteq> base s"
  by (auto simp: replacement_slots_def distinct_take dest: in_set_takeD)

lemma length_replacement_slots:
  assumes "search_inv s" "n \<le> capacity s"
  shows "length (replacement_slots s n) = n"
proof -
  have "length (filter (\<lambda>slot. slot \<noteq> base s) [0..<slots s]) = card ({..<slots s} - {base s})"
    by (subst distinct_card [symmetric]) (auto intro!: arg_cong [where f = card])
  also have "\<dots> = slots s - 1" using assms(1) by (simp add: search_inv_def)
  finally show ?thesis using assms by (simp add: replacement_slots_def search_inv_def)
qed

lemma slot_row_fits:
  "i < n \<Longrightarrow> length (rows :: u8 list) = n * bytes \<Longrightarrow> length (take bytes (drop (i * bytes) rows)) = bytes"
proof -
  assume "i < n" "length rows = n * bytes"
  then have "(i + 1) * bytes \<le> length rows" by (simp only:) (rule mult_right_mono, auto)
  then show ?thesis by (auto simp: min_def)
qed

lemma replace_history_Inr:
  assumes "replace_history s rows values = (Inr u, s')"
  shows "pending s = None" "values \<noteq> []" "length values \<le> capacity s"
    "length rows = length values * row_bytes s"
    "length (replacement_slots s (length values)) = length values"
    "s' = s\<lparr>engine := write_rows (engine s) (row_bytes s) rows (enumerate 0 (replacement_slots s (length values))),
            history := map (\<lambda>(slot, value). \<lparr>rec_slot = slot, rec_value = value\<rparr>)
                         (zip (replacement_slots s (length values)) values)\<rparr>"
  using assms by (auto simp: replace_history_def res_simps split: sum.splits)

lemma replace_history_Inl: "replace_history s rows values = (Inl e, s') \<Longrightarrow> s' = s"
  by (auto simp: replace_history_def split: sum.splits)

lemma slot_pairs_fit:
  assumes "search_inv s" "length rows = n * row_bytes s" "length (replacement_slots s n) = n"
  shows "cs.fits (engine s) (slot_pairs (row_bytes s) rows (enumerate 0 (replacement_slots s n)))"
    "map fst (slot_pairs (row_bytes s) rows (enumerate 0 (replacement_slots s n))) = replacement_slots s n"
proof -
  let ?ss = "replacement_slots s n"
  show "map fst (slot_pairs (row_bytes s) rows (enumerate 0 ?ss)) = ?ss"
    by (simp add: slot_pairs_def comp_def case_prod_unfold)
  have "slot < cpu_slots (engine s) \<and> length (take (row_bytes s) (drop (i * row_bytes s) rows)) = cpu_row_bytes (engine s)"
    if "(i, slot) \<in> set (enumerate 0 ?ss)" for i slot
  proof -
    have "i < n" "slot \<in> set ?ss" using that assms(3) by (auto simp: in_set_enumerate_eq)
    then show ?thesis
      using assms(1) replacement_slots_ok(2) [of s n] slot_row_fits [OF _ assms(2)] by (simp add: search_inv_def)
  qed
  then show "cs.fits (engine s) (slot_pairs (row_bytes s) rows (enumerate 0 ?ss))"
    using assms(1) unfolding cs.fits_def slot_pairs_def by (auto simp: search_inv_def)
qed

lemma replace_history_inv:
  assumes "search_inv s"
  shows "search_inv (snd (replace_history s rows values))"
proof (cases "replace_history s rows values")
  case (Pair res s')
  show ?thesis
  proof (cases res)
    case (Inl e)
    then show ?thesis using replace_history_Inl [OF Pair [unfolded Inl]] Pair assms by simp
  next
    case (Inr u)
    note ok = replace_history_Inr [OF Pair [unfolded Inr]]
    let ?ss = "replacement_slots s (length values)"
    have e: "engine_fits s (write_rows (engine s) (row_bytes s) rows (enumerate 0 ?ss))"
      using cs.wr_all_ok [OF slot_pairs_fit(1) [OF assms ok(4,5)]] assms
      by (simp add: write_rows_eq engine_fits_def search_inv_def)
    let ?h = "map (\<lambda>(slot, value). \<lparr>rec_slot = slot, rec_value = value\<rparr>) (zip ?ss values)"
    have "map rec_slot ?h = ?ss" using ok(5) by (simp add: comp_def case_prod_unfold)
    then have "distinct (map rec_slot ?h)" "length ?h \<le> capacity s" "\<forall>r\<in>set ?h. rec_slot r < slots s"
      using replacement_slots_ok [of s "length values"] ok(3,5) by (auto dest: set_zip_leftD)
    then show ?thesis
      using inv_set_engine [OF assms e] ok(1) Pair by (simp add: ok(6) search_inv_def)
  qed
qed

lemma load_observations_inv:
  assumes "search_inv s" "pending s = None" "distinct (map rec_slot (history s) @ map fst obs)"
    and "\<forall>slot\<in>set (map fst obs). slot < slots s" "length (history s) + length obs \<le> capacity s"
  shows "search_inv (snd (load_observations resolve r s obs))"
  using assms
proof (induction obs arbitrary: s r)
  case Nil
  then show ?case by simp
next
  case (Cons ob obs)
  obtain slot oid v where ob: "ob = (slot, (oid, v))" by (metis prod.exhaust)
  show ?case
  proof (cases "resolve oid r")
    case (Pair res r')
    show ?thesis
    proof (cases res)
      case (Inl msg)
      then show ?thesis using Pair Cons.prems(1) by (simp add: ob)
    next
      case (Inr bytes)
      show ?thesis
      proof (cases "length bytes = row_bytes s")
        case True
        let ?s = "s\<lparr>engine := cpu_write (engine s) slot bytes, history := history s @ [\<lparr>rec_slot = slot, rec_value = v\<rparr>]\<rparr>"
        have "search_inv (s\<lparr>engine := cpu_write (engine s) slot bytes\<rparr>)"
          using Cons.prems True by (intro inv_set_engine engine_fits_write inv_engine) (auto simp: ob)
        then have "search_inv ?s"
          using Cons.prems by (auto simp: search_inv_def ob)
        then have "search_inv (snd (load_observations resolve r' ?s obs))"
          using Cons.prems by (intro Cons.IH) (auto simp: ob)
        then show ?thesis using Pair Inr True by (simp add: ob)
      next
        case False
        then show ?thesis using Pair Inr Cons.prems(1) by (simp add: ob)
      qed
    qed
  qed
qed

lemma replace_indexed_inv:
  assumes "search_inv s"
  shows "search_inv (snd (replace_indexed_history resolve r s obs))"
proof (cases "pending s = None \<and> obs \<noteq> [] \<and> length obs \<le> capacity s")
  case True
  let ?ss = "replacement_slots s (length obs)"
  have len: "length ?ss = length obs" using length_replacement_slots [OF assms] True by simp
  have "search_inv (snd (load_observations resolve r (s\<lparr>history := []\<rparr>) (zip ?ss obs)))"
    using True assms len replacement_slots_ok [of s "length obs"]
    by (intro load_observations_inv) (auto simp: search_inv_def)
  then show ?thesis using True len by (simp add: replace_indexed_history_def)
next
  case False
  then show ?thesis using assms by (auto simp: replace_indexed_history_def ensure_def)
qed

lemmas search_ops_inv = ask_inv ask_multi_inv materialize_pending_inv tell_inv replace_history_inv replace_indexed_inv

lemma search_step_inv: "search_step draws s s' \<Longrightarrow> search_inv s \<Longrightarrow> search_inv s'"
  by (cases rule: search_step.cases, assumption) (metis search_ops_inv snd_conv)+

lemma reachable_inv: "search_reachable draws s \<Longrightarrow> search_inv s"
  by (induction rule: search_reachable.induct) (auto intro: search_new_inv search_step_inv)

section \<open>Properties\<close>

definition test_search :: Search where
  "test_search = \<lparr>leaves = test_leaves, row_bytes = 7, capacity = 2, slots = 4, base = 0,
     history = [\<lparr>rec_slot = 0, rec_value = fzero\<rparr>], pending = None, next_id = 0,
     engine = cpu_new test_base 4\<rparr>"

lemma test_search_new: "search_new test_base fzero test_leaves 2 CpuBackend = Inr test_search"
proof -
  have "length test_base = 7" by (simp add: test_base_def)
  then show ?thesis
    using test_layout by (simp add: search_new_def test_search_def MAX_HISTORY_def) (simp add: float_eval)
qed

lemma test_search_reachable: "search_reachable draws test_search"
  using reach_new [OF test_search_new test_leaves_ok] .

definition test_ask :: Ask where
  "test_ask = \<lparr>ask_length = Ieee 0x3f800000, ask_neighbors = 1, ask_epistemic_scale = Ieee 0x3f800000,
     ask_aleatoric_scale = fzero, ask_y_scale = Ieee 0x3f800000, ask_beta = Ieee 0x3f800000,
     ask_acquisition = Ucb, ask_seed = 0\<rparr>"

lemma test_check_ask: "check_ask [7, 11] (length (history test_search)) test_ask = Inr ()"
  by (simp add: check_ask_def test_search_def test_ask_def nonneg_finite_def flt_def float_eval)

text \<open>C16: every reachable search keeps its invariant: the history fits the capacity and its
  slots are distinct and in range, the store has one row per slot, the pending trial's slot
  is neither the base nor in the history; so, with no trial pending, a free slot exists and
  \<open>ask\<close> cannot fail for lack of one.\<close>

theorem reachable_search_has_free_slot:
  assumes "search_reachable draws s"
  shows "search_inv s \<and> (pending s = None \<longrightarrow> (\<exists>slot. free_slot s = Some slot))"
  using reachable_inv [OF assms] free_slot_exists by auto

theorem reachable_search_has_free_slot_witness:
  "search_inv test_search \<and> (\<exists>slot. free_slot test_search = Some slot)"
  using reachable_search_has_free_slot [OF test_search_reachable] by (simp add: test_search_def)

lemma ask_result:
  assumes "search_inv s" "pending s = None" "check_ask seeds (length (history s)) config = Inr ()"
  obtains slot index sc where "slot < slots s" "slot \<noteq> base s" "slot \<notin> rec_slot ` set (history s)"
    "index < length seeds" "\<not> is_nan sc"
    "\<And>mat. ask_with_materialization draws s seeds config mat =
       (Inr \<lparr>trial_id = next_id s, trial_index = index, trial_seed = seeds ! index, trial_score = sc\<rparr>,
        s\<lparr>engine := (if mat then cpu_materialize (engine s) (base s) slot (seeds ! index) (leaves s) (ask_length config)
                     else engine s),
          next_id := next_id s + 1,
          pending := Some \<lparr>pend_id = next_id s, pend_slot = slot, pend_seed = seeds ! index,
                  pend_length = ask_length config, pend_materialized = mat\<rparr>\<rparr>)"
proof -
  obtain slot where slot: "free_slot s = Some slot" using free_slot_exists [OF assms(1,2)] by auto
  define best where "best = fst (cpu_ask draws (engine s) (base s) (history_pairs s) slot seeds (leaves s) config False)"
  have ask: "cpu_ask draws (engine s) (base s) (history_pairs s) slot seeds (leaves s) config mat =
      (best, if mat then cpu_materialize (engine s) (base s) slot (seeds ! fst best) (leaves s) (ask_length config)
             else engine s)" for mat
    by (simp add: cpu_ask_def best_def Let_def cpu_materialize_def)
  have "seeds \<noteq> []" using assms(3) by (auto simp: check_ask_def res_simps)
  then have "fst best < length seeds" by (simp add: best_def cpu_ask_def Let_def best_candidate_index)
  moreover have "\<not> is_nan (snd best)" by (simp add: best_def cpu_ask_def Let_def best_candidate_not_nan)
  ultimately show thesis
    using that [of slot "fst best" "snd best"] free_slot_Some [OF slot] assms(2,3) slot
    by (simp add: ask_with_materialization_def ask case_prod_unfold)
qed

text \<open>A successful \<open>ask\<close> is exactly the arguments' check: with no trial pending and
  accepted arguments it returns a trial whose seed is the seed of the chosen index, leaves
  the history, the base and every stored row but the trial's slot unchanged, and the
  trial's row is the base row materialized with that seed.\<close>

theorem ask_isolates_trial:
  assumes "search_reachable draws s" "pending s = None" "check_ask seeds (length (history s)) config = Inr ()"
  shows "\<exists>t s' p. ask draws s seeds config = (Inr t, s') \<and> pending s' = Some p \<and>
     trial_index t < length seeds \<and> trial_seed t = seeds ! trial_index t \<and>
     history s' = history s \<and> base s' = base s \<and>
     pend_slot p \<noteq> base s \<and> pend_slot p \<notin> rec_slot ` set (history s) \<and>
     (\<forall>k < slots s. k \<noteq> pend_slot p \<longrightarrow> cpu_read (engine s') k = cpu_read (engine s) k) \<and>
     search_row s' t = Inr (materialize (cpu_read (engine s) (base s)) (leaves s)
        (make_steps (leaves s) (ask_length config)) (trial_seed t))"
proof -
  have inv: "search_inv s" using assms(1) by (rule reachable_inv)
  obtain slot index sc where slot: "slot < slots s" "slot \<noteq> base s" "slot \<notin> rec_slot ` set (history s)"
    and index: "index < length seeds"
    and ask: "ask_with_materialization draws s seeds config True =
       (Inr \<lparr>trial_id = next_id s, trial_index = index, trial_seed = seeds ! index, trial_score = sc\<rparr>,
        s\<lparr>engine := cpu_materialize (engine s) (base s) slot (seeds ! index) (leaves s) (ask_length config),
          next_id := next_id s + 1,
          pending := Some \<lparr>pend_id = next_id s, pend_slot = slot, pend_seed = seeds ! index,
                  pend_length = ask_length config, pend_materialized = True\<rparr>\<rparr>)"
    using ask_result [OF inv assms(2,3), of draws thesis] by simp
  show ?thesis
    using slot index read_materialize [OF inv slot(1)]
    by (simp add: ask_def ask search_row_def pending_for_def)
qed

theorem ask_isolates_trial_witness:
  "\<exists>t s' p. ask (\<lambda>n _. replicate n fzero) test_search [7, 11] test_ask = (Inr t, s') \<and> pending s' = Some p \<and>
     trial_index t < length [7, 11 :: u64] \<and> trial_seed t = [7, 11] ! trial_index t \<and>
     history s' = history test_search \<and> base s' = base test_search \<and>
     pend_slot p \<noteq> base test_search \<and> pend_slot p \<notin> rec_slot ` set (history test_search) \<and>
     (\<forall>k < slots test_search. k \<noteq> pend_slot p \<longrightarrow> cpu_read (engine s') k = cpu_read (engine test_search) k) \<and>
     search_row s' t = Inr (materialize (cpu_read (engine test_search) (base test_search)) (leaves test_search)
        (make_steps (leaves test_search) (ask_length test_ask)) (trial_seed t))"
  by (rule ask_isolates_trial [OF test_search_reachable _ test_check_ask]) (simp add: test_search_def)

text \<open>C17: asking lazily changes nothing but when the row is written: \<open>ask_lazy\<close> returns the
  same trial as \<open>ask\<close>, and after \<open>tell\<close> with the same value the two searches are equal.\<close>

theorem lazy_ask_then_tell_equals_eager:
  assumes "search_reachable draws s" "pending s = None" "check_ask seeds (length (history s)) config = Inr ()"
    and "is_finite value"
  shows "\<exists>t. fst (ask draws s seeds config) = Inr t \<and> fst (ask_lazy draws s seeds config) = Inr t \<and>
    tell (snd (ask_lazy draws s seeds config)) t value accept = tell (snd (ask draws s seeds config)) t value accept"
proof -
  have inv: "search_inv s" using assms(1) by (rule reachable_inv)
  show ?thesis
    by (rule ask_result [OF inv assms(2,3), of draws])
      (auto simp: ask_def ask_lazy_def tell_def materialize_pending_def pending_for_def assms(4))
qed

theorem lazy_ask_then_tell_equals_eager_witness:
  "\<exists>t. fst (ask (\<lambda>n _. replicate n fzero) test_search [7, 11] test_ask) = Inr t \<and>
     fst (ask_lazy (\<lambda>n _. replicate n fzero) test_search [7, 11] test_ask) = Inr t \<and>
     tell (snd (ask_lazy (\<lambda>n _. replicate n fzero) test_search [7, 11] test_ask)) t fzero True =
       tell (snd (ask (\<lambda>n _. replicate n fzero) test_search [7, 11] test_ask)) t fzero True"
  by (rule lazy_ask_then_tell_equals_eager [OF test_search_reachable _ test_check_ask])
    (simp_all add: test_search_def, simp add: float_eval)

text \<open>\<open>tell\<close> closes the pending trial. For the pending trial and a finite value it
  succeeds: the trial's slot becomes the newest history entry, the oldest is dropped when the
  window is full, the base moves to the slot exactly when the trial is accepted, no trial is
  pending, and every other stored row is unchanged.\<close>

theorem tell_closes_trial:
  assumes "search_reachable draws s" "pending s = Some p" "pend_id p = trial_id t" "is_finite value"
  shows "\<exists>s'. tell s t value accept = (Inr (), s') \<and> pending s' = None \<and>
     base s' = (if accept then pend_slot p else base s) \<and>
     history s' = (if length (history s) = capacity s then drop 1 (history s) else history s)
        @ [\<lparr>rec_slot = pend_slot p, rec_value = value\<rparr>] \<and>
     length (history s') \<le> capacity s \<and>
     (\<forall>k < slots s. k \<noteq> pend_slot p \<longrightarrow> cpu_read (engine s') k = cpu_read (engine s) k)"
proof -
  have inv: "search_inv s" using assms(1) by (rule reachable_inv)
  have p: "pend_slot p < slots s" and hist: "length (history s) \<le> capacity s" "0 < capacity s"
    using inv assms(2) by (simp_all add: search_inv_def)
  show ?thesis
    using assms(2-4) hist read_materialize [OF inv p]
    by (auto simp: tell_def materialize_pending_def pending_for_def push_history_def)
qed

theorem tell_closes_trial_witness:
  "\<exists>t p s s'. ask (\<lambda>n _. replicate n fzero) test_search [7, 11] test_ask = (Inr t, s) \<and> pending s = Some p \<and>
     tell s t fzero True = (Inr (), s') \<and> pending s' = None \<and> base s' = pend_slot p"
proof -
  have inv: "search_inv test_search" using test_search_reachable by (rule reachable_inv)
  have none: "pending test_search = None" by (simp add: test_search_def)
  obtain slot index sc where ask: "\<And>mat. ask_with_materialization (\<lambda>n _. replicate n fzero) test_search [7, 11] test_ask mat =
       (Inr \<lparr>trial_id = next_id test_search, trial_index = index, trial_seed = [7, 11] ! index, trial_score = sc\<rparr>,
        test_search\<lparr>engine := (if mat then cpu_materialize (engine test_search) (base test_search) slot ([7, 11] ! index)
            (leaves test_search) (ask_length test_ask) else engine test_search),
          next_id := next_id test_search + 1,
          pending := Some \<lparr>pend_id = next_id test_search, pend_slot = slot, pend_seed = [7, 11] ! index,
                  pend_length = ask_length test_ask, pend_materialized = mat\<rparr>\<rparr>)"
    by (rule ask_result [OF inv none test_check_ask, of "\<lambda>n _. replicate n fzero"]) (rule that)
  from ask [of True] obtain t s p where h: "ask_with_materialization (\<lambda>n _. replicate n fzero) test_search [7, 11] test_ask True = (Inr t, s)"
      "pending s = Some p" "pend_id p = trial_id t"
    by simp
  have reach: "search_reachable (\<lambda>n _. replicate n fzero) s"
    by (rule reach_step [OF test_search_reachable step_ask [OF h(1)]])
  have fin: "is_finite (fzero :: f32)" by (simp add: float_eval)
  obtain s' where "tell s t fzero True = (Inr (), s')" "pending s' = None" "base s' = pend_slot p"
    using tell_closes_trial [OF reach h(2,3) fin, of True] by auto
  then show ?thesis using h(1,2) by (auto simp: ask_def)
qed

text \<open>Replacing the history loads exactly the given rows. With no trial pending, a
  nonempty replacement that fits the capacity and a packed buffer of the right size succeed:
  the history then has the given values in order, reading the row of its \<open>i\<close>-th entry gives
  the \<open>i\<close>-th slice of the buffer, and the base row is preserved.\<close>

theorem replace_history_loads_rows:
  assumes "search_reachable draws s" "pending s = None" "values \<noteq> []" "length values \<le> capacity s"
    and "length rows = length values * row_bytes s" "length rows < usize_bound"
  shows "\<exists>s'. replace_history s rows values = (Inr (), s') \<and> map rec_value (history s') = values \<and>
     (\<forall>i<length values. cpu_read (engine s') (rec_slot (history s' ! i)) =
        take (row_bytes s) (drop (i * row_bytes s) rows)) \<and>
     base s' = base s \<and> cpu_read (engine s') (base s) = cpu_read (engine s) (base s)"
proof -
  have inv: "search_inv s" using assms(1) by (rule reachable_inv)
  let ?ss = "replacement_slots s (length values)"
  have len: "length ?ss = length values" using length_replacement_slots [OF inv assms(4)] .
  let ?ws = "slot_pairs (row_bytes s) rows (enumerate 0 ?ss)"
  note fit = slot_pairs_fit [OF inv assms(5) len]
  let ?s = "s\<lparr>engine := cs.wr_all (engine s) ?ws,
            history := map (\<lambda>(slot, value). \<lparr>rec_slot = slot, rec_value = value\<rparr>) (zip ?ss values)\<rparr>"
  have run: "replace_history s rows values = (Inr (), ?s)"
    using assms(2-6) len by (simp add: replace_history_def write_rows_eq checked_mul_def)
  have vals: "map rec_value (history ?s) = values" using len by (simp add: comp_def case_prod_unfold)
  have "cpu_read (cs.wr_all (engine s) ?ws) (?ss ! i) = take (row_bytes s) (drop (i * row_bytes s) rows)"
    if i: "i < length values" for i
  proof (rule cs.rd_wr_all [OF fit(1)])
    show "distinct (map fst ?ws)" using fit(2) replacement_slots_ok(1) by simp
    have "(i, ?ss ! i) \<in> set (enumerate 0 ?ss)" using i len by (simp add: in_set_enumerate_eq)
    then show "(?ss ! i, take (row_bytes s) (drop (i * row_bytes s) rows)) \<in> set ?ws"
      by (force simp: slot_pairs_def)
  qed
  moreover have "cpu_read (cs.wr_all (engine s) ?ws) (base s) = cpu_read (engine s) (base s)"
  proof (rule cs.rd_wr_all_other [OF fit(1)])
    show "base s < cpu_slots (engine s)" using inv by (simp add: search_inv_def)
    have "fst ` set ?ws = set ?ss" using arg_cong [OF fit(2), of set] by simp
    then show "base s \<notin> fst ` set ?ws" using replacement_slots_ok(2) by auto
  qed
  ultimately show ?thesis using run vals len by auto
qed

theorem replace_history_loads_rows_witness:
  "\<exists>s'. replace_history test_search [1, 2, 3, 4, 5, 6, 7] [fzero] = (Inr (), s') \<and>
     map rec_value (history s') = [fzero] \<and>
     (\<forall>i<length [fzero :: f32]. cpu_read (engine s') (rec_slot (history s' ! i)) =
        take (row_bytes test_search) (drop (i * row_bytes test_search) [1, 2, 3, 4, 5, 6, 7])) \<and>
     base s' = base test_search \<and>
     cpu_read (engine s') (base test_search) = cpu_read (engine test_search) (base test_search)"
  by (rule replace_history_loads_rows [OF test_search_reachable])
    (simp_all add: test_search_def usize_bound_def)

text \<open>A defect of the CPU path of \<open>ask_multi_tr\<close>. It passes slot 0 as the trial slot and
  asks for materialization, so a successful call overwrites slot 0 with a perturbed row
  although no trial becomes pending; on a fresh search slot 0 is the base row and the only
  history row.\<close>

theorem ask_multi_tr_overwrites_slot_zero:
  assumes "search_reachable draws s" "pending s = None" "check_ask seeds (length (history s)) config = Inr ()"
    and "length seeds < usize_bound"
  shows "\<exists>results s' i. ask_multi_tr draws s 1 (length seeds) seeds config = (Inr results, s') \<and>
     pending s' = None \<and> base s' = base s \<and> history s' = history s \<and> i < length seeds \<and>
     cpu_read (engine s') 0 = materialize (cpu_read (engine s) (base s)) (leaves s)
       (make_steps (leaves s) (ask_length config)) (seeds ! i)"
proof -
  have inv: "search_inv s" using assms(1) by (rule reachable_inv)
  have ne: "seeds \<noteq> []" using assms(3) by (auto simp: check_ask_def res_simps)
  define best where "best = fst (cpu_ask draws (engine s) (base s) (history_pairs s) 0 seeds (leaves s) config True)"
  have ask: "cpu_ask draws (engine s) (base s) (history_pairs s) 0 seeds (leaves s) config True =
      (best, cpu_materialize (engine s) (base s) 0 (seeds ! fst best) (leaves s) (ask_length config))"
    by (simp add: cpu_ask_def best_def Let_def cpu_materialize_def)
  have "fst best < length seeds" using ne by (simp add: best_def cpu_ask_def Let_def best_candidate_index)
  moreover have "0 < slots s" using inv by (simp add: search_inv_def)
  ultimately show ?thesis
    using assms(2-4) ne read_materialize [OF inv \<open>0 < slots s\<close> \<open>0 < slots s\<close>]
    by (cases best) (auto simp: ask_multi_tr_def ask checked_mul_def)
qed

theorem ask_multi_tr_overwrites_slot_zero_witness:
  "\<exists>results s' i. ask_multi_tr (\<lambda>n _. replicate n fzero) test_search 1 (length [7, 11 :: u64]) [7, 11] test_ask = (Inr results, s') \<and>
     pending s' = None \<and> base s' = base test_search \<and> history s' = history test_search \<and> i < length [7, 11 :: u64] \<and>
     cpu_read (engine s') 0 = materialize (cpu_read (engine test_search) (base test_search)) (leaves test_search)
       (make_steps (leaves test_search) (ask_length test_ask)) ([7, 11] ! i)"
  by (rule ask_multi_tr_overwrites_slot_zero [OF test_search_reachable _ test_check_ask])
    (simp_all add: test_search_def usize_bound_def)

text \<open>\<open>replace_indexed_history\<close> is not atomic. When the resolver fails on the first
  observation, the error is returned after the history was cleared, and from then on every
  \<open>ask\<close> is refused until a history is loaded again.\<close>

theorem failed_resolve_clears_history:
  assumes "search_reachable draws s" "pending s = None" "length ((oid, v) # obs) \<le> capacity s"
    and "resolve oid r = (Inl msg, r')"
  shows "replace_indexed_history resolve r s ((oid, v) # obs) = (Inl (ResolveFailed msg), s\<lparr>history := []\<rparr>) \<and>
     (\<forall>seeds config mat t. fst (ask_with_materialization draws (s\<lparr>history := []\<rparr>) seeds config mat) \<noteq> Inr t)"
proof -
  have inv: "search_inv s" using assms(1) by (rule reachable_inv)
  let ?obs = "(oid, v) # obs"
  have len: "length (replacement_slots s (length ?obs)) = length ?obs"
    using length_replacement_slots [OF inv assms(3)] .
  then obtain slot ss where "replacement_slots s (length ?obs) = slot # ss"
    by (cases "replacement_slots s (length ?obs)") simp_all
  then have "replace_indexed_history resolve r s ?obs = (Inl (ResolveFailed msg), s\<lparr>history := []\<rparr>)"
    using assms(2-4) len by (simp add: replace_indexed_history_def)
  moreover have "fst (ask_with_materialization draws (s\<lparr>history := []\<rparr>) seeds config mat) \<noteq> Inr t" for seeds config mat t
    by (auto simp: ask_with_materialization_def check_ask_def res_simps split: sum.splits)
  ultimately show ?thesis by blast
qed

theorem failed_resolve_clears_history_witness:
  "replace_indexed_history (\<lambda>_ r. (Inl ''gone'', r)) () test_search [(3, fzero)] =
     (Inl (ResolveFailed ''gone''), test_search\<lparr>history := []\<rparr>) \<and>
   (\<forall>seeds config mat t. fst (ask_with_materialization (\<lambda>n _. replicate n fzero)
      (test_search\<lparr>history := []\<rparr>) seeds config mat) \<noteq> Inr t)"
  by (rule failed_resolve_clears_history [OF test_search_reachable]) (simp_all add: test_search_def)

end
