(* ===== verification/Resident.thy ===== *)
theory Resident
  imports TrialReach ForwardProgram
begin

text \<open>
  The resident optimization session (\<open>ResidentBoState\<close> of
  \<open>rust/crates/ennx/src/forward_program.rs\<close>): a trial search, a forward program and at most one
  pending round. The evaluator is the caller's: a function of its own state, the round and
  the program.
\<close>

record ResidentRound =
  round_trial :: Trial
  round_version :: u32

datatype resident_error =
    RoundPending
  | NoRound
  | RoundMismatch
  | SearchError trial_error
  | EvaluatorError string

record ResidentBoState =
  res_search :: Search
  res_program :: ForwardProgram
  res_pending :: "ResidentRound option"
  res_rewards :: "f32 list"

text \<open>The derived \<open>PartialEq\<close> compares the score as a float.\<close>

definition trial_eq :: "Trial \<Rightarrow> Trial \<Rightarrow> bool" where
  "trial_eq a b \<longleftrightarrow> trial_id a = trial_id b \<and> trial_index a = trial_index b \<and>
     trial_seed a = trial_seed b \<and> feq (trial_score a) (trial_score b)"

definition round_eq :: "ResidentRound \<Rightarrow> ResidentRound \<Rightarrow> bool" where
  "round_eq a b \<longleftrightarrow> trial_eq (round_trial a) (round_trial b) \<and> round_version a = round_version b"

definition resident_new ::
    "u8 list \<Rightarrow> f32 \<Rightarrow> leaf list \<Rightarrow> nat \<Rightarrow> ComputeBackend \<Rightarrow> ForwardProgram \<Rightarrow> trial_error + ResidentBoState" where
  "resident_new row value lvs cap backend program =
     rbind (search_new row value lvs cap backend) (\<lambda>s.
     Inr \<lparr>res_search = s, res_program = program, res_pending = None, res_rewards = []\<rparr>)"

definition resident_ask ::
    "(nat \<Rightarrow> u64 \<Rightarrow> f32 list) \<Rightarrow> ResidentBoState \<Rightarrow> u64 list \<Rightarrow> Ask \<Rightarrow> (resident_error + ResidentRound) \<times> ResidentBoState" where
  "resident_ask draws r seeds config =
     (if res_pending r \<noteq> None then (Inl RoundPending, r)
      else case ask draws (res_search r) seeds config of
        (Inl e, s) \<Rightarrow> (Inl (SearchError e), r\<lparr>res_search := s\<rparr>)
      | (Inr trial, s) \<Rightarrow>
          let rnd = \<lparr>round_trial = trial, round_version = prog_version (res_program r)\<rparr>
          in (Inr rnd, r\<lparr>res_search := s, res_pending := Some rnd\<rparr>))"

text \<open>\<open>pending.take()\<close> empties the pending round; only a mismatch puts it back.\<close>

definition resident_tell ::
    "ResidentBoState \<Rightarrow> ResidentRound \<Rightarrow> f32 \<Rightarrow> bool \<Rightarrow> (resident_error + unit) \<times> ResidentBoState" where
  "resident_tell r rnd reward accept =
     (case res_pending r of
        None \<Rightarrow> (Inl NoRound, r)
      | Some p \<Rightarrow>
          if \<not> round_eq p rnd then (Inl RoundMismatch, r)
          else case tell (res_search r) (round_trial rnd) reward accept of
              (Inl e, s) \<Rightarrow> (Inl (SearchError e), r\<lparr>res_search := s, res_pending := None\<rparr>)
            | (Inr _, s) \<Rightarrow> (Inr (), r\<lparr>res_search := s, res_pending := None, res_rewards := res_rewards r @ [reward]\<rparr>))"

type_synonym 'e evaluator = "'e \<Rightarrow> ResidentRound \<Rightarrow> ForwardProgram \<Rightarrow> (string + f32) \<times> 'e"

definition ask_evaluate ::
    "(nat \<Rightarrow> u64 \<Rightarrow> f32 list) \<Rightarrow> 'e evaluator \<Rightarrow> 'e \<Rightarrow> ResidentBoState \<Rightarrow> u64 list \<Rightarrow> Ask \<Rightarrow> bool
     \<Rightarrow> (resident_error + ResidentRound \<times> f32) \<times> ResidentBoState \<times> 'e" where
  "ask_evaluate draws evaluate e r seeds config accept =
     (case resident_ask draws r seeds config of
        (Inl err, r1) \<Rightarrow> (Inl err, r1, e)
      | (Inr rnd, r1) \<Rightarrow>
          (case evaluate e rnd (res_program r1) of
             (Inl msg, e1) \<Rightarrow> (Inl (EvaluatorError msg), r1, e1)
           | (Inr reward, e1) \<Rightarrow>
               (case resident_tell r1 rnd reward accept of
                  (Inl err, r2) \<Rightarrow> (Inl err, r2, e1)
                | (Inr _, r2) \<Rightarrow> (Inr (rnd, reward), r2, e1))))"

section \<open>Reachable sessions\<close>

inductive resident_step :: "(nat \<Rightarrow> u64 \<Rightarrow> f32 list) \<Rightarrow> ResidentBoState \<Rightarrow> ResidentBoState \<Rightarrow> bool" for draws where
  step_resident_ask: "resident_ask draws r seeds config = (res, r') \<Longrightarrow> resident_step draws r r'"
| step_resident_tell: "resident_tell r rnd reward accept = (res, r') \<Longrightarrow> resident_step draws r r'"

inductive_cases resident_stepE: "resident_step draws r r'"

inductive resident_reachable :: "(nat \<Rightarrow> u64 \<Rightarrow> f32 list) \<Rightarrow> ResidentBoState \<Rightarrow> bool" for draws where
  resident_start: "resident_new row value lvs cap backend program = Inr r \<Longrightarrow> \<forall>lf\<in>set lvs. leaf_ok lf \<Longrightarrow>
     resident_reachable draws r"
| resident_next: "resident_reachable draws r \<Longrightarrow> resident_step draws r r' \<Longrightarrow> resident_reachable draws r'"

lemma step_search_ask: "ask draws s seeds config = (res, s') \<Longrightarrow> search_step draws s s'"
  unfolding ask_def by (rule step_ask)

lemma reach_ask: "ask draws s seeds config = (res, s') \<Longrightarrow> search_reachable draws s \<Longrightarrow> search_reachable draws s'"
  by (erule reach_step [OF _ step_search_ask, rotated])

lemma reach_tell: "tell s t v accept = (res, s') \<Longrightarrow> search_reachable draws s \<Longrightarrow> search_reachable draws s'"
  by (erule reach_step [OF _ step_tell, rotated])

lemma resident_search_reachable: "resident_reachable draws r \<Longrightarrow> search_reachable draws (res_search r)"
proof (induction rule: resident_reachable.induct)
  case (resident_start row v lvs cap backend program r)
  then show ?case by (auto simp: resident_new_def res_simps intro: reach_new)
next
  case (resident_next r r')
  from resident_next.hyps(2) show ?case
  proof (cases rule: resident_step.cases)
    case (step_resident_ask seeds config res)
    then show ?thesis
      using resident_next.IH
      by (auto simp: resident_ask_def Let_def split: if_splits prod.splits sum.splits
          dest: reach_ask)
  next
    case (step_resident_tell rnd reward accept res)
    then show ?thesis
      using resident_next.IH
      by (auto simp: resident_tell_def split: if_splits prod.splits sum.splits option.splits
          dest: reach_tell)
  qed
qed

text \<open>While a round is pending, the search holds its trial.\<close>

definition round_held :: "ResidentBoState \<Rightarrow> bool" where
  "round_held r \<longleftrightarrow> (\<forall>rnd. res_pending r = Some rnd \<longrightarrow> \<not> is_nan (trial_score (round_trial rnd)) \<and>
     (\<exists>p. pending (res_search r) = Some p \<and> pend_id p = trial_id (round_trial rnd)))"

lemma ask_held:
  assumes "search_reachable draws s" "ask draws s seeds config = (Inr t, s')"
  shows "\<not> is_nan (trial_score t) \<and> (\<exists>p. pending s' = Some p \<and> pend_id p = trial_id t)"
proof -
  have ok: "pending s = None" "check_ask seeds (length (history s)) config = Inr ()"
    using assms(2) by (auto simp: ask_def ask_with_materialization_def res_simps split: sum.splits prod.splits)
  show ?thesis
    by (rule ask_result [OF reachable_inv [OF assms(1)] ok, of draws]) (use assms(2) in \<open>auto simp: ask_def\<close>)
qed

lemma resident_held: "resident_reachable draws r \<Longrightarrow> round_held r"
proof (induction rule: resident_reachable.induct)
  case (resident_start row v lvs cap backend program r)
  then show ?case by (auto simp: resident_new_def res_simps round_held_def)
next
  case (resident_next r r')
  have s: "search_reachable draws (res_search r)" using resident_next.hyps(1) by (rule resident_search_reachable)
  from resident_next.hyps(2) show ?case
  proof (cases rule: resident_step.cases)
    case (step_resident_ask seeds config res)
    then show ?thesis
      using resident_next.IH ask_held [OF s]
      by (auto simp: resident_ask_def Let_def round_held_def split: if_splits prod.splits sum.splits)
  next
    case (step_resident_tell rnd reward accept res)
    then show ?thesis
      using resident_next.IH
      by (auto simp: resident_tell_def round_held_def split: if_splits prod.splits sum.splits option.splits)
  qed
qed

lemma round_eq_refl: "\<not> is_nan (trial_score (round_trial rnd)) \<Longrightarrow> round_eq rnd rnd"
  by (simp add: round_eq_def trial_eq_def fcmp_defs)

section \<open>Properties\<close>

definition test_resident :: ResidentBoState where
  "test_resident = \<lparr>res_search = test_search, res_program = \<lparr>prog_ops = [], prog_version = 1\<rparr>,
     res_pending = None, res_rewards = []\<rparr>"

lemma test_resident_reachable: "resident_reachable draws test_resident"
proof (rule resident_start)
  show "resident_new test_base fzero test_leaves 2 CpuBackend \<lparr>prog_ops = [], prog_version = 1\<rparr> = Inr test_resident"
    by (simp add: resident_new_def test_search_new test_resident_def)
qed (rule test_leaves_ok)

lemma test_resident_asked:
  obtains r rnd where "resident_reachable draws r" "res_pending r = Some rnd"
    "resident_ask draws test_resident [7, 11] test_ask = (Inr rnd, r)"
proof -
  have none: "pending test_search = None" by (simp add: test_search_def)
  obtain t s where ask: "ask draws test_search [7, 11] test_ask = (Inr t, s)"
    by (rule ask_result [OF reachable_inv [OF test_search_reachable] none test_check_ask, of draws])
      (auto simp: ask_def)
  then have step: "resident_ask draws test_resident [7, 11] test_ask =
      (Inr \<lparr>round_trial = t, round_version = 1\<rparr>,
       test_resident\<lparr>res_search := s, res_pending := Some \<lparr>round_trial = t, round_version = 1\<rparr>\<rparr>)"
    by (simp add: resident_ask_def test_resident_def Let_def)
  from resident_next [OF test_resident_reachable step_resident_ask [OF step]] step show thesis
    by (intro that) simp_all
qed

text \<open>C18: a pending round can be told. In a reachable session with a pending round, telling
  that round with a finite reward succeeds, appends the reward, clears the round and leaves
  the search without a pending trial; so the next \<open>ask\<close> is refused only for its arguments.\<close>

theorem pending_round_can_be_told:
  assumes "resident_reachable draws r" "res_pending r = Some rnd" "is_finite reward"
  shows "\<exists>s. resident_tell r rnd reward accept =
      (Inr (), r\<lparr>res_search := s, res_pending := None, res_rewards := res_rewards r @ [reward]\<rparr>) \<and>
     pending s = None"
proof -
  obtain p where p: "pending (res_search r) = Some p" "pend_id p = trial_id (round_trial rnd)"
    and nn: "\<not> is_nan (trial_score (round_trial rnd))"
    using resident_held [OF assms(1)] assms(2) by (auto simp: round_held_def)
  show ?thesis
    using assms(2,3) p round_eq_refl [OF nn]
    by (auto simp: resident_tell_def tell_def materialize_pending_def pending_for_def)
qed

theorem pending_round_can_be_told_witness:
  "\<exists>r rnd s. resident_ask (\<lambda>n _. replicate n fzero) test_resident [7, 11] test_ask = (Inr rnd, r) \<and>
     resident_tell r rnd fzero True =
       (Inr (), r\<lparr>res_search := s, res_pending := None, res_rewards := res_rewards r @ [fzero]\<rparr>) \<and>
     pending s = None"
proof -
  obtain r rnd where r: "resident_reachable (\<lambda>n _. replicate n fzero) r" "res_pending r = Some rnd"
    "resident_ask (\<lambda>n _. replicate n fzero) test_resident [7, 11] test_ask = (Inr rnd, r)"
    by (rule test_resident_asked)
  have "is_finite (fzero :: f32)" by (simp add: float_eval)
  from pending_round_can_be_told [OF r(1,2) this, of True] r(3) show ?thesis by blast
qed

text \<open>C19: a defect of \<open>tell\<close>. It empties the pending round before the search checks the
  reward. Telling a pending round with a reward that is not finite returns an error and
  drops the round while the search keeps its trial; from then on no \<open>ask\<close> and no \<open>tell\<close> ever
  changes the session again.\<close>

theorem non_finite_reward_wedges_session:
  assumes "resident_reachable draws r" "res_pending r = Some rnd" "\<not> is_finite reward"
  shows "resident_tell r rnd reward accept = (Inl (SearchError ValueNotFinite), r\<lparr>res_pending := None\<rparr>) \<and>
     (\<forall>r'. (resident_step draws)\<^sup>*\<^sup>* (r\<lparr>res_pending := None\<rparr>) r' \<longrightarrow>
        r' = r\<lparr>res_pending := None\<rparr> \<and> (\<forall>seeds config. \<exists>e. fst (resident_ask draws r' seeds config) = Inl e))"
proof -
  let ?w = "r\<lparr>res_pending := None\<rparr>"
  obtain p where p: "pending (res_search r) = Some p" and nn: "\<not> is_nan (trial_score (round_trial rnd))"
    using resident_held [OF assms(1)] assms(2) by (auto simp: round_held_def)
  have ask: "resident_ask draws ?w seeds config = (Inl (SearchError PendingTrial), ?w)" for seeds config
    using p by (simp add: resident_ask_def ask_def ask_with_materialization_def)
  have told: "resident_tell ?w rnd' reward' accept' = (Inl NoRound, ?w)" for rnd' reward' accept'
    by (simp add: resident_tell_def)
  have stuck: "r' = ?w" if "(resident_step draws)\<^sup>*\<^sup>* ?w r'" for r'
    using that
  proof (induction rule: rtranclp_induct)
    case base
    then show ?case by simp
  next
    case (step y z)
    from step(2) show ?case unfolding step(3) by (cases rule: resident_step.cases) (simp_all add: ask told)
  qed
  have "r' = ?w \<and> (\<forall>seeds config. \<exists>e. fst (resident_ask draws r' seeds config) = Inl e)"
    if "(resident_step draws)\<^sup>*\<^sup>* ?w r'" for r'
    using stuck [OF that] by (simp add: ask)
  moreover have "resident_tell r rnd reward accept = (Inl (SearchError ValueNotFinite), ?w)"
    using assms(2,3) round_eq_refl [OF nn] by (simp add: resident_tell_def tell_def)
  ultimately show ?thesis by blast
qed

theorem non_finite_reward_wedges_session_witness:
  "\<exists>r rnd. resident_ask (\<lambda>n _. replicate n fzero) test_resident [7, 11] test_ask = (Inr rnd, r) \<and>
     resident_tell r rnd infinity True = (Inl (SearchError ValueNotFinite), r\<lparr>res_pending := None\<rparr>) \<and>
     (\<exists>e. fst (resident_ask (\<lambda>n _. replicate n fzero) (r\<lparr>res_pending := None\<rparr>) [7] test_ask) = Inl e)"
proof -
  obtain r rnd where r: "resident_reachable (\<lambda>n _. replicate n fzero) r" "res_pending r = Some rnd"
    "resident_ask (\<lambda>n _. replicate n fzero) test_resident [7, 11] test_ask = (Inr rnd, r)"
    by (rule test_resident_asked)
  have "\<not> is_finite (infinity :: f32)" by (simp add: float_eval)
  from non_finite_reward_wedges_session [OF r(1,2) this, of True] r(3) show ?thesis by blast
qed

end
