(* ===== verification/Sparse.thy ===== *)
theory Sparse
  imports Prelude
begin

text \<open>
  The sparse word moves of \<open>rust/crates/ennx/src/weights.rs\<close>: sorted lists of packed
  32-bit weight words with XOR masks. A move is a pair of parallel arrays \<open>words\<close>, \<open>masks\<close>;
  after \<open>check_move\<close> has compared the lengths the two-pointer loops run over the zipped
  pairs. The index variables of the source are the suffixes still to be read.

  Moves denote functions from words to masks (\<open>move_at\<close>); a checked move is the canonical
  representative of its function, so the algebra of moves (an abelian group of exponent
  two acting on the stored values) is proved through the denotation.
\<close>

datatype sparse_error =
    MoveLengthMismatch
  | MoveMaskZero
  | MoveNotIncreasing
  | ValueLengthMismatch
  | WordMissing u32
  | WidthsLengthMismatch
  | WordOutsideLayout u32
  | WordWidth u8
  | DrawNotPositive
  | LayoutLengthMismatch
  | LayoutEmptyRange
  | LayoutOverlap
  | LayoutWidth u8
  | LayoutNotCovering

section \<open>Union of sorted word lists\<close>

definition push_new :: "u32 list \<Rightarrow> u32 \<Rightarrow> u32 list" where
  "push_new out v = (if out \<noteq> [] \<and> last out = v then out else out @ [v])"

fun merge_words_loop :: "u32 list \<Rightarrow> u32 list \<Rightarrow> u32 list \<Rightarrow> u32 list" where
  "merge_words_loop [] [] out = out"
| "merge_words_loop (l # ls) [] out = merge_words_loop ls [] (push_new out l)"
| "merge_words_loop [] (r # rs) out = merge_words_loop [] rs (push_new out r)"
| "merge_words_loop (l # ls) (r # rs) out =
     (if l < r then merge_words_loop ls (r # rs) (push_new out l)
      else if r < l then merge_words_loop (l # ls) rs (push_new out r)
      else merge_words_loop ls rs (push_new out l))"

definition merge_words :: "u32 list \<Rightarrow> u32 list \<Rightarrow> u32 list" where
  "merge_words left right = merge_words_loop left right []"

fun merge_level :: "u32 list list \<Rightarrow> u32 list list" where
  "merge_level (l # r # rest) = merge_words l r # merge_level rest"
| "merge_level rest = rest"

lemma length_merge_level: "length (merge_level rows) = (length rows + 1) div 2"
  by (induction rows rule: merge_level.induct) auto

function sparse_union_loop :: "u32 list list \<Rightarrow> u32 list" where
  "sparse_union_loop level =
     (if 1 < length level then sparse_union_loop (merge_level level)
      else if level = [] then [] else last level)"
  by pat_completeness auto
termination
  by (relation "measure length") (auto simp: length_merge_level)

declare sparse_union_loop.simps [simp del]

definition sparse_union :: "u32 list list \<Rightarrow> u32 list" where
  "sparse_union rows = (if rows = [] then [] else sparse_union_loop rows)"

lemma push_new_strict:
  assumes "sorted_wrt (<) out" "\<forall>x\<in>set out. x \<le> v"
  shows "sorted_wrt (<) (push_new out v) \<and> set (push_new out v) = insert v (set out)"
proof (cases "out \<noteq> [] \<and> last out = v")
  case True
  then show ?thesis using assms by (auto simp: push_new_def)
next
  case False
  have "x < v" if "x \<in> set out" for x
  proof -
    obtain ys z where out: "out = ys @ [z]" using \<open>x \<in> set out\<close> by (cases out rule: rev_cases) auto
    with False assms(2) have "z < v" by (auto simp: order.strict_iff_order)
    with assms(1) out that show ?thesis by (auto simp: sorted_wrt_append intro: order.strict_trans)
  qed
  then show ?thesis using False assms(1) by (auto simp: push_new_def sorted_wrt_append)
qed

lemma merge_words_loop_correct:
  assumes "sorted ls" "sorted rs" "sorted_wrt (<) out"
    and "\<forall>x\<in>set out. \<forall>y\<in>set ls \<union> set rs. x \<le> y"
  shows "sorted_wrt (<) (merge_words_loop ls rs out) \<and>
         set (merge_words_loop ls rs out) = set out \<union> set ls \<union> set rs"
  using assms
proof (induction ls rs out rule: merge_words_loop.induct)
  case (1 out)
  then show ?case by simp
next
  case (2 l ls out)
  have p: "sorted_wrt (<) (push_new out l) \<and> set (push_new out l) = insert l (set out)"
    using 2 by (intro push_new_strict) auto
  with 2 show ?case by auto
next
  case (3 r rs out)
  have p: "sorted_wrt (<) (push_new out r) \<and> set (push_new out r) = insert r (set out)"
    using 3 by (intro push_new_strict) auto
  with 3 show ?case by auto
next
  case (4 l ls r rs out)
  have p: "sorted_wrt (<) (push_new out l) \<and> set (push_new out l) = insert l (set out)"
    using 4 by (intro push_new_strict) auto
  have q: "sorted_wrt (<) (push_new out r) \<and> set (push_new out r) = insert r (set out)"
    using 4 by (intro push_new_strict) auto
  consider "l < r" | "r < l" | "l = r" by fastforce
  then show ?case
  proof cases
    case 1
    then have "\<forall>x\<in>set (push_new out l). \<forall>y\<in>set ls \<union> set (r # rs). x \<le> y"
      using "4.prems" p by fastforce
    then show ?thesis using 1 "4.IH"(1) "4.prems" p by auto
  next
    case 2
    then have "\<forall>x\<in>set (push_new out r). \<forall>y\<in>set (l # ls) \<union> set rs. x \<le> y"
      using "4.prems" q by fastforce
    then show ?thesis using 2 "4.IH"(2) "4.prems" q by auto
  next
    case 3
    then have "\<forall>x\<in>set (push_new out l). \<forall>y\<in>set ls \<union> set rs. x \<le> y"
      using "4.prems" p by fastforce
    then show ?thesis using 3 "4.IH"(3) "4.prems" p by auto
  qed
qed

lemma merge_words_correct:
  "sorted l \<Longrightarrow> sorted r \<Longrightarrow>
   sorted_wrt (<) (merge_words l r) \<and> set (merge_words l r) = set l \<union> set r"
  using merge_words_loop_correct [of l r "[]"] by (simp add: merge_words_def)

lemma merge_level_correct:
  "\<forall>row\<in>set rows. sorted_wrt (<) row \<Longrightarrow>
   (\<forall>row\<in>set (merge_level rows). sorted_wrt (<) row) \<and>
   \<Union> (set ` set (merge_level rows)) = \<Union> (set ` set rows)"
proof (induction rows rule: merge_level.induct)
  case (1 l r rest)
  then have "sorted_wrt (<) (merge_words l r) \<and> set (merge_words l r) = set l \<union> set r"
    by (intro merge_words_correct) (auto intro: strict_sorted_imp_sorted)
  with 1 show ?case by auto
qed auto

lemma sparse_union_loop_correct:
  "rows \<noteq> [] \<Longrightarrow> \<forall>row\<in>set rows. sorted_wrt (<) row \<Longrightarrow>
   sorted_wrt (<) (sparse_union_loop rows) \<and> set (sparse_union_loop rows) = \<Union> (set ` set rows)"
proof (induction rows rule: sparse_union_loop.induct)
  case (1 level)
  show ?case
  proof (cases "1 < length level")
    case True
    then have "merge_level level \<noteq> []" by (cases level rule: merge_level.cases) auto
    with True 1 merge_level_correct [of level] show ?thesis
      by (simp add: sparse_union_loop.simps [of level])
  next
    case False
    then obtain row where "level = [row]"
      using "1.prems"(1) by (cases level) auto
    with 1 show ?thesis by (simp add: sparse_union_loop.simps)
  qed
qed

section \<open>Checked moves and their denotation\<close>

type_synonym moves = "(u32 \<times> u32) list"

fun check_move_loop :: "u32 option \<Rightarrow> moves \<Rightarrow> sparse_error + unit" where
  "check_move_loop prev [] = Inr ()"
| "check_move_loop prev ((w, m) # ps) =
     rbind (ensure (m \<noteq> 0) MoveMaskZero) (\<lambda>_.
     rbind (ensure (case prev of None \<Rightarrow> True | Some p \<Rightarrow> p < w) MoveNotIncreasing) (\<lambda>_.
     check_move_loop (Some w) ps))"

definition check_move :: "u32 list \<Rightarrow> u32 list \<Rightarrow> sparse_error + unit" where
  "check_move words masks =
     rbind (ensure (length words = length masks) MoveLengthMismatch) (\<lambda>_.
     check_move_loop None (zip words masks))"

definition valid_moves :: "moves \<Rightarrow> bool" where
  "valid_moves ps \<longleftrightarrow> sorted_wrt (<) (map fst ps) \<and> (\<forall>p\<in>set ps. snd p \<noteq> 0)"

definition move_at :: "moves \<Rightarrow> u32 \<Rightarrow> u32" where
  "move_at ps w = (case map_of ps w of None \<Rightarrow> 0 | Some m \<Rightarrow> m)"

definition words_of :: "moves \<Rightarrow> u32 set" where
  "words_of ps = fst ` set ps"

lemma words_of_simps [simp]:
  "words_of [] = {}" "words_of (p # ps) = insert (fst p) (words_of ps)"
  by (simp_all add: words_of_def)

lemma valid_moves_simps [simp]:
  "valid_moves []"
  "valid_moves (p # ps) \<longleftrightarrow> snd p \<noteq> 0 \<and> (\<forall>x\<in>words_of ps. fst p < x) \<and> valid_moves ps"
  by (auto simp: valid_moves_def words_of_def)

lemma move_at_simps [simp]:
  "move_at [] w = 0"
  "move_at (p # ps) w = (if w = fst p then snd p else move_at ps w)"
  by (cases p, simp_all add: move_at_def)

lemma check_move_loop_iff:
  "check_move_loop prev ps = Inr () \<longleftrightarrow>
   valid_moves ps \<and> (\<forall>p w. prev = Some p \<longrightarrow> w \<in> words_of ps \<longrightarrow> p < w)"
proof (induction ps arbitrary: prev)
  case Nil
  then show ?case by simp
next
  case (Cons q ps)
  obtain w m where q: "q = (w, m)" by (cases q)
  show ?case
    by (cases prev) (auto simp: q res_simps Cons.IH intro: order.strict_trans)
qed

lemma check_move_iff:
  "check_move words masks = Inr () \<longleftrightarrow> length words = length masks \<and> valid_moves (zip words masks)"
  by (auto simp: check_move_def res_simps check_move_loop_iff)

lemma move_at_notin: "w \<notin> words_of ps \<Longrightarrow> move_at ps w = 0"
  by (induction ps) auto

lemma move_at_in: "valid_moves ps \<Longrightarrow> w \<in> words_of ps \<longleftrightarrow> move_at ps w \<noteq> 0"
  by (induction ps) (auto simp: move_at_notin)

lemma valid_moves_canonical:
  "valid_moves ps \<Longrightarrow> valid_moves qs \<Longrightarrow> (\<And>w. move_at ps w = move_at qs w) \<Longrightarrow> ps = qs"
proof (induction ps arbitrary: qs)
  case Nil
  then show ?case
    using move_at_in [of qs] by (cases qs) auto
next
  case (Cons p ps)
  have words: "words_of (p # ps) = words_of qs"
    by (rule set_eqI) (simp only: move_at_in [OF Cons.prems(1)] move_at_in [OF Cons.prems(2)] Cons.prems(3))
  then obtain q qs' where qs: "qs = q # qs'" by (cases qs) auto
  have "fst p \<in> words_of qs" unfolding words [symmetric] by simp
  then have qp: "fst q \<le> fst p" using Cons.prems(2) by (auto simp: qs)
  have "fst q \<in> words_of (p # ps)" using words by (simp add: qs)
  then have "fst p \<le> fst q" using Cons.prems(1) by auto
  with qp have "fst p = fst q" by (rule order.antisym [rotated])
  moreover have "snd p = snd q"
    using Cons.prems(3) [of "fst p"] \<open>fst p = fst q\<close> by (simp add: qs)
  moreover have "ps = qs'"
  proof (rule Cons.IH)
    show "valid_moves ps" "valid_moves qs'" using Cons.prems(1,2) by (simp_all add: qs)
    have out: "fst p \<notin> words_of ps" "fst p \<notin> words_of qs'"
      using Cons.prems(1,2) \<open>fst p = fst q\<close> by (auto simp: qs)
    show "move_at ps w = move_at qs' w" for w
      using Cons.prems(3) [of w] \<open>fst p = fst q\<close> out [THEN move_at_notin]
      by (cases "w = fst p") (simp_all add: qs)
  qed
  ultimately show ?case by (simp add: qs prod_eq_iff)
qed

section \<open>Composition of moves\<close>

fun sparse_xor_loop :: "moves \<Rightarrow> moves \<Rightarrow> moves" where
  "sparse_xor_loop ls [] = ls"
| "sparse_xor_loop [] rs = rs"
| "sparse_xor_loop ((lw, lm) # ls) ((rw, rm) # rs) =
     (if lw < rw then (lw, lm) # sparse_xor_loop ls ((rw, rm) # rs)
      else if rw < lw then (rw, rm) # sparse_xor_loop ((lw, lm) # ls) rs
      else if lm XOR rm \<noteq> 0 then (lw, lm XOR rm) # sparse_xor_loop ls rs
      else sparse_xor_loop ls rs)"

definition sparse_xor ::
    "u32 list \<Rightarrow> u32 list \<Rightarrow> u32 list \<Rightarrow> u32 list \<Rightarrow> sparse_error + (u32 list \<times> u32 list)" where
  "sparse_xor left_words left_masks right_words right_masks =
     rbind (check_move left_words left_masks) (\<lambda>_.
     rbind (check_move right_words right_masks) (\<lambda>_.
     let out = sparse_xor_loop (zip left_words left_masks) (zip right_words right_masks)
     in Inr (map fst out, map snd out)))"

lemma sparse_xor_loop_words: "words_of (sparse_xor_loop ls rs) \<subseteq> words_of ls \<union> words_of rs"
  by (induction ls rs rule: sparse_xor_loop.induct) auto

lemma sparse_xor_loop_below:
  "\<forall>x\<in>words_of ls. a < x \<Longrightarrow> \<forall>x\<in>words_of rs. a < x \<Longrightarrow>
   \<forall>x\<in>words_of (sparse_xor_loop ls rs). a < x"
  using sparse_xor_loop_words [of ls rs] by blast

lemma sparse_xor_loop_valid:
  "valid_moves ls \<Longrightarrow> valid_moves rs \<Longrightarrow> valid_moves (sparse_xor_loop ls rs)"
proof (induction ls rs rule: sparse_xor_loop.induct)
  case (3 lw lm ls rw rm rs)
  have l: "\<forall>x\<in>words_of ls. lw < x" "valid_moves ls" and r: "\<forall>x\<in>words_of rs. rw < x" "valid_moves rs"
    and m: "lm \<noteq> 0" "rm \<noteq> 0"
    using "3.prems" by simp_all
  consider "lw < rw" | "rw < lw" | "lw = rw" by fastforce
  then show ?case
  proof cases
    case 1
    then have "\<forall>x\<in>words_of ((rw, rm) # rs). lw < x"
      using r(1) by (auto intro: order.strict_trans)
    from sparse_xor_loop_below [OF l(1) this] show ?thesis
      using 1 "3.IH"(1) [OF 1 l(2) "3.prems"(2)] m by simp
  next
    case 2
    then have "\<forall>x\<in>words_of ((lw, lm) # ls). rw < x"
      using l(1) by (auto intro: order.strict_trans)
    from sparse_xor_loop_below [OF this r(1)] have n: "\<not> lw < rw"
      and b: "\<forall>x\<in>words_of (sparse_xor_loop ((lw, lm) # ls) rs). rw < x" using 2 by simp_all
    then show ?thesis using 2 "3.IH"(2) [OF n 2 "3.prems"(1) r(2)] m by simp
  next
    case eq: 3
    with sparse_xor_loop_below [OF l(1), of rs] r(1)
      "3.IH"(3) [OF _ _ _ l(2) r(2)] "3.IH"(4) [OF _ _ _ l(2) r(2)] show ?thesis by simp
  qed
qed simp_all

lemma sparse_xor_loop_at:
  "valid_moves ls \<Longrightarrow> valid_moves rs \<Longrightarrow>
   move_at (sparse_xor_loop ls rs) w = move_at ls w XOR move_at rs w"
proof (induction ls rs rule: sparse_xor_loop.induct)
  case (3 lw lm ls rw rm rs)
  have l: "move_at ls lw = 0" "lw < rw \<Longrightarrow> move_at rs lw = 0"
    and r: "move_at rs rw = 0" "rw < lw \<Longrightarrow> move_at ls rw = 0"
    using "3.prems" by (auto intro!: move_at_notin)
  consider "lw < rw" | "rw < lw" | "lw = rw" by fastforce
  then show ?case
  proof cases
    case 1
    then show ?thesis using 3 l by auto
  next
    case 2
    then show ?thesis using 3 r by auto
  next
    case eq: 3
    then show ?thesis using 3 l r by auto
  qed
qed simp_all

section \<open>Applying a move to stored values\<close>

fun apply_sparse_loop :: "u32 list \<Rightarrow> u32 list \<Rightarrow> moves \<Rightarrow> u32 list" where
  "apply_sparse_loop (w # ws) (v # vs) ps =
     (let ps' = dropWhile (\<lambda>p. fst p < w) ps in
      (case ps' of [] \<Rightarrow> v | (x, m) # _ \<Rightarrow> if x = w then v XOR m else v)
        # apply_sparse_loop ws vs ps')"
| "apply_sparse_loop _ vs ps = vs"

definition apply_sparse ::
    "u32 list \<Rightarrow> u32 list \<Rightarrow> u32 list \<Rightarrow> u32 list \<Rightarrow> sparse_error + u32 list" where
  "apply_sparse words values move_words move_masks =
     rbind (ensure (length words = length values) ValueLengthMismatch) (\<lambda>_.
     rbind (check_move move_words move_masks) (\<lambda>_.
     Inr (apply_sparse_loop words values (zip move_words move_masks))))"

lemma move_at_dropWhile:
  "valid_moves ps \<Longrightarrow> w \<le> y \<Longrightarrow> move_at (dropWhile (\<lambda>p. fst p < w) ps) y = move_at ps y"
  by (induction ps) auto

lemma valid_moves_dropWhile: "valid_moves ps \<Longrightarrow> valid_moves (dropWhile P ps)"
  by (induction ps) auto

lemma move_at_head:
  assumes "valid_moves ps"
  shows "(case dropWhile (\<lambda>p. fst p < w) ps of [] \<Rightarrow> v
            | (x, m) # _ \<Rightarrow> if x = w then v XOR m else v) = v XOR move_at ps w"
  using assms
proof (induction ps)
  case Nil
  then show ?case by simp
next
  case (Cons p ps)
  then have "w < fst p \<Longrightarrow> move_at ps w = 0"
    by (intro move_at_notin) auto
  with Cons show ?case by (auto split: prod.splits)
qed

lemma apply_sparse_loop_eq:
  assumes "length ws = length vs" "sorted ws" "valid_moves ps"
  shows "apply_sparse_loop ws vs ps = map2 (\<lambda>w v. v XOR move_at ps w) ws vs"
  using assms
proof (induction ws vs arbitrary: ps rule: list_induct2)
  case Nil
  then show ?case by simp
next
  case (Cons w ws v vs)
  let ?ps = "dropWhile (\<lambda>p. fst p < w) ps"
  have "apply_sparse_loop ws vs ?ps = map2 (\<lambda>w v. v XOR move_at ?ps w) ws vs"
    using Cons.prems by (intro Cons.IH valid_moves_dropWhile) auto
  also have "\<dots> = map2 (\<lambda>w v. v XOR move_at ps w) ws vs"
    using Cons.prems by (intro map_cong refl) (auto dest!: set_zip_leftD simp: move_at_dropWhile)
  finally show ?case using move_at_head [OF Cons.prems(2)] by (simp add: Let_def)
qed

section \<open>The value cache\<close>

fun missing_words :: "u32 list \<Rightarrow> u32 list \<Rightarrow> u32 list" where
  "missing_words cached [] = []"
| "missing_words cached (word # query) =
     (let cached' = dropWhile (\<lambda>c. c < word) cached; rest = missing_words cached' query
      in if cached' = [] \<or> hd cached' \<noteq> word then word # rest else rest)"

fun merge_values_loop :: "moves \<Rightarrow> moves \<Rightarrow> moves" where
  "merge_values_loop ls [] = ls"
| "merge_values_loop [] rs = rs"
| "merge_values_loop ((lw, lv) # ls) ((rw, rv) # rs) =
     (if lw < rw then (lw, lv) # merge_values_loop ls ((rw, rv) # rs)
      else if rw < lw then (rw, rv) # merge_values_loop ((lw, lv) # ls) rs
      else (lw, rv) # merge_values_loop ls rs)"

definition merge_values ::
    "u32 list \<Rightarrow> u32 list \<Rightarrow> u32 list \<Rightarrow> u32 list \<Rightarrow> sparse_error + (u32 list \<times> u32 list)" where
  "merge_values words values extra_words extra_values =
     rbind (ensure (length words = length values \<and> length extra_words = length extra_values)
              ValueLengthMismatch) (\<lambda>_.
     let out = merge_values_loop (zip words values) (zip extra_words extra_values)
     in Inr (map fst out, map snd out))"

fun take_words_loop :: "moves \<Rightarrow> u32 list \<Rightarrow> sparse_error + u32 list" where
  "take_words_loop ps [] = Inr []"
| "take_words_loop ps (word # query) =
     (case dropWhile (\<lambda>p. fst p < word) ps of
        [] \<Rightarrow> Inl (WordMissing word)
      | (w, v) # ps' \<Rightarrow>
          if w \<noteq> word then Inl (WordMissing word)
          else rbind (take_words_loop ((w, v) # ps') query) (\<lambda>vs. Inr (v # vs)))"

definition take_words :: "u32 list \<Rightarrow> u32 list \<Rightarrow> u32 list \<Rightarrow> sparse_error + u32 list" where
  "take_words words values query =
     rbind (ensure (length words = length values) ValueLengthMismatch) (\<lambda>_.
     take_words_loop (zip words values) query)"

definition sorted_cache :: "moves \<Rightarrow> bool" where
  "sorted_cache ps \<longleftrightarrow> sorted_wrt (<) (map fst ps)"

lemma sorted_cache_simps [simp]:
  "sorted_cache []"
  "sorted_cache (p # ps) \<longleftrightarrow> (\<forall>x\<in>words_of ps. fst p < x) \<and> sorted_cache ps"
  by (auto simp: sorted_cache_def words_of_def)

lemma set_dropWhile_less:
  "sorted xs \<Longrightarrow> set (dropWhile (\<lambda>c. c < w) xs) = {x \<in> set xs. (w :: 'a::linorder) \<le> x}"
  by (induction xs) auto

lemma sorted_dropWhile_less: "sorted xs \<Longrightarrow> sorted (dropWhile P xs)"
  by (rule sorted_dropWhile)

lemma missing_words_eq:
  "sorted cached \<Longrightarrow> sorted query \<Longrightarrow> missing_words cached query = filter (\<lambda>w. w \<notin> set cached) query"
proof (induction cached query rule: missing_words.induct)
  case (1 cached)
  then show ?case by simp
next
  case (2 cached word query)
  let ?c = "dropWhile (\<lambda>c. c < word) cached"
  have c: "set ?c = {x \<in> set cached. word \<le> x}" using "2.prems"(1) by (rule set_dropWhile_less)
  have "missing_words ?c query = filter (\<lambda>w. w \<notin> set ?c) query"
    using "2.prems" by (intro "2.IH" sorted_dropWhile) auto
  also have "\<dots> = filter (\<lambda>w. w \<notin> set cached) query"
    using "2.prems"(2) by (intro filter_cong) (auto simp: c)
  finally have rest: "missing_words ?c query = filter (\<lambda>w. w \<notin> set cached) query" .
  have "sorted ?c" using "2.prems"(1) by (rule sorted_dropWhile)
  have "?c = [] \<or> hd ?c \<noteq> word \<longleftrightarrow> word \<notin> set ?c"
  proof (cases ?c)
    case (Cons x xs)
    have "x \<in> set ?c" by (simp add: Cons)
    then have "word \<le> x" unfolding c by simp
    moreover have "\<forall>y\<in>set xs. x \<le> y" using \<open>sorted ?c\<close> Cons by simp
    ultimately have "x \<noteq> word \<longrightarrow> word \<notin> set xs" by (auto dest: order.antisym)
    then show ?thesis unfolding Cons by auto
  next
    case Nil
    show ?thesis unfolding Nil by simp
  qed
  also have "\<dots> \<longleftrightarrow> word \<notin> set cached" by (simp add: c)
  finally show ?case using rest by (simp add: Let_def)
qed

lemma merge_values_loop_words: "words_of (merge_values_loop ls rs) = words_of ls \<union> words_of rs"
  by (induction ls rs rule: merge_values_loop.induct) auto

lemma merge_values_loop_sorted:
  "sorted_cache ls \<Longrightarrow> sorted_cache rs \<Longrightarrow> sorted_cache (merge_values_loop ls rs)"
proof (induction ls rs rule: merge_values_loop.induct)
  case (3 lw lv ls rw rv rs)
  consider "lw < rw" | "rw < lw" "\<not> lw < rw" | "lw = rw" by fastforce
  then show ?case
    using 3 by cases (auto simp: merge_values_loop_words intro: order.strict_trans)
qed simp_all

lemma map_of_notin_words: "w \<notin> words_of ps \<longleftrightarrow> map_of ps w = None"
  by (simp add: words_of_def map_of_eq_None_iff)

lemma merge_values_loop_lookup:
  "sorted_cache ls \<Longrightarrow> sorted_cache rs \<Longrightarrow>
   map_of (merge_values_loop ls rs) w = (map_of ls ++ map_of rs) w"
proof (induction ls rs rule: merge_values_loop.induct)
  case (3 lw lv ls rw rv rs)
  have l: "lw < rw \<Longrightarrow> map_of ((rw, rv) # rs) lw = None"
    and r: "rw < lw \<Longrightarrow> map_of ((lw, lv) # ls) rw = None" and rr: "map_of rs rw = None"
    using "3.prems" by (auto simp flip: map_of_notin_words)
  consider "lw < rw" | "rw < lw" "\<not> lw < rw" | "lw = rw" by fastforce
  then show ?case
  proof cases
    case 1
    then show ?thesis using 3 l by (auto simp: map_add_def)
  next
    case 2
    then show ?thesis using 3 r by (auto simp: map_add_def split: option.splits)
  next
    case eq: 3
    then show ?thesis using 3 rr by (auto simp: map_add_def split: option.splits)
  qed
qed simp_all

lemma map_of_dropWhile_words:
  "sorted_cache ps \<Longrightarrow> w \<le> y \<Longrightarrow> map_of (dropWhile (\<lambda>p. fst p < w) ps) y = map_of ps y"
  by (induction ps) auto

lemma sorted_cache_dropWhile: "sorted_cache ps \<Longrightarrow> sorted_cache (dropWhile P ps)"
  by (induction ps) auto

lemma take_words_loop_eq:
  "sorted_cache ps \<Longrightarrow> sorted query \<Longrightarrow> set query \<subseteq> words_of ps \<Longrightarrow>
   take_words_loop ps query = Inr (map (\<lambda>w. the (map_of ps w)) query)"
proof (induction ps query rule: take_words_loop.induct)
  case (1 ps)
  then show ?case by simp
next
  case (2 ps word query)
  let ?ps = "dropWhile (\<lambda>p. fst p < word) ps"
  have look: "map_of ?ps y = map_of ps y" if "word \<le> y" for y
    using "2.prems"(1) that by (rule map_of_dropWhile_words)
  have "map_of ?ps word \<noteq> None"
    using "2.prems"(3) look [of word] by (auto simp flip: map_of_notin_words)
  then obtain w v ps' where ps: "?ps = (w, v) # ps'" by (cases ?ps) auto
  have "\<not> w < word" using hd_dropWhile [of "\<lambda>p. fst p < word" ps] ps by simp
  have sorted: "sorted_cache ((w, v) # ps')" using sorted_cache_dropWhile "2.prems"(1) ps by metis
  have "word \<in> words_of ((w, v) # ps')"
    using \<open>map_of ?ps word \<noteq> None\<close> ps map_of_notin_words [of word] by metis
  with sorted \<open>\<not> w < word\<close> have "w = word" by auto
  have "take_words_loop ((w, v) # ps') query = Inr (map (\<lambda>w'. the (map_of ((w, v) # ps') w')) query)"
  proof (rule "2.IH" [OF ps refl])
    show "\<not> w \<noteq> word" using \<open>w = word\<close> by simp
    show "sorted query" using "2.prems"(2) by simp
    show "set query \<subseteq> words_of ((w, v) # ps')"
    proof
      fix y assume "y \<in> set query"
      then have "word \<le> y" "y \<in> words_of ps" using "2.prems"(2,3) by auto
      then have "map_of ?ps y \<noteq> None" using look [of y] by (auto simp flip: map_of_notin_words)
      then show "y \<in> words_of ((w, v) # ps')" using map_of_notin_words ps by metis
    qed
  qed (rule sorted)
  also have "map (\<lambda>w'. the (map_of ((w, v) # ps') w')) query = map (\<lambda>w'. the (map_of ps w')) query"
    using "2.prems"(2) look by (intro map_cong refl) (simp add: ps)
  finally have "take_words_loop ((w, v) # ps') query = Inr (map (\<lambda>w'. the (map_of ps w')) query)" .
  moreover have "map_of ps word = Some v" using look [of word] \<open>w = word\<close> ps by simp
  ultimately show ?case using ps \<open>w = word\<close> by simp
qed

section \<open>Metric blocks of a word selection\<close>

definition word_width :: "u32 list \<Rightarrow> u8 list \<Rightarrow> u32 \<Rightarrow> sparse_error + u8" where
  "word_width word_ends widths word =
     (let spec = length (takeWhile (\<lambda>e. e \<le> word) word_ends) in
      if length word_ends \<le> spec then Inl (WordOutsideLayout word)
      else let bits = widths ! spec in
        if bits \<noteq> 4 \<and> bits \<noteq> 8 then Inl (WordWidth bits) else Inr bits)"

function block_runs :: "nat \<Rightarrow> u8 list \<Rightarrow> (nat \<times> nat \<times> u8) list \<times> nat" where
  "block_runs dimension [] = ([], dimension)"
| "block_runs dimension (bits # rest) =
     (let run = 1 + length (takeWhile ((=) bits) rest);
          len = run * (32 div unat bits);
          (blocks, stop) = block_runs (dimension + len) (dropWhile ((=) bits) rest)
      in ((dimension, len, bits) # blocks, stop))"
  by pat_completeness auto
termination
  by (relation "measure (\<lambda>(_, xs). length xs)") (auto simp: le_imp_less_Suc length_dropWhile_le)

definition blocks_for_words ::
    "u32 list \<Rightarrow> u32 list \<Rightarrow> u8 list \<Rightarrow> sparse_error + ((nat \<times> nat \<times> u8) list \<times> nat)" where
  "blocks_for_words words word_ends widths =
     rbind (ensure (length word_ends = length widths) WidthsLengthMismatch) (\<lambda>_.
     if words = [] then Inr ([], 0)
     else rbind (map_res (word_width word_ends widths) words) (\<lambda>bits.
       Inr (block_runs 0 bits)))"

fun blocks_cover :: "nat \<Rightarrow> (nat \<times> nat \<times> u8) list \<Rightarrow> nat \<Rightarrow> bool" where
  "blocks_cover start [] stop \<longleftrightarrow> start = stop"
| "blocks_cover start ((offset, len, bits) # rest) stop \<longleftrightarrow>
     offset = start \<and> 0 < len \<and> (bits = 4 \<or> bits = 8) \<and> blocks_cover (offset + len) rest stop"

lemma block_runs_cover:
  "set bits \<subseteq> {4, 8} \<Longrightarrow> block_runs dimension bits = (blocks, stop) \<Longrightarrow>
   blocks_cover dimension blocks stop \<and> stop = dimension + sum_list (map (\<lambda>b. 32 div unat b) (bits))"
proof (induction dimension bits arbitrary: blocks stop rule: block_runs.induct)
  case (1 dimension)
  then show ?case by simp
next
  case (2 dimension b rest)
  let ?run = "1 + length (takeWhile ((=) b) rest)" and ?rest = "dropWhile ((=) b) rest"
  let ?len = "?run * (32 div unat b)"
  obtain blocks' where rec: "block_runs (dimension + ?len) ?rest = (blocks', stop)"
    and blocks: "blocks = (dimension, ?len, b) # blocks'"
    using "2.prems"(2) by (auto simp: Let_def split: prod.splits)
  have b: "b = 4 \<or> b = 8" using "2.prems"(1) by simp
  have "set ?rest \<subseteq> {4, 8}" using "2.prems"(1) set_dropWhileD by fastforce
  from "2.IH" [OF refl refl this rec] have
    ih: "blocks_cover (dimension + ?len) blocks' stop"
    "stop = dimension + ?len + sum_list (map (\<lambda>x. 32 div unat x) (?rest))" by auto
  have "sum_list (map (\<lambda>x. 32 div unat x) (takeWhile ((=) b) rest)) = length (takeWhile ((=) b) rest) * (32 div unat b)"
    by (induction rest) auto
  then have "sum_list (map (\<lambda>x. 32 div unat x) (rest))
      = length (takeWhile ((=) b) rest) * (32 div unat b) + sum_list (map (\<lambda>x. 32 div unat x) (?rest))"
    by (metis map_append sum_list_append takeWhile_dropWhile_id)
  then show ?case using ih b by (auto simp: blocks)
qed

end
