(* ===== verification/SparseDraw.thy ===== *)
theory SparseDraw
  imports Sparse
begin

text \<open>
  Random sparse moves (\<open>draw_sparse\<close> of \<open>rust/crates/ennx/src/weights.rs\<close>), the algebra that
  sparse moves form, and the properties of the sparse-move component.

  The random generator (\<open>rand::StdRng\<close>, not part of the sources) is a parameter: its seeding
  function and its two uniform range samplers, threaded through an abstract state.
\<close>

section \<open>The interface of an algebra of XOR moves\<close>

locale xor_moves =
  fixes compose :: "'m \<Rightarrow> 'm \<Rightarrow> 'm" and stay :: 'm and valid :: "'m \<Rightarrow> bool"
    and act :: "'m \<Rightarrow> 'v \<Rightarrow> 'v"
  assumes valid_stay: "valid stay" and act_stay: "act stay v = v"
    and valid_compose: "valid a \<Longrightarrow> valid b \<Longrightarrow> valid (compose a b)"
    and act_compose: "valid a \<Longrightarrow> valid b \<Longrightarrow> act (compose a b) v = act a (act b v)"
    and act_commute: "act a (act b v) = act b (act a v)"
    and act_involution: "act a (act a v) = v"
    and act_faithful: "valid a \<Longrightarrow> valid b \<Longrightarrow> (\<And>v. act a v = act b v) \<Longrightarrow> a = b"
begin

lemma compose_commute: "valid a \<Longrightarrow> valid b \<Longrightarrow> compose a b = compose b a"
  by (rule act_faithful) (simp_all add: valid_compose act_compose act_commute)

lemma compose_assoc:
  "valid a \<Longrightarrow> valid b \<Longrightarrow> valid c \<Longrightarrow> compose (compose a b) c = compose a (compose b c)"
  by (rule act_faithful) (simp_all add: valid_compose act_compose)

lemma compose_self: "valid a \<Longrightarrow> compose a a = stay"
  by (rule act_faithful) (simp_all add: valid_compose act_compose valid_stay act_stay act_involution)

lemma compose_cancel: "valid a \<Longrightarrow> valid b \<Longrightarrow> compose a (compose a b) = b"
  by (rule act_faithful) (simp_all add: valid_compose act_compose act_involution)

lemma valid_fold:
  "valid a \<Longrightarrow> \<forall>m\<in>set ms. valid m \<Longrightarrow> valid (fold compose ms a)"
  by (induction ms arbitrary: a) (simp_all add: valid_compose)

lemma act_fold:
  "valid a \<Longrightarrow> \<forall>m\<in>set ms. valid m \<Longrightarrow> act (fold compose ms a) v = fold act ms (act a v)"
  by (induction ms arbitrary: a) (simp_all add: valid_compose act_compose)

lemma fold_act_mset:
  assumes "mset xs = mset ys"
  shows "fold act xs v = fold act ys v"
proof -
  have "fold act xs = fold act ys"
  proof (rule fold_multiset_equiv [OF _ assms])
    show "act x \<circ> act y = act y \<circ> act x" for x y
      by (rule ext) (simp add: act_commute [of x y])
  qed
  then show ?thesis by simp
qed

lemma fold_compose_order:
  assumes "mset xs = mset ys" "\<forall>m\<in>set xs. valid m"
  shows "fold compose xs stay = fold compose ys stay"
proof (rule act_faithful)
  have ys: "\<forall>m\<in>set ys. valid m" using assms(2) mset_eq_setD [OF assms(1)] by simp
  show "valid (fold compose xs stay)" "valid (fold compose ys stay)"
    using assms(2) ys by (simp_all add: valid_fold valid_stay)
  show "act (fold compose xs stay) v = act (fold compose ys stay) v" for v
    using assms(2) ys fold_act_mset [OF assms(1), of "act stay v"] by (simp add: act_fold valid_stay)
qed

end

text \<open>Checked moves act on a memory of words by XOR; this is the source's composition.\<close>

definition act_move :: "moves \<Rightarrow> (u32 \<Rightarrow> u32) \<Rightarrow> u32 \<Rightarrow> u32" where
  "act_move ps mem w = mem w XOR move_at ps w"

interpretation mv: xor_moves sparse_xor_loop "[]" valid_moves act_move
proof
  show "a = b" if "valid_moves a" "valid_moves b" "\<And>v. act_move a v = act_move b v" for a b
  proof (rule valid_moves_canonical [OF that(1,2)])
    fix w
    show "move_at a w = move_at b w"
      using fun_cong [OF that(3) [of "\<lambda>_. 0"], of w] by (simp add: act_move_def)
  qed
qed (simp_all add: act_move_def fun_eq_iff sparse_xor_loop_valid sparse_xor_loop_at
       xor.assoc xor.left_commute xor.commute)

section \<open>Random draws\<close>

text \<open>\<open>gen64\<close> and \<open>gen32\<close> are \<open>rng.gen_range(lo..hi)\<close> at the two types.\<close>

type_synonym 's gen64 = "'s \<Rightarrow> u64 \<Rightarrow> u64 \<Rightarrow> u64 \<times> 's"
type_synonym 's gen32 = "'s \<Rightarrow> u32 \<Rightarrow> u32 \<Rightarrow> u32 \<times> 's"

record layout =
  parameter_starts :: "u64 list"
  parameter_ends :: "u64 list"
  word_offsets :: "u32 list"
  widths :: "u8 list"

fun check_layout_loop :: "layout \<Rightarrow> nat \<Rightarrow> nat \<Rightarrow> sparse_error + unit" where
  "check_layout_loop lay i 0 = Inr ()"
| "check_layout_loop lay i (Suc k) =
     rbind (ensure (parameter_starts lay ! i < parameter_ends lay ! i) LayoutEmptyRange) (\<lambda>_.
     rbind (ensure (\<not> (0 < i \<and> parameter_starts lay ! i < parameter_ends lay ! (i - 1))) LayoutOverlap) (\<lambda>_.
     rbind (ensure (widths lay ! i = 4 \<or> widths lay ! i = 8) (LayoutWidth (widths lay ! i))) (\<lambda>_.
     check_layout_loop lay (Suc i) k)))"

definition check_draw :: "nat \<Rightarrow> nat \<Rightarrow> u64 \<Rightarrow> layout \<Rightarrow> sparse_error + unit" where
  "check_draw row_count picks dimension lay =
     (let n = length (parameter_ends lay) in
      rbind (ensure (row_count \<noteq> 0 \<and> picks \<noteq> 0 \<and> dimension \<noteq> 0) DrawNotPositive) (\<lambda>_.
      rbind (ensure (length (parameter_starts lay) = n \<and> length (word_offsets lay) = n
                     \<and> length (widths lay) = n \<and> n \<noteq> 0) LayoutLengthMismatch) (\<lambda>_.
      rbind (check_layout_loop lay 0 n) (\<lambda>_.
      ensure (parameter_starts lay ! 0 = 0 \<and> parameter_ends lay ! (n - 1) = dimension)
        LayoutNotCovering))))"

definition draw_pair :: "'s gen64 \<Rightarrow> 's gen32 \<Rightarrow> layout \<Rightarrow> u64 \<Rightarrow> 's \<Rightarrow> (u32 \<times> u32) \<times> 's" where
  "draw_pair gen64 gen32 lay dimension s =
     (let (parameter, s1) = gen64 s 0 dimension;
          spec = length (takeWhile (\<lambda>e. e \<le> parameter) (parameter_ends lay));
          local = parameter - parameter_starts lay ! spec;
          width = ucast (widths lay ! spec) :: u32;
          fields_per_word = 32 div width;
          word = word_offsets lay ! spec + ucast local div fields_per_word;
          bit = (ucast local mod fields_per_word) * width;
          (code, s2) = gen32 s1 1 (push_bit (unat width) 1)
      in ((word, push_bit (unat bit) code), s2))"

fun draw_pairs :: "nat \<Rightarrow> 's gen64 \<Rightarrow> 's gen32 \<Rightarrow> layout \<Rightarrow> u64 \<Rightarrow> 's \<Rightarrow> moves \<times> 's" where
  "draw_pairs 0 gen64 gen32 lay dimension s = ([], s)"
| "draw_pairs (Suc k) gen64 gen32 lay dimension s =
     (let (p, s1) = draw_pair gen64 gen32 lay dimension s;
          (ps, s2) = draw_pairs k gen64 gen32 lay dimension s1
      in (p # ps, s2))"

text \<open>One step of the combining loop; the accumulator is the row so far, in order.\<close>

definition combine_step :: "u32 \<times> u32 \<Rightarrow> moves \<Rightarrow> moves" where
  "combine_step p row =
     (if row \<noteq> [] \<and> fst (last row) = fst p then
        (let m = snd (last row) XOR snd p
         in if m = 0 then butlast row else butlast row @ [(fst p, m)])
      else row @ [p])"

definition combine_pairs :: "moves \<Rightarrow> moves" where
  "combine_pairs pairs = fold combine_step pairs []"

definition draw_row :: "nat \<Rightarrow> 's gen64 \<Rightarrow> 's gen32 \<Rightarrow> layout \<Rightarrow> u64 \<Rightarrow> 's \<Rightarrow> moves \<times> 's" where
  "draw_row picks gen64 gen32 lay dimension s =
     (let (pairs, s') = draw_pairs picks gen64 gen32 lay dimension s
      in (combine_pairs (sort_le (\<lambda>p q. fst p \<le> fst q) pairs), s'))"

fun draw_rows :: "nat \<Rightarrow> nat \<Rightarrow> 's gen64 \<Rightarrow> 's gen32 \<Rightarrow> layout \<Rightarrow> u64 \<Rightarrow> 's \<Rightarrow> moves list" where
  "draw_rows 0 picks gen64 gen32 lay dimension s = []"
| "draw_rows (Suc k) picks gen64 gen32 lay dimension s =
     (let (row, s') = draw_row picks gen64 gen32 lay dimension s
      in row # draw_rows k picks gen64 gen32 lay dimension s')"

definition draw_sparse ::
    "(u64 \<Rightarrow> 's) \<Rightarrow> 's gen64 \<Rightarrow> 's gen32 \<Rightarrow> nat \<Rightarrow> nat \<Rightarrow> u64 \<Rightarrow> layout \<Rightarrow> u64
     \<Rightarrow> sparse_error + (u32 list \<times> u32 list) list" where
  "draw_sparse seed_from gen64 gen32 row_count picks dimension lay seed =
     rbind (check_draw row_count picks dimension lay) (\<lambda>_.
     Inr (map (\<lambda>row. (map fst row, map snd row))
            (draw_rows row_count picks gen64 gen32 lay dimension (seed_from seed))))"

section \<open>Combining drawn pairs\<close>

text \<open>The combined row denotes, at each word, the XOR of the masks drawn for it.\<close>

definition xor_of :: "moves \<Rightarrow> u32 \<Rightarrow> u32" where
  "xor_of pairs w = foldr (\<lambda>p acc. (if fst p = w then snd p else 0) XOR acc) pairs 0"

lemma xor_of_Cons:
  "xor_of [] w = 0" "xor_of (p # ps) w = (if fst p = w then snd p else 0) XOR xor_of ps w"
  by (simp_all add: xor_of_def)

lemma xor_of_append: "xor_of (ps @ qs) w = xor_of ps w XOR xor_of qs w"
  by (induction ps) (simp_all add: xor_of_def xor.assoc)

lemma xor_of_valid: "valid_moves ps \<Longrightarrow> xor_of ps w = move_at ps w"
  by (induction ps) (auto simp: xor_of_def move_at_notin)

lemma xor_of_mset: "mset ps = mset qs \<Longrightarrow> xor_of ps w = xor_of qs w"
proof -
  assume eq: "mset ps = mset qs"
  let ?f = "\<lambda>p acc. (if fst p = w then snd p else 0) XOR acc"
  have "fold ?f (rev ps) = fold ?f (rev qs)"
    by (rule fold_multiset_equiv) (simp_all add: eq fun_eq_iff xor.left_commute)
  then show ?thesis by (simp add: xor_of_def foldr_conv_fold)
qed

lemma valid_moves_append:
  "valid_moves (ps @ qs) \<longleftrightarrow>
     valid_moves ps \<and> valid_moves qs \<and> (\<forall>x\<in>words_of ps. \<forall>y\<in>words_of qs. x < y)"
  by (auto simp: valid_moves_def sorted_wrt_append words_of_def)

lemma words_of_append [simp]: "words_of (ps @ qs) = words_of ps \<union> words_of qs"
  by (auto simp: words_of_def)

lemma combine_step_ok:
  assumes "valid_moves row" "\<forall>x\<in>words_of row. x \<le> w" "m \<noteq> 0"
  shows "valid_moves (combine_step (w, m) row) \<and> words_of (combine_step (w, m) row) \<subseteq> insert w (words_of row)
    \<and> xor_of (combine_step (w, m) row) y = xor_of (row @ [(w, m)]) y"
proof (cases "row \<noteq> [] \<and> fst (last row) = w")
  case True
  define rs k where "rs = butlast row" and "k = snd (last row)"
  have row: "row = rs @ [(w, k)]"
    using True append_butlast_last_id [of row] by (cases "last row") (simp add: rs_def k_def)
  have "k = m" if "k XOR m = 0"
    using arg_cong [OF that, of "\<lambda>x. x XOR m"] by (simp add: xor.assoc)
  with assms show ?thesis
    by (auto simp: row combine_step_def Let_def valid_moves_append xor_of_append xor_of_def)
next
  case False
  have "x < w" if "x \<in> words_of row" for x
  proof -
    have "row \<noteq> []" using that by auto
    then obtain rs q where row: "row = rs @ [q]" by (cases row rule: rev_cases) simp_all
    then have "fst q < w" using assms(2) False by (auto simp: order.strict_iff_order)
    then show ?thesis using that assms(1) by (auto simp: row valid_moves_append intro: order.strict_trans)
  qed
  then show ?thesis using assms False by (auto simp: combine_step_def valid_moves_append)
qed

lemma fold_combine_ok:
  "sorted_wrt (\<lambda>p q. fst p \<le> fst q) pairs \<Longrightarrow> \<forall>p\<in>set pairs. snd p \<noteq> 0 \<Longrightarrow> valid_moves row \<Longrightarrow>
   \<forall>x\<in>words_of row. \<forall>p\<in>set pairs. x \<le> fst p \<Longrightarrow>
   valid_moves (fold combine_step pairs row) \<and>
   xor_of (fold combine_step pairs row) y = xor_of (row @ pairs) y"
proof (induction pairs arbitrary: row)
  case Nil
  then show ?case by simp
next
  case (Cons p pairs)
  obtain w m where p: "p = (w, m)" by (cases p)
  have step: "valid_moves (combine_step (w, m) row)"
    "words_of (combine_step (w, m) row) \<subseteq> insert w (words_of row)"
    "xor_of (combine_step (w, m) row) y = xor_of (row @ [(w, m)]) y"
    using combine_step_ok [of row w m y] Cons.prems by (auto simp: p)
  have "\<forall>x\<in>words_of (combine_step (w, m) row). \<forall>q\<in>set pairs. x \<le> fst q"
    using step(2) Cons.prems(1,4) by (auto simp: p)
  with Cons.IH [of "combine_step (w, m) row"] Cons.prems step(1,3) show ?case
    by (simp add: p xor_of_append xor_of_Cons xor.assoc)
qed

lemma combine_pairs_ok:
  assumes "sorted_wrt (\<lambda>p q. fst p \<le> fst q) pairs" "\<forall>p\<in>set pairs. snd p \<noteq> 0"
  shows "valid_moves (combine_pairs pairs)" "move_at (combine_pairs pairs) y = xor_of pairs y"
  using fold_combine_ok [of pairs "[]" y] assms
  by (simp_all add: combine_pairs_def flip: xor_of_valid)

lemma by_word_preorder: "total_preorder (\<lambda>p q :: u32 \<times> u32. fst p \<le> fst q)"
  by (rule total_preorderI) auto

section \<open>Every drawn row is a checked move\<close>

definition gen_in_range :: "('s \<Rightarrow> 'n \<Rightarrow> 'n \<Rightarrow> 'n::ord \<times> 's) \<Rightarrow> bool" where
  "gen_in_range gen \<longleftrightarrow> (\<forall>s lo hi. lo < hi \<longrightarrow> lo \<le> fst (gen s lo hi) \<and> fst (gen s lo hi) < hi)"

lemma check_layout_loop_iff:
  "check_layout_loop lay i k = Inr () \<longleftrightarrow>
   (\<forall>j. i \<le> j \<and> j < i + k \<longrightarrow> parameter_starts lay ! j < parameter_ends lay ! j \<and>
      (0 < j \<longrightarrow> parameter_ends lay ! (j - 1) \<le> parameter_starts lay ! j) \<and>
      (widths lay ! j = 4 \<or> widths lay ! j = 8))"
proof (induction k arbitrary: i)
  case 0
  then show ?case by auto
next
  case (Suc k)
  have split: "(\<forall>j. i \<le> j \<and> j < i + Suc k \<longrightarrow> P j) \<longleftrightarrow> P i \<and> (\<forall>j. Suc i \<le> j \<and> j < Suc i + k \<longrightarrow> P j)" for P
    by (metis Suc_le_eq add_Suc_right add_Suc le_eq_less_or_eq less_add_Suc1)
  show ?case unfolding split by (auto simp: res_simps Suc.IH not_less)
qed

lemma push_bit_nonzero:
  assumes "0 < unat code" "unat code < 2 ^ m" "n + m \<le> 32"
  shows "push_bit n code \<noteq> (0::u32)"
proof -
  have "unat code * 2 ^ n < 2 ^ m * 2 ^ n" using assms(2) by simp
  also have "\<dots> = 2 ^ (n + m)" by (simp add: power_add)
  also have "(2::nat) ^ (n + m) \<le> 2 ^ 32" using assms(3) by (rule power_increasing) simp
  finally have "unat code * 2 ^ n < 2 ^ 32" .
  then have "unat (push_bit n code) = unat code * 2 ^ n"
    unfolding unsigned_push_bit_eq by (simp add: push_bit_eq_mult take_bit_nat_eq_self)
  then have "0 < unat (push_bit n code)" using assms(1) by simp
  then show ?thesis by (metis less_irrefl unat_0)
qed

lemma field_shift_bound:
  assumes "width = 4 \<or> width = (8::u32)"
  shows "unat ((k mod (32 div width)) * width) + unat width \<le> 32"
proof -
  have "unat (k mod 8 * 4) + 4 \<le> 32" for k :: u32
  proof -
    have "unat (k mod 8) < 8" by (simp add: unat_mod)
    then show ?thesis by (simp add: unat_word_ariths)
  qed
  moreover have "unat (k mod 4 * 8) + 8 \<le> 32" for k :: u32
  proof -
    have "unat (k mod 4) < 4" by (simp add: unat_mod)
    then show ?thesis by (simp add: unat_word_ariths)
  qed
  moreover have "32 div 4 = (8::u32)" "32 div 8 = (4::u32)" by simp_all
  ultimately show ?thesis using assms by auto
qed

lemma shifted_code_nonzero:
  assumes "width = 4 \<or> width = (8::u32)" "1 \<le> code" "code < push_bit (unat width) 1"
  shows "push_bit (unat ((k mod (32 div width)) * width)) code \<noteq> (0::u32)"
proof (rule push_bit_nonzero [where m = "unat width"])
  show "0 < unat code" "unat code < 2 ^ unat width"
    using assms by (auto simp: word_le_nat_alt word_less_nat_alt push_bit_of_1)
qed (rule field_shift_bound [OF assms(1)])

lemma draw_pair_nonzero:
  assumes check: "check_draw row_count picks dimension lay = Inr ()"
    and gens: "gen_in_range gen64" "gen_in_range gen32"
  shows "snd (fst (draw_pair gen64 gen32 lay dimension s)) \<noteq> 0"
proof -
  let ?n = "length (parameter_ends lay)"
  obtain parameter s1 where g: "gen64 s 0 dimension = (parameter, s1)" by (cases "gen64 s 0 dimension")
  have d: "dimension \<noteq> 0" and n: "?n \<noteq> 0" and last: "parameter_ends lay ! (?n - 1) = dimension"
    and all: "\<forall>j<?n. widths lay ! j = 4 \<or> widths lay ! j = 8"
    using check by (auto simp: check_draw_def Let_def res_simps check_layout_loop_iff)
  then have "0 < dimension" by (simp add: word_neq_0_conv)
  then have "parameter < dimension"
    using gens(1) g unfolding gen_in_range_def by (metis fst_conv)
  define j where "j = length (takeWhile (\<lambda>e. e \<le> parameter) (parameter_ends lay))"
  have "j < ?n"
  proof (rule ccontr)
    assume "\<not> j < ?n"
    then have "takeWhile (\<lambda>e. e \<le> parameter) (parameter_ends lay) = parameter_ends lay"
      by (metis j_def length_takeWhile_le linorder_neqE_nat not_le takeWhile_eq_take take_all)
    then have "\<forall>e\<in>set (parameter_ends lay). e \<le> parameter" by (simp add: takeWhile_eq_all_conv)
    moreover have "?n - 1 < ?n" using n by simp
    from nth_mem [OF this] have "dimension \<in> set (parameter_ends lay)" using last by simp
    ultimately show False using \<open>parameter < dimension\<close> by auto
  qed
  define width where "width = (ucast (widths lay ! j) :: u32)"
  have width: "width = 4 \<or> width = 8" using all \<open>j < ?n\<close> by (auto simp: width_def)
  obtain code s2 where c: "gen32 s1 1 (push_bit (unat width) 1) = (code, s2)"
    by (cases "gen32 s1 1 (push_bit (unat width) 1)")
  have "1 < push_bit (unat width) (1::u32)" using width by auto
  then have "1 \<le> code \<and> code < push_bit (unat width) 1"
    using gens(2) c unfolding gen_in_range_def by (metis fst_conv)
  then show ?thesis
    using shifted_code_nonzero [OF width] by (simp add: draw_pair_def g c [simplified] Let_def flip: j_def width_def)
qed

lemma draw_pairs_nonzero:
  assumes "check_draw row_count picks dimension lay = Inr ()" "gen_in_range gen64" "gen_in_range gen32"
  shows "\<forall>p\<in>set (fst (draw_pairs k gen64 gen32 lay dimension s)). snd p \<noteq> 0"
proof (induction k arbitrary: s)
  case 0
  then show ?case by simp
next
  case (Suc k)
  obtain p s1 where p: "draw_pair gen64 gen32 lay dimension s = (p, s1)"
    by (cases "draw_pair gen64 gen32 lay dimension s")
  then have "snd p \<noteq> 0" using draw_pair_nonzero [OF assms, of s] by simp
  then show ?case using Suc.IH [of s1] by (auto simp: p split: prod.splits)
qed

lemma draw_row_valid:
  assumes "check_draw row_count picks dimension lay = Inr ()" "gen_in_range gen64" "gen_in_range gen32"
  shows "valid_moves (fst (draw_row picks gen64 gen32 lay dimension s))"
proof -
  obtain pairs s' where d: "draw_pairs picks gen64 gen32 lay dimension s = (pairs, s')"
    by (cases "draw_pairs picks gen64 gen32 lay dimension s")
  then have "\<forall>p\<in>set pairs. snd p \<noteq> 0" using draw_pairs_nonzero [OF assms, of picks s] by simp
  then show ?thesis
    using combine_pairs_ok(1) [OF sorted_wrt_sort_le [OF by_word_preorder], of pairs]
    by (simp add: draw_row_def d)
qed

lemma draw_rows_valid:
  assumes "check_draw row_count picks dimension lay = Inr ()" "gen_in_range gen64" "gen_in_range gen32"
  shows "length (draw_rows k picks gen64 gen32 lay dimension s) = k \<and>
         (\<forall>row\<in>set (draw_rows k picks gen64 gen32 lay dimension s). valid_moves row)"
proof (induction k arbitrary: s)
  case 0
  then show ?case by simp
next
  case (Suc k)
  obtain row s' where d: "draw_row picks gen64 gen32 lay dimension s = (row, s')"
    by (cases "draw_row picks gen64 gen32 lay dimension s")
  then have "valid_moves row" using draw_row_valid [OF assms, of s] by simp
  then show ?case using Suc.IH [of s'] by (simp add: d)
qed

section \<open>Properties\<close>

text \<open>C14: \<open>apply_sparse\<close> after \<open>sparse_xor\<close> is \<open>apply_sparse\<close> twice. For checked moves the
  composition succeeds with a checked move, and applying it to the stored values of sorted
  words equals applying the right move and then the left one; so a composed move may be
  shipped in place of the two moves.\<close>

theorem apply_composed_move:
  assumes "length words = length values" "sorted words"
    and "check_move lw lm = Inr ()" "check_move rw rm = Inr ()"
  shows "\<exists>ow om. sparse_xor lw lm rw rm = Inr (ow, om) \<and> check_move ow om = Inr () \<and>
           apply_sparse words values ow om =
             rbind (apply_sparse words values rw rm) (\<lambda>mid. apply_sparse words mid lw lm)"
proof -
  let ?l = "zip lw lm" and ?r = "zip rw rm"
  have v: "valid_moves ?l" "valid_moves ?r" using assms(3,4) by (simp_all add: check_move_iff)
  let ?o = "sparse_xor_loop ?l ?r"
  have o: "valid_moves ?o" using v by (rule sparse_xor_loop_valid)
  have "map2 (\<lambda>w v. v XOR move_at ?l w) words (map2 (\<lambda>w v. v XOR move_at ?r w) words values)
      = map2 (\<lambda>w v. v XOR move_at ?o w) words values"
    by (rule nth_equalityI) (simp_all add: assms(1) sparse_xor_loop_at [OF v] ac_simps)
  moreover have "check_move (map fst ?o) (map snd ?o) = Inr ()"
    using o by (simp add: check_move_iff zip_map_fst_snd)
  moreover have "sparse_xor lw lm rw rm = Inr (map fst ?o, map snd ?o)"
    using assms(3,4) by (simp add: sparse_xor_def Let_def)
  moreover have "apply_sparse_loop words (apply_sparse_loop words values ?r) ?l
      = apply_sparse_loop words values ?o"
    using calculation(1) assms(1)
    by (simp add: apply_sparse_loop_eq assms(2) v o)
  ultimately show ?thesis
    using assms(1,3,4) apply_sparse_loop_eq [OF assms(1,2) v(2)]
    by (rule_tac x = "map fst ?o" in exI, rule_tac x = "map snd ?o" in exI)
      (simp add: apply_sparse_def zip_map_fst_snd)
qed

theorem apply_composed_move_witness:
  "\<exists>ow om. sparse_xor [1, 3] [7, 4] [3, 5] [4, 2] = Inr (ow, om) \<and> check_move ow om = Inr () \<and>
     apply_sparse [1, 3, 5] [10, 20, 30] ow om =
       rbind (apply_sparse [1, 3, 5] [10, 20, 30] [3, 5] [4, 2])
         (\<lambda>mid. apply_sparse [1, 3, 5] mid [1, 3] [7, 4])"
  by (rule apply_composed_move) (simp_all add: check_move_def)

text \<open>The order in which checked moves are combined is irrelevant: composing any two
  arrangements of the same moves one by one gives the same move, and acting with it on a
  memory is acting with the moves in turn.\<close>

theorem composition_order_irrelevant:
  assumes "mset xs = mset ys" "\<forall>m\<in>set xs. valid_moves m"
  shows "fold sparse_xor_loop xs [] = fold sparse_xor_loop ys [] \<and>
         act_move (fold sparse_xor_loop xs []) mem = fold act_move ys mem"
  using mv.fold_compose_order [OF assms] mv.act_fold [OF mv.valid_stay assms(2), of mem]
    mv.fold_act_mset [OF assms(1), of mem]
  by (simp add: mv.act_stay)

theorem composition_order_irrelevant_witness:
  "fold sparse_xor_loop [[(1, 7), (3, 4)], [(3, 4), (5, 2)]] [] =
     fold sparse_xor_loop [[(3, 4), (5, 2)], [(1, 7), (3, 4)]] [] \<and>
   act_move (fold sparse_xor_loop [[(1, 7), (3, 4)], [(3, 4), (5, 2)]] []) (\<lambda>_. 0) =
     fold act_move [[(3, 4), (5, 2)], [(1, 7), (3, 4)]] (\<lambda>_. 0)"
  by (rule composition_order_irrelevant) simp_all

text \<open>\<open>sparse_union\<close> of strictly increasing rows is the strictly increasing list of exactly
  the words that occur in some row, however the pairwise merging tree is shaped.\<close>

theorem sparse_union_correct:
  assumes "\<forall>row\<in>set rows. sorted_wrt (<) row"
  shows "sorted_wrt (<) (sparse_union rows) \<and> set (sparse_union rows) = \<Union> (set ` set rows)"
  using sparse_union_loop_correct [OF _ assms] by (simp add: sparse_union_def)

theorem sparse_union_correct_witness:
  "sorted_wrt (<) (sparse_union [[1, 4], [2, 4], [0::u32]]) \<and>
   set (sparse_union [[1, 4], [2, 4], [0]]) = \<Union> (set ` set [[1, 4], [2, 4], [0]])"
  by (rule sparse_union_correct) simp

lemma words_of_zip_map: "words_of (zip xs (map f xs)) = set xs"
  by (induction xs) simp_all

text \<open>Refilling the cache is complete. For a strictly sorted cache that agrees with the
  backing store \<open>fetch\<close> and a sorted query, fetching the words \<open>missing_words\<close> reports,
  merging them in and taking the query succeeds and returns the stored value of every query
  word; without duplicates in the query the merged cache is again strictly sorted.\<close>

theorem cache_refill_complete:
  assumes "sorted_wrt (<) cached" "sorted_wrt (<) query"
  shows "\<exists>words values. merge_values cached (map fetch cached) (missing_words cached query)
             (map fetch (missing_words cached query)) = Inr (words, values) \<and>
           take_words words values query = Inr (map fetch query) \<and>
           sorted_wrt (<) words \<and> set words = set cached \<union> set query \<and> values = map fetch words"
proof -
  let ?miss = "missing_words cached query"
  let ?l = "zip cached (map fetch cached)" and ?r = "zip ?miss (map fetch ?miss)"
  let ?o = "merge_values_loop ?l ?r"
  have miss: "?miss = filter (\<lambda>w. w \<notin> set cached) query"
    using assms by (intro missing_words_eq strict_sorted_imp_sorted)
  have sorted: "sorted_cache ?l" "sorted_cache ?r"
    using assms by (simp_all add: sorted_cache_def miss sorted_wrt_filter)
  have words: "words_of ?l = set cached" "words_of ?r = set ?miss"
    by (simp_all add: words_of_zip_map)
  have so: "sorted_cache ?o" using sorted by (rule merge_values_loop_sorted)
  have wo: "words_of ?o = set cached \<union> set query"
    unfolding merge_values_loop_words words by (auto simp: miss)
  have zipf: "map_of (zip xs (map fetch xs)) w = (if w \<in> set xs then Some (fetch w) else None)" for xs w
    by (induction xs) auto
  have look: "map_of ?o w = Some (fetch w)" if "w \<in> words_of ?o" for w
  proof -
    have "w \<in> set cached \<union> set query" using that by (simp add: wo)
    then show ?thesis
      unfolding merge_values_loop_lookup [OF sorted] by (auto simp: zipf map_add_def miss)
  qed
  have "snd p = fetch (fst p)" if "p \<in> set ?o" for p
  proof -
    have "distinct (map fst ?o)" using so by (simp add: sorted_cache_def strict_sorted_iff)
    then have "map_of ?o (fst p) = Some (snd p)" using that by simp
    moreover have "fst p \<in> words_of ?o" using that by (simp add: words_of_def)
    ultimately show ?thesis using look [of "fst p"] by simp
  qed
  then have vals: "map snd ?o = map fetch (map fst ?o)" by simp
  have "take_words_loop ?o query = Inr (map (\<lambda>w. the (map_of ?o w)) query)"
    using so assms(2) wo by (intro take_words_loop_eq strict_sorted_imp_sorted) auto
  also have "map (\<lambda>w. the (map_of ?o w)) query = map fetch query"
    using look wo by (intro map_cong) auto
  finally have "take_words (map fst ?o) (map snd ?o) query = Inr (map fetch query)"
    by (simp add: take_words_def zip_map_fst_snd)
  moreover have "set (map fst ?o) = set cached \<union> set query" using wo by (simp add: words_of_def)
  moreover have "merge_values cached (map fetch cached) ?miss (map fetch ?miss)
      = Inr (map fst ?o, map snd ?o)"
    by (simp add: merge_values_def Let_def)
  moreover have "sorted_wrt (<) (map fst ?o)" using so by (simp add: sorted_cache_def)
  ultimately show ?thesis using vals by blast
qed

theorem cache_refill_complete_witness:
  "\<exists>words values. merge_values [1, 4] (map (\<lambda>w. 10 * w) [1, 4]) (missing_words [1, 4] [0, 4, 9])
       (map (\<lambda>w. 10 * w) (missing_words [1, 4] [0, 4, 9])) = Inr (words, values) \<and>
     take_words words values [0, 4, 9] = Inr (map (\<lambda>w. 10 * w) [0, 4, 9]) \<and>
     sorted_wrt (<) words \<and> set words = set [1, 4] \<union> set [0, 4, 9] \<and>
     values = map (\<lambda>w. 10 * w) words"
  by (rule cache_refill_complete) simp_all

lemma word_width_range: "word_width ends ws word = Inr b \<Longrightarrow> b = 4 \<or> b = 8"
  by (auto simp: word_width_def Let_def split: if_splits)

text \<open>The blocks of a word selection are contiguous from offset 0, nonempty, of width 4 or
  8, and end exactly at the reported dimension, which counts \<open>32 / bits\<close> fields per word.\<close>

theorem blocks_for_words_cover:
  assumes "blocks_for_words words word_ends ws = Inr (blocks, dim)"
  shows "blocks_cover 0 blocks dim \<and>
    (\<exists>bits. map_res (word_width word_ends ws) words = Inr bits \<and>
       dim = sum_list (map (\<lambda>b. 32 div unat b) bits))"
proof (cases "words = []")
  case True
  then show ?thesis using assms by (simp add: blocks_for_words_def res_simps)
next
  case False
  then obtain bits where b: "map_res (word_width word_ends ws) words = Inr bits"
    "block_runs 0 bits = (blocks, dim)"
    using assms by (auto simp: blocks_for_words_def res_simps)
  have "set bits \<subseteq> {4, 8}"
    using b(1) word_width_range
    by (force simp: map_res_Inr_conv list_all2_conv_all_nth in_set_conv_nth)
  from block_runs_cover [OF this b(2)] b(1) show ?thesis by auto
qed

theorem blocks_for_words_cover_witness:
  "\<exists>blocks dim. blocks_for_words [0, 1, 5] [2, 8] [4, 8] = Inr (blocks, dim) \<and> blocks_cover 0 blocks dim"
proof -
  have "blocks_for_words [0, 1, 5] [2, 8] [4, 8] = Inr ([(0, 16, 4), (16, 4, 8)], 20)"
    by code_simp
  from blocks_for_words_cover [OF this] this show ?thesis by blast
qed

text \<open>For a generator that stays in its half-open ranges, \<open>draw_sparse\<close> fails only on
  the arguments \<open>check_draw\<close> refuses; otherwise it returns \<open>count\<close> rows, and every row passes
  \<open>check_move\<close>: repeated words are combined and cancelled masks removed.\<close>

theorem draw_sparse_rows_checked:
  assumes "gen_in_range gen64" "gen_in_range gen32"
    and "check_draw row_count picks dimension lay = Inr ()"
  shows "\<exists>rows. draw_sparse seed_from gen64 gen32 row_count picks dimension lay seed = Inr rows \<and>
           length rows = row_count \<and> (\<forall>(words, masks)\<in>set rows. check_move words masks = Inr ())"
  using draw_rows_valid [OF assms(3,1,2), of row_count "seed_from seed"] assms(3)
  by (auto simp: draw_sparse_def check_move_iff zip_map_fst_snd)

theorem draw_sparse_rows_checked_witness:
  "\<exists>rows. draw_sparse (\<lambda>_. ()) (\<lambda>s lo hi. (lo, s)) (\<lambda>s lo hi. (lo, s)) 2 3 16
       \<lparr>parameter_starts = [0, 8], parameter_ends = [8, 16], word_offsets = [0, 1], widths = [4, 8]\<rparr> 7
     = Inr rows \<and> length rows = 2 \<and> (\<forall>(words, masks)\<in>set rows. check_move words masks = Inr ())"
proof (rule draw_sparse_rows_checked)
  show "check_draw 2 3 16 \<lparr>parameter_starts = [0, 8], parameter_ends = [8, 16],
      word_offsets = [0, 1], widths = [4, 8]\<rparr> = Inr ()"
    by code_simp
qed (simp_all add: gen_in_range_def)

end
