(* ===== verification/Surrogate.thy ===== *)
theory Surrogate
  imports Fitter PosteriorDraw
begin

text \<open>
  The ENN surrogate (\<open>rust/crates/ennx/src/surrogate.rs\<close>): a model, its fitter and the parameters
  found last, with the fits that keep them in step and the reads that an optimiser uses.

  The contents of the configured work directory are an argument of the operations that make a model.
  The caller's generator is a parameter that yields a local generator or the seed of a draw; seeds
  wrap as in a build without overflow checks. Dropping a model can wait for a flush, which is no result.
\<close>

record ('f, 'r, 'g, 'q) surrogate_env = "('f, 'r, 'g) fit_env" +
  se_local :: "'q \<Rightarrow> 'g \<times> 'q"
  se_base_seed :: "'q \<Rightarrow> u64 \<times> 'q"

record ENNSurrogateConfig =
  sc_k :: int
  sc_scale_x :: bool
  sc_candidates :: nat
  sc_samples :: nat
  sc_infer :: bool
  sc_driver :: IndexDriver
  sc_storage :: EnnStorage
  sc_y_bounds :: "ematrix option"

definition default_surrogate_config :: ENNSurrogateConfig where
  "default_surrogate_config = \<lparr>sc_k = 10, sc_scale_x = False, sc_candidates = 30, sc_samples = 10, sc_infer = True,
     sc_driver = Exact, sc_storage = StorageInMemory, sc_y_bounds = None\<rparr>"

record 'f ENNSurrogate =
  su_config :: ENNSurrogateConfig
  su_model :: "'f EpistemicNearestNeighbors option"
  su_params :: "ENNParams option"
  su_fitter :: "ENNFitter option"

definition surrogate_new :: "ENNSurrogateConfig \<Rightarrow> 'f ENNSurrogate" where
  "surrogate_new config = \<lparr>su_config = config, su_model = None, su_params = None, su_fitter = None\<rparr>"

definition construct_model ::
    "('f, 'r, 'g, 'q) surrogate_env \<Rightarrow> place option \<Rightarrow> ematrix \<Rightarrow> ematrix \<Rightarrow> ematrix option \<Rightarrow> 'f ENNSurrogate
      \<Rightarrow> (ENNError + 'f EpistemicNearestNeighbors) option" where
  "construct_model env dir x y yvar s =
     new_with_options (model_env.truncate env) x y yvar
       \<lparr>mo_scale_x = sc_scale_x (su_config s), mo_driver = sc_driver (su_config s), mo_storage = sc_storage (su_config s),
        mo_work_dir = dir, mo_y_bounds = sc_y_bounds (su_config s)\<rparr>"

definition new_fitter :: "'f ENNSurrogate \<Rightarrow> ENNFitter" where
  "new_fitter s = fitter_new (sc_k (su_config s)) (sc_infer (su_config s))"

definition keep_params :: "'f ENNSurrogate \<Rightarrow> ENNFitter \<Rightarrow> ENNFitter" where
  "keep_params s ft = (case su_params s of Some p \<Rightarrow> set_params p ft | None \<Rightarrow> ft)"

text \<open>A step on the model of a surrogate that has one.\<close>

definition on_su_model ::
    "('f EpistemicNearestNeighbors \<Rightarrow> ((ENNError + unit) \<times> 'f EpistemicNearestNeighbors) option) \<Rightarrow> 'f ENNSurrogate
      \<Rightarrow> ((ENNError + unit) \<times> 'f ENNSurrogate) option" where
  "on_su_model f s = (case su_model s of None \<Rightarrow> Some (Inr (), s)
     | Some m \<Rightarrow> map_option (\<lambda>(r, m1). (r, s\<lparr>su_model := Some m1\<rparr>)) (f m))"

definition release_pages ::
    "('f, 'r, 'g, 'q) surrogate_env \<Rightarrow> 'f EpistemicNearestNeighbors \<Rightarrow> ((ENNError + unit) \<times> 'f EpistemicNearestNeighbors) option" where
  "release_pages env = with_backend (\<lambda>b. Some (release_enn_observation_pages (backend_env.truncate env) b))"

section \<open>Fitting\<close>

text \<open>The fitter kept, or a new one told every row of the model.\<close>

definition current_fitter ::
    "('f, 'r, 'g, 'q) surrogate_env \<Rightarrow> 'f EpistemicNearestNeighbors \<Rightarrow> 'f ENNSurrogate \<Rightarrow> ENNError + ENNFitter" where
  "current_fitter env m s = (case su_fitter s of
      Some ft \<Rightarrow> Inr ft
    | None \<Rightarrow> rbind (eb_train_rows_at [0..<em_num_obs m] (em_backend m)) (\<lambda>(x, y, yvar).
        rbind (fitter_tell (fit_env.truncate env) x y yvar (new_fitter s)) (\<lambda>ft. Inr (keep_params s ft))))"

definition run_fitter ::
    "('f, 'r, 'g, 'q) surrogate_env \<Rightarrow> 'g \<Rightarrow> 'f ENNSurrogate \<Rightarrow> ((ENNError + unit) \<times> 'f ENNSurrogate) option" where
  "run_fitter env g s = (case su_model s of
      None \<Rightarrow> Some (Inl EParameter, s)
    | Some m \<Rightarrow> (case current_fitter env m s of
        Inl e \<Rightarrow> Some (Inl e, s)
      | Inr ft \<Rightarrow>
          map_option (\<lambda>(r, m1, _).
            let s1 = s\<lparr>su_model := Some m1, su_fitter := Some ft\<rparr> in
            case r of Inl e \<Rightarrow> (Inl e, s1)
            | Inr (p, ft1) \<Rightarrow> (Inr (), s1\<lparr>su_fitter := Some ft1, su_params := Some p\<rparr>))
          (fitter_ask (fit_env.truncate env) (sc_candidates (su_config s)) (sc_samples (su_config s)) (su_params s) ft (m, g))))"

definition bulk_disk_tell_skip_fit_rows :: nat where
  "bulk_disk_tell_skip_fit_rows = 4096"

text \<open>Rows for a model: stored, told to the fitter, then searched for parameters unless it is on disk
  and has some, or the rows are many.\<close>

definition append_to_model ::
    "('f, 'r, 'g, 'q) surrogate_env \<Rightarrow> ematrix \<Rightarrow> ematrix \<Rightarrow> ematrix option \<Rightarrow> 'g \<Rightarrow> 'f EpistemicNearestNeighbors \<Rightarrow> 'f ENNSurrogate
      \<Rightarrow> ((ENNError + unit) \<times> 'f ENNSurrogate) option" where
  "append_to_model env x y yvar g m s =
     then_step (map_option (\<lambda>(r, m1). (r, s\<lparr>su_model := Some m1\<rparr>)) (model_add (model_env.truncate env) x y yvar m)) (\<lambda>_ s1.
       case (case su_fitter s1 of None \<Rightarrow> Inr None
             | Some ft \<Rightarrow> rbind (fitter_tell (fit_env.truncate env) x y yvar ft) (\<lambda>ft1. Inr (Some ft1))) of
         Inl e \<Rightarrow> Some (Inl e, s1)
       | Inr ft \<Rightarrow>
           let s2 = s1\<lparr>su_fitter := ft\<rparr>;
               is_disk = (map_option (\<lambda>m. eb_driver (em_backend m)) (su_model s2) = Some BpAnnDisk);
               bulk_disk = (is_disk \<and> length (snd x) \<ge> bulk_disk_tell_skip_fit_rows);
               skip_fit = (bulk_disk \<or> is_disk \<and> su_params s2 \<noteq> None)
           in then_step (if \<not> skip_fit \<or> bulk_disk then on_su_model (model_ensure_sync (model_env.truncate env)) s2 else Some (Inr (), s2)) (\<lambda>_ s3.
              then_step (if \<not> skip_fit then run_fitter env g s3 else Some (Inr (), s3)) (\<lambda>_ s4.
                if \<not> skip_fit \<or> bulk_disk then on_su_model (release_pages env) s4 else Some (Inr (), s4))))"

definition fit_append_internal ::
    "('f, 'r, 'g, 'q) surrogate_env \<Rightarrow> place option \<Rightarrow> ematrix \<Rightarrow> ematrix \<Rightarrow> ematrix option \<Rightarrow> 'g \<Rightarrow> 'f ENNSurrogate
      \<Rightarrow> ((ENNError + unit) \<times> 'f ENNSurrogate) option" where
  "fit_append_internal env dir x y yvar g s = (case su_model s of
      Some m \<Rightarrow> append_to_model env x y yvar g m s
    | None \<Rightarrow> (case fitter_tell (fit_env.truncate env) x y yvar (new_fitter s) of
        Inl e \<Rightarrow> Some (Inl e, s)
      | Inr ft \<Rightarrow>
          then_step (map_option (\<lambda>r. (r, s)) (construct_model env dir x y yvar s)) (\<lambda>m _.
            let s1 = s\<lparr>su_model := Some m, su_fitter := Some ft\<rparr>;
                on_disk = (sc_driver (su_config s) = BpAnnDisk);
                skip_fit = (on_disk \<and> length (snd x) \<ge> bulk_disk_tell_skip_fit_rows)
            in if skip_fit then Some (Inr (), s1)
               else then_step (if on_disk then on_su_model (model_ensure_sync (model_env.truncate env)) s1 else Some (Inr (), s1)) (\<lambda>_ s2.
                 then_step (run_fitter env g s2) (\<lambda>_ s3.
                   if on_disk then on_su_model (release_pages env) s3 else Some (Inr (), s3))))))"

text \<open>The model that goes is dropped before the result is there.\<close>

definition dropping :: "('f, 'r, 'g, 'q) surrogate_env \<Rightarrow> 'f EpistemicNearestNeighbors option \<Rightarrow> 'a \<Rightarrow> 'a option" where
  "dropping env old r = (case old of None \<Rightarrow> Some r | Some m \<Rightarrow> map_option (\<lambda>_. r) (drop_model (model_env.truncate env) m))"

definition surrogate_fit ::
    "('f, 'r, 'g, 'q) surrogate_env \<Rightarrow> place option \<Rightarrow> ematrix \<Rightarrow> ematrix \<Rightarrow> ematrix option \<Rightarrow> 'f ENNSurrogate \<times> 'q
      \<Rightarrow> ((ENNError + unit) \<times> 'f ENNSurrogate \<times> 'q) option" where
  "surrogate_fit env dir x y yvar = (\<lambda>(s, q).
     let (g, q1) = se_local env q in
     case construct_model env dir x y yvar s of
       None \<Rightarrow> None
     | Some (Inl e) \<Rightarrow> Some (Inl e, s, q1)
     | Some (Inr m) \<Rightarrow>
         (case fitter_tell (fit_env.truncate env) x y yvar (new_fitter s) of
            Inl e \<Rightarrow> dropping env (Some m) (Inl e, s, q1)
          | Inr ft \<Rightarrow>
              (case fitter_ask (fit_env.truncate env) (sc_candidates (su_config s)) (sc_samples (su_config s)) (su_params s)
                      (keep_params s ft) (m, g) of
                 None \<Rightarrow> None
               | Some (Inl e, m1, _) \<Rightarrow> dropping env (Some m1) (Inl e, s, q1)
               | Some (Inr (p, ft1), m1, _) \<Rightarrow>
                   dropping env (su_model s) (Inr (), s\<lparr>su_model := Some m1, su_params := Some p, su_fitter := Some ft1\<rparr>, q1))))"

definition fit_append ::
    "('f, 'r, 'g, 'q) surrogate_env \<Rightarrow> place option \<Rightarrow> ematrix \<Rightarrow> ematrix \<Rightarrow> ematrix option \<Rightarrow> 'f ENNSurrogate \<times> 'q
      \<Rightarrow> ((ENNError + unit) \<times> 'f ENNSurrogate \<times> 'q) option" where
  "fit_append env dir x y yvar = (\<lambda>(s, q).
     let (g, q1) = se_local env q in
     map_option (\<lambda>(r, s1). (r, s1, q1)) (fit_append_internal env dir x y yvar g s))"

section \<open>Reading\<close>

definition fitted_num_metrics :: "'f ENNSurrogate \<Rightarrow> nat option" where
  "fitted_num_metrics s = map_option em_metrics (su_model s)"

definition observation_count :: "'f ENNSurrogate \<Rightarrow> nat option" where
  "observation_count s = map_option em_num_obs (su_model s)"

definition observation_row_x :: "nat \<Rightarrow> 'f ENNSurrogate \<Rightarrow> ENNError + f64 list" where
  "observation_row_x i s = rbind (ok_or (su_model s) EParameter) (\<lambda>m. eb_row_x i (em_backend m))"

definition observation_row_y :: "nat \<Rightarrow> 'f ENNSurrogate \<Rightarrow> ENNError + f64 list" where
  "observation_row_y i s = rbind (ok_or (su_model s) EParameter) (\<lambda>m. eb_row_y i (em_backend m))"

text \<open>A row assigned to one of another width panics, except that one value fills it.\<close>

definition assign_row :: "nat \<Rightarrow> f64 list \<Rightarrow> ENNError + f64 list" where
  "assign_row w r = (if length r = w then Inr r else if length r = 1 then Inr (replicate w (hd r)) else Inl EPanic)"

definition gather_observations ::
    "(nat \<Rightarrow> 'f EnnBackend \<Rightarrow> ENNError + f64 list) \<Rightarrow> ('f EpistemicNearestNeighbors \<Rightarrow> nat) \<Rightarrow> 'f ENNSurrogate \<Rightarrow> ENNError + ematrix option" where
  "gather_observations read width s = (case su_model s of None \<Rightarrow> Inr None
     | Some m \<Rightarrow> if em_num_obs m = 0 then Inr None
         else rbind (map_res (\<lambda>i. rbind (read i (em_backend m)) (assign_row (width m))) [0..<em_num_obs m])
           (\<lambda>rows. Inr (Some (width m, rows))))"

definition observations_y :: "'f ENNSurrogate \<Rightarrow> ENNError + ematrix option" where
  "observations_y = gather_observations eb_row_y em_metrics"

definition observations_x :: "'f ENNSurrogate \<Rightarrow> ENNError + ematrix option" where
  "observations_x = gather_observations eb_row_x em_dim"

definition su_schedule_background_flush ::
    "('f, 'r, 'g, 'q) surrogate_env \<Rightarrow> 'f ENNSurrogate \<Rightarrow> ((ENNError + unit) \<times> 'f ENNSurrogate) option" where
  "su_schedule_background_flush env = on_su_model (model_schedule_background_flush (model_env.truncate env))"

definition su_wait_for_background_flush :: "'f ENNSurrogate \<Rightarrow> ((ENNError + unit) \<times> 'f ENNSurrogate) option" where
  "su_wait_for_background_flush = on_su_model (with_backend eb_wait_for_flush)"

definition su_release_observation_pages ::
    "('f, 'r, 'g, 'q) surrogate_env \<Rightarrow> 'f ENNSurrogate \<Rightarrow> ((ENNError + unit) \<times> 'f ENNSurrogate) option" where
  "su_release_observation_pages env = on_su_model (release_pages env)"

text \<open>A prediction synchronises the index of the model it asks.\<close>

definition su_predict ::
    "('f, 'r, 'g, 'q) surrogate_env \<Rightarrow> ematrix \<Rightarrow> 'f ENNSurrogate \<Rightarrow> ((ENNError + ematrix \<times> ematrix) \<times> 'f ENNSurrogate) option" where
  "su_predict env x s = (case su_model s of
      None \<Rightarrow> Some (Inl EParameter, s)
    | Some m \<Rightarrow>
        (case (case su_params s of Some p \<Rightarrow> Some p | None \<Rightarrow> enn_params_new (sc_k (su_config s)) (flit 1 1) fzero) of
           None \<Rightarrow> Some (Inl EParameter, s)
         | Some p \<Rightarrow>
             map_option (\<lambda>(r, m1). (rbind r (\<lambda>out. Inr (nm_mu out, nm_se out)), s\<lparr>su_model := Some m1\<rparr>))
               (enn_posterior (posterior_env.truncate env) m x p (posterior_flags_new\<lparr>pf_tie_break_neighbors := False\<rparr>))))"

definition su_sample ::
    "('f, 'r, 'g, 'q) surrogate_env \<Rightarrow> ematrix \<Rightarrow> nat \<Rightarrow> 'f ENNSurrogate \<times> 'q
      \<Rightarrow> ((ENNError + f64 list list list) \<times> 'f ENNSurrogate \<times> 'q) option" where
  "su_sample env x n = (\<lambda>(s, q). case (su_model s, su_params s) of
      (Some m, Some p) \<Rightarrow>
        let (base, q1) = se_base_seed env q in
        map_option (\<lambda>(r, m1). (rbind r (\<lambda>(draws, _). Inr draws), s\<lparr>su_model := Some m1\<rparr>, q1))
          (posterior_function_draw (posterior_env.truncate env) m x p (map (\<lambda>i. base + of_nat i) [0..<n]) default_flags)
    | _ \<Rightarrow> Some (Inl EParameter, s, q))"

definition su_lengthscales :: "'f ENNSurrogate \<Rightarrow> f64 list option" where
  "su_lengthscales s = None"

end
