(* ===== verification/SurrogateLaws.thy ===== *)
theory SurrogateLaws
  imports Surrogate FitterLaws
begin

text \<open>
  The surrogate appends rows to its model before its fitter looks at them: rows that the fitter
  refuses are reported as an error and stay stored.
\<close>

lemma told_rows_refused: "\<not> told_rows_ok x y yvar \<Longrightarrow> fitter_tell env x y yvar ft = Inl EParameter"
  by (simp add: fitter_tell_def)

lemma append_refused:
  assumes "model_add (model_env.truncate env) x y yvar m = Some (Inr (), m1)" "su_fitter s = Some ft" "\<not> told_rows_ok x y yvar"
  shows "append_to_model env x y yvar g m s = Some (Inl EParameter, s\<lparr>su_model := Some m1\<rparr>)"
  using assms by (simp add: append_to_model_def told_rows_refused)

text \<open>A model in memory after rows were stored: counted, and behind those it held.\<close>

definition holds_also :: "'f EpistemicNearestNeighbors \<Rightarrow> f64 list list \<Rightarrow> f64 list list \<Rightarrow> 'f EpistemicNearestNeighbors \<Rightarrow> bool" where
  "holds_also m xs ys m1 \<longleftrightarrow> em_num_obs m1 = em_num_obs m + length xs \<and>
     (\<exists>b b1. em_backend m = InMemory b \<and> em_backend m1 = InMemory b1 \<and>
        rs_rows (im_x b1) = rs_rows (im_x b) @ xs \<and> rs_rows (im_y b1) = rs_rows (im_y b) @ ys)"

lemma noted_backend:
  assumes "em_backend m = InMemory b"
  shows "\<exists>b1. em_backend (note_rows x y m) = InMemory b1 \<and> data_of b1 = data_of b"
  using assms
  by (cases "em_scale_x m") (simp_all add: note_rows_def Let_def eb_mark_index_stale_def split: prod.split)

lemma rows_of_data: "data_of b1 = data_of b \<Longrightarrow> im_x b1 = im_x b \<and> im_y b1 = im_y b"
  by (simp add: data_of_def)

lemma stored_rows_counted:
  assumes "model_ok m" "validate_add x y yvar m = Inr ()" "snd x \<noteq> []"
    and "\<not> em_bounded m \<or> warped env (em_y_bounds m) y yvar = Inr w"
  obtains m1 where "model_add env x y yvar m = Some (Inr (), m1)" "holds_also m (snd x) (snd (if em_bounded m then fst w else y)) m1"
proof -
  obtain b where b: "em_backend m = InMemory b" "data_ok m b" using assms(1) by (rule model_okE)
  have "stored_rows env m y yvar = Inr (if em_bounded m then w else (y, yvar))" using assms(4) by (auto simp: stored_rows_def)
  then obtain wv where stored: "stored_rows env m y yvar = Inr (if em_bounded m then fst w else y, wv)"
    by (cases w) (auto split: if_splits)
  let ?wy = "if em_bounded m then fst w else y"
  show thesis
  proof (rule that)
    show "model_add env x y yvar m = Some (Inr (), note_rows x ?wy (m\<lparr>em_backend := InMemory (with_rows x ?wy wv b)\<rparr>))"
      using assms(2,3) stored by (simp add: model_add_in_memory [OF b])
    have "em_num_obs (note_rows x ?wy (m\<lparr>em_backend := InMemory (with_rows x ?wy wv b)\<rparr>)) = em_num_obs m + length (snd x)"
      using note_rows_fields(1) [of "m\<lparr>em_backend := InMemory (with_rows x ?wy wv b)\<rparr>" "with_rows x ?wy wv b"] data_okD(1) [OF b(2)] by (simp add: in_memory_len_def)
    moreover obtain b1 where "em_backend (note_rows x ?wy (m\<lparr>em_backend := InMemory (with_rows x ?wy wv b)\<rparr>)) = InMemory b1" "data_of b1 = data_of (with_rows x ?wy wv b)"
      using noted_backend [of "m\<lparr>em_backend := InMemory (with_rows x ?wy wv b)\<rparr>" "with_rows x ?wy wv b" x ?wy] by auto
    ultimately show "holds_also m (snd x) (snd ?wy) (note_rows x ?wy (m\<lparr>em_backend := InMemory (with_rows x ?wy wv b)\<rparr>))"
      using b(1) rows_of_data [of b1 "with_rows x ?wy wv b"] by (simp add: holds_also_def)
  qed
qed

text \<open>C10: Rows of the shape that the model's validation accepts, with an input, output or variance that is not
  finite, appended to a surrogate with a model in memory and a fitter: when the outputs are unbounded, or
  are bounded and the warp accepts them (it refuses outputs that are not finite, so that the bad value is an
  input), the call reports an error, yet the model counts the rows and holds them behind its own, the
  outputs as the warp gives them, while the fitter keeps the statistics and the parameters of before.\<close>

theorem rejected_rows_stay_stored:
  assumes "su_model s = Some m" "su_fitter s = Some ft" "model_ok m"
    and "\<not> em_bounded m \<or> warped (model_env.truncate env) (em_y_bounds m) y yvar = Inr w"
    and "validate_add x y yvar m = Inr ()" "snd x \<noteq> []" "\<not> told_rows_ok x y yvar"
  shows "\<exists>s'. fit_append env dir x y yvar (s, q) = Some (Inl EParameter, s', snd (se_local env q)) \<and>
    observation_count s' = Some (em_num_obs m + length (snd x)) \<and> su_fitter s' = Some ft \<and> su_params s' = su_params s \<and>
    (\<exists>m1. su_model s' = Some m1 \<and> holds_also m (snd x) (snd (if em_bounded m then fst w else y)) m1)"
proof -
  obtain m1 where m1: "model_add (model_env.truncate env) x y yvar m = Some (Inr (), m1)"
    "holds_also m (snd x) (snd (if em_bounded m then fst w else y)) m1"
    by (rule stored_rows_counted [OF assms(3,5,6,4)])
  have "fit_append env dir x y yvar (s, q) = Some (Inl EParameter, s\<lparr>su_model := Some m1\<rparr>, snd (se_local env q))"
    using assms(1) append_refused [OF m1(1) assms(2,7)] by (simp add: fit_append_def fit_append_internal_def split: prod.split)
  then show ?thesis using m1(2) assms(2) by (simp add: observation_count_def holds_also_def)
qed

definition plain_surrogate_env :: "(nat \<times> f32 list, unit, unit, unit) surrogate_env" where
  "plain_surrogate_env = fit_env.extend plain_fit_env (surrogate_env.fields (\<lambda>q. ((), q)) (\<lambda>q. (0, q)))"

definition fitted_surrogate :: "(nat \<times> f32 list) ENNSurrogate" where
  "fitted_surrogate = \<lparr>su_config = default_surrogate_config, su_model = Some (plain_model 1 [[fzero]] 1 [[fzero]] None),
     su_params = Some warm_params, su_fitter = Some told_fitter\<rparr>"

theorem rejected_rows_stay_stored_witness:
  "\<exists>s'. fit_append plain_surrogate_env None (1, [[fzero]]) (1, [[infinity]]) None (fitted_surrogate, ()) =
       Some (Inl EParameter, s', ()) \<and> observation_count s' = Some 2 \<and> su_fitter s' = Some told_fitter"
proof -
  let ?m = "plain_model 1 [[fzero]] 1 [[fzero]] None"
  have made: "made_in_memory plain_env (1, [[fzero]]) (1, [[fzero]]) None plain_options ?m" by (rule plain_model_made) simp_all
  have ok: "model_ok ?m" by (rule model_ok_made [OF made])
  have valid: "validate_add (1, [[fzero]]) (1, [[infinity]]) None ?m = Inr ()"
    by (simp add: validate_add_def plain_model_fields yvar_present_def eb_row_yvar_def in_memory_row_yvar_def plain_backend_def
      in_memory_len_def)
  have bad: "\<not> told_rows_ok (1, [[fzero]]) (1, [[infinity]]) None"
    by (simp add: told_rows_ok_def finite_matrix_def) (simp add: float_eval)
  have fields: "su_model fitted_surrogate = Some ?m" "su_fitter fitted_surrogate = Some told_fitter"
    by (simp_all add: fitted_surrogate_def)
  have "\<not> em_bounded ?m" "em_num_obs ?m = 1" by (simp_all add: plain_model_fields)
  with rejected_rows_stay_stored [OF fields ok _ valid _ bad, of plain_surrogate_env _ None "()"] show ?thesis
    by (auto simp: numeral_2_eq_2)
qed

end
