(* ===== verification/Spec2Isabelle.thy ===== *)
theory Spec2Isabelle
  imports Prelude Floats ByteCodec BpannPage RowStore MmapStore TopK FloatWiden BpannDistance BpannKmeans BpannTuning BpannIndex BpannMerge BpannSearch BpannPersist BpannObservation BpannSync BpannCover BpannBackend FloatExact BpannBackendLaws FlushController EnnIndex EnnMemory YBounds EnnModel EnnModelLaws BoundsLaws BpannHistory Candidates FloatOrder FloatRepr CandidatesLaws Neighbors SplitHash Posterior PosteriorDraw DrawLaws EnnSyncLaws Fitter NeighborLaws PosteriorSearch PosteriorLaws FitterLaws ForwardProgram ForwardPlans IncumbentTracker TrustRegion TrustRegionLaws MorboRegion MorboLaws MultiRegion MultiRegionLaws Pareto Optimizer Strategy OptimizerLaws OptimizerReach ParetoLaws TrialCodes TrialLaws TrialEngine TrialRank TrialSearch TrialReach Resident Sparse SparseDraw Surrogate SurrogateLaws
begin

text \<open>
  A model of \<open>ennbo\<close>, a Bayesian optimiser built on epistemic nearest neighbours, and of the
  libraries it rests on. The program is a set of Rust crates under \<open>src/rust/crates\<close>: \<open>bpann\<close>, a
  disk-backed nearest-neighbour index, and \<open>ennx\<close>, the optimiser with its trial search over
  quantized weight rows, its observation backends, trust regions and acquisition rules.

  How the parts interact. The optimiser asks for candidates inside a trust region, scores them
  with the neighbours of the observations, takes the arms its acquisition rule selects, and is told
  their values, which move the incumbent and the region. Observations live in a backend; the disk
  backend is a \<open>bpann\<close> backend: rows are appended to memory-mapped columns, indexed by partition
  trees in fragments, synchronised in the background, persisted atomically and searched exactly
  (few rows) or through the fragments (many rows). The trial search keeps its rows in
  slots of one store and perturbs them by seed; sparse moves change words of packed weights.

  \<^bold>\<open>Foundations.\<close> \<open>Prelude\<close>: machine types, results and checked arithmetic. \<open>Floats\<close>: the
  binary32 and binary64 operations on bit patterns with round-to-nearest-even, NaNs, infinities and
  signed zeros; \<open>FloatWiden\<close>, \<open>FloatExact\<close> and \<open>FloatOrder\<close>: exact widening, exact results, and
  monotone rounding. \<open>ByteCodec\<close>, \<open>RowStore\<close> and \<open>TopK\<close> state the interfaces of a byte codec, of a
  store of rows and of a ranking as locales; the theories that provide them interpret them.

  \<^bold>\<open>Sparse moves\<close> (\<open>ennx/src/weights.rs\<close>): \<open>Sparse\<close> and \<open>SparseDraw\<close>; composing moves by XOR acts as
  applying them in turn, in any order; drawn moves are checked moves; the word cache refills.

  \<^bold>\<open>Trial search\<close> (\<open>ennx/src/trials.rs\<close>, \<open>trials/\<close>): \<open>TrialCodes\<close> and \<open>TrialLaws\<close> model quantized rows,
  \<open>TrialEngine\<close> and \<open>TrialRank\<close> the CPU scorer, \<open>TrialSearch\<close> the state machine and \<open>TrialReach\<close> its
  reachable states; \<open>BpannHistory\<close> the history kept in a disk index. \<open>Resident\<close> is the session
  on top (\<open>forward_program.rs\<close>); \<open>ForwardProgram\<close> and \<open>ForwardPlans\<close> are the program and its kernel plans.

  \<^bold>\<open>Disk index\<close> (\<open>bpann/src\<close>): \<open>BpannPage\<close> (pages and their bytes), \<open>BpannTuning\<close>, \<open>MmapStore\<close>,
  \<open>BpannDistance\<close> (lane-wise distances, the heap search), \<open>BpannKmeans\<close> (the partition), \<open>BpannIndex\<close> and
  \<open>BpannMerge\<close> (building and concatenating), \<open>BpannPersist\<close> (files, faults, rollback), \<open>BpannSearch\<close>
  (leaf scans and the descent), \<open>BpannObservation\<close> (metadata files), \<open>BpannSync\<close> and \<open>BpannCover\<close> (the
  incremental index and its compaction), \<open>BpannBackend\<close> and \<open>BpannBackendLaws\<close> (the whole backend).
  \<open>FlushController\<close> is the disk backend of the optimiser with its flush thread as a step relation.

  \<^bold>\<open>Optimiser\<close> (\<open>ennx/src\<close>): \<open>TrustRegion\<close> and \<open>TrustRegionLaws\<close> (\<open>trust_region.rs\<close>): the region's length and
  counters stay in range in every reachable state, its bounds bracket the centre, failures force a
  restart. \<open>MorboRegion\<close> and \<open>MorboLaws\<close> (\<open>morbo_trust_region.rs\<close>, \<open>optimizer/tr_state.rs\<close>): the
  multi-objective region, its running ranges and its scalarisation. \<open>MultiRegion\<close> and
  \<open>MultiRegionLaws\<close> (\<open>optimizer/multi_tr.rs\<close>): several regions that share a budget and their
  observations. \<open>IncumbentTracker\<close> (\<open>incumbent_tracker.rs\<close>): the incremental choice of incumbents.
  \<open>Pareto\<close> and \<open>ParetoLaws\<close> (\<open>acquisition.rs\<close>, \<open>util.rs\<close>): the acquisition rules, both
  non-dominated sorts and their agreement.
  \<open>SplitHash\<close> (\<open>hash.rs\<close>): the random numbers made by hashing seed, row and metric.
  \<open>Candidates\<close> and \<open>CandidatesLaws\<close> (\<open>candidates.rs\<close>): the candidate generators; a Latin hypercube has one
  sample per stratum. \<open>Optimizer\<close> (\<open>optimizer/\<close>) is the optimiser's state, its observations and its
  incumbent over a surrogate that is a parameter; \<open>Strategy\<close> (\<open>strategy/mod.rs\<close>) its strategies, ask and
  tell. \<open>OptimizerLaws\<close> and \<open>OptimizerReach\<close> treat the optimiser without a surrogate: the incumbent
  of every reachable state is a stored row, single-valued batches are always accepted, and a batch
  rejected for its width blocks the optimiser for good.

  \<^bold>\<open>ENN model\<close> (\<open>ennx/src/model.rs\<close>): \<open>EnnIndex\<close> (\<open>index.rs\<close>, \<open>knn/\<close>) is the index in memory over
  the C functions of faiss, \<open>EnnMemory\<close> (\<open>backend/\<close>) the backend in memory and the choice between it and
  the disk backend, \<open>YBounds\<close> (\<open>y_bounds.rs\<close>) the warp of bounded outputs and their metadata field,
  \<open>EnnModel\<close> the model itself. \<open>EnnModelLaws\<close> takes a model in memory through any calls: its statistics
  are those of its rows, an add that fails changes nothing, rows in range can be read unless the
  model was made with an empty store of variances. \<open>EnnSyncLaws\<close>: a synchronised index holds the
  rows at the current scale, and the incremental branch of the synchronisation is dead.
  \<open>BoundsLaws\<close>: bounds in the metadata are read back, and dropping a dirty disk model loses them.

  \<^bold>\<open>Posterior\<close> (\<open>ennx/src/posterior.rs\<close>, \<open>posterior/\<close>): \<open>Neighbors\<close> searches the index and breaks ties,
  \<open>Posterior\<close> weighs the neighbours, by the full and by the fused path, alone and in a batch,
  \<open>PosteriorDraw\<close> draws functions and conditions on what-if rows. \<open>NeighborLaws\<close>: a query gets the
  nearest rows if the pool of the index misses none of them, and ties at the last place never look
  outside the pool. \<open>PosteriorSearch\<close>: what a search answers in a model in memory. \<open>PosteriorLaws\<close>: the
  fused path is the full path, bit for bit. \<open>DrawLaws\<close>: a draw uses one normal value per neighbour,
  whatever else is drawn with it.

  \<^bold>\<open>Fitting\<close> (\<open>ennx/src/fit.rs\<close>, \<open>fitter.rs\<close>, \<open>surrogate.rs\<close>): \<open>Fitter\<close> scores random parameters by the
  likelihood of a sample of the rows and keeps the best, \<open>Surrogate\<close> is the model with its fitter, as
  the optimiser uses it. \<open>FitterLaws\<close>: the parameters kept are a valid candidate of the best score, and
  a candidate without usable predictions beats every negative likelihood. \<open>SurrogateLaws\<close>: appended rows that
  the fitter refuses stay in the model.

  Conventions. A \<open>usize\<close> is a natural number where the source cannot overflow it, a word where it
  can; an array is a list; a method returns the state with its result, so what a failing call leaves
  behind is part of the model. What is outside the repository is a parameter: random sources, the
  functions of libm, the operating system's answers, the JSON of a header. A loop without a bound is a
  partial function or takes fuel, and a theorem then says what fuel is enough, or that none is.
  The partition of \<open>BpannKmeans\<close> uses one unit of fuel per level: one more than there are rows is enough
  when every k-means run separates two rows, and for more identical rows than fit a leaf none is. Running
  out of it is no answer of the program: \<open>ensure_sync\<close> of \<open>BpannSync\<close> has no result then, nor has the
  build of the flush worker. The descent of \<open>BpannSearch\<close> uses one unit per page visited, and the visited
  set bounds it by the number of pages.

  Not modelled: the GPU engines (the effects are those of kernels in other languages), the C++ bridge
  to faiss, the bindings to usearch and Python, the command-line tool and configuration
  files (serde data). 
\<close>

end
